(* ===== verification/Prelude.thy ===== *)
theory Prelude
  imports Main "HOL-Library.Code_Target_Nat"
begin

text \<open>
  What every component shares: Python's \<open>str\<close> as a list of code points with the handful of its
  methods the library calls, exceptions as values, and the lemma collections of the development.

  A Python string is a sequence of Unicode code points (lone surrogates included), so it is
  modelled as \<open>nat list\<close>; \<open>str ''abc''\<close> is the literal.  Slices \<open>s[i:j]\<close> never raise, reads
  \<open>s[i]\<close> past the end do: every model below writes the bounds test or the \<open>IndexError\<close> out.
\<close>

named_theorems py_simps \<open>rewrite rules for the helper functions on strings\<close>
named_theorems hoare \<open>triples of the parser combinators and of the parsing methods\<close>

section \<open>Strings\<close>

type_synonym uchar = nat
type_synonym pystr = "uchar list"

definition str :: "string \<Rightarrow> pystr" where
  "str s = map of_char s"

lemma str_inj [simp]: "str a = str b \<longleftrightarrow> a = b"
  by (auto simp: str_def inj_map_eq_map inj_def)

lemma str_Nil [simp]: "str [] = []"
  by (simp add: str_def)

lemma str_eq_Nil [simp]: "str a = [] \<longleftrightarrow> a = []" "[] = str a \<longleftrightarrow> a = []"
  by (auto simp: str_def)

lemma str_Cons: "str (c # s) = of_char c # str s"
  by (simp add: str_def)

lemma str_append: "str (a @ b) = str a @ str b"
  by (simp add: str_def)

lemma length_str [simp]: "length (str s) = length s"
  by (simp add: str_def)

text \<open>\<open>s[i:j]\<close> for \<open>0 \<le> i\<close>; and \<open>s[i:i+1]\<close>, the character at \<open>i\<close> or the empty string.\<close>

definition slice :: "'a list \<Rightarrow> nat \<Rightarrow> nat \<Rightarrow> 'a list" where
  "slice s i j = take (j - i) (drop i s)"

lemma length_slice [simp]: "length (slice s i j) = min (j - i) (length s - i)"
  by (simp add: slice_def min.commute)

lemma slice_self [simp]: "slice s i i = []"
  by (simp add: slice_def)

lemma slice_Suc:
  "i \<le> j \<Longrightarrow> j < length s \<Longrightarrow> slice s i (Suc j) = slice s i j @ [s ! j]"
  by (simp add: slice_def Suc_diff_le take_Suc_conv_app_nth)

lemma slice_append:
  assumes "i \<le> j" and "j \<le> k"
  shows "slice s i j @ slice s j k = slice s i k"
proof -
  have "drop j s = drop (j - i) (drop i s)" using assms by simp
  moreover have "k - i = (j - i) + (k - j)" using assms by simp
  ultimately show ?thesis by (simp only: slice_def take_add)
qed

lemma slice_one:
  "slice s i (Suc i) = (if i < length s then [s ! i] else [])"
  by (simp add: slice_def take_Suc_conv_app_nth)

text \<open>\<open>sep.join(xs)\<close>\<close>

fun str_join :: "'a list \<Rightarrow> 'a list list \<Rightarrow> 'a list" where
  "str_join sep [] = []"
| "str_join sep [x] = x"
| "str_join sep (x # y # ys) = x @ sep @ str_join sep (y # ys)"

text \<open>\<open>s.startswith(p)\<close>, \<open>s.endswith(p)\<close>\<close>

fun startswith :: "'a list \<Rightarrow> 'a list \<Rightarrow> bool" where
  "startswith s [] = True"
| "startswith [] (p # ps) = False"
| "startswith (c # s) (p # ps) = (c = p \<and> startswith s ps)"

definition endswith :: "'a list \<Rightarrow> 'a list \<Rightarrow> bool" where
  "endswith s p = startswith (rev s) (rev p)"

lemma startswith_take: "startswith s p \<longleftrightarrow> take (length p) s = p"
  by (induction s p rule: startswith.induct) auto

lemma startswith_append [simp]: "startswith (p @ s) p"
  by (simp add: startswith_take)

text \<open>\<open>s.replace(old, new)\<close> for a non-empty \<open>old\<close>: leftmost occurrences, not overlapping.\<close>

function str_replace :: "'a list \<Rightarrow> 'a list \<Rightarrow> 'a list \<Rightarrow> 'a list" where
  "str_replace old new [] = []"
| "str_replace old new (c # s) =
     (if old \<noteq> [] \<and> startswith (c # s) old
      then new @ str_replace old new (drop (length old) (c # s))
      else c # str_replace old new s)"
  by pat_completeness auto
termination
  by (relation "measure (\<lambda>(old, new, s). length s)")
     (auto simp: less_Suc_eq_le Suc_diff_le neq_Nil_conv)

declare str_replace.simps(2) [simp del]

text \<open>Replacing one character by a string is a character-wise map.\<close>

lemma str_replace_single:
  "str_replace [a] new s = concat (map (\<lambda>c. if c = a then new else [c]) s)"
  by (induction s) (simp_all add: str_replace.simps(2))

text \<open>
  \<open>s.splitlines()\<close>: Python splits at more characters than the line terminators of GraphQL:
  \<open>\n\<close>, \<open>\v\<close>, \<open>\f\<close>, \<open>\r\<close>, \<open>\r\n\<close>, FS, GS, RS, NEL, LS, PS.  A final line break opens no new line.
\<close>

definition is_py_linebreak :: "uchar \<Rightarrow> bool" where
  "is_py_linebreak c \<longleftrightarrow>
     (10 \<le> c \<and> c \<le> 13) \<or> (28 \<le> c \<and> c \<le> 30) \<or> c = 133 \<or> c = 8232 \<or> c = 8233"

fun splitlines_aux :: "pystr \<Rightarrow> pystr \<Rightarrow> pystr list" where
  "splitlines_aux cur [] = (if cur = [] then [] else [rev cur])"
| "splitlines_aux cur [c] =
     (if is_py_linebreak c then [rev cur] else [rev (c # cur)])"
| "splitlines_aux cur (c # d # s) =
     (if c = 13 \<and> d = 10 then rev cur # splitlines_aux [] s
      else if is_py_linebreak c then rev cur # splitlines_aux [] (d # s)
      else splitlines_aux (c # cur) (d # s))"

definition splitlines :: "pystr \<Rightarrow> pystr list" where
  "splitlines s = splitlines_aux [] s"

text \<open>\<open>s.rjust(n)\<close>\<close>

definition rjust :: "nat \<Rightarrow> pystr \<Rightarrow> pystr" where
  "rjust n s = replicate (n - length s) 32 @ s"

section \<open>Numbers as text\<close>

function dec_digits :: "nat \<Rightarrow> pystr" where
  "dec_digits n = (if n < 10 then [48 + n] else dec_digits (n div 10) @ [48 + n mod 10])"
  by pat_completeness auto
termination
  by (relation "measure id") auto

declare dec_digits.simps [simp del]

definition show_int :: "int \<Rightarrow> pystr" where
  "show_int i = (if i < 0 then 45 # dec_digits (nat (- i)) else dec_digits (nat i))"

definition hex_digit_upper :: "nat \<Rightarrow> uchar" where
  "hex_digit_upper d = (if d < 10 then 48 + d else 55 + d)"

function hex_digits_upper :: "nat \<Rightarrow> pystr" where
  "hex_digits_upper n =
     (if n < 16 then [hex_digit_upper n]
      else hex_digits_upper (n div 16) @ [hex_digit_upper (n mod 16)])"
  by pat_completeness auto
termination
  by (relation "measure id") auto

declare hex_digits_upper.simps [simp del]

text \<open>\<open>f"{n:04X}"\<close>\<close>

definition format_04X :: "nat \<Rightarrow> pystr" where
  "format_04X n =
     (let ds = hex_digits_upper n in replicate (4 - length ds) 48 @ ds)"

section \<open>Exceptions as values\<close>

text \<open>
  The exceptions the modelled code can raise.  \<open>OutOfFuel\<close> is no exception of the program: it is
  the answer of a loop or recursion whose fuel ran out, and the development proves that the
  entry points never give it.
\<close>

datatype py_error =
    GraphQLSyntaxError (err_position: nat) (err_description: pystr)
  | IndexError
  | ValueError pystr
  | TypeError pystr
  | AttributeError
  | KeyError pystr
  | GraphQLError pystr
  | OutOfFuel

definition bind_result :: "'e + 'a \<Rightarrow> ('a \<Rightarrow> 'e + 'b) \<Rightarrow> 'e + 'b" where
  "bind_result r f = (case r of Inl e \<Rightarrow> Inl e | Inr x \<Rightarrow> f x)"

lemma bind_result_simps [simp]:
  "bind_result (Inl e) f = Inl e"
  "bind_result (Inr x) f = f x"
  by (simp_all add: bind_result_def)

lemma bind_result_Inr_iff:
  "bind_result r f = Inr y \<longleftrightarrow> (\<exists>x. r = Inr x \<and> f x = Inr y)"
  by (cases r) auto

lemma bind_result_Inl_iff:
  "bind_result r f = Inl e \<longleftrightarrow> r = Inl e \<or> (\<exists>x. r = Inr x \<and> f x = Inl e)"
  by (cases r) auto

section \<open>Scanning\<close>

text \<open>\<open>while position < len(body) and p(body[position]): position += 1\<close>\<close>

function scan_while :: "(uchar \<Rightarrow> bool) \<Rightarrow> pystr \<Rightarrow> nat \<Rightarrow> nat" where
  "scan_while p body position =
     (if position < length body \<and> p (body ! position)
      then scan_while p body (Suc position) else position)"
  by pat_completeness auto
termination
  by (relation "measure (\<lambda>(p, body, position). length body - position)") auto

declare scan_while.simps [simp del]

text \<open>The scan stops after the longest run of accepted characters.\<close>

lemma scan_while_takeWhile:
  "position \<le> length body \<Longrightarrow>
     scan_while p body position = position + length (takeWhile p (drop position body))"
proof (induction p body position rule: scan_while.induct)
  case (1 p body position)
  show ?case
  proof (cases "position < length body")
    case True
    then have "drop position body = body ! position # drop (Suc position) body"
      by (simp add: Cons_nth_drop_Suc)
    with True "1.IH" show ?thesis
      by (cases "p (body ! position)") (simp_all add: scan_while.simps [of p body position])
  next
    case False
    with "1.prems" show ?thesis by (subst scan_while.simps) simp
  qed
qed

lemma scan_while_ge: "position \<le> scan_while p body position"
  by (induction p body position rule: scan_while.induct) (subst scan_while.simps, auto)

lemma scan_while_le: "position \<le> length body \<Longrightarrow> scan_while p body position \<le> length body"
  by (induction p body position rule: scan_while.induct) (subst scan_while.simps, auto)

end
