(* ===== verification/Source_Location.thy ===== *)
theory Source_Location
  imports Prelude
begin

text \<open>
  Source texts and positions in them (\<open>language/source.py\<close>, \<open>language/location.py\<close>,
  \<open>language/print_location.py\<close>): the \<open>Source\<close> object with its validated offset, the conversion
  of a character position into line and column, and the excerpt printed below an error.
\<close>

section \<open>Sources\<close>

record source_location =
  sl_line :: int
  sl_column :: int

record source =
  src_body :: pystr
  src_name :: pystr
  src_location_offset :: source_location

definition DEFAULT_NAME :: pystr where
  "DEFAULT_NAME = str ''GraphQL request''"

definition DEFAULT_SOURCE_LOCATION :: source_location where
  "DEFAULT_SOURCE_LOCATION = \<lparr>sl_line = 1, sl_column = 1\<rparr>"

definition Source_init :: "pystr \<Rightarrow> pystr \<Rightarrow> source_location \<Rightarrow> py_error + source" where
  "Source_init body name location_offset =
     (if sl_line location_offset \<le> 0
      then Inl (ValueError (str ''line in location_offset is 1-indexed and must be positive.''))
      else if sl_column location_offset \<le> 0
      then Inl (ValueError (str ''column in location_offset is 1-indexed and must be positive.''))
      else Inr \<lparr>src_body = body, src_name = name, src_location_offset = location_offset\<rparr>)"

text \<open>\<open>Source(body)\<close> with the default name and offset.\<close>

definition source_of :: "pystr \<Rightarrow> source" where
  "source_of body =
     \<lparr>src_body = body, src_name = DEFAULT_NAME, src_location_offset = DEFAULT_SOURCE_LOCATION\<rparr>"

lemma source_of_body [simp]: "src_body (source_of body) = body"
  by (simp add: source_of_def)

lemma Source_init_default:
  "Source_init body DEFAULT_NAME DEFAULT_SOURCE_LOCATION = Inr (source_of body)"
  by (simp add: Source_init_def source_of_def DEFAULT_SOURCE_LOCATION_def)

section \<open>Line and column of a position\<close>

definition Source_get_location :: "source \<Rightarrow> nat \<Rightarrow> source_location" where
  "Source_get_location source position =
     (let lines = splitlines (take position (src_body source))
      in if lines \<noteq> []
         then \<lparr>sl_line = int (length lines), sl_column = int (length (last lines)) + 1\<rparr>
         else \<lparr>sl_line = 1, sl_column = 1\<rparr>)"

definition get_location :: "source \<Rightarrow> nat \<Rightarrow> source_location" where
  "get_location source position = Source_get_location source position"

section \<open>Printing a location\<close>

text \<open>\<open>_re_newline.split(body)\<close>: the line terminators of GraphQL, \<open>\r\n\<close>, \<open>\n\<close> and \<open>\r\<close>.\<close>

fun newline_split_aux :: "pystr \<Rightarrow> pystr \<Rightarrow> pystr list" where
  "newline_split_aux cur [] = [rev cur]"
| "newline_split_aux cur [c] =
     (if c = 10 \<or> c = 13 then [rev cur, []] else [rev (c # cur)])"
| "newline_split_aux cur (c # d # s) =
     (if c = 13 \<and> d = 10 then rev cur # newline_split_aux [] s
      else if c = 10 \<or> c = 13 then rev cur # newline_split_aux [] (d # s)
      else newline_split_aux (c # cur) (d # s))"

definition newline_split :: "pystr \<Rightarrow> pystr list" where
  "newline_split s = newline_split_aux [] s"

text \<open>The lines that have a text, each right-aligned to the longest prefix.\<close>

definition print_prefixed_lines :: "(pystr \<times> pystr option) list \<Rightarrow> pystr" where
  "print_prefixed_lines lines =
     (let existing_lines = [(p, l). (p, Some l) \<leftarrow> lines];
          pad_len = Max (set (map (length \<circ> fst) existing_lines))
      in str_join (str ''\<newline>'')
           (map (\<lambda>(prefix, line). rjust pad_len prefix
                    @ (if line \<noteq> [] then str '' '' @ line else [])) existing_lines))"

text \<open>\<open>[s[i : i + 80] for i in range(0, len(s), 80)]\<close>\<close>

fun chunks_of_80 :: "pystr \<Rightarrow> pystr list" where
  "chunks_of_80 [] = []"
| "chunks_of_80 (c # s) = take 80 (c # s) # chunks_of_80 (drop 79 s)"

text \<open>
  Lists are read with Python's rules: the model answers \<open>IndexError\<close> where the code would raise it
  (a location whose line the body does not have).
\<close>

definition py_index :: "'a list \<Rightarrow> int \<Rightarrow> py_error + 'a" where
  "py_index xs i =
     (let j = (if i < 0 then int (length xs) + i else i)
      in if 0 \<le> j \<and> j < int (length xs) then Inr (xs ! nat j) else Inl IndexError)"

text \<open>\<open>xs[i]\<close> at an index the code has made sure of, counted from the end when negative.\<close>

definition py_at :: "'a list \<Rightarrow> int \<Rightarrow> 'a" where
  "py_at xs i = xs ! nat (if i < 0 then int (length xs) + i else i)"

definition print_source_location :: "source \<Rightarrow> source_location \<Rightarrow> py_error + pystr" where
  "print_source_location source source_location =
     (let first_line_column_offset = sl_column (src_location_offset source) - 1;
          body = rjust (nat first_line_column_offset) [] @ src_body source;
          line_index = sl_line source_location - 1;
          line_offset = sl_line (src_location_offset source) - 1;
          line_num = sl_line source_location + line_offset;
          column_offset = (if sl_line source_location = 1 then first_line_column_offset else 0);
          column_num = sl_column source_location + column_offset;
          location_str = src_name source @ str '':'' @ show_int line_num @ str '':''
                           @ show_int column_num @ str ''\<newline>'';
          lines = newline_split body
      in bind_result (py_index lines line_index) (\<lambda>location_line.
         if length location_line > 120
         then
           let sub_line_index = column_num div 80;
               sub_line_column_num = column_num mod 80;
               sub_lines = chunks_of_80 location_line
           in Inr (location_str @ print_prefixed_lines
                ([(show_int line_num @ str '' |'', Some (hd sub_lines))]
                 @ map (\<lambda>sub_line. (str ''|'', Some sub_line))
                     (slice sub_lines 1 (nat (sub_line_index + 1)))
                 @ [(str ''|'', Some (rjust (nat sub_line_column_num) (str ''^''))),
                    (str ''|'',
                      if sub_line_index < int (length sub_lines) - 1
                      then Some (py_at sub_lines (sub_line_index + 1)) else None)]))
         else
           Inr (location_str @ print_prefixed_lines
                [(show_int (line_num - 1) @ str '' |'',
                   if line_index > 0 then Some (py_at lines (line_index - 1)) else None),
                 (show_int line_num @ str '' |'', Some location_line),
                 (str ''|'', Some (rjust (nat column_num) (str ''^''))),
                 (show_int (line_num + 1) @ str '' |'',
                   if line_index < int (length lines) - 1
                   then Some (py_at lines (line_index + 1)) else None)])))"

end
