(* ===== verification/Ast.thy ===== *)
theory Ast
  imports Source_Location
begin

text \<open>
  The token kinds, the tokens and the syntax tree (\<open>language/token_kind.py\<close>, \<open>language/ast.py\<close>).
  A node class is a constructor with its fields in the order of the class and its \<open>loc\<close> last.  The
  \<open>Const\<close> variants of value, argument and directive nodes are annotations for the type checker
  and never instantiated by the code, so they share the constructors of their base classes.
  Tuples are lists; a field that may be \<open>None\<close> is an \<open>option\<close>.
\<close>

section \<open>Tokens\<close>

datatype token_kind =
    SOF | EOF | BANG | DOLLAR | AMP | PAREN_L | PAREN_R | DOT | SPREAD | COLON | EQUALS | AT
  | BRACKET_L | BRACKET_R | BRACE_L | PIPE | BRACE_R | NAME | INT' | FLOAT | STRING
  | BLOCK_STRING | COMMENT

fun token_kind_value :: "token_kind \<Rightarrow> pystr" where
  "token_kind_value SOF = str ''<SOF>''"
| "token_kind_value EOF = str ''<EOF>''"
| "token_kind_value BANG = str ''!''"
| "token_kind_value DOLLAR = str ''$''"
| "token_kind_value AMP = str ''&''"
| "token_kind_value PAREN_L = str ''(''"
| "token_kind_value PAREN_R = str '')''"
| "token_kind_value DOT = str ''.''"
| "token_kind_value SPREAD = str ''...''"
| "token_kind_value COLON = str '':''"
| "token_kind_value EQUALS = str ''=''"
| "token_kind_value AT = str ''@''"
| "token_kind_value BRACKET_L = str ''[''"
| "token_kind_value BRACKET_R = str '']''"
| "token_kind_value BRACE_L = str ''{''"
| "token_kind_value PIPE = str ''|''"
| "token_kind_value BRACE_R = str ''}''"
| "token_kind_value NAME = str ''Name''"
| "token_kind_value INT' = str ''Int''"
| "token_kind_value FLOAT = str ''Float''"
| "token_kind_value STRING = str ''String''"
| "token_kind_value BLOCK_STRING = str ''BlockString''"
| "token_kind_value COMMENT = str ''Comment''"

text \<open>
  The links \<open>prev\<close> and \<open>next\<close> of the token list are not fields here: the lexer state holds the
  tokens linked behind the current one (theory \<open>Lexer\<close>).
\<close>

record token =
  tok_kind :: token_kind
  tok_start :: nat
  tok_end :: nat
  tok_line :: nat
  tok_column :: nat
  tok_value :: "pystr option"

record location =
  loc_start :: nat
  loc_end :: nat
  loc_start_token :: token
  loc_end_token :: token
  loc_source :: source

definition Location_init :: "token \<Rightarrow> token \<Rightarrow> source \<Rightarrow> location" where
  "Location_init start_token end_token source =
     \<lparr>loc_start = tok_start start_token, loc_end = tok_end end_token,
      loc_start_token = start_token, loc_end_token = end_token, loc_source = source\<rparr>"

datatype operation_type = QUERY | MUTATION | SUBSCRIPTION

fun operation_type_value :: "operation_type \<Rightarrow> pystr" where
  "operation_type_value QUERY = str ''query''"
| "operation_type_value MUTATION = str ''mutation''"
| "operation_type_value SUBSCRIPTION = str ''subscription''"

type_synonym loc = "location option"

section \<open>Names, types, values\<close>

datatype name_node = NameNode (name_value: pystr) (name_loc: loc)

datatype named_type_node =
  NamedTypeNode (named_type_name: name_node) (named_type_loc: loc)

datatype type_node =
    NamedType named_type_node
  | ListTypeNode type_node loc
  | NonNullTypeNode type_node loc

datatype variable_node = VariableNode (variable_name: name_node) (variable_loc: loc)

datatype string_value_node =
  StringValueNode (string_value: pystr) (string_block: "bool option") (string_loc: loc)

datatype value_node =
    VariableValue variable_node
  | IntValueNode pystr loc
  | FloatValueNode pystr loc
  | StringValue string_value_node
  | BooleanValueNode bool loc
  | NullValueNode loc
  | EnumValueNode pystr loc
  | ListValueNode "value_node list" loc
  | ObjectValueNode "object_field_node list" loc
and object_field_node =
    ObjectFieldNode (object_field_name: name_node) (object_field_value: value_node)
      (object_field_loc: loc)

datatype argument_node =
  ArgumentNode (argument_name: name_node) (argument_value: value_node) (argument_loc: loc)

datatype fragment_argument_node =
  FragmentArgumentNode (fragment_argument_name: name_node)
    (fragment_argument_value: value_node) (fragment_argument_loc: loc)

datatype directive_node =
  DirectiveNode (directive_name: name_node) (directive_arguments: "argument_node list option")
    (directive_loc: loc)

section \<open>Selections and executable definitions\<close>

datatype selection_node =
    FieldNode (field_name: name_node) (field_alias: "name_node option")
      (field_arguments: "argument_node list option")
      (sel_directives: "directive_node list option")
      (field_selection_set: "selection_set_node option") (sel_loc: loc)
  | FragmentSpreadNode (spread_name: name_node)
      (spread_arguments: "fragment_argument_node list option")
      (sel_directives: "directive_node list option") (sel_loc: loc)
  | InlineFragmentNode (inline_selection_set: selection_set_node)
      (inline_type_condition: "named_type_node option")
      (sel_directives: "directive_node list option") (sel_loc: loc)
and selection_set_node =
    SelectionSetNode (selections: "selection_node list") (selection_set_loc: loc)

datatype variable_definition_node =
  VariableDefinitionNode (vardef_description: "string_value_node option")
    (vardef_variable: variable_node) (vardef_type: type_node)
    (vardef_default_value: "value_node option")
    (vardef_directives: "directive_node list option") (vardef_loc: loc)

datatype operation_definition_node =
  OperationDefinitionNode (op_selection_set: selection_set_node)
    (op_description: "string_value_node option") (op_name: "name_node option")
    (op_variable_definitions: "variable_definition_node list option")
    (op_directives: "directive_node list option") (op_operation: operation_type) (op_loc: loc)

datatype fragment_definition_node =
  FragmentDefinitionNode (frag_selection_set: selection_set_node)
    (frag_description: "string_value_node option") (frag_name: name_node)
    (frag_variable_definitions: "variable_definition_node list option")
    (frag_directives: "directive_node list option")
    (frag_type_condition: named_type_node) (frag_loc: loc)

section \<open>Type system definitions and extensions\<close>

datatype operation_type_definition_node =
  OperationTypeDefinitionNode (optype_operation: operation_type) (optype_type: named_type_node)
    (optype_loc: loc)

datatype input_value_definition_node =
  InputValueDefinitionNode (input_name: name_node) (input_type: type_node)
    (input_description: "string_value_node option") (input_default_value: "value_node option")
    (input_directives: "directive_node list option") (input_loc: loc)

datatype field_definition_node =
  FieldDefinitionNode (fielddef_name: name_node) (fielddef_type: type_node)
    (fielddef_description: "string_value_node option")
    (fielddef_arguments: "input_value_definition_node list option")
    (fielddef_directives: "directive_node list option") (fielddef_loc: loc)

datatype enum_value_definition_node =
  EnumValueDefinitionNode (enumdef_name: name_node)
    (enumdef_description: "string_value_node option")
    (enumdef_directives: "directive_node list option") (enumdef_loc: loc)

text \<open>
  One constructor per definition class.  The fields inherited from \<open>TypeDefinitionNode\<close> (name,
  description, directives) come first, then the fields of the class.
\<close>

datatype definition_node =
    OperationDefinition operation_definition_node
  | FragmentDefinition fragment_definition_node
  | SchemaDefinitionNode "string_value_node option" "directive_node list option"
      "operation_type_definition_node list" loc
  | ScalarTypeDefinitionNode name_node "string_value_node option" "directive_node list option" loc
  | ObjectTypeDefinitionNode name_node "string_value_node option" "directive_node list option"
      "named_type_node list option" "field_definition_node list option" loc
  | InterfaceTypeDefinitionNode name_node "string_value_node option"
      "directive_node list option" "named_type_node list option"
      "field_definition_node list option" loc
  | UnionTypeDefinitionNode name_node "string_value_node option" "directive_node list option"
      "named_type_node list option" loc
  | EnumTypeDefinitionNode name_node "string_value_node option" "directive_node list option"
      "enum_value_definition_node list option" loc
  | InputObjectTypeDefinitionNode name_node "string_value_node option"
      "directive_node list option" "input_value_definition_node list option" loc
  | DirectiveDefinitionNode name_node "name_node list" "string_value_node option"
      "input_value_definition_node list option" "directive_node list option" bool loc
  | SchemaExtensionNode "directive_node list option"
      "operation_type_definition_node list option" loc
  | DirectiveExtensionNode name_node "directive_node list option" loc
  | ScalarTypeExtensionNode name_node "directive_node list option" loc
  | ObjectTypeExtensionNode name_node "directive_node list option" "named_type_node list option"
      "field_definition_node list option" loc
  | InterfaceTypeExtensionNode name_node "directive_node list option"
      "named_type_node list option" "field_definition_node list option" loc
  | UnionTypeExtensionNode name_node "directive_node list option"
      "named_type_node list option" loc
  | EnumTypeExtensionNode name_node "directive_node list option"
      "enum_value_definition_node list option" loc
  | InputObjectTypeExtensionNode name_node "directive_node list option"
      "input_value_definition_node list option" loc

text \<open>\<open>token_count\<close> is set per instance by the parser.\<close>

datatype document_node =
  DocumentNode (document_definitions: "definition_node list") (document_loc: loc)
    (document_token_count: nat)

text \<open>The names of the enumeration \<open>DirectiveLocation\<close> (\<open>language/directive_locations.py\<close>).\<close>

definition DirectiveLocation_members :: "string list" where
  "DirectiveLocation_members =
     [''QUERY'', ''MUTATION'', ''SUBSCRIPTION'', ''FIELD'', ''FRAGMENT_DEFINITION'',
      ''FRAGMENT_SPREAD'', ''INLINE_FRAGMENT'', ''VARIABLE_DEFINITION'',
      ''FRAGMENT_VARIABLE_DEFINITION'', ''SCHEMA'', ''SCALAR'', ''OBJECT'',
      ''FIELD_DEFINITION'', ''ARGUMENT_DEFINITION'', ''INTERFACE'', ''UNION'', ''ENUM'',
      ''ENUM_VALUE'', ''INPUT_OBJECT'', ''INPUT_FIELD_DEFINITION'', ''DIRECTIVE_DEFINITION'']"

section \<open>Schema coordinates\<close>

datatype schema_coordinate_node =
    TypeCoordinateNode name_node loc
  | MemberCoordinateNode name_node name_node loc
  | ArgumentCoordinateNode name_node name_node name_node loc
  | DirectiveCoordinateNode name_node loc
  | DirectiveArgumentCoordinateNode name_node name_node loc

end
