(* ===== verification/Block_String.thy ===== *)
theory Block_String
  imports Prelude
begin

text \<open>
  Block strings and quoted strings as text (\<open>language/block_string.py\<close>,
  \<open>language/print_string.py\<close>): removal of the common indentation, the check whether a value can
  be printed as a block string, and the two printers.
\<close>

section \<open>Dedenting\<close>

text \<open>\<open>sys.maxsize\<close> of a 64-bit build.\<close>

definition maxsize :: nat where
  "maxsize = 9223372036854775807"

definition is_white :: "uchar \<Rightarrow> bool" where
  "is_white c \<longleftrightarrow> c = 32 \<or> c = 9"

fun leading_white_space :: "pystr \<Rightarrow> nat" where
  "leading_white_space [] = 0"
| "leading_white_space (c # s) = (if \<not> is_white c then 0 else Suc (leading_white_space s))"

text \<open>The loop over \<open>enumerate(lines)\<close>, from line \<open>i\<close> on.\<close>

fun dedent_scan ::
  "nat \<Rightarrow> pystr list \<Rightarrow> nat \<Rightarrow> nat option \<Rightarrow> int \<Rightarrow> nat \<times> nat option \<times> int" where
  "dedent_scan i [] common_indent first_non_empty last_non_empty =
     (common_indent, first_non_empty, last_non_empty)"
| "dedent_scan i (line # lines) common_indent first_non_empty last_non_empty =
     (let indent = leading_white_space line
      in if indent = length line
         then dedent_scan (Suc i) lines common_indent first_non_empty last_non_empty
         else dedent_scan (Suc i) lines
                (if i > 0 \<and> indent < common_indent then indent else common_indent)
                (if first_non_empty = None then Some i else first_non_empty)
                (int i))"

definition dedent_block_string_lines :: "pystr list \<Rightarrow> pystr list" where
  "dedent_block_string_lines lines =
     (let (common_indent, first_non_empty_line, last_non_empty_line) =
            dedent_scan 0 lines maxsize None (- 1);
          first = (case first_non_empty_line of None \<Rightarrow> 0 | Some i \<Rightarrow> i)
      in slice (map (\<lambda>(i, line). if i > 0 then drop common_indent line else line)
                  (enumerate 0 lines))
           first (nat (last_non_empty_line + 1)))"

section \<open>Printing block strings\<close>

text \<open>The loop over the characters, with its four flags; a \<open>return False\<close> inside ends it.\<close>

fun printable_scan :: "pystr \<Rightarrow> bool \<Rightarrow> bool \<Rightarrow> bool \<Rightarrow> bool \<Rightarrow> bool" where
  "printable_scan [] is_empty_line has_indent has_common_indent seen_non_empty_line =
     (if is_empty_line then False
      else if has_common_indent \<and> seen_non_empty_line then False
      else True)"
| "printable_scan (c # s) is_empty_line has_indent has_common_indent seen_non_empty_line =
     (if c = 10 then
        (if is_empty_line \<and> \<not> seen_non_empty_line then False
         else printable_scan s True False has_common_indent True)
      else if is_white c then
        printable_scan s is_empty_line (has_indent \<or> is_empty_line)
          has_common_indent seen_non_empty_line
      else if c \<le> 15 then False
      else printable_scan s False has_indent (has_common_indent \<and> has_indent)
             seen_non_empty_line)"

definition is_printable_as_block_string :: "pystr \<Rightarrow> bool" where
  "is_printable_as_block_string value =
     (if value = [] then True else printable_scan value True False True False)"

text \<open>Three quotation marks, and the same behind a backslash.\<close>

definition triple_quote :: pystr where
  "triple_quote = [34, 34, 34]"

definition escaped_triple_quote :: pystr where
  "escaped_triple_quote = [92, 34, 34, 34]"

definition print_block_string :: "pystr \<Rightarrow> bool \<Rightarrow> pystr" where
  "print_block_string value minimize =
     (let escaped_value = str_replace triple_quote escaped_triple_quote value;
          split_lines = splitlines escaped_value;
          lines = (if split_lines = [] then [[]] else split_lines);
          num_lines = length lines;
          is_single_line = (num_lines = 1);
          force_leading_new_line =
            (num_lines > 1 \<and> (\<forall>line \<in> set (tl lines). line = [] \<or> is_white (hd line)));
          has_trailing_triple_quotes = endswith escaped_value escaped_triple_quote;
          has_trailing_quote = (endswith value [34] \<and> \<not> has_trailing_triple_quotes);
          has_trailing_slash = endswith value [92];
          force_trailing_new_line = (has_trailing_quote \<or> has_trailing_slash);
          print_as_multiple_lines =
            (\<not> minimize \<and>
              (\<not> is_single_line \<or> length value > 70 \<or> force_trailing_new_line
                \<or> force_leading_new_line \<or> has_trailing_triple_quotes));
          skip_leading_new_line =
            (is_single_line \<and> value \<noteq> [] \<and> is_white (hd value));
          before = (if (print_as_multiple_lines \<and> \<not> skip_leading_new_line)
                       \<or> force_leading_new_line then [10] else []);
          after = (if print_as_multiple_lines \<or> force_trailing_new_line then [10] else [])
      in triple_quote @ before @ escaped_value @ after @ triple_quote)"

section \<open>Printing quoted strings\<close>

text \<open>The entries of \<open>escape_sequences\<close>: backslash, \<open>u\<close> and four hexadecimal digits by default.\<close>

definition escape_sequences :: "uchar \<Rightarrow> pystr option" where
  "escape_sequences c =
     (if c = 8 then Some [92, 98]
      else if c = 9 then Some [92, 116]
      else if c = 10 then Some [92, 110]
      else if c = 12 then Some [92, 102]
      else if c = 13 then Some [92, 114]
      else if c = 34 then Some [92, 34]
      else if c = 92 then Some [92, 92]
      else if c < 32 \<or> 127 \<le> c \<and> c \<le> 159 then Some ([92, 117] @ format_04X c)
      else None)"

definition translate_char :: "uchar \<Rightarrow> pystr" where
  "translate_char c = (case escape_sequences c of Some e \<Rightarrow> e | None \<Rightarrow> [c])"

definition print_string :: "pystr \<Rightarrow> pystr" where
  "print_string s = [34] @ concat (map translate_char s) @ [34]"

end
