(* ===== verification/Lexer.thy ===== *)
theory Lexer
  imports Ast Block_String
begin

text \<open>
  The lexer (\<open>language/character_classes.py\<close>, \<open>language/lexer.py\<close>): the character classes, the
  reading functions for each kind of token over a body and a position, and the lexer object with
  its current token, its line counters and the tokens already linked behind the current one.

  The reading functions take the pair \<open>(line, line_start)\<close> that \<open>create_token\<close> reads.
\<close>

unbundle bit_operations_syntax

section \<open>Character classes\<close>

definition is_digit :: "uchar \<Rightarrow> bool" where
  "is_digit c \<longleftrightarrow> 48 \<le> c \<and> c \<le> 57"

definition is_letter :: "uchar \<Rightarrow> bool" where
  "is_letter c \<longleftrightarrow> (65 \<le> c \<and> c \<le> 90) \<or> (97 \<le> c \<and> c \<le> 122)"

definition is_name_start :: "uchar \<Rightarrow> bool" where
  "is_name_start c \<longleftrightarrow> is_letter c \<or> c = 95"

definition is_name_continue :: "uchar \<Rightarrow> bool" where
  "is_name_continue c \<longleftrightarrow> is_letter c \<or> is_digit c \<or> c = 95"

definition is_unicode_scalar_value :: "uchar \<Rightarrow> bool" where
  "is_unicode_scalar_value c \<longleftrightarrow> c \<le> 55295 \<or> (57344 \<le> c \<and> c \<le> 1114111)"

definition is_supplementary_code_point :: "pystr \<Rightarrow> nat \<Rightarrow> bool" where
  "is_supplementary_code_point body location \<longleftrightarrow>
     location < length body \<and> 55296 \<le> body ! location \<and> body ! location \<le> 56319
     \<and> Suc location < length body
     \<and> 56320 \<le> body ! Suc location \<and> body ! Suc location \<le> 57343"

text \<open>\<open>body[position : position + 1]\<close>, a character or the empty string.\<close>

definition char_at :: "pystr \<Rightarrow> nat \<Rightarrow> uchar option" where
  "char_at body position = (if position < length body then Some (body ! position) else None)"

definition char_is :: "(uchar \<Rightarrow> bool) \<Rightarrow> uchar option \<Rightarrow> bool" where
  "char_is p c = (case c of None \<Rightarrow> False | Some x \<Rightarrow> p x)"

lemma char_is_simps [simp]:
  "char_is p None = False"
  "char_is p (Some x) = p x"
  by (simp_all add: char_is_def)

text \<open>UTF-16 decoding of a surrogate pair.\<close>

definition decode_surrogate_pair :: "nat \<Rightarrow> nat \<Rightarrow> uchar" where
  "decode_surrogate_pair hi lo = 65536 + (hi - 55296) * 1024 + (lo - 56320)"

definition print_code_point_at :: "pystr \<Rightarrow> nat \<Rightarrow> pystr" where
  "print_code_point_at body location =
     (if location \<ge> length body then token_kind_value EOF
      else let char = body ! location in
        if 32 \<le> char \<and> char \<le> 126
        then (if char = 34 then [39, 34, 39] else [39] @ [char] @ [39])
        else let point = (if is_supplementary_code_point body location
                          then decode_surrogate_pair (body ! location) (body ! Suc location)
                          else char)
             in str ''U+'' @ format_04X point)"

section \<open>Creating tokens\<close>

type_synonym lpos = "nat \<times> nat"

definition create_token ::
  "lpos \<Rightarrow> token_kind \<Rightarrow> nat \<Rightarrow> nat \<Rightarrow> pystr option \<Rightarrow> token" where
  "create_token lp kind start end_pos value =
     (let (line, line_start) = lp; col = 1 + start - line_start
      in \<lparr>tok_kind = kind, tok_start = start, tok_end = end_pos, tok_line = line,
          tok_column = col, tok_value = value\<rparr>)"

section \<open>Comments, names and numbers\<close>

function read_comment_loop :: "pystr \<Rightarrow> nat \<Rightarrow> nat" where
  "read_comment_loop body position =
     (if position < length body then
        let char = body ! position in
        if char = 13 \<or> char = 10 then position
        else if is_unicode_scalar_value char then read_comment_loop body (position + 1)
        else if is_supplementary_code_point body position
        then read_comment_loop body (position + 2)
        else position
      else position)"
  by pat_completeness auto
termination
  by (relation "measure (\<lambda>(body, position). length body - position)") auto

declare read_comment_loop.simps [simp del]

definition read_comment :: "pystr \<Rightarrow> lpos \<Rightarrow> nat \<Rightarrow> token" where
  "read_comment body lp start =
     (let position = read_comment_loop body (start + 1)
      in create_token lp COMMENT start position (Some (slice body (start + 1) position)))"

definition read_name :: "pystr \<Rightarrow> lpos \<Rightarrow> nat \<Rightarrow> token" where
  "read_name body lp start =
     (let position = scan_while is_name_continue body (start + 1)
      in create_token lp NAME start position (Some (slice body start position)))"

definition read_digits :: "pystr \<Rightarrow> nat \<Rightarrow> uchar option \<Rightarrow> py_error + nat" where
  "read_digits body start first_char =
     (if \<not> char_is is_digit first_char
      then Inl (GraphQLSyntaxError start
             (str ''Invalid number, expected digit but got: '' @ print_code_point_at body start
               @ str ''.''))
      else Inr (scan_while is_digit body (start + 1)))"

text \<open>The integer part, the fraction and the exponent of a number, as \<open>read_number\<close> reads them.\<close>

definition read_integer_part ::
  "pystr \<Rightarrow> nat \<Rightarrow> uchar option \<Rightarrow> py_error + (nat \<times> uchar option)" where
  "read_integer_part body position char =
     (if char = Some 48 then
        let position = position + 1; char = char_at body position in
        if char_is is_digit char
        then Inl (GraphQLSyntaxError position
               (str ''Invalid number, unexpected digit after 0: ''
                 @ print_code_point_at body position @ str ''.''))
        else Inr (position, char)
      else bind_result (read_digits body position char)
             (\<lambda>position. Inr (position, char_at body position)))"

definition read_fraction ::
  "pystr \<Rightarrow> nat \<Rightarrow> uchar option \<Rightarrow> bool \<Rightarrow> py_error + (bool \<times> nat \<times> uchar option)" where
  "read_fraction body position char is_float =
     (if char = Some 46 then
        let position = position + 1; char = char_at body position in
        bind_result (read_digits body position char)
          (\<lambda>position. Inr (True, position, char_at body position))
      else Inr (is_float, position, char))"

definition read_exponent ::
  "pystr \<Rightarrow> nat \<Rightarrow> uchar option \<Rightarrow> bool \<Rightarrow> py_error + (bool \<times> nat \<times> uchar option)" where
  "read_exponent body position char is_float =
     (if char_is (\<lambda>c. c = 69 \<or> c = 101) char then
        let position = position + 1; char = char_at body position;
            (position, char) =
              (if char_is (\<lambda>c. c = 43 \<or> c = 45) char
               then (position + 1, char_at body (position + 1)) else (position, char)) in
        bind_result (read_digits body position char)
          (\<lambda>position. Inr (True, position, char_at body position))
      else Inr (is_float, position, char))"

definition read_number :: "pystr \<Rightarrow> lpos \<Rightarrow> nat \<Rightarrow> uchar \<Rightarrow> py_error + token" where
  "read_number body lp start first_char =
     (let position = start; char = Some first_char;
          (position, char) =
            (if char = Some 45 then (position + 1, char_at body (position + 1))
             else (position, char)) in
      bind_result (read_integer_part body position char) (\<lambda>(position, char).
      bind_result (read_fraction body position char False) (\<lambda>(is_float, position, char).
      bind_result (read_exponent body position char is_float) (\<lambda>(is_float, position, char).
      if char_is (\<lambda>c. c = 46 \<or> is_name_start c) char
      then Inl (GraphQLSyntaxError position
             (str ''Invalid number, expected digit but got: ''
               @ print_code_point_at body position @ str ''.''))
      else Inr (create_token lp (if is_float then FLOAT else INT') start position
                  (Some (slice body start position)))))))"

section \<open>Escape sequences\<close>

text \<open>An \<open>EscapeSequence\<close> is its value and its lexed size.\<close>

type_synonym escape_sequence = "pystr \<times> nat"

definition read_hex_digit :: "uchar \<Rightarrow> int" where
  "read_hex_digit char =
     (if 48 \<le> char \<and> char \<le> 57 then int char - 48
      else if 65 \<le> char \<and> char \<le> 70 then int char - 55
      else if 97 \<le> char \<and> char \<le> 102 then int char - 87
      else - 1)"

definition read_16_bit_hex_code :: "pystr \<Rightarrow> nat \<Rightarrow> py_error + int" where
  "read_16_bit_hex_code body position =
     (if position + 3 < length body
      then Inr (push_bit 12 (read_hex_digit (body ! position))
                OR push_bit 8 (read_hex_digit (body ! (position + 1)))
                OR push_bit 4 (read_hex_digit (body ! (position + 2)))
                OR read_hex_digit (body ! (position + 3)))
      else Inl IndexError)"

definition invalid_unicode_escape :: "pystr \<Rightarrow> nat \<Rightarrow> nat \<Rightarrow> py_error" where
  "invalid_unicode_escape body position sz =
     GraphQLSyntaxError position
       (str ''Invalid Unicode escape sequence: '' @ [39] @ slice body position (position + sz)
         @ [39] @ str ''.'')"

function read_variable_width_loop ::
  "pystr \<Rightarrow> nat \<Rightarrow> nat \<Rightarrow> nat \<Rightarrow> int \<Rightarrow> py_error + escape_sequence" where
  "read_variable_width_loop body position max_size sz point =
     (if sz < max_size then
        let char = body ! (position + sz); sz' = sz + 1 in
        if char = 125 then
          (if sz' < 5 \<or> \<not> (0 \<le> point \<and> point \<le> 55295 \<or> 57344 \<le> point \<and> point \<le> 1114111)
           then Inl (invalid_unicode_escape body position sz')
           else Inr ([nat point], sz'))
        else
          let point' = push_bit 4 point OR read_hex_digit char in
          if point' < 0 then Inl (invalid_unicode_escape body position sz')
          else read_variable_width_loop body position max_size sz' point'
      else Inl (invalid_unicode_escape body position sz))"
  by pat_completeness auto
termination
  by (relation "measure (\<lambda>(body, position, max_size, sz, point). max_size - sz)") auto

declare read_variable_width_loop.simps [simp del]

definition read_escaped_unicode_variable_width ::
  "pystr \<Rightarrow> nat \<Rightarrow> py_error + escape_sequence" where
  "read_escaped_unicode_variable_width body position =
     read_variable_width_loop body position (min 12 (length body - position)) 3 0"

definition read_escaped_unicode_fixed_width ::
  "pystr \<Rightarrow> nat \<Rightarrow> py_error + escape_sequence" where
  "read_escaped_unicode_fixed_width body position =
     bind_result (read_16_bit_hex_code body (position + 2)) (\<lambda>code.
     if 0 \<le> code \<and> code \<le> 55295 \<or> 57344 \<le> code \<and> code \<le> 1114111
     then Inr ([nat code], 6)
     else if 55296 \<le> code \<and> code \<le> 56319
             \<and> slice body (position + 6) (position + 8) = [92, 117]
     then bind_result (read_16_bit_hex_code body (position + 8)) (\<lambda>trailing_code.
            if 56320 \<le> trailing_code \<and> trailing_code \<le> 57343
            then Inr ([decode_surrogate_pair (nat code) (nat trailing_code)], 12)
            else Inl (invalid_unicode_escape body position 6))
     else Inl (invalid_unicode_escape body position 6))"

definition ESCAPED_CHARS :: "uchar \<Rightarrow> uchar option" where
  "ESCAPED_CHARS c =
     (if c = 34 then Some 34
      else if c = 47 then Some 47
      else if c = 92 then Some 92
      else if c = 98 then Some 8
      else if c = 102 then Some 12
      else if c = 110 then Some 10
      else if c = 114 then Some 13
      else if c = 116 then Some 9
      else None)"

definition read_escaped_character :: "pystr \<Rightarrow> nat \<Rightarrow> py_error + escape_sequence" where
  "read_escaped_character body position =
     (if position + 1 < length body then
        (case ESCAPED_CHARS (body ! (position + 1)) of
           Some v \<Rightarrow> Inr ([v], 2)
         | None \<Rightarrow> Inl (GraphQLSyntaxError position
             (str ''Invalid character escape sequence: '' @ [39]
               @ slice body position (position + 2) @ [39] @ str ''.'')))
      else Inl IndexError)"

definition read_escape :: "pystr \<Rightarrow> nat \<Rightarrow> py_error + escape_sequence" where
  "read_escape body position =
     (if char_at body (position + 1) = Some 117
      then (if char_at body (position + 2) = Some 123
            then read_escaped_unicode_variable_width body position
            else read_escaped_unicode_fixed_width body position)
      else read_escaped_character body position)"

text \<open>Every escape sequence is at least two characters long, so the string loop advances.\<close>

lemma read_variable_width_loop_size:
  "read_variable_width_loop body position max_size sz point = Inr (v, n) \<Longrightarrow> sz < n"
proof (induction body position max_size sz point rule: read_variable_width_loop.induct)
  case (1 body position max_size sz point)
  from "1.prems" show ?case
    by (subst (asm) read_variable_width_loop.simps)
       (fastforce simp: Let_def dest!: "1.IH" split: if_splits)
qed

lemma read_escape_size: "read_escape body position = Inr (v, n) \<Longrightarrow> 2 \<le> n"
  by (auto simp: read_escape_def read_escaped_unicode_variable_width_def
      read_escaped_unicode_fixed_width_def read_escaped_character_def bind_result_Inr_iff
      dest!: read_variable_width_loop_size split: if_splits option.splits)

lemma bind_result_cong [fundef_cong]:
  "r = r' \<Longrightarrow> (\<And>x. r' = Inr x \<Longrightarrow> f x = g x) \<Longrightarrow> bind_result r f = bind_result r' g"
  by (cases r') auto

section \<open>Strings and block strings\<close>

definition invalid_character_in_string :: "pystr \<Rightarrow> nat \<Rightarrow> py_error" where
  "invalid_character_in_string body position =
     GraphQLSyntaxError position
       (str ''Invalid character within String: '' @ print_code_point_at body position
         @ str ''.'')"

definition unterminated_string :: "nat \<Rightarrow> py_error" where
  "unterminated_string position = GraphQLSyntaxError position (str ''Unterminated string.'')"

text \<open>The loop of \<open>read_string\<close>; it returns the chunks and the position behind the quote.\<close>

function read_string_loop ::
  "pystr \<Rightarrow> nat \<Rightarrow> nat \<Rightarrow> pystr list \<Rightarrow> py_error + (pystr list \<times> nat)" where
  "read_string_loop body position chunk_start chunks =
     (if position < length body then
        let char = body ! position in
        if char = 34 then Inr (chunks @ [slice body chunk_start position], position + 1)
        else if char = 92 then
          bind_result (read_escape body position) (\<lambda>escape.
            read_string_loop body (position + snd escape) (position + snd escape)
              (chunks @ [slice body chunk_start position, fst escape]))
        else if char = 13 \<or> char = 10 then Inl (unterminated_string position)
        else if is_unicode_scalar_value char
        then read_string_loop body (position + 1) chunk_start chunks
        else if is_supplementary_code_point body position
        then read_string_loop body (position + 2) chunk_start chunks
        else Inl (invalid_character_in_string body position)
      else Inl (unterminated_string position))"
  by pat_completeness auto
termination
  by (relation "measure (\<lambda>(body, position, chunk_start, chunks). length body - position)")
     (auto dest!: read_escape_size)

declare read_string_loop.simps [simp del]

definition read_string :: "pystr \<Rightarrow> lpos \<Rightarrow> nat \<Rightarrow> py_error + token" where
  "read_string body lp start =
     bind_result (read_string_loop body (start + 1) (start + 1) []) (\<lambda>(chunks, end_pos).
     Inr (create_token lp STRING start end_pos (Some (str_join [] chunks))))"

text \<open>
  The loop of \<open>read_block_string\<close>; it returns the raw lines, the position behind the closing quotes
  and the start of the last line.
\<close>

function read_block_string_loop ::
  "pystr \<Rightarrow> nat \<Rightarrow> nat \<Rightarrow> pystr \<Rightarrow> pystr list \<Rightarrow> nat \<Rightarrow> py_error + (pystr list \<times> nat \<times> nat)"
  where
  "read_block_string_loop body position chunk_start current_line block_lines line_start =
     (if position < length body then
        let char = body ! position in
        if char = 34 \<and> slice body (position + 1) (position + 3) = [34, 34]
        then Inr (block_lines @ [current_line @ slice body chunk_start position],
                  position + 3, line_start)
        else if char = 92 \<and> slice body (position + 1) (position + 4) = [34, 34, 34]
        then read_block_string_loop body (position + 4) (position + 1)
               (current_line @ slice body chunk_start position) block_lines line_start
        else if char = 13 \<or> char = 10 then
          let next_position =
                (if char = 13 \<and> char_at body (position + 1) = Some 10
                 then position + 2 else position + 1)
          in read_block_string_loop body next_position next_position []
               (block_lines @ [current_line @ slice body chunk_start position]) next_position
        else if is_unicode_scalar_value char
        then read_block_string_loop body (position + 1) chunk_start current_line block_lines
               line_start
        else if is_supplementary_code_point body position
        then read_block_string_loop body (position + 2) chunk_start current_line block_lines
               line_start
        else Inl (invalid_character_in_string body position)
      else Inl (unterminated_string position))"
  by pat_completeness auto
termination
  by (relation "measure (\<lambda>(body, position, chunk_start, current_line, block_lines, line_start).
        length body - position)") auto

declare read_block_string_loop.simps [simp del]

text \<open>The token is created before \<open>line\<close> and \<open>line_start\<close> move to the last line of the string.\<close>

definition read_block_string :: "pystr \<Rightarrow> lpos \<Rightarrow> nat \<Rightarrow> py_error + (token \<times> lpos)" where
  "read_block_string body lp start =
     bind_result (read_block_string_loop body (start + 3) (start + 3) [] [] (snd lp))
       (\<lambda>(block_lines, end_pos, line_start).
     Inr (create_token lp BLOCK_STRING start end_pos
            (Some (str_join [10] (dedent_block_string_lines block_lines))),
          (fst lp + (length block_lines - 1), line_start)))"

section \<open>The next token\<close>

definition KIND_FOR_PUNCT :: "uchar \<Rightarrow> token_kind option" where
  "KIND_FOR_PUNCT c =
     (if c = 33 then Some BANG
      else if c = 36 then Some DOLLAR
      else if c = 38 then Some AMP
      else if c = 40 then Some PAREN_L
      else if c = 41 then Some PAREN_R
      else if c = 58 then Some COLON
      else if c = 61 then Some EQUALS
      else if c = 64 then Some AT
      else if c = 91 then Some BRACKET_L
      else if c = 93 then Some BRACKET_R
      else if c = 123 then Some BRACE_L
      else if c = 125 then Some BRACE_R
      else if c = 124 then Some PIPE
      else None)"

definition is_ignored_char :: "uchar \<Rightarrow> bool" where
  "is_ignored_char c \<longleftrightarrow> c = 32 \<or> c = 9 \<or> c = 44 \<or> c = 65279"

text \<open>The error of \<open>read_next_token\<close> for a character that begins no token.\<close>

definition unexpected_character :: "pystr \<Rightarrow> nat \<Rightarrow> py_error" where
  "unexpected_character body position =
     (let char = body ! position in
      GraphQLSyntaxError position
        (if char = 39
         then str ''Unexpected single quote character ('' @ [39]
                @ str ''), did you mean to use a double quote ('' @ [34] @ str '')?''
         else if is_unicode_scalar_value char \<or> is_supplementary_code_point body position
         then str ''Unexpected character: '' @ print_code_point_at body position @ str ''.''
         else str ''Invalid character: '' @ print_code_point_at body position @ str ''.''))"

definition read_dots :: "pystr \<Rightarrow> lpos \<Rightarrow> nat \<Rightarrow> py_error + token" where
  "read_dots body lp position =
     (let next_char = char_at body (position + 1) in
      if next_char = Some 46 then
        (if char_at body (position + 2) = Some 46
         then Inr (create_token lp SPREAD position (position + 3) None)
         else Inl (GraphQLSyntaxError position
                (str ''Unexpected '' @ [39] @ str ''..'' @ [39] @ str '', did you mean ''
                  @ [39] @ str ''...'' @ [39] @ str ''?'')))
      else if char_is is_digit next_char then
        let end_pos = scan_while is_digit body (position + 1);
            digits = slice body (position + 1) end_pos
        in Inl (GraphQLSyntaxError position
             (str ''Invalid number, expected digit before '' @ [39] @ str ''.'' @ [39]
               @ str '', did you mean '' @ [39] @ str ''0.'' @ digits @ [39] @ str ''?''))
      else Inl (unexpected_character body position))"

text \<open>The token that begins at a position whose character is not ignored.\<close>

definition read_token_at :: "pystr \<Rightarrow> lpos \<Rightarrow> nat \<Rightarrow> py_error + (token \<times> lpos)" where
  "read_token_at body lp position =
     (let char = body ! position in
      if char = 35 then Inr (read_comment body lp position, lp)
      else if char = 34 then
        (if slice body (position + 1) (position + 3) = [34, 34]
         then read_block_string body lp position
         else bind_result (read_string body lp position) (\<lambda>t. Inr (t, lp)))
      else case KIND_FOR_PUNCT char of
        Some kind \<Rightarrow> Inr (create_token lp kind position (position + 1) None, lp)
      | None \<Rightarrow>
        if is_digit char \<or> char = 45
        then bind_result (read_number body lp position char) (\<lambda>t. Inr (t, lp))
        else if is_name_start char then Inr (read_name body lp position, lp)
        else if char = 46 then bind_result (read_dots body lp position) (\<lambda>t. Inr (t, lp))
        else Inl (unexpected_character body position))"

function read_next_token :: "pystr \<Rightarrow> lpos \<Rightarrow> nat \<Rightarrow> py_error + (token \<times> lpos)" where
  "read_next_token body lp position =
     (if position < length body then
        let char = body ! position in
        if is_ignored_char char then read_next_token body lp (position + 1)
        else if char = 10 then
          read_next_token body (fst lp + 1, position + 1) (position + 1)
        else if char = 13 then
          let next_position =
                (if char_at body (position + 1) = Some 10 then position + 2 else position + 1)
          in read_next_token body (fst lp + 1, next_position) next_position
        else read_token_at body lp position
      else Inr (create_token lp EOF (length body) (length body) None, lp))"
  by pat_completeness auto
termination
  by (relation "measure (\<lambda>(body, lp, position). length body - position)") auto

declare read_next_token.simps [simp del]

end
