(* ===== verification/Token_Stream.thy ===== *)
theory Token_Stream
  imports Lexer
begin

text \<open>
  The lexer object (\<open>Lexer\<close> in \<open>language/lexer.py\<close>, \<open>SchemaCoordinateLexer\<close> in
  \<open>language/schema_coordinate_lexer.py\<close>).  The state holds the current token and, in \<open>lx_links\<close>,
  the tokens already linked behind it by a lookahead (comments included).  The two lexer classes
  differ in one overridden method, \<open>read_next_token\<close>, which is a field of the object; the locale
  \<open>token_reader\<close> states what the shared methods, and the parser above them, rely on.
\<close>

section \<open>The object and its methods\<close>

type_synonym reader = "source \<Rightarrow> lpos \<Rightarrow> nat \<Rightarrow> py_error + (token \<times> lpos)"

record lexer =
  lx_source :: source
  lx_token :: token
  lx_last_token :: token
  lx_lpos :: lpos
  lx_links :: "token list"
  lx_read_next_token :: reader

definition sof_token :: token where
  "sof_token = \<lparr>tok_kind = SOF, tok_start = 0, tok_end = 0, tok_line = 0, tok_column = 0,
     tok_value = None\<rparr>"

definition Lexer_init :: "reader \<Rightarrow> source \<Rightarrow> lexer" where
  "Lexer_init read source =
     \<lparr>lx_source = source, lx_token = sof_token, lx_last_token = sof_token, lx_lpos = (1, 0),
      lx_links = [], lx_read_next_token = read\<rparr>"

abbreviation is_comment :: "token \<Rightarrow> bool" where
  "is_comment t \<equiv> tok_kind t = COMMENT"

text \<open>
  The part of the \<open>while True\<close> loop of \<open>lookahead\<close> that runs past the linked tokens: read a token
  behind \<open>prev\<close>, link it, and go on while it is a comment.  The fuel bounds the number of comments.
\<close>

fun read_more :: "nat \<Rightarrow> token \<Rightarrow> lexer \<Rightarrow> py_error + (token \<times> lexer)" where
  "read_more 0 prev lx = Inl OutOfFuel"
| "read_more (Suc n) prev lx =
     bind_result (lx_read_next_token lx (lx_source lx) (lx_lpos lx) (tok_end prev))
       (\<lambda>(next_token, lp).
        let lx' = lx\<lparr>lx_lpos := lp, lx_links := lx_links lx @ [next_token]\<rparr> in
        if \<not> is_comment next_token then Inr (next_token, lx')
        else read_more n next_token lx')"

definition lookahead_fuel :: "lexer \<Rightarrow> nat" where
  "lookahead_fuel lx = Suc (Suc (length (src_body (lx_source lx))))"

definition lookahead :: "lexer \<Rightarrow> py_error + (token \<times> lexer)" where
  "lookahead lx =
     (if tok_kind (lx_token lx) \<noteq> EOF then
        case dropWhile is_comment (lx_links lx) of
          token # _ \<Rightarrow> Inr (token, lx)
        | [] \<Rightarrow> read_more (lookahead_fuel lx) (last (lx_token lx # lx_links lx)) lx
      else Inr (lx_token lx, lx))"

definition advance :: "lexer \<Rightarrow> py_error + (token \<times> lexer)" where
  "advance lx =
     bind_result (lookahead (lx\<lparr>lx_last_token := lx_token lx\<rparr>)) (\<lambda>(token, lx').
     Inr (token, lx'\<lparr>lx_token := token, lx_links := tl (dropWhile is_comment (lx_links lx'))\<rparr>))"

section \<open>The two lexer classes\<close>

definition Lexer_read_next_token :: reader where
  "Lexer_read_next_token source = read_next_token (src_body source)"

definition SC_KIND_FOR_PUNCT :: "uchar \<Rightarrow> token_kind option" where
  "SC_KIND_FOR_PUNCT c =
     (if c = 46 then Some DOT
      else if c = 40 then Some PAREN_L
      else if c = 41 then Some PAREN_R
      else if c = 58 then Some COLON
      else if c = 64 then Some AT
      else None)"

definition SchemaCoordinateLexer_read_next_token :: reader where
  "SchemaCoordinateLexer_read_next_token source lp start =
     (let body = src_body source; body_length = length body; position = start in
      if position < body_length then
        let char = body ! position in
        (case SC_KIND_FOR_PUNCT char of
           Some kind \<Rightarrow> Inr (create_token lp kind position (position + 1) None, lp)
         | None \<Rightarrow>
             if is_name_start char then Inr (read_name body lp position, lp)
             else Inl (GraphQLSyntaxError position
                    (str ''Invalid character: '' @ print_code_point_at body position
                      @ str ''.'')))
      else Inr (create_token lp EOF body_length body_length None, lp))"

section \<open>Bounds of the reading functions\<close>

lemma create_token_sel [simp]:
  "tok_kind (create_token lp k s e v) = k"
  "tok_start (create_token lp k s e v) = s"
  "tok_end (create_token lp k s e v) = e"
  "tok_value (create_token lp k s e v) = v"
  "tok_line (create_token lp k s e v) = fst lp"
  "tok_column (create_token lp k s e v) = 1 + s - snd lp"
  by (simp_all add: create_token_def Let_def split_beta)

lemma read_comment_loop_ge: "position \<le> read_comment_loop body position"
  by (induction body position rule: read_comment_loop.induct)
     (subst read_comment_loop.simps, auto simp: Let_def)

lemma read_comment_loop_le:
  "position \<le> length body \<Longrightarrow> read_comment_loop body position \<le> length body"
  by (induction body position rule: read_comment_loop.induct)
     (subst read_comment_loop.simps, auto simp: Let_def is_supplementary_code_point_def)

lemma char_at_Some: "char_at body i = Some c \<longleftrightarrow> i < length body \<and> c = body ! i"
  by (auto simp: char_at_def)

lemma char_is_char_at: "char_is p (char_at body i) \<longleftrightarrow> i < length body \<and> p (body ! i)"
  by (simp add: char_at_def)

lemma read_digits_bounds:
  assumes "read_digits body start (char_at body start) = Inr e"
  shows "start < e" "e \<le> length body"
proof -
  from assms have *: "start < length body" "e = scan_while is_digit body (Suc start)"
    by (auto simp: read_digits_def char_is_char_at split: if_splits)
  show "start < e" using scan_while_ge [of "Suc start" is_digit body] * by simp
  show "e \<le> length body" using scan_while_le [of "Suc start" body is_digit] * by simp
qed

lemma read_integer_part_bounds:
  assumes "read_integer_part body i (char_at body i) = Inr (e, c)"
  shows "i < e" "e \<le> length body" "c = char_at body e"
  using assms
  by (auto simp: read_integer_part_def char_at_Some Let_def bind_result_Inr_iff
      dest: read_digits_bounds split: if_splits)

lemma read_fraction_bounds:
  assumes "read_fraction body i (char_at body i) fl = Inr (fl', e, c)" and "i \<le> length body"
  shows "i \<le> e" "e \<le> length body" "c = char_at body e"
  using assms
  by (auto simp: read_fraction_def char_at_Some Let_def bind_result_Inr_iff
      dest: read_digits_bounds split: if_splits)

lemma read_exponent_bounds:
  assumes "read_exponent body i (char_at body i) fl = Inr (fl', e, c)" and "i \<le> length body"
  shows "i \<le> e" "e \<le> length body" "c = char_at body e"
  using assms
  by (auto simp: read_exponent_def char_at_Some Let_def bind_result_Inr_iff
      dest: read_digits_bounds split: if_splits)

lemma read_number_bounds:
  assumes "read_number body lp i c = Inr t" and "i < length body" and "c = body ! i"
  shows "tok_start t = i \<and> i < tok_end t \<and> tok_end t \<le> length body
         \<and> (tok_kind t = INT' \<or> tok_kind t = FLOAT)
         \<and> tok_value t = Some (slice body i (tok_end t))"
proof -
  define j where "j = (if c = 45 then i + 1 else i)"
  from assms(2,3) have "(if Some c = Some 45 then (i + 1, char_at body (i + 1)) else (i, Some c))
      = (j, char_at body j)"
    by (simp add: j_def char_at_Some) (simp add: char_at_def)
  with assms(1) obtain e1 c1 f2 e2 c2 f3 e3 c3 where
    1: "read_integer_part body j (char_at body j) = Inr (e1, c1)" and
    2: "read_fraction body e1 c1 False = Inr (f2, e2, c2)" and
    3: "read_exponent body e2 c2 f2 = Inr (f3, e3, c3)" and
    t: "t = create_token lp (if f3 then FLOAT else INT') i e3 (Some (slice body i e3))"
    by (auto simp: read_number_def Let_def bind_result_Inr_iff split: if_splits)
  note b1 = read_integer_part_bounds [OF 1]
  note b2 = read_fraction_bounds [OF 2 [unfolded b1(3)] b1(2)]
  note b3 = read_exponent_bounds [OF 3 [unfolded b2(3)] b2(2)]
  have "i < e3" using b1(1) b2(1) b3(1) by (simp add: j_def split: if_splits)
  then show ?thesis using b3(2) by (simp add: t)
qed

lemma read_string_loop_bounds:
  "read_string_loop body position chunk_start chunks = Inr (v, e) \<Longrightarrow>
     position < e \<and> e \<le> length body"
proof (induction "length body - position" arbitrary: position chunk_start chunks
    rule: less_induct)
  case less
  from less.prems show ?case
    by (subst (asm) read_string_loop.simps)
       (fastforce simp: Let_def bind_result_Inr_iff
         dest: read_escape_size less.hyps [rotated -1] split: if_splits)
qed

lemma slice_eq_length: "slice s i j = xs \<Longrightarrow> j = i + length xs \<Longrightarrow> xs \<noteq> [] \<Longrightarrow> j \<le> length s"
  using length_slice [of s i j] by (cases xs) (auto simp: min_def split: if_splits)

lemma read_block_string_loop_bounds:
  "read_block_string_loop body position chunk_start cl bl ls = Inr (v, e, ls') \<Longrightarrow>
     position < e \<and> e \<le> length body"
proof (induction "length body - position" arbitrary: position chunk_start cl bl ls
    rule: less_induct)
  case less
  from less.prems show ?case
    by (subst (asm) read_block_string_loop.simps)
       (fastforce simp: Let_def dest: slice_eq_length less.hyps [rotated -1] split: if_splits)
qed

lemma read_name_bounds:
  "i < length body \<Longrightarrow> i < tok_end (read_name body lp i) \<and> tok_end (read_name body lp i) \<le> length body"
  using scan_while_ge [of "Suc i" is_name_continue body]
    scan_while_le [of "Suc i" body is_name_continue]
  by (simp add: read_name_def Let_def)

lemma read_dots_bounds:
  "read_dots body lp i = Inr t \<Longrightarrow>
     tok_kind t = SPREAD \<and> tok_start t = i \<and> tok_end t = i + 3 \<and> i + 3 \<le> length body"
  by (auto simp: read_dots_def Let_def char_at_Some split: if_splits)

lemma KIND_FOR_PUNCT_kind: "KIND_FOR_PUNCT c = Some k \<Longrightarrow> k \<noteq> EOF \<and> k \<noteq> SOF \<and> k \<noteq> COMMENT"
  by (auto simp: KIND_FOR_PUNCT_def split: if_splits)

lemma read_token_at_bounds:
  assumes "read_token_at body lp i = Inr (t, lp')" and "i < length body"
  shows "tok_start t = i \<and> i < tok_end t \<and> tok_end t \<le> length body
         \<and> tok_kind t \<noteq> EOF \<and> tok_kind t \<noteq> SOF"
  using assms read_comment_loop_ge [of "Suc i" body] read_comment_loop_le [of "Suc i" body]
    read_name_bounds [of i body lp]
  by (auto simp: read_token_at_def Let_def bind_result_Inr_iff read_comment_def
      read_string_def read_block_string_def read_name_def
      split: if_splits option.splits dest!: read_string_loop_bounds
      read_block_string_loop_bounds KIND_FOR_PUNCT_kind read_dots_bounds
      dest: read_number_bounds)

lemma read_next_token_bounds:
  "read_next_token body lp i = Inr (t, lp') \<Longrightarrow> i \<le> length body \<Longrightarrow>
     i \<le> tok_start t \<and> tok_start t \<le> tok_end t \<and> tok_end t \<le> length body
     \<and> tok_kind t \<noteq> SOF \<and> (tok_kind t \<noteq> EOF \<longrightarrow> tok_start t < tok_end t)"
proof (induction "length body - i" arbitrary: lp i rule: less_induct)
  case less
  have step: "j \<le> tok_start t \<and> tok_start t \<le> tok_end t \<and> tok_end t \<le> length body
     \<and> tok_kind t \<noteq> SOF \<and> (tok_kind t \<noteq> EOF \<longrightarrow> tok_start t < tok_end t)"
    if "read_next_token body lp j = Inr (t, lp')" and "i < j" and "j \<le> length body" for lp j
    using less.hyps [OF _ that(1)] that(2,3) by simp
  show ?case
  proof (cases "i < length body")
    case False
    with less.prems show ?thesis by (subst (asm) read_next_token.simps) auto
  next
    case True
    show ?thesis
    proof (cases "is_ignored_char (body ! i) \<or> body ! i = 10 \<or> body ! i = 13")
      case False
      with True less.prems have "read_token_at body lp i = Inr (t, lp')"
        by (subst (asm) read_next_token.simps) (simp add: Let_def)
      from read_token_at_bounds [OF this True] show ?thesis by simp
    next
      case skip: True
      with True less.prems obtain lp'' j where
        "read_next_token body lp'' j = Inr (t, lp')" "i < j" "j \<le> length body"
        by (subst (asm) (2) read_next_token.simps)
           (auto simp: Let_def char_at_Some split: if_splits)
      from step [OF this] \<open>i < j\<close> show ?thesis by simp
    qed
  qed
qed

section \<open>Termination of the reading functions\<close>

lemma read_integer_part_fuel: "read_integer_part body i c \<noteq> Inl OutOfFuel"
  by (auto simp: read_integer_part_def read_digits_def Let_def bind_result_def)

lemma read_number_fuel: "read_number body lp i c \<noteq> Inl OutOfFuel"
proof -
  have "read_fraction body i c fl \<noteq> Inl OutOfFuel" "read_exponent body i c fl \<noteq> Inl OutOfFuel"
    for i c fl
    by (auto simp: read_fraction_def read_exponent_def read_digits_def Let_def bind_result_def
        split_beta)
  then show ?thesis
    by (auto simp: read_number_def Let_def bind_result_def split_beta read_integer_part_fuel
        split: sum.splits if_splits)
qed

lemma read_variable_width_loop_fuel:
  "read_variable_width_loop body position max_size sz point \<noteq> Inl OutOfFuel"
proof (induction "max_size - sz" arbitrary: sz point rule: less_induct)
  case less
  show ?case
    using less.hyps
    by (subst read_variable_width_loop.simps) (auto simp: Let_def invalid_unicode_escape_def)
qed

lemma read_16_bit_hex_code_fuel: "read_16_bit_hex_code body i \<noteq> Inl OutOfFuel"
  by (simp add: read_16_bit_hex_code_def)

lemma read_fixed_width_fuel: "read_escaped_unicode_fixed_width body i \<noteq> Inl OutOfFuel"
proof (cases "read_16_bit_hex_code body (i + 2)")
  case (Inl e)
  then show ?thesis
    using read_16_bit_hex_code_fuel [of body "i + 2"]
    by (simp only: read_escaped_unicode_fixed_width_def bind_result_simps) simp
next
  case (Inr code)
  show ?thesis
    unfolding read_escaped_unicode_fixed_width_def Inr bind_result_simps invalid_unicode_escape_def
    using read_16_bit_hex_code_fuel [of body "i + 8"]
    by (cases "read_16_bit_hex_code body (i + 8)") (simp_all only: bind_result_simps, auto)
qed

lemma read_escape_fuel: "read_escape body i \<noteq> Inl OutOfFuel"
proof -
  have "read_escaped_character body i \<noteq> Inl OutOfFuel"
    by (auto simp: read_escaped_character_def split: option.splits)
  then show ?thesis
    by (simp add: read_escape_def read_escaped_unicode_variable_width_def
        read_variable_width_loop_fuel read_fixed_width_fuel)
qed

lemma read_string_loop_fuel: "read_string_loop body i cs chunks \<noteq> Inl OutOfFuel"
proof (induction "length body - i" arbitrary: i cs chunks rule: less_induct)
  case less
  have IH: "i < j \<Longrightarrow> i < length body \<Longrightarrow> read_string_loop body j cs chunks \<noteq> Inl OutOfFuel"
    for j cs chunks
    by (rule less.hyps) simp
  show ?case
  proof (cases "read_escape body i")
    case (Inl e)
    then have "e \<noteq> OutOfFuel" using read_escape_fuel by metis
    then show ?thesis using Inl
      by (subst read_string_loop.simps)
         (auto simp: Let_def IH unterminated_string_def invalid_character_in_string_def)
  next
    case (Inr r)
    then have "0 < snd r" using read_escape_size [of body i "fst r" "snd r"] by simp
    then show ?thesis using Inr
      by (subst read_string_loop.simps)
         (auto simp: Let_def IH unterminated_string_def invalid_character_in_string_def)
  qed
qed

lemma read_block_string_loop_fuel: "read_block_string_loop body i cs cl bl ls \<noteq> Inl OutOfFuel"
proof (induction "length body - i" arbitrary: i cs cl bl ls rule: less_induct)
  case less
  have IH: "i < j \<Longrightarrow> i < length body \<Longrightarrow> read_block_string_loop body j cs cl bl ls \<noteq> Inl OutOfFuel"
    for j cs cl bl ls
    by (rule less.hyps) simp
  show ?case
    by (subst read_block_string_loop.simps)
       (auto simp: Let_def IH unterminated_string_def invalid_character_in_string_def)
qed

lemma unexpected_character_fuel [simp]: "unexpected_character body i \<noteq> OutOfFuel"
  by (simp add: unexpected_character_def Let_def)

lemma read_token_at_fuel: "read_token_at body lp i \<noteq> Inl OutOfFuel"
proof -
  have "read_block_string body lp i \<noteq> Inl OutOfFuel"
    by (auto simp: read_block_string_def bind_result_Inl_iff read_block_string_loop_fuel)
  moreover have "read_string body lp i \<noteq> Inl OutOfFuel"
    by (auto simp: read_string_def bind_result_Inl_iff read_string_loop_fuel)
  moreover have "read_dots body lp i \<noteq> Inl OutOfFuel"
    unfolding read_dots_def Let_def by (simp split del: if_split) (simp split: if_split)
  moreover have "read_number body lp i c \<noteq> Inl OutOfFuel" for c
    by (rule read_number_fuel)
  ultimately show ?thesis
    by (simp add: read_token_at_def Let_def bind_result_Inl_iff split: option.split)
qed

lemma read_next_token_fuel: "read_next_token body lp i \<noteq> Inl OutOfFuel"
proof (induction "length body - i" arbitrary: lp i rule: less_induct)
  case less
  have IH: "i < j \<Longrightarrow> i < length body \<Longrightarrow> read_next_token body lp j \<noteq> Inl OutOfFuel" for lp j
    by (rule less.hyps) simp
  show ?case
    by (subst read_next_token.simps) (auto simp: Let_def IH read_token_at_fuel)
qed

section \<open>What the methods rely on\<close>

text \<open>
  The contract of an overridden \<open>read_next_token\<close>: it gives a token inside the body, at or behind
  the start position, that is empty only at the end of the input; and it always returns.
\<close>

locale token_reader =
  fixes read :: reader
  assumes read_returns: "read src lp i \<noteq> Inl OutOfFuel"
    and read_bounds: "read src lp i = Inr (t, lp') \<Longrightarrow> i \<le> length (src_body src) \<Longrightarrow>
      i \<le> tok_start t \<and> tok_start t \<le> tok_end t \<and> tok_end t \<le> length (src_body src)"
    and read_progress: "read src lp i = Inr (t, lp') \<Longrightarrow> i \<le> length (src_body src) \<Longrightarrow>
      tok_kind t \<noteq> EOF \<Longrightarrow> tok_start t < tok_end t"
    and read_not_SOF: "read src lp i = Inr (t, lp') \<Longrightarrow> i \<le> length (src_body src) \<Longrightarrow>
      tok_kind t \<noteq> SOF"

text \<open>The tokens linked behind \<open>t\<close> follow each other in a body of length \<open>n\<close>.\<close>

fun chain_ok :: "nat \<Rightarrow> token \<Rightarrow> token list \<Rightarrow> bool" where
  "chain_ok n t [] = True"
| "chain_ok n t (u # us) =
     (tok_kind t \<noteq> EOF \<and> tok_kind u \<noteq> SOF \<and> tok_end t \<le> tok_start u \<and> tok_start u \<le> tok_end u
      \<and> tok_end u \<le> n \<and> (tok_kind u \<noteq> EOF \<longrightarrow> tok_start u < tok_end u) \<and> chain_ok n u us)"

definition lexer_ok :: "lexer \<Rightarrow> bool" where
  "lexer_ok lx \<longleftrightarrow>
     tok_start (lx_token lx) \<le> tok_end (lx_token lx)
     \<and> tok_end (lx_token lx) \<le> length (src_body (lx_source lx))
     \<and> tok_kind (lx_token lx) \<noteq> COMMENT
     \<and> chain_ok (length (src_body (lx_source lx))) (lx_token lx) (lx_links lx)"

text \<open>What is left to read: nothing at the end of the input, else at least one step.\<close>

definition lexer_rest :: "lexer \<Rightarrow> nat" where
  "lexer_rest lx =
     (if tok_kind (lx_token lx) = EOF then 0
      else Suc (length (src_body (lx_source lx)) - tok_end (lx_token lx)))"

lemma chain_ok_append:
  "chain_ok n t (us @ vs) \<longleftrightarrow> chain_ok n t us \<and> chain_ok n (last (t # us)) vs"
  by (induction us arbitrary: t) auto

lemma chain_ok_last:
  "chain_ok n t us \<Longrightarrow> tok_end t \<le> n \<Longrightarrow> tok_end t \<le> tok_end (last (t # us)) \<and> tok_end (last (t # us)) \<le> n"
proof (induction us arbitrary: t)
  case (Cons u us)
  from Cons.prems Cons.IH [of u] show ?case by (cases us) auto
qed simp

lemma chain_ok_last_kind:
  "chain_ok n t us \<Longrightarrow> tok_kind t \<noteq> EOF \<Longrightarrow> \<forall>u \<in> set us. is_comment u \<Longrightarrow> tok_kind (last (t # us)) \<noteq> EOF"
  by (cases us rule: rev_cases) auto

text \<open>What a step to the token \<open>t\<close> leaves of the links.\<close>

lemma dropWhile_comments:
  "\<forall>c \<in> set cs. is_comment c \<Longrightarrow> \<not> is_comment t \<Longrightarrow> dropWhile is_comment (cs @ t # us) = t # us"
  by (induction cs) auto

lemma dropWhile_Nil_comments: "dropWhile P xs = [] \<Longrightarrow> \<forall>x \<in> set xs. P x"
  by (simp add: dropWhile_eq_Nil_conv)

text \<open>Frame: what neither a lookahead nor an advance changes.\<close>

definition same_lexer :: "lexer \<Rightarrow> lexer \<Rightarrow> bool" where
  "same_lexer lx lx' \<longleftrightarrow>
     lx_source lx' = lx_source lx \<and> lx_read_next_token lx' = lx_read_next_token lx"

lemma read_more_shape:
  assumes "read_more n prev lx = Inr (t, lx')"
  shows "\<exists>cs. (\<forall>c \<in> set cs. is_comment c) \<and> \<not> is_comment t
           \<and> lx_links lx' = lx_links lx @ cs @ [t]
           \<and> (\<exists>lp. lx' = lx\<lparr>lx_lpos := lp, lx_links := lx_links lx @ cs @ [t]\<rparr>)"
  using assms
proof (induction n arbitrary: prev lx)
  case 0
  then show ?case by simp
next
  case (Suc n)
  from Suc.prems obtain u lp where
    u: "lx_read_next_token lx (lx_source lx) (lx_lpos lx) (tok_end prev) = Inr (u, lp)"
    by (auto simp: bind_result_Inr_iff)
  show ?case
  proof (cases "is_comment u")
    case False
    with Suc.prems u have "t = u" "lx' = lx\<lparr>lx_lpos := lp, lx_links := lx_links lx @ [t]\<rparr>"
      by (auto simp: Let_def)
    with False show ?thesis by (intro exI [of _ "[]"] conjI exI [of _ lp]) simp_all
  next
    case True
    with Suc.prems u
    have "read_more n u (lx\<lparr>lx_lpos := lp, lx_links := lx_links lx @ [u]\<rparr>) = Inr (t, lx')"
      by (simp add: Let_def)
    from Suc.IH [OF this] obtain cs where
      "\<forall>c \<in> set cs. is_comment c" "\<not> is_comment t"
      "lx_links lx' = (lx_links lx @ [u]) @ cs @ [t]"
      "\<exists>lp'. lx' = lx\<lparr>lx_lpos := lp', lx_links := (lx_links lx @ [u]) @ cs @ [t]\<rparr>"
      by auto
    with True show ?thesis by (intro exI [of _ "u # cs"]) auto
  qed
qed

text \<open>The three cases of a lookahead.\<close>

lemma lookahead_EOF [simp]:
  "tok_kind (lx_token lx) = EOF \<Longrightarrow> lookahead lx = Inr (lx_token lx, lx)"
  by (simp add: lookahead_def)

lemma lookahead_linked:
  "tok_kind (lx_token lx) \<noteq> EOF \<Longrightarrow> lx_links lx = cs @ t # us \<Longrightarrow> \<forall>c \<in> set cs. is_comment c \<Longrightarrow>
     \<not> is_comment t \<Longrightarrow> lookahead lx = Inr (t, lx)"
  using dropWhile_comments [of cs t us] by (simp add: lookahead_def)

lemma lookahead_read:
  "tok_kind (lx_token lx) \<noteq> EOF \<Longrightarrow> \<forall>c \<in> set (lx_links lx). is_comment c \<Longrightarrow>
     lookahead lx = read_more (lookahead_fuel lx) (last (lx_token lx # lx_links lx)) lx"
proof -
  assume "tok_kind (lx_token lx) \<noteq> EOF" "\<forall>c \<in> set (lx_links lx). is_comment c"
  moreover from this(2) have "dropWhile is_comment (lx_links lx) = []" by simp
  ultimately show ?thesis by (simp only: lookahead_def) simp
qed

lemma lookahead_cases [case_names EOF linked read]:
  obtains "tok_kind (lx_token lx) = EOF"
  | cs t us where "tok_kind (lx_token lx) \<noteq> EOF" "lx_links lx = cs @ t # us"
      "\<forall>c \<in> set cs. is_comment c" "\<not> is_comment t"
  | "tok_kind (lx_token lx) \<noteq> EOF" "\<forall>c \<in> set (lx_links lx). is_comment c"
  using split_list_first_prop [of "lx_links lx" "\<lambda>t. \<not> is_comment t"] by auto

lemma lookahead_frame:
  assumes "lookahead lx = Inr (t, lx')"
  shows "same_lexer lx lx' \<and> lx_token lx' = lx_token lx \<and> lx_last_token lx' = lx_last_token lx"
proof (cases lx rule: lookahead_cases)
  case EOF
  with assms show ?thesis by (simp add: same_lexer_def)
next
  case (linked cs u us)
  with assms show ?thesis by (simp add: lookahead_linked same_lexer_def)
next
  case read
  with assms have "read_more (lookahead_fuel lx) (last (lx_token lx # lx_links lx)) lx = Inr (t, lx')"
    by (simp add: lookahead_read)
  from read_more_shape [OF this] show ?thesis by (auto simp: same_lexer_def)
qed

text \<open>After a successful lookahead the token stands in the links.\<close>

lemma lookahead_links:
  assumes "lookahead lx = Inr (t, lx')" and "tok_kind (lx_token lx) \<noteq> EOF"
  shows "\<exists>cs us. lx_links lx' = cs @ t # us \<and> (\<forall>c \<in> set cs. is_comment c) \<and> \<not> is_comment t"
proof (cases lx rule: lookahead_cases)
  case (linked cs u us)
  with assms show ?thesis by (auto simp: lookahead_linked)
next
  case read
  with assms have "read_more (lookahead_fuel lx) (last (lx_token lx # lx_links lx)) lx = Inr (t, lx')"
    by (simp add: lookahead_read)
  from read_more_shape [OF this] obtain cs where
    "lx_links lx' = (lx_links lx @ cs) @ t # []" "\<forall>c \<in> set cs. is_comment c" "\<not> is_comment t"
    by auto
  with read(2) show ?thesis by (intro exI [of _ "lx_links lx @ cs"] exI [of _ "[]"]) auto
qed (use assms in simp)

text \<open>So looking again reads nothing.\<close>

lemma lookahead_again:
  assumes "lookahead lx = Inr (t, lx')"
  shows "lookahead lx' = Inr (t, lx')"
proof (cases "tok_kind (lx_token lx) = EOF")
  case True
  with assms show ?thesis by auto
next
  case False
  from lookahead_links [OF assms False] lookahead_frame [OF assms] False
  show ?thesis by (auto simp: lookahead_linked)
qed

lemma read_more_last_token:
  "read_more n prev (lx\<lparr>lx_last_token := u\<rparr>)
     = map_sum id (\<lambda>(t, lx'). (t, lx'\<lparr>lx_last_token := u\<rparr>)) (read_more n prev lx)"
proof (induction n arbitrary: prev lx)
  case (Suc n)
  have upd: "lx\<lparr>lx_last_token := u, lx_lpos := lp, lx_links := ls\<rparr>
      = (lx\<lparr>lx_lpos := lp, lx_links := ls\<rparr>)\<lparr>lx_last_token := u\<rparr>" for lp ls
    by simp
  show ?case
    by (cases "lx_read_next_token lx (lx_source lx) (lx_lpos lx) (tok_end prev)")
       (auto simp: Let_def upd Suc.IH simp del: lexer.update_convs)
qed simp

lemma lookahead_last_token:
  "lookahead (lx\<lparr>lx_last_token := u\<rparr>)
     = map_sum id (\<lambda>(t, lx'). (t, lx'\<lparr>lx_last_token := u\<rparr>)) (lookahead lx)"
proof (cases lx rule: lookahead_cases)
  case (linked cs t us)
  then show ?thesis by (simp add: lookahead_linked)
next
  case read
  then show ?thesis by (simp add: lookahead_read read_more_last_token lookahead_fuel_def)
qed simp

context token_reader
begin

lemma read_more_spec:
  assumes "lx_read_next_token lx = read" and "tok_end prev \<le> length (src_body (lx_source lx))"
    and "length (src_body (lx_source lx)) - tok_end prev < n" and "tok_kind prev \<noteq> EOF"
  shows "case read_more n prev lx of
      Inl e \<Rightarrow> e \<noteq> OutOfFuel
    | Inr (t, lx') \<Rightarrow> \<exists>cs. lx_links lx' = lx_links lx @ cs
        \<and> chain_ok (length (src_body (lx_source lx))) prev cs"
  using assms
proof (induction n arbitrary: prev lx)
  case 0
  then show ?case by simp
next
  case (Suc n)
  let ?n = "length (src_body (lx_source lx))"
  show ?case
  proof (cases "read (lx_source lx) (lx_lpos lx) (tok_end prev)")
    case (Inl e)
    with Suc.prems(1) read_returns [of "lx_source lx" "lx_lpos lx" "tok_end prev"]
    show ?thesis by auto
  next
    case (Inr r)
    then obtain u lp where u: "read (lx_source lx) (lx_lpos lx) (tok_end prev) = Inr (u, lp)"
      by (cases r) auto
    note facts = read_bounds [OF u Suc.prems(2)] read_not_SOF [OF u Suc.prems(2)]
    have ok: "chain_ok ?n prev [u]"
      using facts read_progress [OF u Suc.prems(2)] Suc.prems(4) by simp
    show ?thesis
    proof (cases "is_comment u")
      case False
      with u Suc.prems(1) ok show ?thesis by (auto simp: Let_def)
    next
      case True
      let ?lx = "lx\<lparr>lx_lpos := lp, lx_links := lx_links lx @ [u]\<rparr>"
      have "tok_start u < tok_end u" using read_progress [OF u Suc.prems(2)] True by simp
      with facts Suc.prems(3) have "?n - tok_end u < n" by linarith
      then have "case read_more n u ?lx of Inl e \<Rightarrow> e \<noteq> OutOfFuel
          | Inr (t, lx') \<Rightarrow> \<exists>cs. lx_links lx' = lx_links ?lx @ cs \<and> chain_ok ?n u cs"
        using Suc.IH [of ?lx u] Suc.prems(1) facts True by (auto split: sum.splits)
      then show ?thesis
      proof (cases "read_more n u ?lx")
        case (Inr r')
        then obtain t lx' where r': "read_more n u ?lx = Inr (t, lx')" by (cases r') auto
        then obtain cs where "lx_links lx' = lx_links lx @ [u] @ cs" "chain_ok ?n u cs"
          using \<open>case read_more n u ?lx of Inl e \<Rightarrow> e \<noteq> OutOfFuel
            | Inr (t, lx') \<Rightarrow> \<exists>cs. lx_links lx' = lx_links ?lx @ cs \<and> chain_ok ?n u cs\<close>
          by auto
        then have "lx_links lx' = lx_links lx @ (u # cs)" "chain_ok ?n prev (u # cs)"
          using ok by auto
        with u Suc.prems(1) True r' show ?thesis by (auto simp: Let_def)
      qed (use u Suc.prems(1) True in \<open>auto simp: Let_def\<close>)
    qed
  qed
qed

lemma lookahead_spec:
  assumes "lx_read_next_token lx = read" and "lexer_ok lx"
  shows "case lookahead lx of
      Inl e \<Rightarrow> e \<noteq> OutOfFuel
    | Inr (t, lx') \<Rightarrow> lexer_ok lx'
        \<and> (tok_kind (lx_token lx) = EOF \<and> t = lx_token lx
           \<or> tok_kind (lx_token lx) \<noteq> EOF
             \<and> (\<exists>us. dropWhile is_comment (lx_links lx') = t # us))"
proof (cases lx rule: lookahead_cases)
  case EOF
  with assms(2) show ?thesis by simp
next
  case (linked cs t us)
  with assms(2) dropWhile_comments [OF linked(3,4)] show ?thesis by (simp add: lookahead_linked)
next
  case read
  let ?prev = "last (lx_token lx # lx_links lx)" and ?n = "length (src_body (lx_source lx))"
  from assms(2) have ok: "chain_ok ?n (lx_token lx) (lx_links lx)" "tok_end (lx_token lx) \<le> ?n"
    by (auto simp: lexer_ok_def)
  have prev: "tok_end ?prev \<le> ?n" "tok_kind ?prev \<noteq> EOF"
    using chain_ok_last [OF ok] chain_ok_last_kind [OF ok(1) read] by auto
  have spec: "case lookahead lx of Inl e \<Rightarrow> e \<noteq> OutOfFuel
     | Inr (t, lx') \<Rightarrow> \<exists>cs. lx_links lx' = lx_links lx @ cs \<and> chain_ok ?n ?prev cs"
    unfolding lookahead_read [OF read]
    by (rule read_more_spec [OF assms(1) prev(1) _ prev(2)]) (simp add: lookahead_fuel_def)
  show ?thesis
  proof (cases "lookahead lx")
    case (Inl e)
    with spec show ?thesis by simp
  next
    case (Inr r)
    then obtain t lx' where r: "lookahead lx = Inr (t, lx')" by (cases r) auto
    with spec obtain cs where cs: "lx_links lx' = lx_links lx @ cs" "chain_ok ?n ?prev cs"
      by auto
    then have "chain_ok ?n (lx_token lx) (lx_links lx')"
      using ok by (simp only: chain_ok_append)
    then have "lexer_ok lx'"
      using assms(2) lookahead_frame [OF r] by (simp add: lexer_ok_def same_lexer_def)
    moreover obtain ds us where "lx_links lx' = ds @ t # us" "\<forall>c \<in> set ds. is_comment c"
      "\<not> is_comment t"
      using lookahead_links [OF r read(1)] by blast
    then have "\<exists>us. dropWhile is_comment (lx_links lx') = t # us"
      using dropWhile_comments by auto
    ultimately show ?thesis using r read(1) by simp
  qed
qed

lemma advance_spec:
  assumes "lx_read_next_token lx = read" and "lexer_ok lx"
  shows "case advance lx of
      Inl e \<Rightarrow> e \<noteq> OutOfFuel
    | Inr (t, lx') \<Rightarrow> lexer_ok lx' \<and> same_lexer lx lx' \<and> lx_token lx' = t
        \<and> lx_last_token lx' = lx_token lx \<and> lexer_rest lx' \<le> lexer_rest lx
        \<and> (tok_kind (lx_token lx) \<noteq> EOF \<longrightarrow> lexer_rest lx' < lexer_rest lx)"
proof (cases "lookahead lx")
  case (Inl e)
  with lookahead_spec [OF assms] show ?thesis
    by (simp add: advance_def lookahead_last_token)
next
  case (Inr r)
  then obtain t lx1 where r: "lookahead lx = Inr (t, lx1)" by (cases r) auto
  let ?lx' = "lx1\<lparr>lx_last_token := lx_token lx, lx_token := t,
      lx_links := tl (dropWhile is_comment (lx_links lx1))\<rparr>"
  have eq: "advance lx = Inr (t, ?lx')"
    by (simp add: advance_def lookahead_last_token r)
  have ok1: "lexer_ok lx1" using lookahead_spec [OF assms] r by simp
  have frame: "same_lexer lx lx1" "lx_token lx1 = lx_token lx"
    using lookahead_frame [OF r] by auto
  show ?thesis
  proof (cases "tok_kind (lx_token lx) = EOF")
    case True
    with r have "lx1 = lx" "t = lx_token lx" by auto
    moreover have "lx_links lx = []" using True ok1 frame
      by (cases "lx_links lx1") (auto simp: lexer_ok_def \<open>lx1 = lx\<close>)
    ultimately show ?thesis using eq assms(2) True
      by (simp add: lexer_ok_def lexer_rest_def same_lexer_def)
  next
    case False
    from lookahead_links [OF r this] obtain cs us where
      us: "lx_links lx1 = cs @ t # us" "\<forall>c \<in> set cs. is_comment c" "\<not> is_comment t" by auto
    let ?n = "length (src_body (lx_source lx1))"
    have chain: "chain_ok ?n (lx_token lx) cs" "chain_ok ?n (last (lx_token lx # cs)) (t # us)"
      and n: "tok_end (lx_token lx) \<le> ?n"
      using ok1 frame us(1) by (simp_all add: lexer_ok_def chain_ok_append)
    have "tl (dropWhile is_comment (lx_links lx1)) = us"
      using us dropWhile_comments by simp
    moreover have "tok_end (lx_token lx) \<le> tok_end (last (lx_token lx # cs))"
      using chain_ok_last [OF chain(1) n] by simp
    ultimately show ?thesis using eq chain(2) n us(3) False frame
      by (auto simp: lexer_ok_def lexer_rest_def same_lexer_def)
  qed
qed

end

lemma advance_after_lookahead:
  assumes "lookahead lx = Inr (t, lx')"
  shows "advance lx' = advance lx"
  using lookahead_again [OF assms] lookahead_frame [OF assms] assms
  by (simp add: advance_def lookahead_last_token)

section \<open>Both lexer classes keep the contract\<close>

interpretation std: token_reader Lexer_read_next_token
  by unfold_locales
     (auto simp: Lexer_read_next_token_def read_next_token_fuel dest: read_next_token_bounds)

interpretation coordinate: token_reader SchemaCoordinateLexer_read_next_token
proof unfold_locales
  fix src lp i t lp'
  show "SchemaCoordinateLexer_read_next_token src lp i \<noteq> Inl OutOfFuel"
    by (simp add: SchemaCoordinateLexer_read_next_token_def Let_def split: option.split)
  assume read: "SchemaCoordinateLexer_read_next_token src lp i = Inr (t, lp')"
    and i: "i \<le> length (src_body src)"
  have kinds: "k \<noteq> EOF \<and> k \<noteq> SOF" if "SC_KIND_FOR_PUNCT c = Some k" for c k
    using that by (auto simp: SC_KIND_FOR_PUNCT_def split: if_splits)
  have all: "i \<le> tok_start t \<and> tok_start t \<le> tok_end t \<and> tok_end t \<le> length (src_body src)
      \<and> (tok_kind t \<noteq> EOF \<longrightarrow> tok_start t < tok_end t) \<and> tok_kind t \<noteq> SOF"
  proof (cases "i < length (src_body src)")
    case True
    with read read_name_bounds [OF True, of lp] show ?thesis
      by (auto simp: SchemaCoordinateLexer_read_next_token_def Let_def read_name_def
          split: option.splits if_splits dest: kinds)
  next
    case False
    with read i show ?thesis
      by (auto simp: SchemaCoordinateLexer_read_next_token_def Let_def)
  qed
  show "i \<le> tok_start t \<and> tok_start t \<le> tok_end t \<and> tok_end t \<le> length (src_body src)"
    using all by blast
  show "tok_start t < tok_end t" if "tok_kind t \<noteq> EOF" using all that by blast
  show "tok_kind t \<noteq> SOF" using all by blast
qed

lemma lexer_ok_init [simp]: "lexer_ok (Lexer_init read source)"
  by (simp add: lexer_ok_def Lexer_init_def sof_token_def)

lemma Lexer_init_reader [simp]: "lx_read_next_token (Lexer_init read source) = read"
  by (simp add: Lexer_init_def)

end
