(* ===== verification/Parser.thy ===== *)
theory Parser
  imports Parser_Core
begin

text \<open>
  The parsing methods of \<open>language/parser.py\<close>, one definition per method, in the order of the
  class.  The recursive methods (values, type references, selection sets) are primitive
  recursive in a fuel argument; the methods between two recursive calls take the recursive method
  as an argument, and the fuel is taken from the input that is left where the recursion begins.
\<close>

section \<open>Names\<close>

definition value_or_empty :: "token \<Rightarrow> pystr" where
  "value_or_empty token = (case tok_value token of Some v \<Rightarrow> v | None \<Rightarrow> [])"

definition parse_name :: "name_node parser" where
  "parse_name =
     bnd (expect_token NAME) (\<lambda>token.
     bnd (loc_from token) (\<lambda>l.
     ret (NameNode (value_or_empty token) l)))"

definition parse_named_type :: "named_type_node parser" where
  "parse_named_type =
     bnd cur_token (\<lambda>start.
     bnd parse_name (\<lambda>name.
     bnd (loc_from start) (\<lambda>l.
     ret (NamedTypeNode name l))))"

section \<open>Values\<close>

definition parse_variable :: "variable_node parser" where
  "parse_variable =
     bnd cur_token (\<lambda>start.
     bnd (expect_token DOLLAR) (\<lambda>_.
     bnd parse_name (\<lambda>name.
     bnd (loc_from start) (\<lambda>l.
     ret (VariableNode name l)))))"

definition parse_string_literal :: "string_value_node parser" where
  "parse_string_literal =
     bnd cur_token (\<lambda>token.
     bnd advance_lexer (\<lambda>_.
     bnd (loc_from token) (\<lambda>l.
     ret (StringValueNode (value_or_empty token) (Some (tok_kind token = BLOCK_STRING)) l))))"

definition parse_list :: "(bool \<Rightarrow> value_node parser) \<Rightarrow> bool \<Rightarrow> value_node parser" where
  "parse_list parse_value_literal is_const =
     bnd cur_token (\<lambda>start.
     bnd (any' BRACKET_L (parse_value_literal is_const) BRACKET_R) (\<lambda>values.
     bnd (loc_from start) (\<lambda>l.
     ret (ListValueNode values l))))"

definition parse_object_field ::
  "(bool \<Rightarrow> value_node parser) \<Rightarrow> bool \<Rightarrow> object_field_node parser" where
  "parse_object_field parse_value_literal is_const =
     bnd cur_token (\<lambda>start.
     bnd parse_name (\<lambda>name.
     bnd (expect_token COLON) (\<lambda>_.
     bnd (parse_value_literal is_const) (\<lambda>value.
     bnd (loc_from start) (\<lambda>l.
     ret (ObjectFieldNode name value l))))))"

definition parse_object :: "(bool \<Rightarrow> value_node parser) \<Rightarrow> bool \<Rightarrow> value_node parser" where
  "parse_object parse_value_literal is_const =
     bnd cur_token (\<lambda>start.
     bnd (any' BRACE_L (parse_object_field parse_value_literal is_const) BRACE_R) (\<lambda>fields.
     bnd (loc_from start) (\<lambda>l.
     ret (ObjectValueNode fields l))))"

definition parse_int :: "value_node parser" where
  "parse_int =
     bnd cur_token (\<lambda>token.
     bnd advance_lexer (\<lambda>_.
     bnd (loc_from token) (\<lambda>l.
     ret (IntValueNode (value_or_empty token) l))))"

definition parse_float :: "value_node parser" where
  "parse_float =
     bnd cur_token (\<lambda>token.
     bnd advance_lexer (\<lambda>_.
     bnd (loc_from token) (\<lambda>l.
     ret (FloatValueNode (value_or_empty token) l))))"

definition parse_named_values :: "value_node parser" where
  "parse_named_values =
     bnd cur_token (\<lambda>token.
     let value = value_or_empty token in
     bnd advance_lexer (\<lambda>_.
     bnd (loc_from token) (\<lambda>l.
     if value = str ''true'' then ret (BooleanValueNode True l)
     else if value = str ''false'' then ret (BooleanValueNode False l)
     else if value = str ''null'' then ret (NullValueNode l)
     else ret (EnumValueNode value l))))"

definition parse_variable_value :: "bool \<Rightarrow> variable_node parser" where
  "parse_variable_value is_const =
     (if is_const then
        bnd (expect_token DOLLAR) (\<lambda>variable_token.
        bnd cur_token (\<lambda>token.
        if tok_kind token = NAME
        then fail (GraphQLSyntaxError (tok_start variable_token)
               (str ''Unexpected variable '' @ [39, 36] @ value_or_empty token @ [39]
                 @ str '' in constant value.''))
        else unexpected_at variable_token))
      else parse_variable)"

primrec parse_value_literal_fuel :: "nat \<Rightarrow> bool \<Rightarrow> value_node parser" where
  "parse_value_literal_fuel 0 is_const = fail OutOfFuel"
| "parse_value_literal_fuel (Suc n) is_const =
     bnd cur_token (\<lambda>token.
     case tok_kind token of
       BRACKET_L \<Rightarrow> parse_list (parse_value_literal_fuel n) is_const
     | BRACE_L \<Rightarrow> parse_object (parse_value_literal_fuel n) is_const
     | INT' \<Rightarrow> parse_int
     | FLOAT \<Rightarrow> parse_float
     | STRING \<Rightarrow> bnd parse_string_literal (\<lambda>s. ret (StringValue s))
     | BLOCK_STRING \<Rightarrow> bnd parse_string_literal (\<lambda>s. ret (StringValue s))
     | NAME \<Rightarrow> parse_named_values
     | DOLLAR \<Rightarrow> bnd (parse_variable_value is_const) (\<lambda>v. ret (VariableValue v))
     | _ \<Rightarrow> unexpected)"

definition parse_value_literal :: "bool \<Rightarrow> value_node parser" where
  "parse_value_literal is_const = with_fuel (\<lambda>n. parse_value_literal_fuel n is_const)"

definition parse_const_value_literal :: "value_node parser" where
  "parse_const_value_literal = parse_value_literal True"

section \<open>Arguments and directives\<close>

definition parse_argument :: "bool \<Rightarrow> argument_node parser" where
  "parse_argument is_const =
     bnd cur_token (\<lambda>start.
     bnd parse_name (\<lambda>name.
     bnd (expect_token COLON) (\<lambda>_.
     bnd (parse_value_literal is_const) (\<lambda>value.
     bnd (loc_from start) (\<lambda>l.
     ret (ArgumentNode name value l))))))"

definition parse_const_argument :: "argument_node parser" where
  "parse_const_argument = parse_argument True"

definition parse_arguments :: "bool \<Rightarrow> argument_node list option parser" where
  "parse_arguments is_const =
     (let item = (if is_const then parse_const_argument else parse_argument False)
      in optional_many PAREN_L item PAREN_R)"

definition parse_fragment_argument :: "fragment_argument_node parser" where
  "parse_fragment_argument =
     bnd cur_token (\<lambda>start.
     bnd parse_name (\<lambda>name.
     bnd (expect_token COLON) (\<lambda>_.
     bnd (parse_value_literal False) (\<lambda>value.
     bnd (loc_from start) (\<lambda>l.
     ret (FragmentArgumentNode name value l))))))"

definition parse_fragment_arguments :: "fragment_argument_node list option parser" where
  "parse_fragment_arguments = optional_many PAREN_L parse_fragment_argument PAREN_R"

definition parse_directive :: "bool \<Rightarrow> directive_node parser" where
  "parse_directive is_const =
     bnd cur_token (\<lambda>start.
     bnd (expect_token AT) (\<lambda>_.
     bnd parse_name (\<lambda>name.
     bnd (parse_arguments is_const) (\<lambda>args.
     bnd (loc_from start) (\<lambda>l.
     ret (DirectiveNode name args l))))))"

definition parse_directives :: "bool \<Rightarrow> directive_node list option parser" where
  "parse_directives is_const =
     bnd (with_fuel (\<lambda>n. peek_loop n AT (parse_directive is_const) [])) (\<lambda>directives.
     ret (if directives \<noteq> [] then Some directives else None))"

definition parse_const_directives :: "directive_node list option parser" where
  "parse_const_directives = parse_directives True"

section \<open>Type references\<close>

primrec parse_type_reference_fuel :: "nat \<Rightarrow> type_node parser" where
  "parse_type_reference_fuel 0 = fail OutOfFuel"
| "parse_type_reference_fuel (Suc n) =
     bnd cur_token (\<lambda>start.
     bnd (expect_optional_token BRACKET_L) (\<lambda>is_list.
     bnd (if is_list then
            bnd (parse_type_reference_fuel n) (\<lambda>inner_type.
            bnd (expect_token BRACKET_R) (\<lambda>_.
            bnd (loc_from start) (\<lambda>l.
            ret (ListTypeNode inner_type l))))
          else bnd parse_named_type (\<lambda>t. ret (NamedType t))) (\<lambda>type'.
     bnd (expect_optional_token BANG) (\<lambda>non_null.
     if non_null then bnd (loc_from start) (\<lambda>l. ret (NonNullTypeNode type' l))
     else ret type'))))"

definition parse_type_reference :: "type_node parser" where
  "parse_type_reference = with_fuel parse_type_reference_fuel"

section \<open>Operations\<close>

definition parse_operation_type :: "operation_type parser" where
  "parse_operation_type =
     bnd (expect_token NAME) (\<lambda>operation_token.
     if tok_value operation_token = Some (str ''query'') then ret QUERY
     else if tok_value operation_token = Some (str ''mutation'') then ret MUTATION
     else if tok_value operation_token = Some (str ''subscription'') then ret SUBSCRIPTION
     else unexpected_at operation_token)"

definition peek_description :: "bool parser" where
  "peek_description =
     bnd (peek STRING) (\<lambda>b. if b then ret True else peek BLOCK_STRING)"

definition parse_description :: "string_value_node option parser" where
  "parse_description = bnd peek_description (\<lambda>b. opt_if b parse_string_literal)"

definition parse_default_value :: "value_node option parser" where
  "parse_default_value =
     bnd (expect_optional_token EQUALS) (\<lambda>b. opt_if b parse_const_value_literal)"

definition parse_variable_definition :: "variable_definition_node parser" where
  "parse_variable_definition =
     bnd cur_token (\<lambda>start.
     bnd parse_description (\<lambda>description.
     bnd parse_variable (\<lambda>variable.
     bnd (expect_token COLON) (\<lambda>_.
     bnd parse_type_reference (\<lambda>type'.
     bnd parse_default_value (\<lambda>default_value.
     bnd parse_const_directives (\<lambda>directives.
     bnd (loc_from start) (\<lambda>l.
     ret (VariableDefinitionNode description variable type' default_value directives l)))))))))"

definition parse_variable_definitions :: "variable_definition_node list option parser" where
  "parse_variable_definitions = optional_many PAREN_L parse_variable_definition PAREN_R"

definition parse_fragment_name :: "name_node parser" where
  "parse_fragment_name =
     bnd cur_token (\<lambda>token.
     if tok_value token = Some (str ''on'') then unexpected else parse_name)"

definition parse_type_condition :: "named_type_node parser" where
  "parse_type_condition = bnd (expect_keyword ''on'') (\<lambda>_. parse_named_type)"

definition parse_field :: "selection_set_node parser \<Rightarrow> selection_node parser" where
  "parse_field parse_selection_set =
     bnd cur_token (\<lambda>start.
     bnd parse_name (\<lambda>name_or_alias.
     bnd (expect_optional_token COLON) (\<lambda>has_alias.
     bnd (if has_alias then bnd parse_name (\<lambda>name. ret (Some name_or_alias, name))
          else ret (None, name_or_alias)) (\<lambda>(alias, name).
     bnd (parse_arguments False) (\<lambda>args.
     bnd (parse_directives False) (\<lambda>directives.
     bnd (peek BRACE_L) (\<lambda>b.
     bnd (opt_if b parse_selection_set) (\<lambda>selection_set.
     bnd (loc_from start) (\<lambda>l.
     ret (FieldNode name alias args directives selection_set l))))))))))"

definition parse_fragment :: "selection_set_node parser \<Rightarrow> selection_node parser" where
  "parse_fragment parse_selection_set =
     bnd cur_token (\<lambda>start.
     bnd (expect_token SPREAD) (\<lambda>_.
     bnd (expect_optional_keyword ''on'') (\<lambda>has_type_condition.
     bnd (peek NAME) (\<lambda>is_name.
     if \<not> has_type_condition \<and> is_name then
       bnd parse_fragment_name (\<lambda>name.
       bnd (peek PAREN_L) (\<lambda>is_paren.
       bnd (get p_experimental_fragment_arguments) (\<lambda>experimental.
       if is_paren \<and> experimental then
         bnd parse_fragment_arguments (\<lambda>args.
         bnd (parse_directives False) (\<lambda>directives.
         bnd (loc_from start) (\<lambda>l.
         ret (FragmentSpreadNode name args directives l))))
       else
         bnd (parse_directives False) (\<lambda>directives.
         bnd (loc_from start) (\<lambda>l.
         ret (FragmentSpreadNode name None directives l))))))
     else
       bnd (opt_if has_type_condition parse_named_type) (\<lambda>type_condition.
       bnd (parse_directives False) (\<lambda>directives.
       bnd parse_selection_set (\<lambda>selection_set.
       bnd (loc_from start) (\<lambda>l.
       ret (InlineFragmentNode selection_set type_condition directives l)))))))))"

definition parse_selection :: "selection_set_node parser \<Rightarrow> selection_node parser" where
  "parse_selection parse_selection_set =
     bnd (peek SPREAD) (\<lambda>b.
     if b then parse_fragment parse_selection_set else parse_field parse_selection_set)"

primrec parse_selection_set_fuel :: "nat \<Rightarrow> selection_set_node parser" where
  "parse_selection_set_fuel 0 = fail OutOfFuel"
| "parse_selection_set_fuel (Suc n) =
     bnd cur_token (\<lambda>start.
     bnd (many BRACE_L (parse_selection (parse_selection_set_fuel n)) BRACE_R) (\<lambda>sels.
     bnd (loc_from start) (\<lambda>l.
     ret (SelectionSetNode sels l))))"

definition parse_selection_set :: "selection_set_node parser" where
  "parse_selection_set = with_fuel parse_selection_set_fuel"

definition parse_operation_definition :: "operation_definition_node parser" where
  "parse_operation_definition =
     bnd cur_token (\<lambda>start.
     bnd (peek BRACE_L) (\<lambda>shorthand.
     if shorthand then
       bnd parse_selection_set (\<lambda>selection_set.
       bnd (loc_from start) (\<lambda>l.
       ret (OperationDefinitionNode selection_set None None None None QUERY l)))
     else
       bnd parse_description (\<lambda>description.
       bnd parse_operation_type (\<lambda>operation.
       bnd (peek NAME) (\<lambda>named.
       bnd (opt_if named parse_name) (\<lambda>name.
       bnd parse_variable_definitions (\<lambda>variable_definitions.
       bnd (parse_directives False) (\<lambda>directives.
       bnd parse_selection_set (\<lambda>selection_set.
       bnd (loc_from start) (\<lambda>l.
       ret (OperationDefinitionNode selection_set description name variable_definitions
              directives operation l)))))))))))"

definition parse_fragment_definition :: "fragment_definition_node parser" where
  "parse_fragment_definition =
     bnd cur_token (\<lambda>start.
     bnd parse_description (\<lambda>description.
     bnd (expect_keyword ''fragment'') (\<lambda>_.
     bnd (get p_experimental_fragment_arguments) (\<lambda>experimental.
     bnd parse_fragment_name (\<lambda>name.
     bnd (if experimental then parse_variable_definitions else ret (Some []))
       (\<lambda>variable_definitions.
     bnd parse_type_condition (\<lambda>type_condition.
     bnd (parse_directives False) (\<lambda>directives.
     bnd parse_selection_set (\<lambda>selection_set.
     bnd (loc_from start) (\<lambda>l.
     ret (FragmentDefinitionNode selection_set description name variable_definitions
            directives type_condition l)))))))))))"

end
