(* ===== verification/Parser_Schema.thy ===== *)
theory Parser_Schema
  imports Parser
begin

text \<open>
  The second half of \<open>language/parser.py\<close>: the type system definitions and extensions, the
  dispatch on the leading keyword, whole documents, and the schema coordinates; with the entry
  points \<open>parse\<close>, \<open>parse_value\<close>, \<open>parse_const_value\<close>, \<open>parse_type\<close> and
  \<open>parse_schema_coordinate\<close>.
\<close>

section \<open>Parts of type definitions\<close>

definition parse_operation_type_definition :: "operation_type_definition_node parser" where
  "parse_operation_type_definition =
     bnd cur_token (\<lambda>start.
     bnd parse_operation_type (\<lambda>operation.
     bnd (expect_token COLON) (\<lambda>_.
     bnd parse_named_type (\<lambda>type'.
     bnd (loc_from start) (\<lambda>l.
     ret (OperationTypeDefinitionNode operation type' l))))))"

definition parse_implements_interfaces :: "named_type_node list option parser" where
  "parse_implements_interfaces =
     bnd (expect_optional_keyword ''implements'') (\<lambda>b.
     opt_if b (delimited_many AMP parse_named_type))"

definition parse_input_value_def :: "input_value_definition_node parser" where
  "parse_input_value_def =
     bnd cur_token (\<lambda>start.
     bnd parse_description (\<lambda>description.
     bnd parse_name (\<lambda>name.
     bnd (expect_token COLON) (\<lambda>_.
     bnd parse_type_reference (\<lambda>type'.
     bnd parse_default_value (\<lambda>default_value.
     bnd parse_const_directives (\<lambda>directives.
     bnd (loc_from start) (\<lambda>l.
     ret (InputValueDefinitionNode name type' description default_value directives l)))))))))"

definition parse_argument_defs :: "input_value_definition_node list option parser" where
  "parse_argument_defs = optional_many PAREN_L parse_input_value_def PAREN_R"

definition parse_field_definition :: "field_definition_node parser" where
  "parse_field_definition =
     bnd cur_token (\<lambda>start.
     bnd parse_description (\<lambda>description.
     bnd parse_name (\<lambda>name.
     bnd parse_argument_defs (\<lambda>args.
     bnd (expect_token COLON) (\<lambda>_.
     bnd parse_type_reference (\<lambda>type'.
     bnd parse_const_directives (\<lambda>directives.
     bnd (loc_from start) (\<lambda>l.
     ret (FieldDefinitionNode name type' description args directives l)))))))))"

definition parse_fields_definition :: "field_definition_node list option parser" where
  "parse_fields_definition = optional_many BRACE_L parse_field_definition BRACE_R"

definition parse_union_member_types :: "named_type_node list option parser" where
  "parse_union_member_types =
     bnd (expect_optional_token EQUALS) (\<lambda>b. opt_if b (delimited_many PIPE parse_named_type))"

definition parse_enum_value_name :: "name_node parser" where
  "parse_enum_value_name =
     bnd cur_token (\<lambda>token.
     if tok_value token \<in> {Some (str ''true''), Some (str ''false''), Some (str ''null'')}
     then fail (GraphQLSyntaxError (tok_start token)
            (get_token_desc token @ str '' is reserved and cannot be used for an enum value.''))
     else parse_name)"

definition parse_enum_value_definition :: "enum_value_definition_node parser" where
  "parse_enum_value_definition =
     bnd cur_token (\<lambda>start.
     bnd parse_description (\<lambda>description.
     bnd parse_enum_value_name (\<lambda>name.
     bnd parse_const_directives (\<lambda>directives.
     bnd (loc_from start) (\<lambda>l.
     ret (EnumValueDefinitionNode name description directives l))))))"

definition parse_enum_values_definition :: "enum_value_definition_node list option parser" where
  "parse_enum_values_definition = optional_many BRACE_L parse_enum_value_definition BRACE_R"

definition parse_input_fields_definition :: "input_value_definition_node list option parser" where
  "parse_input_fields_definition = optional_many BRACE_L parse_input_value_def BRACE_R"

definition parse_directive_location :: "name_node parser" where
  "parse_directive_location =
     bnd cur_token (\<lambda>start.
     bnd parse_name (\<lambda>name.
     if name_value name \<in> set (map str DirectiveLocation_members) then ret name
     else unexpected_at start))"

definition parse_directive_locations :: "name_node list parser" where
  "parse_directive_locations = delimited_many PIPE parse_directive_location"

section \<open>Type system definitions\<close>

definition parse_schema_definition :: "definition_node parser" where
  "parse_schema_definition =
     bnd cur_token (\<lambda>start.
     bnd parse_description (\<lambda>description.
     bnd (expect_keyword ''schema'') (\<lambda>_.
     bnd parse_const_directives (\<lambda>directives.
     bnd (many BRACE_L parse_operation_type_definition BRACE_R) (\<lambda>operation_types.
     bnd (loc_from start) (\<lambda>l.
     ret (SchemaDefinitionNode description directives operation_types l)))))))"

definition parse_scalar_type_definition :: "definition_node parser" where
  "parse_scalar_type_definition =
     bnd cur_token (\<lambda>start.
     bnd parse_description (\<lambda>description.
     bnd (expect_keyword ''scalar'') (\<lambda>_.
     bnd parse_name (\<lambda>name.
     bnd parse_const_directives (\<lambda>directives.
     bnd (loc_from start) (\<lambda>l.
     ret (ScalarTypeDefinitionNode name description directives l)))))))"

definition parse_object_type_definition :: "definition_node parser" where
  "parse_object_type_definition =
     bnd cur_token (\<lambda>start.
     bnd parse_description (\<lambda>description.
     bnd (expect_keyword ''type'') (\<lambda>_.
     bnd parse_name (\<lambda>name.
     bnd parse_implements_interfaces (\<lambda>interfaces.
     bnd parse_const_directives (\<lambda>directives.
     bnd parse_fields_definition (\<lambda>fields.
     bnd (loc_from start) (\<lambda>l.
     ret (ObjectTypeDefinitionNode name description directives interfaces fields l)))))))))"

definition parse_interface_type_definition :: "definition_node parser" where
  "parse_interface_type_definition =
     bnd cur_token (\<lambda>start.
     bnd parse_description (\<lambda>description.
     bnd (expect_keyword ''interface'') (\<lambda>_.
     bnd parse_name (\<lambda>name.
     bnd parse_implements_interfaces (\<lambda>interfaces.
     bnd parse_const_directives (\<lambda>directives.
     bnd parse_fields_definition (\<lambda>fields.
     bnd (loc_from start) (\<lambda>l.
     ret (InterfaceTypeDefinitionNode name description directives interfaces fields l)))))))))"

definition parse_union_type_definition :: "definition_node parser" where
  "parse_union_type_definition =
     bnd cur_token (\<lambda>start.
     bnd parse_description (\<lambda>description.
     bnd (expect_keyword ''union'') (\<lambda>_.
     bnd parse_name (\<lambda>name.
     bnd parse_const_directives (\<lambda>directives.
     bnd parse_union_member_types (\<lambda>types.
     bnd (loc_from start) (\<lambda>l.
     ret (UnionTypeDefinitionNode name description directives types l))))))))"

definition parse_enum_type_definition :: "definition_node parser" where
  "parse_enum_type_definition =
     bnd cur_token (\<lambda>start.
     bnd parse_description (\<lambda>description.
     bnd (expect_keyword ''enum'') (\<lambda>_.
     bnd parse_name (\<lambda>name.
     bnd parse_const_directives (\<lambda>directives.
     bnd parse_enum_values_definition (\<lambda>values.
     bnd (loc_from start) (\<lambda>l.
     ret (EnumTypeDefinitionNode name description directives values l))))))))"

definition parse_input_object_type_definition :: "definition_node parser" where
  "parse_input_object_type_definition =
     bnd cur_token (\<lambda>start.
     bnd parse_description (\<lambda>description.
     bnd (expect_keyword ''input'') (\<lambda>_.
     bnd parse_name (\<lambda>name.
     bnd parse_const_directives (\<lambda>directives.
     bnd parse_input_fields_definition (\<lambda>fields.
     bnd (loc_from start) (\<lambda>l.
     ret (InputObjectTypeDefinitionNode name description directives fields l))))))))"

definition parse_directive_definition :: "definition_node parser" where
  "parse_directive_definition =
     bnd cur_token (\<lambda>start.
     bnd parse_description (\<lambda>description.
     bnd (expect_keyword ''directive'') (\<lambda>_.
     bnd (expect_token AT) (\<lambda>_.
     bnd parse_name (\<lambda>name.
     bnd parse_argument_defs (\<lambda>args.
     bnd (get p_experimental_directives_on_directive_definitions) (\<lambda>experimental.
     bnd (if experimental then parse_const_directives else ret None) (\<lambda>directives.
     bnd (expect_optional_keyword ''repeatable'') (\<lambda>repeatable.
     bnd (expect_keyword ''on'') (\<lambda>_.
     bnd parse_directive_locations (\<lambda>locations.
     bnd (loc_from start) (\<lambda>l.
     ret (DirectiveDefinitionNode name locations description args directives
            repeatable l)))))))))))))"

section \<open>Type system extensions\<close>

text \<open>Truth of an optional tuple: neither \<open>None\<close> nor empty.\<close>

definition is_given :: "'a list option \<Rightarrow> bool" where
  "is_given xs = (case xs of None \<Rightarrow> False | Some ys \<Rightarrow> ys \<noteq> [])"

definition parse_schema_extension :: "definition_node parser" where
  "parse_schema_extension =
     bnd cur_token (\<lambda>start.
     bnd (expect_keyword ''extend'') (\<lambda>_.
     bnd (expect_keyword ''schema'') (\<lambda>_.
     bnd parse_const_directives (\<lambda>directives.
     bnd (optional_many BRACE_L parse_operation_type_definition BRACE_R) (\<lambda>operation_types.
     if \<not> is_given directives \<and> \<not> is_given operation_types then unexpected
     else bnd (loc_from start) (\<lambda>l.
     ret (SchemaExtensionNode directives operation_types l)))))))"

definition parse_scalar_type_extension :: "definition_node parser" where
  "parse_scalar_type_extension =
     bnd cur_token (\<lambda>start.
     bnd (expect_keyword ''extend'') (\<lambda>_.
     bnd (expect_keyword ''scalar'') (\<lambda>_.
     bnd parse_name (\<lambda>name.
     bnd parse_const_directives (\<lambda>directives.
     if \<not> is_given directives then unexpected
     else bnd (loc_from start) (\<lambda>l.
     ret (ScalarTypeExtensionNode name directives l)))))))"

definition parse_object_type_extension :: "definition_node parser" where
  "parse_object_type_extension =
     bnd cur_token (\<lambda>start.
     bnd (expect_keyword ''extend'') (\<lambda>_.
     bnd (expect_keyword ''type'') (\<lambda>_.
     bnd parse_name (\<lambda>name.
     bnd parse_implements_interfaces (\<lambda>interfaces.
     bnd parse_const_directives (\<lambda>directives.
     bnd parse_fields_definition (\<lambda>fields.
     if \<not> (is_given interfaces \<or> is_given directives \<or> is_given fields) then unexpected
     else bnd (loc_from start) (\<lambda>l.
     ret (ObjectTypeExtensionNode name directives interfaces fields l)))))))))"

definition parse_interface_type_extension :: "definition_node parser" where
  "parse_interface_type_extension =
     bnd cur_token (\<lambda>start.
     bnd (expect_keyword ''extend'') (\<lambda>_.
     bnd (expect_keyword ''interface'') (\<lambda>_.
     bnd parse_name (\<lambda>name.
     bnd parse_implements_interfaces (\<lambda>interfaces.
     bnd parse_const_directives (\<lambda>directives.
     bnd parse_fields_definition (\<lambda>fields.
     if \<not> (is_given interfaces \<or> is_given directives \<or> is_given fields) then unexpected
     else bnd (loc_from start) (\<lambda>l.
     ret (InterfaceTypeExtensionNode name directives interfaces fields l)))))))))"

definition parse_union_type_extension :: "definition_node parser" where
  "parse_union_type_extension =
     bnd cur_token (\<lambda>start.
     bnd (expect_keyword ''extend'') (\<lambda>_.
     bnd (expect_keyword ''union'') (\<lambda>_.
     bnd parse_name (\<lambda>name.
     bnd parse_const_directives (\<lambda>directives.
     bnd parse_union_member_types (\<lambda>types.
     if \<not> (is_given directives \<or> is_given types) then unexpected
     else bnd (loc_from start) (\<lambda>l.
     ret (UnionTypeExtensionNode name directives types l))))))))"

definition parse_enum_type_extension :: "definition_node parser" where
  "parse_enum_type_extension =
     bnd cur_token (\<lambda>start.
     bnd (expect_keyword ''extend'') (\<lambda>_.
     bnd (expect_keyword ''enum'') (\<lambda>_.
     bnd parse_name (\<lambda>name.
     bnd parse_const_directives (\<lambda>directives.
     bnd parse_enum_values_definition (\<lambda>values.
     if \<not> (is_given directives \<or> is_given values) then unexpected
     else bnd (loc_from start) (\<lambda>l.
     ret (EnumTypeExtensionNode name directives values l))))))))"

definition parse_input_object_type_extension :: "definition_node parser" where
  "parse_input_object_type_extension =
     bnd cur_token (\<lambda>start.
     bnd (expect_keyword ''extend'') (\<lambda>_.
     bnd (expect_keyword ''input'') (\<lambda>_.
     bnd parse_name (\<lambda>name.
     bnd parse_const_directives (\<lambda>directives.
     bnd parse_input_fields_definition (\<lambda>fields.
     if \<not> (is_given directives \<or> is_given fields) then unexpected
     else bnd (loc_from start) (\<lambda>l.
     ret (InputObjectTypeExtensionNode name directives fields l))))))))"

definition parse_directive_definition_extension :: "definition_node parser" where
  "parse_directive_definition_extension =
     bnd cur_token (\<lambda>start.
     bnd (expect_keyword ''extend'') (\<lambda>_.
     bnd (expect_keyword ''directive'') (\<lambda>_.
     bnd (expect_token AT) (\<lambda>_.
     bnd parse_name (\<lambda>name.
     bnd parse_const_directives (\<lambda>directives.
     if \<not> is_given directives then unexpected
     else bnd (loc_from start) (\<lambda>l.
     ret (DirectiveExtensionNode name directives l))))))))"

section \<open>Dispatch on the keyword\<close>

definition parse_type_extension_methods :: "(string \<times> definition_node parser) list" where
  "parse_type_extension_methods =
     [(''schema'', parse_schema_extension),
      (''scalar'', parse_scalar_type_extension),
      (''type'', parse_object_type_extension),
      (''interface'', parse_interface_type_extension),
      (''union'', parse_union_type_extension),
      (''enum'', parse_enum_type_extension),
      (''input'', parse_input_object_type_extension)]"

definition parse_type_system_definition_methods :: "(string \<times> definition_node parser) list" where
  "parse_type_system_definition_methods =
     [(''schema'', parse_schema_definition),
      (''scalar'', parse_scalar_type_definition),
      (''type'', parse_object_type_definition),
      (''interface'', parse_interface_type_definition),
      (''union'', parse_union_type_definition),
      (''enum'', parse_enum_type_definition),
      (''input'', parse_input_object_type_definition),
      (''directive'', parse_directive_definition)]"

definition parse_executable_definition_methods :: "(string \<times> definition_node parser) list" where
  "parse_executable_definition_methods =
     (let operation = bnd parse_operation_definition (\<lambda>d. ret (OperationDefinition d));
          fragment = bnd parse_fragment_definition (\<lambda>d. ret (FragmentDefinition d))
      in [(''query'', operation), (''mutation'', operation), (''subscription'', operation),
          (''fragment'', fragment)])"

text \<open>\<open>methods.get(token_name)\<close> for the value of a token.\<close>

definition method_for :: "(string \<times> 'a) list \<Rightarrow> pystr option \<Rightarrow> 'a option" where
  "method_for methods value =
     (case value of None \<Rightarrow> None
      | Some v \<Rightarrow> map_of (map (\<lambda>(k, m). (str k, m)) methods) v)"

definition parse_type_system_extension :: "definition_node parser" where
  "parse_type_system_extension =
     bnd lexer_lookahead (\<lambda>keyword_token.
     bnd (get p_experimental_directives_on_directive_definitions) (\<lambda>experimental.
     if tok_kind keyword_token = NAME then
       (case method_for parse_type_extension_methods (tok_value keyword_token) of
          Some method \<Rightarrow> method
        | None \<Rightarrow>
            if tok_value keyword_token = Some (str ''directive'') \<and> experimental
            then parse_directive_definition_extension
            else unexpected_at keyword_token)
     else unexpected_at keyword_token))"

definition parse_other_definition_methods :: "(string \<times> definition_node parser) list" where
  "parse_other_definition_methods = [(''extend'', parse_type_system_extension)]"

definition description_error :: "string \<Rightarrow> definition_node parser" where
  "description_error message =
     bnd cur_token (\<lambda>token. fail (GraphQLSyntaxError (tok_start token) (str message)))"

definition parse_definition :: "definition_node parser" where
  "parse_definition =
     bnd (peek BRACE_L) (\<lambda>shorthand.
     if shorthand then bnd parse_operation_definition (\<lambda>d. ret (OperationDefinition d))
     else
       bnd peek_description (\<lambda>has_description.
       bnd (if has_description then lexer_lookahead else cur_token) (\<lambda>keyword_token.
       if has_description \<and> tok_kind keyword_token = BRACE_L
       then description_error
              ''Unexpected description, descriptions are not supported on shorthand queries.''
       else if tok_kind keyword_token = NAME then
         (case method_for parse_type_system_definition_methods (tok_value keyword_token) of
            Some method \<Rightarrow> method
          | None \<Rightarrow>
         (case method_for parse_executable_definition_methods (tok_value keyword_token) of
            Some method \<Rightarrow> method
          | None \<Rightarrow>
         if has_description
         then description_error
                ''Unexpected description, only GraphQL definitions support descriptions.''
         else
         (case method_for parse_other_definition_methods (tok_value keyword_token) of
            Some method \<Rightarrow> method
          | None \<Rightarrow> unexpected_at keyword_token)))
       else unexpected_at keyword_token)))"

definition parse_document :: "document_node parser" where
  "parse_document =
     bnd cur_token (\<lambda>start.
     bnd (many SOF parse_definition EOF) (\<lambda>definitions.
     bnd (loc_from start) (\<lambda>l.
     bnd (get p_token_counter) (\<lambda>token_count.
     ret (DocumentNode definitions l token_count)))))"

section \<open>Schema coordinates\<close>

definition parse_schema_coordinate_node :: "schema_coordinate_node parser" where
  "parse_schema_coordinate_node =
     bnd cur_token (\<lambda>start.
     bnd (expect_optional_token AT) (\<lambda>of_directive.
     bnd parse_name (\<lambda>name.
     bnd (if \<not> of_directive then expect_optional_token DOT else ret False) (\<lambda>dot.
     bnd (opt_if dot parse_name) (\<lambda>member_name.
     bnd (if of_directive \<or> member_name \<noteq> None then expect_optional_token PAREN_L
          else ret False) (\<lambda>paren.
     bnd (opt_if paren
            (bnd parse_name (\<lambda>argument_name.
             bnd (expect_token COLON) (\<lambda>_.
             bnd (expect_token PAREN_R) (\<lambda>_.
             ret argument_name))))) (\<lambda>argument_name.
     bnd (loc_from start) (\<lambda>l.
     ret (if of_directive then
            (case argument_name of
               Some a \<Rightarrow> DirectiveArgumentCoordinateNode name a l
             | None \<Rightarrow> DirectiveCoordinateNode name l)
          else case member_name of
            Some m \<Rightarrow>
              (case argument_name of
                 Some a \<Rightarrow> ArgumentCoordinateNode name m a l
               | None \<Rightarrow> MemberCoordinateNode name m l)
          | None \<Rightarrow> TypeCoordinateNode name l)))))))))"

section \<open>Entry points\<close>

text \<open>Run a method on a new parser object and return its result.\<close>

definition run_parser :: "reader \<Rightarrow> source \<Rightarrow> parse_options \<Rightarrow> 'a parser \<Rightarrow> py_error + 'a" where
  "run_parser read source opts method =
     map_sum id fst (method (Parser_init (Lexer_init read source) opts))"

text \<open>The method between the start and the end of the input.\<close>

definition whole_input :: "'a parser \<Rightarrow> 'a parser" where
  "whole_input method =
     bnd (expect_token SOF) (\<lambda>_.
     bnd method (\<lambda>x.
     bnd (expect_token EOF) (\<lambda>_.
     ret x)))"

definition parse :: "source \<Rightarrow> parse_options \<Rightarrow> py_error + document_node" where
  "parse source opts = run_parser Lexer_read_next_token source opts parse_document"

definition parse_value :: "source \<Rightarrow> parse_options \<Rightarrow> py_error + value_node" where
  "parse_value source opts =
     run_parser Lexer_read_next_token source opts (whole_input (parse_value_literal False))"

definition parse_const_value :: "source \<Rightarrow> parse_options \<Rightarrow> py_error + value_node" where
  "parse_const_value source opts =
     run_parser Lexer_read_next_token source opts (whole_input parse_const_value_literal)"

definition parse_type :: "source \<Rightarrow> parse_options \<Rightarrow> py_error + type_node" where
  "parse_type source opts =
     run_parser Lexer_read_next_token source opts (whole_input parse_type_reference)"

definition parse_schema_coordinate ::
  "source \<Rightarrow> parse_options \<Rightarrow> py_error + schema_coordinate_node" where
  "parse_schema_coordinate source opts =
     run_parser SchemaCoordinateLexer_read_next_token source opts
       (whole_input parse_schema_coordinate_node)"

end
