(* ===== verification/Parser_Progress.thy ===== *)
theory Parser_Progress
  imports Parser_Schema
begin

text \<open>
  Termination and resource bounds of the parser.  \<open>keeps read n m\<close> says that the method \<open>m\<close>, on an
  object whose lexer reads with \<open>read\<close> and with less than \<open>n\<close> left to read, does not run out of
  fuel, keeps the object's invariant and does not move backwards; \<open>eats read n m\<close> says that it moreover
  consumes a token when it returns.  The rules of this small calculus are simplification rules in
  the collection \<open>hoare\<close>, with one fact per parsing method, for any lexer that satisfies the
  contract \<open>token_reader\<close>.
\<close>

section \<open>The invariant of the parser object and the two judgements\<close>

definition counter_ok :: "parser_state \<Rightarrow> bool" where
  "counter_ok st \<longleftrightarrow>
     p_token_counter st = 0 \<or> (\<forall>m. p_max_tokens st = Some m \<longrightarrow> int (p_token_counter st) \<le> m)"

definition state_ok :: "reader \<Rightarrow> parser_state \<Rightarrow> bool" where
  "state_ok read st \<longleftrightarrow>
     lx_read_next_token (p_lexer st) = read \<and> lexer_ok (p_lexer st) \<and> counter_ok st"

abbreviation p_rest :: "parser_state \<Rightarrow> nat" where
  "p_rest st \<equiv> lexer_rest (p_lexer st)"

text \<open>The options and the source never change; the counter only grows.\<close>

definition same_parser :: "parser_state \<Rightarrow> parser_state \<Rightarrow> bool" where
  "same_parser st st' \<longleftrightarrow>
     p_no_location st' = p_no_location st \<and> p_max_tokens st' = p_max_tokens st
     \<and> p_experimental_fragment_arguments st' = p_experimental_fragment_arguments st
     \<and> p_experimental_directives_on_directive_definitions st'
         = p_experimental_directives_on_directive_definitions st
     \<and> lx_source (p_lexer st') = lx_source (p_lexer st)
     \<and> p_token_counter st \<le> p_token_counter st'"

lemma same_parser_refl [simp]: "same_parser st st"
  by (simp add: same_parser_def)

lemma same_parser_trans: "same_parser a b \<Longrightarrow> same_parser b c \<Longrightarrow> same_parser a c"
  by (simp add: same_parser_def)

definition keeps :: "reader \<Rightarrow> nat \<Rightarrow> 'a parser \<Rightarrow> bool" where
  "keeps read n m \<longleftrightarrow>
     (\<forall>st. state_ok read st \<and> p_rest st < n \<longrightarrow>
        (case m st of
           Inl e \<Rightarrow> e \<noteq> OutOfFuel
         | Inr (x, st') \<Rightarrow> state_ok read st' \<and> same_parser st st' \<and> p_rest st' \<le> p_rest st))"

definition eats :: "reader \<Rightarrow> nat \<Rightarrow> 'a parser \<Rightarrow> bool" where
  "eats read n m \<longleftrightarrow>
     (\<forall>st. state_ok read st \<and> p_rest st < n \<longrightarrow>
        (case m st of
           Inl e \<Rightarrow> e \<noteq> OutOfFuel
         | Inr (x, st') \<Rightarrow> state_ok read st' \<and> same_parser st st' \<and> p_rest st' < p_rest st))"

lemma keepsI:
  assumes "\<And>st. state_ok read st \<Longrightarrow> p_rest st < n \<Longrightarrow> m st \<noteq> Inl OutOfFuel"
    and "\<And>st x st'. state_ok read st \<Longrightarrow> p_rest st < n \<Longrightarrow> m st = Inr (x, st') \<Longrightarrow>
      state_ok read st' \<and> same_parser st st' \<and> p_rest st' \<le> p_rest st"
  shows "keeps read n m"
  unfolding keeps_def
proof (intro allI impI, elim conjE)
  fix st assume st: "state_ok read st" "p_rest st < n"
  show "case m st of Inl e \<Rightarrow> e \<noteq> OutOfFuel
    | Inr (x, st') \<Rightarrow> state_ok read st' \<and> same_parser st st' \<and> p_rest st' \<le> p_rest st"
    using assms [OF st] by (cases "m st") auto
qed

lemma eatsI:
  assumes "\<And>st. state_ok read st \<Longrightarrow> p_rest st < n \<Longrightarrow> m st \<noteq> Inl OutOfFuel"
    and "\<And>st x st'. state_ok read st \<Longrightarrow> p_rest st < n \<Longrightarrow> m st = Inr (x, st') \<Longrightarrow>
      state_ok read st' \<and> same_parser st st' \<and> p_rest st' < p_rest st"
  shows "eats read n m"
  unfolding eats_def
proof (intro allI impI, elim conjE)
  fix st assume st: "state_ok read st" "p_rest st < n"
  show "case m st of Inl e \<Rightarrow> e \<noteq> OutOfFuel
    | Inr (x, st') \<Rightarrow> state_ok read st' \<and> same_parser st st' \<and> p_rest st' < p_rest st"
    using assms [OF st] by (cases "m st") auto
qed

lemma keepsD:
  assumes "keeps read n m" and "state_ok read st" and "p_rest st < n"
  shows "m st \<noteq> Inl OutOfFuel"
    and "m st = Inr (x, st') \<Longrightarrow> state_ok read st' \<and> same_parser st st' \<and> p_rest st' \<le> p_rest st"
  using assms unfolding keeps_def by (cases "m st"; fastforce)+

lemma eatsD:
  assumes "eats read n m" and "state_ok read st" and "p_rest st < n"
  shows "m st \<noteq> Inl OutOfFuel"
    and "m st = Inr (x, st') \<Longrightarrow> state_ok read st' \<and> same_parser st st' \<and> p_rest st' < p_rest st"
  using assms unfolding eats_def by (cases "m st"; fastforce)+

lemma eats_keeps:
  assumes "eats read n m"
  shows "keeps read n m"
proof (rule keepsI)
  fix st assume st: "state_ok read st" "p_rest st < n"
  show "m st \<noteq> Inl OutOfFuel" by (rule eatsD(1) [OF assms st])
  fix x st' assume "m st = Inr (x, st')"
  from eatsD(2) [OF assms st this]
  show "state_ok read st' \<and> same_parser st st' \<and> p_rest st' \<le> p_rest st" by simp
qed

lemma eats_mono: "eats read n m \<Longrightarrow> k \<le> n \<Longrightarrow> eats read k m"
  by (simp add: eats_def)

lemma keeps_mono: "keeps read n m \<Longrightarrow> k \<le> n \<Longrightarrow> keeps read k m"
  by (simp add: keeps_def)

section \<open>Rules for sequencing and branching\<close>

lemma keeps_ret [hoare]: "keeps read n (ret x)"
  by (simp add: keeps_def ret_def)

lemma keeps_get [hoare]: "keeps read n (get f)"
  by (simp add: keeps_def get_def)

lemma eats_fail [hoare]: "e \<noteq> OutOfFuel \<Longrightarrow> eats read n (fail e)"
  by (simp add: eats_def fail_def)

lemma keeps_fail [hoare]: "e \<noteq> OutOfFuel \<Longrightarrow> keeps read n (fail e)"
  by (simp add: keeps_def fail_def)

lemma bnd_Inr: "bnd m f st = Inr (y, st'') \<longleftrightarrow> (\<exists>x st'. m st = Inr (x, st') \<and> f x st' = Inr (y, st''))"
  by (auto simp: bnd_def bind_result_Inr_iff)

lemma bnd_Inl: "bnd m f st = Inl e \<longleftrightarrow> m st = Inl e \<or> (\<exists>x st'. m st = Inr (x, st') \<and> f x st' = Inl e)"
  by (auto simp: bnd_def bind_result_Inl_iff)

lemma keeps_bnd [hoare]:
  assumes "keeps read n m" and "\<And>x. keeps read n (f x)"
  shows "keeps read n (bnd m f)"
proof (rule keepsI)
  fix st assume st: "state_ok read st" "p_rest st < n"
  note m = keepsD [OF assms(1) st]
  show "bnd m f st \<noteq> Inl OutOfFuel"
  proof
    assume "bnd m f st = Inl OutOfFuel"
    with m(1) obtain x st' where *: "m st = Inr (x, st')" "f x st' = Inl OutOfFuel"
      by (auto simp: bnd_Inl)
    with keepsD(1) [OF assms(2), of st' x] m(2) [OF *(1)] st(2) show False by auto
  qed
  fix y st'' assume "bnd m f st = Inr (y, st'')"
  then obtain x st' where *: "m st = Inr (x, st')" "f x st' = Inr (y, st'')"
    by (auto simp: bnd_Inr)
  with keepsD(2) [OF assms(2) _ _ *(2)] m(2) [OF *(1)] st(2) same_parser_trans
  show "state_ok read st'' \<and> same_parser st st'' \<and> p_rest st'' \<le> p_rest st"
    by (metis order_le_less_trans order_trans)
qed

text \<open>
  A sequence consumes when one of its parts does; behind a part that consumes, the rest of the
  sequence runs with less left to read, which is what the recursive methods need.
\<close>

lemma eats_bnd_Suc:
  assumes "eats read (Suc n) m" and "\<And>x. keeps read n (f x)"
  shows "eats read (Suc n) (bnd m f)"
proof (rule eatsI)
  fix st assume st: "state_ok read st" "p_rest st < Suc n"
  note m = eatsD [OF assms(1) st]
  show "bnd m f st \<noteq> Inl OutOfFuel"
  proof
    assume "bnd m f st = Inl OutOfFuel"
    with m(1) obtain x st' where *: "m st = Inr (x, st')" "f x st' = Inl OutOfFuel"
      by (auto simp: bnd_Inl)
    with keepsD(1) [OF assms(2), of st' x] m(2) [OF *(1)] st(2) show False by auto
  qed
  fix y st'' assume "bnd m f st = Inr (y, st'')"
  then obtain x st' where *: "m st = Inr (x, st')" "f x st' = Inr (y, st'')"
    by (auto simp: bnd_Inr)
  with keepsD(2) [OF assms(2) _ _ *(2)] m(2) [OF *(1)] st(2) same_parser_trans
  show "state_ok read st'' \<and> same_parser st st'' \<and> p_rest st'' < p_rest st"
    by (metis less_Suc_eq_le order_le_less_trans order_less_le_trans)
qed

lemma eats_bnd_first [hoare]:
  "eats read n m \<Longrightarrow> (\<And>x. keeps read n (f x)) \<Longrightarrow> eats read n (bnd m f)"
proof (cases n)
  case (Suc k)
  assume m: "eats read n m" and f: "\<And>x. keeps read n (f x)"
  have "keeps read k (f x)" for x using f [of x] by (rule keeps_mono) (simp add: Suc)
  with m show ?thesis unfolding Suc by (rule eats_bnd_Suc)
qed (simp add: eats_def)

lemma eats_bnd_second [hoare]:
  assumes "keeps read n m" and "\<And>x. eats read n (f x)"
  shows "eats read n (bnd m f)"
proof (rule eatsI)
  fix st assume st: "state_ok read st" "p_rest st < n"
  note m = keepsD [OF assms(1) st]
  show "bnd m f st \<noteq> Inl OutOfFuel"
  proof
    assume "bnd m f st = Inl OutOfFuel"
    with m(1) obtain x st' where *: "m st = Inr (x, st')" "f x st' = Inl OutOfFuel"
      by (auto simp: bnd_Inl)
    with eatsD(1) [OF assms(2), of st' x] m(2) [OF *(1)] st(2) show False by auto
  qed
  fix y st'' assume "bnd m f st = Inr (y, st'')"
  then obtain x st' where *: "m st = Inr (x, st')" "f x st' = Inr (y, st'')"
    by (auto simp: bnd_Inr)
  with eatsD(2) [OF assms(2) _ _ *(2)] m(2) [OF *(1)] st(2) same_parser_trans
  show "state_ok read st'' \<and> same_parser st st'' \<and> p_rest st'' < p_rest st"
    by (metis order_le_less_trans order_less_le_trans)
qed

lemma judgement_if [hoare]:
  "(b \<Longrightarrow> keeps read n p) \<Longrightarrow> (\<not> b \<Longrightarrow> keeps read n q) \<Longrightarrow> keeps read n (if b then p else q)"
  "(b \<Longrightarrow> eats read n p) \<Longrightarrow> (\<not> b \<Longrightarrow> eats read n q) \<Longrightarrow> eats read n (if b then p else q)"
  by simp_all

lemma judgement_prod [hoare]:
  "(\<And>a b. keeps read n (g a b)) \<Longrightarrow> keeps read n (case x of (a, b) \<Rightarrow> g a b)"
  "(\<And>a b. eats read n (g a b)) \<Longrightarrow> eats read n (case x of (a, b) \<Rightarrow> g a b)"
  by (cases x, simp)+

lemma judgement_option [hoare]:
  "keeps read n p \<Longrightarrow> (\<And>a. o' = Some a \<Longrightarrow> keeps read n (g a)) \<Longrightarrow>
     keeps read n (case o' of None \<Rightarrow> p | Some a \<Rightarrow> g a)"
  "eats read n p \<Longrightarrow> (\<And>a. o' = Some a \<Longrightarrow> eats read n (g a)) \<Longrightarrow>
     eats read n (case o' of None \<Rightarrow> p | Some a \<Rightarrow> g a)"
  by (cases o', simp_all)+

lemma keeps_opt_if [hoare]: "keeps read n m \<Longrightarrow> keeps read n (opt_if b m)"
  by (simp add: opt_if_def hoare)

lemma keeps_peek [hoare]: "keeps read n (peek k)"
  by (simp add: peek_def hoare)

lemma keeps_cur_token [hoare]: "keeps read n cur_token"
  by (simp add: cur_token_def hoare)

lemma keeps_loc_from [hoare]: "keeps read n (loc_from t)"
  by (simp add: loc_from_def hoare)

lemma unexpected_at_judgement [hoare]: "eats read n (unexpected_at t)" "keeps read n (unexpected_at t)"
  by (simp_all add: unexpected_at_def hoare)

lemma unexpected_judgement [hoare]: "eats read n unexpected" "keeps read n unexpected"
  by (simp_all add: unexpected_def hoare)

lemma eats_with_fuel:
  "(\<And>k. k \<le> n \<Longrightarrow> eats read k (f k)) \<Longrightarrow> eats read n (with_fuel f)"
  by (auto simp: eats_def with_fuel_def parse_fuel_def)

text \<open>Consuming when the current token is \<open>t\<close>.\<close>

definition eats_on :: "reader \<Rightarrow> nat \<Rightarrow> token \<Rightarrow> 'a parser \<Rightarrow> bool" where
  "eats_on read n t m \<longleftrightarrow> eats read n (\<lambda>st. if ps_token st = t then m st else Inl IndexError)"

lemma eats_onI: "eats read n m \<Longrightarrow> eats_on read n t m"
  unfolding eats_on_def by (rule eatsI) (auto dest: eatsD split: if_splits)

lemma eats_bnd_cur_token:
  assumes "\<And>t. eats_on read n t (f t)"
  shows "eats read n (bnd cur_token f)"
proof (rule eatsI)
  fix st assume st: "state_ok read st" "p_rest st < n"
  have eq: "bnd cur_token f st = f (ps_token st) st"
    by (simp add: bnd_def cur_token_def get_def)
  note d = eatsD [OF assms [of "ps_token st", unfolded eats_on_def] st]
  show "bnd cur_token f st \<noteq> Inl OutOfFuel" using d(1) by (simp add: eq)
  fix x st' assume "bnd cur_token f st = Inr (x, st')"
  then show "state_ok read st' \<and> same_parser st st' \<and> p_rest st' < p_rest st"
    using d(2) by (simp add: eq)
qed

lemma eats_on_bnd_cur_token:
  "eats_on read n t (f t) \<Longrightarrow> eats_on read n t (bnd cur_token f)"
proof -
  have "(\<lambda>st. if ps_token st = t then bnd cur_token f st else Inl IndexError)
     = (\<lambda>st. if ps_token st = t then f t st else Inl IndexError)"
    by (auto simp: bnd_def cur_token_def get_def)
  then show "eats_on read n t (f t) \<Longrightarrow> eats_on read n t (bnd cur_token f)"
    by (simp add: eats_on_def)
qed

lemma eats_on_bnd:
  assumes "eats_on read n t m" and "\<And>x. keeps read n (f x)"
  shows "eats_on read n t (bnd m f)"
proof -
  have eq: "(\<lambda>st. if ps_token st = t then bnd m f st else Inl IndexError)
     = bnd (\<lambda>st. if ps_token st = t then m st else Inl IndexError) f"
    by (auto simp: bnd_def)
  show ?thesis using assms unfolding eats_on_def eq by (rule eats_bnd_first)
qed

lemma eats_on_bnd_Suc:
  assumes "eats_on read (Suc n) t m" and "\<And>x. keeps read n (f x)"
  shows "eats_on read (Suc n) t (bnd m f)"
proof -
  have eq: "(\<lambda>st. if ps_token st = t then bnd m f st else Inl IndexError)
     = bnd (\<lambda>st. if ps_token st = t then m st else Inl IndexError) f"
    by (auto simp: bnd_def)
  show ?thesis using assms unfolding eats_on_def eq by (rule eats_bnd_Suc)
qed

text \<open>What an optional token decides.\<close>

lemma bnd_expect_optional_token:
  "bnd (expect_optional_token k) f
     = bnd cur_token (\<lambda>t. if tok_kind t = k then bnd advance_lexer (\<lambda>_. f True) else f False)"
proof
  fix st
  show "bnd (expect_optional_token k) f st
     = bnd cur_token (\<lambda>t. if tok_kind t = k then bnd advance_lexer (\<lambda>_. f True) else f False) st"
    by (cases "advance_lexer st")
       (auto simp: bnd_def expect_optional_token_def cur_token_def get_def ret_def)
qed

section \<open>The utility methods\<close>

context token_reader
begin

lemma advance_lexer_spec:
  assumes "state_ok read st"
  shows "advance_lexer st \<noteq> Inl OutOfFuel"
    and "advance_lexer st = Inr (u, st') \<Longrightarrow>
       state_ok read st' \<and> same_parser st st' \<and> p_rest st' \<le> p_rest st
       \<and> (tok_kind (ps_token st) \<noteq> EOF \<longrightarrow> p_rest st' < p_rest st)"
proof -
  have lx: "lx_read_next_token (p_lexer st) = read" "lexer_ok (p_lexer st)"
    using assms by (auto simp: state_ok_def)
  note spec = advance_spec [OF lx]
  show "advance_lexer st \<noteq> Inl OutOfFuel"
    using spec
    by (auto simp: advance_lexer_def bind_result_Inl_iff too_many_tokens_def Let_def
        split: if_splits option.splits)
  assume "advance_lexer st = Inr (u, st')"
  then obtain t lx' where a: "advance (p_lexer st) = Inr (t, lx')"
    and st': "p_lexer st' = lx'" "p_no_location st' = p_no_location st"
      "p_max_tokens st' = p_max_tokens st"
      "p_experimental_fragment_arguments st' = p_experimental_fragment_arguments st"
      "p_experimental_directives_on_directive_definitions st'
         = p_experimental_directives_on_directive_definitions st"
    and cnt: "p_token_counter st' = p_token_counter st
       \<or> p_token_counter st' = p_token_counter st + 1
         \<and> (\<forall>m. p_max_tokens st = Some m \<longrightarrow> int (p_token_counter st') \<le> m)"
    by (auto simp: advance_lexer_def bind_result_Inr_iff Let_def split: if_splits option.splits)
  have "counter_ok st'" using cnt assms st'(3) by (auto simp: state_ok_def counter_ok_def)
  moreover have "p_token_counter st \<le> p_token_counter st'" using cnt by auto
  ultimately show "state_ok read st' \<and> same_parser st st' \<and> p_rest st' \<le> p_rest st
       \<and> (tok_kind (ps_token st) \<noteq> EOF \<longrightarrow> p_rest st' < p_rest st)"
    using spec a st' lx by (auto simp: state_ok_def same_parser_def same_lexer_def)
qed

lemma keeps_advance_lexer [hoare]: "keeps read n advance_lexer"
  by (rule keepsI) (auto dest: advance_lexer_spec)

lemma eats_on_advance_lexer: "tok_kind t \<noteq> EOF \<Longrightarrow> eats_on read n t advance_lexer"
  unfolding eats_on_def
  by (rule eatsI) (auto dest: advance_lexer_spec split: if_splits)

lemma keeps_lexer_lookahead [hoare]: "keeps read n lexer_lookahead"
proof (rule keepsI)
  fix st assume st: "state_ok read st" "p_rest st < n"
  then have lx: "lx_read_next_token (p_lexer st) = read" "lexer_ok (p_lexer st)"
    by (auto simp: state_ok_def)
  note spec = lookahead_spec [OF lx]
  show "lexer_lookahead st \<noteq> Inl OutOfFuel"
    using spec by (auto simp: lexer_lookahead_def bind_result_Inl_iff)
  fix x st' assume "lexer_lookahead st = Inr (x, st')"
  then obtain lx' where *: "lookahead (p_lexer st) = Inr (x, lx')" "st' = st\<lparr>p_lexer := lx'\<rparr>"
    by (auto simp: lexer_lookahead_def bind_result_Inr_iff)
  with spec lookahead_frame [OF *(1)] st
  show "state_ok read st' \<and> same_parser st st' \<and> p_rest st' \<le> p_rest st"
    by (auto simp: state_ok_def counter_ok_def same_parser_def same_lexer_def lexer_rest_def)
qed

lemma eats_expect_token [hoare]: "k \<noteq> EOF \<Longrightarrow> eats read n (expect_token k)"
  unfolding expect_token_def
  by (rule eats_bnd_cur_token)
     (auto intro!: eats_on_bnd eats_on_advance_lexer intro: eats_onI simp: hoare)

lemma keeps_expect_token [hoare]: "keeps read n (expect_token k)"
  by (simp add: expect_token_def hoare)

lemma keeps_expect_optional_token [hoare]: "keeps read n (expect_optional_token k)"
  by (simp add: expect_optional_token_def hoare)

lemma eats_expect_keyword [hoare]: "eats read n (expect_keyword k)"
  unfolding expect_keyword_def
  by (rule eats_bnd_cur_token)
     (auto intro!: eats_on_advance_lexer intro: eats_onI simp: hoare)

lemma keeps_expect_keyword [hoare]: "keeps read n (expect_keyword k)"
  by (rule eats_keeps) (rule eats_expect_keyword)

lemma keeps_expect_optional_keyword [hoare]: "keeps read n (expect_optional_keyword k)"
  by (simp add: expect_optional_keyword_def hoare)

lemma eats_expect_optional_token:
  assumes "k \<noteq> EOF" and "keeps read n (f True)" and "eats read (Suc n) (f False)"
  shows "eats read (Suc n) (bnd (expect_optional_token k) f)"
  unfolding bnd_expect_optional_token
  by (rule eats_bnd_cur_token)
     (use assms in \<open>auto intro!: eats_on_bnd_Suc eats_on_advance_lexer intro: eats_onI\<close>)

section \<open>The loops\<close>

lemma until_loop_spec:
  assumes "eats read n p" and "k \<le> n"
  shows "keeps read k (until_loop k p close nodes)"
  using assms(2)
proof (induction k arbitrary: nodes)
  case 0
  then show ?case by (simp add: keeps_def)
next
  case (Suc k)
  have "eats read (Suc k) p" using assms(1) Suc.prems by (rule eats_mono)
  then have "eats read (Suc k) (bnd p (\<lambda>node. until_loop k p close (nodes @ [node])))"
    using Suc by (intro eats_bnd_Suc) simp_all
  then show ?case by (simp add: hoare eats_keeps)
qed

lemma delimited_loop_spec:
  assumes "eats read n p" and "k \<le> n"
  shows "keeps read k (delimited_loop k d p nodes)"
  using assms(2)
proof (induction k arbitrary: nodes)
  case 0
  then show ?case by (simp add: keeps_def)
next
  case (Suc k)
  have p: "eats read (Suc k) p" using assms(1) Suc.prems by (rule eats_mono)
  have "keeps read k (bnd (expect_optional_token d) (\<lambda>more.
     if \<not> more then ret (nodes @ [node]) else delimited_loop k d p (nodes @ [node])))" for node
    using Suc by (simp add: hoare)
  with p show ?case by (simp add: eats_keeps eats_bnd_Suc)
qed

lemma peek_loop_spec:
  assumes "eats read n p" and "k \<le> n"
  shows "keeps read k (peek_loop k d p nodes)"
  using assms(2)
proof (induction k arbitrary: nodes)
  case 0
  then show ?case by (simp add: keeps_def)
next
  case (Suc k)
  have p: "eats read (Suc k) p" using assms(1) Suc.prems by (rule eats_mono)
  then have "eats read (Suc k) (bnd p (\<lambda>node. peek_loop k d p (nodes @ [node])))"
    using Suc by (intro eats_bnd_Suc) simp_all
  then show ?case by (simp add: hoare eats_keeps)
qed

lemma keeps_with_fuel:
  assumes "\<And>k. k \<le> n \<Longrightarrow> keeps read k (f k)"
  shows "keeps read n (with_fuel f)"
  using assms by (auto simp: keeps_def with_fuel_def parse_fuel_def)

lemma keeps_any [hoare]: "eats read n p \<Longrightarrow> keeps read n (any' op p cl)"
  by (simp add: any'_def hoare keeps_with_fuel until_loop_spec)

lemma keeps_many [hoare]: "eats read n p \<Longrightarrow> keeps read n (many op p cl)"
  by (simp add: many_def hoare keeps_with_fuel until_loop_spec eats_keeps)

lemma keeps_optional_many [hoare]: "eats read n p \<Longrightarrow> keeps read n (optional_many op p cl)"
  by (simp add: optional_many_def hoare keeps_with_fuel until_loop_spec eats_keeps)

lemma keeps_delimited_many [hoare]: "eats read n p \<Longrightarrow> keeps read n (delimited_many d p)"
  by (simp add: delimited_many_def hoare keeps_with_fuel delimited_loop_spec)

lemma keeps_peek_loop [hoare]: "eats read n p \<Longrightarrow> keeps read n (with_fuel (\<lambda>k. peek_loop k d p nodes))"
  by (simp add: keeps_with_fuel peek_loop_spec)

text \<open>With an opening token the loops consume, and the items run with less left to read.\<close>

lemma eats_any [hoare]: "op \<noteq> EOF \<Longrightarrow> eats read n p \<Longrightarrow> eats read (Suc n) (any' op p cl)"
  unfolding any'_def
  by (rule eats_bnd_Suc) (simp_all add: hoare keeps_with_fuel until_loop_spec)

lemma eats_many [hoare]: "op \<noteq> EOF \<Longrightarrow> eats read n p \<Longrightarrow> eats read (Suc n) (many op p cl)"
  unfolding many_def
  by (rule eats_bnd_Suc) (simp_all add: hoare keeps_with_fuel until_loop_spec eats_keeps)

lemma eats_many' [hoare]: "op \<noteq> EOF \<Longrightarrow> eats read n p \<Longrightarrow> eats read n (many op p cl)"
  using eats_many [of op n p cl] eats_mono [of read "Suc n" "many op p cl" n] by simp

lemma eats_delimited_many [hoare]: "eats read n p \<Longrightarrow> eats read n (delimited_many d p)"
proof -
  assume p: "eats read n p"
  have "eats read k (delimited_loop k d p [])" if "k \<le> n" for k
  proof (cases k)
    case (Suc j)
    have "eats read (Suc j) p" using p that Suc by (auto intro: eats_mono)
    moreover have "keeps read j (delimited_loop j d p ns)" for ns
      using delimited_loop_spec [OF p, of j] that Suc by simp
    ultimately show ?thesis
      unfolding Suc delimited_loop.simps by (intro eats_bnd_Suc) (simp_all add: hoare)
  qed (simp add: eats_def)
  then have "eats read n (with_fuel (\<lambda>k. delimited_loop k d p []))"
    by (rule eats_with_fuel)
  then show ?thesis by (simp add: delimited_many_def hoare)
qed

section \<open>One fact per parsing method\<close>

lemma eats_parse_name [hoare]: "eats read n parse_name"
  by (simp add: parse_name_def hoare)

lemma eats_parse_named_type [hoare]: "eats read n parse_named_type"
  by (simp add: parse_named_type_def hoare)

lemma eats_parse_variable [hoare]: "eats read n parse_variable"
  by (simp add: parse_variable_def hoare eats_keeps)

lemma eats_parse_variable_value [hoare]: "eats read n (parse_variable_value c)"
  by (simp add: parse_variable_value_def hoare)

lemma keeps_parse_string_literal [hoare]: "keeps read n parse_string_literal"
  by (simp add: parse_string_literal_def hoare)

text \<open>The methods that consume a token whose kind the caller has checked.\<close>

lemma eats_on_checked:
  assumes "tok_kind t \<noteq> EOF"
  shows "eats_on read n t parse_int" "eats_on read n t parse_float"
    "eats_on read n t parse_named_values" "eats_on read n t parse_string_literal"
  unfolding parse_int_def parse_float_def parse_named_values_def parse_string_literal_def Let_def
  by (rule eats_on_bnd_cur_token, rule eats_on_bnd [OF eats_on_advance_lexer [OF assms]],
      simp add: hoare)+

lemma eats_parse_value_literal_fuel: "eats read n (parse_value_literal_fuel n c)"
proof (induction n arbitrary: c)
  case 0
  show ?case by (simp add: eats_def)
next
  case (Suc n)
  have field: "eats read n (parse_object_field (parse_value_literal_fuel n) c)"
    using Suc by (simp add: parse_object_field_def hoare eats_keeps)
  have "eats read (Suc n) (parse_list (parse_value_literal_fuel n) c)"
    using Suc by (simp add: parse_list_def hoare)
  moreover have "eats read (Suc n) (parse_object (parse_value_literal_fuel n) c)"
    using field by (simp add: parse_object_def hoare)
  moreover have "eats_on read (Suc n) t (bnd parse_string_literal (\<lambda>s. ret (StringValue s)))"
    if "tok_kind t \<noteq> EOF" for t
    by (rule eats_on_bnd [OF eats_on_checked(4) [OF that]]) (simp add: hoare)
  ultimately show ?case
    unfolding parse_value_literal_fuel.simps
    by (intro eats_bnd_cur_token)
       (auto intro: eats_onI eats_on_checked simp: hoare split: token_kind.split)
qed

lemma eats_parse_value_literal [hoare]: "eats read n (parse_value_literal c)"
  by (simp add: parse_value_literal_def eats_with_fuel eats_parse_value_literal_fuel)

lemma eats_parse_const_value_literal [hoare]: "eats read n parse_const_value_literal"
  by (simp add: parse_const_value_literal_def hoare)

lemma eats_arguments [hoare]:
  "eats read n (parse_argument c)" "eats read n parse_const_argument"
  "eats read n parse_fragment_argument"
  by (simp_all add: parse_argument_def parse_const_argument_def parse_fragment_argument_def
      hoare eats_keeps)

lemma keeps_arguments [hoare]:
  "keeps read n (parse_arguments c)" "keeps read n parse_fragment_arguments"
  by (simp_all add: parse_arguments_def parse_fragment_arguments_def hoare)

lemma eats_parse_directive [hoare]: "eats read n (parse_directive c)"
  by (simp add: parse_directive_def hoare eats_keeps)

lemma keeps_directives [hoare]:
  "keeps read n (parse_directives c)" "keeps read n parse_const_directives"
  by (simp_all add: parse_directives_def parse_const_directives_def hoare)

lemma eats_parse_type_reference_fuel: "eats read n (parse_type_reference_fuel n)"
proof (induction n)
  case 0
  show ?case by (simp add: eats_def)
next
  case (Suc n)
  have "eats read (Suc n) (bnd cur_token (\<lambda>start.
      bnd (expect_optional_token BRACKET_L) (g start)))"
    if "\<And>start. keeps read n (g start True)" and "\<And>start. eats read (Suc n) (g start False)"
    for g :: "token \<Rightarrow> bool \<Rightarrow> type_node parser"
    using that by (intro eats_bnd_second eats_expect_optional_token) (simp_all add: hoare)
  then show ?case
    unfolding parse_type_reference_fuel.simps
    using Suc by (simp add: hoare eats_keeps)
qed

lemma eats_parse_type_reference [hoare]: "eats read n parse_type_reference"
  by (simp add: parse_type_reference_def eats_with_fuel eats_parse_type_reference_fuel)

lemma eats_parse_operation_type [hoare]: "eats read n parse_operation_type"
  by (simp add: parse_operation_type_def hoare eats_keeps)

lemma keeps_optional_parts [hoare]:
  "keeps read n peek_description" "keeps read n parse_description"
  "keeps read n parse_default_value"
  by (simp_all add: peek_description_def parse_description_def parse_default_value_def hoare
      eats_keeps)

lemma eats_parse_variable_definition [hoare]: "eats read n parse_variable_definition"
  by (simp add: parse_variable_definition_def hoare eats_keeps)

lemma keeps_parse_variable_definitions [hoare]: "keeps read n parse_variable_definitions"
  by (simp add: parse_variable_definitions_def hoare)

lemma eats_parse_fragment_name [hoare]: "eats read n parse_fragment_name"
  by (simp add: parse_fragment_name_def hoare)

lemma eats_parse_type_condition [hoare]: "eats read n parse_type_condition"
  by (simp add: parse_type_condition_def hoare eats_keeps)

lemma eats_parse_field: "eats read n pss \<Longrightarrow> eats read n (parse_field pss)"
  by (simp add: parse_field_def hoare eats_keeps)

lemma eats_parse_fragment: "eats read n pss \<Longrightarrow> eats read n (parse_fragment pss)"
  by (simp add: parse_fragment_def hoare eats_keeps)

lemma eats_parse_selection_set_fuel: "eats read n (parse_selection_set_fuel n)"
proof (induction n)
  case (Suc n)
  then show ?case
    by (simp add: parse_selection_def eats_parse_field eats_parse_fragment hoare)
qed (simp add: eats_def)

lemma eats_parse_selection_set [hoare]: "eats read n parse_selection_set"
  by (simp add: parse_selection_set_def eats_with_fuel eats_parse_selection_set_fuel)

lemma eats_executable_definitions [hoare]:
  "eats read n parse_operation_definition" "eats read n parse_fragment_definition"
  by (simp_all add: parse_operation_definition_def parse_fragment_definition_def hoare eats_keeps)

section \<open>Type system definitions, documents, coordinates\<close>

lemma eats_schema_items [hoare]:
  "eats read n parse_operation_type_definition" "eats read n parse_input_value_def"
  "eats read n parse_enum_value_name" "eats read n parse_enum_value_definition"
  "eats read n parse_directive_location"
  by (simp_all add: parse_operation_type_definition_def parse_input_value_def_def
      parse_enum_value_name_def parse_enum_value_definition_def parse_directive_location_def
      hoare eats_keeps)

lemma keeps_parse_argument_defs [hoare]: "keeps read n parse_argument_defs"
  by (simp add: parse_argument_defs_def hoare)

lemma eats_parse_field_definition [hoare]: "eats read n parse_field_definition"
  by (simp add: parse_field_definition_def hoare eats_keeps)

lemma keeps_schema_parts [hoare]:
  "keeps read n parse_implements_interfaces" "keeps read n parse_fields_definition"
  "keeps read n parse_union_member_types" "keeps read n parse_enum_values_definition"
  "keeps read n parse_input_fields_definition" "keeps read n parse_directive_locations"
  by (simp_all add: parse_implements_interfaces_def parse_fields_definition_def
      parse_union_member_types_def parse_enum_values_definition_def
      parse_input_fields_definition_def parse_directive_locations_def hoare)

lemma eats_type_definitions [hoare]:
  "eats read n parse_schema_definition" "eats read n parse_scalar_type_definition"
  "eats read n parse_object_type_definition" "eats read n parse_interface_type_definition"
  "eats read n parse_union_type_definition" "eats read n parse_enum_type_definition"
  "eats read n parse_input_object_type_definition" "eats read n parse_directive_definition"
  by (simp_all add: parse_schema_definition_def parse_scalar_type_definition_def
      parse_object_type_definition_def parse_interface_type_definition_def
      parse_union_type_definition_def parse_enum_type_definition_def
      parse_input_object_type_definition_def parse_directive_definition_def hoare eats_keeps)

lemma eats_type_extensions [hoare]:
  "eats read n parse_schema_extension" "eats read n parse_scalar_type_extension"
  "eats read n parse_object_type_extension" "eats read n parse_interface_type_extension"
  "eats read n parse_union_type_extension" "eats read n parse_enum_type_extension"
  "eats read n parse_input_object_type_extension"
  "eats read n parse_directive_definition_extension"
  by (simp_all add: parse_schema_extension_def parse_scalar_type_extension_def
      parse_object_type_extension_def parse_interface_type_extension_def
      parse_union_type_extension_def parse_enum_type_extension_def
      parse_input_object_type_extension_def parse_directive_definition_extension_def
      hoare eats_keeps)

lemma eats_method_for:
  assumes "method_for ms v = Some m" and "\<And>m. m \<in> set (map snd ms) \<Longrightarrow> eats read n m"
  shows "eats read n m"
  using assms by (force simp: method_for_def split: option.splits dest!: map_of_SomeD)

lemma eats_parse_type_system_extension [hoare]: "eats read n parse_type_system_extension"
proof -
  have "eats read n m" if "method_for parse_type_extension_methods v = Some m" for v m
    using that by (rule eats_method_for) (auto simp: parse_type_extension_methods_def hoare)
  then show ?thesis by (simp add: parse_type_system_extension_def hoare)
qed

lemma eats_parse_definition [hoare]: "eats read n parse_definition"
proof -
  have m: "eats read n m" if "method_for parse_type_system_definition_methods v = Some m" for v m
    using that by (rule eats_method_for)
      (auto simp: parse_type_system_definition_methods_def hoare)
  have m': "eats read n m" if "method_for parse_executable_definition_methods v = Some m" for v m
    using that by (rule eats_method_for)
      (auto simp: parse_executable_definition_methods_def Let_def hoare)
  have m'': "eats read n m" if "method_for parse_other_definition_methods v = Some m" for v m
    using that by (rule eats_method_for)
      (auto simp: parse_other_definition_methods_def hoare)
  have err: "eats read n (description_error msg)" for msg
    by (simp add: description_error_def hoare)
  have look: "keeps read n (if b then lexer_lookahead else cur_token)" for b
    by (simp add: hoare)
  show ?thesis unfolding parse_definition_def
    by (simp add: hoare m m' m'' err look)
qed

lemma eats_parse_document [hoare]: "eats read n parse_document"
  by (simp add: parse_document_def hoare)

lemma eats_parse_schema_coordinate_node [hoare]: "eats read n parse_schema_coordinate_node"
proof -
  have "keeps read n (if \<not> b then expect_optional_token DOT else ret False)"
    "keeps read n (if b then expect_optional_token PAREN_L else ret False)" for b
    by (simp_all add: hoare)
  then show ?thesis
    unfolding parse_schema_coordinate_node_def by (simp add: hoare eats_keeps)
qed

lemma eats_whole_input [hoare]: "eats read n m \<Longrightarrow> eats read n (whole_input m)"
  by (simp add: whole_input_def hoare eats_keeps)

text \<open>A consuming method run on a new parser object returns.\<close>

lemma state_ok_init: "state_ok read (Parser_init (Lexer_init read source) opts)"
  by (simp add: state_ok_def counter_ok_def Parser_init_def)

lemma run_parser_returns:
  assumes "\<And>n. eats read n m"
  shows "run_parser read source opts m \<noteq> Inl OutOfFuel"
proof -
  let ?st = "Parser_init (Lexer_init read source) opts"
  have "m ?st \<noteq> Inl OutOfFuel"
    by (rule eatsD(1) [OF assms [of "Suc (p_rest ?st)"] state_ok_init]) simp
  then show ?thesis by (cases "m ?st") (auto simp: run_parser_def)
qed

lemma run_parser_final:
  assumes "\<And>n. eats read n m" and "run_parser read source opts m = Inr x"
  shows "\<exists>st'. m (Parser_init (Lexer_init read source) opts) = Inr (x, st')
           \<and> state_ok read st' \<and> same_parser (Parser_init (Lexer_init read source) opts) st'"
proof -
  let ?st = "Parser_init (Lexer_init read source) opts"
  from assms(2) obtain st' where m: "m ?st = Inr (x, st')"
    by (cases "m ?st") (auto simp: run_parser_def)
  with eatsD(2) [OF assms(1) [of "Suc (p_rest ?st)"] state_ok_init _ m] show ?thesis by simp
qed

end

section \<open>The entry points\<close>

text \<open>
  C3.  The entry points always return: whatever the source text and the options, the parser gives a
  tree or raises one of the exceptions of the program.  No loop of the lexer or the parser runs on
  for ever, and the fuel the model gives to loops and recursions is never exhausted.
\<close>

theorem parse_entry_points_return:
  "parse source opts \<noteq> Inl OutOfFuel \<and> parse_value source opts \<noteq> Inl OutOfFuel
   \<and> parse_const_value source opts \<noteq> Inl OutOfFuel \<and> parse_type source opts \<noteq> Inl OutOfFuel
   \<and> parse_schema_coordinate source opts \<noteq> Inl OutOfFuel"
  unfolding parse_def parse_value_def parse_const_value_def parse_type_def
    parse_schema_coordinate_def
  by (intro conjI std.run_parser_returns coordinate.run_parser_returns
      std.eats_whole_input coordinate.eats_whole_input std.eats_parse_document
      std.eats_parse_value_literal std.eats_parse_const_value_literal
      std.eats_parse_type_reference coordinate.eats_parse_schema_coordinate_node)

end
