(* ===== verification/Parser_Limit.thy ===== *)
theory Parser_Limit
  imports Parser_Progress
begin

text \<open>
  The option \<open>max_tokens\<close>.  \<open>limits m\<close> relates a run of the method \<open>m\<close> without a limit to its run
  with the limit \<open>k\<close>: as long as no more than \<open>k\<close> tokens are counted the two runs agree, and
  otherwise the second one raises the exception that names the limit.
\<close>

named_theorems limit \<open>facts \<open>limits m\<close> for the combinators and the parsing methods\<close>

definition with_limit :: "int \<Rightarrow> parser_state \<Rightarrow> parser_state" where
  "with_limit k st = st\<lparr>p_max_tokens := Some k\<rparr>"

lemma with_limit_sel [simp]:
  "p_lexer (with_limit k st) = p_lexer st"
  "p_no_location (with_limit k st) = p_no_location st"
  "p_experimental_fragment_arguments (with_limit k st) = p_experimental_fragment_arguments st"
  "p_experimental_directives_on_directive_definitions (with_limit k st)
     = p_experimental_directives_on_directive_definitions st"
  "p_token_counter (with_limit k st) = p_token_counter st"
  "p_max_tokens (with_limit k st) = Some k"
  by (simp_all add: with_limit_def)

definition too_many :: "int \<Rightarrow> py_error + 'b \<Rightarrow> bool" where
  "too_many k r \<longleftrightarrow> (\<exists>t. r = Inl (too_many_tokens t k))"

definition limits_at :: "'a parser \<Rightarrow> int \<Rightarrow> parser_state \<Rightarrow> bool" where
  "limits_at m k st \<longleftrightarrow>
     (case m st of
        Inr (x, st') \<Rightarrow> p_max_tokens st' = None \<and> p_token_counter st \<le> p_token_counter st'
          \<and> (if int (p_token_counter st') \<le> k \<or> p_token_counter st' = p_token_counter st
             then m (with_limit k st) = Inr (x, with_limit k st')
             else too_many k (m (with_limit k st)))
      | Inl e \<Rightarrow> m (with_limit k st) = Inl e \<or> too_many k (m (with_limit k st)))"

definition limits :: "'a parser \<Rightarrow> bool" where
  "limits m \<longleftrightarrow> (\<forall>k st. p_max_tokens st = None \<longrightarrow> limits_at m k st)"

lemma limitsI: "(\<And>k st. p_max_tokens st = None \<Longrightarrow> limits_at m k st) \<Longrightarrow> limits m"
  by (simp add: limits_def)

lemma limitsD: "limits m \<Longrightarrow> p_max_tokens st = None \<Longrightarrow> limits_at m k st"
  by (simp add: limits_def)

section \<open>Rules\<close>

lemma limits_ret [limit]: "limits (ret x)"
  by (simp add: limits_def limits_at_def ret_def)

lemma limits_fail [limit]: "limits (fail e)"
  by (simp add: limits_def limits_at_def fail_def)

lemma limits_get [limit]: "(\<And>k st. f (with_limit k st) = f st) \<Longrightarrow> limits (get f)"
  by (simp add: limits_def limits_at_def get_def)

lemma too_many_bnd: "too_many k (m st) \<Longrightarrow> too_many k (bnd m f st)"
  by (auto simp: too_many_def bnd_def)

lemma limits_bnd [limit]:
  assumes "limits m" and "\<And>x. limits (f x)"
  shows "limits (bnd m f)"
proof (rule limitsI)
  fix k and st :: parser_state
  assume st: "p_max_tokens st = None"
  note m = limitsD [OF assms(1) st, of k, unfolded limits_at_def]
  show "limits_at (bnd m f) k st"
  proof (cases "m st")
    case (Inl e)
    with m have "m (with_limit k st) = Inl e \<or> too_many k (m (with_limit k st))" by simp
    moreover have "bnd m f st = Inl e" using Inl by (simp add: bnd_def)
    ultimately show ?thesis
      unfolding limits_at_def using too_many_bnd [of k m "with_limit k st" f]
      by (auto simp: bnd_def)
  next
    case (Inr r)
    obtain x st' where r: "m st = Inr (x, st')" using Inr by (cases r) auto
    let ?c = "p_token_counter st" and ?c' = "p_token_counter st'"
    from m r have m': "p_max_tokens st' = None" "?c \<le> ?c'" by auto
    note f = limitsD [OF assms(2) m'(1), of x k, unfolded limits_at_def]
    have run: "bnd m f st = f x st'" using r by (simp add: bnd_def)
    show ?thesis
    proof (cases "int ?c' \<le> k \<or> ?c' = ?c")
      case True
      with m r have "bnd m f (with_limit k st) = f x (with_limit k st')" by (simp add: bnd_def)
      with f m' True show ?thesis
        unfolding limits_at_def run by (auto split: sum.splits if_splits)
    next
      case False
      with m r have "too_many k (bnd m f (with_limit k st))" by (simp add: too_many_bnd)
      with f m' False show ?thesis
        unfolding limits_at_def run by (auto split: sum.splits if_splits)
    qed
  qed
qed

lemma limits_if [limit]: "limits p \<Longrightarrow> limits q \<Longrightarrow> limits (if b then p else q)"
  by simp

lemma limits_prod [limit]: "(\<And>a b. limits (g a b)) \<Longrightarrow> limits (case x of (a, b) \<Rightarrow> g a b)"
  by (cases x) simp

lemma limits_option [limit]:
  "limits p \<Longrightarrow> (\<And>a. o' = Some a \<Longrightarrow> limits (g a)) \<Longrightarrow>
     limits (case o' of None \<Rightarrow> p | Some a \<Rightarrow> g a)"
  by (cases o') simp_all

lemma limits_with_fuel [limit]:
  assumes "\<And>n. limits (f n)"
  shows "limits (with_fuel f)"
proof (rule limitsI)
  fix k and st :: parser_state
  assume "p_max_tokens st = None"
  from limitsD [OF assms [of "parse_fuel st"] this, of k]
  have "limits_at (f (parse_fuel st)) k st" .
  moreover have "with_fuel f st = f (parse_fuel st) st"
    "with_fuel f (with_limit k st) = f (parse_fuel st) (with_limit k st)"
    by (simp_all add: with_fuel_def parse_fuel_def)
  ultimately show "limits_at (with_fuel f) k st" by (simp only: limits_at_def)
qed

lemma limits_opt_if [limit]: "limits m \<Longrightarrow> limits (opt_if b m)"
  by (simp add: opt_if_def limit)

lemma limits_reading [limit]:
  "limits cur_token" "limits (peek kind)" "limits (loc_from t)" "limits (unexpected_at t)"
  by (simp_all add: cur_token_def peek_def loc_from_def unexpected_at_def limit)

lemma limits_unexpected [limit]: "limits unexpected"
  by (simp add: unexpected_def limit)

lemma limits_lexer_lookahead [limit]: "limits lexer_lookahead"
proof (rule limitsI)
  fix k and st :: parser_state
  assume "p_max_tokens st = None"
  then show "limits_at lexer_lookahead k st"
    by (cases "lookahead (p_lexer st)")
       (auto simp: limits_at_def lexer_lookahead_def with_limit_def)
qed

text \<open>The one method that reads the limit.\<close>

lemma limits_advance_lexer [limit]: "limits advance_lexer"
proof (rule limitsI)
  fix k and st :: parser_state
  assume st: "p_max_tokens st = None"
  show "limits_at advance_lexer k st"
  proof (cases "advance (p_lexer st)")
    case (Inl e)
    then show ?thesis by (simp add: limits_at_def advance_lexer_def)
  next
    case (Inr r)
    obtain t lx where "advance (p_lexer st) = Inr (t, lx)" using Inr by (cases r) auto
    then show ?thesis using st
      by (auto simp: limits_at_def advance_lexer_def with_limit_def too_many_def Let_def)
  qed
qed

lemma limits_expect [limit]:
  "limits (expect_token kind)" "limits (expect_optional_token kind)"
  "limits (expect_keyword kw)" "limits (expect_optional_keyword kw)"
  by (simp_all add: expect_token_def expect_optional_token_def expect_keyword_def
      expect_optional_keyword_def limit)

lemma limits_loops:
  assumes "limits p"
  shows "limits (until_loop n p close nodes)" "limits (delimited_loop n d p nodes)"
    "limits (peek_loop n d p nodes)"
  using assms by (induction n arbitrary: nodes) (simp_all add: limit)

lemma limits_many [limit]:
  assumes "limits p"
  shows "limits (any' op p cl)" "limits (many op p cl)" "limits (optional_many op p cl)"
    "limits (delimited_many d p)"
  using assms
  by (simp_all add: any'_def many_def optional_many_def delimited_many_def limits_loops limit)

section \<open>One fact per parsing method\<close>

lemma limits_names [limit]:
  "limits parse_name" "limits parse_named_type" "limits parse_variable"
  "limits parse_string_literal" "limits parse_int" "limits parse_float"
  "limits parse_named_values" "limits (parse_variable_value c)"
  by (simp_all add: parse_name_def parse_named_type_def parse_variable_def
      parse_string_literal_def parse_int_def parse_float_def parse_named_values_def
      parse_variable_value_def Let_def limit)

lemma limits_parse_value_literal_fuel: "limits (parse_value_literal_fuel n c)"
proof (induction n arbitrary: c)
  case (Suc n)
  have "limits (case k of BRACKET_L \<Rightarrow> parse_list (parse_value_literal_fuel n) c
     | BRACE_L \<Rightarrow> parse_object (parse_value_literal_fuel n) c
     | INT' \<Rightarrow> parse_int | FLOAT \<Rightarrow> parse_float
     | STRING \<Rightarrow> bnd parse_string_literal (\<lambda>s. ret (StringValue s))
     | BLOCK_STRING \<Rightarrow> bnd parse_string_literal (\<lambda>s. ret (StringValue s))
     | NAME \<Rightarrow> parse_named_values
     | DOLLAR \<Rightarrow> bnd (parse_variable_value c) (\<lambda>v. ret (VariableValue v))
     | _ \<Rightarrow> unexpected)" for k
    using Suc
    by (simp add: parse_list_def parse_object_def parse_object_field_def limit
        split: token_kind.split)
  then show ?case by (simp add: limit)
qed (simp add: limit)

lemma limits_values [limit]:
  "limits (parse_value_literal c)" "limits parse_const_value_literal"
  by (simp_all add: parse_const_value_literal_def parse_value_literal_def
      limits_parse_value_literal_fuel limit)

lemma limits_arguments [limit]:
  "limits (parse_arguments c)" "limits parse_fragment_arguments" "limits (parse_directives c)"
  "limits parse_const_directives"
  by (simp_all add: parse_arguments_def parse_const_argument_def parse_argument_def
      parse_fragment_arguments_def parse_fragment_argument_def parse_directives_def
      parse_directive_def parse_const_directives_def limits_loops Let_def limit)

lemma limits_parse_type_reference_fuel: "limits (parse_type_reference_fuel n)"
  by (induction n) (simp_all add: limit)

lemma limits_operation_parts [limit]:
  "limits parse_type_reference" "limits parse_operation_type" "limits peek_description"
  "limits parse_description" "limits parse_default_value"
  by (simp_all add: parse_type_reference_def parse_operation_type_def peek_description_def
      parse_description_def parse_default_value_def limits_parse_type_reference_fuel limit)

lemma limits_parse_variable_definitions [limit]: "limits parse_variable_definitions"
  by (simp add: parse_variable_definitions_def parse_variable_definition_def limit)

lemma limits_fragment_parts [limit]:
  "limits parse_fragment_name" "limits parse_type_condition"
  by (simp_all add: parse_fragment_name_def parse_type_condition_def limit)

lemma limits_parse_selection_set_fuel: "limits (parse_selection_set_fuel n)"
  by (induction n) (simp_all add: parse_selection_def parse_fragment_def parse_field_def limit)

lemma limits_executable_definitions [limit]:
  "limits parse_selection_set" "limits parse_operation_definition"
  "limits parse_fragment_definition"
  by (simp_all add: parse_operation_definition_def parse_fragment_definition_def
      parse_selection_set_def limits_parse_selection_set_fuel limit)

lemma limits_schema_items [limit]:
  "limits parse_operation_type_definition" "limits parse_input_value_def"
  "limits parse_enum_value_definition" "limits parse_directive_location"
  by (simp_all add: parse_operation_type_definition_def parse_input_value_def_def
      parse_enum_value_name_def parse_enum_value_definition_def parse_directive_location_def
      limit)

lemma limits_schema_parts [limit]:
  "limits parse_implements_interfaces" "limits parse_fields_definition"
  "limits parse_argument_defs" "limits parse_union_member_types"
  "limits parse_enum_values_definition" "limits parse_input_fields_definition"
  "limits parse_directive_locations"
  by (simp_all add: parse_implements_interfaces_def parse_fields_definition_def
      parse_argument_defs_def parse_field_definition_def parse_union_member_types_def
      parse_enum_values_definition_def parse_input_fields_definition_def
      parse_directive_locations_def limit)

lemma limits_type_definitions [limit]:
  "limits parse_schema_definition" "limits parse_scalar_type_definition"
  "limits parse_object_type_definition" "limits parse_interface_type_definition"
  "limits parse_union_type_definition" "limits parse_enum_type_definition"
  "limits parse_input_object_type_definition" "limits parse_directive_definition"
  by (simp_all add: parse_schema_definition_def parse_scalar_type_definition_def
      parse_object_type_definition_def parse_interface_type_definition_def
      parse_union_type_definition_def parse_enum_type_definition_def
      parse_input_object_type_definition_def parse_directive_definition_def limit)

lemma limits_type_extensions [limit]:
  "limits parse_schema_extension" "limits parse_scalar_type_extension"
  "limits parse_object_type_extension" "limits parse_interface_type_extension"
  "limits parse_union_type_extension" "limits parse_enum_type_extension"
  "limits parse_input_object_type_extension" "limits parse_directive_definition_extension"
  by (simp_all add: parse_schema_extension_def parse_scalar_type_extension_def
      parse_object_type_extension_def parse_interface_type_extension_def
      parse_union_type_extension_def parse_enum_type_extension_def
      parse_input_object_type_extension_def parse_directive_definition_extension_def limit)

lemma limits_method_for:
  assumes "method_for ms v = Some m" and "\<forall>m \<in> set (map snd ms). limits m"
  shows "limits m"
  using assms by (force simp: method_for_def split: option.splits dest!: map_of_SomeD)

lemma limits_parse_type_system_extension [limit]: "limits parse_type_system_extension"
proof -
  have "limits m" if "method_for parse_type_extension_methods v = Some m" for v m
    using that by (rule limits_method_for) (simp add: parse_type_extension_methods_def limit)
  then show ?thesis by (simp add: parse_type_system_extension_def limit)
qed

lemma limits_parse_definition [limit]: "limits parse_definition"
proof -
  have "limits m" if "method_for parse_type_system_definition_methods v = Some m" for v m
    using that by (rule limits_method_for)
      (simp add: parse_type_system_definition_methods_def limit)
  moreover have "limits m" if "method_for parse_executable_definition_methods v = Some m" for v m
    using that by (rule limits_method_for)
      (simp add: parse_executable_definition_methods_def Let_def limit)
  moreover have "limits m" if "method_for parse_other_definition_methods v = Some m" for v m
    using that by (rule limits_method_for) (simp add: parse_other_definition_methods_def limit)
  ultimately show ?thesis
    unfolding parse_definition_def by (simp add: description_error_def limit)
qed

section \<open>Documents\<close>

lemma limits_parse_document_body: "limits (many SOF parse_definition EOF)"
  by (simp add: limit)

text \<open>A parsed document has counted at least one token.\<close>

lemma advance_token: "advance lx = Inr (t, lx') \<Longrightarrow> lx_token lx' = t"
  by (auto simp: advance_def bind_result_Inr_iff)

lemma advance_lexer_counter:
  assumes "advance_lexer st = Inr (u, st')" and "tok_kind (ps_token st') \<noteq> EOF"
  shows "p_token_counter st < p_token_counter st'"
proof -
  from assms(1) obtain t lx where a: "advance (p_lexer st) = Inr (t, lx)" and "p_lexer st' = lx"
    by (auto simp: advance_lexer_def bind_result_Inr_iff Let_def split: if_splits option.splits)
  with advance_token [OF a] assms(2) have "tok_kind t \<noteq> EOF" by simp
  with assms(1) a have "p_token_counter st' = p_token_counter st + 1"
    by (auto simp: advance_lexer_def Let_def split: if_splits option.splits)
  then show ?thesis by simp
qed

lemma expect_token_counter:
  "expect_token k st = Inr (t, st') \<Longrightarrow> tok_kind (ps_token st') \<noteq> EOF \<Longrightarrow>
     p_token_counter st < p_token_counter st'"
  by (auto simp: expect_token_def bnd_Inr cur_token_def get_def ret_def fail_def
      dest: advance_lexer_counter split: if_splits)

lemma many_definitions_counter:
  assumes "state_ok Lexer_read_next_token st"
    and "many SOF parse_definition EOF st = Inr (ds, st')"
  shows "p_token_counter st < p_token_counter st'"
proof -
  from assms(2) obtain t st1 d st2 where
    1: "expect_token SOF st = Inr (t, st1)" and
    2: "parse_definition st1 = Inr (d, st2)" and
    3: "with_fuel (\<lambda>n. until_loop n parse_definition EOF [d]) st2 = Inr (ds, st')"
    by (auto simp: many_def bnd_Inr)
  note e1 = std.keeps_expect_token [of _ SOF, THEN keepsD(2), OF assms(1) lessI 1]
  then have ok1: "state_ok Lexer_read_next_token st1" by simp
  note e2 = std.eats_parse_definition [THEN eatsD(2), OF ok1 lessI 2]
  have "tok_kind (ps_token st1) \<noteq> EOF" using e2 by (auto simp: lexer_rest_def)
  then have "p_token_counter st < p_token_counter st1"
    using expect_token_counter [OF 1] by simp
  moreover have "p_token_counter st1 \<le> p_token_counter st2"
    using e2 by (simp add: same_parser_def)
  moreover have "keeps Lexer_read_next_token n (with_fuel (\<lambda>n. until_loop n parse_definition EOF [d]))"
    for n
    by (rule std.keeps_with_fuel) (rule std.until_loop_spec [OF std.eats_parse_definition])
  from keepsD(2) [OF this _ lessI 3] e2 have "same_parser st2 st'" by blast
  ultimately show ?thesis by (simp add: same_parser_def)
qed

text \<open>The entry point as the run of the loop over the definitions.\<close>

definition document_of :: "parser_state \<Rightarrow> definition_node list \<times> parser_state \<Rightarrow> document_node" where
  "document_of st r = (case r of (ds, st') \<Rightarrow>
     DocumentNode ds
       (if \<not> p_no_location st'
        then Some (Location_init (ps_token st) (lx_last_token (p_lexer st')) (lx_source (p_lexer st')))
        else None)
       (p_token_counter st'))"

lemma document_of_limit: "document_of st (ds, with_limit k st') = document_of st (ds, st')"
  by (simp add: document_of_def)

lemma parse_unfold:
  "parse source opts =
     (let st = Parser_init (Lexer_init Lexer_read_next_token source) opts
      in map_sum id (document_of st) (many SOF parse_definition EOF st))"
  by (cases "many SOF parse_definition EOF
        (Parser_init (Lexer_init Lexer_read_next_token source) opts)")
     (auto simp: parse_def run_parser_def parse_document_def bnd_def cur_token_def get_def
       loc_from_def ret_def document_of_def Let_def)

text \<open>
  C4.  The token limit is exact.  If the text parses without a limit, then with the limit \<open>k\<close> it parses
  to the same document when the document has at most \<open>k\<close> tokens, and is refused with the exception that
  names the limit otherwise.  If it does not parse without a limit, it does not parse with one: the
  exception is the same, or the limit is reached before.
\<close>

theorem parse_max_tokens_exact:
  "let limited = parse source (opts\<lparr>opt_max_tokens := Some k\<rparr>)
   in case parse source (opts\<lparr>opt_max_tokens := None\<rparr>) of
        Inr doc \<Rightarrow>
          if int (document_token_count doc) \<le> k then limited = Inr doc
          else (\<exists>t. limited = Inl (too_many_tokens t k))
      | Inl e \<Rightarrow> limited = Inl e \<or> (\<exists>t. limited = Inl (too_many_tokens t k))"
proof -
  let ?m = "many SOF parse_definition EOF"
  let ?st = "Parser_init (Lexer_init Lexer_read_next_token source) (opts\<lparr>opt_max_tokens := None\<rparr>)"
  have st: "Parser_init (Lexer_init Lexer_read_next_token source) (opts\<lparr>opt_max_tokens := Some k\<rparr>)
      = with_limit k ?st"
    by (simp add: Parser_init_def with_limit_def)
  have "p_max_tokens ?st = None" by (simp add: Parser_init_def)
  note lim = limitsD [OF limits_parse_document_body this, of k, unfolded limits_at_def]
  have doc: "document_of (with_limit k ?st) = document_of ?st"
    by (simp add: document_of_def fun_eq_iff)
  show ?thesis
  proof (cases "?m ?st")
    case (Inl e)
    with lim show ?thesis by (auto simp: parse_unfold st Let_def too_many_def)
  next
    case (Inr r)
    obtain ds st' where r: "?m ?st = Inr (ds, st')" using Inr by (cases r) auto
    have "p_token_counter ?st < p_token_counter st'"
      by (rule many_definitions_counter [OF std.state_ok_init r])
    with lim r have "if int (p_token_counter st') \<le> k
       then ?m (with_limit k ?st) = Inr (ds, with_limit k st')
       else too_many k (?m (with_limit k ?st))"
      by (auto split: if_splits)
    then show ?thesis using r
      by (auto simp: parse_unfold st Let_def too_many_def doc document_of_limit
          document_of_def split: if_splits)
  qed
qed

end
