(* ===== verification/Ast_Wf.thy ===== *)
theory Ast_Wf
  imports Lexer
begin

text \<open>
  The abstract specification of the language of syntax trees: the lexical grammar of names and
  numbers, stated without the reading functions, and the trees that the grammar of the language can
  produce.  The parser is shown to produce only such trees (theory \<open>Parser_Sound\<close>).
\<close>

section \<open>Lexical grammar\<close>

definition is_name :: "pystr \<Rightarrow> bool" where
  "is_name v \<longleftrightarrow> v \<noteq> [] \<and> is_name_start (hd v) \<and> (\<forall>c \<in> set (tl v). is_name_continue c)"

definition is_digits :: "pystr \<Rightarrow> bool" where
  "is_digits v \<longleftrightarrow> v \<noteq> [] \<and> (\<forall>c \<in> set v. is_digit c)"

text \<open>\<open>0\<close>, or digits that do not begin with \<open>0\<close>.\<close>

definition is_natural :: "pystr \<Rightarrow> bool" where
  "is_natural v \<longleftrightarrow> v = [48] \<or> (is_digits v \<and> hd v \<noteq> 48)"

definition is_int_literal :: "pystr \<Rightarrow> bool" where
  "is_int_literal v \<longleftrightarrow> is_natural v \<or> (\<exists>w. v = 45 # w \<and> is_natural w)"

definition is_fraction :: "pystr \<Rightarrow> bool" where
  "is_fraction v \<longleftrightarrow> v \<noteq> [] \<and> hd v = 46 \<and> is_digits (tl v)"

definition is_exponent :: "pystr \<Rightarrow> bool" where
  "is_exponent v \<longleftrightarrow> v \<noteq> [] \<and> hd v \<in> {69, 101} \<and>
     (is_digits (tl v) \<or> (tl v \<noteq> [] \<and> hd (tl v) \<in> {43, 45} \<and> is_digits (tl (tl v))))"

definition is_float_literal :: "pystr \<Rightarrow> bool" where
  "is_float_literal v \<longleftrightarrow>
     (\<exists>i f e. v = i @ f @ e \<and> is_int_literal i \<and> (f = [] \<or> is_fraction f)
        \<and> (e = [] \<or> is_exponent e) \<and> (f \<noteq> [] \<or> e \<noteq> []))"

text \<open>The same as programs, for evaluation.\<close>

lemma is_int_literal_code [code]:
  "is_int_literal v \<longleftrightarrow> is_natural v \<or> (v \<noteq> [] \<and> hd v = 45 \<and> is_natural (tl v))"
  by (cases v) (auto simp: is_int_literal_def)

lemma is_float_literal_code [code]:
  "is_float_literal v \<longleftrightarrow> (\<exists>k \<in> set [0..<Suc (length v)]. \<exists>m \<in> set [0..<Suc (length v)].
     let i = take k v; f = take m (drop k v); e = drop m (drop k v)
     in is_int_literal i \<and> (f = [] \<or> is_fraction f) \<and> (e = [] \<or> is_exponent e) \<and> (f \<noteq> [] \<or> e \<noteq> []))"
proof
  assume "is_float_literal v"
  then obtain i f e where v: "v = i @ f @ e" and
    "is_int_literal i \<and> (f = [] \<or> is_fraction f) \<and> (e = [] \<or> is_exponent e) \<and> (f \<noteq> [] \<or> e \<noteq> [])"
    by (auto simp: is_float_literal_def)
  then show "\<exists>k \<in> set [0..<Suc (length v)]. \<exists>m \<in> set [0..<Suc (length v)].
     let i = take k v; f = take m (drop k v); e = drop m (drop k v)
     in is_int_literal i \<and> (f = [] \<or> is_fraction f) \<and> (e = [] \<or> is_exponent e) \<and> (f \<noteq> [] \<or> e \<noteq> [])"
    by (intro bexI [of _ "length i"] bexI [of _ "length f"]) (auto simp: Let_def v)
next
  assume "\<exists>k \<in> set [0..<Suc (length v)]. \<exists>m \<in> set [0..<Suc (length v)].
     let i = take k v; f = take m (drop k v); e = drop m (drop k v)
     in is_int_literal i \<and> (f = [] \<or> is_fraction f) \<and> (e = [] \<or> is_exponent e) \<and> (f \<noteq> [] \<or> e \<noteq> [])"
  then obtain k m where "let i = take k v; f = take m (drop k v); e = drop m (drop k v)
     in is_int_literal i \<and> (f = [] \<or> is_fraction f) \<and> (e = [] \<or> is_exponent e) \<and> (f \<noteq> [] \<or> e \<noteq> [])" by blast
  moreover have "v = take k v @ take m (drop k v) @ drop m (drop k v)"
    by (simp only: append_take_drop_id)
  ultimately show "is_float_literal v" unfolding is_float_literal_def Let_def by blast
qed

text \<open>The value that a token of the lexer carries, by its kind.\<close>

definition tok_ok :: "token \<Rightarrow> bool" where
  "tok_ok t \<longleftrightarrow>
     (tok_kind t = NAME \<longrightarrow> (\<exists>v. tok_value t = Some v \<and> is_name v))
     \<and> (tok_kind t = INT' \<longrightarrow> (\<exists>v. tok_value t = Some v \<and> is_int_literal v))
     \<and> (tok_kind t = FLOAT \<longrightarrow> (\<exists>v. tok_value t = Some v \<and> is_float_literal v))"

section \<open>Optional parts\<close>

text \<open>A part that may be missing; a list that is missing or not empty.\<close>

definition wf_opt :: "('a \<Rightarrow> bool) \<Rightarrow> 'a option \<Rightarrow> bool" where
  "wf_opt P x = (case x of None \<Rightarrow> True | Some y \<Rightarrow> P y)"

definition wf_some :: "('a \<Rightarrow> bool) \<Rightarrow> 'a list \<Rightarrow> bool" where
  "wf_some P xs \<longleftrightarrow> xs \<noteq> [] \<and> (\<forall>x \<in> set xs. P x)"

abbreviation wf_list :: "('a \<Rightarrow> bool) \<Rightarrow> 'a list option \<Rightarrow> bool" where
  "wf_list P \<equiv> wf_opt (wf_some P)"

lemma wf_opt_simps [simp]: "wf_opt P None" "wf_opt P (Some x) = P x"
  by (simp_all add: wf_opt_def)

section \<open>Names, types, values\<close>

definition wf_name :: "name_node \<Rightarrow> bool" where
  "wf_name n = is_name (name_value n)"

definition wf_named_type :: "named_type_node \<Rightarrow> bool" where
  "wf_named_type t = wf_name (named_type_name t)"

text \<open>A non-null type never directly wraps a non-null type.\<close>

fun wf_type :: "type_node \<Rightarrow> bool" where
  "wf_type (NamedType t) = wf_named_type t"
| "wf_type (ListTypeNode t l) = wf_type t"
| "wf_type (NonNullTypeNode t l) = (wf_type t \<and> (\<forall>t' l'. t \<noteq> NonNullTypeNode t' l'))"

lemma wf_type_code [code]:
  "wf_type (NamedType t) = wf_named_type t"
  "wf_type (ListTypeNode u l) = wf_type u"
  "wf_type (NonNullTypeNode u l) = (wf_type u \<and> (case u of NonNullTypeNode _ _ \<Rightarrow> False | _ \<Rightarrow> True))"
  by (auto split: type_node.split)

definition wf_string :: "string_value_node \<Rightarrow> bool" where
  "wf_string s \<longleftrightarrow> string_block s \<noteq> None"

definition wf_variable :: "variable_node \<Rightarrow> bool" where
  "wf_variable v = wf_name (variable_name v)"

definition reserved_values :: "pystr set" where
  "reserved_values = {str ''true'', str ''false'', str ''null''}"

text \<open>The flag says that the value is constant: then it has no variable, at any depth.\<close>

fun wf_value :: "bool \<Rightarrow> value_node \<Rightarrow> bool"
  and wf_object_field :: "bool \<Rightarrow> object_field_node \<Rightarrow> bool" where
  "wf_value c (VariableValue v) = (\<not> c \<and> wf_variable v)"
| "wf_value c (IntValueNode v l) = is_int_literal v"
| "wf_value c (FloatValueNode v l) = is_float_literal v"
| "wf_value c (StringValue s) = wf_string s"
| "wf_value c (BooleanValueNode b l) = True"
| "wf_value c (NullValueNode l) = True"
| "wf_value c (EnumValueNode v l) = (is_name v \<and> v \<notin> reserved_values)"
| "wf_value c (ListValueNode vs l) = (\<forall>v \<in> set vs. wf_value c v)"
| "wf_value c (ObjectValueNode fs l) = (\<forall>f \<in> set fs. wf_object_field c f)"
| "wf_object_field c (ObjectFieldNode n v l) = (wf_name n \<and> wf_value c v)"

fun wf_argument :: "bool \<Rightarrow> argument_node \<Rightarrow> bool" where
  "wf_argument c (ArgumentNode n v l) = (wf_name n \<and> wf_value c v)"

fun wf_fragment_argument :: "fragment_argument_node \<Rightarrow> bool" where
  "wf_fragment_argument (FragmentArgumentNode n v l) = (wf_name n \<and> wf_value False v)"

fun wf_directive :: "bool \<Rightarrow> directive_node \<Rightarrow> bool" where
  "wf_directive c (DirectiveNode n args l) = (wf_name n \<and> wf_list (wf_argument c) args)"

section \<open>Executable definitions\<close>

text \<open>The name of a fragment is not \<open>on\<close>.\<close>

definition wf_fragment_name :: "name_node \<Rightarrow> bool" where
  "wf_fragment_name n \<longleftrightarrow> wf_name n \<and> name_value n \<noteq> str ''on''"

text \<open>The flag \<open>ef\<close> is the option \<open>experimental_fragment_arguments\<close>.\<close>

fun wf_selection :: "bool \<Rightarrow> selection_node \<Rightarrow> bool"
  and wf_selection_set :: "bool \<Rightarrow> selection_set_node \<Rightarrow> bool" where
  "wf_selection ef (FieldNode n a args ds ss l) =
     (wf_name n \<and> wf_opt wf_name a \<and> wf_list (wf_argument False) args
      \<and> wf_list (wf_directive False) ds
      \<and> (case ss of None \<Rightarrow> True | Some s \<Rightarrow> wf_selection_set ef s))"
| "wf_selection ef (FragmentSpreadNode n args ds l) =
     (wf_fragment_name n \<and> wf_list wf_fragment_argument args \<and> (args \<noteq> None \<longrightarrow> ef)
      \<and> wf_list (wf_directive False) ds)"
| "wf_selection ef (InlineFragmentNode ss tc ds l) =
     (wf_selection_set ef ss \<and> wf_opt wf_named_type tc \<and> wf_list (wf_directive False) ds)"
| "wf_selection_set ef (SelectionSetNode sels l) =
     (sels \<noteq> [] \<and> (\<forall>s \<in> set sels. wf_selection ef s))"

fun wf_variable_definition :: "variable_definition_node \<Rightarrow> bool" where
  "wf_variable_definition (VariableDefinitionNode d v t dv ds l) =
     (wf_opt wf_string d \<and> wf_variable v \<and> wf_type t \<and> wf_opt (wf_value True) dv
      \<and> wf_list (wf_directive True) ds)"

fun wf_operation :: "bool \<Rightarrow> operation_definition_node \<Rightarrow> bool" where
  "wf_operation ef (OperationDefinitionNode ss d n vds ds op l) =
     (wf_selection_set ef ss \<and> wf_opt wf_string d \<and> wf_opt wf_name n
      \<and> wf_list wf_variable_definition vds \<and> wf_list (wf_directive False) ds)"

fun wf_fragment :: "bool \<Rightarrow> fragment_definition_node \<Rightarrow> bool" where
  "wf_fragment ef (FragmentDefinitionNode ss d n vds ds tc l) =
     (wf_selection_set ef ss \<and> wf_opt wf_string d \<and> wf_fragment_name n
      \<and> (if ef then wf_list wf_variable_definition vds else vds = Some [])
      \<and> wf_list (wf_directive False) ds \<and> wf_named_type tc)"

section \<open>Type system definitions\<close>

fun wf_operation_type_definition :: "operation_type_definition_node \<Rightarrow> bool" where
  "wf_operation_type_definition (OperationTypeDefinitionNode op t l) = wf_named_type t"

fun wf_input_value_definition :: "input_value_definition_node \<Rightarrow> bool" where
  "wf_input_value_definition (InputValueDefinitionNode n t d dv ds l) =
     (wf_name n \<and> wf_type t \<and> wf_opt wf_string d \<and> wf_opt (wf_value True) dv
      \<and> wf_list (wf_directive True) ds)"

fun wf_field_definition :: "field_definition_node \<Rightarrow> bool" where
  "wf_field_definition (FieldDefinitionNode n t d args ds l) =
     (wf_name n \<and> wf_type t \<and> wf_opt wf_string d \<and> wf_list wf_input_value_definition args
      \<and> wf_list (wf_directive True) ds)"

fun wf_enum_value_definition :: "enum_value_definition_node \<Rightarrow> bool" where
  "wf_enum_value_definition (EnumValueDefinitionNode n d ds l) =
     (wf_name n \<and> name_value n \<notin> reserved_values \<and> wf_opt wf_string d
      \<and> wf_list (wf_directive True) ds)"

end
