(* ===== verification/Lexer_Sound.thy ===== *)
theory Lexer_Sound
  imports Ast_Wf Token_Stream
begin

text \<open>
  The lexer against the lexical grammar: the value of a name or number token is the text between its
  bounds and belongs to the grammar, and conversely every text of the grammar that is not followed by a
  character that would continue it is read as one token.
\<close>

section \<open>Runs of characters\<close>

lemma scan_while_slice:
  "i \<le> length body \<Longrightarrow> slice body i (scan_while p body i) = takeWhile p (drop i body)"
  by (simp add: scan_while_takeWhile slice_def flip: takeWhile_eq_take)

lemma read_digits_iff:
  "read_digits body i (char_at body i) = Inr e \<longleftrightarrow>
     i < length body \<and> is_digit (body ! i) \<and> e = scan_while is_digit body (Suc i)"
  by (auto simp: read_digits_def char_is_char_at)

lemma scan_while_first:
  "i < length body \<Longrightarrow> p (body ! i) \<Longrightarrow> scan_while p body (Suc i) = scan_while p body i"
  by (simp add: scan_while.simps [of p body i])

lemma read_digits_slice:
  assumes "read_digits body i (char_at body i) = Inr e"
  shows "is_digits (slice body i e)" "slice body i e \<noteq> [] \<and> hd (slice body i e) = body ! i"
proof -
  from assms have i: "i < length body" "is_digit (body ! i)"
    and e: "e = scan_while is_digit body i"
    by (auto simp: read_digits_iff scan_while_first)
  have s: "slice body i e = takeWhile is_digit (drop i body)"
    using i e scan_while_slice [of i body is_digit] by simp
  have d: "drop i body = body ! i # drop (Suc i) body" using i(1) by (simp add: Cons_nth_drop_Suc)
  show "is_digits (slice body i e)"
    using i(2) by (auto simp: s is_digits_def d dest: set_takeWhileD)
  show "slice body i e \<noteq> [] \<and> hd (slice body i e) = body ! i" using i(2) by (simp add: s d)
qed

lemma slice_Cons: "i < length s \<Longrightarrow> i < j \<Longrightarrow> slice s i j = s ! i # slice s (Suc i) j"
proof -
  assume "i < length s" "i < j"
  then have "slice s i j = slice s i (Suc i) @ slice s (Suc i) j"
    by (intro slice_append [symmetric]) simp_all
  with \<open>i < length s\<close> show ?thesis by (simp add: slice_one)
qed

section \<open>Numbers are in the grammar\<close>

lemma read_integer_part_natural:
  assumes "read_integer_part body i (char_at body i) = Inr (e, c)"
  shows "is_natural (slice body i e)"
proof (cases "char_at body i = Some 48")
  case True
  with assms have "i < length body" "body ! i = 48" "e = Suc i"
    by (auto simp: read_integer_part_def Let_def char_at_Some split: if_splits)
  then show ?thesis by (simp add: slice_one is_natural_def)
next
  case False
  with assms have d: "read_digits body i (char_at body i) = Inr e"
    by (auto simp: read_integer_part_def bind_result_Inr_iff split: if_splits)
  then have "body ! i \<noteq> 48" using False by (auto simp: read_digits_iff char_at_Some)
  with read_digits_slice [OF d] show ?thesis by (simp add: is_natural_def)
qed

lemma read_fraction_slice:
  assumes "read_fraction body i (char_at body i) False = Inr (fl, e, c)" and "i \<le> length body"
  shows "(fl = False \<and> slice body i e = []) \<or> (fl = True \<and> is_fraction (slice body i e))"
proof (cases "char_at body i = Some 46")
  case True
  with assms have d: "read_digits body (Suc i) (char_at body (Suc i)) = Inr e" and "fl"
    by (auto simp: read_fraction_def Let_def bind_result_Inr_iff)
  have "i < e" using read_digits_bounds(1) [OF d] by simp
  with True read_digits_slice(1) [OF d] \<open>fl\<close> show ?thesis
    by (simp add: is_fraction_def char_at_Some slice_Cons)
qed (use assms in \<open>auto simp: read_fraction_def\<close>)

lemma read_exponent_slice:
  assumes "read_exponent body i (char_at body i) fl0 = Inr (fl, e, c)" and "i \<le> length body"
  shows "(fl = fl0 \<and> slice body i e = []) \<or> (fl = True \<and> is_exponent (slice body i e))"
proof (cases "char_is (\<lambda>c. c = 69 \<or> c = 101) (char_at body i)")
  case True
  then have i: "i < length body" "body ! i \<in> {69, 101}" by (auto simp: char_is_char_at)
  define j where "j = (if char_is (\<lambda>c. c = 43 \<or> c = 45) (char_at body (Suc i))
    then Suc (Suc i) else Suc i)"
  from True assms have d: "read_digits body j (char_at body j) = Inr e" and fl
    by (auto simp: read_exponent_def Let_def bind_result_Inr_iff j_def split: if_splits)
  have j: "j = Suc i \<or> j = Suc (Suc i) \<and> Suc i < length body \<and> body ! Suc i \<in> {43, 45}"
    by (auto simp: j_def char_is_char_at)
  note b = read_digits_bounds [OF d]
  then have "slice body i e = body ! i # slice body (Suc i) e"
    using i j by (intro slice_Cons) auto
  moreover have "slice body (Suc i) e = body ! Suc i # slice body (Suc (Suc i)) e"
    if "j = Suc (Suc i)"
    using that j b by (intro slice_Cons) auto
  ultimately have "is_exponent (slice body i e)"
    using i j read_digits_slice(1) [OF d] by (auto simp: is_exponent_def)
  with \<open>fl\<close> show ?thesis by simp
qed (use assms in \<open>auto simp: read_exponent_def\<close>)

lemma read_number_grammar:
  assumes "read_number body lp i (body ! i) = Inr t" and "i < length body"
  shows "tok_kind t = INT' \<and> is_int_literal (slice body i (tok_end t))
       \<or> tok_kind t = FLOAT \<and> is_float_literal (slice body i (tok_end t))"
proof -
  define j where "j = (if body ! i = 45 then i + 1 else i)"
  from assms(2) have "(if Some (body ! i) = Some 45 then (i + 1, char_at body (i + 1))
      else (i, Some (body ! i))) = (j, char_at body j)"
    by (simp add: j_def char_at_Some) (simp add: char_at_def)
  with assms(1) obtain e1 c1 f2 e2 c2 f3 e3 c3 where
    1: "read_integer_part body j (char_at body j) = Inr (e1, c1)" and
    2: "read_fraction body e1 c1 False = Inr (f2, e2, c2)" and
    3: "read_exponent body e2 c2 f2 = Inr (f3, e3, c3)" and
    t: "t = create_token lp (if f3 then FLOAT else INT') i e3 (Some (slice body i e3))"
    by (auto simp: read_number_def Let_def bind_result_Inr_iff split: if_splits)
  note b1 = read_integer_part_bounds [OF 1]
  note 2 = 2 [unfolded b1(3)]
  note b2 = read_fraction_bounds [OF 2 b1(2)]
  note 3 = 3 [unfolded b2(3)]
  note b3 = read_exponent_bounds [OF 3 b2(2)]
  have "slice body i e1 = (if body ! i = 45 then 45 # slice body j e1 else slice body j e1)"
    using b1(1) assms(2) by (auto simp: j_def slice_Cons)
  with read_integer_part_natural [OF 1] have int: "is_int_literal (slice body i e1)"
    by (auto simp: is_int_literal_def)
  have "i \<le> e1" using b1(1) by (simp add: j_def split: if_splits)
  then have s: "slice body i e3 = slice body i e1 @ slice body e1 e2 @ slice body e2 e3"
    using b2(1) b3(1) slice_append [of i e1 e3 body] slice_append [of e1 e2 e3 body] by simp
  note f = read_fraction_slice [OF 2 b1(2)] and e = read_exponent_slice [OF 3 b2(2)]
  show ?thesis
  proof (cases f3)
    case False
    with f e have "slice body e1 e2 = []" "slice body e2 e3 = []" by auto
    with False int show ?thesis by (simp add: t s)
  next
    case True
    have "is_float_literal (slice body i e3)"
      unfolding is_float_literal_def s
      by (rule exI, rule exI, rule exI, intro conjI, rule refl)
         (use int f e True in \<open>auto simp: is_fraction_def is_exponent_def\<close>)
    with True show ?thesis by (simp add: t)
  qed
qed

section \<open>Names are in the grammar\<close>

lemma read_name_grammar:
  assumes "i < length body" and "is_name_start (body ! i)"
  shows "is_name (slice body i (tok_end (read_name body lp i)))"
proof -
  have c: "is_name_continue (body ! i)"
    using assms(2) by (auto simp: is_name_start_def is_name_continue_def)
  have e: "tok_end (read_name body lp i) = scan_while is_name_continue body i"
    using scan_while_first [of i body is_name_continue] assms(1) c
    by (simp add: read_name_def Let_def)
  have "drop i body = body ! i # drop (Suc i) body" using assms(1) by (simp add: Cons_nth_drop_Suc)
  then have "slice body i (tok_end (read_name body lp i))
     = body ! i # takeWhile is_name_continue (drop (Suc i) body)"
    using scan_while_slice [of i body is_name_continue] assms(1) c by (simp add: e)
  then show ?thesis using assms(2) by (auto simp: is_name_def dest: set_takeWhileD)
qed

section \<open>Every token carries a value of its kind\<close>

lemma read_token_at_ok:
  assumes "read_token_at body lp i = Inr (t, lp')" and "i < length body"
  shows "tok_ok t"
proof -
  have punct: "k \<notin> {NAME, INT', FLOAT}" if "KIND_FOR_PUNCT c = Some k" for c k
    using that by (auto simp: KIND_FOR_PUNCT_def split: if_splits)
  have number: "tok_ok t" if "read_number body lp i (body ! i) = Inr t" for t
    using read_number_grammar [OF that assms(2)] read_number_bounds [OF that assms(2) refl]
    by (auto simp: tok_ok_def)
  have name: "tok_ok (read_name body lp i)" if "is_name_start (body ! i)"
    using read_name_grammar [OF assms(2) that, of lp] by (simp add: tok_ok_def read_name_def Let_def)
  have dots: "tok_ok t" if "read_dots body lp i = Inr t" for t
    using read_dots_bounds [OF that] by (simp add: tok_ok_def)
  show ?thesis
    using assms(1) number name dots
    by (auto simp: read_token_at_def Let_def bind_result_Inr_iff read_comment_def
        read_string_def read_block_string_def split: if_splits option.splits dest!: punct)
       (auto simp: tok_ok_def)
qed

lemma read_next_token_ok:
  "read_next_token body lp i = Inr (t, lp') \<Longrightarrow> tok_ok t"
proof (induction "length body - i" arbitrary: lp i rule: less_induct)
  case less
  show ?case
  proof (cases "i < length body")
    case False
    with less.prems show ?thesis by (subst (asm) read_next_token.simps) (auto simp: tok_ok_def)
  next
    case True
    have step: "tok_ok t" if "read_next_token body lp j = Inr (t, lp')" and "i < j" for lp j
      using less.hyps [OF _ that(1)] that(2) True by simp
    show ?thesis
    proof (cases "is_ignored_char (body ! i) \<or> body ! i = 10 \<or> body ! i = 13")
      case False
      with True less.prems have "read_token_at body lp i = Inr (t, lp')"
        by (subst (asm) read_next_token.simps) (simp add: Let_def)
      from read_token_at_ok [OF this True] show ?thesis .
    next
      case skip: True
      with True less.prems obtain lp'' j where
        "read_next_token body lp'' j = Inr (t, lp')" "i < j"
        by (subst (asm) (2) read_next_token.simps) (auto simp: Let_def split: if_splits)
      from step [OF this] show ?thesis .
    qed
  qed
qed

text \<open>The contract of a reader, extended by the values of its tokens.\<close>

locale graphql_token_reader = token_reader +
  assumes read_tok_ok: "read src lp i = Inr (t, lp') \<Longrightarrow> i \<le> length (src_body src) \<Longrightarrow> tok_ok t"

interpretation std_values: graphql_token_reader Lexer_read_next_token
  by unfold_locales (auto simp: Lexer_read_next_token_def dest: read_next_token_ok)

interpretation coordinate_values: graphql_token_reader SchemaCoordinateLexer_read_next_token
proof unfold_locales
  fix src lp i t lp'
  assume read: "SchemaCoordinateLexer_read_next_token src lp i = Inr (t, lp')"
    and i: "i \<le> length (src_body src)"
  have punct: "k \<notin> {NAME, INT', FLOAT}" if "SC_KIND_FOR_PUNCT c = Some k" for c k
    using that by (auto simp: SC_KIND_FOR_PUNCT_def split: if_splits)
  have name: "tok_ok (read_name (src_body src) lp i)"
    if "i < length (src_body src)" "is_name_start (src_body src ! i)"
    using read_name_grammar [OF that, of lp] by (simp add: tok_ok_def read_name_def Let_def)
  show "tok_ok t"
    using read name
    by (auto simp: SchemaCoordinateLexer_read_next_token_def Let_def
        split: option.splits if_splits dest!: punct)
       (auto simp: tok_ok_def)
qed

end
