(* ===== verification/Printer.thy ===== *)
theory Printer
  imports Ast Block_String
begin

text \<open>
  The printer (\<open>language/printer.py\<close>).  \<open>print_ast\<close> runs a visitor whose only methods are \<open>leave_...\<close>:
  a node is left when its children have been replaced by their texts, so each method is a function
  from the texts of the children to the text of the node.  The models below are the methods, one per
  class of nodes, applied to the printed children.
\<close>

section \<open>Helper functions\<close>

definition MAX_LINE_LENGTH :: nat where
  "MAX_LINE_LENGTH = 80"

text \<open>\<open>join(strings, separator)\<close>: empty strings are left out.\<close>

definition join :: "pystr list option \<Rightarrow> pystr \<Rightarrow> pystr" where
  "join strings separator =
     (case strings of None \<Rightarrow> [] | Some ss \<Rightarrow> str_join separator (filter (\<lambda>s. s \<noteq> []) ss))"

definition wrap :: "pystr \<Rightarrow> pystr option \<Rightarrow> pystr \<Rightarrow> pystr" where
  "wrap start string' end' =
     (case string' of None \<Rightarrow> [] | Some s \<Rightarrow> if s \<noteq> [] then start @ s @ end' else [])"

definition indent :: "pystr \<Rightarrow> pystr" where
  "indent string' = wrap [32, 32] (Some (str_replace [10] [10, 32, 32] string')) []"

definition block :: "pystr list option \<Rightarrow> pystr" where
  "block strings = wrap [123, 10] (Some (indent (join strings [10]))) [10, 125]"

definition is_multiline :: "pystr \<Rightarrow> bool" where
  "is_multiline string' \<longleftrightarrow> 10 \<in> set string'"

definition has_multiline_items :: "pystr list option \<Rightarrow> bool" where
  "has_multiline_items strings =
     (case strings of None \<Rightarrow> False | Some ss \<Rightarrow> \<exists>s \<in> set ss. is_multiline s)"

definition wrapped_line_and_args :: "pystr \<Rightarrow> pystr list option \<Rightarrow> pystr" where
  "wrapped_line_and_args prefix args =
     (let args_line = prefix @ wrap (str ''('') (Some (join args (str '', ''))) (str '')'') in
      if length args_line > MAX_LINE_LENGTH
      then prefix @ wrap [40, 10] (Some (indent (join args [10]))) [10, 41]
      else args_line)"

text \<open>The texts of the children in an optional list.\<close>

abbreviation printed :: "('a \<Rightarrow> pystr) \<Rightarrow> 'a list option \<Rightarrow> pystr list option" where
  "printed f \<equiv> map_option (map f)"

section \<open>Names, values\<close>

definition print_name :: "name_node \<Rightarrow> pystr" where
  "print_name node = name_value node"

definition print_variable :: "variable_node \<Rightarrow> pystr" where
  "print_variable node = str ''$'' @ print_name (variable_name node)"

definition print_string_value :: "string_value_node \<Rightarrow> pystr" where
  "print_string_value node =
     (if string_block node = Some True then print_block_string (string_value node) False
      else print_string (string_value node))"

definition leave_list_value :: "pystr list \<Rightarrow> pystr" where
  "leave_list_value values =
     (let values_line = str ''['' @ join (Some values) (str '', '') @ str '']'' in
      if length values_line > 80
      then str_join [10] [str ''['', indent (join (Some values) [10]), str '']'']
      else values_line)"

definition leave_object_value :: "pystr list \<Rightarrow> pystr" where
  "leave_object_value fields' =
     (let fields_line = str ''{ '' @ join (Some fields') (str '', '') @ str '' }'' in
      if length fields_line > MAX_LINE_LENGTH then block (Some fields') else fields_line)"

definition leave_object_field :: "pystr \<Rightarrow> pystr \<Rightarrow> pystr" where
  "leave_object_field name value = name @ str '': '' @ value"

fun print_value :: "value_node \<Rightarrow> pystr"
  and print_object_field :: "object_field_node \<Rightarrow> pystr" where
  "print_value (VariableValue v) = print_variable v"
| "print_value (IntValueNode v l) = v"
| "print_value (FloatValueNode v l) = v"
| "print_value (StringValue s) = print_string_value s"
| "print_value (BooleanValueNode b l) = (if b then str ''true'' else str ''false'')"
| "print_value (NullValueNode l) = str ''null''"
| "print_value (EnumValueNode v l) = v"
| "print_value (ListValueNode vs l) = leave_list_value (map print_value vs)"
| "print_value (ObjectValueNode fs l) = leave_object_value (map print_object_field fs)"
| "print_object_field (ObjectFieldNode n v l) = leave_object_field (print_name n) (print_value v)"

section \<open>Arguments, directives, types\<close>

definition print_argument :: "argument_node \<Rightarrow> pystr" where
  "print_argument node =
     print_name (argument_name node) @ str '': '' @ print_value (argument_value node)"

definition print_fragment_argument :: "fragment_argument_node \<Rightarrow> pystr" where
  "print_fragment_argument node =
     print_name (fragment_argument_name node) @ str '': ''
       @ print_value (fragment_argument_value node)"

definition print_directive :: "directive_node \<Rightarrow> pystr" where
  "print_directive node =
     str ''@'' @ print_name (directive_name node)
       @ wrap (str ''('') (Some (join (printed print_argument (directive_arguments node)) (str '', '')))
           (str '')'')"

definition print_named_type :: "named_type_node \<Rightarrow> pystr" where
  "print_named_type node = print_name (named_type_name node)"

fun print_type :: "type_node \<Rightarrow> pystr" where
  "print_type (NamedType t) = print_named_type t"
| "print_type (ListTypeNode t l) = str ''['' @ print_type t @ str '']''"
| "print_type (NonNullTypeNode t l) = print_type t @ str ''!''"

text \<open>\<open>join(node.directives, " ")\<close>\<close>

abbreviation joined_directives :: "directive_node list option \<Rightarrow> pystr" where
  "joined_directives ds \<equiv> join (printed print_directive ds) (str '' '')"

text \<open>\<open>wrap("", node.description, "\n")\<close>\<close>

abbreviation described :: "string_value_node option \<Rightarrow> pystr" where
  "described d \<equiv> wrap [] (map_option print_string_value d) [10]"

section \<open>Selections, operations, fragments\<close>

definition leave_field ::
  "pystr \<Rightarrow> pystr option \<Rightarrow> pystr list option \<Rightarrow> pystr list option \<Rightarrow> pystr option \<Rightarrow> pystr" where
  "leave_field name alias' arguments directives selection_set =
     (let prefix = join (Some [wrap [] alias' (str '': ''), name]) [] in
      join (Some
        [wrapped_line_and_args prefix arguments,
         wrap (str '' '') (Some (join directives (str '' ''))) [],
         wrap (str '' '') selection_set []]) [])"

definition leave_fragment_spread :: "pystr \<Rightarrow> pystr list option \<Rightarrow> pystr list option \<Rightarrow> pystr" where
  "leave_fragment_spread name arguments directives =
     (let prefix = str ''...'' @ name in
      wrapped_line_and_args prefix arguments
        @ wrap (str '' '') (Some (join directives (str '' ''))) [])"

definition leave_inline_fragment :: "pystr option \<Rightarrow> pystr list option \<Rightarrow> pystr \<Rightarrow> pystr" where
  "leave_inline_fragment type_condition directives selection_set =
     join (Some
       [str ''...'',
        wrap (str ''on '') type_condition [],
        join directives (str '' ''),
        selection_set]) (str '' '')"

fun print_selection :: "selection_node \<Rightarrow> pystr"
  and print_selection_set :: "selection_set_node \<Rightarrow> pystr" where
  "print_selection (FieldNode n a args ds ss l) =
     leave_field (print_name n) (map_option print_name a) (printed print_argument args)
       (printed print_directive ds)
       (case ss of None \<Rightarrow> None | Some s \<Rightarrow> Some (print_selection_set s))"
| "print_selection (FragmentSpreadNode n args ds l) =
     leave_fragment_spread (print_name n) (printed print_fragment_argument args)
       (printed print_directive ds)"
| "print_selection (InlineFragmentNode ss tc ds l) =
     leave_inline_fragment (map_option print_named_type tc) (printed print_directive ds)
       (print_selection_set ss)"
| "print_selection_set (SelectionSetNode sels l) = block (Some (map print_selection sels))"

definition print_variable_definition :: "variable_definition_node \<Rightarrow> pystr" where
  "print_variable_definition node =
     described (vardef_description node)
       @ print_variable (vardef_variable node) @ str '': '' @ print_type (vardef_type node)
       @ wrap (str '' = '') (map_option print_value (vardef_default_value node)) []
       @ wrap (str '' '') (Some (joined_directives (vardef_directives node))) []"

definition print_operation_definition :: "operation_definition_node \<Rightarrow> pystr" where
  "print_operation_definition node =
     (let variable_definitions = printed print_variable_definition (op_variable_definitions node);
          var_defs =
            (if has_multiline_items variable_definitions
             then wrap [40, 10] (Some (join variable_definitions [10])) [10, 41]
             else wrap (str ''('') (Some (join variable_definitions (str '', ''))) (str '')''));
          name = (case op_name node of None \<Rightarrow> [] | Some n \<Rightarrow> print_name n);
          prefix = described (op_description node)
            @ join (Some
                [operation_type_value (op_operation node),
                 join (Some [name, var_defs]) [],
                 joined_directives (op_directives node)]) (str '' '')
      in (if prefix = str ''query'' then [] else prefix @ str '' '')
           @ print_selection_set (op_selection_set node))"

definition print_fragment_definition :: "fragment_definition_node \<Rightarrow> pystr" where
  "print_fragment_definition node =
     described (frag_description node) @ str ''fragment '' @ print_name (frag_name node)
       @ wrap (str ''('')
           (Some (join (printed print_variable_definition (frag_variable_definitions node))
             (str '', ''))) (str '')'')
       @ str '' on '' @ print_named_type (frag_type_condition node)
       @ str '' '' @ wrap [] (Some (joined_directives (frag_directives node))) (str '' '')
       @ print_selection_set (frag_selection_set node)"

section \<open>Type system definitions\<close>

definition print_operation_type_definition :: "operation_type_definition_node \<Rightarrow> pystr" where
  "print_operation_type_definition node =
     operation_type_value (optype_operation node) @ str '': '' @ print_named_type (optype_type node)"

definition print_input_value_definition :: "input_value_definition_node \<Rightarrow> pystr" where
  "print_input_value_definition node =
     described (input_description node)
       @ join (Some
           [print_name (input_name node) @ str '': '' @ print_type (input_type node),
            wrap (str ''= '') (map_option print_value (input_default_value node)) [],
            joined_directives (input_directives node)]) (str '' '')"

text \<open>The printed arguments of a field or directive definition.\<close>

definition leave_definition_arguments :: "pystr list option \<Rightarrow> pystr" where
  "leave_definition_arguments args =
     (if has_multiline_items args
      then wrap [40, 10] (Some (indent (join args [10]))) [10, 41]
      else wrap (str ''('') (Some (join args (str '', ''))) (str '')''))"

definition print_field_definition :: "field_definition_node \<Rightarrow> pystr" where
  "print_field_definition node =
     (let args = leave_definition_arguments
            (printed print_input_value_definition (fielddef_arguments node));
          directives = wrap (str '' '') (Some (joined_directives (fielddef_directives node))) []
      in described (fielddef_description node)
           @ print_name (fielddef_name node) @ args @ str '': ''
           @ print_type (fielddef_type node) @ directives)"

definition print_enum_value_definition :: "enum_value_definition_node \<Rightarrow> pystr" where
  "print_enum_value_definition node =
     described (enumdef_description node)
       @ join (Some [print_name (enumdef_name node), joined_directives (enumdef_directives node)])
           (str '' '')"

abbreviation printed_interfaces :: "named_type_node list option \<Rightarrow> pystr" where
  "printed_interfaces is \<equiv>
     wrap (str ''implements '') (Some (join (printed print_named_type is) (str '' & ''))) []"

abbreviation printed_union_types :: "named_type_node list option \<Rightarrow> pystr" where
  "printed_union_types ts \<equiv>
     wrap (str ''= '') (Some (join (printed print_named_type ts) (str '' | ''))) []"

fun print_definition :: "definition_node \<Rightarrow> pystr" where
  "print_definition (OperationDefinition d) = print_operation_definition d"
| "print_definition (FragmentDefinition d) = print_fragment_definition d"
| "print_definition (SchemaDefinitionNode d ds ops l) =
     described d @ join (Some
       [str ''schema'', joined_directives ds,
        block (Some (map print_operation_type_definition ops))]) (str '' '')"
| "print_definition (ScalarTypeDefinitionNode n d ds l) =
     described d @ join (Some [str ''scalar'', print_name n, joined_directives ds]) (str '' '')"
| "print_definition (ObjectTypeDefinitionNode n d ds is fs l) =
     described d @ join (Some
       [str ''type'', print_name n, printed_interfaces is, joined_directives ds,
        block (printed print_field_definition fs)]) (str '' '')"
| "print_definition (InterfaceTypeDefinitionNode n d ds is fs l) =
     described d @ join (Some
       [str ''interface'', print_name n, printed_interfaces is, joined_directives ds,
        block (printed print_field_definition fs)]) (str '' '')"
| "print_definition (UnionTypeDefinitionNode n d ds ts l) =
     described d @ join (Some
       [str ''union'', print_name n, joined_directives ds, printed_union_types ts]) (str '' '')"
| "print_definition (EnumTypeDefinitionNode n d ds vs l) =
     described d @ join (Some
       [str ''enum'', print_name n, joined_directives ds,
        block (printed print_enum_value_definition vs)]) (str '' '')"
| "print_definition (InputObjectTypeDefinitionNode n d ds fs l) =
     described d @ join (Some
       [str ''input'', print_name n, joined_directives ds,
        block (printed print_input_value_definition fs)]) (str '' '')"
| "print_definition (DirectiveDefinitionNode n locs d args ds rep l) =
     described d @ str ''directive @'' @ print_name n
       @ leave_definition_arguments (printed print_input_value_definition args)
       @ wrap (str '' '') (Some (joined_directives ds)) []
       @ (if rep then str '' repeatable'' else [])
       @ str '' on '' @ join (Some (map print_name locs)) (str '' | '')"
| "print_definition (SchemaExtensionNode ds ops l) =
     join (Some
       [str ''extend schema'', joined_directives ds,
        block (printed print_operation_type_definition ops)]) (str '' '')"
| "print_definition (DirectiveExtensionNode n ds l) =
     join (Some [str ''extend directive @'' @ print_name n, joined_directives ds]) (str '' '')"
| "print_definition (ScalarTypeExtensionNode n ds l) =
     join (Some [str ''extend scalar'', print_name n, joined_directives ds]) (str '' '')"
| "print_definition (ObjectTypeExtensionNode n ds is fs l) =
     join (Some
       [str ''extend type'', print_name n, printed_interfaces is, joined_directives ds,
        block (printed print_field_definition fs)]) (str '' '')"
| "print_definition (InterfaceTypeExtensionNode n ds is fs l) =
     join (Some
       [str ''extend interface'', print_name n, printed_interfaces is, joined_directives ds,
        block (printed print_field_definition fs)]) (str '' '')"
| "print_definition (UnionTypeExtensionNode n ds ts l) =
     join (Some
       [str ''extend union'', print_name n, joined_directives ds, printed_union_types ts])
       (str '' '')"
| "print_definition (EnumTypeExtensionNode n ds vs l) =
     join (Some
       [str ''extend enum'', print_name n, joined_directives ds,
        block (printed print_enum_value_definition vs)]) (str '' '')"
| "print_definition (InputObjectTypeExtensionNode n ds fs l) =
     join (Some
       [str ''extend input'', print_name n, joined_directives ds,
        block (printed print_input_value_definition fs)]) (str '' '')"

definition print_document :: "document_node \<Rightarrow> pystr" where
  "print_document node = join (Some (map print_definition (document_definitions node))) [10, 10]"

section \<open>Schema coordinates\<close>

fun print_schema_coordinate :: "schema_coordinate_node \<Rightarrow> pystr" where
  "print_schema_coordinate (TypeCoordinateNode n l) = print_name n"
| "print_schema_coordinate (MemberCoordinateNode n m l) =
     join (Some [print_name n, wrap (str ''.'') (Some (print_name m)) []]) []"
| "print_schema_coordinate (ArgumentCoordinateNode n f a l) =
     join (Some [print_name n, wrap (str ''.'') (Some (print_name f)) [],
       wrap (str ''('') (Some (print_name a)) (str '':)'')]) []"
| "print_schema_coordinate (DirectiveCoordinateNode n l) = str ''@'' @ print_name n"
| "print_schema_coordinate (DirectiveArgumentCoordinateNode n a l) =
     str ''@'' @ print_name n @ wrap (str ''('') (Some (print_name a)) (str '':)'')"

end
