(* ===== verification/Block_Lexing.thy ===== *)
theory Block_Lexing
  imports Lexer_Sound Printer
begin

text \<open>
  Block strings survive printing and reading: what \<open>is_printable_as_block_string\<close> accepts is written
  by \<open>print_block_string\<close> so that \<open>read_block_string\<close> and \<open>dedent_block_string_lines\<close> give the value
  back, at every depth of indentation.
\<close>

section \<open>Reading at a position\<close>

lemma drop_Cons_iff:
  "drop i body = c # s \<longleftrightarrow> i < length body \<and> body ! i = c \<and> drop (Suc i) body = s"
proof (cases "i < length body")
  case True
  then show ?thesis by (auto simp flip: Cons_nth_drop_Suc)
qed simp

lemma slice_prefix: "drop i body = w @ s \<Longrightarrow> slice body i (i + length w) = w"
  by (simp add: slice_def)

lemma drop_prefix: "drop i body = w @ s \<Longrightarrow> drop (i + length w) body = s"
  by (metis add.commute append_eq_conv_conj drop_drop)

lemma char_at_drop: "char_at body i = (case drop i body of [] \<Rightarrow> None | c # s \<Rightarrow> Some c)"
  by (auto simp: char_at_def drop_Cons_iff split: list.split)

definition is_scalar_text :: "pystr \<Rightarrow> bool" where
  "is_scalar_text s \<longleftrightarrow> (\<forall>c \<in> set s. is_unicode_scalar_value c)"

section \<open>Lines\<close>

fun lines_of :: "pystr \<Rightarrow> pystr list" where
  "lines_of [] = [[]]"
| "lines_of (c # s) =
     (if c = 10 then [] # lines_of s else (c # hd (lines_of s)) # tl (lines_of s))"

lemma lines_of_not_empty [simp]: "lines_of s \<noteq> []"
  by (cases s) auto

lemma lines_of_single: "10 \<notin> set s \<Longrightarrow> lines_of s = [s]"
  by (induction s) auto

lemma length_lines_of: "length (lines_of s) = 1 \<longleftrightarrow> 10 \<notin> set s"
proof (induction s)
  case (Cons c s)
  have "length (lines_of s) = Suc n \<longleftrightarrow> length (tl (lines_of s)) = n" for n
    by (cases "lines_of s") auto
  with Cons show ?case by auto
qed simp

lemma str_join_lines_of: "str_join [10] (lines_of s) = s"
proof (induction s)
  case (Cons c s)
  obtain l ls where "lines_of s = l # ls" by (cases "lines_of s") auto
  with Cons show ?case by (cases ls) auto
qed simp

lemma lines_of_snoc: "lines_of (s @ [10]) = lines_of s @ [[]]"
  by (induction s) auto

lemma last_lines_of: "s \<noteq> [] \<Longrightarrow> last s \<noteq> 10 \<Longrightarrow> last (lines_of s) \<noteq> []"
proof (induction s)
  case (Cons c s)
  obtain l ls where "lines_of s = l # ls" by (metis lines_of_not_empty list.exhaust)
  with Cons show ?case by (cases "s = []") (auto split: if_splits)
qed simp

lemma splitlines_aux_step:
  "(is_py_linebreak c \<longrightarrow> c = 10) \<Longrightarrow>
     splitlines_aux cur (c # s) = (if c = 10 then rev cur # splitlines_aux [] s else splitlines_aux (c # cur) s)"
  by (cases s) (auto simp: is_py_linebreak_def)

lemma splitlines_aux_lines_of:
  "\<forall>c \<in> set s. is_py_linebreak c \<longrightarrow> c = 10 \<Longrightarrow>
     splitlines_aux cur s =
       (let ls = (rev cur @ hd (lines_of s)) # tl (lines_of s)
        in if last ls = [] then butlast ls else ls)"
proof (induction s arbitrary: cur)
  case (Cons c s)
  obtain l ls where "lines_of s = l # ls" by (metis lines_of_not_empty list.exhaust)
  with Cons show ?case by (simp add: splitlines_aux_step Let_def)
qed simp

lemma splitlines_lines_of:
  assumes "\<forall>c \<in> set s. is_py_linebreak c \<longrightarrow> c = 10" and "s \<noteq> []" and "last s \<noteq> 10"
  shows "splitlines s = lines_of s"
  using splitlines_aux_lines_of [OF assms(1), of "[]"] last_lines_of [OF assms(2,3)]
  by (simp add: splitlines_def Let_def)

section \<open>Escaping\<close>

abbreviation escaped :: "pystr \<Rightarrow> pystr" where
  "escaped \<equiv> str_replace triple_quote escaped_triple_quote"

lemma escaped_triple: "escaped (34 # 34 # 34 # s) = 92 # 34 # 34 # 34 # escaped s"
  by (simp add: str_replace.simps(2) triple_quote_def escaped_triple_quote_def)

lemma escaped_other:
  "\<not> startswith (c # s) triple_quote \<Longrightarrow> escaped (c # s) = c # escaped s"
  by (simp add: str_replace.simps(2))

lemma startswith_triple:
  "startswith s triple_quote \<longleftrightarrow> (\<exists>t. s = 34 # 34 # 34 # t)"
  by (auto simp: triple_quote_def startswith_take numeral_3_eq_3 take_Suc_conv_app_nth)
    (metis append_eq_Cons_conv append_take_drop_id Cons_eq_appendI)

lemma escaped_induct [case_names Nil triple other]:
  assumes "P []" and "\<And>s. P s \<Longrightarrow> P (34 # 34 # 34 # s)"
    and "\<And>c s. P s \<Longrightarrow> \<not> startswith (c # s) triple_quote \<Longrightarrow> P (c # s)"
  shows "P s"
proof (induction s rule: length_induct)
  case (1 s)
  show ?case
  proof (cases s)
    case (Cons c t)
    show ?thesis
    proof (cases "startswith s triple_quote")
      case True
      then obtain u where "s = 34 # 34 # 34 # u" by (auto simp: startswith_triple)
      with 1 assms(2) show ?thesis by simp
    qed (use 1 assms(3) Cons in simp)
  qed (simp add: assms(1))
qed

lemma escaped_set: "c \<noteq> 92 \<Longrightarrow> c \<in> set (escaped s) \<longleftrightarrow> c \<in> set s"
  by (induction s rule: escaped_induct) (simp_all add: escaped_triple escaped_other)

lemma escaped_eq_Nil: "escaped s = [] \<longleftrightarrow> s = []"
  by (induction s rule: escaped_induct) (simp_all add: escaped_triple escaped_other)

lemma last_escaped: "s \<noteq> [] \<Longrightarrow> last (escaped s) = last s"
  by (induction s rule: escaped_induct)
    (simp_all add: escaped_triple escaped_other escaped_eq_Nil)

lemma escaped_snoc: "c \<noteq> 34 \<Longrightarrow> escaped (s @ [c]) = escaped s @ [c]"
proof (induction s rule: escaped_induct)
  case (other d s)
  then have "\<not> startswith (d # s @ [c]) triple_quote"
    by (cases s; cases "tl s") (auto simp: startswith_triple)
  with other show ?case by (simp add: escaped_other)
qed (simp_all add: escaped_triple escaped_other startswith_triple)

section \<open>Indentation\<close>

definition indented :: "pystr \<Rightarrow> pystr" where
  "indented s = concat (map (\<lambda>c. if c = 10 then [10, 32, 32] else [c]) s)"

lemma indented_simps [simp]:
  "indented [] = []" "indented (s @ t) = indented s @ indented t"
  "indented (c # s) = (if c = 10 then [10, 32, 32] else [c]) @ indented s"
  by (simp_all add: indented_def)

lemma hd_indented: "s \<noteq> [] \<Longrightarrow> indented s \<noteq> [] \<and> hd (indented s) = hd s"
  by (cases s) auto

lemma indented_id: "10 \<notin> set s \<Longrightarrow> indented s = s"
  by (induction s) auto

lemma startswith_indented:
  "startswith (indented s) triple_quote \<longleftrightarrow> startswith s triple_quote"
proof -
  have "startswith (indented s) (replicate n 34) \<longleftrightarrow> startswith s (replicate n 34)" for n
    by (induction s arbitrary: n; case_tac n) auto
  from this [of 3] show ?thesis by (simp add: triple_quote_def numeral_3_eq_3)
qed

lemma escaped_indented: "escaped (indented s) = indented (escaped s)"
proof (induction s rule: escaped_induct)
  case (other c s)
  show ?case
  proof (cases "c = 10")
    case True
    with other show ?thesis by (simp add: escaped_other startswith_triple)
  next
    case False
    with other startswith_indented [of "c # s"] show ?thesis by (simp add: escaped_other)
  qed
qed (simp_all add: escaped_triple)

lemma lines_of_indented:
  "lines_of (indented s) = hd (lines_of s) # map (\<lambda>l. 32 # 32 # l) (tl (lines_of s))"
proof (induction s)
  case (Cons c s)
  then show ?case by (cases "lines_of s") auto
qed simp

definition pad :: "nat \<Rightarrow> pystr" where
  "pad n = replicate (2 * n) 32"

lemma lines_of_indented_funpow:
  "lines_of ((indented ^^ n) s) = hd (lines_of s) # map (\<lambda>l. pad n @ l) (tl (lines_of s))"
proof (induction n)
  case (Suc n)
  have "lines_of ((indented ^^ Suc n) s) = lines_of (indented ((indented ^^ n) s))" by simp
  also have "\<dots> = hd (lines_of s) # map (\<lambda>l. pad (Suc n) @ l) (tl (lines_of s))"
    unfolding lines_of_indented Suc by (simp add: pad_def)
  finally show ?case .
qed (simp add: pad_def)

lemma escaped_indented_funpow: "(indented ^^ n) (escaped s) = escaped ((indented ^^ n) s)"
  by (induction n) (simp_all add: escaped_indented)

lemma set_indented_funpow: "set ((indented ^^ n) s) \<subseteq> set s \<union> {10, 32}"
  by (induction n) (auto simp: indented_def split: if_splits)

section \<open>Reading the lines\<close>

text \<open>What stands behind the escaped text does not make a quotation mark of it special.\<close>

definition ends_escaped :: "pystr \<Rightarrow> pystr \<Rightarrow> bool" where
  "ends_escaped u rest \<longleftrightarrow> (rest \<noteq> [] \<and> hd rest = 34 \<longrightarrow> u = [] \<or> last u \<noteq> 34 \<and> last u \<noteq> 92)"

lemma ends_escaped_tl: "ends_escaped (c # u) rest \<Longrightarrow> ends_escaped u rest"
  by (auto simp: ends_escaped_def split: if_splits)

lemma escaped_append_quotes:
  assumes "\<not> startswith u triple_quote" and "ends_escaped u rest" and "u \<noteq> []"
  shows "\<not> startswith (escaped u @ rest) triple_quote"
proof
  assume "startswith (escaped u @ rest) triple_quote"
  then obtain t where t: "escaped u @ rest = 34 # 34 # 34 # t" by (auto simp: startswith_triple)
  from assms(3) obtain c v where u: "u = c # v" by (cases u) auto
  with t assms(1) have c: "c = 34" and v: "escaped v @ rest = 34 # 34 # t"
    by (auto simp: escaped_other)
  have "v \<noteq> []" using v u c assms(2) by (auto simp: ends_escaped_def)
  then obtain d w where vd: "v = d # w" by (cases v) auto
  have "\<not> startswith v triple_quote" using assms(1) u c by (auto simp: startswith_triple)
  with v vd have d: "d = 34" and w: "escaped w @ rest = 34 # t" by (auto simp: escaped_other)
  have "w \<noteq> []" using w u c vd d assms(2) by (auto simp: ends_escaped_def)
  then obtain e x where we: "w = e # x" by (cases w) auto
  have "\<not> startswith w triple_quote" using w by (auto simp: startswith_triple escaped_triple)
  with w we have "e = 34" by (auto simp: escaped_other)
  with u c vd d we assms(1) show False by (simp add: startswith_triple)
qed

lemma slice_triple:
  assumes "drop i body = c # t"
  shows "slice body (i + 1) (i + 4) = [34, 34, 34] \<longleftrightarrow> startswith t triple_quote"
    and "c = 34 \<and> slice body (i + 1) (i + 3) = [34, 34] \<longleftrightarrow> startswith (c # t) triple_quote"
  using assms
  by (auto simp: slice_def startswith_take triple_quote_def drop_Cons_iff numeral_2_eq_2 numeral_3_eq_3)

lemma read_block_string_loop_complete:
  assumes "drop i body = escaped u @ rest" and "\<forall>c \<in> set u. is_unicode_scalar_value c \<and> c \<noteq> 13"
    and "ends_escaped u rest" and "rest = 34 # 34 # 34 # s" and "j \<le> i"
  shows "\<exists>ls'. read_block_string_loop body i j cur bls ls = Inr
    (bls @ (cur @ slice body j i @ hd (lines_of u)) # tl (lines_of u), i + length (escaped u) + 3, ls')"
  using assms
proof (induction u arbitrary: i j cur bls ls rule: escaped_induct)
  case Nil
  then have "i < length body" "drop i body = 34 # 34 # 34 # s" by (auto simp: drop_Cons_iff)
  moreover from slice_triple(2) [OF this(2)] have "slice body (i + 1) (i + 3) = [34, 34]"
    "body ! i = 34"
    using calculation by (auto simp: startswith_triple drop_Cons_iff)
  ultimately show ?case by (subst read_block_string_loop.simps) simp
next
  case (triple u)
  then have d: "drop i body = 92 # 34 # 34 # 34 # escaped u @ rest" by (simp add: escaped_triple)
  then have i: "i < length body" "body ! i = 92" "drop (i + 4) body = escaped u @ rest"
    by (auto simp: drop_Cons_iff numeral_eq_Suc)
  have sl: "slice body (i + 1) (i + 4) = [34, 34, 34]"
    using slice_triple(1) [OF d] by (simp add: startswith_triple)
  have "ends_escaped u rest" using triple.prems(3) by (auto dest: ends_escaped_tl)
  from triple.IH [OF i(3) _ this triple.prems(4), of "i + 1" "cur @ slice body j i" bls ls]
    triple.prems(2) sl i
  show ?case
    by (subst read_block_string_loop.simps) (simp add: escaped_triple Let_def)
next
  case (other c u)
  then have d: "drop i body = c # escaped u @ rest" by (simp add: escaped_other)
  then have i: "i < length body" "body ! i = c" "drop (i + 1) body = escaped u @ rest"
    by (auto simp: drop_Cons_iff)
  note ends = ends_escaped_tl [OF other.prems(3)]
  have 1: "\<not> (c = 34 \<and> slice body (i + 1) (i + 3) = [34, 34])"
    using slice_triple(2) [OF d] escaped_append_quotes [OF other.hyps other.prems(3)]
    by (simp add: escaped_other [OF other.hyps])
  have 2: "\<not> (c = 92 \<and> slice body (i + 1) (i + 4) = [34, 34, 34])"
  proof (cases "u = []")
    case True
    with other.prems(3,4) show ?thesis by (auto simp: ends_escaped_def)
  next
    case False
    show ?thesis
    proof (cases "startswith u triple_quote")
      case True
      then show ?thesis using slice_triple(1) [OF d] by (auto simp: startswith_triple escaped_triple)
    next
      case nt: False
      then show ?thesis using slice_triple(1) [OF d] escaped_append_quotes [OF nt ends False] by simp
    qed
  qed
  have c: "is_unicode_scalar_value c" "c \<noteq> 13" using other.prems(2) by auto
  show ?case
  proof (cases "c = 10")
    case True
    with other.IH [OF i(3) _ ends other.prems(4) le_refl, of "[]" "bls @ [cur @ slice body j i]" "i + 1"]
      other.prems(2) i escaped_other [OF other.hyps]
    show ?thesis
      by (subst read_block_string_loop.simps) (simp add: Let_def)
  next
    case False
    have "slice body j (Suc i) = slice body j i @ [c]"
      using i other.prems(5) by (auto simp: slice_Suc)
    with other.IH [OF i(3) _ ends other.prems(4), of j cur bls ls] other.prems(2,5) i 1 2 c False
    show ?thesis
      by (subst read_block_string_loop.simps) (auto simp: escaped_other [OF other.hyps] Let_def)
  qed
qed

section \<open>Removing the common indentation\<close>

definition blank :: "pystr \<Rightarrow> bool" where
  "blank l \<longleftrightarrow> leading_white_space l = length l"

definition unindented :: "pystr \<Rightarrow> bool" where
  "unindented l \<longleftrightarrow> l \<noteq> [] \<and> \<not> is_white (hd l)"

lemma blank_simps [simp]: "blank []" "blank (pad n)" "blank (pad n @ l) \<longleftrightarrow> blank l"
proof -
  have *: "blank (replicate k 32 @ l) \<longleftrightarrow> blank l" for k l
    by (induction k) (auto simp: blank_def is_white_def)
  show "blank []" by (simp add: blank_def)
  then show "blank (pad n)" "blank (pad n @ l) \<longleftrightarrow> blank l"
    using * [of "2 * n" "[]"] * [of "2 * n" l] by (simp_all add: pad_def)
qed

lemma blank_Cons: "blank (c # l) \<longleftrightarrow> is_white c \<and> blank l"
  by (auto simp: blank_def)

lemma leading_white_space_pad: "leading_white_space (pad n @ l) = 2 * n + leading_white_space l"
proof -
  have "leading_white_space (replicate k 32 @ l) = k + leading_white_space l" for k
    by (induction k) (auto simp: is_white_def)
  then show ?thesis by (simp add: pad_def)
qed

lemma unindented_lws: "unindented l \<Longrightarrow> \<not> blank l \<and> leading_white_space l = 0"
  by (cases l) (auto simp: unindented_def blank_def)

lemma dedent_scan_append:
  "dedent_scan i (xs @ ys) c f l =
     (case dedent_scan i xs c f l of (c', f', l') \<Rightarrow> dedent_scan (i + length xs) ys c' f' l')"
  by (induction i xs c f l rule: dedent_scan.induct) (auto simp: Let_def)

lemma dedent_scan_blank: "\<forall>l \<in> set ls. blank l \<Longrightarrow> dedent_scan i ls c f l' = (c, f, l')"
  by (induction ls arbitrary: i) (auto simp: blank_def)

text \<open>The common indentation of the lines behind the first.\<close>

lemma dedent_scan_common:
  "0 < i \<Longrightarrow> \<forall>l \<in> set ls. k \<le> leading_white_space l \<or> blank l \<Longrightarrow>
     c = k \<or> k < c \<and> (\<exists>l \<in> set ls. \<not> blank l \<and> leading_white_space l = k) \<Longrightarrow>
     fst (dedent_scan i ls c f l') = k"
proof (induction ls arbitrary: i c f l')
  case (Cons l ls)
  let ?c = "if blank l then c else min (leading_white_space l) c"
  from Cons.prems(2,3)
  have "?c = k \<or> k < ?c \<and> (\<exists>l \<in> set ls. \<not> blank l \<and> leading_white_space l = k)"
    by (auto simp: min_def)
  with Cons.IH [of "Suc i" ?c] Cons.prems(1,2) show ?case
    by (auto simp: Let_def blank_def min_def split: if_splits)
qed simp

lemma dedent_scan_first: "fst (snd (dedent_scan i ls c (Some f) l)) = Some f"
  by (induction ls arbitrary: i c l) (auto simp: Let_def)

lemma dedent_scan_last:
  assumes "ls \<noteq> []" and "\<not> blank (last ls)"
  shows "snd (snd (dedent_scan i ls c f l)) = int (i + length ls - 1)"
proof -
  obtain xs x where ls: "ls = xs @ [x]" using assms(1) by (metis append_butlast_last_id)
  with assms(2) show ?thesis
    by (auto simp: dedent_scan_append Let_def blank_def split: prod.split)
qed

lemma dedent_scan_text:
  assumes "ls \<noteq> []" and "\<not> blank (hd ls)" and "\<not> blank (last ls)"
    and "\<forall>l \<in> set zs. blank l"
  shows "dedent_scan i (ls @ zs) c None l =
    (fst (dedent_scan i ls c None l), Some i, int (i + length ls - 1))"
proof -
  have "fst (snd (dedent_scan i ls c None l)) = Some i"
    using assms(1,2) dedent_scan_first by (cases ls) (auto simp: Let_def blank_def)
  with dedent_scan_last [OF assms(1,3), of i c None l] show ?thesis
    by (cases "dedent_scan i ls c None l") (simp add: dedent_scan_append dedent_scan_blank [OF assms(4)])
qed

text \<open>Lines below a blank first line lose their indentation, blank lines around them disappear.\<close>

lemma dedent_indented:
  assumes "ls \<noteq> []" and "\<not> blank (hd ls)" and "\<not> blank (last ls)" and "\<exists>l \<in> set ls. unindented l"
    and "\<forall>l \<in> set zs. blank l" and "2 * n < maxsize"
  shows "dedent_block_string_lines ([] # map (\<lambda>l. pad n @ l) ls @ zs) = ls"
proof -
  let ?ls = "map (\<lambda>l. pad n @ l) ls"
  from assms(4) obtain l where "l \<in> set ls" "unindented l" by auto
  then have "\<exists>l \<in> set ?ls. \<not> blank l \<and> leading_white_space l = 2 * n"
    using unindented_lws [of l] by (auto simp: leading_white_space_pad)
  then have "fst (dedent_scan 1 ?ls maxsize None (- 1)) = 2 * n"
    using assms(6) by (intro dedent_scan_common) (auto simp: leading_white_space_pad)
  with dedent_scan_text [of ?ls zs 1 maxsize "- 1"] assms
  have "dedent_scan 0 ([] # ?ls @ zs) maxsize None (- 1) = (2 * n, Some 1, int (length ls))"
    by (simp add: hd_map last_map Let_def)
  moreover have "map (\<lambda>(i, line). if i > 0 then drop (2 * n) line else line) (enumerate 1 ?ls) = ls"
    by (intro nth_equalityI) (auto simp: nth_enumerate_eq pad_def)
  ultimately show ?thesis
    by (simp add: dedent_block_string_lines_def slice_def enumerate_append_eq)
qed

lemma dedent_single:
  assumes "\<not> blank l \<or> l = []" and "\<forall>l \<in> set zs. blank l"
  shows "str_join [10] (dedent_block_string_lines (l # zs)) = l"
proof (cases "l = []")
  case True
  with assms dedent_scan_blank [of "l # zs" 0 maxsize None "- 1"] show ?thesis
    by (simp add: dedent_block_string_lines_def slice_def del: dedent_scan.simps)
next
  case False
  with assms dedent_scan_text [of "[l]" zs 0 maxsize "- 1"] show ?thesis
    by (cases "dedent_scan 0 [l] maxsize None (- 1)")
      (simp add: dedent_block_string_lines_def slice_def del: dedent_scan.simps)
qed

section \<open>The check of the printer\<close>

text \<open>The values of block strings that the printer accepts and Python's line breaks leave whole.\<close>

definition block_value_ok :: "pystr \<Rightarrow> bool" where
  "block_value_ok v \<longleftrightarrow> is_printable_as_block_string v \<and> is_scalar_text v
     \<and> (\<forall>c \<in> set v. is_py_linebreak c \<longrightarrow> c = 10)"

lemma printable_scan_lines:
  assumes "printable_scan s e h c n" and "c \<and> \<not> e \<longrightarrow> h"
  shows "\<not> blank (last (lines_of s)) \<or> (\<not> e \<and> length (lines_of s) = 1)"
    and "e \<and> \<not> n \<longrightarrow> \<not> blank (hd (lines_of s))"
    and "c \<and> (n \<or> length (lines_of s) \<noteq> 1) \<longrightarrow>
      (\<exists>l \<in> set (tl (lines_of s)). unindented l) \<or> (e \<and> \<not> h \<and> unindented (hd (lines_of s)))"
proof -
  have "(\<not> blank (last (lines_of s)) \<or> (\<not> e \<and> length (lines_of s) = 1))
    \<and> (e \<and> \<not> n \<longrightarrow> \<not> blank (hd (lines_of s)))
    \<and> (c \<and> (n \<or> length (lines_of s) \<noteq> 1) \<longrightarrow>
      (\<exists>l \<in> set (tl (lines_of s)). unindented l) \<or> (e \<and> \<not> h \<and> unindented (hd (lines_of s))))"
    using assms
  proof (induction s arbitrary: e h c n)
    case Nil
    then show ?case by (auto split: if_splits)
  next
    case (Cons d s)
    obtain l ls where ls: "lines_of s = l # ls" by (metis lines_of_not_empty list.exhaust)
    show ?case
    proof (cases "d = 10")
      case True
      with Cons.prems Cons.IH [of True False c True] ls show ?thesis
        by (auto simp: unindented_def split: if_splits)
    next
      case nl: False
      show ?thesis
      proof (cases "is_white d")
        case True
        with nl Cons.prems Cons.IH [of e "h \<or> e" c n] ls show ?thesis
          by (cases "ls = []"; cases c; cases h; cases e; cases n)
            (simp_all add: unindented_def blank_Cons)
      next
        case False
        with nl Cons.prems have "d > 15" "printable_scan s False h (c \<and> h) n"
          by (auto split: if_splits)
        with False nl Cons.prems(2) Cons.IH [of False h "c \<and> h" n] ls show ?thesis
          by (cases "ls = []"; cases c; cases h; cases e; cases n)
            (simp_all add: unindented_def blank_Cons)
      qed
    qed
  qed
  then show "\<not> blank (last (lines_of s)) \<or> (\<not> e \<and> length (lines_of s) = 1)"
    and "e \<and> \<not> n \<longrightarrow> \<not> blank (hd (lines_of s))"
    and "c \<and> (n \<or> length (lines_of s) \<noteq> 1) \<longrightarrow>
      (\<exists>l \<in> set (tl (lines_of s)). unindented l) \<or> (e \<and> \<not> h \<and> unindented (hd (lines_of s)))"
    by blast+
qed

lemma printable_lines:
  assumes "is_printable_as_block_string v" and "v \<noteq> []"
  shows "\<not> blank (hd (lines_of v))" and "\<not> blank (last (lines_of v))"
    and "10 \<in> set v \<Longrightarrow> \<exists>l \<in> set (lines_of v). unindented l"
proof -
  from assms have s: "printable_scan v True False True False"
    by (simp add: is_printable_as_block_string_def)
  note * = printable_scan_lines [OF s]
  from * show "\<not> blank (hd (lines_of v))" "\<not> blank (last (lines_of v))" by auto
  assume "10 \<in> set v"
  then have "length (lines_of v) \<noteq> 1" using length_lines_of [of v] by simp
  with *(3) show "\<exists>l \<in> set (lines_of v). unindented l"
    by (cases "lines_of v") auto
qed

text \<open>How the printer writes such a value.\<close>

lemma print_block_string_form:
  assumes "block_value_ok v"
  obtains bef aft where "print_block_string v False = triple_quote @ bef @ escaped v @ aft @ triple_quote"
    and "bef = [] \<or> bef = [10]" and "aft = [] \<or> aft = [10]"
    and "bef = [] \<Longrightarrow> 10 \<notin> set v"
    and "bef = [10] \<Longrightarrow> v \<noteq> [] \<and> (10 \<notin> set v \<longrightarrow> \<not> is_white (hd v))"
    and "aft = [] \<Longrightarrow> v = [] \<or> last v \<noteq> 34 \<and> last v \<noteq> 92"
proof (cases "v = []")
  case True
  then show ?thesis
    by (intro that [of "[]" "[]"])
      (simp_all add: print_block_string_def triple_quote_def escaped_triple_quote_def
        splitlines_def endswith_def)
next
  case False
  have v: "is_printable_as_block_string v" "\<forall>c \<in> set v. is_py_linebreak c \<longrightarrow> c = 10"
    using assms by (auto simp: block_value_ok_def)
  have "last v \<noteq> 10"
  proof
    assume "last v = 10"
    with False obtain u where "v = u @ [10]" by (metis append_butlast_last_id)
    with printable_lines(2) [OF v(1) False] show False by (simp add: lines_of_snoc)
  qed
  then have lines: "splitlines (escaped v) = lines_of (escaped v)"
    using v(2) False escaped_set [of _ v]
    by (intro splitlines_lines_of) (auto simp: last_escaped escaped_eq_Nil is_py_linebreak_def)
  have single: "length (lines_of (escaped v)) = 1 \<longleftrightarrow> 10 \<notin> set v"
    using length_lines_of [of "escaped v"] by (simp add: escaped_set)
  have ends: "endswith s [c] \<longleftrightarrow> s \<noteq> [] \<and> last s = c" for s c
    by (cases s rule: rev_cases) (auto simp: endswith_def)
  show ?thesis
  proof (rule that [OF print_block_string_def [of v False, unfolded Let_def lines]])
  qed (use single False in \<open>auto simp: ends split: if_splits\<close>)
qed

text \<open>The lines that the lexer finds in the printed text, at any depth.\<close>

lemma dedent_printed:
  assumes "block_value_ok v" and "bef = [] \<or> bef = [10]" and "aft = [] \<or> aft = [10]"
    and "bef = [] \<Longrightarrow> 10 \<notin> set v"
    and "bef = [10] \<Longrightarrow> v \<noteq> [] \<and> (10 \<notin> set v \<longrightarrow> \<not> is_white (hd v))"
    and "2 * n < maxsize"
  shows "str_join [10] (dedent_block_string_lines (lines_of ((indented ^^ n) (bef @ v @ aft)))) = v"
proof -
  define zs where "zs = (if aft = [] then [] else [[] :: uchar list])"
  have lines: "lines_of (v @ aft) = lines_of v @ zs"
    using assms(3) by (auto simp: zs_def lines_of_snoc)
  have zs: "\<forall>z \<in> set (map (\<lambda>l. pad n @ l) zs). blank z" using blank_simps(2) by (simp add: zs_def)
  have v: "is_printable_as_block_string v" using assms(1) by (simp add: block_value_ok_def)
  show ?thesis
  proof (cases "bef = []")
    case True
    with assms(4) have one: "lines_of v = [v]" by (simp add: lines_of_single)
    with printable_lines(1) [OF v] have "\<not> blank v \<or> v = []" by auto
    from dedent_single [OF this zs] True one lines show ?thesis
      by (simp add: lines_of_indented_funpow)
  next
    case False
    with assms(2,5) have b: "bef = [10]" and ne: "v \<noteq> []" and w: "10 \<notin> set v \<longrightarrow> \<not> is_white (hd v)"
      by auto
    have "\<exists>l \<in> set (lines_of v). unindented l"
    proof (cases "10 \<in> set v")
      case True
      then show ?thesis using printable_lines(3) [OF v ne] by simp
    next
      case False
      with w ne show ?thesis by (simp add: lines_of_single unindented_def)
    qed
    from dedent_indented [OF lines_of_not_empty printable_lines(1,2) [OF v ne] this zs assms(6)]
    show ?thesis by (simp add: b lines lines_of_indented_funpow str_join_lines_of)
  qed
qed

text \<open>The text of a block string at depth \<open>n\<close>, and what the lexer reads there.\<close>

definition block_text :: "nat \<Rightarrow> pystr \<Rightarrow> pystr" where
  "block_text n v = (indented ^^ n) (print_block_string v False)"

lemma block_text_indented: "indented (block_text n v) = block_text (Suc n) v"
  by (simp add: block_text_def)

lemma indented_funpow_append: "(indented ^^ n) (s @ t) = (indented ^^ n) s @ (indented ^^ n) t"
  by (induction n) simp_all

lemma indented_funpow_id: "10 \<notin> set s \<Longrightarrow> (indented ^^ n) s = s"
  by (induction n) (simp_all add: indented_id)

lemma length_indented_funpow: "10 \<in> set s \<Longrightarrow> 2 * n < length ((indented ^^ n) s)"
proof (induction n)
  case 0
  then show ?case by (cases s) auto
next
  case (Suc n)
  have "10 \<in> set ((indented ^^ n) s)" using Suc.prems
    by (induction n) (auto simp: indented_def)
  moreover have "length t + 2 \<le> length (indented t)" if "10 \<in> set t" for t
  proof -
    have "length t \<le> length (indented t)" for t by (induction t) auto
    from that this show ?thesis by (induction t) auto
  qed
  ultimately show ?case using Suc by fastforce
qed

lemma triple_no_line_feed: "10 \<notin> set triple_quote"
  by (simp add: triple_quote_def)

lemma block_text_form:
  assumes "block_value_ok v"
  obtains bef aft where "block_text n v = triple_quote @ escaped ((indented ^^ n) (bef @ v @ aft)) @ triple_quote"
    and "str_join [10] (dedent_block_string_lines (lines_of ((indented ^^ n) (bef @ v @ aft)))) = v
      \<or> maxsize \<le> length (block_text n v)"
    and "ends_escaped ((indented ^^ n) (bef @ v @ aft)) (34 # s)"
    and "\<forall>c \<in> set ((indented ^^ n) (bef @ v @ aft)). is_unicode_scalar_value c \<and> c \<noteq> 13"
proof -
  from print_block_string_form [OF assms] obtain bef aft where
    p: "print_block_string v False = triple_quote @ bef @ escaped v @ aft @ triple_quote"
    and ba: "bef = [] \<or> bef = [10]" "aft = [] \<or> aft = [10]" "bef = [] \<Longrightarrow> 10 \<notin> set v"
      "bef = [10] \<Longrightarrow> v \<noteq> [] \<and> (10 \<notin> set v \<longrightarrow> \<not> is_white (hd v))"
    and q: "aft = [] \<Longrightarrow> v = [] \<or> last v \<noteq> 34 \<and> last v \<noteq> 92" by blast
  let ?u = "bef @ v @ aft"
  have "escaped (10 # s) = 10 # escaped s" for s by (simp add: escaped_other startswith_triple)
  then have "bef @ escaped v @ aft = escaped ?u"
    using ba(1,2) escaped_snoc [of 10 v] by (auto simp flip: append_assoc)
  with p have "print_block_string v False = triple_quote @ escaped ?u @ triple_quote" by simp
  then have t: "block_text n v = triple_quote @ escaped ((indented ^^ n) ?u) @ triple_quote"
    using indented_funpow_id [of triple_quote n]
    by (simp add: block_text_def indented_funpow_append escaped_indented_funpow triple_no_line_feed
        del: append_assoc)
  moreover have "str_join [10] (dedent_block_string_lines (lines_of ((indented ^^ n) ?u))) = v
      \<or> maxsize \<le> length (block_text n v)"
  proof (cases "2 * n < maxsize \<or> 10 \<notin> set ?u")
    case True
    then show ?thesis
    proof
      assume "2 * n < maxsize"
      with dedent_printed [OF assms ba] show ?thesis by simp
    next
      assume "10 \<notin> set ?u"
      with dedent_printed [OF assms ba, of 0] indented_funpow_id [of ?u n] show ?thesis
        by (simp add: maxsize_def)
    qed
  next
    case False
    then have "10 \<in> set (escaped ?u)" by (simp add: escaped_set)
    from length_indented_funpow [OF this, of n] False t show ?thesis
      by (simp add: escaped_indented_funpow)
  qed
  moreover have "ends_escaped ((indented ^^ n) ?u) (34 # s)"
  proof (cases ?u rule: rev_cases)
    case Nil
    then show ?thesis using indented_funpow_id [of "[]" n] by (simp add: ends_escaped_def)
  next
    case (snoc w c)
    then have "c = last ?u" "?u \<noteq> []" by simp_all
    then have "c \<noteq> 34 \<and> c \<noteq> 92"
      using ba q by (cases "aft = []"; cases "v = []") (auto split: if_splits)
    moreover have "(indented ^^ n) [c] \<noteq> []" by (induction n) (auto dest: hd_indented)
    moreover from last_in_set [OF this] have "last ((indented ^^ n) [c]) \<in> {c, 10, 32}"
      using set_indented_funpow [of n "[c]"] by (auto dest: subsetD)
    ultimately show ?thesis by (auto simp: ends_escaped_def snoc indented_funpow_append)
  qed
  moreover have "\<forall>c \<in> set ((indented ^^ n) ?u). is_unicode_scalar_value c \<and> c \<noteq> 13"
  proof -
    have "\<forall>c \<in> set v. is_unicode_scalar_value c \<and> c \<noteq> 13"
      using assms by (auto simp: block_value_ok_def is_scalar_text_def is_py_linebreak_def)
    moreover have "is_unicode_scalar_value 10" "is_unicode_scalar_value 32"
      by (simp_all add: is_unicode_scalar_value_def)
    ultimately show ?thesis using set_indented_funpow [of n ?u] ba(1,2) by auto
  qed
  ultimately show ?thesis by (rule that)
qed

lemma read_block_string_complete:
  assumes "block_value_ok v" and "drop i body = block_text n v @ s" and "length body < maxsize"
  shows "\<exists>lp'. read_block_string body lp i
    = Inr (create_token lp BLOCK_STRING i (i + length (block_text n v)) (Some v), lp')"
proof -
  from block_text_form [OF assms(1), of n "34 # 34 # s"] obtain bef aft where
    t: "block_text n v = triple_quote @ escaped ((indented ^^ n) (bef @ v @ aft)) @ triple_quote"
    and d: "str_join [10] (dedent_block_string_lines (lines_of ((indented ^^ n) (bef @ v @ aft)))) = v
      \<or> maxsize \<le> length (block_text n v)"
    and u: "ends_escaped ((indented ^^ n) (bef @ v @ aft)) (34 # 34 # 34 # s)"
      "\<forall>c \<in> set ((indented ^^ n) (bef @ v @ aft)). is_unicode_scalar_value c \<and> c \<noteq> 13" by blast
  let ?u = "(indented ^^ n) (bef @ v @ aft)"
  have "length (block_text n v) < maxsize"
    using arg_cong [OF assms(2), of length] assms(3) by simp
  with d have v: "str_join [10] (dedent_block_string_lines (lines_of ?u)) = v" by simp
  have "drop (i + 3) body = escaped ?u @ 34 # 34 # 34 # s"
    using assms(2) drop_prefix [of i body triple_quote "escaped ?u @ triple_quote @ s"]
    by (simp add: t triple_quote_def numeral_3_eq_3)
  from read_block_string_loop_complete [OF this u(2,1) refl le_refl, of "[]" "[]" "snd lp"]
  obtain ls' where "read_block_string_loop body (i + 3) (i + 3) [] [] (snd lp)
      = Inr (lines_of ?u, i + 3 + length (escaped ?u) + 3, ls')" by auto
  then show ?thesis by (simp add: read_block_string_def v t triple_quote_def add.assoc)
qed

text \<open>What the printer writes is read as the value, whatever stands behind it.\<close>

lemma block_text_start: "\<exists>r. block_text n v = 34 # 34 # 34 # r"
  using indented_funpow_id [OF triple_no_line_feed, of n]
  by (simp add: block_text_def print_block_string_def Let_def indented_funpow_append)
    (simp add: triple_quote_def)

end
