(* ===== verification/Text_Lexing.thy ===== *)
theory Text_Lexing
  imports Block_Lexing
begin

text \<open>
  The lexer is complete: every text of the lexical grammar is read as the token it stands for.
  \<open>token_text k v w\<close> says that \<open>w\<close> is a text for a token of kind \<open>k\<close> with value \<open>v\<close>, and
  \<open>follows k w s\<close> that the text \<open>s\<close> behind it does not continue it.
\<close>

lemma scan_while_drop:
  assumes "drop i body = w @ s" and "\<forall>c \<in> set w. p c" and "s = [] \<or> \<not> p (hd s)" and "i \<le> length body"
  shows "scan_while p body i = i + length w"
proof -
  have "takeWhile p (w @ s) = w" using assms(2,3) by (cases s) (auto simp: takeWhile_append)
  with assms show ?thesis by (simp add: scan_while_takeWhile)
qed

section \<open>Names and numbers\<close>

lemma read_name_complete:
  assumes "drop i body = w @ s" and "is_name w" and "s = [] \<or> \<not> is_name_continue (hd s)"
  shows "read_name body lp i = create_token lp NAME i (i + length w) (Some w)"
proof -
  from assms(2) obtain c v where w: "w = c # v" and v: "\<forall>c \<in> set v. is_name_continue c"
    by (cases w) (auto simp: is_name_def)
  with assms(1) have "drop (Suc i) body = v @ s" "i < length body" by (auto simp: drop_Cons_iff)
  with v assms(3) have "scan_while is_name_continue body (Suc i) = Suc i + length v"
    by (intro scan_while_drop) auto
  then show ?thesis using slice_prefix [OF assms(1)] by (simp add: read_name_def w)
qed

lemma read_digits_complete:
  assumes "drop i body = w @ s" and "is_digits w" and "s = [] \<or> \<not> is_digit (hd s)"
  shows "read_digits body i (char_at body i) = Inr (i + length w)"
proof -
  from assms(2) obtain c v where w: "w = c # v" and v: "is_digit c" "\<forall>c \<in> set v. is_digit c"
    by (cases w) (auto simp: is_digits_def)
  with assms(1) have d: "drop (Suc i) body = v @ s" "i < length body" "body ! i = c"
    by (auto simp: drop_Cons_iff)
  with v assms(3) have "scan_while is_digit body (Suc i) = Suc i + length v"
    by (intro scan_while_drop) auto
  then show ?thesis using d v by (simp add: read_digits_def char_at_def w)
qed

lemma read_integer_part_complete:
  assumes "drop i body = w @ s" and "is_natural w" and "s = [] \<or> \<not> is_digit (hd s)"
  shows "read_integer_part body i (char_at body i) = Inr (i + length w, char_at body (i + length w))"
proof (cases "w = [48]")
  case True
  with assms(1) have "i < length body" "body ! i = 48" "drop (Suc i) body = s"
    by (auto simp: drop_Cons_iff)
  with assms(3) True show ?thesis
    by (auto simp: read_integer_part_def char_at_drop [of body "Suc i"] char_at_def [of body i] Let_def
        split: list.split)
next
  case False
  with assms(2) have w: "is_digits w" "hd w \<noteq> 48" "w \<noteq> []" by (auto simp: is_natural_def is_digits_def)
  with assms(1) have "char_at body i \<noteq> Some 48"
    by (cases w) (auto simp: char_at_drop split: list.splits)
  with read_digits_complete [OF assms(1) w(1) assms(3)] show ?thesis
    by (simp add: read_integer_part_def)
qed

lemma read_fraction_complete:
  assumes "drop i body = w @ s" and "w = [] \<and> (s = [] \<or> hd s \<noteq> 46) \<or> is_fraction w"
    and "s = [] \<or> \<not> is_digit (hd s)"
  shows "read_fraction body i (char_at body i) False
    = Inr (w \<noteq> [], i + length w, char_at body (i + length w))"
proof (cases "w = []")
  case True
  with assms show ?thesis
    by (auto simp: read_fraction_def char_at_drop is_fraction_def split: list.split)
next
  case False
  with assms(2) obtain ds where w: "w = 46 # ds" "is_digits ds"
    by (cases w) (auto simp: is_fraction_def)
  with assms(1) have d: "i < length body" "body ! i = 46" "drop (Suc i) body = ds @ s"
    by (auto simp: drop_Cons_iff)
  from read_digits_complete [OF d(3) w(2) assms(3)] d w show ?thesis
    by (simp add: read_fraction_def char_at_def [of body i])
qed

lemma read_exponent_complete:
  assumes "drop i body = w @ s" and "w = [] \<and> (s = [] \<or> hd s \<notin> {69, 101}) \<or> is_exponent w"
    and "s = [] \<or> \<not> is_digit (hd s)"
  shows "read_exponent body i (char_at body i) fl
    = Inr (fl \<or> w \<noteq> [], i + length w, char_at body (i + length w))"
proof (cases "w = []")
  case True
  with assms show ?thesis
    by (auto simp: read_exponent_def char_at_drop is_exponent_def split: list.split)
next
  case False
  with assms(2) obtain e v where w: "w = e # v" "e \<in> {69, 101}"
    and v: "is_digits v \<or> (v \<noteq> [] \<and> hd v \<in> {43, 45} \<and> is_digits (tl v))"
    by (cases w) (auto simp: is_exponent_def)
  from w assms(1) have d: "i < length body" "body ! i = e" "drop (Suc i) body = v @ s"
    by (auto simp: drop_Cons_iff)
  show ?thesis
  proof (cases "is_digits v")
    case True
    then obtain c u where "v = c # u" "is_digit c" by (cases v) (auto simp: is_digits_def)
    then have "\<not> char_is (\<lambda>c. c = 43 \<or> c = 45) (char_at body (Suc i))"
      using d by (auto simp: char_at_drop is_digit_def)
    with read_digits_complete [OF d(3) True assms(3)] d w show ?thesis
      by (auto simp: read_exponent_def Let_def char_at_def [of body i])
  next
    case False
    with v obtain c ds where v': "v = c # ds" "c \<in> {43, 45}" "is_digits ds" by (cases v) auto
    then have "char_is (\<lambda>c. c = 43 \<or> c = 45) (char_at body (Suc i))"
      "drop (Suc (Suc i)) body = ds @ s"
      using d v' by (auto simp: char_at_def drop_Cons_iff)
    with read_digits_complete [OF this(2) v'(3) assms(3)] d w v' show ?thesis
      by (auto simp: read_exponent_def Let_def char_at_def [of body i])
  qed
qed

text \<open>What may follow a number.\<close>

definition ends_number :: "pystr \<Rightarrow> bool" where
  "ends_number s \<longleftrightarrow> s = [] \<or> (\<not> is_digit (hd s) \<and> hd s \<noteq> 46 \<and> \<not> is_name_start (hd s))"

lemma read_number_complete:
  assumes "drop i body = n @ f @ e @ s" and "is_int_literal n"
    and "f = [] \<or> is_fraction f" and "e = [] \<or> is_exponent e" and "ends_number s"
  shows "read_number body lp i (body ! i)
    = Inr (create_token lp (if f = [] \<and> e = [] then INT' else FLOAT) i
        (i + length (n @ f @ e)) (Some (n @ f @ e)))"
proof -
  define j where "j = (if body ! i = 45 then i + 1 else i)"
  define m where "m = (if body ! i = 45 then tl n else n)"
  have n: "n \<noteq> []" using assms(2) by (auto simp: is_int_literal_def is_natural_def is_digits_def)
  then have i: "i < length body" "body ! i = hd n"
    using assms(1) by (cases n; auto simp: drop_Cons_iff)+
  have nat45: "hd w \<noteq> 45" if "is_natural w" for w
    using that by (cases w) (auto simp: is_natural_def is_digits_def is_digit_def)
  have m: "is_natural m" and ij: "j + length m = i + length n" and "drop j body = m @ f @ e @ s"
    using assms(1,2) n i nat45
    by (auto simp: m_def j_def is_int_literal_def drop_Cons_iff neq_Nil_conv)
  note d = this(3)
  have f: "f = [] \<or> hd f = 46" and e: "e = [] \<or> hd e \<in> {69, 101}"
    using assms(3,4) by (auto simp: is_fraction_def is_exponent_def)
  have nd: "\<not> is_digit 46" "\<not> is_digit 69" "\<not> is_digit 101" by (simp_all add: is_digit_def)
  have e_s: "e @ s = [] \<or> \<not> is_digit (hd (e @ s))" "s = [] \<or> \<not> is_digit (hd s)"
    using e assms(5) nd by (cases e; auto simp: ends_number_def)+
  have f_s: "f @ e @ s = [] \<or> \<not> is_digit (hd (f @ e @ s))"
    using e_s f nd by (cases f) auto
  from read_integer_part_complete [OF d m f_s] have 1:
    "read_integer_part body j (char_at body j) = Inr (i + length n, char_at body (i + length n))"
    by (simp add: ij)
  have d1: "drop (i + length n) body = f @ e @ s" using drop_prefix [OF assms(1)] by simp
  have "f = [] \<and> (e @ s = [] \<or> hd (e @ s) \<noteq> 46) \<or> is_fraction f"
    using assms(3,5) e by (cases e) (auto simp: ends_number_def)
  from read_fraction_complete [OF d1 this e_s(1)] have 2:
    "read_fraction body (i + length n) (char_at body (i + length n)) False
      = Inr (f \<noteq> [], i + length n + length f, char_at body (i + length n + length f))" .
  have d2: "drop (i + length n + length f) body = e @ s" using drop_prefix [OF d1] by simp
  have "e = [] \<and> (s = [] \<or> hd s \<notin> {69, 101}) \<or> is_exponent e"
    using assms(4,5) by (auto simp: ends_number_def is_name_start_def is_letter_def)
  note 3 = read_exponent_complete [OF d2 this e_s(2), of "f \<noteq> []"]
  have "drop (i + length n + length f + length e) body = s" using drop_prefix [OF d2] by simp
  then have 4: "\<not> char_is (\<lambda>c. c = 46 \<or> is_name_start c) (char_at body (i + length n + length f + length e))"
    using assms(5) by (auto simp: char_at_drop ends_number_def split: list.split)
  have "(if Some (body ! i) = Some 45 then (i + 1, char_at body (i + 1))
      else (i, Some (body ! i))) = (j, char_at body j)"
    using i(1) by (simp add: j_def char_at_Some) (simp add: char_at_def)
  moreover have "slice body i (i + length n + length f + length e) = n @ f @ e"
    using slice_prefix [of i body "n @ f @ e" s] assms(1) by (simp add: add.assoc)
  ultimately show ?thesis
    using 1 2 3 4 by (simp add: read_number_def add.assoc)
qed

section \<open>Strings\<close>

lemma format_04X_byte:
  assumes "c < 256"
  shows "format_04X c = [48, 48, hex_digit_upper (c div 16), hex_digit_upper (c mod 16)]"
proof -
  have one: "hex_digits_upper n = [hex_digit_upper n]" if "n < 16" for n
    using that by (simp add: hex_digits_upper.simps)
  have zero: "hex_digit_upper 0 = 48" by (simp add: hex_digit_upper_def)
  show ?thesis
  proof (cases "c < 16")
    case True
    then show ?thesis
      by (simp add: format_04X_def one Let_def zero numeral_3_eq_3)
  next
    case False
    with one [of "c div 16"] assms
    have "hex_digits_upper c = [hex_digit_upper (c div 16), hex_digit_upper (c mod 16)]"
      by (subst hex_digits_upper.simps) simp
    then show ?thesis by (simp add: format_04X_def Let_def numeral_2_eq_2)
  qed
qed

lemma read_hex_digit_upper: "d < 16 \<Longrightarrow> read_hex_digit (hex_digit_upper d) = int d"
  by (simp add: read_hex_digit_def hex_digit_upper_def)

lemma nibble_or: "0 \<le> a \<Longrightarrow> b < 16 \<Longrightarrow> 0 \<le> b \<Longrightarrow> push_bit 4 a OR b = 16 * a + (b :: int)"
  using concat_bit_eq [of 4 b a] by (simp add: concat_bit_def take_bit_int_eq_self
      push_bit_eq_mult or.commute)

lemma read_escape_format:
  assumes "drop i body = [92, 117] @ format_04X c @ s" and "c < 256"
  shows "read_escape body i = Inr ([c], 6)"
proof -
  have suc: "i + 2 = Suc (Suc i)" "i + 3 = Suc (Suc (Suc i))" "i + 4 = Suc (Suc (Suc (Suc i)))"
    "i + 5 = Suc (Suc (Suc (Suc (Suc i))))" by simp_all
  have d: "i + 5 < length body" "char_at body (i + 1) = Some 117" "char_at body (i + 2) = Some 48"
    "body ! (i + 2) = 48" "body ! (i + 3) = 48" "body ! (i + 4) = hex_digit_upper (c div 16)"
    "body ! (i + 5) = hex_digit_upper (c mod 16)"
    unfolding suc using assms by (auto simp: format_04X_byte drop_Cons_iff char_at_def)
  have val: "16 * int (c div 16) + int (c mod 16) = int c" by (simp add: zdiv_int zmod_int)
  have sums: "i + 2 + 1 = i + 3" "i + 2 + 2 = i + 4" "i + 2 + 3 = i + 5" by simp_all
  have h: "read_hex_digit (hex_digit_upper (c div 16)) = int (c div 16)"
    "read_hex_digit (hex_digit_upper (c mod 16)) = int (c mod 16)" "read_hex_digit 48 = 0"
    using assms(2) read_hex_digit_upper [of "c div 16"] read_hex_digit_upper [of "c mod 16"]
    by (auto simp: read_hex_digit_def [of 48])
  have "read_16_bit_hex_code body (i + 2) = Inr (int c)"
    unfolding read_16_bit_hex_code_def sums
    using d h nibble_or [of "int (c div 16)" "int (c mod 16)"] assms(2) val by simp
  with d assms(2) show ?thesis
    by (simp add: read_escape_def read_escaped_unicode_fixed_width_def)
qed

text \<open>Every character is written as itself, or as an escape sequence that reads as the character.\<close>

lemma translate_char_read:
  assumes "drop i body = translate_char c @ s" and "is_unicode_scalar_value c"
  shows "translate_char c = [c] \<and> c \<notin> {10, 13, 34, 92}
    \<or> hd (translate_char c) = 92 \<and> read_escape body i = Inr ([c], length (translate_char c))"
proof (cases "c < 32 \<and> c \<notin> {8, 9, 10, 12, 13} \<or> 127 \<le> c \<and> c \<le> 159")
  case True
  then have t: "translate_char c = [92, 117] @ format_04X c" and "c < 256"
    by (auto simp: translate_char_def escape_sequences_def)
  with assms(1) read_escape_format [of i body c s] show ?thesis
    by (simp add: format_04X_byte)
next
  case False
  have esc: "read_escape body i = Inr ([v], Suc (Suc 0))"
    if "drop i body = 92 # x # s" "ESCAPED_CHARS x = Some v" for x v
  proof -
    have "x \<noteq> 117" using that(2) by (auto simp: ESCAPED_CHARS_def)
    with that show ?thesis
      by (auto simp: read_escape_def read_escaped_character_def char_at_def drop_Cons_iff)
  qed
  have "c \<in> {8, 9, 10, 12, 13, 34, 92} \<or> escape_sequences c = None \<and> c \<notin> {10, 13, 34, 92}"
    using False by (auto simp: escape_sequences_def)
  then show ?thesis
  proof (elim disjE conjE)
    assume "c \<in> {8, 9, 10, 12, 13, 34, 92}"
    with assms(1) show ?thesis
      by (auto simp: translate_char_def escape_sequences_def ESCAPED_CHARS_def intro!: esc)
  qed (simp add: translate_char_def)
qed

lemma read_string_loop_complete:
  assumes "drop i body = concat (map translate_char v) @ 34 # s" and "is_scalar_text v" and "j \<le> i"
    and "i \<le> length body"
  shows "\<exists>cs. read_string_loop body i j chunks = Inr (cs, i + length (concat (map translate_char v)) + 1)
    \<and> concat cs = concat chunks @ slice body j i @ v"
  using assms
proof (induction v arbitrary: i j chunks)
  case Nil
  then show ?case
    by (subst read_string_loop.simps) (auto simp: drop_Cons_iff Let_def)
next
  case (Cons c v)
  have scalar: "is_unicode_scalar_value c" "is_scalar_text v"
    using Cons.prems(2) by (auto simp: is_scalar_text_def)
  have d: "drop i body = translate_char c @ concat (map translate_char v) @ 34 # s"
    using Cons.prems(1) by simp
  note d' = drop_prefix [OF d]
  have "d'' \<noteq> [] \<Longrightarrow> i < length body \<and> body ! i = hd d''" if "drop i body = d'' @ t" for d'' t
    using that by (cases d'') (auto simp: drop_Cons_iff)
  from this [OF d] have i: "i < length body \<and> body ! i = hd (translate_char c)"
    if "translate_char c \<noteq> []" using that by simp
  from translate_char_read [OF d scalar(1)] show ?case
  proof
    assume c: "translate_char c = [c] \<and> c \<notin> {10, 13, 34, 92}"
    with i d' have "i < length body" "body ! i = c"
      "drop (Suc i) body = concat (map translate_char v) @ 34 # s" by auto
    with Cons.IH [OF this(3) scalar(2), of j chunks] Cons.prems(3) c scalar(1) show ?thesis
      by (subst read_string_loop.simps) (auto simp: Let_def slice_Suc)
  next
    assume c: "hd (translate_char c) = 92
      \<and> read_escape body i = Inr ([c], length (translate_char c))"
    let ?n = "length (translate_char c)"
    from c read_escape_size [of body i "[c]" ?n] have "2 \<le> ?n" by simp
    then have "translate_char c \<noteq> []" by auto
    with i c have ib: "i < length body" "body ! i = 92" by auto
    have le: "i + ?n \<le> length body"
      using d Cons.prems(4) by (metis add_le_cancel_left diff_add_inverse le_add1 length_append
          length_drop ordered_cancel_comm_monoid_diff_class.add_diff_inverse)
    from Cons.IH [OF d' scalar(2) le_refl le, of "chunks @ [slice body j i, [c]]"] ib c
    show ?thesis by (subst read_string_loop.simps) (auto simp: Let_def)
  qed
qed

lemma str_join_Nil: "str_join [] xs = concat xs"
  by (induction "[] :: 'a list" xs rule: str_join.induct) auto

lemma read_string_complete:
  assumes "drop i body = print_string v @ s" and "is_scalar_text v"
  shows "read_string body lp i
    = Inr (create_token lp STRING i (i + length (print_string v)) (Some v))"
proof -
  have "drop (Suc i) body = concat (map translate_char v) @ 34 # s" "Suc i \<le> length body"
    using assms(1) by (auto simp: print_string_def drop_Cons_iff)
  from read_string_loop_complete [OF this(1) assms(2) le_refl this(2), of "[]"]
  show ?thesis by (auto simp: read_string_def str_join_Nil print_string_def)
qed

section \<open>Texts of tokens\<close>

type_synonym kv = "token_kind \<times> pystr option"

abbreviation kv :: "token \<Rightarrow> kv" where
  "kv t \<equiv> (tok_kind t, tok_value t)"

inductive token_text :: "kv \<Rightarrow> pystr \<Rightarrow> bool" where
  punct: "KIND_FOR_PUNCT c = Some k \<Longrightarrow> token_text (k, None) [c]"
| spread: "token_text (SPREAD, None) [46, 46, 46]"
| name: "is_name v \<Longrightarrow> token_text (NAME, Some v) v"
| int: "is_int_literal v \<Longrightarrow> token_text (INT', Some v) v"
| float: "is_float_literal v \<Longrightarrow> token_text (FLOAT, Some v) v"
| string: "is_scalar_text v \<Longrightarrow> token_text (STRING, Some v) (print_string v)"
| block: "block_value_ok v \<Longrightarrow> token_text (BLOCK_STRING, Some v) (block_text n v)"

definition follows :: "kv \<Rightarrow> pystr \<Rightarrow> bool" where
  "follows x s \<longleftrightarrow> s = [] \<or>
     (case fst x of NAME \<Rightarrow> \<not> is_name_continue (hd s)
      | INT' \<Rightarrow> ends_number s
      | FLOAT \<Rightarrow> ends_number s
      | STRING \<Rightarrow> hd s \<noteq> 34
      | _ \<Rightarrow> True)"

text \<open>The first characters of the texts.\<close>

lemma number_start: "is_int_literal n \<Longrightarrow> n \<noteq> [] \<and> (is_digit (hd n) \<or> hd n = 45)"
  by (auto simp: is_int_literal_def is_natural_def is_digits_def is_digit_def)

lemma float_start: "is_float_literal n \<Longrightarrow> n \<noteq> [] \<and> (is_digit (hd n) \<or> hd n = 45)"
  by (auto simp: is_float_literal_def dest: number_start)

lemma start_classes:
  "is_digit c \<or> c = 45 \<Longrightarrow> c \<noteq> 35 \<and> c \<noteq> 34 \<and> KIND_FOR_PUNCT c = None \<and> \<not> is_ignored_char c \<and> c \<noteq> 10 \<and> c \<noteq> 13"
  "is_name_start c \<Longrightarrow> c \<noteq> 35 \<and> c \<noteq> 34 \<and> KIND_FOR_PUNCT c = None \<and> \<not> is_digit c \<and> c \<noteq> 45
     \<and> \<not> is_ignored_char c \<and> c \<noteq> 10 \<and> c \<noteq> 13"
  "KIND_FOR_PUNCT c = Some k \<Longrightarrow> c \<noteq> 35 \<and> c \<noteq> 34 \<and> \<not> is_ignored_char c \<and> c \<noteq> 10 \<and> c \<noteq> 13
     \<and> \<not> is_name_continue c \<and> \<not> is_digit c \<and> c \<noteq> 46"
  by (auto simp: is_digit_def KIND_FOR_PUNCT_def is_ignored_char_def is_name_start_def is_letter_def
      is_name_continue_def split: if_splits)

lemma token_text_start:
  assumes "token_text x w"
  shows "w \<noteq> [] \<and> \<not> is_ignored_char (hd w) \<and> hd w \<noteq> 10 \<and> hd w \<noteq> 13 \<and> fst x \<notin> {EOF, SOF, COMMENT}"
  using assms
proof cases
  case (punct c k)
  then show ?thesis using start_classes(3) KIND_FOR_PUNCT_kind by auto
next
  case name
  then show ?thesis using start_classes(2) by (auto simp: is_name_def)
next
  case int
  then show ?thesis using start_classes(1) number_start by auto
next
  case float
  then show ?thesis using start_classes(1) float_start by auto
next
  case (block v n)
  from block_text_start [of n v] have "hd w = 34" "w \<noteq> []" unfolding block(2) by auto
  with block show ?thesis by (auto simp: is_ignored_char_def)
qed (auto simp: is_ignored_char_def print_string_def)

lemma token_text_read:
  assumes "token_text x w" and "drop i body = w @ s" and "follows x s" and "length body < maxsize"
  shows "\<exists>t lp'. read_token_at body lp i = Inr (t, lp') \<and> kv t = x \<and> tok_end t = i + length w"
proof -
  have w: "w \<noteq> []" using token_text_start [OF assms(1)] by simp
  then have i: "i < length body" "body ! i = hd w" and t: "drop (Suc i) body = tl w @ s"
    using assms(2) by (cases w; auto simp: drop_Cons_iff)+
  show ?thesis
    using assms(1)
  proof cases
    case (punct c k)
    with i start_classes(3) [OF punct(3)] show ?thesis by (simp add: read_token_at_def)
  next
    case spread
    with t have "char_at body (i + 1) = Some 46" "char_at body (i + 2) = Some 46"
      by (auto simp: drop_Cons_iff char_at_def)
    with spread i show ?thesis
      by (simp add: read_token_at_def read_dots_def KIND_FOR_PUNCT_def is_digit_def
          is_name_start_def is_letter_def)
  next
    case name
    then have "is_name_start (hd w)" by (simp add: is_name_def)
    with read_name_complete [of i body w s lp] i name assms(2,3) start_classes(2) [of "hd w"]
    show ?thesis by (auto simp: read_token_at_def follows_def)
  next
    case int
    then have d: "drop i body = w @ [] @ [] @ s" and "ends_number s"
      using assms(2,3) by (auto simp: follows_def ends_number_def)
    from read_number_complete [OF d int(2) _ _ this(2), of lp] number_start [OF int(2)]
    show ?thesis
      using i int start_classes(1) [of "hd w"] by (auto simp: read_token_at_def)
  next
    case float
    then obtain n f e where v: "w = n @ f @ e" "is_int_literal n" "f = [] \<or> is_fraction f"
      "e = [] \<or> is_exponent e" "f \<noteq> [] \<or> e \<noteq> []"
      by (auto simp: is_float_literal_def)
    from float have d: "drop i body = n @ f @ e @ s" and "ends_number s"
      using assms(2,3) v(1) by (auto simp: follows_def ends_number_def)
    from read_number_complete [OF d v(2,3,4) this(2), of lp] float_start [OF float(2)]
    show ?thesis
      using i float v(1,5) start_classes(1) [of "hd w"] by (auto simp: read_token_at_def)
  next
    case (string v)
    have "slice body (i + 1) (i + 3) = take 2 (concat (map translate_char v) @ 34 # s)"
      using t string by (simp add: slice_def print_string_def)
    moreover have "take 2 (concat (map translate_char v) @ 34 # s) \<noteq> [34, 34]"
    proof (cases v)
      case Nil
      with string assms(3) show ?thesis by (cases s) (auto simp: follows_def)
    next
      case (Cons c cs)
      have "hd (translate_char c) \<noteq> 34 \<and> translate_char c \<noteq> []"
        by (auto simp: translate_char_def escape_sequences_def)
      with Cons show ?thesis by (cases "translate_char c") (auto simp: numeral_2_eq_2)
    qed
    ultimately show ?thesis
      using read_string_complete [of i body v s lp] string assms(2) i
      by (auto simp: read_token_at_def print_string_def)
  next
    case (block v n)
    from block_text_start [of n v] obtain r where "drop i body = 34 # 34 # 34 # r @ s"
      using assms(2) unfolding block(2) by auto
    then have "slice body (i + 1) (i + 3) = [34, 34]" "body ! i = 34"
      using slice_triple(2) [of i body 34] by (auto simp: startswith_triple drop_Cons_iff)
    with read_block_string_complete [OF block(3) _ assms(4), of i n s lp] block assms(2)
    show ?thesis by (auto simp: read_token_at_def)
  qed
qed

section \<open>Laid-out texts\<close>

text \<open>\<open>layout xs s\<close>: the text \<open>s\<close> is the tokens \<open>xs\<close> with blanks, commas and line feeds between.\<close>

definition is_layout_char :: "uchar \<Rightarrow> bool" where
  "is_layout_char c \<longleftrightarrow> is_ignored_char c \<or> c = 10"

inductive layout :: "kv list \<Rightarrow> pystr \<Rightarrow> bool" where
  Nil: "layout [] []"
| skip: "is_layout_char c \<Longrightarrow> layout xs s \<Longrightarrow> layout xs (c # s)"
| token: "token_text x w \<Longrightarrow> follows x s \<Longrightarrow> layout xs s \<Longrightarrow> layout (x # xs) (w @ s)"

text \<open>What a reader gives from a position on.\<close>

fun reads :: "reader \<Rightarrow> source \<Rightarrow> nat \<Rightarrow> kv list \<Rightarrow> bool" where
  "reads read src i [] \<longleftrightarrow> (\<forall>lp. \<exists>t lp'. read src lp i = Inr (t, lp') \<and> kv t = (EOF, None))"
| "reads read src i (x # xs) \<longleftrightarrow> fst x \<notin> {EOF, COMMENT} \<and>
     (\<forall>lp. \<exists>t lp'. read src lp i = Inr (t, lp') \<and> kv t = x \<and> reads read src (tok_end t) xs)"

lemma read_next_token_skip:
  assumes "drop i body = c # s" and "is_layout_char c"
  shows "\<exists>lp'. read_next_token body lp i = read_next_token body lp' (Suc i)"
  using assms
  by (intro exI [of _ "if is_ignored_char c then lp else (fst lp + 1, Suc i)"])
     (subst read_next_token.simps, auto simp: drop_Cons_iff is_layout_char_def Let_def)

lemma reads_skip:
  assumes "drop i (src_body src) = c # s" and "is_layout_char c"
    and "reads Lexer_read_next_token src (Suc i) xs"
  shows "reads Lexer_read_next_token src i xs"
proof -
  have "\<exists>lp'. Lexer_read_next_token src lp i = Lexer_read_next_token src lp' (Suc i)" for lp
    using read_next_token_skip [OF assms(1,2)] by (simp add: Lexer_read_next_token_def)
  with assms(3) show ?thesis by (cases xs) (auto, metis+)
qed

lemma layout_reads:
  "layout xs s \<Longrightarrow> drop i (src_body src) = s \<Longrightarrow> i \<le> length (src_body src) \<Longrightarrow>
     length (src_body src) < maxsize \<Longrightarrow> reads Lexer_read_next_token src i xs"
proof (induction arbitrary: i rule: layout.induct)
  case Nil
  then show ?case by (simp add: Lexer_read_next_token_def read_next_token.simps)
next
  case (skip c xs s)
  then have "drop (Suc i) (src_body src) = s" "Suc i \<le> length (src_body src)"
    by (auto simp: drop_Cons_iff)
  with skip show ?case by (blast intro: reads_skip)
next
  case (token x w s xs)
  note start = token_text_start [OF token(1)]
  then have "i < length (src_body src)" "src_body src ! i = hd w"
    using token.prems(1) by (cases w; auto simp: drop_Cons_iff)+
  with start have "read_next_token (src_body src) lp i = read_token_at (src_body src) lp i" for lp
    by (subst read_next_token.simps) (simp add: Let_def)
  moreover have "i + length w \<le> length (src_body src)"
    using arg_cong [OF token.prems(1), of length] token.prems(2) by simp
  ultimately have read: "Lexer_read_next_token src lp i = read_token_at (src_body src) lp i"
    and le: "i + length w \<le> length (src_body src)" for lp
    by (simp_all add: Lexer_read_next_token_def)
  note rest = token.IH [OF drop_prefix [OF token.prems(1)] le token.prems(3)]
  have "\<exists>t lp'. Lexer_read_next_token src lp i = Inr (t, lp') \<and> kv t = x
      \<and> reads Lexer_read_next_token src (tok_end t) xs" for lp
    using token_text_read [OF token(1) token.prems(1) token(2) token.prems(3), of lp] rest
    by (auto simp: read)
  with start show ?case by simp
qed

end
