(* ===== verification/Ast_Tokens.thy ===== *)
theory Ast_Tokens
  imports Text_Lexing
begin

text \<open>
  The abstract syntax of a tree: the sequence of tokens that the grammar of the language assigns to it, and
  the tree without its locations.  The parser reads the tokens of a well-formed tree back as that
  tree (theory \<open>Parser_Complete\<close>) and the printer writes them (theory \<open>Printer_Layout\<close>).
\<close>

section \<open>Trees without locations\<close>

fun strip_name :: "name_node \<Rightarrow> name_node" where
  "strip_name (NameNode v l) = NameNode v None"

fun strip_named_type :: "named_type_node \<Rightarrow> named_type_node" where
  "strip_named_type (NamedTypeNode n l) = NamedTypeNode (strip_name n) None"

fun strip_type :: "type_node \<Rightarrow> type_node" where
  "strip_type (NamedType t) = NamedType (strip_named_type t)"
| "strip_type (ListTypeNode t l) = ListTypeNode (strip_type t) None"
| "strip_type (NonNullTypeNode t l) = NonNullTypeNode (strip_type t) None"

fun strip_variable :: "variable_node \<Rightarrow> variable_node" where
  "strip_variable (VariableNode n l) = VariableNode (strip_name n) None"

fun strip_string :: "string_value_node \<Rightarrow> string_value_node" where
  "strip_string (StringValueNode v b l) = StringValueNode v b None"

fun strip_value :: "value_node \<Rightarrow> value_node"
  and strip_object_field :: "object_field_node \<Rightarrow> object_field_node" where
  "strip_value (VariableValue v) = VariableValue (strip_variable v)"
| "strip_value (IntValueNode v l) = IntValueNode v None"
| "strip_value (FloatValueNode v l) = FloatValueNode v None"
| "strip_value (StringValue s) = StringValue (strip_string s)"
| "strip_value (BooleanValueNode b l) = BooleanValueNode b None"
| "strip_value (NullValueNode l) = NullValueNode None"
| "strip_value (EnumValueNode v l) = EnumValueNode v None"
| "strip_value (ListValueNode vs l) = ListValueNode (map strip_value vs) None"
| "strip_value (ObjectValueNode fs l) = ObjectValueNode (map strip_object_field fs) None"
| "strip_object_field (ObjectFieldNode n v l) = ObjectFieldNode (strip_name n) (strip_value v) None"

fun strip_argument :: "argument_node \<Rightarrow> argument_node" where
  "strip_argument (ArgumentNode n v l) = ArgumentNode (strip_name n) (strip_value v) None"

fun strip_fragment_argument :: "fragment_argument_node \<Rightarrow> fragment_argument_node" where
  "strip_fragment_argument (FragmentArgumentNode n v l) =
     FragmentArgumentNode (strip_name n) (strip_value v) None"

abbreviation strips :: "('a \<Rightarrow> 'a) \<Rightarrow> 'a list option \<Rightarrow> 'a list option" where
  "strips f \<equiv> map_option (map f)"

fun strip_directive :: "directive_node \<Rightarrow> directive_node" where
  "strip_directive (DirectiveNode n args l) =
     DirectiveNode (strip_name n) (strips strip_argument args) None"

fun strip_selection :: "selection_node \<Rightarrow> selection_node"
  and strip_selection_set :: "selection_set_node \<Rightarrow> selection_set_node" where
  "strip_selection (FieldNode n a args ds ss l) =
     FieldNode (strip_name n) (map_option strip_name a) (strips strip_argument args)
       (strips strip_directive ds)
       (case ss of None \<Rightarrow> None | Some s \<Rightarrow> Some (strip_selection_set s)) None"
| "strip_selection (FragmentSpreadNode n args ds l) =
     FragmentSpreadNode (strip_name n) (strips strip_fragment_argument args)
       (strips strip_directive ds) None"
| "strip_selection (InlineFragmentNode ss tc ds l) =
     InlineFragmentNode (strip_selection_set ss) (map_option strip_named_type tc)
       (strips strip_directive ds) None"
| "strip_selection_set (SelectionSetNode sels l) = SelectionSetNode (map strip_selection sels) None"

fun strip_variable_definition :: "variable_definition_node \<Rightarrow> variable_definition_node" where
  "strip_variable_definition (VariableDefinitionNode d v t dv ds l) =
     VariableDefinitionNode (map_option strip_string d) (strip_variable v) (strip_type t)
       (map_option strip_value dv) (strips strip_directive ds) None"

fun strip_operation :: "operation_definition_node \<Rightarrow> operation_definition_node" where
  "strip_operation (OperationDefinitionNode ss d n vds ds op l) =
     OperationDefinitionNode (strip_selection_set ss) (map_option strip_string d)
       (map_option strip_name n) (strips strip_variable_definition vds)
       (strips strip_directive ds) op None"

fun strip_fragment :: "fragment_definition_node \<Rightarrow> fragment_definition_node" where
  "strip_fragment (FragmentDefinitionNode ss d n vds ds tc l) =
     FragmentDefinitionNode (strip_selection_set ss) (map_option strip_string d)
       (strip_name n) (strips strip_variable_definition vds)
       (strips strip_directive ds) (strip_named_type tc) None"

fun strip_operation_type :: "operation_type_definition_node \<Rightarrow> operation_type_definition_node" where
  "strip_operation_type (OperationTypeDefinitionNode op t l) =
     OperationTypeDefinitionNode op (strip_named_type t) None"

fun strip_input_value :: "input_value_definition_node \<Rightarrow> input_value_definition_node" where
  "strip_input_value (InputValueDefinitionNode n t d dv ds l) =
     InputValueDefinitionNode (strip_name n) (strip_type t) (map_option strip_string d)
       (map_option strip_value dv) (strips strip_directive ds) None"

fun strip_field_definition :: "field_definition_node \<Rightarrow> field_definition_node" where
  "strip_field_definition (FieldDefinitionNode n t d args ds l) =
     FieldDefinitionNode (strip_name n) (strip_type t) (map_option strip_string d)
       (strips strip_input_value args) (strips strip_directive ds) None"

fun strip_enum_value :: "enum_value_definition_node \<Rightarrow> enum_value_definition_node" where
  "strip_enum_value (EnumValueDefinitionNode n d ds l) =
     EnumValueDefinitionNode (strip_name n) (map_option strip_string d) (strips strip_directive ds)
       None"

fun strip_definition :: "definition_node \<Rightarrow> definition_node" where
  "strip_definition (OperationDefinition d) = OperationDefinition (strip_operation d)"
| "strip_definition (FragmentDefinition d) = FragmentDefinition (strip_fragment d)"
| "strip_definition (SchemaDefinitionNode d ds ops l) =
     SchemaDefinitionNode (map_option strip_string d) (strips strip_directive ds)
       (map strip_operation_type ops) None"
| "strip_definition (ScalarTypeDefinitionNode n d ds l) =
     ScalarTypeDefinitionNode (strip_name n) (map_option strip_string d) (strips strip_directive ds)
       None"
| "strip_definition (ObjectTypeDefinitionNode n d ds is fs l) =
     ObjectTypeDefinitionNode (strip_name n) (map_option strip_string d) (strips strip_directive ds)
       (strips strip_named_type is) (strips strip_field_definition fs) None"
| "strip_definition (InterfaceTypeDefinitionNode n d ds is fs l) =
     InterfaceTypeDefinitionNode (strip_name n) (map_option strip_string d)
       (strips strip_directive ds) (strips strip_named_type is) (strips strip_field_definition fs) None"
| "strip_definition (UnionTypeDefinitionNode n d ds ts l) =
     UnionTypeDefinitionNode (strip_name n) (map_option strip_string d) (strips strip_directive ds)
       (strips strip_named_type ts) None"
| "strip_definition (EnumTypeDefinitionNode n d ds vs l) =
     EnumTypeDefinitionNode (strip_name n) (map_option strip_string d) (strips strip_directive ds)
       (strips strip_enum_value vs) None"
| "strip_definition (InputObjectTypeDefinitionNode n d ds fs l) =
     InputObjectTypeDefinitionNode (strip_name n) (map_option strip_string d)
       (strips strip_directive ds) (strips strip_input_value fs) None"
| "strip_definition (DirectiveDefinitionNode n locs d args ds rep l) =
     DirectiveDefinitionNode (strip_name n) (map strip_name locs) (map_option strip_string d)
       (strips strip_input_value args) (strips strip_directive ds) rep None"
| "strip_definition (SchemaExtensionNode ds ops l) =
     SchemaExtensionNode (strips strip_directive ds) (strips strip_operation_type ops) None"
| "strip_definition (DirectiveExtensionNode n ds l) =
     DirectiveExtensionNode (strip_name n) (strips strip_directive ds) None"
| "strip_definition (ScalarTypeExtensionNode n ds l) =
     ScalarTypeExtensionNode (strip_name n) (strips strip_directive ds) None"
| "strip_definition (ObjectTypeExtensionNode n ds is fs l) =
     ObjectTypeExtensionNode (strip_name n) (strips strip_directive ds)
       (strips strip_named_type is) (strips strip_field_definition fs) None"
| "strip_definition (InterfaceTypeExtensionNode n ds is fs l) =
     InterfaceTypeExtensionNode (strip_name n) (strips strip_directive ds)
       (strips strip_named_type is) (strips strip_field_definition fs) None"
| "strip_definition (UnionTypeExtensionNode n ds ts l) =
     UnionTypeExtensionNode (strip_name n) (strips strip_directive ds)
       (strips strip_named_type ts) None"
| "strip_definition (EnumTypeExtensionNode n ds vs l) =
     EnumTypeExtensionNode (strip_name n) (strips strip_directive ds) (strips strip_enum_value vs)
       None"
| "strip_definition (InputObjectTypeExtensionNode n ds fs l) =
     InputObjectTypeExtensionNode (strip_name n) (strips strip_directive ds)
       (strips strip_input_value fs) None"

fun strip_coordinate :: "schema_coordinate_node \<Rightarrow> schema_coordinate_node" where
  "strip_coordinate (TypeCoordinateNode n l) = TypeCoordinateNode (strip_name n) None"
| "strip_coordinate (MemberCoordinateNode n m l) =
     MemberCoordinateNode (strip_name n) (strip_name m) None"
| "strip_coordinate (ArgumentCoordinateNode n f a l) =
     ArgumentCoordinateNode (strip_name n) (strip_name f) (strip_name a) None"
| "strip_coordinate (DirectiveCoordinateNode n l) = DirectiveCoordinateNode (strip_name n) None"
| "strip_coordinate (DirectiveArgumentCoordinateNode n a l) =
     DirectiveArgumentCoordinateNode (strip_name n) (strip_name a) None"

section \<open>The tokens of a tree\<close>

abbreviation P :: "token_kind \<Rightarrow> kv" where
  "P k \<equiv> (k, None)"

abbreviation word :: "string \<Rightarrow> kv" where
  "word s \<equiv> (NAME, Some (str s))"

definition opt_toks :: "('a \<Rightarrow> kv list) \<Rightarrow> 'a option \<Rightarrow> kv list" where
  "opt_toks f x = (case x of None \<Rightarrow> [] | Some y \<Rightarrow> f y)"

lemma opt_toks_simps [simp]: "opt_toks f None = []" "opt_toks f (Some x) = f x"
  by (simp_all add: opt_toks_def)

definition all_toks :: "('a \<Rightarrow> kv list) \<Rightarrow> 'a list \<Rightarrow> kv list" where
  "all_toks f xs = concat (map f xs)"

lemma all_toks_simps [simp]:
  "all_toks f [] = []" "all_toks f (x # xs) = f x @ all_toks f xs"
  "all_toks f (xs @ ys) = all_toks f xs @ all_toks f ys"
  by (simp_all add: all_toks_def)

definition many_toks :: "token_kind \<Rightarrow> ('a \<Rightarrow> kv list) \<Rightarrow> token_kind \<Rightarrow> 'a list \<Rightarrow> kv list" where
  "many_toks op f cl xs = P op # all_toks f xs @ [P cl]"

fun sep_toks :: "token_kind \<Rightarrow> ('a \<Rightarrow> kv list) \<Rightarrow> 'a list \<Rightarrow> kv list" where
  "sep_toks k f [] = []"
| "sep_toks k f [x] = f x"
| "sep_toks k f (x # y # ys) = f x @ P k # sep_toks k f (y # ys)"

definition name_tok :: "name_node \<Rightarrow> kv" where
  "name_tok n = (NAME, Some (name_value n))"

definition named_type_tok :: "named_type_node \<Rightarrow> kv" where
  "named_type_tok t = name_tok (named_type_name t)"

definition variable_toks :: "variable_node \<Rightarrow> kv list" where
  "variable_toks v = [P DOLLAR, name_tok (variable_name v)]"

definition string_tok :: "string_value_node \<Rightarrow> kv" where
  "string_tok s =
     ((if string_block s = Some True then BLOCK_STRING else STRING), Some (string_value s))"

fun value_toks :: "value_node \<Rightarrow> kv list"
  and object_field_toks :: "object_field_node \<Rightarrow> kv list" where
  "value_toks (VariableValue v) = variable_toks v"
| "value_toks (IntValueNode v l) = [(INT', Some v)]"
| "value_toks (FloatValueNode v l) = [(FLOAT, Some v)]"
| "value_toks (StringValue s) = [string_tok s]"
| "value_toks (BooleanValueNode b l) = [word (if b then ''true'' else ''false'')]"
| "value_toks (NullValueNode l) = [word ''null'']"
| "value_toks (EnumValueNode v l) = [(NAME, Some v)]"
| "value_toks (ListValueNode vs l) = P BRACKET_L # concat (map value_toks vs) @ [P BRACKET_R]"
| "value_toks (ObjectValueNode fs l) = P BRACE_L # concat (map object_field_toks fs) @ [P BRACE_R]"
| "object_field_toks (ObjectFieldNode n v l) = name_tok n # P COLON # value_toks v"

fun argument_toks :: "argument_node \<Rightarrow> kv list" where
  "argument_toks (ArgumentNode n v l) = name_tok n # P COLON # value_toks v"

fun fragment_argument_toks :: "fragment_argument_node \<Rightarrow> kv list" where
  "fragment_argument_toks (FragmentArgumentNode n v l) = name_tok n # P COLON # value_toks v"

abbreviation arguments_toks :: "argument_node list option \<Rightarrow> kv list" where
  "arguments_toks \<equiv> opt_toks (many_toks PAREN_L argument_toks PAREN_R)"

fun directive_toks :: "directive_node \<Rightarrow> kv list" where
  "directive_toks (DirectiveNode n args l) = P AT # name_tok n # arguments_toks args"

abbreviation directives_toks :: "directive_node list option \<Rightarrow> kv list" where
  "directives_toks \<equiv> opt_toks (all_toks directive_toks)"

fun type_toks :: "type_node \<Rightarrow> kv list" where
  "type_toks (NamedType t) = [named_type_tok t]"
| "type_toks (ListTypeNode t l) = P BRACKET_L # type_toks t @ [P BRACKET_R]"
| "type_toks (NonNullTypeNode t l) = type_toks t @ [P BANG]"

fun selection_toks :: "selection_node \<Rightarrow> kv list"
  and selection_set_toks :: "selection_set_node \<Rightarrow> kv list" where
  "selection_toks (FieldNode n a args ds ss l) =
     opt_toks (\<lambda>a. [name_tok a, P COLON]) a @ name_tok n # arguments_toks args
       @ directives_toks ds @ (case ss of None \<Rightarrow> [] | Some s \<Rightarrow> selection_set_toks s)"
| "selection_toks (FragmentSpreadNode n args ds l) =
     P SPREAD # name_tok n # opt_toks (many_toks PAREN_L fragment_argument_toks PAREN_R) args
       @ directives_toks ds"
| "selection_toks (InlineFragmentNode ss tc ds l) =
     P SPREAD # opt_toks (\<lambda>t. [word ''on'', named_type_tok t]) tc @ directives_toks ds
       @ selection_set_toks ss"
| "selection_set_toks (SelectionSetNode sels l) =
     P BRACE_L # concat (map selection_toks sels) @ [P BRACE_R]"

abbreviation description_toks :: "string_value_node option \<Rightarrow> kv list" where
  "description_toks \<equiv> opt_toks (\<lambda>s. [string_tok s])"

abbreviation default_toks :: "value_node option \<Rightarrow> kv list" where
  "default_toks \<equiv> opt_toks (\<lambda>v. P EQUALS # value_toks v)"

fun variable_definition_toks :: "variable_definition_node \<Rightarrow> kv list" where
  "variable_definition_toks (VariableDefinitionNode d v t dv ds l) =
     description_toks d @ variable_toks v @ P COLON # type_toks t @ default_toks dv
       @ directives_toks ds"

abbreviation variable_definitions_toks :: "variable_definition_node list option \<Rightarrow> kv list" where
  "variable_definitions_toks \<equiv> opt_toks (many_toks PAREN_L variable_definition_toks PAREN_R)"

definition operation_type_tok :: "operation_type \<Rightarrow> kv" where
  "operation_type_tok op = (NAME, Some (operation_type_value op))"

text \<open>An anonymous query without anything else is written as its selection set alone.\<close>

fun operation_toks :: "operation_definition_node \<Rightarrow> kv list" where
  "operation_toks (OperationDefinitionNode ss d n vds ds op l) =
     (if op = QUERY \<and> d = None \<and> n = None \<and> vds = None \<and> ds = None then []
      else description_toks d @ operation_type_tok op # opt_toks (\<lambda>n. [name_tok n]) n
        @ variable_definitions_toks vds @ directives_toks ds)
     @ selection_set_toks ss"

text \<open>An empty tuple of variable definitions is written as nothing.\<close>

fun fragment_toks :: "fragment_definition_node \<Rightarrow> kv list" where
  "fragment_toks (FragmentDefinitionNode ss d n vds ds tc l) =
     description_toks d @ word ''fragment'' # name_tok n
       # (if vds = Some [] then [] else variable_definitions_toks vds)
       @ word ''on'' # named_type_tok tc # directives_toks ds @ selection_set_toks ss"

fun operation_type_toks :: "operation_type_definition_node \<Rightarrow> kv list" where
  "operation_type_toks (OperationTypeDefinitionNode op t l) =
     [operation_type_tok op, P COLON, named_type_tok t]"

fun input_value_toks :: "input_value_definition_node \<Rightarrow> kv list" where
  "input_value_toks (InputValueDefinitionNode n t d dv ds l) =
     description_toks d @ name_tok n # P COLON # type_toks t @ default_toks dv @ directives_toks ds"

abbreviation argument_definitions_toks :: "input_value_definition_node list option \<Rightarrow> kv list" where
  "argument_definitions_toks \<equiv> opt_toks (many_toks PAREN_L input_value_toks PAREN_R)"

fun field_definition_toks :: "field_definition_node \<Rightarrow> kv list" where
  "field_definition_toks (FieldDefinitionNode n t d args ds l) =
     description_toks d @ name_tok n # argument_definitions_toks args @ P COLON # type_toks t
       @ directives_toks ds"

fun enum_value_toks :: "enum_value_definition_node \<Rightarrow> kv list" where
  "enum_value_toks (EnumValueDefinitionNode n d ds l) =
     description_toks d @ name_tok n # directives_toks ds"

abbreviation interfaces_toks :: "named_type_node list option \<Rightarrow> kv list" where
  "interfaces_toks \<equiv>
     opt_toks (\<lambda>ts. word ''implements'' # sep_toks AMP (\<lambda>t. [named_type_tok t]) ts)"

abbreviation union_types_toks :: "named_type_node list option \<Rightarrow> kv list" where
  "union_types_toks \<equiv> opt_toks (\<lambda>ts. P EQUALS # sep_toks PIPE (\<lambda>t. [named_type_tok t]) ts)"

abbreviation block_toks :: "('a \<Rightarrow> kv list) \<Rightarrow> 'a list option \<Rightarrow> kv list" where
  "block_toks f \<equiv> opt_toks (many_toks BRACE_L f BRACE_R)"

fun definition_toks :: "definition_node \<Rightarrow> kv list" where
  "definition_toks (OperationDefinition d) = operation_toks d"
| "definition_toks (FragmentDefinition d) = fragment_toks d"
| "definition_toks (SchemaDefinitionNode d ds ops l) =
     description_toks d @ word ''schema'' # directives_toks ds
       @ many_toks BRACE_L operation_type_toks BRACE_R ops"
| "definition_toks (ScalarTypeDefinitionNode n d ds l) =
     description_toks d @ word ''scalar'' # name_tok n # directives_toks ds"
| "definition_toks (ObjectTypeDefinitionNode n d ds is fs l) =
     description_toks d @ word ''type'' # name_tok n # interfaces_toks is @ directives_toks ds
       @ block_toks field_definition_toks fs"
| "definition_toks (InterfaceTypeDefinitionNode n d ds is fs l) =
     description_toks d @ word ''interface'' # name_tok n # interfaces_toks is @ directives_toks ds
       @ block_toks field_definition_toks fs"
| "definition_toks (UnionTypeDefinitionNode n d ds ts l) =
     description_toks d @ word ''union'' # name_tok n # directives_toks ds @ union_types_toks ts"
| "definition_toks (EnumTypeDefinitionNode n d ds vs l) =
     description_toks d @ word ''enum'' # name_tok n # directives_toks ds
       @ block_toks enum_value_toks vs"
| "definition_toks (InputObjectTypeDefinitionNode n d ds fs l) =
     description_toks d @ word ''input'' # name_tok n # directives_toks ds
       @ block_toks input_value_toks fs"
| "definition_toks (DirectiveDefinitionNode n locs d args ds rep l) =
     description_toks d @ word ''directive'' # P AT # name_tok n # argument_definitions_toks args
       @ directives_toks ds @ (if rep then [word ''repeatable''] else [])
       @ word ''on'' # sep_toks PIPE (\<lambda>n. [name_tok n]) locs"
| "definition_toks (SchemaExtensionNode ds ops l) =
     word ''extend'' # word ''schema'' # directives_toks ds @ block_toks operation_type_toks ops"
| "definition_toks (DirectiveExtensionNode n ds l) =
     word ''extend'' # word ''directive'' # P AT # name_tok n # directives_toks ds"
| "definition_toks (ScalarTypeExtensionNode n ds l) =
     word ''extend'' # word ''scalar'' # name_tok n # directives_toks ds"
| "definition_toks (ObjectTypeExtensionNode n ds is fs l) =
     word ''extend'' # word ''type'' # name_tok n # interfaces_toks is @ directives_toks ds
       @ block_toks field_definition_toks fs"
| "definition_toks (InterfaceTypeExtensionNode n ds is fs l) =
     word ''extend'' # word ''interface'' # name_tok n # interfaces_toks is @ directives_toks ds
       @ block_toks field_definition_toks fs"
| "definition_toks (UnionTypeExtensionNode n ds ts l) =
     word ''extend'' # word ''union'' # name_tok n # directives_toks ds @ union_types_toks ts"
| "definition_toks (EnumTypeExtensionNode n ds vs l) =
     word ''extend'' # word ''enum'' # name_tok n # directives_toks ds
       @ block_toks enum_value_toks vs"
| "definition_toks (InputObjectTypeExtensionNode n ds fs l) =
     word ''extend'' # word ''input'' # name_tok n # directives_toks ds
       @ block_toks input_value_toks fs"

fun coordinate_toks :: "schema_coordinate_node \<Rightarrow> kv list" where
  "coordinate_toks (TypeCoordinateNode n l) = [name_tok n]"
| "coordinate_toks (MemberCoordinateNode n m l) = [name_tok n, P DOT, name_tok m]"
| "coordinate_toks (ArgumentCoordinateNode n f a l) =
     [name_tok n, P DOT, name_tok f, P PAREN_L, name_tok a, P COLON, P PAREN_R]"
| "coordinate_toks (DirectiveCoordinateNode n l) = [P AT, name_tok n]"
| "coordinate_toks (DirectiveArgumentCoordinateNode n a l) =
     [P AT, name_tok n, P PAREN_L, name_tok a, P COLON, P PAREN_R]"

end
