(* ===== verification/Parser_Sound.thy ===== *)
theory Parser_Sound
  imports Parser_Progress Lexer_Sound
begin

text \<open>
  The parser produces well-formed trees only.  \<open>gives read ef ed m V\<close> says that the method \<open>m\<close>, on an
  object whose lexer satisfies the contract and whose two experimental options are \<open>ef\<close> and \<open>ed\<close>,
  returns values that satisfy \<open>V\<close> only.
\<close>

named_theorems sound \<open>facts \<open>gives read ef ed m V\<close> for the combinators and the methods\<close>

section \<open>Well-formed definitions and documents\<close>

text \<open>\<open>ef\<close>, \<open>ed\<close>: fragment arguments, and directives on directive definitions, are enabled.\<close>

fun wf_definition :: "bool \<Rightarrow> bool \<Rightarrow> definition_node \<Rightarrow> bool" where
  "wf_definition ef ed (OperationDefinition d) = wf_operation ef d"
| "wf_definition ef ed (FragmentDefinition d) = wf_fragment ef d"
| "wf_definition ef ed (SchemaDefinitionNode d ds ops l) =
     (wf_opt wf_string d \<and> wf_list (wf_directive True) ds \<and> wf_some wf_operation_type_definition ops)"
| "wf_definition ef ed (ScalarTypeDefinitionNode n d ds l) =
     (wf_name n \<and> wf_opt wf_string d \<and> wf_list (wf_directive True) ds)"
| "wf_definition ef ed (ObjectTypeDefinitionNode n d ds is fs l) =
     (wf_name n \<and> wf_opt wf_string d \<and> wf_list (wf_directive True) ds
      \<and> wf_list wf_named_type is \<and> wf_list wf_field_definition fs)"
| "wf_definition ef ed (InterfaceTypeDefinitionNode n d ds is fs l) =
     (wf_name n \<and> wf_opt wf_string d \<and> wf_list (wf_directive True) ds
      \<and> wf_list wf_named_type is \<and> wf_list wf_field_definition fs)"
| "wf_definition ef ed (UnionTypeDefinitionNode n d ds ts l) =
     (wf_name n \<and> wf_opt wf_string d \<and> wf_list (wf_directive True) ds \<and> wf_list wf_named_type ts)"
| "wf_definition ef ed (EnumTypeDefinitionNode n d ds vs l) =
     (wf_name n \<and> wf_opt wf_string d \<and> wf_list (wf_directive True) ds
      \<and> wf_list wf_enum_value_definition vs)"
| "wf_definition ef ed (InputObjectTypeDefinitionNode n d ds fs l) =
     (wf_name n \<and> wf_opt wf_string d \<and> wf_list (wf_directive True) ds
      \<and> wf_list wf_input_value_definition fs)"
| "wf_definition ef ed (DirectiveDefinitionNode n locs d args ds rep l) =
     (wf_name n \<and> wf_some (\<lambda>n. name_value n \<in> set (map str DirectiveLocation_members)) locs
      \<and> wf_opt wf_string d \<and> wf_list wf_input_value_definition args
      \<and> wf_list (wf_directive True) ds \<and> (ds \<noteq> None \<longrightarrow> ed))"
| "wf_definition ef ed (SchemaExtensionNode ds ops l) =
     (wf_list (wf_directive True) ds \<and> wf_list wf_operation_type_definition ops
      \<and> (ds \<noteq> None \<or> ops \<noteq> None))"
| "wf_definition ef ed (DirectiveExtensionNode n ds l) =
     (ed \<and> wf_name n \<and> wf_list (wf_directive True) ds \<and> ds \<noteq> None)"
| "wf_definition ef ed (ScalarTypeExtensionNode n ds l) =
     (wf_name n \<and> wf_list (wf_directive True) ds \<and> ds \<noteq> None)"
| "wf_definition ef ed (ObjectTypeExtensionNode n ds is fs l) =
     (wf_name n \<and> wf_list (wf_directive True) ds \<and> wf_list wf_named_type is
      \<and> wf_list wf_field_definition fs \<and> (ds \<noteq> None \<or> is \<noteq> None \<or> fs \<noteq> None))"
| "wf_definition ef ed (InterfaceTypeExtensionNode n ds is fs l) =
     (wf_name n \<and> wf_list (wf_directive True) ds \<and> wf_list wf_named_type is
      \<and> wf_list wf_field_definition fs \<and> (ds \<noteq> None \<or> is \<noteq> None \<or> fs \<noteq> None))"
| "wf_definition ef ed (UnionTypeExtensionNode n ds ts l) =
     (wf_name n \<and> wf_list (wf_directive True) ds \<and> wf_list wf_named_type ts
      \<and> (ds \<noteq> None \<or> ts \<noteq> None))"
| "wf_definition ef ed (EnumTypeExtensionNode n ds vs l) =
     (wf_name n \<and> wf_list (wf_directive True) ds \<and> wf_list wf_enum_value_definition vs
      \<and> (ds \<noteq> None \<or> vs \<noteq> None))"
| "wf_definition ef ed (InputObjectTypeExtensionNode n ds fs l) =
     (wf_name n \<and> wf_list (wf_directive True) ds \<and> wf_list wf_input_value_definition fs
      \<and> (ds \<noteq> None \<or> fs \<noteq> None))"

definition wf_document :: "bool \<Rightarrow> bool \<Rightarrow> document_node \<Rightarrow> bool" where
  "wf_document ef ed d = wf_some (wf_definition ef ed) (document_definitions d)"

fun wf_coordinate :: "schema_coordinate_node \<Rightarrow> bool" where
  "wf_coordinate (TypeCoordinateNode n l) = wf_name n"
| "wf_coordinate (MemberCoordinateNode n m l) = (wf_name n \<and> wf_name m)"
| "wf_coordinate (ArgumentCoordinateNode n m a l) = (wf_name n \<and> wf_name m \<and> wf_name a)"
| "wf_coordinate (DirectiveCoordinateNode n l) = wf_name n"
| "wf_coordinate (DirectiveArgumentCoordinateNode n a l) = (wf_name n \<and> wf_name a)"

section \<open>The judgement and its rules\<close>

definition lexer_values_ok :: "reader \<Rightarrow> lexer \<Rightarrow> bool" where
  "lexer_values_ok read lx \<longleftrightarrow>
     lx_read_next_token lx = read \<and> lexer_ok lx \<and> tok_ok (lx_token lx)
     \<and> (\<forall>t \<in> set (lx_links lx). tok_ok t)"

definition stream_ok :: "reader \<Rightarrow> bool \<Rightarrow> bool \<Rightarrow> parser_state \<Rightarrow> bool" where
  "stream_ok read ef ed st \<longleftrightarrow>
     lexer_values_ok read (p_lexer st) \<and> p_experimental_fragment_arguments st = ef
     \<and> p_experimental_directives_on_directive_definitions st = ed"

definition gives :: "reader \<Rightarrow> bool \<Rightarrow> bool \<Rightarrow> 'a parser \<Rightarrow> ('a \<Rightarrow> bool) \<Rightarrow> bool" where
  "gives read ef ed m V \<longleftrightarrow>
     (\<forall>st x st'. stream_ok read ef ed st \<and> m st = Inr (x, st') \<longrightarrow> stream_ok read ef ed st' \<and> V x)"

text \<open>The same when the current token is \<open>t\<close>.\<close>

definition gives_on :: "reader \<Rightarrow> bool \<Rightarrow> bool \<Rightarrow> token \<Rightarrow> 'a parser \<Rightarrow> ('a \<Rightarrow> bool) \<Rightarrow> bool" where
  "gives_on read ef ed t m V \<longleftrightarrow>
     (\<forall>st x st'. stream_ok read ef ed st \<and> ps_token st = t \<and> m st = Inr (x, st')
        \<longrightarrow> stream_ok read ef ed st' \<and> V x)"

lemma gives_weaken: "gives read ef ed m V \<Longrightarrow> (\<And>x. V x \<Longrightarrow> W x) \<Longrightarrow> gives read ef ed m W"
  by (auto simp: gives_def)

lemma gives_ret [sound]: "V x \<Longrightarrow> gives read ef ed (ret x) V"
  by (simp add: gives_def ret_def)

lemma gives_fail [sound]: "gives read ef ed (fail e) V"
  by (simp add: gives_def fail_def)

lemma givesI:
  "(\<And>st x st'. stream_ok read ef ed st \<Longrightarrow> m st = Inr (x, st') \<Longrightarrow> stream_ok read ef ed st' \<and> V x) \<Longrightarrow>
     gives read ef ed m V"
  unfolding gives_def by blast

lemma givesD:
  "gives read ef ed m V \<Longrightarrow> stream_ok read ef ed st \<Longrightarrow> m st = Inr (x, st') \<Longrightarrow>
     stream_ok read ef ed st' \<and> V x"
  by (simp add: gives_def)

lemma gives_onI:
  "(\<And>st x st'. stream_ok read ef ed st \<Longrightarrow> ps_token st = t \<Longrightarrow> m st = Inr (x, st') \<Longrightarrow>
      stream_ok read ef ed st' \<and> V x) \<Longrightarrow> gives_on read ef ed t m V"
  unfolding gives_on_def by blast

lemma gives_onD:
  "gives_on read ef ed t m V \<Longrightarrow> stream_ok read ef ed st \<Longrightarrow> ps_token st = t \<Longrightarrow>
     m st = Inr (x, st') \<Longrightarrow> stream_ok read ef ed st' \<and> V x"
  by (simp add: gives_on_def)

lemma gives_bnd [sound]:
  assumes "gives read ef ed m V" and "\<And>x. V x \<Longrightarrow> gives read ef ed (f x) W"
  shows "gives read ef ed (bnd m f) W"
proof (rule givesI)
  fix st y st' assume st: "stream_ok read ef ed st" and r: "bnd m f st = Inr (y, st')"
  from r obtain x st1 where m: "m st = Inr (x, st1)" and f: "f x st1 = Inr (y, st')"
    by (auto simp: bnd_Inr)
  from givesD [OF assms(1) st m] have "stream_ok read ef ed st1" "V x" by simp_all
  from givesD [OF assms(2) [OF this(2)] this(1) f] show "stream_ok read ef ed st' \<and> W y" .
qed

lemma gives_on_bnd:
  assumes "gives_on read ef ed t m V" and "\<And>x. V x \<Longrightarrow> gives read ef ed (f x) W"
  shows "gives_on read ef ed t (bnd m f) W"
proof (rule gives_onI)
  fix st y st' assume st: "stream_ok read ef ed st" "ps_token st = t" and r: "bnd m f st = Inr (y, st')"
  from r obtain x st1 where m: "m st = Inr (x, st1)" and f: "f x st1 = Inr (y, st')"
    by (auto simp: bnd_Inr)
  from gives_onD [OF assms(1) st m] have "stream_ok read ef ed st1" "V x" by simp_all
  from givesD [OF assms(2) [OF this(2)] this(1) f] show "stream_ok read ef ed st' \<and> W y" .
qed

lemma gives_on_gives: "gives read ef ed m V \<Longrightarrow> gives_on read ef ed t m V"
  by (rule gives_onI) (rule givesD)

lemma bnd_cur_token: "bnd cur_token f st = f (ps_token st) st"
  by (simp add: bnd_def cur_token_def get_def)

text \<open>A method that begins with the current token: the rest runs on that token.\<close>

lemma gives_cur_token:
  assumes "\<And>t. tok_ok t \<Longrightarrow> gives_on read ef ed t (f t) W"
  shows "gives read ef ed (bnd cur_token f) W"
proof (rule givesI)
  fix st x st' assume st: "stream_ok read ef ed st" and r: "bnd cur_token f st = Inr (x, st')"
  from st have "tok_ok (ps_token st)" by (simp add: stream_ok_def lexer_values_ok_def)
  from gives_onD [OF assms [OF this] st refl] r show "stream_ok read ef ed st' \<and> W x"
    by (simp add: bnd_cur_token)
qed

lemma gives_on_bnd_cur_token:
  assumes "gives_on read ef ed t (f t) V"
  shows "gives_on read ef ed t (bnd cur_token f) V"
proof (rule gives_onI)
  fix st x st'
  assume "stream_ok read ef ed st" "ps_token st = t" "bnd cur_token f st = Inr (x, st')"
  with gives_onD [OF assms] show "stream_ok read ef ed st' \<and> V x" by (simp add: bnd_cur_token)
qed

lemma gives_if [sound]:
  "(b \<Longrightarrow> gives read ef ed p V) \<Longrightarrow> (\<not> b \<Longrightarrow> gives read ef ed q V) \<Longrightarrow>
     gives read ef ed (if b then p else q) V"
  by simp

lemma gives_prod:
  "(\<And>a b. x = (a, b) \<Longrightarrow> gives read ef ed (g a b) V) \<Longrightarrow>
     gives read ef ed (case x of (a, b) \<Rightarrow> g a b) V"
  by (cases x) simp

lemma gives_with_fuel: "(\<And>n. gives read ef ed (f n) V) \<Longrightarrow> gives read ef ed (with_fuel f) V"
  by (simp add: gives_def with_fuel_def)

lemma gives_get_true: "gives read ef ed (get f) (\<lambda>_. True)"
  by (simp add: gives_def get_def)

lemma gives_reading [sound]:
  "gives read ef ed cur_token tok_ok" "gives read ef ed (peek k) (\<lambda>_. True)"
  "gives read ef ed (loc_from t) (\<lambda>_. True)" "gives read ef ed (unexpected_at t) V"
  "gives read ef ed unexpected V"
  "gives read ef ed (get p_experimental_fragment_arguments) (\<lambda>b. b = ef)"
  "gives read ef ed (get p_experimental_directives_on_directive_definitions) (\<lambda>b. b = ed)"
  by (auto simp: gives_def cur_token_def peek_def loc_from_def unexpected_at_def unexpected_def
      get_def fail_def bnd_def stream_ok_def lexer_values_ok_def)

lemma gives_opt_if [sound]: "(b \<Longrightarrow> gives read ef ed m V) \<Longrightarrow> gives read ef ed (opt_if b m) (wf_opt V)"
  by (auto simp: opt_if_def intro!: gives_bnd gives_ret)

context graphql_token_reader
begin

lemma read_more_ok:
  assumes "read_more n prev lx = Inr (t, lx')" and "lx_read_next_token lx = read"
    and "tok_end prev \<le> length (src_body (lx_source lx))" and "\<forall>u \<in> set (lx_links lx). tok_ok u"
  shows "\<forall>u \<in> set (lx_links lx'). tok_ok u"
  using assms
proof (induction n arbitrary: prev lx)
  case (Suc n)
  from Suc.prems(1,2) obtain u lp where
    u: "read (lx_source lx) (lx_lpos lx) (tok_end prev) = Inr (u, lp)"
    by (auto simp: bind_result_Inr_iff)
  note ok = read_tok_ok [OF u Suc.prems(3)] and b = read_bounds [OF u Suc.prems(3)]
  show ?case
  proof (cases "is_comment u")
    case False
    with Suc.prems u ok show ?thesis by (auto simp: Let_def)
  next
    case True
    let ?lx = "lx\<lparr>lx_lpos := lp, lx_links := lx_links lx @ [u]\<rparr>"
    from True Suc.prems(1,2) u have "read_more n u ?lx = Inr (t, lx')" by (simp add: Let_def)
    from Suc.IH [OF this] Suc.prems ok b show ?thesis by auto
  qed
qed simp

lemma lookahead_values:
  assumes "lexer_values_ok read lx" and "lookahead lx = Inr (t, lx')"
  shows "lexer_values_ok read lx'" and "tok_ok t"
proof -
  have lx: "lx_read_next_token lx = read" "lexer_ok lx" using assms(1) by (auto simp: lexer_values_ok_def)
  have ok': "lexer_ok lx'" using lookahead_spec [OF lx] assms(2) by simp
  have frame: "lx_token lx' = lx_token lx" "lx_read_next_token lx' = read"
    using lookahead_frame [OF assms(2)] lx by (auto simp: same_lexer_def)
  have links: "\<forall>u \<in> set (lx_links lx'). tok_ok u"
  proof (cases lx rule: lookahead_cases)
    case read
    have "chain_ok (length (src_body (lx_source lx))) (lx_token lx) (lx_links lx)"
      "tok_end (lx_token lx) \<le> length (src_body (lx_source lx))"
      using lx(2) by (auto simp: lexer_ok_def)
    from chain_ok_last [OF this] read_more_ok [of _ _ lx t lx'] assms read lx(1)
    show ?thesis by (auto simp: lookahead_read lexer_values_ok_def)
  next
    case (linked cs u us)
    with assms show ?thesis by (auto simp: lookahead_linked lexer_values_ok_def)
  qed (use assms in \<open>auto simp: lexer_values_ok_def\<close>)
  then show "lexer_values_ok read lx'"
    using ok' frame assms(1) by (simp add: lexer_values_ok_def)
  show "tok_ok t"
  proof (cases "tok_kind (lx_token lx) = EOF")
    case True
    with assms show ?thesis by (auto simp: lexer_values_ok_def)
  next
    case False
    from lookahead_links [OF assms(2) this] links show ?thesis by auto
  qed
qed

lemma advance_values:
  assumes "lexer_values_ok read lx" and "advance lx = Inr (t, lx')"
  shows "lexer_values_ok read lx'"
proof -
  have lx: "lx_read_next_token lx = read" "lexer_ok lx" using assms(1) by (auto simp: lexer_values_ok_def)
  have ok': "lexer_ok lx'" "lx_read_next_token lx' = read"
    using advance_spec [OF lx] assms(2) lx by (auto simp: same_lexer_def)
  from assms(2) obtain lx1 where r: "lookahead lx = Inr (t, lx1)"
    and lx': "lx_token lx' = t" "lx_links lx' = tl (dropWhile is_comment (lx_links lx1))"
    by (cases "lookahead lx") (auto simp: advance_def lookahead_last_token)
  note v = lookahead_values [OF assms(1) r]
  have "set (tl (dropWhile is_comment (lx_links lx1))) \<subseteq> set (lx_links lx1)"
    by (metis list.set_sel(2) list.sel(2) set_dropWhileD subsetI)
  with v ok' lx' show ?thesis by (auto simp: lexer_values_ok_def)
qed

lemma gives_advance_lexer [sound]: "gives read ef ed advance_lexer (\<lambda>_. True)"
proof (rule givesI)
  fix st u st' assume st: "stream_ok read ef ed st" and "advance_lexer st = Inr (u, st')"
  then obtain t lx' where a: "advance (p_lexer st) = Inr (t, lx')"
    and st': "p_lexer st' = lx'"
      "p_experimental_fragment_arguments st' = p_experimental_fragment_arguments st"
      "p_experimental_directives_on_directive_definitions st'
         = p_experimental_directives_on_directive_definitions st"
    by (auto simp: advance_lexer_def bind_result_Inr_iff Let_def split: if_splits option.splits)
  from advance_values [OF _ a] st st' show "stream_ok read ef ed st' \<and> True"
    by (simp add: stream_ok_def)
qed

lemma gives_lexer_lookahead [sound]: "gives read ef ed lexer_lookahead tok_ok"
proof (rule givesI)
  fix st t st' assume st: "stream_ok read ef ed st" and "lexer_lookahead st = Inr (t, st')"
  then obtain lx' where a: "lookahead (p_lexer st) = Inr (t, lx')" and st': "st' = st\<lparr>p_lexer := lx'\<rparr>"
    by (auto simp: lexer_lookahead_def bind_result_Inr_iff)
  from lookahead_values [OF _ a] st st' show "stream_ok read ef ed st' \<and> tok_ok t"
    by (simp add: stream_ok_def)
qed

lemma gives_expect_token [sound]:
  "gives read ef ed (expect_token k) (\<lambda>t. tok_ok t \<and> tok_kind t = k)"
  unfolding expect_token_def
  by (intro gives_bnd [OF gives_reading(1)] gives_if gives_bnd [OF gives_advance_lexer]
      gives_ret gives_fail) simp

lemma gives_expect_optional_token [sound]:
  "gives read ef ed (expect_optional_token k) (\<lambda>_. True)"
  unfolding expect_optional_token_def
  by (intro gives_bnd [OF gives_reading(1)] gives_if gives_bnd [OF gives_advance_lexer]
      gives_ret) simp_all

lemma gives_expect_keyword [sound]: "gives read ef ed (expect_keyword k) (\<lambda>_. True)"
  unfolding expect_keyword_def
  by (intro gives_bnd [OF gives_reading(1)] gives_if gives_advance_lexer gives_fail)

lemma gives_expect_optional_keyword [sound]:
  "gives read ef ed (expect_optional_keyword k) (\<lambda>_. True)"
  unfolding expect_optional_keyword_def
  by (intro gives_bnd [OF gives_reading(1)] gives_if gives_bnd [OF gives_advance_lexer]
      gives_ret) simp_all

section \<open>Loops\<close>

lemma gives_until_loop:
  assumes "gives read ef ed p V" and "\<forall>x \<in> set nodes. V x"
  shows "gives read ef ed (until_loop n p close nodes)
           (\<lambda>xs. (\<forall>x \<in> set xs. V x) \<and> (nodes \<noteq> [] \<longrightarrow> xs \<noteq> []))"
  using assms(2)
proof (induction n arbitrary: nodes)
  case (Suc n)
  have "gives read ef ed (until_loop n p close (nodes @ [x]))
          (\<lambda>xs. (\<forall>x \<in> set xs. V x) \<and> (nodes \<noteq> [] \<longrightarrow> xs \<noteq> []))" if "V x" for x
    by (rule gives_weaken [OF Suc.IH]) (use Suc.prems that in auto)
  then show ?case
    using Suc.prems
    by (auto intro!: gives_bnd [OF gives_expect_optional_token] gives_bnd [OF assms(1)] gives_ret)
qed (simp add: sound)

lemma gives_delimited_loop:
  assumes "gives read ef ed p V" and "\<forall>x \<in> set nodes. V x"
  shows "gives read ef ed (delimited_loop n d p nodes) (wf_some V)"
  using assms(2)
proof (induction n arbitrary: nodes)
  case (Suc n)
  then show ?case
    by (auto intro!: gives_bnd [OF gives_expect_optional_token] gives_bnd [OF assms(1)] gives_ret
        simp: wf_some_def)
qed (simp add: sound)

lemma gives_peek_loop:
  assumes "gives read ef ed p V" and "\<forall>x \<in> set nodes. V x"
  shows "gives read ef ed (peek_loop n d p nodes) (\<lambda>xs. \<forall>x \<in> set xs. V x)"
  using assms(2)
proof (induction n arbitrary: nodes)
  case (Suc n)
  then show ?case
    by (auto intro!: gives_bnd [OF gives_reading(2)] gives_bnd [OF assms(1)] gives_ret)
qed (simp add: sound)

lemma gives_any [sound]: "gives read ef ed p V \<Longrightarrow> gives read ef ed (any' op p cl) (\<lambda>xs. \<forall>x \<in> set xs. V x)"
  unfolding any'_def
  by (intro gives_bnd [OF gives_expect_token] gives_with_fuel
      gives_weaken [OF gives_until_loop]) auto

lemma gives_many [sound]: "gives read ef ed p V \<Longrightarrow> gives read ef ed (many op p cl) (wf_some V)"
  unfolding many_def
  by (rule gives_bnd [OF gives_expect_token], rule gives_bnd, assumption, rule gives_with_fuel,
      rule gives_weaken [OF gives_until_loop [of _ _ p V]]) (auto simp: wf_some_def)

lemma gives_optional_many [sound]:
  "gives read ef ed p V \<Longrightarrow> gives read ef ed (optional_many op p cl) (wf_list V)"
  unfolding optional_many_def
  by (rule gives_bnd [OF gives_expect_optional_token], rule gives_if, rule gives_bnd, assumption,
      rule gives_bnd [OF gives_with_fuel], rule gives_until_loop [of _ _ p V])
     (auto simp: wf_some_def intro!: gives_ret)

lemma gives_delimited_many [sound]:
  "gives read ef ed p V \<Longrightarrow> gives read ef ed (delimited_many d p) (wf_some V)"
  unfolding delimited_many_def
  by (intro gives_bnd [OF gives_expect_optional_token] gives_with_fuel gives_delimited_loop) auto

section \<open>One fact per parsing method\<close>

lemma gives_parse_name [sound]: "gives read ef ed parse_name wf_name"
  unfolding parse_name_def
  by (rule sound)+ (auto simp: wf_name_def tok_ok_def value_or_empty_def)

text \<open>The name read is the value of the token that was current.\<close>

lemma gives_on_parse_name:
  "gives_on read ef ed t parse_name (\<lambda>n. wf_name n \<and> tok_value t = Some (name_value n))"
proof -
  have "gives_on read ef ed t (expect_token NAME) (\<lambda>u. u = t \<and> tok_ok t \<and> tok_kind t = NAME)"
    unfolding expect_token_def
  proof (rule gives_on_bnd_cur_token)
    show "gives_on read ef ed t (if tok_kind t = NAME then bnd advance_lexer (\<lambda>_. ret t)
        else fail e) (\<lambda>u. u = t \<and> tok_ok t \<and> tok_kind t = NAME)" for e
    proof (rule gives_onI)
      fix st x st' assume st: "stream_ok read ef ed st" "ps_token st = t"
        and r: "(if tok_kind t = NAME then bnd advance_lexer (\<lambda>_. ret t) else fail e) st = Inr (x, st')"
      from r have k: "tok_kind t = NAME" and r': "bnd advance_lexer (\<lambda>_. ret t) st = Inr (x, st')"
        by (auto simp: fail_def split: if_splits)
      from givesD [OF gives_bnd [OF gives_advance_lexer gives_ret [of "\<lambda>u. u = t"]] st(1) r'] k st
      show "stream_ok read ef ed st' \<and> x = t \<and> tok_ok t \<and> tok_kind t = NAME"
        by (simp add: stream_ok_def lexer_values_ok_def)
    qed
  qed
  then show ?thesis
    unfolding parse_name_def
    by (rule gives_on_bnd) ((rule sound)+, auto simp: wf_name_def tok_ok_def value_or_empty_def)
qed

lemma gives_parse_named_type [sound]: "gives read ef ed parse_named_type wf_named_type"
  unfolding parse_named_type_def by (rule sound)+ (simp add: wf_named_type_def)

lemma gives_parse_variable [sound]: "gives read ef ed parse_variable wf_variable"
  unfolding parse_variable_def by (rule sound)+ (simp add: wf_variable_def)

lemma gives_parse_string_literal [sound]: "gives read ef ed parse_string_literal wf_string"
  unfolding parse_string_literal_def by (rule sound)+ (simp add: wf_string_def)

lemma gives_parse_variable_value:
  "gives read ef ed (parse_variable_value c) (\<lambda>v. \<not> c \<and> wf_variable v)"
  unfolding parse_variable_value_def
  by (rule gives_if, (rule sound)+) (rule gives_weaken [OF gives_parse_variable], simp)

text \<open>The methods for a token whose kind the caller has checked.\<close>

lemma gives_on_checked:
  assumes "tok_ok t"
  shows "tok_kind t = INT' \<Longrightarrow> gives_on read ef ed t parse_int (wf_value c)"
    and "tok_kind t = FLOAT \<Longrightarrow> gives_on read ef ed t parse_float (wf_value c)"
    and "tok_kind t = NAME \<Longrightarrow> gives_on read ef ed t parse_named_values (wf_value c)"
  unfolding parse_int_def parse_float_def parse_named_values_def Let_def
  by (rule gives_on_bnd_cur_token, rule gives_on_gives, (rule sound)+,
      use assms in \<open>auto simp: tok_ok_def value_or_empty_def reserved_values_def
        intro!: gives_ret\<close>)+

lemma gives_parse_value_literal_fuel:
  "gives read ef ed (parse_value_literal_fuel n c) (wf_value c)"
proof (induction n arbitrary: c)
  case (Suc n)
  have field: "gives read ef ed (parse_object_field (parse_value_literal_fuel n) c) (wf_object_field c)"
    unfolding parse_object_field_def by (rule sound Suc.IH)+ simp
  have "gives read ef ed (parse_list (parse_value_literal_fuel n) c) (wf_value c)"
    unfolding parse_list_def by (rule sound Suc.IH)+ simp
  moreover have "gives read ef ed (parse_object (parse_value_literal_fuel n) c) (wf_value c)"
    unfolding parse_object_def by (rule sound field)+ simp
  moreover have "gives read ef ed (bnd parse_string_literal (\<lambda>s. ret (StringValue s))) (wf_value c)"
    by (rule sound)+ simp
  moreover have "gives read ef ed (bnd (parse_variable_value c) (\<lambda>v. ret (VariableValue v))) (wf_value c)"
    by (rule sound gives_parse_variable_value)+ simp
  ultimately show ?case
    unfolding parse_value_literal_fuel.simps
    by (intro gives_cur_token)
       (auto intro: gives_on_gives gives_on_checked gives_reading split: token_kind.split)
qed (simp add: gives_fail)

lemma gives_parse_value_literal [sound]: "gives read ef ed (parse_value_literal c) (wf_value c)"
  unfolding parse_value_literal_def by (intro gives_with_fuel gives_parse_value_literal_fuel)

lemma gives_parse_const_value_literal [sound]:
  "gives read ef ed parse_const_value_literal (wf_value True)"
  unfolding parse_const_value_literal_def by (rule gives_parse_value_literal)

lemma gives_parse_argument [sound]: "gives read ef ed (parse_argument c) (wf_argument c)"
  unfolding parse_argument_def by (rule sound)+ simp

lemma gives_parse_const_argument [sound]: "gives read ef ed parse_const_argument (wf_argument True)"
  unfolding parse_const_argument_def by (rule gives_parse_argument)

lemma gives_parse_arguments [sound]:
  "gives read ef ed (parse_arguments c) (wf_list (wf_argument c))"
  unfolding parse_arguments_def Let_def by (cases c) (simp_all add: gives_parse_argument
      gives_parse_const_argument gives_optional_many)

lemma gives_parse_fragment_argument [sound]:
  "gives read ef ed parse_fragment_argument wf_fragment_argument"
  unfolding parse_fragment_argument_def by (rule sound)+ simp

lemma gives_parse_fragment_arguments [sound]:
  "gives read ef ed parse_fragment_arguments (wf_list wf_fragment_argument)"
  unfolding parse_fragment_arguments_def by (rule sound)+

lemma gives_parse_directive [sound]: "gives read ef ed (parse_directive c) (wf_directive c)"
  unfolding parse_directive_def by (rule sound)+ simp

lemma gives_parse_directives [sound]:
  "gives read ef ed (parse_directives c) (wf_list (wf_directive c))"
  unfolding parse_directives_def
  by (rule gives_bnd [OF gives_with_fuel [OF gives_peek_loop [OF gives_parse_directive]]])
     (auto intro!: gives_ret simp: wf_some_def)

lemma gives_parse_const_directives [sound]:
  "gives read ef ed parse_const_directives (wf_list (wf_directive True))"
  unfolding parse_const_directives_def by (rule gives_parse_directives)

lemma gives_parse_type_reference_fuel: "gives read ef ed (parse_type_reference_fuel n) wf_type"
proof (induction n)
  case (Suc n)
  let ?named = "\<lambda>t. wf_type t \<and> (\<forall>t' l'. t \<noteq> NonNullTypeNode t' l')"
  have item: "gives read ef ed (if b then
      bnd (parse_type_reference_fuel n) (\<lambda>inner_type.
      bnd (expect_token BRACKET_R) (\<lambda>_. bnd (loc_from start) (\<lambda>l. ret (ListTypeNode inner_type l))))
    else bnd parse_named_type (\<lambda>t. ret (NamedType t))) ?named" for b start
    by (rule gives_if; (rule sound Suc.IH)+; simp)
  show ?case
    unfolding parse_type_reference_fuel.simps
    by (rule gives_bnd [OF gives_reading(1)], rule gives_bnd [OF gives_expect_optional_token],
        rule gives_bnd [OF item], rule gives_bnd [OF gives_expect_optional_token], rule gives_if)
       ((rule sound)+, simp)+
qed (simp add: gives_fail)

lemma gives_parse_type_reference [sound]: "gives read ef ed parse_type_reference wf_type"
  unfolding parse_type_reference_def by (intro gives_with_fuel gives_parse_type_reference_fuel)

lemma gives_true [sound]:
  "gives read ef ed parse_operation_type (\<lambda>_. True)"
  "gives read ef ed peek_description (\<lambda>_. True)"
  unfolding parse_operation_type_def peek_description_def
  by (rule sound TrueI)+

lemma gives_parse_description [sound]: "gives read ef ed parse_description (wf_opt wf_string)"
  unfolding parse_description_def by (rule sound)+

lemma gives_parse_default_value [sound]:
  "gives read ef ed parse_default_value (wf_opt (wf_value True))"
  unfolding parse_default_value_def by (rule sound)+

lemma gives_parse_variable_definition [sound]:
  "gives read ef ed parse_variable_definition wf_variable_definition"
  unfolding parse_variable_definition_def by (rule sound)+ simp

lemma gives_parse_variable_definitions [sound]:
  "gives read ef ed parse_variable_definitions (wf_list wf_variable_definition)"
  unfolding parse_variable_definitions_def by (rule sound)+

lemma gives_parse_fragment_name [sound]: "gives read ef ed parse_fragment_name wf_fragment_name"
proof -
  have "gives_on read ef ed t (if tok_value t = Some (str ''on'') then unexpected else parse_name)
      wf_fragment_name" for t
  proof (cases "tok_value t = Some (str ''on'')")
    case False
    show ?thesis
    proof (rule gives_onI)
      fix st n st' assume st: "stream_ok read ef ed st" "ps_token st = t"
        and r: "(if tok_value t = Some (str ''on'') then unexpected else parse_name) st = Inr (n, st')"
      from r False have "parse_name st = Inr (n, st')" by simp
      from gives_onD [OF gives_on_parse_name st this] False
      show "stream_ok read ef ed st' \<and> wf_fragment_name n" by (auto simp: wf_fragment_name_def)
    qed
  qed (simp add: gives_on_gives gives_reading)
  then show ?thesis unfolding parse_fragment_name_def by (rule gives_cur_token)
qed

lemma gives_parse_type_condition [sound]: "gives read ef ed parse_type_condition wf_named_type"
  unfolding parse_type_condition_def by (rule sound)+

lemma gives_parse_field:
  assumes "gives read ef ed pss (wf_selection_set ef)"
  shows "gives read ef ed (parse_field pss) (wf_selection ef)"
proof -
  have named: "gives read ef ed (if b then bnd parse_name (\<lambda>name. ret (Some a, name)) else ret (None, a))
      (\<lambda>(al, n). wf_opt wf_name al \<and> wf_name n)" if "wf_name a" for a b
    by (rule gives_if; (rule sound)+; simp add: that)
  show ?thesis
    unfolding parse_field_def
    by (rule gives_bnd [OF gives_reading(1)], rule gives_bnd [OF gives_parse_name],
        rule gives_bnd [OF gives_expect_optional_token], rule gives_bnd [OF named], assumption,
        rule gives_prod, (rule sound assms)+) (auto split: option.split simp: wf_opt_def)
qed

lemma gives_parse_fragment:
  assumes "gives read ef ed pss (wf_selection_set ef)"
  shows "gives read ef ed (parse_fragment pss) (wf_selection ef)"
  unfolding parse_fragment_def by (((rule sound assms)+)?, simp)+

lemma gives_parse_selection_set_fuel:
  "gives read ef ed (parse_selection_set_fuel n) (wf_selection_set ef)"
proof (induction n)
  case (Suc n)
  have selection: "gives read ef ed (parse_selection (parse_selection_set_fuel n)) (wf_selection ef)"
    unfolding parse_selection_def
    by (rule sound Suc.IH gives_parse_field gives_parse_fragment)+
  show ?case
    unfolding parse_selection_set_fuel.simps by (rule sound selection)+ (simp add: wf_some_def)
qed (simp add: gives_fail)

lemma gives_parse_selection_set [sound]:
  "gives read ef ed parse_selection_set (wf_selection_set ef)"
  unfolding parse_selection_set_def by (intro gives_with_fuel gives_parse_selection_set_fuel)

lemma gives_parse_operation_definition [sound]:
  "gives read ef ed parse_operation_definition (wf_operation ef)"
  unfolding parse_operation_definition_def by ((rule sound)+, simp)+

lemma gives_parse_fragment_definition [sound]:
  "gives read ef ed parse_fragment_definition (wf_fragment ef)"
proof -
  have vds: "gives read ef ed (if b then parse_variable_definitions else ret (Some []))
      (\<lambda>v. if ef then wf_list wf_variable_definition v else v = Some [])" if "b = ef" for b
    using that by (cases b) (simp_all add: sound)
  show ?thesis
    unfolding parse_fragment_definition_def
    by (rule sound vds | assumption)+ simp
qed

section \<open>Type system definitions, documents, coordinates\<close>

lemma gives_schema_items [sound]:
  "gives read ef ed parse_operation_type_definition wf_operation_type_definition"
  "gives read ef ed parse_input_value_def wf_input_value_definition"
  unfolding parse_operation_type_definition_def parse_input_value_def_def
  by ((rule sound)+, simp)+

lemma gives_parse_implements_interfaces [sound]:
  "gives read ef ed parse_implements_interfaces (wf_list wf_named_type)"
  unfolding parse_implements_interfaces_def by (rule sound)+

lemma gives_parse_argument_defs [sound]:
  "gives read ef ed parse_argument_defs (wf_list wf_input_value_definition)"
  unfolding parse_argument_defs_def by (rule sound)+

lemma gives_parse_field_definition [sound]:
  "gives read ef ed parse_field_definition wf_field_definition"
  unfolding parse_field_definition_def by (rule sound)+ simp

lemma gives_parse_enum_value_name [sound]:
  "gives read ef ed parse_enum_value_name (\<lambda>n. wf_name n \<and> name_value n \<notin> reserved_values)"
proof -
  let ?reserved = "\<lambda>t. tok_value t \<in> {Some (str ''true''), Some (str ''false''), Some (str ''null'')}"
  have "gives_on read ef ed t (if ?reserved t then fail e else parse_name)
      (\<lambda>n. wf_name n \<and> name_value n \<notin> reserved_values)" for t e
  proof (cases "?reserved t")
    case False
    show ?thesis
    proof (rule gives_onI)
      fix st n st' assume st: "stream_ok read ef ed st" "ps_token st = t"
        and r: "(if ?reserved t then fail e else parse_name) st = Inr (n, st')"
      from r False have "parse_name st = Inr (n, st')" by simp
      from gives_onD [OF gives_on_parse_name st this] False
      show "stream_ok read ef ed st' \<and> wf_name n \<and> name_value n \<notin> reserved_values"
        by (auto simp: reserved_values_def)
    qed
  qed (simp add: gives_on_gives gives_fail)
  then show ?thesis unfolding parse_enum_value_name_def by (rule gives_cur_token)
qed

lemma gives_parse_enum_value_definition [sound]:
  "gives read ef ed parse_enum_value_definition wf_enum_value_definition"
  unfolding parse_enum_value_definition_def by (rule sound)+ simp

lemma gives_parse_directive_location [sound]:
  "gives read ef ed parse_directive_location
     (\<lambda>n. name_value n \<in> set (map str DirectiveLocation_members))"
  unfolding parse_directive_location_def
  by (rule gives_bnd [OF gives_reading(1)], rule gives_bnd [OF gives_parse_name], rule gives_if;
      rule sound) simp

lemma gives_schema_parts [sound]:
  "gives read ef ed parse_fields_definition (wf_list wf_field_definition)"
  "gives read ef ed parse_union_member_types (wf_list wf_named_type)"
  "gives read ef ed parse_enum_values_definition (wf_list wf_enum_value_definition)"
  "gives read ef ed parse_input_fields_definition (wf_list wf_input_value_definition)"
  "gives read ef ed parse_directive_locations
     (wf_some (\<lambda>n. name_value n \<in> set (map str DirectiveLocation_members)))"
  unfolding parse_fields_definition_def parse_union_member_types_def
    parse_enum_values_definition_def parse_input_fields_definition_def parse_directive_locations_def
  by (rule sound)+

lemma gives_type_definitions [sound]:
  "gives read ef ed parse_schema_definition (wf_definition ef ed)"
  "gives read ef ed parse_scalar_type_definition (wf_definition ef ed)"
  "gives read ef ed parse_object_type_definition (wf_definition ef ed)"
  "gives read ef ed parse_interface_type_definition (wf_definition ef ed)"
  "gives read ef ed parse_union_type_definition (wf_definition ef ed)"
  "gives read ef ed parse_enum_type_definition (wf_definition ef ed)"
  "gives read ef ed parse_input_object_type_definition (wf_definition ef ed)"
  unfolding parse_schema_definition_def parse_scalar_type_definition_def
    parse_object_type_definition_def parse_interface_type_definition_def
    parse_union_type_definition_def parse_enum_type_definition_def
    parse_input_object_type_definition_def
  by ((rule sound)+, simp)+

lemma gives_parse_directive_definition [sound]:
  "gives read ef ed parse_directive_definition (wf_definition ef ed)"
proof -
  have directives: "gives read ef ed (if b then parse_const_directives else ret None)
      (\<lambda>ds. wf_list (wf_directive True) ds \<and> (ds \<noteq> None \<longrightarrow> ed))" if "b = ed" for b
    using that gives_weaken [OF gives_parse_const_directives] by (cases b) (simp_all add: sound)
  show ?thesis
    unfolding parse_directive_definition_def by (rule sound directives | assumption)+ simp
qed

lemma is_given_iff: "is_given x \<longleftrightarrow> (\<exists>ys. x = Some ys \<and> ys \<noteq> [])"
  by (auto simp: is_given_def split: option.splits)

lemma gives_type_extensions [sound]:
  "gives read ef ed parse_schema_extension (wf_definition ef ed)"
  "gives read ef ed parse_scalar_type_extension (wf_definition ef ed)"
  "gives read ef ed parse_object_type_extension (wf_definition ef ed)"
  "gives read ef ed parse_interface_type_extension (wf_definition ef ed)"
  "gives read ef ed parse_union_type_extension (wf_definition ef ed)"
  "gives read ef ed parse_enum_type_extension (wf_definition ef ed)"
  "gives read ef ed parse_input_object_type_extension (wf_definition ef ed)"
  unfolding parse_schema_extension_def parse_scalar_type_extension_def
    parse_object_type_extension_def parse_interface_type_extension_def
    parse_union_type_extension_def parse_enum_type_extension_def
    parse_input_object_type_extension_def
  by ((rule sound)+, auto simp: is_given_iff)+

lemma gives_parse_directive_definition_extension:
  assumes ed
  shows "gives read ef ed parse_directive_definition_extension (wf_definition ef ed)"
  unfolding parse_directive_definition_extension_def
  by ((rule sound)+, use assms in \<open>auto simp: is_given_iff\<close>)

lemma gives_method_for:
  assumes "method_for ms v = Some m" and "\<And>m. m \<in> set (map snd ms) \<Longrightarrow> gives read ef ed m V"
  shows "gives read ef ed m V"
  using assms by (force simp: method_for_def split: option.splits dest!: map_of_SomeD)

lemma gives_parse_type_system_extension [sound]:
  "gives read ef ed parse_type_system_extension (wf_definition ef ed)"
proof -
  have m: "gives read ef ed m (wf_definition ef ed)"
    if "method_for parse_type_extension_methods v = Some m" for v m ed
    using that by (rule gives_method_for) (auto simp: parse_type_extension_methods_def sound)
  show ?thesis
    unfolding parse_type_system_extension_def
    by (rule gives_bnd [OF gives_lexer_lookahead],
        rule gives_bnd [OF gives_reading(7)])
       (auto intro: gives_parse_directive_definition_extension simp: m gives_reading
         split: option.split)
qed

lemma gives_parse_definition [sound]: "gives read ef ed parse_definition (wf_definition ef ed)"
proof -
  let ?wf = "wf_definition ef ed"
  have op: "gives read ef ed (bnd parse_operation_definition (\<lambda>d. ret (OperationDefinition d))) ?wf"
    by (rule sound)+ simp
  have fr: "gives read ef ed (bnd parse_fragment_definition (\<lambda>d. ret (FragmentDefinition d))) ?wf"
    by (rule sound)+ simp
  have m1: "gives read ef ed m ?wf"
    if "method_for parse_type_system_definition_methods v = Some m" for v m
    using that by (rule gives_method_for) (auto simp: parse_type_system_definition_methods_def sound)
  have m2: "gives read ef ed m ?wf"
    if "method_for parse_executable_definition_methods v = Some m" for v m
    using that by (rule gives_method_for)
      (auto simp: parse_executable_definition_methods_def Let_def op fr)
  have m3: "gives read ef ed m ?wf"
    if "method_for parse_other_definition_methods v = Some m" for v m
    using that by (rule gives_method_for) (auto simp: parse_other_definition_methods_def sound)
  have err: "gives read ef ed (description_error msg) ?wf" for msg
    unfolding description_error_def by (rule sound)+
  have keyword: "gives read ef ed (if b then lexer_lookahead else cur_token) tok_ok" for b
    by (simp add: gives_lexer_lookahead gives_reading)
  show ?thesis
    unfolding parse_definition_def
    by (rule gives_bnd [OF gives_reading(2)], rule gives_if, rule op,
        rule gives_bnd [OF gives_true(2)], rule gives_bnd [OF keyword])
       (simp add: m1 m2 m3 err gives_reading split: option.split)
qed

lemma gives_parse_document [sound]: "gives read ef ed parse_document (wf_document ef ed)"
  unfolding parse_document_def
  by (rule sound gives_get_true)+ (simp add: wf_document_def)

lemma gives_parse_schema_coordinate_node [sound]:
  "gives read ef ed parse_schema_coordinate_node wf_coordinate"
proof -
  have dot: "gives read ef ed (if b then expect_optional_token k else ret False) (\<lambda>_. True)" for b k
    by (simp add: sound)
  have arg: "gives read ef ed (bnd parse_name (\<lambda>a.
      bnd (expect_token COLON) (\<lambda>_. bnd (expect_token PAREN_R) (\<lambda>_. ret a)))) wf_name"
    by (rule sound | assumption)+
  show ?thesis
    unfolding parse_schema_coordinate_node_def
    by (rule gives_bnd [OF gives_reading(1)], rule gives_bnd [OF gives_expect_optional_token],
        rule gives_bnd [OF gives_parse_name], rule gives_bnd [OF dot],
        rule gives_bnd [OF gives_opt_if [OF gives_parse_name]], rule gives_bnd [OF dot],
        rule gives_bnd [OF gives_opt_if [OF arg]], rule gives_bnd [OF gives_reading(3)],
        rule gives_ret)
       (auto split: option.splits)
qed

lemma gives_whole_input:
  assumes "gives read ef ed m V"
  shows "gives read ef ed (whole_input m) V"
  unfolding whole_input_def by (rule sound assms | assumption)+

text \<open>A method run on a new parser object.\<close>

lemma stream_ok_init:
  "stream_ok read (opt_experimental_fragment_arguments opts)
     (opt_experimental_directives_on_directive_definitions opts)
     (Parser_init (Lexer_init read source) opts)"
  using lexer_ok_init by (auto simp: stream_ok_def lexer_values_ok_def Parser_init_def Lexer_init_def
      sof_token_def tok_ok_def)

lemma run_parser_gives:
  assumes "\<And>ef ed. gives read ef ed m (V ef ed)" and "run_parser read source opts m = Inr x"
  shows "V (opt_experimental_fragment_arguments opts)
    (opt_experimental_directives_on_directive_definitions opts) x"
proof -
  from assms(2) obtain st' where "m (Parser_init (Lexer_init read source) opts) = Inr (x, st')"
    by (cases "m (Parser_init (Lexer_init read source) opts)") (auto simp: run_parser_def)
  from givesD [OF assms(1) stream_ok_init this] show ?thesis by simp
qed

end

section \<open>The entry points\<close>

text \<open>
  C2.  Every document the parser accepts is a tree of the grammar: names, numbers and enum values
  are in their lexical classes (no enum value is \<open>true\<close>, \<open>false\<close> or \<open>null\<close>), lists that the grammar
  requires are not empty, no non-null type wraps a non-null type, no fragment is called \<open>on\<close>, default
  values and directives of definitions are free of variables at any depth, extensions extend
  something, and the experimental syntax occurs only when its option is set.
\<close>

theorem parse_sound:
  assumes "parse source opts = Inr doc"
  shows "wf_document (opt_experimental_fragment_arguments opts)
    (opt_experimental_directives_on_directive_definitions opts) doc"
  using std_values.run_parser_gives [OF std_values.gives_parse_document] assms
  by (simp add: parse_def)

text \<open>The document \<open>{a}\<close>.\<close>

lemma parse_sound_witness:
  "\<exists>doc. parse (source_of (str ''{a}'')) default_options = Inr doc \<and> wf_document False False doc"
proof -
  have "isl (parse (source_of (str ''{a}'')) default_options) = False" by code_simp
  then obtain doc where "parse (source_of (str ''{a}'')) default_options = Inr doc"
    by (cases "parse (source_of (str ''{a}'')) default_options") auto
  with parse_sound [OF this] show ?thesis by (auto simp: default_options_def)
qed

end
