(* ===== verification/Parser_Complete.thy ===== *)
theory Parser_Complete
  imports Ast_Tokens Parser_Sound
begin

text \<open>
  The parser is complete: from an object whose lexer will give the tokens of a well-formed tree, followed
  by tokens that do not continue it, each method reads exactly those tokens and returns the tree.
  \<open>parses ... m ts x rest\<close> says this of a method \<open>m\<close>, the tokens \<open>ts\<close>, the result \<open>x\<close> and the tokens
  \<open>rest\<close> behind them.
\<close>

named_theorems complete \<open>facts \<open>parses (bnd m f) ts y rest\<close> for the combinators and the methods\<close>

section \<open>The tokens a lexer will give\<close>

fun feeds :: "lexer \<Rightarrow> kv list \<Rightarrow> bool" where
  "feeds lx [] \<longleftrightarrow> False"
| "feeds lx [x] \<longleftrightarrow> kv (lx_token lx) = x \<and> fst x = EOF"
| "feeds lx (x # y # ys) \<longleftrightarrow> kv (lx_token lx) = x \<and> fst x \<noteq> EOF
     \<and> (\<exists>t lx'. advance lx = Inr (t, lx') \<and> feeds lx' (y # ys))"

lemma feeds_Nil [simp]: "feeds lx ts \<Longrightarrow> ts \<noteq> []"
  by (cases ts) auto

lemma feeds_hd: "feeds lx ts \<Longrightarrow> kv (lx_token lx) = hd ts"
  by (cases "(lx, ts)" rule: feeds.cases) auto

lemma feeds_Cons:
  "fst x \<noteq> EOF \<Longrightarrow> feeds lx (x # ts) \<longleftrightarrow>
     kv (lx_token lx) = x \<and> (\<exists>t lx'. advance lx = Inr (t, lx') \<and> feeds lx' ts)"
  by (cases ts) auto

lemma feeds_EOF: "feeds lx ts \<Longrightarrow> 1 \<le> length ts \<and> (tok_kind (lx_token lx) = EOF \<longleftrightarrow> length ts = 1)"
  by (cases "(lx, ts)" rule: feeds.cases) auto

text \<open>A reader that reads \<open>xs\<close> from the current position on feeds them.\<close>

lemma reads_feeds:
  assumes "reads (lx_read_next_token lx) (lx_source lx) (tok_end (lx_token lx)) xs"
    and "lx_links lx = []" and "tok_kind (lx_token lx) \<noteq> EOF"
  shows "feeds lx (kv (lx_token lx) # xs @ [(EOF, None)])"
  using assms
proof (induction xs arbitrary: lx)
  case Nil
  from Nil.prems(1) obtain t lp where
    "lx_read_next_token lx (lx_source lx) (lx_lpos lx) (tok_end (lx_token lx)) = Inr (t, lp)"
    "kv t = (EOF, None)"
    by (metis reads.simps(1))
  with Nil.prems show ?case
    by (auto simp: advance_def lookahead_def lookahead_fuel_def Let_def)
next
  case (Cons x xs)
  from Cons.prems(1) obtain t lp where
    t: "lx_read_next_token lx (lx_source lx) (lx_lpos lx) (tok_end (lx_token lx)) = Inr (t, lp)"
    "kv t = x" "fst x \<notin> {EOF, COMMENT}" "reads (lx_read_next_token lx) (lx_source lx) (tok_end t) xs"
    by (metis reads.simps(2))
  let ?lx' = "lx\<lparr>lx_last_token := lx_token lx, lx_lpos := lp, lx_links := [], lx_token := t\<rparr>"
  have "advance lx = Inr (t, ?lx')"
    using Cons.prems(2,3) t by (auto simp: advance_def lookahead_def lookahead_fuel_def Let_def)
  moreover have "feeds ?lx' (kv t # xs @ [(EOF, None)])"
    using t by (intro Cons.IH [of ?lx', simplified]) auto
  ultimately show ?case using Cons.prems(3) t(2) by (auto simp: feeds_Cons)
qed

lemma lookahead_feeds:
  assumes "feeds lx (x # y # ts)"
  shows "\<exists>t lx'. lookahead lx = Inr (t, lx') \<and> kv t = y \<and> feeds lx' (x # y # ts)"
proof -
  from assms have x: "kv (lx_token lx) = x" "fst x \<noteq> EOF"
    and a: "\<exists>t lx'. advance lx = Inr (t, lx') \<and> feeds lx' (y # ts)" by auto
  then obtain t lx' where a': "advance lx = Inr (t, lx')" "feeds lx' (y # ts)" by auto
  then obtain lx1 where l: "lookahead lx = Inr (t, lx1)" and "lx_token lx' = t"
    by (cases "lookahead lx") (auto simp: advance_def lookahead_last_token)
  with feeds_hd [OF a'(2)] advance_after_lookahead [OF l] lookahead_frame [OF l] x a
  show ?thesis by auto
qed

section \<open>The judgement\<close>

definition ready :: "reader \<Rightarrow> bool \<Rightarrow> bool \<Rightarrow> nat \<Rightarrow> parser_state \<Rightarrow> kv list \<Rightarrow> bool" where
  "ready read ef ed c st ts \<longleftrightarrow>
     lx_read_next_token (p_lexer st) = read \<and> lexer_ok (p_lexer st) \<and> feeds (p_lexer st) ts
     \<and> p_no_location st \<and> p_max_tokens st = None \<and> p_experimental_fragment_arguments st = ef
     \<and> p_experimental_directives_on_directive_definitions st = ed
     \<and> p_token_counter st + max 2 (length ts) = c"

definition parses :: "reader \<Rightarrow> bool \<Rightarrow> bool \<Rightarrow> 'a parser \<Rightarrow> kv list \<Rightarrow> 'a \<Rightarrow> kv list \<Rightarrow> bool" where
  "parses read ef ed m ts x rest \<longleftrightarrow>
     (\<forall>c st. ready read ef ed c st (ts @ rest) \<longrightarrow> (\<exists>st'. m st = Inr (x, st') \<and> ready read ef ed c st' rest))"

lemma parsesI:
  "(\<And>c st. ready read ef ed c st (ts @ rest) \<Longrightarrow> \<exists>st'. m st = Inr (x, st') \<and> ready read ef ed c st' rest)
     \<Longrightarrow> parses read ef ed m ts x rest"
  unfolding parses_def by blast

lemma parsesD:
  "parses read ef ed m ts x rest \<Longrightarrow> ready read ef ed c st (ts @ rest) \<Longrightarrow>
     \<exists>st'. m st = Inr (x, st') \<and> ready read ef ed c st' rest"
  unfolding parses_def by blast

lemma parses_ret [complete]: "parses read ef ed (ret x) [] x rest"
  by (rule parsesI) (simp add: ret_def)

lemma parses_bnd:
  assumes "parses read ef ed m ts x (us @ rest)" and "parses read ef ed (f x) us y rest"
  shows "parses read ef ed (bnd m f) (ts @ us) y rest"
proof (rule parsesI)
  fix c st assume "ready read ef ed c st ((ts @ us) @ rest)"
  then obtain st1 where "m st = Inr (x, st1)" "ready read ef ed c st1 (us @ rest)"
    using parsesD [OF assms(1)] by auto
  then show "\<exists>st'. bnd m f st = Inr (y, st') \<and> ready read ef ed c st' rest"
    using parsesD [OF assms(2)] by (simp add: bnd_def)
qed

text \<open>A method that takes no token; and the tail of a method.\<close>

lemma parses_bnd_Nil:
  "parses read ef ed m [] x (us @ rest) \<Longrightarrow> parses read ef ed (f x) us y rest \<Longrightarrow>
     parses read ef ed (bnd m f) us y rest"
  using parses_bnd [of read ef ed m "[]" x us rest f y] by simp

lemma parses_bnd_last:
  "parses read ef ed m ts x rest \<Longrightarrow> parses read ef ed (f x) [] y rest \<Longrightarrow>
     parses read ef ed (bnd m f) ts y rest"
  using parses_bnd [of read ef ed m ts x "[]" rest f y] by simp

lemma parses_bnd_ret:
  "parses read ef ed m ts x rest \<Longrightarrow> f x = ret y \<Longrightarrow> parses read ef ed (bnd m f) ts y rest"
  by (erule parses_bnd_last) (simp add: parses_ret)

lemma parses_bnd_Cons:
  "parses read ef ed m [t] x (us @ rest) \<Longrightarrow> parses read ef ed (f x) us y rest \<Longrightarrow>
     parses read ef ed (bnd m f) (t # us) y rest"
  using parses_bnd [of read ef ed m "[t]" x us rest f y] by simp

lemma bnd_ret [simp]: "bnd (ret x) f = f x"
  by (simp add: bnd_def ret_def fun_eq_iff)

lemma bnd_assoc: "bnd (bnd m f) g = bnd m (\<lambda>x. bnd (f x) g)"
  by (auto simp: bnd_def bind_result_def fun_eq_iff split: sum.split)

text \<open>The current token.\<close>

lemma parses_cur_token:
  assumes "\<And>t. kv t = hd (ts @ rest) \<Longrightarrow> parses read ef ed (f t) ts y rest"
  shows "parses read ef ed (bnd cur_token f) ts y rest"
proof (rule parsesI)
  fix c st assume st: "ready read ef ed c st (ts @ rest)"
  then have "kv (ps_token st) = hd (ts @ rest)" by (simp add: ready_def feeds_hd)
  from parsesD [OF assms [OF this] st] show
    "\<exists>st'. bnd cur_token f st = Inr (y, st') \<and> ready read ef ed c st' rest"
    by (simp add: bnd_cur_token)
qed

text \<open>When the method uses the token for the location only.\<close>

lemma parses_start [complete]:
  "(\<And>t. parses read ef ed (f t) ts y rest) \<Longrightarrow> parses read ef ed (bnd cur_token f) ts y rest"
  by (rule parses_cur_token)

lemma parses_loc_from [complete]:
  assumes "parses read ef ed (f None) ts y rest"
  shows "parses read ef ed (bnd (loc_from t) f) ts y rest"
proof (rule parsesI)
  fix c st assume st: "ready read ef ed c st (ts @ rest)"
  then have "p_no_location st" by (simp add: ready_def)
  with parsesD [OF assms st] show
    "\<exists>st'. bnd (loc_from t) f st = Inr (y, st') \<and> ready read ef ed c st' rest"
    by (simp add: bnd_def loc_from_def get_def)
qed

lemma parses_peek [complete]:
  assumes "parses read ef ed (f (fst (hd (ts @ rest)) = k)) ts y rest"
  shows "parses read ef ed (bnd (peek k) f) ts y rest"
proof (rule parsesI)
  fix c st assume st: "ready read ef ed c st (ts @ rest)"
  then have "kv (ps_token st) = hd (ts @ rest)" by (simp add: ready_def feeds_hd)
  then have "tok_kind (ps_token st) = fst (hd (ts @ rest))" by (metis fst_conv)
  with parsesD [OF assms st] show
    "\<exists>st'. bnd (peek k) f st = Inr (y, st') \<and> ready read ef ed c st' rest"
    by (simp add: bnd_def peek_def get_def)
qed

lemma parses_options [complete]:
  "parses read ef ed (f ef) ts y rest \<Longrightarrow>
     parses read ef ed (bnd (get p_experimental_fragment_arguments) f) ts y rest"
  "parses read ef ed (f ed) ts y rest \<Longrightarrow>
     parses read ef ed (bnd (get p_experimental_directives_on_directive_definitions) f) ts y rest"
  unfolding parses_def by (simp_all add: bnd_def get_def ready_def)

lemma parses_with_fuel:
  assumes "\<And>n. length (ts @ rest) \<le> n \<Longrightarrow> parses read ef ed (f n) ts y rest"
    and "\<And>lx. feeds lx (ts @ rest) \<Longrightarrow> lexer_ok lx \<Longrightarrow> lx_read_next_token lx = read \<Longrightarrow>
      length (ts @ rest) \<le> Suc (lexer_rest lx)"
  shows "parses read ef ed (with_fuel f) ts y rest"
proof (rule parsesI)
  fix c st assume st: "ready read ef ed c st (ts @ rest)"
  then have "length (ts @ rest) \<le> parse_fuel st"
    using assms(2) [of "p_lexer st"] by (simp add: ready_def parse_fuel_def)
  from parsesD [OF assms(1) [OF this] st] show
    "\<exists>st'. with_fuel f st = Inr (y, st') \<and> ready read ef ed c st' rest"
    by (simp add: with_fuel_def)
qed

context token_reader
begin

lemma feeds_length:
  "feeds lx ts \<Longrightarrow> lexer_ok lx \<Longrightarrow> lx_read_next_token lx = read \<Longrightarrow> length ts \<le> Suc (lexer_rest lx)"
proof (induction ts arbitrary: lx)
  case (Cons x ts)
  show ?case
  proof (cases ts)
    case (Cons y ys)
    with Cons.prems obtain t lx' where x: "kv (lx_token lx) = x" "fst x \<noteq> EOF"
      and a: "advance lx = Inr (t, lx')" "feeds lx' ts" by auto
    from advance_spec [OF Cons.prems(3,2)] a x have
      "lexer_ok lx' \<and> lx_read_next_token lx' = read \<and> lexer_rest lx' < lexer_rest lx"
      using Cons.prems(3) by (auto simp: same_lexer_def)
    with Cons.IH [OF a(2)] show ?thesis by simp
  qed simp
qed simp

lemma parses_fuel:
  "(\<And>n. length (ts @ rest) \<le> n \<Longrightarrow> parses read ef ed (f n) ts y rest) \<Longrightarrow>
     parses read ef ed (with_fuel f) ts y rest"
  by (erule parses_with_fuel) (rule feeds_length)

lemma parses_advance:
  assumes "fst x \<noteq> EOF"
  shows "parses read ef ed advance_lexer [x] () rest"
proof (rule parsesI)
  fix c st assume st: "ready read ef ed c st ([x] @ rest)"
  with assms obtain t lx where a: "advance (p_lexer st) = Inr (t, lx)" "feeds lx rest"
    by (auto simp: ready_def feeds_Cons)
  have lx: "lexer_ok lx \<and> lx_read_next_token lx = read \<and> lx_token lx = t"
    using advance_spec [of "p_lexer st"] a(1) st by (auto simp: ready_def same_lexer_def)
  let ?n = "p_token_counter st"
  have counter: "(if tok_kind t \<noteq> EOF then Suc ?n else ?n) + max 2 (length rest) = ?n + max 2 (Suc (length rest))"
    using feeds_EOF [OF a(2)] lx by auto
  show "\<exists>st'. advance_lexer st = Inr ((), st') \<and> ready read ef ed c st' rest"
    using a lx st counter by (cases "tok_kind t = EOF") (auto simp: advance_lexer_def ready_def Let_def)
qed

lemma parses_advance_bnd [complete]:
  "fst x \<noteq> EOF \<Longrightarrow> parses read ef ed (f ()) ts y rest \<Longrightarrow>
     parses read ef ed (bnd advance_lexer f) (x # ts) y rest"
  by (rule parses_bnd_Cons [OF parses_advance])

lemma parses_expect_token [complete]:
  assumes "fst x = k" and "k \<noteq> EOF" and "\<And>t. kv t = x \<Longrightarrow> parses read ef ed (f t) ts y rest"
  shows "parses read ef ed (bnd (expect_token k) f) (x # ts) y rest"
  unfolding expect_token_def bnd_assoc
proof (rule parses_cur_token)
  fix t assume t: "kv t = hd ((x # ts) @ rest)"
  have "bnd (bnd advance_lexer (\<lambda>_. ret t)) f = bnd advance_lexer (\<lambda>_. f t)"
    by (simp add: bnd_assoc)
  then show "parses read ef ed (bnd (if tok_kind t = k then bnd advance_lexer (\<lambda>_. ret t)
      else fail (GraphQLSyntaxError (tok_start t) (str ''Expected '' @ get_token_kind_desc k
        @ str '', found '' @ get_token_desc t @ str ''.''))) f) (x # ts) y rest"
    using t assms by (auto intro!: parses_advance_bnd)
qed

text \<open>An optional token or keyword: it is there, or the first token is another one.\<close>

lemma parses_optional:
  assumes "\<And>t. tok_kind t = fst (hd (ts @ rest)) \<Longrightarrow> tok_value t = snd (hd (ts @ rest)) \<Longrightarrow> q t \<longleftrightarrow> b"
    and "b \<Longrightarrow> \<exists>x us. ts = x # us \<and> fst x \<noteq> EOF \<and> parses read ef ed (f True) us y rest"
    and "\<not> b \<Longrightarrow> parses read ef ed (f False) ts y rest"
  shows "parses read ef ed
    (bnd (bnd cur_token (\<lambda>t. if q t then bnd advance_lexer (\<lambda>_. ret True) else ret False)) f) ts y rest"
  unfolding bnd_assoc
proof (rule parses_cur_token)
  fix t assume t: "kv t = hd (ts @ rest)"
  have 1: "bnd (bnd advance_lexer (\<lambda>_. ret True)) f = bnd advance_lexer (\<lambda>_. f True)"
    by (simp add: bnd_assoc)
  have q: "q t \<longleftrightarrow> b" by (rule assms(1)) (use t in \<open>simp_all flip: t\<close>)
  show "parses read ef ed (bnd (if q t then bnd advance_lexer (\<lambda>_. ret True) else ret False) f)
      ts y rest"
    using q assms(2,3) by (cases b) (auto simp: 1 intro: parses_advance_bnd)
qed

lemma parses_expect_optional_token [complete]:
  assumes "if fst (hd (ts @ rest)) = k then ts \<noteq> [] \<and> k \<noteq> EOF \<and> parses read ef ed (f True) (tl ts) y rest
     else parses read ef ed (f False) ts y rest"
  shows "parses read ef ed (bnd (expect_optional_token k) f) ts y rest"
  unfolding expect_optional_token_def
proof (rule parses_optional [where b = "fst (hd (ts @ rest)) = k"])
  assume "fst (hd (ts @ rest)) = k"
  with assms show "\<exists>x us. ts = x # us \<and> fst x \<noteq> EOF \<and> parses read ef ed (f True) us y rest"
    by (cases ts) auto
next
  assume "fst (hd (ts @ rest)) \<noteq> k"
  with assms show "parses read ef ed (f False) ts y rest" by simp
next
  fix t assume "tok_kind t = fst (hd (ts @ rest))" "tok_value t = snd (hd (ts @ rest))"
  then show "(tok_kind t = k) \<longleftrightarrow> fst (hd (ts @ rest)) = k" by (cases "hd (ts @ rest)") auto
qed

lemma parses_expect_optional_keyword [complete]:
  assumes "if hd (ts @ rest) = word k then ts \<noteq> [] \<and> parses read ef ed (f True) (tl ts) y rest
     else parses read ef ed (f False) ts y rest"
  shows "parses read ef ed (bnd (expect_optional_keyword k) f) ts y rest"
  unfolding expect_optional_keyword_def
proof (rule parses_optional [where b = "hd (ts @ rest) = word k"])
  assume "hd (ts @ rest) = word k"
  with assms show "\<exists>x us. ts = x # us \<and> fst x \<noteq> EOF \<and> parses read ef ed (f True) us y rest"
    by (cases ts) auto
next
  assume "hd (ts @ rest) \<noteq> word k"
  with assms show "parses read ef ed (f False) ts y rest" by simp
next
  fix t assume "tok_kind t = fst (hd (ts @ rest))" "tok_value t = snd (hd (ts @ rest))"
  then show "(tok_kind t = NAME \<and> tok_value t = Some (str k)) \<longleftrightarrow> hd (ts @ rest) = word k" by (cases "hd (ts @ rest)") auto
qed

lemma parses_expect_keyword [complete]:
  assumes "parses read ef ed (f ()) ts y rest"
  shows "parses read ef ed (bnd (expect_keyword k) f) (word k # ts) y rest"
  unfolding expect_keyword_def bnd_assoc
  by (rule parses_cur_token) (use assms in \<open>auto intro!: parses_advance_bnd\<close>)

text \<open>The statements about the methods themselves.\<close>

lemma bnd_ret_right: "bnd m ret = m"
  by (auto simp: bnd_def ret_def bind_result_def fun_eq_iff split: sum.split)

lemma parses_by_bnd: "parses read ef ed (bnd m ret) ts x rest \<Longrightarrow> parses read ef ed m ts x rest"
  by (simp add: bnd_ret_right)

section \<open>Loops\<close>

text \<open>
  \<open>items\<close>: the method reads each element of a list, if the tokens behind it begin with one that \<open>ok\<close>
  allows; an element begins with such a token, and not with a closing one.
\<close>

definition items :: "bool \<Rightarrow> bool \<Rightarrow> 'a parser \<Rightarrow> ('a \<Rightarrow> kv list) \<Rightarrow> ('a \<Rightarrow> 'a) \<Rightarrow> (kv \<Rightarrow> bool) \<Rightarrow>
    token_kind \<Rightarrow> 'a list \<Rightarrow> bool" where
  "items ef ed p g h ok cl xs \<longleftrightarrow>
     (\<forall>x \<in> set xs. g x \<noteq> [] \<and> ok (hd (g x)) \<and> fst (hd (g x)) \<noteq> cl
        \<and> (\<forall>rest. rest \<noteq> [] \<and> ok (hd rest) \<longrightarrow> parses read ef ed p (g x) (h x) rest))"

lemma items_Cons:
  "items ef ed p g h ok cl (x # xs) \<longleftrightarrow>
     g x \<noteq> [] \<and> ok (hd (g x)) \<and> fst (hd (g x)) \<noteq> cl
     \<and> (\<forall>rest. rest \<noteq> [] \<and> ok (hd rest) \<longrightarrow> parses read ef ed p (g x) (h x) rest)
     \<and> items ef ed p g h ok cl xs"
  by (auto simp: items_def)

lemma length_le_all_toks: "(\<And>x. x \<in> set xs \<Longrightarrow> g x \<noteq> []) \<Longrightarrow> length xs \<le> length (all_toks g xs)"
proof (induction xs)
  case (Cons x xs)
  then have "1 \<le> length (g x)" "length xs \<le> length (all_toks g xs)" by (auto simp: Suc_le_eq)
  then show ?case by simp
qed simp

lemma items_length: "items ef ed p g h ok cl xs \<Longrightarrow> length xs \<le> length (all_toks g xs)"
  by (rule length_le_all_toks) (simp add: items_def)

lemma items_hd:
  "items ef ed p g h ok cl xs \<Longrightarrow> ok (hd rest) \<Longrightarrow> rest \<noteq> [] \<Longrightarrow>
     ok (hd (all_toks g xs @ rest)) \<and> all_toks g xs @ rest \<noteq> []"
  by (cases xs) (auto simp: items_Cons hd_append)

lemma parses_until_loop:
  assumes "items ef ed p g h ok cl xs" and "length xs < n" and "ok (P cl)"
    and "hd (cls @ rest) = P cl" and "cls @ rest \<noteq> []"
    and "parses read ef ed (expect_optional_token cl) cls True rest"
  shows "parses read ef ed (until_loop n p cl nodes) (all_toks g xs @ cls) (nodes @ map h xs) rest"
  using assms(1,2)
proof (induction xs arbitrary: n nodes)
  case Nil
  then obtain m where n: "n = Suc m" by (cases n) auto
  show ?case
    unfolding n until_loop.simps by (simp, rule parses_bnd_ret [OF assms(6)]) simp
next
  case (Cons x xs)
  then obtain m where n: "n = Suc m" by (cases n) auto
  from Cons.prems have x: "g x \<noteq> []" "fst (hd (g x)) \<noteq> cl" "items ef ed p g h ok cl xs"
    and px: "\<And>rest. rest \<noteq> [] \<Longrightarrow> ok (hd rest) \<Longrightarrow> parses read ef ed p (g x) (h x) rest"
    by (auto simp: items_Cons)
  have "ok (hd (cls @ rest))" using assms(3,4) by simp
  from items_hd [OF x(3) this assms(5)] px [of "all_toks g xs @ cls @ rest"]
  have "parses read ef ed p (g x) (h x) (all_toks g xs @ cls @ rest)" by simp
  then show ?case
    unfolding n until_loop.simps
    using x(1,2) Cons.IH [OF x(3), of m "nodes @ [h x]"] Cons.prems(2) n
    by (intro parses_expect_optional_token) (auto simp: hd_append intro!: parses_bnd)
qed

lemma parses_close:
  "cl \<noteq> EOF \<Longrightarrow> parses read ef ed (expect_optional_token cl) [P cl] True rest"
  by (rule parses_by_bnd, rule parses_expect_optional_token) (simp add: parses_ret)

lemma parses_any [complete]:
  assumes "items ef ed p g h (\<lambda>_. True) cl xs" and "op \<noteq> EOF" and "cl \<noteq> EOF"
    and "parses read ef ed (f (map h xs)) ts y rest"
  shows "parses read ef ed (bnd (any' op p cl) f) (P op # all_toks g xs @ P cl # ts) y rest"
proof -
  have "parses read ef ed (with_fuel (\<lambda>n. until_loop n p cl [])) (all_toks g xs @ [P cl]) (map h xs)
      (ts @ rest)"
  proof (rule parses_fuel)
    fix n assume "length ((all_toks g xs @ [P cl]) @ ts @ rest) \<le> n"
    with items_length [OF assms(1)] have "length xs < n" by simp
    from parses_until_loop [OF assms(1) this _ _ _ parses_close [OF assms(3)],
        where rest = "ts @ rest" and nodes = "[]"]
    show "parses read ef ed (until_loop n p cl []) (all_toks g xs @ [P cl]) (map h xs) (ts @ rest)"
      by simp
  qed
  from parses_bnd [where ts = "all_toks g xs @ [P cl]" and us = ts and rest = rest and f = f, OF this assms(4)] show ?thesis
    unfolding any'_def bnd_assoc by (intro parses_expect_token assms) simp_all
qed

text \<open>The tokens of a list with its brackets, when the list is not empty.\<close>

lemma parses_many_loop:
  assumes "items ef ed p g h ok cl (x # xs)" and "ok (P cl)"
    and "hd (cls @ rest) = P cl" and "cls @ rest \<noteq> []"
    and "parses read ef ed (expect_optional_token cl) cls True rest"
  shows "parses read ef ed (bnd p (\<lambda>node. with_fuel (\<lambda>n. until_loop n p cl [node])))
    (g x @ all_toks g xs @ cls) (h x # map h xs) rest"
proof (rule parses_bnd)
  have x: "items ef ed p g h ok cl xs" using assms(1) by (simp add: items_Cons)
  have "ok (hd (cls @ rest))" using assms(2,3) by simp
  from items_hd [OF x this assms(4)] assms(1)
  show "parses read ef ed p (g x) (h x) ((all_toks g xs @ cls) @ rest)" by (simp add: items_Cons)
  show "parses read ef ed (with_fuel (\<lambda>n. until_loop n p cl [h x])) (all_toks g xs @ cls)
      (h x # map h xs) rest"
  proof (rule parses_fuel)
    fix n assume "length ((all_toks g xs @ cls) @ rest) \<le> n"
    moreover have "0 < length cls + length rest" using assms(4) by (cases cls) auto
    ultimately have "length xs < n" using items_length [OF x] unfolding length_append by linarith
    from parses_until_loop [OF x this assms(2-5), of "[h x]"]
    show "parses read ef ed (until_loop n p cl [h x]) (all_toks g xs @ cls) (h x # map h xs) rest"
      by simp
  qed
qed

lemma parses_many [complete]:
  assumes "items ef ed p g h ok cl xs" and "xs \<noteq> []" and "ok (P cl)" and "op \<noteq> EOF" and "cl \<noteq> EOF"
    and "parses read ef ed (f (map h xs)) ts y rest"
  shows "parses read ef ed (bnd (many op p cl) f) (many_toks op g cl xs @ ts) y rest"
proof -
  from assms(2) obtain x xs' where xs: "xs = x # xs'" by (cases xs) auto
  from parses_many_loop [OF assms(1) [unfolded xs] assms(3) _ _ parses_close [OF assms(5)]]
  have "parses read ef ed (bnd p (\<lambda>node. with_fuel (\<lambda>n. until_loop n p cl [node])))
      (all_toks g xs @ [P cl]) (map h xs) (ts @ rest)" by (simp add: xs)
  from parses_bnd [where ts = "all_toks g xs @ [P cl]" and us = ts and rest = rest and f = f, OF this assms(6)] show ?thesis
    unfolding many_def bnd_assoc many_toks_def
    by (simp, intro parses_expect_token assms) simp_all
qed

lemma parses_optional_many [complete]:
  assumes "\<And>xs. xo = Some xs \<Longrightarrow> items ef ed p g h ok cl xs \<and> xs \<noteq> [] \<and> ok (P cl)"
    and "xo = None \<Longrightarrow> fst (hd (ts @ rest)) \<noteq> op" and "op \<noteq> EOF" and "cl \<noteq> EOF"
    and "parses read ef ed (f (strips h xo)) ts y rest"
  shows "parses read ef ed (bnd (optional_many op p cl) f)
    (opt_toks (many_toks op g cl) xo @ ts) y rest"
proof (cases xo)
  case None
  with assms show ?thesis
    unfolding optional_many_def bnd_assoc by (intro parses_expect_optional_token) simp
next
  case (Some xs)
  with assms(1) obtain x xs' where xs: "xs = x # xs'" and it: "items ef ed p g h ok cl (x # xs')"
    and ok: "ok (P cl)" by (cases xs) auto
  from parses_many_loop [OF it ok _ _ parses_close [OF assms(4)]]
  have "parses read ef ed (bnd p (\<lambda>node. with_fuel (\<lambda>n. until_loop n p cl [node])))
      (all_toks g xs @ [P cl]) (map h xs) (ts @ rest)" by (simp add: xs)
  from parses_bnd [where ts = "all_toks g xs @ [P cl]" and us = ts and rest = rest
    and f = "\<lambda>nodes. f (Some nodes)", OF this]
    assms(5) Some
  have "parses read ef ed (bnd p (\<lambda>x. bnd (with_fuel (\<lambda>n. until_loop n p cl [x])) (\<lambda>x. f (Some x))))
     ((all_toks g xs @ [P cl]) @ ts) y rest"
    by (simp add: bnd_assoc)
  with Some assms(3) show ?thesis
    unfolding optional_many_def bnd_assoc many_toks_def
    by (intro parses_expect_optional_token) (simp add: bnd_assoc)
qed

text \<open>Delimited lists and repeated parts.\<close>

lemma parses_delimited_loop:
  assumes "\<And>x rest. x \<in> set xs \<Longrightarrow> parses read ef ed p (g x) (h x) rest"
    and "xs \<noteq> []" and "fst (hd rest) \<noteq> d" and "length xs \<le> n" and "d \<noteq> EOF"
  shows "parses read ef ed (delimited_loop n d p nodes) (sep_toks d g xs) (nodes @ map h xs) rest"
  using assms(1,2,4)
proof (induction xs arbitrary: n nodes rule: induct_list012)
  case (2 x)
  then obtain m where n: "n = Suc m" by (cases n) auto
  have x: "parses read ef ed p (g x) (h x) rest" using 2(1) by simp
  show ?case
    unfolding n delimited_loop.simps sep_toks.simps
    by (rule parses_bnd_last, rule x, rule parses_expect_optional_token)
       (use assms(3) in \<open>simp add: parses_ret\<close>)
next
  case (3 x y zs)
  then obtain m where n: "n = Suc m" by (cases n) auto
  have "parses read ef ed (delimited_loop m d p (nodes @ [h x])) (sep_toks d g (y # zs))
      ((nodes @ [h x]) @ map h (y # zs)) rest"
    using "3.prems" n by (intro "3.IH"(2)) auto
  moreover have "parses read ef ed p (g x) (h x) ((P d # sep_toks d g (y # zs)) @ rest)"
    using "3.prems"(1) by simp
  ultimately show ?case
    unfolding n delimited_loop.simps sep_toks.simps
    using assms(5) by (intro parses_bnd parses_expect_optional_token) auto
qed simp

lemma length_sep_toks: "(\<And>x. x \<in> set xs \<Longrightarrow> g x \<noteq> []) \<Longrightarrow> length xs \<le> length (sep_toks d g xs)"
  by (induction xs rule: induct_list012) (auto simp: Suc_le_eq)

lemma parses_delimited_many:
  assumes "\<And>x rest. x \<in> set xs \<Longrightarrow> parses read ef ed p (g x) (h x) rest"
    and "\<And>x. x \<in> set xs \<Longrightarrow> g x \<noteq> [] \<and> fst (hd (g x)) \<noteq> d"
    and "xs \<noteq> []" and "fst (hd rest) \<noteq> d" and "d \<noteq> EOF"
  shows "parses read ef ed (delimited_many d p) (sep_toks d g xs) (map h xs) rest"
proof -
  have loop: "parses read ef ed (with_fuel (\<lambda>n. delimited_loop n d p [])) (sep_toks d g xs)
      (map h xs) rest"
  proof (rule parses_fuel)
    fix n assume "length (sep_toks d g xs @ rest) \<le> n"
    with length_sep_toks [of xs g d] assms(2) have "length xs \<le> n" by force
    from parses_delimited_loop [OF assms(1) assms(3,4) this assms(5), where nodes = "[]"]
    show "parses read ef ed (delimited_loop n d p []) (sep_toks d g xs) (map h xs) rest" by simp
  qed
  have "fst (hd (sep_toks d g xs @ rest)) \<noteq> d"
    using assms(2,3) by (cases xs rule: remdups_adj.cases) (auto simp: hd_append)
  with loop show ?thesis unfolding delimited_many_def by (intro parses_expect_optional_token) simp
qed

lemma parses_peek_loop:
  assumes "\<And>x rest. x \<in> set xs \<Longrightarrow> rest \<noteq> [] \<Longrightarrow> ok (hd rest) \<Longrightarrow> parses read ef ed p (g x) (h x) rest"
    and "\<And>x. x \<in> set xs \<Longrightarrow> g x \<noteq> [] \<and> fst (hd (g x)) = k \<and> ok (hd (g x))"
    and "rest \<noteq> []" and "ok (hd rest)" and "fst (hd rest) \<noteq> k" and "length xs < n"
  shows "parses read ef ed (peek_loop n k p nodes) (all_toks g xs) (nodes @ map h xs) rest"
  using assms(1,2,6)
proof (induction xs arbitrary: n nodes)
  case Nil
  then obtain m where n: "n = Suc m" by (cases n) auto
  show ?case
    unfolding n peek_loop.simps by (rule parses_peek) (use assms(5) in \<open>simp add: parses_ret\<close>)
next
  case (Cons x xs)
  then obtain m where n: "n = Suc m" by (cases n) auto
  have "ok (hd (all_toks g xs @ rest)) \<and> all_toks g xs @ rest \<noteq> []"
    using Cons.prems(2) assms(3,4) by (cases xs) (auto simp: hd_append)
  then have x: "parses read ef ed p (g x) (h x) (all_toks g xs @ rest)"
    using Cons.prems(1) by simp
  have "parses read ef ed (peek_loop m k p (nodes @ [h x])) (all_toks g xs)
      ((nodes @ [h x]) @ map h xs) rest"
    using Cons.prems n by (intro Cons.IH) auto
  with x Cons.prems(2) show ?case
    unfolding n peek_loop.simps
    by (intro parses_peek) (auto simp: hd_append intro!: parses_bnd)
qed

section \<open>Names, values\<close>

lemma parses_name [complete]:
  assumes "parses read ef ed (f (strip_name n)) ts y rest"
  shows "parses read ef ed (bnd parse_name f) (name_tok n # ts) y rest"
  unfolding parse_name_def bnd_assoc
  by (rule parses_expect_token, simp add: name_tok_def, simp, rule parses_loc_from)
     (use assms in \<open>cases n, auto simp: name_tok_def value_or_empty_def\<close>)

lemma parses_named_type [complete]:
  assumes "parses read ef ed (f (strip_named_type t)) ts y rest"
  shows "parses read ef ed (bnd parse_named_type f) (named_type_tok t # ts) y rest"
  unfolding parse_named_type_def bnd_assoc named_type_tok_def
  by (rule complete)+ (use assms in \<open>cases t, simp\<close>)

lemma parses_variable [complete]:
  assumes "parses read ef ed (f (strip_variable v)) ts y rest"
  shows "parses read ef ed (bnd parse_variable f) (variable_toks v @ ts) y rest"
  unfolding parse_variable_def bnd_assoc variable_toks_def append.simps
  by (rule complete | simp)+ (use assms in \<open>cases v, simp\<close>)

lemma parses_string_literal [complete]:
  assumes "wf_string s" and "parses read ef ed (f (strip_string s)) ts y rest"
  shows "parses read ef ed (bnd parse_string_literal f) (string_tok s # ts) y rest"
  unfolding parse_string_literal_def bnd_assoc
  by (rule parses_cur_token, rule parses_advance_bnd, simp add: string_tok_def, rule parses_loc_from)
     (use assms in \<open>cases s,
       auto simp: string_tok_def wf_string_def value_or_empty_def split: if_splits\<close>)

text \<open>The three methods that take the value of the current token.\<close>

lemma parses_leaf:
  assumes "fst x \<noteq> EOF" and "\<And>t. kv t = x \<Longrightarrow> f t None = ret y"
  shows "parses read ef ed (bnd cur_token (\<lambda>t. bnd advance_lexer (\<lambda>_. bnd (loc_from t) (f t)))) [x] y rest"
  by (rule parses_cur_token, rule parses_advance_bnd, rule assms(1), rule parses_loc_from)
     (simp add: assms(2) parses_ret)

lemma parses_scalars:
  "parses read ef ed parse_int [(INT', Some v)] (IntValueNode v None) rest"
  "parses read ef ed parse_float [(FLOAT, Some v)] (FloatValueNode v None) rest"
  "parses read ef ed parse_named_values [word ''true''] (BooleanValueNode True None) rest"
  "parses read ef ed parse_named_values [word ''false''] (BooleanValueNode False None) rest"
  "parses read ef ed parse_named_values [word ''null''] (NullValueNode None) rest"
  "v \<notin> reserved_values \<Longrightarrow>
     parses read ef ed parse_named_values [(NAME, Some v)] (EnumValueNode v None) rest"
  unfolding parse_int_def parse_float_def parse_named_values_def Let_def
  by (rule parses_leaf; auto simp: value_or_empty_def reserved_values_def)+

lemma value_toks_Nil [simp]: "value_toks v \<noteq> []"
  by (cases v) (auto simp: variable_toks_def)

text \<open>A value begins with no closing bracket.\<close>

lemma value_toks_hd: "fst (hd (value_toks v)) \<notin> {BRACKET_R, BRACE_R, PAREN_R, EOF}"
  by (cases v) (auto simp: variable_toks_def string_tok_def)

lemma pair_toks_hd [simp]:
  "object_field_toks fd \<noteq> []" "fst (hd (object_field_toks fd)) = NAME"
  "argument_toks a \<noteq> []" "fst (hd (argument_toks a)) = NAME"
  "fragment_argument_toks b \<noteq> []" "fst (hd (fragment_argument_toks b)) = NAME"
  "directive_toks d \<noteq> []" "fst (hd (directive_toks d)) = AT"
  by (cases fd; cases a; cases b; cases d; simp add: name_tok_def)+

lemma length_all_toks: "x \<in> set xs \<Longrightarrow> length (f x) \<le> length (all_toks f xs)"
  by (induction xs) auto

lemma parses_value_fuel:
  "wf_value c v \<Longrightarrow> length (value_toks v) \<le> n \<Longrightarrow>
     parses read ef ed (parse_value_literal_fuel n c) (value_toks v) (strip_value v) rest"
proof (induction n arbitrary: c v rest)
  case (Suc n c v rest)
  show ?case
    unfolding parse_value_literal_fuel.simps
  proof (rule parses_cur_token, goal_cases)
    case (1 t)
    note t = 1
    show ?case
    proof (cases v)
      case (VariableValue u)
      have "parses read ef ed (bnd parse_variable (\<lambda>v. ret (VariableValue v))) (variable_toks u @ [])
          (VariableValue (strip_variable u)) rest"
        by (rule parses_variable) (rule parses_ret)
      with t Suc.prems VariableValue show ?thesis
        by (auto simp: variable_toks_def parse_variable_value_def)
    next
      case (StringValue s)
      have "parses read ef ed (bnd parse_string_literal (\<lambda>s. ret (StringValue s))) [string_tok s]
          (StringValue (strip_string s)) rest"
        by (rule parses_string_literal) (use Suc.prems StringValue in \<open>simp_all add: parses_ret\<close>)
      with t StringValue show ?thesis
        by (auto simp: string_tok_def split: if_splits)
    next
      case (ListValueNode vs l)
      have len: "length (value_toks x) \<le> n" if "x \<in> set vs" for x
        using length_all_toks [OF that, of value_toks] Suc.prems(2)
        by (simp add: ListValueNode all_toks_def)
      have "items ef ed (parse_value_literal_fuel n c) value_toks strip_value (\<lambda>_. True) BRACKET_R vs"
        unfolding items_def
        using Suc.prems value_toks_hd by (auto simp: ListValueNode intro!: Suc.IH len)
      then show ?thesis
        using t unfolding ListValueNode value_toks.simps parse_list_def
        by (simp flip: all_toks_def, intro parses_start)
           (rule parses_any [where ts = "[]"], assumption, simp_all add: parses_loc_from parses_ret)
    next
      case (ObjectValueNode fs l)
      have "parses read ef ed (parse_object_field (parse_value_literal_fuel n) c) (object_field_toks f)
          (strip_object_field f) rest" if f: "f \<in> set fs" for f rest
      proof (cases f)
        case (ObjectFieldNode m u l')
        have "wf_value c u" using f Suc.prems ObjectFieldNode by (auto simp: ObjectValueNode)
        moreover have "length (value_toks u) \<le> n"
          using length_all_toks [OF f, of object_field_toks] Suc.prems(2) ObjectFieldNode
          by (simp add: ObjectValueNode all_toks_def)
        ultimately show ?thesis
          unfolding ObjectFieldNode parse_object_field_def object_field_toks.simps
          by (intro parses_start parses_name parses_expect_token parses_bnd_last [OF Suc.IH]
              parses_loc_from) (simp_all add: parses_ret)
      qed
      then have "items ef ed (parse_object_field (parse_value_literal_fuel n) c) object_field_toks
          strip_object_field (\<lambda>_. True) BRACE_R fs"
        unfolding items_def by auto
      then show ?thesis
        using t unfolding ObjectValueNode value_toks.simps parse_object_def
        by (simp flip: all_toks_def, intro parses_start)
           (rule parses_any [where ts = "[]"], assumption, simp_all add: parses_loc_from parses_ret)
    qed (use t Suc.prems in \<open>auto simp: parses_scalars reserved_values_def\<close>)
  qed
qed (simp add: value_toks_Nil)

lemma parses_value [complete]:
  assumes "wf_value c v" and "parses read ef ed (f (strip_value v)) ts y rest"
  shows "parses read ef ed (bnd (parse_value_literal c) f) (value_toks v @ ts) y rest"
proof (rule parses_bnd)
  show "parses read ef ed (parse_value_literal c) (value_toks v) (strip_value v) (ts @ rest)"
    unfolding parse_value_literal_def
    by (rule parses_fuel, rule parses_value_fuel [OF assms(1)]) simp
qed (rule assms(2))

lemma parses_const_value [complete]:
  "wf_value True v \<Longrightarrow> parses read ef ed (f (strip_value v)) ts y rest \<Longrightarrow>
     parses read ef ed (bnd parse_const_value_literal f) (value_toks v @ ts) y rest"
  unfolding parse_const_value_literal_def by (rule parses_value)

lemmas [complete] = parses_value [where ts = "[]", unfolded append_Nil2]
  parses_const_value [where ts = "[]", unfolded append_Nil2]

section \<open>Arguments, directives, types\<close>

text \<open>The first token of optional parts.\<close>

lemma hd_many_toks [simp]: "hd (many_toks op g cl xs @ ts) = P op" "many_toks op g cl xs \<noteq> []"
  by (simp_all add: many_toks_def)

lemma hd_opt_many:
  "hd (opt_toks (many_toks op g cl) xo @ ts) = (if xo = None then hd ts else P op)"
  by (cases xo) simp_all

lemma hd_directives:
  "fst (hd (directives_toks ds @ ts)) = (if ds = None \<or> ds = Some [] then fst (hd ts) else AT)"
  by (cases ds; cases "the ds") (auto simp: hd_append)

lemma parses_argument:
  "wf_argument c a \<Longrightarrow>
     parses read ef ed (parse_argument c) (argument_toks a) (strip_argument a) rest"
  unfolding parse_argument_def by (cases a) (simp, (rule complete | simp)+)

lemma parses_fragment_argument:
  "wf_fragment_argument a \<Longrightarrow>
     parses read ef ed parse_fragment_argument (fragment_argument_toks a)
       (strip_fragment_argument a) rest"
  unfolding parse_fragment_argument_def by (cases a) (simp, (rule complete | simp)+)

lemma parses_arguments [complete]:
  assumes "wf_list (wf_argument c) args" and "args = None \<Longrightarrow> fst (hd (ts @ rest)) \<noteq> PAREN_L"
    and "parses read ef ed (f (strips strip_argument args)) ts y rest"
  shows "parses read ef ed (bnd (parse_arguments c) f) (arguments_toks args @ ts) y rest"
proof -
  have "parse_arguments c = optional_many PAREN_L (parse_argument c) PAREN_R"
    by (simp add: parse_arguments_def parse_const_argument_def)
  moreover have "items ef ed (parse_argument c) argument_toks strip_argument (\<lambda>_. True) PAREN_R xs
      \<and> xs \<noteq> []" if "args = Some xs" for xs
    using assms(1) that by (auto simp: items_def wf_some_def intro: parses_argument)
  ultimately show ?thesis using assms(2,3) by (auto intro: parses_optional_many)
qed

lemma parses_fragment_arguments [complete]:
  assumes "wf_some wf_fragment_argument xs"
    and "parses read ef ed (f (Some (map strip_fragment_argument xs))) ts y rest"
  shows "parses read ef ed (bnd parse_fragment_arguments f)
    (many_toks PAREN_L fragment_argument_toks PAREN_R xs @ ts) y rest"
proof -
  have "items ef ed parse_fragment_argument fragment_argument_toks strip_fragment_argument
      (\<lambda>_. True) PAREN_R xs \<and> xs \<noteq> []"
    using assms(1) by (auto simp: items_def wf_some_def intro: parses_fragment_argument)
  then have "parses read ef ed (bnd parse_fragment_arguments f)
      (opt_toks (many_toks PAREN_L fragment_argument_toks PAREN_R) (Some xs) @ ts) y rest"
    unfolding parse_fragment_arguments_def
    by (intro parses_optional_many [where ok = "\<lambda>_. True"]) (use assms(2) in auto)
  then show ?thesis by simp
qed

lemmas [complete] = parses_arguments [where ts = "[]", unfolded append_Nil2 append_Nil]

lemma parses_directive:
  assumes "wf_directive c d" and "fst (hd rest) \<noteq> PAREN_L"
  shows "parses read ef ed (parse_directive c) (directive_toks d) (strip_directive d) rest"
  unfolding parse_directive_def
  using assms by (cases d) (simp, (rule complete | simp)+)

lemma parses_directives [complete]:
  assumes "wf_list (wf_directive c) ds" and "fst (hd (ts @ rest)) \<notin> {AT, PAREN_L}" and "ts @ rest \<noteq> []"
    and "parses read ef ed (f (strips strip_directive ds)) ts y rest"
  shows "parses read ef ed (bnd (parse_directives c) f) (directives_toks ds @ ts) y rest"
proof -
  define xs where "xs = (case ds of None \<Rightarrow> [] | Some xs \<Rightarrow> xs)"
  have wf: "wf_directive c x" if "x \<in> set xs" for x
    using assms(1) that by (auto simp: xs_def wf_some_def split: option.splits)
  have "parses read ef ed (with_fuel (\<lambda>n. peek_loop n AT (parse_directive c) [])) (all_toks directive_toks xs)
      (map strip_directive xs) (ts @ rest)"
  proof (rule parses_fuel)
    fix n assume "length (all_toks directive_toks xs @ ts @ rest) \<le> n"
    moreover have "length xs \<le> length (all_toks directive_toks xs)"
      by (rule length_le_all_toks) simp
    moreover have "0 < length ts + length rest" using assms(3) by (cases ts) auto
    ultimately have "length xs < n" unfolding length_append by linarith
    then show "parses read ef ed (peek_loop n AT (parse_directive c) []) (all_toks directive_toks xs)
        (map strip_directive xs) (ts @ rest)"
      using parses_peek_loop [where ok = "\<lambda>x. fst x \<noteq> PAREN_L" and nodes = "[]" and k = AT
          and p = "parse_directive c" and g = directive_toks and h = strip_directive and xs = xs]
        parses_directive wf assms(2,3) by simp
  qed
  moreover have "directives_toks ds = all_toks directive_toks xs"
    "strips strip_directive ds = (if map strip_directive xs \<noteq> [] then Some (map strip_directive xs) else None)"
    using assms(1) by (auto simp: xs_def wf_some_def split: option.splits)
  ultimately show ?thesis
    using assms(4) unfolding parse_directives_def bnd_assoc by (auto intro!: parses_bnd)
qed

lemma parses_const_directives [complete]:
  "wf_list (wf_directive True) ds \<Longrightarrow> fst (hd (ts @ rest)) \<notin> {AT, PAREN_L} \<Longrightarrow> ts @ rest \<noteq> [] \<Longrightarrow>
     parses read ef ed (f (strips strip_directive ds)) ts y rest \<Longrightarrow>
     parses read ef ed (bnd parse_const_directives f) (directives_toks ds @ ts) y rest"
  unfolding parse_const_directives_def by (rule parses_directives)

lemmas [complete] = parses_directives [where ts = "[]", unfolded append_Nil2 append_Nil]
  parses_const_directives [where ts = "[]", unfolded append_Nil2 append_Nil]

lemma type_toks_Nil [simp]: "type_toks t \<noteq> []"
  by (cases t) auto

lemma parses_type_fuel:
  "wf_type t \<Longrightarrow> length (type_toks t) \<le> n \<Longrightarrow> fst (hd rest) \<noteq> BANG \<Longrightarrow>
     parses read ef ed (parse_type_reference_fuel n) (type_toks t) (strip_type t) rest"
proof (induction n arbitrary: t rest)
  case (Suc n t rest)
  let ?inner = "\<lambda>start is_list. if is_list then
      bnd (parse_type_reference_fuel n) (\<lambda>inner_type.
      bnd (expect_token BRACKET_R) (\<lambda>_. bnd (loc_from start) (\<lambda>l. ret (ListTypeNode inner_type l))))
    else bnd parse_named_type (\<lambda>t. ret (NamedType t))"
  have base: "parses read ef ed (bnd (expect_optional_token BRACKET_L) (\<lambda>b. bnd (?inner start b) k))
      (type_toks u @ ts) y rest"
    if "wf_type u" and "\<And>t' l'. u \<noteq> NonNullTypeNode t' l'" and "length (type_toks u) \<le> Suc n"
      and "parses read ef ed (k (strip_type u)) ts y rest" for u ts start y k
  proof (cases u)
    case (NamedType m)
    with that show ?thesis
      by (intro parses_expect_optional_token)
         (simp add: named_type_tok_def name_tok_def bnd_assoc parses_named_type
           [unfolded named_type_tok_def name_tok_def])
  next
    case (ListTypeNode w l)
    with that have "parses read ef ed (parse_type_reference_fuel n) (type_toks w) (strip_type w)
        ((P BRACKET_R # ts) @ rest)"
      by (intro Suc.IH) auto
    then show ?thesis
      using that ListTypeNode
      by (intro parses_expect_optional_token)
         (auto simp: bnd_assoc intro!: parses_bnd parses_expect_token parses_loc_from)
  qed (use that in auto)
  show ?case
    unfolding parse_type_reference_fuel.simps
  proof (rule parses_start)
    fix start
    let ?k = "\<lambda>type'. bnd (expect_optional_token BANG) (\<lambda>non_null.
      if non_null then bnd (loc_from start) (\<lambda>l. ret (NonNullTypeNode type' l)) else ret type')"
    show "parses read ef ed (bnd (expect_optional_token BRACKET_L) (\<lambda>b. bnd (?inner start b) ?k))
      (type_toks t) (strip_type t) rest"
    proof (cases "\<exists>u l. t = NonNullTypeNode u l")
      case True
      then obtain u l where t: "t = NonNullTypeNode u l" by auto
      show ?thesis
        unfolding t type_toks.simps
        by (rule base)
           (use Suc.prems t in \<open>auto intro!: parses_expect_optional_token parses_loc_from parses_ret\<close>)
    next
      case False
      have "parses read ef ed (?k (strip_type t)) [] (strip_type t) rest"
        by (rule parses_expect_optional_token) (use Suc.prems in \<open>simp add: parses_ret\<close>)
      then show ?thesis
        by (rule base [of t ?k "[]" "strip_type t" start, unfolded append_Nil2, rotated -1])
           (use Suc.prems False in auto)
    qed
  qed
qed simp

lemma parses_type [complete]:
  assumes "wf_type t" and "fst (hd (ts @ rest)) \<noteq> BANG"
    and "parses read ef ed (f (strip_type t)) ts y rest"
  shows "parses read ef ed (bnd parse_type_reference f) (type_toks t @ ts) y rest"
proof (rule parses_bnd)
  show "parses read ef ed parse_type_reference (type_toks t) (strip_type t) (ts @ rest)"
    unfolding parse_type_reference_def
    by (rule parses_fuel, rule parses_type_fuel [OF assms(1) _ assms(2)]) simp
qed (rule assms(3))

section \<open>Operations and fragments\<close>

text \<open>A description, the default value of a variable or an input value.\<close>

lemma string_tok_kind: "fst (string_tok s) \<in> {STRING, BLOCK_STRING}"
  by (simp add: string_tok_def)

lemma parses_description [complete]:
  assumes "wf_opt wf_string d" and "d = None \<Longrightarrow> fst (hd (ts @ rest)) \<notin> {STRING, BLOCK_STRING}"
    and "parses read ef ed (f (map_option strip_string d)) ts y rest"
  shows "parses read ef ed (bnd parse_description f) (description_toks d @ ts) y rest"
proof (cases d)
  case None
  with assms show ?thesis
    unfolding parse_description_def peek_description_def bnd_assoc
    by (intro parses_peek) (auto simp: opt_if_def intro!: parses_peek [where k = BLOCK_STRING])
next
  case (Some s)
  then have "parses read ef ed (bnd parse_string_literal (\<lambda>x. f (Some x))) (string_tok s # ts) y rest"
    using assms by (intro parses_string_literal) auto
  moreover have "fst (string_tok s) = STRING \<or> fst (string_tok s) = BLOCK_STRING"
    using string_tok_kind [of s] by simp
  ultimately show ?thesis
    unfolding parse_description_def peek_description_def bnd_assoc using Some
    by (intro parses_peek) (auto simp: opt_if_def bnd_assoc intro!: parses_peek [where k = BLOCK_STRING])
qed

lemma parses_default_value [complete]:
  assumes "wf_opt (wf_value True) dv" and "dv = None \<Longrightarrow> fst (hd (ts @ rest)) \<noteq> EQUALS"
    and "parses read ef ed (f (map_option strip_value dv)) ts y rest"
  shows "parses read ef ed (bnd parse_default_value f) (default_toks dv @ ts) y rest"
  unfolding parse_default_value_def bnd_assoc
  by (rule parses_expect_optional_token)
     (use assms in \<open>cases dv, auto simp: opt_if_def bnd_assoc intro!: parses_const_value\<close>)

lemmas [complete] = parses_type [where ts = "[]", unfolded append_Nil2 append_Nil]
  parses_default_value [where ts = "[]", unfolded append_Nil2 append_Nil]

text \<open>What the first tokens of the parts behind a point are; for the side conditions.\<close>

lemma hd_default_toks: "hd (default_toks dv @ ts) = (if dv = None then hd ts else P EQUALS)"
  by (cases dv) auto

lemma hd_description_toks:
  "hd (description_toks d @ ts) = (case d of None \<Rightarrow> hd ts | Some s \<Rightarrow> string_tok s)"
  by (cases d) auto

lemmas first_tokens = hd_default_toks hd_description_toks hd_directives hd_opt_many

lemma parses_variable_definition:
  assumes "wf_variable_definition v" and "fst (hd rest) \<notin> {BANG, EQUALS, AT, PAREN_L}" and "rest \<noteq> []"
  shows "parses read ef ed parse_variable_definition (variable_definition_toks v)
    (strip_variable_definition v) rest"
  unfolding parse_variable_definition_def
  using assms
  by (cases v)
     (simp, (rule complete | simp add: variable_toks_def first_tokens)+)

lemma variable_definition_hd:
  "variable_definition_toks v \<noteq> []"
  "fst (hd (variable_definition_toks v)) \<in> {STRING, BLOCK_STRING, DOLLAR}"
  using string_tok_kind by (cases v; auto simp: variable_toks_def hd_description_toks split: option.split)+

lemma variable_definition_hd' [simp]:
  "k \<notin> {STRING, BLOCK_STRING, DOLLAR} \<Longrightarrow> fst (hd (variable_definition_toks v)) \<noteq> k"
  using variable_definition_hd(2) [of v] by auto

lemma parses_variable_definitions [complete]:
  assumes "wf_list wf_variable_definition vds" and "vds = None \<Longrightarrow> fst (hd (ts @ rest)) \<noteq> PAREN_L"
    and "parses read ef ed (f (strips strip_variable_definition vds)) ts y rest"
  shows "parses read ef ed (bnd parse_variable_definitions f) (variable_definitions_toks vds @ ts) y rest"
  unfolding parse_variable_definitions_def
proof (rule parses_optional_many [where h = strip_variable_definition
      and ok = "\<lambda>x. fst x \<notin> {BANG, EQUALS, AT, PAREN_L}"])
  fix xs assume "vds = Some xs"
  with assms(1) show "items ef ed parse_variable_definition variable_definition_toks
      strip_variable_definition (\<lambda>x. fst x \<notin> {BANG, EQUALS, AT, PAREN_L}) PAREN_R xs
      \<and> xs \<noteq> [] \<and> fst (P PAREN_R) \<notin> {BANG, EQUALS, AT, PAREN_L}"
    using variable_definition_hd(1)
    by (auto simp: items_def wf_some_def intro: parses_variable_definition)
qed (use assms(2,3) in auto)

text \<open>A selection ends where a name, a spread or a closing brace begins.\<close>

abbreviation selection_start :: "kv \<Rightarrow> bool" where
  "selection_start x \<equiv> fst x \<in> {NAME, SPREAD, BRACE_R}"

lemma hd_selection_set_toks [simp]:
  "selection_set_toks ss \<noteq> []" "hd (selection_set_toks ss @ ts) = P BRACE_L"
  "hd (selection_set_toks ss) = P BRACE_L"
  by (cases ss; simp)+

lemma selection_hd:
  "selection_toks s \<noteq> []" "fst (hd (selection_toks s)) \<in> {NAME, SPREAD}"
  by (cases s; auto simp: name_tok_def opt_toks_def split: option.split)+

lemma parses_fragment_name [complete]:
  assumes "wf_fragment_name n" and "parses read ef ed (f (strip_name n)) ts y rest"
  shows "parses read ef ed (bnd parse_fragment_name f) (name_tok n # ts) y rest"
  unfolding parse_fragment_name_def bnd_assoc
  by (rule parses_cur_token)
     (use assms in \<open>auto simp: name_tok_def wf_fragment_name_def
       intro!: parses_name [unfolded name_tok_def]\<close>)

lemma parses_type_condition [complete]:
  "parses read ef ed (f (strip_named_type t)) ts y rest \<Longrightarrow>
     parses read ef ed (bnd parse_type_condition f) (word ''on'' # named_type_tok t # ts) y rest"
  unfolding parse_type_condition_def bnd_assoc by (intro parses_expect_keyword parses_named_type)

lemma parses_field:
  assumes "wf_selection ef (FieldNode n a args ds ss l)" and "rest \<noteq> []" and "selection_start (hd rest)"
    and "\<And>s rest. ss = Some s \<Longrightarrow> parses read ef ed pss (selection_set_toks s) (strip_selection_set s) rest"
  shows "parses read ef ed (parse_field pss) (selection_toks (FieldNode n a args ds ss l))
    (strip_selection (FieldNode n a args ds ss l)) rest"
proof -
  define sst where "sst = (case ss of None \<Rightarrow> [] | Some s \<Rightarrow> selection_set_toks s)"
  have sst: "sst @ rest \<noteq> []" "fst (hd (sst @ rest)) \<notin> {AT, PAREN_L, COLON}"
    "fst (hd (sst @ rest)) = BRACE_L \<longleftrightarrow> ss \<noteq> None"
    using assms(2,3) by (auto simp: sst_def split: option.split)
  have set: "parses read ef ed (bnd (opt_if (ss \<noteq> None) pss) f) sst y rest"
    if "parses read ef ed (f (map_option strip_selection_set ss)) [] y rest" for f y
    using that assms(4) unfolding sst_def
    by (cases ss) (auto simp: opt_if_def bnd_assoc intro!: parses_bnd_last)
  have tail: "parses read ef ed (bnd (parse_arguments False) (\<lambda>args. bnd (parse_directives False) (\<lambda>ds.
      bnd (peek BRACE_L) (\<lambda>b. bnd (opt_if b pss) (\<lambda>ss. bnd (loc_from t) (\<lambda>l.
      ret (FieldNode m al args ds ss l)))))))
      (arguments_toks args @ directives_toks ds @ sst)
      (FieldNode m al (strips strip_argument args) (strips strip_directive ds)
        (map_option strip_selection_set ss) None) rest" for m al t
  proof -
    have "parses read ef ed (bnd (peek BRACE_L) (\<lambda>b. bnd (opt_if b pss) (\<lambda>ss. bnd (loc_from t) (\<lambda>l.
        ret (FieldNode m al (strips strip_argument args) (strips strip_directive ds) ss l))))) sst
        (FieldNode m al (strips strip_argument args) (strips strip_directive ds)
          (map_option strip_selection_set ss) None) rest"
      by (rule parses_peek, unfold sst(3)) (intro set parses_loc_from parses_ret)
    then show ?thesis
      using assms(1) sst(1,2) by (intro parses_arguments parses_directives) (auto simp: first_tokens)
  qed
  have ss: "(case ss of None \<Rightarrow> None | Some s \<Rightarrow> Some (strip_selection_set s)) = map_option strip_selection_set ss"
    by (cases ss) auto
  show ?thesis
    unfolding parse_field_def selection_toks.simps strip_selection.simps sst_def [symmetric] ss
    using tail sst(2)
    by (cases a; simp; intro parses_start parses_name parses_expect_optional_token)
       (auto simp: first_tokens bnd_assoc intro!: parses_name)
qed

lemma word_on_name_tok: "wf_fragment_name n \<Longrightarrow> name_tok n \<noteq> word ''on''"
  by (auto simp: wf_fragment_name_def name_tok_def)

lemma name_tok_kind [simp]: "fst (name_tok n) = NAME" "fst (named_type_tok t) = NAME"
  by (simp_all add: name_tok_def named_type_tok_def)

lemma parses_spread:
  assumes "wf_selection ef (FragmentSpreadNode n args ds l)" and "rest \<noteq> []" and "selection_start (hd rest)"
  shows "parses read ef ed (parse_fragment pss) (selection_toks (FragmentSpreadNode n args ds l))
    (strip_selection (FragmentSpreadNode n args ds l)) rest"
proof -
  from assms(1) have n: "wf_fragment_name n" and ds: "wf_list (wf_directive False) ds"
    and args: "wf_list wf_fragment_argument args" "args \<noteq> None \<longrightarrow> ef" by auto
  let ?args = "opt_toks (many_toks PAREN_L fragment_argument_toks PAREN_R) args"
  have rest: "fst (hd rest) \<notin> {AT, PAREN_L}" using assms(3) by auto
  have paren: "fst (hd ((?args @ directives_toks ds) @ rest)) = PAREN_L \<longleftrightarrow> args \<noteq> None"
    using rest by (auto simp: first_tokens)
  show ?thesis
    unfolding parse_fragment_def selection_toks.simps strip_selection.simps
    apply (intro parses_start parses_expect_token parses_expect_optional_keyword)
      apply (simp_all add: word_on_name_tok [OF n])
    apply (intro parses_peek)
    apply simp
    apply (intro parses_fragment_name [OF n] parses_peek parses_options)
    unfolding paren
    using args ds rest assms(2)
    by (cases args) (auto intro!: parses_fragment_arguments parses_directives [where ts = "[]",
        unfolded append_Nil2 append_Nil] parses_loc_from parses_ret)
qed

lemma hd_directive_toks: "hd (directive_toks d) = P AT"
  by (cases d) simp

lemma parses_inline_fragment:
  assumes "wf_selection ef (InlineFragmentNode ss tc ds l)"
    and "\<And>rest. parses read ef ed pss (selection_set_toks ss) (strip_selection_set ss) rest"
  shows "parses read ef ed (parse_fragment pss) (selection_toks (InlineFragmentNode ss tc ds l))
    (strip_selection (InlineFragmentNode ss tc ds l)) rest"
proof -
  from assms(1) have ds: "wf_list (wf_directive False) ds" by simp
  have tail: "parses read ef ed (bnd (parse_directives False) (\<lambda>directives. bnd pss (\<lambda>selection_set.
      bnd (loc_from t) (\<lambda>l. ret (InlineFragmentNode selection_set tc' directives l)))))
      (directives_toks ds @ selection_set_toks ss)
      (InlineFragmentNode (strip_selection_set ss) tc' (strips strip_directive ds) None) rest" for t tc'
    using ds by (intro parses_directives) (auto intro!: parses_bnd_last [OF assms(2)] parses_loc_from parses_ret)
  have "hd (directives_toks ds @ selection_set_toks ss @ rest) \<in> {P AT, P BRACE_L}"
    by (cases ds; cases "the ds") (auto simp: hd_append hd_directive_toks)
  then have first: "hd (directives_toks ds @ selection_set_toks ss @ rest) \<noteq> word ''on''"
    "fst (hd (directives_toks ds @ selection_set_toks ss @ rest)) \<noteq> NAME" by auto
  show ?thesis
    unfolding parse_fragment_def selection_toks.simps strip_selection.simps
    using tail first
    by (cases tc; simp; intro parses_start parses_expect_token parses_expect_optional_keyword parses_peek)
       (auto simp: opt_if_def bnd_assoc intro!: parses_peek parses_named_type)
qed

lemma parses_selection_set_fuel:
  "wf_selection_set ef ss \<Longrightarrow> length (selection_set_toks ss) \<le> n \<Longrightarrow>
     parses read ef ed (parse_selection_set_fuel n) (selection_set_toks ss) (strip_selection_set ss) rest"
proof (induction n arbitrary: ss rest)
  case 0
  then show ?case by (cases ss) simp
next
  case (Suc n ss rest)
  obtain sels l where ss: "ss = SelectionSetNode sels l" by (cases ss)
  let ?pss = "parse_selection_set_fuel n"
  have item: "parses read ef ed (parse_selection ?pss) (selection_toks s) (strip_selection s) rest"
    if s: "s \<in> set sels" and rest: "rest \<noteq> []" "selection_start (hd rest)" for s rest
  proof -
    have wf: "wf_selection ef s" using Suc.prems(1) s by (auto simp: ss)
    have len: "length (selection_toks s) \<le> n"
      using length_all_toks [OF s, of selection_toks] Suc.prems(2) by (simp add: ss all_toks_def)
    show ?thesis
    proof (cases s)
      case (FieldNode m a args ds u l')
      have "parses read ef ed (parse_field ?pss) (selection_toks s) (strip_selection s) rest"
        unfolding FieldNode
        by (rule parses_field [OF wf [unfolded FieldNode] rest], rule Suc.IH)
           (use wf len in \<open>auto simp: FieldNode\<close>)
      moreover have "fst (hd (selection_toks s @ rest)) \<noteq> SPREAD"
        by (auto simp: FieldNode opt_toks_def split: option.split)
      ultimately show ?thesis unfolding parse_selection_def by (intro parses_peek) simp
    next
      case (FragmentSpreadNode m args ds l')
      from parses_spread [OF wf [unfolded FragmentSpreadNode] rest] show ?thesis
        unfolding parse_selection_def FragmentSpreadNode by (intro parses_peek) simp
    next
      case (InlineFragmentNode u tc ds l')
      have "parses read ef ed ?pss (selection_set_toks u) (strip_selection_set u) rest'" for rest'
        by (rule Suc.IH) (use wf len in \<open>auto simp: InlineFragmentNode\<close>)
      from parses_inline_fragment [OF wf [unfolded InlineFragmentNode] this] show ?thesis
        unfolding parse_selection_def InlineFragmentNode by (intro parses_peek) simp
    qed
  qed
  have "items ef ed (parse_selection ?pss) selection_toks strip_selection selection_start BRACE_R sels"
    unfolding items_def using item selection_hd by fastforce
  moreover have "sels \<noteq> []" using Suc.prems(1) by (simp add: ss)
  ultimately have "parses read ef ed (bnd (many BRACE_L (parse_selection ?pss) BRACE_R) f)
      (many_toks BRACE_L selection_toks BRACE_R sels @ []) y rest"
    if "parses read ef ed (f (map strip_selection sels)) [] y rest" for f y
    using that by (intro parses_many [where ok = selection_start]) auto
  note many = this [unfolded many_toks_def all_toks_def append_Nil2]
  show ?case
    unfolding ss parse_selection_set_fuel.simps selection_set_toks.simps strip_selection_set.simps
    by (intro parses_start many parses_loc_from parses_ret)
qed

lemma parses_selection_set [complete]:
  assumes "wf_selection_set ef ss" and "parses read ef ed (f (strip_selection_set ss)) ts y rest"
  shows "parses read ef ed (bnd parse_selection_set f) (selection_set_toks ss @ ts) y rest"
proof (rule parses_bnd)
  show "parses read ef ed parse_selection_set (selection_set_toks ss) (strip_selection_set ss) (ts @ rest)"
    unfolding parse_selection_set_def
    by (rule parses_fuel, rule parses_selection_set_fuel [OF assms(1)]) simp
qed (rule assms(2))

lemmas [complete] = parses_selection_set [where ts = "[]", unfolded append_Nil2]

lemma parses_operation_type [complete]:
  assumes "parses read ef ed (f op) ts y rest"
  shows "parses read ef ed (bnd parse_operation_type f) (operation_type_tok op # ts) y rest"
  unfolding parse_operation_type_def bnd_assoc operation_type_tok_def
  using assms by (cases op) (auto intro!: parses_expect_token)

lemma operation_type_tok_kind [simp]: "fst (operation_type_tok op) = NAME"
  by (simp add: operation_type_tok_def)

lemma parses_opt_name:
  assumes "\<And>x. fst (hd (ts @ rest)) \<noteq> NAME" and "parses read ef ed (f (map_option strip_name n)) ts y rest"
  shows "parses read ef ed (bnd (peek NAME) (\<lambda>b. bnd (opt_if b parse_name) f))
    (opt_toks (\<lambda>n. [name_tok n]) n @ ts) y rest"
  by (rule parses_peek) (use assms in \<open>cases n, auto simp: opt_if_def bnd_assoc intro!: parses_name\<close>)

lemma parses_operation:
  assumes "wf_operation ef d"
  shows "parses read ef ed parse_operation_definition (operation_toks d) (strip_operation d) rest"
proof (cases d)
  case (OperationDefinitionNode ss de n vds ds op l)
  with assms have wf: "wf_selection_set ef ss" "wf_opt wf_string de" "wf_list wf_variable_definition vds"
    "wf_list (wf_directive False) ds" by auto
  show ?thesis
  proof (cases "op = QUERY \<and> de = None \<and> n = None \<and> vds = None \<and> ds = None")
    case True
    with wf(1) show ?thesis
      unfolding OperationDefinitionNode parse_operation_definition_def
      by (intro parses_start parses_peek)
         (auto intro!: parses_selection_set [where ts = "[]", unfolded append_Nil2] parses_loc_from parses_ret)
  next
    case False
    let ?tail = "opt_toks (\<lambda>n. [name_tok n]) n @ variable_definitions_toks vds @ directives_toks ds
      @ selection_set_toks ss"
    have toks: "operation_toks d = description_toks de @ operation_type_tok op # ?tail"
      using False OperationDefinitionNode by auto
    have "fst (hd ((description_toks de @ operation_type_tok op # ?tail) @ rest)) \<noteq> BRACE_L"
      using string_tok_kind by (cases de) (auto simp: string_tok_def)
    then show ?thesis
      unfolding toks unfolding OperationDefinitionNode parse_operation_definition_def strip_operation.simps
      using wf
      by (intro parses_start parses_peek)
         (simp, intro parses_description parses_operation_type parses_opt_name
           parses_variable_definitions parses_directives
           parses_selection_set [where ts = "[]", unfolded append_Nil2] parses_loc_from parses_ret;
          simp add: first_tokens)
  qed
qed

lemma parses_fragment_definition:
  assumes "wf_fragment ef d"
  shows "parses read ef ed parse_fragment_definition (fragment_toks d) (strip_fragment d) rest"
proof (cases d)
  case (FragmentDefinitionNode ss de n vds ds tc l)
  let ?tail = "word ''on'' # named_type_tok tc # directives_toks ds @ selection_set_toks ss"
  let ?vds = "if vds = Some [] then [] else variable_definitions_toks vds"
  have vds: "parses read ef ed (bnd (if ef then parse_variable_definitions else ret (Some [])) f)
      (?vds @ ?tail) y rest"
    if "parses read ef ed (f (strips strip_variable_definition vds)) ?tail y rest" for f y
  proof (cases ef)
    case True
    with assms FragmentDefinitionNode have "wf_list wf_variable_definition vds" by simp
    then have "vds \<noteq> Some []" by (auto simp: wf_some_def)
    with True that \<open>wf_list wf_variable_definition vds\<close> show ?thesis
      by (auto intro!: parses_variable_definitions)
  qed (use that assms FragmentDefinitionNode in auto)
  show ?thesis
    unfolding FragmentDefinitionNode parse_fragment_definition_def fragment_toks.simps strip_fragment.simps
    using assms FragmentDefinitionNode
    by (intro parses_start parses_description parses_expect_keyword parses_options
        parses_fragment_name vds parses_type_condition parses_directives
        parses_selection_set [where ts = "[]", unfolded append_Nil2] parses_loc_from parses_ret) auto
qed

section \<open>Type system definitions\<close>

text \<open>Behind a member of a definition stands the next member or a closing bracket.\<close>

abbreviation member_start :: "kv \<Rightarrow> bool" where
  "member_start x \<equiv> fst x \<in> {NAME, STRING, BLOCK_STRING, PAREN_R, BRACE_R}"

lemma parses_operation_type_definition:
  "wf_operation_type_definition d \<Longrightarrow> parses read ef ed parse_operation_type_definition
     (operation_type_toks d) (strip_operation_type d) rest"
  unfolding parse_operation_type_definition_def
  by (cases d) (simp, (rule complete | simp)+)

lemma parses_input_value:
  assumes "wf_input_value_definition d" and "rest \<noteq> []" and "member_start (hd rest)"
  shows "parses read ef ed parse_input_value_def (input_value_toks d) (strip_input_value d) rest"
proof (cases d)
  case (InputValueDefinitionNode n t de dv ds l)
  with assms show ?thesis
    unfolding InputValueDefinitionNode parse_input_value_def_def input_value_toks.simps
      strip_input_value.simps
    by (intro parses_start parses_description parses_name parses_expect_token parses_type
        parses_default_value parses_const_directives [where ts = "[]", unfolded append_Nil2 append_Nil]
        parses_loc_from parses_ret) (auto simp: first_tokens)
qed

lemma member_hd:
  "input_value_toks d \<noteq> []" "fst (hd (input_value_toks d)) \<in> {NAME, STRING, BLOCK_STRING}"
  "field_definition_toks fd \<noteq> []" "fst (hd (field_definition_toks fd)) \<in> {NAME, STRING, BLOCK_STRING}"
  "enum_value_toks e \<noteq> []" "fst (hd (enum_value_toks e)) \<in> {NAME, STRING, BLOCK_STRING}"
  "operation_type_toks ot \<noteq> []" "fst (hd (operation_type_toks ot)) = NAME"
  using string_tok_kind
  by (cases d; cases fd; cases e; cases ot; auto simp: opt_toks_def split: option.split)+

lemma parses_member_list:
  assumes "\<And>xs. xo = Some xs \<Longrightarrow> xs \<noteq> [] \<and> (\<forall>x \<in> set xs. V x)"
    and "\<And>x rest. V x \<Longrightarrow> rest \<noteq> [] \<Longrightarrow> member_start (hd rest) \<Longrightarrow> parses read ef ed p (g x) (h x) rest"
    and "\<And>x. g x \<noteq> [] \<and> fst (hd (g x)) \<in> {NAME, STRING, BLOCK_STRING}"
    and "cl \<in> {PAREN_R, BRACE_R}" and "op \<noteq> EOF"
    and "xo = None \<Longrightarrow> fst (hd (ts @ rest)) \<noteq> op"
    and "parses read ef ed (f (strips h xo)) ts y rest"
  shows "parses read ef ed (bnd (optional_many op p cl) f) (opt_toks (many_toks op g cl) xo @ ts) y rest"
proof (rule parses_optional_many [where ok = member_start and h = h])
  fix xs assume xs: "xo = Some xs"
  have "fst (hd (g x)) \<noteq> cl \<and> member_start (hd (g x)) \<and> g x \<noteq> []" for x
    using assms(3) [of x] assms(4) by auto
  with assms(1) [OF xs] assms(2) show "items ef ed p g h member_start cl xs \<and> xs \<noteq> [] \<and> member_start (P cl)"
    using assms(4) by (auto simp: items_def)
qed (use assms in auto)

lemma parses_argument_defs [complete]:
  assumes "wf_list wf_input_value_definition xo" and "xo = None \<Longrightarrow> fst (hd (ts @ rest)) \<noteq> PAREN_L"
    and "parses read ef ed (f (strips strip_input_value xo)) ts y rest"
  shows "parses read ef ed (bnd parse_argument_defs f) (argument_definitions_toks xo @ ts) y rest"
  unfolding parse_argument_defs_def
  by (rule parses_member_list [where V = wf_input_value_definition])
     (use assms parses_input_value member_hd(1,2) in \<open>simp_all add: wf_some_def\<close>)

lemma parses_input_fields [complete]:
  assumes "wf_list wf_input_value_definition xo" and "xo = None \<Longrightarrow> fst (hd (ts @ rest)) \<noteq> BRACE_L"
    and "parses read ef ed (f (strips strip_input_value xo)) ts y rest"
  shows "parses read ef ed (bnd parse_input_fields_definition f) (block_toks input_value_toks xo @ ts) y rest"
  unfolding parse_input_fields_definition_def
  by (rule parses_member_list [where V = wf_input_value_definition])
     (use assms parses_input_value member_hd(1,2) in \<open>simp_all add: wf_some_def\<close>)

lemma parses_field_definition:
  assumes "wf_field_definition d" and "rest \<noteq> []" and "member_start (hd rest)"
  shows "parses read ef ed parse_field_definition (field_definition_toks d) (strip_field_definition d) rest"
proof (cases d)
  case (FieldDefinitionNode n t de args ds l)
  with assms show ?thesis
    unfolding FieldDefinitionNode parse_field_definition_def field_definition_toks.simps
      strip_field_definition.simps
    by (intro parses_start parses_description parses_name parses_argument_defs parses_expect_token
        parses_type parses_const_directives [where ts = "[]", unfolded append_Nil2 append_Nil]
        parses_loc_from parses_ret) (auto simp: first_tokens)
qed

lemma parses_fields [complete]:
  assumes "wf_list wf_field_definition xo" and "xo = None \<Longrightarrow> fst (hd (ts @ rest)) \<noteq> BRACE_L"
    and "parses read ef ed (f (strips strip_field_definition xo)) ts y rest"
  shows "parses read ef ed (bnd parse_fields_definition f) (block_toks field_definition_toks xo @ ts) y rest"
  unfolding parse_fields_definition_def
  by (rule parses_member_list [where V = wf_field_definition])
     (use assms parses_field_definition member_hd(3,4) in \<open>simp_all add: wf_some_def\<close>)

lemma parses_enum_value_name [complete]:
  assumes "name_value n \<notin> reserved_values" and "parses read ef ed (f (strip_name n)) ts y rest"
  shows "parses read ef ed (bnd parse_enum_value_name f) (name_tok n # ts) y rest"
  unfolding parse_enum_value_name_def bnd_assoc
  by (rule parses_cur_token)
     (use assms in \<open>auto simp: name_tok_def reserved_values_def
       intro!: parses_name [unfolded name_tok_def]\<close>)

lemma parses_enum_value:
  assumes "wf_enum_value_definition d" and "rest \<noteq> []" and "member_start (hd rest)"
  shows "parses read ef ed parse_enum_value_definition (enum_value_toks d) (strip_enum_value d) rest"
proof (cases d)
  case (EnumValueDefinitionNode n de ds l)
  with assms show ?thesis
    unfolding EnumValueDefinitionNode parse_enum_value_definition_def enum_value_toks.simps
      strip_enum_value.simps
    by (intro parses_start parses_description parses_enum_value_name
        parses_const_directives [where ts = "[]", unfolded append_Nil2 append_Nil]
        parses_loc_from parses_ret) (auto simp: first_tokens)
qed

lemma parses_enum_values [complete]:
  assumes "wf_list wf_enum_value_definition xo" and "xo = None \<Longrightarrow> fst (hd (ts @ rest)) \<noteq> BRACE_L"
    and "parses read ef ed (f (strips strip_enum_value xo)) ts y rest"
  shows "parses read ef ed (bnd parse_enum_values_definition f) (block_toks enum_value_toks xo @ ts) y rest"
  unfolding parse_enum_values_definition_def
  by (rule parses_member_list [where V = wf_enum_value_definition])
     (use assms parses_enum_value member_hd(5,6) in \<open>simp_all add: wf_some_def\<close>)

lemma parses_operation_types [complete]:
  assumes "wf_list wf_operation_type_definition xo" and "xo = None \<Longrightarrow> fst (hd (ts @ rest)) \<noteq> BRACE_L"
    and "parses read ef ed (f (strips strip_operation_type xo)) ts y rest"
  shows "parses read ef ed (bnd (optional_many BRACE_L parse_operation_type_definition BRACE_R) f)
    (block_toks operation_type_toks xo @ ts) y rest"
  by (rule parses_member_list [where V = wf_operation_type_definition])
     (use assms parses_operation_type_definition member_hd(7,8) in \<open>simp_all add: wf_some_def\<close>)

text \<open>Lists of named types with a delimiter.\<close>

lemma parses_named_types:
  assumes "xs \<noteq> []" and "fst (hd (ts @ rest)) \<noteq> d" and "d \<notin> {NAME, EOF}"
    and "parses read ef ed (f (map strip_named_type xs)) ts y rest"
  shows "parses read ef ed (bnd (delimited_many d parse_named_type) f)
    (sep_toks d (\<lambda>t. [named_type_tok t]) xs @ ts) y rest"
proof (rule parses_bnd)
  show "parses read ef ed (delimited_many d parse_named_type) (sep_toks d (\<lambda>t. [named_type_tok t]) xs)
      (map strip_named_type xs) (ts @ rest)"
    by (rule parses_delimited_many)
       (use assms in \<open>auto intro: parses_by_bnd parses_named_type parses_ret\<close>)
qed (rule assms(4))

lemma parses_interfaces [complete]:
  assumes "wf_list wf_named_type xo" and "xo = None \<Longrightarrow> hd (ts @ rest) \<noteq> word ''implements''"
    and "fst (hd (ts @ rest)) \<noteq> AMP" and "parses read ef ed (f (strips strip_named_type xo)) ts y rest"
  shows "parses read ef ed (bnd parse_implements_interfaces f) (interfaces_toks xo @ ts) y rest"
  unfolding parse_implements_interfaces_def bnd_assoc
  by (rule parses_expect_optional_keyword)
     (use assms in \<open>cases xo, auto simp: opt_if_def bnd_assoc wf_some_def intro!: parses_named_types\<close>)

lemma parses_union_types [complete]:
  assumes "wf_list wf_named_type xo" and "xo = None \<Longrightarrow> fst (hd (ts @ rest)) \<noteq> EQUALS"
    and "fst (hd (ts @ rest)) \<noteq> PIPE" and "parses read ef ed (f (strips strip_named_type xo)) ts y rest"
  shows "parses read ef ed (bnd parse_union_member_types f) (union_types_toks xo @ ts) y rest"
  unfolding parse_union_member_types_def bnd_assoc
  by (rule parses_expect_optional_token)
     (use assms in \<open>cases xo, auto simp: opt_if_def bnd_assoc wf_some_def intro!: parses_named_types\<close>)

lemma parses_directive_locations [complete]:
  assumes "wf_some (\<lambda>n. name_value n \<in> set (map str DirectiveLocation_members)) xs"
    and "fst (hd (ts @ rest)) \<noteq> PIPE" and "parses read ef ed (f (map strip_name xs)) ts y rest"
  shows "parses read ef ed (bnd parse_directive_locations f) (sep_toks PIPE (\<lambda>n. [name_tok n]) xs @ ts) y rest"
proof (rule parses_bnd)
  have "parses read ef ed parse_directive_location [name_tok n] (strip_name n) rest'"
    if "name_value n \<in> set (map str DirectiveLocation_members)" for n rest'
  proof -
    have "name_value (strip_name n) = name_value n" by (cases n) simp
    with that show ?thesis
      unfolding parse_directive_location_def by (intro parses_start parses_name) (simp add: parses_ret)
  qed
  with assms(1,2) show "parses read ef ed parse_directive_locations
      (sep_toks PIPE (\<lambda>n. [name_tok n]) xs) (map strip_name xs) (ts @ rest)"
    unfolding parse_directive_locations_def
    by (intro parses_delimited_many) (auto simp: wf_some_def)
qed (rule assms(3))

end

end
