(* ===== verification/Document_Complete.thy ===== *)
theory Document_Complete
  imports Parser_Complete
begin

text \<open>
  Completeness of the parser for definitions, documents and schema coordinates.  A document is read back
  from its tokens unless an object, interface, enum or input type (or an extension) without a block stands before a
  query in shorthand form: there the grammar itself takes the braces of the query for that block
  (\<open>unambiguous\<close>).
\<close>

section \<open>What stands behind a definition\<close>

text \<open>A definition whose block in braces is missing; a query in shorthand form.\<close>

fun lacks_block :: "definition_node \<Rightarrow> bool" where
  "lacks_block (ObjectTypeDefinitionNode n d ds is fs l) \<longleftrightarrow> fs = None"
| "lacks_block (InterfaceTypeDefinitionNode n d ds is fs l) \<longleftrightarrow> fs = None"
| "lacks_block (EnumTypeDefinitionNode n d ds vs l) \<longleftrightarrow> vs = None"
| "lacks_block (InputObjectTypeDefinitionNode n d ds ivs l) \<longleftrightarrow> ivs = None"
| "lacks_block (SchemaExtensionNode ds ops l) \<longleftrightarrow> ops = None"
| "lacks_block (ObjectTypeExtensionNode n ds is fs l) \<longleftrightarrow> fs = None"
| "lacks_block (InterfaceTypeExtensionNode n ds is fs l) \<longleftrightarrow> fs = None"
| "lacks_block (EnumTypeExtensionNode n ds vs l) \<longleftrightarrow> vs = None"
| "lacks_block (InputObjectTypeExtensionNode n ds ivs l) \<longleftrightarrow> ivs = None"
| "lacks_block _ \<longleftrightarrow> False"

fun is_shorthand :: "definition_node \<Rightarrow> bool" where
  "is_shorthand (OperationDefinition (OperationDefinitionNode ss d n vds ds op l)) \<longleftrightarrow>
     op = QUERY \<and> d = None \<and> n = None \<and> vds = None \<and> ds = None"
| "is_shorthand _ \<longleftrightarrow> False"

fun unambiguous :: "definition_node list \<Rightarrow> bool" where
  "unambiguous (d # e # ds) \<longleftrightarrow> \<not> (lacks_block d \<and> is_shorthand e) \<and> unambiguous (e # ds)"
| "unambiguous _ \<longleftrightarrow> True"

abbreviation def_follow :: "definition_node \<Rightarrow> kv \<Rightarrow> bool" where
  "def_follow d x \<equiv> fst x \<in> {NAME, STRING, BLOCK_STRING, BRACE_L, EOF} \<and> x \<noteq> word ''implements''
     \<and> (lacks_block d \<longrightarrow> fst x \<noteq> BRACE_L)"

lemma is_given_strips: "is_given (map_option (map f) xo) \<longleftrightarrow> xo \<noteq> None \<and> xo \<noteq> Some []"
  by (auto simp: is_given_def split: option.split)

lemma wf_list_not_empty: "wf_list V xo \<Longrightarrow> xo \<noteq> Some []"
  by (auto simp: wf_some_def)

lemma hd_words:
  "hd (interfaces_toks is @ ts) = (if is = None then hd ts else word ''implements'')"
  "hd (union_types_toks ts' @ ts) = (if ts' = None then hd ts else P EQUALS)"
  by (cases "is"; cases ts'; simp)+

context token_reader
begin

lemma hd_directives_word:
  "hd (directives_toks ds @ ts) = (if ds = None \<or> ds = Some [] then hd ts else P AT)"
  by (cases ds; cases "the ds") (auto simp: hd_append hd_directive_toks)

lemmas parses_const_directives_last = parses_const_directives [where ts = "[]", unfolded append_Nil2 append_Nil]
lemmas parses_fields_last = parses_fields [where ts = "[]", unfolded append_Nil2 append_Nil]
lemmas parses_input_fields_last = parses_input_fields [where ts = "[]", unfolded append_Nil2 append_Nil]
lemmas parses_enum_values_last = parses_enum_values [where ts = "[]", unfolded append_Nil2 append_Nil]
lemmas parses_union_types_last = parses_union_types [where ts = "[]", unfolded append_Nil2 append_Nil]
lemmas parses_operation_types_last =
  parses_operation_types [where ts = "[]", unfolded append_Nil2 append_Nil]

lemmas last_parts = parses_const_directives_last parses_fields_last parses_input_fields_last
  parses_enum_values_last parses_union_types_last parses_operation_types_last
  parses_loc_from parses_ret

lemmas definition_parts = parses_start parses_description parses_expect_keyword parses_name
  parses_interfaces parses_const_directives parses_argument_defs parses_expect_token

lemma parses_schema_definition:
  assumes "wf_definition ef ed (SchemaDefinitionNode d ds ops l)"
  shows "parses read ef ed parse_schema_definition (definition_toks (SchemaDefinitionNode d ds ops l))
    (strip_definition (SchemaDefinitionNode d ds ops l)) rest"
proof -
  have "items ef ed parse_operation_type_definition operation_type_toks strip_operation_type
      (\<lambda>_. True) BRACE_R ops \<and> ops \<noteq> []"
    using assms parses_operation_type_definition member_hd(7,8)
    by (auto simp: items_def wf_some_def)
  then have ops: "parses read ef ed (bnd (many BRACE_L parse_operation_type_definition BRACE_R) f)
      (many_toks BRACE_L operation_type_toks BRACE_R ops) y rest"
    if "parses read ef ed (f (map strip_operation_type ops)) [] y rest" for f y
    using that parses_many [where ts = "[]" and op = BRACE_L and ok = "\<lambda>_. True"
        and f = f and xs = ops and h = strip_operation_type] by simp
  show ?thesis
    unfolding parse_schema_definition_def definition_toks.simps strip_definition.simps
    by (intro definition_parts ops last_parts) (use assms in auto)
qed

lemma parses_type_definitions:
  "wf_definition ef ed (ScalarTypeDefinitionNode n d ds l) \<Longrightarrow>
     def_follow (ScalarTypeDefinitionNode n d ds l) (hd rest) \<Longrightarrow> rest \<noteq> [] \<Longrightarrow>
     parses read ef ed parse_scalar_type_definition
       (definition_toks (ScalarTypeDefinitionNode n d ds l))
       (strip_definition (ScalarTypeDefinitionNode n d ds l)) rest"
  "wf_definition ef ed (ObjectTypeDefinitionNode n d ds is fs l) \<Longrightarrow>
     def_follow (ObjectTypeDefinitionNode n d ds is fs l) (hd rest) \<Longrightarrow> rest \<noteq> [] \<Longrightarrow>
     parses read ef ed parse_object_type_definition
       (definition_toks (ObjectTypeDefinitionNode n d ds is fs l))
       (strip_definition (ObjectTypeDefinitionNode n d ds is fs l)) rest"
  "wf_definition ef ed (InterfaceTypeDefinitionNode n d ds is fs l) \<Longrightarrow>
     def_follow (InterfaceTypeDefinitionNode n d ds is fs l) (hd rest) \<Longrightarrow> rest \<noteq> [] \<Longrightarrow>
     parses read ef ed parse_interface_type_definition
       (definition_toks (InterfaceTypeDefinitionNode n d ds is fs l))
       (strip_definition (InterfaceTypeDefinitionNode n d ds is fs l)) rest"
  "wf_definition ef ed (UnionTypeDefinitionNode n d ds ts l) \<Longrightarrow>
     def_follow (UnionTypeDefinitionNode n d ds ts l) (hd rest) \<Longrightarrow> rest \<noteq> [] \<Longrightarrow>
     parses read ef ed parse_union_type_definition
       (definition_toks (UnionTypeDefinitionNode n d ds ts l))
       (strip_definition (UnionTypeDefinitionNode n d ds ts l)) rest"
  "wf_definition ef ed (EnumTypeDefinitionNode n d ds vs l) \<Longrightarrow>
     def_follow (EnumTypeDefinitionNode n d ds vs l) (hd rest) \<Longrightarrow> rest \<noteq> [] \<Longrightarrow>
     parses read ef ed parse_enum_type_definition
       (definition_toks (EnumTypeDefinitionNode n d ds vs l))
       (strip_definition (EnumTypeDefinitionNode n d ds vs l)) rest"
  "wf_definition ef ed (InputObjectTypeDefinitionNode n d ds ivs l) \<Longrightarrow>
     def_follow (InputObjectTypeDefinitionNode n d ds ivs l) (hd rest) \<Longrightarrow> rest \<noteq> [] \<Longrightarrow>
     parses read ef ed parse_input_object_type_definition
       (definition_toks (InputObjectTypeDefinitionNode n d ds ivs l))
       (strip_definition (InputObjectTypeDefinitionNode n d ds ivs l)) rest"
  unfolding parse_scalar_type_definition_def
    parse_object_type_definition_def
    parse_interface_type_definition_def
    parse_union_type_definition_def
    parse_enum_type_definition_def
    parse_input_object_type_definition_def
    definition_toks.simps strip_definition.simps
  by (intro definition_parts last_parts; auto simp: hd_words hd_directives_word hd_opt_many)+

text \<open>An extension is refused unless it gives at least one of its parts.\<close>

lemma parses_unless:
  "\<not> b \<Longrightarrow> parses read ef ed m ts x rest \<Longrightarrow> parses read ef ed (if b then unexpected else m) ts x rest"
  by simp

lemma parses_type_extensions:
  "wf_definition ef ed (SchemaExtensionNode ds ops l) \<Longrightarrow>
     def_follow (SchemaExtensionNode ds ops l) (hd rest) \<Longrightarrow> rest \<noteq> [] \<Longrightarrow>
     parses read ef ed parse_schema_extension
       (definition_toks (SchemaExtensionNode ds ops l))
       (strip_definition (SchemaExtensionNode ds ops l)) rest"
  "wf_definition ef ed (DirectiveExtensionNode n ds l) \<Longrightarrow>
     def_follow (DirectiveExtensionNode n ds l) (hd rest) \<Longrightarrow> rest \<noteq> [] \<Longrightarrow>
     parses read ef ed parse_directive_definition_extension
       (definition_toks (DirectiveExtensionNode n ds l))
       (strip_definition (DirectiveExtensionNode n ds l)) rest"
  "wf_definition ef ed (ScalarTypeExtensionNode n ds l) \<Longrightarrow>
     def_follow (ScalarTypeExtensionNode n ds l) (hd rest) \<Longrightarrow> rest \<noteq> [] \<Longrightarrow>
     parses read ef ed parse_scalar_type_extension
       (definition_toks (ScalarTypeExtensionNode n ds l))
       (strip_definition (ScalarTypeExtensionNode n ds l)) rest"
  "wf_definition ef ed (ObjectTypeExtensionNode n ds is fs l) \<Longrightarrow>
     def_follow (ObjectTypeExtensionNode n ds is fs l) (hd rest) \<Longrightarrow> rest \<noteq> [] \<Longrightarrow>
     parses read ef ed parse_object_type_extension
       (definition_toks (ObjectTypeExtensionNode n ds is fs l))
       (strip_definition (ObjectTypeExtensionNode n ds is fs l)) rest"
  "wf_definition ef ed (InterfaceTypeExtensionNode n ds is fs l) \<Longrightarrow>
     def_follow (InterfaceTypeExtensionNode n ds is fs l) (hd rest) \<Longrightarrow> rest \<noteq> [] \<Longrightarrow>
     parses read ef ed parse_interface_type_extension
       (definition_toks (InterfaceTypeExtensionNode n ds is fs l))
       (strip_definition (InterfaceTypeExtensionNode n ds is fs l)) rest"
  "wf_definition ef ed (UnionTypeExtensionNode n ds ts l) \<Longrightarrow>
     def_follow (UnionTypeExtensionNode n ds ts l) (hd rest) \<Longrightarrow> rest \<noteq> [] \<Longrightarrow>
     parses read ef ed parse_union_type_extension
       (definition_toks (UnionTypeExtensionNode n ds ts l))
       (strip_definition (UnionTypeExtensionNode n ds ts l)) rest"
  "wf_definition ef ed (EnumTypeExtensionNode n ds vs l) \<Longrightarrow>
     def_follow (EnumTypeExtensionNode n ds vs l) (hd rest) \<Longrightarrow> rest \<noteq> [] \<Longrightarrow>
     parses read ef ed parse_enum_type_extension
       (definition_toks (EnumTypeExtensionNode n ds vs l))
       (strip_definition (EnumTypeExtensionNode n ds vs l)) rest"
  "wf_definition ef ed (InputObjectTypeExtensionNode n ds ivs l) \<Longrightarrow>
     def_follow (InputObjectTypeExtensionNode n ds ivs l) (hd rest) \<Longrightarrow> rest \<noteq> [] \<Longrightarrow>
     parses read ef ed parse_input_object_type_extension
       (definition_toks (InputObjectTypeExtensionNode n ds ivs l))
       (strip_definition (InputObjectTypeExtensionNode n ds ivs l)) rest"
  unfolding parse_schema_extension_def
    parse_directive_definition_extension_def
    parse_scalar_type_extension_def
    parse_object_type_extension_def
    parse_interface_type_extension_def
    parse_union_type_extension_def
    parse_enum_type_extension_def
    parse_input_object_type_extension_def
    definition_toks.simps strip_definition.simps
  by (intro definition_parts parses_unless last_parts;
      auto simp: hd_words hd_directives_word hd_opt_many is_given_strips dest: wf_list_not_empty)+

lemma parses_directive_definition:
  assumes "wf_definition ef ed (DirectiveDefinitionNode n locs d args ds rep l)"
    and "def_follow (DirectiveDefinitionNode n locs d args ds rep l) (hd rest)" and "rest \<noteq> []"
  shows "parses read ef ed parse_directive_definition
    (definition_toks (DirectiveDefinitionNode n locs d args ds rep l))
    (strip_definition (DirectiveDefinitionNode n locs d args ds rep l)) rest"
proof -
  let ?locs = "word ''on'' # sep_toks PIPE (\<lambda>n. [name_tok n]) locs"
  let ?rep = "if rep then [word ''repeatable''] else []"
  have rep: "parses read ef ed (bnd (expect_optional_keyword ''repeatable'') f) (?rep @ ?locs) y rest"
    if "parses read ef ed (f rep) ?locs y rest" for f y
    using that by (intro parses_expect_optional_keyword) auto
  have ds: "parses read ef ed (bnd (if ed then parse_const_directives else ret None) f)
      (directives_toks ds @ ?rep @ ?locs) y rest"
    if "parses read ef ed (f (strips strip_directive ds)) (?rep @ ?locs) y rest" for f y
    using that assms(1,3) by (cases ed) (auto intro!: parses_const_directives)
  show ?thesis
    unfolding parse_directive_definition_def definition_toks.simps strip_definition.simps
    by (intro definition_parts parses_options ds rep
          parses_directive_locations [where ts = "[]", unfolded append_Nil2 append_Nil] last_parts)
       (use assms in \<open>auto simp: hd_directives_word\<close>)
qed

section \<open>Dispatch and documents\<close>

lemma parses_lookahead:
  assumes "\<And>t. kv t = y \<Longrightarrow> parses read ef ed (f t) ts z rest" and "ts @ rest = x # y # us"
  shows "parses read ef ed (bnd lexer_lookahead f) ts z rest"
proof (rule parsesI)
  fix c st assume st: "ready read ef ed c st (ts @ rest)"
  then have lx: "feeds (p_lexer st) (x # y # us)" "lx_read_next_token (p_lexer st) = read"
    "lexer_ok (p_lexer st)" using assms(2) by (auto simp: ready_def)
  from lookahead_feeds [OF lx(1)] obtain t lx' where
    l: "lookahead (p_lexer st) = Inr (t, lx')" "kv t = y" "feeds lx' (ts @ rest)"
    using assms(2) by auto
  have "ready read ef ed c (st\<lparr>p_lexer := lx'\<rparr>) (ts @ rest)"
    using st l(3) lookahead_frame [OF l(1)] lookahead_spec [OF lx(2,3)] l(1) lx
    by (auto simp: ready_def same_lexer_def)
  from parsesD [OF assms(1) [OF l(2)] this] l(1)
  show "\<exists>st'. bnd lexer_lookahead f st = Inr (z, st') \<and> ready read ef ed c st' rest"
    by (simp add: bnd_def lexer_lookahead_def)
qed

text \<open>The method that the keyword of a definition selects.\<close>

definition selects :: "bool \<Rightarrow> string \<Rightarrow> definition_node parser \<Rightarrow> bool" where
  "selects desc k m \<longleftrightarrow>
     method_for parse_type_system_definition_methods (Some (str k)) = Some m
     \<or> method_for parse_type_system_definition_methods (Some (str k)) = None \<and>
       (method_for parse_executable_definition_methods (Some (str k)) = Some m
        \<or> method_for parse_executable_definition_methods (Some (str k)) = None \<and> \<not> desc
          \<and> method_for parse_other_definition_methods (Some (str k)) = Some m)"

lemma parses_keyword_definition:
  assumes "selects (de \<noteq> None) k m" and "parses read ef ed m (description_toks de @ word k # us) x rest"
  shows "parses read ef ed parse_definition (description_toks de @ word k # us) x rest"
proof -
  let ?ts = "description_toks de @ word k # us"
  have kinds: "fst (hd (?ts @ rest)) \<noteq> BRACE_L"
    "fst (hd (?ts @ rest)) = STRING \<or> fst (hd (?ts @ rest)) = BLOCK_STRING \<longleftrightarrow> de \<noteq> None"
    by (cases de; auto simp: string_tok_def)+
  have desc: "parses read ef ed (bnd peek_description f) ?ts x rest"
    if "parses read ef ed (f (de \<noteq> None)) ?ts x rest" for f
    unfolding peek_description_def bnd_assoc
    using that kinds(2)
    by (intro parses_peek) (auto intro!: parses_peek [where k = BLOCK_STRING] simp del: append_assoc)
  have keyword: "parses read ef ed (bnd (if de \<noteq> None then lexer_lookahead else cur_token) f) ?ts x rest"
    if "\<And>t. kv t = word k \<Longrightarrow> parses read ef ed (f t) ?ts x rest" for f
    using that
    by (cases de) (auto intro!: parses_lookahead [where y = "word k"] parses_cur_token [where rest = rest])
  have shorthand: "parses read ef ed (bnd (peek BRACE_L) f) ?ts x rest"
    if "parses read ef ed (f False) ?ts x rest" for f
    using that kinds(1) by (intro parses_peek) (simp del: append_assoc)
  show ?thesis
    unfolding parse_definition_def
    by (rule shorthand, simp only: if_False, rule desc, rule keyword)
       (use assms in \<open>auto simp: selects_def\<close>)
qed

lemma selects_definitions:
  "selects b ''schema'' parse_schema_definition"
  "selects b ''scalar'' parse_scalar_type_definition"
  "selects b ''type'' parse_object_type_definition"
  "selects b ''interface'' parse_interface_type_definition"
  "selects b ''union'' parse_union_type_definition"
  "selects b ''enum'' parse_enum_type_definition"
  "selects b ''input'' parse_input_object_type_definition"
  "selects b ''directive'' parse_directive_definition"
  by (simp_all add: selects_def method_for_def parse_type_system_definition_methods_def)

lemma selects_others:
  "k \<in> {''query'', ''mutation'', ''subscription''} \<Longrightarrow>
     selects b k (bnd parse_operation_definition (\<lambda>d. ret (OperationDefinition d)))"
  "selects b ''fragment'' (bnd parse_fragment_definition (\<lambda>d. ret (FragmentDefinition d)))"
  "selects False ''extend'' parse_type_system_extension"
  by (auto simp: selects_def method_for_def parse_type_system_definition_methods_def
      parse_executable_definition_methods_def parse_other_definition_methods_def Let_def)

text \<open>Extensions: the keyword stands behind \<open>extend\<close>.\<close>

lemma parses_extension:
  assumes "method_for parse_type_extension_methods (Some (str k)) = Some m \<or>
      method_for parse_type_extension_methods (Some (str k)) = None \<and> k = ''directive'' \<and> ed
        \<and> m = parse_directive_definition_extension"
    and "parses read ef ed m (word ''extend'' # word k # us) x rest"
  shows "parses read ef ed parse_definition (word ''extend'' # word k # us) x rest"
proof -
  have "parses read ef ed parse_type_system_extension (word ''extend'' # word k # us) x rest"
    unfolding parse_type_system_extension_def
    by (rule parses_lookahead [where y = "word k"], rule parses_options) (use assms in auto)
  from parses_keyword_definition [where de = None, OF _ ] this selects_others(3) show ?thesis
    using parses_keyword_definition [of None "''extend''" parse_type_system_extension ef ed
        "word k # us" x rest] by simp
qed

text \<open>The same for the tokens of a definition, as one rule for definitions and one for extensions.\<close>

lemma parses_definition_rule:
  assumes "definition_toks d = description_toks de @ word k # us" and "selects (de \<noteq> None) k m"
    and "parses read ef ed m (definition_toks d) x rest"
  shows "parses read ef ed parse_definition (definition_toks d) x rest"
  using parses_keyword_definition [OF assms(2)] assms(1,3) by simp

lemma parses_extension_rule:
  assumes "definition_toks d = word ''extend'' # word k # us"
    and "method_for parse_type_extension_methods (Some (str k)) = Some m \<or>
      method_for parse_type_extension_methods (Some (str k)) = None \<and> k = ''directive'' \<and> ed
        \<and> m = parse_directive_definition_extension"
    and "parses read ef ed m (definition_toks d) x rest"
  shows "parses read ef ed parse_definition (definition_toks d) x rest"
  using parses_extension [OF assms(2)] assms(1,3) by simp

lemma extension_methods:
  "method_for parse_type_extension_methods (Some (str ''schema'')) = Some parse_schema_extension"
  "method_for parse_type_extension_methods (Some (str ''scalar'')) = Some parse_scalar_type_extension"
  "method_for parse_type_extension_methods (Some (str ''type'')) = Some parse_object_type_extension"
  "method_for parse_type_extension_methods (Some (str ''interface'')) = Some parse_interface_type_extension"
  "method_for parse_type_extension_methods (Some (str ''union'')) = Some parse_union_type_extension"
  "method_for parse_type_extension_methods (Some (str ''enum'')) = Some parse_enum_type_extension"
  "method_for parse_type_extension_methods (Some (str ''input'')) = Some parse_input_object_type_extension"
  "method_for parse_type_extension_methods (Some (str ''directive'')) = None"
  by (simp_all add: method_for_def parse_type_extension_methods_def)

lemma parses_definition:
  assumes "wf_definition ef ed d" and "def_follow d (hd rest)" and "rest \<noteq> []"
  shows "parses read ef ed parse_definition (definition_toks d) (strip_definition d) rest"
proof (cases d)
  case (OperationDefinition od)
  with assms parses_operation [of ef od]
  have p: "parses read ef ed (bnd parse_operation_definition (\<lambda>d. ret (OperationDefinition d)))
      (operation_toks od) (OperationDefinition (strip_operation od)) rest"
    by (auto intro: parses_bnd_ret)
  obtain ss de n vds ds op l where od: "od = OperationDefinitionNode ss de n vds ds op l" by (cases od)
  show ?thesis
  proof (cases "op = QUERY \<and> de = None \<and> n = None \<and> vds = None \<and> ds = None")
    case True
    with p OperationDefinition od show ?thesis
      unfolding parse_definition_def by (intro parses_peek) simp
  next
    case False
    let ?op = "case op of QUERY \<Rightarrow> ''query'' | MUTATION \<Rightarrow> ''mutation'' | SUBSCRIPTION \<Rightarrow> ''subscription''"
    have "operation_type_tok op = word ?op" "?op \<in> {''query'', ''mutation'', ''subscription''}"
      by (cases op; simp add: operation_type_tok_def)+
    with p False OperationDefinition od show ?thesis
      by (auto intro!: parses_keyword_definition selects_others)
  qed
next
  case (FragmentDefinition fd)
  obtain ss de n vds ds tc l where fd: "fd = FragmentDefinitionNode ss de n vds ds tc l" by (cases fd)
  have "parses read ef ed (bnd parse_fragment_definition (\<lambda>d. ret (FragmentDefinition d)))
      (fragment_toks fd) (FragmentDefinition (strip_fragment fd)) rest"
    using assms FragmentDefinition parses_fragment_definition [of ef fd] by (auto intro: parses_bnd_ret)
  then show ?thesis
    unfolding FragmentDefinition fd by (auto intro!: parses_keyword_definition selects_others)
next
  case (DirectiveExtensionNode n ds l)
  with assms(1) have ed: ed by simp
  show ?thesis
    unfolding DirectiveExtensionNode
    by (rule parses_extension_rule, rule definition_toks.simps, rule disjI2,
        rule conjI [OF extension_methods(8)], intro conjI, rule refl, rule ed, rule refl,
        rule parses_type_extensions) (use assms DirectiveExtensionNode in simp_all)
qed ((hypsubst, rule parses_definition_rule, rule definition_toks.simps, rule selects_definitions,
    rule parses_schema_definition parses_type_definitions parses_directive_definition;
    use assms in simp)+,
  (hypsubst, rule parses_extension_rule, rule definition_toks.simps, rule disjI1, rule extension_methods,
    rule parses_type_extensions; use assms in simp)+)

text \<open>The first token of a definition.\<close>

lemma definition_hd:
  "definition_toks d \<noteq> []"
  "fst (hd (definition_toks d)) \<in> {NAME, STRING, BLOCK_STRING, BRACE_L}"
  "hd (definition_toks d) \<noteq> word ''implements''"
  "fst (hd (definition_toks d)) = BRACE_L \<longleftrightarrow> is_shorthand d"
proof -
  have op: "operation_type_tok op \<noteq> word ''implements''" for op
    by (cases op) (simp_all add: operation_type_tok_def)
  have d: "description_toks de @ x # xs \<noteq> []"
    "fst x = NAME \<Longrightarrow> fst (hd (description_toks de @ x # xs)) \<in> {NAME, STRING, BLOCK_STRING}"
    "x \<noteq> word ''implements'' \<Longrightarrow> hd (description_toks de @ x # xs) \<noteq> word ''implements''" for de x xs
    by (cases de; auto simp: string_tok_def)+
  have all: "definition_toks d \<noteq> [] \<and> (if is_shorthand d then hd (definition_toks d) = P BRACE_L
      else fst (hd (definition_toks d)) \<in> {NAME, STRING, BLOCK_STRING}
        \<and> hd (definition_toks d) \<noteq> word ''implements'')"
  proof (cases d)
    case (OperationDefinition od)
    obtain ss de n vds ds op l where od: "od = OperationDefinitionNode ss de n vds ds op l" by (cases od)
    show ?thesis
    proof (cases "is_shorthand d")
      case True
      then show ?thesis by (simp add: OperationDefinition od)
    next
      case False
      then have "definition_toks d = description_toks de @ operation_type_tok op
          # (opt_toks (\<lambda>n. [name_tok n]) n @ variable_definitions_toks vds @ directives_toks ds
            @ selection_set_toks ss)"
        by (auto simp: OperationDefinition od)
      with False d(1) d(2,3) [of "operation_type_tok op"] op show ?thesis by simp
    qed
  next
    case (FragmentDefinition fd)
    obtain ss de n vds ds tc l where "fd = FragmentDefinitionNode ss de n vds ds tc l" by (cases fd)
    with d(1) d(2,3) [of "word ''fragment''"] show ?thesis by (simp add: FragmentDefinition)
  qed (use d in simp_all)
  show "definition_toks d \<noteq> []" using all by blast
  show "fst (hd (definition_toks d)) \<in> {NAME, STRING, BLOCK_STRING, BRACE_L}"
    "hd (definition_toks d) \<noteq> word ''implements''"
    "fst (hd (definition_toks d)) = BRACE_L \<longleftrightarrow> is_shorthand d"
    using all by (auto split: if_splits)
qed

lemma parses_end: "parses read ef ed (expect_optional_token EOF) [] True [P EOF]"
proof (rule parsesI)
  fix c st assume "ready read ef ed c st ([] @ [P EOF])"
  then have st: "feeds (p_lexer st) [P EOF]" "lexer_ok (p_lexer st)" "tok_kind (ps_token st) = EOF"
    and ready: "ready read ef ed c st [P EOF]"
    by (auto simp: ready_def)
  from st(2,3) have links: "lx_links (p_lexer st) = []"
    by (cases "lx_links (p_lexer st)") (auto simp: lexer_ok_def)
  let ?lx = "(p_lexer st)\<lparr>lx_last_token := ps_token st\<rparr>"
  have "advance (p_lexer st) = Inr (ps_token st, ?lx)"
    using st(3) links by (simp add: advance_def)
  moreover have "ready read ef ed c (st\<lparr>p_lexer := ?lx\<rparr>) [P EOF]"
    using ready by (auto simp: ready_def lexer_ok_def)
  ultimately show "\<exists>st'. expect_optional_token EOF st = Inr (True, st') \<and> ready read ef ed c st' [P EOF]"
    using st(3)
    unfolding expect_optional_token_def bnd_cur_token by (auto simp: bnd_def advance_lexer_def ret_def)
qed

lemma parses_definitions_loop:
  assumes "\<forall>d \<in> set ds. wf_definition ef ed d" and "unambiguous ds" and "length ds < n"
  shows "parses read ef ed (until_loop n parse_definition EOF nodes) (all_toks definition_toks ds)
    (nodes @ map strip_definition ds) [P EOF]"
  using assms
proof (induction ds arbitrary: n nodes)
  case Nil
  then obtain m where n: "n = Suc m" by (cases n) auto
  show ?case
    unfolding n until_loop.simps by (simp, rule parses_bnd_ret [OF parses_end]) simp
next
  case (Cons d ds)
  then obtain m where n: "n = Suc m" by (cases n) auto
  let ?rest = "all_toks definition_toks ds @ [P EOF]"
  have "def_follow d (hd ?rest) \<and> ?rest \<noteq> []"
  proof (cases ds)
    case (Cons e es)
    with Cons.prems(2) definition_hd [of e] show ?thesis by (auto simp: hd_append)
  qed simp
  then have d: "parses read ef ed parse_definition (definition_toks d) (strip_definition d) ?rest"
    using Cons.prems(1) by (intro parses_definition) auto
  have "unambiguous ds" using Cons.prems(2) by (cases ds) auto
  then have "parses read ef ed (until_loop m parse_definition EOF (nodes @ [strip_definition d]))
      (all_toks definition_toks ds) ((nodes @ [strip_definition d]) @ map strip_definition ds) [P EOF]"
    by (intro Cons.IH) (use Cons.prems n in auto)
  from parses_bnd [where m = parse_definition and ts = "definition_toks d" and rest = "[P EOF]"
      and f = "\<lambda>node. until_loop m parse_definition EOF (nodes @ [node])", OF d this]
  show ?case
    unfolding n until_loop.simps
    using definition_hd(1,2) [of d]
    by (intro parses_expect_optional_token) (auto simp: hd_append)
qed

lemma parses_document:
  assumes "ready read ef ed c st (P SOF # all_toks definition_toks ds @ [P EOF])"
    and "p_token_counter st = 0"
    and "\<forall>d \<in> set ds. wf_definition ef ed d" and "unambiguous ds" and "ds \<noteq> []"
  shows "\<exists>st'. parse_document st = Inr (DocumentNode (map strip_definition ds) None
    (length (all_toks definition_toks ds)), st')"
proof -
  from assms(5) obtain d es where ds: "ds = d # es" by (cases ds) auto
  let ?rest = "all_toks definition_toks es @ [P EOF]"
  have "def_follow d (hd ?rest) \<and> ?rest \<noteq> []"
  proof (cases es)
    case (Cons e es')
    with assms(4) definition_hd [of e] show ?thesis by (auto simp: ds hd_append)
  qed simp
  then have d: "parses read ef ed parse_definition (definition_toks d) (strip_definition d) ?rest"
    using assms(3) ds by (intro parses_definition) auto
  have es: "unambiguous es" "\<forall>d \<in> set es. wf_definition ef ed d" using assms(3,4) ds by (cases es; auto)+
  have loop: "parses read ef ed (with_fuel (\<lambda>n. until_loop n parse_definition EOF [strip_definition d]))
      (all_toks definition_toks es) (map strip_definition ds) [P EOF]"
  proof (rule parses_fuel)
    fix n assume "length (all_toks definition_toks es @ [P EOF]) \<le> n"
    moreover have "length es \<le> length (all_toks definition_toks es)"
      by (rule length_le_all_toks) (simp add: definition_hd(1))
    ultimately have "length es < n" by simp
    from parses_definitions_loop [OF es(2,1) this, of "[strip_definition d]"]
    show "parses read ef ed (until_loop n parse_definition EOF [strip_definition d])
        (all_toks definition_toks es) (map strip_definition ds) [P EOF]" by (simp add: ds)
  qed
  from parses_bnd [where m = parse_definition and ts = "definition_toks d" and rest = "[P EOF]"
      and f = "\<lambda>node. with_fuel (\<lambda>n. until_loop n parse_definition EOF [node])", OF d this]
  have many: "parses read ef ed (many SOF parse_definition EOF) (P SOF # all_toks definition_toks ds)
      (map strip_definition ds) [P EOF]"
    unfolding many_def ds by (intro parses_expect_token) simp_all
  from parsesD [OF this, of c st] assms(1) obtain st' where
    m: "many SOF parse_definition EOF st = Inr (map strip_definition ds, st')"
    and st': "ready read ef ed c st' [P EOF]" by auto
  have "0 < length (all_toks definition_toks ds)" using definition_hd(1) [of d] by (simp add: ds)
  with st' assms(1,2) have "p_token_counter st' = length (all_toks definition_toks ds)"
    by (simp add: ready_def)
  then show ?thesis
    using m st' unfolding parse_document_def bnd_cur_token
    by (auto simp: bnd_def get_def loc_from_def ret_def ready_def)
qed

section \<open>Schema coordinates and whole inputs\<close>

lemma parses_coordinate:
  assumes "wf_coordinate d"
  shows "parses read ef ed parse_schema_coordinate_node (coordinate_toks d) (strip_coordinate d) [P EOF]"
  unfolding parse_schema_coordinate_node_def
  by (cases d)
     (simp, (rule complete | simp add: opt_if_def bnd_assoc)+)+

text \<open>A new parser object on a source whose tokens are known.\<close>

lemma ready_init:
  assumes "reads read src 0 ts" and "opt_no_location opts" and "opt_max_tokens opts = None"
  shows "ready read (opt_experimental_fragment_arguments opts)
    (opt_experimental_directives_on_directive_definitions opts) (length ts + 2)
    (Parser_init (Lexer_init read src) opts) (P SOF # ts @ [P EOF])"
proof -
  have "feeds (Lexer_init read src) (kv (lx_token (Lexer_init read src)) # ts @ [P EOF])"
    by (rule reads_feeds) (use assms(1) in \<open>simp_all add: Lexer_init_def sof_token_def\<close>)
  then show ?thesis
    using assms by (auto simp: ready_def Parser_init_def Lexer_init_def sof_token_def lexer_ok_def)
qed

lemma run_whole_input:
  assumes "reads read src 0 ts" and "opt_no_location opts" and "opt_max_tokens opts = None"
    and "parses read (opt_experimental_fragment_arguments opts)
      (opt_experimental_directives_on_directive_definitions opts) m ts x [P EOF]"
  shows "run_parser read src opts (whole_input m) = Inr x"
proof -
  let ?ef = "opt_experimental_fragment_arguments opts"
  let ?ed = "opt_experimental_directives_on_directive_definitions opts"
  have fin: "parses read ?ef ?ed (bnd (expect_token EOF) (\<lambda>_. ret x)) [] x [P EOF]"
  proof (rule parsesI)
    fix c st assume st: "ready read ?ef ?ed c st ([] @ [P EOF])"
    then have eof: "tok_kind (ps_token st) = EOF" by (simp add: ready_def)
    from parsesD [OF parses_end st] obtain st' where
      "expect_optional_token EOF st = Inr (True, st')" "ready read ?ef ?ed c st' [P EOF]" by auto
    with eof have "bnd advance_lexer (\<lambda>_. ret True) st = Inr (True, st')"
      by (simp add: expect_optional_token_def bnd_cur_token)
    then have "advance_lexer st = Inr ((), st')" by (auto simp: bnd_Inr ret_def)
    with eof show "\<exists>st'. bnd (expect_token EOF) (\<lambda>_. ret x) st = Inr (x, st')
        \<and> ready read ?ef ?ed c st' [P EOF]"
      using \<open>ready read ?ef ?ed c st' [P EOF]\<close> unfolding expect_token_def bnd_assoc bnd_cur_token
      by (simp add: bnd_assoc) (simp add: bnd_def ret_def)
  qed
  have "parses read ?ef ?ed (whole_input m) (P SOF # ts) x [P EOF]"
    unfolding whole_input_def
    by (rule parses_expect_token, simp, simp, rule parses_bnd_last, rule assms(4), rule fin)
  from parsesD [OF this, of "length ts + 2"] ready_init [OF assms(1-3)] show ?thesis
    by (fastforce simp: run_parser_def)
qed

lemma run_document:
  assumes "reads read src 0 (all_toks definition_toks ds)" and "opt_no_location opts"
    and "opt_max_tokens opts = None"
    and "\<forall>d \<in> set ds. wf_definition (opt_experimental_fragment_arguments opts)
      (opt_experimental_directives_on_directive_definitions opts) d"
    and "unambiguous ds" and "ds \<noteq> []"
  shows "run_parser read src opts parse_document
    = Inr (DocumentNode (map strip_definition ds) None (length (all_toks definition_toks ds)))"
  using parses_document [OF ready_init [OF assms(1-3)] _ assms(4-6)]
  by (auto simp: run_parser_def Parser_init_def)

end

end
