(* ===== verification/Printer_Layout.thy ===== *)
theory Printer_Layout
  imports Document_Complete
begin

text \<open>
  The printer writes the tokens of the tree: the text of \<open>print_...\<close> is a laid-out text of the tokens
  of the node, for every node of the grammar whose strings are sequences of Unicode scalar values.
\<close>

section \<open>Putting laid-out texts together\<close>

text \<open>A text that continues no token before it.\<close>

definition breaks :: "pystr \<Rightarrow> bool" where
  "breaks s \<longleftrightarrow> s = [] \<or> (\<not> is_name_continue (hd s) \<and> hd s \<noteq> 46 \<and> hd s \<noteq> 34)"

lemma breaks_simps [simp]:
  "breaks []" "breaks (c # s) \<longleftrightarrow> \<not> is_name_continue c \<and> c \<noteq> 46 \<and> c \<noteq> 34"
  by (simp_all add: breaks_def)

lemma breaks_append: "breaks (s @ t) \<longleftrightarrow> (if s = [] then breaks t else breaks s)"
  by (simp add: breaks_def)

lemma breaks_follows: "breaks s \<Longrightarrow> follows x s"
  by (auto simp: breaks_def follows_def ends_number_def is_name_continue_def is_name_start_def
      split: token_kind.split)

lemma follows_hd: "follows x s \<Longrightarrow> s \<noteq> [] \<Longrightarrow> t \<noteq> [] \<Longrightarrow> hd t = hd s \<Longrightarrow> follows x t"
  by (cases "fst x") (auto simp: follows_def ends_number_def)

lemma punct_char [simp]:
  "\<not> is_name_continue 32" "\<not> is_name_continue 10" "\<not> is_name_continue 44"
  "\<not> is_name_continue 40" "\<not> is_name_continue 41" "\<not> is_name_continue 58"
  "\<not> is_name_continue 93" "\<not> is_name_continue 125" "\<not> is_name_continue 33"
  "\<not> is_name_continue 123" "\<not> is_name_continue 61"
  by (simp_all add: is_name_continue_def is_letter_def is_digit_def)

lemma layout_space: "layout ts s \<Longrightarrow> c \<in> {32, 10, 44} \<Longrightarrow> layout ts (c # s)"
  by (auto intro!: layout.skip simp: is_layout_char_def is_ignored_char_def)

lemma layout_punct: "KIND_FOR_PUNCT c = Some k \<Longrightarrow> layout ts s \<Longrightarrow> layout (P k # ts) (c # s)"
  using layout.token [OF token_text.punct, of c k s ts]
  by (cases k) (auto simp: follows_def KIND_FOR_PUNCT_def split: if_splits)

lemma layout_puncts:
  "layout ts s \<Longrightarrow> layout (P DOLLAR # ts) (36 # s)"
  "layout ts s \<Longrightarrow> layout (P AMP # ts) (38 # s)"
  "layout ts s \<Longrightarrow> layout (P PAREN_L # ts) (40 # s)"
  "layout ts s \<Longrightarrow> layout (P PAREN_R # ts) (41 # s)"
  "layout ts s \<Longrightarrow> layout (P COLON # ts) (58 # s)"
  "layout ts s \<Longrightarrow> layout (P EQUALS # ts) (61 # s)"
  "layout ts s \<Longrightarrow> layout (P AT # ts) (64 # s)"
  "layout ts s \<Longrightarrow> layout (P BRACKET_L # ts) (91 # s)"
  "layout ts s \<Longrightarrow> layout (P BRACKET_R # ts) (93 # s)"
  "layout ts s \<Longrightarrow> layout (P BRACE_L # ts) (123 # s)"
  "layout ts s \<Longrightarrow> layout (P BRACE_R # ts) (125 # s)"
  "layout ts s \<Longrightarrow> layout (P PIPE # ts) (124 # s)"
  "layout ts s \<Longrightarrow> layout (P BANG # ts) (33 # s)"
  by (rule layout_punct, simp add: KIND_FOR_PUNCT_def, assumption)+

lemma layout_spread: "layout ts s \<Longrightarrow> layout (P SPREAD # ts) (46 # 46 # 46 # s)"
  using layout.token [OF token_text.spread, of s ts] by (simp add: follows_def)

lemma layout_token:
  "token_text x w \<Longrightarrow> layout ts s \<Longrightarrow> breaks s \<Longrightarrow> layout (x # ts) (w @ s)"
  by (rule layout.token) (simp_all add: breaks_follows)

lemma layout_append: "layout ts s \<Longrightarrow> layout us t \<Longrightarrow> breaks t \<Longrightarrow> layout (ts @ us) (s @ t)"
proof (induction rule: layout.induct)
  case (token x w s xs)
  then have "follows x (s @ t)" by (cases "s = []") (auto simp: breaks_follows intro: follows_hd)
  with token show ?case using layout.token [of x w "s @ t" "xs @ us"] by simp
qed (auto intro: layout.intros)

lemma layout_empty: "layout ts [] \<Longrightarrow> ts = []"
  by (cases rule: layout.cases) (auto dest: token_text_start)

lemma layout_not_empty: "layout ts s \<Longrightarrow> ts \<noteq> [] \<Longrightarrow> s \<noteq> []"
  using layout_empty by auto

lemmas layout_start = layout.Nil layout_space layout_puncts layout_spread

section \<open>Indentation\<close>

lemma translate_char_no_line_feed: "10 \<notin> set (translate_char c)"
proof -
  have "10 \<noteq> hex_digit_upper d" for d by (simp add: hex_digit_upper_def)
  moreover from this have "10 \<notin> set (hex_digits_upper n)" for n
    by (induction n rule: hex_digits_upper.induct) (subst hex_digits_upper.simps, auto)
  ultimately show ?thesis
    by (auto simp: translate_char_def escape_sequences_def format_04X_def Let_def)
qed

lemma number_no_line_feed:
  "is_int_literal v \<Longrightarrow> 10 \<notin> set v" "is_float_literal v \<Longrightarrow> 10 \<notin> set v"
proof -
  have d: "10 \<notin> set w" if "is_digits w" for w using that by (auto simp: is_digits_def is_digit_def)
  then have n: "10 \<notin> set w" if "is_natural w" for w using that by (auto simp: is_natural_def)
  then show i: "10 \<notin> set w" if "is_int_literal w" for w using that by (auto simp: is_int_literal_def)
  have f: "10 \<notin> set w" if "is_fraction w" for w
    using that d by (cases w) (auto simp: is_fraction_def)
  have e: "10 \<notin> set w" if "is_exponent w" for w
  proof -
    from that obtain c u where w: "w = c # u" "c \<noteq> 10"
      and u: "is_digits u \<or> (u \<noteq> [] \<and> hd u \<in> {43, 45} \<and> is_digits (tl u))"
      by (cases w) (auto simp: is_exponent_def)
    from u d [of u] d [of "tl u"] have "10 \<notin> set u" by (cases u) auto
    with w show ?thesis by simp
  qed
  show "10 \<notin> set w" if "is_float_literal w" for w
    using that i f e by (auto simp: is_float_literal_def)
qed

lemma token_text_indented: "token_text x w \<Longrightarrow> token_text x (indented w)"
proof (induction rule: token_text.induct)
  case (punct c k)
  then have "c \<noteq> 10" by (auto simp: KIND_FOR_PUNCT_def)
  with punct show ?case by (auto intro: token_text.punct)
next
  case (name v)
  have "\<not> is_name_start 10" by (simp add: is_name_start_def is_letter_def)
  then have "10 \<notin> set v" using name by (cases v) (auto simp: is_name_def)
  with name show ?case by (simp add: indented_id token_text.name)
next
  case (int v)
  then show ?case by (simp add: indented_id token_text.int number_no_line_feed)
next
  case (float v)
  then show ?case by (simp add: indented_id token_text.float number_no_line_feed)
next
  case (string v)
  have "10 \<notin> set (print_string v)" by (simp add: print_string_def translate_char_no_line_feed)
  with string show ?case by (simp add: indented_id token_text.string)
next
  case (block v n)
  then show ?case by (simp add: block_text_indented token_text.block)
qed (auto intro: token_text.intros)

lemma follows_indented: "follows x s \<Longrightarrow> follows x (indented s)"
  by (cases "s = []") (auto intro: follows_hd simp: hd_indented)

lemma layout_indented: "layout ts s \<Longrightarrow> layout ts (indented s)"
proof (induction rule: layout.induct)
  case (skip c xs s)
  then show ?case
    using layout.skip [of c xs "indented s"]
    by (cases "c = 10") (simp_all add: layout_space)
qed (auto intro: layout.intros token_text_indented follows_indented)

lemma layout_indent: "layout ts s \<Longrightarrow> layout ts (indent s)"
proof -
  assume "layout ts s"
  then have "layout ts (wrap [32, 32] (Some (indented s)) [])"
    using layout_indented [of ts s] by (auto simp: wrap_def intro!: layout_start)
  then show ?thesis by (simp add: indent_def str_replace_single indented_def)
qed

section \<open>The helper functions of the printer\<close>

lemma wrap_simps [simp]:
  "wrap start None en = []" "wrap start (Some []) en = []"
  "s \<noteq> [] \<Longrightarrow> wrap start (Some s) en = start @ s @ en"
  by (simp_all add: wrap_def)

lemma str_join_eq_Nil: "(\<forall>s \<in> set ss. s \<noteq> []) \<Longrightarrow> str_join sep ss = [] \<longleftrightarrow> ss = []"
  by (induction sep ss rule: str_join.induct) auto

lemma join_simps [simp]:
  "join None sep = []" "join (Some []) sep = []"
  "join (Some (s # ss)) sep =
     (if s = [] then join (Some ss) sep
      else if join (Some ss) sep = [] then s else s @ sep @ join (Some ss) sep)"
proof -
  have *: "str_join sep (s # ts) = (if ts = [] then s else s @ sep @ str_join sep ts)"
    for s :: pystr and ts by (cases ts) auto
  show "join (Some (s # ss)) sep =
     (if s = [] then join (Some ss) sep
      else if join (Some ss) sep = [] then s else s @ sep @ join (Some ss) sep)"
    by (auto simp: join_def * str_join_eq_Nil)
qed (simp_all add: join_def)

definition gap :: "pystr \<Rightarrow> bool" where
  "gap s \<longleftrightarrow> s \<noteq> [] \<and> set s \<subseteq> {32, 10, 44}"

lemma gap_literals [simp]:
  "gap [10]" "gap [10, 10]" "gap (str '' '')" "gap (str '', '')"
  by (simp_all add: gap_def str_def)

lemma layout_gap: "gap g \<Longrightarrow> layout ts s \<Longrightarrow> layout ts (g @ s) \<and> breaks (g @ s)"
proof -
  have "set g \<subseteq> {32, 10, 44} \<Longrightarrow> layout ts s \<Longrightarrow> layout ts (g @ s)"
    by (induction g) (auto intro!: layout_start)
  then show "gap g \<Longrightarrow> layout ts s \<Longrightarrow> layout ts (g @ s) \<and> breaks (g @ s)"
    by (cases g) (auto simp: gap_def)
qed

lemma layout_join_cons:
  assumes "layout ts s" and "layout us (join (Some ss) sep)" and "gap sep"
  shows "layout (ts @ us) (join (Some (s # ss)) sep)"
proof (cases "join (Some ss) sep = [] \<or> s = []")
  case True
  with assms(1,2) layout_empty [of ts] layout_empty [of us] show ?thesis
    by (cases "s = []") auto
next
  case False
  with layout_append [OF assms(1)] layout_gap [OF assms(3,2)] show ?thesis by simp
qed

lemma layout_join_map:
  assumes "\<forall>x \<in> set xs. layout (f x) (g x)" and "gap sep"
  shows "layout (concat (map f xs)) (join (Some (map g xs)) sep)"
  using assms(1)
proof (induction xs)
  case (Cons x xs)
  then show ?case
    using layout_join_cons [of "f x" "g x" "concat (map f xs)" "map g xs" sep] assms(2)
    by (simp del: join_simps(3))
qed (simp add: layout.Nil)

lemma breaks_first: "gap g \<Longrightarrow> breaks (g @ s)"
  by (cases g) (auto simp: gap_def)

section \<open>Names, strings, values\<close>

text \<open>The strings of a tree that the printer can write and the lexer can read back.\<close>

definition string_ok :: "kv \<Rightarrow> bool" where
  "string_ok x \<longleftrightarrow> (fst x = STRING \<longrightarrow> is_scalar_text (the (snd x)))
     \<and> (fst x = BLOCK_STRING \<longrightarrow> block_value_ok (the (snd x)))"

definition printable :: "kv list \<Rightarrow> bool" where
  "printable ts \<longleftrightarrow> (\<forall>x \<in> set ts. string_ok x)"

lemma printable_simps [simp]:
  "printable []" "printable (x # ts) \<longleftrightarrow> string_ok x \<and> printable ts"
  "printable (ts @ us) \<longleftrightarrow> printable ts \<and> printable us"
  "printable (concat tss) \<longleftrightarrow> (\<forall>ts \<in> set tss. printable ts)"
  by (auto simp: printable_def)

lemma printable_all [simp]: "printable (all_toks f xs) \<longleftrightarrow> (\<forall>x \<in> set xs. printable (f x))"
  by (simp add: all_toks_def)

lemma layout_name: "wf_name n \<Longrightarrow> layout ts s \<Longrightarrow> breaks s \<Longrightarrow> layout (name_tok n # ts) (print_name n @ s)"
  by (simp add: layout_token name_tok_def print_name_def wf_name_def token_text.name)

lemma layout_named_type:
  "wf_named_type t \<Longrightarrow> layout ts s \<Longrightarrow> breaks s
    \<Longrightarrow> layout (named_type_tok t # ts) (print_named_type t @ s)"
  by (simp add: layout_name named_type_tok_def print_named_type_def wf_named_type_def)

lemma print_name_not_empty: "wf_name n \<Longrightarrow> print_name n \<noteq> []"
  by (auto simp: wf_name_def print_name_def is_name_def)

lemma layout_word:
  "is_name (str w) \<Longrightarrow> layout ts s \<Longrightarrow> breaks s \<Longrightarrow> layout (word w # ts) (str w @ s)"
  by (simp add: layout_token token_text.name)

lemma layout_word_space:
  "is_name (str w) \<Longrightarrow> layout ts s \<Longrightarrow> layout (word w # ts) (str (w @ '' '') @ s)"
  using layout_word [of w ts "32 # s"] by (simp add: layout_space str_append str_Cons)

lemma print_named_type_not_empty: "wf_named_type t \<Longrightarrow> print_named_type t \<noteq> []"
  by (simp add: wf_named_type_def print_named_type_def print_name_not_empty)

lemma layout_string:
  assumes "wf_string v" and "string_ok (string_tok v)" and "layout ts s" and "breaks s"
  shows "layout (string_tok v # ts) (print_string_value v @ s)"
  using assms token_text.string [of "string_value v"] token_text.block [of "string_value v" 0]
  by (auto simp: string_tok_def string_ok_def print_string_value_def block_text_def layout_token
      split: if_splits)

lemma layout_variable:
  "wf_variable v \<Longrightarrow> layout ts s \<Longrightarrow> breaks s \<Longrightarrow> layout (variable_toks v @ ts) (print_variable v @ s)"
  by (auto simp: variable_toks_def print_variable_def wf_variable_def str_def
      intro!: layout_start layout_name)

text \<open>The forms that end with the text of the node.\<close>

lemmas layout_ends =
  layout_name [OF _ layout.Nil breaks_simps(1), unfolded append_Nil2]
  layout_named_type [OF _ layout.Nil breaks_simps(1), unfolded append_Nil2]
  layout_word [OF _ layout.Nil breaks_simps(1), unfolded append_Nil2]
  layout_string [OF _ _ layout.Nil breaks_simps(1), unfolded append_Nil2]
  layout_variable [OF _ layout.Nil breaks_simps(1), unfolded append_Nil2]

lemma layout_list_value:
  assumes "\<forall>v \<in> set vs. layout (f v) (g v)"
  shows "layout (P BRACKET_L # concat (map f vs) @ [P BRACKET_R]) (leave_list_value (map g vs))"
proof -
  note j = layout_join_map [OF assms gap_literals(4)]
    layout_indent [OF layout_join_map [OF assms gap_literals(1)]]
  have cl: "layout [P BRACKET_R] [93]" "layout [P BRACKET_R] [10, 93]" by (intro layout_start; simp)+
  from layout_append [OF j(1) cl(1)] layout_append [OF j(2) cl(2)] show ?thesis
    by (auto simp: leave_list_value_def Let_def str_def intro!: layout_start)
qed

lemma join_eq_Nil: "join (Some ss) sep = [] \<longleftrightarrow> (\<forall>s \<in> set ss. s = [])"
  by (induction ss) auto

lemma indent_not_empty: "s \<noteq> [] \<Longrightarrow> indent s \<noteq> []"
  by (cases s) (simp_all add: indent_def wrap_def str_replace_single)

lemma layout_block:
  assumes "\<forall>x \<in> set xs. layout (f x) (g x)" and "\<exists>x \<in> set xs. g x \<noteq> []"
  shows "layout (P BRACE_L # concat (map f xs) @ [P BRACE_R]) (block (Some (map g xs)))"
proof -
  note i = layout_indent [OF layout_join_map [OF assms(1) gap_literals(1)]]
  have "layout [P BRACE_R] [10, 125]" by (intro layout_start; simp)
  from layout_append [OF i this] indent_not_empty [of "join (Some (map g xs)) [10]"] assms(2)
  show ?thesis
    by (auto simp: block_def join_eq_Nil intro!: layout_start)
qed

lemma layout_object_value:
  assumes "\<forall>v \<in> set vs. layout (f v) (g v)"
  shows "layout (P BRACE_L # concat (map f vs) @ [P BRACE_R]) (leave_object_value (map g vs))"
proof (cases "length (str ''{ '' @ join (Some (map g vs)) (str '', '') @ str '' }'') > MAX_LINE_LENGTH")
  case True
  then have "join (Some (map g vs)) (str '', '') \<noteq> []" by (auto simp: MAX_LINE_LENGTH_def)
  with True layout_block [OF assms] show ?thesis
    by (simp add: leave_object_value_def join_eq_Nil)
next
  case False
  have "layout [P BRACE_R] [32, 125]" by (intro layout_start; simp)
  from layout_append [OF layout_join_map [OF assms gap_literals(4)] this] False show ?thesis
    by (auto simp: leave_object_value_def str_def intro!: layout_start)
qed

lemma layout_value:
  "wf_value c v \<Longrightarrow> printable (value_toks v) \<Longrightarrow> layout (value_toks v) (print_value v)"
  "wf_object_field c f \<Longrightarrow> printable (object_field_toks f)
     \<Longrightarrow> layout (object_field_toks f) (print_object_field f)"
proof (induction v and f)
  case (VariableValue v)
  then show ?case by (simp add: layout_ends)
next
  case (IntValueNode v l)
  then show ?case
    using layout_token [OF token_text.int layout.Nil breaks_simps(1)] by simp
next
  case (FloatValueNode v l)
  then show ?case
    using layout_token [OF token_text.float layout.Nil breaks_simps(1)] by simp
next
  case (StringValue v)
  then show ?case by (simp add: layout_ends)
next
  case (BooleanValueNode b l)
  have "is_name (str ''true'')" "is_name (str ''false'')" by code_simp+
  then show ?case by (simp add: layout_ends)
next
  case (NullValueNode l)
  have "is_name (str ''null'')" by code_simp
  then show ?case by (simp add: layout_ends)
next
  case (EnumValueNode v l)
  then show ?case
    using layout_token [OF token_text.name layout.Nil breaks_simps(1)] by simp
next
  case (ListValueNode vs l)
  then show ?case using layout_list_value [of vs value_toks print_value] by simp
next
  case (ObjectValueNode fs l)
  then show ?case using layout_object_value [of fs object_field_toks print_object_field] by simp
next
  case (ObjectFieldNode n v l)
  then show ?case
    by (auto simp: leave_object_field_def str_def intro!: layout_name layout_start)
qed

section \<open>Arguments, directives, types\<close>

lemma layout_argument:
  "wf_argument c a \<Longrightarrow> printable (argument_toks a) \<Longrightarrow> layout (argument_toks a) (print_argument a)"
  by (cases a)
    (auto simp: print_argument_def str_def intro!: layout_name layout_start layout_value)

lemma layout_fragment_argument:
  "wf_fragment_argument a \<Longrightarrow> printable (fragment_argument_toks a)
    \<Longrightarrow> layout (fragment_argument_toks a) (print_fragment_argument a)"
  by (cases a)
    (auto simp: print_fragment_argument_def str_def intro!: layout_name layout_start layout_value)

text \<open>An optional list in parentheses, on one line or on several.\<close>

definition gives_text :: "('a \<Rightarrow> kv list) \<Rightarrow> ('a \<Rightarrow> pystr) \<Rightarrow> 'a list option \<Rightarrow> bool" where
  "gives_text f g xo \<longleftrightarrow> (\<forall>xs. xo = Some xs \<longrightarrow>
     xs \<noteq> [] \<and> (\<forall>x \<in> set xs. f x \<noteq> [] \<and> layout (f x) (g x)))"

lemma gives_text_simps [simp]:
  "gives_text f g None"
  "gives_text f g (Some xs) \<longleftrightarrow> xs \<noteq> [] \<and> (\<forall>x \<in> set xs. f x \<noteq> [] \<and> layout (f x) (g x))"
  by (auto simp: gives_text_def)

lemma gives_text_join:
  assumes "gives_text f g (Some xs)" and "gap sep"
  shows "layout (concat (map f xs)) (join (Some (map g xs)) sep)"
    and "join (Some (map g xs)) sep \<noteq> []"
proof -
  show l: "layout (concat (map f xs)) (join (Some (map g xs)) sep)"
    using assms by (intro layout_join_map) auto
  from assms have "concat (map f xs) \<noteq> []" by (cases xs) auto
  with l show "join (Some (map g xs)) sep \<noteq> []" by (rule layout_not_empty)
qed

text \<open>Laid-out text that may stand directly behind any token.\<close>

definition layout_tail :: "kv list \<Rightarrow> pystr \<Rightarrow> bool" where
  "layout_tail ts s \<longleftrightarrow> layout ts s \<and> breaks s"

lemma layout_tail_Nil: "layout_tail [] []"
  by (simp add: layout_tail_def layout.Nil)

lemma layout_tail_append: "layout ts s \<Longrightarrow> layout_tail us t \<Longrightarrow> layout (ts @ us) (s @ t)"
  by (simp add: layout_tail_def layout_append)

lemma layout_tail_tail: "layout_tail ts s \<Longrightarrow> layout_tail us t \<Longrightarrow> layout_tail (ts @ us) (s @ t)"
  by (simp add: layout_tail_def layout_append breaks_append)

lemma layout_tail_space: "layout ts s \<Longrightarrow> c \<in> {32, 10, 44} \<Longrightarrow> layout_tail ts (c # s)"
  by (auto simp: layout_tail_def intro!: layout_start)

lemma layout_tail_punct:
  "layout ts s \<Longrightarrow> layout_tail (P PAREN_L # ts) (40 # s)"
  "layout ts s \<Longrightarrow> layout_tail (P PAREN_R # ts) (41 # s)"
  "layout ts s \<Longrightarrow> layout_tail (P COLON # ts) (58 # s)"
  "layout ts s \<Longrightarrow> layout_tail (P BRACKET_R # ts) (93 # s)"
  "layout ts s \<Longrightarrow> layout_tail (P BRACE_R # ts) (125 # s)"
  "layout ts s \<Longrightarrow> layout_tail (P BANG # ts) (33 # s)"
  by (auto simp: layout_tail_def intro!: layout_start)

lemma layout_tail_wrap: "layout ts s \<Longrightarrow> layout_tail ts (wrap (str '' '') (Some s) [])"
  by (cases "s = []")
    (auto simp: layout_tail_Nil str_def dest: layout_empty intro!: layout_tail_space)

lemma layout_parens:
  assumes "gives_text f g xo" and "gap sep"
  shows "layout_tail (opt_toks (many_toks PAREN_L f PAREN_R) xo)
      (wrap (str ''('') (Some (join (printed g xo) sep)) (str '')''))" (is ?line)
    and "layout_tail (opt_toks (many_toks PAREN_L f PAREN_R) xo)
      (wrap [40, 10] (Some (join (printed g xo) sep)) [10, 41])" (is ?lines)
    and "layout_tail (opt_toks (many_toks PAREN_L f PAREN_R) xo)
      (wrap [40, 10] (Some (indent (join (printed g xo) sep))) [10, 41])" (is ?indented)
proof -
  have "?line \<and> ?lines \<and> ?indented"
  proof (cases xo)
    case None
    then show ?thesis by (simp add: layout_tail_Nil indent_def)
  next
    case (Some xs)
    note j = gives_text_join [OF assms(1) [unfolded Some] assms(2)]
    have cl: "layout_tail [P PAREN_R] [41]" "layout_tail [P PAREN_R] [10, 41]"
      by (auto simp: layout_tail_def intro!: layout_start)
    from layout_tail_append [OF j(1) cl(1)] layout_tail_append [OF j(1) cl(2)] j(2)
      layout_tail_append [OF layout_indent [OF j(1)] cl(2)] indent_not_empty [OF j(2)]
    show ?thesis
      by (auto simp: Some many_toks_def all_toks_def str_def intro!: layout_tail_punct layout_start)
  qed
  then show ?line and ?lines and ?indented by blast+
qed

lemma layout_braces:
  assumes "gives_text f g (Some xs)"
  shows "layout (many_toks BRACE_L f BRACE_R xs) (block (Some (map g xs)))"
proof -
  have "\<exists>x \<in> set xs. g x \<noteq> []"
    using assms gives_text_join(2) [OF assms gap_literals(1)] by (auto simp: join_eq_Nil)
  with assms layout_block [of xs f g] show ?thesis by (simp add: many_toks_def all_toks_def)
qed

lemma layout_wrapped:
  assumes "layout ts prefix" and "gives_text f g xo"
  shows "layout (ts @ opt_toks (many_toks PAREN_L f PAREN_R) xo)
    (wrapped_line_and_args prefix (printed g xo))"
  using layout_tail_append [OF assms(1) layout_parens(1) [OF assms(2) gap_literals(4)]]
    layout_tail_append [OF assms(1) layout_parens(3) [OF assms(2) gap_literals(1)]]
  by (simp add: wrapped_line_and_args_def Let_def)

lemma gives_textI:
  assumes "wf_list W xo" and "printable (opt_toks (many_toks op f cl) xo)"
    and "\<And>x. W x \<Longrightarrow> printable (f x) \<Longrightarrow> layout (f x) (g x)" and "\<And>x. f x \<noteq> []"
  shows "gives_text f g xo"
  using assms by (cases xo) (auto simp: wf_some_def many_toks_def)

lemma toks_not_empty [simp]:
  "value_toks v \<noteq> []" "argument_toks a \<noteq> []" "fragment_argument_toks fa \<noteq> []"
  "directive_toks d \<noteq> []" "selection_set_toks ss \<noteq> []" "selection_toks s \<noteq> []"
  "variable_definition_toks vd \<noteq> []" "input_value_toks iv \<noteq> []" "operation_type_toks ot \<noteq> []"
  "field_definition_toks fd \<noteq> []" "enum_value_toks ev \<noteq> []"
proof -
  show "value_toks v \<noteq> []" by (cases v) (simp_all add: variable_toks_def)
  show "argument_toks a \<noteq> []" "fragment_argument_toks fa \<noteq> []" "directive_toks d \<noteq> []"
    by (cases a; cases fa; cases d; simp)+
  show "selection_set_toks ss \<noteq> []" by (cases ss) simp
  show "selection_toks s \<noteq> []" by (cases s) auto
  show "variable_definition_toks vd \<noteq> []" by (cases vd) (simp add: variable_toks_def)
  show "input_value_toks iv \<noteq> []" "operation_type_toks ot \<noteq> []" "field_definition_toks fd \<noteq> []"
    "enum_value_toks ev \<noteq> []"
    by (cases iv; cases ot; cases fd; cases ev; simp)+
qed

lemma layout_directive:
  assumes "wf_directive c d" and "printable (directive_toks d)"
  shows "layout (directive_toks d) (print_directive d)"
proof (cases d)
  case (DirectiveNode n args l)
  with assms have "gives_text argument_toks print_argument args"
    by (intro gives_textI [where W = "wf_argument c"]) (auto intro: layout_argument)
  from layout_parens(1) [OF this gap_literals(4)] assms show ?thesis
    by (auto simp: DirectiveNode print_directive_def str_def layout_tail_def
        intro!: layout_name layout_start)
qed

text \<open>Optional directives, with and without the blank before them.\<close>

lemma layout_directives:
  assumes "wf_list (wf_directive c) ds" and "printable (directives_toks ds)"
  shows "layout (directives_toks ds) (joined_directives ds)"
    and "layout_tail (directives_toks ds) (wrap (str '' '') (Some (joined_directives ds)) [])"
proof -
  have "gives_text directive_toks print_directive ds"
    using assms by (cases ds) (auto simp: wf_some_def intro: layout_directive)
  then show *: "layout (directives_toks ds) (joined_directives ds)"
    using gives_text_join(1) [OF _ gap_literals(3), of directive_toks print_directive]
    by (cases ds) (simp_all add: all_toks_def layout.Nil del: join_simps(3))
  then show "layout_tail (directives_toks ds) (wrap (str '' '') (Some (joined_directives ds)) [])"
    by (rule layout_tail_wrap)
qed

lemma layout_type: "wf_type t \<Longrightarrow> layout (type_toks t) (print_type t)"
proof (induction t)
  case (NamedType t)
  then show ?case by (simp add: layout_ends)
next
  case (ListTypeNode t l)
  have "layout_tail [P BRACKET_R] [93]" by (auto intro!: layout_tail_punct layout_start)
  with ListTypeNode layout_tail_append show ?case
    by (auto simp: str_def intro!: layout_start layout_tail_append)
next
  case (NonNullTypeNode t l)
  have "layout_tail [P BANG] [33]" by (auto intro!: layout_tail_punct layout_start)
  with NonNullTypeNode layout_tail_append show ?case
    by (auto simp: str_def intro!: layout_start layout_tail_append)
qed

section \<open>Selections\<close>

lemma layout_joined:
  assumes "layout a s" and "layout b t"
  shows "layout (a @ b) (join (Some [s, t]) (str '' ''))"
    and "layout c u \<Longrightarrow> layout (a @ b @ c) (join (Some [s, t, u]) (str '' ''))"
    and "layout c u \<Longrightarrow> layout d v \<Longrightarrow> layout (a @ b @ c @ d) (join (Some [s, t, u, v]) (str '' ''))"
    and "layout c u \<Longrightarrow> layout d v \<Longrightarrow> layout e w
      \<Longrightarrow> layout (a @ b @ c @ d @ e) (join (Some [s, t, u, v, w]) (str '' ''))"
proof -
  have "list_all2 layout tss ss \<Longrightarrow> layout (concat tss) (join (Some ss) (str '' ''))" for tss ss
    by (induction rule: list_all2_induct)
      (simp_all add: layout.Nil layout_join_cons del: join_simps(3))
  note * = this [of "[_, _]" "[_, _]"] this [of "[_, _, _]" "[_, _, _]"]
    this [of "[_, _, _, _]" "[_, _, _, _]"] this [of "[_, _, _, _, _]" "[_, _, _, _, _]"]
  show "layout (a @ b) (join (Some [s, t]) (str '' ''))" using assms *(1) [of a b s t] by simp
  show "layout (a @ b @ c) (join (Some [s, t, u]) (str '' ''))" if "layout c u"
    using assms that *(2) [of a b c s t u] by simp
  show "layout (a @ b @ c @ d) (join (Some [s, t, u, v]) (str '' ''))" if "layout c u" "layout d v"
    using assms that *(3) [of a b c d s t u v] by simp
  show "layout (a @ b @ c @ d @ e) (join (Some [s, t, u, v, w]) (str '' ''))"
    if "layout c u" "layout d v" "layout e w"
    using assms that *(4) [of a b c d e s t u v w] by simp
qed

lemma join_Nil: "join (Some ss) [] = concat ss"
  by (induction ss) auto

lemma layout_selection:
  "wf_selection ef s \<Longrightarrow> printable (selection_toks s)
     \<Longrightarrow> layout (selection_toks s) (print_selection s)"
  "wf_selection_set ef ss \<Longrightarrow> printable (selection_set_toks ss)
     \<Longrightarrow> layout (selection_set_toks ss) (print_selection_set ss)"
proof (induction s and ss)
  case (FieldNode n a args ds ss l)
  have name: "layout (opt_toks (\<lambda>a. [name_tok a, P COLON]) a @ [name_tok n])
      (join (Some [wrap [] (map_option print_name a) (str '': ''), print_name n]) [])"
    using FieldNode.prems(1) print_name_not_empty
    by (cases a)
      (auto simp: join_Nil str_def intro!: layout_name layout_start layout_ends simp del: join_simps)
  have args: "gives_text argument_toks print_argument args"
    using FieldNode.prems
    by (intro gives_textI [where W = "wf_argument False"]) (auto intro: layout_argument)
  have sels: "layout_tail (case ss of None \<Rightarrow> [] | Some s \<Rightarrow> selection_set_toks s)
      (wrap (str '' '') (case ss of None \<Rightarrow> None | Some s \<Rightarrow> Some (print_selection_set s)) [])"
    using FieldNode by (cases ss) (auto simp: layout_tail_Nil intro!: layout_tail_wrap)
  have dirs: "layout_tail (directives_toks ds) (wrap (str '' '') (Some (joined_directives ds)) [])"
    using FieldNode.prems by (intro layout_directives) auto
  from layout_tail_append [OF layout_wrapped [OF name args] layout_tail_tail [OF dirs sels]]
  show ?case by (simp add: leave_field_def Let_def join_Nil del: join_simps)
next
  case (FragmentSpreadNode n args ds l)
  have name: "layout [P SPREAD, name_tok n] (str ''...'' @ print_name n)"
    using FragmentSpreadNode.prems
    by (auto simp: str_def wf_fragment_name_def intro!: layout_spread layout_ends)
  have args: "gives_text fragment_argument_toks print_fragment_argument args"
    using FragmentSpreadNode.prems
    by (intro gives_textI [where W = wf_fragment_argument]) (auto intro: layout_fragment_argument)
  have dirs: "layout_tail (directives_toks ds) (wrap (str '' '') (Some (joined_directives ds)) [])"
    using FragmentSpreadNode.prems by (intro layout_directives) auto
  from layout_tail_append [OF layout_wrapped [OF name args] dirs]
  show ?case by (simp add: leave_fragment_spread_def del: join_simps)
next
  case (InlineFragmentNode ss tc ds l)
  have dots: "layout [P SPREAD] (str ''...'')"
    by (auto simp: str_def intro!: layout_spread layout.Nil)
  have "is_name (str ''on'')" by code_simp
  then have on: "layout (opt_toks (\<lambda>t. [word ''on'', named_type_tok t]) tc)
      (wrap (str ''on '') (map_option print_named_type tc) [])"
    using InlineFragmentNode.prems layout_word_space [of "''on''"]
    by (cases tc) (auto simp: print_named_type_not_empty layout.Nil intro: layout_ends)
  have dirs: "layout (directives_toks ds) (joined_directives ds)"
    using InlineFragmentNode.prems by (intro layout_directives) auto
  from InlineFragmentNode layout_joined(3) [OF dots on dirs]
  show ?case by (simp add: leave_inline_fragment_def del: join_simps)
next
  case (SelectionSetNode sels l)
  then have "gives_text selection_toks print_selection (Some sels)" by auto
  from layout_braces [OF this] show ?case by (simp add: many_toks_def all_toks_def)
qed

section \<open>Descriptions and default values\<close>

lemma layout_described:
  assumes "wf_opt wf_string d" and "printable (description_toks d)" and "layout ts s"
  shows "layout (description_toks d @ ts) (described d @ s)"
proof (cases d)
  case (Some v)
  with assms have "layout [string_tok v] (print_string_value v)" by (auto intro: layout_ends)
  moreover from this have "print_string_value v \<noteq> []" by (rule layout_not_empty) simp
  moreover have "layout_tail ts (10 # s)" using assms(3) by (auto intro: layout_tail_space)
  ultimately show ?thesis using layout_tail_append Some by fastforce
qed (simp add: assms(3))

lemma layout_default:
  assumes "wf_opt (wf_value c) dv" and "printable (default_toks dv)"
  shows "layout_tail (default_toks dv) (wrap (str '' = '') (map_option print_value dv) [])"
    and "layout (default_toks dv) (wrap (str ''= '') (map_option print_value dv) [])"
proof -
  have "layout_tail (default_toks dv) (wrap (str '' = '') (map_option print_value dv) [])
      \<and> layout (default_toks dv) (wrap (str ''= '') (map_option print_value dv) [])"
  proof (cases dv)
    case (Some v)
    with assms have v: "layout (value_toks v) (print_value v)" by (auto intro: layout_value)
    then have "print_value v \<noteq> []" by (rule layout_not_empty) simp
    with v Some show ?thesis
      by (auto simp: str_def intro!: layout_tail_space layout_start)
  qed (simp add: layout_tail_Nil layout.Nil)
  then show "layout_tail (default_toks dv) (wrap (str '' = '') (map_option print_value dv) [])"
    and "layout (default_toks dv) (wrap (str ''= '') (map_option print_value dv) [])" by blast+
qed

section \<open>Executable definitions\<close>

lemma layout_variable_definition:
  assumes "wf_variable_definition v" and "printable (variable_definition_toks v)"
  shows "layout (variable_definition_toks v) (print_variable_definition v)"
proof (cases v)
  case (VariableDefinitionNode d n t dv ds l)
  with assms have "layout_tail (default_toks dv) (wrap (str '' = '') (map_option print_value dv) [])"
    "layout_tail (directives_toks ds) (wrap (str '' '') (Some (joined_directives ds)) [])"
    by (auto intro: layout_default layout_directives)
  note t = layout_tail_append [OF layout_type layout_tail_tail [OF this]]
  show ?thesis
    using assms VariableDefinitionNode t
    by (auto simp: print_variable_definition_def str_Cons
        intro!: layout_described layout_variable layout_start)
qed

lemma layout_variable_definitions:
  assumes "wf_list wf_variable_definition vds" and "printable (variable_definitions_toks vds)"
  shows "gives_text variable_definition_toks print_variable_definition vds"
  using assms by (rule gives_textI) (simp_all add: layout_variable_definition)

text \<open>The text before the selection set of an operation is \<open>query\<close> in the shorthand form only.\<close>

lemma join_first_eq:
  assumes "join (Some [w, t, u]) (str '' '') = w" and "w \<noteq> []"
  shows "t = [] \<and> u = []"
proof -
  have "length (join (Some [w, t, u]) (str '' '')) = length w" using assms(1) by simp
  with assms(2) show ?thesis by (auto split: if_splits)
qed

lemma operation_prefix_query:
  assumes "described d @ join (Some [operation_type_value ot, t, u]) (str '' '') = str ''query''"
    and "wf_opt wf_string d" and "printable (description_toks d)"
  shows "d = None \<and> ot = QUERY \<and> t = [] \<and> u = []"
proof -
  have d: "d = None"
  proof (cases d)
    case (Some v)
    then have "hd (print_string_value v) = 34 \<and> print_string_value v \<noteq> []"
      by (auto simp: print_string_value_def print_string_def print_block_string_def triple_quote_def Let_def)
    with assms(1) Some show ?thesis by (cases "print_string_value v") (auto simp: str_Cons)
  qed simp
  have ot: "operation_type_value ot \<noteq> []" by (cases ot) simp_all
  then have "hd (join (Some [operation_type_value ot, t, u]) (str '' '')) = hd (operation_type_value ot)"
    by simp
  moreover from d assms(1) have j: "join (Some [operation_type_value ot, t, u]) (str '' '') = str ''query''"
    by (simp del: join_simps)
  ultimately have "hd (operation_type_value ot) = hd (str ''query'')" by (simp del: join_simps)
  then have "ot = QUERY" by (cases ot) (simp_all add: str_Cons)
  with d j join_first_eq [of "operation_type_value ot" t u] show ?thesis by (simp del: join_simps)
qed

lemma layout_operation_type: "layout [operation_type_tok ot] (operation_type_value ot)"
proof -
  have "is_name (str ''query'')" "is_name (str ''mutation'')" "is_name (str ''subscription'')"
    by code_simp+
  then have "is_name (operation_type_value ot)" by (cases ot) simp_all
  from layout_token [OF token_text.name [OF this] layout.Nil] show ?thesis
    by (simp add: operation_type_tok_def)
qed

lemma layout_operation:
  assumes "wf_operation ef op" and "printable (operation_toks op)"
  shows "layout (operation_toks op) (print_operation_definition op)"
proof (cases op)
  case (OperationDefinitionNode ss d n vds ds ot l)
  have sels: "layout (selection_set_toks ss) (print_selection_set ss)"
    using assms OperationDefinitionNode by (auto split: if_splits intro: layout_selection)
  show ?thesis
  proof (cases "ot = QUERY \<and> d = None \<and> n = None \<and> vds = None \<and> ds = None")
    case True
    with sels OperationDefinitionNode show ?thesis
      by (simp add: print_operation_definition_def has_multiline_items_def)
  next
    case False
    with assms OperationDefinitionNode have wf: "wf_opt wf_string d" "wf_opt wf_name n"
      "wf_list wf_variable_definition vds" "wf_list (wf_directive False) ds"
      and pr: "printable (description_toks d)" "printable (variable_definitions_toks vds)"
        "printable (directives_toks ds)" by auto
    note vd = layout_variable_definitions [OF wf(3) pr(2)]
    let ?vs = "printed print_variable_definition vds"
    define vars where "vars =
      (if has_multiline_items ?vs then wrap [40, 10] (Some (join ?vs [10])) [10, 41]
       else wrap (str ''('') (Some (join ?vs (str '', ''))) (str '')''))"
    define name where "name = (case n of None \<Rightarrow> [] | Some n \<Rightarrow> print_name n)"
    have "layout_tail (variable_definitions_toks vds) vars"
      using layout_parens [OF vd] by (simp add: vars_def)
    moreover have "layout (opt_toks (\<lambda>n. [name_tok n]) n) name"
      using wf(2) by (cases n) (auto simp: name_def layout.Nil intro: layout_ends)
    ultimately have nv: "layout (opt_toks (\<lambda>n. [name_tok n]) n @ variable_definitions_toks vds)
        (join (Some [name, vars]) [])"
      by (simp add: join_Nil layout_tail_append del: join_simps)
    note dirs = layout_directives(1) [OF wf(4) pr(3)]
    define prefix where "prefix = described d
      @ join (Some [operation_type_value ot, join (Some [name, vars]) [], joined_directives ds]) (str '' '')"
    note head = layout_described [OF wf(1) pr(1) layout_joined(2) [OF layout_operation_type nv dirs]]
    have "prefix \<noteq> str ''query''"
    proof
      assume "prefix = str ''query''"
      from operation_prefix_query [OF this [unfolded prefix_def] wf(1) pr(1)]
      have "d = None \<and> ot = QUERY" and e: "join (Some [name, vars]) [] = []" "joined_directives ds = []"
        by auto
      moreover have "opt_toks (\<lambda>n. [name_tok n]) n @ variable_definitions_toks vds = []"
        "directives_toks ds = []"
        using nv dirs e layout_empty by auto
      then have "n = None \<and> vds = None \<and> ds = None"
        using wf(4) by (cases n; cases vds; cases ds) (auto simp: many_toks_def wf_some_def all_toks_def neq_Nil_conv)
      ultimately show False using False by simp
    qed
    moreover have "operation_toks op = (description_toks d @ [operation_type_tok ot]
        @ (opt_toks (\<lambda>n. [name_tok n]) n @ variable_definitions_toks vds) @ directives_toks ds)
        @ selection_set_toks ss"
      using False by (auto simp: OperationDefinitionNode)
    with layout_tail_append [OF head layout_tail_space [OF sels, of 32]]
    have "layout (operation_toks op) (prefix @ str '' '' @ print_selection_set ss)"
      by (simp add: prefix_def str_Cons del: join_simps)
    ultimately show ?thesis
      by (simp add: print_operation_definition_def OperationDefinitionNode Let_def
          del: join_simps flip: vars_def name_def prefix_def)
  qed
qed

lemma layout_on:
  assumes "wf_named_type t" and "layout ts s"
  shows "layout_tail (word ''on'' # named_type_tok t # ts) (str '' on '' @ print_named_type t @ str '' '' @ s)"
proof -
  have "is_name (str ''on'')" by code_simp
  moreover have "layout (named_type_tok t # ts) (print_named_type t @ str '' '' @ s)"
    using assms by (auto simp: str_Cons intro!: layout_named_type layout_space)
  ultimately have "layout (word ''on'' # named_type_tok t # ts)
      (str (''on'' @ '' '') @ print_named_type t @ str '' '' @ s)"
    by (rule layout_word_space)
  from layout_tail_space [OF this, of 32] show ?thesis by (simp add: str_Cons)
qed

lemma layout_fragment:
  assumes "wf_fragment ef f" and "printable (fragment_toks f)"
  shows "layout (fragment_toks f) (print_fragment_definition f)"
proof (cases f)
  case (FragmentDefinitionNode ss d n vds ds tc l)
  have w: "is_name (str ''fragment'')" "is_name (str ''on'')" by code_simp+
  have sels: "layout (selection_set_toks ss) (print_selection_set ss)"
    and dirs: "layout (directives_toks ds) (joined_directives ds)"
    using assms FragmentDefinitionNode by (auto intro: layout_selection layout_directives)
  have "layout (directives_toks ds @ selection_set_toks ss)
      (wrap [] (Some (joined_directives ds)) (str '' '') @ print_selection_set ss)"
    using layout_tail_append [OF dirs layout_tail_space [OF sels, of 32]] sels layout_empty [of "directives_toks ds"] dirs
    by (cases "joined_directives ds = []") (auto simp: str_Cons)
  then have on: "layout_tail (word ''on'' # named_type_tok tc # directives_toks ds @ selection_set_toks ss)
      (str '' on '' @ print_named_type tc @ str '' ''
        @ wrap [] (Some (joined_directives ds)) (str '' '') @ print_selection_set ss)"
    using assms FragmentDefinitionNode by (intro layout_on) auto
  have "gives_text variable_definition_toks print_variable_definition
      (if vds = Some [] then None else vds)"
    using assms FragmentDefinitionNode
    by (auto intro!: layout_variable_definitions split: if_splits)
  from layout_parens(1) [OF this gap_literals(4)]
  have "layout_tail (if vds = Some [] then [] else variable_definitions_toks vds)
      (wrap (str ''('') (Some (join (printed print_variable_definition vds) (str '', ''))) (str '')''))"
    by (auto split: if_splits)
  note tail = layout_tail_tail [OF this on]
  have name: "layout (name_tok n # ts) (print_name n @ s)" if "layout_tail ts s" for ts s
    using that assms FragmentDefinitionNode
    by (auto simp: layout_tail_def wf_fragment_name_def intro: layout_name)
  from assms FragmentDefinitionNode layout_described [OF _ _ layout_word_space [OF w(1) name [OF tail]], of d]
  show ?thesis by (simp add: print_fragment_definition_def del: join_simps)
qed

section \<open>Parts of type system definitions\<close>

lemma layout_operation_type_definition:
  "wf_operation_type_definition d
    \<Longrightarrow> layout (operation_type_toks d) (print_operation_type_definition d)"
proof (cases d)
  case (OperationTypeDefinitionNode ot t l)
  assume "wf_operation_type_definition d"
  with OperationTypeDefinitionNode have "layout_tail [P COLON, named_type_tok t] (str '': '' @ print_named_type t)"
    by (auto simp: str_Cons intro!: layout_tail_punct layout_space layout_ends)
  from layout_tail_append [OF layout_operation_type this] show ?thesis
    by (simp add: OperationTypeDefinitionNode print_operation_type_definition_def)
qed

lemma layout_input_value:
  assumes "wf_input_value_definition d" and "printable (input_value_toks d)"
  shows "layout (input_value_toks d) (print_input_value_definition d)"
proof (cases d)
  case (InputValueDefinitionNode n t de dv ds l)
  with assms have "layout (name_tok n # P COLON # type_toks t) (print_name n @ str '': '' @ print_type t)"
    "layout (default_toks dv) (wrap (str ''= '') (map_option print_value dv) [])"
    "layout (directives_toks ds) (joined_directives ds)"
    by (auto intro!: layout_name layout_type layout_default layout_directives)
      (auto simp: str_Cons intro!: layout_name layout_start layout_type)
  note j = layout_joined(2) [OF this]
  from assms InputValueDefinitionNode layout_described [OF _ _ j, of de] show ?thesis
    by (simp add: print_input_value_definition_def del: join_simps)
qed

lemma layout_definition_arguments:
  assumes "wf_list wf_input_value_definition args" and "printable (argument_definitions_toks args)"
  shows "layout_tail (argument_definitions_toks args)
    (leave_definition_arguments (printed print_input_value_definition args))"
proof -
  from assms have "gives_text input_value_toks print_input_value_definition args"
    by (rule gives_textI) (simp_all add: layout_input_value)
  from layout_parens [OF this] show ?thesis by (simp add: leave_definition_arguments_def)
qed

lemma layout_field_definition:
  assumes "wf_field_definition d" and "printable (field_definition_toks d)"
  shows "layout (field_definition_toks d) (print_field_definition d)"
proof (cases d)
  case (FieldDefinitionNode n t de args ds l)
  with assms have wf: "wf_name n" "wf_type t" "wf_opt wf_string de" "printable (description_toks de)"
    and a: "layout_tail (argument_definitions_toks args)
      (leave_definition_arguments (printed print_input_value_definition args))"
    and d: "layout_tail (directives_toks ds) (wrap (str '' '') (Some (joined_directives ds)) [])"
    by (auto intro: layout_definition_arguments layout_directives)
  have "layout_tail (P COLON # type_toks t @ directives_toks ds)
      (str '': '' @ print_type t @ wrap (str '' '') (Some (joined_directives ds)) [])"
    using layout_tail_append [OF layout_type [OF wf(2)] d]
    by (auto simp: str_Cons intro!: layout_tail_punct layout_space)
  from layout_tail_tail [OF a this] wf(1) layout_described [OF wf(3,4) layout_name]
  show ?thesis
    by (simp add: FieldDefinitionNode print_field_definition_def Let_def layout_tail_def del: join_simps)
qed

lemma layout_enum_value:
  assumes "wf_enum_value_definition d" and "printable (enum_value_toks d)"
  shows "layout (enum_value_toks d) (print_enum_value_definition d)"
proof (cases d)
  case (EnumValueDefinitionNode n de ds l)
  with assms have "layout [name_tok n] (print_name n)" "layout (directives_toks ds) (joined_directives ds)"
    by (auto intro: layout_ends layout_directives)
  from assms EnumValueDefinitionNode layout_described [OF _ _ layout_joined(1) [OF this], of de]
  show ?thesis by (simp add: print_enum_value_definition_def del: join_simps)
qed

text \<open>Lists with a punctuator between the items.\<close>

lemma layout_separated:
  assumes "\<forall>x \<in> set xs. layout (f x) (g x) \<and> f x \<noteq> []" and "KIND_FOR_PUNCT c = Some k"
  shows "layout (sep_toks k f xs) (join (Some (map g xs)) [32, c, 32])"
  using assms
proof (induction k f xs rule: sep_toks.induct)
  case (3 k f x y ys)
  then have "g x \<noteq> []" "g y \<noteq> []" "layout (f x) (g x)" using layout_not_empty by auto
  moreover have "layout_tail (P k # sep_toks k f (y # ys)) (32 # c # 32 # join (Some (map g (y # ys))) [32, c, 32])"
    using 3 by (intro layout_tail_space layout_punct layout_space) auto
  ultimately show ?case using layout_tail_append by fastforce
qed (auto simp: layout.Nil join_def)

text \<open>Keywords.\<close>

lemma keyword_names:
  "is_name (str ''implements'')" "is_name (str ''schema'')" "is_name (str ''scalar'')"
  "is_name (str ''type'')" "is_name (str ''interface'')" "is_name (str ''union'')"
  "is_name (str ''enum'')" "is_name (str ''input'')" "is_name (str ''directive'')"
  "is_name (str ''extend'')" "is_name (str ''repeatable'')" "is_name (str ''on'')"
  by code_simp+

lemmas layout_keyword = keyword_names [THEN layout_ends(3)]

lemma layout_extend:
  "is_name (str w) \<Longrightarrow> layout [word ''extend'', word w] (str (''extend'' @ '' '' @ w))"
  using layout_word_space [OF keyword_names(10) layout_ends(3) [of w]]
  by (simp only: str_append append_assoc)

lemmas layout_extend_keyword = keyword_names [THEN layout_extend, simplified append_Cons append_Nil]

lemma named_types_join:
  assumes "wf_list wf_named_type ts"
  shows "(\<forall>us. ts = Some us \<longrightarrow> us \<noteq> [] \<and> (\<forall>t \<in> set us. layout [named_type_tok t] (print_named_type t)
    \<and> [named_type_tok t] \<noteq> []))"
  using assms by (auto simp: wf_some_def intro: layout_ends)

lemma sep_toks_not_empty: "xs \<noteq> [] \<Longrightarrow> \<forall>x \<in> set xs. f x \<noteq> [] \<Longrightarrow> sep_toks k f xs \<noteq> []"
  by (cases xs rule: sep_toks.cases [of "(k, f, xs)" for xs]) auto

lemma layout_interfaces:
  assumes "wf_list wf_named_type is"
  shows "layout (interfaces_toks is) (printed_interfaces is)"
proof (cases "is")
  case (Some ts)
  with named_types_join [OF assms]
  have ts: "ts \<noteq> []" "\<forall>t \<in> set ts. layout [named_type_tok t] (print_named_type t) \<and> [named_type_tok t] \<noteq> []"
    by auto
  from layout_separated [OF ts(2), of 38 AMP]
  have l: "layout (sep_toks AMP (\<lambda>t. [named_type_tok t]) ts) (join (Some (map print_named_type ts)) (str '' & ''))"
    by (simp add: str_Cons KIND_FOR_PUNCT_def)
  then have "join (Some (map print_named_type ts)) (str '' & '') \<noteq> []"
    by (rule layout_not_empty) (use ts in \<open>simp add: sep_toks_not_empty\<close>)
  with Some layout_word_space [OF keyword_names(1) l] show ?thesis by simp
qed (simp add: layout.Nil)

lemma layout_union_types:
  assumes "wf_list wf_named_type us"
  shows "layout (union_types_toks us) (printed_union_types us)"
proof (cases us)
  case (Some ts)
  with named_types_join [OF assms]
  have ts: "ts \<noteq> []" "\<forall>t \<in> set ts. layout [named_type_tok t] (print_named_type t) \<and> [named_type_tok t] \<noteq> []"
    by auto
  from layout_separated [OF ts(2), of 124 PIPE]
  have l: "layout (sep_toks PIPE (\<lambda>t. [named_type_tok t]) ts) (join (Some (map print_named_type ts)) (str '' | ''))"
    by (simp add: str_Cons KIND_FOR_PUNCT_def)
  then have "join (Some (map print_named_type ts)) (str '' | '') \<noteq> []"
    by (rule layout_not_empty) (use ts in \<open>simp add: sep_toks_not_empty\<close>)
  with Some l show ?thesis by (auto simp: str_def intro!: layout_start)
qed (simp add: layout.Nil)

lemma layout_optional_block:
  assumes "gives_text f g xo"
  shows "layout (block_toks f xo) (block (printed g xo))"
  using assms layout_braces by (cases xo) (auto simp: block_def indent_def layout.Nil)

lemma layout_fields:
  "wf_list wf_field_definition fs \<Longrightarrow> printable (block_toks field_definition_toks fs)
    \<Longrightarrow> layout (block_toks field_definition_toks fs) (block (printed print_field_definition fs))"
  "wf_list wf_input_value_definition is \<Longrightarrow> printable (block_toks input_value_toks is)
    \<Longrightarrow> layout (block_toks input_value_toks is) (block (printed print_input_value_definition is))"
  "wf_list wf_enum_value_definition vs \<Longrightarrow> printable (block_toks enum_value_toks vs)
    \<Longrightarrow> layout (block_toks enum_value_toks vs) (block (printed print_enum_value_definition vs))"
  "wf_list wf_operation_type_definition ops \<Longrightarrow> printable (block_toks operation_type_toks ops)
    \<Longrightarrow> layout (block_toks operation_type_toks ops) (block (printed print_operation_type_definition ops))"
  by (rule layout_optional_block, erule gives_textI, assumption,
      simp_all add: layout_field_definition layout_input_value layout_enum_value
        layout_operation_type_definition)+

section \<open>Definitions and documents\<close>

lemma layout_locations:
  assumes "wf_some (\<lambda>n. name_value n \<in> set (map str DirectiveLocation_members)) locs"
  shows "layout (sep_toks PIPE (\<lambda>n. [name_tok n]) locs) (join (Some (map print_name locs)) (str '' | ''))"
proof -
  have "list_all (\<lambda>l. is_name (str l)) DirectiveLocation_members" by code_simp
  with assms have "\<forall>n \<in> set locs. wf_name n"
    by (auto simp: wf_some_def wf_name_def list_all_iff)
  then have "\<forall>n \<in> set locs. layout [name_tok n] (print_name n) \<and> [name_tok n] \<noteq> []"
    by (auto intro: layout_ends)
  from layout_separated [OF this, of 124 PIPE] show ?thesis by (simp add: str_Cons KIND_FOR_PUNCT_def)
qed

lemma layout_directive_definition:
  assumes "wf_definition ef ed (DirectiveDefinitionNode n locs d args ds rep l)"
    and "printable (definition_toks (DirectiveDefinitionNode n locs d args ds rep l))"
  shows "layout (definition_toks (DirectiveDefinitionNode n locs d args ds rep l))
    (print_definition (DirectiveDefinitionNode n locs d args ds rep l))"
proof -
  from assms have wf: "wf_name n" "wf_opt wf_string d" "printable (description_toks d)"
    and locs: "layout (sep_toks PIPE (\<lambda>n. [name_tok n]) locs) (join (Some (map print_name locs)) (str '' | ''))"
    and a: "layout_tail (argument_definitions_toks args)
      (leave_definition_arguments (printed print_input_value_definition args))"
    and dirs: "layout_tail (directives_toks ds) (wrap (str '' '') (Some (joined_directives ds)) [])"
    by (auto intro: layout_definition_arguments layout_directives layout_locations)
  have on: "layout_tail (word ''on'' # sep_toks PIPE (\<lambda>n. [name_tok n]) locs)
      (str '' on '' @ join (Some (map print_name locs)) (str '' | ''))"
    using layout_tail_space [OF layout_word_space [OF keyword_names(12) locs], of 32] by (simp add: str_Cons)
  have rep: "layout_tail (if rep then [word ''repeatable''] else [])
      (if rep then str '' repeatable'' else [])"
    using layout_tail_space [OF layout_keyword(11), of 32] by (simp add: str_Cons layout_tail_Nil)
  have name: "layout (word ''directive'' # P AT # name_tok n # ts) (str ''directive @'' @ print_name n @ s)"
    if "layout_tail ts s" for ts s
    using layout_word_space [OF keyword_names(9) layout_puncts(7) [OF layout_name [OF wf(1)]]] that
    by (simp add: str_Cons layout_tail_def)
  from layout_described [OF wf(2,3) name
      [OF layout_tail_tail [OF a layout_tail_tail [OF dirs layout_tail_tail [OF rep on]]]]]
  show ?thesis by (simp del: join_simps)
qed

lemma layout_directive_extension:
  assumes "wf_name n" and "layout ts s"
  shows "layout (word ''extend'' # word ''directive'' # P AT # name_tok n # ts)
    (join (Some [str ''extend directive @'' @ print_name n, s]) (str '' ''))"
proof -
  have "layout [P AT, name_tok n] (64 # print_name n)"
    using assms(1) by (auto intro!: layout_puncts layout_ends)
  from layout_word_space [OF keyword_names(10) layout_word_space [OF keyword_names(9) this]]
  have "layout [word ''extend'', word ''directive'', P AT, name_tok n] (str ''extend directive @'' @ print_name n)"
    by (simp add: str_Cons)
  from layout_joined(1) [OF this assms(2)] show ?thesis by (simp del: join_simps)
qed

lemma layout_definition:
  assumes "wf_definition ef ed d" and "printable (definition_toks d)"
  shows "layout (definition_toks d) (print_definition d)"
proof (cases d)
  case (OperationDefinition od)
  with assms show ?thesis by (simp add: layout_operation)
next
  case (FragmentDefinition fd)
  with assms show ?thesis by (simp add: layout_fragment)
next
  case (SchemaDefinitionNode de ds ops l)
  then have "layout (directives_toks ds) (joined_directives ds)"
    "layout (block_toks operation_type_toks (Some ops))
      (block (printed print_operation_type_definition (Some ops)))"
    using assms layout_fields(4) [of "Some ops"] by (auto intro: layout_directives)
  from assms SchemaDefinitionNode layout_described [OF _ _ layout_joined(2) [OF layout_keyword(2) this]]
  show ?thesis by (simp del: join_simps)
next
  case (ObjectTypeDefinitionNode n de ds "is" fs l)
  then have "layout [name_tok n] (print_name n)" "layout (interfaces_toks is) (printed_interfaces is)"
    "layout (directives_toks ds) (joined_directives ds)"
    "layout (block_toks field_definition_toks fs) (block (printed print_field_definition fs))"
    using assms by (auto intro: layout_ends layout_interfaces layout_directives layout_fields)
  from assms ObjectTypeDefinitionNode layout_described [OF _ _ layout_joined(4) [OF layout_keyword(4) this]]
  show ?thesis by (simp del: join_simps)
next
  case (DirectiveDefinitionNode n locs de args ds rep l)
  with assms show ?thesis by (simp only: layout_directive_definition)
next
  case (SchemaExtensionNode ds ops l)
  then have "layout (directives_toks ds) (joined_directives ds)"
    "layout (block_toks operation_type_toks ops) (block (printed print_operation_type_definition ops))"
    using assms by (auto intro: layout_directives layout_fields)
  from layout_joined(2) [OF layout_extend_keyword(2) this] SchemaExtensionNode
  show ?thesis by (simp del: join_simps)
next
  case (DirectiveExtensionNode n ds l)
  with assms layout_directive_extension [of n "directives_toks ds" "joined_directives ds"]
  show ?thesis by (auto simp del: join_simps intro: layout_directives)
next
  case (ScalarTypeDefinitionNode n de ds l)
  then have "layout [name_tok n] (print_name n)"
    "layout (directives_toks ds) (joined_directives ds)"
    using assms
    by (auto intro: layout_ends layout_interfaces layout_directives layout_union_types layout_fields)
  from assms ScalarTypeDefinitionNode layout_described [OF _ _ layout_joined(2) [OF layout_keyword(3) this]]
  show ?thesis by (simp del: join_simps)
next
  case (InterfaceTypeDefinitionNode n de ds "is" fs l)
  then have "layout [name_tok n] (print_name n)"
    "layout (interfaces_toks is) (printed_interfaces is)"
    "layout (directives_toks ds) (joined_directives ds)"
    "layout (block_toks field_definition_toks fs) (block (printed print_field_definition fs))"
    using assms
    by (auto intro: layout_ends layout_interfaces layout_directives layout_union_types layout_fields)
  from assms InterfaceTypeDefinitionNode layout_described [OF _ _ layout_joined(4) [OF layout_keyword(5) this]]
  show ?thesis by (simp del: join_simps)
next
  case (UnionTypeDefinitionNode n de ds ts l)
  then have "layout [name_tok n] (print_name n)"
    "layout (directives_toks ds) (joined_directives ds)"
    "layout (union_types_toks ts) (printed_union_types ts)"
    using assms
    by (auto intro: layout_ends layout_interfaces layout_directives layout_union_types layout_fields)
  from assms UnionTypeDefinitionNode layout_described [OF _ _ layout_joined(3) [OF layout_keyword(6) this]]
  show ?thesis by (simp del: join_simps)
next
  case (EnumTypeDefinitionNode n de ds vs l)
  then have "layout [name_tok n] (print_name n)"
    "layout (directives_toks ds) (joined_directives ds)"
    "layout (block_toks enum_value_toks vs) (block (printed print_enum_value_definition vs))"
    using assms
    by (auto intro: layout_ends layout_interfaces layout_directives layout_union_types layout_fields)
  from assms EnumTypeDefinitionNode layout_described [OF _ _ layout_joined(3) [OF layout_keyword(7) this]]
  show ?thesis by (simp del: join_simps)
next
  case (InputObjectTypeDefinitionNode n de ds fs l)
  then have "layout [name_tok n] (print_name n)"
    "layout (directives_toks ds) (joined_directives ds)"
    "layout (block_toks input_value_toks fs) (block (printed print_input_value_definition fs))"
    using assms
    by (auto intro: layout_ends layout_interfaces layout_directives layout_union_types layout_fields)
  from assms InputObjectTypeDefinitionNode layout_described [OF _ _ layout_joined(3) [OF layout_keyword(8) this]]
  show ?thesis by (simp del: join_simps)
next
  case (ScalarTypeExtensionNode n ds l)
  then have "layout [name_tok n] (print_name n)"
    "layout (directives_toks ds) (joined_directives ds)"
    using assms
    by (auto intro: layout_ends layout_interfaces layout_directives layout_union_types layout_fields)
  from layout_joined(2) [OF layout_extend_keyword(3) this] ScalarTypeExtensionNode
  show ?thesis by (simp del: join_simps)
next
  case (ObjectTypeExtensionNode n ds "is" fs l)
  then have "layout [name_tok n] (print_name n)"
    "layout (interfaces_toks is) (printed_interfaces is)"
    "layout (directives_toks ds) (joined_directives ds)"
    "layout (block_toks field_definition_toks fs) (block (printed print_field_definition fs))"
    using assms
    by (auto intro: layout_ends layout_interfaces layout_directives layout_union_types layout_fields)
  from layout_joined(4) [OF layout_extend_keyword(4) this] ObjectTypeExtensionNode
  show ?thesis by (simp del: join_simps)
next
  case (InterfaceTypeExtensionNode n ds "is" fs l)
  then have "layout [name_tok n] (print_name n)"
    "layout (interfaces_toks is) (printed_interfaces is)"
    "layout (directives_toks ds) (joined_directives ds)"
    "layout (block_toks field_definition_toks fs) (block (printed print_field_definition fs))"
    using assms
    by (auto intro: layout_ends layout_interfaces layout_directives layout_union_types layout_fields)
  from layout_joined(4) [OF layout_extend_keyword(5) this] InterfaceTypeExtensionNode
  show ?thesis by (simp del: join_simps)
next
  case (UnionTypeExtensionNode n ds ts l)
  then have "layout [name_tok n] (print_name n)"
    "layout (directives_toks ds) (joined_directives ds)"
    "layout (union_types_toks ts) (printed_union_types ts)"
    using assms
    by (auto intro: layout_ends layout_interfaces layout_directives layout_union_types layout_fields)
  from layout_joined(3) [OF layout_extend_keyword(6) this] UnionTypeExtensionNode
  show ?thesis by (simp del: join_simps)
next
  case (EnumTypeExtensionNode n ds vs l)
  then have "layout [name_tok n] (print_name n)"
    "layout (directives_toks ds) (joined_directives ds)"
    "layout (block_toks enum_value_toks vs) (block (printed print_enum_value_definition vs))"
    using assms
    by (auto intro: layout_ends layout_interfaces layout_directives layout_union_types layout_fields)
  from layout_joined(3) [OF layout_extend_keyword(7) this] EnumTypeExtensionNode
  show ?thesis by (simp del: join_simps)
next
  case (InputObjectTypeExtensionNode n ds fs l)
  then have "layout [name_tok n] (print_name n)"
    "layout (directives_toks ds) (joined_directives ds)"
    "layout (block_toks input_value_toks fs) (block (printed print_input_value_definition fs))"
    using assms
    by (auto intro: layout_ends layout_interfaces layout_directives layout_union_types layout_fields)
  from layout_joined(3) [OF layout_extend_keyword(8) this] InputObjectTypeExtensionNode
  show ?thesis by (simp del: join_simps)
qed

lemma layout_document:
  assumes "\<forall>d \<in> set ds. wf_definition ef ed d" and "printable (all_toks definition_toks ds)"
  shows "layout (all_toks definition_toks ds) (print_document (DocumentNode ds l c))"
proof -
  have "\<forall>d \<in> set ds. layout (definition_toks d) (print_definition d)"
    using assms by (auto intro: layout_definition)
  from layout_join_map [OF this gap_literals(2)] show ?thesis
    by (simp add: print_document_def all_toks_def)
qed

end
