(* ===== verification/Round_Trip.thy ===== *)
theory Round_Trip
  imports Printer_Layout
begin

text \<open>
  Printing and parsing: the parser reads the printed text of a tree of the grammar as that tree
  (without locations).  Printed texts are laid-out token texts (\<open>Printer_Layout\<close>), the lexer reads
  those as the tokens (\<open>Text_Lexing\<close>), and the parser accepts the tokens of a tree
  (\<open>Parser_Complete\<close>, \<open>Document_Complete\<close>).
\<close>

section \<open>Documents\<close>

lemma reads_layout:
  "layout ts s \<Longrightarrow> length s < maxsize \<Longrightarrow> reads Lexer_read_next_token (source_of s) 0 ts"
  using layout_reads [of ts s 0 "source_of s"] by simp

text \<open>
  C1.  Printing a document and parsing the text gives the document back, without its locations: for
  every document of the grammar whose strings are Unicode scalar values and whose block strings are
  printable as block strings, at every depth of indentation and on both sides of the line length
  limit, provided that no definition without its optional block stands before an anonymous query
  in short form.  The text is shorter than \<open>sys.maxsize\<close>, as every text is.
\<close>

theorem print_parse_document:
  assumes "wf_document (opt_experimental_fragment_arguments opts)
      (opt_experimental_directives_on_directive_definitions opts) (DocumentNode ds l c)"
    and "printable (all_toks definition_toks ds)" and "unambiguous ds"
    and "opt_no_location opts" and "opt_max_tokens opts = None"
    and "length (print_document (DocumentNode ds l c)) < maxsize"
  shows "parse (source_of (print_document (DocumentNode ds l c))) opts
    = Inr (DocumentNode (map strip_definition ds) None (length (all_toks definition_toks ds)))"
proof -
  from assms(1) have wf: "\<forall>d \<in> set ds. wf_definition (opt_experimental_fragment_arguments opts)
      (opt_experimental_directives_on_directive_definitions opts) d" and ne: "ds \<noteq> []"
    by (auto simp: wf_document_def wf_some_def)
  from std.run_document [OF reads_layout [OF layout_document [OF wf assms(2)] assms(6)] assms(4,5) wf assms(3) ne]
  show ?thesis by (simp add: parse_def)
qed

text \<open>
  The document \<open>{ a(b: "c") } type Foo\<close>, with a description in a block string.
\<close>

definition example_document :: document_node where
  "example_document = DocumentNode
    [OperationDefinition (OperationDefinitionNode
       (SelectionSetNode [FieldNode (NameNode (str ''a'') None) None
          (Some [ArgumentNode (NameNode (str ''b'') None)
            (StringValue (StringValueNode (str ''c'') (Some False) None)) None]) None None None] None)
       None None None None QUERY None),
     ObjectTypeDefinitionNode (NameNode (str ''Foo'') None)
       (Some (StringValueNode (str ''two'' @ [10] @ str ''lines'') (Some True) None))
       None None
       (Some [FieldDefinitionNode (NameNode (str ''x'') None)
          (NonNullTypeNode (NamedType (NamedTypeNode (NameNode (str ''Int'') None) None)) None)
          (Some (StringValueNode (str ''  deep'') (Some True) None)) None None None]) None]
    None 0"

definition no_location_options :: parse_options where
  "no_location_options = default_options\<lparr>opt_no_location := True\<rparr>"

lemma no_location_options_sel:
  "opt_no_location no_location_options" "opt_max_tokens no_location_options = None"
  by (simp_all add: no_location_options_def default_options_def)

lemma print_parse_document_witness:
  "parse (source_of (print_document example_document)) no_location_options
    = Inr (DocumentNode (map strip_definition (document_definitions example_document)) None 18)"
proof -
  note hyps = print_parse_document [of no_location_options "document_definitions example_document" None 0]
  have "wf_document False False example_document"
    "printable (all_toks definition_toks (document_definitions example_document))"
    "unambiguous (document_definitions example_document)"
    "length (print_document example_document) < maxsize"
    "length (all_toks definition_toks (document_definitions example_document)) = 18"
    by code_simp+
  with hyps show ?thesis
    by (simp add: example_document_def no_location_options_def default_options_def)
qed

section \<open>Values and types\<close>

text \<open>
  C10.  Printing a value and parsing the text as a value gives the value back, without its locations:
  numbers and enum values keep their text, strings of Unicode scalar values their characters (every
  control character and quotation mark is escaped and unescaped), lists and objects their items in
  order.  A value without variables is also given back by \<open>parse_const_value\<close>.
\<close>

theorem print_parse_value:
  assumes "wf_value False v" and "printable (value_toks v)" and "length (print_value v) < maxsize"
    and "opt_no_location opts" and "opt_max_tokens opts = None"
  shows "parse_value (source_of (print_value v)) opts = Inr (strip_value v)
    \<and> (wf_value True v \<longrightarrow> parse_const_value (source_of (print_value v)) opts = Inr (strip_value v))"
proof -
  note reads = reads_layout [OF layout_value(1) [OF assms(1,2)] assms(3)]
  note run = std.run_whole_input [OF reads assms(4,5)]
  have "parse_value (source_of (print_value v)) opts = Inr (strip_value v)"
    unfolding parse_value_def
    by (rule run, rule std.parses_by_bnd, rule std.parses_value [where ts = "[]", unfolded append_Nil2])
      (simp_all add: assms(1) parses_ret)
  moreover have "parse_const_value (source_of (print_value v)) opts = Inr (strip_value v)"
    if "wf_value True v"
    unfolding parse_const_value_def
    by (rule run, rule std.parses_by_bnd, rule std.parses_const_value [where ts = "[]", unfolded append_Nil2])
      (simp_all add: that parses_ret)
  ultimately show ?thesis by blast
qed

definition example_value :: value_node where
  "example_value = ListValueNode [IntValueNode (str ''-12'') None, FloatValueNode (str ''1.5e+3'') None,
     StringValue (StringValueNode ([10, 34, 92, 7, 128] @ str ''x'') (Some False) None), NullValueNode None,
     ObjectValueNode [ObjectFieldNode (NameNode (str ''a'') None) (BooleanValueNode True None) None] None] None"

lemma print_parse_value_witness:
  "parse_value (source_of (print_value example_value)) no_location_options = Inr (strip_value example_value)
   \<and> parse_const_value (source_of (print_value example_value)) no_location_options
      = Inr (strip_value example_value)"
proof -
  have "wf_value False example_value" "wf_value True example_value" by code_simp+
  moreover have "printable (value_toks example_value)" "length (print_value example_value) < maxsize"
    by code_simp+
  ultimately show ?thesis
    using print_parse_value [OF _ _ _ no_location_options_sel, of example_value] by simp
qed

text \<open>
  C12.  Printing a type reference and parsing the text gives the type reference back, without locations.
\<close>

theorem print_parse_type:
  assumes "wf_type t" and "length (print_type t) < maxsize" and "opt_no_location opts"
    and "opt_max_tokens opts = None"
  shows "parse_type (source_of (print_type t)) opts = Inr (strip_type t)"
  unfolding parse_type_def
  by (rule std.run_whole_input [OF reads_layout [OF layout_type [OF assms(1)] assms(2)] assms(3,4)],
      rule std.parses_by_bnd, rule std.parses_type [where ts = "[]", unfolded append_Nil2])
    (simp_all add: assms(1) parses_ret)

text \<open>The type \<open>[Int!]!\<close>.\<close>

lemma print_parse_type_witness:
  "parse_type (source_of (str ''[Int!]!'')) no_location_options = Inr (NonNullTypeNode (ListTypeNode
     (NonNullTypeNode (NamedType (NamedTypeNode (NameNode (str ''Int'') None) None)) None) None) None)"
proof -
  let ?t = "NonNullTypeNode (ListTypeNode
     (NonNullTypeNode (NamedType (NamedTypeNode (NameNode (str ''Int'') None) None)) None) None) None"
  have wf: "wf_type ?t" "length (print_type ?t) < maxsize" by code_simp+
  have "print_type ?t = str ''[Int!]!''" "strip_type ?t = ?t" by code_simp+
  then show ?thesis using print_parse_type [OF wf no_location_options_sel] by (simp only:)
qed

section \<open>Schema coordinates\<close>

text \<open>The lexer of schema coordinates reads the tokens of a coordinate written without blanks.\<close>

lemma coordinate_reads_punct:
  assumes "SC_KIND_FOR_PUNCT c = Some k" and "drop i (src_body src) = c # s"
    and "reads SchemaCoordinateLexer_read_next_token src (Suc i) ts"
  shows "reads SchemaCoordinateLexer_read_next_token src i (P k # ts)"
proof -
  have "k \<notin> {EOF, COMMENT}" using assms(1) by (auto simp: SC_KIND_FOR_PUNCT_def split: if_splits)
  with assms show ?thesis
    by (auto simp: SchemaCoordinateLexer_read_next_token_def Let_def drop_Cons_iff)
qed

lemma coordinate_reads_name:
  assumes "wf_name n" and "drop i (src_body src) = print_name n @ s"
    and "s = [] \<or> \<not> is_name_continue (hd s)"
    and "reads SchemaCoordinateLexer_read_next_token src (i + length (print_name n)) ts"
  shows "reads SchemaCoordinateLexer_read_next_token src i (name_tok n # ts)"
proof -
  have n: "is_name (print_name n)" using assms(1) by (simp add: wf_name_def print_name_def)
  with assms(2) have i: "i < length (src_body src)" "is_name_start (src_body src ! i)"
    by (cases "print_name n"; auto simp: is_name_def drop_Cons_iff)+
  then have "SC_KIND_FOR_PUNCT (src_body src ! i) = None"
    by (auto simp: SC_KIND_FOR_PUNCT_def is_name_start_def is_letter_def)
  with i read_name_complete [OF assms(2) n assms(3)] assms(4) show ?thesis
    by (auto simp: SchemaCoordinateLexer_read_next_token_def Let_def name_tok_def print_name_def)
qed

lemma coordinate_reads_end:
  "drop i (src_body src) = [] \<Longrightarrow> reads SchemaCoordinateLexer_read_next_token src i []"
  by (simp add: SchemaCoordinateLexer_read_next_token_def Let_def)

text \<open>
  C13.  Printing a schema coordinate and parsing the text gives the coordinate back, without locations,
  for each of the five forms.
\<close>

theorem print_parse_schema_coordinate:
  assumes "wf_coordinate d" and "opt_no_location opts" and "opt_max_tokens opts = None"
  shows "parse_schema_coordinate (source_of (print_schema_coordinate d)) opts = Inr (strip_coordinate d)"
proof -
  have written: "print_schema_coordinate d =
    (case d of TypeCoordinateNode n l \<Rightarrow> print_name n
     | MemberCoordinateNode n m l \<Rightarrow> print_name n @ 46 # print_name m
     | ArgumentCoordinateNode n f a l \<Rightarrow> print_name n @ 46 # print_name f @ 40 # print_name a @ [58, 41]
     | DirectiveCoordinateNode n l \<Rightarrow> 64 # print_name n
     | DirectiveArgumentCoordinateNode n a l \<Rightarrow> 64 # print_name n @ 40 # print_name a @ [58, 41])"
    using assms(1) print_name_not_empty by (cases d) (auto simp: str_def)
  have k: "SC_KIND_FOR_PUNCT 46 = Some DOT" "SC_KIND_FOR_PUNCT 40 = Some PAREN_L"
    "SC_KIND_FOR_PUNCT 41 = Some PAREN_R" "SC_KIND_FOR_PUNCT 58 = Some COLON"
    "SC_KIND_FOR_PUNCT 64 = Some AT"
    by (simp_all add: SC_KIND_FOR_PUNCT_def)
  have dot: "\<not> is_name_continue 46" by (simp add: is_name_continue_def is_letter_def is_digit_def)
  have "reads SchemaCoordinateLexer_read_next_token (source_of (print_schema_coordinate d)) 0 (coordinate_toks d)"
    unfolding written using assms(1) dot
    by (cases d)
      (auto simp: numeral_3_eq_3 simp del: reads.simps intro!: coordinate_reads_punct coordinate_reads_name coordinate_reads_end k)
  from coordinate.run_whole_input [OF this assms(2,3) coordinate.parses_coordinate [OF assms(1)]]
  show ?thesis by (simp add: parse_schema_coordinate_def)
qed

text \<open>The coordinate \<open>Foo.bar(baz:)\<close>.\<close>

lemma print_parse_schema_coordinate_witness:
  "parse_schema_coordinate (source_of (str ''Foo.bar(baz:)'')) no_location_options
    = Inr (ArgumentCoordinateNode (NameNode (str ''Foo'') None) (NameNode (str ''bar'') None)
        (NameNode (str ''baz'') None) None)"
proof -
  let ?d = "ArgumentCoordinateNode (NameNode (str ''Foo'') None) (NameNode (str ''bar'') None)
        (NameNode (str ''baz'') None) None"
  have wf: "wf_coordinate ?d" by code_simp
  have "print_schema_coordinate ?d = str ''Foo.bar(baz:)''" "strip_coordinate ?d = ?d" by code_simp+
  then show ?thesis using print_parse_schema_coordinate [OF wf no_location_options_sel] by (simp only:)
qed

section \<open>Block strings\<close>

text \<open>
  C11.  What \<open>is_printable_as_block_string\<close> accepts is written by \<open>print_block_string\<close> so that reading the
  text as a block string (which removes the common indentation and the blank lines around) gives the
  value back, provided that its only line breaks in Python's sense are line feeds.
\<close>

theorem print_read_block_string:
  assumes "is_printable_as_block_string v" and "is_scalar_text v"
    and "\<forall>c \<in> set v. is_py_linebreak c \<longrightarrow> c = 10" and "length (print_block_string v False) < maxsize"
  shows "\<exists>lp'. read_block_string (print_block_string v False) lp 0
    = Inr (create_token lp BLOCK_STRING 0 (length (print_block_string v False)) (Some v), lp')"
  using read_block_string_complete [of v 0 "print_block_string v False" 0 "[]" lp] assms
  by (simp add: block_value_ok_def block_text_def)

text \<open>The value \<open>a\<close>, an indented line with a quotation mark, and a backslash at the end.\<close>

lemma print_read_block_string_witness:
  "\<exists>lp'. read_block_string (print_block_string (str ''a'' @ [10] @ str ''  b'' @ [34, 92]) False) (1, 0) 0
    = Inr (create_token (1, 0) BLOCK_STRING 0
        (length (print_block_string (str ''a'' @ [10] @ str ''  b'' @ [34, 92]) False))
        (Some (str ''a'' @ [10] @ str ''  b'' @ [34, 92])), lp')"
proof (rule print_read_block_string)
  show "is_printable_as_block_string (str ''a'' @ [10] @ str ''  b'' @ [34, 92])"
    "is_scalar_text (str ''a'' @ [10] @ str ''  b'' @ [34, 92])"
    "length (print_block_string (str ''a'' @ [10] @ str ''  b'' @ [34, 92]) False) < maxsize"
    "\<forall>c \<in> set (str ''a'' @ [10] @ str ''  b'' @ [34, 92]). is_py_linebreak c \<longrightarrow> c = 10"
    by code_simp+
qed

end
