(* ===== verification/Visitor.thy ===== *)
theory Visitor
  imports Source_Location
begin

text \<open>
  The traversal of syntax trees (\<open>language/visitor.py\<close>).  The visitor knows nodes only by their kind and
  their attributes, so a tree is generic here: a node has an identity (two nodes are the same object
  exactly when their identities are equal), a kind and its attributes; an attribute is \<open>None\<close>, a node, a
  tuple, or an atom (a string, a Boolean or an enumeration value).  The methods of a visitor get its
  state and give a new one; a method may raise an exception.
\<close>

section \<open>Values\<close>

datatype ast_value =
    VNone
  | VAtom pystr
  | VTuple "ast_value list"
  | VNode (node_id: nat) (node_kind: string) (node_attrs: "(string \<times> ast_value) list")
  | VRemove

datatype key = KIdx nat | KAttr string

text \<open>
  What a method returns: \<open>IDLE\<close> is \<open>None\<close>, \<open>BREAK\<close> may be written \<open>True\<close> and \<open>SKIP\<close> \<open>False\<close>; every other
  value is an edit, where \<open>VRemove\<close> is \<open>REMOVE\<close> (or \<open>Ellipsis\<close>).
\<close>

datatype action = Idle | Break | Skip | Edit ast_value | Raise py_error

type_synonym 's handler =
  "'s \<Rightarrow> ast_value \<Rightarrow> key option \<Rightarrow> ast_value option \<Rightarrow> key list \<Rightarrow> ast_value list \<Rightarrow> action \<times> 's"

text \<open>\<open>EnterLeaveVisitor(enter, leave)\<close>, and the method that finds it for a kind of nodes.\<close>

record 's enter_leave =
  enter_fn :: "'s handler option"
  leave_fn :: "'s handler option"

type_synonym 's visitor = "string \<Rightarrow> 's enter_leave"

text \<open>The attributes of a \<open>Visitor\<close> object, by name; \<open>enter_leave_map\<close> only caches the answers.\<close>

definition get_enter_leave_for_kind :: "(string \<Rightarrow> 's handler option) \<Rightarrow> 's visitor" where
  "get_enter_leave_for_kind methods kind =
     \<lparr>enter_fn = (case methods (''enter_'' @ kind) of Some f \<Rightarrow> Some f | None \<Rightarrow> methods ''enter''),
      leave_fn = (case methods (''leave_'' @ kind) of Some f \<Rightarrow> Some f | None \<Rightarrow> methods ''leave'')\<rparr>"

text \<open>\<open>getattr(node, key, None)\<close>\<close>

definition getattr_or_none :: "(string \<times> ast_value) list \<Rightarrow> string \<Rightarrow> ast_value" where
  "getattr_or_none attrs k = (case map_of attrs k of Some v \<Rightarrow> v | None \<Rightarrow> VNone)"

section \<open>Edits\<close>

type_synonym edits = "(key option \<times> ast_value) list"

text \<open>\<open>xs[i] = v\<close> and \<open>xs.pop(i)\<close> with Python's rules for the index.\<close>

definition py_set :: "'a list \<Rightarrow> int \<Rightarrow> 'a \<Rightarrow> py_error + 'a list" where
  "py_set xs i v =
     (let j = (if i < 0 then int (length xs) + i else i)
      in if 0 \<le> j \<and> j < int (length xs) then Inr (xs[nat j := v]) else Inl IndexError)"

definition py_pop :: "'a list \<Rightarrow> int \<Rightarrow> py_error + 'a list" where
  "py_pop xs i =
     (let j = (if i < 0 then int (length xs) + i else i)
      in if 0 \<le> j \<and> j < int (length xs) then Inr (take (nat j) xs @ drop (Suc (nat j)) xs)
         else Inl IndexError)"

text \<open>The loop over the edits of a tuple; every edit but a removal keeps the offset.\<close>

fun edit_items :: "ast_value list \<Rightarrow> int \<Rightarrow> edits \<Rightarrow> py_error + ast_value list" where
  "edit_items items edit_offset [] = Inr items"
| "edit_items items edit_offset ((edit_key, edit_value) # edits) =
     (case edit_key of
        Some (KIdx k) \<Rightarrow>
          (let array_key = int k - edit_offset in
           if edit_value = VRemove
           then bind_result (py_pop items array_key) (\<lambda>items. edit_items items (edit_offset + 1) edits)
           else bind_result (py_set items array_key edit_value) (\<lambda>items. edit_items items edit_offset edits))
      | _ \<Rightarrow> Inl (TypeError (str ''unsupported operand'')))"

text \<open>\<open>node.__class__({k: getattr(node, k) for k in node.keys} | dict(edits))\<close>: a new node.\<close>

definition edit_attrs :: "(string \<times> ast_value) list \<Rightarrow> edits \<Rightarrow> py_error + (string \<times> ast_value) list" where
  "edit_attrs attrs edits =
     (if \<forall>(k, v) \<in> set edits. \<exists>a \<in> set (map fst attrs). k = Some (KAttr a)
      then Inr (map (\<lambda>(a, v). (a, case map_of (rev edits) (Some (KAttr a)) of Some w \<Rightarrow> w | None \<Rightarrow> v)) attrs)
      else Inl (TypeError (str ''unexpected keyword argument'')))"

fun tuple_items :: "ast_value \<Rightarrow> ast_value list" where
  "tuple_items (VTuple vs) = vs"
| "tuple_items _ = []"

fun node_attrs_of :: "ast_value \<Rightarrow> (string \<times> ast_value) list" where
  "node_attrs_of (VNode i k as) = as"
| "node_attrs_of _ = []"

text \<open>The node with the edits of its children; a new node gets the next identity.\<close>

definition apply_edits :: "bool \<Rightarrow> ast_value \<Rightarrow> edits \<Rightarrow> nat \<Rightarrow> py_error + (ast_value \<times> nat)" where
  "apply_edits in_array node edits next_id =
     (if in_array
      then bind_result (edit_items (tuple_items node) 0 edits) (\<lambda>items. Inr (VTuple items, next_id))
      else case node of
        VNode i kind attrs \<Rightarrow>
          bind_result (edit_attrs attrs edits) (\<lambda>attrs. Inr (VNode next_id kind attrs, Suc next_id))
      | _ \<Rightarrow> Inl AttributeError)"

section \<open>The loop of \<open>visit\<close>\<close>

text \<open>The keys of a level: the items of a tuple (only their number matters) or attribute names.\<close>

datatype keys = Items "ast_value list" | Names "string list"

fun keys_len :: "keys \<Rightarrow> nat" where
  "keys_len (Items vs) = length vs"
| "keys_len (Names ns) = length ns"

record frame =
  fr_in_array :: bool
  fr_idx :: int
  fr_keys :: keys
  fr_edits :: edits

text \<open>The variables of the loop; \<open>next_id\<close> is the identity of the next new object.\<close>

record 's config =
  c_state :: 's
  c_next_id :: nat
  c_stack :: "frame list"
  c_in_array :: bool
  c_idx :: int
  c_keys :: keys
  c_edits :: edits
  c_node :: ast_value
  c_key :: "key option"
  c_parent :: "ast_value option"
  c_path :: "key list"
  c_ancestors :: "ast_value list"

datatype 's step = Next "'s config" | Stop 's "py_error + ast_value"

text \<open>The result behind the loop: \<open>edits[-1][1]\<close> of the edits at hand, or the root.\<close>

definition final_value :: "ast_value \<Rightarrow> edits \<Rightarrow> ast_value" where
  "final_value root edits = (if edits \<noteq> [] then snd (last edits) else root)"

type_synonym visitor_keys = "string \<Rightarrow> string list"

text \<open>\<open>visitor_keys.get(node.kind, ())\<close> on the default map from kinds to attributes (\<open>ast.py\<close>).\<close>

definition QUERY_DOCUMENT_KEYS :: visitor_keys where
  "QUERY_DOCUMENT_KEYS kind = (case map_of
     [(''name'', []),
      (''document'', [''definitions'']),
      (''operation_definition'', [''description'', ''name'', ''variable_definitions'', ''directives'', ''selection_set'']),
      (''variable_definition'', [''description'', ''variable'', ''type'', ''default_value'', ''directives'']),
      (''variable'', [''name'']),
      (''selection_set'', [''selections'']),
      (''field'', [''alias'', ''name'', ''arguments'', ''directives'', ''selection_set'']),
      (''argument'', [''name'', ''value'']),
      (''fragment_argument'', [''name'', ''value'']),
      (''fragment_spread'', [''name'', ''arguments'', ''directives'']),
      (''inline_fragment'', [''type_condition'', ''directives'', ''selection_set'']),
      (''fragment_definition'', [''description'', ''name'', ''variable_definitions'', ''type_condition'', ''directives'', ''selection_set'']),
      (''list_value'', [''values'']),
      (''object_value'', [''fields'']),
      (''object_field'', [''name'', ''value'']),
      (''directive'', [''name'', ''arguments'']),
      (''named_type'', [''name'']),
      (''list_type'', [''type'']),
      (''non_null_type'', [''type'']),
      (''schema_definition'', [''description'', ''directives'', ''operation_types'']),
      (''operation_type_definition'', [''type'']),
      (''scalar_type_definition'', [''description'', ''name'', ''directives'']),
      (''object_type_definition'', [''description'', ''name'', ''interfaces'', ''directives'', ''fields'']),
      (''field_definition'', [''description'', ''name'', ''arguments'', ''type'', ''directives'']),
      (''input_value_definition'', [''description'', ''name'', ''type'', ''default_value'', ''directives'']),
      (''interface_type_definition'', [''description'', ''name'', ''interfaces'', ''directives'', ''fields'']),
      (''union_type_definition'', [''description'', ''name'', ''directives'', ''types'']),
      (''enum_type_definition'', [''description'', ''name'', ''directives'', ''values'']),
      (''enum_value_definition'', [''description'', ''name'', ''directives'']),
      (''input_object_type_definition'', [''description'', ''name'', ''directives'', ''fields'']),
      (''directive_definition'', [''description'', ''name'', ''arguments'', ''directives'', ''locations'']),
      (''schema_extension'', [''directives'', ''operation_types'']),
      (''directive_extension'', [''name'', ''directives'']),
      (''scalar_type_extension'', [''name'', ''directives'']),
      (''object_type_extension'', [''name'', ''interfaces'', ''directives'', ''fields'']),
      (''interface_type_extension'', [''name'', ''interfaces'', ''directives'', ''fields'']),
      (''union_type_extension'', [''name'', ''directives'', ''types'']),
      (''enum_type_extension'', [''name'', ''directives'', ''values'']),
      (''input_object_type_extension'', [''name'', ''directives'', ''fields'']),
      (''type_coordinate'', [''name'']),
      (''member_coordinate'', [''name'', ''member_name'']),
      (''argument_coordinate'', [''name'', ''field_name'', ''argument_name'']),
      (''directive_coordinate'', [''name'']),
      (''directive_argument_coordinate'', [''name'', ''argument_name''])] kind of Some ks \<Rightarrow> ks | None \<Rightarrow> [])"

fun is_tuple :: "ast_value \<Rightarrow> bool" where
  "is_tuple (VTuple vs) = True"
| "is_tuple _ = False"

fun is_node :: "ast_value \<Rightarrow> bool" where
  "is_node (VNode i k as) = True"
| "is_node _ = False"

fun keys_of :: "visitor_keys \<Rightarrow> ast_value \<Rightarrow> keys" where
  "keys_of vkeys (VTuple vs) = Items vs"
| "keys_of vkeys (VNode i k as) = Names (vkeys k)"
| "keys_of vkeys _ = Names []"

fun key_names :: "keys \<Rightarrow> string list" where
  "key_names (Names ns) = ns"
| "key_names _ = []"

text \<open>\<open>if parent\<close>: a missing parent and an empty tuple are false.\<close>

definition truthy_parent :: "ast_value option \<Rightarrow> bool" where
  "truthy_parent parent \<longleftrightarrow> parent \<noteq> None \<and> parent \<noteq> Some (VTuple [])"

text \<open>The end of an iteration that enters: push a level for the node.\<close>

definition descend :: "visitor_keys \<Rightarrow> 's config \<Rightarrow> 's step" where
  "descend vkeys c =
     Next (c\<lparr>
       c_stack := \<lparr>fr_in_array = c_in_array c, fr_idx = c_idx c, fr_keys = c_keys c, fr_edits = c_edits c\<rparr>
         # c_stack c,
       c_in_array := is_tuple (c_node c),
       c_keys := keys_of vkeys (c_node c),
       c_idx := -1,
       c_edits := [],
       c_ancestors := (if truthy_parent (c_parent c) then c_ancestors c @ [the (c_parent c)] else c_ancestors c),
       c_parent := Some (c_node c)\<rparr>)"

text \<open>\<open>path_pop()\<close> and \<open>continue\<close>\<close>

definition pop_and_continue :: "'s config \<Rightarrow> 's step" where
  "pop_and_continue c =
     (if c_path c = [] then Stop (c_state c) (Inl IndexError) else Next (c\<lparr>c_path := butlast (c_path c)\<rparr>))"

definition invalid_node :: "py_error" where
  "invalid_node = TypeError (str ''Invalid AST Node'')"

text \<open>The part of an iteration behind the choice of the node, entering.\<close>

definition enter_step :: "'s visitor \<Rightarrow> visitor_keys \<Rightarrow> ast_value \<Rightarrow> 's config \<Rightarrow> 's step" where
  "enter_step visitor vkeys root c =
     (case c_node c of
        VTuple vs \<Rightarrow> descend vkeys c
      | VNode i kind attrs \<Rightarrow>
          (case enter_fn (visitor kind) of
             None \<Rightarrow> descend vkeys c
           | Some f \<Rightarrow>
               (case f (c_state c) (c_node c) (c_key c) (c_parent c) (c_path c) (c_ancestors c) of (result, s) \<Rightarrow>
                let c = c\<lparr>c_state := s\<rparr> in
                case result of
                  Raise e \<Rightarrow> Stop s (Inl e)
                | Break \<Rightarrow> Stop s (Inr (final_value root (c_edits c)))
                | Skip \<Rightarrow> pop_and_continue c
                | Idle \<Rightarrow> descend vkeys c
                | Edit w \<Rightarrow>
                    let c = c\<lparr>c_edits := c_edits c @ [(c_key c, w)]\<rparr> in
                    if is_node w then descend vkeys (c\<lparr>c_node := w\<rparr>) else pop_and_continue c))
      | _ \<Rightarrow> Stop (c_state c) (Inl invalid_node))"

text \<open>The same, leaving: \<open>is_edited\<close> says that the node has been rebuilt.\<close>

definition after_leave :: "'s config \<Rightarrow> ast_value \<Rightarrow> 's step" where
  "after_leave c root =
     (let c = c\<lparr>c_path := butlast (c_path c)\<rparr> in
      if c_stack c = [] then Stop (c_state c) (Inr (final_value root (c_edits c))) else Next c)"

definition leave_step :: "'s visitor \<Rightarrow> ast_value \<Rightarrow> bool \<Rightarrow> 's config \<Rightarrow> 's step" where
  "leave_step visitor root is_edited c =
     (let idle = (\<lambda>c. after_leave
            (if is_edited then c\<lparr>c_edits := c_edits c @ [(c_key c, c_node c)]\<rparr> else c) root) in
      case c_node c of
        VTuple vs \<Rightarrow> idle c
      | VNode i kind attrs \<Rightarrow>
          (case leave_fn (visitor kind) of
             None \<Rightarrow> idle c
           | Some f \<Rightarrow>
               (case f (c_state c) (c_node c) (c_key c) (c_parent c) (c_path c) (c_ancestors c) of (result, s) \<Rightarrow>
                let c = c\<lparr>c_state := s\<rparr> in
                case result of
                  Raise e \<Rightarrow> Stop s (Inl e)
                | Break \<Rightarrow> Stop s (Inr (final_value root (c_edits c)))
                | Skip \<Rightarrow> after_leave c root
                | Idle \<Rightarrow> idle c
                | Edit w \<Rightarrow> after_leave (c\<lparr>c_edits := c_edits c @ [(c_key c, w)]\<rparr>) root))
      | _ \<Rightarrow> Stop (c_state c) (Inl invalid_node))"

text \<open>One iteration of the loop.\<close>

definition visit_step :: "'s visitor \<Rightarrow> visitor_keys \<Rightarrow> ast_value \<Rightarrow> 's config \<Rightarrow> 's step" where
  "visit_step visitor vkeys root c0 =
     (let c = c0\<lparr>c_idx := c_idx c0 + 1\<rparr> in
      if c_idx c = int (keys_len (c_keys c)) then
        (case (c_stack c, c_parent c) of
           (fr # stack, Some node) \<Rightarrow>
             if c_ancestors c \<noteq> [] \<and> c_path c = [] then Stop (c_state c) (Inl IndexError)
             else
               let key = (if c_ancestors c \<noteq> [] then Some (last (c_path c)) else None);
                   parent = (if c_ancestors c \<noteq> [] then Some (last (c_ancestors c)) else None);
                   is_edited = (c_edits c \<noteq> []) in
               (case (if is_edited then apply_edits (c_in_array c) node (c_edits c) (c_next_id c)
                      else Inr (node, c_next_id c)) of
                  Inl e \<Rightarrow> Stop (c_state c) (Inl e)
                | Inr (node, next_id) \<Rightarrow>
                    leave_step visitor root is_edited
                      (c\<lparr>c_key := key, c_node := node, c_parent := parent,
                         c_ancestors := butlast (c_ancestors c), c_next_id := next_id,
                         c_idx := fr_idx fr, c_keys := fr_keys fr, c_edits := fr_edits fr,
                         c_in_array := fr_in_array fr, c_stack := stack\<rparr>))
         | _ \<Rightarrow> Stop (c_state c) (Inl AttributeError))
      else if truthy_parent (c_parent c) then
        let (key, node) =
          (if c_in_array c
           then (KIdx (nat (c_idx c)), tuple_items (the (c_parent c)) ! nat (c_idx c))
           else let name = key_names (c_keys c) ! nat (c_idx c)
                in (KAttr name, getattr_or_none (node_attrs_of (the (c_parent c))) name)) in
        if node = VNone then Next (c\<lparr>c_key := Some key, c_node := node\<rparr>)
        else enter_step visitor vkeys root
               (c\<lparr>c_key := Some key, c_node := node, c_path := c_path c @ [key]\<rparr>)
      else enter_step visitor vkeys root c)"

partial_function (option) visit_loop ::
  "'s visitor \<Rightarrow> visitor_keys \<Rightarrow> ast_value \<Rightarrow> 's config \<Rightarrow> ('s \<times> (py_error + ast_value)) option" where
  "visit_loop visitor vkeys root c =
     (case visit_step visitor vkeys root c of
        Next c' \<Rightarrow> visit_loop visitor vkeys root c'
      | Stop s r \<Rightarrow> Some (s, r))"

declare visit_loop.simps [code]

definition visit_init :: "ast_value \<Rightarrow> 's \<Rightarrow> nat \<Rightarrow> 's config" where
  "visit_init root s next_id =
     \<lparr>c_state = s, c_next_id = next_id, c_stack = [], c_in_array = False, c_idx = -1, c_keys = Items [root],
      c_edits = [], c_node = root, c_key = None, c_parent = None, c_path = [], c_ancestors = []\<rparr>"

definition visit ::
  "ast_value \<Rightarrow> 's visitor \<Rightarrow> visitor_keys \<Rightarrow> 's \<Rightarrow> nat \<Rightarrow> ('s \<times> (py_error + ast_value)) option" where
  "visit root visitor vkeys s next_id =
     (if \<not> is_node root then Some (s, Inl (TypeError (str ''Not an AST Node'')))
      else visit_loop visitor vkeys root (visit_init root s next_id))"

end
