(* ===== verification/Visitor_Walk.thy ===== *)
theory Visitor_Walk
  imports Visitor
begin

text \<open>
  What the loop of \<open>visit\<close> computes, as a recursion over the tree.  \<open>walk\<close> visits a value in its place
  and answers with the edits of the level it stands in; the level below is walked with the edits
  collected from the left to the right.  A node that a method puts in place of another is walked in
  turn, so the recursion is bounded by fuel.
\<close>

section \<open>The recursive traversal\<close>

datatype 's walked = Going edits 's nat | Halted 's "py_error + ast_value"

text \<open>The children of a value in the order of the visit, with their keys.\<close>

fun children :: "visitor_keys \<Rightarrow> ast_value \<Rightarrow> (key \<times> ast_value) list" where
  "children vkeys (VTuple vs) = zip (map KIdx [0..<length vs]) vs"
| "children vkeys (VNode i k as) = map (\<lambda>a. (KAttr a, getattr_or_none as a)) (vkeys k)"
| "children vkeys _ = []"

fun walk_list ::
  "(key \<Rightarrow> ast_value \<Rightarrow> edits \<Rightarrow> 's \<Rightarrow> nat \<Rightarrow> 's walked option) \<Rightarrow> (key \<times> ast_value) list
    \<Rightarrow> edits \<Rightarrow> 's \<Rightarrow> nat \<Rightarrow> 's walked option" where
  "walk_list f [] edits s n = Some (Going edits s n)"
| "walk_list f ((k, v) # kids) edits s n =
     (if v = VNone then walk_list f kids edits s n
      else case f k v edits s n of
        Some (Going edits s n) \<Rightarrow> walk_list f kids edits s n
      | r \<Rightarrow> r)"

text \<open>Leaving a node, with the edits of its level; \<open>rebuilt\<close> says that the node is a new one.\<close>

definition leave_node ::
  "'s visitor \<Rightarrow> ast_value \<Rightarrow> bool \<Rightarrow> key option \<Rightarrow> ast_value option \<Rightarrow> key list \<Rightarrow> ast_value list
    \<Rightarrow> ast_value \<Rightarrow> edits \<Rightarrow> 's \<Rightarrow> nat \<Rightarrow> 's walked" where
  "leave_node visitor root rebuilt key parent path ancestors node edits s n =
     (let idle = (if rebuilt then edits @ [(key, node)] else edits) in
      case node of
        VTuple vs \<Rightarrow> Going idle s n
      | VNode i kind attrs \<Rightarrow>
          (case leave_fn (visitor kind) of
             None \<Rightarrow> Going idle s n
           | Some f \<Rightarrow>
               (case f s node key parent path ancestors of (result, s) \<Rightarrow>
                case result of
                  Raise e \<Rightarrow> Halted s (Inl e)
                | Break \<Rightarrow> Halted s (Inr (final_value root edits))
                | Skip \<Rightarrow> Going edits s n
                | Idle \<Rightarrow> Going idle s n
                | Edit w \<Rightarrow> Going (edits @ [(key, w)]) s n))
      | _ \<Rightarrow> Halted s (Inl invalid_node))"

text \<open>The level below a node, and leaving it.  \<open>f\<close> visits a child.\<close>

definition walk_below ::
  "(key option \<Rightarrow> ast_value option \<Rightarrow> key list \<Rightarrow> ast_value list \<Rightarrow> ast_value \<Rightarrow> edits \<Rightarrow> 's \<Rightarrow> nat
      \<Rightarrow> 's walked option)
    \<Rightarrow> 's visitor \<Rightarrow> visitor_keys \<Rightarrow> ast_value \<Rightarrow> key option \<Rightarrow> ast_value option \<Rightarrow> key list \<Rightarrow> ast_value list
    \<Rightarrow> ast_value \<Rightarrow> edits \<Rightarrow> 's \<Rightarrow> nat \<Rightarrow> 's walked option" where
  "walk_below f visitor vkeys root key parent path ancestors node edits s n =
     (let ancestors' = (if truthy_parent parent then ancestors @ [the parent] else ancestors) in
      case walk_list (\<lambda>k. f (Some k) (Some node) (path @ [k]) ancestors') (children vkeys node) [] s n of
        None \<Rightarrow> None
      | Some (Halted s r) \<Rightarrow> Some (Halted s r)
      | Some (Going below s n) \<Rightarrow>
          (case (if below \<noteq> [] then apply_edits (is_tuple node) node below n else Inr (node, n)) of
             Inl e \<Rightarrow> Some (Halted s (Inl e))
           | Inr (node', n) \<Rightarrow>
               Some (leave_node visitor root (below \<noteq> []) key parent path ancestors node' edits s n)))"

definition unvisited :: "key list \<Rightarrow> edits \<Rightarrow> 's \<Rightarrow> nat \<Rightarrow> 's walked" where
  "unvisited path edits s n = (if path = [] then Halted s (Inl IndexError) else Going edits s n)"

text \<open>A value at its place: \<open>path\<close> ends with its key.\<close>

primrec walk ::
  "nat \<Rightarrow> 's visitor \<Rightarrow> visitor_keys \<Rightarrow> ast_value \<Rightarrow> key option \<Rightarrow> ast_value option \<Rightarrow> key list
    \<Rightarrow> ast_value list \<Rightarrow> ast_value \<Rightarrow> edits \<Rightarrow> 's \<Rightarrow> nat \<Rightarrow> 's walked option" where
  "walk 0 visitor vkeys root = (\<lambda>key parent path ancestors node edits s n. None)"
| "walk (Suc fuel) visitor vkeys root = (\<lambda>key parent path ancestors node edits s n.
     let below = walk_below (walk fuel visitor vkeys root) visitor vkeys root key parent path ancestors in
     case node of
       VTuple vs \<Rightarrow> below node edits s n
     | VNode i kind attrs \<Rightarrow>
         (case enter_fn (visitor kind) of
            None \<Rightarrow> below node edits s n
          | Some f \<Rightarrow>
              (case f s node key parent path ancestors of (result, s) \<Rightarrow>
               case result of
                 Raise e \<Rightarrow> Some (Halted s (Inl e))
               | Break \<Rightarrow> Some (Halted s (Inr (final_value root edits)))
               | Skip \<Rightarrow> Some (unvisited path edits s n)
               | Idle \<Rightarrow> below node edits s n
               | Edit w \<Rightarrow>
                   if is_node w then below w (edits @ [(key, w)]) s n
                   else Some (unvisited path (edits @ [(key, w)]) s n)))
     | _ \<Rightarrow> Some (Halted s (Inl invalid_node)))"

text \<open>The result of a visit that starts at the root.\<close>

definition walk_result :: "ast_value \<Rightarrow> 's walked \<Rightarrow> 's \<times> (py_error + ast_value)" where
  "walk_result root w =
     (case w of Halted s r \<Rightarrow> (s, r) | Going edits s n \<Rightarrow> (s, Inr (final_value root edits)))"

section \<open>The loop computes the traversal\<close>

text \<open>The loop at the start of a level, before the child at position \<open>i\<close>.\<close>

definition at_level ::
  "visitor_keys \<Rightarrow> frame list \<Rightarrow> ast_value \<Rightarrow> key list \<Rightarrow> ast_value list \<Rightarrow> nat \<Rightarrow> edits \<Rightarrow> 's \<Rightarrow> nat
    \<Rightarrow> 's config \<Rightarrow> bool" where
  "at_level vkeys stack parent path ancestors i edits s n c \<longleftrightarrow>
     c_stack c = stack \<and> c_parent c = Some parent \<and> c_path c = path \<and> c_ancestors c = ancestors
     \<and> c_idx c = int i - 1 \<and> c_edits c = edits \<and> c_state c = s \<and> c_next_id c = n
     \<and> c_in_array c = is_tuple parent \<and> c_keys c = keys_of vkeys parent"

text \<open>The rest of the run after an iteration.\<close>

definition after_step ::
  "'s visitor \<Rightarrow> visitor_keys \<Rightarrow> ast_value \<Rightarrow> 's step \<Rightarrow> ('s \<times> (py_error + ast_value)) option" where
  "after_step visitor vkeys root st =
     (case st of Next c \<Rightarrow> visit_loop visitor vkeys root c | Stop s r \<Rightarrow> Some (s, r))"

lemma after_step_simps [simp]:
  "after_step visitor vkeys root (Next c) = visit_loop visitor vkeys root c"
  "after_step visitor vkeys root (Stop s r) = Some (s, r)"
  by (simp_all add: after_step_def)

lemma visit_loop_step:
  "visit_loop visitor vkeys root c = after_step visitor vkeys root (visit_step visitor vkeys root c)"
  unfolding after_step_def by (rule visit_loop.simps)

text \<open>The places of values: the root, or a child at the last key of the path.\<close>

definition place_ok :: "frame list \<Rightarrow> key option \<Rightarrow> ast_value option \<Rightarrow> key list \<Rightarrow> ast_value list \<Rightarrow> bool" where
  "place_ok stack key parent path ancestors \<longleftrightarrow>
     (stack = [] \<and> parent = None \<and> key = None \<and> path = [] \<and> ancestors = [])
     \<or> (stack \<noteq> [] \<and> truthy_parent parent \<and> path \<noteq> [] \<and> key = Some (last path))"

text \<open>How the run goes on after a value has been walked in the configuration \<open>e\<close>.\<close>

definition goes_on ::
  "'s visitor \<Rightarrow> visitor_keys \<Rightarrow> ast_value \<Rightarrow> 's config \<Rightarrow> 's walked \<Rightarrow> ('s \<times> (py_error + ast_value)) option \<Rightarrow> bool"
  where
  "goes_on visitor vkeys root e w run \<longleftrightarrow>
     (case w of
        Halted s r \<Rightarrow> run = Some (s, r)
      | Going edits s n \<Rightarrow>
          if c_stack e = [] then run = Some (s, Inr (final_value root edits))
          else \<exists>x. run = visit_loop visitor vkeys root
            (e\<lparr>c_edits := edits, c_state := s, c_next_id := n, c_path := butlast (c_path e), c_node := x\<rparr>))"

lemma length_children:
  "length (children vkeys v) = keys_len (keys_of vkeys v)"
  by (cases v) auto

text \<open>A run that gets to the end of a level with the edits of the level, or halts in it.\<close>

definition level_run ::
  "'s visitor \<Rightarrow> visitor_keys \<Rightarrow> ast_value \<Rightarrow> frame list \<Rightarrow> ast_value \<Rightarrow> key list \<Rightarrow> ast_value list
    \<Rightarrow> 's walked \<Rightarrow> ('s \<times> (py_error + ast_value)) option \<Rightarrow> bool" where
  "level_run visitor vkeys root stack parent path ancestors w run \<longleftrightarrow>
     (case w of
        Halted s r \<Rightarrow> run = Some (s, r)
      | Going edits s n \<Rightarrow> \<exists>c. run = visit_loop visitor vkeys root c
          \<and> at_level vkeys stack parent path ancestors (length (children vkeys parent)) edits s n c)"

text \<open>A level, given what the visit of a child does.\<close>

lemma walk_list_simulated:
  assumes child: "\<And>key e w node edits s n. truthy_parent (Some parent)
      \<Longrightarrow> walk fuel visitor vkeys root (Some key) (Some parent) (path @ [key]) ancestors node edits s n = Some w
      \<Longrightarrow> c_stack e = stack \<Longrightarrow> c_key e = Some key \<Longrightarrow> c_parent e = Some parent
      \<Longrightarrow> c_path e = path @ [key] \<Longrightarrow> c_ancestors e = ancestors \<Longrightarrow> c_node e = node
      \<Longrightarrow> c_edits e = edits \<Longrightarrow> c_state e = s \<Longrightarrow> c_next_id e = n
      \<Longrightarrow> goes_on visitor vkeys root e w (after_step visitor vkeys root (enter_step visitor vkeys root e))"
    and "stack \<noteq> []"
    and "walk_list (\<lambda>k. walk fuel visitor vkeys root (Some k) (Some parent) (path @ [k]) ancestors)
      (drop i (children vkeys parent)) edits s n = Some w"
    and "at_level vkeys stack parent path ancestors i edits s n c"
    and "i \<le> length (children vkeys parent)"
  shows "level_run visitor vkeys root stack parent path ancestors w (visit_loop visitor vkeys root c)"
  using assms(3-5)
proof (induction "length (children vkeys parent) - i" arbitrary: i edits s n c)
  case 0
  then have "w = Going edits s n" "i = length (children vkeys parent)" by auto
  with 0 show ?case by (auto simp: level_run_def)
next
  case (Suc m)
  then have i: "i < length (children vkeys parent)" by auto
  obtain k v where kv: "children vkeys parent ! i = (k, v)" by (cases "children vkeys parent ! i")
  with i have drop: "drop i (children vkeys parent) = (k, v) # drop (Suc i) (children vkeys parent)"
    by (simp flip: Cons_nth_drop_Suc)
  note at = Suc.prems(2)
  have par: "truthy_parent (Some parent)" using i by (cases parent) (auto simp: truthy_parent_def)
  let ?c = "c\<lparr>c_idx := int i, c_key := Some k, c_node := v\<rparr>"
  have choice: "visit_step visitor vkeys root c =
      (if v = VNone then Next ?c else enter_step visitor vkeys root (?c\<lparr>c_path := path @ [k]\<rparr>))"
  proof -
    have "i \<noteq> keys_len (keys_of vkeys parent)" using i by (simp add: length_children)
    moreover have "(if is_tuple parent then (KIdx i, tuple_items parent ! i)
        else let name = key_names (keys_of vkeys parent) ! i
             in (KAttr name, getattr_or_none (node_attrs_of parent) name)) = (k, v)"
      using kv i by (cases parent) (auto simp: Let_def)
    ultimately show ?thesis
      using at par
      by (cases "is_tuple parent") (auto simp: visit_step_def at_level_def Let_def)
  qed
  show ?case
  proof (cases "v = VNone")
    case True
    with choice have "visit_loop visitor vkeys root c = visit_loop visitor vkeys root ?c"
      using visit_loop_step [of visitor vkeys root c] by simp
    moreover have "at_level vkeys stack parent path ancestors (Suc i) edits s n ?c"
      using at by (simp add: at_level_def)
    moreover have "m = length (children vkeys parent) - Suc i" using Suc.hyps(2) by simp
    ultimately show ?thesis
      using Suc.hyps(1) [of "Suc i" edits s n ?c] Suc.prems(1) i True drop by simp
  next
    case False
    let ?e = "?c\<lparr>c_path := path @ [k]\<rparr>"
    have run: "visit_loop visitor vkeys root c = after_step visitor vkeys root (enter_step visitor vkeys root ?e)"
      using visit_loop_step [of visitor vkeys root c] choice False by simp
    from Suc.prems(1) drop False obtain w' where w':
      "walk fuel visitor vkeys root (Some k) (Some parent) (path @ [k]) ancestors v edits s n = Some w'"
      and rest: "(case w' of Going edits s n \<Rightarrow>
          walk_list (\<lambda>k. walk fuel visitor vkeys root (Some k) (Some parent) (path @ [k]) ancestors)
            (drop (Suc i) (children vkeys parent)) edits s n
        | Halted s r \<Rightarrow> Some w') = Some w"
      by (auto split: option.splits walked.splits)
    have "goes_on visitor vkeys root ?e w' (visit_loop visitor vkeys root c)"
      unfolding run using at by (intro child [OF par w']) (simp_all add: at_level_def)
    with rest show ?thesis
    proof (cases w')
      case (Halted s' r)
      with rest \<open>goes_on _ _ _ _ _ _\<close> show ?thesis by (auto simp: goes_on_def level_run_def)
    next
      case (Going edits' s' n')
      with \<open>goes_on _ _ _ _ _ _\<close> at assms(2) obtain x where
        "visit_loop visitor vkeys root c = visit_loop visitor vkeys root
          (?e\<lparr>c_edits := edits', c_state := s', c_next_id := n', c_path := path, c_node := x\<rparr>)"
        by (auto simp: goes_on_def at_level_def)
      moreover have "at_level vkeys stack parent path ancestors (Suc i) edits' s' n'
          (?e\<lparr>c_edits := edits', c_state := s', c_next_id := n', c_path := path, c_node := x\<rparr>)"
        using at by (simp add: at_level_def)
      moreover have "m = length (children vkeys parent) - Suc i" using Suc.hyps(2) by simp
      ultimately show ?thesis
        using Suc.hyps(1) [of "Suc i" edits' s' n'] rest i Going by simp
    qed
  qed
qed

lemma walk_below_simulated:
  fixes visitor :: "'s visitor"
  assumes below: "\<And>key parent path ancestors node edits s n w e.
      walk fuel visitor vkeys root key parent path ancestors node edits s n = Some w
      \<Longrightarrow> place_ok (c_stack e) key parent path ancestors
      \<Longrightarrow> c_key e = key \<Longrightarrow> c_parent e = parent \<Longrightarrow> c_path e = path \<Longrightarrow> c_ancestors e = ancestors
      \<Longrightarrow> c_node e = node \<Longrightarrow> c_edits e = edits \<Longrightarrow> c_state e = s \<Longrightarrow> c_next_id e = n
      \<Longrightarrow> goes_on visitor vkeys root e w (after_step visitor vkeys root (enter_step visitor vkeys root e))"
    and w: "walk_below (walk fuel visitor vkeys root) visitor vkeys root key parent path ancestors node edits s n
      = Some w"
    and place: "place_ok (c_stack e) key parent path ancestors"
    and e: "c_key e = key" "c_parent e = parent" "c_path e = path" "c_ancestors e = ancestors"
      "c_node e = node" "c_edits e = edits" "c_state e = s" "c_next_id e = n"
  shows "goes_on visitor vkeys root e w (after_step visitor vkeys root (descend vkeys e))"
proof -
  define anc where "anc = (if truthy_parent parent then ancestors @ [the parent] else ancestors)"
  define fr where "fr = \<lparr>fr_in_array = c_in_array e, fr_idx = c_idx e, fr_keys = c_keys e, fr_edits = edits\<rparr>"
  define kids where "kids = children vkeys node"
  obtain c where c: "descend vkeys e = Next c" "at_level vkeys (fr # c_stack e) node path anc 0 [] s n c"
    and ce: "c = e\<lparr>c_stack := fr # c_stack e, c_in_array := is_tuple node, c_keys := keys_of vkeys node,
      c_idx := -1, c_edits := [], c_ancestors := anc, c_parent := Some node\<rparr>"
    using e by (simp add: descend_def at_level_def fr_def anc_def)
  from w obtain l where
    l: "walk_list (\<lambda>k. walk fuel visitor vkeys root (Some k) (Some node) (path @ [k]) anc)
      (drop 0 (children vkeys node)) [] s n = Some l"
    and lw: "(case l of
        Halted s r \<Rightarrow> Some (Halted s r)
      | Going below s n \<Rightarrow>
          (case (if below \<noteq> [] then apply_edits (is_tuple node) node below n else Inr (node, n)) of
             Inl e \<Rightarrow> Some (Halted s (Inl e))
           | Inr (node', n) \<Rightarrow>
               Some (leave_node visitor root (below \<noteq> []) key parent path ancestors node' edits s n))) = Some w"
    unfolding walk_below_def Let_def anc_def by (auto split: option.splits walked.splits)
  have run: "level_run visitor vkeys root (fr # c_stack e) node path anc l (visit_loop visitor vkeys root c)"
  proof (rule walk_list_simulated [OF _ _ l c(2)])
    fix k v E s n w and e' :: "'s config"
    assume "truthy_parent (Some node)"
      "walk fuel visitor vkeys root (Some k) (Some node) (path @ [k]) anc v E s n = Some w"
      "c_stack e' = fr # c_stack e" "c_key e' = Some k" "c_parent e' = Some node" "c_path e' = path @ [k]"
      "c_ancestors e' = anc" "c_node e' = v" "c_edits e' = E" "c_state e' = s" "c_next_id e' = n"
    then show "goes_on visitor vkeys root e' w (after_step visitor vkeys root (enter_step visitor vkeys root e'))"
      by (intro below) (simp_all add: place_ok_def)
  qed simp_all
  show ?thesis
  proof (cases l)
    case (Halted s' r)
    with run lw c(1) show ?thesis by (auto simp: level_run_def goes_on_def)
  next
    case (Going es s' n')
    with run obtain c' where c': "visit_loop visitor vkeys root c = visit_loop visitor vkeys root c'"
      "at_level vkeys (fr # c_stack e) node path anc (length (children vkeys node)) es s' n' c'"
      by (auto simp: level_run_def)
    have anc: "(anc \<noteq> [] \<longleftrightarrow> parent \<noteq> None) \<and> (if anc \<noteq> [] then Some (last anc) else None) = parent
      \<and> butlast anc = ancestors \<and> (if anc \<noteq> [] then Some (last path) else None) = key \<and> (anc \<noteq> [] \<longrightarrow> path \<noteq> [])"
      using place by (auto simp: anc_def place_ok_def truthy_parent_def)
    let ?rebuilt = "if es \<noteq> [] then apply_edits (is_tuple node) node es n' else Inr (node, n')"
    show ?thesis
    proof (cases ?rebuilt)
      case (Inl err)
      then have "visit_step visitor vkeys root c' = Stop s' (Inl err)"
        using c'(2) anc by (auto simp: visit_step_def at_level_def length_children Let_def split: if_splits)
      with Inl lw Going c(1) c'(1) visit_loop_step [of visitor vkeys root c'] show ?thesis
        by (auto simp: goes_on_def)
    next
      case (Inr nn)
      obtain node' n'' where nn: "nn = (node', n'')" by (cases nn)
      define d where "d = \<lparr>c_state = s', c_next_id = n'', c_stack = c_stack e, c_in_array = c_in_array e,
        c_idx = c_idx e, c_keys = c_keys e, c_edits = edits, c_node = node', c_key = key, c_parent = parent,
        c_path = path, c_ancestors = ancestors\<rparr>"
      have step: "visit_step visitor vkeys root c' = leave_step visitor root (es \<noteq> []) d"
        using c'(2) anc Inr nn
        by (cases c')
          (auto simp: visit_step_def at_level_def length_children Let_def fr_def d_def split: if_splits)
      have d: "d\<lparr>c_state := t, c_edits := E, c_node := y, c_path := butlast (c_path d)\<rparr>
          = e\<lparr>c_edits := E, c_state := t, c_next_id := n'', c_path := butlast (c_path e), c_node := y\<rparr>" for E t y
        using e by (cases e) (simp add: d_def)
      have leave: "goes_on visitor vkeys root e (leave_node visitor root (es \<noteq> []) key parent path ancestors node' edits s' n'')
          (after_step visitor vkeys root (leave_step visitor root (es \<noteq> []) d))"
      proof -
        have al: "goes_on visitor vkeys root e (Going E t n'')
            (after_step visitor vkeys root (after_leave (d\<lparr>c_state := t, c_edits := E, c_node := y\<rparr>) root))" for E t y
          using d [where E = E and t = t and y = y] by (auto simp: goes_on_def after_leave_def d_def Let_def)
        have halt: "goes_on visitor vkeys root e (Halted t r) (after_step visitor vkeys root (Stop t r))" for t r
          by (simp add: goes_on_def)
        note al = al [unfolded d_def, simplified] and halt = halt [simplified]
        show ?thesis
          by (auto simp: leave_step_def leave_node_def d_def Let_def al halt
              split: ast_value.split option.split prod.split action.split)
      qed
      from Inr nn lw Going have "w = leave_node visitor root (es \<noteq> []) key parent path ancestors node' edits s' n''"
        by simp
      with leave step c(1) c'(1) visit_loop_step [of visitor vkeys root c'] show ?thesis by simp
    qed
  qed
qed

lemma goes_on_update:
  "goes_on visitor vkeys root (e\<lparr>c_state := t, c_edits := E, c_node := y\<rparr>) w run = goes_on visitor vkeys root e w run"
  by (cases w; cases e) (simp_all add: goes_on_def)

lemma unvisited_simulated:
  assumes "place_ok (c_stack e) key parent (c_path e) ancestors"
  shows "goes_on visitor vkeys root e (unvisited (c_path e) (c_edits e) (c_state e) (c_next_id e))
    (after_step visitor vkeys root (pop_and_continue e))"
proof (cases "c_path e = []")
  case False
  with assms have "c_stack e \<noteq> []" by (auto simp: place_ok_def)
  with False show ?thesis
    by (simp add: unvisited_def goes_on_def pop_and_continue_def)
      (rule exI [of _ "c_node e"], cases e, simp)
qed (simp add: unvisited_def goes_on_def pop_and_continue_def)

text \<open>The main simulation: the run from the place of a value to the place of the next one.\<close>

lemma walk_simulated:
  fixes visitor :: "'s visitor" and e :: "'s config"
  shows "walk fuel visitor vkeys root key parent path ancestors node edits s n = Some w
      \<Longrightarrow> place_ok (c_stack e) key parent path ancestors
      \<Longrightarrow> c_key e = key \<Longrightarrow> c_parent e = parent \<Longrightarrow> c_path e = path \<Longrightarrow> c_ancestors e = ancestors
      \<Longrightarrow> c_node e = node \<Longrightarrow> c_edits e = edits \<Longrightarrow> c_state e = s \<Longrightarrow> c_next_id e = n
      \<Longrightarrow> goes_on visitor vkeys root e w (after_step visitor vkeys root (enter_step visitor vkeys root e))"
proof (induction fuel arbitrary: key parent path ancestors node edits s n w e)
  case (Suc fuel)
  have down: "goes_on visitor vkeys root e w
      (after_step visitor vkeys root (descend vkeys (e\<lparr>c_state := t, c_edits := E, c_node := y\<rparr>)))"
    if "walk_below (walk fuel visitor vkeys root) visitor vkeys root key parent path ancestors y E t n = Some w" for y E t
  proof -
    let ?e = "e\<lparr>c_state := t, c_edits := E, c_node := y\<rparr>"
    have "goes_on visitor vkeys root ?e w (after_step visitor vkeys root (descend vkeys ?e))"
    proof (rule walk_below_simulated [OF _ that])
      fix key' parent' path' ancestors' node' edits' s' n' w' and e' :: "'s config"
      assume "walk fuel visitor vkeys root key' parent' path' ancestors' node' edits' s' n' = Some w'"
        "place_ok (c_stack e') key' parent' path' ancestors'" "c_key e' = key'" "c_parent e' = parent'"
        "c_path e' = path'" "c_ancestors e' = ancestors'" "c_node e' = node'" "c_edits e' = edits'"
        "c_state e' = s'" "c_next_id e' = n'"
      then show "goes_on visitor vkeys root e' w' (after_step visitor vkeys root (enter_step visitor vkeys root e'))"
        by (rule Suc.IH)
    qed (use Suc.prems in simp_all)
    then show ?thesis by (simp only: goes_on_update)
  qed
  have pop: "goes_on visitor vkeys root e (unvisited path E t n)
      (after_step visitor vkeys root (pop_and_continue (e\<lparr>c_state := t, c_edits := E\<rparr>)))" for E t
  proof -
    have "e\<lparr>c_state := t, c_edits := E\<rparr> = e\<lparr>c_state := t, c_edits := E, c_node := node\<rparr>"
      using Suc.prems(7) by (cases e) simp
    note eq = this
    have "goes_on visitor vkeys root e (unvisited path E t n)
        (after_step visitor vkeys root (pop_and_continue (e\<lparr>c_state := t, c_edits := E, c_node := node\<rparr>)))"
      using unvisited_simulated [of "e\<lparr>c_state := t, c_edits := E, c_node := node\<rparr>" key parent ancestors
          visitor vkeys root] Suc.prems(2-10)
      by (simp add: goes_on_update)
    then show ?thesis by (subst eq)
  qed
  have same: "e\<lparr>c_state := t, c_edits := edits, c_node := node\<rparr> = e\<lparr>c_state := t\<rparr>" for t
    using Suc.prems(7,8) by (cases e) simp
  note down' = down [of node edits, unfolded same]
  have pop': "goes_on visitor vkeys root e (unvisited path edits t n)
      (after_step visitor vkeys root (pop_and_continue (e\<lparr>c_state := t\<rparr>)))" for t
    using pop [of edits t] Suc.prems(8) by (cases e) simp
  have halt: "goes_on visitor vkeys root e (Halted t r) (after_step visitor vkeys root (Stop t r))" for t r
    by (simp add: goes_on_def)
  have e: "e\<lparr>c_state := s\<rparr> = e" using Suc.prems(9) by (cases e) simp
  show ?case
  proof (cases node)
    case (VTuple vs)
    then show ?thesis using Suc.prems down' [of s] e by (simp add: enter_step_def Let_def)
  next
    case (VNode i kind attrs)
    show ?thesis
    proof (cases "enter_fn (visitor kind)")
      case None
      then show ?thesis using VNode Suc.prems down' [of s] e by (simp add: enter_step_def Let_def)
    next
      case (Some f)
      obtain result t where r: "f s node key parent path ancestors = (result, t)"
        by (cases "f s node key parent path ancestors")
      show ?thesis
        using Suc.prems VNode Some r down' [of t] down pop pop' halt
        by (cases result) (auto simp: enter_step_def Let_def split: if_splits)
    qed
  qed (use Suc.prems in \<open>auto simp: enter_step_def goes_on_def\<close>)
qed simp

lemma visit_walk:
  assumes "walk fuel visitor vkeys root None None [] [] root [] s n = Some w" and "is_node root"
  shows "visit root visitor vkeys s n = Some (walk_result root w)"
proof -
  let ?e = "visit_init root s n\<lparr>c_idx := 0\<rparr>"
  have "goes_on visitor vkeys root ?e w (after_step visitor vkeys root (enter_step visitor vkeys root ?e))"
    by (rule walk_simulated [OF assms(1)]) (simp_all add: visit_init_def place_ok_def)
  moreover have "visit_step visitor vkeys root (visit_init root s n) = enter_step visitor vkeys root ?e"
    by (simp add: visit_step_def visit_init_def Let_def truthy_parent_def)
  ultimately show ?thesis
    using assms(2) visit_loop_step [of visitor vkeys root "visit_init root s n"]
    by (auto simp: visit_def walk_result_def goes_on_def visit_init_def split: walked.splits)
qed

end
