(* ===== verification/Visitor_Facts.thy ===== *)
theory Visitor_Facts
  imports Visitor_Walk
begin

text \<open>
  What \<open>visit\<close> does for the kinds of visitors the library has: it returns for every visitor that puts
  no node in the place of another while entering; visitors that only look see every node once on the
  way down and once on the way up, in order, and give the root back; visitors that rewrite while
  leaving compute a bottom-up map.
\<close>

section \<open>Examples\<close>

text \<open>The document \<open>{ a b }\<close>, with a second name that is the same for both fields.\<close>

definition name_of :: "nat \<Rightarrow> string \<Rightarrow> ast_value" where
  "name_of i x = VNode i ''name'' [(''value'', VAtom (str x))]"

definition field_of :: "nat \<Rightarrow> string \<Rightarrow> ast_value" where
  "field_of i x = VNode i ''field''
     [(''alias'', VNone), (''name'', name_of (Suc i) x), (''arguments'', VTuple []), (''directives'', VTuple []),
      (''selection_set'', VNone)]"

definition example_tree :: ast_value where
  "example_tree = VNode 0 ''document'' [(''definitions'', VTuple
     [VNode 1 ''operation_definition''
       [(''operation'', VAtom (str ''query'')), (''name'', VNone), (''variable_definitions'', VTuple []),
        (''directives'', VTuple []),
        (''selection_set'', VNode 2 ''selection_set''
          [(''selections'', VTuple [field_of 3 ''a'', field_of 5 ''b''])])]])]"

text \<open>A visitor that notes the kinds it enters, skips the field \<open>a\<close>, and drops the field \<open>b\<close> on the way up.\<close>

definition example_visitor :: "string list visitor" where
  "example_visitor kind =
     \<lparr>enter_fn = Some (\<lambda>s node key parent path ancestors.
        (if getattr_or_none (node_attrs_of (getattr_or_none (node_attrs_of node) ''name'')) ''value'' = VAtom (str ''a'')
         then Skip else Idle, s @ [kind])),
      leave_fn = (if kind = ''field'' then Some (\<lambda>s node key parent path ancestors. (Edit VRemove, s)) else None)\<rparr>"

text \<open>A visitor that only notes what it sees.\<close>

definition noting_visitor :: "(bool \<times> string) list visitor" where
  "noting_visitor kind =
     \<lparr>enter_fn = Some (\<lambda>s node key parent path ancestors. (Idle, s @ [(True, kind)])),
      leave_fn = (if kind = ''name'' then None
                  else Some (\<lambda>s node key parent path ancestors. (Idle, s @ [(False, kind)])))\<rparr>"

section \<open>Refinement and termination\<close>

text \<open>
  C15.  Whenever the recursive traversal has enough fuel, the loop of \<open>visit\<close> ends with the same visitor
  state and the same result, exceptions included: the explicit stack, the offsets of the edits and
  the bookkeeping of path and ancestors compute exactly the recursion over the tree.
\<close>

theorem visit_refines_walk:
  assumes "walk fuel visitor vkeys root None None [] [] root [] s n = Some w" and "is_node root"
  shows "visit root visitor vkeys s n = Some (walk_result root w)"
  using assms by (rule visit_walk)

definition example_outcome :: ast_value where
  "example_outcome = VNode 102 ''document'' [(''definitions'', VTuple
     [VNode 101 ''operation_definition''
       [(''operation'', VAtom (str ''query'')), (''name'', VNone), (''variable_definitions'', VTuple []),
        (''directives'', VTuple []),
        (''selection_set'', VNode 100 ''selection_set'' [(''selections'', VTuple [field_of 3 ''a''])])]])]"

text \<open>The equations of \<open>walk\<close> with all arguments, for evaluation.\<close>

lemma walk_code [code]:
  "walk 0 visitor vkeys root key parent path ancestors node edits s n = None"
  "walk (Suc fuel) visitor vkeys root key parent path ancestors node edits s n =
     (case node of
       VTuple vs \<Rightarrow> walk_below (walk fuel visitor vkeys root) visitor vkeys root key parent path ancestors node edits s n
     | VNode i kind attrs \<Rightarrow>
         (case enter_fn (visitor kind) of
            None \<Rightarrow> walk_below (walk fuel visitor vkeys root) visitor vkeys root key parent path ancestors node edits s n
          | Some f \<Rightarrow>
              (case f s node key parent path ancestors of (result, s) \<Rightarrow>
               case result of
                 Raise e \<Rightarrow> Some (Halted s (Inl e))
               | Break \<Rightarrow> Some (Halted s (Inr (final_value root edits)))
               | Skip \<Rightarrow> Some (unvisited path edits s n)
               | Idle \<Rightarrow> walk_below (walk fuel visitor vkeys root) visitor vkeys root key parent path ancestors node edits s n
               | Edit w \<Rightarrow>
                   if is_node w
                   then walk_below (walk fuel visitor vkeys root) visitor vkeys root key parent path ancestors w
                     (edits @ [(key, w)]) s n
                   else Some (unvisited path (edits @ [(key, w)]) s n)))
     | _ \<Rightarrow> Some (Halted s (Inl invalid_node)))"
  by (simp_all add: Let_def)

lemma visit_refines_walk_witness:
  "visit example_tree example_visitor QUERY_DOCUMENT_KEYS [] 100
    = Some ([''document'', ''operation_definition'', ''selection_set'', ''field'', ''field'', ''name''],
        Inr example_outcome)"
proof -
  have "walk 9 example_visitor QUERY_DOCUMENT_KEYS example_tree None None [] [] example_tree [] [] 100
    = Some (Going [(None, example_outcome)]
        [''document'', ''operation_definition'', ''selection_set'', ''field'', ''field'', ''name''] 103)"
    by code_simp
  from visit_refines_walk [OF this] show ?thesis
    by (simp add: example_tree_def walk_result_def final_value_def)
qed

lemma getattr_size: "size (getattr_or_none as a) < Suc (size_list (size_prod (\<lambda>x. 0) size) as)"
proof (induction as)
  case (Cons x as)
  then show ?case by (cases x) (auto simp: getattr_or_none_def split: if_splits)
qed (simp add: getattr_or_none_def)

lemma child_size: "(k, v) \<in> set (children vkeys node) \<Longrightarrow> size v < size node"
proof (cases node)
  case (VTuple vs)
  assume "(k, v) \<in> set (children vkeys node)"
  then have "v \<in> set vs" by (auto simp: VTuple dest: set_zip_rightD)
  then show ?thesis using size_list_estimation' [of v vs "size v" size] by (simp add: VTuple)
next
  case (VNode i kind as)
  assume "(k, v) \<in> set (children vkeys node)"
  then show ?thesis using getattr_size [of as] by (auto simp: VNode)
qed simp_all

text \<open>A visitor that puts no node in the place of another while entering.\<close>

definition keeps_nodes :: "'s visitor \<Rightarrow> bool" where
  "keeps_nodes visitor \<longleftrightarrow>
     (\<forall>kind f. enter_fn (visitor kind) = Some f \<longrightarrow>
        (\<forall>s node key parent path ancestors w s'.
           f s node key parent path ancestors = (Edit w, s') \<longrightarrow> \<not> is_node w))"

lemma walk_list_returns:
  assumes "\<And>k v edits s n. (k, v) \<in> set kids \<Longrightarrow> v \<noteq> VNone \<Longrightarrow> f k v edits s n \<noteq> None"
  shows "walk_list f kids edits s n \<noteq> None"
  using assms
proof (induction kids arbitrary: edits s n)
  case (Cons kv kids)
  obtain k v where "kv = (k, v)" by (cases kv)
  with Cons.prems [of k v edits s n] Cons.IH Cons.prems show ?case
    by (cases "v = VNone") (auto split: option.split walked.split)
qed simp

lemma walk_returns:
  "keeps_nodes visitor \<Longrightarrow> size node < fuel \<Longrightarrow>
     walk fuel visitor vkeys root key parent path ancestors node edits s n \<noteq> None"
proof (induction fuel arbitrary: key parent path ancestors node edits s n)
  case (Suc fuel)
  have below: "walk_below (walk fuel visitor vkeys root) visitor vkeys root key parent path ancestors node edits s n
      \<noteq> None" for s
  proof -
    define anc where "anc = (if truthy_parent parent then ancestors @ [the parent] else ancestors)"
    have "walk_list (\<lambda>k. walk fuel visitor vkeys root (Some k) (Some node) (path @ [k]) anc)
        (children vkeys node) [] s n \<noteq> None"
      using Suc child_size [of _ _ vkeys node] by (intro walk_list_returns) fastforce
    then obtain w where "walk_list (\<lambda>k. walk fuel visitor vkeys root (Some k) (Some node) (path @ [k]) anc)
        (children vkeys node) [] s n = Some w" by blast
    then show ?thesis
      by (auto simp: walk_below_def Let_def simp flip: anc_def split: walked.split sum.split)
  qed
  show ?case
  proof (cases node)
    case (VNode i kind attrs)
    show ?thesis
    proof (cases "enter_fn (visitor kind)")
      case (Some f)
      obtain result t where r: "f s node key parent path ancestors = (result, t)"
        by (cases "f s node key parent path ancestors")
      have "\<not> is_node w" if "result = Edit w" for w
        using Suc.prems(1) Some r that unfolding keeps_nodes_def by blast
      with r Some VNode below [of t] show ?thesis by (cases result) (auto simp: Let_def)
    qed (use below [of s] VNode in simp)
  qed (use below [of s] in \<open>auto simp: Let_def\<close>)
qed simp

text \<open>
  C18.  \<open>visit\<close> returns (a tree, or an exception) for every tree and every visitor whose \<open>enter\<close> methods put
  no node in the place of another; its \<open>leave\<close> methods may do anything.
\<close>

theorem visit_returns:
  assumes "keeps_nodes visitor"
  shows "\<exists>s' result. visit root visitor vkeys s n = Some (s', result)"
proof (cases "is_node root")
  case True
  obtain w where "walk (Suc (size root)) visitor vkeys root None None [] [] root [] s n = Some w"
    using walk_returns [OF assms lessI] by blast
  from visit_walk [OF this True] show ?thesis by (cases "walk_result root w") auto
qed (simp add: visit_def)

lemma visit_returns_witness:
  "\<exists>s' result. visit example_tree example_visitor QUERY_DOCUMENT_KEYS [] 7 = Some (s', result)"
  by (rule visit_returns) (auto simp: keeps_nodes_def example_visitor_def)

section \<open>Visitors that only look\<close>

text \<open>The calls of the methods in the order of the visit.\<close>

datatype call =
  Enter ast_value "key option" "ast_value option" "key list" "ast_value list"
| Leave ast_value "key option" "ast_value option" "key list" "ast_value list"

function calls ::
  "visitor_keys \<Rightarrow> key option \<Rightarrow> ast_value option \<Rightarrow> key list \<Rightarrow> ast_value list \<Rightarrow> ast_value \<Rightarrow> call list" where
  "calls vkeys key parent path ancestors node =
     (let ancestors' = (case parent of None \<Rightarrow> ancestors | Some p \<Rightarrow> ancestors @ [p]);
          below = concat (map (\<lambda>(k, v). if v = VNone then [] else
            calls vkeys (Some k) (Some node) (path @ [k]) ancestors' v) (children vkeys node))
      in if is_node node
         then Enter node key parent path ancestors # below @ [Leave node key parent path ancestors]
         else below)"
  by pat_completeness auto
termination
  by (relation "measure (\<lambda>(vkeys, key, parent, path, ancestors, node). size node)")
     (auto dest: child_size)

declare calls.simps [simp del]

definition perform :: "'s visitor \<Rightarrow> call \<Rightarrow> 's \<Rightarrow> 's" where
  "perform visitor c s =
     (case c of
        Enter node key parent path ancestors \<Rightarrow>
          (case enter_fn (visitor (node_kind node)) of None \<Rightarrow> s
           | Some f \<Rightarrow> snd (f s node key parent path ancestors))
      | Leave node key parent path ancestors \<Rightarrow>
          (case leave_fn (visitor (node_kind node)) of None \<Rightarrow> s
           | Some f \<Rightarrow> snd (f s node key parent path ancestors)))"

definition only_looks :: "'s visitor \<Rightarrow> bool" where
  "only_looks visitor \<longleftrightarrow>
     (\<forall>kind f. enter_fn (visitor kind) = Some f \<or> leave_fn (visitor kind) = Some f \<longrightarrow>
        (\<forall>s node key parent path ancestors. fst (f s node key parent path ancestors) = Idle))"

text \<open>Trees whose visited parts are nodes, tuples and \<open>None\<close>.\<close>

function visitable :: "visitor_keys \<Rightarrow> ast_value \<Rightarrow> bool" where
  "visitable vkeys v \<longleftrightarrow>
     (is_node v \<or> is_tuple v) \<and> (\<forall>(k, u) \<in> set (children vkeys v). u = VNone \<or> visitable vkeys u)"
  by pat_completeness auto
termination
  by (relation "measure (\<lambda>(vkeys, v). size v)") (auto dest: child_size)

declare visitable.simps [simp del]

lemma visitable_shape: "visitable vkeys v \<Longrightarrow> is_node v \<or> is_tuple v"
  by (subst (asm) visitable.simps) simp

lemma walk_list_looks:
  assumes "\<And>k v s. (k, v) \<in> set kids \<Longrightarrow> v \<noteq> VNone \<Longrightarrow> f k v [] s n = Some (Going [] (fold h (g k v) s) n)"
  shows "walk_list f kids [] s n
    = Some (Going [] (fold h (concat (map (\<lambda>(k, v). if v = VNone then [] else g k v) kids)) s) n)"
  using assms
proof (induction kids arbitrary: s)
  case (Cons kv kids)
  obtain k v where "kv = (k, v)" by (cases kv)
  with Cons.prems [of k v] Cons.IH Cons.prems show ?case by (cases "v = VNone") auto
qed simp

lemma walk_looks:
  assumes "only_looks visitor"
  shows "visitable vkeys node \<Longrightarrow> size node < fuel \<Longrightarrow> parent = None \<or> truthy_parent parent \<Longrightarrow>
     walk fuel visitor vkeys root key parent path ancestors node edits s n
       = Some (Going edits (fold (perform visitor) (calls vkeys key parent path ancestors node) s) n)"
proof (induction fuel arbitrary: key parent path ancestors node edits s n)
  case (Suc fuel)
  have idle: "(\<forall>f. enter_fn (visitor kind) = Some f \<longrightarrow> (\<exists>t. f s node key parent path ancestors = (Idle, t)))
      \<and> (\<forall>f. leave_fn (visitor kind) = Some f \<longrightarrow> (\<exists>t. f s node key parent path ancestors = (Idle, t)))" for kind s
    using assms unfolding only_looks_def by (metis prod.collapse)
  define anc where "anc = (case parent of None \<Rightarrow> ancestors | Some p \<Rightarrow> ancestors @ [p])"
  define below where "below = concat (map (\<lambda>(k, v). if v = VNone then [] else
            calls vkeys (Some k) (Some node) (path @ [k]) anc v) (children vkeys node))"
  have anc: "(if truthy_parent parent then ancestors @ [the parent] else ancestors) = anc"
    using Suc.prems(3) by (auto simp: anc_def truthy_parent_def)
  have kids: "walk_list (\<lambda>k. walk fuel visitor vkeys root (Some k) (Some node) (path @ [k]) anc)
      (children vkeys node) [] s n = Some (Going [] (fold (perform visitor) below s) n)" for s
  proof -
    have "walk fuel visitor vkeys root (Some k) (Some node) (path @ [k]) anc v [] s n
        = Some (Going [] (fold (perform visitor) (calls vkeys (Some k) (Some node) (path @ [k]) anc v) s) n)"
      if kv: "(k, v) \<in> set (children vkeys node)" "v \<noteq> VNone" for k v s
    proof (rule Suc.IH)
      show "visitable vkeys v" using Suc.prems(1) kv by (auto simp: visitable.simps [of vkeys node])
      show "size v < fuel" using child_size [OF kv(1)] Suc.prems(2) by simp
      show "Some node = None \<or> truthy_parent (Some node)"
        using kv(1) by (cases node) (auto simp: truthy_parent_def)
    qed
    then show ?thesis unfolding below_def by (rule walk_list_looks)
  qed
  have calls: "calls vkeys key parent path ancestors node =
      (if is_node node then Enter node key parent path ancestors # below @ [Leave node key parent path ancestors]
       else below)"
    unfolding calls.simps [of vkeys key parent path ancestors node] Let_def below_def anc_def by (rule refl)
  have down: "walk_below (walk fuel visitor vkeys root) visitor vkeys root key parent path ancestors node edits s n
      = Some (leave_node visitor root False key parent path ancestors node edits (fold (perform visitor) below s) n)" for s
    by (simp add: walk_below_def Let_def anc kids)
  show ?case
  proof (cases node)
    case (VTuple vs)
    then show ?thesis using down calls by (simp add: leave_node_def)
  next
    case (VNode i kind attrs)
    have enter: "fold (perform visitor) below (perform visitor (Enter node key parent path ancestors) s)
        = (case enter_fn (visitor kind) of None \<Rightarrow> fold (perform visitor) below s
           | Some f \<Rightarrow> fold (perform visitor) below (snd (f s node key parent path ancestors)))"
      by (simp add: perform_def VNode split: option.split)
    have leave: "leave_node visitor root False key parent path ancestors node edits t n
        = Going edits (perform visitor (Leave node key parent path ancestors) t) n" for t
    proof (cases "leave_fn (visitor kind)")
      case (Some f)
      with idle [of kind t] obtain t' where "f t node key parent path ancestors = (Idle, t')" by blast
      with Some show ?thesis by (simp add: leave_node_def perform_def VNode)
    qed (simp add: leave_node_def perform_def VNode)
    show ?thesis
    proof (cases "enter_fn (visitor kind)")
      case None
      have "fold (perform visitor) (calls vkeys key parent path ancestors node) s
          = perform visitor (Leave node key parent path ancestors) (fold (perform visitor) below s)"
        using enter None unfolding calls by (simp add: VNode)
      with leave down [of s] show ?thesis using None by (simp add: VNode)
    next
      case (Some f)
      with idle [of kind s] obtain t where "f s node key parent path ancestors = (Idle, t)" by blast
      note f = this
      have "fold (perform visitor) (calls vkeys key parent path ancestors node) s
          = perform visitor (Leave node key parent path ancestors) (fold (perform visitor) below t)"
        using enter f Some unfolding calls by (simp add: VNode)
      with leave down [of t] show ?thesis using Some f by (simp add: VNode)
    qed
  next
    case VNone
    with visitable_shape [OF Suc.prems(1)] show ?thesis by simp
  next
    case (VAtom x)
    with visitable_shape [OF Suc.prems(1)] show ?thesis by simp
  next
    case VRemove
    with visitable_shape [OF Suc.prems(1)] show ?thesis by simp
  qed
qed simp

text \<open>
  C16.  A visitor whose methods only look (they change the state of the visitor and return \<open>IDLE\<close>) has its
  methods called for every node exactly as \<open>calls\<close> lists them: \<open>enter\<close> on the way down and \<open>leave\<close> on
  the way up, children in the order of the visitor keys, each with its key, its parent, the path
  from the root and all values above the parent.  The result is the root itself.
\<close>

theorem visit_looks:
  assumes "only_looks visitor" and "visitable vkeys root" and "is_node root"
  shows "visit root visitor vkeys s n
    = Some (fold (perform visitor) (calls vkeys None None [] [] root) s, Inr root)"
  using visit_walk [OF walk_looks [OF assms(1,2) lessI disjI1 [OF refl]] assms(3)]
  by (simp add: walk_result_def final_value_def)

lemma visit_looks_witness:
  "visit example_tree noting_visitor QUERY_DOCUMENT_KEYS [] 7
    = Some ([(True, ''document''), (True, ''operation_definition''), (True, ''selection_set''),
             (True, ''field''), (True, ''name''), (False, ''field''),
             (True, ''field''), (True, ''name''), (False, ''field''),
             (False, ''selection_set''), (False, ''operation_definition''), (False, ''document'')],
        Inr example_tree)"
proof -
  have "visit example_tree noting_visitor QUERY_DOCUMENT_KEYS [] 7
    = Some (fold (perform noting_visitor) (calls QUERY_DOCUMENT_KEYS None None [] [] example_tree) [],
        Inr example_tree)"
  proof (rule visit_looks)
    show "only_looks noting_visitor" by (auto simp: only_looks_def noting_visitor_def)
    show "visitable QUERY_DOCUMENT_KEYS example_tree" by code_simp
    show "is_node example_tree" by (simp add: example_tree_def)
  qed
  moreover have "fold (perform noting_visitor) (calls QUERY_DOCUMENT_KEYS None None [] [] example_tree) []
    = [(True, ''document''), (True, ''operation_definition''), (True, ''selection_set''),
             (True, ''field''), (True, ''name''), (False, ''field''),
             (True, ''field''), (True, ''name''), (False, ''field''),
             (False, ''selection_set''), (False, ''operation_definition''), (False, ''document'')]"
    by code_simp
  ultimately show ?thesis by simp
qed

end
