(* ===== verification/Visitor_Rewrite.thy ===== *)
theory Visitor_Rewrite
  imports Visitor_Facts
begin

text \<open>
  Visitors that rewrite every node while leaving it, as the printer does: \<open>visit\<close> computes the bottom-up
  map of the tree.
\<close>

section \<open>The bottom-up map\<close>

function bottom_up ::
  "visitor_keys \<Rightarrow> (string \<Rightarrow> (string \<times> ast_value) list \<Rightarrow> ast_value) \<Rightarrow> ast_value \<Rightarrow> ast_value" where
  "bottom_up vkeys g (VNode i kind as) =
     g kind (map (\<lambda>(a, v). (a, if a \<in> set (vkeys kind) then bottom_up vkeys g v else v)) as)"
| "bottom_up vkeys g (VTuple vs) = VTuple (map (bottom_up vkeys g) vs)"
| "bottom_up vkeys g VNone = VNone"
| "bottom_up vkeys g (VAtom x) = VAtom x"
| "bottom_up vkeys g VRemove = VRemove"
  by pat_completeness auto
termination
proof (relation "measure (\<lambda>(vkeys, g, v). size v)", goal_cases)
  case (2 vkeys g i kind as av a v)
  then have "(a, v) \<in> set as" by auto
  then have "size v < Suc (size_list (size_prod (\<lambda>x. 0) size) as)"
    by (induction as) auto
  then show ?case by simp
next
  case (3 vkeys g vs v)
  then show ?case using size_list_estimation' [of v vs "size v" size] by simp
qed simp

text \<open>A visitor with one \<open>leave\<close> method for all kinds, which replaces the node.\<close>

definition rewriter :: "(string \<Rightarrow> (string \<times> ast_value) list \<Rightarrow> ast_value) \<Rightarrow> 's visitor" where
  "rewriter g kind = \<lparr>enter_fn = None,
     leave_fn = Some (\<lambda>s node key parent path ancestors. (Edit (g (node_kind node) (node_attrs node)), s))\<rparr>"

lemma rewriter_simps [simp]:
  "enter_fn (rewriter g kind) = None"
  "leave_fn (rewriter g kind)
    = Some (\<lambda>s node key parent path ancestors. (Edit (g (node_kind node) (node_attrs node)), s))"
  by (simp_all add: rewriter_def)

text \<open>The trees of the class: attributes have different names, as the fields of a class have.\<close>

function rewritable :: "visitor_keys \<Rightarrow> ast_value \<Rightarrow> bool" where
  "rewritable vkeys v \<longleftrightarrow>
     (is_node v \<or> is_tuple v) \<and> distinct (map fst (node_attrs_of v)) \<and> distinct (map fst (children vkeys v))
     \<and> (\<forall>(k, u) \<in> set (children vkeys v). u = VNone \<or> rewritable vkeys u)"
  by pat_completeness auto
termination
  by (relation "measure (\<lambda>(vkeys, v). size v)") (auto dest: child_size)

declare rewritable.simps [simp del]

text \<open>Values with a node in them: the others are left alone.\<close>

fun has_nodes :: "ast_value \<Rightarrow> bool" where
  "has_nodes (VNode i k as) = True"
| "has_nodes (VTuple vs) = (\<exists>v \<in> set vs. has_nodes v)"
| "has_nodes _ = False"

lemma bottom_up_without_nodes: "\<not> has_nodes v \<Longrightarrow> bottom_up vkeys g v = v"
  by (induction v) (auto simp: map_idI)

definition child_edits ::
  "visitor_keys \<Rightarrow> (string \<Rightarrow> (string \<times> ast_value) list \<Rightarrow> ast_value) \<Rightarrow> (key \<times> ast_value) list \<Rightarrow> edits" where
  "child_edits vkeys g kids =
     concat (map (\<lambda>(k, v). if has_nodes v then [(Some k, bottom_up vkeys g v)] else []) kids)"

lemma child_edits_simps [simp]:
  "child_edits vkeys g [] = []"
  "child_edits vkeys g ((k, v) # kids) =
     (if has_nodes v then (Some k, bottom_up vkeys g v) # child_edits vkeys g kids else child_edits vkeys g kids)"
  by (simp_all add: child_edits_def)

section \<open>Applying the edits of a level\<close>

lemma edit_items_bottom_up:
  assumes "\<forall>v \<in> set vs. bottom_up vkeys g v \<noteq> VRemove"
  shows "edit_items (us @ vs) 0 (child_edits vkeys g (zip (map KIdx [length us..<length us + length vs]) vs))
    = Inr (us @ map (bottom_up vkeys g) vs)"
  using assms
proof (induction vs arbitrary: us)
  case (Cons v vs)
  let ?b = "bottom_up vkeys g v"
  have zip: "zip (map KIdx [length us..<length us + length (v # vs)]) (v # vs)
      = (KIdx (length us), v) # zip (map KIdx [length (us @ [?b])..<length (us @ [?b]) + length vs]) vs"
    using upt_conv_Cons [of "length us" "length us + length (v # vs)"] by (simp del: upt_Suc)
  have set: "py_set (us @ v # vs) (int (length us)) ?b = Inr ((us @ [?b]) @ vs)"
    by (simp add: py_set_def)
  from Cons.prems Cons.IH [of "us @ [?b]"] bottom_up_without_nodes [of v vkeys g] show ?case
    unfolding zip by (cases "has_nodes v") (simp_all add: set)
qed simp

lemma map_of_child_edits:
  assumes "distinct (map fst kids)"
  shows "map_of (rev (child_edits vkeys g kids)) (Some k) =
    (case map_of kids k of None \<Rightarrow> None | Some v \<Rightarrow> if has_nodes v then Some (bottom_up vkeys g v) else None)"
  using assms
proof (induction kids)
  case (Cons kv kids)
  obtain k' v where kv: "kv = (k', v)" by (cases kv)
  have "map_of kids k' = None" using Cons.prems by (simp add: kv map_of_eq_None_iff)
  with Cons show ?case
    by (auto simp: kv map_add_def split: option.split)
qed simp

lemma map_of_node_children:
  "map_of (map (\<lambda>a. (KAttr a, f a)) names) (KAttr b) = (if b \<in> set names then Some (f b) else None)"
  by (induction names) auto

lemma edit_attrs_bottom_up:
  assumes "distinct (map fst as)" and "distinct (map fst (children vkeys (VNode i kind as)))"
  shows "edit_attrs as (child_edits vkeys g (children vkeys (VNode i kind as)))
    = Inr (map (\<lambda>(a, v). (a, if a \<in> set (vkeys kind) then bottom_up vkeys g v else v)) as)"
proof -
  let ?kids = "children vkeys (VNode i kind as)"
  have keys: "\<exists>a \<in> set (map fst as). k = Some (KAttr a)" if "(k, v) \<in> set (child_edits vkeys g ?kids)" for k v
  proof -
    from that obtain a where a: "k = Some (KAttr a)" "has_nodes (getattr_or_none as a)"
      by (auto simp: child_edits_def split: if_splits)
    then have "map_of as a \<noteq> None" by (auto simp: getattr_or_none_def split: option.splits)
    with a(1) show ?thesis by (auto simp: map_of_eq_None_iff)
  qed
  have "(case map_of (rev (child_edits vkeys g ?kids)) (Some (KAttr a)) of Some w \<Rightarrow> w | None \<Rightarrow> v)
      = (if a \<in> set (vkeys kind) then bottom_up vkeys g v else v)" if "(a, v) \<in> set as" for a v
  proof -
    from that assms(1) have "getattr_or_none as a = v" by (simp add: getattr_or_none_def)
    then show ?thesis
      using map_of_child_edits [OF assms(2), of vkeys g "KAttr a"] bottom_up_without_nodes [of v vkeys g]
      by (simp add: map_of_node_children)
  qed
  with keys show ?thesis by (auto simp: edit_attrs_def)
qed

section \<open>The traversal\<close>

lemma walk_list_rewrites:
  assumes "\<And>k v edits s n. (k, v) \<in> set kids \<Longrightarrow> v \<noteq> VNone \<Longrightarrow>
      \<exists>n'. f k v edits s n = Some (Going (edits @ (if has_nodes v then [(Some k, bottom_up vkeys g v)] else [])) s n')"
  shows "\<exists>n'. walk_list f kids edits s n = Some (Going (edits @ child_edits vkeys g kids) s n')"
  using assms
proof (induction kids arbitrary: edits n)
  case (Cons kv kids)
  obtain k v where kv: "kv = (k, v)" by (cases kv)
  show ?case
  proof (cases "v = VNone")
    case True
    with Cons kv show ?thesis by simp
  next
    case False
    with Cons.prems [of k v edits s n] kv obtain n' where
      "f k v edits s n = Some (Going (edits @ (if has_nodes v then [(Some k, bottom_up vkeys g v)] else [])) s n')"
      by auto
    with False Cons.prems Cons.IH [of "edits @ (if has_nodes v then [(Some k, bottom_up vkeys g v)] else [])" n']
    show ?thesis by (auto simp: kv)
  qed
qed simp

lemma rewritable_parts:
  "rewritable vkeys v \<Longrightarrow> is_node v \<or> is_tuple v"
  "rewritable vkeys v \<Longrightarrow> distinct (map fst (node_attrs_of v)) \<and> distinct (map fst (children vkeys v))"
  "rewritable vkeys v \<Longrightarrow> (k, u) \<in> set (children vkeys v) \<Longrightarrow> u = VNone \<or> rewritable vkeys u"
  by (subst (asm) rewritable.simps, auto)+

lemma bottom_up_kept:
  assumes "\<forall>kind as. g kind as \<noteq> VRemove" and "u = VNone \<or> is_node u \<or> is_tuple u"
  shows "bottom_up vkeys g u \<noteq> VRemove"
  using assms by (cases u) auto

text \<open>A level: the edits of the children, applied, give the value with its children rewritten.\<close>

lemma apply_child_edits_tuple:
  assumes "\<forall>kind as. g kind as \<noteq> VRemove" and "rewritable vkeys (VTuple vs)"
  shows "apply_edits True (VTuple vs) (child_edits vkeys g (children vkeys (VTuple vs))) n
    = Inr (bottom_up vkeys g (VTuple vs), n)"
proof -
  have "bottom_up vkeys g v \<noteq> VRemove" if "v \<in> set vs" for v
  proof -
    from that obtain k where "(k, v) \<in> set (children vkeys (VTuple vs))"
      by (auto simp: in_set_conv_nth set_zip)
    with rewritable_parts(1,3) assms(2) have "v = VNone \<or> is_node v \<or> is_tuple v" by blast
    with assms(1) show ?thesis by (rule bottom_up_kept)
  qed
  with edit_items_bottom_up [of vs vkeys g "[]"] show ?thesis by (simp add: apply_edits_def)
qed

lemma child_edits_empty_tuple:
  "child_edits vkeys g (children vkeys (VTuple vs)) = [] \<longleftrightarrow> \<not> has_nodes (VTuple vs)"
  by (fastforce simp: child_edits_def set_zip in_set_conv_nth split: if_splits)

lemma walk_rewrites:
  assumes "\<forall>kind as. g kind as \<noteq> VRemove"
  shows "rewritable vkeys node \<Longrightarrow> size node < fuel \<Longrightarrow>
     \<exists>n'. walk fuel (rewriter g) vkeys root key parent path ancestors node edits s n
       = Some (Going (edits @ (if has_nodes node then [(key, bottom_up vkeys g node)] else [])) s n')"
proof (induction fuel arbitrary: key parent path ancestors node edits s n)
  case (Suc fuel)
  define anc where "anc = (if truthy_parent parent then ancestors @ [the parent] else ancestors)"
  let ?below = "child_edits vkeys g (children vkeys node)"
  have "\<exists>n'. walk_list (\<lambda>k. walk fuel (rewriter g) vkeys root (Some k) (Some node) (path @ [k]) anc)
      (children vkeys node) [] s n = Some (Going ([] @ ?below) s n')"
  proof (rule walk_list_rewrites)
    fix k v edits n and t :: 'a
    assume kv: "(k, v) \<in> set (children vkeys node)" "v \<noteq> VNone"
    show "\<exists>n'. walk fuel (rewriter g) vkeys root (Some k) (Some node) (path @ [k]) anc v edits t n
      = Some (Going (edits @ (if has_nodes v then [(Some k, bottom_up vkeys g v)] else [])) t n')"
      using Suc.IH rewritable_parts(3) [OF Suc.prems(1) kv(1)] kv(2) child_size [OF kv(1)] Suc.prems(2) by simp
  qed
  then obtain n1 where kids:
    "walk_list (\<lambda>k. walk fuel (rewriter g) vkeys root (Some k) (Some node) (path @ [k]) anc)
      (children vkeys node) [] s n = Some (Going ?below s n1)" by auto
  show ?case
  proof (cases node)
    case (VTuple vs)
    have "has_nodes node \<longleftrightarrow> ?below \<noteq> []" using child_edits_empty_tuple [of vkeys g vs] VTuple by simp
    moreover have "apply_edits True node ?below n1 = Inr (bottom_up vkeys g node, n1)"
      using apply_child_edits_tuple assms Suc.prems(1) VTuple by simp
    ultimately show ?thesis using kids VTuple
      by (auto simp: walk_below_def leave_node_def Let_def simp flip: anc_def)
  next
    case (VNode i kind as)
    have attrs: "edit_attrs as ?below
        = Inr (map (\<lambda>(a, v). (a, if a \<in> set (vkeys kind) then bottom_up vkeys g v else v)) as)"
      using edit_attrs_bottom_up rewritable_parts(2) [OF Suc.prems(1)] VNode by simp
    then have "?below = [] \<Longrightarrow> map (\<lambda>(a, v). (a, if a \<in> set (vkeys kind) then bottom_up vkeys g v else v)) as = as"
      by (simp add: edit_attrs_def case_prod_unfold map_idI)
    with attrs kids VNode show ?thesis
      by (auto simp: walk_below_def leave_node_def apply_edits_def Let_def simp flip: anc_def)
  qed (use rewritable_parts(1) [OF Suc.prems(1)] in simp_all)
qed simp

text \<open>
  C17.  A visitor whose \<open>leave\<close> method replaces every node by a value computed from its kind and its
  attributes makes \<open>visit\<close> compute the bottom-up map: the method sees the attributes already
  rewritten, tuples are rewritten item by item, attributes that are no visitor keys are kept, and
  the state of the visitor does not change.
\<close>

theorem visit_rewrites:
  assumes "\<forall>kind as. g kind as \<noteq> VRemove" and "rewritable vkeys root" and "is_node root"
  shows "visit root (rewriter g) vkeys s n = Some (s, Inr (bottom_up vkeys g root))"
proof -
  from assms(3) have "has_nodes root" by (cases root) auto
  with walk_rewrites [OF assms(1,2) lessI, of root None None "[]" "[]" "[]" s n] obtain n' where
    "walk (Suc (size root)) (rewriter g) vkeys root None None [] [] root [] s n
      = Some (Going [(None, bottom_up vkeys g root)] s n')" by (auto simp del: walk.simps)
  from visit_walk [OF this assms(3)] show ?thesis by (simp add: walk_result_def final_value_def)
qed

text \<open>A printer of the kind: the attributes of the visitor keys are strings already.\<close>

fun text_of :: "ast_value \<Rightarrow> pystr" where
  "text_of (VAtom x) = x"
| "text_of (VTuple vs) = concat (map text_of vs)"
| "text_of _ = []"

definition example_print :: "string \<Rightarrow> (string \<times> ast_value) list \<Rightarrow> ast_value" where
  "example_print kind as =
     (if kind = ''name'' then getattr_or_none as ''value''
      else if kind = ''field'' then VAtom (str ''<'' @ text_of (getattr_or_none as ''name'') @ str ''>'')
      else if kind = ''selection_set'' then VAtom (text_of (getattr_or_none as ''selections''))
      else if kind = ''operation_definition'' then VAtom (text_of (getattr_or_none as ''selection_set''))
      else VAtom (text_of (getattr_or_none as ''definitions'')))"

lemma visit_rewrites_witness:
  "visit example_tree (rewriter (\<lambda>kind as. VAtom (text_of (example_print kind as)))) QUERY_DOCUMENT_KEYS () 7
    = Some ((), Inr (VAtom (str ''<a><b>'')))"
proof -
  let ?g = "\<lambda>kind as. VAtom (text_of (example_print kind as))"
  have "visit example_tree (rewriter ?g) QUERY_DOCUMENT_KEYS () 7
    = Some ((), Inr (bottom_up QUERY_DOCUMENT_KEYS ?g example_tree))"
  proof (rule visit_rewrites)
    show "\<forall>kind as. ?g kind as \<noteq> VRemove" by simp
    show "rewritable QUERY_DOCUMENT_KEYS example_tree" by code_simp
    show "is_node example_tree" by (simp add: example_tree_def)
  qed
  moreover have "bottom_up QUERY_DOCUMENT_KEYS ?g example_tree = VAtom (str ''<a><b>'')" by code_simp
  ultimately show ?thesis by simp
qed

end
