(* ===== verification/Visitor_Parallel.thy ===== *)
theory Visitor_Parallel
  imports Visitor_Rewrite
begin

text \<open>
  \<open>ParallelVisitor\<close> (\<open>language/visitor.py\<close>): many visitors in one traversal.  Each visitor has its own state
  and its own mark, the entry of the list \<open>skipping\<close>.
\<close>

section \<open>The visitor\<close>

text \<open>\<open>skipping[i]\<close>: \<open>None\<close>, the node whose subtree the visitor skips, or \<open>BREAK\<close>.\<close>

datatype mark = Active | Skipping nat | Broken

type_synonym 's lane = "'s \<times> mark"

text \<open>The loops of the methods \<open>enter\<close> and \<open>leave\<close>; the first edit, or exception, ends them.\<close>

fun parallel_enter :: "'s handler option list \<Rightarrow> 's lane list handler" where
  "parallel_enter (fn # fns) ((s, m) # lanes) node key parent path ancestors =
     (let go_on = (\<lambda>lane. case parallel_enter fns lanes node key parent path ancestors of
        (result, lanes) \<Rightarrow> (result, lane # lanes)) in
      if m = Active \<and> fn \<noteq> None then
        (case the fn s node key parent path ancestors of (result, s) \<Rightarrow>
           case result of
             Skip \<Rightarrow> go_on (s, Skipping (node_id node))
           | Break \<Rightarrow> go_on (s, Broken)
           | Idle \<Rightarrow> go_on (s, Active)
           | _ \<Rightarrow> (result, (s, Active) # lanes))
      else go_on (s, m))"
| "parallel_enter _ lanes node key parent path ancestors = (Idle, lanes)"

fun parallel_leave :: "'s handler option list \<Rightarrow> 's lane list handler" where
  "parallel_leave (fn # fns) ((s, m) # lanes) node key parent path ancestors =
     (let go_on = (\<lambda>lane. case parallel_leave fns lanes node key parent path ancestors of
        (result, lanes) \<Rightarrow> (result, lane # lanes)) in
      if m = Active then
        (case fn of
           None \<Rightarrow> go_on (s, Active)
         | Some f \<Rightarrow>
             (case f s node key parent path ancestors of (result, s) \<Rightarrow>
                case result of
                  Break \<Rightarrow> go_on (s, Broken)
                | Idle \<Rightarrow> go_on (s, Active)
                | Skip \<Rightarrow> go_on (s, Active)
                | _ \<Rightarrow> (result, (s, Active) # lanes)))
      else if m = Skipping (node_id node) then go_on (s, Active)
      else go_on (s, m))"
| "parallel_leave _ lanes node key parent path ancestors = (Idle, lanes)"

text \<open>\<open>ParallelVisitor.get_enter_leave_for_kind\<close>\<close>

definition has_visitor :: "'s visitor list \<Rightarrow> string \<Rightarrow> bool" where
  "has_visitor visitors kind \<longleftrightarrow>
     (\<exists>visitor \<in> set visitors. enter_fn (visitor kind) \<noteq> None \<or> leave_fn (visitor kind) \<noteq> None)"

definition parallel_visitor :: "'s visitor list \<Rightarrow> 's lane list visitor" where
  "parallel_visitor visitors kind =
     (let enter_list = map (\<lambda>visitor. enter_fn (visitor kind)) visitors;
          leave_list = map (\<lambda>visitor. leave_fn (visitor kind)) visitors
      in if has_visitor visitors kind
         then \<lparr>enter_fn = Some (parallel_enter enter_list), leave_fn = Some (parallel_leave leave_list)\<rparr>
         else \<lparr>enter_fn = None, leave_fn = None\<rparr>)"

text \<open>\<open>ParallelVisitor.__init__\<close>: nobody skips.\<close>

definition parallel_init :: "'s list \<Rightarrow> 's lane list" where
  "parallel_init states = map (\<lambda>s. (s, Active)) states"

section \<open>One lane\<close>

text \<open>Visitors that neither edit nor raise: they look, skip and break.\<close>

definition never_edits :: "'s visitor \<Rightarrow> bool" where
  "never_edits visitor \<longleftrightarrow>
     (\<forall>kind f. enter_fn (visitor kind) = Some f \<or> leave_fn (visitor kind) = Some f \<longrightarrow>
        (\<forall>s node key parent path ancestors. fst (f s node key parent path ancestors) \<in> {Idle, Skip, Break}))"

text \<open>What a call does to one visitor and its mark.\<close>

fun lane_enter :: "'s handler option \<Rightarrow> 's lane \<Rightarrow> ast_value \<Rightarrow> key option \<Rightarrow> ast_value option \<Rightarrow> key list
    \<Rightarrow> ast_value list \<Rightarrow> 's lane" where
  "lane_enter (Some f) (s, Active) node key parent path ancestors =
     (case f s node key parent path ancestors of (result, s) \<Rightarrow>
        (s, case result of Skip \<Rightarrow> Skipping (node_id node) | Break \<Rightarrow> Broken | _ \<Rightarrow> Active))"
| "lane_enter _ lane node key parent path ancestors = lane"

fun lane_leave :: "'s handler option \<Rightarrow> 's lane \<Rightarrow> ast_value \<Rightarrow> key option \<Rightarrow> ast_value option \<Rightarrow> key list
    \<Rightarrow> ast_value list \<Rightarrow> 's lane" where
  "lane_leave None (s, Active) node key parent path ancestors = (s, Active)"
| "lane_leave (Some f) (s, Active) node key parent path ancestors =
     (case f s node key parent path ancestors of (result, s) \<Rightarrow> (s, if result = Break then Broken else Active))"
| "lane_leave fn (s, Skipping i) node key parent path ancestors =
     (s, if i = node_id node then Active else Skipping i)"
| "lane_leave fn (s, Broken) node key parent path ancestors = (s, Broken)"

definition lane_step :: "'s visitor list \<Rightarrow> 's visitor \<Rightarrow> call \<Rightarrow> 's lane \<Rightarrow> 's lane" where
  "lane_step visitors visitor c lane =
     (case c of
        Enter node key parent path ancestors \<Rightarrow>
          if has_visitor visitors (node_kind node)
          then lane_enter (enter_fn (visitor (node_kind node))) lane node key parent path ancestors else lane
      | Leave node key parent path ancestors \<Rightarrow>
          if has_visitor visitors (node_kind node)
          then lane_leave (leave_fn (visitor (node_kind node))) lane node key parent path ancestors else lane)"

lemma never_edits_enter:
  assumes "never_edits visitor" and "enter_fn (visitor kind) = Some f"
  shows "\<exists>result t. f s node key parent path ancestors = (result, t) \<and> result \<in> {Idle, Skip, Break}"
  using assms unfolding never_edits_def by (metis prod.collapse)

lemma never_edits_leave:
  assumes "never_edits visitor" and "leave_fn (visitor kind) = Some f"
  shows "\<exists>result t. f s node key parent path ancestors = (result, t) \<and> result \<in> {Idle, Skip, Break}"
  using assms unfolding never_edits_def by (metis prod.collapse)

lemma parallel_enter_lanes:
  assumes "\<forall>visitor \<in> set visitors. never_edits visitor" and "length lanes = length visitors"
  shows "parallel_enter (map (\<lambda>visitor. enter_fn (visitor kind)) visitors) lanes node key parent path ancestors
    = (Idle, map2 (\<lambda>visitor lane. lane_enter (enter_fn (visitor kind)) lane node key parent path ancestors)
        visitors lanes)"
  using assms
proof (induction visitors arbitrary: lanes)
  case (Cons visitor visitors)
  obtain s m lanes' where lanes: "lanes = (s, m) # lanes'" using Cons.prems(2) by (cases lanes) auto
  with Cons have rest: "parallel_enter (map (\<lambda>visitor. enter_fn (visitor kind)) visitors) lanes' node key parent path ancestors
    = (Idle, map2 (\<lambda>visitor lane. lane_enter (enter_fn (visitor kind)) lane node key parent path ancestors)
        visitors lanes')" by simp
  show ?case
  proof (cases "enter_fn (visitor kind)")
    case None
    then show ?thesis using rest lanes by (simp add: Let_def)
  next
    case (Some f)
    with never_edits_enter [of visitor kind f s node key parent path ancestors] Cons.prems(1) obtain result t where
      "f s node key parent path ancestors = (result, t)" "result \<in> {Idle, Skip, Break}" by auto
    then show ?thesis using rest lanes Some by (cases m) (auto simp: Let_def)
  qed
qed simp

lemma parallel_leave_lanes:
  assumes "\<forall>visitor \<in> set visitors. never_edits visitor" and "length lanes = length visitors"
  shows "parallel_leave (map (\<lambda>visitor. leave_fn (visitor kind)) visitors) lanes node key parent path ancestors
    = (Idle, map2 (\<lambda>visitor lane. lane_leave (leave_fn (visitor kind)) lane node key parent path ancestors)
        visitors lanes)"
  using assms
proof (induction visitors arbitrary: lanes)
  case (Cons visitor visitors)
  obtain s m lanes' where lanes: "lanes = (s, m) # lanes'" using Cons.prems(2) by (cases lanes) auto
  with Cons have rest: "parallel_leave (map (\<lambda>visitor. leave_fn (visitor kind)) visitors) lanes' node key parent path ancestors
    = (Idle, map2 (\<lambda>visitor lane. lane_leave (leave_fn (visitor kind)) lane node key parent path ancestors)
        visitors lanes')" by simp
  show ?case
  proof (cases "leave_fn (visitor kind)")
    case None
    then show ?thesis using rest lanes by (cases m) (auto simp: Let_def)
  next
    case (Some f)
    with never_edits_leave [of visitor kind f s node key parent path ancestors] Cons.prems(1) obtain result t where
      "f s node key parent path ancestors = (result, t)" "result \<in> {Idle, Skip, Break}" by auto
    then show ?thesis using rest lanes Some by (cases m) (auto simp: Let_def)
  qed
qed simp

lemma map2_snd: "length xs = length ys \<Longrightarrow> map2 (\<lambda>x y. y) xs ys = ys"
  by (induction xs ys rule: list_induct2) simp_all

lemma perform_parallel:
  assumes "\<forall>visitor \<in> set visitors. never_edits visitor" and "length lanes = length visitors"
  shows "perform (parallel_visitor visitors) c lanes = map2 (\<lambda>visitor. lane_step visitors visitor c) visitors lanes"
  using parallel_enter_lanes [OF assms] parallel_leave_lanes [OF assms] map2_snd [OF assms(2) [symmetric]]
  by (cases c) (auto simp: perform_def lane_step_def parallel_visitor_def Let_def)

lemma map2_map2: "map2 f xs (map2 g xs ys) = map2 (\<lambda>x y. f x (g x y)) xs ys"
proof (induction xs arbitrary: ys)
  case (Cons x xs)
  then show ?case by (cases ys) simp_all
qed simp

lemma fold_parallel:
  assumes "\<forall>visitor \<in> set visitors. never_edits visitor" and "length lanes = length visitors"
  shows "fold (perform (parallel_visitor visitors)) cs lanes
    = map2 (\<lambda>visitor. fold (lane_step visitors visitor) cs) visitors lanes"
  using assms(2)
proof (induction cs arbitrary: lanes)
  case Nil
  then show ?case by (simp add: map2_snd)
next
  case (Cons c cs)
  from Cons.prems have "fold (perform (parallel_visitor visitors)) (c # cs) lanes
      = fold (perform (parallel_visitor visitors)) cs (map2 (\<lambda>visitor. lane_step visitors visitor c) visitors lanes)"
    by (simp add: perform_parallel [OF assms(1)])
  also have "\<dots> = map2 (\<lambda>visitor. fold (lane_step visitors visitor) cs) visitors
      (map2 (\<lambda>visitor. lane_step visitors visitor c) visitors lanes)"
    using Cons.prems by (intro Cons.IH) simp
  finally show ?case by (simp add: map2_map2)
qed

lemma parallel_enter_idle:
  assumes "\<forall>visitor \<in> set visitors. never_edits visitor"
  shows "fst (parallel_enter (map (\<lambda>visitor. enter_fn (visitor kind)) visitors) lanes node key parent path ancestors)
    = Idle"
  using assms
proof (induction visitors arbitrary: lanes)
  case (Cons visitor visitors)
  show ?case
  proof (cases lanes)
    case (Cons lane lanes')
    obtain s m where lane: "lane = (s, m)" by (cases lane)
    note IH = Cons.IH [of lanes'] and step = \<open>lanes = lane # lanes'\<close>
    show ?thesis
    proof (cases "enter_fn (visitor kind)")
      case None
      then show ?thesis using IH Cons.prems by (simp add: step lane split_beta)
    next
      case (Some f)
      with never_edits_enter [of visitor kind f s node key parent path ancestors] Cons.prems obtain result t where
        "f s node key parent path ancestors = (result, t)" "result \<in> {Idle, Skip, Break}" by auto
      then show ?thesis using IH Cons.prems Some by (auto simp: step lane split_beta)
    qed
  qed simp
qed simp

lemma parallel_leave_idle:
  assumes "\<forall>visitor \<in> set visitors. never_edits visitor"
  shows "fst (parallel_leave (map (\<lambda>visitor. leave_fn (visitor kind)) visitors) lanes node key parent path ancestors)
    = Idle"
  using assms
proof (induction visitors arbitrary: lanes)
  case (Cons visitor visitors)
  show ?case
  proof (cases lanes)
    case (Cons lane lanes')
    obtain s m where lane: "lane = (s, m)" by (cases lane)
    note IH = Cons.IH [of lanes'] and step = \<open>lanes = lane # lanes'\<close>
    show ?thesis
    proof (cases "leave_fn (visitor kind)")
      case None
      then show ?thesis using IH Cons.prems by (simp add: step lane split_beta)
    next
      case (Some f)
      with never_edits_leave [of visitor kind f s node key parent path ancestors] Cons.prems obtain result t where
        "f s node key parent path ancestors = (result, t)" "result \<in> {Idle, Skip, Break}" by auto
      then show ?thesis using IH Cons.prems Some by (auto simp: step lane split_beta)
    qed
  qed simp
qed simp

lemma parallel_only_looks:
  assumes "\<forall>visitor \<in> set visitors. never_edits visitor"
  shows "only_looks (parallel_visitor visitors)"
  using parallel_enter_idle [OF assms] parallel_leave_idle [OF assms]
  by (auto simp: only_looks_def parallel_visitor_def Let_def split: if_splits)

section \<open>A lane and the run of its visitor\<close>

text \<open>The identities of the nodes that are visited in a value; no node is below itself.\<close>

function node_ids :: "visitor_keys \<Rightarrow> ast_value \<Rightarrow> nat list" where
  "node_ids vkeys v =
     (if is_node v then [node_id v] else [])
     @ concat (map (\<lambda>(k, u). if u = VNone then [] else node_ids vkeys u) (children vkeys v))"
  by pat_completeness auto
termination
  by (relation "measure (\<lambda>(vkeys, v). size v)") (auto dest: child_size)

declare node_ids.simps [simp del]

function no_cycles :: "visitor_keys \<Rightarrow> ast_value \<Rightarrow> bool" where
  "no_cycles vkeys v \<longleftrightarrow>
     (\<forall>(k, u) \<in> set (children vkeys v).
        u = VNone \<or> (is_node v \<longrightarrow> node_id v \<notin> set (node_ids vkeys u)) \<and> no_cycles vkeys u)"
  by pat_completeness auto
termination
  by (relation "measure (\<lambda>(vkeys, v). size v)") (auto dest: child_size)

declare no_cycles.simps [simp del]

lemma no_cycles_child:
  assumes "no_cycles vkeys v" and "(k, u) \<in> set (children vkeys v)" and "u \<noteq> VNone"
  shows "no_cycles vkeys u \<and> (is_node v \<longrightarrow> node_id v \<notin> set (node_ids vkeys u))"
  using assms by (subst (asm) no_cycles.simps) auto

fun call_node :: "call \<Rightarrow> ast_value" where
  "call_node (Enter node key parent path ancestors) = node"
| "call_node (Leave node key parent path ancestors) = node"

lemma calls_ids:
  "c \<in> set (calls vkeys key parent path ancestors v) \<Longrightarrow> node_id (call_node c) \<in> set (node_ids vkeys v)"
proof (induction vkeys key parent path ancestors v rule: calls.induct)
  case (1 vkeys key parent path ancestors node)
  define anc where "anc = (case parent of None \<Rightarrow> ancestors | Some p \<Rightarrow> ancestors @ [p])"
  define below where "below = concat (map (\<lambda>(k, v). if v = VNone then [] else
            calls vkeys (Some k) (Some node) (path @ [k]) anc v) (children vkeys node))"
  have calls: "calls vkeys key parent path ancestors node =
      (if is_node node then Enter node key parent path ancestors # below @ [Leave node key parent path ancestors]
       else below)"
    unfolding calls.simps [of vkeys key parent path ancestors node] Let_def below_def anc_def by (rule refl)
  have "node_id (call_node c) \<in> set (node_ids vkeys node)" if "c \<in> set below"
  proof -
    from that obtain k v where "(k, v) \<in> set (children vkeys node)" "v \<noteq> VNone"
      "c \<in> set (calls vkeys (Some k) (Some node) (path @ [k]) anc v)"
      by (auto simp: below_def split: if_splits)
    moreover from this 1(1) [OF anc_def, of "(k, v)" k v] have "node_id (call_node c) \<in> set (node_ids vkeys v)"
      by simp
    ultimately show ?thesis by (subst node_ids.simps) force
  qed
  with 1(2) show ?case unfolding calls by (auto simp: node_ids.simps [of vkeys node] split: if_splits)
qed

lemma lane_skipping:
  "\<forall>c \<in> set cs. node_id (call_node c) \<noteq> i \<Longrightarrow>
     fold (lane_step visitors visitor) cs (s, Skipping i) = (s, Skipping i)"
proof (induction cs)
  case (Cons c cs)
  then have "lane_step visitors visitor c (s, Skipping i) = (s, Skipping i)"
    by (cases c) (auto simp: lane_step_def)
  with Cons show ?case by simp
qed simp

lemma lane_broken: "fold (lane_step visitors visitor) cs (s, Broken) = (s, Broken)"
proof (induction cs)
  case (Cons c cs)
  have "lane_step visitors visitor c (s, Broken) = (s, Broken)"
    by (cases c) (auto simp: lane_step_def)
  with Cons show ?case by simp
qed simp

text \<open>What a lane and the run of the visitor alone have in common behind a value.\<close>

definition in_step :: "ast_value \<Rightarrow> bool \<Rightarrow> nat \<Rightarrow> 's walked option \<Rightarrow> 's lane \<Rightarrow> bool" where
  "in_step root at_root n w lane \<longleftrightarrow>
     (case lane of
        (s, Active) \<Rightarrow> w = Some (Going [] s n) \<or> (at_root \<and> (\<exists>r. w = Some (Halted s r)))
      | (s, Broken) \<Rightarrow> w = Some (Halted s (Inr root))
      | _ \<Rightarrow> False)"

lemma walk_list_in_step:
  assumes "\<And>k v s. (k, v) \<in> set kids \<Longrightarrow> v \<noteq> VNone \<Longrightarrow>
      in_step root False n (f k v [] s n) (fold h (g k v) (s, Active))"
    and "\<And>cs s. fold h cs (s, Broken) = (s, Broken)"
  shows "in_step root False n (walk_list f kids [] s n)
    (fold h (concat (map (\<lambda>(k, v). if v = VNone then [] else g k v) kids)) (s, Active))"
  using assms(1)
proof (induction kids arbitrary: s)
  case Nil
  then show ?case by (simp add: in_step_def)
next
  case (Cons kv kids)
  obtain k v where kv: "kv = (k, v)" by (cases kv)
  show ?case
  proof (cases "v = VNone")
    case True
    with Cons kv show ?thesis by simp
  next
    case False
    obtain t m where lane: "fold h (g k v) (s, Active) = (t, m)" by (cases "fold h (g k v) (s, Active)")
    with Cons.prems [of k v s] kv False have "in_step root False n (f k v [] s n) (t, m)" by simp
    with False kv lane Cons.IH [of t] Cons.prems show ?thesis
      by (cases m) (auto simp: in_step_def assms(2) split: prod.splits mark.splits)
  qed
qed

lemma walk_in_step:
  assumes quiet: "never_edits visitor" and among: "visitor \<in> set visitors"
  shows "visitable vkeys node \<Longrightarrow> no_cycles vkeys node \<Longrightarrow> size node < fuel
    \<Longrightarrow> parent = None \<or> truthy_parent parent \<Longrightarrow>
     in_step root (path = []) n (walk fuel visitor vkeys root key parent path ancestors node [] s n)
       (fold (lane_step visitors visitor) (calls vkeys key parent path ancestors node) (s, Active))"
proof (induction fuel arbitrary: key parent path ancestors node s)
  case (Suc fuel)
  define anc where "anc = (case parent of None \<Rightarrow> ancestors | Some p \<Rightarrow> ancestors @ [p])"
  define below where "below = concat (map (\<lambda>(k, v). if v = VNone then [] else
            calls vkeys (Some k) (Some node) (path @ [k]) anc v) (children vkeys node))"
  have anc: "(if truthy_parent parent then ancestors @ [the parent] else ancestors) = anc"
    using Suc.prems(4) by (auto simp: anc_def truthy_parent_def)
  have calls: "calls vkeys key parent path ancestors node =
      (if is_node node then Enter node key parent path ancestors # below @ [Leave node key parent path ancestors]
       else below)"
    unfolding calls.simps [of vkeys key parent path ancestors node] Let_def below_def anc_def by (rule refl)
  have kids: "in_step root False n
      (walk_list (\<lambda>k. walk fuel visitor vkeys root (Some k) (Some node) (path @ [k]) anc) (children vkeys node) [] s n)
      (fold (lane_step visitors visitor) below (s, Active))" for s
    unfolding below_def
  proof (rule walk_list_in_step)
    fix k v and t :: 'a
    assume kv: "(k, v) \<in> set (children vkeys node)" "v \<noteq> VNone"
    have "truthy_parent (Some node)" using kv(1) by (cases node) (auto simp: truthy_parent_def)
    with Suc.IH [of v "Some node" "path @ [k]" "Some k" anc t] child_size [OF kv(1)] Suc.prems(3)
      no_cycles_child [OF Suc.prems(2) kv] Suc.prems(1) kv
    show "in_step root False n (walk fuel visitor vkeys root (Some k) (Some node) (path @ [k]) anc v [] t n)
        (fold (lane_step visitors visitor) (calls vkeys (Some k) (Some node) (path @ [k]) anc v) (t, Active))"
      by (auto simp: visitable.simps [of vkeys node])
  qed (rule lane_broken)
  have other_ids: "\<forall>c \<in> set below. node_id (call_node c) \<noteq> node_id node" if "is_node node"
    using no_cycles_child [OF Suc.prems(2)] that
    by (fastforce simp: below_def dest!: calls_ids split: if_splits)
  let ?leave = "Leave node key parent path ancestors"
  show ?case
  proof (cases node)
    case (VTuple vs)
    obtain t m where lane: "fold (lane_step visitors visitor) below (s, Active) = (t, m)"
      by (cases "fold (lane_step visitors visitor) below (s, Active)")
    moreover have "calls vkeys key parent path ancestors (VTuple vs) = below" using calls VTuple by simp
    ultimately show ?thesis using kids [of s]
      by (cases m) (auto simp: VTuple in_step_def walk_below_def anc [symmetric, unfolded VTuple] Let_def leave_node_def)
  next
    case (VNode i kind attrs)
    have handled: "has_visitor visitors kind" if "enter_fn (visitor kind) \<noteq> None \<or> leave_fn (visitor kind) \<noteq> None"
      using that among by (auto simp: has_visitor_def)
    have down: "in_step root (path = []) n
        (walk_below (walk fuel visitor vkeys root) visitor vkeys root key parent path ancestors node [] t n)
        (lane_step visitors visitor ?leave (fold (lane_step visitors visitor) below (t, Active)))" for t
    proof -
      obtain u m where lane: "fold (lane_step visitors visitor) below (t, Active) = (u, m)"
        by (cases "fold (lane_step visitors visitor) below (t, Active)")
      show ?thesis
      proof (cases m)
        case Active
        with kids [of t] lane have "walk_below (walk fuel visitor vkeys root) visitor vkeys root key parent path ancestors node [] t n
            = Some (leave_node visitor root False key parent path ancestors node [] u n)"
          by (auto simp: in_step_def walk_below_def anc Let_def)
        moreover have "in_step root (path = []) n (Some (leave_node visitor root False key parent path ancestors node [] u n))
            (lane_step visitors visitor ?leave (u, Active))"
        proof (cases "leave_fn (visitor kind)")
          case None
          then show ?thesis by (simp add: VNode leave_node_def lane_step_def in_step_def)
        next
          case (Some f)
          with never_edits_leave [OF quiet Some, of u node key parent path ancestors] obtain result w where
            "f u node key parent path ancestors = (result, w)" "result \<in> {Idle, Skip, Break}" by blast
          with Some handled show ?thesis
            by (auto simp: VNode leave_node_def lane_step_def in_step_def Let_def final_value_def)
        qed
        ultimately show ?thesis using lane Active by simp
      next
        case Broken
        with kids [of t] lane show ?thesis
          by (auto simp: in_step_def walk_below_def anc Let_def lane_step_def)
      next
        case (Skipping j)
        with kids [of t] lane show ?thesis by (simp add: in_step_def)
      qed
    qed
    let ?enter = "Enter node key parent path ancestors"
    have whole: "fold (lane_step visitors visitor) (calls vkeys key parent path ancestors node) (s, Active)
        = lane_step visitors visitor ?leave (fold (lane_step visitors visitor) below
            (lane_step visitors visitor ?enter (s, Active)))"
      using calls VNode by simp
    show ?thesis
    proof (cases "enter_fn (visitor kind)")
      case None
      then have "lane_step visitors visitor ?enter (s, Active) = (s, Active)" by (simp add: lane_step_def VNode)
      then show ?thesis unfolding whole using down [of s] None by (simp add: VNode)
    next
      case (Some f)
      with never_edits_enter [OF quiet Some, of s node key parent path ancestors] obtain result t where
        f: "f s node key parent path ancestors = (result, t)" "result \<in> {Idle, Skip, Break}" by blast
      have hv: "has_visitor visitors kind" using handled Some by simp
      from f(2) consider "result = Idle" | "result = Skip" | "result = Break" by blast
      then show ?thesis
      proof cases
        case 1
        then have "lane_step visitors visitor ?enter (s, Active) = (t, Active)"
          using f(1) Some hv by (simp add: lane_step_def VNode)
        then show ?thesis unfolding whole using 1 down [of t] Some f(1) by (simp add: VNode)
      next
        case 2
        then have "lane_step visitors visitor ?enter (s, Active) = (t, Skipping i)"
          using f(1) Some hv by (simp add: lane_step_def VNode)
        moreover have "fold (lane_step visitors visitor) below (t, Skipping i) = (t, Skipping i)"
          using other_ids VNode by (intro lane_skipping) auto
        moreover have "lane_step visitors visitor ?leave (t, Skipping i) = (t, Active)"
          using hv by (simp add: lane_step_def VNode)
        ultimately show ?thesis unfolding whole using 2 Some f(1)
          by (auto simp: VNode in_step_def unvisited_def)
      next
        case 3
        then have "lane_step visitors visitor ?enter (s, Active) = (t, Broken)"
          using f(1) Some hv by (simp add: lane_step_def VNode)
        moreover have "lane_step visitors visitor ?leave (t, Broken) = (t, Broken)"
          using lane_broken [of visitors visitor "[?leave]" t] by simp
        ultimately show ?thesis unfolding whole using 3 Some f(1)
          by (simp add: VNode in_step_def final_value_def lane_broken)
      qed
    qed
  qed (use visitable_shape [OF Suc.prems(1)] in simp_all)
qed simp

text \<open>
  C14.  Visitors that only look, skip and break do not notice that they run together: after \<open>visit\<close> with a
  \<open>ParallelVisitor\<close> of them, each visitor is in the state in which a run of its own leaves it.  A visitor
  that skips a subtree misses exactly that subtree, one that breaks misses all the rest, and
  the others go on.
\<close>

theorem parallel_like_alone:
  assumes "\<forall>visitor \<in> set visitors. never_edits visitor" and "length states = length visitors"
    and "visitable vkeys root" and "no_cycles vkeys root" and "is_node root"
  shows "\<exists>lanes. visit root (parallel_visitor visitors) vkeys (parallel_init states) n = Some (lanes, Inr root)
    \<and> length lanes = length visitors
    \<and> (\<forall>i < length visitors. \<exists>result.
        visit root (visitors ! i) vkeys (states ! i) n = Some (fst (lanes ! i), result))"
proof -
  let ?calls = "calls vkeys None None [] [] root"
  define lanes where "lanes = map2 (\<lambda>visitor. fold (lane_step visitors visitor) ?calls) visitors (parallel_init states)"
  have "visit root (parallel_visitor visitors) vkeys (parallel_init states) n
      = Some (fold (perform (parallel_visitor visitors)) ?calls (parallel_init states), Inr root)"
    using visit_walk [OF walk_looks [OF parallel_only_looks [OF assms(1)] assms(3) lessI disjI1 [OF refl]] assms(5)]
    by (simp add: walk_result_def final_value_def)
  then have run: "visit root (parallel_visitor visitors) vkeys (parallel_init states) n = Some (lanes, Inr root)"
    using fold_parallel [OF assms(1)] assms(2) by (simp add: lanes_def parallel_init_def)
  have "\<exists>result. visit root (visitors ! i) vkeys (states ! i) n = Some (fst (lanes ! i), result)"
    if i: "i < length visitors" for i
  proof -
    have lane: "lanes ! i = fold (lane_step visitors (visitors ! i)) ?calls (states ! i, Active)"
      using i assms(2) by (simp add: lanes_def parallel_init_def)
    have "in_step root (([] :: key list) = []) n
        (walk (Suc (size root)) (visitors ! i) vkeys root None None [] [] root [] (states ! i) n) (lanes ! i)"
      unfolding lane using i assms by (intro walk_in_step) auto
    then obtain w where w: "walk (Suc (size root)) (visitors ! i) vkeys root None None [] [] root [] (states ! i) n = Some w"
      and "w = Going [] (fst (lanes ! i)) n \<or> (\<exists>r. w = Halted (fst (lanes ! i)) r)"
      by (cases "lanes ! i"; cases "snd (lanes ! i)") (auto simp: in_step_def simp del: walk.simps)
    then show ?thesis using visit_walk [OF w assms(5)] by (auto simp: walk_result_def)
  qed
  moreover have "length lanes = length visitors" using assms(2) by (simp add: lanes_def parallel_init_def)
  ultimately show ?thesis using run by blast
qed

text \<open>Two visitors: one skips the field \<open>a\<close>, the other breaks when it leaves a field.\<close>

definition is_field :: "string \<Rightarrow> ast_value \<Rightarrow> bool" where
  "is_field x node \<longleftrightarrow> node_kind node = ''field''
     \<and> getattr_or_none (node_attrs_of (getattr_or_none (node_attrs_of node) ''name'')) ''value'' = VAtom (str x)"

definition skipping_visitor :: "string list visitor" where
  "skipping_visitor kind =
     \<lparr>enter_fn = Some (\<lambda>s node key parent path ancestors.
        (if is_field ''a'' node then Skip else Idle, s @ [kind])),
      leave_fn = None\<rparr>"

definition breaking_visitor :: "string list visitor" where
  "breaking_visitor kind =
     \<lparr>enter_fn = Some (\<lambda>s node key parent path ancestors. (Idle, s @ [kind])),
      leave_fn = Some (\<lambda>s node key parent path ancestors. (if is_field ''a'' node then Break else Idle, s))\<rparr>"

lemma parallel_like_alone_witness:
  "\<exists>lanes. visit example_tree (parallel_visitor [skipping_visitor, breaking_visitor]) QUERY_DOCUMENT_KEYS
      (parallel_init [[], []]) 7 = Some (lanes, Inr example_tree)
    \<and> length lanes = length [skipping_visitor, breaking_visitor]
    \<and> (\<forall>i < length [skipping_visitor, breaking_visitor]. \<exists>result.
        visit example_tree ([skipping_visitor, breaking_visitor] ! i) QUERY_DOCUMENT_KEYS ([[], []] ! i) 7
          = Some (fst (lanes ! i), result))"
proof (rule parallel_like_alone)
  show "\<forall>visitor \<in> set [skipping_visitor, breaking_visitor]. never_edits visitor"
    by (auto simp: never_edits_def skipping_visitor_def breaking_visitor_def split: if_splits)
  show "visitable QUERY_DOCUMENT_KEYS example_tree" by code_simp
  show "no_cycles QUERY_DOCUMENT_KEYS example_tree" by code_simp
  show "is_node example_tree" by (simp add: example_tree_def)
qed simp

end
