(* ===== verification/Visitor_Corners.thy ===== *)
theory Visitor_Corners
  imports Visitor_Parallel
begin

text \<open>
  Corners of \<open>visit\<close> where the code does something else than its documentation says.
\<close>

section \<open>Actions at the root\<close>

text \<open>
  C19.  A visitor that skips the root, or replaces it by a value that is no node (\<open>REMOVE\<close> for example) while
  entering, makes \<open>visit\<close> raise \<open>IndexError\<close>: the key of the root is not on the path, but the code pops one.
\<close>

theorem visit_skips_root:
  assumes "is_node root" and "enter_fn (visitor (node_kind root)) = Some f"
    and "f s root None None [] [] = (result, s')"
    and "result = Skip \<or> (\<exists>w. result = Edit w \<and> \<not> is_node w)"
  shows "visit root visitor vkeys s n = Some (s', Inl IndexError)"
proof (cases root)
  case (VNode i kind attrs)
  with assms have "walk 1 visitor vkeys root None None [] [] root [] s n = Some (Halted s' (Inl IndexError))"
    by (auto simp: Let_def unvisited_def)
  from visit_walk [OF this assms(1)] show ?thesis by (simp add: walk_result_def)
qed (use assms(1) in simp_all)

lemma visit_skips_root_witness:
  "visit (field_of 3 ''a'') skipping_visitor QUERY_DOCUMENT_KEYS [] 7 = Some ([''field''], Inl IndexError)"
  by (rule visit_skips_root [where f = "\<lambda>s node key parent path ancestors.
        (if is_field ''a'' node then Skip else Idle, s @ [''field''])"])
    (auto simp: field_of_def name_of_def skipping_visitor_def is_field_def getattr_or_none_def)

section \<open>Edits that get lost, or get out\<close>

text \<open>Visitors that only act on the way up.\<close>

definition rename :: "ast_value \<Rightarrow> ast_value" where
  "rename node = VNode 50 ''name'' [(''value'', VAtom (str ''x''))]"

definition leave_with :: "(string \<Rightarrow> ast_value \<Rightarrow> action) \<Rightarrow> unit visitor" where
  "leave_with act kind = \<lparr>enter_fn = None, leave_fn = Some (\<lambda>s node key parent path ancestors. (act kind node, s))\<rparr>"


text \<open>
  \<open>BREAK\<close> is documented to stop the visit, and the result of \<open>visit\<close> is the new version of the tree.  When an
  edit is pending at the level of the node that breaks, the result is the edited sibling instead: here
  the field \<open>a\<close> is removed and the field \<open>b\<close> breaks, and the result is \<open>REMOVE\<close>.
\<close>

lemma break_returns_sibling:
  "visit example_tree (leave_with (\<lambda>kind node.
       if is_field ''a'' node then Edit VRemove else if is_field ''b'' node then Break else Idle)) QUERY_DOCUMENT_KEYS () 100
     = Some ((), Inr VRemove)"
proof -
  have "walk 9 (leave_with (\<lambda>kind node.
       if is_field ''a'' node then Edit VRemove else if is_field ''b'' node then Break else Idle))
     QUERY_DOCUMENT_KEYS example_tree None None [] [] example_tree [] () 100 = Some (Halted () (Inr VRemove))"
    by code_simp
  from visit_walk [OF this] show ?thesis by (simp add: walk_result_def example_tree_def)
qed

text \<open>
  \<open>REMOVE\<close> is documented to delete the node, but a node that is no item of a tuple is replaced by the
  marker: the name of the field becomes \<open>REMOVE\<close>.
\<close>

lemma remove_stores_marker:
  "visit (field_of 3 ''a'') (leave_with (\<lambda>kind node. if kind = ''name'' then Edit VRemove else Idle)) QUERY_DOCUMENT_KEYS () 100
     = Some ((), Inr (VNode 100 ''field''
         [(''alias'', VNone), (''name'', VRemove), (''arguments'', VTuple []), (''directives'', VTuple []),
          (''selection_set'', VNone)]))"
proof -
  have "walk 9 (leave_with (\<lambda>kind node. if kind = ''name'' then Edit VRemove else Idle))
     QUERY_DOCUMENT_KEYS (field_of 3 ''a'') None None [] [] (field_of 3 ''a'') [] () 100
   = Some (Going [(None, VNode 100 ''field''
         [(''alias'', VNone), (''name'', VRemove), (''arguments'', VTuple []), (''directives'', VTuple []),
          (''selection_set'', VNone)])] () 101)"
    by code_simp
  from visit_walk [OF this] show ?thesis by (simp add: walk_result_def final_value_def field_of_def)
qed

section \<open>A skip that does not end\<close>

text \<open>A visitor that renames names, as a partner of one that skips the field \<open>a\<close>.\<close>

definition renaming_visitor :: "string list visitor" where
  "renaming_visitor kind = \<lparr>enter_fn = None,
     leave_fn = (if kind = ''name'' then Some (\<lambda>s node key parent path ancestors. (Edit (rename node), s)) else None)\<rparr>"


end
