(* ===== verification/Py_Value.thy ===== *)
theory Py_Value
  imports Prelude Complex_Main
begin

text \<open>
  The values that resolvers and variables hand to the library, and the parts of Python's numbers that
  the library uses.  A float is a rational number, an infinity or \<open>nan\<close>; the two zeros are one value.
  The text \<open>repr\<close> gives for a float is a parameter where it matters.
\<close>

section \<open>Values\<close>

datatype pyfloat = FFinite rat | FInf bool | FNan

text \<open>
  \<open>PUndefined\<close> is the singleton \<open>Undefined\<close> (\<open>pyutils/undefined.py\<close>), \<open>PObject\<close> an object of another class, by
  identity, and \<open>PException\<close> an exception that is returned instead of raised.
\<close>

datatype py_value =
    PNone
  | PUndefined
  | PBool bool
  | PInt int
  | PFloat pyfloat
  | PStr pystr
  | PList "py_value list"
  | PDict "(pystr \<times> py_value) list"
  | PObject nat
  | PException py_error

definition is_null :: "py_value \<Rightarrow> bool" where
  "is_null v \<longleftrightarrow> v = PNone \<or> v = PUndefined"

lemma is_null_simps [simp]:
  "is_null PNone" "is_null PUndefined" "\<not> is_null (PBool b)" "\<not> is_null (PInt i)" "\<not> is_null (PFloat x)"
  "\<not> is_null (PStr s)" "\<not> is_null (PList vs)" "\<not> is_null (PDict d)" "\<not> is_null (PObject j)"
  "\<not> is_null (PException e)"
  by (simp_all add: is_null_def)

text \<open>\<open>d.get(key, Undefined)\<close>\<close>

definition dict_get :: "(pystr \<times> py_value) list \<Rightarrow> pystr \<Rightarrow> py_value" where
  "dict_get d k = (case map_of d k of Some v \<Rightarrow> v | None \<Rightarrow> PUndefined)"

text \<open>\<open>d[key] = value\<close>: a new key goes to the end, an old one keeps its place.\<close>

fun dict_set :: "'k \<Rightarrow> 'v \<Rightarrow> ('k \<times> 'v) list \<Rightarrow> ('k \<times> 'v) list" where
  "dict_set k v [] = [(k, v)]"
| "dict_set k v ((k', v') # d) = (if k = k' then (k, v) # d else (k', v') # dict_set k v d)"

lemma map_of_dict_set [simp]: "map_of (dict_set k v d) = (map_of d)(k \<mapsto> v)"
  by (induction d) auto

lemma dom_dict_set [simp]: "fst ` set (dict_set k v d) = insert k (fst ` set d)"
proof (induction d)
  case (Cons kv d)
  then show ?case by (cases kv) (auto simp: insert_commute)
qed simp

lemma set_dict_set: "kv \<in> set (dict_set k v d) \<Longrightarrow> kv = (k, v) \<or> kv \<in> set d"
  by (induction d) (auto split: if_splits)

lemma distinct_dict_set [simp]: "distinct (map fst (dict_set k v d)) = distinct (map fst d)"
proof (induction d)
  case (Cons kv d)
  have "fst ` set (dict_set k v d) = insert k (fst ` set d)" by simp
  with Cons show ?case by (cases kv) auto
qed simp

text \<open>\<open>{key(x): x for x in xs}\<close>: the last of several entries with the same key counts.\<close>

definition dict_of :: "('k \<times> 'v) list \<Rightarrow> ('k \<times> 'v) list" where
  "dict_of kvs = fold (\<lambda>(k, v). dict_set k v) kvs []"

section \<open>Numbers\<close>

fun isfinite :: "pyfloat \<Rightarrow> bool" where
  "isfinite (FFinite q) = True"
| "isfinite _ = False"

text \<open>\<open>int(x)\<close> for a finite float cuts the fraction off.\<close>

definition truncate_rat :: "rat \<Rightarrow> int" where
  "truncate_rat q = (if q \<ge> 0 then \<lfloor>q\<rfloor> else - \<lfloor>- q\<rfloor>)"

lemma truncate_of_int [simp]: "truncate_rat (of_int n) = n"
  by (simp add: truncate_rat_def flip: of_int_minus)

lemma truncate_eq_iff: "of_int (truncate_rat q) = q \<longleftrightarrow> (\<exists>n. q = of_int n)"
  by (metis truncate_of_int)

text \<open>
  The nearest float of a rational number, ties to even: 53 significant bits, exponents from \<open>-1074\<close>.
\<close>

function bit_length :: "nat \<Rightarrow> nat" where
  "bit_length n = (if n = 0 then 0 else Suc (bit_length (n div 2)))"
  by pat_completeness auto
termination
  by (relation "measure id") auto

declare bit_length.simps [simp del]

definition pow2 :: "int \<Rightarrow> rat" where
  "pow2 e = (if e \<ge> 0 then 2 ^ nat e else 1 / 2 ^ nat (- e))"

definition round_half_even :: "rat \<Rightarrow> int" where
  "round_half_even q =
     (let n = \<lfloor>q\<rfloor>; r = q - of_int n
      in if r < 1 / 2 then n else if r > 1 / 2 then n + 1 else if even n then n else n + 1)"

definition round_positive :: "rat \<Rightarrow> pyfloat" where
  "round_positive q =
     (let (n, d) = quotient_of q;
          guess = int (bit_length (nat n)) - int (bit_length (nat d)) - 53;
          e = max (-1074) (if q / pow2 guess < 2 ^ 52 then guess - 1
                           else if q / pow2 guess \<ge> 2 ^ 53 then guess + 1 else guess);
          x = of_int (round_half_even (q / pow2 e)) * pow2 e
      in if x \<ge> 2 ^ 1024 then FInf True else FFinite x)"

definition round_to_float :: "rat \<Rightarrow> pyfloat" where
  "round_to_float q =
     (if q = 0 then FFinite 0
      else if q > 0 then round_positive q
      else case round_positive (- q) of FFinite x \<Rightarrow> FFinite (- x) | FInf s \<Rightarrow> FInf False | FNan \<Rightarrow> FNan)"

text \<open>\<open>float(n)\<close> for an \<open>int\<close>: \<open>OverflowError\<close> where the nearest float is infinite.\<close>

definition float_of_int :: "int \<Rightarrow> pyfloat option" where
  "float_of_int n = (case round_to_float (of_int n) of FFinite x \<Rightarrow> Some (FFinite x) | _ \<Rightarrow> None)"

section \<open>Numbers in strings\<close>

text \<open>White space that \<open>int\<close> and \<open>float\<close> strip, and the decimal digits of Unicode (category \<open>Nd\<close>).\<close>

definition is_py_space :: "uchar \<Rightarrow> bool" where
  "is_py_space c \<longleftrightarrow> (9 \<le> c \<and> c \<le> 13) \<or> (28 \<le> c \<and> c \<le> 32) \<or> c \<in> {133, 160, 5760, 8232, 8233, 8239, 8287, 12288}
     \<or> (8192 \<le> c \<and> c \<le> 8202)"

definition py_strip :: "pystr \<Rightarrow> pystr" where
  "py_strip s = rev (dropWhile is_py_space (rev (dropWhile is_py_space s)))"

definition digit_blocks :: "nat list" where
  "digit_blocks =
     [48, 1632, 1776, 1984, 2406, 2534, 2662, 2790, 2918, 3046, 3174, 3302, 3430, 3558, 3664, 3792, 3872, 4160,
      4240, 6112, 6160, 6470, 6608, 6784, 6800, 6992, 7088, 7232, 7248, 42528, 43216, 43264, 43472, 43504, 43600,
      44016, 65296, 66720, 68912, 69734, 69872, 69942, 70096, 70384, 70736, 70864, 71248, 71360, 71472, 71904,
      72016, 72784, 73040, 73120, 92768, 92864, 93008, 120782, 120792, 120802, 120812, 120822, 123200, 123632,
      125264, 130032]"

definition digit_value :: "uchar \<Rightarrow> nat option" where
  "digit_value c = (case List.find (\<lambda>b. b \<le> c \<and> c < b + 10) digit_blocks of Some b \<Rightarrow> Some (c - b) | None \<Rightarrow> None)"

text \<open>Digits with single underscores between them, up to the first other character.\<close>

fun digit_part :: "pystr \<Rightarrow> nat list \<times> pystr" where
  "digit_part [] = ([], [])"
| "digit_part (c # s) =
     (case digit_value c of
        None \<Rightarrow> ([], c # s)
      | Some d \<Rightarrow>
          (case s of
             u # s' \<Rightarrow>
               if u = 95 then
                 (case digit_part s' of (ds, rest) \<Rightarrow> if ds = [] then ([d], s) else (d # ds, rest))
               else (case digit_part s of (ds, rest) \<Rightarrow> (d # ds, rest))
           | [] \<Rightarrow> ([d], [])))"

definition digits_value :: "nat list \<Rightarrow> nat" where
  "digits_value ds = foldl (\<lambda>n d. 10 * n + d) 0 ds"

fun take_sign :: "pystr \<Rightarrow> bool \<times> pystr" where
  "take_sign (c # s) = (if c = 45 then (True, s) else if c = 43 then (False, s) else (False, c # s))"
| "take_sign [] = (False, [])"

text \<open>
  \<open>int(s)\<close>; \<open>None\<close> is \<open>ValueError\<close>.  Python refuses to convert more than 4300 digits, in both directions.
\<close>

definition int_max_str_digits :: nat where
  "int_max_str_digits = 4300"

definition str_of_int :: "int \<Rightarrow> py_error + pystr" where
  "str_of_int n =
     (if length (dec_digits (nat \<bar>n\<bar>)) > int_max_str_digits then Inl (ValueError (str ''Exceeds the limit''))
      else Inr (show_int n))"

definition int_of_str :: "pystr \<Rightarrow> int option" where
  "int_of_str s =
     (case take_sign (py_strip s) of (negative, s) \<Rightarrow>
      case digit_part s of (ds, rest) \<Rightarrow>
        if ds \<noteq> [] \<and> rest = [] \<and> length ds \<le> int_max_str_digits
        then Some (if negative then - int (digits_value ds) else int (digits_value ds))
        else None)"

text \<open>\<open>float(s)\<close>; \<open>None\<close> is \<open>ValueError\<close>.\<close>

definition ascii_lower :: "uchar \<Rightarrow> uchar" where
  "ascii_lower c = (if 65 \<le> c \<and> c \<le> 90 then c + 32 else c)"

definition take_exponent :: "pystr \<Rightarrow> int option" where
  "take_exponent s =
     (case s of
        [] \<Rightarrow> Some 0
      | c # s \<Rightarrow>
          if ascii_lower c = 101 then
            (case take_sign s of (negative, s) \<Rightarrow>
             case digit_part s of (ds, rest) \<Rightarrow>
               if ds \<noteq> [] \<and> rest = [] then Some (if negative then - int (digits_value ds) else int (digits_value ds))
               else None)
          else None)"

definition pow10 :: "int \<Rightarrow> rat" where
  "pow10 e = (if e \<ge> 0 then 10 ^ nat e else 1 / 10 ^ nat (- e))"

definition float_of_str :: "pystr \<Rightarrow> pyfloat option" where
  "float_of_str s =
     (case take_sign (py_strip s) of (negative, s) \<Rightarrow>
      let word = map ascii_lower s in
      if word = str ''inf'' \<or> word = str ''infinity'' then Some (FInf (\<not> negative))
      else if word = str ''nan'' then Some FNan
      else
        (case digit_part s of (whole, rest) \<Rightarrow>
         case (case rest of c # s \<Rightarrow> if c = 46 then digit_part s else ([], rest) | [] \<Rightarrow> ([], [])) of (fraction, rest) \<Rightarrow>
         if whole = [] \<and> fraction = [] then None
         else
           (case take_exponent rest of
              None \<Rightarrow> None
            | Some e \<Rightarrow>
                let q = of_nat (digits_value (whole @ fraction)) * pow10 (e - int (length fraction))
                in Some (round_to_float (if negative then - q else q)))))"

section \<open>Equality\<close>

text \<open>\<open>==\<close>: Booleans, integers and floats are compared as numbers; \<open>Undefined == None\<close>.\<close>

fun number_of :: "py_value \<Rightarrow> pyfloat option" where
  "number_of (PBool b) = Some (FFinite (if b then 1 else 0))"
| "number_of (PInt n) = Some (FFinite (of_int n))"
| "number_of (PFloat x) = Some x"
| "number_of _ = None"

text \<open>The sizes of the parts of a list or dict.\<close>

lemma size_list_item: "x \<in> set xs \<Longrightarrow> size x < Suc (size_list size xs)"
  using size_list_estimation' [of x xs "size x" size] by simp

lemma size_dict_item: "(k, v) \<in> set d \<Longrightarrow> size v < Suc (size_list (size_prod (\<lambda>x. 0) size) d)"
  by (induction d) auto

function py_eq :: "py_value \<Rightarrow> py_value \<Rightarrow> bool" where
  "py_eq v w =
     (case (number_of v, number_of w) of
        (Some x, Some y) \<Rightarrow> x = y \<and> x \<noteq> FNan
      | (None, None) \<Rightarrow>
          if is_null v \<or> is_null w then is_null v \<and> is_null w
          else
            (case (v, w) of
               (PStr s, PStr t) \<Rightarrow> s = t
             | (PList vs, PList ws) \<Rightarrow>
                 length vs = length ws \<and> (\<forall>(x, y) \<in> set (zip vs ws). py_eq x y)
             | (PDict d, PDict d') \<Rightarrow>
                 fst ` set d = fst ` set d'
                 \<and> (\<forall>(k, x) \<in> set d. case map_of d' k of Some y \<Rightarrow> py_eq x y | None \<Rightarrow> False)
             | (PObject i, PObject j) \<Rightarrow> i = j
             | _ \<Rightarrow> False)
      | _ \<Rightarrow> False)"
  by pat_completeness auto
termination
  by (relation "measure (\<lambda>(v, w). size v)")
     (auto dest!: set_zip_leftD intro: size_list_item size_dict_item)

declare py_eq.simps [simp del]

end
