(* ===== verification/Type_System.thy ===== *)
theory Type_System
  imports Py_Value Ast
begin

text \<open>
  The type system (\<open>type/definition.py\<close>, \<open>type/schema.py\<close>).  Python's types refer to each other as
  objects; names are unique in a schema, so a reference to a named type is its name here.  The methods that
  the user of the library provides (resolvers, scalar functions) are functions in the records; a
  resolver may change the state \<open>'w\<close> of the world.
\<close>

section \<open>Types\<close>

text \<open>\<open>GraphQLList\<close>, \<open>GraphQLNonNull\<close> around a named type.\<close>

datatype gtype = GNamed pystr | GList gtype | GNonNull gtype

text \<open>A leaf function raises an exception or returns a value.\<close>

record scalar_type =
  sc_name :: pystr
  sc_coerce_output_value :: "py_value \<Rightarrow> py_error + py_value"
  sc_coerce_input_value :: "py_value \<Rightarrow> py_error + py_value"
  sc_coerce_input_literal :: "(value_node \<Rightarrow> py_error + py_value) option"
  sc_parse_literal :: "value_node \<Rightarrow> (pystr \<times> py_value) list option \<Rightarrow> py_error + py_value"
  sc_value_to_literal :: "(py_value \<Rightarrow> py_error + value_node option) option"

record enum_type =
  en_name :: pystr
  en_values :: "(pystr \<times> py_value) list"

text \<open>\<open>GraphQLDefaultInput\<close>: exactly one of \<open>value\<close> and \<open>literal\<close> is set.\<close>

datatype default_input = DefaultValue py_value | DefaultLiteral value_node

text \<open>\<open>GraphQLArgument\<close>, \<open>GraphQLInputField\<close> and \<open>GraphQLVariableSignature\<close> have the same fields.\<close>

record input_value =
  iv_type :: gtype
  iv_default_value :: py_value
  iv_default :: "default_input option"
  iv_out_name :: "pystr option"
  iv_deprecation_reason :: "pystr option"

record input_object_type =
  io_name :: pystr
  io_fields :: "(pystr \<times> input_value) list"
  io_out_type :: "(pystr \<times> py_value) list \<Rightarrow> py_error + py_value"
  io_is_one_of :: bool

text \<open>
  \<open>GraphQLDirective\<close> (\<open>type/directives.py\<close>); a location is the name of a member of \<open>DirectiveLocation\<close>.
\<close>

record directive_def =
  dir_name :: pystr
  dir_args :: "(pystr \<times> input_value) list"
  dir_locations :: "string list"
  dir_is_repeatable :: bool

text \<open>What a resolver is told (\<open>GraphQLResolveInfo\<close>) beyond the constants of the execution.\<close>

datatype path_key = PathIndex nat | PathName pystr

text \<open>\<open>Path\<close> (\<open>pyutils/path.py\<close>): the last key first, each with the type name; \<open>None\<close> is the empty list.\<close>

type_synonym path = "(path_key \<times> pystr option) list"

definition add_key :: "path \<Rightarrow> path_key \<Rightarrow> pystr option \<Rightarrow> path" where
  "add_key path key typename = (key, typename) # path"

definition as_list :: "path \<Rightarrow> path_key list" where
  "as_list path = map fst (rev path)"

record resolve_info =
  ri_field_name :: pystr
  ri_field_nodes :: "selection_node list"
  ri_return_type :: gtype
  ri_parent_type :: pystr
  ri_path :: path

type_synonym 'w resolver =
  "py_value \<Rightarrow> resolve_info \<Rightarrow> (pystr \<times> py_value) list \<Rightarrow> 'w \<Rightarrow> (py_error + py_value) \<times> 'w"

record 'w field =
  fld_type :: gtype
  fld_args :: "(pystr \<times> input_value) list"
  fld_resolve :: "'w resolver option"
  fld_deprecation_reason :: "pystr option"

record 'w object_type =
  obj_name :: pystr
  obj_fields :: "(pystr \<times> 'w field) list"
  obj_interfaces :: "pystr list"
  obj_is_type_of :: "(py_value \<Rightarrow> resolve_info \<Rightarrow> 'w \<Rightarrow> (py_error + py_value) \<times> 'w) option"

type_synonym 'w type_resolver =
  "py_value \<Rightarrow> resolve_info \<Rightarrow> pystr \<Rightarrow> 'w \<Rightarrow> (py_error + py_value) \<times> 'w"

record 'w interface_type =
  if_name :: pystr
  if_fields :: "(pystr \<times> 'w field) list"
  if_interfaces :: "pystr list"
  if_resolve_type :: "'w type_resolver option"

record 'w union_type =
  un_name :: pystr
  un_types :: "pystr list"
  un_resolve_type :: "'w type_resolver option"

datatype 'w named_type =
    ScalarType scalar_type
  | EnumType enum_type
  | InputObjectType input_object_type
  | ObjectType "'w object_type"
  | InterfaceType "'w interface_type"
  | UnionType "'w union_type"

fun nt_name :: "'w named_type \<Rightarrow> pystr" where
  "nt_name (ScalarType t) = sc_name t"
| "nt_name (EnumType t) = en_name t"
| "nt_name (InputObjectType t) = io_name t"
| "nt_name (ObjectType t) = obj_name t"
| "nt_name (InterfaceType t) = if_name t"
| "nt_name (UnionType t) = un_name t"

type_synonym 'w types = "pystr \<Rightarrow> 'w named_type option"

section \<open>Predicates\<close>

fun is_non_null_type :: "gtype \<Rightarrow> bool" where
  "is_non_null_type (GNonNull t) = True"
| "is_non_null_type _ = False"

fun is_list_type :: "gtype \<Rightarrow> bool" where
  "is_list_type (GList t) = True"
| "is_list_type _ = False"

fun is_input_named :: "'w named_type \<Rightarrow> bool" where
  "is_input_named (ScalarType t) = True"
| "is_input_named (EnumType t) = True"
| "is_input_named (InputObjectType t) = True"
| "is_input_named _ = False"

fun is_input_type :: "'w types \<Rightarrow> gtype \<Rightarrow> bool" where
  "is_input_type types (GNamed n) = (case types n of Some t \<Rightarrow> is_input_named t | None \<Rightarrow> False)"
| "is_input_type types (GList t) = is_input_type types t"
| "is_input_type types (GNonNull t) = is_input_type types t"

fun is_output_named :: "'w named_type \<Rightarrow> bool" where
  "is_output_named (InputObjectType t) = False"
| "is_output_named _ = True"

fun is_output_type :: "'w types \<Rightarrow> gtype \<Rightarrow> bool" where
  "is_output_type types (GNamed n) = (case types n of Some t \<Rightarrow> is_output_named t | None \<Rightarrow> False)"
| "is_output_type types (GList t) = is_output_type types t"
| "is_output_type types (GNonNull t) = is_output_type types t"

fun is_abstract_named :: "'w named_type \<Rightarrow> bool" where
  "is_abstract_named (InterfaceType t) = True"
| "is_abstract_named (UnionType t) = True"
| "is_abstract_named _ = False"

fun is_composite_named :: "'w named_type \<Rightarrow> bool" where
  "is_composite_named (ObjectType t) = True"
| "is_composite_named (InterfaceType t) = True"
| "is_composite_named (UnionType t) = True"
| "is_composite_named _ = False"

fun is_object_named :: "'w named_type \<Rightarrow> bool" where
  "is_object_named (ObjectType t) = True"
| "is_object_named _ = False"

fun is_interface_named :: "'w named_type \<Rightarrow> bool" where
  "is_interface_named (InterfaceType t) = True"
| "is_interface_named _ = False"

fun is_leaf_named :: "'w named_type \<Rightarrow> bool" where
  "is_leaf_named (ScalarType t) = True"
| "is_leaf_named (EnumType t) = True"
| "is_leaf_named _ = False"

definition is_abstract_type :: "'w types \<Rightarrow> gtype \<Rightarrow> bool" where
  "is_abstract_type types t =
     (case t of GNamed n \<Rightarrow> (case types n of Some nt \<Rightarrow> is_abstract_named nt | None \<Rightarrow> False) | _ \<Rightarrow> False)"

fun get_nullable_type :: "gtype \<Rightarrow> gtype" where
  "get_nullable_type (GNonNull t) = t"
| "get_nullable_type t = t"

fun get_named_type :: "gtype \<Rightarrow> pystr" where
  "get_named_type (GNamed n) = n"
| "get_named_type (GList t) = get_named_type t"
| "get_named_type (GNonNull t) = get_named_type t"

text \<open>\<open>is_required_argument\<close>, \<open>is_required_input_field\<close>\<close>

definition is_required_input :: "input_value \<Rightarrow> bool" where
  "is_required_input iv \<longleftrightarrow>
     is_non_null_type (iv_type iv) \<and> iv_default iv = None \<and> iv_default_value iv = PUndefined"

text \<open>\<open>GraphQLNonNull\<close> wraps nullable types.\<close>

fun wf_gtype :: "gtype \<Rightarrow> bool" where
  "wf_gtype (GNamed n) = True"
| "wf_gtype (GList t) = wf_gtype t"
| "wf_gtype (GNonNull t) = (\<not> is_non_null_type t \<and> wf_gtype t)"

section \<open>Enumeration values\<close>

text \<open>
  \<open>_value_lookup\<close>: the first name of each hashable value; a value \<open>None\<close> stands for its name.  Lists and dicts
  are not hashable; equal numbers have the same hash.
\<close>

fun is_hashable :: "py_value \<Rightarrow> bool" where
  "is_hashable (PList vs) = False"
| "is_hashable (PDict d) = False"
| "is_hashable _ = True"

fun py_lookup :: "(py_value \<times> pystr) list \<Rightarrow> py_value \<Rightarrow> pystr option" where
  "py_lookup [] v = None"
| "py_lookup ((w, n) # lookup) v = (if py_eq w v then Some n else py_lookup lookup v)"

definition value_lookup :: "enum_type \<Rightarrow> (py_value \<times> pystr) list" where
  "value_lookup t =
     fold (\<lambda>(name, value) lookup.
       let value = (if is_null value then PStr name else value) in
       if is_hashable value \<and> py_lookup lookup value = None then lookup @ [(value, name)] else lookup)
       (en_values t) []"

text \<open>Messages are given without the text of the value in them.\<close>

definition enum_coerce_output_value :: "enum_type \<Rightarrow> py_value \<Rightarrow> py_error + py_value" where
  "enum_coerce_output_value t v =
     (case (if is_hashable v then (if is_null v then None else py_lookup (value_lookup t) v)
            else map_option fst (List.find (\<lambda>(name, value). py_eq value v) (en_values t))) of
        Some name \<Rightarrow> Inr (PStr name)
      | None \<Rightarrow> Inl (GraphQLError (str ''Enum cannot represent value'')))"

definition enum_coerce_input_value :: "enum_type \<Rightarrow> py_value \<Rightarrow> py_error + py_value" where
  "enum_coerce_input_value t v =
     (case v of
        PStr name \<Rightarrow>
          (case map_of (en_values t) name of
             Some value \<Rightarrow> Inr value
           | None \<Rightarrow> Inl (GraphQLError (str ''Value does not exist in enum'')))
      | _ \<Rightarrow> Inl (GraphQLError (str ''Enum cannot represent non-string value'')))"

definition enum_coerce_input_literal :: "enum_type \<Rightarrow> value_node \<Rightarrow> py_error + py_value" where
  "enum_coerce_input_literal t node =
     (case node of
        EnumValueNode name loc \<Rightarrow>
          (case map_of (en_values t) name of
             Some value \<Rightarrow> Inr value
           | None \<Rightarrow> Inl (GraphQLError (str ''Value does not exist in enum'')))
      | _ \<Rightarrow> Inl (GraphQLError (str ''Enum cannot represent non-enum value'')))"

definition enum_value_to_literal :: "enum_type \<Rightarrow> py_value \<Rightarrow> py_error + value_node option" where
  "enum_value_to_literal t v =
     Inr (case v of
        PStr name \<Rightarrow> if map_of (en_values t) name \<noteq> None then Some (EnumValueNode name None) else None
      | _ \<Rightarrow> None)"

section \<open>The schema\<close>

record 'w schema =
  query_type :: "pystr option"
  mutation_type :: "pystr option"
  subscription_type :: "pystr option"
  type_map :: "(pystr \<times> 'w named_type) list"
  schema_directives :: "directive_def list"

definition get_type :: "'w schema \<Rightarrow> 'w types" where
  "get_type schema name = map_of (type_map schema) name"

fun get_root_type :: "'w schema \<Rightarrow> operation_type \<Rightarrow> pystr option" where
  "get_root_type schema QUERY = query_type schema"
| "get_root_type schema MUTATION = mutation_type schema"
| "get_root_type schema SUBSCRIPTION = subscription_type schema"

text \<open>\<open>InterfaceImplementations\<close>, and the loop of \<open>__init__\<close> that collects them by interface name.\<close>

record implementations =
  impl_objects :: "pystr list"
  impl_interfaces :: "pystr list"

definition no_implementations :: implementations where
  "no_implementations = \<lparr>impl_objects = [], impl_interfaces = []\<rparr>"

definition get_or_empty :: "(pystr \<times> implementations) list \<Rightarrow> pystr \<Rightarrow> implementations" where
  "get_or_empty m name = (case map_of m name of Some i \<Rightarrow> i | None \<Rightarrow> no_implementations)"

definition is_interface_name :: "'w schema \<Rightarrow> pystr \<Rightarrow> bool" where
  "is_interface_name schema name =
     (case get_type schema name of Some t \<Rightarrow> is_interface_named t | None \<Rightarrow> False)"

definition add_implementations ::
  "'w schema \<Rightarrow> pystr \<times> 'w named_type \<Rightarrow> (pystr \<times> implementations) list \<Rightarrow> (pystr \<times> implementations) list" where
  "add_implementations schema = (\<lambda>(type_name, named_type) m.
     case named_type of
       InterfaceType t \<Rightarrow>
         fold (\<lambda>iface m. if is_interface_name schema iface
             then dict_set iface ((get_or_empty m iface)\<lparr>impl_interfaces := impl_interfaces (get_or_empty m iface) @ [type_name]\<rparr>) m
             else m) (if_interfaces t) m
     | ObjectType t \<Rightarrow>
         fold (\<lambda>iface m. if is_interface_name schema iface
             then dict_set iface ((get_or_empty m iface)\<lparr>impl_objects := impl_objects (get_or_empty m iface) @ [type_name]\<rparr>) m
             else m) (obj_interfaces t) m
     | _ \<Rightarrow> m)"

definition implementations_map :: "'w schema \<Rightarrow> (pystr \<times> implementations) list" where
  "implementations_map schema = fold (add_implementations schema) (type_map schema) []"

definition get_implementations :: "'w schema \<Rightarrow> pystr \<Rightarrow> implementations" where
  "get_implementations schema name = get_or_empty (implementations_map schema) name"

definition get_possible_types :: "'w schema \<Rightarrow> 'w named_type \<Rightarrow> pystr list" where
  "get_possible_types schema abstract_type =
     (case abstract_type of
        UnionType t \<Rightarrow> un_types t
      | _ \<Rightarrow> impl_objects (get_implementations schema (nt_name abstract_type)))"

text \<open>\<open>is_sub_type\<close>; the code caches the set of names.\<close>

definition is_sub_type :: "'w schema \<Rightarrow> 'w named_type \<Rightarrow> pystr \<Rightarrow> bool" where
  "is_sub_type schema abstract_type maybe_sub_type \<longleftrightarrow>
     maybe_sub_type \<in> set (case abstract_type of
        UnionType t \<Rightarrow> un_types t
      | _ \<Rightarrow> (let i = get_implementations schema (nt_name abstract_type)
              in impl_objects i @ impl_interfaces i))"

text \<open>
  The field of \<open>__typename\<close> (\<open>type/introspection.py\<close>), and \<open>get_field\<close>.  The fields \<open>__schema\<close> and \<open>__type\<close>,
  whose resolvers look into the objects of the schema, are parameters.
\<close>

definition TypeNameMetaFieldDef :: "'w field" where
  "TypeNameMetaFieldDef =
     \<lparr>fld_type = GNonNull (GNamed (str ''String'')), fld_args = [],
      fld_resolve = Some (\<lambda>source info args w. (Inr (PStr (ri_parent_type info)), w)), fld_deprecation_reason = None\<rparr>"

record 'w meta_fields =
  schema_field :: "'w field"
  type_field :: "'w field"

definition GraphQLSchema_get_field :: "'w meta_fields \<Rightarrow> 'w schema \<Rightarrow> pystr \<Rightarrow> pystr \<Rightarrow> 'w field option" where
  "GraphQLSchema_get_field meta schema parent_type name =
     (if name = str ''__schema'' then (if query_type schema = Some parent_type then Some (schema_field meta) else None)
      else if name = str ''__type'' then (if query_type schema = Some parent_type then Some (type_field meta) else None)
      else if name = str ''__typename'' then Some TypeNameMetaFieldDef
      else (case get_type schema parent_type of
          Some (ObjectType t) \<Rightarrow> map_of (obj_fields t) name
        | Some (InterfaceType t) \<Rightarrow> map_of (if_fields t) name
        | _ \<Rightarrow> None))"

definition get_directive :: "'w schema \<Rightarrow> pystr \<Rightarrow> directive_def option" where
  "get_directive schema name = List.find (\<lambda>d. dir_name d = name) (schema_directives schema)"

text \<open>\<open>type_from_ast\<close> (\<open>utilities/type_from_ast.py\<close>)\<close>

fun type_from_ast :: "'w types \<Rightarrow> type_node \<Rightarrow> gtype option" where
  "type_from_ast types (ListTypeNode t loc) = map_option GList (type_from_ast types t)"
| "type_from_ast types (NonNullTypeNode t loc) = map_option GNonNull (type_from_ast types t)"
| "type_from_ast types (NamedType n) =
     (if types (name_value (named_type_name n)) \<noteq> None then Some (GNamed (name_value (named_type_name n))) else None)"

section \<open>Comparing types\<close>

text \<open>
  \<open>utilities/type_comparators.py\<close>.  Wrapping types are created as they are used, so \<open>is\<close> holds of named types
  only; comparing two wrappers that happen to be one object gives the same answer.
\<close>

fun is_equal_type :: "gtype \<Rightarrow> gtype \<Rightarrow> bool" where
  "is_equal_type (GNamed a) (GNamed b) = (a = b)"
| "is_equal_type (GNonNull a) (GNonNull b) = is_equal_type a b"
| "is_equal_type (GList a) (GList b) = is_equal_type a b"
| "is_equal_type _ _ = False"

function is_type_sub_type_of :: "'w schema \<Rightarrow> gtype \<Rightarrow> gtype \<Rightarrow> bool" where
  "is_type_sub_type_of schema maybe_subtype super_type =
     (case super_type of
        GNonNull b \<Rightarrow> (case maybe_subtype of GNonNull a \<Rightarrow> is_type_sub_type_of schema a b | _ \<Rightarrow> False)
      | _ \<Rightarrow>
        (case maybe_subtype of
           GNonNull a \<Rightarrow> is_type_sub_type_of schema a super_type
         | GList a \<Rightarrow> (case super_type of GList b \<Rightarrow> is_type_sub_type_of schema a b | _ \<Rightarrow> False)
         | GNamed a \<Rightarrow>
             (case super_type of
                GNamed b \<Rightarrow>
                  a = b
                  \<or> (case (get_type schema b, get_type schema a) of
                       (Some super, Some sub) \<Rightarrow>
                         is_abstract_named super \<and> (is_interface_named sub \<or> is_object_named sub)
                         \<and> is_sub_type schema super a
                     | _ \<Rightarrow> False)
              | _ \<Rightarrow> False)))"
  by pat_completeness auto
termination
  by (relation "measure (\<lambda>(schema, a, b). size a + size b)") auto

declare is_type_sub_type_of.simps [simp del]

definition do_types_overlap :: "'w schema \<Rightarrow> 'w named_type \<Rightarrow> 'w named_type \<Rightarrow> bool" where
  "do_types_overlap schema type_a type_b =
     (if nt_name type_a = nt_name type_b then True
      else if is_abstract_named type_a then
        if is_abstract_named type_b
        then \<exists>t \<in> set (get_possible_types schema type_a). is_sub_type schema type_b t
        else is_sub_type schema type_a (nt_name type_b)
      else if is_abstract_named type_b then is_sub_type schema type_b (nt_name type_a)
      else False)"

end
