(* ===== verification/Ast_Nodes.thy ===== *)
theory Ast_Nodes
  imports Ast
begin

text \<open>
  The nodes of a document as the visitors of validation meet them: every class of nodes is a constructor of one type, and a
  document is a tree of nodes in the order of \<open>query_document_keys_to_validate\<close> (\<open>validation/validate.py\<close>), the keys of
  \<open>QUERY_DOCUMENT_KEYS\<close> without descriptions.  A child stands in an attribute or in a tuple; the ancestors that a
  method is given contain the tuples as well.
\<close>

datatype ast_node =
    DocumentN document_node
  | OperationN operation_definition_node
  | FragmentN fragment_definition_node
  | VariableDefinitionN variable_definition_node
  | VariableN variable_node
  | SelectionSetN selection_set_node
  | SelectionN selection_node
  | ArgumentN argument_node
  | FragmentArgumentN fragment_argument_node
  | DirectiveN directive_node
  | ValueN value_node
  | ObjectFieldN object_field_node
  | NameN name_node
  | NamedTypeN named_type_node
  | TypeN type_node
  | OperationTypeDefinitionN operation_type_definition_node
  | InputValueDefinitionN input_value_definition_node
  | FieldDefinitionN field_definition_node
  | EnumValueDefinitionN enum_value_definition_node
  | DefinitionN definition_node

datatype tree = Tree (node_of: ast_node) (kids_of: kids)
  and kids = NoKids | Kid bool tree kids

fun append_kids :: "kids \<Rightarrow> kids \<Rightarrow> kids" where
  "append_kids NoKids ks = ks"
| "append_kids (Kid in_tuple t rest) ks = Kid in_tuple t (append_kids rest ks)"

definition one :: "tree \<Rightarrow> kids" where
  "one t = Kid False t NoKids"

definition optional :: "('a \<Rightarrow> tree) \<Rightarrow> 'a option \<Rightarrow> kids" where
  "optional f x = (case x of Some y \<Rightarrow> one (f y) | None \<Rightarrow> NoKids)"

fun tuple_of :: "tree list \<Rightarrow> kids" where
  "tuple_of [] = NoKids"
| "tuple_of (t # ts) = Kid True t (tuple_of ts)"

definition optional_tuple :: "('a \<Rightarrow> tree) \<Rightarrow> 'a list option \<Rightarrow> kids" where
  "optional_tuple f xs = tuple_of (map f (case xs of Some ys \<Rightarrow> ys | None \<Rightarrow> []))"

definition all_kids :: "kids list \<Rightarrow> kids" where
  "all_kids kss = foldr append_kids kss NoKids"

section \<open>Names, types, values\<close>

definition name_tree :: "name_node \<Rightarrow> tree" where
  "name_tree n = Tree (NameN n) NoKids"

definition named_type_tree :: "named_type_node \<Rightarrow> tree" where
  "named_type_tree t = Tree (NamedTypeN t) (one (name_tree (named_type_name t)))"

fun type_tree :: "type_node \<Rightarrow> tree" where
  "type_tree (NamedType t) = named_type_tree t"
| "type_tree (ListTypeNode t loc) = Tree (TypeN (ListTypeNode t loc)) (one (type_tree t))"
| "type_tree (NonNullTypeNode t loc) = Tree (TypeN (NonNullTypeNode t loc)) (one (type_tree t))"

definition variable_tree :: "variable_node \<Rightarrow> tree" where
  "variable_tree v = Tree (VariableN v) (one (name_tree (variable_name v)))"

fun value_tree :: "value_node \<Rightarrow> tree" and object_field_tree :: "object_field_node \<Rightarrow> tree" where
  "value_tree (VariableValue v) = variable_tree v"
| "value_tree (ListValueNode vs loc) = Tree (ValueN (ListValueNode vs loc)) (tuple_of (map value_tree vs))"
| "value_tree (ObjectValueNode fs loc) = Tree (ValueN (ObjectValueNode fs loc)) (tuple_of (map object_field_tree fs))"
| "value_tree v = Tree (ValueN v) NoKids"
| "object_field_tree (ObjectFieldNode name v loc) =
     Tree (ObjectFieldN (ObjectFieldNode name v loc)) (append_kids (one (name_tree name)) (one (value_tree v)))"

definition argument_tree :: "argument_node \<Rightarrow> tree" where
  "argument_tree a = Tree (ArgumentN a) (append_kids (one (name_tree (argument_name a))) (one (value_tree (argument_value a))))"

definition fragment_argument_tree :: "fragment_argument_node \<Rightarrow> tree" where
  "fragment_argument_tree a = Tree (FragmentArgumentN a)
     (append_kids (one (name_tree (fragment_argument_name a))) (one (value_tree (fragment_argument_value a))))"

definition directive_tree :: "directive_node \<Rightarrow> tree" where
  "directive_tree d = Tree (DirectiveN d)
     (append_kids (one (name_tree (directive_name d))) (optional_tuple argument_tree (directive_arguments d)))"

section \<open>Executable definitions\<close>

fun selection_tree :: "selection_node \<Rightarrow> tree" and selection_set_tree :: "selection_set_node \<Rightarrow> tree" where
  "selection_tree (FieldNode name alias_node arguments directives selection_set loc) =
     Tree (SelectionN (FieldNode name alias_node arguments directives selection_set loc))
       (all_kids [optional name_tree alias_node, one (name_tree name), optional_tuple argument_tree arguments,
         optional_tuple directive_tree directives,
         (case selection_set of Some ss \<Rightarrow> one (selection_set_tree ss) | None \<Rightarrow> NoKids)])"
| "selection_tree (FragmentSpreadNode name arguments directives loc) =
     Tree (SelectionN (FragmentSpreadNode name arguments directives loc))
       (all_kids [one (name_tree name), optional_tuple fragment_argument_tree arguments, optional_tuple directive_tree directives])"
| "selection_tree (InlineFragmentNode selection_set type_condition directives loc) =
     Tree (SelectionN (InlineFragmentNode selection_set type_condition directives loc))
       (all_kids [optional named_type_tree type_condition, optional_tuple directive_tree directives,
         one (selection_set_tree selection_set)])"
| "selection_set_tree (SelectionSetNode nodes loc) =
     Tree (SelectionSetN (SelectionSetNode nodes loc)) (tuple_of (map selection_tree nodes))"

definition variable_definition_tree :: "variable_definition_node \<Rightarrow> tree" where
  "variable_definition_tree d = Tree (VariableDefinitionN d)
     (all_kids [one (variable_tree (vardef_variable d)), one (type_tree (vardef_type d)),
       optional value_tree (vardef_default_value d), optional_tuple directive_tree (vardef_directives d)])"

definition operation_tree :: "operation_definition_node \<Rightarrow> tree" where
  "operation_tree d = Tree (OperationN d)
     (all_kids [optional name_tree (op_name d), optional_tuple variable_definition_tree (op_variable_definitions d),
       optional_tuple directive_tree (op_directives d), one (selection_set_tree (op_selection_set d))])"

definition fragment_tree :: "fragment_definition_node \<Rightarrow> tree" where
  "fragment_tree d = Tree (FragmentN d)
     (all_kids [one (name_tree (frag_name d)), optional_tuple variable_definition_tree (frag_variable_definitions d),
       one (named_type_tree (frag_type_condition d)), optional_tuple directive_tree (frag_directives d),
       one (selection_set_tree (frag_selection_set d))])"

section \<open>Type system definitions\<close>

definition operation_type_tree :: "operation_type_definition_node \<Rightarrow> tree" where
  "operation_type_tree d = Tree (OperationTypeDefinitionN d) (one (named_type_tree (optype_type d)))"

definition input_value_tree :: "input_value_definition_node \<Rightarrow> tree" where
  "input_value_tree d = Tree (InputValueDefinitionN d)
     (all_kids [one (name_tree (input_name d)), one (type_tree (input_type d)), optional value_tree (input_default_value d),
       optional_tuple directive_tree (input_directives d)])"

definition field_definition_tree :: "field_definition_node \<Rightarrow> tree" where
  "field_definition_tree d = Tree (FieldDefinitionN d)
     (all_kids [one (name_tree (fielddef_name d)), optional_tuple input_value_tree (fielddef_arguments d),
       one (type_tree (fielddef_type d)), optional_tuple directive_tree (fielddef_directives d)])"

definition enum_value_tree :: "enum_value_definition_node \<Rightarrow> tree" where
  "enum_value_tree d = Tree (EnumValueDefinitionN d)
     (append_kids (one (name_tree (enumdef_name d))) (optional_tuple directive_tree (enumdef_directives d)))"

fun definition_kids :: "definition_node \<Rightarrow> kids" where
  "definition_kids (OperationDefinition d) = kids_of (operation_tree d)"
| "definition_kids (FragmentDefinition d) = kids_of (fragment_tree d)"
| "definition_kids (SchemaDefinitionNode description directives operation_types loc) =
     append_kids (optional_tuple directive_tree directives) (tuple_of (map operation_type_tree operation_types))"
| "definition_kids (ScalarTypeDefinitionNode name description directives loc) =
     append_kids (one (name_tree name)) (optional_tuple directive_tree directives)"
| "definition_kids (ObjectTypeDefinitionNode name description directives interfaces fs loc) =
     all_kids [one (name_tree name), optional_tuple named_type_tree interfaces, optional_tuple directive_tree directives,
       optional_tuple field_definition_tree fs]"
| "definition_kids (InterfaceTypeDefinitionNode name description directives interfaces fs loc) =
     all_kids [one (name_tree name), optional_tuple named_type_tree interfaces, optional_tuple directive_tree directives,
       optional_tuple field_definition_tree fs]"
| "definition_kids (UnionTypeDefinitionNode name description directives types loc) =
     all_kids [one (name_tree name), optional_tuple directive_tree directives, optional_tuple named_type_tree types]"
| "definition_kids (EnumTypeDefinitionNode name description directives enum_values loc) =
     all_kids [one (name_tree name), optional_tuple directive_tree directives, optional_tuple enum_value_tree enum_values]"
| "definition_kids (InputObjectTypeDefinitionNode name description directives fs loc) =
     all_kids [one (name_tree name), optional_tuple directive_tree directives, optional_tuple input_value_tree fs]"
| "definition_kids (DirectiveDefinitionNode name locations description arguments directives repeatable loc) =
     all_kids [one (name_tree name), optional_tuple input_value_tree arguments, optional_tuple directive_tree directives,
       tuple_of (map name_tree locations)]"
| "definition_kids (SchemaExtensionNode directives operation_types loc) =
     append_kids (optional_tuple directive_tree directives) (optional_tuple operation_type_tree operation_types)"
| "definition_kids (DirectiveExtensionNode name directives loc) =
     append_kids (one (name_tree name)) (optional_tuple directive_tree directives)"
| "definition_kids (ScalarTypeExtensionNode name directives loc) =
     append_kids (one (name_tree name)) (optional_tuple directive_tree directives)"
| "definition_kids (ObjectTypeExtensionNode name directives interfaces fs loc) =
     all_kids [one (name_tree name), optional_tuple named_type_tree interfaces, optional_tuple directive_tree directives,
       optional_tuple field_definition_tree fs]"
| "definition_kids (InterfaceTypeExtensionNode name directives interfaces fs loc) =
     all_kids [one (name_tree name), optional_tuple named_type_tree interfaces, optional_tuple directive_tree directives,
       optional_tuple field_definition_tree fs]"
| "definition_kids (UnionTypeExtensionNode name directives types loc) =
     all_kids [one (name_tree name), optional_tuple directive_tree directives, optional_tuple named_type_tree types]"
| "definition_kids (EnumTypeExtensionNode name directives enum_values loc) =
     all_kids [one (name_tree name), optional_tuple directive_tree directives, optional_tuple enum_value_tree enum_values]"
| "definition_kids (InputObjectTypeExtensionNode name directives fs loc) =
     all_kids [one (name_tree name), optional_tuple directive_tree directives, optional_tuple input_value_tree fs]"

definition definition_tree :: "definition_node \<Rightarrow> tree" where
  "definition_tree d = (case d of
       OperationDefinition op \<Rightarrow> operation_tree op
     | FragmentDefinition fragment \<Rightarrow> fragment_tree fragment
     | _ \<Rightarrow> Tree (DefinitionN d) (definition_kids d))"

definition document_tree :: "document_node \<Rightarrow> tree" where
  "document_tree document = Tree (DocumentN document) (tuple_of (map definition_tree (document_definitions document)))"

text \<open>The attribute \<open>directives\<close> of a node, if it has one.\<close>

fun definition_directives :: "definition_node \<Rightarrow> directive_node list option" where
  "definition_directives (OperationDefinition d) = op_directives d"
| "definition_directives (FragmentDefinition d) = frag_directives d"
| "definition_directives (SchemaDefinitionNode description directives operation_types loc) = directives"
| "definition_directives (ScalarTypeDefinitionNode name description directives loc) = directives"
| "definition_directives (ObjectTypeDefinitionNode name description directives interfaces fs loc) = directives"
| "definition_directives (InterfaceTypeDefinitionNode name description directives interfaces fs loc) = directives"
| "definition_directives (UnionTypeDefinitionNode name description directives types loc) = directives"
| "definition_directives (EnumTypeDefinitionNode name description directives enum_values loc) = directives"
| "definition_directives (InputObjectTypeDefinitionNode name description directives fs loc) = directives"
| "definition_directives (DirectiveDefinitionNode name locations description arguments directives repeatable loc) = directives"
| "definition_directives (SchemaExtensionNode directives operation_types loc) = directives"
| "definition_directives (DirectiveExtensionNode name directives loc) = directives"
| "definition_directives (ScalarTypeExtensionNode name directives loc) = directives"
| "definition_directives (ObjectTypeExtensionNode name directives interfaces fs loc) = directives"
| "definition_directives (InterfaceTypeExtensionNode name directives interfaces fs loc) = directives"
| "definition_directives (UnionTypeExtensionNode name directives types loc) = directives"
| "definition_directives (EnumTypeExtensionNode name directives enum_values loc) = directives"
| "definition_directives (InputObjectTypeExtensionNode name directives fs loc) = directives"

fun node_directives :: "ast_node \<Rightarrow> directive_node list option" where
  "node_directives (OperationN d) = op_directives d"
| "node_directives (FragmentN d) = frag_directives d"
| "node_directives (VariableDefinitionN d) = vardef_directives d"
| "node_directives (SelectionN s) = sel_directives s"
| "node_directives (InputValueDefinitionN d) = input_directives d"
| "node_directives (FieldDefinitionN d) = fielddef_directives d"
| "node_directives (EnumValueDefinitionN d) = enumdef_directives d"
| "node_directives (DefinitionN d) = definition_directives d"
| "node_directives n = None"

text \<open>The name of a type system definition or extension; the schema has none.\<close>

fun definition_name :: "definition_node \<Rightarrow> name_node option" where
  "definition_name (OperationDefinition d) = op_name d"
| "definition_name (FragmentDefinition d) = Some (frag_name d)"
| "definition_name (SchemaDefinitionNode description directives operation_types loc) = None"
| "definition_name (ScalarTypeDefinitionNode name description directives loc) = Some name"
| "definition_name (ObjectTypeDefinitionNode name description directives interfaces fs loc) = Some name"
| "definition_name (InterfaceTypeDefinitionNode name description directives interfaces fs loc) = Some name"
| "definition_name (UnionTypeDefinitionNode name description directives types loc) = Some name"
| "definition_name (EnumTypeDefinitionNode name description directives enum_values loc) = Some name"
| "definition_name (InputObjectTypeDefinitionNode name description directives fs loc) = Some name"
| "definition_name (DirectiveDefinitionNode name locations description arguments directives repeatable loc) = Some name"
| "definition_name (SchemaExtensionNode directives operation_types loc) = None"
| "definition_name (DirectiveExtensionNode name directives loc) = Some name"
| "definition_name (ScalarTypeExtensionNode name directives loc) = Some name"
| "definition_name (ObjectTypeExtensionNode name directives interfaces fs loc) = Some name"
| "definition_name (InterfaceTypeExtensionNode name directives interfaces fs loc) = Some name"
| "definition_name (UnionTypeExtensionNode name directives types loc) = Some name"
| "definition_name (EnumTypeExtensionNode name directives enum_values loc) = Some name"
| "definition_name (InputObjectTypeExtensionNode name directives fs loc) = Some name"

end
