(* ===== verification/Type_Info.thy ===== *)
theory Type_Info
  imports Type_System Ast_Nodes
begin

text \<open>
  The type information that validation keeps while it visits a document (\<open>utilities/type_info.py\<close>): stacks of types, with
  the top as head of the list, which the visit of a node pushes and pops.
\<close>

section \<open>The state\<close>

text \<open>A default of an argument or input field: \<open>default\<close> where it is set, otherwise \<open>default_value\<close>.\<close>

datatype location_default = DefaultInput default_input | PlainDefault py_value

definition default_of :: "input_value \<Rightarrow> location_default" where
  "default_of iv = (case iv_default iv of Some d \<Rightarrow> DefaultInput d | None \<Rightarrow> PlainDefault (iv_default_value iv))"

abbreviation (input) no_default :: location_default where
  "no_default \<equiv> PlainDefault PUndefined"

record fragment_signature =
  fs_definition :: fragment_definition_node
  fs_variable_definitions :: "(pystr \<times> variable_definition_node) list"

record 'w type_info =
  ti_type_stack :: "gtype option list"
  ti_parent_type_stack :: "pystr option list"
  ti_input_type_stack :: "gtype option list"
  ti_field_def_stack :: "'w field option list"
  ti_default_value_stack :: "location_default list"
  ti_directive :: "directive_def option"
  ti_argument :: "input_value option"
  ti_enum_value :: "py_value option"
  ti_fragment_signatures_by_name :: "(pystr \<times> fragment_signature) list"
  ti_fragment_signature :: "fragment_signature option"
  ti_fragment_argument :: "variable_definition_node option"

definition TypeInfo_init :: "'w type_info" where
  "TypeInfo_init =
     \<lparr>ti_type_stack = [], ti_parent_type_stack = [], ti_input_type_stack = [], ti_field_def_stack = [],
      ti_default_value_stack = [], ti_directive = None, ti_argument = None, ti_enum_value = None,
      ti_fragment_signatures_by_name = [], ti_fragment_signature = None, ti_fragment_argument = None\<rparr>"

fun stack_top :: "'a option list \<Rightarrow> 'a option" where
  "stack_top [] = None"
| "stack_top (x # xs) = x"

definition get_type_of :: "'w type_info \<Rightarrow> gtype option" where
  "get_type_of ti = stack_top (ti_type_stack ti)"

definition get_parent_type :: "'w type_info \<Rightarrow> pystr option" where
  "get_parent_type ti = stack_top (ti_parent_type_stack ti)"

definition get_input_type :: "'w type_info \<Rightarrow> gtype option" where
  "get_input_type ti = stack_top (ti_input_type_stack ti)"

definition get_parent_input_type :: "'w type_info \<Rightarrow> gtype option" where
  "get_parent_input_type ti = (case ti_input_type_stack ti of x # y # ys \<Rightarrow> y | _ \<Rightarrow> None)"

definition get_field_def_of :: "'w type_info \<Rightarrow> 'w field option" where
  "get_field_def_of ti = stack_top (ti_field_def_stack ti)"

text \<open>\<open>None\<close> stands for the Python value \<open>None\<close>, which is the answer of an empty stack and no \<open>Undefined\<close>.\<close>

definition get_default_value :: "'w type_info \<Rightarrow> location_default" where
  "get_default_value ti = (case ti_default_value_stack ti of d # ds \<Rightarrow> d | [] \<Rightarrow> PlainDefault PNone)"

section \<open>Fragment signatures\<close>

definition get_fragment_signatures :: "document_node \<Rightarrow> (pystr \<times> fragment_signature) list" where
  "get_fragment_signatures document =
     fold (\<lambda>d signatures. case d of
         FragmentDefinition fragment \<Rightarrow>
           dict_set (name_value (frag_name fragment))
             \<lparr>fs_definition = fragment,
              fs_variable_definitions =
                fold (\<lambda>v. dict_set (name_value (variable_name (vardef_variable v))) v)
                  (case frag_variable_definitions fragment of Some vs \<Rightarrow> vs | None \<Rightarrow> []) []\<rparr> signatures
       | _ \<Rightarrow> signatures) (document_definitions document) []"

section \<open>Entering and leaving nodes\<close>

lemma is_composite_named_case:
  "is_composite_named t = (case t of ObjectType _ \<Rightarrow> True | InterfaceType _ \<Rightarrow> True | UnionType _ \<Rightarrow> True | _ \<Rightarrow> False)"
  by (cases t) simp_all

definition is_composite_name :: "'w types \<Rightarrow> pystr \<Rightarrow> bool" where
  "is_composite_name types name = (case types name of Some t \<Rightarrow> is_composite_named t | None \<Rightarrow> False)"

definition if_output :: "'w types \<Rightarrow> gtype option \<Rightarrow> gtype option" where
  "if_output types t = (case t of Some u \<Rightarrow> if is_output_type types u then Some u else None | None \<Rightarrow> None)"

definition if_input :: "'w types \<Rightarrow> gtype option \<Rightarrow> gtype option" where
  "if_input types t = (case t of Some u \<Rightarrow> if is_input_type types u then Some u else None | None \<Rightarrow> None)"

definition enter_selection_set :: "'w schema \<Rightarrow> 'w type_info \<Rightarrow> 'w type_info" where
  "enter_selection_set schema ti =
     ti\<lparr>ti_parent_type_stack :=
       (case get_type_of ti of
          Some t \<Rightarrow> if is_composite_name (get_type schema) (get_named_type t) then Some (get_named_type t) else None
        | None \<Rightarrow> None) # ti_parent_type_stack ti\<rparr>"

definition enter_field :: "'w meta_fields \<Rightarrow> 'w schema \<Rightarrow> pystr \<Rightarrow> 'w type_info \<Rightarrow> 'w type_info" where
  "enter_field meta schema name ti =
     (let field_def = (case get_parent_type ti of
            Some parent_type \<Rightarrow> GraphQLSchema_get_field meta schema parent_type name
          | None \<Rightarrow> None)
      in ti\<lparr>ti_field_def_stack := field_def # ti_field_def_stack ti,
            ti_type_stack := if_output (get_type schema) (map_option fld_type field_def) # ti_type_stack ti\<rparr>)"

definition enter_operation_definition :: "'w schema \<Rightarrow> operation_type \<Rightarrow> 'w type_info \<Rightarrow> 'w type_info" where
  "enter_operation_definition schema operation ti =
     ti\<lparr>ti_type_stack :=
       (case get_root_type schema operation of
          Some name \<Rightarrow>
            (case get_type schema name of Some (ObjectType t) \<Rightarrow> Some (GNamed name) | _ \<Rightarrow> None)
        | None \<Rightarrow> None) # ti_type_stack ti\<rparr>"

definition enter_inline_fragment :: "'w schema \<Rightarrow> named_type_node option \<Rightarrow> 'w type_info \<Rightarrow> 'w type_info" where
  "enter_inline_fragment schema type_condition ti =
     ti\<lparr>ti_type_stack :=
       if_output (get_type schema)
         (case type_condition of
            Some t \<Rightarrow> type_from_ast (get_type schema) (NamedType t)
          | None \<Rightarrow> map_option (\<lambda>t. GNamed (get_named_type t)) (get_type_of ti)) # ti_type_stack ti\<rparr>"

definition enter_variable_definition :: "'w schema \<Rightarrow> type_node \<Rightarrow> 'w type_info \<Rightarrow> 'w type_info" where
  "enter_variable_definition schema t ti =
     ti\<lparr>ti_input_type_stack := if_input (get_type schema) (type_from_ast (get_type schema) t) # ti_input_type_stack ti\<rparr>"

definition push_input :: "'w schema \<Rightarrow> location_default \<Rightarrow> gtype option \<Rightarrow> 'w type_info \<Rightarrow> 'w type_info" where
  "push_input schema d t ti =
     ti\<lparr>ti_default_value_stack := d # ti_default_value_stack ti,
        ti_input_type_stack := if_input (get_type schema) t # ti_input_type_stack ti\<rparr>"

definition enter_fragment_argument :: "'w schema \<Rightarrow> pystr \<Rightarrow> 'w type_info \<Rightarrow> 'w type_info" where
  "enter_fragment_argument schema name ti =
     (let arg_def = (case ti_fragment_signature ti of
            Some signature \<Rightarrow> map_of (fs_variable_definitions signature) name
          | None \<Rightarrow> None)
      in push_input schema no_default
           (case arg_def of Some d \<Rightarrow> type_from_ast (get_type schema) (vardef_type d) | None \<Rightarrow> None)
           (ti\<lparr>ti_fragment_argument := arg_def\<rparr>))"

definition enter_argument :: "'w schema \<Rightarrow> pystr \<Rightarrow> 'w type_info \<Rightarrow> 'w type_info" where
  "enter_argument schema name ti =
     (let args = (case ti_directive ti of
            Some d \<Rightarrow> Some (dir_args d)
          | None \<Rightarrow> map_option fld_args (get_field_def_of ti));
          arg_def = (case args of Some as \<Rightarrow> map_of as name | None \<Rightarrow> None)
      in push_input schema (case arg_def of Some d \<Rightarrow> default_of d | None \<Rightarrow> no_default) (map_option iv_type arg_def)
           (ti\<lparr>ti_argument := arg_def\<rparr>))"

definition enter_list_value :: "'w schema \<Rightarrow> 'w type_info \<Rightarrow> 'w type_info" where
  "enter_list_value schema ti =
     push_input schema no_default
       (case map_option get_nullable_type (get_input_type ti) of Some (GList item_type) \<Rightarrow> Some item_type | _ \<Rightarrow> None) ti"

definition enter_object_field :: "'w schema \<Rightarrow> pystr \<Rightarrow> 'w type_info \<Rightarrow> 'w type_info" where
  "enter_object_field schema name ti =
     (let input_field = (case get_input_type ti of
            Some t \<Rightarrow>
              (case get_type schema (get_named_type t) of
                 Some (InputObjectType io) \<Rightarrow> map_of (io_fields io) name
               | _ \<Rightarrow> None)
          | None \<Rightarrow> None)
      in push_input schema (case input_field of Some d \<Rightarrow> default_of d | None \<Rightarrow> no_default)
           (map_option iv_type input_field) ti)"

definition enter_enum_value :: "'w schema \<Rightarrow> pystr \<Rightarrow> 'w type_info \<Rightarrow> 'w type_info" where
  "enter_enum_value schema name ti =
     ti\<lparr>ti_enum_value :=
       (case get_input_type ti of
          Some t \<Rightarrow>
            (case get_type schema (get_named_type t) of
               Some (EnumType e) \<Rightarrow> map_of (en_values e) name
             | _ \<Rightarrow> None)
        | None \<Rightarrow> None)\<rparr>"

definition pop_input :: "'w type_info \<Rightarrow> 'w type_info" where
  "pop_input ti =
     ti\<lparr>ti_default_value_stack := tl (ti_default_value_stack ti), ti_input_type_stack := tl (ti_input_type_stack ti)\<rparr>"

text \<open>\<open>TypeInfo.enter\<close> and \<open>TypeInfo.leave\<close> call the method for the kind of the node.\<close>

definition TypeInfo_enter :: "'w meta_fields \<Rightarrow> 'w schema \<Rightarrow> ast_node \<Rightarrow> 'w type_info \<Rightarrow> 'w type_info" where
  "TypeInfo_enter meta schema node ti =
     (case node of
        DocumentN document \<Rightarrow> ti\<lparr>ti_fragment_signatures_by_name := get_fragment_signatures document\<rparr>
      | SelectionSetN ss \<Rightarrow> enter_selection_set schema ti
      | SelectionN (FieldNode name alias_node arguments directives ss loc) \<Rightarrow> enter_field meta schema (name_value name) ti
      | SelectionN (FragmentSpreadNode name arguments directives loc) \<Rightarrow>
          ti\<lparr>ti_fragment_signature := map_of (ti_fragment_signatures_by_name ti) (name_value name)\<rparr>
      | SelectionN (InlineFragmentNode ss type_condition directives loc) \<Rightarrow> enter_inline_fragment schema type_condition ti
      | DirectiveN d \<Rightarrow> ti\<lparr>ti_directive := get_directive schema (name_value (directive_name d))\<rparr>
      | OperationN d \<Rightarrow> enter_operation_definition schema (op_operation d) ti
      | FragmentN d \<Rightarrow> enter_inline_fragment schema (Some (frag_type_condition d)) ti
      | VariableDefinitionN d \<Rightarrow> enter_variable_definition schema (vardef_type d) ti
      | FragmentArgumentN a \<Rightarrow> enter_fragment_argument schema (name_value (fragment_argument_name a)) ti
      | ArgumentN a \<Rightarrow> enter_argument schema (name_value (argument_name a)) ti
      | ValueN (ListValueNode vs loc) \<Rightarrow> enter_list_value schema ti
      | ObjectFieldN f \<Rightarrow> enter_object_field schema (name_value (object_field_name f)) ti
      | ValueN (EnumValueNode name loc) \<Rightarrow> enter_enum_value schema name ti
      | _ \<Rightarrow> ti)"

definition TypeInfo_leave :: "ast_node \<Rightarrow> 'w type_info \<Rightarrow> 'w type_info" where
  "TypeInfo_leave node ti =
     (case node of
        DocumentN document \<Rightarrow> ti\<lparr>ti_fragment_signatures_by_name := []\<rparr>
      | SelectionSetN ss \<Rightarrow> ti\<lparr>ti_parent_type_stack := tl (ti_parent_type_stack ti)\<rparr>
      | SelectionN (FieldNode name alias_node arguments directives ss loc) \<Rightarrow>
          ti\<lparr>ti_field_def_stack := tl (ti_field_def_stack ti), ti_type_stack := tl (ti_type_stack ti)\<rparr>
      | SelectionN (FragmentSpreadNode name arguments directives loc) \<Rightarrow> ti\<lparr>ti_fragment_signature := None\<rparr>
      | SelectionN (InlineFragmentNode ss type_condition directives loc) \<Rightarrow> ti\<lparr>ti_type_stack := tl (ti_type_stack ti)\<rparr>
      | DirectiveN d \<Rightarrow> ti\<lparr>ti_directive := None\<rparr>
      | OperationN d \<Rightarrow> ti\<lparr>ti_type_stack := tl (ti_type_stack ti)\<rparr>
      | FragmentN d \<Rightarrow> ti\<lparr>ti_type_stack := tl (ti_type_stack ti)\<rparr>
      | VariableDefinitionN d \<Rightarrow> ti\<lparr>ti_input_type_stack := tl (ti_input_type_stack ti)\<rparr>
      | FragmentArgumentN a \<Rightarrow> pop_input (ti\<lparr>ti_fragment_argument := None\<rparr>)
      | ArgumentN a \<Rightarrow> pop_input (ti\<lparr>ti_argument := None\<rparr>)
      | ValueN (ListValueNode vs loc) \<Rightarrow> pop_input ti
      | ObjectFieldN f \<Rightarrow> pop_input ti
      | ValueN (EnumValueNode name loc) \<Rightarrow> ti\<lparr>ti_enum_value := None\<rparr>
      | _ \<Rightarrow> ti)"

end
