(* ===== verification/Scalars.thy ===== *)
theory Scalars
  imports Type_System
begin

text \<open>
  The built-in scalar types (\<open>type/scalars.py\<close>).  The messages of the exceptions are given without the text
  of the value; \<open>repr\<close> is Python's text of a finite float and \<open>str_of_object\<close> the \<open>__str__\<close> of the user's classes.
\<close>

definition GRAPHQL_MAX_INT :: int where "GRAPHQL_MAX_INT = 2147483647"
definition GRAPHQL_MIN_INT :: int where "GRAPHQL_MIN_INT = -2147483648"

abbreviation not_integer :: py_error where
  "not_integer \<equiv> GraphQLError (str ''Int cannot represent non-integer value: '')"
abbreviation not_32_bit :: py_error where
  "not_32_bit \<equiv> GraphQLError (str ''Int cannot represent non 32-bit signed integer value: '')"
abbreviation not_numeric :: py_error where
  "not_numeric \<equiv> GraphQLError (str ''Float cannot represent non numeric value: '')"
abbreviation not_string :: py_error where
  "not_string \<equiv> GraphQLError (str ''String cannot represent a non string value: '')"
abbreviation not_boolean :: py_error where
  "not_boolean \<equiv> GraphQLError (str ''Boolean cannot represent a non boolean value: '')"
abbreviation not_id :: py_error where
  "not_id \<equiv> GraphQLError (str ''ID cannot represent value: '')"

section \<open>Int\<close>

definition coerce_int_from_number :: "py_value \<Rightarrow> py_error + py_value" where
  "coerce_int_from_number v =
     (case v of
        PInt n \<Rightarrow> if GRAPHQL_MIN_INT \<le> n \<and> n \<le> GRAPHQL_MAX_INT then Inr (PInt n) else Inl not_32_bit
      | PFloat (FFinite q) \<Rightarrow>
          if of_int (truncate_rat q) \<noteq> q then Inl not_integer
          else if of_int GRAPHQL_MIN_INT \<le> q \<and> q \<le> of_int GRAPHQL_MAX_INT then Inr (PInt (truncate_rat q))
          else Inl not_32_bit
      | _ \<Rightarrow> Inl not_integer)"

definition coerce_int_from_string :: "pystr \<Rightarrow> py_error + py_value" where
  "coerce_int_from_string s =
     (if s = [] then Inl not_integer
      else case int_of_str s of
        None \<Rightarrow> Inl not_integer
      | Some n \<Rightarrow> if GRAPHQL_MIN_INT \<le> n \<and> n \<le> GRAPHQL_MAX_INT then Inr (PInt n) else Inl not_32_bit)"

definition serialize_int :: "py_value \<Rightarrow> py_error + py_value" where
  "serialize_int v =
     (case v of
        PBool b \<Rightarrow> Inr (PInt (if b then 1 else 0))
      | PInt n \<Rightarrow> coerce_int_from_number v
      | PFloat x \<Rightarrow> coerce_int_from_number v
      | PStr s \<Rightarrow> coerce_int_from_string s
      | _ \<Rightarrow> Inl not_integer)"

definition coerce_int :: "py_value \<Rightarrow> py_error + py_value" where
  "coerce_int v =
     (case v of PInt n \<Rightarrow> coerce_int_from_number v | PFloat x \<Rightarrow> coerce_int_from_number v | _ \<Rightarrow> Inl not_integer)"

definition parse_int_literal :: "value_node \<Rightarrow> py_error + py_value" where
  "parse_int_literal node =
     (case node of
        IntValueNode s loc \<Rightarrow>
          (case int_of_str s of
             None \<Rightarrow> Inl (ValueError (str ''invalid literal for int()''))
           | Some n \<Rightarrow> if GRAPHQL_MIN_INT \<le> n \<and> n \<le> GRAPHQL_MAX_INT then Inr (PInt n) else Inl not_32_bit)
      | _ \<Rightarrow> Inl not_integer)"

definition int_value_to_literal :: "py_value \<Rightarrow> py_error + value_node option" where
  "int_value_to_literal v =
     (case v of
        PInt n \<Rightarrow>
          if GRAPHQL_MIN_INT \<le> n \<and> n \<le> GRAPHQL_MAX_INT
          then bind_result (str_of_int n) (\<lambda>s. Inr (Some (IntValueNode s None))) else Inr None
      | PFloat (FFinite q) \<Rightarrow>
          if q = of_int (truncate_rat q) \<and> of_int GRAPHQL_MIN_INT \<le> q \<and> q \<le> of_int GRAPHQL_MAX_INT
          then bind_result (str_of_int (truncate_rat q)) (\<lambda>s. Inr (Some (IntValueNode s None))) else Inr None
      | _ \<Rightarrow> Inr None)"

section \<open>Float\<close>

definition coerce_float_from_number :: "pyfloat \<Rightarrow> py_error + py_value" where
  "coerce_float_from_number x = (if \<not> isfinite x then Inl not_numeric else Inr (PFloat x))"

definition coerce_float_from_string :: "pystr \<Rightarrow> py_error + py_value" where
  "coerce_float_from_string s =
     (if s = [] then Inl not_numeric
      else case float_of_str s of
        None \<Rightarrow> Inl not_numeric
      | Some x \<Rightarrow> if \<not> isfinite x then Inl not_numeric else Inr (PFloat x))"

definition coerce_float_from_int :: "int \<Rightarrow> py_error + py_value" where
  "coerce_float_from_int n =
     (case float_of_int n of
        Some (FFinite q) \<Rightarrow> if truncate_rat q \<noteq> n then Inl not_numeric else Inr (PFloat (FFinite q))
      | _ \<Rightarrow> Inl not_numeric)"

definition serialize_float :: "py_value \<Rightarrow> py_error + py_value" where
  "serialize_float v =
     (case v of
        PBool b \<Rightarrow> Inr (PInt (if b then 1 else 0))
      | PFloat x \<Rightarrow> coerce_float_from_number x
      | PInt n \<Rightarrow> coerce_float_from_int n
      | PStr s \<Rightarrow> coerce_float_from_string s
      | _ \<Rightarrow> Inl not_numeric)"

definition coerce_float :: "py_value \<Rightarrow> py_error + py_value" where
  "coerce_float v =
     (case v of PFloat x \<Rightarrow> coerce_float_from_number x | PInt n \<Rightarrow> coerce_float_from_int n | _ \<Rightarrow> Inl not_numeric)"

definition parse_float_literal :: "value_node \<Rightarrow> py_error + py_value" where
  "parse_float_literal node =
     (case node of
        FloatValueNode s loc \<Rightarrow>
          (case float_of_str s of Some x \<Rightarrow> Inr (PFloat x)
           | None \<Rightarrow> Inl (ValueError (str ''could not convert string to float'')))
      | IntValueNode s loc \<Rightarrow>
          (case float_of_str s of Some x \<Rightarrow> Inr (PFloat x)
           | None \<Rightarrow> Inl (ValueError (str ''could not convert string to float'')))
      | _ \<Rightarrow> Inl not_numeric)"

section \<open>Literals of scalars without a type\<close>

text \<open>
  \<open>_re_integer_string\<close> is \<open>^-?(?:0|[1-9][0-9]*)$\<close>: the dollar also matches before a line feed at the end.
\<close>

definition is_plain_integer :: "pystr \<Rightarrow> bool" where
  "is_plain_integer s =
     (let digits = (case s of c # s' \<Rightarrow> if c = 45 then s' else s | [] \<Rightarrow> [])
      in digits = [48] \<or> (digits \<noteq> [] \<and> hd digits \<noteq> 48 \<and> list_all (\<lambda>c. 48 \<le> c \<and> c \<le> 57) digits))"

definition re_integer_string :: "pystr \<Rightarrow> bool" where
  "re_integer_string s \<longleftrightarrow> is_plain_integer s \<or> (s \<noteq> [] \<and> last s = 10 \<and> is_plain_integer (butlast s))"

definition number_literal :: "pystr \<Rightarrow> value_node" where
  "number_literal s = (if re_integer_string s then IntValueNode s None else FloatValueNode s None)"

fun collect_results :: "(py_error + 'a) list \<Rightarrow> py_error + 'a list" where
  "collect_results [] = Inr []"
| "collect_results (r # rs) = bind_result r (\<lambda>x. bind_result (collect_results rs) (\<lambda>xs. Inr (x # xs)))"

text \<open>\<open>default_scalar_value_to_literal\<close> (\<open>utilities/value_to_literal.py\<close>)\<close>

function default_scalar_value_to_literal :: "(rat \<Rightarrow> pystr) \<Rightarrow> py_value \<Rightarrow> py_error + value_node" where
  "default_scalar_value_to_literal repr PNone = Inr (NullValueNode None)"
| "default_scalar_value_to_literal repr PUndefined = Inr (NullValueNode None)"
| "default_scalar_value_to_literal repr (PBool b) = Inr (BooleanValueNode b None)"
| "default_scalar_value_to_literal repr (PStr s) = Inr (StringValue (StringValueNode s (Some False) None))"
| "default_scalar_value_to_literal repr (PInt n) =
     bind_result (str_of_int n) (\<lambda>s. Inr (number_literal s))"
| "default_scalar_value_to_literal repr (PFloat x) =
     (case x of FFinite q \<Rightarrow> Inr (number_literal (repr q)) | _ \<Rightarrow> Inr (NullValueNode None))"
| "default_scalar_value_to_literal repr (PList vs) =
     bind_result (collect_results (map (default_scalar_value_to_literal repr) vs))
       (\<lambda>nodes. Inr (ListValueNode nodes None))"
| "default_scalar_value_to_literal repr (PDict d) =
     bind_result (collect_results (map (\<lambda>(k, v).
         bind_result (default_scalar_value_to_literal repr v)
           (\<lambda>node. Inr (ObjectFieldNode (NameNode k None) node None)))
         (filter (\<lambda>(k, v). v \<noteq> PUndefined) d)))
       (\<lambda>fields. Inr (ObjectValueNode fields None))"
| "default_scalar_value_to_literal repr (PObject i) = Inl (TypeError (str ''Cannot convert value to AST: ''))"
| "default_scalar_value_to_literal repr (PException e) = Inl (TypeError (str ''Cannot convert value to AST: ''))"
  by pat_completeness auto
termination
  by (relation "measure (\<lambda>(repr, v). size v)") (auto intro: size_list_item size_dict_item)

definition literal_of_kind ::
  "(value_node \<Rightarrow> bool) \<Rightarrow> py_error + value_node \<Rightarrow> py_error + value_node option" where
  "literal_of_kind p r = bind_result r (\<lambda>node. Inr (if p node then Some node else None))"

fun is_number_node :: "value_node \<Rightarrow> bool" where
  "is_number_node (FloatValueNode s loc) = True"
| "is_number_node (IntValueNode s loc) = True"
| "is_number_node _ = False"

definition float_value_to_literal :: "(rat \<Rightarrow> pystr) \<Rightarrow> py_value \<Rightarrow> py_error + value_node option" where
  "float_value_to_literal repr v = literal_of_kind is_number_node (default_scalar_value_to_literal repr v)"

section \<open>String\<close>

definition serialize_string :: "(rat \<Rightarrow> pystr) \<Rightarrow> (nat \<Rightarrow> pystr) \<Rightarrow> py_value \<Rightarrow> py_error + py_value" where
  "serialize_string repr str_of_object v =
     (case v of
        PStr s \<Rightarrow> Inr v
      | PBool b \<Rightarrow> Inr (PStr (if b then str ''true'' else str ''false''))
      | PFloat (FFinite q) \<Rightarrow> Inr (PStr (repr q))
      | PInt n \<Rightarrow> bind_result (str_of_int n) (\<lambda>s. Inr (PStr s))
      | PObject i \<Rightarrow> Inr (PStr (str_of_object i))
      | PUndefined \<Rightarrow> Inr (PStr (str ''Undefined''))
      | _ \<Rightarrow> Inl (GraphQLError (str ''String cannot represent value: '')))"

definition coerce_string :: "py_value \<Rightarrow> py_error + py_value" where
  "coerce_string v = (case v of PStr s \<Rightarrow> Inr v | _ \<Rightarrow> Inl not_string)"

definition parse_string_literal :: "value_node \<Rightarrow> py_error + py_value" where
  "parse_string_literal node =
     (case node of StringValue s \<Rightarrow> Inr (PStr (string_value s)) | _ \<Rightarrow> Inl not_string)"

fun is_string_node :: "value_node \<Rightarrow> bool" where
  "is_string_node (StringValue s) = True"
| "is_string_node _ = False"

definition string_value_to_literal :: "(rat \<Rightarrow> pystr) \<Rightarrow> py_value \<Rightarrow> py_error + value_node option" where
  "string_value_to_literal repr v = literal_of_kind is_string_node (default_scalar_value_to_literal repr v)"

section \<open>Boolean\<close>

definition serialize_boolean :: "py_value \<Rightarrow> py_error + py_value" where
  "serialize_boolean v =
     (case v of
        PBool b \<Rightarrow> Inr v
      | PFloat (FFinite q) \<Rightarrow> Inr (PBool (q \<noteq> 0))
      | PInt n \<Rightarrow> Inr (PBool (n \<noteq> 0))
      | _ \<Rightarrow> Inl not_boolean)"

definition coerce_boolean :: "py_value \<Rightarrow> py_error + py_value" where
  "coerce_boolean v = (case v of PBool b \<Rightarrow> Inr v | _ \<Rightarrow> Inl not_boolean)"

definition parse_boolean_literal :: "value_node \<Rightarrow> py_error + py_value" where
  "parse_boolean_literal node = (case node of BooleanValueNode b loc \<Rightarrow> Inr (PBool b) | _ \<Rightarrow> Inl not_boolean)"

fun is_boolean_node :: "value_node \<Rightarrow> bool" where
  "is_boolean_node (BooleanValueNode b loc) = True"
| "is_boolean_node _ = False"

definition boolean_value_to_literal :: "(rat \<Rightarrow> pystr) \<Rightarrow> py_value \<Rightarrow> py_error + value_node option" where
  "boolean_value_to_literal repr v = literal_of_kind is_boolean_node (default_scalar_value_to_literal repr v)"

section \<open>ID\<close>

definition coerce_id_from_number :: "py_value \<Rightarrow> py_error + pystr" where
  "coerce_id_from_number v =
     (case v of
        PInt n \<Rightarrow> str_of_int n
      | PFloat (FFinite q) \<Rightarrow> if of_int (truncate_rat q) \<noteq> q then Inl not_id else str_of_int (truncate_rat q)
      | _ \<Rightarrow> Inl not_id)"

definition serialize_id :: "(nat \<Rightarrow> pystr) \<Rightarrow> py_value \<Rightarrow> py_error + py_value" where
  "serialize_id str_of_object v =
     (case v of
        PStr s \<Rightarrow> Inr v
      | PInt n \<Rightarrow> bind_result (coerce_id_from_number v) (\<lambda>s. Inr (PStr s))
      | PFloat x \<Rightarrow> bind_result (coerce_id_from_number v) (\<lambda>s. Inr (PStr s))
      | PObject i \<Rightarrow> Inr (PStr (str_of_object i))
      | PUndefined \<Rightarrow> Inr (PStr (str ''Undefined''))
      | _ \<Rightarrow> Inl not_id)"

definition coerce_id :: "py_value \<Rightarrow> py_error + py_value" where
  "coerce_id v =
     (case v of
        PStr s \<Rightarrow> Inr v
      | PInt n \<Rightarrow> bind_result (coerce_id_from_number v) (\<lambda>s. Inr (PStr s))
      | PFloat x \<Rightarrow> bind_result (coerce_id_from_number v) (\<lambda>s. Inr (PStr s))
      | _ \<Rightarrow> Inl not_id)"

definition parse_id_literal :: "value_node \<Rightarrow> py_error + py_value" where
  "parse_id_literal node =
     (case node of
        StringValue s \<Rightarrow> Inr (PStr (string_value s))
      | IntValueNode s loc \<Rightarrow> Inr (PStr s)
      | _ \<Rightarrow> Inl (GraphQLError (str ''ID cannot represent a non-string and non-integer value: '')))"

definition id_value_to_literal :: "py_value \<Rightarrow> py_error + value_node option" where
  "id_value_to_literal v =
     (case v of
        PStr s \<Rightarrow>
          Inr (Some (if re_integer_string s then IntValueNode s None
                     else StringValue (StringValueNode s (Some False) None)))
      | PInt n \<Rightarrow> bind_result (coerce_id_from_number v) (\<lambda>s. Inr (Some (IntValueNode s None)))
      | PFloat x \<Rightarrow> bind_result (coerce_id_from_number v) (\<lambda>s. Inr (Some (IntValueNode s None)))
      | _ \<Rightarrow> Inr None)"

section \<open>The types\<close>

text \<open>
  \<open>parse_literal\<close> is not given for the built-in scalars and is never called, since they have a
  \<open>coerce_input_literal\<close>; its place is taken by the latter.
\<close>

definition scalar ::
  "string \<Rightarrow> (py_value \<Rightarrow> py_error + py_value) \<Rightarrow> (py_value \<Rightarrow> py_error + py_value)
    \<Rightarrow> (value_node \<Rightarrow> py_error + py_value) \<Rightarrow> (py_value \<Rightarrow> py_error + value_node option) \<Rightarrow> scalar_type" where
  "scalar name output input literal to_literal =
     \<lparr>sc_name = str name, sc_coerce_output_value = output, sc_coerce_input_value = input,
      sc_coerce_input_literal = Some literal, sc_parse_literal = (\<lambda>node variables. literal node),
      sc_value_to_literal = Some to_literal\<rparr>"

definition GraphQLInt :: scalar_type where
  "GraphQLInt = scalar ''Int'' serialize_int coerce_int parse_int_literal int_value_to_literal"

definition GraphQLFloat :: "(rat \<Rightarrow> pystr) \<Rightarrow> scalar_type" where
  "GraphQLFloat repr = scalar ''Float'' serialize_float coerce_float parse_float_literal (float_value_to_literal repr)"

definition GraphQLString :: "(rat \<Rightarrow> pystr) \<Rightarrow> (nat \<Rightarrow> pystr) \<Rightarrow> scalar_type" where
  "GraphQLString repr str_of_object =
     scalar ''String'' (serialize_string repr str_of_object) coerce_string parse_string_literal (string_value_to_literal repr)"

definition GraphQLBoolean :: "(rat \<Rightarrow> pystr) \<Rightarrow> scalar_type" where
  "GraphQLBoolean repr =
     scalar ''Boolean'' serialize_boolean coerce_boolean parse_boolean_literal (boolean_value_to_literal repr)"

definition GraphQLID :: "(nat \<Rightarrow> pystr) \<Rightarrow> scalar_type" where
  "GraphQLID str_of_object = scalar ''ID'' (serialize_id str_of_object) coerce_id parse_id_literal id_value_to_literal"

definition specified_scalar_types :: "(rat \<Rightarrow> pystr) \<Rightarrow> (nat \<Rightarrow> pystr) \<Rightarrow> (pystr \<times> scalar_type) list" where
  "specified_scalar_types repr str_of_object =
     map (\<lambda>t. (sc_name t, t))
       [GraphQLString repr str_of_object, GraphQLInt, GraphQLFloat repr, GraphQLBoolean repr, GraphQLID str_of_object]"

end
