(* ===== verification/Scalar_Facts.thy ===== *)
theory Scalar_Facts
  imports Scalars
begin

text \<open>
  What the built-in scalars accept and produce: integers of 32 bits, exact floats, and the contract between
  the three functions of a leaf type.
\<close>

section \<open>Integers as text\<close>

lemma dec_digits_range: "c \<in> set (dec_digits n) \<Longrightarrow> 48 \<le> c \<and> c < 58"
proof (induction n rule: dec_digits.induct)
  case (1 n)
  then show ?case by (subst (asm) dec_digits.simps) (auto split: if_splits)
qed

lemma dec_digits_not_empty [simp]: "dec_digits n \<noteq> []"
  by (subst dec_digits.simps) simp

lemma digits_value_snoc: "digits_value (ds @ [d]) = 10 * digits_value ds + d"
  by (simp add: digits_value_def)

lemma digits_value_dec: "digits_value (map (\<lambda>c. c - 48) (dec_digits n)) = n"
proof (induction n rule: dec_digits.induct)
  case (1 n)
  show ?case
  proof (cases "n < 10")
    case True
    then show ?thesis by (subst dec_digits.simps) (simp add: digits_value_def)
  next
    case False
    with 1 show ?thesis by (subst dec_digits.simps) (simp add: digits_value_snoc)
  qed
qed

lemma digit_value_ascii: "48 \<le> c \<Longrightarrow> c < 58 \<Longrightarrow> digit_value c = Some (c - 48)"
  by (simp add: digit_value_def digit_blocks_def)

lemma digit_part_ascii:
  "\<forall>c \<in> set s. 48 \<le> c \<and> c < 58 \<Longrightarrow> digit_part s = (map (\<lambda>c. c - 48) s, [])"
proof (induction s rule: digit_part.induct)
  case (2 c s)
  then show ?case by (cases s) (auto simp: digit_value_ascii)
qed simp

lemma not_space: "c = 45 \<or> 48 \<le> c \<and> c < 58 \<Longrightarrow> \<not> is_py_space c"
  by (auto simp: is_py_space_def)

lemma py_strip_no_space:
  assumes "\<forall>c \<in> set s. \<not> is_py_space c"
  shows "py_strip s = s"
proof -
  have "dropWhile is_py_space t = t" if "\<forall>c \<in> set t. \<not> is_py_space c" for t
    using that by (cases t) simp_all
  from this [of s] this [of "rev s"] assms show ?thesis by (simp add: py_strip_def)
qed

definition short_int :: "int \<Rightarrow> bool" where
  "short_int n \<longleftrightarrow> length (dec_digits (nat \<bar>n\<bar>)) \<le> int_max_str_digits"

lemma str_of_int_short: "short_int n \<Longrightarrow> str_of_int n = Inr (show_int n)"
  by (simp add: short_int_def str_of_int_def)

lemma str_of_int_Inr: "str_of_int n = Inr s \<longleftrightarrow> short_int n \<and> s = show_int n"
  by (auto simp: short_int_def str_of_int_def)

lemma int_of_str_show:
  assumes "short_int n"
  shows "int_of_str (show_int n) = Some n"
proof -
  have strip: "py_strip (show_int n) = show_int n"
    by (rule py_strip_no_space) (auto simp: show_int_def not_space dest!: dec_digits_range)
  let ?ds = "dec_digits (nat \<bar>n\<bar>)"
  have sign: "take_sign (show_int n) = (n < 0, ?ds)"
  proof (cases "n < 0")
    case False
    obtain c cs where ds: "?ds = c # cs" by (cases ?ds) auto
    then have "48 \<le> c" using dec_digits_range [of c "nat \<bar>n\<bar>"] by simp
    with False ds show ?thesis by (simp add: show_int_def)
  qed (simp add: show_int_def)
  have part: "digit_part ?ds = (map (\<lambda>c. c - 48) ?ds, [])"
    by (rule digit_part_ascii) (auto dest: dec_digits_range)
  show ?thesis
    using assms by (simp add: int_of_str_def strip sign part digits_value_dec short_int_def)
qed

lemma dec_digits_length: "n < 10 ^ k \<Longrightarrow> 0 < k \<Longrightarrow> length (dec_digits n) \<le> k"
proof (induction k arbitrary: n)
  case (Suc k)
  show ?case
  proof (cases "n < 10")
    case False
    with Suc.prems have "n div 10 < 10 ^ k" "0 < k" by (auto intro: ccontr)
    with Suc.IH [of "n div 10"] False show ?thesis by (subst dec_digits.simps) simp
  qed (subst dec_digits.simps, simp)
qed simp

section \<open>Int\<close>

definition is_32_bit :: "int \<Rightarrow> bool" where
  "is_32_bit n \<longleftrightarrow> - (2 ^ 31) \<le> n \<and> n < 2 ^ 31"

lemma is_32_bit_bounds: "is_32_bit n \<longleftrightarrow> GRAPHQL_MIN_INT \<le> n \<and> n \<le> GRAPHQL_MAX_INT"
  by (auto simp: is_32_bit_def GRAPHQL_MIN_INT_def GRAPHQL_MAX_INT_def)

lemma short_32_bit:
  assumes "is_32_bit n"
  shows "short_int n"
proof -
  have "nat \<bar>n\<bar> < 10 ^ 10" using assms by (simp add: is_32_bit_def nat_less_iff abs_if)
  from dec_digits_length [OF this] show ?thesis by (simp add: short_int_def int_max_str_digits_def)
qed

lemma coerce_int_from_number_range:
  "coerce_int_from_number v = Inr w \<Longrightarrow> \<exists>n. w = PInt n \<and> is_32_bit n"
proof (cases v)
  case (PFloat x)
  assume "coerce_int_from_number v = Inr w"
  with PFloat show ?thesis
    by (cases x) (auto simp: coerce_int_from_number_def is_32_bit_bounds split: if_splits
        dest!: iffD1 [OF truncate_eq_iff])
qed (auto simp: coerce_int_from_number_def is_32_bit_bounds split: if_splits)

text \<open>
  C31.  The scalar \<open>Int\<close> is the 32-bit integers: whatever it serializes or coerces from a value or a literal is
  an integer of 32 bits, and each of them comes through unchanged, given as a number, as a string
  (on output only) or as a literal.
\<close>

theorem int_is_32_bit:
  "(serialize_int v = Inr w \<or> coerce_int v = Inr w \<or> parse_int_literal node = Inr w
      \<longrightarrow> (\<exists>n. w = PInt n \<and> is_32_bit n))
   \<and> (coerce_int (PInt n) = Inr (PInt n) \<longleftrightarrow> is_32_bit n)
   \<and> (serialize_int (PInt n) = Inr (PInt n) \<longleftrightarrow> is_32_bit n)
   \<and> (is_32_bit n \<longrightarrow>
        serialize_int (PStr (show_int n)) = Inr (PInt n)
        \<and> parse_int_literal (IntValueNode (show_int n) loc) = Inr (PInt n)
        \<and> coerce_int (PStr (show_int n)) = Inl not_integer)"
proof (intro conjI impI)
  assume *: "serialize_int v = Inr w \<or> coerce_int v = Inr w \<or> parse_int_literal node = Inr w"
  have string: "coerce_int_from_string s = Inr w \<Longrightarrow> \<exists>n. w = PInt n \<and> is_32_bit n" for s
    by (auto simp: coerce_int_from_string_def is_32_bit_bounds split: if_splits option.splits)
  have "parse_int_literal node = Inr w \<Longrightarrow> \<exists>n. w = PInt n \<and> is_32_bit n"
    by (cases node) (auto simp: parse_int_literal_def is_32_bit_bounds split: if_splits option.splits)
  moreover have "coerce_int v = Inr w \<Longrightarrow> \<exists>n. w = PInt n \<and> is_32_bit n"
    by (cases v) (auto simp: coerce_int_def dest: coerce_int_from_number_range)
  moreover have "serialize_int v = Inr w \<Longrightarrow> \<exists>n. w = PInt n \<and> is_32_bit n"
    by (cases v) (auto simp: serialize_int_def is_32_bit_def dest: coerce_int_from_number_range string)
  ultimately show "\<exists>n. w = PInt n \<and> is_32_bit n" using * by blast
next
  assume n: "is_32_bit n"
  have "show_int n \<noteq> []" by (simp add: show_int_def)
  with n int_of_str_show [OF short_32_bit [OF n]] show "serialize_int (PStr (show_int n)) = Inr (PInt n)"
    by (simp add: serialize_int_def coerce_int_from_string_def is_32_bit_bounds)
  from n int_of_str_show [OF short_32_bit [OF n]]
  show "parse_int_literal (IntValueNode (show_int n) loc) = Inr (PInt n)"
    by (simp add: parse_int_literal_def is_32_bit_bounds)
qed (auto simp: coerce_int_def serialize_int_def coerce_int_from_number_def is_32_bit_bounds)

lemma int_is_32_bit_witness:
  "(\<exists>n. PInt 42 = PInt n \<and> is_32_bit n) \<and> serialize_int (PStr (show_int (-7))) = Inr (PInt (-7))"
proof -
  have "serialize_int (PStr (str ''42'')) = Inr (PInt 42)" by code_simp
  moreover have "is_32_bit (-7)" by (simp add: is_32_bit_def)
  ultimately show ?thesis using int_is_32_bit by blast
qed

section \<open>Float\<close>

lemma bit_length_one [simp]: "bit_length (Suc 0) = 1"
  by (simp add: bit_length.simps [of "Suc 0"] bit_length.simps [of 0])

lemma bit_length_bounds: "0 < n \<Longrightarrow> 2 ^ (bit_length n - 1) \<le> n \<and> n < 2 ^ bit_length n \<and> 0 < bit_length n"
proof (induction n rule: bit_length.induct)
  case (1 n)
  show ?case
  proof (cases "n = 1")
    case False
    define p :: nat where "p = 2 ^ (bit_length (n div 2) - 1)"
    from False 1 have "p \<le> n div 2" "n div 2 < 2 ^ bit_length (n div 2)" and pos: "0 < bit_length (n div 2)"
      by (auto simp: p_def)
    moreover from pos have double: "(2::nat) ^ bit_length (n div 2) = 2 * p" by (simp add: p_def flip: power_Suc)
    ultimately have "2 * p \<le> n" "n < 4 * p" by linarith+
    moreover have "bit_length n = Suc (bit_length (n div 2))" using 1(2) by (subst bit_length.simps) simp
    ultimately show ?thesis by (simp add: double)
  qed simp
qed

lemma round_half_even_of_int [simp]: "round_half_even (of_int k) = k"
  by (simp add: round_half_even_def)

lemma pow2_nat: "pow2 (int k) = 2 ^ k" "pow2 (- int k) = 1 / 2 ^ k"
  by (simp add: pow2_def) (cases "k = 0"; simp add: pow2_def)

text \<open>The positive integers: the exponent fits the number of bits.\<close>

lemma round_positive_int:
  assumes "0 < n"
  defines "e \<equiv> int (bit_length n) - 53"
  shows "round_positive (of_nat n) =
    (let x = of_int (round_half_even (of_nat n / pow2 e)) * pow2 e in if x \<ge> 2 ^ 1024 then FInf True else FFinite x)"
proof -
  have q: "quotient_of (of_nat n) = (int n, 1)" by (simp add: quotient_of_int [of "int n", simplified])
  have guess: "of_nat n / pow2 (e - 1) \<ge> (2 :: rat) ^ 53"
  proof (cases "e - 1 \<ge> 0")
    case True
    then obtain k where k: "e - 1 = int k" by (metis zero_le_imp_eq_int)
    then have "bit_length n - 1 = k + 53" by (simp add: e_def)
    with bit_length_bounds [OF assms(1)] have "2 ^ (k + 53) \<le> n" by simp
    then have "(2 :: rat) ^ (k + 53) \<le> of_nat n" by (metis of_nat_le_iff of_nat_numeral of_nat_power)
    with k show ?thesis by (simp add: pow2_nat field_simps power_add)
  next
    case False
    then obtain k where k: "e - 1 = - int k" "0 < k"
      by (metis int_cases3 linorder_not_le of_nat_0_le_iff order_refl)
    then have "bit_length n - 1 + k = 53" using bit_length_bounds [OF assms(1)] by (simp add: e_def)
    then have "(2 :: rat) ^ 53 = 2 ^ (bit_length n - 1) * 2 ^ k" by (simp flip: power_add)
    also have "\<dots> \<le> of_nat n * 2 ^ k"
      using bit_length_bounds [OF assms(1)]
      by (intro mult_right_mono) (metis of_nat_le_iff of_nat_numeral of_nat_power, simp)
    finally show ?thesis using k by (simp add: pow2_nat)
  qed
  have "max (-1074) e = e" using bit_length_bounds [OF assms(1)] by (simp add: e_def)
  moreover have "int (bit_length n) - int (bit_length (nat 1)) - 53 = e - 1" by (simp add: e_def)
  ultimately show ?thesis
    using guess by (simp add: round_positive_def q Let_def)
qed

lemma bit_length_le:
  assumes "n < 2 ^ k"
  shows "bit_length n \<le> k"
proof (rule ccontr)
  assume long: "\<not> bit_length n \<le> k"
  then have "0 < n" by (cases n) (simp_all add: bit_length.simps [of 0])
  have "(2::nat) ^ k \<le> 2 ^ (bit_length n - 1)" using long by (intro power_increasing) auto
  with bit_length_bounds [OF \<open>0 < n\<close>] assms show False by linarith
qed

lemma round_positive_exact:
  assumes "0 < n" and "n < 2 ^ 53"
  shows "round_positive (of_nat n) = FFinite (of_nat n)"
proof -
  obtain k where k: "int (bit_length n) - 53 = - int k"
    using bit_length_le [OF assms(2)] by (metis diff_ge_0_iff_ge minus_diff_eq nonneg_int_cases of_nat_le_iff of_nat_numeral)
  have "of_nat n / pow2 (- int k) = (of_int (int n * 2 ^ k) :: rat)" by (simp add: pow2_nat)
  then have "of_int (round_half_even (of_nat n / pow2 (- int k))) * pow2 (- int k) = (of_nat n :: rat)"
    by (simp only: round_half_even_of_int) (simp add: pow2_nat)
  moreover have "(of_nat n :: rat) < 2 ^ 1024"
  proof -
    have "(of_nat n :: rat) < 2 ^ 53" using assms(2) by (metis of_nat_less_iff of_nat_numeral of_nat_power)
    also have "(2 :: rat) ^ 53 \<le> 2 ^ 1024" by (rule power_increasing) simp_all
    finally show ?thesis .
  qed
  ultimately show ?thesis using round_positive_int [OF assms(1)] k by (simp add: Let_def)
qed

lemma round_positive_integer:
  assumes "0 < n" and "round_positive (of_nat n) = FFinite q"
  shows "\<exists>k. q = of_int k"
proof (cases "n < 2 ^ 53")
  case True
  with round_positive_exact [OF assms(1)] assms(2) show ?thesis by (metis of_int_of_nat_eq pyfloat.inject(1))
next
  case False
  have "bit_length n \<ge> 53"
  proof (rule ccontr)
    assume "\<not> bit_length n \<ge> 53"
    then have "(2::nat) ^ bit_length n \<le> 2 ^ 53" by (intro power_increasing) auto
    with False bit_length_bounds [OF assms(1)] show False by linarith
  qed
  then obtain k where "int (bit_length n) - 53 = int k" by (metis diff_ge_0_iff_ge nonneg_int_cases of_nat_le_iff of_nat_numeral)
  with round_positive_int [OF assms(1)] assms(2)
  have "q = of_int (round_half_even (of_nat n / pow2 (int k))) * pow2 (int k)"
    by (simp add: Let_def split: if_splits)
  then have "q = of_int (round_half_even (of_nat n / pow2 (int k)) * 2 ^ k)" by (simp add: pow2_nat)
  then show ?thesis by blast
qed

lemma float_of_int_integer:
  assumes "float_of_int n = Some (FFinite q)"
  shows "\<exists>k. q = of_int k"
proof -
  consider "n = 0" | "n > 0" | "n < 0" by linarith
  then show ?thesis
  proof cases
    case 1
    with assms show ?thesis by (auto simp: float_of_int_def round_to_float_def intro: exI [of _ 0])
  next
    case 2
    then obtain m where m: "n = int m" "0 < m" by (metis pos_int_cases)
    with assms have "round_positive (of_nat m) = FFinite q"
      by (auto simp: float_of_int_def round_to_float_def split: pyfloat.splits)
    with m(2) show ?thesis by (rule round_positive_integer)
  next
    case 3
    then obtain m where m: "n = - int m" "0 < m" by (metis neg_int_cases)
    with assms obtain r where "round_positive (of_nat m) = FFinite r" "q = - r"
      by (auto simp: float_of_int_def round_to_float_def split: pyfloat.splits)
    with round_positive_integer [OF m(2)] show ?thesis by (metis of_int_minus)
  qed
qed

lemma float_of_int_exact:
  assumes "\<bar>n\<bar> < 2 ^ 53"
  shows "float_of_int n = Some (FFinite (of_int n))"
proof -
  consider "n = 0" | "n > 0" | "n < 0" by linarith
  then show ?thesis
  proof cases
    case 2
    then obtain m where m: "n = int m" "0 < m" by (metis pos_int_cases)
    with assms have "m < 2 ^ 53" by simp
    with round_positive_exact m show ?thesis by (simp add: float_of_int_def round_to_float_def)
  next
    case 3
    then obtain m where m: "n = - int m" "0 < m" by (metis neg_int_cases)
    with assms have "m < 2 ^ 53" by simp
    with round_positive_exact m show ?thesis by (simp add: float_of_int_def round_to_float_def)
  qed (simp add: float_of_int_def round_to_float_def)
qed

text \<open>
  C32.  The scalar \<open>Float\<close> never changes an integer: an integer that is coerced, on input or output, comes out as the
  float of exactly the same value, every integer below \<open>2 ^ 53\<close> in absolute value is accepted, and no infinity or
  \<open>nan\<close> gets through.
\<close>

theorem float_is_exact:
  "(coerce_float (PInt n) = Inr w \<or> serialize_float (PInt n) = Inr w \<longrightarrow> w = PFloat (FFinite (of_int n)))
   \<and> (\<bar>n\<bar> < 2 ^ 53 \<longrightarrow> coerce_float (PInt n) = Inr (PFloat (FFinite (of_int n)))
        \<and> serialize_float (PInt n) = Inr (PFloat (FFinite (of_int n))))
   \<and> (coerce_float v = Inr (PFloat x) \<or> serialize_float v = Inr (PFloat x) \<longrightarrow> isfinite x)"
proof (intro conjI impI)
  have from_int: "w = PFloat (FFinite (of_int n))" if "coerce_float_from_int n = Inr w" for w
  proof -
    from that obtain q where q: "float_of_int n = Some (FFinite q)" "truncate_rat q = n" "w = PFloat (FFinite q)"
      by (auto simp: coerce_float_from_int_def split: option.splits pyfloat.splits if_splits)
    from float_of_int_integer [OF q(1)] obtain k where "q = of_int k" by blast
    with q show ?thesis by simp
  qed
  assume "coerce_float (PInt n) = Inr w \<or> serialize_float (PInt n) = Inr w"
  with from_int show "w = PFloat (FFinite (of_int n))" by (auto simp: coerce_float_def serialize_float_def)
next
  assume *: "coerce_float v = Inr (PFloat x) \<or> serialize_float v = Inr (PFloat x)"
  have number: "coerce_float_from_number y = Inr (PFloat x) \<Longrightarrow> isfinite x" for y
    by (auto simp: coerce_float_from_number_def split: if_splits)
  have int: "coerce_float_from_int m = Inr (PFloat x) \<Longrightarrow> isfinite x" for m
    by (auto simp: coerce_float_from_int_def split: option.splits pyfloat.splits if_splits)
  have string: "coerce_float_from_string s = Inr (PFloat x) \<Longrightarrow> isfinite x" for s
    by (auto simp: coerce_float_from_string_def split: option.splits if_splits)
  from * number int string show "isfinite x"
    by (cases v) (auto simp: coerce_float_def serialize_float_def)
qed (simp_all add: coerce_float_def serialize_float_def coerce_float_from_int_def float_of_int_exact)

lemma float_is_exact_witness:
  "coerce_float (PInt 4503599627370497) = Inr (PFloat (FFinite (of_int 4503599627370497)))"
  by (rule float_is_exact [THEN conjunct2, THEN conjunct1, rule_format, THEN conjunct1]) simp

section \<open>The contract of a leaf type\<close>

text \<open>
  What the coercion of values and literals needs of the functions of a leaf type: a literal that
  \<open>value_to_literal\<close> makes of an acceptable value means the same value, it contains no variable and is not
  \<open>null\<close>, and a coerced value is not \<open>None\<close> or \<open>Undefined\<close>.
\<close>

fun is_scalar_literal :: "value_node \<Rightarrow> bool" where
  "is_scalar_literal (VariableValue x) = False"
| "is_scalar_literal (NullValueNode loc) = False"
| "is_scalar_literal (ListValueNode vs loc) = False"
| "is_scalar_literal (ObjectValueNode fs loc) = False"
| "is_scalar_literal _ = True"

locale leaf_codec =
  fixes coerce_value :: "py_value \<Rightarrow> py_error + py_value"
    and coerce_literal :: "value_node \<Rightarrow> py_error + py_value"
    and to_literal :: "py_value \<Rightarrow> py_error + value_node option"
  assumes literal_agrees:
      "to_literal v = Inr (Some node) \<Longrightarrow> coerce_value v = Inr w \<Longrightarrow> coerce_literal node = Inr w"
    and literal_shape: "to_literal v = Inr (Some node) \<Longrightarrow> coerce_value v = Inr w \<Longrightarrow> is_scalar_literal node"
    and value_not_null: "coerce_value v = Inr w \<Longrightarrow> \<not> is_null w"
    and literal_not_null: "coerce_literal node = Inr w \<Longrightarrow> \<not> is_null w"
begin

lemma round_trip:
  assumes "to_literal v = Inr (Some node)" and "coerce_value v = Inr w"
  shows "coerce_literal node = Inr w \<and> is_scalar_literal node \<and> \<not> is_null w"
  using assms literal_agrees literal_shape value_not_null by blast

end

interpretation int: leaf_codec coerce_int parse_int_literal int_value_to_literal
proof
  fix v node w
  assume *: "int_value_to_literal v = Inr (Some node)" "coerce_int v = Inr w"
  then obtain n where n: "node = IntValueNode (show_int n) None" "w = PInt n" "is_32_bit n"
    by (cases v) (auto simp: int_value_to_literal_def coerce_int_def coerce_int_from_number_def is_32_bit_bounds
        bind_result_Inr_iff str_of_int_Inr split: if_splits pyfloat.splits dest!: iffD1 [OF truncate_eq_iff])
  from n int_of_str_show [OF short_32_bit [OF n(3)]] show "parse_int_literal node = Inr w"
    by (simp add: parse_int_literal_def is_32_bit_bounds)
  from n show "is_scalar_literal node" by simp
next
  show "coerce_int v = Inr w \<Longrightarrow> \<not> is_null w" for v w
    by (cases v) (auto simp: coerce_int_def dest!: coerce_int_from_number_range)
  show "parse_int_literal node = Inr w \<Longrightarrow> \<not> is_null w" for node w
    by (cases node) (auto simp: parse_int_literal_def split: option.splits if_splits)
qed

interpretation string: leaf_codec coerce_string parse_string_literal "string_value_to_literal repr"
  for repr
proof
  fix v node w
  assume "string_value_to_literal repr v = Inr (Some node)" "coerce_string v = Inr w"
  then obtain s where s: "node = StringValue (StringValueNode s (Some False) None)" "w = PStr s"
    by (cases v) (auto simp: string_value_to_literal_def coerce_string_def literal_of_kind_def split: if_splits)
  from s show "parse_string_literal node = Inr w" "is_scalar_literal node" by (simp_all add: parse_string_literal_def)
next
  show "coerce_string v = Inr w \<Longrightarrow> \<not> is_null w" for v w
    by (cases v) (auto simp: coerce_string_def)
  show "parse_string_literal node = Inr w \<Longrightarrow> \<not> is_null w" for node w
    by (cases node) (auto simp: parse_string_literal_def)
qed

interpretation boolean: leaf_codec coerce_boolean parse_boolean_literal "boolean_value_to_literal repr"
  for repr
proof
  fix v node w
  assume "boolean_value_to_literal repr v = Inr (Some node)" "coerce_boolean v = Inr w"
  then obtain b where b: "node = BooleanValueNode b None" "w = PBool b"
    by (cases v) (auto simp: boolean_value_to_literal_def coerce_boolean_def literal_of_kind_def split: if_splits)
  from b show "parse_boolean_literal node = Inr w" "is_scalar_literal node" by (simp_all add: parse_boolean_literal_def)
next
  show "coerce_boolean v = Inr w \<Longrightarrow> \<not> is_null w" for v w
    by (cases v) (auto simp: coerce_boolean_def)
  show "parse_boolean_literal node = Inr w \<Longrightarrow> \<not> is_null w" for node w
    by (cases node) (auto simp: parse_boolean_literal_def)
qed

interpretation id: leaf_codec coerce_id parse_id_literal id_value_to_literal
proof
  fix v node w
  assume *: "id_value_to_literal v = Inr (Some node)" "coerce_id v = Inr w"
  then show "parse_id_literal node = Inr w"
    by (cases v) (auto simp: id_value_to_literal_def coerce_id_def parse_id_literal_def bind_result_Inr_iff)
  from * show "is_scalar_literal node"
    by (cases v) (auto simp: id_value_to_literal_def coerce_id_def bind_result_Inr_iff)
next
  show "coerce_id v = Inr w \<Longrightarrow> \<not> is_null w" for v w
    by (cases v) (auto simp: coerce_id_def bind_result_Inr_iff)
  show "parse_id_literal node = Inr w \<Longrightarrow> \<not> is_null w" for node w
    by (cases node) (auto simp: parse_id_literal_def)
qed

end
