(* ===== verification/Input_Coercion.thy ===== *)
theory Input_Coercion
  imports Scalar_Facts
begin

text \<open>
  Input values: coercion of Python values and of literals to a type (\<open>utilities/coerce_input_value.py\<close>),
  the values of variables, and conversions between values and literals (\<open>value_to_literal.py\<close>,
  \<open>replace_variables.py\<close>, \<open>value_from_ast_untyped.py\<close>).

  The recursion follows default values of input fields, which validation of the schema keeps free of
  cycles; it is bounded by fuel, and a run without enough fuel answers \<open>OutOfFuel\<close>.
\<close>

section \<open>Values of variables\<close>

text \<open>
  \<open>VariableValues\<close>, \<open>FragmentVariableValues\<close> (\<open>execution/values.py\<close>): the coerced values, and the signatures
  with the values they were given.  The source of a fragment variable is the literal of the argument in
  the spread, with the fragment variables of the place of the spread.
\<close>

record variable_values =
  vv_sources :: "(pystr \<times> input_value \<times> py_value) list"
  vv_coerced :: "(pystr \<times> py_value) list"

datatype fragment_values =
  FragmentValues (fv_sources: "(pystr \<times> fragment_source) list") (fv_coerced: "(pystr \<times> py_value) list")
and fragment_source =
  FragmentSource (fs_signature: input_value) (fs_value: "value_node option") (fs_outer: "fragment_values option")

text \<open>The types of the schema and Python's text of a float.\<close>

record 'w env =
  env_types :: "'w types"
  env_repr :: "rat \<Rightarrow> pystr"

definition out_name :: "pystr \<Rightarrow> input_value \<Rightarrow> pystr" where
  "out_name name iv = (case iv_out_name iv of Some n \<Rightarrow> if n = [] then name else n | None \<Rightarrow> name)"

definition var_name :: "variable_node \<Rightarrow> pystr" where
  "var_name v = name_value (variable_name v)"

definition get_coerced_variable_value ::
  "variable_node \<Rightarrow> variable_values option \<Rightarrow> fragment_values option \<Rightarrow> py_value" where
  "get_coerced_variable_value v vv fv =
     (case fv of
        Some f \<Rightarrow>
          if map_of (fv_sources f) (var_name v) \<noteq> None then dict_get (fv_coerced f) (var_name v)
          else (case vv of Some vars \<Rightarrow> dict_get (vv_coerced vars) (var_name v) | None \<Rightarrow> PUndefined)
      | None \<Rightarrow> (case vv of Some vars \<Rightarrow> dict_get (vv_coerced vars) (var_name v) | None \<Rightarrow> PUndefined))"

definition is_missing_variable ::
  "variable_node \<Rightarrow> variable_values option \<Rightarrow> fragment_values option \<Rightarrow> bool" where
  "is_missing_variable v vv fv \<longleftrightarrow> get_coerced_variable_value v vv fv = PUndefined"

definition variable_value_is_null ::
  "variable_node \<Rightarrow> variable_values option \<Rightarrow> fragment_values option \<Rightarrow> bool" where
  "variable_value_is_null v vv fv \<longleftrightarrow> is_null (get_coerced_variable_value v vv fv)"

fun is_variable_node :: "value_node \<Rightarrow> bool" where
  "is_variable_node (VariableValue v) = True"
| "is_variable_node _ = False"

fun is_null_node :: "value_node \<Rightarrow> bool" where
  "is_null_node (NullValueNode loc) = True"
| "is_null_node _ = False"

section \<open>Values as literals\<close>

function value_to_literal :: "'w env \<Rightarrow> py_value \<Rightarrow> gtype \<Rightarrow> py_error + value_node option" where
  "value_to_literal E v t =
     (case t of
        GNonNull t' \<Rightarrow> if is_null v then Inr None else value_to_literal E v t'
      | _ \<Rightarrow>
        if is_null v then Inr (Some (NullValueNode None))
        else (case t of
          GList item \<Rightarrow>
            (case v of
               PList vs \<Rightarrow>
                 bind_result (collect_results (map (\<lambda>x. value_to_literal E x item) vs)) (\<lambda>nodes.
                   if None \<in> set nodes then Inr None else Inr (Some (ListValueNode (map the nodes) None)))
             | _ \<Rightarrow> value_to_literal E v item)
        | GNamed n \<Rightarrow>
            (case env_types E n of
               Some (InputObjectType io) \<Rightarrow>
                 (case v of
                    PDict d \<Rightarrow>
                      if \<exists>(k, x) \<in> set d. x \<noteq> PUndefined \<and> map_of (io_fields io) k = None then Inr None
                      else
                        bind_result (collect_results (map (\<lambda>(name, field).
                            (case map_of d name of
                               Some x \<Rightarrow>
                                 if x = PUndefined
                                 then Inr (if is_required_input field then None else Some None)
                                 else bind_result (value_to_literal E x (iv_type field)) (\<lambda>node.
                                   Inr (map_option (\<lambda>node. Some (ObjectFieldNode (NameNode name None) node None)) node))
                             | None \<Rightarrow> Inr (if is_required_input field then None else Some None)))
                          (io_fields io)))
                        (\<lambda>fds. if None \<in> set fds then Inr None
                           else Inr (Some (ObjectValueNode (concat (map (\<lambda>f. case f of Some (Some x) \<Rightarrow> [x] | _ \<Rightarrow> []) fds)) None)))
                  | _ \<Rightarrow> Inr None)
             | Some (ScalarType s) \<Rightarrow>
                 (case sc_value_to_literal s of
                    Some f \<Rightarrow> (case f v of Inl e \<Rightarrow> Inr None | Inr r \<Rightarrow> Inr r)
                  | None \<Rightarrow> bind_result (default_scalar_value_to_literal (env_repr E) v) (\<lambda>node. Inr (Some node)))
             | Some (EnumType e) \<Rightarrow>
                 (case enum_value_to_literal e v of Inl err \<Rightarrow> Inr None | Inr r \<Rightarrow> Inr r)
             | _ \<Rightarrow> Inl (TypeError (str ''Expected a GraphQL leaf type'')))))"
  by pat_completeness auto
termination
  by (relation "measures [\<lambda>(E, v, t). size v, \<lambda>(E, v, t). size t]")
     (auto intro: size_list_item size_dict_item dest: map_of_SomeD)

declare value_to_literal.simps [simp del]

section \<open>Replacing variables\<close>

text \<open>
  \<open>None\<close> is a literal that is missing because the value of a variable has no literal; a leaf function that
  gets such a literal, or one with such a part, raises an exception.
\<close>

primrec default_literal :: "default_input \<Rightarrow> value_node option" where
  "default_literal (DefaultLiteral node) = Some node"
| "default_literal (DefaultValue v) = None"

fun all_some :: "'a option list \<Rightarrow> 'a list option" where
  "all_some [] = Some []"
| "all_some (None # xs) = None"
| "all_some (Some x # xs) = map_option (Cons x) (all_some xs)"

lemma outer_size: "map_of (fv_sources f) n = Some s \<Longrightarrow> size_option size (fs_outer s) < size f"
proof -
  assume "map_of (fv_sources f) n = Some s"
  then have "size s < Suc (size_list (size_prod (\<lambda>x. 0) size) (fv_sources f))"
    by (intro size_dict_item) (rule map_of_SomeD)
  then show ?thesis by (cases f; cases s) simp
qed

lemma field_size: "f \<in> set fs \<Longrightarrow> size (object_field_value f) < Suc (size_list size fs)"
  using size_list_item [of f fs] by (cases f) simp

text \<open>The test for a field whose variable has neither a value nor a default.\<close>

definition drops_field :: "variable_node \<Rightarrow> variable_values option \<Rightarrow> fragment_values option \<Rightarrow> bool" where
  "drops_field v vv fv =
     (case (case fv of Some f \<Rightarrow> map_of (fv_sources f) (var_name v) | None \<Rightarrow> None) of
        Some source \<Rightarrow> fs_value source = None \<and> iv_default (fs_signature source) = None
      | None \<Rightarrow>
          (case (case vv of Some vars \<Rightarrow> map_of (vv_sources vars) (var_name v) | None \<Rightarrow> None) of
             Some (signature, value) \<Rightarrow> value = PUndefined \<and> iv_default signature = None
           | None \<Rightarrow> True))"

function replace_variables ::
  "'w env \<Rightarrow> variable_values option \<Rightarrow> fragment_values option \<Rightarrow> value_node \<Rightarrow> py_error + value_node option" where
  "replace_variables E vv fv node =
     (case node of
        VariableValue v \<Rightarrow>
          (case (case fv of Some f \<Rightarrow> map_of (fv_sources f) (var_name v) | None \<Rightarrow> None) of
             Some source \<Rightarrow>
               (case fs_value source of
                  None \<Rightarrow>
                    (case iv_default (fs_signature source) of
                       Some dflt \<Rightarrow> Inr (default_literal dflt)
                     | None \<Rightarrow> Inr (Some (NullValueNode None)))
                | Some value \<Rightarrow> replace_variables E vv (fs_outer source) value)
           | None \<Rightarrow>
               (case (case vv of Some vars \<Rightarrow> map_of (vv_sources vars) (var_name v) | None \<Rightarrow> None) of
                  None \<Rightarrow> Inr (Some (NullValueNode None))
                | Some (signature, value) \<Rightarrow>
                    (case (value = PUndefined, iv_default signature) of
                       (True, Some dflt) \<Rightarrow> Inr (default_literal dflt)
                     | _ \<Rightarrow> value_to_literal E value (iv_type signature))))
      | ObjectValueNode fds loc \<Rightarrow>
          bind_result (collect_results (map (\<lambda>field.
              bind_result (replace_variables E vv fv (object_field_value field)) (\<lambda>value.
                Inr (map_option (\<lambda>value. ObjectFieldNode (object_field_name field) value None) value)))
            (filter (\<lambda>field. case object_field_value field of
               VariableValue v \<Rightarrow> \<not> drops_field v vv fv | _ \<Rightarrow> True) fds)))
          (\<lambda>fds. Inr (map_option (\<lambda>fds. ObjectValueNode fds None) (all_some fds)))
      | ListValueNode values loc \<Rightarrow>
          bind_result (collect_results (map (replace_variables E vv fv) values))
            (\<lambda>values. Inr (map_option (\<lambda>values. ListValueNode values None) (all_some values)))
      | _ \<Rightarrow> Inr (Some node))"
  by pat_completeness auto
termination
proof (relation "measures [\<lambda>(E, vv, fv, node). size_option size fv, \<lambda>(E, vv, fv, node). size node]", goal_cases)
  case (2 E vv fv node v source x)
  then obtain f where "fv = Some f" "map_of (fv_sources f) (var_name v) = Some source" by (cases fv) auto
  then have "size_option size (fs_outer source) < size_option size fv"
    using outer_size [of f "var_name v" source] by simp
  then show ?case by simp
next
  case (3 E vv fv node ns loc x)
  then show ?case using size_list_item [of x ns] by simp
next
  case (4 E vv fv node fds loc field)
  then show ?case using field_size [of field fds] by simp
qed simp

declare replace_variables.simps [simp del]

section \<open>Coercion\<close>

text \<open>\<open>except Exception: return Undefined\<close>\<close>

definition undefined_on_error :: "py_error + py_value \<Rightarrow> py_error + py_value" where
  "undefined_on_error r = (case r of Inl e \<Rightarrow> Inr PUndefined | Inr v \<Rightarrow> Inr v)"

definition leaf_input_value :: "'w named_type \<Rightarrow> py_value \<Rightarrow> py_error + py_value" where
  "leaf_input_value t v =
     (case t of
        ScalarType s \<Rightarrow> sc_coerce_input_value s v
      | EnumType e \<Rightarrow> enum_coerce_input_value e v
      | _ \<Rightarrow> Inl (TypeError (str ''Expected a GraphQL leaf type'')))"

definition leaf_input_literal ::
  "'w env \<Rightarrow> variable_values option \<Rightarrow> fragment_values option \<Rightarrow> 'w named_type \<Rightarrow> value_node \<Rightarrow> py_error + py_value"
  where
  "leaf_input_literal E vv fv t node =
     (let replaced = (\<lambda>f. bind_result (replace_variables E vv fv node) (\<lambda>n.
            case n of Some n \<Rightarrow> f n | None \<Rightarrow> Inl (TypeError (str ''Not an AST Node'')))) in
      case t of
        ScalarType s \<Rightarrow>
          (case sc_coerce_input_literal s of
             Some f \<Rightarrow> replaced f
           | None \<Rightarrow> sc_parse_literal s node (map_option vv_coerced vv))
      | EnumType e \<Rightarrow> replaced (enum_coerce_input_literal e)
      | _ \<Rightarrow> Inl (TypeError (str ''Expected a GraphQL leaf type'')))"

text \<open>The loop over the items of a list, which ends at the first that is \<open>Undefined\<close>.\<close>

fun coerce_items :: "('x \<Rightarrow> py_error + py_value) \<Rightarrow> 'x list \<Rightarrow> py_value list \<Rightarrow> py_error + py_value" where
  "coerce_items f [] acc = Inr (PList acc)"
| "coerce_items f (x # xs) acc =
     bind_result (f x) (\<lambda>w. if w = PUndefined then Inr PUndefined else coerce_items f xs (acc @ [w]))"

text \<open>The loop over the fields of an input object: a field is invalid, left out, or has a value.\<close>

datatype field_outcome = FieldInvalid | FieldOmitted | FieldValue py_value

fun coerce_fields ::
  "(pystr \<Rightarrow> input_value \<Rightarrow> py_error + field_outcome) \<Rightarrow> (pystr \<times> input_value) list
    \<Rightarrow> (pystr \<times> py_value) list \<Rightarrow> py_error + (pystr \<times> py_value) list option" where
  "coerce_fields f [] acc = Inr (Some acc)"
| "coerce_fields f ((name, field) # fds) acc =
     bind_result (f name field) (\<lambda>outcome.
       case outcome of
         FieldInvalid \<Rightarrow> Inr None
       | FieldOmitted \<Rightarrow> coerce_fields f fds acc
       | FieldValue v \<Rightarrow> coerce_fields f fds (dict_set (out_name name field) v acc))"

definition given_value :: "py_value \<Rightarrow> field_outcome" where
  "given_value w = (if w = PUndefined then FieldInvalid else FieldValue w)"

text \<open>A field without a value: an error, or the default value.\<close>

definition default_outcome :: "(input_value \<Rightarrow> py_error + py_value) \<Rightarrow> input_value \<Rightarrow> py_error + field_outcome" where
  "default_outcome default_of field =
     (if is_required_input field then Inr FieldInvalid
      else bind_result (default_of field) (\<lambda>w. Inr (if w = PUndefined then FieldOmitted else FieldValue w)))"

text \<open>\<open>input_value.items()\<close> without the undefined ones.\<close>

definition defined_items :: "(pystr \<times> py_value) list \<Rightarrow> (pystr \<times> py_value) list" where
  "defined_items d = filter (\<lambda>(k, x). x \<noteq> PUndefined) d"

definition is_list_of_one :: "(pystr \<times> py_value) list \<Rightarrow> bool" where
  "is_list_of_one d \<longleftrightarrow> length d = 1 \<and> snd (hd d) \<noteq> PNone"

text \<open>The fields of an object literal by name; the last of several counts.\<close>

definition field_nodes_of :: "object_field_node list \<Rightarrow> (pystr \<times> value_node) list" where
  "field_nodes_of fds = dict_of (map (\<lambda>f. (name_value (object_field_name f), object_field_value f)) fds)"

text \<open>
  The bodies of \<open>coerce_input_value\<close>, \<open>coerce_input_literal\<close> and \<open>coerce_default_value\<close>, over the functions they call;
  the memo of coerced default values only saves time.
\<close>

type_synonym coerced = "py_error + py_value"

definition coerce_input_value_body ::
  "(py_value \<Rightarrow> gtype \<Rightarrow> coerced) \<Rightarrow> (input_value \<Rightarrow> coerced) \<Rightarrow> 'w env \<Rightarrow> py_value \<Rightarrow> gtype \<Rightarrow> coerced" where
  "coerce_input_value_body rec default_of E v t =
     (case t of
        GNonNull t' \<Rightarrow> if is_null v then Inr PUndefined else rec v t'
      | _ \<Rightarrow>
        if is_null v then Inr PNone
        else (case t of
          GList item \<Rightarrow>
            (case v of
               PList vs \<Rightarrow> coerce_items (\<lambda>x. rec x item) vs []
             | _ \<Rightarrow> coerce_items (\<lambda>x. rec x item) [v] [])
        | GNamed name \<Rightarrow>
            (case env_types E name of
               Some (InputObjectType io) \<Rightarrow>
                 (case v of
                    PDict d \<Rightarrow>
                      if \<exists>(k, x) \<in> set (defined_items d). map_of (io_fields io) k = None then Inr PUndefined
                      else
                        bind_result (coerce_fields (\<lambda>name field.
                            if dict_get d name = PUndefined then default_outcome (default_of) field
                            else bind_result (rec (dict_get d name) (iv_type field))
                              (\<lambda>w. Inr (given_value w))) (io_fields io) [])
                        (\<lambda>coerced. case coerced of
                             None \<Rightarrow> Inr PUndefined
                           | Some coerced \<Rightarrow>
                               if io_is_one_of io \<and> (length (defined_items d) \<noteq> 1 \<or> \<not> is_list_of_one coerced)
                               then Inr PUndefined
                               else io_out_type io coerced)
                  | _ \<Rightarrow> Inr PUndefined)
             | Some t' \<Rightarrow> if is_leaf_named t' then undefined_on_error (leaf_input_value t' v)
                 else Inl (TypeError (str ''Expected a GraphQL leaf type''))
             | None \<Rightarrow> Inl (TypeError (str ''Expected a GraphQL leaf type'')))))"

definition coerce_input_literal_body ::
  "(value_node \<Rightarrow> gtype \<Rightarrow> coerced) \<Rightarrow> (input_value \<Rightarrow> coerced) \<Rightarrow> 'w env
    \<Rightarrow> variable_values option \<Rightarrow> fragment_values option \<Rightarrow> value_node \<Rightarrow> gtype \<Rightarrow> coerced" where
  "coerce_input_literal_body rec default_of E vv fv node t =
     (case node of
        VariableValue v \<Rightarrow>
          (let w = get_coerced_variable_value v vv fv in
           if is_null w \<and> is_non_null_type t then Inr PUndefined else Inr w)
      | _ \<Rightarrow>
        (case t of
          GNonNull t' \<Rightarrow> if is_null_node node then Inr PUndefined else rec node t'
        | _ \<Rightarrow>
          if is_null_node node then Inr PNone
          else (case t of
            GList item \<Rightarrow>
              (case node of
                 ListValueNode nodes loc \<Rightarrow>
                   coerce_items (\<lambda>x.
                     bind_result (rec x item) (\<lambda>w.
                       case x of
                         VariableValue v \<Rightarrow>
                           if w = PUndefined \<and> \<not> is_non_null_type item \<and> variable_value_is_null v vv fv
                           then Inr PNone else Inr w
                       | _ \<Rightarrow> Inr w)) nodes []
               | _ \<Rightarrow> coerce_items (\<lambda>x. rec x item) [node] [])
          | GNamed name \<Rightarrow>
              (case env_types E name of
                 Some (InputObjectType io) \<Rightarrow>
                   (case node of
                      ObjectValueNode fds loc \<Rightarrow>
                        (let field_nodes = field_nodes_of fds in
                         if \<exists>(k, x) \<in> set field_nodes. map_of (io_fields io) k = None then Inr PUndefined
                         else
                           bind_result (coerce_fields (\<lambda>name field.
                               case map_of field_nodes name of
                                 None \<Rightarrow> default_outcome (default_of) field
                               | Some x \<Rightarrow>
                                   (case x of
                                      VariableValue v \<Rightarrow>
                                        if is_missing_variable v vv fv
                                        then default_outcome (default_of) field
                                        else bind_result (rec x (iv_type field))
                                          (\<lambda>w. Inr (given_value w))
                                    | _ \<Rightarrow> bind_result (rec x (iv_type field))
                                          (\<lambda>w. Inr (given_value w)))) (io_fields io) [])
                           (\<lambda>coerced. case coerced of
                                None \<Rightarrow> Inr PUndefined
                              | Some coerced \<Rightarrow>
                                  if io_is_one_of io \<and>
                                     (length field_nodes \<noteq> 1 \<or> length coerced \<noteq> 1
                                      \<or> (\<exists>(k, x) \<in> set field_nodes. is_null_node x
                                           \<or> (case map_of (io_fields io) k of
                                                Some field \<Rightarrow> dict_get coerced (out_name k field) = PNone
                                              | None \<Rightarrow> False)))
                                  then Inr PUndefined
                                  else io_out_type io coerced))
                    | _ \<Rightarrow> Inr PUndefined)
               | Some t' \<Rightarrow> if is_leaf_named t' then undefined_on_error (leaf_input_literal E vv fv t' node)
                   else Inl (TypeError (str ''Expected a GraphQL leaf type''))
               | None \<Rightarrow> Inl (TypeError (str ''Expected a GraphQL leaf type''))))))"

definition coerce_default_value_body ::
  "(py_value \<Rightarrow> gtype \<Rightarrow> coerced) \<Rightarrow> (value_node \<Rightarrow> gtype \<Rightarrow> coerced) \<Rightarrow> input_value \<Rightarrow> coerced" where
  "coerce_default_value_body rec_value rec_literal iv =
     (case iv_default iv of
        Some d \<Rightarrow>
          bind_result (case d of
              DefaultLiteral node \<Rightarrow> rec_literal node (iv_type iv)
            | DefaultValue v \<Rightarrow> rec_value v (iv_type iv))
          (\<lambda>w. if w = PUndefined then Inl (TypeError (str ''Expected value of type to be valid'')) else Inr w)
      | None \<Rightarrow> Inr (iv_default_value iv))"

fun coerce_input_value :: "nat \<Rightarrow> 'w env \<Rightarrow> py_value \<Rightarrow> gtype \<Rightarrow> coerced"
and coerce_input_literal ::
  "nat \<Rightarrow> 'w env \<Rightarrow> variable_values option \<Rightarrow> fragment_values option \<Rightarrow> value_node \<Rightarrow> gtype \<Rightarrow> coerced"
and coerce_default_value :: "nat \<Rightarrow> 'w env \<Rightarrow> input_value \<Rightarrow> coerced" where
  "coerce_input_value 0 E v t = Inl OutOfFuel"
| "coerce_input_value (Suc n) E v t =
     coerce_input_value_body (coerce_input_value n E) (coerce_default_value n E) E v t"
| "coerce_input_literal 0 E vv fv node t = Inl OutOfFuel"
| "coerce_input_literal (Suc n) E vv fv node t =
     coerce_input_literal_body (coerce_input_literal n E vv fv) (coerce_default_value n E) E vv fv node t"
| "coerce_default_value 0 E iv = Inl OutOfFuel"
| "coerce_default_value (Suc n) E iv =
     coerce_default_value_body (coerce_input_value n E) (coerce_input_literal n E None None) iv"

section \<open>Values without a type\<close>

text \<open>\<open>value_from_ast_untyped\<close>: numbers that are no numbers become \<open>nan\<close>.\<close>

function value_from_ast_untyped :: "value_node \<Rightarrow> (pystr \<times> py_value) list option \<Rightarrow> py_value" where
  "value_from_ast_untyped (NullValueNode loc) variables = PNone"
| "value_from_ast_untyped (IntValueNode s loc) variables =
     (case int_of_str s of Some n \<Rightarrow> PInt n | None \<Rightarrow> PFloat FNan)"
| "value_from_ast_untyped (FloatValueNode s loc) variables =
     (case float_of_str s of Some x \<Rightarrow> PFloat x | None \<Rightarrow> PFloat FNan)"
| "value_from_ast_untyped (StringValue s) variables = PStr (string_value s)"
| "value_from_ast_untyped (EnumValueNode s loc) variables = PStr s"
| "value_from_ast_untyped (BooleanValueNode b loc) variables = PBool b"
| "value_from_ast_untyped (ListValueNode nodes loc) variables =
     PList (map (\<lambda>node. value_from_ast_untyped node variables) nodes)"
| "value_from_ast_untyped (ObjectValueNode fds loc) variables =
     PDict (dict_of (map (\<lambda>f. (name_value (object_field_name f), value_from_ast_untyped (object_field_value f) variables)) fds))"
| "value_from_ast_untyped (VariableValue v) variables =
     (case variables of Some vars \<Rightarrow> dict_get vars (var_name v) | None \<Rightarrow> PUndefined)"
  by pat_completeness auto
termination
  by (relation "measure (\<lambda>(node, variables). size node)") (auto intro: size_list_item dest: field_size)

end
