(* ===== verification/Input_Validation.thy ===== *)
theory Input_Validation
  imports Input_Coercion
begin

text \<open>
  Validation of input values and literals (\<open>utilities/validate_input_value.py\<close>), which reports every error
  with its path.  The callback \<open>on_error\<close> is the list of reports in the order of the calls; a callback that
  raises, as the ones in \<open>execution/values.py\<close> do, ends the list early.  Messages are given without the
  texts of values and types in them.
\<close>

type_synonym report = "py_error \<times> path_key list"

type_synonym reports = "py_error + report list"

definition invalid :: "path_key list \<Rightarrow> string \<Rightarrow> report" where
  "invalid path message = (GraphQLError (str message), path)"

definition concat_results :: "reports list \<Rightarrow> reports" where
  "concat_results rs = bind_result (collect_results rs) (\<lambda>xs. Inr (concat xs))"

text \<open>\<open>isinstance(error, GraphQLError)\<close>\<close>

fun is_graphql_error :: "py_error \<Rightarrow> bool" where
  "is_graphql_error (GraphQLError message) = True"
| "is_graphql_error (GraphQLSyntaxError position description) = True"
| "is_graphql_error _ = False"

text \<open>What a leaf type says: a \<open>GraphQLError\<close> is passed on, every other exception and \<open>Undefined\<close> are reported.\<close>

definition leaf_reports :: "py_error + py_value \<Rightarrow> path_key list \<Rightarrow> report list" where
  "leaf_reports r path =
     (case r of
        Inl e \<Rightarrow>
          if is_graphql_error e then [(e, path)] else [invalid path ''Expected value of type, but encountered error'']
      | Inr w \<Rightarrow> if w = PUndefined then [invalid path ''Expected value of type''] else [])"

definition one_of_message :: string where
  "one_of_message = ''Within OneOf Input Object type, exactly one field must be specified''"

section \<open>Values\<close>

text \<open>The reports for the names of an input object, which follow those for its fields.\<close>

definition missing_field_reports :: "input_value \<Rightarrow> path_key list \<Rightarrow> report list" where
  "missing_field_reports field path =
     (if is_required_input field then [invalid path ''Expected value of type to include required field''] else [])"

definition name_reports :: "input_object_type \<Rightarrow> (pystr \<times> py_value) list \<Rightarrow> path_key list \<Rightarrow> report list" where
  "name_reports io d path =
     (let unknown = filter (\<lambda>(k, x). map_of (io_fields io) k = None) (defined_items d);
          known = filter (\<lambda>(k, x). map_of (io_fields io) k \<noteq> None) (defined_items d)
      in map (\<lambda>_. invalid path ''Expected value of type not to include unknown field'') unknown
        @ (if io_is_one_of io
           then (if length known \<noteq> 1 then [invalid path one_of_message] else [])
             @ (case known of
                  (k, x) # _ \<Rightarrow> if x = PNone then [invalid (path @ [PathName k]) one_of_message] else []
                | [] \<Rightarrow> [])
           else []))"

function validate_input_value :: "'w env \<Rightarrow> py_value \<Rightarrow> gtype \<Rightarrow> path_key list \<Rightarrow> reports" where
  "validate_input_value E v t path =
     (case t of
        GNonNull t' \<Rightarrow>
          if v = PUndefined then Inr [invalid path ''Expected a value of non-null type to be provided.'']
          else if v = PNone then Inr [invalid path ''Expected value of non-null type not to be None.'']
          else validate_input_value E v t' path
      | GList item \<Rightarrow>
          if is_null v then Inr []
          else (case v of
             PList vs \<Rightarrow>
               concat_results (map (\<lambda>i. validate_input_value E (vs ! i) item (path @ [PathIndex i])) [0..<length vs])
           | _ \<Rightarrow> validate_input_value E v item path)
      | GNamed name \<Rightarrow>
          if is_null v then Inr []
          else (case env_types E name of
             Some (InputObjectType io) \<Rightarrow>
               (case v of
                  PDict d \<Rightarrow>
                    bind_result (concat_results (map (\<lambda>(name, field).
                        (case map_of d name of
                           Some x \<Rightarrow>
                             if x = PUndefined then Inr (missing_field_reports field path)
                             else validate_input_value E x (iv_type field) (path @ [PathName name])
                         | None \<Rightarrow> Inr (missing_field_reports field path))) (io_fields io)))
                    (\<lambda>errors. Inr (errors @ name_reports io d path))
                | _ \<Rightarrow> Inr [invalid path ''Expected value of type to be an object''])
           | Some t' \<Rightarrow> if is_leaf_named t' then Inr (leaf_reports (leaf_input_value t' v) path)
               else Inl (TypeError (str ''Expected a GraphQL leaf type''))
           | None \<Rightarrow> Inl (TypeError (str ''Expected a GraphQL leaf type''))))"
  by pat_completeness auto
termination
  by (relation "measures [\<lambda>(E, v, t, path). size v, \<lambda>(E, v, t, path). size t]")
     (auto intro: size_list_item size_dict_item dest: map_of_SomeD)

declare validate_input_value.simps [simp del]

section \<open>Literals\<close>

text \<open>Without values of variables (\<open>static\<close>) nothing is reported for a variable.\<close>

definition variable_reports ::
  "variable_values option \<Rightarrow> fragment_values option \<Rightarrow> variable_node \<Rightarrow> gtype \<Rightarrow> path_key list \<Rightarrow> report list" where
  "variable_reports vv fv v t path =
     (let w = get_coerced_variable_value v vv fv in
      if vv = None \<and> fv = None then []
      else if \<not> is_non_null_type t then []
      else if w = PUndefined then [invalid path ''Expected variable to provide a runtime value.'']
      else if w = PNone then [invalid path ''Expected variable provided to non-null type not to be None.'']
      else [])"

text \<open>A field whose literal is a variable: the reports for a OneOf type, and whether the field is passed over.\<close>

definition variable_field_reports ::
  "variable_values option \<Rightarrow> fragment_values option \<Rightarrow> bool \<Rightarrow> variable_node \<Rightarrow> path_key list \<Rightarrow> report list" where
  "variable_field_reports vv fv one_of v path =
     (let w = get_coerced_variable_value v vv fv in
      if (vv = None \<and> fv = None) \<or> \<not> one_of then []
      else if w = PUndefined then [invalid path ''Expected variable for OneOf to provide a runtime value.'']
      else if w = PNone then [invalid path ''Expected variable for OneOf not to be None.'']
      else [])"

definition passes_over ::
  "variable_values option \<Rightarrow> fragment_values option \<Rightarrow> bool \<Rightarrow> variable_node \<Rightarrow> input_value \<Rightarrow> bool" where
  "passes_over vv fv one_of v field \<longleftrightarrow>
     \<not> (vv = None \<and> fv = None) \<and> \<not> one_of
     \<and> get_coerced_variable_value v vv fv = PUndefined \<and> \<not> is_required_input field"

lemma dict_of_values: "(k, v) \<in> set (dict_of kvs) \<Longrightarrow> (k, v) \<in> set kvs"
proof -
  have "(k, v) \<in> set (fold (\<lambda>(k, v). dict_set k v) kvs acc) \<Longrightarrow> (k, v) \<in> set kvs \<union> set acc" for acc
    by (induction kvs arbitrary: acc) (auto dest: set_dict_set)
  from this [of "[]"] show "(k, v) \<in> set (dict_of kvs) \<Longrightarrow> (k, v) \<in> set kvs" by (simp add: dict_of_def)
qed

lemma field_nodes_size:
  "map_of (field_nodes_of fds) name = Some x \<Longrightarrow> size x < Suc (size_list size fds)"
  by (auto simp: field_nodes_of_def dest!: map_of_SomeD dict_of_values intro: field_size)

text \<open>The parts of the nodes, and the reports for the names of an object literal.\<close>

fun list_items :: "value_node \<Rightarrow> value_node list option" where
  "list_items (ListValueNode nodes loc) = Some nodes"
| "list_items _ = None"

fun object_fields :: "value_node \<Rightarrow> object_field_node list option" where
  "object_fields (ObjectValueNode fds loc) = Some fds"
| "object_fields _ = None"

fun variable_of :: "value_node \<Rightarrow> variable_node option" where
  "variable_of (VariableValue v) = Some v"
| "variable_of _ = None"

lemma list_items_size: "list_items node = Some nodes \<Longrightarrow> i < length nodes \<Longrightarrow> size (nodes ! i) < size node"
  by (cases node) (auto intro: size_list_item)

lemma object_fields_size:
  "object_fields node = Some fds \<Longrightarrow> map_of (field_nodes_of fds) name = Some x \<Longrightarrow> size x < size node"
  by (cases node) (auto dest: field_nodes_size)

definition field_name_reports :: "input_object_type \<Rightarrow> object_field_node list \<Rightarrow> path_key list \<Rightarrow> report list" where
  "field_name_reports io fds path =
     (let name = (\<lambda>f. name_value (object_field_name f));
          unknown = filter (\<lambda>f. map_of (io_fields io) (name f) = None) fds;
          known = filter (\<lambda>f. map_of (io_fields io) (name f) \<noteq> None) fds
      in map (\<lambda>_. invalid path ''Expected value of type not to include unknown field'') unknown
        @ (if io_is_one_of io
           then (if length known \<noteq> 1 then [invalid path one_of_message]
             else if is_null_node (object_field_value (hd known))
             then [invalid (path @ [PathName (name (hd known))]) one_of_message]
             else [])
           else []))"

function validate_input_literal ::
  "'w env \<Rightarrow> variable_values option \<Rightarrow> fragment_values option \<Rightarrow> value_node \<Rightarrow> gtype \<Rightarrow> path_key list \<Rightarrow> reports" where
  "validate_input_literal E vv fv node t path =
     (case variable_of node of
        Some v \<Rightarrow> Inr (variable_reports vv fv v t path)
      | None \<Rightarrow>
        (case t of
           GNonNull t' \<Rightarrow>
             if is_null_node node then Inr [invalid path ''Expected value of non-null type not to be None.'']
             else validate_input_literal E vv fv node t' path
         | GList item \<Rightarrow>
             if is_null_node node then Inr []
             else (case list_items node of
                Some nodes \<Rightarrow>
                  concat_results (map (\<lambda>i. validate_input_literal E vv fv (nodes ! i) item (path @ [PathIndex i])) [0..<length nodes])
              | None \<Rightarrow> validate_input_literal E vv fv node item path)
         | GNamed name \<Rightarrow>
             if is_null_node node then Inr []
             else (case env_types E name of
                Some (InputObjectType io) \<Rightarrow>
                  (case object_fields node of
                     Some fds \<Rightarrow>
                       bind_result (concat_results (map (\<lambda>(name, field).
                           (case map_of (field_nodes_of fds) name of
                              None \<Rightarrow> Inr (missing_field_reports field path)
                            | Some x \<Rightarrow>
                                (case variable_of x of
                                   Some v \<Rightarrow>
                                     if passes_over vv fv (io_is_one_of io) v field then Inr []
                                     else bind_result (validate_input_literal E vv fv x (iv_type field) (path @ [PathName name]))
                                       (\<lambda>errors. Inr (variable_field_reports vv fv (io_is_one_of io) v path @ errors))
                                 | None \<Rightarrow> validate_input_literal E vv fv x (iv_type field) (path @ [PathName name]))))
                         (io_fields io)))
                       (\<lambda>errors. Inr (errors @ field_name_reports io fds path))
                   | None \<Rightarrow> Inr [invalid path ''Expected value of type to be an object''])
              | Some t' \<Rightarrow> if is_leaf_named t' then Inr (leaf_reports (leaf_input_literal E vv fv t' node) path)
                  else Inl (TypeError (str ''Expected a GraphQL leaf type''))
              | None \<Rightarrow> Inl (TypeError (str ''Expected a GraphQL leaf type'')))))"
  by pat_completeness auto
termination
  by (relation "measures [\<lambda>(E, vv, fv, node, t, path). size node, \<lambda>(E, vv, fv, node, t, path). size t]")
     (auto intro: list_items_size object_fields_size)

declare validate_input_literal.simps [simp del]

end
