(* ===== verification/Input_Agreement.thy ===== *)
theory Input_Agreement
  imports Input_Validation
begin

text \<open>
  Validation and coercion agree: an input value or literal is reported exactly when its coercion gives
  \<open>Undefined\<close>.  The code relies on this wherever it validates after a failed coercion and treats an empty
  list of reports as unreachable.
\<close>

section \<open>Results from some fuel on\<close>

definition settles :: "(nat \<Rightarrow> py_error + 'a) \<Rightarrow> 'a \<Rightarrow> bool" where
  "settles f w \<longleftrightarrow> (\<forall>\<^sub>F n in sequentially. f n = Inr w)"

lemma settles_iff: "settles f w \<longleftrightarrow> (\<exists>n. \<forall>m \<ge> n. f m = Inr w)"
  by (simp add: settles_def eventually_sequentially)

lemma settles_Suc: "settles (\<lambda>n. f (Suc n)) w \<longleftrightarrow> settles f w"
  using eventually_sequentially_Suc [of "\<lambda>n. f n = Inr w"] by (simp add: settles_def)

lemma settles_const: "settles (\<lambda>n. Inr w) w"
  by (simp add: settles_def)

lemma settles_unique: "settles f w \<Longrightarrow> settles f w' \<Longrightarrow> w = w'"
  unfolding settles_iff by (metis Inr_inject nat_le_linear)

lemma settles_bind:
  assumes "settles f x" and "settles (\<lambda>n. g n x) w"
  shows "settles (\<lambda>n. bind_result (f n) (g n)) w"
  using assms unfolding settles_def by eventually_elim simp

lemma settles_all:
  assumes "\<And>x. x \<in> set xs \<Longrightarrow> settles (\<lambda>n. f n x) (g x)"
  shows "\<forall>\<^sub>F n in sequentially. \<forall>x \<in> set xs. f n x = Inr (g x)"
  using assms unfolding settles_def by (intro eventually_ball_finite) auto

section \<open>The loops\<close>

lemma coerce_items_pure:
  assumes "\<forall>x \<in> set xs. f x = Inr (g x)"
  shows "coerce_items f xs acc = Inr (if PUndefined \<in> g ` set xs then PUndefined else PList (acc @ map g xs))"
  using assms by (induction xs arbitrary: acc) auto

lemma settles_items:
  assumes "\<And>x. x \<in> set xs \<Longrightarrow> settles (\<lambda>n. f n x) (g x)"
  shows "settles (\<lambda>n. coerce_items (f n) xs acc)
    (if PUndefined \<in> g ` set xs then PUndefined else PList (acc @ map g xs))"
proof -
  have "\<forall>\<^sub>F n in sequentially. \<forall>x \<in> set xs. f n x = Inr (g x)" by (rule settles_all) (rule assms)
  then show ?thesis unfolding settles_def by (rule eventually_mono) (rule coerce_items_pure)
qed

definition insert_outcome ::
  "(pystr \<Rightarrow> input_value \<Rightarrow> field_outcome) \<Rightarrow> pystr \<times> input_value \<Rightarrow> (pystr \<times> py_value) list \<Rightarrow> (pystr \<times> py_value) list" where
  "insert_outcome g = (\<lambda>(name, field) acc.
     case g name field of FieldValue v \<Rightarrow> dict_set (out_name name field) v acc | _ \<Rightarrow> acc)"

lemma coerce_fields_pure:
  assumes "\<forall>(name, field) \<in> set fds. f name field = Inr (g name field)"
  shows "coerce_fields f fds acc = Inr (if \<exists>(name, field) \<in> set fds. g name field = FieldInvalid then None
    else Some (fold (insert_outcome g) fds acc))"
  using assms
proof (induction fds arbitrary: acc)
  case (Cons x fds)
  obtain name field where x: "x = (name, field)" by (cases x)
  from Cons show ?case by (cases "g name field") (auto simp: x insert_outcome_def)
qed simp

lemma settles_fields:
  assumes "\<And>name field. (name, field) \<in> set fds \<Longrightarrow> settles (\<lambda>n. f n name field) (g name field)"
  shows "settles (\<lambda>n. coerce_fields (f n) fds acc)
    (if \<exists>(name, field) \<in> set fds. g name field = FieldInvalid then None else Some (fold (insert_outcome g) fds acc))"
proof -
  have "\<forall>\<^sub>F n in sequentially. \<forall>x \<in> set fds. (case x of (name, field) \<Rightarrow> f n name field) = Inr (case x of (name, field) \<Rightarrow> g name field)"
    by (rule settles_all) (use assms in auto)
  then show ?thesis unfolding settles_def
    by (rule eventually_mono) (intro coerce_fields_pure, auto)
qed

lemma concat_results_pure:
  assumes "\<forall>x \<in> set xs. f x = Inr (g x)"
  shows "concat_results (map f xs) = Inr (concat (map g xs))"
proof -
  have "collect_results (map f xs) = Inr (map g xs)" using assms by (induction xs) auto
  then show ?thesis by (simp add: concat_results_def)
qed

lemma fold_outcomes_none:
  "(\<And>name field. (name, field) \<in> set fds \<Longrightarrow> g name field = FieldOmitted) \<Longrightarrow> fold (insert_outcome g) fds acc = acc"
  by (induction fds) (auto simp: insert_outcome_def)

text \<open>A single field that is not left out makes a dict of one.\<close>

lemma fold_outcomes_one:
  assumes "\<And>name field. (name, field) \<in> set fds \<Longrightarrow> name \<noteq> k \<Longrightarrow> g name field = FieldOmitted"
    and "distinct (map fst fds)" and "(k, fd) \<in> set fds" and "g k fd = FieldValue w"
  shows "fold (insert_outcome g) fds [] = [(out_name k fd, w)]"
proof -
  from assms(3) obtain as bs where fds: "fds = as @ (k, fd) # bs" by (meson split_list)
  have "k \<notin> fst ` (set as \<union> set bs)" using assms(2) by (simp add: fds image_Un)
  then have "name \<noteq> k" if "(name, field) \<in> set as \<union> set bs" for name field
    using that by (metis fst_conv image_eqI)
  then have "g name field = FieldOmitted" if "(name, field) \<in> set as \<union> set bs" for name field
    using that assms(1) [of name field] by (auto simp: fds)
  moreover have "insert_outcome g (k, fd) [] = [(out_name k fd, w)]" by (simp add: insert_outcome_def assms(4))
  ultimately show ?thesis by (simp add: fds fold_outcomes_none)
qed

section \<open>Well-formed values and schemas\<close>

text \<open>The keys of a dict are distinct.\<close>

function wf_value :: "py_value \<Rightarrow> bool" where
  "wf_value v =
     (case v of
        PList vs \<Rightarrow> \<forall>x \<in> set vs. wf_value x
      | PDict d \<Rightarrow> distinct (map fst d) \<and> (\<forall>(k, x) \<in> set d. wf_value x)
      | _ \<Rightarrow> True)"
  by pat_completeness auto
termination
  by (relation "measure size") (auto intro: size_list_item size_dict_item)

declare wf_value.simps [simp del]

text \<open>
  What \<open>validate_schema\<close> asks of input types: default values can be coerced, the fields of a OneOf type are
  nullable and have no default.  What the user's functions keep to: \<open>out_type\<close> gives a value, and leaf types
  of fields of OneOf types do not turn a value into \<open>None\<close>.
\<close>

definition keeps_values :: "'w env \<Rightarrow> gtype \<Rightarrow> bool" where
  "keeps_values E t \<longleftrightarrow>
     (\<forall>name nt. t = GNamed name \<longrightarrow> env_types E name = Some nt \<longrightarrow>
        (\<forall>v. leaf_input_value nt v \<noteq> Inr PNone) \<and> (\<forall>vv fv node. leaf_input_literal E vv fv nt node \<noteq> Inr PNone))"

definition valid_field :: "'w env \<Rightarrow> bool \<Rightarrow> input_value \<Rightarrow> bool" where
  "valid_field E one_of field \<longleftrightarrow>
     is_input_type (env_types E) (iv_type field)
     \<and> (is_required_input field \<or> (\<exists>w. settles (\<lambda>n. coerce_default_value n E field) w))
     \<and> (one_of \<longrightarrow> \<not> is_non_null_type (iv_type field) \<and> iv_default field = None
          \<and> iv_default_value field = PUndefined \<and> keeps_values E (iv_type field))"

definition valid_input_object :: "'w env \<Rightarrow> input_object_type \<Rightarrow> bool" where
  "valid_input_object E io \<longleftrightarrow>
     distinct (map fst (io_fields io))
     \<and> (\<forall>(name, field) \<in> set (io_fields io). valid_field E (io_is_one_of io) field)
     \<and> (\<forall>d. \<exists>w. io_out_type io d = Inr w \<and> \<not> is_null w)"

definition valid_inputs :: "'w env \<Rightarrow> bool" where
  "valid_inputs E \<longleftrightarrow> (\<forall>name io. env_types E name = Some (InputObjectType io) \<longrightarrow> valid_input_object E io)"

section \<open>Values\<close>

definition agree :: "(nat \<Rightarrow> coerced) \<Rightarrow> reports \<Rightarrow> bool" where
  "agree f r \<longleftrightarrow> (\<exists>w errors. settles f w \<and> r = Inr errors \<and> (w = PUndefined \<longleftrightarrow> errors \<noteq> []))"

lemma agreeI: "settles f w \<Longrightarrow> r = Inr errors \<Longrightarrow> (w = PUndefined \<longleftrightarrow> errors \<noteq> []) \<Longrightarrow> agree f r"
  by (auto simp: agree_def)

lemma agree_leaf:
  "agree (\<lambda>n. undefined_on_error r) (Inr (leaf_reports r path))"
  by (cases r)
     (auto simp: agree_def undefined_on_error_def leaf_reports_def invalid_def intro: settles_const)

lemma agree_items:
  assumes "\<And>i. i < length xs \<Longrightarrow> agree (\<lambda>n. f n (xs ! i)) (v i)"
  shows "agree (\<lambda>n. coerce_items (f n) xs []) (concat_results (map v [0..<length xs]))"
proof -
  have "\<exists>w. settles (\<lambda>n. f n x) w" if "x \<in> set xs" for x
    using that assms by (metis agree_def in_set_conv_nth)
  then obtain g where g: "\<And>x. x \<in> set xs \<Longrightarrow> settles (\<lambda>n. f n x) (g x)" by metis
  have "\<exists>errors. v i = Inr errors \<and> (g (xs ! i) = PUndefined \<longleftrightarrow> errors \<noteq> [])" if "i < length xs" for i
    using assms [OF that] g [OF nth_mem [OF that]] unfolding agree_def by (metis settles_unique)
  then obtain h where h: "\<And>i. i < length xs \<Longrightarrow> v i = Inr (h i) \<and> (g (xs ! i) = PUndefined \<longleftrightarrow> h i \<noteq> [])" by metis
  have "PUndefined \<in> g ` set xs \<longleftrightarrow> (\<exists>i < length xs. g (xs ! i) = PUndefined)"
    by (simp add: image_iff Bex_def in_set_conv_nth) (metis)
  then have "PUndefined \<in> g ` set xs \<longleftrightarrow> (\<exists>i < length xs. h i \<noteq> [])" using h by auto
  moreover have "concat_results (map v [0..<length xs]) = Inr (concat (map h [0..<length xs]))"
    by (rule concat_results_pure) (use h in auto)
  ultimately show ?thesis
    by (intro agreeI [OF settles_items [OF g]]) auto
qed

text \<open>
  A field of an input object: its outcome, and the reports for it.  A variable for a field of a OneOf type (\<open>q\<close>) is
  reported already at the field.
\<close>

definition field_agree :: "(nat \<Rightarrow> py_error + field_outcome) \<Rightarrow> bool \<Rightarrow> field_outcome \<Rightarrow> reports \<Rightarrow> bool" where
  "field_agree f q out r \<longleftrightarrow> settles f out \<and> (\<exists>errors. r = Inr errors \<and> (out = FieldInvalid \<or> q \<longleftrightarrow> errors \<noteq> []))"

lemma field_agree_default:
  assumes "valid_field E one_of field"
  shows "\<exists>out. field_agree (\<lambda>n. default_outcome (coerce_default_value n E) field) False out
      (Inr (missing_field_reports field path)) \<and> (one_of \<longrightarrow> out = FieldOmitted)"
proof (cases "is_required_input field")
  case True
  with assms show ?thesis
    by (intro exI [of _ FieldInvalid])
       (auto simp: field_agree_def default_outcome_def missing_field_reports_def invalid_def valid_field_def
         is_required_input_def intro: settles_const)
next
  case False
  with assms obtain w where w: "settles (\<lambda>n. coerce_default_value n E field) w" by (auto simp: valid_field_def)
  have "w = PUndefined" if one_of
  proof -
    have "settles (\<lambda>n. coerce_default_value (Suc n) E field) PUndefined"
      using assms that by (simp add: valid_field_def coerce_default_value_body_def settles_const)
    then have "settles (\<lambda>n. coerce_default_value n E field) PUndefined" by (rule iffD1 [OF settles_Suc])
    then show ?thesis by (rule settles_unique [OF w])
  qed
  moreover have "settles (\<lambda>n. default_outcome (coerce_default_value n E) field)
      (if w = PUndefined then FieldOmitted else FieldValue w)"
    using False by (simp add: default_outcome_def settles_bind [OF w] settles_const)
  ultimately show ?thesis using False
    by (intro exI [of _ "if w = PUndefined then FieldOmitted else FieldValue w"])
       (auto simp: field_agree_def missing_field_reports_def)
qed

lemma field_agree_given:
  assumes "agree f r"
  shows "\<exists>w. field_agree (\<lambda>n. bind_result (f n) (\<lambda>w. Inr (given_value w))) False (given_value w) r \<and> settles f w"
proof -
  from assms obtain w errors where w: "settles f w" and r: "r = Inr errors" "w = PUndefined \<longleftrightarrow> errors \<noteq> []"
    by (auto simp: agree_def)
  have "settles (\<lambda>n. bind_result (f n) (\<lambda>w. Inr (given_value w))) (given_value w)"
    by (rule settles_bind [OF w]) (rule settles_const)
  moreover have "given_value w = FieldInvalid \<longleftrightarrow> errors \<noteq> []" using r(2) by (simp add: given_value_def)
  ultimately show ?thesis unfolding field_agree_def using w r(1) by blast
qed

text \<open>A type that keeps values gives no \<open>None\<close> but for a null.\<close>

lemma nullable_null:
  assumes "\<not> is_non_null_type t" and "is_null v"
  shows "settles (\<lambda>n. coerce_input_value n E v t) PNone"
proof -
  have "settles (\<lambda>n. coerce_input_value (Suc n) E v t) PNone"
    using assms by (cases t) (simp_all add: coerce_input_value_body_def settles_const)
  then show ?thesis by (rule iffD1 [OF settles_Suc])
qed

lemma coerce_items_shape: "coerce_items f xs acc = Inr w \<Longrightarrow> w = PUndefined \<or> (\<exists>ws. w = PList ws)"
  by (induction xs arbitrary: acc) (auto simp: bind_result_Inr_iff split: if_splits)

lemma input_object_value:
  assumes "valid_inputs E" and "env_types E name = Some (InputObjectType io)" and "io_out_type io d = Inr w"
  shows "\<not> is_null w"
  using assms by (auto simp: valid_inputs_def valid_input_object_def) (metis Inr_inject)

lemma keeps_values_value:
  assumes "valid_inputs E" and "keeps_values E t" and "\<not> is_non_null_type t" and "\<not> is_null v"
    and "settles (\<lambda>n. coerce_input_value n E v t) w"
  shows "w \<noteq> PNone"
proof -
  obtain n where n: "coerce_input_value (Suc n) E v t = Inr w" using assms(5) unfolding settles_iff by (meson le_SucI order_refl)
  show ?thesis
  proof (cases t)
    case (GNamed name)
    with n assms show ?thesis
      by (auto simp: coerce_input_value_body_def keeps_values_def undefined_on_error_def bind_result_Inr_iff
            dest: input_object_value split: option.splits named_type.splits py_value.splits if_splits sum.splits)
  next
    case (GList item)
    with n assms(4) show ?thesis
      by (auto simp: coerce_input_value_body_def simp del: coerce_items.simps dest: coerce_items_shape
            split: py_value.splits)
  qed (use assms(3) in simp)
qed

text \<open>An input object: the names, the fields, and the rule for OneOf types.\<close>

lemma defined_item_get:
  assumes "distinct (map fst d)"
  shows "(k, x) \<in> set (defined_items d) \<longleftrightarrow> dict_get d k = x \<and> x \<noteq> PUndefined"
proof -
  have "(k, x) \<in> set (defined_items d) \<longleftrightarrow> map_of d k = Some x \<and> x \<noteq> PUndefined"
    using assms by (simp add: defined_items_def)
  then show ?thesis by (auto simp: dict_get_def split: option.splits)
qed

lemma map_of_set_iff: "map_of xs k \<noteq> None \<longleftrightarrow> k \<in> fst ` set xs"
  by (simp add: map_of_eq_None_iff)

lemma name_reports_eq:
  assumes known: "\<And>k x. (k, x) \<in> set (defined_items d) \<Longrightarrow> map_of (io_fields io) k \<noteq> None"
  shows "name_reports io d path = [] \<longleftrightarrow>
    (io_is_one_of io \<longrightarrow> (\<exists>k x. defined_items d = [(k, x)] \<and> x \<noteq> PNone))"
proof -
  have "filter (\<lambda>(k, x). map_of (io_fields io) k = None) (defined_items d) = []"
    "filter (\<lambda>(k, x). map_of (io_fields io) k \<noteq> None) (defined_items d) = defined_items d"
    using known by (auto simp: filter_empty_conv filter_id_conv)
  then show ?thesis
    by (cases "defined_items d"; cases "tl (defined_items d)")
       (auto simp: name_reports_def Let_def invalid_def split: list.splits)
qed

lemma one_of_value:
  assumes "valid_inputs E" and "valid_input_object E io" and one_of: "io_is_one_of io" and d: "distinct (map fst d)"
    and names: "\<And>k x. (k, x) \<in> set (defined_items d) \<Longrightarrow> map_of (io_fields io) k \<noteq> None"
    and out: "\<And>name field. (name, field) \<in> set (io_fields io) \<Longrightarrow> dict_get d name = PUndefined \<Longrightarrow> g name field = FieldOmitted"
      "\<And>name field. (name, field) \<in> set (io_fields io) \<Longrightarrow> dict_get d name \<noteq> PUndefined \<Longrightarrow>
        \<exists>w. g name field = FieldValue w \<and> settles (\<lambda>n. coerce_input_value n E (dict_get d name) (iv_type field)) w"
  shows "length (defined_items d) = 1 \<and> is_list_of_one (fold (insert_outcome g) (io_fields io) [])
    \<longleftrightarrow> (\<exists>k x. defined_items d = [(k, x)] \<and> x \<noteq> PNone)"
proof (cases "\<exists>k x. defined_items d = [(k, x)]")
  case True
  then obtain k x where kx: "defined_items d = [(k, x)]" by auto
  then have x: "dict_get d k = x" "x \<noteq> PUndefined" using defined_item_get [OF d, of k x] by auto
  have fields: "distinct (map fst (io_fields io))" using assms(2) by (simp add: valid_input_object_def)
  from names [of k x] kx obtain field where field: "(k, field) \<in> set (io_fields io)"
    by (auto dest: map_of_SomeD)
  with assms(2) one_of have "valid_field E True field" by (auto simp: valid_input_object_def)
  then have nullable: "\<not> is_non_null_type (iv_type field)" and keeps: "keeps_values E (iv_type field)"
    by (auto simp: valid_field_def)
  from out(2) [OF field] x obtain w where w: "g k field = FieldValue w"
    "settles (\<lambda>n. coerce_input_value n E x (iv_type field)) w" by auto
  have "g name fd = FieldOmitted" if "(name, fd) \<in> set (io_fields io)" "name \<noteq> k" for name fd
    using defined_item_get [OF d, of name "dict_get d name"] kx that by (intro out(1)) auto
  then have "fold (insert_outcome g) (io_fields io) [] = [(out_name k field, w)]"
    by (rule fold_outcomes_one) (use fields field w in auto)
  moreover have "w = PNone \<longleftrightarrow> x = PNone"
    using keeps_values_value [OF assms(1) keeps nullable _ w(2)] nullable_null [OF nullable, of x E] w(2) x(2)
    by (auto simp: is_null_def dest: settles_unique)
  ultimately show ?thesis by (simp add: kx is_list_of_one_def)
qed (cases "defined_items d"; auto simp: is_list_of_one_def length_Suc_conv)

lemma settles_cong_const: "settles (\<lambda>n. bind_result (f n) g) w" if "settles f x" "g x = Inr w"
  by (rule settles_bind [OF that(1)]) (simp add: that(2) settles_const)

lemma agree_fields:
  assumes "\<And>name field. (name, field) \<in> set fds \<Longrightarrow>
    field_agree (\<lambda>n. f n name field) (q name) (g name field) (r name field)"
  shows "settles (\<lambda>n. coerce_fields (f n) fds acc)
      (if \<exists>(name, field) \<in> set fds. g name field = FieldInvalid then None else Some (fold (insert_outcome g) fds acc))
    \<and> (\<exists>errors. concat_results (map (\<lambda>(name, field). r name field) fds) = Inr errors
        \<and> (errors = [] \<longleftrightarrow> \<not> (\<exists>(name, field) \<in> set fds. g name field = FieldInvalid \<or> q name)))"
proof -
  from assms have "\<forall>name field. \<exists>errors. (name, field) \<in> set fds \<longrightarrow>
      r name field = Inr errors \<and> (g name field = FieldInvalid \<or> q name \<longleftrightarrow> errors \<noteq> [])"
    by (auto simp: field_agree_def)
  then obtain h where h: "\<And>name field. (name, field) \<in> set fds \<Longrightarrow>
      r name field = Inr (h name field) \<and> (g name field = FieldInvalid \<or> q name \<longleftrightarrow> h name field \<noteq> [])" by metis
  have "concat_results (map (\<lambda>(name, field). r name field) fds) = Inr (concat (map (\<lambda>(name, field). h name field) fds))"
    by (rule concat_results_pure) (use h in auto)
  moreover have "concat (map (\<lambda>(name, field). h name field) fds) = []
      \<longleftrightarrow> \<not> (\<exists>(name, field) \<in> set fds. g name field = FieldInvalid \<or> q name)"
  proof -
    have "concat (map (\<lambda>(name, field). h name field) fds) = [] \<longleftrightarrow> (\<forall>(name, field) \<in> set fds. h name field = [])"
      by auto
    also have "... \<longleftrightarrow> (\<forall>(name, field) \<in> set fds. \<not> (g name field = FieldInvalid \<or> q name))"
      by (rule ball_cong [OF refl]) (use h in auto)
    finally show ?thesis by auto
  qed
  moreover have "settles (\<lambda>n. coerce_fields (f n) fds acc)
      (if \<exists>(name, field) \<in> set fds. g name field = FieldInvalid then None else Some (fold (insert_outcome g) fds acc))"
    by (rule settles_fields) (use assms in \<open>auto simp: field_agree_def\<close>)
  ultimately show ?thesis by simp
qed

lemma agree_object:
  assumes "valid_inputs E" and io: "valid_input_object E io" and d: "distinct (map fst d)"
    and items: "\<And>name field. (name, field) \<in> set (io_fields io) \<Longrightarrow> dict_get d name \<noteq> PUndefined \<Longrightarrow>
      agree (\<lambda>n. coerce_input_value n E (dict_get d name) (iv_type field)) (rep name field)"
  shows "agree (\<lambda>n.
      if \<exists>(k, x) \<in> set (defined_items d). map_of (io_fields io) k = None then Inr PUndefined
      else bind_result (coerce_fields (\<lambda>name field.
            if dict_get d name = PUndefined then default_outcome (coerce_default_value n E) field
            else bind_result (coerce_input_value n E (dict_get d name) (iv_type field))
              (\<lambda>w. Inr (given_value w))) (io_fields io) [])
        (\<lambda>coerced. case coerced of
             None \<Rightarrow> Inr PUndefined
           | Some coerced \<Rightarrow>
               if io_is_one_of io \<and> (length (defined_items d) \<noteq> 1 \<or> \<not> is_list_of_one coerced)
               then Inr PUndefined else io_out_type io coerced))
    (bind_result (concat_results (map (\<lambda>(name, field).
        if dict_get d name = PUndefined then Inr (missing_field_reports field path) else rep name field) (io_fields io)))
      (\<lambda>errors. Inr (errors @ name_reports io d path)))"
proof -
  define f where "f n name field = (if dict_get d name = PUndefined then default_outcome (coerce_default_value n E) field
            else bind_result (coerce_input_value n E (dict_get d name) (iv_type field)) (\<lambda>w. Inr (given_value w)))"
    for n name field
  define r where "r name field =
      (if dict_get d name = PUndefined then Inr (missing_field_reports field path) else rep name field)" for name field
  have "\<exists>out. field_agree (\<lambda>n. f n name field) False out (r name field)
      \<and> (dict_get d name = PUndefined \<longrightarrow> io_is_one_of io \<longrightarrow> out = FieldOmitted)
      \<and> (dict_get d name \<noteq> PUndefined \<longrightarrow> (\<exists>w. out = given_value w
            \<and> settles (\<lambda>n. coerce_input_value n E (dict_get d name) (iv_type field)) w))"
    if "(name, field) \<in> set (io_fields io)" for name field
    using that items [OF that] io field_agree_default [of E "io_is_one_of io" field path]
      field_agree_given [of "\<lambda>n. coerce_input_value n E (dict_get d name) (iv_type field)" "rep name field"]
    by (cases "dict_get d name = PUndefined") (auto simp: f_def r_def valid_input_object_def)
  then obtain g where g: "\<And>name field. (name, field) \<in> set (io_fields io) \<Longrightarrow>
      field_agree (\<lambda>n. f n name field) False (g name field) (r name field)
      \<and> (dict_get d name = PUndefined \<longrightarrow> io_is_one_of io \<longrightarrow> g name field = FieldOmitted)
      \<and> (dict_get d name \<noteq> PUndefined \<longrightarrow> (\<exists>w. g name field = given_value w
            \<and> settles (\<lambda>n. coerce_input_value n E (dict_get d name) (iv_type field)) w))" by metis
  define bad where "bad \<longleftrightarrow> (\<exists>(name, field) \<in> set (io_fields io). g name field = FieldInvalid)"
  have fields: "settles (\<lambda>n. coerce_fields (f n) (io_fields io) [])
      (if bad then None else Some (fold (insert_outcome g) (io_fields io) []))"
    and "\<exists>errors. concat_results (map (\<lambda>(name, field). r name field) (io_fields io)) = Inr errors \<and> (errors = [] \<longleftrightarrow> \<not> bad)"
    using agree_fields [of "io_fields io" f "\<lambda>name. False" g r "[]"] g unfolding bad_def by auto
  then obtain errors where errors: "concat_results (map (\<lambda>(name, field). r name field) (io_fields io)) = Inr errors"
    "errors = [] \<longleftrightarrow> \<not> bad" by auto
  show ?thesis
  proof (cases "\<exists>(k, x) \<in> set (defined_items d). map_of (io_fields io) k = None")
    case True
    then have "name_reports io d path \<noteq> []" by (auto simp: name_reports_def Let_def filter_empty_conv)
    with True errors(1) show ?thesis
      by (intro agreeI [of _ PUndefined _ "errors @ name_reports io d path"]) (simp_all add: r_def settles_const)
  next
    case False
    then have names: "\<And>k x. (k, x) \<in> set (defined_items d) \<Longrightarrow> map_of (io_fields io) k \<noteq> None" by auto
    let ?coerced = "fold (insert_outcome g) (io_fields io) []"
    define rejects where "rejects \<longleftrightarrow> io_is_one_of io \<and> (length (defined_items d) \<noteq> 1 \<or> \<not> is_list_of_one ?coerced)"
    have one_of: "rejects \<longleftrightarrow> name_reports io d path \<noteq> []" if "\<not> bad"
    proof (cases "io_is_one_of io")
      case True
      have "\<exists>w. g name field = FieldValue w \<and> settles (\<lambda>n. coerce_input_value n E (dict_get d name) (iv_type field)) w"
        if in_fields: "(name, field) \<in> set (io_fields io)" "dict_get d name \<noteq> PUndefined" for name field
      proof -
        from g [OF in_fields(1)] in_fields(2) obtain w where w: "g name field = given_value w"
          "settles (\<lambda>n. coerce_input_value n E (dict_get d name) (iv_type field)) w" by auto
        moreover have "g name field \<noteq> FieldInvalid" using \<open>\<not> bad\<close> in_fields(1) by (auto simp: bad_def)
        ultimately show ?thesis by (auto simp: given_value_def split: if_splits)
      qed
      then have "length (defined_items d) = 1 \<and> is_list_of_one ?coerced
          \<longleftrightarrow> (\<exists>k x. defined_items d = [(k, x)] \<and> x \<noteq> PNone)"
        using g True by (intro one_of_value [OF assms(1) io True d names]) auto
      moreover have "name_reports io d path = [] \<longleftrightarrow> (\<exists>k x. defined_items d = [(k, x)] \<and> x \<noteq> PNone)"
        using True name_reports_eq [OF names] by simp
      ultimately show ?thesis using True unfolding rejects_def by blast
    qed (use name_reports_eq [OF names] in \<open>simp add: rejects_def\<close>)
    obtain w where w: "io_out_type io ?coerced = Inr w" "w \<noteq> PUndefined"
      using io unfolding valid_input_object_def is_null_def by metis
    let ?out = "if bad \<or> rejects then PUndefined else w"
    have settled: "settles (\<lambda>n. bind_result (coerce_fields (f n) (io_fields io) [])
        (\<lambda>coerced. case coerced of
             None \<Rightarrow> Inr PUndefined
           | Some coerced \<Rightarrow>
               if io_is_one_of io \<and> (length (defined_items d) \<noteq> 1 \<or> \<not> is_list_of_one coerced)
               then Inr PUndefined else io_out_type io coerced)) ?out"
      by (rule settles_cong_const [OF fields]) (auto simp: w(1) rejects_def)
    show ?thesis
    proof (rule agreeI [of _ ?out _ "errors @ name_reports io d path"])
      from settled show "settles (\<lambda>n.
          if \<exists>(k, x) \<in> set (defined_items d). map_of (io_fields io) k = None then Inr PUndefined
          else bind_result (coerce_fields (\<lambda>name field.
                if dict_get d name = PUndefined then default_outcome (coerce_default_value n E) field
                else bind_result (coerce_input_value n E (dict_get d name) (iv_type field))
                  (\<lambda>w. Inr (given_value w))) (io_fields io) [])
            (\<lambda>coerced. case coerced of
                 None \<Rightarrow> Inr PUndefined
               | Some coerced \<Rightarrow>
                   if io_is_one_of io \<and> (length (defined_items d) \<noteq> 1 \<or> \<not> is_list_of_one coerced)
                   then Inr PUndefined else io_out_type io coerced)) ?out"
        by (simp only: False if_False f_def [abs_def])
    qed (use errors one_of w(2) in \<open>auto simp: r_def\<close>)
  qed
qed

lemma agree_Suc: "agree (\<lambda>n. f (Suc n)) r \<Longrightarrow> agree f r"
  by (auto simp: agree_def dest: iffD1 [OF settles_Suc])

lemma agree_undefined: "errors \<noteq> [] \<Longrightarrow> agree (\<lambda>n. Inr PUndefined) (Inr errors)"
  by (rule agreeI [OF settles_const]) auto

lemma agree_valid: "w \<noteq> PUndefined \<Longrightarrow> agree (\<lambda>n. Inr w) (Inr [])"
  by (rule agreeI [OF settles_const]) auto

lemma agree_one:
  assumes "agree (\<lambda>n. f n v) r"
  shows "agree (\<lambda>n. coerce_items (f n) [v] []) r"
proof -
  from assms obtain w errors where w: "settles (\<lambda>n. f n v) w" and r: "r = Inr errors" "w = PUndefined \<longleftrightarrow> errors \<noteq> []"
    by (auto simp: agree_def)
  have "settles (\<lambda>n. coerce_items (f n) [v] []) (if PUndefined \<in> (\<lambda>x. w) ` set [v] then PUndefined else PList ([] @ map (\<lambda>x. w) [v]))"
    by (rule settles_items) (use w in simp)
  then show ?thesis by (rule agreeI [OF _ r(1)]) (use r(2) in auto)
qed

text \<open>The equations of both functions, one per case.\<close>

lemma validate_field_eq:
  "(case map_of d name of Some x \<Rightarrow> if x = PUndefined then a else f x | None \<Rightarrow> a)
    = (if dict_get d name = PUndefined then a else f (dict_get d name))"
  by (simp add: dict_get_def split: option.splits)

lemma coerce_value_non_null:
  "coerce_input_value (Suc n) E v (GNonNull t) = (if is_null v then Inr PUndefined else coerce_input_value n E v t)"
  by (simp add: coerce_input_value_body_def)

lemma coerce_value_null:
  "\<not> is_non_null_type t \<Longrightarrow> is_null v \<Longrightarrow> coerce_input_value (Suc n) E v t = Inr PNone"
  by (cases t) (simp_all add: coerce_input_value_body_def)

lemma coerce_value_list:
  "coerce_input_value (Suc n) E (PList vs) (GList item) = coerce_items (\<lambda>x. coerce_input_value n E x item) vs []"
  by (simp add: coerce_input_value_body_def)

lemma coerce_value_one:
  "\<not> is_null v \<Longrightarrow> \<nexists>vs. v = PList vs \<Longrightarrow>
    coerce_input_value (Suc n) E v (GList item) = coerce_items (\<lambda>x. coerce_input_value n E x item) [v] []"
  by (cases v) (simp_all add: coerce_input_value_body_def del: coerce_items.simps)

lemma coerce_value_no_dict:
  "\<not> is_null v \<Longrightarrow> \<nexists>d. v = PDict d \<Longrightarrow> env_types E name = Some (InputObjectType io) \<Longrightarrow>
    coerce_input_value (Suc n) E v (GNamed name) = Inr PUndefined"
  by (cases v) (simp_all add: coerce_input_value_body_def)

lemma coerce_value_leaf:
  "\<not> is_null v \<Longrightarrow> env_types E name = Some nt \<Longrightarrow> is_leaf_named nt \<Longrightarrow>
    coerce_input_value (Suc n) E v (GNamed name) = undefined_on_error (leaf_input_value nt v)"
  by (cases nt) (simp_all add: coerce_input_value_body_def)

lemma validate_value_non_null:
  "validate_input_value E v (GNonNull t) path =
     (if v = PUndefined then Inr [invalid path ''Expected a value of non-null type to be provided.'']
      else if v = PNone then Inr [invalid path ''Expected value of non-null type not to be None.'']
      else validate_input_value E v t path)"
  by (subst validate_input_value.simps) simp

lemma validate_value_null:
  "\<not> is_non_null_type t \<Longrightarrow> is_null v \<Longrightarrow> validate_input_value E v t path = Inr []"
  by (subst validate_input_value.simps) (cases t; simp)

lemma validate_value_list:
  "validate_input_value E (PList vs) (GList item) path =
     concat_results (map (\<lambda>i. validate_input_value E (vs ! i) item (path @ [PathIndex i])) [0..<length vs])"
  by (subst validate_input_value.simps) simp

lemma validate_value_one:
  "\<not> is_null v \<Longrightarrow> \<nexists>vs. v = PList vs \<Longrightarrow>
    validate_input_value E v (GList item) path = validate_input_value E v item path"
  by (subst validate_input_value.simps) (cases v; simp)

lemma validate_value_no_dict:
  "\<not> is_null v \<Longrightarrow> \<nexists>d. v = PDict d \<Longrightarrow> env_types E name = Some (InputObjectType io) \<Longrightarrow>
    validate_input_value E v (GNamed name) path = Inr [invalid path ''Expected value of type to be an object'']"
  by (subst validate_input_value.simps) (cases v; simp)

lemma validate_value_leaf:
  "\<not> is_null v \<Longrightarrow> env_types E name = Some nt \<Longrightarrow> is_leaf_named nt \<Longrightarrow>
    validate_input_value E v (GNamed name) path = Inr (leaf_reports (leaf_input_value nt v) path)"
  by (subst validate_input_value.simps) (cases nt; simp)

lemma coerce_value_dict:
  "env_types E name = Some (InputObjectType io) \<Longrightarrow> coerce_input_value (Suc n) E (PDict d) (GNamed name) =
    (if \<exists>(k, x) \<in> set (defined_items d). map_of (io_fields io) k = None then Inr PUndefined
     else bind_result (coerce_fields (\<lambda>name field.
           if dict_get d name = PUndefined then default_outcome (coerce_default_value n E) field
           else bind_result (coerce_input_value n E (dict_get d name) (iv_type field))
             (\<lambda>w. Inr (given_value w))) (io_fields io) [])
       (\<lambda>coerced. case coerced of
            None \<Rightarrow> Inr PUndefined
          | Some coerced \<Rightarrow>
              if io_is_one_of io \<and> (length (defined_items d) \<noteq> 1 \<or> \<not> is_list_of_one coerced)
              then Inr PUndefined else io_out_type io coerced))"
  by (simp add: coerce_input_value_body_def)

lemma validate_value_dict:
  "env_types E name = Some (InputObjectType io) \<Longrightarrow> validate_input_value E (PDict d) (GNamed name) path =
    bind_result (concat_results (map (\<lambda>(name, field).
        if dict_get d name = PUndefined then Inr (missing_field_reports field path)
        else validate_input_value E (dict_get d name) (iv_type field) (path @ [PathName name])) (io_fields io)))
      (\<lambda>errors. Inr (errors @ name_reports io d path))"
  by (subst validate_input_value.simps) (simp add: validate_field_eq)

declare coerce_input_value.simps [simp del]

lemmas value_eqs =
  coerce_value_non_null coerce_value_null validate_value_non_null validate_value_null

lemma agree_value:
  assumes E: "valid_inputs E"
  shows "is_input_type (env_types E) t \<Longrightarrow> wf_value v \<Longrightarrow>
    agree (\<lambda>n. coerce_input_value n E v t) (validate_input_value E v t path)"
proof (induction v arbitrary: t path rule: measure_induct_rule [of size])
  case (less v)
  have IH: "agree (\<lambda>n. coerce_input_value n E x t') (validate_input_value E x t' p)"
    if "size x < size v" "is_input_type (env_types E) t'" "wf_value x" for x t' p
    using less.IH that by blast
  note wf = less.prems(2) [unfolded wf_value.simps [of v]]
  from less.prems(1) show ?case
  proof (induction t arbitrary: path)
    case (GNonNull t)
    then have *: "agree (\<lambda>n. coerce_input_value n E v t) (validate_input_value E v t path)" by simp
    consider "v = PUndefined" | "v = PNone" | "\<not> is_null v" by (auto simp: is_null_def)
    then show ?case
    proof cases
      case 3
      then have "v \<noteq> PUndefined" "v \<noteq> PNone" by auto
      with 3 * show ?thesis by - (rule agree_Suc, simp add: value_eqs)
    qed (rule agree_Suc, simp add: value_eqs agree_undefined)+
  next
    case (GList item)
    consider "is_null v" | vs where "v = PList vs" | "\<not> is_null v" "\<nexists>vs. v = PList vs" by auto
    then show ?case
    proof cases
      case 1
      then show ?thesis by - (rule agree_Suc, simp add: value_eqs agree_valid)
    next
      case (2 vs)
      have "agree (\<lambda>n. coerce_input_value n E (vs ! i) item) (validate_input_value E (vs ! i) item p)"
        if "i < length vs" for i p
        using GList.prems wf that by (intro IH) (auto simp: 2 intro: size_list_item)
      then have "agree (\<lambda>n. coerce_items (\<lambda>x. coerce_input_value n E x item) vs [])
          (concat_results (map (\<lambda>i. validate_input_value E (vs ! i) item (path @ [PathIndex i])) [0..<length vs]))"
        by (intro agree_items)
      then show ?thesis by - (rule agree_Suc, simp only: 2 coerce_value_list validate_value_list)
    next
      case 3
      have "agree (\<lambda>n. coerce_input_value n E v item) (validate_input_value E v item path)"
        using GList by simp
      then have "agree (\<lambda>n. coerce_items (\<lambda>x. coerce_input_value n E x item) [v] []) (validate_input_value E v item path)"
        by (rule agree_one)
      then show ?thesis
        by - (rule agree_Suc, simp only: coerce_value_one [OF 3] validate_value_one [OF 3])
    qed
  next
    case (GNamed name)
    then obtain nt where nt: "env_types E name = Some nt" "is_input_named nt" by (auto split: option.splits)
    consider "is_null v" | io d where "nt = InputObjectType io" "v = PDict d"
      | io where "\<not> is_null v" "nt = InputObjectType io" "\<nexists>d. v = PDict d" | "\<not> is_null v" "is_leaf_named nt"
      using nt(2) by (cases nt; cases "\<exists>d. v = PDict d") auto
    then show ?case
    proof cases
      case 1
      then show ?thesis by - (rule agree_Suc, simp add: value_eqs agree_valid)
    next
      case (2 io d)
      with E nt have valid: "valid_input_object E io" by (auto simp: valid_inputs_def)
      have items: "agree (\<lambda>n. coerce_input_value n E (dict_get d name) (iv_type field))
          (validate_input_value E (dict_get d name) (iv_type field) p)"
        if field: "(name, field) \<in> set (io_fields io)" "dict_get d name \<noteq> PUndefined" for name field p
      proof (rule IH)
        obtain x where x: "map_of d name = Some x" using field(2) by (auto simp: dict_get_def split: option.splits)
        then have "(name, x) \<in> set d" by (rule map_of_SomeD)
        with wf x show "size (dict_get d name) < size v" "wf_value (dict_get d name)"
          by (auto simp: 2 dict_get_def intro: size_dict_item)
        show "is_input_type (env_types E) (iv_type field)"
          using valid field(1) by (auto simp: valid_input_object_def valid_field_def)
      qed
      have d: "distinct (map fst d)" using wf by (simp add: 2)
      show ?thesis
        unfolding 2 by (rule agree_Suc, unfold coerce_value_dict [OF nt(1) [unfolded 2(1)]]
          validate_value_dict [OF nt(1) [unfolded 2(1)]]) (rule agree_object [OF E valid d items])
    next
      case (3 io)
      then show ?thesis using nt
        by - (rule agree_Suc, simp add: coerce_value_no_dict validate_value_no_dict agree_undefined)
    next
      case 4
      then show ?thesis using nt
        by - (rule agree_Suc, simp add: coerce_value_leaf validate_value_leaf agree_leaf)
    qed
  qed
qed

end
