(* ===== verification/Literal_Agreement.thy ===== *)
theory Literal_Agreement
  imports Input_Agreement
begin

text \<open>
  Validation and coercion agree on literals, with the values of variables in them.
\<close>

section \<open>Well-formed literals\<close>

text \<open>
  The fields of an object literal have distinct names (rule \<open>UniqueInputFieldNames\<close>); variables occur only if they
  are allowed.
\<close>

function wf_literal :: "bool \<Rightarrow> value_node \<Rightarrow> bool" where
  "wf_literal variables node =
     (case node of
        VariableValue v \<Rightarrow> variables
      | ListValueNode nodes loc \<Rightarrow> \<forall>x \<in> set nodes. wf_literal variables x
      | ObjectValueNode fds loc \<Rightarrow>
          distinct (map (\<lambda>f. name_value (object_field_name f)) fds)
          \<and> (\<forall>f \<in> set fds. wf_literal variables (object_field_value f))
      | _ \<Rightarrow> True)"
  by pat_completeness auto
termination
  by (relation "measure (\<lambda>(variables, node). size node)") (auto intro: size_list_item field_size)

declare wf_literal.simps [simp del]

text \<open>A missing variable is no value at the top; in a list it is \<open>None\<close>, in an object its field is left out.\<close>

definition has_value :: "variable_values option \<Rightarrow> fragment_values option \<Rightarrow> value_node \<Rightarrow> gtype \<Rightarrow> bool" where
  "has_value vv fv node t \<longleftrightarrow>
     (\<forall>v. node = VariableValue v \<longrightarrow> is_non_null_type t \<or> \<not> is_missing_variable v vv fv)"

abbreviation known_variables :: "variable_values option \<Rightarrow> fragment_values option \<Rightarrow> bool" where
  "known_variables vv fv \<equiv> vv \<noteq> None \<or> fv \<noteq> None"

lemma variable_of_Some [simp]: "variable_of node = Some v \<longleftrightarrow> node = VariableValue v"
  by (cases node) auto

lemma variable_of_None: "variable_of node = None \<longleftrightarrow> (\<nexists>v. node = VariableValue v)"
  by (cases node) auto

lemma no_variable: "\<forall>v. node \<noteq> VariableValue v \<Longrightarrow> variable_of node = None"
  by (simp add: variable_of_None)

lemma dict_of_distinct: "distinct (map fst kvs) \<Longrightarrow> dict_of kvs = kvs"
proof -
  have set_new: "k \<notin> fst ` set acc \<Longrightarrow> dict_set k v acc = acc @ [(k, v)]" for k and v :: 'b and acc
    by (induction acc) auto
  have "distinct (map fst (acc @ kvs)) \<Longrightarrow> fold (\<lambda>(k, v). dict_set k v) kvs acc = acc @ kvs" for acc
  proof (induction kvs arbitrary: acc)
    case (Cons kv kvs)
    obtain k v where kv: "kv = (k, v)" by (cases kv)
    from Cons.prems have "k \<notin> fst ` set acc" by (auto simp: kv)
    then have "fold (\<lambda>(k, v). dict_set k v) (kv # kvs) acc = fold (\<lambda>(k, v). dict_set k v) kvs (acc @ [(k, v)])"
      by (simp add: kv set_new)
    also have "... = (acc @ [(k, v)]) @ kvs" by (rule Cons.IH) (use Cons.prems in \<open>simp add: kv\<close>)
    finally show ?case by (simp add: kv)
  qed simp
  from this [of "[]"] show "distinct (map fst kvs) \<Longrightarrow> dict_of kvs = kvs" by (simp add: dict_of_def)
qed

lemma field_nodes_distinct:
  "distinct (map (\<lambda>f. name_value (object_field_name f)) fds) \<Longrightarrow>
    field_nodes_of fds = map (\<lambda>f. (name_value (object_field_name f), object_field_value f)) fds"
  unfolding field_nodes_of_def by (rule dict_of_distinct) (simp add: comp_def)

section \<open>The equations of both functions\<close>

lemma coerce_literal_variable:
  "coerce_input_literal (Suc n) E vv fv (VariableValue v) t =
     (if is_null (get_coerced_variable_value v vv fv) \<and> is_non_null_type t then Inr PUndefined
      else Inr (get_coerced_variable_value v vv fv))"
  by (simp add: coerce_input_literal_body_def Let_def)

lemma coerce_literal_non_null:
  "\<nexists>v. node = VariableValue v \<Longrightarrow> coerce_input_literal (Suc n) E vv fv node (GNonNull t) =
     (if is_null_node node then Inr PUndefined else coerce_input_literal n E vv fv node t)"
  by (cases node) (simp_all add: coerce_input_literal_body_def)

lemma coerce_literal_null:
  "is_null_node node \<Longrightarrow> \<not> is_non_null_type t \<Longrightarrow> coerce_input_literal (Suc n) E vv fv node t = Inr PNone"
  by (cases node; cases t) (simp_all add: coerce_input_literal_body_def)

lemma coerce_literal_list:
  "coerce_input_literal (Suc n) E vv fv (ListValueNode nodes loc) (GList item) =
     coerce_items (\<lambda>x. bind_result (coerce_input_literal n E vv fv x item) (\<lambda>w.
       case x of
         VariableValue v \<Rightarrow>
           if w = PUndefined \<and> \<not> is_non_null_type item \<and> variable_value_is_null v vv fv then Inr PNone else Inr w
       | _ \<Rightarrow> Inr w)) nodes []"
  by (simp add: coerce_input_literal_body_def)

lemma coerce_literal_one:
  "\<nexists>v. node = VariableValue v \<Longrightarrow> \<not> is_null_node node \<Longrightarrow> list_items node = None \<Longrightarrow>
     coerce_input_literal (Suc n) E vv fv node (GList item) =
       coerce_items (\<lambda>x. coerce_input_literal n E vv fv x item) [node] []"
  by (cases node) (simp_all add: coerce_input_literal_body_def del: coerce_items.simps)

lemma coerce_literal_no_object:
  "\<nexists>v. node = VariableValue v \<Longrightarrow> \<not> is_null_node node \<Longrightarrow> object_fields node = None \<Longrightarrow>
     env_types E name = Some (InputObjectType io) \<Longrightarrow>
     coerce_input_literal (Suc n) E vv fv node (GNamed name) = Inr PUndefined"
  by (cases node) (simp_all add: coerce_input_literal_body_def)

lemma coerce_literal_leaf:
  "\<nexists>v. node = VariableValue v \<Longrightarrow> \<not> is_null_node node \<Longrightarrow> env_types E name = Some nt \<Longrightarrow> is_leaf_named nt \<Longrightarrow>
     coerce_input_literal (Suc n) E vv fv node (GNamed name) = undefined_on_error (leaf_input_literal E vv fv nt node)"
  by (cases node; cases nt) (simp_all add: coerce_input_literal_body_def)

text \<open>The value of a field: none if the field is absent or its variable is missing.\<close>

definition given_node ::
  "variable_values option \<Rightarrow> fragment_values option \<Rightarrow> (pystr \<times> value_node) list \<Rightarrow> pystr \<Rightarrow> value_node option" where
  "given_node vv fv nodes name =
     (case map_of nodes name of
        Some x \<Rightarrow>
          (case variable_of x of Some v \<Rightarrow> if is_missing_variable v vv fv then None else Some x | None \<Rightarrow> Some x)
      | None \<Rightarrow> None)"

definition one_of_rejects ::
  "input_object_type \<Rightarrow> (pystr \<times> value_node) list \<Rightarrow> (pystr \<times> py_value) list \<Rightarrow> bool" where
  "one_of_rejects io nodes coerced \<longleftrightarrow>
     io_is_one_of io \<and>
       (length nodes \<noteq> 1 \<or> length coerced \<noteq> 1
        \<or> (\<exists>(k, x) \<in> set nodes. is_null_node x
             \<or> (case map_of (io_fields io) k of
                  Some field \<Rightarrow> dict_get coerced (out_name k field) = PNone
                | None \<Rightarrow> False)))"

lemma coerce_literal_object:
  assumes "env_types E name = Some (InputObjectType io)"
  shows "coerce_input_literal (Suc n) E vv fv (ObjectValueNode fds loc) (GNamed name) =
    (let nodes = field_nodes_of fds in
     if \<exists>(k, x) \<in> set nodes. map_of (io_fields io) k = None then Inr PUndefined
     else bind_result (coerce_fields (\<lambda>name field.
          (case given_node vv fv nodes name of
             None \<Rightarrow> default_outcome (coerce_default_value n E) field
           | Some x \<Rightarrow> bind_result (coerce_input_literal n E vv fv x (iv_type field)) (\<lambda>w. Inr (given_value w))))
          (io_fields io) [])
       (\<lambda>coerced. case coerced of
            None \<Rightarrow> Inr PUndefined
          | Some coerced \<Rightarrow> if one_of_rejects io nodes coerced then Inr PUndefined else io_out_type io coerced))"
proof -
  have *: "(case map_of nodes name of
      None \<Rightarrow> a
    | Some x \<Rightarrow>
        (case x of
           VariableValue v \<Rightarrow> if is_missing_variable v vv fv then a else b x
         | _ \<Rightarrow> b x)) = (case given_node vv fv nodes name of None \<Rightarrow> a | Some x \<Rightarrow> b x)" for nodes name a b
    by (simp add: given_node_def split: option.split value_node.split)
  show ?thesis
    using assms by (simp add: coerce_input_literal_body_def Let_def one_of_rejects_def flip: *)
qed

declare coerce_input_literal.simps [simp del]

lemma validate_literal_variable:
  "validate_input_literal E vv fv (VariableValue v) t path = Inr (variable_reports vv fv v t path)"
  by (subst validate_input_literal.simps) simp

lemma validate_literal_non_null:
  "\<nexists>v. node = VariableValue v \<Longrightarrow> validate_input_literal E vv fv node (GNonNull t) path =
     (if is_null_node node then Inr [invalid path ''Expected value of non-null type not to be None.'']
      else validate_input_literal E vv fv node t path)"
  by (subst validate_input_literal.simps) (simp add: no_variable)

lemma validate_literal_null:
  "is_null_node node \<Longrightarrow> \<not> is_non_null_type t \<Longrightarrow> validate_input_literal E vv fv node t path = Inr []"
  by (subst validate_input_literal.simps) (cases node; cases t; simp)

lemma validate_literal_list:
  "validate_input_literal E vv fv (ListValueNode nodes loc) (GList item) path =
     concat_results (map (\<lambda>i. validate_input_literal E vv fv (nodes ! i) item (path @ [PathIndex i])) [0..<length nodes])"
  by (subst validate_input_literal.simps) simp

lemma validate_literal_one:
  "\<nexists>v. node = VariableValue v \<Longrightarrow> \<not> is_null_node node \<Longrightarrow> list_items node = None \<Longrightarrow>
     validate_input_literal E vv fv node (GList item) path = validate_input_literal E vv fv node item path"
  by (subst validate_input_literal.simps) (simp add: no_variable)

lemma validate_literal_no_object:
  "\<nexists>v. node = VariableValue v \<Longrightarrow> \<not> is_null_node node \<Longrightarrow> object_fields node = None \<Longrightarrow>
     env_types E name = Some (InputObjectType io) \<Longrightarrow>
     validate_input_literal E vv fv node (GNamed name) path = Inr [invalid path ''Expected value of type to be an object'']"
  by (subst validate_input_literal.simps) (simp add: no_variable)

lemma validate_literal_leaf:
  "\<nexists>v. node = VariableValue v \<Longrightarrow> \<not> is_null_node node \<Longrightarrow> env_types E name = Some nt \<Longrightarrow> is_leaf_named nt \<Longrightarrow>
     validate_input_literal E vv fv node (GNamed name) path =
       Inr (leaf_reports (leaf_input_literal E vv fv nt node) path)"
  by (subst validate_input_literal.simps) (cases nt; simp add: no_variable)

definition field_reports ::
  "'w env \<Rightarrow> variable_values option \<Rightarrow> fragment_values option \<Rightarrow> bool \<Rightarrow> (pystr \<times> value_node) list
    \<Rightarrow> pystr \<Rightarrow> input_value \<Rightarrow> path_key list \<Rightarrow> reports" where
  "field_reports E vv fv one_of nodes name field path =
     (case map_of nodes name of
        None \<Rightarrow> Inr (missing_field_reports field path)
      | Some x \<Rightarrow>
          (case variable_of x of
             Some v \<Rightarrow>
               if passes_over vv fv one_of v field then Inr []
               else Inr (variable_field_reports vv fv one_of v path
                 @ variable_reports vv fv v (iv_type field) (path @ [PathName name]))
           | None \<Rightarrow> validate_input_literal E vv fv x (iv_type field) (path @ [PathName name])))"

lemma validate_literal_object:
  assumes "env_types E name = Some (InputObjectType io)"
  shows "validate_input_literal E vv fv (ObjectValueNode fds loc) (GNamed name) path =
    bind_result (concat_results (map (\<lambda>(name, field).
        field_reports E vv fv (io_is_one_of io) (field_nodes_of fds) name field path) (io_fields io)))
      (\<lambda>errors. Inr (errors @ field_name_reports io fds path))"
proof -
  have "(case map_of (field_nodes_of fds) name of
      None \<Rightarrow> Inr (missing_field_reports field path)
    | Some x \<Rightarrow>
        (case variable_of x of
           Some v \<Rightarrow>
             if passes_over vv fv (io_is_one_of io) v field then Inr []
             else bind_result (validate_input_literal E vv fv x (iv_type field) (path @ [PathName name]))
               (\<lambda>errors. Inr (variable_field_reports vv fv (io_is_one_of io) v path @ errors))
         | None \<Rightarrow> validate_input_literal E vv fv x (iv_type field) (path @ [PathName name])))
      = field_reports E vv fv (io_is_one_of io) (field_nodes_of fds) name field path" for name field
    by (auto simp: field_reports_def validate_literal_variable split: option.split)
  then show ?thesis using assms by (subst validate_input_literal.simps) simp
qed

section \<open>Fields\<close>

text \<open>The variable that is reported for a field of a OneOf type.\<close>

definition null_variable ::
  "variable_values option \<Rightarrow> fragment_values option \<Rightarrow> (pystr \<times> value_node) list \<Rightarrow> pystr \<Rightarrow> bool" where
  "null_variable vv fv nodes name \<longleftrightarrow>
     (\<exists>v. map_of nodes name = Some (VariableValue v) \<and> variable_value_is_null v vv fv)"

lemma variable_given:
  "\<not> is_missing_variable v vv fv \<or> is_non_null_type t \<Longrightarrow>
    settles (\<lambda>n. coerce_input_literal n E vv fv (VariableValue v) t)
      (if variable_value_is_null v vv fv \<and> is_non_null_type t then PUndefined else get_coerced_variable_value v vv fv)"
  by (rule iffD1 [OF settles_Suc])
     (simp add: coerce_literal_variable variable_value_is_null_def settles_const)

lemma variable_reports_empty:
  assumes "known_variables vv fv"
  shows "variable_reports vv fv v t path = [] \<longleftrightarrow> \<not> (is_non_null_type t \<and> variable_value_is_null v vv fv)"
  using assms by (auto simp: variable_reports_def variable_value_is_null_def is_null_def invalid_def Let_def)

lemma variable_field_reports_empty:
  assumes "known_variables vv fv"
  shows "variable_field_reports vv fv one_of v path = [] \<longleftrightarrow> \<not> (one_of \<and> variable_value_is_null v vv fv)"
  using assms by (auto simp: variable_field_reports_def variable_value_is_null_def is_null_def invalid_def Let_def)

lemma agree_variable:
  assumes "known_variables vv fv" and "has_value vv fv (VariableValue v) t"
  shows "agree (\<lambda>n. coerce_input_literal n E vv fv (VariableValue v) t)
    (validate_input_literal E vv fv (VariableValue v) t path)"
proof (rule agreeI [OF variable_given validate_literal_variable])
  show "\<not> is_missing_variable v vv fv \<or> is_non_null_type t" using assms(2) by (auto simp: has_value_def)
  then show "((if variable_value_is_null v vv fv \<and> is_non_null_type t then PUndefined
      else get_coerced_variable_value v vv fv) = PUndefined) = (variable_reports vv fv v t path \<noteq> [])"
    unfolding variable_reports_empty [OF assms(1)]
    by (auto simp: is_missing_variable_def variable_value_is_null_def)
qed

lemma agree_field:
  assumes field: "valid_field E one_of field"
    and known: "\<And>v. map_of nodes name = Some (VariableValue v) \<Longrightarrow> known_variables vv fv"
    and given: "\<And>x. map_of nodes name = Some x \<Longrightarrow> \<nexists>v. x = VariableValue v \<Longrightarrow>
      agree (\<lambda>n. coerce_input_literal n E vv fv x (iv_type field))
        (validate_input_literal E vv fv x (iv_type field) (path @ [PathName name]))"
  shows "\<exists>out. field_agree (\<lambda>n. case given_node vv fv nodes name of
        None \<Rightarrow> default_outcome (coerce_default_value n E) field
      | Some x \<Rightarrow> bind_result (coerce_input_literal n E vv fv x (iv_type field)) (\<lambda>w. Inr (given_value w)))
      (one_of \<and> null_variable vv fv nodes name) out (field_reports E vv fv one_of nodes name field path)
    \<and> (given_node vv fv nodes name = None \<longrightarrow> one_of \<longrightarrow> out = FieldOmitted)
    \<and> (\<forall>x. given_node vv fv nodes name = Some x \<longrightarrow> (\<exists>w. out = given_value w
          \<and> settles (\<lambda>n. coerce_input_literal n E vv fv x (iv_type field)) w))"
proof -
  consider "map_of nodes name = None" | x where "map_of nodes name = Some x" "\<nexists>v. x = VariableValue v"
    | v where "map_of nodes name = Some (VariableValue v)" "is_missing_variable v vv fv"
    | v where "map_of nodes name = Some (VariableValue v)" "\<not> is_missing_variable v vv fv"
    by (cases "map_of nodes name") auto
  then show ?thesis
  proof cases
    case 1
    with field_agree_default [OF field, of path] show ?thesis
      by (simp add: given_node_def null_variable_def field_reports_def)
  next
    case (2 x)
    then have x: "variable_of x = None" by (simp add: variable_of_None)
    from field_agree_given [OF given [OF 2]] show ?thesis
      using 2 x by (auto simp: given_node_def null_variable_def field_reports_def)
  next
    case (3 v)
    from known [OF 3(1)] have vars: "known_variables vv fv" .
    from 3(2) have null: "variable_value_is_null v vv fv"
      by (simp add: is_missing_variable_def variable_value_is_null_def)
    from field_agree_default [OF field, of path] obtain out where
      out: "field_agree (\<lambda>n. default_outcome (coerce_default_value n E) field) False out (Inr (missing_field_reports field path))"
      "one_of \<longrightarrow> out = FieldOmitted" by auto
    then have "field_agree (\<lambda>n. default_outcome (coerce_default_value n E) field) one_of out
        (field_reports E vv fv one_of nodes name field path)"
      using 3 field vars null variable_field_reports_empty [OF vars] variable_reports_empty [OF vars]
      by (auto simp: field_agree_def field_reports_def passes_over_def is_missing_variable_def is_required_input_def
          missing_field_reports_def valid_field_def invalid_def split: if_splits)
    with 3 null out(2) show ?thesis by (auto simp: given_node_def null_variable_def)
  next
    case (4 v)
    from known [OF 4(1)] have vars: "known_variables vv fv" .
    let ?w = "if variable_value_is_null v vv fv \<and> is_non_null_type (iv_type field) then PUndefined
      else get_coerced_variable_value v vv fv"
    have settled: "settles (\<lambda>n. coerce_input_literal n E vv fv (VariableValue v) (iv_type field)) ?w"
      by (rule variable_given) (use 4 in simp)
    then have "settles (\<lambda>n. bind_result (coerce_input_literal n E vv fv (VariableValue v) (iv_type field))
        (\<lambda>w. Inr (given_value w))) (given_value ?w)"
      by (rule settles_bind) (rule settles_const)
    then have "field_agree (\<lambda>n. bind_result (coerce_input_literal n E vv fv (VariableValue v) (iv_type field))
        (\<lambda>w. Inr (given_value w))) (one_of \<and> null_variable vv fv nodes name) (given_value ?w)
        (field_reports E vv fv one_of nodes name field path)"
      using 4 variable_field_reports_empty [OF vars] variable_reports_empty [OF vars]
      by (auto simp: field_agree_def field_reports_def passes_over_def null_variable_def is_missing_variable_def
          given_value_def)
    with 4 settled show ?thesis by (auto simp: given_node_def)
  qed
qed

section \<open>Objects\<close>

lemma finished_object:
  "bind_result r (\<lambda>coerced. case coerced of None \<Rightarrow> Inr PUndefined
      | Some coerced \<Rightarrow> if b coerced then Inr PUndefined else h coerced) = Inr w \<Longrightarrow> w = PUndefined \<or> (\<exists>d. h d = Inr w)"
  by (auto simp: bind_result_Inr_iff split: option.splits if_splits)

lemma keeps_values_literal:
  assumes "valid_inputs E" and "keeps_values E t" and "\<not> is_non_null_type t"
    and "\<nexists>v. node = VariableValue v" and "\<not> is_null_node node"
    and "settles (\<lambda>n. coerce_input_literal n E vv fv node t) w"
  shows "w \<noteq> PNone"
proof -
  obtain n where n: "coerce_input_literal (Suc n) E vv fv node t = Inr w"
    using assms(6) unfolding settles_iff by (meson le_SucI order_refl)
  show ?thesis
  proof (cases t)
    case (GNamed name)
    show ?thesis
    proof (cases "\<exists>nt. env_types E name = Some nt \<and> is_leaf_named nt")
      case True
      then obtain nt where nt: "env_types E name = Some nt" "is_leaf_named nt" by auto
      then have "leaf_input_literal E vv fv nt node \<noteq> Inr PNone" using assms(2) GNamed by (simp add: keeps_values_def)
      with n coerce_literal_leaf [OF assms(4,5) nt] show ?thesis
        by (auto simp: GNamed undefined_on_error_def split: sum.splits)
    next
      case False
      show ?thesis
      proof (cases "\<exists>io. env_types E name = Some (InputObjectType io)")
        case True
        then obtain io where io: "env_types E name = Some (InputObjectType io)" by auto
        show ?thesis
        proof (cases "object_fields node")
          case None
          with n coerce_literal_no_object [OF assms(4,5) None io] show ?thesis by (auto simp: GNamed)
        next
          case (Some fds)
          then obtain loc where node: "node = ObjectValueNode fds loc" by (cases node) auto
          from n have "w = PUndefined \<or> (\<exists>d. io_out_type io d = Inr w)"
            by (auto simp: GNamed node coerce_literal_object [OF io] Let_def dest: finished_object split: if_splits)
          then show ?thesis by (auto dest: input_object_value [OF assms(1) io])
        qed
      next
        case no_object: False
        have "coerce_input_literal (Suc n) E vv fv node t = Inl (TypeError (str ''Expected a GraphQL leaf type''))"
          using False no_object assms(4,5)
          by (cases node; cases "env_types E name"; cases "the (env_types E name)")
             (simp_all add: GNamed coerce_input_literal.simps coerce_input_literal_body_def)
        with n show ?thesis by simp
      qed
    qed
  next
    case (GList item)
    with n assms(4,5) show ?thesis
      by (cases node)
         (auto simp: coerce_input_literal.simps coerce_input_literal_body_def dest: coerce_items_shape
           simp del: coerce_items.simps)
  qed (use assms(3) in simp)
qed

lemma field_name_reports_eq:
  assumes "\<And>f. f \<in> set fds \<Longrightarrow> map_of (io_fields io) (name_value (object_field_name f)) \<noteq> None"
  shows "field_name_reports io fds path = [] \<longleftrightarrow>
    (io_is_one_of io \<longrightarrow> (\<exists>f. fds = [f] \<and> \<not> is_null_node (object_field_value f)))"
proof -
  have "filter (\<lambda>f. map_of (io_fields io) (name_value (object_field_name f)) = None) fds = []"
    "filter (\<lambda>f. map_of (io_fields io) (name_value (object_field_name f)) \<noteq> None) fds = fds"
    using assms by (auto simp: filter_empty_conv filter_id_conv)
  then have "field_name_reports io fds path = (if io_is_one_of io
      then (if length fds \<noteq> 1 then [invalid path one_of_message]
        else if is_null_node (object_field_value (hd fds))
        then [invalid (path @ [PathName (name_value (object_field_name (hd fds)))]) one_of_message] else [])
      else [])"
    by (simp only: field_name_reports_def Let_def list.map append_Nil)
  then show ?thesis by (cases fds; cases "tl fds") auto
qed

lemma one_of_literal:
  assumes E: "valid_inputs E" and io: "valid_input_object E io" and one_of: "io_is_one_of io"
    and distinct: "distinct (map (\<lambda>f. name_value (object_field_name f)) fds)"
    and names: "\<And>f. f \<in> set fds \<Longrightarrow> map_of (io_fields io) (name_value (object_field_name f)) \<noteq> None"
    and out: "\<And>name field. (name, field) \<in> set (io_fields io) \<Longrightarrow>
        given_node vv fv (field_nodes_of fds) name = None \<Longrightarrow> g name field = FieldOmitted"
      "\<And>name field x. (name, field) \<in> set (io_fields io) \<Longrightarrow> given_node vv fv (field_nodes_of fds) name = Some x \<Longrightarrow>
        \<exists>w. g name field = FieldValue w \<and> settles (\<lambda>n. coerce_input_literal n E vv fv x (iv_type field)) w"
  shows "\<not> one_of_rejects io (field_nodes_of fds) (fold (insert_outcome g) (io_fields io) [])
    \<longleftrightarrow> (\<exists>f. fds = [f] \<and> \<not> is_null_node (object_field_value f)
          \<and> \<not> null_variable vv fv (field_nodes_of fds) (name_value (object_field_name f)))"
proof (cases "\<exists>f. fds = [f]")
  case True
  then obtain f where f: "fds = [f]" by auto
  define k where "k = name_value (object_field_name f)"
  define x where "x = object_field_value f"
  have nodes: "field_nodes_of fds = [(k, x)]" using field_nodes_distinct [OF distinct] by (simp add: f k_def x_def)
  have fields: "distinct (map fst (io_fields io))" using io by (simp add: valid_input_object_def)
  from names [of f] obtain field where field: "(k, field) \<in> set (io_fields io)" by (auto simp: f k_def dest: map_of_SomeD)
  then have map_field: "map_of (io_fields io) k = Some field" using fields by simp
  from field io one_of have "valid_field E True field" by (auto simp: valid_input_object_def)
  then have nullable: "\<not> is_non_null_type (iv_type field)" and keeps: "keeps_values E (iv_type field)"
    by (auto simp: valid_field_def)
  have others: "g name fd = FieldOmitted" if "(name, fd) \<in> set (io_fields io)" "name \<noteq> k" for name fd
    using that by (intro out(1)) (auto simp: nodes given_node_def)
  show ?thesis
  proof (cases "given_node vv fv (field_nodes_of fds) k")
    case None
    then have "null_variable vv fv (field_nodes_of fds) k"
      by (auto simp: given_node_def nodes null_variable_def is_missing_variable_def variable_value_is_null_def
          split: option.splits if_splits)
    moreover have "g k field = FieldOmitted" by (rule out(1) [OF field None])
    then have "fold (insert_outcome g) (io_fields io) [] = []"
    proof -
      have "g name fd = FieldOmitted" if "(name, fd) \<in> set (io_fields io)" for name fd
        using that others \<open>g k field = FieldOmitted\<close> field fields by (metis eq_key_imp_eq_value)
      then show ?thesis by (rule fold_outcomes_none)
    qed
    ultimately show ?thesis by (simp add: one_of_rejects_def one_of f k_def)
  next
    case (Some y)
    then have y: "y = x" by (auto simp: given_node_def nodes split: option.splits if_splits)
    from out(2) [OF field Some] obtain w where w: "g k field = FieldValue w"
      "settles (\<lambda>n. coerce_input_literal n E vv fv x (iv_type field)) w" by (auto simp: y)
    have coerced: "fold (insert_outcome g) (io_fields io) [] = [(out_name k field, w)]"
      by (rule fold_outcomes_one [where k = k]) (use others fields field w(1) in auto)
    have rejects: "one_of_rejects io (field_nodes_of fds) [(out_name k field, w)] \<longleftrightarrow> is_null_node x \<or> w = PNone"
      by (simp add: one_of_rejects_def one_of nodes map_field dict_get_def)
    have "is_null_node x \<or> w = PNone \<longleftrightarrow> is_null_node x \<or> null_variable vv fv (field_nodes_of fds) k"
    proof (cases "\<exists>v. x = VariableValue v")
      case True
      then obtain v where v: "x = VariableValue v" by auto
      then have "\<not> is_missing_variable v vv fv" using Some by (auto simp: given_node_def nodes split: if_splits)
      then have "settles (\<lambda>n. coerce_input_literal n E vv fv x (iv_type field)) (get_coerced_variable_value v vv fv)"
        using variable_given [of v vv fv "iv_type field" E] nullable by (simp add: v)
      then have "w = get_coerced_variable_value v vv fv" by (rule settles_unique [OF w(2)])
      then show ?thesis using \<open>\<not> is_missing_variable v vv fv\<close>
        by (auto simp: v nodes null_variable_def variable_value_is_null_def is_missing_variable_def is_null_def)
    next
      case False
      then show ?thesis using keeps_values_literal [OF E keeps nullable False _ w(2)]
        by (auto simp: nodes null_variable_def)
    qed
    with coerced rejects show ?thesis by (simp add: f k_def x_def)
  qed
next
  case False
  have "length (field_nodes_of fds) = length fds" by (simp add: field_nodes_distinct [OF distinct])
  moreover have "length fds \<noteq> 1" using False by (cases fds) auto
  ultimately have "length (field_nodes_of fds) \<noteq> 1" by simp
  with False show ?thesis by (simp add: one_of_rejects_def one_of)
qed

lemma agree_literal_object:
  assumes E: "valid_inputs E" and nt: "env_types E name = Some (InputObjectType io)"
    and distinct: "distinct (map (\<lambda>f. name_value (object_field_name f)) fds)"
    and known: "\<And>name v. map_of (field_nodes_of fds) name = Some (VariableValue v) \<Longrightarrow> known_variables vv fv"
    and given: "\<And>name field x p. (name, field) \<in> set (io_fields io) \<Longrightarrow> map_of (field_nodes_of fds) name = Some x \<Longrightarrow>
      \<nexists>v. x = VariableValue v \<Longrightarrow>
      agree (\<lambda>n. coerce_input_literal n E vv fv x (iv_type field)) (validate_input_literal E vv fv x (iv_type field) p)"
  shows "agree (\<lambda>n. coerce_input_literal n E vv fv (ObjectValueNode fds loc) (GNamed name))
    (validate_input_literal E vv fv (ObjectValueNode fds loc) (GNamed name) path)"
proof -
  let ?nodes = "field_nodes_of fds"
  have io: "valid_input_object E io" using E nt by (auto simp: valid_inputs_def)
  define f where "f n name field = (case given_node vv fv ?nodes name of
      None \<Rightarrow> default_outcome (coerce_default_value n E) field
    | Some x \<Rightarrow> bind_result (coerce_input_literal n E vv fv x (iv_type field)) (\<lambda>w. Inr (given_value w)))" for n name field
  define q where "q name \<longleftrightarrow> io_is_one_of io \<and> null_variable vv fv ?nodes name" for name
  define r where "r name field = field_reports E vv fv (io_is_one_of io) ?nodes name field path" for name field
  have "\<exists>out. field_agree (\<lambda>n. f n name field) (q name) out (r name field)
      \<and> (given_node vv fv ?nodes name = None \<longrightarrow> io_is_one_of io \<longrightarrow> out = FieldOmitted)
      \<and> (\<forall>x. given_node vv fv ?nodes name = Some x \<longrightarrow> (\<exists>w. out = given_value w
            \<and> settles (\<lambda>n. coerce_input_literal n E vv fv x (iv_type field)) w))"
    if "(name, field) \<in> set (io_fields io)" for name field
    unfolding f_def q_def r_def
    by (rule agree_field [OF _ known given]) (use that io in \<open>auto simp: valid_input_object_def\<close>)
  then obtain g where g: "\<And>name field. (name, field) \<in> set (io_fields io) \<Longrightarrow>
      field_agree (\<lambda>n. f n name field) (q name) (g name field) (r name field)
      \<and> (given_node vv fv ?nodes name = None \<longrightarrow> io_is_one_of io \<longrightarrow> g name field = FieldOmitted)
      \<and> (\<forall>x. given_node vv fv ?nodes name = Some x \<longrightarrow> (\<exists>w. g name field = given_value w
            \<and> settles (\<lambda>n. coerce_input_literal n E vv fv x (iv_type field)) w))" by metis
  define bad where "bad \<longleftrightarrow> (\<exists>(name, field) \<in> set (io_fields io). g name field = FieldInvalid)"
  define quarrel where "quarrel \<longleftrightarrow> (\<exists>(name, field) \<in> set (io_fields io). q name)"
  have fields: "settles (\<lambda>n. coerce_fields (f n) (io_fields io) [])
      (if bad then None else Some (fold (insert_outcome g) (io_fields io) []))"
    and "\<exists>errors. concat_results (map (\<lambda>(name, field). r name field) (io_fields io)) = Inr errors
      \<and> (errors = [] \<longleftrightarrow> \<not> (bad \<or> quarrel))"
    using agree_fields [of "io_fields io" f q g r "[]"] g unfolding bad_def quarrel_def by auto
  then obtain errors where errors: "concat_results (map (\<lambda>(name, field). r name field) (io_fields io)) = Inr errors"
    "errors = [] \<longleftrightarrow> \<not> (bad \<or> quarrel)" by auto
  have reports: "validate_input_literal E vv fv (ObjectValueNode fds loc) (GNamed name) path
      = Inr (errors @ field_name_reports io fds path)"
    unfolding validate_literal_object [OF nt] by (simp add: errors(1) flip: r_def)
  show ?thesis
  proof (cases "\<exists>f \<in> set fds. map_of (io_fields io) (name_value (object_field_name f)) = None")
    case True
    then have "\<exists>(k, x) \<in> set ?nodes. map_of (io_fields io) k = None"
      by (auto simp: field_nodes_distinct [OF distinct])
    then have "settles (\<lambda>n. coerce_input_literal (Suc n) E vv fv (ObjectValueNode fds loc) (GNamed name)) PUndefined"
      unfolding coerce_literal_object [OF nt] Let_def by (simp only: if_True settles_const)
    moreover have "field_name_reports io fds path \<noteq> []" using True by (auto simp: field_name_reports_def Let_def filter_empty_conv)
    ultimately show ?thesis by (intro agree_Suc [OF agreeI [OF _ reports]]) auto
  next
    case False
    then have names: "\<And>f. f \<in> set fds \<Longrightarrow> map_of (io_fields io) (name_value (object_field_name f)) \<noteq> None" by auto
    have no_unknown: "\<not> (\<exists>(k, x) \<in> set ?nodes. map_of (io_fields io) k = None)"
      using names by (auto simp: field_nodes_distinct [OF distinct])
    let ?coerced = "fold (insert_outcome g) (io_fields io) []"
    have one_of: "one_of_rejects io ?nodes ?coerced \<longleftrightarrow> quarrel \<or> field_name_reports io fds path \<noteq> []" if "\<not> bad"
    proof (cases "io_is_one_of io")
      case True
      have "\<exists>w. g name field = FieldValue w \<and> settles (\<lambda>n. coerce_input_literal n E vv fv x (iv_type field)) w"
        if in_fields: "(name, field) \<in> set (io_fields io)" "given_node vv fv ?nodes name = Some x" for name field x
      proof -
        from g [OF in_fields(1)] in_fields(2) obtain w where w: "g name field = given_value w"
          "settles (\<lambda>n. coerce_input_literal n E vv fv x (iv_type field)) w" by auto
        moreover have "g name field \<noteq> FieldInvalid" using \<open>\<not> bad\<close> in_fields(1) by (auto simp: bad_def)
        ultimately show ?thesis by (auto simp: given_value_def split: if_splits)
      qed
      then have "\<not> one_of_rejects io ?nodes ?coerced \<longleftrightarrow> (\<exists>f. fds = [f] \<and> \<not> is_null_node (object_field_value f)
          \<and> \<not> null_variable vv fv ?nodes (name_value (object_field_name f)))"
        using g True by (intro one_of_literal [OF E io True distinct names]) auto
      moreover have "quarrel \<longleftrightarrow> null_variable vv fv ?nodes (name_value (object_field_name f))" if "fds = [f]" for f
      proof -
        have "?nodes = [(name_value (object_field_name f), object_field_value f)]"
          using field_nodes_distinct [OF distinct] that by simp
        then have "null_variable vv fv ?nodes name \<longrightarrow> name = name_value (object_field_name f)" for name
          by (auto simp: null_variable_def split: if_splits)
        moreover have "f \<in> set fds" using that by simp
        then have "map_of (io_fields io) (name_value (object_field_name f)) \<noteq> None" by (rule names)
        then obtain field where "map_of (io_fields io) (name_value (object_field_name f)) = Some field" by auto
        then have "(name_value (object_field_name f), field) \<in> set (io_fields io)" by (rule map_of_SomeD)
        ultimately show ?thesis unfolding quarrel_def q_def using True by blast
      qed
      ultimately show ?thesis using True field_name_reports_eq [OF names] by auto
    next
      case no_one_of: False
      then show ?thesis
        using field_name_reports_eq [OF names] by (auto simp: one_of_rejects_def quarrel_def q_def)
    qed
    obtain w where w: "io_out_type io ?coerced = Inr w" "w \<noteq> PUndefined"
      using io unfolding valid_input_object_def is_null_def by metis
    let ?out = "if bad \<or> one_of_rejects io ?nodes ?coerced then PUndefined else w"
    have settled: "settles (\<lambda>n. bind_result (coerce_fields (f n) (io_fields io) [])
        (\<lambda>coerced. case coerced of
             None \<Rightarrow> Inr PUndefined
           | Some coerced \<Rightarrow> if one_of_rejects io ?nodes coerced then Inr PUndefined else io_out_type io coerced)) ?out"
      by (rule settles_cong_const [OF fields]) (auto simp: w(1))
    then have "settles (\<lambda>n. coerce_input_literal (Suc n) E vv fv (ObjectValueNode fds loc) (GNamed name)) ?out"
      unfolding coerce_literal_object [OF nt] Let_def by (simp only: no_unknown if_False f_def [abs_def])
    moreover have "?out = PUndefined \<longleftrightarrow> errors @ field_name_reports io fds path \<noteq> []"
      by (cases bad) (use errors(2) one_of w(2) in auto)
    ultimately show ?thesis by (rule agree_Suc [OF agreeI [OF _ reports]])
  qed
qed

section \<open>Literals\<close>

lemma dict_of_item: "map_of (field_nodes_of fds) name = Some x \<Longrightarrow> \<exists>f \<in> set fds. x = object_field_value f"
  by (auto simp: field_nodes_of_def dest!: map_of_SomeD dict_of_values)

lemma wf_literal_variable: "wf_literal b (VariableValue v) \<longleftrightarrow> b"
  by (subst wf_literal.simps) simp

lemma agree_item:
  assumes "wf_literal (known_variables vv fv) x"
    and "has_value vv fv x item \<Longrightarrow> agree (\<lambda>n. coerce_input_literal n E vv fv x item) r"
    and "r = validate_input_literal E vv fv x item path"
  shows "agree (\<lambda>n. bind_result (coerce_input_literal n E vv fv x item) (\<lambda>w.
      case x of
        VariableValue v \<Rightarrow> if w = PUndefined \<and> \<not> is_non_null_type item \<and> variable_value_is_null v vv fv then Inr PNone else Inr w
      | _ \<Rightarrow> Inr w)) r"
proof (cases "has_value vv fv x item")
  case True
  with assms(2) obtain w errors where w: "settles (\<lambda>n. coerce_input_literal n E vv fv x item) w"
    and r: "r = Inr errors" "w = PUndefined \<longleftrightarrow> errors \<noteq> []" by (auto simp: agree_def)
  show ?thesis
  proof (rule agreeI [OF settles_cong_const [OF w] r])
    have "\<not> (w = PUndefined \<and> \<not> is_non_null_type item)" if v: "x = VariableValue v" for v
    proof
      assume *: "w = PUndefined \<and> \<not> is_non_null_type item"
      then have present: "\<not> is_missing_variable v vv fv" using True v by (auto simp: has_value_def)
      then have "settles (\<lambda>n. coerce_input_literal n E vv fv x item) (get_coerced_variable_value v vv fv)"
        using variable_given [of v vv fv item E] * by (simp add: v)
      then have "get_coerced_variable_value v vv fv = w" by (rule settles_unique [OF _ w])
      then show False using * present by (simp add: is_missing_variable_def)
    qed
    then show "(case x of
        VariableValue v \<Rightarrow> if w = PUndefined \<and> \<not> is_non_null_type item \<and> variable_value_is_null v vv fv then Inr PNone else Inr w
      | _ \<Rightarrow> Inr w) = Inr w"
      by (cases x) auto
  qed
next
  case False
  then obtain v where v: "x = VariableValue v" "\<not> is_non_null_type item" "is_missing_variable v vv fv"
    by (auto simp: has_value_def)
  have "settles (\<lambda>n. coerce_input_literal n E vv fv x item) PUndefined"
    by (rule iffD1 [OF settles_Suc])
       (use v in \<open>simp add: coerce_literal_variable is_missing_variable_def settles_const\<close>)
  then have "settles (\<lambda>n. bind_result (coerce_input_literal n E vv fv x item) (\<lambda>w.
      case x of
        VariableValue v \<Rightarrow> if w = PUndefined \<and> \<not> is_non_null_type item \<and> variable_value_is_null v vv fv then Inr PNone else Inr w
      | _ \<Rightarrow> Inr w)) PNone"
    by (rule settles_cong_const) (use v in \<open>simp add: is_missing_variable_def variable_value_is_null_def\<close>)
  moreover have "r = Inr []"
    using v assms(3) by (simp add: validate_literal_variable variable_reports_def Let_def)
  ultimately show ?thesis by (rule agreeI) simp
qed

lemma agree_literal:
  assumes E: "valid_inputs E"
  shows "is_input_type (env_types E) t \<Longrightarrow> wf_literal (known_variables vv fv) node \<Longrightarrow> has_value vv fv node t \<Longrightarrow>
    agree (\<lambda>n. coerce_input_literal n E vv fv node t) (validate_input_literal E vv fv node t path)"
proof (induction node arbitrary: t path rule: measure_induct_rule [of size])
  case (less node)
  have IH: "agree (\<lambda>n. coerce_input_literal n E vv fv x t') (validate_input_literal E vv fv x t' p)"
    if "size x < size node" "is_input_type (env_types E) t'" "wf_literal (known_variables vv fv) x" "has_value vv fv x t'"
    for x t' p
    using less.IH that by blast
  show ?case
  proof (cases "\<exists>v. node = VariableValue v")
    case True
    then obtain v where v: "node = VariableValue v" by auto
    show ?thesis unfolding v
      by (rule agree_variable) (use less.prems v in \<open>simp_all add: wf_literal_variable\<close>)
  next
    case no_var: False
    from less.prems(1) show ?thesis
    proof (induction t arbitrary: path)
      case (GNonNull t)
      then have *: "agree (\<lambda>n. coerce_input_literal n E vv fv node t) (validate_input_literal E vv fv node t path)" by simp
      show ?case
        by (rule agree_Suc, unfold coerce_literal_non_null [OF no_var] validate_literal_non_null [OF no_var])
           (use * in \<open>simp add: agree_undefined\<close>)
    next
      case (GList item)
      consider "is_null_node node" | nodes loc where "node = ListValueNode nodes loc"
        | "\<not> is_null_node node" "list_items node = None" by (cases node) auto
      then show ?case
      proof cases
        case 1
        then show ?thesis
          by - (rule agree_Suc, simp add: coerce_literal_null validate_literal_null agree_valid)
      next
        case (2 nodes loc)
        show ?thesis
          unfolding 2
        proof (rule agree_Suc, unfold coerce_literal_list validate_literal_list, rule agree_items)
          fix i assume i: "i < length nodes"
          have wf: "wf_literal (known_variables vv fv) (nodes ! i)"
            using less.prems(2) i by (subst (asm) wf_literal.simps) (simp add: 2)
          show "agree (\<lambda>n. bind_result (coerce_input_literal n E vv fv (nodes ! i) item) (\<lambda>w.
                case nodes ! i of
                  VariableValue v \<Rightarrow>
                    if w = PUndefined \<and> \<not> is_non_null_type item \<and> variable_value_is_null v vv fv then Inr PNone else Inr w
                | _ \<Rightarrow> Inr w)) (validate_input_literal E vv fv (nodes ! i) item (path @ [PathIndex i]))"
            by (rule agree_item [OF wf IH refl]) (use GList.prems wf i in \<open>auto simp: 2 intro: size_list_item\<close>)
        qed
      next
        case 3
        have "agree (\<lambda>n. coerce_input_literal n E vv fv node item) (validate_input_literal E vv fv node item path)"
          using GList by simp
        then show ?thesis
          by (intro agree_Suc [of "\<lambda>n. coerce_input_literal n E vv fv node (GList item)"])
             (simp only: coerce_literal_one [OF no_var 3] validate_literal_one [OF no_var 3] agree_one)
      qed
    next
      case (GNamed name)
      then obtain nt where nt: "env_types E name = Some nt" "is_input_named nt" by (auto split: option.splits)
      consider "is_null_node node" | io fds loc where "nt = InputObjectType io" "node = ObjectValueNode fds loc"
        | io where "\<not> is_null_node node" "nt = InputObjectType io" "object_fields node = None"
        | "\<not> is_null_node node" "is_leaf_named nt"
        using nt(2) by (cases nt; cases node) auto
      then show ?case
      proof cases
        case 1
        then show ?thesis by - (rule agree_Suc, simp add: coerce_literal_null validate_literal_null agree_valid)
      next
        case (2 io fds loc)
        note wf = less.prems(2) [unfolded 2, unfolded wf_literal.simps [of _ "ObjectValueNode fds loc"]]
        have valid: "valid_input_object E io" using E nt 2 by (auto simp: valid_inputs_def)
        have item: "wf_literal (known_variables vv fv) x" "size x < size node" if "map_of (field_nodes_of fds) k = Some x" for k x
          using dict_of_item [OF that] wf field_nodes_size [OF that] by (auto simp: 2)
        show ?thesis
          unfolding 2
        proof (rule agree_literal_object [OF E])
          fix k field x p
          assume x: "(k, field) \<in> set (io_fields io)" "map_of (field_nodes_of fds) k = Some x" "\<nexists>v. x = VariableValue v"
          then show "agree (\<lambda>n. coerce_input_literal n E vv fv x (iv_type field))
              (validate_input_literal E vv fv x (iv_type field) p)"
            using item [OF x(2)] valid by (intro IH) (auto simp: has_value_def valid_input_object_def valid_field_def)
        next
          fix k v
          assume "map_of (field_nodes_of fds) k = Some (VariableValue v)"
          then have "wf_literal (known_variables vv fv) (VariableValue v)" by (rule item(1))
          then show "known_variables vv fv" by (simp only: wf_literal_variable)
        qed (use nt 2 wf in auto)
      next
        case (3 io)
        then show ?thesis using nt
          by - (rule agree_Suc, simp add: coerce_literal_no_object [OF no_var] validate_literal_no_object [OF no_var] agree_undefined)
      next
        case 4
        then show ?thesis using nt
          by - (rule agree_Suc, simp add: coerce_literal_leaf [OF no_var] validate_literal_leaf [OF no_var] agree_leaf)
      qed
    qed
  qed
qed

section \<open>The two properties\<close>

text \<open>
  C22.  Validation of an input value reports an error exactly when coercion finds the value invalid: coercion ends with
  one value, which is \<open>Undefined\<close> if and only if the list of reports is not empty.  So the callers that validate
  after a failed coercion always get an error to show.
\<close>

theorem value_validation_agrees:
  assumes "valid_inputs E" and "is_input_type (env_types E) t" and "wf_value v"
  shows "\<exists>n w errors. (\<forall>m \<ge> n. coerce_input_value m E v t = Inr w)
    \<and> validate_input_value E v t path = Inr errors \<and> (w = PUndefined \<longleftrightarrow> errors \<noteq> [])"
  using agree_value [OF assms] unfolding agree_def settles_iff by blast

text \<open>
  C23.  The same holds of a literal with variables in it, whatever values the variables have, unless the literal is itself a
  missing variable for a nullable type, which its callers treat as absent.  The code calls its fallback after
  \<open>validate_input_literal\<close> unreachable; this is why.
\<close>

theorem literal_validation_agrees:
  assumes "valid_inputs E" and "is_input_type (env_types E) t"
    and "wf_literal (vv \<noteq> None \<or> fv \<noteq> None) node" and "has_value vv fv node t"
  shows "\<exists>n w errors. (\<forall>m \<ge> n. coerce_input_literal m E vv fv node t = Inr w)
    \<and> validate_input_literal E vv fv node t path = Inr errors \<and> (w = PUndefined \<longleftrightarrow> errors \<noteq> [])"
  using agree_literal [OF assms] unfolding agree_def settles_iff by blast

section \<open>An example\<close>

text \<open>An input object with a default value, and a OneOf type.\<close>

definition plain_input :: "gtype \<Rightarrow> input_value" where
  "plain_input t = \<lparr>iv_type = t, iv_default_value = PUndefined, iv_default = None, iv_out_name = None, iv_deprecation_reason = None\<rparr>"

definition limit_field :: input_value where
  "limit_field = \<lparr>iv_type = GNonNull (GNamed (str ''Int'')), iv_default_value = PUndefined,
     iv_default = Some (DefaultValue (PInt 10)), iv_out_name = None, iv_deprecation_reason = None\<rparr>"

definition example_filter :: input_object_type where
  "example_filter = \<lparr>io_name = str ''Filter'', io_fields =
      [(str ''limit'', limit_field), (str ''tags'', plain_input (GList (GNamed (str ''Int'')))),
       (str ''by'', plain_input (GNonNull (GNamed (str ''By''))))],
    io_out_type = (\<lambda>d. Inr (PDict d)), io_is_one_of = False\<rparr>"

definition example_by :: input_object_type where
  "example_by = \<lparr>io_name = str ''By'', io_fields =
      [(str ''id'', plain_input (GNamed (str ''Int''))), (str ''rank'', plain_input (GNamed (str ''Int'')))],
    io_out_type = (\<lambda>d. Inr (PDict d)), io_is_one_of = True\<rparr>"

definition example_env :: "unit env" where
  "example_env = \<lparr>env_types = map_of
      [(str ''Int'', ScalarType GraphQLInt), (str ''Filter'', InputObjectType example_filter),
       (str ''By'', InputObjectType example_by)],
    env_repr = (\<lambda>q. [])\<rparr>"

lemma example_types:
  "env_types example_env (str ''Int'') = Some (ScalarType GraphQLInt)"
  "env_types example_env (str ''Filter'') = Some (InputObjectType example_filter)"
  "env_types example_env (str ''By'') = Some (InputObjectType example_by)"
  by (simp_all add: example_env_def str_def)

lemma int_keeps_values: "env_types E (str ''Int'') = Some (ScalarType GraphQLInt) \<Longrightarrow> keeps_values E (GNamed (str ''Int''))"
  by (auto simp: keeps_values_def leaf_input_value_def leaf_input_literal_def GraphQLInt_def scalar_def coerce_int_def
      parse_int_literal_def coerce_int_from_number_def bind_result_Inr_iff Let_def
      split: py_value.splits value_node.splits option.splits if_splits pyfloat.splits)

lemma limit_field_valid: "valid_field example_env False limit_field"
proof -
  have int: "coerce_input_value (Suc n) example_env (PInt 10) (GNamed (str ''Int'')) = Inr (PInt 10)" for n
    by (simp add: coerce_value_leaf [OF _ example_types(1)] undefined_on_error_def leaf_input_value_def GraphQLInt_def
        scalar_def coerce_int_def coerce_int_from_number_def GRAPHQL_MAX_INT_def GRAPHQL_MIN_INT_def)
  have "coerce_default_value (Suc (Suc (Suc n))) example_env limit_field = Inr (PInt 10)" for n
    by (simp add: coerce_default_value_body_def limit_field_def coerce_value_non_null int)
  then have "settles (\<lambda>n. coerce_default_value (Suc (Suc (Suc n))) example_env limit_field) (PInt 10)"
    by (simp only: settles_const)
  then have "settles (\<lambda>n. coerce_default_value n example_env limit_field) (PInt 10)"
    unfolding settles_def by (simp only: eventually_sequentially_Suc [of "\<lambda>n. coerce_default_value n _ _ = _"]
        eventually_sequentially_Suc [of "\<lambda>n. coerce_default_value (Suc n) _ _ = _"]
        eventually_sequentially_Suc [of "\<lambda>n. coerce_default_value (Suc (Suc n)) _ _ = _"])
  moreover have "is_input_type (env_types example_env) (iv_type limit_field)"
    by (simp add: limit_field_def example_types)
  ultimately show ?thesis by (auto simp: valid_field_def)
qed

lemma plain_field_valid:
  assumes "is_input_type (env_types example_env) t"
    and "one_of \<longrightarrow> \<not> is_non_null_type t \<and> keeps_values example_env t"
  shows "valid_field example_env one_of (plain_input t)"
proof -
  have "settles (\<lambda>n. coerce_default_value n example_env (plain_input t)) PUndefined"
    by (rule iffD1 [OF settles_Suc]) (simp add: coerce_default_value_body_def plain_input_def settles_const)
  then have "\<exists>w. settles (\<lambda>n. coerce_default_value n example_env (plain_input t)) w" by (rule exI)
  with assms show ?thesis unfolding valid_field_def by (simp add: plain_input_def)
qed

lemma example_valid: "valid_inputs example_env"
proof -
  have "valid_input_object example_env example_filter"
    unfolding valid_input_object_def example_filter_def
    by (simp add: limit_field_valid plain_field_valid example_types)
  moreover have "valid_input_object example_env example_by"
    unfolding valid_input_object_def example_by_def
    by (simp add: plain_field_valid example_types int_keeps_values)
  ultimately show ?thesis by (auto simp: valid_inputs_def example_env_def split: if_splits)
qed

text \<open>\<open>{limit: None, tags: 3, by: {id: 1, rank: None}}\<close>: \<open>limit\<close> is not nullable, and \<open>By\<close> takes one field.\<close>

lemma value_validation_agrees_witness:
  "\<exists>n w errors. (\<forall>m \<ge> n. coerce_input_value m example_env
      (PDict [(str ''limit'', PNone), (str ''tags'', PInt 3), (str ''by'', PDict [(str ''id'', PInt 1), (str ''rank'', PNone)])])
      (GNamed (str ''Filter'')) = Inr w)
    \<and> validate_input_value example_env
      (PDict [(str ''limit'', PNone), (str ''tags'', PInt 3), (str ''by'', PDict [(str ''id'', PInt 1), (str ''rank'', PNone)])])
      (GNamed (str ''Filter'')) [] = Inr errors \<and> (w = PUndefined \<longleftrightarrow> errors \<noteq> [])"
  by (rule value_validation_agrees [OF example_valid])
     (simp_all add: example_types wf_value.simps)

text \<open>\<open>{by: {id: $x}, tags: [$x, $y]}\<close> with \<open>x = 7\<close> and no value for \<open>y\<close>.\<close>

definition variable :: "string \<Rightarrow> value_node" where
  "variable x = VariableValue (VariableNode (NameNode (str x) None) None)"

definition example_literal :: value_node where
  "example_literal = ObjectValueNode
     [ObjectFieldNode (NameNode (str ''by'') None)
        (ObjectValueNode [ObjectFieldNode (NameNode (str ''id'') None) (variable ''x'') None] None) None,
      ObjectFieldNode (NameNode (str ''tags'') None) (ListValueNode [variable ''x'', variable ''y''] None) None] None"

definition example_variables :: variable_values where
  "example_variables = \<lparr>vv_sources = [(str ''x'', plain_input (GNamed (str ''Int'')), PInt 7)],
     vv_coerced = [(str ''x'', PInt 7)]\<rparr>"

lemma literal_validation_agrees_witness:
  "\<exists>n w errors. (\<forall>m \<ge> n. coerce_input_literal m example_env (Some example_variables) None example_literal
      (GNamed (str ''Filter'')) = Inr w)
    \<and> validate_input_literal example_env (Some example_variables) None example_literal (GNamed (str ''Filter'')) [] = Inr errors
    \<and> (w = PUndefined \<longleftrightarrow> errors \<noteq> [])"
  by (rule literal_validation_agrees [OF example_valid])
     (simp_all add: example_types wf_literal.simps example_literal_def variable_def has_value_def)

end
