(* ===== verification/Variable_Values.thy ===== *)
theory Variable_Values
  imports Literal_Agreement
begin

text \<open>
  The values of variables and arguments (\<open>execution/values.py\<close>, \<open>execution/get_variable_signature.py\<close>).  The
  functions take the fuel of the coercion they call.
\<close>

section \<open>Variables of an operation\<close>

text \<open>\<open>GraphQLVariableSignature\<close> with its name; an error for a type that is no input type.\<close>

definition get_variable_signature :: "'w env \<Rightarrow> variable_definition_node \<Rightarrow> py_error + pystr \<times> input_value" where
  "get_variable_signature E d =
     (case type_from_ast (env_types E) (vardef_type d) of
        Some t \<Rightarrow>
          if is_input_type (env_types E) t
          then Inr (var_name (vardef_variable d),
            \<lparr>iv_type = t, iv_default_value = PUndefined, iv_default = map_option DefaultLiteral (vardef_default_value d),
             iv_out_name = None, iv_deprecation_reason = None\<rparr>)
          else Inl (GraphQLError (str ''Variable expected value of type which cannot be used as an input type.''))
      | None \<Rightarrow> Inl (GraphQLError (str ''Variable expected value of type which cannot be used as an input type.'')))"

text \<open>
  The errors of a request.  Their messages name the variable and, for a report of validation, its path and message.
\<close>

datatype request_error =
    BadVariableType pystr
  | BadDefaultValue pystr report
  | BadInputValue pystr report
  | RaisedError py_error

definition too_many_errors :: py_error where
  "too_many_errors =
     GraphQLError (str ''Too many errors processing variables, error limit reached. Execution aborted.'')"

text \<open>The callback \<open>on_error\<close> on a list of errors; it raises an exception when the limit is reached.\<close>

fun on_error ::
  "nat option \<Rightarrow> request_error list \<Rightarrow> request_error list \<Rightarrow> (request_error list \<times> py_error) + request_error list" where
  "on_error max_errors errors [] = Inr errors"
| "on_error max_errors errors (e # es) =
     (if (case max_errors of Some m \<Rightarrow> length errors \<ge> m | None \<Rightarrow> False) then Inl (errors, too_many_errors)
      else on_error max_errors (errors @ [e]) es)"

text \<open>\<open>validate_default_input\<close> (\<open>type/validate.py\<close>)\<close>

definition validate_default_input :: "'w env \<Rightarrow> default_input \<Rightarrow> gtype \<Rightarrow> reports" where
  "validate_default_input E d t =
     (case d of
        DefaultLiteral node \<Rightarrow> validate_input_literal E None None node t []
      | DefaultValue v \<Rightarrow> validate_input_value E v t [])"

definition maybe_use_default_value ::
  "nat \<Rightarrow> 'w env \<Rightarrow> (pystr \<times> py_value) list \<Rightarrow> pystr \<Rightarrow> input_value \<Rightarrow> py_error + (pystr \<times> py_value) list \<times> report list" where
  "maybe_use_default_value n E coerced name iv =
     (case coerce_default_value n E iv of
        Inr w \<Rightarrow> Inr (if w = PUndefined then coerced else dict_set name w coerced, [])
      | Inl (TypeError message) \<Rightarrow>
          (case iv_default iv of
             None \<Rightarrow> Inl (TypeError message)
           | Some d \<Rightarrow>
               bind_result (validate_default_input E d (iv_type iv)) (\<lambda>reports.
                 Inr (coerced, if reports = [] then [(GraphQLError message, [])] else reports)))
      | Inl e \<Rightarrow> Inl e)"

text \<open>One turn of the loop over the definitions: the new values and the errors for \<open>on_error\<close>.\<close>

definition coerce_variable ::
  "nat \<Rightarrow> 'w env \<Rightarrow> (pystr \<times> py_value) list \<Rightarrow> variable_definition_node \<Rightarrow> variable_values
    \<Rightarrow> py_error + variable_values \<times> request_error list" where
  "coerce_variable n E inputs d vv =
     (case get_variable_signature E d of
        Inl e \<Rightarrow> Inr (vv, [BadVariableType (var_name (vardef_variable d))])
      | Inr (name, signature) \<Rightarrow>
          let v = dict_get inputs name;
              vv = vv\<lparr>vv_sources := dict_set name (signature, v) (vv_sources vv)\<rparr>
          in
            if v = PUndefined \<and> vardef_default_value d \<noteq> None
            then bind_result (maybe_use_default_value n E (vv_coerced vv) name signature)
              (\<lambda>(coerced, reports). Inr (vv\<lparr>vv_coerced := coerced\<rparr>, map (BadDefaultValue name) reports))
            else if v = PUndefined \<and> \<not> is_non_null_type (iv_type signature) then Inr (vv, [])
            else bind_result (coerce_input_value n E v (iv_type signature)) (\<lambda>w.
              if w \<noteq> PUndefined then Inr (vv\<lparr>vv_coerced := dict_set name w (vv_coerced vv)\<rparr>, [])
              else bind_result (validate_input_value E v (iv_type signature) [])
                (\<lambda>reports. Inr (vv, map (BadInputValue name) reports))))"

fun coerce_variable_values ::
  "nat \<Rightarrow> 'w env \<Rightarrow> nat option \<Rightarrow> (pystr \<times> py_value) list \<Rightarrow> variable_definition_node list \<Rightarrow> variable_values
    \<Rightarrow> request_error list \<Rightarrow> (request_error list \<times> py_error) + request_error list \<times> variable_values" where
  "coerce_variable_values n E max_errors inputs [] vv errors = Inr (errors, vv)"
| "coerce_variable_values n E max_errors inputs (d # ds) vv errors =
     (case coerce_variable n E inputs d vv of
        Inl e \<Rightarrow> Inl (errors, e)
      | Inr (vv, new_errors) \<Rightarrow>
          bind_result (on_error max_errors errors new_errors) (\<lambda>errors.
            coerce_variable_values n E max_errors inputs ds vv errors))"

text \<open>\<open>except GraphQLError as e: errors.append(e)\<close>; every other exception is passed on.\<close>

definition get_variable_values ::
  "nat \<Rightarrow> 'w env \<Rightarrow> nat option \<Rightarrow> (pystr \<times> py_value) list \<Rightarrow> variable_definition_node list
    \<Rightarrow> py_error + (request_error list + variable_values)" where
  "get_variable_values n E max_errors inputs ds =
     (case coerce_variable_values n E max_errors inputs ds \<lparr>vv_sources = [], vv_coerced = []\<rparr> [] of
        Inl (errors, e) \<Rightarrow> if is_graphql_error e then Inr (Inl (errors @ [RaisedError e])) else Inl e
      | Inr (errors, vv) \<Rightarrow> if errors = [] then Inr (Inr vv) else Inr (Inl errors))"

section \<open>Arguments\<close>

text \<open>The callback for the errors of a default value raises an exception at the first.\<close>

definition use_default ::
  "nat \<Rightarrow> 'w env \<Rightarrow> (pystr \<times> py_value) list \<Rightarrow> pystr \<Rightarrow> input_value \<Rightarrow> py_error + (pystr \<times> py_value) list" where
  "use_default n E coerced name iv =
     bind_result (maybe_use_default_value n E coerced name iv) (\<lambda>(coerced, reports).
       if reports = [] then Inr coerced else Inl (GraphQLError (str ''Argument has invalid default value'')))"

text \<open>A variable without a value in its scope.\<close>

definition unset_variable :: "variable_values option \<Rightarrow> fragment_values option \<Rightarrow> value_node \<Rightarrow> bool" where
  "unset_variable vv fv node =
     (case node of
        VariableValue v \<Rightarrow>
          (case fv of
             Some f \<Rightarrow>
               if map_of (fv_sources f) (var_name v) \<noteq> None then map_of (fv_coerced f) (var_name v) = None
               else (case vv of Some vars \<Rightarrow> map_of (vv_coerced vars) (var_name v) = None | None \<Rightarrow> True)
           | None \<Rightarrow> (case vv of Some vars \<Rightarrow> map_of (vv_coerced vars) (var_name v) = None | None \<Rightarrow> True))
      | _ \<Rightarrow> False)"

definition coerce_argument ::
  "nat \<Rightarrow> 'w env \<Rightarrow> variable_values option \<Rightarrow> fragment_values option \<Rightarrow> pystr \<Rightarrow> input_value \<Rightarrow> value_node option
    \<Rightarrow> (pystr \<times> py_value) list \<Rightarrow> py_error + (pystr \<times> py_value) list" where
  "coerce_argument n E vv fv name arg_def argument coerced =
     (case argument of
        None \<Rightarrow>
          if is_required_input arg_def then Inl (GraphQLError (str ''Argument of required type was not provided.''))
          else use_default n E coerced (out_name name arg_def) arg_def
      | Some node \<Rightarrow>
          if unset_variable vv fv node \<and> \<not> is_required_input arg_def
          then use_default n E coerced (out_name name arg_def) arg_def
          else bind_result (coerce_input_literal n E vv fv node (iv_type arg_def)) (\<lambda>w.
            if w = PUndefined
            then bind_result (validate_input_literal E vv fv node (iv_type arg_def) []) (\<lambda>reports.
              Inl (GraphQLError (if reports = [] then str ''Invalid argument'' else str ''Argument has invalid value'')))
            else Inr (dict_set (out_name name arg_def) w coerced)))"

fun coerce_arguments ::
  "nat \<Rightarrow> 'w env \<Rightarrow> variable_values option \<Rightarrow> fragment_values option \<Rightarrow> (pystr \<times> value_node) list
    \<Rightarrow> (pystr \<times> input_value) list \<Rightarrow> (pystr \<times> py_value) list \<Rightarrow> py_error + (pystr \<times> py_value) list" where
  "coerce_arguments n E vv fv nodes [] coerced = Inr coerced"
| "coerce_arguments n E vv fv nodes ((name, arg_def) # arg_defs) coerced =
     bind_result (coerce_argument n E vv fv name arg_def (map_of nodes name) coerced)
       (\<lambda>coerced. coerce_arguments n E vv fv nodes arg_defs coerced)"

definition argument_nodes :: "argument_node list option \<Rightarrow> (pystr \<times> value_node) list" where
  "argument_nodes arguments =
     dict_of (map (\<lambda>a. (name_value (argument_name a), argument_value a)) (case arguments of Some as \<Rightarrow> as | None \<Rightarrow> []))"

definition get_argument_values ::
  "nat \<Rightarrow> 'w env \<Rightarrow> (pystr \<times> input_value) list \<Rightarrow> argument_node list option \<Rightarrow> variable_values option
    \<Rightarrow> fragment_values option \<Rightarrow> py_error + (pystr \<times> py_value) list" where
  "get_argument_values n E arg_defs arguments vv fv = coerce_arguments n E vv fv (argument_nodes arguments) arg_defs []"

definition get_fragment_variable_values ::
  "nat \<Rightarrow> 'w env \<Rightarrow> fragment_argument_node list option \<Rightarrow> (pystr \<times> input_value) list \<Rightarrow> variable_values option
    \<Rightarrow> fragment_values option \<Rightarrow> py_error + fragment_values" where
  "get_fragment_variable_values n E arguments signatures vv fv =
     (let nodes = dict_of (map (\<lambda>a. (name_value (fragment_argument_name a), fragment_argument_value a))
            (case arguments of Some as \<Rightarrow> as | None \<Rightarrow> []))
      in bind_result (coerce_arguments n E vv fv nodes signatures []) (\<lambda>coerced.
        Inr (FragmentValues (map (\<lambda>(name, signature). (name,
            case map_of nodes name of
              None \<Rightarrow> FragmentSource signature None None
            | Some node \<Rightarrow> FragmentSource signature (Some node) fv)) signatures) coerced)))"

definition find_directive :: "pystr \<Rightarrow> directive_node list option \<Rightarrow> directive_node option" where
  "find_directive name directives =
     (case directives of Some ds \<Rightarrow> List.find (\<lambda>d. name_value (directive_name d) = name) ds | None \<Rightarrow> None)"

definition get_directive_values ::
  "nat \<Rightarrow> 'w env \<Rightarrow> directive_def \<Rightarrow> directive_node list option \<Rightarrow> variable_values option \<Rightarrow> fragment_values option
    \<Rightarrow> py_error + (pystr \<times> py_value) list option" where
  "get_directive_values n E directive_def directives vv fv =
     (case find_directive (dir_name directive_def) directives of
        Some d \<Rightarrow>
          bind_result (get_argument_values n E (dir_args directive_def) (directive_arguments d) vv fv)
            (\<lambda>coerced. Inr (Some coerced))
      | None \<Rightarrow> Inr None)"

section \<open>Directives of executable documents\<close>

text \<open>\<open>type/directives.py\<close>\<close>

definition plain_argument :: "gtype \<Rightarrow> py_value \<Rightarrow> input_value" where
  "plain_argument t d =
     \<lparr>iv_type = t, iv_default_value = d, iv_default = None, iv_out_name = None, iv_deprecation_reason = None\<rparr>"

lemma plain_argument_parts [simp]:
  "iv_type (plain_argument t d) = t" "iv_default_value (plain_argument t d) = d" "iv_default (plain_argument t d) = None"
  "iv_out_name (plain_argument t d) = None" "iv_deprecation_reason (plain_argument t d) = None"
  by (simp_all add: plain_argument_def)

definition boolean_if :: "py_value \<Rightarrow> input_value" where
  "boolean_if d = plain_argument (GNonNull (GNamed (str ''Boolean''))) d"

definition GraphQLIncludeDirective :: directive_def where
  "GraphQLIncludeDirective = \<lparr>dir_name = str ''include'', dir_args = [(str ''if'', boolean_if PUndefined)],
     dir_locations = [''FIELD'', ''FRAGMENT_SPREAD'', ''INLINE_FRAGMENT''], dir_is_repeatable = False\<rparr>"

definition GraphQLSkipDirective :: directive_def where
  "GraphQLSkipDirective = \<lparr>dir_name = str ''skip'', dir_args = [(str ''if'', boolean_if PUndefined)],
     dir_locations = [''FIELD'', ''FRAGMENT_SPREAD'', ''INLINE_FRAGMENT''], dir_is_repeatable = False\<rparr>"

definition GraphQLDeferDirective :: directive_def where
  "GraphQLDeferDirective = \<lparr>dir_name = str ''defer'', dir_args =
     [(str ''if'', boolean_if (PBool True)), (str ''label'', plain_argument (GNamed (str ''String'')) PUndefined)],
     dir_locations = [''FRAGMENT_SPREAD'', ''INLINE_FRAGMENT''], dir_is_repeatable = False\<rparr>"

definition GraphQLStreamDirective :: directive_def where
  "GraphQLStreamDirective = \<lparr>dir_name = str ''stream'', dir_args =
     [(str ''if'', boolean_if (PBool True)), (str ''label'', plain_argument (GNamed (str ''String'')) PUndefined),
      (str ''initialCount'', plain_argument (GNamed (str ''Int'')) (PInt 0))],
     dir_locations = [''FIELD''], dir_is_repeatable = False\<rparr>"

end
