(* ===== verification/Variable_Facts.thy ===== *)
theory Variable_Facts
  imports Variable_Values
begin

text \<open>
  Variables and arguments get the values that the types ask for, or the request is answered with errors.
\<close>

section \<open>Variables\<close>

text \<open>What becomes of a variable or an argument.\<close>

datatype outcome = Rejected | Absent | Has py_value

definition outcome_of :: "py_value \<Rightarrow> outcome" where
  "outcome_of w = (if w = PUndefined then Rejected else Has w)"

definition variable_outcome :: "'w env \<Rightarrow> (pystr \<times> py_value) list \<Rightarrow> variable_definition_node \<Rightarrow> outcome \<Rightarrow> bool" where
  "variable_outcome E inputs d r \<longleftrightarrow>
     (case get_variable_signature E d of
        Inl e \<Rightarrow> r = Rejected
      | Inr (name, signature) \<Rightarrow>
          if dict_get inputs name \<noteq> PUndefined
          then \<exists>w. settles (\<lambda>n. coerce_input_value n E (dict_get inputs name) (iv_type signature)) w \<and> r = outcome_of w
          else (case vardef_default_value d of
              Some node \<Rightarrow>
                \<exists>w. settles (\<lambda>n. coerce_input_literal n E None None node (iv_type signature)) w \<and> r = outcome_of w
            | None \<Rightarrow> r = (if is_non_null_type (iv_type signature) then Rejected else Absent)))"

definition defined_name :: "variable_definition_node \<Rightarrow> pystr" where
  "defined_name d = var_name (vardef_variable d)"

definition wf_variable :: "variable_definition_node \<Rightarrow> bool" where
  "wf_variable d \<longleftrightarrow> (\<forall>node. vardef_default_value d = Some node \<longrightarrow> wf_literal False node)"

lemma variable_signature:
  assumes "get_variable_signature E d = Inr (name, signature)"
  shows "name = defined_name d \<and> is_input_type (env_types E) (iv_type signature)
    \<and> iv_default signature = map_option DefaultLiteral (vardef_default_value d) \<and> iv_default_value signature = PUndefined"
  using assms by (auto simp: get_variable_signature_def defined_name_def split: option.splits if_splits)

lemma settled_outcome_unique:
  "\<exists>w. settles f w \<and> r = outcome_of w \<Longrightarrow> \<exists>w. settles f w \<and> r' = outcome_of w \<Longrightarrow> r = r'"
  by (metis settles_unique)

lemma variable_outcome_unique:
  assumes "variable_outcome E inputs d r" and "variable_outcome E inputs d r'"
  shows "r = r'"
proof (cases "get_variable_signature E d")
  case (Inr ns)
  obtain name signature where ns: "ns = (name, signature)" by (cases ns)
  show ?thesis
    using assms unfolding variable_outcome_def Inr ns
    by (cases "dict_get inputs name = PUndefined"; cases "vardef_default_value d")
       (simp_all, (erule (1) settled_outcome_unique)+)
qed (use assms in \<open>simp add: variable_outcome_def\<close>)

text \<open>The new values and errors of a turn of the loop.\<close>

definition turn :: "outcome \<Rightarrow> pystr \<Rightarrow> variable_values \<Rightarrow> variable_values \<Rightarrow> request_error list \<Rightarrow> bool" where
  "turn r name vv vv' errors \<longleftrightarrow> (errors \<noteq> [] \<longleftrightarrow> r = Rejected)
     \<and> vv_coerced vv' = (case r of Has w \<Rightarrow> dict_set name w (vv_coerced vv) | _ \<Rightarrow> vv_coerced vv)"

lemma constant_literal:
  assumes "valid_inputs E" and "is_input_type (env_types E) t" and "wf_literal False node"
  shows "agree (\<lambda>n. coerce_input_literal n E None None node t) (validate_input_literal E None None node t path)"
proof (rule agree_literal [OF assms(1,2)])
  show "has_value None None node t" using assms(3) by (auto simp: has_value_def wf_literal_variable)
qed (use assms(3) in simp)

lemma default_settles:
  assumes "iv_default iv = Some (DefaultLiteral node)"
    and "settles (\<lambda>n. coerce_input_literal n E None None node (iv_type iv)) w"
  shows "\<forall>\<^sub>F n in sequentially. coerce_default_value n E iv =
    (if w = PUndefined then Inl (TypeError (str ''Expected value of type to be valid'')) else Inr w)"
proof -
  have "\<forall>\<^sub>F n in sequentially. coerce_default_value (Suc n) E iv =
      (if w = PUndefined then Inl (TypeError (str ''Expected value of type to be valid'')) else Inr w)"
    using assms(2) unfolding settles_def
    by eventually_elim (simp add: coerce_default_value_body_def assms(1))
  then show ?thesis by (rule iffD1 [OF eventually_sequentially_Suc])
qed

lemma coerced_update: "vv_coerced (vv\<lparr>vv_coerced := d\<rparr>) = d" for vv :: variable_values
  by (cases vv) simp

lemma coerce_variable_turn:
  assumes E: "valid_inputs E" and given: "\<forall>v \<in> snd ` set inputs. wf_value v" and d: "wf_variable d"
  shows "\<exists>r. variable_outcome E inputs d r \<and> (\<forall>vv. \<exists>vv' errors.
    settles (\<lambda>n. coerce_variable n E inputs d vv) (vv', errors) \<and> turn r (defined_name d) vv vv' errors)"
proof (cases "get_variable_signature E d")
  case (Inl e)
  then show ?thesis
    by (intro exI [of _ Rejected]) (auto simp: variable_outcome_def coerce_variable_def turn_def intro!: exI settles_const)
next
  case (Inr ns)
  obtain name signature where ns: "ns = (name, signature)" by (cases ns)
  note sig = variable_signature [OF Inr [unfolded ns]]
  let ?v = "dict_get inputs name" and ?t = "iv_type signature"
  define vs where "vs vv = vv\<lparr>vv_sources := dict_set name (signature, ?v) (vv_sources vv)\<rparr>" for vv :: variable_values
  have [simp]: "vv_coerced (vs vv) = vv_coerced vv" for vv by (simp add: vs_def)
  consider "?v \<noteq> PUndefined" | node where "?v = PUndefined" "vardef_default_value d = Some node"
    | "?v = PUndefined" "vardef_default_value d = None" "is_non_null_type ?t"
    | "?v = PUndefined" "vardef_default_value d = None" "\<not> is_non_null_type ?t" by (cases "vardef_default_value d") auto
  then show ?thesis
  proof cases
    case 1
    have "?v \<in> snd ` set inputs" using 1 by (force simp: dict_get_def split: option.splits dest: map_of_SomeD)
    then have "agree (\<lambda>n. coerce_input_value n E ?v ?t) (validate_input_value E ?v ?t [])"
      using sig given by (intro agree_value [OF E]) auto
    then obtain w errors where w: "settles (\<lambda>n. coerce_input_value n E ?v ?t) w"
      "validate_input_value E ?v ?t [] = Inr errors" "w = PUndefined \<longleftrightarrow> errors \<noteq> []" by (auto simp: agree_def)
    have "settles (\<lambda>n. coerce_variable n E inputs d vv)
        (if w \<noteq> PUndefined then (vs vv)\<lparr>vv_coerced := dict_set name w (vv_coerced vv)\<rparr> else vs vv,
         if w \<noteq> PUndefined then [] else map (BadInputValue name) errors)" for vv
      using w(1) unfolding settles_def
    proof eventually_elim
      case (elim n)
      then show ?case using 1 w(2) by (simp add: coerce_variable_def Inr ns Let_def vs_def)
    qed
    moreover have "variable_outcome E inputs d (outcome_of w)"
      using 1 w(1) by (auto simp: variable_outcome_def Inr ns)
    moreover have "turn (outcome_of w) (defined_name d) vv
        (if w \<noteq> PUndefined then (vs vv)\<lparr>vv_coerced := dict_set name w (vv_coerced vv)\<rparr> else vs vv)
        (if w \<noteq> PUndefined then [] else map (BadInputValue name) errors)" for vv
      using w(3) sig by (simp add: turn_def outcome_of_def)
    ultimately show ?thesis by blast
  next
    case (2 node)
    have "agree (\<lambda>n. coerce_input_literal n E None None node ?t) (validate_input_literal E None None node ?t [])"
      using sig d 2 by (intro constant_literal [OF E]) (auto simp: wf_variable_def)
    then obtain w errors where w: "settles (\<lambda>n. coerce_input_literal n E None None node ?t) w"
      "validate_input_literal E None None node ?t [] = Inr errors" "w = PUndefined \<longleftrightarrow> errors \<noteq> []" by (auto simp: agree_def)
    have default: "iv_default signature = Some (DefaultLiteral node)" using sig 2 by simp
    have "settles (\<lambda>n. coerce_variable n E inputs d vv)
        (if w \<noteq> PUndefined then (vs vv)\<lparr>vv_coerced := dict_set name w (vv_coerced vv)\<rparr> else vs vv,
         if w \<noteq> PUndefined then [] else map (BadDefaultValue name) errors)" for vv
      using default_settles [OF default w(1)] unfolding settles_def
    proof eventually_elim
      case (elim n)
      then have "maybe_use_default_value n E (vv_coerced vv) name signature =
          Inr (if w \<noteq> PUndefined then dict_set name w (vv_coerced vv) else vv_coerced vv, if w \<noteq> PUndefined then [] else errors)"
        using w(2,3) by (auto simp: maybe_use_default_value_def default validate_default_input_def)
      then show ?case using 2 by (simp add: coerce_variable_def Inr ns Let_def vs_def)
    qed
    moreover have "variable_outcome E inputs d (outcome_of w)"
      using 2 w(1) by (auto simp: variable_outcome_def Inr ns)
    moreover have "turn (outcome_of w) (defined_name d) vv
        (if w \<noteq> PUndefined then (vs vv)\<lparr>vv_coerced := dict_set name w (vv_coerced vv)\<rparr> else vs vv)
        (if w \<noteq> PUndefined then [] else map (BadDefaultValue name) errors)" for vv
      using w(3) sig by (simp add: turn_def outcome_of_def)
    ultimately show ?thesis by blast
  next
    case 3
    obtain t where t: "?t = GNonNull t" using 3(3) by (cases ?t) auto
    have "settles (\<lambda>n. coerce_input_value n E PUndefined ?t) PUndefined"
      by (rule iffD1 [OF settles_Suc]) (simp add: t coerce_value_non_null settles_const)
    then have "settles (\<lambda>n. coerce_variable n E inputs d vv)
        (vs vv, [BadInputValue name (invalid [] ''Expected a value of non-null type to be provided.'')])" for vv
      using \<open>settles _ _\<close> unfolding settles_def
    proof eventually_elim
      case (elim n)
      then show ?case using 3 by (simp add: coerce_variable_def Inr ns Let_def vs_def t validate_value_non_null)
    qed
    moreover have "variable_outcome E inputs d Rejected"
      using 3 by (simp add: variable_outcome_def Inr ns)
    ultimately show ?thesis
      by (intro exI [of _ Rejected]) (auto simp: turn_def intro!: exI)
  next
    case 4
    have "settles (\<lambda>n. coerce_variable n E inputs d vv) (vs vv, [])" for vv
      using 4 by (simp add: coerce_variable_def Inr ns Let_def vs_def settles_const)
    moreover have "variable_outcome E inputs d Absent"
      using 4 by (simp add: variable_outcome_def Inr ns)
    ultimately show ?thesis
      by (intro exI [of _ Absent]) (auto simp: turn_def intro!: exI)
  qed
qed

lemma on_error_cases:
  "on_error m errors new = Inr (errors @ new) \<or> new \<noteq> [] \<and> (\<exists>errs. on_error m errors new = Inl (errs, too_many_errors))"
  by (induction m errors new rule: on_error.induct) auto

definition set_as_specified ::
  "'w env \<Rightarrow> (pystr \<times> py_value) list \<Rightarrow> variable_definition_node \<Rightarrow> (pystr \<times> py_value) list \<Rightarrow> bool" where
  "set_as_specified E inputs d coerced \<longleftrightarrow>
     (variable_outcome E inputs d Absent \<and> map_of coerced (defined_name d) = None)
     \<or> (\<exists>w. variable_outcome E inputs d (Has w) \<and> map_of coerced (defined_name d) = Some w)"

lemma variable_loop:
  assumes E: "valid_inputs E" and given: "\<forall>v \<in> snd ` set inputs. wf_value v"
  shows "\<forall>d \<in> set ds. wf_variable d \<Longrightarrow> distinct (map defined_name ds) \<Longrightarrow>
    \<forall>d \<in> set ds. map_of (vv_coerced vv) (defined_name d) = None \<Longrightarrow>
    \<exists>R. (\<forall>\<^sub>F n in sequentially. coerce_variable_values n E m inputs ds vv errors = R) \<and>
      (if \<exists>d \<in> set ds. variable_outcome E inputs d Rejected
       then (case R of Inl (errs, e) \<Rightarrow> e = too_many_errors | Inr (errs, vv') \<Rightarrow> length errs > length errors)
       else (case R of Inl (errs, e) \<Rightarrow> False | Inr (errs, vv') \<Rightarrow> errs = errors
          \<and> (\<forall>d \<in> set ds. set_as_specified E inputs d (vv_coerced vv'))
          \<and> (\<forall>k. k \<notin> defined_name ` set ds \<longrightarrow> map_of (vv_coerced vv') k = map_of (vv_coerced vv) k)))"
proof (induction ds arbitrary: vv errors)
  case Nil
  then show ?case by (intro exI [of _ "Inr (errors, vv)"]) simp
next
  case (Cons d ds)
  have "wf_variable d" using Cons.prems(1) by simp
  from coerce_variable_turn [OF E given this] obtain r where r: "variable_outcome E inputs d r"
    and turns: "\<forall>vv. \<exists>vv' new. settles (\<lambda>n. coerce_variable n E inputs d vv) (vv', new) \<and> turn r (defined_name d) vv vv' new"
    by auto
  from turns obtain vv' new where settled: "settles (\<lambda>n. coerce_variable n E inputs d vv) (vv', new)"
    and turn: "turn r (defined_name d) vv vv' new" by blast
  have outcome: "variable_outcome E inputs d r' \<longleftrightarrow> r' = r" for r'
    using r by (auto dest: variable_outcome_unique)
  consider "on_error m errors new = Inr (errors @ new)"
    | errs where "new \<noteq> []" "on_error m errors new = Inl (errs, too_many_errors)"
    using on_error_cases [of m errors new] by auto
  then show ?case
  proof cases
    case 1
    have unset: "\<forall>d' \<in> set ds. map_of (vv_coerced vv') (defined_name d') = None"
    proof
      fix d' assume d': "d' \<in> set ds"
      then have "defined_name d' \<noteq> defined_name d" using Cons.prems(2) by (metis distinct.simps(2) image_eqI list.simps(9) set_map)
      then show "map_of (vv_coerced vv') (defined_name d') = None"
        using Cons.prems(3) turn d' by (auto simp: turn_def split: outcome.splits)
    qed
    from Cons.IH [OF _ _ unset, of "errors @ new"] Cons.prems obtain R where
      R: "\<forall>\<^sub>F n in sequentially. coerce_variable_values n E m inputs ds vv' (errors @ new) = R"
      "if \<exists>d \<in> set ds. variable_outcome E inputs d Rejected
       then (case R of Inl (errs, e) \<Rightarrow> e = too_many_errors | Inr (errs, vv'') \<Rightarrow> length errs > length (errors @ new))
       else (case R of Inl (errs, e) \<Rightarrow> False | Inr (errs, vv'') \<Rightarrow> errs = errors @ new
          \<and> (\<forall>d \<in> set ds. set_as_specified E inputs d (vv_coerced vv''))
          \<and> (\<forall>k. k \<notin> defined_name ` set ds \<longrightarrow> map_of (vv_coerced vv'') k = map_of (vv_coerced vv') k))" by auto
    have "\<forall>\<^sub>F n in sequentially. coerce_variable_values n E m inputs (d # ds) vv errors = R"
      using R(1) settled unfolding settles_def by eventually_elim (simp add: 1)
    moreover have "set_as_specified E inputs d (vv_coerced vv'')"
      if "r \<noteq> Rejected" "map_of (vv_coerced vv'') (defined_name d) = map_of (vv_coerced vv') (defined_name d)" for vv''
      using that turn Cons.prems(3) by (cases r) (auto simp: set_as_specified_def outcome turn_def)
    moreover have "map_of (vv_coerced vv') k = map_of (vv_coerced vv) k" if "k \<noteq> defined_name d" for k
      using turn that by (cases r) (auto simp: turn_def)
    moreover have "defined_name d \<notin> defined_name ` set ds" using Cons.prems(2) by simp
    moreover have "new \<noteq> [] \<longleftrightarrow> r = Rejected" using turn by (simp add: turn_def)
    ultimately show ?thesis
      using R(2) by (intro exI [of _ R]) (auto simp: outcome split: sum.splits if_splits)
  next
    case (2 errs)
    then have "r = Rejected" using turn by (simp add: turn_def)
    moreover have "\<forall>\<^sub>F n in sequentially. coerce_variable_values n E m inputs (d # ds) vv errors = Inl (errs, too_many_errors)"
      using settled unfolding settles_def by eventually_elim (simp add: 2)
    ultimately show ?thesis by (intro exI [of _ "Inl (errs, too_many_errors)"]) (simp add: outcome)
  qed
qed

text \<open>
  C26.  The values of variables are what the definitions ask for.  With enough fuel the result no longer changes and is no
  exception: it is a list of at least one error when some variable is rejected (its type is no input type, the
  value given or the default does not fit the type, or a value is required and missing), and else the values,
  where each variable has its coerced value or default, or is absent if it is nullable and not given.
\<close>

theorem variables_as_specified:
  assumes "valid_inputs E" and "\<forall>v \<in> snd ` set inputs. wf_value v"
    and "\<forall>d \<in> set ds. wf_variable d" and "distinct (map defined_name ds)"
  shows "\<exists>n result. (\<forall>m \<ge> n. get_variable_values m E max_errors inputs ds = Inr result) \<and>
    (case result of
       Inl errors \<Rightarrow> errors \<noteq> [] \<and> (\<exists>d \<in> set ds. variable_outcome E inputs d Rejected)
     | Inr vv \<Rightarrow> \<forall>d \<in> set ds. set_as_specified E inputs d (vv_coerced vv))"
proof -
  let ?empty = "\<lparr>vv_sources = [], vv_coerced = []\<rparr>"
  have "\<forall>d \<in> set ds. map_of (vv_coerced ?empty) (defined_name d) = None" by simp
  from variable_loop [OF assms this, of max_errors "[]"] obtain R where
    R: "\<forall>\<^sub>F n in sequentially. coerce_variable_values n E max_errors inputs ds ?empty [] = R"
    and spec: "if \<exists>d \<in> set ds. variable_outcome E inputs d Rejected
     then (case R of Inl (errs, e) \<Rightarrow> e = too_many_errors | Inr (errs, vv') \<Rightarrow> length errs > length ([] :: request_error list))
     else (case R of Inl (errs, e) \<Rightarrow> False | Inr (errs, vv') \<Rightarrow> errs = []
        \<and> (\<forall>d \<in> set ds. set_as_specified E inputs d (vv_coerced vv'))
        \<and> (\<forall>k. k \<notin> defined_name ` set ds \<longrightarrow> map_of (vv_coerced vv') k = map_of (vv_coerced ?empty) k))" by blast
  from R obtain n where n: "\<forall>m \<ge> n. coerce_variable_values m E max_errors inputs ds ?empty [] = R"
    by (auto simp: eventually_sequentially)
  show ?thesis
  proof (cases R)
    case (Inl x)
    then obtain errs where x: "x = (errs, too_many_errors)" and d: "\<exists>d \<in> set ds. variable_outcome E inputs d Rejected"
      using spec by (cases x) (auto split: if_splits)
    have "\<forall>m \<ge> n. get_variable_values m E max_errors inputs ds = Inr (Inl (errs @ [RaisedError too_many_errors]))"
      using n by (simp add: get_variable_values_def Inl x too_many_errors_def)
    with d show ?thesis by (intro exI [of _ n] exI [of _ "Inl (errs @ [RaisedError too_many_errors])"]) simp
  next
    case (Inr x)
    obtain errs vv where x: "x = (errs, vv)" by (cases x)
    have "\<forall>m \<ge> n. get_variable_values m E max_errors inputs ds = Inr (if errs = [] then Inr vv else Inl errs)"
      using n by (simp add: get_variable_values_def Inr x)
    with spec show ?thesis
      by (intro exI [of _ n] exI [of _ "if errs = [] then Inr vv else Inl errs"]) (auto simp: Inr x split: if_splits)
  qed
qed

lemma on_error_bound:
  "length errors \<le> m \<Longrightarrow>
    (case on_error (Some m) errors new of Inl (errs, e) \<Rightarrow> length errs \<le> m | Inr errs \<Rightarrow> length errs \<le> m)"
  by (induction "Some m" errors new rule: on_error.induct) auto

lemma coerce_variable_values_bound:
  "length errors \<le> m \<Longrightarrow>
    (case coerce_variable_values n E (Some m) inputs ds vv errors of
       Inl (errs, e) \<Rightarrow> length errs \<le> m | Inr (errs, vv') \<Rightarrow> length errs \<le> m)"
proof (induction ds arbitrary: vv errors)
  case (Cons d ds)
  show ?case
  proof (cases "coerce_variable n E inputs d vv")
    case (Inr r)
    obtain vv' new where r: "r = (vv', new)" by (cases r)
    from on_error_bound [OF Cons.prems, of new] Cons.IH show ?thesis
      by (cases "on_error (Some m) errors new") (auto simp: Inr r)
  qed (use Cons.prems in simp)
qed simp

text \<open>
  C28.  With a limit on the errors, a request is answered with at most one error more than the limit, and never with
  an empty list.
\<close>

theorem variable_errors_bounded:
  "get_variable_values n E (Some m) inputs ds = Inr (Inl errors) \<Longrightarrow> errors \<noteq> [] \<and> length errors \<le> Suc m"
  using coerce_variable_values_bound [of "[]" m n E inputs ds "\<lparr>vv_sources = [], vv_coerced = []\<rparr>"]
  by (auto simp: get_variable_values_def split: sum.splits if_splits)

section \<open>Arguments\<close>

definition default_outcome_is :: "'w env \<Rightarrow> input_value \<Rightarrow> outcome \<Rightarrow> bool" where
  "default_outcome_is E iv r \<longleftrightarrow>
     (\<exists>w. settles (\<lambda>n. coerce_default_value n E iv) w \<and> r = (if w = PUndefined then Absent else Has w))"

definition argument_outcome ::
  "'w env \<Rightarrow> variable_values option \<Rightarrow> fragment_values option \<Rightarrow> input_value \<Rightarrow> value_node option \<Rightarrow> outcome \<Rightarrow> bool" where
  "argument_outcome E vv fv arg_def argument r \<longleftrightarrow>
     (case argument of
        None \<Rightarrow> if is_required_input arg_def then r = Rejected else default_outcome_is E arg_def r
      | Some node \<Rightarrow>
          if unset_variable vv fv node \<and> \<not> is_required_input arg_def then default_outcome_is E arg_def r
          else \<exists>w. settles (\<lambda>n. coerce_input_literal n E vv fv node (iv_type arg_def)) w \<and> r = outcome_of w)"

text \<open>The values of variables that coercion gives are never \<open>Undefined\<close>.\<close>

definition defined_values :: "variable_values option \<Rightarrow> fragment_values option \<Rightarrow> bool" where
  "defined_values vv fv \<longleftrightarrow> (\<forall>vars. vv = Some vars \<longrightarrow> PUndefined \<notin> snd ` set (vv_coerced vars))
     \<and> (\<forall>f. fv = Some f \<longrightarrow> PUndefined \<notin> snd ` set (fv_coerced f))"

lemma defined_get: "PUndefined \<notin> snd ` set d \<Longrightarrow> dict_get d k = PUndefined \<longleftrightarrow> map_of d k = None"
  by (force simp: dict_get_def split: option.splits dest: map_of_SomeD)

lemma unset_is_missing:
  "defined_values vv fv \<Longrightarrow> unset_variable vv fv (VariableValue v) \<longleftrightarrow> is_missing_variable v vv fv"
  by (auto simp: defined_values_def unset_variable_def is_missing_variable_def get_coerced_variable_value_def
      defined_get split: option.splits)

lemma use_default_settles:
  assumes "valid_field E False arg_def" and "\<not> is_required_input arg_def"
  shows "\<exists>r. default_outcome_is E arg_def r \<and> r \<noteq> Rejected \<and> (\<forall>coerced name.
    settles (\<lambda>n. use_default n E coerced name arg_def) (case r of Has w \<Rightarrow> dict_set name w coerced | _ \<Rightarrow> coerced))"
proof -
  from assms obtain w where w: "settles (\<lambda>n. coerce_default_value n E arg_def) w" by (auto simp: valid_field_def)
  have "settles (\<lambda>n. use_default n E coerced name arg_def) (if w = PUndefined then coerced else dict_set name w coerced)"
    for coerced name
    using w unfolding settles_def by eventually_elim (simp add: use_default_def maybe_use_default_value_def)
  with w show ?thesis
    by (intro exI [of _ "if w = PUndefined then Absent else Has w"]) (auto simp: default_outcome_is_def)
qed

lemma coerce_argument_settles:
  assumes E: "valid_inputs E" and arg: "valid_field E False arg_def" and vars: "defined_values vv fv"
    and wf: "\<forall>node. argument = Some node \<longrightarrow> wf_literal (known_variables vv fv) node"
  shows "\<exists>r. argument_outcome E vv fv arg_def argument r \<and> (\<forall>coerced.
    if r = Rejected
    then \<exists>message. message \<noteq> str ''Invalid argument'' \<and>
      (\<forall>\<^sub>F n in sequentially. coerce_argument n E vv fv name arg_def argument coerced = Inl (GraphQLError message))
    else settles (\<lambda>n. coerce_argument n E vv fv name arg_def argument coerced)
      (case r of Has w \<Rightarrow> dict_set (out_name name arg_def) w coerced | _ \<Rightarrow> coerced))"
proof -
  consider "argument = None" "is_required_input arg_def"
    | "argument = None \<or> (\<exists>node. argument = Some node \<and> unset_variable vv fv node)" "\<not> is_required_input arg_def"
    | node where "argument = Some node" "\<not> (unset_variable vv fv node \<and> \<not> is_required_input arg_def)"
    by (cases argument) auto
  then show ?thesis
  proof cases
    case 1
    then show ?thesis
      by (intro exI [of _ Rejected]) (simp add: argument_outcome_def coerce_argument_def)
  next
    case 2
    from use_default_settles [OF arg 2(2)] obtain r where r: "default_outcome_is E arg_def r" "r \<noteq> Rejected"
      "\<forall>coerced name. settles (\<lambda>n. use_default n E coerced name arg_def) (case r of Has w \<Rightarrow> dict_set name w coerced | _ \<Rightarrow> coerced)"
      by blast
    with 2 show ?thesis
      by (intro exI [of _ r]) (auto simp: argument_outcome_def coerce_argument_def split: option.split)
  next
    case (3 node)
    have "has_value vv fv node (iv_type arg_def)"
      using 3(2) unset_is_missing [OF vars] by (auto simp: has_value_def is_required_input_def)
    with agree_literal [OF E, of "iv_type arg_def" vv fv node "[]"] arg wf 3(1) obtain w errors where
      w: "settles (\<lambda>n. coerce_input_literal n E vv fv node (iv_type arg_def)) w"
        "validate_input_literal E vv fv node (iv_type arg_def) [] = Inr errors" "w = PUndefined \<longleftrightarrow> errors \<noteq> []"
      by (auto simp: valid_field_def agree_def)
    show ?thesis
    proof (cases "w = PUndefined")
      case True
      have "\<forall>\<^sub>F n in sequentially. coerce_argument n E vv fv name arg_def argument coerced
          = Inl (GraphQLError (str ''Argument has invalid value''))" for coerced
        using w(1) unfolding settles_def
        by eventually_elim (use 3 True w(2,3) in \<open>auto simp: coerce_argument_def\<close>)
      moreover have "argument_outcome E vv fv arg_def argument Rejected"
        using 3 w(1) True by (auto simp: argument_outcome_def outcome_of_def)
      moreover have "str ''Argument has invalid value'' \<noteq> str ''Invalid argument''" by simp
      ultimately have "argument_outcome E vv fv arg_def argument Rejected \<and> (\<forall>coerced. \<exists>message. message \<noteq> str ''Invalid argument'' \<and>
          (\<forall>\<^sub>F n in sequentially. coerce_argument n E vv fv name arg_def argument coerced = Inl (GraphQLError message)))"
        by blast
      then show ?thesis by (intro exI [of _ Rejected]) simp
    next
      case False
      have "settles (\<lambda>n. coerce_argument n E vv fv name arg_def argument coerced) (dict_set (out_name name arg_def) w coerced)"
        for coerced
        using w(1) unfolding settles_def by eventually_elim (use 3 False in \<open>auto simp: coerce_argument_def\<close>)
      moreover have "argument_outcome E vv fv arg_def argument (Has w)"
        using 3 w(1) False by (auto simp: argument_outcome_def outcome_of_def)
      ultimately show ?thesis by (intro exI [of _ "Has w"]) auto
    qed
  qed
qed

definition argument_as_specified ::
  "'w env \<Rightarrow> variable_values option \<Rightarrow> fragment_values option \<Rightarrow> (pystr \<times> value_node) list
    \<Rightarrow> (pystr \<times> py_value) list \<Rightarrow> pystr \<times> input_value \<Rightarrow> bool" where
  "argument_as_specified E vv fv nodes coerced = (\<lambda>(name, arg_def).
     (argument_outcome E vv fv arg_def (map_of nodes name) Absent \<and> map_of coerced (out_name name arg_def) = None)
     \<or> (\<exists>w. argument_outcome E vv fv arg_def (map_of nodes name) (Has w) \<and> map_of coerced (out_name name arg_def) = Some w))"

lemma default_outcome_unique: "default_outcome_is E iv r \<Longrightarrow> default_outcome_is E iv r' \<Longrightarrow> r = r'"
  unfolding default_outcome_is_def by (metis settles_unique)

lemma argument_outcome_unique:
  assumes "argument_outcome E vv fv arg_def argument r" and "argument_outcome E vv fv arg_def argument r'"
  shows "r = r'"
proof (cases argument)
  case None
  with assms show ?thesis
    by (simp add: argument_outcome_def split: if_splits) (erule (1) default_outcome_unique)
next
  case (Some node)
  show ?thesis
  proof (cases "unset_variable vv fv node \<and> \<not> is_required_input arg_def")
    case True
    with assms Some show ?thesis by (simp add: argument_outcome_def) (erule (1) default_outcome_unique)
  next
    case False
    show ?thesis
      using assms unfolding argument_outcome_def Some option.case if_not_P [OF False] by (rule settled_outcome_unique)
  qed
qed

abbreviation out_names :: "(pystr \<times> input_value) list \<Rightarrow> pystr list" where
  "out_names \<equiv> map (\<lambda>(name, arg_def). out_name name arg_def)"

lemma argument_loop:
  assumes E: "valid_inputs E" and vars: "defined_values vv fv"
    and wf: "\<forall>node \<in> snd ` set nodes. wf_literal (known_variables vv fv) node"
  shows "\<forall>arg_def \<in> snd ` set arg_defs. valid_field E False arg_def \<Longrightarrow> distinct (out_names arg_defs) \<Longrightarrow>
    \<forall>k \<in> set (out_names arg_defs). map_of coerced k = None \<Longrightarrow>
    \<exists>R. (\<forall>\<^sub>F n in sequentially. coerce_arguments n E vv fv nodes arg_defs coerced = R) \<and>
      (if \<exists>(name, arg_def) \<in> set arg_defs. argument_outcome E vv fv arg_def (map_of nodes name) Rejected
       then \<exists>message. message \<noteq> str ''Invalid argument'' \<and> R = Inl (GraphQLError message)
       else \<exists>coerced'. R = Inr coerced' \<and> (\<forall>arg \<in> set arg_defs. argument_as_specified E vv fv nodes coerced' arg)
          \<and> (\<forall>k. k \<notin> set (out_names arg_defs) \<longrightarrow> map_of coerced' k = map_of coerced k))"
proof (induction arg_defs arbitrary: coerced)
  case Nil
  then show ?case by (intro exI [of _ "Inr coerced"]) simp
next
  case (Cons a arg_defs)
  obtain name arg_def where a: "a = (name, arg_def)" by (cases a)
  have "\<forall>node. map_of nodes name = Some node \<longrightarrow> wf_literal (known_variables vv fv) node"
    using wf by (force dest: map_of_SomeD)
  moreover have "valid_field E False arg_def" using Cons.prems(1) by (simp add: a)
  ultimately obtain r where r: "argument_outcome E vv fv arg_def (map_of nodes name) r"
    and step: "\<forall>coerced. if r = Rejected
      then \<exists>message. message \<noteq> str ''Invalid argument'' \<and> (\<forall>\<^sub>F n in sequentially.
        coerce_argument n E vv fv name arg_def (map_of nodes name) coerced = Inl (GraphQLError message))
      else settles (\<lambda>n. coerce_argument n E vv fv name arg_def (map_of nodes name) coerced)
        (case r of Has w \<Rightarrow> dict_set (out_name name arg_def) w coerced | _ \<Rightarrow> coerced)"
    using coerce_argument_settles [OF E _ vars] by blast
  have outcome: "argument_outcome E vv fv arg_def (map_of nodes name) r' \<longleftrightarrow> r' = r" for r'
    using r by (auto dest: argument_outcome_unique)
  show ?case
  proof (cases "r = Rejected")
    case True
    with step obtain message where message: "message \<noteq> str ''Invalid argument''"
      "\<forall>\<^sub>F n in sequentially. coerce_argument n E vv fv name arg_def (map_of nodes name) coerced = Inl (GraphQLError message)"
      by auto
    from message(2) have "\<forall>\<^sub>F n in sequentially. coerce_arguments n E vv fv nodes (a # arg_defs) coerced = Inl (GraphQLError message)"
      by eventually_elim (simp add: a)
    with message(1) True show ?thesis
      by (intro exI [of _ "Inl (GraphQLError message)"]) (simp add: a outcome)
  next
    case False
    define coerced' where "coerced' = (case r of Has w \<Rightarrow> dict_set (out_name name arg_def) w coerced | _ \<Rightarrow> coerced)"
    have settled: "settles (\<lambda>n. coerce_argument n E vv fv name arg_def (map_of nodes name) coerced) coerced'"
      using step False by (simp add: coerced'_def)
    have other: "map_of coerced' k = map_of coerced k" if "k \<noteq> out_name name arg_def" for k
      using that by (simp add: coerced'_def split: outcome.split)
    have fresh: "out_name name arg_def \<notin> set (out_names arg_defs)" using Cons.prems(2) by (simp add: a)
    then have "\<forall>k \<in> set (out_names arg_defs). map_of coerced' k = None"
      using other Cons.prems(3) by (metis list.set_intros(2) list.simps(9))
    from Cons.IH [OF _ _ this] Cons.prems(1,2) obtain R where
      R: "\<forall>\<^sub>F n in sequentially. coerce_arguments n E vv fv nodes arg_defs coerced' = R"
      and rest: "if \<exists>(name, arg_def) \<in> set arg_defs. argument_outcome E vv fv arg_def (map_of nodes name) Rejected
       then \<exists>message. message \<noteq> str ''Invalid argument'' \<and> R = Inl (GraphQLError message)
       else \<exists>coerced''. R = Inr coerced'' \<and> (\<forall>arg \<in> set arg_defs. argument_as_specified E vv fv nodes coerced'' arg)
          \<and> (\<forall>k. k \<notin> set (out_names arg_defs) \<longrightarrow> map_of coerced'' k = map_of coerced' k)"
      by auto
    have "\<forall>\<^sub>F n in sequentially. coerce_arguments n E vv fv nodes (a # arg_defs) coerced = R"
      using R settled unfolding settles_def by eventually_elim (simp add: a)
    moreover have "argument_as_specified E vv fv nodes coerced'' a"
      if "map_of coerced'' (out_name name arg_def) = map_of coerced' (out_name name arg_def)" for coerced''
    proof -
      have "map_of coerced (out_name name arg_def) = None" using Cons.prems(3) by (simp add: a)
      then show ?thesis
        using that False by (cases r) (auto simp: argument_as_specified_def a outcome coerced'_def)
    qed
    ultimately show ?thesis
      using rest fresh False other by (intro exI [of _ R]) (auto simp: a outcome split: if_splits)
  qed
qed

text \<open>
  C27.  The arguments of a field or a directive have the values that their definitions ask for.  With enough fuel the result
  no longer changes: it is a located \<open>GraphQLError\<close> when some argument is rejected, but never the one that the code calls
  unreachable, and else a dict where each argument has its coerced value or default, or is absent.
\<close>

theorem arguments_as_specified:
  assumes "valid_inputs E" and "defined_values vv fv"
    and "\<forall>node \<in> snd ` set (argument_nodes arguments). wf_literal (vv \<noteq> None \<or> fv \<noteq> None) node"
    and "\<forall>arg_def \<in> snd ` set arg_defs. valid_field E False arg_def" and "distinct (out_names arg_defs)"
  shows "\<exists>n result. (\<forall>m \<ge> n. get_argument_values m E arg_defs arguments vv fv = result) \<and>
    (case result of
       Inl e \<Rightarrow> (\<exists>message. e = GraphQLError message \<and> message \<noteq> str ''Invalid argument'')
         \<and> (\<exists>(name, arg_def) \<in> set arg_defs. argument_outcome E vv fv arg_def (map_of (argument_nodes arguments) name) Rejected)
     | Inr coerced \<Rightarrow> \<forall>arg \<in> set arg_defs. argument_as_specified E vv fv (argument_nodes arguments) coerced arg)"
proof -
  from argument_loop [OF assms(1,2,3,4,5), of "[]"] obtain R where
    R: "\<forall>\<^sub>F n in sequentially. coerce_arguments n E vv fv (argument_nodes arguments) arg_defs [] = R"
    and spec: "if \<exists>(name, arg_def) \<in> set arg_defs. argument_outcome E vv fv arg_def (map_of (argument_nodes arguments) name) Rejected
     then \<exists>message. message \<noteq> str ''Invalid argument'' \<and> R = Inl (GraphQLError message)
     else \<exists>coerced'. R = Inr coerced' \<and> (\<forall>arg \<in> set arg_defs. argument_as_specified E vv fv (argument_nodes arguments) coerced' arg)
        \<and> (\<forall>k. k \<notin> set (out_names arg_defs) \<longrightarrow> map_of coerced' k = map_of [] k)" by auto
  from R obtain n where "\<forall>m \<ge> n. coerce_arguments m E vv fv (argument_nodes arguments) arg_defs [] = R"
    by (auto simp: eventually_sequentially)
  then have "\<forall>m \<ge> n. get_argument_values m E arg_defs arguments vv fv = R" by (simp add: get_argument_values_def)
  moreover have "case R of
      Inl e \<Rightarrow> (\<exists>message. e = GraphQLError message \<and> message \<noteq> str ''Invalid argument'')
        \<and> (\<exists>(name, arg_def) \<in> set arg_defs. argument_outcome E vv fv arg_def (map_of (argument_nodes arguments) name) Rejected)
    | Inr coerced \<Rightarrow> \<forall>arg \<in> set arg_defs. argument_as_specified E vv fv (argument_nodes arguments) coerced arg"
  proof (cases "\<exists>(name, arg_def) \<in> set arg_defs. argument_outcome E vv fv arg_def (map_of (argument_nodes arguments) name) Rejected")
    case True
    with spec obtain message where "message \<noteq> str ''Invalid argument''" "R = Inl (GraphQLError message)" by auto
    then show ?thesis using True by (simp del: str_inj)
  next
    case False
    with spec show ?thesis by auto
  qed
  ultimately show ?thesis by blast
qed

section \<open>Examples\<close>

text \<open>\<open>query ($x: Int, $y: Int! = 3, $z: Int!)\<close>, with \<open>x\<close> given and \<open>z\<close> missing.\<close>

definition int_node :: type_node where
  "int_node = NamedType (NamedTypeNode (NameNode (str ''Int'') None) None)"

definition define_variable :: "string \<Rightarrow> type_node \<Rightarrow> value_node option \<Rightarrow> variable_definition_node" where
  "define_variable x t d = VariableDefinitionNode None (VariableNode (NameNode (str x) None) None) t d None None"

definition example_definitions :: "variable_definition_node list" where
  "example_definitions =
     [define_variable ''x'' int_node None,
      define_variable ''y'' (NonNullTypeNode int_node None) (Some (IntValueNode (str ''3'') None)),
      define_variable ''z'' (NonNullTypeNode int_node None) None]"

lemma variables_as_specified_witness:
  "\<exists>n result. (\<forall>m \<ge> n. get_variable_values m example_env None [(str ''x'', PInt 7)] example_definitions = Inr result) \<and>
    (case result of
       Inl errors \<Rightarrow> errors \<noteq> [] \<and> (\<exists>d \<in> set example_definitions. variable_outcome example_env [(str ''x'', PInt 7)] d Rejected)
     | Inr vv \<Rightarrow> \<forall>d \<in> set example_definitions. set_as_specified example_env [(str ''x'', PInt 7)] d (vv_coerced vv))"
  by (rule variables_as_specified [OF example_valid])
     (simp_all add: wf_value.simps wf_variable_def example_definitions_def define_variable_def defined_name_def var_name_def
       wf_literal.simps)

lemma variable_errors_bounded_witness:
  "length [RaisedError too_many_errors] \<le> Suc 0"
proof -
  have "get_variable_values 5 example_env (Some 0) [] [define_variable ''z'' (NonNullTypeNode int_node None) None]
      = Inr (Inl [RaisedError too_many_errors])"
    by (simp add: get_variable_values_def coerce_variable_def get_variable_signature_def define_variable_def int_node_def
        var_name_def example_types dict_get_def Let_def numeral_eq_Suc coerce_value_non_null validate_value_non_null
        too_many_errors_def)
  from variable_errors_bounded [OF this] show ?thesis by simp
qed

text \<open>\<open>field(limit: $x, by: {id: 1})\<close> with the arguments \<open>limit: Int!\<close>, \<open>by: By!\<close> and \<open>tags: [Int]\<close>.\<close>

definition example_arguments :: "argument_node list option" where
  "example_arguments = Some
     [ArgumentNode (NameNode (str ''limit'') None) (variable ''x'') None,
      ArgumentNode (NameNode (str ''by'') None)
        (ObjectValueNode [ObjectFieldNode (NameNode (str ''id'') None) (IntValueNode (str ''1'') None) None] None) None]"

lemma arguments_as_specified_witness:
  "\<exists>n result. (\<forall>m \<ge> n. get_argument_values m example_env (io_fields example_filter) example_arguments
      (Some example_variables) None = result) \<and>
    (case result of
       Inl e \<Rightarrow> (\<exists>message. e = GraphQLError message \<and> message \<noteq> str ''Invalid argument'')
         \<and> (\<exists>(name, arg_def) \<in> set (io_fields example_filter). argument_outcome example_env (Some example_variables) None
              arg_def (map_of (argument_nodes example_arguments) name) Rejected)
     | Inr coerced \<Rightarrow> \<forall>arg \<in> set (io_fields example_filter).
         argument_as_specified example_env (Some example_variables) None (argument_nodes example_arguments) coerced arg)"
proof (rule arguments_as_specified [OF example_valid])
  show "\<forall>arg_def \<in> snd ` set (io_fields example_filter). valid_field example_env False arg_def"
    by (simp add: example_filter_def limit_field_valid plain_field_valid example_types)
  show "\<forall>node \<in> snd ` set (argument_nodes example_arguments). wf_literal (Some example_variables \<noteq> None \<or> None \<noteq> None) node"
    by (simp add: argument_nodes_def example_arguments_def dict_of_def variable_def wf_literal.simps)
qed (simp_all add: defined_values_def example_variables_def example_filter_def limit_field_def plain_input_def out_name_def)

end
