(* ===== verification/Collect_Fields.thy ===== *)
theory Collect_Fields
  imports Variable_Facts
begin

text \<open>
  Collecting the fields of a selection set (\<open>execution/collect_fields.py\<close>): fields are grouped by their response name, in
  the order in which they are first met, and fragments are entered at most once, or twice when the first spread
  was deferred.  The functions get the fuel of the coercions they call from the context; the depth of the recursion is
  bounded by fuel of its own.
\<close>

section \<open>Data\<close>

datatype defer_usage = DeferUsage (defer_label: py_value) (parent_defer_usage: "defer_usage option")

record field_details =
  fd_node :: selection_node
  fd_defer_usage :: "defer_usage option"
  fd_fragment_values :: "fragment_values option"

record fragment_details =
  fragment_definition :: fragment_definition_node
  fragment_signatures :: "(pystr \<times> input_value) list option"

text \<open>\<open>CollectFieldsContext\<close>; what the functions change is in the state.\<close>

record 'w collect_context =
  cx_schema :: "'w schema"
  cx_repr :: "rat \<Rightarrow> pystr"
  cx_fragments :: "(pystr \<times> fragment_details) list"
  cx_variables :: variable_values
  cx_runtime_type :: pystr
  cx_forbid :: bool
  cx_fuel :: nat

record collected =
  grouped_field_set :: "(pystr \<times> field_details list) list"
  new_defer_usages :: "defer_usage list"
  forbidden_directives :: "directive_node list"
  visited_fragments :: "(pystr \<times> bool) list"

definition schema_env :: "'w schema \<Rightarrow> (rat \<Rightarrow> pystr) \<Rightarrow> 'w env" where
  "schema_env schema repr = \<lparr>env_types = get_type schema, env_repr = repr\<rparr>"

abbreviation cx_env :: "'w collect_context \<Rightarrow> 'w env" where
  "cx_env cx \<equiv> schema_env (cx_schema cx) (cx_repr cx)"

text \<open>\<open>bool(value)\<close>\<close>

fun py_bool :: "py_value \<Rightarrow> bool" where
  "py_bool PNone = False"
| "py_bool PUndefined = False"
| "py_bool (PBool b) = b"
| "py_bool (PInt n) = (n \<noteq> 0)"
| "py_bool (PFloat x) = (x \<noteq> FFinite 0)"
| "py_bool (PStr s) = (s \<noteq> [])"
| "py_bool (PList vs) = (vs \<noteq> [])"
| "py_bool (PDict d) = (d \<noteq> [])"
| "py_bool _ = True"

section \<open>Directives\<close>

text \<open>The value of \<open>if\<close> of a directive, or the directive if it is forbidden here.\<close>

datatype condition = NoCondition | Condition bool | Forbidden directive_node

definition directive_condition ::
  "'w collect_context \<Rightarrow> fragment_values option \<Rightarrow> directive_def \<Rightarrow> directive_node list option \<Rightarrow> py_error + condition" where
  "directive_condition cx fv directive_def directives =
     (case find_directive (dir_name directive_def) directives of
        None \<Rightarrow> Inr NoCondition
      | Some d \<Rightarrow>
          if cx_forbid cx then Inr (Forbidden d)
          else bind_result (get_argument_values (cx_fuel cx) (cx_env cx) (dir_args directive_def) (directive_arguments d)
              (Some (cx_variables cx)) fv)
            (\<lambda>coerced. case map_of coerced (str ''if'') of
               Some w \<Rightarrow> Inr (Condition (py_bool w))
             | None \<Rightarrow> if coerced = [] then Inr NoCondition else Inl (KeyError (str ''if''))))"

text \<open>Whether the node is included, and the directives that are forbidden.\<close>

definition should_include_node ::
  "'w collect_context \<Rightarrow> fragment_values option \<Rightarrow> directive_node list option \<Rightarrow> py_error + bool \<times> directive_node list" where
  "should_include_node cx fv directives =
     bind_result (directive_condition cx fv GraphQLSkipDirective directives) (\<lambda>skip.
       case skip of
         Forbidden d \<Rightarrow> Inr (False, [d])
       | Condition True \<Rightarrow> Inr (False, [])
       | _ \<Rightarrow>
           bind_result (directive_condition cx fv GraphQLIncludeDirective directives) (\<lambda>include.
             case include of
               Forbidden d \<Rightarrow> Inr (False, [d])
             | Condition b \<Rightarrow> Inr (b, [])
             | NoCondition \<Rightarrow> Inr (True, [])))"

definition does_fragment_condition_match :: "'w collect_context \<Rightarrow> named_type_node option \<Rightarrow> bool" where
  "does_fragment_condition_match cx type_condition =
     (case type_condition of
        None \<Rightarrow> True
      | Some node \<Rightarrow>
          let name = name_value (named_type_name node) in
          (case get_type (cx_schema cx) name of
             None \<Rightarrow> False
           | Some t \<Rightarrow>
               if name = cx_runtime_type cx then True
               else if is_abstract_named t then is_sub_type (cx_schema cx) t (cx_runtime_type cx)
               else False))"

definition get_defer_usage ::
  "'w collect_context \<Rightarrow> fragment_values option \<Rightarrow> directive_node list option \<Rightarrow> defer_usage option
    \<Rightarrow> py_error + defer_usage option" where
  "get_defer_usage cx fv directives parent =
     bind_result (get_directive_values (cx_fuel cx) (cx_env cx) GraphQLDeferDirective directives (Some (cx_variables cx)) fv)
       (\<lambda>defer. case defer of
          None \<Rightarrow> Inr None
        | Some d \<Rightarrow>
            if d = [] \<or> map_of d (str ''if'') = Some (PBool False) then Inr None
            else Inr (Some (DeferUsage (case map_of d (str ''label'') of Some w \<Rightarrow> w | None \<Rightarrow> PNone) parent)))"

section \<open>Selections\<close>

definition get_field_entry_key :: "selection_node \<Rightarrow> pystr" where
  "get_field_entry_key node =
     name_value (case field_alias node of Some name \<Rightarrow> name | None \<Rightarrow> field_name node)"

text \<open>\<open>grouped_field_set[key].append(details)\<close> on a \<open>defaultdict\<close>.\<close>

definition add_field ::
  "pystr \<Rightarrow> field_details \<Rightarrow> (pystr \<times> field_details list) list \<Rightarrow> (pystr \<times> field_details list) list" where
  "add_field key details grouped =
     dict_set key ((case map_of grouped key of Some fs \<Rightarrow> fs | None \<Rightarrow> []) @ [details]) grouped"

type_synonym collector =
  "selection_node list \<Rightarrow> defer_usage option \<Rightarrow> fragment_values option \<Rightarrow> collected \<Rightarrow> py_error + collected"

definition enter_fragment ::
  "collector \<Rightarrow> 'w collect_context \<Rightarrow> fragment_argument_node list option \<Rightarrow> fragment_details \<Rightarrow> defer_usage option
    \<Rightarrow> fragment_values option \<Rightarrow> collected \<Rightarrow> py_error + collected" where
  "enter_fragment rec cx arguments fragment defer fv st =
     bind_result
       (case fragment_signatures fragment of
          Some (s # ss) \<Rightarrow>
            bind_result (get_fragment_variable_values (cx_fuel cx) (cx_env cx) arguments (s # ss)
                (Some (cx_variables cx)) fv) (\<lambda>values. Inr (Some values))
        | _ \<Rightarrow> Inr None)
       (\<lambda>values. rec (selections (frag_selection_set (fragment_definition fragment))) defer values st)"

definition collect_inline ::
  "collector \<Rightarrow> 'w collect_context \<Rightarrow> defer_usage option \<Rightarrow> fragment_values option \<Rightarrow> selection_set_node
    \<Rightarrow> named_type_node option \<Rightarrow> directive_node list option \<Rightarrow> collected \<Rightarrow> py_error + collected" where
  "collect_inline rec cx defer fv selection_set type_condition directives st =
     (if \<not> does_fragment_condition_match cx type_condition then Inr st
      else bind_result (get_defer_usage cx fv directives defer) (\<lambda>new.
        case new of
          None \<Rightarrow> rec (selections selection_set) defer fv st
        | Some d \<Rightarrow> rec (selections selection_set) (Some d) fv (st\<lparr>new_defer_usages := new_defer_usages st @ [d]\<rparr>)))"

definition collect_spread ::
  "collector \<Rightarrow> 'w collect_context \<Rightarrow> defer_usage option \<Rightarrow> fragment_values option \<Rightarrow> pystr
    \<Rightarrow> fragment_argument_node list option \<Rightarrow> directive_node list option \<Rightarrow> collected \<Rightarrow> py_error + collected" where
  "collect_spread rec cx defer fv name arguments directives st =
     (case map_of (cx_fragments cx) name of
        None \<Rightarrow> Inr st
      | Some fragment \<Rightarrow>
          if \<not> does_fragment_condition_match cx (Some (frag_type_condition (fragment_definition fragment))) then Inr st
          else bind_result (get_defer_usage cx fv directives defer) (\<lambda>new.
            case new of
              None \<Rightarrow>
                if map_of (visited_fragments st) name = Some False then Inr st
                else enter_fragment rec cx arguments fragment defer fv
                  (st\<lparr>visited_fragments := dict_set name False (visited_fragments st)\<rparr>)
            | Some d \<Rightarrow>
                if map_of (visited_fragments st) name \<noteq> None then Inr st
                else enter_fragment rec cx arguments fragment (Some d) fv
                  (st\<lparr>visited_fragments := dict_set name True (visited_fragments st),
                      new_defer_usages := new_defer_usages st @ [d]\<rparr>)))"

definition collect_included ::
  "collector \<Rightarrow> 'w collect_context \<Rightarrow> defer_usage option \<Rightarrow> fragment_values option \<Rightarrow> selection_node \<Rightarrow> collected
    \<Rightarrow> py_error + collected" where
  "collect_included rec cx defer fv selection st =
     (case selection of
        FieldNode name alias_node arguments directives selection_set loc \<Rightarrow>
          Inr (st\<lparr>grouped_field_set := add_field (get_field_entry_key selection)
            \<lparr>fd_node = selection, fd_defer_usage = defer, fd_fragment_values = fv\<rparr> (grouped_field_set st)\<rparr>)
      | InlineFragmentNode selection_set type_condition directives loc \<Rightarrow>
          collect_inline rec cx defer fv selection_set type_condition directives st
      | FragmentSpreadNode name arguments directives loc \<Rightarrow>
          collect_spread rec cx defer fv (name_value name) arguments directives st)"

definition collect_selection ::
  "collector \<Rightarrow> 'w collect_context \<Rightarrow> defer_usage option \<Rightarrow> fragment_values option \<Rightarrow> selection_node \<Rightarrow> collected
    \<Rightarrow> py_error + collected" where
  "collect_selection rec cx defer fv selection st =
     bind_result (should_include_node cx fv (sel_directives selection)) (\<lambda>(included, forbidden).
       let st = st\<lparr>forbidden_directives := forbidden_directives st @ forbidden\<rparr> in
       if included then collect_included rec cx defer fv selection st else Inr st)"

fun fold_result :: "('x \<Rightarrow> 's \<Rightarrow> 'e + 's) \<Rightarrow> 'x list \<Rightarrow> 's \<Rightarrow> 'e + 's" where
  "fold_result f [] s = Inr s"
| "fold_result f (x # xs) s = bind_result (f x s) (fold_result f xs)"

fun collect_fields_impl :: "nat \<Rightarrow> 'w collect_context \<Rightarrow> collector" where
  "collect_fields_impl 0 cx nodes defer fv st = Inl OutOfFuel"
| "collect_fields_impl (Suc k) cx nodes defer fv st =
     fold_result (collect_selection (collect_fields_impl k cx) cx defer fv) nodes st"

definition nothing_collected :: collected where
  "nothing_collected =
     \<lparr>grouped_field_set = [], new_defer_usages = [], forbidden_directives = [], visited_fragments = []\<rparr>"

definition collect_fields :: "'w collect_context \<Rightarrow> operation_definition_node \<Rightarrow> py_error + collected" where
  "collect_fields cx operation =
     collect_fields_impl (cx_fuel cx) cx (selections (op_selection_set operation)) None None nothing_collected"

definition collect_subfields :: "'w collect_context \<Rightarrow> field_details list \<Rightarrow> py_error + collected" where
  "collect_subfields cx details =
     fold_result (\<lambda>d st.
       case field_selection_set (fd_node d) of
         Some selection_set \<Rightarrow>
           collect_fields_impl (cx_fuel cx) (cx\<lparr>cx_forbid := False\<rparr>) (selections selection_set)
             (fd_defer_usage d) (fd_fragment_values d) st
       | None \<Rightarrow> Inr st) details nothing_collected"

end
