(* ===== verification/Validation_Context.thy ===== *)
theory Validation_Context
  imports Type_Info Collect_Fields
begin

text \<open>
  The context of validation (\<open>validation/validation_context.py\<close>): the fragments of the document, the spreads in a selection
  set, the fragments that an operation reaches and the uses of variables.  The memo tables of the context only keep
  answers and are left out.
\<close>

record 'w validation_context =
  vc_meta :: "'w meta_fields"
  vc_schema :: "'w schema"
  vc_repr :: "rat \<Rightarrow> pystr"
  vc_document :: document_node
  vc_max_errors :: nat
  vc_fuel :: nat

abbreviation vc_types :: "'w validation_context \<Rightarrow> 'w types" where
  "vc_types cx \<equiv> get_type (vc_schema cx)"

section \<open>Fragments\<close>

text \<open>\<open>get_fragment\<close>: the last fragment with the name.\<close>

definition document_fragments :: "document_node \<Rightarrow> (pystr \<times> fragment_definition_node) list" where
  "document_fragments document =
     fold (\<lambda>d fragments. case d of
         FragmentDefinition fragment \<Rightarrow> dict_set (name_value (frag_name fragment)) fragment fragments
       | _ \<Rightarrow> fragments) (document_definitions document) []"

definition get_fragment :: "document_node \<Rightarrow> pystr \<Rightarrow> fragment_definition_node option" where
  "get_fragment document name = map_of (document_fragments document) name"

fun is_spread :: "selection_node \<Rightarrow> bool" where
  "is_spread (FragmentSpreadNode name arguments directives loc) = True"
| "is_spread _ = False"

fun child_set :: "selection_node \<Rightarrow> selection_set_node option" where
  "child_set (FieldNode name alias_node arguments directives selection_set loc) = selection_set"
| "child_set (FragmentSpreadNode name arguments directives loc) = None"
| "child_set (InlineFragmentNode selection_set type_condition directives loc) = Some selection_set"

definition child_sets :: "selection_node list \<Rightarrow> selection_set_node list" where
  "child_sets nodes = map the (filter (\<lambda>s. s \<noteq> None) (map child_set nodes))"

lemma child_sets_simps [simp]:
  "child_sets [] = []"
  "child_sets (s # nodes) = (case child_set s of Some ss \<Rightarrow> ss # child_sets nodes | None \<Rightarrow> child_sets nodes)"
  by (simp_all add: child_sets_def split: option.split)

lemma child_sets_size: "sum_list (map size (child_sets nodes)) \<le> size_list size nodes"
proof (induction nodes)
  case (Cons s nodes)
  have "child_set s = Some ss \<Longrightarrow> size ss \<le> size s" for ss by (cases s) auto
  with Cons show ?case by (fastforce split: option.split)
qed simp

text \<open>The loop of \<open>get_fragment_spreads\<close> over a stack of selection sets.\<close>

function spreads_loop :: "selection_set_node list \<Rightarrow> selection_node list \<Rightarrow> selection_node list" where
  "spreads_loop [] spreads = spreads"
| "spreads_loop (visited_set # sets_to_visit) spreads =
     spreads_loop (rev (child_sets (selections visited_set)) @ sets_to_visit)
       (spreads @ filter is_spread (selections visited_set))"
  by pat_completeness auto
termination
proof (relation "measure (\<lambda>(sets, spreads). sum_list (map size sets))", goal_cases)
  case (2 visited_set sets_to_visit spreads)
  have "sum_list (map size (child_sets (selections visited_set))) < size visited_set"
    using child_sets_size [of "selections visited_set"] by (cases visited_set) simp
  then show ?case by (simp add: rev_map [symmetric])
qed simp

definition get_fragment_spreads :: "selection_set_node \<Rightarrow> selection_node list" where
  "get_fragment_spreads node = spreads_loop [node] []"

text \<open>The loop of \<open>get_recursively_referenced_fragments\<close>; every round of the inner loop looks at one spread.\<close>

fun reference_spreads ::
  "document_node \<Rightarrow> selection_node list \<Rightarrow> pystr list \<times> fragment_definition_node list \<times> selection_set_node list
    \<Rightarrow> pystr list \<times> fragment_definition_node list \<times> selection_set_node list" where
  "reference_spreads document [] (collected_names, fragments, nodes_to_visit) = (collected_names, fragments, nodes_to_visit)"
| "reference_spreads document (spread # spreads) (collected_names, fragments, nodes_to_visit) =
     (let frag_name = name_value (spread_name spread) in
      if frag_name \<in> set collected_names
      then reference_spreads document spreads (collected_names, fragments, nodes_to_visit)
      else case get_fragment document frag_name of
        None \<Rightarrow> reference_spreads document spreads (frag_name # collected_names, fragments, nodes_to_visit)
      | Some fragment \<Rightarrow>
          reference_spreads document spreads
            (frag_name # collected_names, fragments @ [fragment], frag_selection_set fragment # nodes_to_visit))"

fun references_loop ::
  "nat \<Rightarrow> document_node \<Rightarrow> pystr list \<times> fragment_definition_node list \<times> selection_set_node list
    \<Rightarrow> fragment_definition_node list option" where
  "references_loop n document (collected_names, fragments, []) = Some fragments"
| "references_loop 0 document (collected_names, fragments, visited_node # nodes_to_visit) = None"
| "references_loop (Suc n) document (collected_names, fragments, visited_node # nodes_to_visit) =
     references_loop n document
       (reference_spreads document (get_fragment_spreads visited_node) (collected_names, fragments, nodes_to_visit))"

text \<open>Every fragment is visited at most once.\<close>

definition get_recursively_referenced_fragments ::
  "document_node \<Rightarrow> operation_definition_node \<Rightarrow> fragment_definition_node list" where
  "get_recursively_referenced_fragments document operation =
     (case references_loop (Suc (length (document_fragments document))) document ([], [], [op_selection_set operation]) of
        Some fragments \<Rightarrow> fragments
      | None \<Rightarrow> [])"

section \<open>Variable usages\<close>

record variable_usage =
  us_node :: variable_node
  us_type :: "gtype option"
  us_parent_type :: "gtype option"
  us_default_value :: location_default
  us_fragment_variable_definition :: "variable_definition_node option"

text \<open>\<open>VariableUsageVisitor.enter_variable\<close>\<close>

definition usage_of :: "'w type_info \<Rightarrow> fragment_definition_node option \<Rightarrow> variable_node \<Rightarrow> variable_usage" where
  "usage_of ti owner node =
     (case owner of
        Some fragment \<Rightarrow>
          \<lparr>us_node = node, us_type = get_input_type ti, us_parent_type = get_parent_input_type ti, us_default_value = no_default,
           us_fragment_variable_definition =
             (case map_of (ti_fragment_signatures_by_name ti) (name_value (frag_name fragment)) of
                Some signature \<Rightarrow> map_of (fs_variable_definitions signature) (name_value (variable_name node))
              | None \<Rightarrow> None)\<rparr>
      | None \<Rightarrow>
          \<lparr>us_node = node, us_type = get_input_type ti, us_parent_type = get_parent_input_type ti,
           us_default_value = get_default_value ti, us_fragment_variable_definition = None\<rparr>)"

text \<open>
  \<open>visit\<close> with \<open>VariableUsageVisitor\<close> in a \<open>TypeInfoVisitor\<close>: variable definitions are skipped, every other node is walked.
\<close>

fun usages_in ::
  "'w meta_fields \<Rightarrow> 'w schema \<Rightarrow> fragment_definition_node option \<Rightarrow> tree \<Rightarrow> 'w type_info
    \<Rightarrow> variable_usage list \<times> 'w type_info"
and usages_in_kids ::
  "'w meta_fields \<Rightarrow> 'w schema \<Rightarrow> fragment_definition_node option \<Rightarrow> kids \<Rightarrow> 'w type_info
    \<Rightarrow> variable_usage list \<times> 'w type_info" where
  "usages_in meta schema fragment (Tree node ks) ti =
     (let ti1 = TypeInfo_enter meta schema node ti in
      case node of
        VariableDefinitionN d \<Rightarrow> ([], TypeInfo_leave node ti1)
      | _ \<Rightarrow>
          (let (usages, ti2) = usages_in_kids meta schema fragment ks ti1 in
           ((case node of VariableN v \<Rightarrow> [usage_of ti1 fragment v] | _ \<Rightarrow> []) @ usages, TypeInfo_leave node ti2)))"
| "usages_in_kids meta schema fragment NoKids ti = ([], ti)"
| "usages_in_kids meta schema fragment (Kid in_tuple t ks) ti =
     (let (usages, ti1) = usages_in meta schema fragment t ti;
          (more, ti2) = usages_in_kids meta schema fragment ks ti1
      in (usages @ more, ti2))"

definition operation_usages :: "'w validation_context \<Rightarrow> 'w type_info \<Rightarrow> operation_definition_node \<Rightarrow> variable_usage list" where
  "operation_usages cx ti operation = fst (usages_in (vc_meta cx) (vc_schema cx) None (operation_tree operation) ti)"

definition fragment_usages :: "'w validation_context \<Rightarrow> 'w type_info \<Rightarrow> fragment_definition_node \<Rightarrow> variable_usage list" where
  "fragment_usages cx ti fragment = fst (usages_in (vc_meta cx) (vc_schema cx) (Some fragment) (fragment_tree fragment) ti)"

definition get_recursive_variable_usages ::
  "'w validation_context \<Rightarrow> 'w type_info \<Rightarrow> operation_definition_node \<Rightarrow> variable_usage list" where
  "get_recursive_variable_usages cx ti operation =
     operation_usages cx ti operation
     @ concat (map (fragment_usages cx ti) (get_recursively_referenced_fragments (vc_document cx) operation))"

end
