(* ===== verification/Cycle_Search.thy ===== *)
theory Cycle_Search
  imports Prelude
begin

text \<open>
  The search for cycles that the library writes down three times (\<open>NoFragmentCyclesRule\<close>,
  \<open>InputObjectNonNullCircularRefsValidator\<close> and its variant for default values): a depth-first search that goes on behind
  a cycle, marks every node once, and keeps the path to the node at hand with the position where each node of the path was
  entered.  The locale states what one exploration does; it is interpreted on the code's searches.
\<close>

section \<open>The state of a search\<close>

record 'e search =
  visited :: "pystr set"
  trail :: "'e list"
  trail_index :: "pystr \<rightharpoonup> nat"
  cycles :: "(pystr \<times> 'e list) list"

definition no_search :: "'e search" where
  "no_search = \<lparr>visited = {}, trail = [], trail_index = Map.empty, cycles = []\<rparr>"

text \<open>The loop over the edges of a node; \<open>None\<close> says that the fuel of the recursion has run out.\<close>

fun search_edges ::
  "('e \<Rightarrow> pystr) \<Rightarrow> (pystr \<Rightarrow> 'e search \<Rightarrow> 'e search option) \<Rightarrow> 'e list \<Rightarrow> 'e search \<Rightarrow> 'e search option" where
  "search_edges target explore [] s = Some s"
| "search_edges target explore (e # es) s =
     (let s1 = s\<lparr>trail := trail s @ [e]\<rparr> in
      case (case trail_index s (target e) of
          None \<Rightarrow> explore (target e) s1
        | Some i \<Rightarrow> Some (s1\<lparr>cycles := cycles s1 @ [(target e, drop i (trail s1))]\<rparr>)) of
        None \<Rightarrow> None
      | Some s2 \<Rightarrow> search_edges target explore es (s2\<lparr>trail := butlast (trail s2)\<rparr>))"

definition enter_node :: "pystr \<Rightarrow> 'e search \<Rightarrow> 'e search" where
  "enter_node v s = s\<lparr>visited := insert v (visited s), trail_index := (trail_index s)(v \<mapsto> length (trail s))\<rparr>"

definition leave_node_of :: "pystr \<Rightarrow> 'e search \<Rightarrow> 'e search" where
  "leave_node_of v s = s\<lparr>trail_index := (trail_index s)(v := None)\<rparr>"

lemma enter_node_parts [simp]:
  "visited (enter_node v s) = insert v (visited s)" "trail (enter_node v s) = trail s"
  "trail_index (enter_node v s) = (trail_index s)(v \<mapsto> length (trail s))" "cycles (enter_node v s) = cycles s"
  by (simp_all add: enter_node_def)

lemma leave_node_of_parts [simp]:
  "visited (leave_node_of v s) = visited s" "trail (leave_node_of v s) = trail s"
  "trail_index (leave_node_of v s) = (trail_index s)(v := None)" "cycles (leave_node_of v s) = cycles s"
  by (simp_all add: leave_node_of_def)

section \<open>Paths\<close>

text \<open>A path from a node along edges to a node.\<close>

inductive path_of :: "(pystr \<Rightarrow> 'e list) \<Rightarrow> ('e \<Rightarrow> pystr) \<Rightarrow> pystr \<Rightarrow> 'e list \<Rightarrow> pystr \<Rightarrow> bool"
  for edges target where
  path_empty: "path_of edges target v [] v"
| path_step: "path_of edges target v es w \<Longrightarrow> e \<in> set (edges w) \<Longrightarrow> path_of edges target v (es @ [e]) (target e)"

section \<open>The search\<close>

text \<open>
  \<open>edges v\<close> are the edges of a node in the order of the code.  \<open>explore n v\<close> is one call of the search with fuel \<open>n\<close>; only
  nodes without edges may be left out of the path while they are explored.
\<close>

locale cycle_search =
  fixes edges :: "pystr \<Rightarrow> 'e list" and target :: "'e \<Rightarrow> pystr" and nodes :: "pystr set"
    and explore :: "nat \<Rightarrow> pystr \<Rightarrow> 'e search \<Rightarrow> 'e search option"
  assumes finite_nodes: "finite nodes"
    and edges_inside: "v \<notin> nodes \<Longrightarrow> edges v = []"
    and explore_outside: "v \<notin> nodes \<Longrightarrow> explore n v s = Some s"
    and explore_0: "v \<in> nodes \<Longrightarrow> explore 0 v s = None"
    and explore_visited: "v \<in> nodes \<Longrightarrow> v \<in> visited s \<Longrightarrow> explore (Suc n) v s = Some s"
    and explore_new: "v \<in> nodes \<Longrightarrow> v \<notin> visited s \<Longrightarrow> trail_index s v = None \<Longrightarrow> explore (Suc n) v s =
      map_option (leave_node_of v) (search_edges target (explore n) (edges v) (enter_node v s))"
begin

definition successor :: "(pystr \<times> pystr) set" where
  "successor = {(v, target e) | v e. e \<in> set (edges v) \<and> target e \<in> nodes}"

text \<open>The nodes of the path were visited, and the path leads from each of them to the node at hand.\<close>

definition on_trail :: "pystr \<Rightarrow> 'e search \<Rightarrow> bool" where
  "on_trail v s \<longleftrightarrow> (\<forall>w i. trail_index s w = Some i \<longrightarrow>
     w \<in> visited s \<and> w \<in> nodes \<and> i \<le> length (trail s) \<and> path_of edges target w (drop i (trail s)) v)"

definition true_cycles :: "'e search \<Rightarrow> bool" where
  "true_cycles s \<longleftrightarrow> (\<forall>(v, es) \<in> set (cycles s). v \<in> nodes \<and> es \<noteq> [] \<and> path_of edges target v es v)"

text \<open>While no cycle was found, no path from a node that is done goes on for ever.\<close>

definition settled :: "'e search \<Rightarrow> bool" where
  "settled s \<longleftrightarrow> cycles s \<noteq> [] \<or> (\<forall>v \<in> visited s. trail_index s v = None \<longrightarrow> v \<in> Wellfounded.acc (successor\<inverse>))"

definition extends :: "'e search \<Rightarrow> 'e search \<Rightarrow> bool" where
  "extends s s' \<longleftrightarrow> visited s \<subseteq> visited s' \<and> trail s' = trail s \<and> trail_index s' = trail_index s
     \<and> (cycles s \<noteq> [] \<longrightarrow> cycles s' \<noteq> [])"

lemma extends_refl [simp]: "extends s s"
  by (simp add: extends_def)

lemma extends_trans: "extends s s' \<Longrightarrow> extends s' s'' \<Longrightarrow> extends s s''"
  by (auto simp: extends_def)

text \<open>What an exploration with some fuel does to a state with the node at the end of its path.\<close>

definition explores :: "(pystr \<Rightarrow> 'e search \<Rightarrow> 'e search option) \<Rightarrow> bool" where
  "explores f \<longleftrightarrow> (\<forall>v s s'. f v s = Some s' \<longrightarrow> on_trail v s \<longrightarrow> trail_index s v = None \<longrightarrow> true_cycles s \<longrightarrow> settled s \<longrightarrow>
     extends s s' \<and> true_cycles s' \<and> settled s' \<and> (v \<in> nodes \<longrightarrow> v \<in> visited s'))"

lemma edges_explored:
  assumes "explores f" and "on_trail v s" and "set es \<subseteq> set (edges v)" and "true_cycles s" and "settled s"
    and "search_edges target f es s = Some s'"
  shows "extends s s' \<and> true_cycles s' \<and> settled s'
    \<and> (cycles s' = [] \<longrightarrow> (\<forall>e \<in> set es. target e \<in> nodes \<longrightarrow> target e \<in> visited s' \<and> trail_index s' (target e) = None))"
  using assms(2-6)
proof (induction es arbitrary: s)
  case (Cons e es)
  let ?s1 = "s\<lparr>trail := trail s @ [e]\<rparr>"
  have here: "on_trail (target e) ?s1"
    using Cons.prems(1,2) by (auto simp: on_trail_def intro!: path_step le_SucI)
  show ?case
  proof (cases "trail_index s (target e)")
    case None
    with Cons.prems(5) obtain s2 where s2: "f (target e) ?s1 = Some s2"
      and rest: "search_edges target f es (s2\<lparr>trail := butlast (trail s2)\<rparr>) = Some s'"
      by (auto simp: Let_def split: option.splits)
    have "true_cycles ?s1" "settled ?s1" using Cons.prems(3,4) by (simp_all add: true_cycles_def settled_def)
    with assms(1) s2 here None have step: "extends ?s1 s2" "true_cycles s2" "settled s2"
      "target e \<in> nodes \<longrightarrow> target e \<in> visited s2"
      unfolding explores_def by (metis (no_types, lifting) search.select_convs(3) search.surjective search.update_convs(2))+
    let ?s3 = "s2\<lparr>trail := butlast (trail s2)\<rparr>"
    have ext: "extends s ?s3" using step(1) by (simp add: extends_def)
    have "on_trail v ?s3" "true_cycles ?s3" "settled ?s3"
      using Cons.prems(1) step ext by (auto simp: on_trail_def extends_def true_cycles_def settled_def)
    from Cons.IH [OF this(1) _ this(2,3) rest] Cons.prems(2)
    have IH: "extends ?s3 s'" "true_cycles s'" "settled s'"
      "cycles s' = [] \<longrightarrow> (\<forall>e \<in> set es. target e \<in> nodes \<longrightarrow> target e \<in> visited s' \<and> trail_index s' (target e) = None)"
      by auto
    have "target e \<in> nodes \<longrightarrow> target e \<in> visited s' \<and> trail_index s' (target e) = None"
      using IH(1) ext step(4) None by (auto simp: extends_def)
    with IH extends_trans [OF ext IH(1)] show ?thesis by auto
  next
    case (Some i)
    let ?s3 = "s\<lparr>cycles := cycles s @ [(target e, drop i (trail s @ [e]))]\<rparr>"
    have rest: "search_edges target f es ?s3 = Some s'"
      using Cons.prems(5) Some by (simp add: Let_def)
    from here Some have "target e \<in> nodes" "path_of edges target (target e) (drop i (trail s @ [e])) (target e)"
      by (simp_all add: on_trail_def)
    moreover have "i \<le> length (trail s)" using Cons.prems(1) Some by (simp add: on_trail_def)
    ultimately have "true_cycles ?s3" using Cons.prems(3) by (auto simp: true_cycles_def)
    moreover have "on_trail v ?s3" "settled ?s3" using Cons.prems(1) by (simp_all add: on_trail_def settled_def)
    ultimately have IH: "extends ?s3 s'" "true_cycles s'" "settled s'"
      using Cons.IH [OF _ _ _ _ rest] Cons.prems(2) by auto
    then show ?thesis by (auto simp: extends_def)
  qed
qed auto

lemma explore_explores: "explores (explore n)"
proof (induction n)
  case 0
  show ?case unfolding explores_def
    by (metis explore_0 explore_outside extends_refl option.distinct(1) option.sel)
next
  case (Suc n)
  show ?case unfolding explores_def
  proof (intro allI impI)
    fix v s s'
    assume run: "explore (Suc n) v s = Some s'" and s: "on_trail v s" "trail_index s v = None" "true_cycles s" "settled s"
    consider "v \<notin> nodes" | "v \<in> nodes" "v \<in> visited s" | "v \<in> nodes" "v \<notin> visited s" by blast
    then show "extends s s' \<and> true_cycles s' \<and> settled s' \<and> (v \<in> nodes \<longrightarrow> v \<in> visited s')"
    proof cases
      case 3
      let ?s1 = "enter_node v s"
      from run explore_new [OF 3 s(2)] obtain s2
        where s2: "search_edges target (explore n) (edges v) ?s1 = Some s2" and s': "s' = leave_node_of v s2" by auto
      have "on_trail v ?s1" using s(1) 3 by (auto simp: on_trail_def path_empty)
      moreover have "true_cycles ?s1" "settled ?s1" using s(3,4) by (auto simp: true_cycles_def settled_def)
      ultimately have step: "extends ?s1 s2" "true_cycles s2" "settled s2" and succs:
        "cycles s2 = [] \<longrightarrow> (\<forall>e \<in> set (edges v). target e \<in> nodes \<longrightarrow> target e \<in> visited s2 \<and> trail_index s2 (target e) = None)"
        using edges_explored [OF Suc.IH _ subset_refl _ _ s2] by blast+
      have "v \<in> Wellfounded.acc (successor\<inverse>)" if "cycles s2 = []"
        by (rule accI) (use succs step(3) that in \<open>auto simp: successor_def settled_def\<close>)
      then have "settled s'" using step(3) by (auto simp: settled_def s')
      moreover have "true_cycles s'" "extends s s'" "v \<in> visited s'"
        using step(1,2) s(2) by (auto simp: true_cycles_def extends_def s')
      ultimately show ?thesis by simp
    qed (use run s explore_outside explore_visited in auto)
  qed
qed

text \<open>Every call of the search marks a node, so the number of unmarked nodes bounds the depth of the recursion.\<close>

definition unmarked :: "'e search \<Rightarrow> nat" where
  "unmarked s = card (nodes - visited s)"

lemma unmarked_mono: "visited s \<subseteq> visited s' \<Longrightarrow> unmarked s' \<le> unmarked s"
  unfolding unmarked_def using finite_nodes by (intro card_mono) auto

definition returns :: "(pystr \<Rightarrow> 'e search \<Rightarrow> 'e search option) \<Rightarrow> nat \<Rightarrow> bool" where
  "returns f n \<longleftrightarrow> (\<forall>v s. unmarked s < n \<longrightarrow> trail_index s v = None \<longrightarrow>
     (\<exists>s'. f v s = Some s' \<and> visited s \<subseteq> visited s' \<and> trail_index s' = trail_index s))"

lemma edges_return:
  assumes "returns f n" and "unmarked s < n"
  shows "\<exists>s'. search_edges target f es s = Some s' \<and> visited s \<subseteq> visited s' \<and> trail_index s' = trail_index s"
  using assms(2)
proof (induction es arbitrary: s)
  case (Cons e es)
  let ?s1 = "s\<lparr>trail := trail s @ [e]\<rparr>"
  obtain s2 where s2: "(case trail_index s (target e) of
      None \<Rightarrow> f (target e) ?s1
    | Some i \<Rightarrow> Some (?s1\<lparr>cycles := cycles ?s1 @ [(target e, drop i (trail ?s1))]\<rparr>)) = Some s2"
    and step: "visited s \<subseteq> visited s2" "trail_index s2 = trail_index s"
  proof (cases "trail_index s (target e)")
    case None
    moreover have "unmarked ?s1 < n" using Cons.prems by (simp add: unmarked_def)
    ultimately obtain s2 where "f (target e) ?s1 = Some s2" "visited s \<subseteq> visited s2" "trail_index s2 = trail_index s"
      using assms(1) unfolding returns_def
      by (metis (no_types, lifting) search.select_convs(1,3) search.surjective search.update_convs(2))
    with None that show ?thesis by simp
  qed (use that in auto)
  have "unmarked (s2\<lparr>trail := butlast (trail s2)\<rparr>) < n"
    using unmarked_mono [OF step(1)] Cons.prems by (simp add: unmarked_def)
  from Cons.IH [OF this] obtain s' where "search_edges target f es (s2\<lparr>trail := butlast (trail s2)\<rparr>) = Some s'"
    "visited s2 \<subseteq> visited s'" "trail_index s' = trail_index s2" by auto
  moreover from this(1) have "search_edges target f (e # es) s = Some s'"
    unfolding search_edges.simps Let_def s2 [unfolded Let_def] option.case by simp
  ultimately show ?case using step by auto
qed auto

lemma explore_returns: "returns (explore n) n"
proof (induction n)
  case (Suc n)
  show ?case unfolding returns_def
  proof (intro allI impI)
    fix v s
    assume few: "unmarked s < Suc n" and none: "trail_index s v = None"
    consider "v \<notin> nodes" | "v \<in> nodes" "v \<in> visited s" | "v \<in> nodes" "v \<notin> visited s" by blast
    then show "\<exists>s'. explore (Suc n) v s = Some s' \<and> visited s \<subseteq> visited s' \<and> trail_index s' = trail_index s"
    proof cases
      case 3
      have "nodes - visited (enter_node v s) = nodes - visited s - {v}" by auto
      moreover have "v \<in> nodes - visited s" using 3 by simp
      ultimately have "Suc (unmarked (enter_node v s)) = unmarked s"
        unfolding unmarked_def using finite_nodes by (metis card_Suc_Diff1 finite_Diff)
      then have "unmarked (enter_node v s) < n" using few by simp
      from edges_return [OF Suc.IH this, of "edges v"] explore_new [OF 3 none, of n] none
      show ?thesis by (auto simp: fun_upd_idem)
    qed (use explore_outside explore_visited in auto)
  qed
qed (simp add: returns_def)

section \<open>Searching from every node\<close>

definition search_all :: "nat \<Rightarrow> pystr list \<Rightarrow> 'e search \<Rightarrow> 'e search option" where
  "search_all n names s = fold (\<lambda>v r. Option.bind r (explore n v)) names (Some s)"

lemma search_all_simps:
  "search_all n [] s = Some s"
  "search_all n (v # names) s = (case explore n v s of None \<Rightarrow> None | Some s' \<Rightarrow> search_all n names s')"
proof -
  have none: "fold (\<lambda>v r. Option.bind r (explore n v)) names None = None" for names by (induction names) auto
  show "search_all n [] s = Some s" by (simp add: search_all_def)
  show "search_all n (v # names) s = (case explore n v s of None \<Rightarrow> None | Some s' \<Rightarrow> search_all n names s')"
    by (simp add: search_all_def none split: option.split)
qed

lemma search_all_explores:
  assumes "search_all n names s = Some s'" and "trail_index s = Map.empty" and "true_cycles s" and "settled s"
  shows "trail_index s' = Map.empty \<and> true_cycles s' \<and> settled s' \<and> visited s \<subseteq> visited s' \<and> set names \<inter> nodes \<subseteq> visited s'
    \<and> (cycles s \<noteq> [] \<longrightarrow> cycles s' \<noteq> [])"
  using assms
proof (induction names arbitrary: s)
  case (Cons v names)
  from Cons.prems(1) obtain s1 where s1: "explore n v s = Some s1" and rest: "search_all n names s1 = Some s'"
    by (auto simp: search_all_simps split: option.splits)
  have "on_trail v s" by (simp add: on_trail_def Cons.prems(2))
  with explore_explores [of n] s1 Cons.prems(2-4) have "extends s s1" "true_cycles s1" "settled s1" "v \<in> nodes \<longrightarrow> v \<in> visited s1"
    unfolding explores_def by auto
  with Cons.IH [OF rest] Cons.prems(2) show ?case by (auto simp: extends_def)
qed (simp add: search_all_simps)

lemma search_all_returns:
  assumes "card nodes < n" and "trail_index s = Map.empty"
  shows "\<exists>s'. search_all n names s = Some s'"
  using assms(2)
proof (induction names arbitrary: s)
  case (Cons v names)
  have "unmarked s \<le> card nodes" unfolding unmarked_def using finite_nodes by (intro card_mono) auto
  with assms(1) explore_returns [of n] Cons.prems obtain s1 where "explore n v s = Some s1" "trail_index s1 = Map.empty"
    unfolding returns_def by (metis le_less_trans)
  with Cons.IH [of s1] show ?case by (simp add: search_all_simps)
qed (simp add: search_all_simps)

lemma path_in_successor:
  assumes "path_of edges target v es w" and "w \<in> nodes"
  shows "(v, w) \<in> successor\<^sup>*" and "es \<noteq> [] \<Longrightarrow> (v, w) \<in> successor\<^sup>+"
proof -
  have steps: "(v, w) \<in> successor\<^sup>* \<and> (es \<noteq> [] \<longrightarrow> (v, w) \<in> successor\<^sup>+)"
    using assms
  proof (induction rule: path_of.induct)
    case (path_step v es w e)
    have "w \<in> nodes" using path_step.hyps(2) edges_inside by force
    moreover have "(w, target e) \<in> successor" using path_step.hyps(2) path_step.prems by (auto simp: successor_def)
    ultimately show ?case using path_step.IH by (meson rtrancl_into_trancl1 trancl_into_rtrancl)
  qed simp
  then show "(v, w) \<in> successor\<^sup>*" and "es \<noteq> [] \<Longrightarrow> (v, w) \<in> successor\<^sup>+" by auto
qed

lemma settled_acyclic:
  assumes "settled s" and "cycles s = []" and "trail_index s = Map.empty" and "nodes \<subseteq> visited s"
  shows "acyclic successor"
proof -
  have "v \<in> Wellfounded.acc (successor\<inverse>)" for v
  proof (cases "v \<in> nodes")
    case True
    with assms show ?thesis by (auto simp: settled_def)
  next
    case False
    then have "(w, v) \<notin> successor\<inverse>" for w using edges_inside by (auto simp: successor_def)
    show ?thesis by (rule accI) (use \<open>\<And>w. (w, v) \<notin> successor\<inverse>\<close> in blast)
  qed
  then have "wf (successor\<inverse>)" using acc_wfI by blast
  then show ?thesis using wf_acyclic acyclic_converse by blast
qed

text \<open>The search finds a cycle exactly when there is one, and what it reports are cycles.\<close>

lemma search_exact:
  assumes "search_all n names no_search = Some s" and "nodes \<subseteq> set names"
  shows "cycles s = [] \<longleftrightarrow> acyclic successor" and "true_cycles s"
proof -
  have "trail_index no_search = Map.empty" "true_cycles no_search" "settled no_search"
    by (simp_all add: no_search_def true_cycles_def settled_def)
  note found = search_all_explores [OF assms(1) this]
  then have s: "trail_index s = Map.empty" "true_cycles s" "settled s" by blast+
  have seen: "nodes \<subseteq> visited s" using found assms(2) by blast
  show "true_cycles s" by (fact s(2))
  show "cycles s = [] \<longleftrightarrow> acyclic successor"
  proof
    assume "acyclic successor"
    have "(v, v) \<in> successor\<^sup>+" if "(v, es) \<in> set (cycles s)" for v es
      using s(2) that path_in_successor(2) [of v es v] unfolding true_cycles_def by blast
    with \<open>acyclic successor\<close> have "(v, es) \<notin> set (cycles s)" for v es by (meson acyclic_def)
    then show "cycles s = []" by (cases "cycles s") force+
  qed (use settled_acyclic [OF s(3) _ s(1) seen] in blast)
qed

text \<open>Without cycles the nodes have ranks that get smaller along edges.\<close>

definition rank_of :: "pystr \<Rightarrow> nat" where
  "rank_of v = card {w. (v, w) \<in> successor\<^sup>+}"

lemma rank_decreases:
  assumes "acyclic successor" and "(v, w) \<in> successor"
  shows "rank_of w < rank_of v"
proof -
  have "successor\<^sup>+ `` {v} \<subseteq> nodes" by (auto simp: successor_def elim: trancl.cases)
  then have "finite {u. (v, u) \<in> successor\<^sup>+}" using finite_nodes by (auto intro: finite_subset)
  moreover have "{u. (w, u) \<in> successor\<^sup>+} \<subset> {u. (v, u) \<in> successor\<^sup>+}"
    using assms by (auto simp: acyclic_def intro: trancl_into_trancl2)
  ultimately show ?thesis unfolding rank_of_def by (rule psubset_card_mono)
qed

end

end
