(* ===== verification/Validation_Rules.thy ===== *)
theory Validation_Rules
  imports Validation_Context Cycle_Search
begin

text \<open>
  The rules of validation (\<open>validation/rules\<close>).  A rule is an object with its attributes; it is entered with and left with
  a node, and may report errors and skip the nodes below.  Reports have the nodes of the error; the names of
  the document are left out of their messages.
\<close>

type_synonym node_report = "pystr \<times> ast_node list"

datatype rule =
    ExecutableDefinitionsRule
  | KnownOperationTypesRule
  | UniqueOperationNamesRule "(pystr \<times> name_node) list"
  | LoneAnonymousOperationRule nat
  | SingleFieldSubscriptionsRule
  | KnownTypeNamesRule
  | FragmentsOnCompositeTypesRule
  | VariablesAreInputTypesRule
  | ScalarLeafsRule
  | FieldsOnCorrectTypeRule
  | UniqueFragmentNamesRule "(pystr \<times> name_node) list"
  | KnownFragmentNamesRule
  | NoUnusedFragmentsRule "operation_definition_node list" "fragment_definition_node list"
  | PossibleFragmentSpreadsRule
  | NoFragmentCyclesRule "selection_node search"
  | UniqueVariableNamesRule
  | NoUndefinedVariablesRule "pystr set"
  | NoUnusedVariablesRule
  | KnownDirectivesRule
  | UniqueDirectivesPerLocationRule "(pystr \<times> directive_node) list" "(pystr \<times> (pystr \<times> directive_node) list) list"
      "(pystr \<times> (pystr \<times> directive_node) list) list"
  | DeferStreamDirectiveOnRootField
  | DeferStreamDirectiveOnValidOperationsRule
  | DeferStreamDirectiveLabel "(pystr \<times> directive_node) list"
  | StreamDirectiveOnListField
  | KnownArgumentNamesRule
  | UniqueArgumentNamesRule
  | ValuesOfCorrectTypeRule
  | ProvidedRequiredArgumentsRule
  | VariablesInAllowedPositionRule "(pystr \<times> variable_definition_node) list"
  | UniqueInputFieldNamesRule "(pystr \<times> name_node) list list" "(pystr \<times> name_node) list"
  | MaxIntrospectionDepthRule

text \<open>What a method does: the reports, whether it returns \<open>SKIP\<close>, and the object behind.\<close>

record outcome =
  oc_reports :: "node_report list"
  oc_skip :: bool
  oc_rule :: rule

definition quiet :: "rule \<Rightarrow> py_error + outcome" where
  "quiet r = Inr \<lparr>oc_reports = [], oc_skip = False, oc_rule = r\<rparr>"

definition skipping :: "rule \<Rightarrow> py_error + outcome" where
  "skipping r = Inr \<lparr>oc_reports = [], oc_skip = True, oc_rule = r\<rparr>"

definition reporting :: "node_report list \<Rightarrow> rule \<Rightarrow> py_error + outcome" where
  "reporting es r = Inr \<lparr>oc_reports = es, oc_skip = False, oc_rule = r\<rparr>"

definition reporting_skip :: "node_report list \<Rightarrow> rule \<Rightarrow> py_error + outcome" where
  "reporting_skip es r = Inr \<lparr>oc_reports = es, oc_skip = True, oc_rule = r\<rparr>"

definition error_if :: "bool \<Rightarrow> string \<Rightarrow> ast_node list \<Rightarrow> node_report list" where
  "error_if b message nodes = (if b then [(str message, nodes)] else [])"

text \<open>\<open>group_by\<close> (\<open>pyutils/group_by.py\<close>)\<close>

definition group_by :: "('a \<Rightarrow> pystr) \<Rightarrow> 'a list \<Rightarrow> (pystr \<times> 'a list) list" where
  "group_by key items =
     fold (\<lambda>item result. dict_set (key item)
       ((case map_of result (key item) of Some xs \<Rightarrow> xs | None \<Rightarrow> []) @ [item]) result) items []"

definition directives_of :: "directive_node list option \<Rightarrow> directive_node list" where
  "directives_of directives = (case directives of Some ds \<Rightarrow> ds | None \<Rightarrow> [])"

section \<open>Definitions and names\<close>

fun is_executable :: "definition_node \<Rightarrow> bool" where
  "is_executable (OperationDefinition d) = True"
| "is_executable (FragmentDefinition d) = True"
| "is_executable _ = False"

definition non_executable_reports :: "document_node \<Rightarrow> node_report list" where
  "non_executable_reports document =
     map (\<lambda>d. (str ''The definition is not executable.'', [DefinitionN d]))
       (filter (\<lambda>d. \<not> is_executable d) (document_definitions document))"

definition known_operation_type_reports :: "'w validation_context \<Rightarrow> operation_definition_node \<Rightarrow> node_report list" where
  "known_operation_type_reports cx d =
     error_if (get_root_type (vc_schema cx) (op_operation d) = None) ''The operation is not supported by the schema.'' [OperationN d]"

text \<open>The names that were seen, and the report when one is met again.\<close>

definition see_name :: "string \<Rightarrow> (pystr \<times> name_node) list \<Rightarrow> name_node \<Rightarrow> node_report list \<times> (pystr \<times> name_node) list" where
  "see_name message known name =
     (case map_of known (name_value name) of
        Some other \<Rightarrow> ([(str message, [NameN other, NameN name])], known)
      | None \<Rightarrow> ([], dict_set (name_value name) name known))"

fun is_operation :: "definition_node \<Rightarrow> bool" where
  "is_operation (OperationDefinition d) = True"
| "is_operation _ = False"

definition operation_count :: "document_node \<Rightarrow> nat" where
  "operation_count document = length (filter is_operation (document_definitions document))"

definition duplicate_reports :: "string \<Rightarrow> (pystr \<times> name_node list) list \<Rightarrow> node_report list" where
  "duplicate_reports message groups =
     map (\<lambda>(name, nodes). (str message, map NameN nodes)) (filter (\<lambda>(name, nodes). length nodes > 1) groups)"

definition unique_variable_reports :: "operation_definition_node \<Rightarrow> node_report list" where
  "unique_variable_reports d =
     duplicate_reports ''There can be only one variable with the name.''
       (group_by name_value (map (\<lambda>v. variable_name (vardef_variable v))
          (case op_variable_definitions d of Some ds \<Rightarrow> ds | None \<Rightarrow> [])))"

definition unique_argument_reports :: "argument_node list option \<Rightarrow> node_report list" where
  "unique_argument_reports arguments =
     duplicate_reports ''There can be only one argument with the name.''
       (group_by name_value (map argument_name (case arguments of Some as \<Rightarrow> as | None \<Rightarrow> [])))"

section \<open>Types\<close>

text \<open>\<open>standard_type_names\<close>; the ancestors of a method come with the parent first, tuples as \<open>None\<close>.\<close>

definition standard_type_names :: "pystr list" where
  "standard_type_names = map str
     [''Int'', ''Float'', ''String'', ''Boolean'', ''ID'', ''__Schema'', ''__Directive'', ''__DirectiveLocation'', ''__Type'',
      ''__Field'', ''__InputValue'', ''__EnumValue'', ''__TypeKind'']"

fun is_type_definition :: "definition_node \<Rightarrow> bool" where
  "is_type_definition (ScalarTypeDefinitionNode name description directives loc) = True"
| "is_type_definition (ObjectTypeDefinitionNode name description directives interfaces fs loc) = True"
| "is_type_definition (InterfaceTypeDefinitionNode name description directives interfaces fs loc) = True"
| "is_type_definition (UnionTypeDefinitionNode name description directives types loc) = True"
| "is_type_definition (EnumTypeDefinitionNode name description directives vs loc) = True"
| "is_type_definition (InputObjectTypeDefinitionNode name description directives fs loc) = True"
| "is_type_definition _ = False"

fun is_type_extension :: "definition_node \<Rightarrow> bool" where
  "is_type_extension (ScalarTypeExtensionNode name directives loc) = True"
| "is_type_extension (ObjectTypeExtensionNode name directives interfaces fs loc) = True"
| "is_type_extension (InterfaceTypeExtensionNode name directives interfaces fs loc) = True"
| "is_type_extension (UnionTypeExtensionNode name directives types loc) = True"
| "is_type_extension (EnumTypeExtensionNode name directives vs loc) = True"
| "is_type_extension (InputObjectTypeExtensionNode name directives fs loc) = True"
| "is_type_extension _ = False"

definition defined_types :: "document_node \<Rightarrow> pystr set" where
  "defined_types document =
     name_value ` the ` definition_name ` set (filter is_type_definition (document_definitions document))"

text \<open>\<open>is_sdl_node\<close>: the nodes of type system definitions and extensions are the \<open>DefinitionN\<close>.\<close>

fun is_sdl_node :: "ast_node option \<Rightarrow> bool" where
  "is_sdl_node (Some (DefinitionN d)) = True"
| "is_sdl_node _ = False"

definition known_type_reports :: "'w validation_context \<Rightarrow> ast_node option list \<Rightarrow> named_type_node \<Rightarrow> node_report list" where
  "known_type_reports cx parents t =
     (let type_name = name_value (named_type_name t) in
      if get_type (vc_schema cx) type_name = None \<and> type_name \<notin> defined_types (vc_document cx) then
        let ancestors = rev (tl parents);
            definition_node = (if length ancestors > 2 then ancestors ! 2 else hd parents)
        in error_if (\<not> (is_sdl_node definition_node \<and> type_name \<in> set standard_type_names)) ''Unknown type.'' [NamedTypeN t]
      else [])"

definition composite_condition_reports :: "'w validation_context \<Rightarrow> named_type_node \<Rightarrow> node_report list" where
  "composite_condition_reports cx t =
     (case get_type (vc_schema cx) (name_value (named_type_name t)) of
        Some nt \<Rightarrow> error_if (\<not> is_composite_named nt) ''Fragment cannot condition on non composite type.'' [NamedTypeN t]
      | None \<Rightarrow> [])"

definition variable_type_reports :: "'w validation_context \<Rightarrow> variable_definition_node \<Rightarrow> node_report list" where
  "variable_type_reports cx d =
     (case type_from_ast (vc_types cx) (vardef_type d) of
        Some t \<Rightarrow> error_if (\<not> is_input_type (vc_types cx) t) ''Variable cannot be of non-input type.'' [VariableDefinitionN d]
      | None \<Rightarrow> [])"

definition is_leaf_name :: "'w types \<Rightarrow> pystr \<Rightarrow> bool" where
  "is_leaf_name types name = (case types name of Some t \<Rightarrow> is_leaf_named t | None \<Rightarrow> False)"

definition scalar_leaf_reports :: "'w validation_context \<Rightarrow> 'w type_info \<Rightarrow> selection_node \<Rightarrow> node_report list" where
  "scalar_leaf_reports cx ti s =
     (case get_type_of ti of
        None \<Rightarrow> []
      | Some t \<Rightarrow>
          if is_leaf_name (vc_types cx) (get_named_type t) then
            (case field_selection_set s of
               Some ss \<Rightarrow> [(str ''Field must not have a selection since its type has no subfields.'', [SelectionSetN ss])]
             | None \<Rightarrow> [])
          else (case field_selection_set s of
              None \<Rightarrow> [(str ''Field must have a selection of subfields.'', [SelectionN s])]
            | Some ss \<Rightarrow> error_if (selections ss = []) ''Field must have at least one field selected.'' [SelectionN s]))"

definition field_reports :: "'w type_info \<Rightarrow> selection_node \<Rightarrow> node_report list" where
  "field_reports ti s =
     error_if (get_parent_type ti \<noteq> None \<and> get_field_def_of ti = None) ''Cannot query field on type.'' [SelectionN s]"

section \<open>Fragments\<close>

definition known_fragment_reports :: "'w validation_context \<Rightarrow> selection_node \<Rightarrow> node_report list" where
  "known_fragment_reports cx s =
     error_if (get_fragment (vc_document cx) (name_value (spread_name s)) = None) ''Unknown fragment.'' [NameN (spread_name s)]"

definition unused_fragment_reports ::
  "'w validation_context \<Rightarrow> operation_definition_node list \<Rightarrow> fragment_definition_node list \<Rightarrow> node_report list" where
  "unused_fragment_reports cx operation_defs fragment_defs =
     (let fragment_names_used = set (concat (map (\<lambda>operation.
            map (\<lambda>f. name_value (frag_name f)) (get_recursively_referenced_fragments (vc_document cx) operation)) operation_defs))
      in map (\<lambda>f. (str ''Fragment is never used.'', [FragmentN f]))
           (filter (\<lambda>f. name_value (frag_name f) \<notin> fragment_names_used) fragment_defs))"

definition composite_type :: "'w types \<Rightarrow> pystr \<Rightarrow> 'w named_type option" where
  "composite_type types name = (case types name of Some t \<Rightarrow> if is_composite_named t then Some t else None | None \<Rightarrow> None)"

definition overlap_reports ::
  "'w validation_context \<Rightarrow> 'w named_type option \<Rightarrow> pystr option \<Rightarrow> selection_node \<Rightarrow> node_report list" where
  "overlap_reports cx frag_type parent_type s =
     (case (frag_type, Option.bind parent_type (composite_type (vc_types cx))) of
        (Some a, Some b) \<Rightarrow> error_if (\<not> do_types_overlap (vc_schema cx) a b) ''Fragment cannot be spread here.'' [SelectionN s]
      | _ \<Rightarrow> [])"

definition inline_fragment_reports :: "'w validation_context \<Rightarrow> 'w type_info \<Rightarrow> selection_node \<Rightarrow> node_report list" where
  "inline_fragment_reports cx ti s =
     overlap_reports cx
       (case get_type_of ti of Some (GNamed name) \<Rightarrow> composite_type (vc_types cx) name | _ \<Rightarrow> None) (get_parent_type ti) s"

definition get_fragment_type :: "'w validation_context \<Rightarrow> pystr \<Rightarrow> 'w named_type option" where
  "get_fragment_type cx name =
     (case get_fragment (vc_document cx) name of
        Some fragment \<Rightarrow> composite_type (vc_types cx) (name_value (named_type_name (frag_type_condition fragment)))
      | None \<Rightarrow> None)"

definition spread_reports :: "'w validation_context \<Rightarrow> 'w type_info \<Rightarrow> selection_node \<Rightarrow> node_report list" where
  "spread_reports cx ti s = overlap_reports cx (get_fragment_type cx (name_value (spread_name s))) (get_parent_type ti) s"

text \<open>\<open>detect_cycle_recursive\<close>; the fuel bounds the depth of the recursion.\<close>

fun detect_cycle_recursive ::
  "nat \<Rightarrow> document_node \<Rightarrow> fragment_definition_node \<Rightarrow> selection_node search \<Rightarrow> selection_node search option" where
  "detect_cycle_recursive 0 document fragment s = None"
| "detect_cycle_recursive (Suc n) document fragment s =
     (let fragment_name = name_value (frag_name fragment) in
      if fragment_name \<in> visited s then Some s
      else
        let s = s\<lparr>visited := insert fragment_name (visited s)\<rparr>;
            spread_nodes = get_fragment_spreads (frag_selection_set fragment)
        in if spread_nodes = [] then Some s
           else map_option (leave_node_of fragment_name)
             (search_edges (\<lambda>spread. name_value (spread_name spread))
               (\<lambda>spread_name s. case get_fragment document spread_name of
                    Some spread_fragment \<Rightarrow> detect_cycle_recursive n document spread_fragment s
                  | None \<Rightarrow> Some s)
               spread_nodes (s\<lparr>trail_index := (trail_index s)(fragment_name \<mapsto> length (trail s))\<rparr>)))"

definition cycle_outcome :: "'w validation_context \<Rightarrow> fragment_definition_node \<Rightarrow> selection_node search \<Rightarrow> py_error + outcome" where
  "cycle_outcome cx fragment s =
     (case detect_cycle_recursive (length (document_definitions (vc_document cx)) + 2) (vc_document cx) fragment s of
        None \<Rightarrow> Inl OutOfFuel
      | Some s' \<Rightarrow>
          reporting_skip (map (\<lambda>(name, path). (str ''Cannot spread fragment within itself.'', map SelectionN path))
              (drop (length (cycles s)) (cycles s')))
            (NoFragmentCyclesRule s'))"

section \<open>Variables\<close>

definition undefined_variable_reports ::
  "'w validation_context \<Rightarrow> 'w type_info \<Rightarrow> pystr set \<Rightarrow> operation_definition_node \<Rightarrow> node_report list" where
  "undefined_variable_reports cx ti defined operation =
     map (\<lambda>u. (str ''Variable is not defined.'', [VariableN (us_node u), OperationN operation]))
       (filter (\<lambda>u. us_fragment_variable_definition u = None \<and> name_value (variable_name (us_node u)) \<notin> defined)
         (get_recursive_variable_usages cx ti operation))"

definition unused_reports :: "pystr set \<Rightarrow> variable_definition_node list option \<Rightarrow> node_report list" where
  "unused_reports used definitions =
     map (\<lambda>d. (str ''Variable is never used.'', [VariableDefinitionN d]))
       (filter (\<lambda>d. name_value (variable_name (vardef_variable d)) \<notin> used)
         (case definitions of Some ds \<Rightarrow> ds | None \<Rightarrow> []))"

definition usage_name :: "variable_usage \<Rightarrow> pystr" where
  "usage_name u = name_value (variable_name (us_node u))"

definition unused_argument_reports :: "'w validation_context \<Rightarrow> 'w type_info \<Rightarrow> fragment_definition_node \<Rightarrow> node_report list" where
  "unused_argument_reports cx ti fragment =
     unused_reports (usage_name ` set (fragment_usages cx ti fragment)) (frag_variable_definitions fragment)"

definition unused_variable_reports :: "'w validation_context \<Rightarrow> 'w type_info \<Rightarrow> operation_definition_node \<Rightarrow> node_report list" where
  "unused_variable_reports cx ti operation =
     unused_reports
       (usage_name ` set (filter (\<lambda>u. us_fragment_variable_definition u = None) (get_recursive_variable_usages cx ti operation)))
       (op_variable_definitions operation)"

definition allowed_variable_usage ::
  "'w schema \<Rightarrow> gtype \<Rightarrow> value_node option \<Rightarrow> gtype \<Rightarrow> location_default \<Rightarrow> bool" where
  "allowed_variable_usage schema var_type var_default_value location_type location_default_value =
     (case location_type of
        GNonNull nullable_location_type \<Rightarrow>
          if \<not> is_non_null_type var_type then
            ((case var_default_value of Some (NullValueNode loc) \<Rightarrow> False | Some v \<Rightarrow> True | None \<Rightarrow> False)
               \<or> location_default_value \<noteq> no_default)
            \<and> is_type_sub_type_of schema var_type nullable_location_type
          else is_type_sub_type_of schema var_type location_type
      | _ \<Rightarrow> is_type_sub_type_of schema var_type location_type)"

definition is_one_of_type :: "'w types \<Rightarrow> gtype option \<Rightarrow> bool" where
  "is_one_of_type types t =
     (case t of Some (GNamed name) \<Rightarrow> (case types name of Some (InputObjectType io) \<Rightarrow> io_is_one_of io | _ \<Rightarrow> False) | _ \<Rightarrow> False)"

definition position_reports ::
  "'w validation_context \<Rightarrow> (pystr \<times> variable_definition_node) list \<Rightarrow> variable_usage \<Rightarrow> node_report list" where
  "position_reports cx var_def_map u =
     (case (case us_fragment_variable_definition u of Some d \<Rightarrow> Some d | None \<Rightarrow> map_of var_def_map (usage_name u), us_type u) of
        (Some var_def, Some t) \<Rightarrow>
          (let var_type = type_from_ast (vc_types cx) (vardef_type var_def);
               nodes = [VariableDefinitionN var_def, VariableN (us_node u)]
           in error_if (case var_type of
                    Some vt \<Rightarrow> \<not> allowed_variable_usage (vc_schema cx) vt (vardef_default_value var_def) t (us_default_value u)
                  | None \<Rightarrow> False)
                ''Variable used in position expecting another type.'' nodes
              @ error_if (is_one_of_type (vc_types cx) (us_parent_type u)
                  \<and> (case var_type of Some vt \<Rightarrow> \<not> is_non_null_type vt | None \<Rightarrow> False))
                ''Variable must be non-nullable to be used for OneOf Input Object.'' nodes)
      | _ \<Rightarrow> [])"

section \<open>Arguments and values\<close>

text \<open>The names of the arguments of a directive: of the schema, or of the last definition in the document.\<close>

definition directive_args :: "'w validation_context \<Rightarrow> (pystr \<times> pystr list) list" where
  "directive_args cx =
     fold (\<lambda>d m. case d of
         DirectiveDefinitionNode name locations description arguments directives repeatable loc \<Rightarrow>
           dict_set (name_value name)
             (map (\<lambda>a. name_value (input_name a)) (case arguments of Some as \<Rightarrow> as | None \<Rightarrow> [])) m
       | _ \<Rightarrow> m) (document_definitions (vc_document cx))
       (fold (\<lambda>d. dict_set (dir_name d) (map fst (dir_args d))) (schema_directives (vc_schema cx)) [])"

definition known_directive_argument_reports :: "'w validation_context \<Rightarrow> directive_node \<Rightarrow> node_report list" where
  "known_directive_argument_reports cx d =
     (case map_of (directive_args cx) (name_value (directive_name d)) of
        None \<Rightarrow> []
      | Some known_args \<Rightarrow>
          map (\<lambda>a. (str ''Unknown argument on directive.'', [ArgumentN a]))
            (filter (\<lambda>a. name_value (argument_name a) \<notin> set known_args)
              (case directive_arguments d of Some as \<Rightarrow> as | None \<Rightarrow> [])))"

definition known_argument_reports :: "'w type_info \<Rightarrow> argument_node \<Rightarrow> node_report list" where
  "known_argument_reports ti a =
     error_if (ti_argument ti = None \<and> get_field_def_of ti \<noteq> None \<and> get_parent_type ti \<noteq> None)
       ''Unknown argument on field.'' [ArgumentN a]"

definition known_fragment_argument_reports :: "'w type_info \<Rightarrow> fragment_argument_node \<Rightarrow> node_report list" where
  "known_fragment_argument_reports ti a =
     (case ti_fragment_signature ti of
        Some signature \<Rightarrow>
          error_if (map_of (fs_variable_definitions signature) (name_value (fragment_argument_name a)) = None)
            ''Unknown argument on fragment.'' [FragmentArgumentN a]
      | None \<Rightarrow> [])"

fun is_required_argument_type :: "type_node \<Rightarrow> bool" where
  "is_required_argument_type (NonNullTypeNode t loc) = True"
| "is_required_argument_type _ = False"

text \<open>\<open>required_args_map\<close>: the names of the required arguments.\<close>

definition required_directive_args :: "'w validation_context \<Rightarrow> (pystr \<times> pystr list) list" where
  "required_directive_args cx =
     fold (\<lambda>d m. case d of
         DirectiveDefinitionNode name locations description arguments directives repeatable loc \<Rightarrow>
           dict_set (name_value name)
             (map (\<lambda>a. name_value (input_name a))
               (filter (\<lambda>a. is_required_argument_type (input_type a) \<and> input_default_value a = None)
                 (case arguments of Some as \<Rightarrow> as | None \<Rightarrow> []))) m
       | _ \<Rightarrow> m) (document_definitions (vc_document cx))
       (fold (\<lambda>d. dict_set (dir_name d) (map fst (filter (\<lambda>(name, a). is_required_input a) (dir_args d))))
         (schema_directives (vc_schema cx)) [])"

definition required_directive_argument_reports :: "'w validation_context \<Rightarrow> directive_node \<Rightarrow> node_report list" where
  "required_directive_argument_reports cx d =
     (case map_of (required_directive_args cx) (name_value (directive_name d)) of
        None \<Rightarrow> []
      | Some required_args \<Rightarrow>
          map (\<lambda>name. (str ''Argument of directive is required, but it was not provided.'', [DirectiveN d]))
            (filter (\<lambda>name. name \<notin> (\<lambda>a. name_value (argument_name a)) ` set (case directive_arguments d of Some as \<Rightarrow> as | None \<Rightarrow> []))
              required_args))"

definition required_argument_reports :: "'w type_info \<Rightarrow> selection_node \<Rightarrow> node_report list" where
  "required_argument_reports ti s =
     (case get_field_def_of ti of
        None \<Rightarrow> []
      | Some field_def \<Rightarrow>
          map (\<lambda>(name, arg_def). (str ''Argument is required, but it was not provided.'', [SelectionN s]))
            (filter (\<lambda>(name, arg_def). name \<notin> (\<lambda>a. name_value (argument_name a)) ` set
                (case field_arguments s of Some as \<Rightarrow> as | None \<Rightarrow> []) \<and> is_required_input arg_def)
              (fld_args field_def)))"

definition required_fragment_argument_reports :: "'w type_info \<Rightarrow> selection_node \<Rightarrow> node_report list" where
  "required_fragment_argument_reports ti s =
     (case ti_fragment_signature ti of
        None \<Rightarrow> []
      | Some signature \<Rightarrow>
          map (\<lambda>(name, d). (str ''Fragment argument is required, but it was not provided.'', [SelectionN s]))
            (filter (\<lambda>(name, d). name \<notin> (\<lambda>a. name_value (fragment_argument_name a)) ` set
                (case spread_arguments s of Some as \<Rightarrow> as | None \<Rightarrow> [])
                \<and> is_required_argument_type (vardef_type d) \<and> vardef_default_value d = None)
              (fs_variable_definitions signature)))"

text \<open>\<open>is_valid_value_node\<close>; the reports come without the node inside of the value that they are about.\<close>

definition value_outcome :: "'w validation_context \<Rightarrow> value_node \<Rightarrow> gtype option \<Rightarrow> py_error + outcome" where
  "value_outcome cx node expected =
     (case expected of
        None \<Rightarrow> skipping ValuesOfCorrectTypeRule
      | Some t \<Rightarrow>
          bind_result (validate_input_literal (schema_env (vc_schema cx) (vc_repr cx)) None None node t []) (\<lambda>errors.
            reporting_skip (map (\<lambda>(e, path). (str ''Value is not valid for the type.'', [ValueN node])) errors)
              ValuesOfCorrectTypeRule))"

section \<open>Directives\<close>

definition locations_map :: "'w validation_context \<Rightarrow> (pystr \<times> pystr list) list" where
  "locations_map cx =
     fold (\<lambda>d m. case d of
         DirectiveDefinitionNode name locations description arguments directives repeatable loc \<Rightarrow>
           dict_set (name_value name) (map name_value locations) m
       | _ \<Rightarrow> m) (document_definitions (vc_document cx))
       (fold (\<lambda>d. dict_set (dir_name d) (map str (dir_locations d))) (schema_directives (vc_schema cx)) [])"

text \<open>\<open>DirectiveLocation[name]\<close> raises \<open>KeyError\<close> when the rule is made.\<close>

definition unknown_location :: "'w validation_context \<Rightarrow> pystr option" where
  "unknown_location cx =
     List.find (\<lambda>name. name \<notin> str ` set DirectiveLocation_members)
       (concat (map (\<lambda>d. case d of
            DirectiveDefinitionNode name locations description arguments directives repeatable loc \<Rightarrow> map name_value locations
          | _ \<Rightarrow> []) (document_definitions (vc_document cx))))"

fun operation_location :: "operation_type \<Rightarrow> string" where
  "operation_location QUERY = ''QUERY''"
| "operation_location MUTATION = ''MUTATION''"
| "operation_location SUBSCRIPTION = ''SUBSCRIPTION''"

fun definition_location :: "definition_node \<Rightarrow> string option" where
  "definition_location (SchemaDefinitionNode description directives operation_types loc) = Some ''SCHEMA''"
| "definition_location (SchemaExtensionNode directives operation_types loc) = Some ''SCHEMA''"
| "definition_location (ScalarTypeDefinitionNode name description directives loc) = Some ''SCALAR''"
| "definition_location (ScalarTypeExtensionNode name directives loc) = Some ''SCALAR''"
| "definition_location (ObjectTypeDefinitionNode name description directives interfaces fs loc) = Some ''OBJECT''"
| "definition_location (ObjectTypeExtensionNode name directives interfaces fs loc) = Some ''OBJECT''"
| "definition_location (InterfaceTypeDefinitionNode name description directives interfaces fs loc) = Some ''INTERFACE''"
| "definition_location (InterfaceTypeExtensionNode name directives interfaces fs loc) = Some ''INTERFACE''"
| "definition_location (UnionTypeDefinitionNode name description directives types loc) = Some ''UNION''"
| "definition_location (UnionTypeExtensionNode name directives types loc) = Some ''UNION''"
| "definition_location (EnumTypeDefinitionNode name description directives vs loc) = Some ''ENUM''"
| "definition_location (EnumTypeExtensionNode name directives vs loc) = Some ''ENUM''"
| "definition_location (InputObjectTypeDefinitionNode name description directives fs loc) = Some ''INPUT_OBJECT''"
| "definition_location (InputObjectTypeExtensionNode name directives fs loc) = Some ''INPUT_OBJECT''"
| "definition_location (DirectiveDefinitionNode name locations description arguments directives repeatable loc) =
     Some ''DIRECTIVE_DEFINITION''"
| "definition_location (DirectiveExtensionNode name directives loc) = Some ''DIRECTIVE_DEFINITION''"
| "definition_location _ = None"

fun is_input_object_definition :: "ast_node option \<Rightarrow> bool" where
  "is_input_object_definition (Some (DefinitionN (InputObjectTypeDefinitionNode name description directives fs loc))) = True"
| "is_input_object_definition _ = False"

fun is_operation_node :: "ast_node option \<Rightarrow> bool" where
  "is_operation_node (Some (OperationN d)) = True"
| "is_operation_node _ = False"

text \<open>\<open>get_directive_location_for_ast_path\<close>; a directive stands in a tuple, so \<open>ancestors[-1]\<close> is the second of them.\<close>

definition get_directive_location_for_ast_path :: "ast_node option list \<Rightarrow> py_error + string option" where
  "get_directive_location_for_ast_path parents =
     (case parents ! 1 of
        None \<Rightarrow> Inl (TypeError (str ''Unexpected error in directive.''))
      | Some node \<Rightarrow> Inr
          (case node of
             OperationN d \<Rightarrow> Some (operation_location (op_operation d))
           | InputValueDefinitionN d \<Rightarrow>
               Some (if is_input_object_definition (parents ! 3) then ''INPUT_FIELD_DEFINITION'' else ''ARGUMENT_DEFINITION'')
           | VariableDefinitionN d \<Rightarrow>
               Some (if is_operation_node (parents ! 3) then ''VARIABLE_DEFINITION'' else ''FRAGMENT_VARIABLE_DEFINITION'')
           | SelectionN (FieldNode name alias_node arguments directives ss loc) \<Rightarrow> Some ''FIELD''
           | SelectionN (FragmentSpreadNode name arguments directives loc) \<Rightarrow> Some ''FRAGMENT_SPREAD''
           | SelectionN (InlineFragmentNode ss type_condition directives loc) \<Rightarrow> Some ''INLINE_FRAGMENT''
           | FragmentN d \<Rightarrow> Some ''FRAGMENT_DEFINITION''
           | FieldDefinitionN d \<Rightarrow> Some ''FIELD_DEFINITION''
           | EnumValueDefinitionN d \<Rightarrow> Some ''ENUM_VALUE''
           | DefinitionN d \<Rightarrow> definition_location d
           | _ \<Rightarrow> None))"

definition known_directive_reports ::
  "'w validation_context \<Rightarrow> ast_node option list \<Rightarrow> directive_node \<Rightarrow> py_error + node_report list" where
  "known_directive_reports cx parents d =
     (case map_of (locations_map cx) (name_value (directive_name d)) of
        Some (l # ls) \<Rightarrow>
          bind_result (get_directive_location_for_ast_path parents) (\<lambda>location. Inr
            (case location of
               Some name \<Rightarrow> error_if (str name \<notin> set (l # ls)) ''Directive may not be used here.'' [DirectiveN d]
             | None \<Rightarrow> []))
      | _ \<Rightarrow> Inr [(str ''Unknown directive.'', [DirectiveN d])])"

text \<open>\<open>unique_directive_map\<close>, and the loop over the directives of a node.\<close>

definition unique_directive_map :: "'w validation_context \<Rightarrow> (pystr \<times> bool) list" where
  "unique_directive_map cx =
     fold (\<lambda>d m. case d of
         DirectiveDefinitionNode name locations description arguments directives repeatable loc \<Rightarrow>
           dict_set (name_value name) (\<not> repeatable) m
       | _ \<Rightarrow> m) (document_definitions (vc_document cx))
       (fold (\<lambda>d. dict_set (dir_name d) (\<not> dir_is_repeatable d)) (schema_directives (vc_schema cx)) [])"

fun see_directives ::
  "(pystr \<times> bool) list \<Rightarrow> directive_node list \<Rightarrow> (pystr \<times> directive_node) list
    \<Rightarrow> node_report list \<times> (pystr \<times> directive_node) list" where
  "see_directives unique [] seen = ([], seen)"
| "see_directives unique (d # ds) seen =
     (let name = name_value (directive_name d) in
      if map_of unique name = Some True then
        (case map_of seen name of
           Some other \<Rightarrow>
             (let (es, seen) = see_directives unique ds seen
              in ((str ''The directive can only be used once at this location.'', [DirectiveN other, DirectiveN d]) # es, seen))
         | None \<Rightarrow> see_directives unique ds (dict_set name d seen))
      else see_directives unique ds seen)"

definition dict_get :: "(pystr \<times> 'v list) list \<Rightarrow> pystr \<Rightarrow> 'v list" where
  "dict_get m k = (case map_of m k of Some xs \<Rightarrow> xs | None \<Rightarrow> [])"

fun is_schema_definition :: "ast_node \<Rightarrow> bool" where
  "is_schema_definition (DefinitionN (SchemaDefinitionNode description directives operation_types loc)) = True"
| "is_schema_definition (DefinitionN (SchemaExtensionNode directives operation_types loc)) = True"
| "is_schema_definition _ = False"

fun defined_type_name :: "ast_node \<Rightarrow> pystr option" where
  "defined_type_name (DefinitionN d) =
     (if is_type_definition d \<or> is_type_extension d then map_option name_value (definition_name d) else None)"
| "defined_type_name _ = None"

fun defined_directive_name :: "ast_node \<Rightarrow> pystr option" where
  "defined_directive_name (DefinitionN (DirectiveDefinitionNode name locations description arguments directives repeatable loc)) =
     Some (name_value name)"
| "defined_directive_name (DefinitionN (DirectiveExtensionNode name directives loc)) = Some (name_value name)"
| "defined_directive_name _ = None"

definition unique_directives_outcome ::
  "'w validation_context \<Rightarrow> ast_node \<Rightarrow> (pystr \<times> directive_node) list \<Rightarrow> (pystr \<times> (pystr \<times> directive_node) list) list
    \<Rightarrow> (pystr \<times> (pystr \<times> directive_node) list) list \<Rightarrow> py_error + outcome" where
  "unique_directives_outcome cx node on_schema on_types on_directives =
     (let ds = directives_of (node_directives node); see = see_directives (unique_directive_map cx) ds in
      if ds = [] then quiet (UniqueDirectivesPerLocationRule on_schema on_types on_directives)
      else if is_schema_definition node then
        (let (es, seen) = see on_schema in reporting es (UniqueDirectivesPerLocationRule seen on_types on_directives))
      else case defined_type_name node of
        Some name \<Rightarrow>
          (let (es, seen) = see (dict_get on_types name)
           in reporting es (UniqueDirectivesPerLocationRule on_schema (dict_set name seen on_types) on_directives))
      | None \<Rightarrow>
          (case defined_directive_name node of
             Some name \<Rightarrow>
               (let (es, seen) = see (dict_get on_directives name)
                in reporting es (UniqueDirectivesPerLocationRule on_schema on_types (dict_set name seen on_directives)))
           | None \<Rightarrow> reporting (fst (see [])) (UniqueDirectivesPerLocationRule on_schema on_types on_directives)))"

end
