(* ===== verification/Validation.thy ===== *)
theory Validation
  imports Validation_Rules
begin

text \<open>
  The rules that recurse through fragments on their own, the methods of all rules, and \<open>validate\<close>
  (\<open>validation/validate.py\<close>) behind the assertion that the schema is valid: a visit with type information and all rules in parallel.  The recursions take the fuel
  of the context; without fuel the answer is \<open>OutOfFuel\<close>, in the place of Python's \<open>RecursionError\<close>.
\<close>

section \<open>Rules that recurse\<close>

definition has_directive :: "directive_def \<Rightarrow> selection_node \<Rightarrow> directive_node option" where
  "has_directive d s = find_directive (dir_name d) (sel_directives s)"

text \<open>\<open>DeferStreamDirectiveOnRootField.forbid_defer_stream\<close>: the loop over the selections, and the recursion.\<close>

type_synonym forbid = "selection_node list \<Rightarrow> pystr set \<Rightarrow> (node_report list \<times> pystr set) option"

definition then_forbid ::
  "node_report list \<Rightarrow> (node_report list \<times> pystr set) option \<Rightarrow> (pystr set \<Rightarrow> (node_report list \<times> pystr set) option)
    \<Rightarrow> (node_report list \<times> pystr set) option" where
  "then_forbid es r k =
     (case r of None \<Rightarrow> None
      | Some (es', seen) \<Rightarrow> map_option (\<lambda>(es'', seen). (es @ es' @ es'', seen)) (k seen))"

definition defer_reports :: "selection_node \<Rightarrow> node_report list" where
  "defer_reports s =
     (case has_directive GraphQLDeferDirective s of
        Some d \<Rightarrow> [(str ''Defer directive cannot be used on root type.'', [DirectiveN d])]
      | None \<Rightarrow> [])"

fun forbid_selections :: "forbid \<Rightarrow> (pystr \<times> fragment_definition_node) list \<Rightarrow> forbid" where
  "forbid_selections rec fragments [] seen_fragments = Some ([], seen_fragments)"
| "forbid_selections rec fragments (selection # rest) seen_fragments =
     (case selection of
        FieldNode name alias_node arguments directives ss loc \<Rightarrow>
          then_forbid (case has_directive GraphQLStreamDirective selection of
               Some d \<Rightarrow> [(str ''Stream directive cannot be used on root type.'', [DirectiveN d])]
             | None \<Rightarrow> []) (Some ([], seen_fragments)) (forbid_selections rec fragments rest)
      | FragmentSpreadNode name arguments directives loc \<Rightarrow>
          if name_value name \<in> seen_fragments then forbid_selections rec fragments rest seen_fragments
          else (case map_of fragments (name_value name) of
              Some fragment \<Rightarrow>
                then_forbid (defer_reports selection) (rec (selections (frag_selection_set fragment)) seen_fragments)
                  (\<lambda>seen. forbid_selections rec fragments rest (insert (name_value name) seen))
            | None \<Rightarrow> forbid_selections rec fragments rest (insert (name_value name) seen_fragments))
      | InlineFragmentNode ss type_condition directives loc \<Rightarrow>
          then_forbid (defer_reports selection) (rec (selections ss) seen_fragments) (forbid_selections rec fragments rest))"

primrec forbid_defer_stream :: "nat \<Rightarrow> (pystr \<times> fragment_definition_node) list \<Rightarrow> forbid" where
  "forbid_defer_stream 0 fragments nodes seen_fragments = None"
| "forbid_defer_stream (Suc n) fragments nodes seen_fragments =
     forbid_selections (forbid_defer_stream n fragments) fragments nodes seen_fragments"

definition root_field_outcome :: "'w validation_context \<Rightarrow> operation_definition_node \<Rightarrow> py_error + outcome" where
  "root_field_outcome cx d =
     (if op_operation d = QUERY \<or> get_root_type (vc_schema cx) (op_operation d) = None then quiet DeferStreamDirectiveOnRootField
      else case forbid_defer_stream (vc_fuel cx) (document_fragments (vc_document cx)) (selections (op_selection_set d)) {} of
          None \<Rightarrow> Inl OutOfFuel
        | Some (es, seen) \<Rightarrow> reporting es DeferStreamDirectiveOnRootField)"

text \<open>The static values of \<open>if\<close>.\<close>

definition get_if_argument :: "directive_node \<Rightarrow> value_node option" where
  "get_if_argument d =
     map_option argument_value (List.find (\<lambda>a. name_value (argument_name a) = str ''if'')
       (case directive_arguments d of Some as \<Rightarrow> as | None \<Rightarrow> []))"

definition if_argument_can_be_false :: "directive_node \<Rightarrow> bool" where
  "if_argument_can_be_false d =
     (case get_if_argument d of
        Some (BooleanValueNode b loc) \<Rightarrow> \<not> b
      | Some (VariableValue v) \<Rightarrow> True
      | _ \<Rightarrow> False)"

definition can_be_skipped_via_skip_directive :: "directive_node \<Rightarrow> bool" where
  "can_be_skipped_via_skip_directive d = (case get_if_argument d of Some (BooleanValueNode b loc) \<Rightarrow> b | _ \<Rightarrow> True)"

definition can_be_skipped_via_include_directive :: "directive_node \<Rightarrow> bool" where
  "can_be_skipped_via_include_directive d =
     (case get_if_argument d of None \<Rightarrow> False | Some (BooleanValueNode b loc) \<Rightarrow> \<not> b | Some _ \<Rightarrow> True)"

definition unconditional_reports :: "selection_node list \<Rightarrow> selection_node \<Rightarrow> node_report list" where
  "unconditional_reports parent_nodes s =
     map (\<lambda>d. (str (if name_value (directive_name d) = dir_name GraphQLDeferDirective
            then ''Defer directive not supported on subscription operations.''
            else ''Stream directive not supported on subscription operations.''), DirectiveN d # map SelectionN parent_nodes))
       (filter (\<lambda>d. name_value (directive_name d) \<in> {dir_name GraphQLDeferDirective, dir_name GraphQLStreamDirective}
            \<and> \<not> if_argument_can_be_false d)
         (directives_of (sel_directives s)))"

type_synonym forbid_under = "selection_node list \<Rightarrow> forbid"

fun forbid_unconditional_selections ::
  "forbid_under \<Rightarrow> (pystr \<times> fragment_definition_node) list \<Rightarrow> forbid_under" where
  "forbid_unconditional_selections rec fragments parent_nodes [] seen_fragments = Some ([], seen_fragments)"
| "forbid_unconditional_selections rec fragments parent_nodes (selection # rest) seen_fragments =
     (if (case has_directive GraphQLSkipDirective selection of Some d \<Rightarrow> can_be_skipped_via_skip_directive d | None \<Rightarrow> False)
         \<or> (case has_directive GraphQLIncludeDirective selection of Some d \<Rightarrow> can_be_skipped_via_include_directive d | None \<Rightarrow> False)
      then forbid_unconditional_selections rec fragments parent_nodes rest seen_fragments
      else
        then_forbid (unconditional_reports parent_nodes selection)
          (case selection of
             FragmentSpreadNode name arguments directives loc \<Rightarrow>
               if name_value name \<in> seen_fragments then Some ([], seen_fragments)
               else (case map_of fragments (name_value name) of
                   Some fragment \<Rightarrow>
                     rec (selection # parent_nodes) (selections (frag_selection_set fragment)) (insert (name_value name) seen_fragments)
                 | None \<Rightarrow> Some ([], insert (name_value name) seen_fragments))
           | _ \<Rightarrow>
               (case child_set selection of
                  Some ss \<Rightarrow> rec parent_nodes (selections ss) seen_fragments
                | None \<Rightarrow> Some ([], seen_fragments)))
          (forbid_unconditional_selections rec fragments parent_nodes rest))"

primrec forbid_unconditional_defer_stream ::
  "nat \<Rightarrow> (pystr \<times> fragment_definition_node) list \<Rightarrow> forbid_under" where
  "forbid_unconditional_defer_stream 0 fragments parent_nodes nodes seen_fragments = None"
| "forbid_unconditional_defer_stream (Suc n) fragments parent_nodes nodes seen_fragments =
     forbid_unconditional_selections (forbid_unconditional_defer_stream n fragments) fragments parent_nodes nodes seen_fragments"

definition valid_operations_outcome :: "'w validation_context \<Rightarrow> operation_definition_node \<Rightarrow> py_error + outcome" where
  "valid_operations_outcome cx d =
     (if op_operation d \<noteq> SUBSCRIPTION then quiet DeferStreamDirectiveOnValidOperationsRule
      else case forbid_unconditional_defer_stream (vc_fuel cx) (document_fragments (vc_document cx)) []
             (selections (op_selection_set d)) {} of
          None \<Rightarrow> Inl OutOfFuel
        | Some (es, seen) \<Rightarrow> reporting es DeferStreamDirectiveOnValidOperationsRule)"

text \<open>\<open>MaxIntrospectionDepthRule._check_depth\<close>: on the selections of a node, and on one of them.\<close>

definition MAX_LIST_DEPTH :: nat where
  "MAX_LIST_DEPTH = 3"

definition introspection_lists :: "pystr set" where
  "introspection_lists = {str ''fields'', str ''interfaces'', str ''possibleTypes'', str ''inputFields''}"

fun check_children :: "(selection_node \<Rightarrow> bool option) \<Rightarrow> selection_node list \<Rightarrow> bool option" where
  "check_children check [] = Some False"
| "check_children check (s # ss) =
     (case check s of None \<Rightarrow> None | Some True \<Rightarrow> Some True | Some False \<Rightarrow> check_children check ss)"

primrec check_depth :: "nat \<Rightarrow> document_node \<Rightarrow> pystr set \<Rightarrow> nat \<Rightarrow> selection_node \<Rightarrow> bool option" where
  "check_depth 0 document seen_fragments depth node = None"
| "check_depth (Suc n) document seen_fragments depth node =
     (case node of
        FragmentSpreadNode name arguments directives loc \<Rightarrow>
          if name_value name \<in> seen_fragments then Some False
          else (case get_fragment document (name_value name) of
              None \<Rightarrow> Some False
            | Some fragment \<Rightarrow>
                check_children (check_depth n document (insert (name_value name) seen_fragments) depth)
                  (selections (frag_selection_set fragment)))
      | FieldNode name alias_node arguments directives selection_set loc \<Rightarrow>
          (let depth = (if name_value name \<in> introspection_lists then Suc depth else depth) in
           if name_value name \<in> introspection_lists \<and> depth \<ge> MAX_LIST_DEPTH then Some True
           else (case selection_set of
               Some ss \<Rightarrow> check_children (check_depth n document seen_fragments depth) (selections ss)
             | None \<Rightarrow> Some False))
      | InlineFragmentNode ss type_condition directives loc \<Rightarrow>
          check_children (check_depth n document seen_fragments depth) (selections ss))"

definition introspection_outcome :: "'w validation_context \<Rightarrow> selection_node \<Rightarrow> py_error + outcome" where
  "introspection_outcome cx s =
     (if name_value (field_name s) \<in> {str ''__schema'', str ''__type''} then
        (case check_depth (vc_fuel cx) (vc_document cx) {} 0 s of
           None \<Rightarrow> Inl OutOfFuel
         | Some True \<Rightarrow> reporting_skip [(str ''Maximum introspection depth exceeded'', [SelectionN s])] MaxIntrospectionDepthRule
         | Some False \<Rightarrow> quiet MaxIntrospectionDepthRule)
      else quiet MaxIntrospectionDepthRule)"

text \<open>\<open>SingleFieldSubscriptionsRule\<close>: an exception of \<open>collect_fields\<close> is not caught.\<close>

definition subscription_context :: "'w validation_context \<Rightarrow> pystr \<Rightarrow> 'w collect_context" where
  "subscription_context cx type_name =
     \<lparr>cx_schema = vc_schema cx, cx_repr = vc_repr cx,
      cx_fragments = map (\<lambda>(name, fragment). (name, \<lparr>fragment_definition = fragment, fragment_signatures = None\<rparr>))
        (document_fragments (vc_document cx)),
      cx_variables = \<lparr>vv_sources = [], vv_coerced = []\<rparr>, cx_runtime_type = type_name, cx_forbid = True,
      cx_fuel = vc_fuel cx\<rparr>"

definition single_field_reports :: "collected \<Rightarrow> node_report list" where
  "single_field_reports collected =
     (let groups = map snd (grouped_field_set collected); nodes = (\<lambda>details. map (SelectionN \<circ> fd_node) details) in
      if forbidden_directives collected \<noteq> []
      then [(str ''Subscription must not use skip or include directives in the top level selection.'',
             map DirectiveN (forbidden_directives collected))]
      else error_if (length groups > 1) ''Subscription must select only one top level field.'' (concat (map nodes (tl groups)))
         @ map (\<lambda>details. (str ''Subscription must not select an introspection top level field.'', nodes details))
             (filter (\<lambda>details. startswith (name_value (field_name (fd_node (hd details)))) (str ''__'')) groups))"

definition single_field_outcome :: "'w validation_context \<Rightarrow> operation_definition_node \<Rightarrow> py_error + outcome" where
  "single_field_outcome cx d =
     (case (op_operation d, subscription_type (vc_schema cx)) of
        (SUBSCRIPTION, Some type_name) \<Rightarrow>
          bind_result (collect_fields (subscription_context cx type_name) d) (\<lambda>collected.
            reporting (single_field_reports collected) SingleFieldSubscriptionsRule)
      | _ \<Rightarrow> quiet SingleFieldSubscriptionsRule)"

text \<open>\<open>DeferStreamDirectiveLabel\<close> and \<open>StreamDirectiveOnListField\<close>\<close>

definition label_outcome :: "directive_node \<Rightarrow> (pystr \<times> directive_node) list \<Rightarrow> py_error + outcome" where
  "label_outcome d known_labels =
     (if name_value (directive_name d) \<notin> {dir_name GraphQLDeferDirective, dir_name GraphQLStreamDirective}
      then quiet (DeferStreamDirectiveLabel known_labels)
      else case List.find (\<lambda>a. name_value (argument_name a) = str ''label'')
            (case directive_arguments d of Some as \<Rightarrow> as | None \<Rightarrow> []) of
          None \<Rightarrow> quiet (DeferStreamDirectiveLabel known_labels)
        | Some a \<Rightarrow>
            (case argument_value a of
               NullValueNode loc \<Rightarrow> quiet (DeferStreamDirectiveLabel known_labels)
             | StringValue v \<Rightarrow>
                 (case map_of known_labels (string_value v) of
                    Some other \<Rightarrow>
                      reporting [(str ''Defer/Stream directive label argument must be unique.'', [DirectiveN other, DirectiveN d])]
                        (DeferStreamDirectiveLabel known_labels)
                  | None \<Rightarrow> quiet (DeferStreamDirectiveLabel (dict_set (string_value v) d known_labels)))
             | _ \<Rightarrow>
                 reporting [(str ''Directive label argument must be a static string.'', [DirectiveN d])]
                   (DeferStreamDirectiveLabel known_labels)))"

definition stream_list_reports :: "'w type_info \<Rightarrow> directive_node \<Rightarrow> node_report list" where
  "stream_list_reports ti d =
     (case get_field_def_of ti of
        Some field_def \<Rightarrow>
          error_if (get_parent_type ti \<noteq> None \<and> name_value (directive_name d) = dir_name GraphQLStreamDirective
              \<and> \<not> (is_list_type (fld_type field_def)
                   \<or> (case fld_type field_def of GNonNull t \<Rightarrow> is_list_type t | GList t \<Rightarrow> is_list_type t | _ \<Rightarrow> False)))
            ''Stream directive cannot be used on non-list field.'' [DirectiveN d]
      | None \<Rightarrow> [])"

section \<open>The methods of the rules\<close>

definition rule_enter ::
  "'w validation_context \<Rightarrow> 'w type_info \<Rightarrow> ast_node option list \<Rightarrow> ast_node \<Rightarrow> rule \<Rightarrow> py_error + outcome" where
  "rule_enter cx ti parents node rule =
     (case rule of
        ExecutableDefinitionsRule \<Rightarrow>
          (case node of DocumentN d \<Rightarrow> reporting_skip (non_executable_reports d) rule | _ \<Rightarrow> quiet rule)
      | KnownOperationTypesRule \<Rightarrow>
          (case node of OperationN d \<Rightarrow> reporting (known_operation_type_reports cx d) rule | _ \<Rightarrow> quiet rule)
      | UniqueOperationNamesRule known \<Rightarrow>
          (case node of
             OperationN d \<Rightarrow>
               (case op_name d of
                  Some name \<Rightarrow>
                    (let (es, known) = see_name ''There can be only one operation with the name.'' known name
                     in reporting_skip es (UniqueOperationNamesRule known))
                | None \<Rightarrow> skipping rule)
           | FragmentN d \<Rightarrow> skipping rule
           | _ \<Rightarrow> quiet rule)
      | LoneAnonymousOperationRule count \<Rightarrow>
          (case node of
             DocumentN d \<Rightarrow> quiet (LoneAnonymousOperationRule (operation_count d))
           | OperationN d \<Rightarrow>
               reporting (error_if (op_name d = None \<and> count > 1) ''This anonymous operation must be the only defined operation.''
                 [OperationN d]) rule
           | _ \<Rightarrow> quiet rule)
      | SingleFieldSubscriptionsRule \<Rightarrow>
          (case node of OperationN d \<Rightarrow> single_field_outcome cx d | _ \<Rightarrow> quiet rule)
      | KnownTypeNamesRule \<Rightarrow>
          (case node of NamedTypeN t \<Rightarrow> reporting (known_type_reports cx parents t) rule | _ \<Rightarrow> quiet rule)
      | FragmentsOnCompositeTypesRule \<Rightarrow>
          (case node of
             SelectionN (InlineFragmentNode ss (Some t) directives loc) \<Rightarrow> reporting (composite_condition_reports cx t) rule
           | FragmentN d \<Rightarrow> reporting (composite_condition_reports cx (frag_type_condition d)) rule
           | _ \<Rightarrow> quiet rule)
      | VariablesAreInputTypesRule \<Rightarrow>
          (case node of VariableDefinitionN d \<Rightarrow> reporting (variable_type_reports cx d) rule | _ \<Rightarrow> quiet rule)
      | ScalarLeafsRule \<Rightarrow>
          (case node of
             SelectionN (FieldNode name alias_node arguments directives ss loc) \<Rightarrow>
               reporting (scalar_leaf_reports cx ti (FieldNode name alias_node arguments directives ss loc)) rule
           | _ \<Rightarrow> quiet rule)
      | FieldsOnCorrectTypeRule \<Rightarrow>
          (case node of
             SelectionN (FieldNode name alias_node arguments directives ss loc) \<Rightarrow>
               reporting (field_reports ti (FieldNode name alias_node arguments directives ss loc)) rule
           | _ \<Rightarrow> quiet rule)
      | UniqueFragmentNamesRule known \<Rightarrow>
          (case node of
             OperationN d \<Rightarrow> skipping rule
           | FragmentN d \<Rightarrow>
               (let (es, known) = see_name ''There can be only one fragment with the name.'' known (frag_name d)
                in reporting_skip es (UniqueFragmentNamesRule known))
           | _ \<Rightarrow> quiet rule)
      | KnownFragmentNamesRule \<Rightarrow>
          (case node of
             SelectionN (FragmentSpreadNode name arguments directives loc) \<Rightarrow>
               reporting (known_fragment_reports cx (FragmentSpreadNode name arguments directives loc)) rule
           | _ \<Rightarrow> quiet rule)
      | NoUnusedFragmentsRule operation_defs fragment_defs \<Rightarrow>
          (case node of
             OperationN d \<Rightarrow> skipping (NoUnusedFragmentsRule (operation_defs @ [d]) fragment_defs)
           | FragmentN d \<Rightarrow> skipping (NoUnusedFragmentsRule operation_defs (fragment_defs @ [d]))
           | _ \<Rightarrow> quiet rule)
      | PossibleFragmentSpreadsRule \<Rightarrow>
          (case node of
             SelectionN (InlineFragmentNode ss type_condition directives loc) \<Rightarrow>
               reporting (inline_fragment_reports cx ti (InlineFragmentNode ss type_condition directives loc)) rule
           | SelectionN (FragmentSpreadNode name arguments directives loc) \<Rightarrow>
               reporting (spread_reports cx ti (FragmentSpreadNode name arguments directives loc)) rule
           | _ \<Rightarrow> quiet rule)
      | NoFragmentCyclesRule s \<Rightarrow>
          (case node of OperationN d \<Rightarrow> skipping rule | FragmentN d \<Rightarrow> cycle_outcome cx d s | _ \<Rightarrow> quiet rule)
      | UniqueVariableNamesRule \<Rightarrow>
          (case node of OperationN d \<Rightarrow> reporting (unique_variable_reports d) rule | _ \<Rightarrow> quiet rule)
      | NoUndefinedVariablesRule names \<Rightarrow>
          (case node of
             OperationN d \<Rightarrow> quiet (NoUndefinedVariablesRule {})
           | VariableDefinitionN d \<Rightarrow>
               quiet (NoUndefinedVariablesRule (insert (name_value (variable_name (vardef_variable d))) names))
           | _ \<Rightarrow> quiet rule)
      | NoUnusedVariablesRule \<Rightarrow> quiet rule
      | KnownDirectivesRule \<Rightarrow>
          (case node of
             DirectiveN d \<Rightarrow> bind_result (known_directive_reports cx parents d) (\<lambda>es. reporting es rule)
           | _ \<Rightarrow> quiet rule)
      | UniqueDirectivesPerLocationRule on_schema on_types on_directives \<Rightarrow>
          unique_directives_outcome cx node on_schema on_types on_directives
      | DeferStreamDirectiveOnRootField \<Rightarrow>
          (case node of OperationN d \<Rightarrow> root_field_outcome cx d | _ \<Rightarrow> quiet rule)
      | DeferStreamDirectiveOnValidOperationsRule \<Rightarrow>
          (case node of OperationN d \<Rightarrow> valid_operations_outcome cx d | _ \<Rightarrow> quiet rule)
      | DeferStreamDirectiveLabel known_labels \<Rightarrow>
          (case node of DirectiveN d \<Rightarrow> label_outcome d known_labels | _ \<Rightarrow> quiet rule)
      | StreamDirectiveOnListField \<Rightarrow>
          (case node of DirectiveN d \<Rightarrow> reporting (stream_list_reports ti d) rule | _ \<Rightarrow> quiet rule)
      | KnownArgumentNamesRule \<Rightarrow>
          (case node of
             DirectiveN d \<Rightarrow> reporting_skip (known_directive_argument_reports cx d) rule
           | ArgumentN a \<Rightarrow> reporting (known_argument_reports ti a) rule
           | FragmentArgumentN a \<Rightarrow> reporting (known_fragment_argument_reports ti a) rule
           | _ \<Rightarrow> quiet rule)
      | UniqueArgumentNamesRule \<Rightarrow>
          (case node of
             SelectionN (FieldNode name alias_node arguments directives ss loc) \<Rightarrow> reporting (unique_argument_reports arguments) rule
           | DirectiveN d \<Rightarrow> reporting (unique_argument_reports (directive_arguments d)) rule
           | _ \<Rightarrow> quiet rule)
      | ValuesOfCorrectTypeRule \<Rightarrow>
          (case node of
             ValueN (ListValueNode vs loc) \<Rightarrow> value_outcome cx (ListValueNode vs loc) (get_parent_input_type ti)
           | ValueN v \<Rightarrow> value_outcome cx v (get_input_type ti)
           | _ \<Rightarrow> quiet rule)
      | ProvidedRequiredArgumentsRule \<Rightarrow> quiet rule
      | VariablesInAllowedPositionRule var_def_map \<Rightarrow>
          (case node of
             OperationN d \<Rightarrow> quiet (VariablesInAllowedPositionRule [])
           | VariableDefinitionN d \<Rightarrow>
               quiet (VariablesInAllowedPositionRule
                 (dict_set (name_value (variable_name (vardef_variable d))) d var_def_map))
           | _ \<Rightarrow> quiet rule)
      | UniqueInputFieldNamesRule stack known \<Rightarrow>
          (case node of
             ValueN (ObjectValueNode fs loc) \<Rightarrow> quiet (UniqueInputFieldNamesRule (known # stack) [])
           | ObjectFieldN f \<Rightarrow>
               (let (es, known) = see_name ''There can be only one input field with the name.'' known (object_field_name f)
                in reporting es (UniqueInputFieldNamesRule stack known))
           | _ \<Rightarrow> quiet rule)
      | MaxIntrospectionDepthRule \<Rightarrow>
          (case node of
             SelectionN (FieldNode name alias_node arguments directives ss loc) \<Rightarrow>
               introspection_outcome cx (FieldNode name alias_node arguments directives ss loc)
           | _ \<Rightarrow> quiet rule))"

definition rule_leave :: "'w validation_context \<Rightarrow> 'w type_info \<Rightarrow> ast_node \<Rightarrow> rule \<Rightarrow> node_report list \<times> rule" where
  "rule_leave cx ti node rule =
     (case rule of
        NoUnusedFragmentsRule operation_defs fragment_defs \<Rightarrow>
          (case node of DocumentN d \<Rightarrow> (unused_fragment_reports cx operation_defs fragment_defs, rule) | _ \<Rightarrow> ([], rule))
      | NoUndefinedVariablesRule names \<Rightarrow>
          (case node of OperationN d \<Rightarrow> (undefined_variable_reports cx ti names d, rule) | _ \<Rightarrow> ([], rule))
      | NoUnusedVariablesRule \<Rightarrow>
          (case node of
             FragmentN d \<Rightarrow> (unused_argument_reports cx ti d, rule)
           | OperationN d \<Rightarrow> (unused_variable_reports cx ti d, rule)
           | _ \<Rightarrow> ([], rule))
      | ProvidedRequiredArgumentsRule \<Rightarrow>
          (case node of
             DirectiveN d \<Rightarrow> (required_directive_argument_reports cx d, rule)
           | SelectionN (FieldNode name alias_node arguments directives ss loc) \<Rightarrow>
               (required_argument_reports ti (FieldNode name alias_node arguments directives ss loc), rule)
           | SelectionN (FragmentSpreadNode name arguments directives loc) \<Rightarrow>
               (required_fragment_argument_reports ti (FragmentSpreadNode name arguments directives loc), rule)
           | _ \<Rightarrow> ([], rule))
      | VariablesInAllowedPositionRule var_def_map \<Rightarrow>
          (case node of
             OperationN d \<Rightarrow> (concat (map (position_reports cx var_def_map) (get_recursive_variable_usages cx ti d)), rule)
           | _ \<Rightarrow> ([], rule))
      | UniqueInputFieldNamesRule stack known \<Rightarrow>
          (case node of
             ValueN (ObjectValueNode fs loc) \<Rightarrow> ([], UniqueInputFieldNamesRule (tl stack) (hd stack))
           | _ \<Rightarrow> ([], rule))
      | _ \<Rightarrow> ([], rule))"

section \<open>Visiting\<close>

text \<open>
  \<open>ParallelVisitor\<close> on the rules: a rule that skips a node is not called for the nodes below and not when the node is left.
  An error behind the limit raises \<open>ValidationAbortedError\<close>, which ends the visit.
\<close>

datatype stop = Raised py_error | Aborted "node_report list"

record visit_state =
  vs_rules :: "(rule \<times> bool) list"
  vs_errors :: "node_report list"

definition on_errors :: "nat \<Rightarrow> node_report list \<Rightarrow> node_report list \<Rightarrow> stop + node_report list" where
  "on_errors max_errors errors es =
     (if length (errors @ es) > max_errors \<and> es \<noteq> [] then Inl (Aborted (take max_errors (errors @ es))) else Inr (errors @ es))"

fun enter_rules ::
  "'w validation_context \<Rightarrow> 'w type_info \<Rightarrow> ast_node option list \<Rightarrow> ast_node \<Rightarrow> (rule \<times> bool) list \<Rightarrow> node_report list
    \<Rightarrow> stop + visit_state" where
  "enter_rules cx ti parents node [] errors = Inr \<lparr>vs_rules = [], vs_errors = errors\<rparr>"
| "enter_rules cx ti parents node ((rule, skips) # rules) errors =
     bind_result (if skips then Inr \<lparr>oc_reports = [], oc_skip = True, oc_rule = rule\<rparr>
        else map_sum Raised id (rule_enter cx ti parents node rule)) (\<lambda>oc.
     bind_result (on_errors (vc_max_errors cx) errors (oc_reports oc)) (\<lambda>errors.
     bind_result (enter_rules cx ti parents node rules errors) (\<lambda>s.
       Inr (s\<lparr>vs_rules := (oc_rule oc, oc_skip oc) # vs_rules s\<rparr>))))"

text \<open>Leaving: with the marks before the node was entered, and the rules with their marks behind the children.\<close>

fun leave_rules ::
  "'w validation_context \<Rightarrow> 'w type_info \<Rightarrow> ast_node \<Rightarrow> bool list \<Rightarrow> (rule \<times> bool) list \<Rightarrow> node_report list
    \<Rightarrow> stop + visit_state" where
  "leave_rules cx ti node (before # marks) ((rule, skips) # rules) errors =
     (let (es, rule') = (if skips then ([], rule) else rule_leave cx ti node rule) in
      bind_result (on_errors (vc_max_errors cx) errors es) (\<lambda>errors.
      bind_result (leave_rules cx ti node marks rules errors) (\<lambda>s.
        Inr (s\<lparr>vs_rules := (rule', before) # vs_rules s\<rparr>))))"
| "leave_rules cx ti node _ _ errors = Inr \<lparr>vs_rules = [], vs_errors = errors\<rparr>"

fun visit_tree ::
  "'w validation_context \<Rightarrow> ast_node option list \<Rightarrow> tree \<Rightarrow> 'w type_info \<times> visit_state \<Rightarrow> stop + 'w type_info \<times> visit_state"
and visit_kids ::
  "'w validation_context \<Rightarrow> ast_node option list \<Rightarrow> kids \<Rightarrow> 'w type_info \<times> visit_state \<Rightarrow> stop + 'w type_info \<times> visit_state"
where
  "visit_tree cx parents (Tree node ks) (ti, s) =
     (let ti1 = TypeInfo_enter (vc_meta cx) (vc_schema cx) node ti in
      bind_result (enter_rules cx ti1 parents node (vs_rules s) (vs_errors s)) (\<lambda>s1.
      bind_result (visit_kids cx (Some node # parents) ks (ti1, s1)) (\<lambda>(ti2, s2).
      bind_result (leave_rules cx ti2 node (map snd (vs_rules s)) (vs_rules s2) (vs_errors s2)) (\<lambda>s3.
        Inr (TypeInfo_leave node ti2, s3)))))"
| "visit_kids cx parents NoKids r = Inr r"
| "visit_kids cx parents (Kid in_tuple t ks) r =
     bind_result (visit_tree cx (if in_tuple then None # parents else parents) t r) (visit_kids cx parents ks)"

text \<open>\<open>specified_rules\<close> with new objects; \<open>OverlappingFieldsCanBeMergedRule\<close> is left out.\<close>

definition other_specified_rules :: "rule list" where
  "other_specified_rules =
     [ExecutableDefinitionsRule, KnownOperationTypesRule, UniqueOperationNamesRule [], LoneAnonymousOperationRule 0,
      SingleFieldSubscriptionsRule, KnownTypeNamesRule, FragmentsOnCompositeTypesRule, VariablesAreInputTypesRule,
      ScalarLeafsRule, FieldsOnCorrectTypeRule, UniqueFragmentNamesRule [], KnownFragmentNamesRule, NoUnusedFragmentsRule [] [],
      PossibleFragmentSpreadsRule, NoFragmentCyclesRule no_search, UniqueVariableNamesRule, NoUndefinedVariablesRule {},
      NoUnusedVariablesRule, KnownDirectivesRule, UniqueDirectivesPerLocationRule [] [] [], DeferStreamDirectiveOnRootField,
      DeferStreamDirectiveOnValidOperationsRule, DeferStreamDirectiveLabel [], StreamDirectiveOnListField,
      KnownArgumentNamesRule, UniqueArgumentNamesRule, ValuesOfCorrectTypeRule, ProvidedRequiredArgumentsRule,
      VariablesInAllowedPositionRule [], UniqueInputFieldNamesRule [] [], MaxIntrospectionDepthRule]"

definition validation_aborted :: node_report where
  "validation_aborted = (str ''Too many validation errors, error limit reached. Validation aborted.'', [])"

definition visit_document :: "'w validation_context \<Rightarrow> rule list \<Rightarrow> py_error + node_report list" where
  "visit_document cx rules =
     (case visit_tree cx [] (document_tree (vc_document cx))
         (TypeInfo_init, \<lparr>vs_rules = map (\<lambda>r. (r, False)) rules, vs_errors = []\<rparr>) of
        Inl (Raised e) \<Rightarrow> Inl e
      | Inl (Aborted errors) \<Rightarrow> Inr (errors @ [validation_aborted])
      | Inr (ti, s) \<Rightarrow> Inr (vs_errors s))"

text \<open>\<open>KnownDirectivesRule\<close> reads the locations of all definitions of directives when it is made.\<close>

fun reads_locations :: "rule \<Rightarrow> bool" where
  "reads_locations KnownDirectivesRule = True"
| "reads_locations _ = False"

definition validate :: "'w validation_context \<Rightarrow> rule list \<Rightarrow> py_error + node_report list" where
  "validate cx rules =
     (case unknown_location cx of
        Some name \<Rightarrow> if list_ex reads_locations rules then Inl (KeyError name) else visit_document cx rules
      | None \<Rightarrow> visit_document cx rules)"

end
