(* ===== verification/Validation_Walk.thy ===== *)
theory Validation_Walk
  imports Validation
begin

text \<open>
  How the visit of \<open>validate\<close> goes: the type information is the same before and behind a node, and the rules that run in
  parallel do not see each other, so a document passes all of them when it passes each of them alone.
\<close>

section \<open>Type information\<close>

text \<open>The type information behind a tree, whatever the rules do.\<close>

fun ti_tree :: "'w validation_context \<Rightarrow> tree \<Rightarrow> 'w type_info \<Rightarrow> 'w type_info"
and ti_kids :: "'w validation_context \<Rightarrow> kids \<Rightarrow> 'w type_info \<Rightarrow> 'w type_info" where
  "ti_tree cx (Tree node ks) ti =
     TypeInfo_leave node (ti_kids cx ks (TypeInfo_enter (vc_meta cx) (vc_schema cx) node ti))"
| "ti_kids cx NoKids ti = ti"
| "ti_kids cx (Kid in_tuple t ks) ti = ti_kids cx ks (ti_tree cx t ti)"

text \<open>What the stacks hold.\<close>

record 'w stacks =
  st_types :: "gtype option list"
  st_parents :: "pystr option list"
  st_inputs :: "gtype option list"
  st_fields :: "'w field option list"
  st_defaults :: "location_default list"

definition stacks_of :: "'w type_info \<Rightarrow> 'w stacks" where
  "stacks_of ti = \<lparr>st_types = ti_type_stack ti, st_parents = ti_parent_type_stack ti, st_inputs = ti_input_type_stack ti,
     st_fields = ti_field_def_stack ti, st_defaults = ti_default_value_stack ti\<rparr>"

lemmas type_info_methods = enter_selection_set_def enter_field_def enter_operation_definition_def enter_inline_fragment_def
  enter_variable_definition_def push_input_def enter_fragment_argument_def enter_argument_def enter_list_value_def
  enter_object_field_def enter_enum_value_def pop_input_def

lemma leave_undoes_enter:
  assumes "stacks_of ti' = stacks_of (TypeInfo_enter meta schema node ti)"
  shows "stacks_of (TypeInfo_leave node ti') = stacks_of ti"
  using assms
  by (simp add: TypeInfo_enter_def TypeInfo_leave_def stacks_of_def type_info_methods Let_def
      split: ast_node.splits selection_node.splits value_node.splits)

lemma ti_balanced:
  "stacks_of (ti_tree cx t ti) = stacks_of ti"
  "stacks_of (ti_kids cx ks ti) = stacks_of ti"
  by (induction t and ks arbitrary: ti and ti) (simp_all add: leave_undoes_enter)

section \<open>Rules in parallel\<close>

lemma bind_result_InrE: "bind_result m f = Inr y \<Longrightarrow> (\<And>x. m = Inr x \<Longrightarrow> f x = Inr y \<Longrightarrow> thesis) \<Longrightarrow> thesis"
  by (auto simp: bind_result_Inr_iff)

lemma on_errors_Inr: "on_errors n errors es = Inr errors' \<Longrightarrow> errors' = errors @ es"
  by (auto simp: on_errors_def split: if_splits)

lemma on_errors_none [simp]: "on_errors n errors [] = Inr errors"
  by (simp add: on_errors_def)

lemma on_errors_clean: "on_errors n [] es = Inr [] \<longleftrightarrow> es = []"
  by (auto simp: on_errors_def)

lemma enter_rules_grow:
  "enter_rules cx ti parents node rules errors = Inr s \<Longrightarrow>
     length (vs_rules s) = length rules \<and> (\<exists>es. vs_errors s = errors @ es)"
proof (induction rules arbitrary: errors s)
  case (Cons r rules)
  obtain rule skips where r: "r = (rule, skips)" by (cases r)
  from Cons.prems obtain oc :: outcome where
    "bind_result (on_errors (vc_max_errors cx) errors (oc_reports oc)) (\<lambda>errors.
       bind_result (enter_rules cx ti parents node rules errors) (\<lambda>s.
         Inr (s\<lparr>vs_rules := (oc_rule oc, oc_skip oc) # vs_rules s\<rparr>))) = Inr s"
    unfolding r enter_rules.simps by (rule bind_result_InrE)
  then obtain errors1 s1 where e: "on_errors (vc_max_errors cx) errors (oc_reports oc) = Inr errors1"
    and s1: "enter_rules cx ti parents node rules errors1 = Inr s1" "s = s1\<lparr>vs_rules := (oc_rule oc, oc_skip oc) # vs_rules s1\<rparr>"
    by (elim bind_result_InrE) simp
  from Cons.IH [OF s1(1)] on_errors_Inr [OF e] show ?case by (auto simp: s1(2))
qed simp

lemma leave_rules_grow:
  "leave_rules cx ti node marks rules errors = Inr s \<Longrightarrow> length marks = length rules \<Longrightarrow>
     length (vs_rules s) = length rules \<and> (\<exists>es. vs_errors s = errors @ es)"
proof (induction rules arbitrary: marks errors s)
  case (Cons r rules)
  obtain rule skips where r: "r = (rule, skips)" by (cases r)
  obtain before marks' where m: "marks = before # marks'" "length marks' = length rules"
    using Cons.prems(2) by (cases marks) auto
  from Cons.prems(1) obtain rule' es errors1 s1
    where e: "on_errors (vc_max_errors cx) errors es = Inr errors1"
    and s1: "leave_rules cx ti node marks' rules errors1 = Inr s1" "s = s1\<lparr>vs_rules := (rule', before) # vs_rules s1\<rparr>"
    by (auto simp: r m bind_result_Inr_iff Let_def split: prod.splits)
  from Cons.IH [OF s1(1) m(2)] on_errors_Inr [OF e] show ?case by (auto simp: s1(2))
qed simp

text \<open>A visit that gives a state has taken the type information through the tree, and has only added errors.\<close>

definition grows :: "visit_state \<Rightarrow> visit_state \<Rightarrow> bool" where
  "grows s s' \<longleftrightarrow> length (vs_rules s') = length (vs_rules s) \<and> (\<exists>es. vs_errors s' = vs_errors s @ es)"

lemma grows_refl [simp]: "grows s s"
  by (simp add: grows_def)

lemma grows_trans: "grows s s' \<Longrightarrow> grows s' s'' \<Longrightarrow> grows s s''"
  by (auto simp: grows_def)

lemma grows_clean: "grows s s' \<Longrightarrow> vs_errors s' = [] \<Longrightarrow> vs_errors s = []"
  by (auto simp: grows_def)

lemma visit_grows:
  "visit_tree cx parents t (ti, s) = Inr (ti', s') \<Longrightarrow> ti' = ti_tree cx t ti \<and> grows s s'"
  "visit_kids cx parents ks (ti, s) = Inr (ti', s') \<Longrightarrow> ti' = ti_kids cx ks ti \<and> grows s s'"
proof (induction t and ks arbitrary: parents ti s ti' s' and parents ti s ti' s')
  case (Tree node ks)
  let ?ti1 = "TypeInfo_enter (vc_meta cx) (vc_schema cx) node ti"
  from Tree.prems obtain s1 ti2 s2 s3 where
    s1: "enter_rules cx ?ti1 parents node (vs_rules s) (vs_errors s) = Inr s1" and
    s2: "visit_kids cx (Some node # parents) ks (?ti1, s1) = Inr (ti2, s2)" and
    s3: "leave_rules cx ti2 node (map snd (vs_rules s)) (vs_rules s2) (vs_errors s2) = Inr s3" "s' = s3" "ti' = TypeInfo_leave node ti2"
    by (auto simp: Let_def bind_result_Inr_iff)
  have "grows s s1" using enter_rules_grow [OF s1] by (simp add: grows_def)
  moreover from Tree.IH [OF s2] have "ti2 = ti_kids cx ks ?ti1" and s12: "grows s1 s2" by auto
  moreover have "grows s2 s3"
    using leave_rules_grow [OF s3(1)] \<open>grows s s1\<close> s12 by (auto simp: grows_def)
  ultimately show ?case using s3(2,3) grows_trans by auto
next
  case (Kid in_tuple t ks)
  then show ?case by (force simp: bind_result_Inr_iff intro: grows_trans)
qed simp_all

text \<open>A rule that is entered, left and visited alone without a report.\<close>

definition enters :: "'w validation_context \<Rightarrow> 'w type_info \<Rightarrow> ast_node option list \<Rightarrow> ast_node \<Rightarrow> rule \<times> bool \<Rightarrow> rule \<times> bool \<Rightarrow> bool" where
  "enters cx ti parents node r r' \<longleftrightarrow>
     (if snd r then r' = r
      else rule_enter cx ti parents node (fst r) = Inr \<lparr>oc_reports = [], oc_skip = snd r', oc_rule = fst r'\<rparr>)"

definition leaves :: "'w validation_context \<Rightarrow> 'w type_info \<Rightarrow> ast_node \<Rightarrow> bool \<Rightarrow> rule \<times> bool \<Rightarrow> rule \<times> bool \<Rightarrow> bool" where
  "leaves cx ti node before r r' \<longleftrightarrow>
     (if snd r then r' = (fst r, before) else rule_leave cx ti node (fst r) = ([], fst r') \<and> snd r' = before)"

lemma enter_rules_clean:
  "enter_rules cx ti parents node rs [] = Inr \<lparr>vs_rules = rs', vs_errors = []\<rparr> \<longleftrightarrow> list_all2 (enters cx ti parents node) rs rs'"
proof (induction rs arbitrary: rs')
  case (Cons r rs)
  obtain rule skips where r: "r = (rule, skips)" by (cases r)
  let ?first = "if skips then Inr \<lparr>oc_reports = [], oc_skip = True, oc_rule = rule\<rparr>
      else map_sum Raised id (rule_enter cx ti parents node rule)"
  show ?case
  proof (cases ?first)
    case (Inl e)
    then show ?thesis by (auto simp: r enters_def list_all2_Cons1 bind_result_Inr_iff split: if_splits)
  next
    case (Inr oc)
    have entered: "enters cx ti parents node r r' \<longleftrightarrow> oc_reports oc = [] \<and> r' = (oc_rule oc, oc_skip oc)" for r'
      using Inr by (cases r'; cases oc; cases "rule_enter cx ti parents node rule") (auto simp: r enters_def split: if_splits)
    have "enter_rules cx ti parents node (r # rs) [] = Inr \<lparr>vs_rules = rs', vs_errors = []\<rparr> \<longleftrightarrow>
        oc_reports oc = [] \<and> (\<exists>rest. rs' = (oc_rule oc, oc_skip oc) # rest
          \<and> enter_rules cx ti parents node rs [] = Inr \<lparr>vs_rules = rest, vs_errors = []\<rparr>)"
    proof (cases "oc_reports oc = []")
      case True
      have "s\<lparr>vs_rules := q # vs_rules s\<rparr> = \<lparr>vs_rules = rs', vs_errors = []\<rparr> \<longleftrightarrow>
          (\<exists>rest. rs' = q # rest \<and> s = \<lparr>vs_rules = rest, vs_errors = []\<rparr>)" for s :: visit_state and q
        by (cases s) auto
      then show ?thesis unfolding r enter_rules.simps Inr by (auto simp: True bind_result_Inr_iff)
    next
      case False
      have "vs_errors s \<noteq> []" if "enter_rules cx ti parents node (r # rs) [] = Inr s" for s
      proof -
        from that Inr obtain errors1 s1 where "on_errors (vc_max_errors cx) [] (oc_reports oc) = Inr errors1"
          "enter_rules cx ti parents node rs errors1 = Inr s1" "vs_errors s = vs_errors s1"
          unfolding r enter_rules.simps Inr bind_result_Inr_iff by auto
        with enter_rules_grow [of cx ti parents node rs errors1 s1] False on_errors_Inr show ?thesis by fastforce
      qed
      then show ?thesis using False by fastforce
    qed
    then show ?thesis using Cons.IH entered by (auto simp: list_all2_Cons1)
  qed
qed auto

lemma leave_rules_clean:
  assumes "length marks = length rs"
  shows "leave_rules cx ti node marks rs [] = Inr \<lparr>vs_rules = rs', vs_errors = []\<rparr> \<longleftrightarrow>
    list_all2 (\<lambda>(before, r). leaves cx ti node before r) (zip marks rs) rs'"
  using assms
proof (induction rs arbitrary: marks rs')
  case (Cons r rs)
  obtain rule skips where r: "r = (rule, skips)" by (cases r)
  obtain before marks' where m: "marks = before # marks'" "length marks' = length rs"
    using Cons.prems by (cases marks) auto
  obtain es rule' where first: "(if skips then ([], rule) else rule_leave cx ti node rule) = (es, rule')" by fastforce
  have left: "leaves cx ti node before r r' \<longleftrightarrow> es = [] \<and> r' = (rule', before)" for r'
    using first by (cases r') (auto simp: r leaves_def split: if_splits)
  have "leave_rules cx ti node marks (r # rs) [] = Inr \<lparr>vs_rules = rs', vs_errors = []\<rparr> \<longleftrightarrow>
      es = [] \<and> (\<exists>rest. rs' = (rule', before) # rest
        \<and> leave_rules cx ti node marks' rs [] = Inr \<lparr>vs_rules = rest, vs_errors = []\<rparr>)"
  proof (cases "es = []")
    case True
    have "s\<lparr>vs_rules := q # vs_rules s\<rparr> = \<lparr>vs_rules = rs', vs_errors = []\<rparr> \<longleftrightarrow>
        (\<exists>rest. rs' = q # rest \<and> s = \<lparr>vs_rules = rest, vs_errors = []\<rparr>)" for s :: visit_state and q
      by (cases s) auto
    then show ?thesis unfolding r m leave_rules.simps first Let_def by (auto simp: True bind_result_Inr_iff)
  next
    case False
    have "vs_errors s \<noteq> []" if "leave_rules cx ti node marks (r # rs) [] = Inr s" for s
    proof -
      from that obtain errors1 s1 where "on_errors (vc_max_errors cx) [] es = Inr errors1"
        "leave_rules cx ti node marks' rs errors1 = Inr s1" "vs_errors s = vs_errors s1"
        unfolding r m leave_rules.simps first Let_def prod.case bind_result_Inr_iff by auto
      with leave_rules_grow [of cx ti node marks' rs errors1 s1] m(2) False on_errors_Inr show ?thesis by fastforce
    qed
    then show ?thesis using False by fastforce
  qed
  then show ?case using Cons.IH [OF m(2)] left by (auto simp: m list_all2_Cons1)
qed auto

text \<open>A tree that a rule passes alone: with the rule and its mark before and behind.\<close>

fun passes_tree ::
  "'w validation_context \<Rightarrow> ast_node option list \<Rightarrow> tree \<Rightarrow> 'w type_info \<Rightarrow> rule \<times> bool \<Rightarrow> rule \<times> bool \<Rightarrow> bool"
and passes_kids ::
  "'w validation_context \<Rightarrow> ast_node option list \<Rightarrow> kids \<Rightarrow> 'w type_info \<Rightarrow> rule \<times> bool \<Rightarrow> rule \<times> bool \<Rightarrow> bool" where
  "passes_tree cx parents (Tree node ks) ti r r' \<longleftrightarrow>
     (let ti1 = TypeInfo_enter (vc_meta cx) (vc_schema cx) node ti in
      \<exists>r1 r2. enters cx ti1 parents node r r1 \<and> passes_kids cx (Some node # parents) ks ti1 r1 r2
        \<and> leaves cx (ti_kids cx ks ti1) node (snd r) r2 r')"
| "passes_kids cx parents NoKids ti r r' \<longleftrightarrow> r' = r"
| "passes_kids cx parents (Kid in_tuple t ks) ti r r' \<longleftrightarrow>
     (\<exists>r1. passes_tree cx (if in_tuple then None # parents else parents) t ti r r1
        \<and> passes_kids cx parents ks (ti_tree cx t ti) r1 r')"

lemma list_all2_two: "(\<exists>ys. list_all2 P xs ys \<and> list_all2 Q ys zs) \<longleftrightarrow> list_all2 (\<lambda>x z. \<exists>y. P x y \<and> Q y z) xs zs"
  using list.rel_compp [of P Q] by (auto simp: relcompp_apply fun_eq_iff OO_def)

lemma list_all2_three:
  "(\<exists>ys zs. list_all2 P xs ys \<and> list_all2 Q ys zs \<and> list_all2 (\<lambda>(b, z). R b z) (zip (map f xs) zs) ws)
    \<longleftrightarrow> list_all2 (\<lambda>x w. \<exists>y z. P x y \<and> Q y z \<and> R (f x) z w) xs ws"
proof (induction xs arbitrary: ws)
  case (Cons x xs)
  show ?case (is "?l \<longleftrightarrow> ?r")
  proof
    assume ?l
    then obtain y z w ys zs ws' where "P x y" "Q y z" "R (f x) z w" "ws = w # ws'"
      "list_all2 P xs ys" "list_all2 Q ys zs" "list_all2 (\<lambda>(b, z). R b z) (zip (map f xs) zs) ws'"
      by (auto simp: list_all2_Cons1)
    with Cons.IH [of ws'] show ?r by auto
  next
    assume ?r
    then obtain y z w ws' where step: "P x y" "Q y z" "R (f x) z w" "ws = w # ws'"
      and "list_all2 (\<lambda>x w. \<exists>y z. P x y \<and> Q y z \<and> R (f x) z w) xs ws'"
      by (auto simp: list_all2_Cons1)
    with Cons.IH [of ws'] obtain ys zs where
      "list_all2 P xs ys" "list_all2 Q ys zs" "list_all2 (\<lambda>(b, z). R b z) (zip (map f xs) zs) ws'" by blast
    with step show ?l by (intro exI [of _ "y # ys"] exI [of _ "z # zs"]) simp
  qed
qed auto

lemma visit_clean:
  "visit_tree cx parents t (ti, \<lparr>vs_rules = rs, vs_errors = []\<rparr>) = Inr (ti', \<lparr>vs_rules = rs', vs_errors = []\<rparr>)
    \<longleftrightarrow> ti' = ti_tree cx t ti \<and> list_all2 (passes_tree cx parents t ti) rs rs'"
  "visit_kids cx parents ks (ti, \<lparr>vs_rules = rs, vs_errors = []\<rparr>) = Inr (ti', \<lparr>vs_rules = rs', vs_errors = []\<rparr>)
    \<longleftrightarrow> ti' = ti_kids cx ks ti \<and> list_all2 (passes_kids cx parents ks ti) rs rs'"
proof (induction t and ks arbitrary: parents ti rs ti' rs' and parents ti rs ti' rs')
  case (Tree node ks)
  let ?ti1 = "TypeInfo_enter (vc_meta cx) (vc_schema cx) node ti"
  have "visit_tree cx parents (Tree node ks) (ti, \<lparr>vs_rules = rs, vs_errors = []\<rparr>) = Inr (ti', \<lparr>vs_rules = rs', vs_errors = []\<rparr>)
    \<longleftrightarrow> (\<exists>rs1 rs2. enter_rules cx ?ti1 parents node rs [] = Inr \<lparr>vs_rules = rs1, vs_errors = []\<rparr>
        \<and> visit_kids cx (Some node # parents) ks (?ti1, \<lparr>vs_rules = rs1, vs_errors = []\<rparr>)
            = Inr (ti_kids cx ks ?ti1, \<lparr>vs_rules = rs2, vs_errors = []\<rparr>)
        \<and> leave_rules cx (ti_kids cx ks ?ti1) node (map snd rs) rs2 [] = Inr \<lparr>vs_rules = rs', vs_errors = []\<rparr>)
      \<and> ti' = TypeInfo_leave node (ti_kids cx ks ?ti1)" (is "?run \<longleftrightarrow> ?steps")
  proof
    assume ?run
    then obtain s1 ti2 s2 where
      s1: "enter_rules cx ?ti1 parents node rs [] = Inr s1" and
      s2: "visit_kids cx (Some node # parents) ks (?ti1, s1) = Inr (ti2, s2)" and
      s3: "leave_rules cx ti2 node (map snd rs) (vs_rules s2) (vs_errors s2) = Inr \<lparr>vs_rules = rs', vs_errors = []\<rparr>"
        "ti' = TypeInfo_leave node ti2"
      by (auto simp: Let_def bind_result_Inr_iff)
    from visit_grows(2) [OF s2] have ti2: "ti2 = ti_kids cx ks ?ti1" and s12: "grows s1 s2" by auto
    have "length (map snd rs) = length (vs_rules s2)"
      using enter_rules_grow [OF s1] s12 by (simp add: grows_def)
    from leave_rules_grow [OF s3(1) this] have "vs_errors s2 = []" by simp
    moreover from this have "vs_errors s1 = []" using s12 grows_clean by blast
    ultimately show ?steps using s1 s2 s3 ti2 by (cases s1; cases s2) auto
  next
    assume ?steps
    then show ?run by (auto simp: Let_def)
  qed
  also have "\<dots> \<longleftrightarrow> ti' = TypeInfo_leave node (ti_kids cx ks ?ti1) \<and>
      (\<exists>rs1 rs2. list_all2 (enters cx ?ti1 parents node) rs rs1 \<and> list_all2 (passes_kids cx (Some node # parents) ks ?ti1) rs1 rs2
        \<and> list_all2 (\<lambda>(before, r). leaves cx (ti_kids cx ks ?ti1) node before r) (zip (map snd rs) rs2) rs')"
  proof -
    have "length (map snd rs) = length rs2" if "list_all2 A rs rs1" "list_all2 B rs1 rs2" for A B rs1 rs2
      using that by (auto dest!: list_all2_lengthD)
    then show ?thesis unfolding enter_rules_clean Tree.IH using leave_rules_clean by blast
  qed
  finally show ?case unfolding list_all2_three by (simp add: Let_def)
next
  case (Kid in_tuple t ks)
  let ?parents = "if in_tuple then None # parents else parents"
  have "visit_kids cx parents (Kid in_tuple t ks) (ti, \<lparr>vs_rules = rs, vs_errors = []\<rparr>) = Inr (ti', \<lparr>vs_rules = rs', vs_errors = []\<rparr>)
    \<longleftrightarrow> (\<exists>rs1. visit_tree cx ?parents t (ti, \<lparr>vs_rules = rs, vs_errors = []\<rparr>) = Inr (ti_tree cx t ti, \<lparr>vs_rules = rs1, vs_errors = []\<rparr>)
        \<and> visit_kids cx parents ks (ti_tree cx t ti, \<lparr>vs_rules = rs1, vs_errors = []\<rparr>) = Inr (ti', \<lparr>vs_rules = rs', vs_errors = []\<rparr>))"
    (is "?run \<longleftrightarrow> ?steps")
  proof
    assume ?run
    then obtain ti1 s1 where s1: "visit_tree cx ?parents t (ti, \<lparr>vs_rules = rs, vs_errors = []\<rparr>) = Inr (ti1, s1)"
      and s2: "visit_kids cx parents ks (ti1, s1) = Inr (ti', \<lparr>vs_rules = rs', vs_errors = []\<rparr>)"
      by (auto simp: bind_result_Inr_iff)
    from visit_grows(2) [OF s2] have "vs_errors s1 = []" using grows_clean by fastforce
    with visit_grows(1) [OF s1] s1 s2 show ?steps by (cases s1) auto
  qed auto
  moreover have "passes_kids cx parents (Kid in_tuple t ks) ti =
      (\<lambda>r r'. \<exists>r1. passes_tree cx ?parents t ti r r1 \<and> passes_kids cx parents ks (ti_tree cx t ti) r1 r')"
    by (intro ext) simp
  ultimately show ?case unfolding Kid.IH list_all2_two [symmetric] ti_kids.simps by (simp only: list_all2_two [symmetric]) blast
next
  case NoKids
  have "passes_kids cx parents NoKids ti = (\<lambda>r r'. r' = r)" for parents and ti :: "'a type_info" by (intro ext) simp
  then show ?case by (auto simp: list.rel_eq [unfolded fun_eq_iff] eq_commute)
qed

lemma list_all2_total: "(\<exists>ys. list_all2 P xs ys) \<longleftrightarrow> (\<forall>x \<in> set xs. \<exists>y. P x y)"
  by (induction xs) (auto simp: list_all2_Cons1)

lemma visit_document_clean:
  "visit_document cx rules = Inr [] \<longleftrightarrow>
     (\<forall>r \<in> set rules. \<exists>r'. passes_tree cx [] (document_tree (vc_document cx)) TypeInfo_init (r, False) r')"
proof -
  let ?start = "(TypeInfo_init, \<lparr>vs_rules = map (\<lambda>r. (r, False)) rules, vs_errors = []\<rparr>)"
  have "visit_document cx rules = Inr [] \<longleftrightarrow>
      (\<exists>ti' rs'. visit_tree cx [] (document_tree (vc_document cx)) ?start = Inr (ti', \<lparr>vs_rules = rs', vs_errors = []\<rparr>))"
    unfolding visit_document_def
    by (auto split: sum.split stop.split prod.split) (metis visit_state.surjective unit.exhaust)
  then show ?thesis unfolding visit_clean(1) by (simp add: list_all2_total del: split_paired_Ex)
qed

lemma reads_locations_iff [simp]: "reads_locations r \<longleftrightarrow> r = KnownDirectivesRule"
  by (cases r) simp_all

lemma validate_clean:
  "validate cx rules = Inr [] \<longleftrightarrow>
      (unknown_location cx = None \<or> KnownDirectivesRule \<notin> set rules) \<and> visit_document cx rules = Inr []"
  by (auto simp: validate_def list_ex_iff split: option.split)

lemma validate_alone:
  "r \<noteq> KnownDirectivesRule \<Longrightarrow> validate cx [r] = Inr [] \<longleftrightarrow>
     (\<exists>r'. passes_tree cx [] (document_tree (vc_document cx)) TypeInfo_init (r, False) r')"
  unfolding validate_clean visit_document_clean by simp

lemma validate_composed: "validate cx rules = Inr [] \<Longrightarrow> r \<in> set rules \<Longrightarrow> validate cx [r] = Inr []"
  unfolding validate_clean visit_document_clean by auto

text \<open>C33. Rules in parallel do not disturb each other: a document passes \<open>validate\<close> with a list of rules exactly when it
  passes it with each of them alone, whatever the limit on errors.\<close>

theorem validate_composes:
  "validate cx rules = Inr [] \<longleftrightarrow> (\<forall>r \<in> set rules. validate cx [r] = Inr [])"
  unfolding validate_clean visit_document_clean by auto

end
