(* ===== verification/Fragment_Cycles.thy ===== *)
theory Fragment_Cycles
  imports Validation_Walk
begin

text \<open>
  What the rules on fragments decide: the search of \<open>NoFragmentCyclesRule\<close> is an interpretation of the locale
  \<open>cycle_search\<close>, on the graph whose nodes are the names of the fragments and whose edges are the spreads.
\<close>

section \<open>The graph of the fragments\<close>

definition fragment_names :: "document_node \<Rightarrow> pystr set" where
  "fragment_names document = fst ` set (document_fragments document)"

definition spread_edges :: "document_node \<Rightarrow> pystr \<Rightarrow> selection_node list" where
  "spread_edges document name =
     (case get_fragment document name of Some f \<Rightarrow> get_fragment_spreads (frag_selection_set f) | None \<Rightarrow> [])"

definition spread_target :: "selection_node \<Rightarrow> pystr" where
  "spread_target spread = name_value (spread_name spread)"

definition explore_fragment :: "document_node \<Rightarrow> nat \<Rightarrow> pystr \<Rightarrow> selection_node search \<Rightarrow> selection_node search option" where
  "explore_fragment document n name s =
     (case get_fragment document name of Some f \<Rightarrow> detect_cycle_recursive n document f s | None \<Rightarrow> Some s)"

lemma document_fragments_named:
  assumes "(name, f) \<in> set (document_fragments document)"
  shows "name_value (frag_name f) = name" and "FragmentDefinition f \<in> set (document_definitions document)"
proof -
  let ?ok = "\<lambda>defs fragments. \<forall>(name, f) \<in> set fragments. name_value (frag_name f) = name \<and> FragmentDefinition f \<in> set defs"
  have "?ok (pre @ defs) (fold (\<lambda>d fragments. case d of
       FragmentDefinition fragment \<Rightarrow> dict_set (name_value (frag_name fragment)) fragment fragments
     | _ \<Rightarrow> fragments) defs fragments)" if "?ok pre fragments" for pre defs fragments
    using that
  proof (induction defs arbitrary: pre fragments)
    case (Cons d defs)
    have "?ok (pre @ [d]) (case d of
       FragmentDefinition fragment \<Rightarrow> dict_set (name_value (frag_name fragment)) fragment fragments
     | _ \<Rightarrow> fragments)"
      using Cons.prems by (cases d) (auto dest!: set_dict_set)
    from Cons.IH [OF this] show ?case by simp
  qed simp
  from this [of "[]" "[]"] assms show "name_value (frag_name f) = name"
    and "FragmentDefinition f \<in> set (document_definitions document)"
    by (auto simp: document_fragments_def)
qed

lemma get_fragment_named: "get_fragment document name = Some f \<Longrightarrow> name_value (frag_name f) = name"
  unfolding get_fragment_def by (rule document_fragments_named(1)) (rule map_of_SomeD)

lemma get_fragment_None: "get_fragment document name = None \<longleftrightarrow> name \<notin> fragment_names document"
  by (simp add: get_fragment_def fragment_names_def map_of_eq_None_iff)

lemma detect_cycle_recursive_explores:
  assumes "get_fragment document name = Some f"
  shows "detect_cycle_recursive (Suc n) document f s =
    (if name \<in> visited s then Some s
     else if spread_edges document name = [] then Some (s\<lparr>visited := insert name (visited s)\<rparr>)
     else map_option (leave_node_of name)
       (search_edges spread_target (explore_fragment document n) (spread_edges document name) (enter_node name s)))"
  using get_fragment_named [OF assms]
  by (simp add: Let_def spread_edges_def assms enter_node_def explore_fragment_def [abs_def] spread_target_def [abs_def])

interpretation fragment_search: cycle_search
  "spread_edges document" spread_target "fragment_names document" "explore_fragment document"
  for document :: document_node
proof unfold_locales
  fix name n and s :: "selection_node search"
  show "finite (fragment_names document)" by (simp add: fragment_names_def)
  show "name \<notin> fragment_names document \<Longrightarrow> spread_edges document name = []"
    by (simp add: spread_edges_def flip: get_fragment_None)
  show "name \<notin> fragment_names document \<Longrightarrow> explore_fragment document n name s = Some s"
    by (simp add: explore_fragment_def flip: get_fragment_None)
  {
    assume "name \<in> fragment_names document"
    then obtain f where f: "get_fragment document name = Some f" using get_fragment_None by (cases "get_fragment document name") auto
    show "explore_fragment document 0 name s = None" by (simp add: explore_fragment_def f)
    note step = detect_cycle_recursive_explores [OF f]
    show "name \<in> visited s \<Longrightarrow> explore_fragment document (Suc n) name s = Some s"
      unfolding explore_fragment_def f option.case step by simp
    show "explore_fragment document (Suc n) name s = map_option (leave_node_of name)
        (search_edges spread_target (explore_fragment document n) (spread_edges document name) (enter_node name s))"
      if "name \<notin> visited s" "trail_index s name = None"
    proof -
      have "leave_node_of name (enter_node name s) = s\<lparr>visited := insert name (visited s)\<rparr>"
        using that(2) by (cases s) (simp add: leave_node_of_def enter_node_def fun_upd_idem)
      with that(1) show ?thesis
        unfolding explore_fragment_def [of _ "Suc n"] f option.case step by simp
    qed
  }
qed

section \<open>Rules on whole definitions\<close>

text \<open>The nodes of a tree.\<close>

fun tree_nodes :: "tree \<Rightarrow> ast_node set" and kids_nodes :: "kids \<Rightarrow> ast_node set" where
  "tree_nodes (Tree node ks) = insert node (kids_nodes ks)"
| "kids_nodes NoKids = {}"
| "kids_nodes (Kid in_tuple t ks) = tree_nodes t \<union> kids_nodes ks"

lemma kids_nodes_simps [simp]:
  "kids_nodes (append_kids ks ks') = kids_nodes ks \<union> kids_nodes ks'"
  "kids_nodes (one t) = tree_nodes t"
  "kids_nodes (optional f x) = (case x of Some y \<Rightarrow> tree_nodes (f y) | None \<Rightarrow> {})"
  "kids_nodes (tuple_of ts) = \<Union> (tree_nodes ` set ts)"
  "kids_nodes (optional_tuple g xs) = \<Union> (tree_nodes ` g ` set (case xs of Some ys \<Rightarrow> ys | None \<Rightarrow> []))"
  "kids_nodes (all_kids kss) = \<Union> (kids_nodes ` set kss)"
proof -
  show append: "kids_nodes (append_kids ks ks') = kids_nodes ks \<union> kids_nodes ks'" for ks ks'
    by (induction ks ks' rule: append_kids.induct) auto
  show tuple: "kids_nodes (tuple_of ts) = \<Union> (tree_nodes ` set ts)" for ts by (induction ts) auto
  show "kids_nodes (one t) = tree_nodes t" by (simp add: one_def)
  show "kids_nodes (optional f x) = (case x of Some y \<Rightarrow> tree_nodes (f y) | None \<Rightarrow> {})"
    by (simp add: optional_def one_def split: option.split)
  show "kids_nodes (optional_tuple g xs) = \<Union> (tree_nodes ` g ` set (case xs of Some ys \<Rightarrow> ys | None \<Rightarrow> []))"
    by (simp add: optional_tuple_def tuple)
  show "kids_nodes (all_kids kss) = \<Union> (kids_nodes ` set kss)"
    by (induction kss) (simp_all add: all_kids_def append)
qed

text \<open>A rule that does nothing on the nodes of a tree.\<close>

definition ignores :: "'w validation_context \<Rightarrow> rule \<Rightarrow> ast_node \<Rightarrow> bool" where
  "ignores cx rule node \<longleftrightarrow> (\<forall>ti parents. rule_enter cx ti parents node rule = quiet rule) \<and> (\<forall>ti. rule_leave cx ti node rule = ([], rule))"

lemma passes_ignored:
  "\<forall>node \<in> tree_nodes t. ignores cx rule node \<Longrightarrow> passes_tree cx parents t ti (rule, False) r' \<longleftrightarrow> r' = (rule, False)"
  "\<forall>node \<in> kids_nodes ks. ignores cx rule node \<Longrightarrow> passes_kids cx parents ks ti (rule, False) r' \<longleftrightarrow> r' = (rule, False)"
proof (induction t and ks arbitrary: parents ti r' and parents ti r')
  case (Tree node ks)
  have "enters cx ti1 parents node (rule, False) r1 \<longleftrightarrow> r1 = (rule, False)" for ti1 r1
    using Tree.prems by (cases r1) (auto simp: enters_def ignores_def quiet_def)
  moreover have "leaves cx ti1 node False (rule, False) r1 \<longleftrightarrow> r1 = (rule, False)" for ti1 r1
    using Tree.prems by (cases r1) (auto simp: leaves_def ignores_def)
  ultimately show ?case using Tree.IH Tree.prems by (simp del: split_paired_Ex add: Let_def)
qed (simp_all del: split_paired_Ex)

lemma passes_skipped:
  "passes_tree cx parents t ti (rule, True) r' \<longleftrightarrow> r' = (rule, True)"
  "passes_kids cx parents ks ti (rule, True) r' \<longleftrightarrow> r' = (rule, True)"
proof (induction t and ks arbitrary: parents ti r' and parents ti r')
  case (Tree node ks)
  then show ?case by (simp del: split_paired_Ex add: Let_def enters_def leaves_def)
qed (simp_all del: split_paired_Ex)

text \<open>A rule that skips a node when it enters it.\<close>

lemma passes_skipping:
  assumes "\<And>ti parents. rule_enter cx ti parents node rule = Inr \<lparr>oc_reports = es, oc_skip = True, oc_rule = rule'\<rparr>"
  shows "passes_tree cx parents (Tree node ks) ti (rule, False) r' \<longleftrightarrow> es = [] \<and> r' = (rule', False)"
proof -
  have "enters cx ti1 parents node (rule, False) r1 \<longleftrightarrow> es = [] \<and> r1 = (rule', True)" for ti1 r1
    using assms by (cases r1) (auto simp: enters_def)
  moreover have "leaves cx ti1 node False (rule', True) r1 \<longleftrightarrow> r1 = (rule', False)" for ti1 r1
    by (simp add: leaves_def)
  ultimately show ?thesis by (simp del: split_paired_Ex add: Let_def passes_skipped)
qed

text \<open>The nodes below a type system definition are no definitions that can be executed.\<close>

fun inner_node :: "ast_node \<Rightarrow> bool" where
  "inner_node (DocumentN d) = False"
| "inner_node (OperationN d) = False"
| "inner_node (FragmentN d) = False"
| "inner_node _ = True"

lemma inner_type: "\<forall>node \<in> tree_nodes (type_tree t). inner_node node"
  by (induction t) (auto simp: named_type_tree_def name_tree_def)

lemma inner_value:
  "\<forall>node \<in> tree_nodes (value_tree v). inner_node node"
  "\<forall>node \<in> tree_nodes (object_field_tree f). inner_node node"
  by (induction v and f) (auto simp: variable_tree_def name_tree_def)

lemma inner_parts:
  "\<forall>node \<in> tree_nodes (name_tree n). inner_node node"
  "\<forall>node \<in> tree_nodes (named_type_tree t). inner_node node"
  "\<forall>node \<in> tree_nodes (argument_tree a). inner_node node"
  "\<forall>node \<in> tree_nodes (directive_tree d). inner_node node"
  "\<forall>node \<in> tree_nodes (operation_type_tree ot). inner_node node"
  "\<forall>node \<in> tree_nodes (input_value_tree iv). inner_node node"
  "\<forall>node \<in> tree_nodes (field_definition_tree fd). inner_node node"
  "\<forall>node \<in> tree_nodes (enum_value_tree ev). inner_node node"
  using inner_type inner_value
  by (auto simp: name_tree_def named_type_tree_def argument_tree_def directive_tree_def operation_type_tree_def
      input_value_tree_def field_definition_tree_def enum_value_tree_def split: option.splits)

lemma inner_definition:
  "\<not> is_executable d \<Longrightarrow> \<forall>node \<in> tree_nodes (definition_tree d). inner_node node"
  using inner_parts by (cases d) (auto simp: definition_tree_def split: option.splits)

text \<open>A definition that the rules skip as a whole: the rule behind the definitions of a document.\<close>

fun passes_definitions :: "(definition_node \<Rightarrow> rule \<Rightarrow> rule option) \<Rightarrow> definition_node list \<Rightarrow> rule \<Rightarrow> rule option" where
  "passes_definitions f [] rule = Some rule"
| "passes_definitions f (d # ds) rule = Option.bind (f d rule) (passes_definitions f ds)"

lemma passes_document:
  assumes step: "\<And>d rule ti parents r'. ok rule \<Longrightarrow> passes_tree cx parents (definition_tree d) ti (rule, False) r' \<longleftrightarrow>
      (\<exists>rule'. f d rule = Some rule' \<and> r' = (rule', False))"
    and ok: "\<And>d rule rule'. ok rule \<Longrightarrow> f d rule = Some rule' \<Longrightarrow> ok rule'"
    and document: "\<And>rule. ok rule \<Longrightarrow> ignores cx rule (DocumentN (vc_document cx))"
    and "ok rule"
  shows "(\<exists>r'. passes_tree cx [] (document_tree (vc_document cx)) TypeInfo_init (rule, False) r') \<longleftrightarrow>
    passes_definitions f (document_definitions (vc_document cx)) rule \<noteq> None"
proof -
  have kids: "passes_kids cx parents (tuple_of (map definition_tree ds)) ti (rule, False) r' \<longleftrightarrow>
      (\<exists>rule'. passes_definitions f ds rule = Some rule' \<and> r' = (rule', False))" if "ok rule" for ds parents ti rule r'
    using that
  proof (induction ds arbitrary: ti rule)
    case (Cons d ds)
    show ?case
    proof (cases "f d rule")
      case (Some rule1)
      with ok Cons have "ok rule1" by blast
      from Cons.IH [OF this] step [OF Cons.prems] Some show ?thesis by (simp del: split_paired_Ex)
    qed (use step [OF Cons.prems] in \<open>simp del: split_paired_Ex\<close>)
  qed auto
  have still_ok: "ok rule'" if "passes_definitions f ds rule = Some rule'" "ok rule" for ds rule rule'
    using that by (induction ds arbitrary: rule) (auto simp: bind_eq_Some_conv dest: ok)
  have entered: "enters cx ti parents (DocumentN (vc_document cx)) (rule, False) r' \<longleftrightarrow> r' = (rule, False)" if "ok rule" for ti parents rule r'
    using document [OF that] by (cases r') (auto simp: enters_def ignores_def quiet_def)
  have left: "leaves cx ti (DocumentN (vc_document cx)) False (rule, False) r' \<longleftrightarrow> r' = (rule, False)" if "ok rule" for ti rule r'
    using document [OF that] by (cases r') (auto simp: leaves_def ignores_def)
  let ?ti = "TypeInfo_enter (vc_meta cx) (vc_schema cx) (DocumentN (vc_document cx)) TypeInfo_init"
  let ?ks = "tuple_of (map definition_tree (document_definitions (vc_document cx)))"
  have tree: "passes_tree cx [] (document_tree (vc_document cx)) TypeInfo_init (rule, False) r' \<longleftrightarrow>
      (\<exists>rule'. passes_definitions f (document_definitions (vc_document cx)) rule = Some rule'
        \<and> leaves cx (ti_kids cx ?ks ?ti) (DocumentN (vc_document cx)) False (rule', False) r')" for r'
    by (simp add: document_tree_def Let_def entered \<open>ok rule\<close> kids del: split_paired_Ex) blast
  show ?thesis
  proof (cases "passes_definitions f (document_definitions (vc_document cx)) rule")
    case (Some rule')
    with still_ok [OF Some \<open>ok rule\<close>] show ?thesis unfolding tree by (simp del: split_paired_Ex add: left)
  qed (simp add: tree del: split_paired_Ex)
qed

section \<open>Unique names\<close>

fun fragments_in :: "definition_node list \<Rightarrow> fragment_definition_node list" where
  "fragments_in [] = []"
| "fragments_in (FragmentDefinition f # ds) = f # fragments_in ds"
| "fragments_in (d # ds) = fragments_in ds"

definition fragment_defs :: "document_node \<Rightarrow> fragment_definition_node list" where
  "fragment_defs document = fragments_in (document_definitions document)"

definition fragment_name :: "fragment_definition_node \<Rightarrow> pystr" where
  "fragment_name f = name_value (frag_name f)"

lemma ignores_inner:
  assumes "\<not> is_executable d" and "\<And>node. inner_node node \<Longrightarrow> ignores cx rule node"
  shows "passes_tree cx parents (definition_tree d) ti (rule, False) r' \<longleftrightarrow> r' = (rule, False)"
  by (rule passes_ignored(1)) (use assms inner_definition in blast)

definition unique_step :: "definition_node \<Rightarrow> rule \<Rightarrow> rule option" where
  "unique_step d rule =
     (case (d, rule) of
        (FragmentDefinition f, UniqueFragmentNamesRule known) \<Rightarrow>
          if fragment_name f \<in> fst ` set known then None
          else Some (UniqueFragmentNamesRule (dict_set (fragment_name f) (frag_name f) known))
      | _ \<Rightarrow> Some rule)"

lemma unique_names_ignores: "inner_node node \<Longrightarrow> ignores cx (UniqueFragmentNamesRule known) node"
  by (cases node) (auto simp: ignores_def rule_enter_def rule_leave_def)

lemma unique_names_step:
  "passes_tree cx parents (definition_tree d) ti (UniqueFragmentNamesRule known, False) r' \<longleftrightarrow>
     (\<exists>rule'. unique_step d (UniqueFragmentNamesRule known) = Some rule' \<and> r' = (rule', False))"
proof (cases "is_executable d")
  case True
  then consider f where "d = FragmentDefinition f" | op where "d = OperationDefinition op" by (cases d) auto
  then show ?thesis
  proof cases
    case 1
    have "rule_enter cx ti parents (FragmentN f) (UniqueFragmentNamesRule known) =
        Inr \<lparr>oc_reports = fst (see_name ''There can be only one fragment with the name.'' known (frag_name f)), oc_skip = True,
          oc_rule = UniqueFragmentNamesRule (snd (see_name ''There can be only one fragment with the name.'' known (frag_name f)))\<rparr>" for ti parents
      by (simp add: rule_enter_def reporting_skip_def split: prod.split)
    from passes_skipping [OF this] show ?thesis
      by (auto simp: 1 definition_tree_def fragment_tree_def unique_step_def see_name_def fragment_name_def split: option.splits
          dest: map_of_SomeD) (force dest: map_of_SomeD simp: map_of_eq_None_iff image_iff)+
  next
    case 2
    have "rule_enter cx ti parents (OperationN op) (UniqueFragmentNamesRule known) =
        Inr \<lparr>oc_reports = [], oc_skip = True, oc_rule = UniqueFragmentNamesRule known\<rparr>" for ti parents
      by (simp add: rule_enter_def skipping_def)
    from passes_skipping [OF this] show ?thesis
      by (simp add: 2 definition_tree_def operation_tree_def unique_step_def)
  qed
next
  case False
  with ignores_inner [OF this unique_names_ignores, of cx parents ti known r'] show ?thesis
    by (cases d) (auto simp: unique_step_def)
qed

lemma unique_definitions:
  "passes_definitions unique_step ds (UniqueFragmentNamesRule known) \<noteq> None \<longleftrightarrow>
     distinct (map fragment_name (fragments_in ds))
     \<and> fst ` set known \<inter> fragment_name ` set (fragments_in ds) = {}"
proof (induction ds arbitrary: known)
  case (Cons d ds)
  then show ?case by (cases d) (auto simp: unique_step_def)
qed simp

text \<open>\<open>UniqueFragmentNamesRule\<close> accepts the documents whose fragments have different names.\<close>

lemma unique_fragment_names_exact:
  "validate cx [UniqueFragmentNamesRule []] = Inr [] \<longleftrightarrow> distinct (map fragment_name (fragment_defs (vc_document cx)))"
proof -
  let ?ok = "\<lambda>rule. \<exists>known. rule = UniqueFragmentNamesRule known"
  have "(\<exists>r'. passes_tree cx [] (document_tree (vc_document cx)) TypeInfo_init (UniqueFragmentNamesRule [], False) r') \<longleftrightarrow>
      passes_definitions unique_step (document_definitions (vc_document cx)) (UniqueFragmentNamesRule []) \<noteq> None"
  proof (rule passes_document [of ?ok])
    show "?ok rule \<Longrightarrow> unique_step d rule = Some rule' \<Longrightarrow> ?ok rule'" for d rule rule'
      by (auto simp: unique_step_def split: definition_node.splits if_splits)
    show "?ok rule \<Longrightarrow> ignores cx rule (DocumentN (vc_document cx))" for rule
      by (auto simp: ignores_def rule_enter_def rule_leave_def)
  qed (auto simp: unique_names_step simp del: split_paired_Ex split_paired_All)
  then show ?thesis
    by (simp add: validate_alone unique_definitions fragment_defs_def del: split_paired_Ex not_None_eq)
qed

lemma fragments_in_set: "f \<in> set (fragments_in ds) \<longleftrightarrow> FragmentDefinition f \<in> set ds"
  by (induction ds rule: fragments_in.induct) auto

lemma fragment_names_set: "fragment_names document = fragment_name ` set (fragment_defs document)"
proof -
  have "fst ` set (fold (\<lambda>d fragments. case d of
       FragmentDefinition fragment \<Rightarrow> dict_set (name_value (frag_name fragment)) fragment fragments
     | _ \<Rightarrow> fragments) ds fragments) = fst ` set fragments \<union> fragment_name ` set (fragments_in ds)" for ds fragments
    by (induction ds arbitrary: fragments rule: fragments_in.induct) (auto simp: fragment_name_def)
  then show ?thesis by (simp add: fragment_names_def document_fragments_def fragment_defs_def)
qed

lemma get_fragment_unique:
  assumes "distinct (map fragment_name (fragment_defs document))" and "f \<in> set (fragment_defs document)"
  shows "get_fragment document (fragment_name f) = Some f"
proof -
  from assms(2) have "fragment_name f \<in> fragment_names document" by (simp add: fragment_names_set)
  with get_fragment_None obtain g where g: "get_fragment document (fragment_name f) = Some g" by blast
  then have "(fragment_name f, g) \<in> set (document_fragments document)" unfolding get_fragment_def by (rule map_of_SomeD)
  then have "g \<in> set (fragment_defs document)" and "fragment_name g = fragment_name f"
    using document_fragments_named by (simp_all add: fragment_defs_def fragments_in_set fragment_name_def)
  with assms have "g = f" by (simp add: distinct_map inj_on_def)
  with g show ?thesis by simp
qed

lemma get_fragment_defined: "get_fragment document name = Some f \<Longrightarrow> f \<in> set (fragment_defs document)"
  using document_fragments_named(2)
  by (fastforce simp: get_fragment_def fragment_defs_def fragments_in_set dest: map_of_SomeD)

section \<open>Cycles\<close>

text \<open>The names that are spread somewhere in a selection, and the graph of the spreads of a document.\<close>

fun spread_names :: "selection_node \<Rightarrow> pystr set" and spread_names_in :: "selection_set_node \<Rightarrow> pystr set" where
  "spread_names (FieldNode name alias_node arguments directives selection_set loc) =
     (case selection_set of Some ss \<Rightarrow> spread_names_in ss | None \<Rightarrow> {})"
| "spread_names (FragmentSpreadNode name arguments directives loc) = {name_value name}"
| "spread_names (InlineFragmentNode selection_set type_condition directives loc) = spread_names_in selection_set"
| "spread_names_in (SelectionSetNode nodes loc) = \<Union> (spread_names ` set nodes)"

definition spread_graph :: "document_node \<Rightarrow> (pystr \<times> pystr) set" where
  "spread_graph document = {(fragment_name f, fragment_name g) | f g. f \<in> set (fragment_defs document) \<and>
     g \<in> set (fragment_defs document) \<and> fragment_name g \<in> spread_names_in (frag_selection_set f)}"

lemma spread_names_split:
  "\<Union> (spread_names ` set nodes) =
     spread_target ` set (filter is_spread nodes) \<union> \<Union> (spread_names_in ` set (child_sets nodes))"
proof (induction nodes)
  case (Cons s nodes)
  then show ?case by (cases s) (auto simp: spread_target_def split: option.splits)
qed simp

lemma spreads_loop_names:
  "spread_target ` set (spreads_loop sets spreads) = spread_target ` set spreads \<union> \<Union> (spread_names_in ` set sets)"
proof (induction sets spreads rule: spreads_loop.induct)
  case (2 visited_set sets_to_visit spreads)
  have "spread_names_in visited_set = \<Union> (spread_names ` set (selections visited_set))" by (cases visited_set) simp
  with 2 spread_names_split [of "selections visited_set"] show ?case by auto
qed simp

text \<open>\<open>get_fragment_spreads\<close> finds every spread at every depth.\<close>

lemma get_fragment_spreads_names: "spread_target ` set (get_fragment_spreads ss) = spread_names_in ss"
  by (simp add: get_fragment_spreads_def spreads_loop_names del: spreads_loop.simps)

lemma successor_spread_graph:
  assumes "distinct (map fragment_name (fragment_defs document))"
  shows "fragment_search.successor document = spread_graph document"
proof (intro set_eqI iffI; clarify)
  fix v w assume "(v, w) \<in> fragment_search.successor document"
  then obtain e where e: "e \<in> set (spread_edges document v)" "w = spread_target e" "w \<in> fragment_names document"
    by (auto simp: fragment_search.successor_def)
  from e(1) obtain f where f: "get_fragment document v = Some f" "e \<in> set (get_fragment_spreads (frag_selection_set f))"
    by (cases "get_fragment document v") (simp_all add: spread_edges_def)
  have "fragment_name f = v" using get_fragment_named [OF f(1)] by (simp add: fragment_name_def)
  moreover have "w \<in> spread_names_in (frag_selection_set f)" using f(2) e(2) get_fragment_spreads_names by blast
  ultimately show "(v, w) \<in> spread_graph document"
    using get_fragment_defined [OF f(1)] e(3) by (auto simp: spread_graph_def fragment_names_set)
next
  fix v w assume "(v, w) \<in> spread_graph document"
  then obtain f g where fg: "v = fragment_name f" "w = fragment_name g" "f \<in> set (fragment_defs document)"
    "g \<in> set (fragment_defs document)" "w \<in> spread_names_in (frag_selection_set f)" by (auto simp: spread_graph_def)
  from fg(5) obtain e where "e \<in> set (get_fragment_spreads (frag_selection_set f))" "w = spread_target e"
    using get_fragment_spreads_names by blast
  then show "(v, w) \<in> fragment_search.successor document"
    unfolding fragment_search.successor_def using get_fragment_unique [OF assms fg(3)] fg
    by (auto simp: spread_edges_def fragment_names_set intro!: exI [of _ e] image_eqI [of _ fragment_name g])
qed

definition cycle_step :: "document_node \<Rightarrow> definition_node \<Rightarrow> rule \<Rightarrow> rule option" where
  "cycle_step document d rule =
     (case (d, rule) of
        (FragmentDefinition f, NoFragmentCyclesRule s) \<Rightarrow>
          (case detect_cycle_recursive (length (document_definitions document) + 2) document f s of
             Some s' \<Rightarrow> if cycles s' = [] then Some (NoFragmentCyclesRule s') else None
           | None \<Rightarrow> None)
      | _ \<Rightarrow> Some rule)"

lemma cycles_ignores: "inner_node node \<Longrightarrow> ignores cx (NoFragmentCyclesRule s) node"
  by (cases node) (auto simp: ignores_def rule_enter_def rule_leave_def)

lemma cycles_step:
  assumes "cycles s = []"
  shows "passes_tree cx parents (definition_tree d) ti (NoFragmentCyclesRule s, False) r' \<longleftrightarrow>
     (\<exists>rule'. cycle_step (vc_document cx) d (NoFragmentCyclesRule s) = Some rule' \<and> r' = (rule', False))"
proof (cases "is_executable d")
  case True
  then consider f where "d = FragmentDefinition f" | op where "d = OperationDefinition op" by (cases d) auto
  then show ?thesis
  proof cases
    case 1
    let ?run = "detect_cycle_recursive (length (document_definitions (vc_document cx)) + 2) (vc_document cx) f s"
    show ?thesis
    proof (cases ?run)
      case None
      then have "rule_enter cx ti parents (FragmentN f) (NoFragmentCyclesRule s) = Inl OutOfFuel" for ti parents
        by (simp add: rule_enter_def cycle_outcome_def)
      with None show ?thesis
        by (simp add: 1 definition_tree_def fragment_tree_def cycle_step_def enters_def Let_def)
    next
      case (Some s')
      have "rule_enter cx ti parents (FragmentN f) (NoFragmentCyclesRule s) =
          Inr \<lparr>oc_reports = map (\<lambda>(name, path). (str ''Cannot spread fragment within itself.'', map SelectionN path)) (cycles s'),
            oc_skip = True, oc_rule = NoFragmentCyclesRule s'\<rparr>" for ti parents
        using Some assms by (simp add: rule_enter_def cycle_outcome_def reporting_skip_def)
      from passes_skipping [OF this] Some show ?thesis
        by (simp add: 1 definition_tree_def fragment_tree_def cycle_step_def)
    qed
  next
    case 2
    have "rule_enter cx ti parents (OperationN op) (NoFragmentCyclesRule s) =
        Inr \<lparr>oc_reports = [], oc_skip = True, oc_rule = NoFragmentCyclesRule s\<rparr>" for ti parents
      by (simp add: rule_enter_def skipping_def)
    from passes_skipping [OF this] show ?thesis
      by (simp add: 2 definition_tree_def operation_tree_def cycle_step_def)
  qed
next
  case False
  with ignores_inner [OF this cycles_ignores, of cx parents ti s r'] show ?thesis
    by (cases d) (auto simp: cycle_step_def)
qed

lemma cycle_definitions:
  assumes "set (fragments_in ds) \<subseteq> set (fragment_defs document)" and "distinct (map fragment_name (fragment_defs document))"
    and "trail_index s = Map.empty" "cycles s = []" "fragment_search.settled document s" "fragment_search.true_cycles document s"
  shows "passes_definitions (cycle_step document) ds (NoFragmentCyclesRule s) \<noteq> None \<longleftrightarrow>
    (\<exists>s'. fragment_search.search_all document (length (document_definitions document) + 2) (map fragment_name (fragments_in ds)) s
       = Some s' \<and> cycles s' = [])"
  using assms(1,3-6)
proof (induction ds arbitrary: s rule: fragments_in.induct)
  case (2 f ds)
  let ?n = "length (document_definitions document) + 2"
  have here: "detect_cycle_recursive ?n document f s = explore_fragment document ?n (fragment_name f) s"
    using get_fragment_unique [OF assms(2)] 2(2) by (simp add: explore_fragment_def)
  have one: "fragment_search.search_all document ?n [fragment_name f] s = explore_fragment document ?n (fragment_name f) s"
    by (simp add: fragment_search.search_all_simps split: option.split)
  have step: "cycle_step document (FragmentDefinition f) (NoFragmentCyclesRule s) =
      (case explore_fragment document ?n (fragment_name f) s of
         Some s' \<Rightarrow> if cycles s' = [] then Some (NoFragmentCyclesRule s') else None
       | None \<Rightarrow> None)"
    by (simp only: cycle_step_def prod.case definition_node.case rule.case here)
  show ?case
  proof (cases "explore_fragment document ?n (fragment_name f) s")
    case (Some s1)
    with one fragment_search.search_all_explores [of document ?n "[fragment_name f]" s s1] 2(3-6)
    have s1: "trail_index s1 = Map.empty" "fragment_search.settled document s1" "fragment_search.true_cycles document s1" by auto
    show ?thesis
    proof (cases "cycles s1 = []")
      case True
      with 2(1) [OF _ s1(1) _ s1(2,3)] 2(2) Some show ?thesis
        by (simp add: step fragment_search.search_all_simps)
    next
      case False
      with fragment_search.search_all_explores [of document ?n "map fragment_name (fragments_in ds)" s1] s1 Some show ?thesis
        by (auto simp: step fragment_search.search_all_simps)
    qed
  qed (simp add: step fragment_search.search_all_simps)
qed (simp_all add: cycle_step_def fragment_search.search_all_simps)

lemma fragment_cycles_found:
  assumes "distinct (map fragment_name (fragment_defs (vc_document cx)))"
  shows "validate cx [NoFragmentCyclesRule no_search] = Inr [] \<longleftrightarrow> acyclic (spread_graph (vc_document cx))"
proof -
  let ?document = "vc_document cx" and ?ok = "\<lambda>rule. \<exists>s. rule = NoFragmentCyclesRule s \<and> cycles s = []"
  let ?n = "length (document_definitions ?document) + 2" and ?names = "map fragment_name (fragment_defs ?document)"
  have start: "trail_index no_search = Map.empty" "cycles no_search = []" "fragment_search.settled ?document no_search"
    "fragment_search.true_cycles ?document no_search"
    by (simp_all add: no_search_def fragment_search.settled_def fragment_search.true_cycles_def)
  have "(\<exists>r'. passes_tree cx [] (document_tree ?document) TypeInfo_init (NoFragmentCyclesRule no_search, False) r') \<longleftrightarrow>
      passes_definitions (cycle_step ?document) (document_definitions ?document) (NoFragmentCyclesRule no_search) \<noteq> None"
  proof (rule passes_document [of ?ok])
    show "?ok rule \<Longrightarrow> cycle_step ?document d rule = Some rule' \<Longrightarrow> ?ok rule'" for d rule rule'
      by (auto simp: cycle_step_def split: definition_node.splits option.splits if_splits)
    show "?ok rule \<Longrightarrow> ignores cx rule (DocumentN ?document)" for rule
      by (auto simp: ignores_def rule_enter_def rule_leave_def)
  qed (auto simp: cycles_step start(2) simp del: split_paired_Ex split_paired_All)
  also have "\<dots> \<longleftrightarrow> (\<exists>s'. fragment_search.search_all ?document ?n ?names no_search = Some s' \<and> cycles s' = [])"
    using cycle_definitions [OF _ assms start] by (simp add: fragment_defs_def)
  also have "\<dots> \<longleftrightarrow> acyclic (fragment_search.successor ?document)"
  proof -
    have "length (fragments_in ds) \<le> length ds" for ds by (induction ds rule: fragments_in.induct) auto
    moreover have "card (fragment_names ?document) \<le> length (fragment_defs ?document)"
      unfolding fragment_names_set by (metis card_length length_map list.set_map)
    ultimately have "card (fragment_names ?document) < ?n" unfolding fragment_defs_def by (metis le_trans less_add_Suc1 add_2_eq_Suc' less_SucI le_imp_less_Suc)
    from fragment_search.search_all_returns [OF this start(1)]
    obtain s' where s': "fragment_search.search_all ?document ?n ?names no_search = Some s'" by blast
    with fragment_search.search_exact(1) [OF s'] show ?thesis by (simp add: fragment_names_set)
  qed
  finally show ?thesis by (simp add: validate_alone successor_spread_graph [OF assms])
qed

text \<open>C34. \<open>NoFragmentCyclesRule\<close> accepts a document whose fragments have different names exactly when no fragment spreads
  itself, directly or through others.\<close>

theorem fragment_cycles_exact:
  assumes "distinct (map fragment_name (fragment_defs (vc_document cx)))"
  shows "validate cx [NoFragmentCyclesRule no_search] = Inr [] \<longleftrightarrow> acyclic (spread_graph (vc_document cx))"
  using assms by (rule fragment_cycles_found)

end
