(* ===== verification/Executor.thy ===== *)
theory Executor
  imports Collect_Fields
begin

text \<open>
  Synchronous execution (\<open>execution/executor.py\<close>, \<open>execution/middleware.py\<close>, and the request functions of
  \<open>execution/execute.py\<close>).  Every method threads the state of the world, which resolvers may change, and the
  collected errors.  The functions that users provide are functions in the records; nothing is awaitable, there is no abort
  signal and no hook.  \<open>None\<close> as a result means that the fuel, for the coercions or for the depth of the recursion,
  has run out.
\<close>

section \<open>State and exceptions\<close>

text \<open>
  An exception on its way up.  With a path it is the \<open>GraphQLError\<close> that \<open>located_error\<close> made of the original error; without
  one it is the error itself.  The nodes of errors are left out.
\<close>

record field_error =
  fe_error :: py_error
  fe_path :: "path_key list option"

record 'w exec_state =
  world :: 'w
  error_positions :: "path list"
  collected_errors :: "field_error list"

type_synonym ('w, 'a) exec = "'w exec_state \<Rightarrow> ((field_error + 'a) \<times> 'w exec_state) option"

definition raw :: "py_error \<Rightarrow> field_error" where
  "raw e = \<lparr>fe_error = e, fe_path = None\<rparr>"

definition return_value :: "'a \<Rightarrow> ('w, 'a) exec" where
  "return_value x = (\<lambda>s. Some (Inr x, s))"

definition raise_error :: "field_error \<Rightarrow> ('w, 'a) exec" where
  "raise_error e = (\<lambda>s. Some (Inl e, s))"

definition bind_exec :: "('w, 'a) exec \<Rightarrow> ('a \<Rightarrow> ('w, 'b) exec) \<Rightarrow> ('w, 'b) exec" where
  "bind_exec m f = (\<lambda>s. case m s of
     None \<Rightarrow> None
   | Some (Inl e, s') \<Rightarrow> Some (Inl e, s')
   | Some (Inr x, s') \<Rightarrow> f x s')"

text \<open>\<open>try: m; except Exception as e: handler(e)\<close>\<close>

definition catch :: "('w, 'a) exec \<Rightarrow> (field_error \<Rightarrow> ('w, 'a) exec) \<Rightarrow> ('w, 'a) exec" where
  "catch m handler = (\<lambda>s. case m s of
     None \<Rightarrow> None
   | Some (Inl e, s') \<Rightarrow> handler e s'
   | Some (Inr x, s') \<Rightarrow> Some (Inr x, s'))"

text \<open>Coercions, which have fuel, and the user's functions, which see the world.\<close>

definition coercion :: "py_error + 'a \<Rightarrow> ('w, 'a) exec" where
  "coercion r = (\<lambda>s. case r of
     Inl e \<Rightarrow> if e = OutOfFuel then None else Some (Inl (raw e), s)
   | Inr x \<Rightarrow> Some (Inr x, s))"

definition call_user :: "('w \<Rightarrow> (py_error + 'a) \<times> 'w) \<Rightarrow> ('w, 'a) exec" where
  "call_user f = (\<lambda>s. case f (world s) of
     (Inl e, w) \<Rightarrow> Some (Inl (raw e), s\<lparr>world := w\<rparr>)
   | (Inr x, w) \<Rightarrow> Some (Inr x, s\<lparr>world := w\<rparr>))"

section \<open>Collected errors\<close>

text \<open>The ancestors of a position are the tails of its list; the root is the empty list.\<close>

fun has_nulled_position :: "path list \<Rightarrow> path \<Rightarrow> bool" where
  "has_nulled_position positions [] = ([] \<in> set positions)"
| "has_nulled_position positions (key # prev) =
     (key # prev \<in> set positions \<or> has_nulled_position positions prev)"

definition add_error :: "field_error \<Rightarrow> path \<Rightarrow> 'w exec_state \<Rightarrow> 'w exec_state" where
  "add_error error path s =
     (if has_nulled_position (error_positions s) path then s
      else s\<lparr>error_positions := error_positions s @ [path], collected_errors := collected_errors s @ [error]\<rparr>)"

definition is_raised_graphql_error :: "field_error \<Rightarrow> bool" where
  "is_raised_graphql_error e \<longleftrightarrow> fe_path e \<noteq> None \<or> is_graphql_error (fe_error e)"

text \<open>\<open>located_error\<close> (\<open>error/located_error.py\<close>)\<close>

definition located_error :: "field_error \<Rightarrow> path_key list \<Rightarrow> field_error" where
  "located_error e path = (if fe_path e \<noteq> None then e else e\<lparr>fe_path := Some path\<rparr>)"

section \<open>The executor\<close>

record 'w executor =
  ex_schema :: "'w schema"
  ex_repr :: "rat \<Rightarrow> pystr"
  ex_fragments :: "(pystr \<times> fragment_details) list"
  ex_root_value :: py_value
  ex_operation :: operation_definition_node
  ex_variables :: variable_values
  ex_field_resolver :: "'w resolver"
  ex_type_resolver :: "'w type_resolver"
  ex_middlewares :: "('w resolver \<Rightarrow> 'w resolver) list"
  ex_error_propagation :: bool
  ex_schema_field :: "'w field"
  ex_type_field :: "'w field"
  ex_fuel :: nat

definition error_propagation :: "operation_definition_node \<Rightarrow> bool" where
  "error_propagation operation \<longleftrightarrow>
     \<not> (\<exists>d \<in> set (case op_directives operation of Some ds \<Rightarrow> ds | None \<Rightarrow> []).
          name_value (directive_name d) = str ''experimental_disableErrorPropagation'')"

definition ex_env :: "'w executor \<Rightarrow> 'w env" where
  "ex_env ex = schema_env (ex_schema ex) (ex_repr ex)"

definition ex_context :: "'w executor \<Rightarrow> pystr \<Rightarrow> 'w collect_context" where
  "ex_context ex runtime_type =
     \<lparr>cx_schema = ex_schema ex, cx_repr = ex_repr ex, cx_fragments = ex_fragments ex, cx_variables = ex_variables ex,
      cx_runtime_type = runtime_type, cx_forbid = False, cx_fuel = ex_fuel ex\<rparr>"

text \<open>\<open>MiddlewareManager.get_field_resolver\<close>: the last middleware is the outermost.\<close>

definition get_field_resolver :: "('w resolver \<Rightarrow> 'w resolver) list \<Rightarrow> 'w resolver \<Rightarrow> 'w resolver" where
  "get_field_resolver middlewares resolver = fold (\<lambda>next_fn chained. next_fn chained) middlewares resolver"

text \<open>\<open>self.schema.get_field\<close>; the fields of introspection are those of the executor.\<close>

definition get_field :: "'w executor \<Rightarrow> pystr \<Rightarrow> pystr \<Rightarrow> 'w field option" where
  "get_field ex = GraphQLSchema_get_field \<lparr>schema_field = ex_schema_field ex, type_field = ex_type_field ex\<rparr> (ex_schema ex)"

definition to_nodes :: "field_details list \<Rightarrow> selection_node list" where
  "to_nodes details = map fd_node details"

definition build_resolve_info :: "'w field \<Rightarrow> selection_node list \<Rightarrow> pystr \<Rightarrow> path \<Rightarrow> resolve_info" where
  "build_resolve_info field_def field_nodes parent_type path =
     \<lparr>ri_field_name = name_value (field_name (hd field_nodes)), ri_field_nodes = field_nodes,
      ri_return_type = fld_type field_def, ri_parent_type = parent_type, ri_path = path\<rparr>"

definition handle_field_error ::
  "'w executor \<Rightarrow> field_error \<Rightarrow> gtype \<Rightarrow> path \<Rightarrow> ('w, py_value) exec" where
  "handle_field_error ex raw_error return_type path =
     (let error = located_error raw_error (as_list path) in
      if ex_error_propagation ex \<and> is_non_null_type return_type then raise_error error
      else (\<lambda>s. Some (Inr PNone, add_error error path s)))"

section \<open>Completing values\<close>

type_synonym 'w completer =
  "gtype \<Rightarrow> field_details list \<Rightarrow> resolve_info \<Rightarrow> path \<Rightarrow> py_value \<Rightarrow> ('w, py_value) exec"

definition execute_field ::
  "'w completer \<Rightarrow> 'w executor \<Rightarrow> pystr \<Rightarrow> py_value \<Rightarrow> field_details list \<Rightarrow> path \<Rightarrow> ('w, py_value) exec" where
  "execute_field compl ex parent_type source details path =
     (let first = hd details in
      case get_field ex parent_type (name_value (field_name (fd_node first))) of
        None \<Rightarrow> return_value PUndefined
      | Some field_def \<Rightarrow>
          (let resolve_fn = get_field_resolver (ex_middlewares ex)
                 (case fld_resolve field_def of Some f \<Rightarrow> f | None \<Rightarrow> ex_field_resolver ex);
               info = build_resolve_info field_def (to_nodes details) parent_type path
           in catch
             (bind_exec (coercion (get_argument_values (ex_fuel ex) (ex_env ex) (fld_args field_def)
                 (field_arguments (fd_node first)) (Some (ex_variables ex)) (fd_fragment_values first))) (\<lambda>args.
              bind_exec (call_user (resolve_fn source info args)) (\<lambda>result.
              compl (fld_type field_def) details info path result)))
             (\<lambda>e. handle_field_error ex e (fld_type field_def) path)))"

fun execute_field_list ::
  "'w completer \<Rightarrow> 'w executor \<Rightarrow> pystr \<Rightarrow> py_value \<Rightarrow> path \<Rightarrow> (pystr \<times> field_details list) list
    \<Rightarrow> (pystr \<times> py_value) list \<Rightarrow> ('w, (pystr \<times> py_value) list) exec" where
  "execute_field_list compl ex parent_type source path [] results = return_value results"
| "execute_field_list compl ex parent_type source path ((response_name, details) # groups) results =
     bind_exec (execute_field compl ex parent_type source details
         (add_key path (PathName response_name) (Some parent_type))) (\<lambda>result.
       execute_field_list compl ex parent_type source path groups
         (if result \<noteq> PUndefined then dict_set response_name result results else results))"

definition execute_fields ::
  "'w completer \<Rightarrow> 'w executor \<Rightarrow> pystr \<Rightarrow> py_value \<Rightarrow> path \<Rightarrow> (pystr \<times> field_details list) list
    \<Rightarrow> ('w, py_value) exec" where
  "execute_fields compl ex parent_type source path groups =
     bind_exec (execute_field_list compl ex parent_type source path groups []) (\<lambda>results. return_value (PDict results))"

text \<open>\<open>async_reduce\<close> on values that are not awaitable, and the reducer of \<open>execute_fields_serially\<close>.\<close>

fun async_reduce :: "('u \<Rightarrow> 't \<Rightarrow> ('w, 'u) exec) \<Rightarrow> 't list \<Rightarrow> 'u \<Rightarrow> ('w, 'u) exec" where
  "async_reduce callback [] accumulator = return_value accumulator"
| "async_reduce callback (x # xs) accumulator = bind_exec (callback accumulator x) (async_reduce callback xs)"

definition execute_fields_serially ::
  "'w completer \<Rightarrow> 'w executor \<Rightarrow> pystr \<Rightarrow> py_value \<Rightarrow> path \<Rightarrow> (pystr \<times> field_details list) list
    \<Rightarrow> ('w, py_value) exec" where
  "execute_fields_serially compl ex parent_type source path groups =
     bind_exec (async_reduce (\<lambda>results (response_name, details).
         bind_exec (execute_field compl ex parent_type source details
             (add_key path (PathName response_name) (Some parent_type))) (\<lambda>result.
           return_value (if result = PUndefined then results else dict_set response_name result results))) groups [])
       (\<lambda>results. return_value (PDict results))"

definition complete_leaf_value :: "(py_value \<Rightarrow> py_error + py_value) \<Rightarrow> py_value \<Rightarrow> ('w, py_value) exec" where
  "complete_leaf_value coerce_output_value result =
     (case coerce_output_value result of
        Inl e \<Rightarrow> raise_error (raw e)
      | Inr coerced \<Rightarrow>
          if is_null coerced then raise_error (raw (TypeError (str ''Expected coerce_output_value to return non-nullable value'')))
          else return_value coerced)"

text \<open>\<open>get_stream_usage\<close>; the base executor only checks the directive.\<close>

record stream_usage =
  su_label :: py_value
  su_initial_count :: int

definition usage_of_stream :: "'w executor \<Rightarrow> (pystr \<times> py_value) list option \<Rightarrow> ('w, stream_usage option) exec" where
  "usage_of_stream ex stream =
     (case stream of
        None \<Rightarrow> return_value None
      | Some d \<Rightarrow>
          if d = [] \<or> map_of d (str ''if'') = Some (PBool False) then return_value None
          else (case map_of d (str ''initialCount'') of
              Some (PInt n) \<Rightarrow>
                if n < 0 then raise_error (raw (ValueError (str ''initialCount must be a positive integer'')))
                else if op_operation (ex_operation ex) = SUBSCRIPTION then
                  raise_error (raw (TypeError (str ''`@stream` directive not supported on subscription operations.'')))
                else return_value (Some \<lparr>su_label = (case map_of d (str ''label'') of Some w \<Rightarrow> w | None \<Rightarrow> PNone),
                  su_initial_count = n\<rparr>)
            | _ \<Rightarrow> raise_error (raw (ValueError (str ''initialCount must be a positive integer'')))))"

definition get_stream_usage :: "'w executor \<Rightarrow> field_details list \<Rightarrow> path \<Rightarrow> ('w, stream_usage option) exec" where
  "get_stream_usage ex details path =
     (case path of
        (PathIndex i, typename) # prev \<Rightarrow> return_value None
      | _ \<Rightarrow>
          bind_exec (coercion (get_directive_values (ex_fuel ex) (ex_env ex) GraphQLStreamDirective
              (sel_directives (fd_node (hd details))) (Some (ex_variables ex)) None)) (usage_of_stream ex))"

definition complete_list_item_value ::
  "'w completer \<Rightarrow> 'w executor \<Rightarrow> py_value \<Rightarrow> py_value list \<Rightarrow> gtype \<Rightarrow> field_details list \<Rightarrow> resolve_info \<Rightarrow> path
    \<Rightarrow> ('w, py_value list) exec" where
  "complete_list_item_value compl ex item results item_type details info item_path =
     bind_exec (catch (compl item_type details info item_path item)
         (\<lambda>e. handle_field_error ex e item_type item_path))
       (\<lambda>completed. return_value (results @ [completed]))"

fun complete_items ::
  "'w completer \<Rightarrow> 'w executor \<Rightarrow> gtype \<Rightarrow> field_details list \<Rightarrow> resolve_info \<Rightarrow> path \<Rightarrow> py_value list \<Rightarrow> py_value list
    \<Rightarrow> ('w, py_value list) exec" where
  "complete_items compl ex item_type details info path [] results = return_value results"
| "complete_items compl ex item_type details info path (item # items) results =
     bind_exec (complete_list_item_value compl ex item results item_type details info
         (add_key path (PathIndex (length results)) None))
       (complete_items compl ex item_type details info path items)"

definition complete_iterable_value ::
  "'w completer \<Rightarrow> 'w executor \<Rightarrow> gtype \<Rightarrow> field_details list \<Rightarrow> resolve_info \<Rightarrow> path \<Rightarrow> py_value list
    \<Rightarrow> ('w, py_value) exec" where
  "complete_iterable_value compl ex item_type details info path items =
     bind_exec (get_stream_usage ex details path) (\<lambda>stream_usage.
     bind_exec (complete_items compl ex item_type details info path items []) (\<lambda>results.
     return_value (PList results)))"

text \<open>A list stands for every iterable; strings and mappings are none.\<close>

definition complete_list_value ::
  "'w completer \<Rightarrow> 'w executor \<Rightarrow> gtype \<Rightarrow> field_details list \<Rightarrow> resolve_info \<Rightarrow> path \<Rightarrow> py_value
    \<Rightarrow> ('w, py_value) exec" where
  "complete_list_value compl ex item_type details info path result =
     (case result of
        PList items \<Rightarrow> complete_iterable_value compl ex item_type details info path items
      | _ \<Rightarrow> raise_error (raw (GraphQLError (str ''Expected Iterable, but did not find one for field.''))))"

definition ensure_valid_runtime_type ::
  "'w executor \<Rightarrow> py_value \<Rightarrow> 'w named_type \<Rightarrow> ('w, 'w object_type) exec" where
  "ensure_valid_runtime_type ex runtime_type_name return_type =
     (case runtime_type_name of
        PStr name \<Rightarrow>
          (case get_type (ex_schema ex) name of
             None \<Rightarrow> raise_error (raw (GraphQLError (str ''Abstract type was resolved to a type that does not exist inside the schema.'')))
           | Some (ObjectType t) \<Rightarrow>
               if \<not> is_sub_type (ex_schema ex) return_type name
               then raise_error (raw (GraphQLError (str ''Runtime Object type is not a possible type.'')))
               else return_value t
           | Some _ \<Rightarrow> raise_error (raw (GraphQLError (str ''Abstract type was resolved to a non-object type.''))))
      | _ \<Rightarrow> raise_error (raw (GraphQLError (str ''Abstract type must resolve to an Object type at runtime.''))))"

definition collect_and_execute_subfields ::
  "'w completer \<Rightarrow> 'w executor \<Rightarrow> 'w object_type \<Rightarrow> field_details list \<Rightarrow> path \<Rightarrow> py_value \<Rightarrow> ('w, py_value) exec" where
  "collect_and_execute_subfields compl ex return_type details path result =
     bind_exec (coercion (collect_subfields (ex_context ex (obj_name return_type)) details)) (\<lambda>collected.
       execute_fields compl ex (obj_name return_type) result path (grouped_field_set collected))"

definition complete_object_value ::
  "'w completer \<Rightarrow> 'w executor \<Rightarrow> 'w object_type \<Rightarrow> field_details list \<Rightarrow> resolve_info \<Rightarrow> path \<Rightarrow> py_value
    \<Rightarrow> ('w, py_value) exec" where
  "complete_object_value compl ex return_type details info path result =
     (case obj_is_type_of return_type of
        None \<Rightarrow> collect_and_execute_subfields compl ex return_type details path result
      | Some is_type_of \<Rightarrow>
          bind_exec (call_user (is_type_of result info)) (\<lambda>answer.
            if \<not> py_bool answer then raise_error (raw (GraphQLError (str ''Expected value of type'')))
            else collect_and_execute_subfields compl ex return_type details path result))"

definition complete_abstract_value ::
  "'w completer \<Rightarrow> 'w executor \<Rightarrow> 'w named_type \<Rightarrow> 'w type_resolver option \<Rightarrow> field_details list \<Rightarrow> resolve_info \<Rightarrow> path
    \<Rightarrow> py_value \<Rightarrow> ('w, py_value) exec" where
  "complete_abstract_value compl ex return_type resolve_type details info path result =
     bind_exec (call_user ((case resolve_type of Some f \<Rightarrow> f | None \<Rightarrow> ex_type_resolver ex) result info (nt_name return_type)))
       (\<lambda>runtime_type.
         bind_exec (ensure_valid_runtime_type ex runtime_type return_type) (\<lambda>object_type.
           complete_object_value compl ex object_type details info path result))"

definition complete_named_value ::
  "'w completer \<Rightarrow> 'w executor \<Rightarrow> pystr \<Rightarrow> field_details list \<Rightarrow> resolve_info \<Rightarrow> path \<Rightarrow> py_value
    \<Rightarrow> ('w, py_value) exec" where
  "complete_named_value compl ex name details info path result =
     (case get_type (ex_schema ex) name of
        Some (ScalarType t) \<Rightarrow> complete_leaf_value (sc_coerce_output_value t) result
      | Some (EnumType t) \<Rightarrow> complete_leaf_value (enum_coerce_output_value t) result
      | Some (InterfaceType t) \<Rightarrow>
          complete_abstract_value compl ex (InterfaceType t) (if_resolve_type t) details info path result
      | Some (UnionType t) \<Rightarrow>
          complete_abstract_value compl ex (UnionType t) (un_resolve_type t) details info path result
      | Some (ObjectType t) \<Rightarrow> complete_object_value compl ex t details info path result
      | _ \<Rightarrow> raise_error (raw (TypeError (str ''Cannot complete value of unexpected output type''))))"

definition complete_value_body :: "'w completer \<Rightarrow> 'w executor \<Rightarrow> 'w completer" where
  "complete_value_body compl ex return_type details info path result =
     (case result of
        PException e \<Rightarrow> raise_error (raw e)
      | _ \<Rightarrow>
          (case return_type of
             GNonNull of_type \<Rightarrow>
               bind_exec (compl of_type details info path result) (\<lambda>completed.
                 if completed = PNone
                 then raise_error (raw (TypeError (str ''Cannot return null for non-nullable field'')))
                 else return_value completed)
           | GList item_type \<Rightarrow>
               if is_null result then return_value PNone
               else complete_list_value compl ex item_type details info path result
           | GNamed name \<Rightarrow>
               if is_null result then return_value PNone
               else complete_named_value compl ex name details info path result))"

fun complete_value :: "nat \<Rightarrow> 'w executor \<Rightarrow> 'w completer" where
  "complete_value 0 ex return_type details info path result = (\<lambda>s. None)"
| "complete_value (Suc n) ex return_type details info path result =
     complete_value_body (complete_value n ex) ex return_type details info path result"

section \<open>Default resolvers\<close>

text \<open>
  What Python says of objects: \<open>getattr(value, name, None)\<close>, whether a value is callable and what the call does, and the
  attribute \<open>__typename\<close> with its mangled names.
\<close>

record 'w objects =
  ob_attribute :: "py_value \<Rightarrow> pystr \<Rightarrow> 'w \<Rightarrow> (py_error + py_value) \<times> 'w"
  ob_callable :: "py_value \<Rightarrow> (resolve_info \<Rightarrow> (pystr \<times> py_value) list \<Rightarrow> 'w \<Rightarrow> (py_error + py_value) \<times> 'w) option"
  ob_typename :: "py_value \<Rightarrow> py_value"

definition get_typename :: "'w objects \<Rightarrow> py_value \<Rightarrow> py_value" where
  "get_typename objects value =
     (case value of
        PDict d \<Rightarrow> (case map_of d (str ''__typename'') of Some w \<Rightarrow> w | None \<Rightarrow> PNone)
      | _ \<Rightarrow> ob_typename objects value)"

fun first_type_of :: "'w schema \<Rightarrow> pystr list \<Rightarrow> py_value \<Rightarrow> resolve_info \<Rightarrow> 'w \<Rightarrow> (py_error + py_value) \<times> 'w" where
  "first_type_of schema [] value info w = (Inr PNone, w)"
| "first_type_of schema (name # names) value info w =
     (case get_type schema name of
        Some (ObjectType t) \<Rightarrow>
          (case obj_is_type_of t of
             None \<Rightarrow> first_type_of schema names value info w
           | Some is_type_of \<Rightarrow>
               (case is_type_of value info w of
                  (Inl e, w') \<Rightarrow> (Inl e, w')
                | (Inr answer, w') \<Rightarrow>
                    if py_bool answer then (Inr (PStr (obj_name t)), w')
                    else first_type_of schema names value info w'))
      | _ \<Rightarrow> first_type_of schema names value info w)"

definition default_type_resolver :: "'w objects \<Rightarrow> 'w schema \<Rightarrow> 'w type_resolver" where
  "default_type_resolver objects schema value info abstract_type w =
     (case get_typename objects value of
        PStr name \<Rightarrow> (Inr (PStr name), w)
      | _ \<Rightarrow>
          (case get_type schema abstract_type of
             Some t \<Rightarrow> first_type_of schema (get_possible_types schema t) value info w
           | None \<Rightarrow> (Inr PNone, w)))"

definition default_field_resolver :: "'w objects \<Rightarrow> 'w resolver" where
  "default_field_resolver objects source info args w =
     (case (case source of
          PDict d \<Rightarrow> (Inr (case map_of d (ri_field_name info) of Some v \<Rightarrow> v | None \<Rightarrow> PNone), w)
        | _ \<Rightarrow> ob_attribute objects source (ri_field_name info) w) of
        (Inl e, w') \<Rightarrow> (Inl e, w')
      | (Inr v, w') \<Rightarrow>
          (case ob_callable objects v of
             Some f \<Rightarrow> f info args w'
           | None \<Rightarrow> (Inr v, w')))"

section \<open>Requests\<close>

text \<open>The errors of a response come from the request or from a field.\<close>

datatype response_error = RequestError request_error | ResponseFieldError field_error

record response =
  response_data :: "py_value option"
  response_errors :: "response_error list"

text \<open>\<open>build_response\<close>, after which nothing is left to do.\<close>

definition build_response :: "py_value option \<Rightarrow> 'w exec_state \<Rightarrow> response" where
  "build_response data s = \<lparr>response_data = data, response_errors = map ResponseFieldError (collected_errors s)\<rparr>"

definition execute_root :: "nat \<Rightarrow> 'w executor \<Rightarrow> bool option \<Rightarrow> ('w, py_value) exec" where
  "execute_root n ex serially =
     (let operation_type = op_operation (ex_operation ex) in
      case get_root_type (ex_schema ex) operation_type of
        None \<Rightarrow> raise_error (raw (GraphQLError (str ''Schema is not configured to execute operation.'')))
      | Some root_type \<Rightarrow>
          bind_exec (coercion (collect_fields (ex_context ex root_type) (ex_operation ex))) (\<lambda>collected.
            (if (case serially of Some b \<Rightarrow> b | None \<Rightarrow> operation_type = MUTATION)
             then execute_fields_serially else execute_fields)
              (complete_value n ex) ex root_type (ex_root_value ex) [] (grouped_field_set collected)))"

text \<open>An exception that is no \<open>GraphQLError\<close> leaves \<open>execute_operation\<close>.\<close>

definition execute_operation :: "nat \<Rightarrow> 'w executor \<Rightarrow> bool option \<Rightarrow> 'w \<Rightarrow> ((field_error + response) \<times> 'w) option" where
  "execute_operation n ex serially w =
     (case execute_root n ex serially \<lparr>world = w, error_positions = [], collected_errors = []\<rparr> of
        None \<Rightarrow> None
      | Some (Inr data, s) \<Rightarrow> Some (Inr (build_response (Some data) s), world s)
      | Some (Inl e, s) \<Rightarrow>
          if is_raised_graphql_error e
          then Some (Inr (build_response None (add_error e [] s)), world s)
          else Some (Inl e, world s))"

text \<open>The loop of \<open>Executor.build\<close> over the definitions of the document.\<close>

record build_state =
  bs_operation :: "operation_definition_node option"
  bs_fragments :: "(pystr \<times> fragment_details) list"
  bs_errors :: "request_error list"

fun fragment_signatures_of ::
  "'w env \<Rightarrow> variable_definition_node list \<Rightarrow> (pystr \<times> input_value) list \<Rightarrow> request_error list
    \<Rightarrow> (pystr \<times> input_value) list \<times> request_error list" where
  "fragment_signatures_of E [] signatures errors = (signatures, errors)"
| "fragment_signatures_of E (d # ds) signatures errors =
     (case get_variable_signature E d of
        Inl e \<Rightarrow> fragment_signatures_of E ds signatures (errors @ [BadVariableType (var_name (vardef_variable d))])
      | Inr (name, signature) \<Rightarrow> fragment_signatures_of E ds (dict_set name signature signatures) errors)"

definition build_definition ::
  "'w env \<Rightarrow> pystr option \<Rightarrow> definition_node \<Rightarrow> build_state \<Rightarrow> request_error list + build_state" where
  "build_definition E wanted d s =
     (case d of
        OperationDefinition op \<Rightarrow>
          (case wanted of
             None \<Rightarrow>
               if bs_operation s \<noteq> None
               then Inl [RaisedError (GraphQLError (str ''Must provide operation name if query contains multiple operations.''))]
               else Inr (s\<lparr>bs_operation := Some op\<rparr>)
           | Some name \<Rightarrow>
               if (case op_name op of Some node \<Rightarrow> name_value node = name | None \<Rightarrow> False)
               then Inr (s\<lparr>bs_operation := Some op\<rparr>) else Inr s)
      | FragmentDefinition fragment \<Rightarrow>
          (let (signatures, errors) =
             (case frag_variable_definitions fragment of
                Some (v # vs) \<Rightarrow>
                  (let (signatures, errors) = fragment_signatures_of E (v # vs) [] [] in (Some signatures, errors))
              | _ \<Rightarrow> (None, []))
           in Inr (s\<lparr>bs_fragments := dict_set (name_value (frag_name fragment))
                 \<lparr>fragment_definition = fragment, fragment_signatures = signatures\<rparr> (bs_fragments s),
               bs_errors := bs_errors s @ errors\<rparr>))
      | _ \<Rightarrow> Inr s)"

text \<open>The arguments of a request that stay the same.\<close>

record 'w request =
  rq_schema :: "'w schema"
  rq_repr :: "rat \<Rightarrow> pystr"
  rq_root_value :: py_value
  rq_variables :: "(pystr \<times> py_value) list"
  rq_operation_name :: "pystr option"
  rq_field_resolver :: "'w resolver option"
  rq_type_resolver :: "'w type_resolver option"
  rq_max_coercion_errors :: nat
  rq_middlewares :: "('w resolver \<Rightarrow> 'w resolver) list"
  rq_schema_field :: "'w field"
  rq_type_field :: "'w field"
  rq_objects :: "'w objects"

definition Executor_init ::
  "'w request \<Rightarrow> (pystr \<times> fragment_details) list \<Rightarrow> operation_definition_node \<Rightarrow> variable_values \<Rightarrow> nat \<Rightarrow> 'w executor" where
  "Executor_init rq fragments operation variables n =
     \<lparr>ex_schema = rq_schema rq, ex_repr = rq_repr rq, ex_fragments = fragments, ex_root_value = rq_root_value rq,
      ex_operation = operation, ex_variables = variables,
      ex_field_resolver = (case rq_field_resolver rq of Some f \<Rightarrow> f | None \<Rightarrow> default_field_resolver (rq_objects rq)),
      ex_type_resolver = (case rq_type_resolver rq of
          Some f \<Rightarrow> f | None \<Rightarrow> default_type_resolver (rq_objects rq) (rq_schema rq)),
      ex_middlewares = rq_middlewares rq, ex_error_propagation = error_propagation operation,
      ex_schema_field = rq_schema_field rq, ex_type_field = rq_type_field rq, ex_fuel = n\<rparr>"

definition build :: "nat \<Rightarrow> 'w request \<Rightarrow> definition_node list \<Rightarrow> py_error + (request_error list + 'w executor)" where
  "build n rq definitions =
     (let E = schema_env (rq_schema rq) (rq_repr rq) in
      case fold_result (build_definition E (rq_operation_name rq)) definitions
          \<lparr>bs_operation = None, bs_fragments = [], bs_errors = []\<rparr> of
        Inl errors \<Rightarrow> Inr (Inl errors)
      | Inr s \<Rightarrow>
          (case bs_operation s of
             None \<Rightarrow> Inr (Inl [RaisedError (GraphQLError
                 (if rq_operation_name rq \<noteq> None then str ''Unknown operation named'' else str ''Must provide an operation.''))])
           | Some operation \<Rightarrow>
               if bs_errors s \<noteq> [] then Inr (Inl (bs_errors s))
               else bind_result (get_variable_values n E (Some (rq_max_coercion_errors rq)) (rq_variables rq)
                   (case op_variable_definitions operation of Some ds \<Rightarrow> ds | None \<Rightarrow> []))
                 (\<lambda>r. case r of
                    Inl errors \<Rightarrow> Inr (Inl errors)
                  | Inr variables \<Rightarrow> Inr (Inr (Executor_init rq (bs_fragments s) operation variables n)))))"

text \<open>\<open>execute_sync\<close> with the base executor: early errors make a response without data.\<close>

definition execute_sync :: "nat \<Rightarrow> 'w request \<Rightarrow> definition_node list \<Rightarrow> 'w \<Rightarrow> ((field_error + response) \<times> 'w) option" where
  "execute_sync n rq definitions w =
     (case build n rq definitions of
        Inl e \<Rightarrow> if e = OutOfFuel then None else Some (Inl (raw e), w)
      | Inr (Inl errors) \<Rightarrow> Some (Inr \<lparr>response_data = None, response_errors = map RequestError errors\<rparr>, w)
      | Inr (Inr ex) \<Rightarrow> execute_operation n ex None w)"

end
