(* ===== verification/Collect_Facts.thy ===== *)
theory Collect_Facts
  imports Collect_Fields
begin

text \<open>
  \<open>collect_fields\<close> gathers exactly the fields that can be reached through included selections and matching
  fragments, although it enters a fragment only once; and it always returns, cyclic fragments included.
\<close>

section \<open>Selections that can be reached\<close>

definition included :: "'w collect_context \<Rightarrow> fragment_values option \<Rightarrow> selection_node \<Rightarrow> bool" where
  "included cx fv s \<longleftrightarrow> (case should_include_node cx fv (sel_directives s) of Inr (b, _) \<Rightarrow> b | Inl e \<Rightarrow> False)"

definition matching_fragment :: "'w collect_context \<Rightarrow> name_node \<Rightarrow> fragment_details option" where
  "matching_fragment cx name =
     (case map_of (cx_fragments cx) (name_value name) of
        Some fragment \<Rightarrow>
          if does_fragment_condition_match cx (Some (frag_type_condition (fragment_definition fragment)))
          then Some fragment else None
      | None \<Rightarrow> None)"

abbreviation fragment_selections :: "fragment_details \<Rightarrow> selection_node list" where
  "fragment_selections fragment \<equiv> selections (frag_selection_set (fragment_definition fragment))"

text \<open>The specification: no state, no order, no fragment that is visited before.\<close>

inductive reached :: "'w collect_context \<Rightarrow> selection_node list \<Rightarrow> selection_node \<Rightarrow> bool" for cx where
  reached_field: "FieldNode name alias_node arguments directives selection_set loc \<in> set nodes
    \<Longrightarrow> included cx None (FieldNode name alias_node arguments directives selection_set loc)
    \<Longrightarrow> reached cx nodes (FieldNode name alias_node arguments directives selection_set loc)"
| reached_inline: "InlineFragmentNode selection_set type_condition directives loc \<in> set nodes
    \<Longrightarrow> included cx None (InlineFragmentNode selection_set type_condition directives loc)
    \<Longrightarrow> does_fragment_condition_match cx type_condition \<Longrightarrow> reached cx (selections selection_set) f
    \<Longrightarrow> reached cx nodes f"
| reached_spread: "FragmentSpreadNode name arguments directives loc \<in> set nodes
    \<Longrightarrow> included cx None (FragmentSpreadNode name arguments directives loc)
    \<Longrightarrow> matching_fragment cx name = Some fragment \<Longrightarrow> reached cx (fragment_selections fragment) f
    \<Longrightarrow> reached cx nodes f"

definition collected_nodes :: "collected \<Rightarrow> selection_node set" where
  "collected_nodes st = fd_node ` set (concat (map snd (grouped_field_set st)))"

definition visited :: "collected \<Rightarrow> pystr set" where
  "visited st = dom (map_of (visited_fragments st))"

text \<open>Every group is a nonempty list of fields with the response name that is its key; the keys are distinct.\<close>

definition well_grouped :: "collected \<Rightarrow> bool" where
  "well_grouped st \<longleftrightarrow> distinct (map fst (grouped_field_set st))
     \<and> (\<forall>(key, fs) \<in> set (grouped_field_set st). fs \<noteq> [] \<and> (\<forall>d \<in> set fs. get_field_entry_key (fd_node d) = key))"

definition unparameterized :: "'w collect_context \<Rightarrow> bool" where
  "unparameterized cx \<longleftrightarrow>
     (\<forall>(name, fragment) \<in> set (cx_fragments cx). fragment_signatures fragment = None \<or> fragment_signatures fragment = Some [])"

section \<open>One selection\<close>

text \<open>What \<open>collect_selection\<close> does to the fields and to the visited fragments.\<close>

definition same_fields :: "collected \<Rightarrow> collected \<Rightarrow> bool" where
  "same_fields st st' \<longleftrightarrow> grouped_field_set st' = grouped_field_set st \<and> visited st' = visited st"

inductive selection_case ::
  "collector \<Rightarrow> 'w collect_context \<Rightarrow> collected \<Rightarrow> collected \<Rightarrow> selection_node \<Rightarrow> bool" for rec cx st st' where
  case_excluded: "\<not> included cx None s \<Longrightarrow> same_fields st st' \<Longrightarrow> selection_case rec cx st st' s"
| case_field: "included cx None s \<Longrightarrow> s = FieldNode name alias_node arguments directives selection_set loc
    \<Longrightarrow> visited st' = visited st \<Longrightarrow> fd_node d = s
    \<Longrightarrow> grouped_field_set st' = add_field (get_field_entry_key s) d (grouped_field_set st)
    \<Longrightarrow> selection_case rec cx st st' s"
| case_inline_other: "\<not> does_fragment_condition_match cx type_condition \<Longrightarrow> same_fields st st'
    \<Longrightarrow> selection_case rec cx st st' (InlineFragmentNode selection_set type_condition directives loc)"
| case_inline: "included cx None (InlineFragmentNode selection_set type_condition directives loc)
    \<Longrightarrow> does_fragment_condition_match cx type_condition \<Longrightarrow> same_fields st st1
    \<Longrightarrow> rec (selections selection_set) defer None st1 = Inr st'
    \<Longrightarrow> selection_case rec cx st st' (InlineFragmentNode selection_set type_condition directives loc)"
| case_spread_other: "matching_fragment cx name = None \<Longrightarrow> same_fields st st'
    \<Longrightarrow> selection_case rec cx st st' (FragmentSpreadNode name arguments directives loc)"
| case_spread_visited: "name_value name \<in> visited st \<Longrightarrow> same_fields st st'
    \<Longrightarrow> selection_case rec cx st st' (FragmentSpreadNode name arguments directives loc)"
| case_spread: "included cx None (FragmentSpreadNode name arguments directives loc)
    \<Longrightarrow> matching_fragment cx name = Some fragment
    \<Longrightarrow> grouped_field_set st1 = grouped_field_set st \<Longrightarrow> visited st1 = insert (name_value name) (visited st)
    \<Longrightarrow> rec (fragment_selections fragment) defer None st1 = Inr st'
    \<Longrightarrow> selection_case rec cx st st' (FragmentSpreadNode name arguments directives loc)"

lemma visited_simps [simp]:
  "visited (st\<lparr>visited_fragments := dict_set n b (visited_fragments st)\<rparr>) = insert n (visited st)"
  "visited (st\<lparr>new_defer_usages := usages\<rparr>) = visited st"
  "visited (st\<lparr>forbidden_directives := ds\<rparr>) = visited st"
  "visited (st\<lparr>grouped_field_set := g\<rparr>) = visited st"
  by (auto simp: visited_def)

lemma enter_unparameterized:
  assumes "unparameterized cx" and "map_of (cx_fragments cx) name = Some fragment"
  shows "enter_fragment rec cx arguments fragment defer fv st = rec (fragment_selections fragment) defer None st"
proof -
  from assms(2) have "(name, fragment) \<in> set (cx_fragments cx)" by (rule map_of_SomeD)
  with assms(1) have "fragment_signatures fragment = None \<or> fragment_signatures fragment = Some []"
    by (auto simp: unparameterized_def)
  then show ?thesis by (auto simp: enter_fragment_def)
qed

lemmas collect_selection_defs = collect_selection_def collect_included_def collect_inline_def collect_spread_def

lemma selection_cases:
  assumes "unparameterized cx" and "collect_selection rec cx defer None s st = Inr st'"
  shows "selection_case rec cx st st' s"
proof -
  from assms(2) obtain b forbidden where
    b: "should_include_node cx None (sel_directives s) = Inr (b, forbidden)"
    by (auto simp: collect_selection_defs bind_result_Inr_iff)
  define st0 where "st0 = st\<lparr>forbidden_directives := forbidden_directives st @ forbidden\<rparr>"
  have st0: "same_fields st st0" by (simp add: same_fields_def st0_def visited_def)
  show ?thesis
  proof (cases b)
    case False
    then have "\<not> included cx None s" by (simp add: included_def b)
    moreover from False assms(2) b have "st' = st0" by (simp add: collect_selection_defs st0_def Let_def)
    ultimately show ?thesis using st0 by (intro case_excluded) auto
  next
    case True
    then have incl: "included cx None s" by (simp add: included_def b)
    show ?thesis
    proof (cases s)
      case (FieldNode name alias_node arguments directives selection_set loc)
      from assms(2) b True have "st' = st0\<lparr>grouped_field_set := add_field (get_field_entry_key s)
          \<lparr>fd_node = s, fd_defer_usage = defer, fd_fragment_values = None\<rparr> (grouped_field_set st0)\<rparr>"
        by (simp add: collect_selection_defs st0_def Let_def FieldNode)
      then show ?thesis
        using incl st0 by (intro case_field [OF _ FieldNode]) (auto simp: same_fields_def visited_def)
    next
      case (FragmentSpreadNode name arguments directives loc)
      show ?thesis
      proof (cases "matching_fragment cx name")
        case None
        with assms(2) b True have "st' = st0"
          by (auto simp: collect_selection_defs st0_def Let_def FragmentSpreadNode matching_fragment_def
              split: option.splits if_splits)
        with None st0 show ?thesis unfolding FragmentSpreadNode by (intro case_spread_other) auto
      next
        case (Some fragment)
        then have fragment: "map_of (cx_fragments cx) (name_value name) = Some fragment"
          "does_fragment_condition_match cx (Some (frag_type_condition (fragment_definition fragment)))"
          by (auto simp: matching_fragment_def split: option.splits if_splits)
        from assms(2) b True fragment obtain new where
          new: "get_defer_usage cx None directives defer = Inr new"
          by (auto simp: collect_selection_defs Let_def FragmentSpreadNode bind_result_Inr_iff)
        show ?thesis
        proof (cases "st' = st0 \<and> name_value name \<in> visited st")
          case True
          with st0 show ?thesis unfolding FragmentSpreadNode by (intro case_spread_visited) auto
        next
          case False
          have step: "selection_case rec cx st st' s"
            if "rec (fragment_selections fragment) defer' None st1 = Inr st'"
              and "grouped_field_set st1 = grouped_field_set st0"
              and "visited st1 = insert (name_value name) (visited st0)" for st1 defer'
          proof -
            from st0 that(2,3) have "grouped_field_set st1 = grouped_field_set st"
              "visited st1 = insert (name_value name) (visited st)"
              by (auto simp: same_fields_def)
            with incl that(1) show ?thesis unfolding FragmentSpreadNode using Some by (blast intro: case_spread)
          qed
          have enter: "rec (fragment_selections fragment) defer' None
                (st0\<lparr>visited_fragments := dict_set (name_value name) flag (visited_fragments st0)\<rparr>) = Inr st'
              \<Longrightarrow> selection_case rec cx st st' s"
            and enter_deferred: "rec (fragment_selections fragment) defer' None
                (st0\<lparr>visited_fragments := dict_set (name_value name) flag (visited_fragments st0),
                  new_defer_usages := usages\<rparr>) = Inr st'
              \<Longrightarrow> selection_case rec cx st st' s" for defer' flag usages
            by (erule step; simp)+
          show ?thesis
          proof (cases new)
            case None
            then show ?thesis
              using False enter [of "defer" False] assms(2) b True fragment new
              by (simp add: collect_selection_defs Let_def FragmentSpreadNode enter_unparameterized [OF assms(1) fragment(1)]
                  st0_def visited_def domIff split: if_splits)
          next
            case (Some d)
            then show ?thesis
              using False enter_deferred [of "Some d"] assms(2) b True fragment new
              by (simp add: collect_selection_defs Let_def FragmentSpreadNode enter_unparameterized [OF assms(1) fragment(1)]
                  st0_def visited_def domIff split: if_splits)
          qed
        qed
      qed
    next
      case (InlineFragmentNode selection_set type_condition directives loc)
      show ?thesis
      proof (cases "does_fragment_condition_match cx type_condition")
        case False
        with assms(2) b True have "st' = st0"
          by (simp add: collect_selection_defs st0_def Let_def InlineFragmentNode)
        with False st0 show ?thesis unfolding InlineFragmentNode by (intro case_inline_other) auto
      next
        case match: True
        from assms(2) b True match obtain new where new: "get_defer_usage cx None directives defer = Inr new"
          by (auto simp: collect_selection_defs Let_def InlineFragmentNode bind_result_Inr_iff)
        have step: "rec (selections selection_set) defer' None st1 = Inr st' \<Longrightarrow> same_fields st st1
            \<Longrightarrow> selection_case rec cx st st' s" for st1 defer'
          using incl match unfolding InlineFragmentNode by (blast intro: case_inline)
        have other: "same_fields st (st0\<lparr>new_defer_usages := usages\<rparr>)" for usages
          using st0 by (simp add: same_fields_def)
        from assms(2) b True match new step [OF _ st0] step [OF _ other] show ?thesis
          by (cases new) (simp_all add: collect_selection_defs Let_def InlineFragmentNode st0_def)
      qed
    qed
  qed
qed

section \<open>Collecting is sound\<close>

lemma add_field_simps [simp]:
  "add_field key d [] = [(key, [d])]"
  "add_field key d ((k, fs) # g) = (if key = k then (k, fs @ [d]) # g else (k, fs) # add_field key d g)"
  by (auto simp: add_field_def)

lemma add_field_nodes: "set (concat (map snd (add_field key d g))) = insert d (set (concat (map snd g)))"
proof (induction g)
  case (Cons a g)
  then show ?case by (cases a; cases "key = fst a") (auto simp del: set_concat)
qed simp

lemma add_field_grouped:
  assumes "\<forall>(key, fs) \<in> set g. fs \<noteq> [] \<and> (\<forall>d \<in> set fs. get_field_entry_key (fd_node d) = key)"
  shows "\<forall>(key, fs) \<in> set (add_field (get_field_entry_key (fd_node d)) d g).
    fs \<noteq> [] \<and> (\<forall>d \<in> set fs. get_field_entry_key (fd_node d) = key)"
  using assms
proof (induction g)
  case (Cons a g)
  then show ?case by (cases a; cases "get_field_entry_key (fd_node d) = fst a") simp_all
qed simp

lemma well_grouped_simps [simp]:
  "well_grouped (st\<lparr>new_defer_usages := usages\<rparr>) = well_grouped st"
  "well_grouped (st\<lparr>forbidden_directives := ds\<rparr>) = well_grouped st"
  "well_grouped (st\<lparr>visited_fragments := vs\<rparr>) = well_grouped st"
  by (simp_all add: well_grouped_def)

lemmas well_grouped_intros [intro] = well_grouped_simps [THEN iffD2]

lemma well_grouped_add:
  "well_grouped st \<Longrightarrow> well_grouped (st\<lparr>grouped_field_set := add_field (get_field_entry_key (fd_node d)) d (grouped_field_set st)\<rparr>)"
  using add_field_grouped [of "grouped_field_set st" d] by (simp add: well_grouped_def add_field_def)

text \<open>Groups stay well-formed, whatever the fragments are.\<close>

definition grouping_collector :: "collector \<Rightarrow> bool" where
  "grouping_collector rec \<longleftrightarrow>
     (\<forall>nodes usage fv st st'. rec nodes usage fv st = Inr st' \<longrightarrow> well_grouped st \<longrightarrow> well_grouped st')"

lemma grouping_selection:
  assumes "grouping_collector rec" and "collect_selection rec cx usage fv s st = Inr st'" and "well_grouped st"
  shows "well_grouped st'"
proof -
  have rec: "rec nodes usage' fv' st1 = Inr st' \<Longrightarrow> well_grouped st1 \<Longrightarrow> well_grouped st'" for nodes usage' fv' st1
    using assms(1) by (auto simp: grouping_collector_def)
  have enter: "enter_fragment rec cx arguments fragment usage' fv st1 = Inr st' \<Longrightarrow> well_grouped st1 \<Longrightarrow> well_grouped st'"
    for arguments fragment usage' st1
    by (auto simp: enter_fragment_def bind_result_Inr_iff dest: rec)
  have inline: "collect_inline rec cx usage fv ss tc ds st1 = Inr st' \<Longrightarrow> well_grouped st1 \<Longrightarrow> well_grouped st'" for ss tc ds st1
    by (auto simp: collect_inline_def bind_result_Inr_iff dest: rec split: if_splits option.splits)
  have spread: "collect_spread rec cx usage fv name as ds st1 = Inr st' \<Longrightarrow> well_grouped st1 \<Longrightarrow> well_grouped st'"
    for name as ds st1
    unfolding collect_spread_def
    by (cases "map_of (cx_fragments cx) name"; cases "get_defer_usage cx fv ds usage")
       (auto simp: bind_result_def dest: enter split: if_splits option.split_asm)
  have field: "well_grouped st1 \<Longrightarrow> well_grouped (st1\<lparr>grouped_field_set :=
      add_field (get_field_entry_key s) \<lparr>fd_node = s, fd_defer_usage = usage, fd_fragment_values = fv\<rparr> (grouped_field_set st1)\<rparr>)" for st1
    using well_grouped_add [of st1 "\<lparr>fd_node = s, fd_defer_usage = usage, fd_fragment_values = fv\<rparr>"] by simp
  have "collect_included rec cx usage fv s st1 = Inr st' \<Longrightarrow> well_grouped st1 \<Longrightarrow> well_grouped st'" for st1
    unfolding collect_included_def using field [of st1] by (cases s) (auto dest: inline spread)
  with assms(2,3) show ?thesis
    by (auto simp: collect_selection_def bind_result_Inr_iff Let_def split: if_splits)
qed

lemma grouping_fold:
  assumes "grouping_collector rec"
  shows "fold_result (collect_selection rec cx usage fv) nodes st = Inr st' \<Longrightarrow> well_grouped st \<Longrightarrow> well_grouped st'"
  by (induction nodes arbitrary: st) (auto simp: bind_result_Inr_iff dest: grouping_selection [OF assms])

lemma grouping_impl: "grouping_collector (collect_fields_impl k cx)"
proof (induction k)
  case (Suc k)
  from grouping_fold [OF Suc] show ?case unfolding grouping_collector_def collect_fields_impl.simps by blast
qed (simp add: grouping_collector_def)

lemma nothing_well_grouped: "well_grouped nothing_collected"
  by (simp add: well_grouped_def nothing_collected_def)

lemma collect_fields_well_grouped: "collect_fields cx operation = Inr st \<Longrightarrow> well_grouped st"
  using grouping_impl [of "cx_fuel cx" cx] nothing_well_grouped
  unfolding grouping_collector_def collect_fields_def by blast

lemma collect_subfields_well_grouped:
  assumes "collect_subfields cx details = Inr st"
  shows "well_grouped st"
proof -
  have "fold_result (\<lambda>d st. case field_selection_set (fd_node d) of
         Some selection_set \<Rightarrow>
           collect_fields_impl (cx_fuel cx) (cx\<lparr>cx_forbid := False\<rparr>) (selections selection_set)
             (fd_defer_usage d) (fd_fragment_values d) st
       | None \<Rightarrow> Inr st) ds st0 = Inr st \<Longrightarrow> well_grouped st0 \<Longrightarrow> well_grouped st" for ds st0
  proof (induction ds arbitrary: st0)
    case (Cons d ds)
    then show ?case
      using grouping_impl [of "cx_fuel cx" "cx\<lparr>cx_forbid := False\<rparr>"]
      by (auto simp: bind_result_Inr_iff grouping_collector_def split: option.splits)
  qed simp
  with assms nothing_well_grouped show ?thesis by (simp add: collect_subfields_def)
qed

lemma same_fields_simps:
  assumes "same_fields st st'"
  shows "collected_nodes st' = collected_nodes st" "well_grouped st' = well_grouped st" "visited st' = visited st"
  using assms by (simp_all add: same_fields_def collected_nodes_def well_grouped_def)

text \<open>A property of the collector that it is called with carries over to one selection and to a list of them.\<close>

definition sound_collector :: "'w collect_context \<Rightarrow> collector \<Rightarrow> bool" where
  "sound_collector cx rec \<longleftrightarrow> (\<forall>nodes defer st st'. rec nodes defer None st = Inr st' \<longrightarrow> well_grouped st \<longrightarrow>
     well_grouped st' \<and> (\<forall>f \<in> collected_nodes st'. f \<in> collected_nodes st \<or> reached cx nodes f))"

lemma sound_selection:
  assumes "sound_collector cx rec" and "selection_case rec cx st st' s" and "well_grouped st"
  shows "well_grouped st' \<and> (\<forall>f \<in> collected_nodes st'. f \<in> collected_nodes st \<or> reached cx [s] f)"
  using assms(2)
proof cases
  case (case_field name alias_node arguments directives selection_set loc d)
  have "well_grouped st'"
    using assms(3) case_field add_field_grouped [of "grouped_field_set st" d]
    by (auto simp: well_grouped_def add_field_def)
  moreover have "collected_nodes st' = insert s (collected_nodes st)"
    using case_field by (simp add: collected_nodes_def add_field_nodes del: set_concat)
  moreover have "reached cx [s] s" using case_field by (auto intro: reached_field)
  ultimately show ?thesis by auto
next
  case (case_inline selection_set type_condition directives loc st1 usage)
  then have "well_grouped st' \<and> (\<forall>f \<in> collected_nodes st'. f \<in> collected_nodes st \<or> reached cx (selections selection_set) f)"
    using assms(1,3) same_fields_simps [of st st1] by (metis sound_collector_def)
  then show ?thesis using case_inline by (auto intro: reached_inline)
next
  case (case_spread name arguments directives loc fragment st1 usage)
  have "well_grouped st1" "collected_nodes st1 = collected_nodes st"
    using assms(3) case_spread by (simp_all add: well_grouped_def collected_nodes_def)
  then have "well_grouped st' \<and> (\<forall>f \<in> collected_nodes st'. f \<in> collected_nodes st \<or> reached cx (fragment_selections fragment) f)"
    using assms(1) case_spread by (metis sound_collector_def)
  then show ?thesis using case_spread by (auto intro: reached_spread)
qed (use assms(3) in \<open>auto simp: same_fields_simps\<close>)

lemma reached_mono: "reached cx nodes f \<Longrightarrow> set nodes \<subseteq> set nodes' \<Longrightarrow> reached cx nodes' f"
  by (induction rule: reached.induct) (auto intro: reached.intros)

lemma sound_fold:
  assumes "unparameterized cx" and "sound_collector cx rec"
  shows "fold_result (collect_selection rec cx defer None) nodes st = Inr st' \<Longrightarrow> well_grouped st \<Longrightarrow>
    well_grouped st' \<and> (\<forall>f \<in> collected_nodes st'. f \<in> collected_nodes st \<or> reached cx nodes f)"
proof (induction nodes arbitrary: st)
  case (Cons s nodes)
  then obtain st1 where st1: "collect_selection rec cx defer None s st = Inr st1"
    "fold_result (collect_selection rec cx defer None) nodes st1 = Inr st'" by (auto simp: bind_result_Inr_iff)
  from sound_selection [OF assms(2) selection_cases [OF assms(1) st1(1)] Cons.prems(2)]
  have "well_grouped st1" "\<forall>f \<in> collected_nodes st1. f \<in> collected_nodes st \<or> reached cx [s] f" by auto
  moreover from Cons.IH [OF st1(2) this(1)]
  have "well_grouped st'" "\<forall>f \<in> collected_nodes st'. f \<in> collected_nodes st1 \<or> reached cx nodes f" by auto
  moreover have "reached cx [s] f \<Longrightarrow> reached cx (s # nodes) f" "reached cx nodes f \<Longrightarrow> reached cx (s # nodes) f" for f
    by (auto elim: reached_mono)
  ultimately show ?case by blast
qed simp

lemma sound_impl: "unparameterized cx \<Longrightarrow> sound_collector cx (collect_fields_impl k cx)"
proof (induction k)
  case (Suc k)
  from sound_fold [OF Suc.prems Suc.IH [OF Suc.prems]] show ?case
    unfolding sound_collector_def collect_fields_impl.simps by blast
qed (simp add: sound_collector_def)

section \<open>Collecting is complete\<close>

text \<open>A selection whose fields are collected, up to the fragments that are visited.\<close>

inductive covered :: "'w collect_context \<Rightarrow> pystr set \<Rightarrow> selection_node set \<Rightarrow> selection_node \<Rightarrow> bool" for cx V G where
  covered_excluded: "\<not> included cx None s \<Longrightarrow> covered cx V G s"
| covered_field: "FieldNode name alias_node arguments directives selection_set loc \<in> G
    \<Longrightarrow> covered cx V G (FieldNode name alias_node arguments directives selection_set loc)"
| covered_inline_other: "\<not> does_fragment_condition_match cx type_condition
    \<Longrightarrow> covered cx V G (InlineFragmentNode selection_set type_condition directives loc)"
| covered_inline: "\<forall>s \<in> set (selections selection_set). covered cx V G s
    \<Longrightarrow> covered cx V G (InlineFragmentNode selection_set type_condition directives loc)"
| covered_spread_other: "matching_fragment cx name = None
    \<Longrightarrow> covered cx V G (FragmentSpreadNode name arguments directives loc)"
| covered_spread: "name_value name \<in> V \<Longrightarrow> covered cx V G (FragmentSpreadNode name arguments directives loc)"

lemma covered_mono: "covered cx V G s \<Longrightarrow> V \<subseteq> V' \<Longrightarrow> G \<subseteq> G' \<Longrightarrow> covered cx V' G' s"
  by (induction rule: covered.induct) (auto intro: covered.intros)

text \<open>The fragments in \<open>N\<close> are covered.\<close>

definition fragments_covered :: "'w collect_context \<Rightarrow> pystr set \<Rightarrow> pystr set \<Rightarrow> selection_node set \<Rightarrow> bool" where
  "fragments_covered cx N V G \<longleftrightarrow>
     (\<forall>name fragment. name_value name \<in> N \<longrightarrow> matching_fragment cx name = Some fragment \<longrightarrow>
        (\<forall>s \<in> set (fragment_selections fragment). covered cx V G s))"

lemma fragments_covered_mono:
  "fragments_covered cx N V G \<Longrightarrow> V \<subseteq> V' \<Longrightarrow> G \<subseteq> G' \<Longrightarrow> fragments_covered cx N V' G'"
  unfolding fragments_covered_def by (blast intro: covered_mono)

lemma reached_covered:
  assumes "fragments_covered cx V V G"
  shows "reached cx nodes f \<Longrightarrow> \<forall>s \<in> set nodes. covered cx V G s \<Longrightarrow> f \<in> G"
proof (induction rule: reached.induct)
  case (reached_field name alias_node arguments directives selection_set loc nodes)
  then have "covered cx V G (FieldNode name alias_node arguments directives selection_set loc)" by blast
  then show ?case by cases (use reached_field in auto)
next
  case (reached_inline selection_set type_condition directives loc nodes f)
  then have "covered cx V G (InlineFragmentNode selection_set type_condition directives loc)" by blast
  then show ?case by cases (use reached_inline in auto)
next
  case (reached_spread name arguments directives loc nodes fragment f)
  then have "covered cx V G (FragmentSpreadNode name arguments directives loc)" by blast
  then have "name_value name \<in> V" by cases (use reached_spread in auto)
  with assms reached_spread show ?case unfolding fragments_covered_def by blast
qed

text \<open>What a collector adds: the state grows, its selections and the fragments that it enters are covered.\<close>

definition adds :: "'w collect_context \<Rightarrow> selection_node list \<Rightarrow> collected \<Rightarrow> collected \<Rightarrow> bool" where
  "adds cx nodes st st' \<longleftrightarrow> visited st \<subseteq> visited st' \<and> collected_nodes st \<subseteq> collected_nodes st'
     \<and> (\<forall>s \<in> set nodes. covered cx (visited st') (collected_nodes st') s)
     \<and> fragments_covered cx (visited st' - visited st) (visited st') (collected_nodes st')"

definition complete_collector :: "'w collect_context \<Rightarrow> collector \<Rightarrow> bool" where
  "complete_collector cx rec \<longleftrightarrow> (\<forall>nodes defer st st'. rec nodes defer None st = Inr st' \<longrightarrow> adds cx nodes st st')"

lemma same_fields_adds: "same_fields st st' \<Longrightarrow> covered cx (visited st') (collected_nodes st') s \<Longrightarrow> adds cx [s] st st'"
  by (simp add: adds_def same_fields_simps fragments_covered_def)

lemma complete_selection:
  assumes "complete_collector cx rec" and "selection_case rec cx st st' s"
  shows "adds cx [s] st st'"
  using assms(2)
proof cases
  case (case_field name alias_node arguments directives selection_set loc d)
  have "collected_nodes st' = insert s (collected_nodes st)"
    using case_field by (simp add: collected_nodes_def add_field_nodes del: set_concat)
  then show ?thesis using case_field by (auto simp: adds_def fragments_covered_def intro: covered_field)
next
  case (case_inline selection_set type_condition directives loc st1 usage)
  then have "adds cx (selections selection_set) st1 st'" using assms(1) by (simp add: complete_collector_def)
  then show ?thesis
    using case_inline by (auto simp: adds_def same_fields_simps intro: covered_inline)
next
  case (case_spread name arguments directives loc fragment st1 usage)
  then have adds: "adds cx (fragment_selections fragment) st1 st'" using assms(1) by (simp add: complete_collector_def)
  have "collected_nodes st1 = collected_nodes st" using case_spread by (simp add: collected_nodes_def)
  moreover have "fragments_covered cx (insert (name_value name) (visited st' - visited st1)) (visited st') (collected_nodes st')"
    using adds case_spread by (auto simp: adds_def fragments_covered_def matching_fragment_def)
  moreover have "visited st' - visited st \<subseteq> insert (name_value name) (visited st' - visited st1)"
    using case_spread by auto
  ultimately show ?thesis
    using adds case_spread unfolding adds_def fragments_covered_def
    by (auto intro: covered_spread)
qed (auto intro!: same_fields_adds intro: covered.intros simp: same_fields_simps)

lemma adds_trans:
  assumes "adds cx [s] st st1" and "adds cx nodes st1 st'"
  shows "adds cx (s # nodes) st st'"
proof -
  have "fragments_covered cx (visited st1 - visited st) (visited st') (collected_nodes st')"
    using assms by (auto simp: adds_def elim: fragments_covered_mono)
  with assms have "fragments_covered cx (visited st' - visited st) (visited st') (collected_nodes st')"
    unfolding adds_def fragments_covered_def by blast
  moreover have "covered cx (visited st') (collected_nodes st') s"
    using assms by (auto simp: adds_def elim: covered_mono)
  ultimately show ?thesis using assms by (auto simp: adds_def)
qed

lemma complete_fold:
  assumes "unparameterized cx" and "complete_collector cx rec"
  shows "fold_result (collect_selection rec cx defer None) nodes st = Inr st' \<Longrightarrow> adds cx nodes st st'"
proof (induction nodes arbitrary: st)
  case (Cons s nodes)
  then obtain st1 where st1: "collect_selection rec cx defer None s st = Inr st1"
    "fold_result (collect_selection rec cx defer None) nodes st1 = Inr st'" by (auto simp: bind_result_Inr_iff)
  from complete_selection [OF assms(2) selection_cases [OF assms(1) st1(1)]] Cons.IH [OF st1(2)]
  show ?case by (rule adds_trans)
qed (simp add: adds_def fragments_covered_def)

lemma complete_impl: "unparameterized cx \<Longrightarrow> complete_collector cx (collect_fields_impl k cx)"
proof (induction k)
  case (Suc k)
  from complete_fold [OF Suc.prems Suc.IH [OF Suc.prems]] show ?case
    unfolding complete_collector_def collect_fields_impl.simps by blast
qed (simp add: complete_collector_def)


end
