(* ===== verification/Executor_Types.thy ===== *)
theory Executor_Types
  imports Executor Collect_Facts
begin

text \<open>
  The data of a response has the shape that the operation and the schema ask for, and executing fields serially or
  not makes no difference when nothing is awaitable.
\<close>

section \<open>Results\<close>

text \<open>Every value that is returned has the property.\<close>

definition gives :: "('w, 'a) exec \<Rightarrow> ('a \<Rightarrow> bool) \<Rightarrow> bool" where
  "gives m Q \<longleftrightarrow> (\<forall>s s' x. m s = Some (Inr x, s') \<longrightarrow> Q x)"

named_theorems gives_intros

lemma gives_return [gives_intros]: "Q x \<Longrightarrow> gives (return_value x) Q"
  by (simp add: gives_def return_value_def)

lemma gives_raise [gives_intros]: "gives (raise_error e) Q"
  by (simp add: gives_def raise_error_def)

lemma gives_bind:
  assumes "gives m P" and "\<And>x. P x \<Longrightarrow> gives (f x) Q"
  shows "gives (bind_exec m f) Q"
  using assms by (force simp: gives_def bind_exec_def split: option.splits sum.splits prod.splits)

lemma gives_anything: "gives m (\<lambda>_. True)"
  by (simp add: gives_def)

lemma gives_bind_any [gives_intros]: "(\<And>x. gives (f x) Q) \<Longrightarrow> gives (bind_exec m f) Q"
  by (rule gives_bind [OF gives_anything])

lemma gives_catch:
  assumes "gives m Q" and "\<And>e. gives (h e) Q"
  shows "gives (catch m h) Q"
  using assms by (force simp: gives_def catch_def split: option.splits sum.splits prod.splits)

lemma gives_coercion: "(\<And>x. r = Inr x \<Longrightarrow> Q x) \<Longrightarrow> gives (coercion r) Q"
  by (auto simp: gives_def coercion_def split: sum.splits if_splits)

lemma gives_mono: "gives m P \<Longrightarrow> (\<And>x. P x \<Longrightarrow> Q x) \<Longrightarrow> gives m Q"
  by (auto simp: gives_def)

section \<open>Conforming data\<close>

definition response_names :: "'w executor \<Rightarrow> pystr \<Rightarrow> (pystr \<times> field_details list) list \<Rightarrow> pystr list" where
  "response_names ex parent_type groups =
     map fst (filter (\<lambda>(name, details). get_field ex parent_type (name_value (field_name (fd_node (hd details)))) \<noteq> None) groups)"

text \<open>
  The data for a type and a group of fields.  A value of a leaf type comes from its function \<open>coerce_output_value\<close>, an object
  of an abstract type is one of its possible types, and an object has the response names of its fields, in their order.
  Without propagation of errors a null can be anywhere.
\<close>

inductive conforms :: "'w executor \<Rightarrow> gtype \<Rightarrow> field_details list \<Rightarrow> py_value \<Rightarrow> bool"
  and object_conforms :: "'w executor \<Rightarrow> pystr \<Rightarrow> (pystr \<times> field_details list) list \<Rightarrow> py_value \<Rightarrow> bool" for ex where
  conforms_null: "\<not> (ex_error_propagation ex \<and> is_non_null_type t) \<Longrightarrow> conforms ex t details PNone"
| conforms_non_null: "conforms ex t details v \<Longrightarrow> v \<noteq> PNone \<Longrightarrow> conforms ex (GNonNull t) details v"
| conforms_list: "\<forall>v \<in> set vs. conforms ex t details v \<Longrightarrow> conforms ex (GList t) details (PList vs)"
| conforms_scalar: "get_type (ex_schema ex) name = Some (ScalarType t) \<Longrightarrow> sc_coerce_output_value t x = Inr v \<Longrightarrow> \<not> is_null v
    \<Longrightarrow> conforms ex (GNamed name) details v"
| conforms_enum: "get_type (ex_schema ex) name = Some (EnumType t) \<Longrightarrow> enum_coerce_output_value t x = Inr v \<Longrightarrow> \<not> is_null v
    \<Longrightarrow> conforms ex (GNamed name) details v"
| conforms_object: "get_type (ex_schema ex) name = Some (ObjectType t)
    \<Longrightarrow> collect_subfields (ex_context ex (obj_name t)) details = Inr collected
    \<Longrightarrow> object_conforms ex (obj_name t) (grouped_field_set collected) v
    \<Longrightarrow> conforms ex (GNamed name) details v"
| conforms_abstract: "get_type (ex_schema ex) name = Some abstract_type \<Longrightarrow> is_abstract_named abstract_type
    \<Longrightarrow> get_type (ex_schema ex) object_name = Some (ObjectType t) \<Longrightarrow> is_sub_type (ex_schema ex) abstract_type object_name
    \<Longrightarrow> conforms ex (GNamed object_name) details v \<Longrightarrow> v \<noteq> PNone
    \<Longrightarrow> conforms ex (GNamed name) details v"
| object_conforms: "map fst d = response_names ex parent_type groups
    \<Longrightarrow> \<forall>(name, v) \<in> set d. \<exists>details field. (name, details) \<in> set groups
      \<and> get_field ex parent_type (name_value (field_name (fd_node (hd details)))) = Some field
      \<and> conforms ex (fld_type field) details v
    \<Longrightarrow> object_conforms ex parent_type groups (PDict d)"

lemma object_conforms_not_null: "object_conforms ex parent_type groups v \<Longrightarrow> v \<noteq> PNone"
  by (auto elim: object_conforms.cases)

lemma conforms_defined: "conforms ex t details v \<Longrightarrow> v \<noteq> PUndefined"
  by (induction rule: conforms_object_conforms.inducts(1) [where ?P2.0 = "\<lambda>p g v. v \<noteq> PUndefined"]) auto

text \<open>A completer that keeps the types.\<close>

definition typed_completer :: "'w executor \<Rightarrow> 'w completer \<Rightarrow> bool" where
  "typed_completer ex compl \<longleftrightarrow>
     (\<forall>t details info path v. gives (compl t details info path v) (conforms ex t details))"

section \<open>Each method keeps the types\<close>

lemma gives_handle_error: "gives (handle_field_error ex e t path) (conforms ex t details)"
  by (auto simp: handle_field_error_def Let_def gives_def raise_error_def intro: conforms_null split: if_splits)

lemma field_type:
  assumes "typed_completer ex compl"
  shows "gives (execute_field compl ex parent_type source details path)
    (\<lambda>v. case get_field ex parent_type (name_value (field_name (fd_node (hd details)))) of
       None \<Rightarrow> v = PUndefined | Some field \<Rightarrow> conforms ex (fld_type field) details v)"
proof (cases "get_field ex parent_type (name_value (field_name (fd_node (hd details))))")
  case (Some field_def)
  have "gives (bind_exec (coercion r) (\<lambda>args. bind_exec (call_user (f args)) (\<lambda>result.
      compl (fld_type field_def) details info path result))) (conforms ex (fld_type field_def) details)" for r f info
    using assms by (intro gives_bind_any) (simp add: typed_completer_def)
  then show ?thesis
    by (simp add: execute_field_def Some Let_def) (intro gives_catch gives_handle_error)
qed (simp add: execute_field_def gives_return)

definition field_conforms ::
  "'w executor \<Rightarrow> pystr \<Rightarrow> (pystr \<times> field_details list) list \<Rightarrow> pystr \<Rightarrow> py_value \<Rightarrow> bool" where
  "field_conforms ex parent_type groups name v \<longleftrightarrow> (\<exists>details field. (name, details) \<in> set groups
     \<and> get_field ex parent_type (name_value (field_name (fd_node (hd details)))) = Some field
     \<and> conforms ex (fld_type field) details v)"

lemma field_conforms_mono:
  "field_conforms ex parent_type groups name v \<Longrightarrow> set groups \<subseteq> set groups' \<Longrightarrow> field_conforms ex parent_type groups' name v"
  unfolding field_conforms_def by blast

definition fields_conform ::
  "'w executor \<Rightarrow> pystr \<Rightarrow> (pystr \<times> field_details list) list \<Rightarrow> (pystr \<times> py_value) list \<Rightarrow> bool" where
  "fields_conform ex parent_type groups d \<longleftrightarrow> map fst d = response_names ex parent_type groups
     \<and> (\<forall>(name, v) \<in> set d. field_conforms ex parent_type groups name v)"

lemma dict_set_new: "k \<notin> fst ` set d \<Longrightarrow> dict_set k v d = d @ [(k, v)]"
  by (induction d) auto

lemma response_names_subset: "set (response_names ex parent_type groups) \<subseteq> fst ` set groups"
  by (auto simp: response_names_def)

lemma field_list_type:
  assumes "typed_completer ex compl"
  shows "fields_conform ex parent_type before results \<Longrightarrow> distinct (map fst (before @ groups)) \<Longrightarrow>
    gives (execute_field_list compl ex parent_type source path groups results)
      (fields_conform ex parent_type (before @ groups))"
proof (induction groups arbitrary: before results)
  case (Cons group groups)
  obtain name details where group: "group = (name, details)" by (cases group)
  have fresh: "name \<notin> fst ` set results"
  proof -
    have "fst ` set results = set (response_names ex parent_type before)"
      using Cons.prems(1) by (metis fields_conform_def list.set_map)
    with response_names_subset [of ex parent_type before] Cons.prems(2) show ?thesis by (auto simp: group)
  qed
  show ?case
    unfolding group execute_field_list.simps
  proof (rule gives_bind [OF field_type [OF assms]])
    fix result
    assume result: "case get_field ex parent_type (name_value (field_name (fd_node (hd details)))) of
       None \<Rightarrow> result = PUndefined | Some field \<Rightarrow> conforms ex (fld_type field) details result"
    let ?before = "before @ [(name, details)]"
    have kept: "\<forall>(name, v) \<in> set results. field_conforms ex parent_type ?before name v"
      using Cons.prems(1) by (auto simp: fields_conform_def intro: field_conforms_mono)
    have "fields_conform ex parent_type ?before
        (if result \<noteq> PUndefined then dict_set name result results else results)"
    proof (cases "get_field ex parent_type (name_value (field_name (fd_node (hd details))))")
      case None
      with result kept Cons.prems(1) show ?thesis by (simp add: fields_conform_def response_names_def)
    next
      case (Some field)
      with result have "conforms ex (fld_type field) details result" by simp
      then have "field_conforms ex parent_type ?before name result" "result \<noteq> PUndefined"
        using Some by (auto simp: field_conforms_def dest: conforms_defined)
      with Some kept Cons.prems(1) fresh show ?thesis
        by (simp add: fields_conform_def response_names_def dict_set_new)
    qed
    from Cons.IH [OF this] Cons.prems(2)
    show "gives (execute_field_list compl ex parent_type source path groups
        (if result \<noteq> PUndefined then dict_set name result results else results))
      (fields_conform ex parent_type (before @ (name, details) # groups))"
      by (simp add: group)
  qed
qed (simp add: gives_return)

lemma fields_type:
  assumes "typed_completer ex compl" and "distinct (map fst groups)"
  shows "gives (execute_fields compl ex parent_type source path groups) (object_conforms ex parent_type groups)"
proof -
  have "gives (execute_field_list compl ex parent_type source path groups []) (fields_conform ex parent_type groups)"
    using field_list_type [OF assms(1), of parent_type "[]" "[]" groups] assms(2)
    by (simp add: fields_conform_def response_names_def)
  then show ?thesis
    unfolding execute_fields_def
    by (rule gives_bind) (auto simp: fields_conform_def field_conforms_def intro!: gives_return object_conforms)
qed

lemma leaf_type:
  "gives (complete_leaf_value f result) (\<lambda>v. \<exists>x. f x = Inr v \<and> \<not> is_null v)"
  by (auto simp: complete_leaf_value_def intro!: gives_intros split: sum.split)

lemma items_type:
  assumes "typed_completer ex compl"
  shows "\<forall>v \<in> set results. conforms ex t details v \<Longrightarrow>
    gives (complete_items compl ex t details info path items results) (\<lambda>vs. \<forall>v \<in> set vs. conforms ex t details v)"
proof (induction items arbitrary: results)
  case (Cons item items)
  have "gives (complete_list_item_value compl ex item results t details info item_path)
      (\<lambda>vs. \<forall>v \<in> set vs. conforms ex t details v)" for item_path
    unfolding complete_list_item_value_def
  proof (rule gives_bind [OF gives_catch])
    show "gives (compl t details info item_path item) (conforms ex t details)"
      using assms by (simp add: typed_completer_def)
  qed (auto intro!: gives_handle_error gives_return dest: Cons.prems [THEN bspec])
  then show ?case unfolding complete_items.simps by (rule gives_bind) (rule Cons.IH)
qed (simp add: gives_return)

lemma list_type:
  assumes "typed_completer ex compl"
  shows "gives (complete_list_value compl ex t details info path result) (conforms ex (GList t) details)"
proof -
  have "gives (complete_iterable_value compl ex t details info path items) (conforms ex (GList t) details)" for items
    unfolding complete_iterable_value_def
    by (rule gives_bind_any, rule gives_bind [OF items_type [OF assms]]) (auto intro: gives_return conforms_list)
  then show ?thesis by (auto simp: complete_list_value_def intro: gives_raise split: py_value.split)
qed

lemma object_type:
  assumes "typed_completer ex compl" and "get_type (ex_schema ex) name = Some (ObjectType t)"
  shows "gives (complete_object_value compl ex t details info path result) (\<lambda>v. conforms ex (GNamed name) details v \<and> v \<noteq> PNone)"
proof -
  have "gives (collect_and_execute_subfields compl ex t details path result)
      (\<lambda>v. conforms ex (GNamed name) details v \<and> v \<noteq> PNone)"
    unfolding collect_and_execute_subfields_def
  proof (rule gives_bind [OF gives_coercion])
    fix collected
    assume collected: "collect_subfields (ex_context ex (obj_name t)) details = Inr collected"
    then have "distinct (map fst (grouped_field_set collected))"
      using collect_subfields_well_grouped by (auto simp: well_grouped_def)
    from fields_type [OF assms(1) this] show
      "gives (execute_fields compl ex (obj_name t) result path (grouped_field_set collected))
        (\<lambda>v. conforms ex (GNamed name) details v \<and> v \<noteq> PNone)"
      by (rule gives_mono)
         (use conforms_object [OF assms(2) collected] in \<open>auto dest: object_conforms_not_null\<close>)
  qed
  then show ?thesis by (cases "obj_is_type_of t") (auto simp: complete_object_value_def intro!: gives_bind_any gives_raise)
qed

lemma runtime_type:
  "gives (ensure_valid_runtime_type ex name abstract_type) (\<lambda>t. \<exists>object_name.
     get_type (ex_schema ex) object_name = Some (ObjectType t) \<and> is_sub_type (ex_schema ex) abstract_type object_name)"
  by (auto simp: ensure_valid_runtime_type_def intro!: gives_intros split: py_value.split option.split named_type.split)

lemma abstract_type:
  assumes "typed_completer ex compl" and "get_type (ex_schema ex) name = Some t" and "is_abstract_named t"
  shows "gives (complete_abstract_value compl ex t f details info path result) (conforms ex (GNamed name) details)"
  unfolding complete_abstract_value_def
proof (rule gives_bind_any, rule gives_bind [OF runtime_type])
  fix o_type
  assume "\<exists>object_name. get_type (ex_schema ex) object_name = Some (ObjectType o_type) \<and> is_sub_type (ex_schema ex) t object_name"
  then obtain object_name where runtime: "get_type (ex_schema ex) object_name = Some (ObjectType o_type)"
    "is_sub_type (ex_schema ex) t object_name" by blast
  show "gives (complete_object_value compl ex o_type details info path result) (conforms ex (GNamed name) details)"
    by (rule gives_mono [OF object_type [OF assms(1) runtime(1)]])
       (use conforms_abstract [OF assms(2,3) runtime] in blast)
qed

lemma named_type:
  assumes "typed_completer ex compl"
  shows "gives (complete_named_value compl ex name details info path result) (conforms ex (GNamed name) details)"
proof (cases "get_type (ex_schema ex) name")
  case (Some t)
  show ?thesis
  proof (cases t)
    case (ScalarType st)
    have "gives (complete_leaf_value (sc_coerce_output_value st) result) (conforms ex (GNamed name) details)"
      by (rule gives_mono [OF leaf_type]) (use Some ScalarType in \<open>auto intro: conforms_scalar\<close>)
    then show ?thesis by (simp add: complete_named_value_def Some ScalarType)
  next
    case (EnumType et)
    have "gives (complete_leaf_value (enum_coerce_output_value et) result) (conforms ex (GNamed name) details)"
      by (rule gives_mono [OF leaf_type]) (use Some EnumType in \<open>auto intro: conforms_enum\<close>)
    then show ?thesis by (simp add: complete_named_value_def Some EnumType)
  next
    case (ObjectType ot)
    have "gives (complete_object_value compl ex ot details info path result) (conforms ex (GNamed name) details)"
      by (rule gives_mono [OF object_type [OF assms]]) (use Some ObjectType in auto)
    then show ?thesis by (simp add: complete_named_value_def Some ObjectType)
  qed (use abstract_type [OF assms Some] in \<open>auto simp: complete_named_value_def Some intro: gives_raise\<close>)
qed (simp add: complete_named_value_def gives_raise)

lemma body_type:
  assumes "typed_completer ex compl"
  shows "gives (complete_value_body compl ex t details info path result) (conforms ex t details)"
proof -
  have null: "gives (return_value PNone) (conforms ex t details)" if "\<not> is_non_null_type t"
    using that by (auto intro: gives_return conforms_null)
  have body: "gives (case t of
      GNonNull of_type \<Rightarrow>
        bind_exec (compl of_type details info path result) (\<lambda>completed.
          if completed = PNone
          then raise_error (raw (TypeError (str ''Cannot return null for non-nullable field'')))
          else return_value completed)
    | GList item_type \<Rightarrow>
        if is_null result then return_value PNone
        else complete_list_value compl ex item_type details info path result
    | GNamed name \<Rightarrow>
        if is_null result then return_value PNone
        else complete_named_value compl ex name details info path result) (conforms ex t details)"
  proof (cases t)
    case (GNonNull of_type)
    have "gives (compl of_type details info path result) (conforms ex of_type details)"
      using assms by (simp add: typed_completer_def)
    then show ?thesis
      unfolding GNonNull gtype.case by (rule gives_bind) (auto intro!: gives_intros intro: conforms_non_null)
  qed (use null list_type [OF assms] named_type [OF assms] in auto)
  then show ?thesis unfolding complete_value_body_def by (cases result) (simp_all add: gives_raise)
qed

lemma complete_value_typed: "typed_completer ex (complete_value n ex)"
proof (induction n)
  case 0
  show ?case by (simp add: typed_completer_def gives_def)
next
  case (Suc n)
  from body_type [OF Suc] show ?case by (simp add: typed_completer_def)
qed

section \<open>Serial execution\<close>

lemma bind_return:
  "bind_exec (bind_exec m (\<lambda>x. return_value (g x))) f = bind_exec m (\<lambda>x. f (g x))"
  by (rule ext) (auto simp: bind_exec_def return_value_def split: option.splits sum.splits prod.splits)

lemma serial_field_list:
  "async_reduce (\<lambda>results (response_name, details).
       bind_exec (execute_field compl ex parent_type source details
         (add_key path (PathName response_name) (Some parent_type))) (\<lambda>result.
       return_value (if result = PUndefined then results else dict_set response_name result results))) groups results
    = execute_field_list compl ex parent_type source path groups results"
proof (induction groups arbitrary: results)
  case (Cons group groups)
  obtain name details where group: "group = (name, details)" by (cases group)
  have "(\<lambda>result. execute_field_list compl ex parent_type source path groups
        (if result = PUndefined then results else dict_set name result results))
      = (\<lambda>result. execute_field_list compl ex parent_type source path groups
        (if result \<noteq> PUndefined then dict_set name result results else results))"
    by (rule ext) simp
  then show ?case by (simp only: group async_reduce.simps prod.case bind_return Cons.IH execute_field_list.simps)
qed simp

lemma serial_fields: "execute_fields_serially = execute_fields"
  by (intro ext) (simp add: execute_fields_serially_def execute_fields_def serial_field_list)

text \<open>
  C8.  The fields of the root may be executed serially, as the specification asks for mutations, or not: with resolvers
  that return no awaitables the response and the state of the world are the same.
\<close>

theorem serial_execution_same:
  "execute_operation n ex (Some True) w = execute_operation n ex (Some False) w"
proof -
  have "execute_root n ex (Some True) = execute_root n ex (Some False)"
    unfolding execute_root_def serial_fields option.case if_cancel ..
  then show ?thesis by (simp add: execute_operation_def)
qed

section \<open>The response\<close>

text \<open>
  C5.  The data of a response is an object with the response names of the fields of the operation that exist, in their
  order, and every value has the type of its field: no null where the type is non-null, lists for lists, results of the
  leaf types' own functions, and objects of possible types with their own fields.
\<close>

theorem response_conforms:
  assumes "execute_operation n ex serially w = Some (Inr response, w')" and "response_data response = Some data"
  shows "\<exists>root_type collected. get_root_type (ex_schema ex) (op_operation (ex_operation ex)) = Some root_type
    \<and> collect_fields (ex_context ex root_type) (ex_operation ex) = Inr collected
    \<and> object_conforms ex root_type (grouped_field_set collected) data"
proof -
  from assms obtain s where run: "execute_root n ex serially \<lparr>world = w, error_positions = [], collected_errors = []\<rparr> = Some (Inr data, s)"
    by (auto simp: execute_operation_def build_response_def split: option.splits prod.splits sum.splits if_splits)
  have "gives (execute_root n ex serially) (\<lambda>data. \<exists>root_type collected.
      get_root_type (ex_schema ex) (op_operation (ex_operation ex)) = Some root_type
      \<and> collect_fields (ex_context ex root_type) (ex_operation ex) = Inr collected
      \<and> object_conforms ex root_type (grouped_field_set collected) data)"
  proof (cases "get_root_type (ex_schema ex) (op_operation (ex_operation ex))")
    case (Some root_type)
    have "gives (execute_fields (complete_value n ex) ex root_type (ex_root_value ex) [] (grouped_field_set collected))
        (object_conforms ex root_type (grouped_field_set collected))"
      if "collect_fields (ex_context ex root_type) (ex_operation ex) = Inr collected" for collected
      using collect_fields_well_grouped [OF that] by (intro fields_type [OF complete_value_typed]) (simp add: well_grouped_def)
    then show ?thesis
      unfolding execute_root_def serial_fields Let_def Some option.case if_cancel
      by (intro gives_bind [OF gives_coercion]) (auto elim: gives_mono)
  qed (simp add: execute_root_def gives_raise)
  with run show ?thesis unfolding gives_def by blast
qed

end
