(* ===== verification/Executor_Errors.thy ===== *)
theory Executor_Errors
  imports Executor_Types
begin

text \<open>
  Errors and nulls: the collected errors never lie below a position that is nulled already, and wherever the response
  has an error, the data is null there or above.
\<close>

section \<open>Collected errors\<close>

definition below :: "path \<Rightarrow> path \<Rightarrow> bool" where
  "below p q \<longleftrightarrow> (\<exists>ks. q = ks @ p)"

lemma below_refl [simp]: "below p p"
  by (simp add: below_def)

lemma below_append [simp]: "below p (ks @ p)"
  by (simp add: below_def)

lemma below_trans: "below p q \<Longrightarrow> below q r \<Longrightarrow> below p r"
  by (auto simp: below_def)

lemma below_Cons: "below p (k # q) \<longleftrightarrow> p = k # q \<or> below p q"
  by (auto simp: below_def Cons_eq_append_conv)

lemma nulled_position_below: "has_nulled_position ps q \<longleftrightarrow> (\<exists>p \<in> set ps. below p q)"
proof (induction ps q rule: has_nulled_position.induct)
  case (1 ps)
  then show ?case by (auto simp: below_def)
next
  case (2 ps key prev)
  then show ?case by (auto simp: below_Cons)
qed

definition no_error_below :: "path list \<Rightarrow> bool" where
  "no_error_below ps \<longleftrightarrow> (\<forall>j < length ps. \<forall>i < j. \<not> below (ps ! i) (ps ! j))"

lemma no_error_below_snoc: "no_error_below (ps @ [q]) \<longleftrightarrow> no_error_below ps \<and> (\<forall>p \<in> set ps. \<not> below p q)"
proof -
  have "(\<forall>i < length ps. \<not> below (ps ! i) q) \<longleftrightarrow> (\<forall>p \<in> set ps. \<not> below p q)" by (metis in_set_conv_nth)
  then show ?thesis unfolding no_error_below_def by (auto simp: less_Suc_eq nth_append)
qed

definition add_all :: "(field_error \<times> path) list \<Rightarrow> 'w exec_state \<Rightarrow> 'w exec_state" where
  "add_all = fold (\<lambda>(e, p). add_error e p)"

lemma add_all_invariant:
  assumes "no_error_below (error_positions s)" and "length (collected_errors s) = length (error_positions s)"
  shows "let s' = add_all additions s in
    no_error_below (error_positions s') \<and> length (collected_errors s') = length (error_positions s')
    \<and> set (error_positions s) \<subseteq> set (error_positions s')
    \<and> (\<forall>(e, p) \<in> set additions. \<exists>q \<in> set (error_positions s'). below q p)"
  using assms
proof (induction additions arbitrary: s)
  case (Cons ep additions)
  obtain e p where ep: "ep = (e, p)" by (cases ep)
  define s1 where "s1 = add_error e p s"
  have s1: "no_error_below (error_positions s1)" "length (collected_errors s1) = length (error_positions s1)"
    "set (error_positions s) \<subseteq> set (error_positions s1)" "\<exists>q \<in> set (error_positions s1). below q p"
    using Cons.prems by (auto simp: s1_def add_error_def nulled_position_below no_error_below_snoc)
  from Cons.IH [OF s1(1,2)] s1(3,4) show ?case by (fastforce simp: add_all_def ep s1_def Let_def)
qed (simp add: add_all_def)

text \<open>
  C9.  Whatever errors are added in whatever order, no recorded error lies at or below the position of an earlier one, and
  an error that is not recorded lies at or below the position of a recorded one.
\<close>

theorem collected_errors_cover:
  "let s = add_all additions \<lparr>world = w, error_positions = [], collected_errors = []\<rparr> in
    no_error_below (error_positions s) \<and> length (collected_errors s) = length (error_positions s)
    \<and> (\<forall>(e, p) \<in> set additions. \<exists>q \<in> set (error_positions s). below q p)"
  using add_all_invariant [of "\<lparr>world = w, error_positions = [], collected_errors = []\<rparr>" additions]
  by (simp add: no_error_below_def Let_def)

section \<open>Nulled data\<close>

text \<open>The path of keys meets a null in the data.\<close>

fun nulled :: "py_value \<Rightarrow> path_key list \<Rightarrow> bool" where
  "nulled PNone ks = True"
| "nulled (PDict d) (PathName k # ks) = (case map_of d k of Some v \<Rightarrow> nulled v ks | None \<Rightarrow> False)"
| "nulled (PList vs) (PathIndex i # ks) = (i < length vs \<and> nulled (vs ! i) ks)"
| "nulled v ks = False"

lemma nulled_append: "nulled v ks \<Longrightarrow> nulled v (ks @ ms)"
  by (induction v ks rule: nulled.induct) (auto split: option.splits)

definition null_at :: "path \<Rightarrow> py_value \<Rightarrow> path \<Rightarrow> bool" where
  "null_at p v q \<longleftrightarrow> (\<exists>ks. q = ks @ p \<and> nulled v (as_list ks))"

lemma as_list_append [simp]: "as_list (ks @ p) = as_list p @ as_list ks"
  by (simp add: as_list_def)

lemma as_list_simps [simp]: "as_list [] = []" "as_list ((key, typename) # p) = as_list p @ [key]"
  by (simp_all add: as_list_def)

lemma null_at_none: "below p q \<Longrightarrow> null_at p PNone q"
  by (auto simp: null_at_def below_def)

lemma null_at_undefined [simp]: "\<not> null_at p PUndefined q"
  by (simp add: null_at_def)

lemma null_at_dict:
  assumes "null_at (add_key p (PathName name) typename) v q" and "map_of d name = Some v"
  shows "null_at p (PDict d) q"
proof -
  from assms(1) obtain ks where "q = ks @ (PathName name, typename) # p" "nulled v (as_list ks)"
    by (auto simp: null_at_def add_key_def)
  with assms(2) show ?thesis unfolding null_at_def
    by (intro exI [of _ "ks @ [(PathName name, typename)]"]) simp
qed

lemma null_at_list:
  assumes "null_at (add_key p (PathIndex i) typename) (vs ! i) q" and "i < length vs"
  shows "null_at p (PList vs) q"
proof -
  from assms(1) obtain ks where "q = ks @ (PathIndex i, typename) # p" "nulled (vs ! i) (as_list ks)"
    by (auto simp: null_at_def add_key_def)
  with assms(2) show ?thesis unfolding null_at_def
    by (intro exI [of _ "ks @ [(PathIndex i, typename)]"]) simp
qed

text \<open>Entries that stay keep their nulls.\<close>

lemma nulled_dict_mono:
  assumes "nulled (PDict d) ks" and "\<forall>k v. map_of d k = Some v \<longrightarrow> map_of d' k = Some v"
  shows "nulled (PDict d') ks"
  using assms by (cases "(PDict d, ks)" rule: nulled.cases) (auto split: option.splits)

lemma nulled_list_mono: "nulled (PList vs) ks \<Longrightarrow> nulled (PList (vs @ ws)) ks"
  by (cases "(PList vs, ks)" rule: nulled.cases) (auto simp: nth_append)

section \<open>Tracing the errors\<close>

definition error_below :: "path \<Rightarrow> field_error \<Rightarrow> bool" where
  "error_below p e \<longleftrightarrow> fe_path e = None \<or> (\<exists>ks. fe_path e = Some (as_list p @ ks))"

definition placed :: "path \<Rightarrow> field_error \<Rightarrow> bool" where
  "placed p e \<longleftrightarrow> (\<exists>ks. fe_path e = Some (as_list p @ ks))"

text \<open>
  A computation at a path records errors below that path only, and for the value that it returns they have the
  property.
\<close>

definition traced :: "path \<Rightarrow> ('a \<Rightarrow> path \<Rightarrow> bool) \<Rightarrow> ('w, 'a) exec \<Rightarrow> bool" where
  "traced p N m \<longleftrightarrow> (\<forall>s r s'. m s = Some (r, s') \<longrightarrow> (\<exists>ps es.
     error_positions s' = error_positions s @ ps \<and> collected_errors s' = collected_errors s @ es \<and> list_all2 placed ps es
     \<and> (\<forall>q \<in> set ps. below p q)
     \<and> (case r of Inl e \<Rightarrow> error_below p e | Inr x \<Rightarrow> \<forall>q \<in> set ps. N x q)))"

text \<open>Nothing is recorded.\<close>

definition quiet :: "('w, 'a) exec \<Rightarrow> bool" where
  "quiet m \<longleftrightarrow> (\<forall>s r s'. m s = Some (r, s') \<longrightarrow>
     error_positions s' = error_positions s \<and> collected_errors s' = collected_errors s
     \<and> (\<forall>e. r = Inl e \<longrightarrow> fe_path e = None))"

lemma quiet_traced: "quiet m \<Longrightarrow> traced p N m"
  unfolding quiet_def traced_def
  by (intro allI impI exI [of _ "[]"]) (auto simp: error_below_def split: sum.split)

lemma quiet_return: "quiet (return_value x)"
  by (simp add: quiet_def return_value_def)

lemma quiet_raise: "quiet (raise_error (raw e))"
  by (simp add: quiet_def raise_error_def raw_def)

lemma quiet_coercion: "quiet (coercion r)"
  by (auto simp: quiet_def coercion_def raw_def split: sum.splits if_splits)

lemma quiet_user: "quiet (call_user f)"
  by (auto simp: quiet_def call_user_def raw_def split: prod.splits sum.splits)

lemma quiet_bind:
  assumes "quiet m" and "\<And>x. quiet (f x)"
  shows "quiet (bind_exec m f)"
  unfolding quiet_def
proof (intro allI impI)
  fix s r s'
  assume run: "bind_exec m f s = Some (r, s')"
  show "error_positions s' = error_positions s \<and> collected_errors s' = collected_errors s \<and> (\<forall>e. r = Inl e \<longrightarrow> fe_path e = None)"
  proof (cases "m s")
    case (Some ry)
    obtain y s1 where ry: "ry = (y, s1)" by (cases ry)
    from assms(1) Some ry have m: "error_positions s1 = error_positions s" "collected_errors s1 = collected_errors s"
      "\<forall>e. y = Inl e \<longrightarrow> fe_path e = None" by (auto simp: quiet_def)
    show ?thesis
    proof (cases y)
      case (Inr x)
      with run Some ry have "f x s1 = Some (r, s')" by (simp add: bind_exec_def)
      with assms(2) [of x] m show ?thesis by (auto simp: quiet_def)
    qed (use run Some ry m in \<open>auto simp: bind_exec_def\<close>)
  qed (use run in \<open>simp add: bind_exec_def\<close>)
qed

lemma traced_bind:
  assumes "traced p N m" and "\<And>x. traced p M (f x)" and "\<And>x. gives (f x) (\<lambda>y. \<forall>q. N x q \<longrightarrow> M y q)"
  shows "traced p M (bind_exec m f)"
  unfolding traced_def
proof (intro allI impI)
  fix s r s'
  assume run: "bind_exec m f s = Some (r, s')"
  then obtain y s1 where y: "m s = Some (y, s1)" by (auto simp: bind_exec_def split: option.splits)
  with assms(1) obtain ps es where m: "error_positions s1 = error_positions s @ ps" "collected_errors s1 = collected_errors s @ es"
    "list_all2 placed ps es" "\<forall>q \<in> set ps. below p q" "case y of Inl e \<Rightarrow> error_below p e | Inr x \<Rightarrow> \<forall>q \<in> set ps. N x q"
    unfolding traced_def by blast
  show "\<exists>ps es. error_positions s' = error_positions s @ ps \<and> collected_errors s' = collected_errors s @ es
    \<and> list_all2 placed ps es \<and> (\<forall>q \<in> set ps. below p q)
    \<and> (case r of Inl e \<Rightarrow> error_below p e | Inr x \<Rightarrow> \<forall>q \<in> set ps. M x q)"
  proof (cases y)
    case (Inl e)
    with run y have "r = Inl e" "s' = s1" by (auto simp: bind_exec_def)
    with m Inl show ?thesis by (intro exI [of _ ps] exI [of _ es]) simp
  next
    case (Inr x)
    with run y have fx: "f x s1 = Some (r, s')" by (simp add: bind_exec_def)
    with assms(2) [of x] obtain ps' es' where f: "error_positions s' = error_positions s1 @ ps'"
      "collected_errors s' = collected_errors s1 @ es'" "list_all2 placed ps' es'" "\<forall>q \<in> set ps'. below p q"
      "case r of Inl e \<Rightarrow> error_below p e | Inr x \<Rightarrow> \<forall>q \<in> set ps'. M x q"
      unfolding traced_def by blast
    have "\<forall>q \<in> set ps. M z q" if "r = Inr z" for z
      using assms(3) [of x] fx m(5) that by (auto simp: gives_def Inr)
    with m f show ?thesis
      by (intro exI [of _ "ps @ ps'"] exI [of _ "es @ es'"]) (auto simp: list_all2_appendI split: sum.splits)
  qed
qed

text \<open>When the first part records nothing, or the value of the second part is not looked at.\<close>

lemma traced_after_quiet: "quiet m \<Longrightarrow> (\<And>x. traced p M (f x)) \<Longrightarrow> traced p M (bind_exec m f)"
  by (rule traced_bind [OF quiet_traced, where N = "\<lambda>x q. False"]) (auto simp: gives_def)

lemma traced_mono: "traced p N m \<Longrightarrow> (\<And>x q. N x q \<Longrightarrow> M x q) \<Longrightarrow> traced p M m"
proof -
  assume traced: "traced p N m" and N: "\<And>x q. N x q \<Longrightarrow> M x q"
  show "traced p M m"
    unfolding traced_def
  proof (intro allI impI)
    fix s r s'
    assume "m s = Some (r, s')"
    with traced obtain ps es where "error_positions s' = error_positions s @ ps" "collected_errors s' = collected_errors s @ es"
      "list_all2 placed ps es" "\<forall>q \<in> set ps. below p q" "case r of Inl e \<Rightarrow> error_below p e | Inr x \<Rightarrow> \<forall>q \<in> set ps. N x q"
      unfolding traced_def by blast
    then show "\<exists>ps es. error_positions s' = error_positions s @ ps \<and> collected_errors s' = collected_errors s @ es
      \<and> list_all2 placed ps es \<and> (\<forall>q \<in> set ps. below p q)
      \<and> (case r of Inl e \<Rightarrow> error_below p e | Inr x \<Rightarrow> \<forall>q \<in> set ps. M x q)"
      by (intro exI [of _ ps] exI [of _ es]) (auto intro: N split: sum.splits)
  qed
qed

lemma traced_then_return:
  assumes "traced p N m" and "\<And>x q. N x q \<Longrightarrow> M (g x) q"
  shows "traced p M (bind_exec m (\<lambda>x. return_value (g x)))"
  by (rule traced_bind [OF assms(1)]) (auto intro: quiet_traced quiet_return gives_return assms(2))

lemma located_placed: "error_below p e \<Longrightarrow> placed p (located_error e (as_list p))"
  by (auto simp: error_below_def placed_def located_error_def)

lemma placed_below: "placed p e \<Longrightarrow> error_below p e"
  by (auto simp: placed_def error_below_def)

text \<open>The handler of a field or an item.\<close>

lemma traced_catch:
  assumes "traced p (null_at p) m"
  shows "traced p (null_at p) (catch m (\<lambda>e. handle_field_error ex e t p))"
  unfolding traced_def
proof (intro allI impI)
  fix s r s'
  assume run: "catch m (\<lambda>e. handle_field_error ex e t p) s = Some (r, s')"
  then obtain y s1 where y: "m s = Some (y, s1)" by (auto simp: catch_def split: option.splits)
  with assms(1) obtain ps es where m: "error_positions s1 = error_positions s @ ps" "collected_errors s1 = collected_errors s @ es"
    "list_all2 placed ps es" "\<forall>q \<in> set ps. below p q" "case y of Inl e \<Rightarrow> error_below p e | Inr x \<Rightarrow> \<forall>q \<in> set ps. null_at p x q"
    unfolding traced_def by blast
  show "\<exists>ps es. error_positions s' = error_positions s @ ps \<and> collected_errors s' = collected_errors s @ es
    \<and> list_all2 placed ps es \<and> (\<forall>q \<in> set ps. below p q)
    \<and> (case r of Inl e \<Rightarrow> error_below p e | Inr x \<Rightarrow> \<forall>q \<in> set ps. null_at p x q)"
  proof (cases y)
    case (Inr x)
    with run y have "r = Inr x" "s' = s1" by (auto simp: catch_def)
    with m Inr show ?thesis by (intro exI [of _ ps] exI [of _ es]) simp
  next
    case (Inl e)
    define located where "located = located_error e (as_list p)"
    have placed: "placed p located" using m(5) Inl by (simp add: located_def located_placed)
    consider "r = Inl located" "s' = s1" | "r = Inr PNone" "s' = add_error located p s1"
      using run y Inl
      by (auto simp: catch_def handle_field_error_def Let_def raise_error_def located_def split: if_splits)
    then show ?thesis
    proof cases
      case 1
      with m placed show ?thesis by (intro exI [of _ ps] exI [of _ es]) (simp add: placed_below)
    next
      case 2
      show ?thesis
      proof (cases "has_nulled_position (error_positions s1) p")
        case True
        with 2 m show ?thesis
          by (intro exI [of _ ps] exI [of _ es]) (simp add: add_error_def null_at_none)
      next
        case False
        with 2 m placed show ?thesis
          by (intro exI [of _ "ps @ [p]"] exI [of _ "es @ [located]"])
             (auto simp: add_error_def null_at_none list_all2_appendI)
      qed
    qed
  qed
qed

definition traced_completer :: "'w completer \<Rightarrow> bool" where
  "traced_completer compl \<longleftrightarrow> (\<forall>t details info p v. traced p (null_at p) (compl t details info p v))"

lemma traced_field:
  assumes "traced_completer compl"
  shows "traced p (null_at p) (execute_field compl ex parent_type source details p)"
proof (cases "get_field ex parent_type (name_value (field_name (fd_node (hd details))))")
  case (Some field_def)
  have "traced p (null_at p) (bind_exec (coercion r) (\<lambda>args. bind_exec (call_user (f args)) (\<lambda>result.
      compl (fld_type field_def) details info p result)))" for r f info
    using assms by (intro traced_after_quiet quiet_coercion quiet_user) (simp add: traced_completer_def)
  then show ?thesis unfolding execute_field_def Some Let_def option.case by (rule traced_catch)
qed (simp add: execute_field_def quiet_traced quiet_return)

text \<open>Positions of another path: a child's are the parent's too.\<close>

lemma as_list_child: "as_list (add_key p key typename) = as_list p @ [key]"
  by (simp add: add_key_def)

lemma traced_child:
  assumes "traced (add_key p key typename) N m" and "\<And>x q. N x q \<Longrightarrow> M x q"
  shows "traced p M m"
  unfolding traced_def
proof (intro allI impI)
  fix s r s'
  assume "m s = Some (r, s')"
  with assms(1) obtain ps es where m: "error_positions s' = error_positions s @ ps" "collected_errors s' = collected_errors s @ es"
    "list_all2 placed ps es" "\<forall>q \<in> set ps. below (add_key p key typename) q"
    "case r of Inl e \<Rightarrow> error_below (add_key p key typename) e | Inr x \<Rightarrow> \<forall>q \<in> set ps. N x q"
    unfolding traced_def by blast
  have "below p (add_key p key typename)" by (simp add: below_def add_key_def)
  with m(4) have "\<forall>q \<in> set ps. below p q" by (blast intro: below_trans)
  moreover have "error_below (add_key p key typename) e \<Longrightarrow> error_below p e" for e
    by (auto simp: error_below_def as_list_child)
  ultimately show "\<exists>ps es. error_positions s' = error_positions s @ ps \<and> collected_errors s' = collected_errors s @ es
    \<and> list_all2 placed ps es \<and> (\<forall>q \<in> set ps. below p q)
    \<and> (case r of Inl e \<Rightarrow> error_below p e | Inr x \<Rightarrow> \<forall>q \<in> set ps. M x q)"
    using m assms(2) by (intro exI [of _ ps] exI [of _ es]) (auto split: sum.splits)
qed

section \<open>Fields and items\<close>

text \<open>Later fields and items keep the entries of the earlier ones.\<close>

lemma field_list_keeps:
  "distinct (map fst groups) \<Longrightarrow> fst ` set groups \<inter> fst ` set results = {} \<Longrightarrow>
    gives (execute_field_list compl ex parent_type source p groups results)
      (\<lambda>d. \<forall>k v. map_of results k = Some v \<longrightarrow> map_of d k = Some v)"
proof (induction groups arbitrary: results)
  case (Cons group groups)
  obtain name details where group: "group = (name, details)" by (cases group)
  show ?case
    unfolding group execute_field_list.simps
  proof (rule gives_bind_any)
    fix result
    let ?results = "if result \<noteq> PUndefined then dict_set name result results else results"
    have keys: "fst ` set ?results \<subseteq> insert name (fst ` set results)" by auto
    have "map_of ?results k = map_of results k" if "k \<noteq> name" for k using that by simp
    moreover have "map_of results name = None" using Cons.prems(2) by (auto simp: group map_of_eq_None_iff)
    ultimately have kept: "\<forall>k v. map_of results k = Some v \<longrightarrow> map_of ?results k = Some v"
      by (metis option.distinct(1))
    have "gives (execute_field_list compl ex parent_type source p groups ?results)
        (\<lambda>d. \<forall>k v. map_of ?results k = Some v \<longrightarrow> map_of d k = Some v)"
      using Cons.prems keys by (intro Cons.IH) (auto simp: group)
    then show "gives (execute_field_list compl ex parent_type source p groups ?results)
        (\<lambda>d. \<forall>k v. map_of results k = Some v \<longrightarrow> map_of d k = Some v)"
      by (rule gives_mono) (use kept in blast)
  qed
qed (simp add: gives_return)

lemma traced_field_list:
  assumes "traced_completer compl"
  shows "distinct (map fst groups) \<Longrightarrow> fst ` set groups \<inter> fst ` set results = {} \<Longrightarrow>
    traced p (\<lambda>d. null_at p (PDict d)) (execute_field_list compl ex parent_type source p groups results)"
proof (induction groups arbitrary: results)
  case (Cons group groups)
  obtain name details where group: "group = (name, details)" by (cases group)
  let ?child = "add_key p (PathName name) (Some parent_type)"
  let ?results = "\<lambda>result. if result \<noteq> PUndefined then dict_set name result results else results"
  have disjoint: "distinct (map fst groups)" "fst ` set groups \<inter> fst ` set (?results result) = {}" for result
    using Cons.prems by (auto simp: group)
  show ?case
    unfolding group execute_field_list.simps
  proof (rule traced_bind)
    show "traced p (null_at ?child) (execute_field compl ex parent_type source details ?child)"
      by (rule traced_child [OF traced_field [OF assms]])
    fix result
    show "traced p (\<lambda>d. null_at p (PDict d)) (execute_field_list compl ex parent_type source p groups (?results result))"
      by (rule Cons.IH [OF disjoint])
    show "gives (execute_field_list compl ex parent_type source p groups (?results result))
        (\<lambda>d. \<forall>q. null_at ?child result q \<longrightarrow> null_at p (PDict d) q)"
    proof (rule gives_mono [OF field_list_keeps [OF disjoint]], intro allI impI)
      fix d q
      assume kept: "\<forall>k v. map_of (?results result) k = Some v \<longrightarrow> map_of d k = Some v" and null: "null_at ?child result q"
      then have "result \<noteq> PUndefined" by auto
      with kept have "map_of d name = Some result" by simp
      with null show "null_at p (PDict d) q" by (rule null_at_dict)
    qed
  qed
qed (simp add: quiet_traced quiet_return)

lemma traced_fields:
  "traced_completer compl \<Longrightarrow> distinct (map fst groups) \<Longrightarrow>
    traced p (null_at p) (execute_fields compl ex parent_type source p groups)"
  unfolding execute_fields_def by (rule traced_then_return [OF traced_field_list]) auto

lemma items_keep:
  "gives (complete_items compl ex t details info p items results) (\<lambda>vs. \<exists>ws. vs = results @ ws)"
proof (induction items arbitrary: results)
  case (Cons item items)
  have "gives (complete_list_item_value compl ex item results t details info item_path) (\<lambda>vs. \<exists>ws. vs = results @ ws)" for item_path
    unfolding complete_list_item_value_def by (intro gives_bind_any gives_return) auto
  then show ?case
    unfolding complete_items.simps by (rule gives_bind) (rule gives_mono [OF Cons.IH], auto)
qed (simp add: gives_return)

lemma traced_items:
  assumes "traced_completer compl"
  shows "traced p (\<lambda>vs. null_at p (PList vs)) (complete_items compl ex t details info p items results)"
proof (induction items arbitrary: results)
  case (Cons item items)
  let ?child = "add_key p (PathIndex (length results)) None"
  let ?at = "\<lambda>vs q. \<exists>v ws. vs = results @ [v] @ ws \<and> null_at ?child v q"
  show ?case
    unfolding complete_items.simps
  proof (rule traced_bind)
    have "traced ?child (null_at ?child) (compl t details info ?child item)"
      using assms by (simp add: traced_completer_def)
    then have "traced ?child ?at (complete_list_item_value compl ex item results t details info ?child)"
      unfolding complete_list_item_value_def by (intro traced_then_return [OF traced_catch]) auto
    then show "traced p ?at (complete_list_item_value compl ex item results t details info ?child)"
      by (rule traced_child)
    fix results'
    show "traced p (\<lambda>vs. null_at p (PList vs)) (complete_items compl ex t details info p items results')" by (rule Cons.IH)
    show "gives (complete_items compl ex t details info p items results') (\<lambda>vs. \<forall>q. ?at results' q \<longrightarrow> null_at p (PList vs) q)"
    proof (rule gives_mono [OF items_keep], intro allI impI)
      fix vs q
      assume "\<exists>ws. vs = results' @ ws" and "?at results' q"
      then obtain v ws where vs: "vs = results @ v # ws" and null: "null_at ?child v q" by auto
      then have "null_at ?child (vs ! length results) q" by simp
      then show "null_at p (PList vs) q" by (rule null_at_list) (simp add: vs)
    qed
  qed
qed (simp add: quiet_traced quiet_return)

section \<open>Values\<close>

lemma traced_after_coercion:
  assumes "\<And>x. r = Inr x \<Longrightarrow> traced p M (f x)"
  shows "traced p M (bind_exec (coercion r) f)"
proof (cases r)
  case (Inl e)
  have "bind_exec (coercion (Inl e)) f = (if e = OutOfFuel then (\<lambda>s. None) else raise_error (raw e))"
    by (rule ext) (simp add: bind_exec_def coercion_def raise_error_def)
  moreover have "traced p M (\<lambda>s. None)" by (simp add: traced_def)
  moreover have "traced p M (raise_error (raw e))" by (rule quiet_traced [OF quiet_raise])
  ultimately show ?thesis by (cases "e = OutOfFuel") (simp_all only: Inl if_True if_False simp_thms)
next
  case (Inr x)
  have "bind_exec (coercion (Inr x)) f = f x" by (rule ext) (simp add: bind_exec_def coercion_def)
  then show ?thesis using assms Inr by simp
qed

lemma quiet_stream: "quiet (get_stream_usage ex details p)"
proof -
  have "quiet (usage_of_stream ex stream)" for stream
    by (auto simp: usage_of_stream_def quiet_return quiet_raise split: option.split py_value.split)
  then show ?thesis
    by (auto simp: get_stream_usage_def quiet_return intro!: quiet_bind quiet_coercion split: list.split path_key.split)
qed

lemma traced_list:
  assumes "traced_completer compl"
  shows "traced p (null_at p) (complete_list_value compl ex t details info p result)"
proof -
  have "traced p (null_at p) (complete_iterable_value compl ex t details info p items)" for items
    unfolding complete_iterable_value_def
    by (rule traced_after_quiet [OF quiet_stream], rule traced_then_return [OF traced_items [OF assms]])
  then show ?thesis
    by (auto simp: complete_list_value_def intro: quiet_traced quiet_raise split: py_value.split)
qed

lemma traced_leaf: "traced p N (complete_leaf_value f result)"
  by (intro quiet_traced) (auto simp: complete_leaf_value_def quiet_return quiet_raise split: sum.split)

lemma traced_object:
  assumes "traced_completer compl"
  shows "traced p (null_at p) (complete_object_value compl ex t details info p result)"
proof -
  have "traced p (null_at p) (collect_and_execute_subfields compl ex t details p result)"
    unfolding collect_and_execute_subfields_def
  proof (rule traced_after_coercion)
    fix collected
    assume "collect_subfields (ex_context ex (obj_name t)) details = Inr collected"
    then have "distinct (map fst (grouped_field_set collected))"
      using collect_subfields_well_grouped by (auto simp: well_grouped_def)
    then show "traced p (null_at p) (execute_fields compl ex (obj_name t) result p (grouped_field_set collected))"
      by (rule traced_fields [OF assms])
  qed
  then show ?thesis
    by (cases "obj_is_type_of t")
       (auto simp: complete_object_value_def intro!: traced_after_quiet quiet_user quiet_traced [OF quiet_raise])
qed

lemma traced_abstract:
  assumes "traced_completer compl"
  shows "traced p (null_at p) (complete_abstract_value compl ex t f details info p result)"
proof -
  have "quiet (ensure_valid_runtime_type ex name t)" for name
    by (auto simp: ensure_valid_runtime_type_def intro!: quiet_return quiet_raise
        split: py_value.split option.split named_type.split)
  then show ?thesis
    unfolding complete_abstract_value_def by (intro traced_after_quiet quiet_user traced_object [OF assms])
qed

lemma traced_named:
  assumes "traced_completer compl"
  shows "traced p (null_at p) (complete_named_value compl ex name details info p result)"
  using traced_object [OF assms] traced_abstract [OF assms]
  by (auto simp: complete_named_value_def intro: traced_leaf quiet_traced [OF quiet_raise] split: option.split named_type.split)

lemma traced_body:
  assumes "traced_completer compl"
  shows "traced p (null_at p) (complete_value_body compl ex t details info p result)"
proof -
  have "traced p (null_at p) (bind_exec (compl of_type details info p result) (\<lambda>completed.
      if completed = PNone
      then raise_error (raw (TypeError (str ''Cannot return null for non-nullable field'')))
      else return_value completed))" for of_type
  proof (rule traced_bind)
    show "traced p (null_at p) (compl of_type details info p result)" using assms by (simp add: traced_completer_def)
  qed (auto intro!: gives_intros intro: quiet_traced quiet_return quiet_raise)
  moreover have "traced p (null_at p) (return_value PNone)" by (rule quiet_traced [OF quiet_return])
  ultimately show ?thesis
    using traced_list [OF assms] traced_named [OF assms]
    unfolding complete_value_body_def
    by (auto intro: quiet_traced [OF quiet_raise] split: py_value.split gtype.split)
qed

lemma traced_complete_value: "traced_completer (complete_value n ex)"
proof (induction n)
  case 0
  show ?case by (simp add: traced_completer_def traced_def)
next
  case (Suc n)
  from traced_body [OF Suc] show ?case by (simp add: traced_completer_def)
qed

section \<open>The response\<close>

lemma traced_root: "traced [] (null_at []) (execute_root n ex serially)"
proof (cases "get_root_type (ex_schema ex) (op_operation (ex_operation ex))")
  case (Some root_type)
  have "traced [] (null_at []) (execute_fields (complete_value n ex) ex root_type (ex_root_value ex) [] (grouped_field_set collected))"
    if "collect_fields (ex_context ex root_type) (ex_operation ex) = Inr collected" for collected
    using collect_fields_well_grouped [OF that] by (intro traced_fields [OF traced_complete_value]) (simp add: well_grouped_def)
  then show ?thesis
    unfolding execute_root_def serial_fields Let_def Some option.case if_cancel by (rule traced_after_coercion)
qed (simp add: execute_root_def quiet_traced quiet_raise)

lemma null_at_placed: "null_at [] data q \<Longrightarrow> placed q e \<Longrightarrow> \<exists>ks. fe_path e = Some ks \<and> nulled data ks"
  by (auto simp: null_at_def placed_def intro: nulled_append)


end
