(* ===== verification/Type_Facts.thy ===== *)
theory Type_Facts
  imports Type_System
begin

text \<open>
  The maps of a schema and the comparisons of types: the implementations that the schema collects, the
  order of subtypes, and overlapping types.
\<close>

section \<open>Schemas\<close>

text \<open>What the constructor of a schema and the validation of its types establish.\<close>

definition named_consistently :: "'w schema \<Rightarrow> bool" where
  "named_consistently schema \<longleftrightarrow>
     distinct (map fst (type_map schema)) \<and> (\<forall>(n, t) \<in> set (type_map schema). nt_name t = n)"

definition unions_of_objects :: "'w schema \<Rightarrow> bool" where
  "unions_of_objects schema \<longleftrightarrow>
     (\<forall>(n, t) \<in> set (type_map schema). case t of
        UnionType u \<Rightarrow>
          \<forall>m \<in> set (un_types u). case get_type schema m of Some t \<Rightarrow> is_object_named t | None \<Rightarrow> False
      | _ \<Rightarrow> True)"

fun interfaces_of :: "'w named_type \<Rightarrow> pystr list" where
  "interfaces_of (ObjectType t) = obj_interfaces t"
| "interfaces_of (InterfaceType t) = if_interfaces t"
| "interfaces_of _ = []"

definition interfaces_closed :: "'w schema \<Rightarrow> bool" where
  "interfaces_closed schema \<longleftrightarrow>
     (\<forall>(n, t) \<in> set (type_map schema). \<forall>i \<in> set (interfaces_of t).
        case get_type schema i of Some it \<Rightarrow> set (interfaces_of it) \<subseteq> set (interfaces_of t) | None \<Rightarrow> False)"

lemma get_type_iff:
  assumes "named_consistently schema"
  shows "get_type schema n = Some t \<longleftrightarrow> (n, t) \<in> set (type_map schema)"
  using assms by (simp add: named_consistently_def get_type_def)

lemma get_type_name:
  assumes "named_consistently schema" and "get_type schema n = Some t"
  shows "nt_name t = n"
  using assms get_type_iff [OF assms(1), of n t] by (auto simp: named_consistently_def)

section \<open>Implementations\<close>

lemma get_or_empty_set [simp]:
  "get_or_empty (dict_set k v m) n = (if n = k then v else get_or_empty m n)"
  by (simp add: get_or_empty_def)

lemma add_object:
  "get_or_empty (add_implementations schema (n, ObjectType t) m) i
    = (get_or_empty m i)\<lparr>impl_objects := impl_objects (get_or_empty m i)
        @ concat (map (\<lambda>j. if j = i \<and> is_interface_name schema i then [n] else []) (obj_interfaces t))\<rparr>"
proof -
  define step where "step = (\<lambda>iface m. if is_interface_name schema iface
             then dict_set iface ((get_or_empty m iface)\<lparr>impl_objects := impl_objects (get_or_empty m iface) @ [n]\<rparr>) m
             else m)"
  have "get_or_empty (fold step ifaces m) i
    = (get_or_empty m i)\<lparr>impl_objects := impl_objects (get_or_empty m i)
        @ concat (map (\<lambda>j. if j = i \<and> is_interface_name schema i then [n] else []) ifaces)\<rparr>" for ifaces
    by (induction ifaces arbitrary: m) (auto simp: step_def)
  then show ?thesis by (simp add: add_implementations_def step_def)
qed

lemma add_interface:
  "get_or_empty (add_implementations schema (n, InterfaceType t) m) i
    = (get_or_empty m i)\<lparr>impl_interfaces := impl_interfaces (get_or_empty m i)
        @ concat (map (\<lambda>j. if j = i \<and> is_interface_name schema i then [n] else []) (if_interfaces t))\<rparr>"
proof -
  define step where "step = (\<lambda>iface m. if is_interface_name schema iface
             then dict_set iface ((get_or_empty m iface)\<lparr>impl_interfaces := impl_interfaces (get_or_empty m iface) @ [n]\<rparr>) m
             else m)"
  have "get_or_empty (fold step ifaces m) i
    = (get_or_empty m i)\<lparr>impl_interfaces := impl_interfaces (get_or_empty m i)
        @ concat (map (\<lambda>j. if j = i \<and> is_interface_name schema i then [n] else []) ifaces)\<rparr>" for ifaces
    by (induction ifaces arbitrary: m) (auto simp: step_def)
  then show ?thesis by (simp add: add_implementations_def step_def)
qed

lemma add_other:
  "\<not> is_object_named t \<Longrightarrow> \<not> is_interface_named t \<Longrightarrow> add_implementations schema (n, t) m = m"
  by (cases t) (simp_all add: add_implementations_def)

lemma fold_implementations:
  "set (impl_objects (get_or_empty (fold (add_implementations schema) ts m) i))
    = set (impl_objects (get_or_empty m i))
      \<union> {n. is_interface_name schema i \<and> (\<exists>t. (n, ObjectType t) \<in> set ts \<and> i \<in> set (obj_interfaces t))}
   \<and> set (impl_interfaces (get_or_empty (fold (add_implementations schema) ts m) i))
    = set (impl_interfaces (get_or_empty m i))
      \<union> {n. is_interface_name schema i \<and> (\<exists>t. (n, InterfaceType t) \<in> set ts \<and> i \<in> set (if_interfaces t))}"
proof (induction ts arbitrary: m)
  case (Cons nt ts)
  obtain n t where nt: "nt = (n, t)" by (cases nt)
  show ?case
  proof (cases t)
    case (ObjectType x)
    with Cons.IH [of "add_implementations schema nt m"] nt show ?thesis
      by (auto simp: add_object split: if_splits)
  next
    case (InterfaceType x)
    with Cons.IH [of "add_implementations schema nt m"] nt show ?thesis
      by (auto simp: add_interface split: if_splits)
  qed (use Cons.IH [of m] nt in \<open>simp_all add: add_other\<close>)
qed simp

lemma implementations_objects:
  "n \<in> set (impl_objects (get_implementations schema i)) \<longleftrightarrow>
     is_interface_name schema i \<and> (\<exists>t. (n, ObjectType t) \<in> set (type_map schema) \<and> i \<in> set (obj_interfaces t))"
  using fold_implementations [of schema "type_map schema" "[]" i]
  by (simp add: get_implementations_def implementations_map_def get_or_empty_def [of "[]"] no_implementations_def)

lemma implementations_interfaces:
  "n \<in> set (impl_interfaces (get_implementations schema i)) \<longleftrightarrow>
     is_interface_name schema i \<and> (\<exists>t. (n, InterfaceType t) \<in> set (type_map schema) \<and> i \<in> set (if_interfaces t))"
  using fold_implementations [of schema "type_map schema" "[]" i]
  by (simp add: get_implementations_def implementations_map_def get_or_empty_def [of "[]"] no_implementations_def)

section \<open>Subtypes\<close>

text \<open>The relation of named types, without the maps.\<close>

definition member_of :: "'w schema \<Rightarrow> pystr \<Rightarrow> pystr \<Rightarrow> bool" where
  "member_of schema a b \<longleftrightarrow>
     (case (get_type schema a, get_type schema b) of
        (Some sub, Some super) \<Rightarrow>
          (case super of
             UnionType u \<Rightarrow> a \<in> set (un_types u) \<and> (is_interface_named sub \<or> is_object_named sub)
           | InterfaceType t \<Rightarrow> b \<in> set (interfaces_of sub)
           | _ \<Rightarrow> False)
      | _ \<Rightarrow> False)"

lemma is_interface_name_iff: "is_interface_name schema i \<longleftrightarrow> (\<exists>t. get_type schema i = Some (InterfaceType t))"
proof (cases "get_type schema i")
  case (Some t)
  then show ?thesis by (cases t) (simp_all add: is_interface_name_def)
qed (simp add: is_interface_name_def)

lemma is_sub_type_member:
  assumes "named_consistently schema" and "get_type schema b = Some super" and "get_type schema a = Some sub"
    and "is_abstract_named super" and "is_interface_named sub \<or> is_object_named sub"
  shows "is_sub_type schema super a \<longleftrightarrow> member_of schema a b"
proof (cases super)
  case (UnionType u)
  with assms show ?thesis by (simp add: is_sub_type_def member_of_def)
next
  case (InterfaceType t)
  have name: "if_name t = b" using get_type_name [OF assms(1,2)] InterfaceType by simp
  have iface: "is_interface_name schema b" using assms(2) InterfaceType by (simp add: is_interface_name_iff)
  from assms(1,3) have sub: "(a, u) \<in> set (type_map schema) \<longleftrightarrow> u = sub" for u
    by (auto simp flip: get_type_iff)
  from assms(5) show ?thesis
    by (cases sub)
       (use sub iface assms(2,3) InterfaceType in \<open>auto simp: is_sub_type_def member_of_def Let_def name
          implementations_objects implementations_interfaces\<close>)
qed (use assms(4) in simp_all)

lemma sub_type_named:
  assumes "named_consistently schema"
  shows "is_type_sub_type_of schema (GNamed a) (GNamed b) \<longleftrightarrow> a = b \<or> member_of schema a b"
proof -
  have "(case (get_type schema b, get_type schema a) of
           (Some super, Some sub) \<Rightarrow>
             is_abstract_named super \<and> (is_interface_named sub \<or> is_object_named sub) \<and> is_sub_type schema super a
         | _ \<Rightarrow> False) \<longleftrightarrow> member_of schema a b"
  proof (cases "get_type schema b")
    case (Some super)
    note b = this
    show ?thesis
    proof (cases "get_type schema a")
      case (Some sub)
      show ?thesis
      proof (cases "is_abstract_named super \<and> (is_interface_named sub \<or> is_object_named sub)")
        case True
        with is_sub_type_member [OF assms b Some] show ?thesis by (simp add: b Some)
      next
        case False
        then have "\<not> member_of schema a b"
          by (cases super; cases sub) (auto simp: member_of_def b Some)
        with False show ?thesis by (auto simp: b Some)
      qed
    qed (simp add: member_of_def b)
  qed (simp add: member_of_def split: option.split)
  then show ?thesis by (simp add: is_type_sub_type_of.simps [of schema "GNamed a"])
qed

lemma member_of_trans:
  assumes "named_consistently schema" and "unions_of_objects schema" and "interfaces_closed schema"
    and "member_of schema a b" and "member_of schema b c"
  shows "member_of schema a c"
proof -
  from assms(4,5) obtain ta tb tc where types: "get_type schema a = Some ta" "get_type schema b = Some tb"
      "get_type schema c = Some tc"
    by (auto simp: member_of_def split: option.splits)
  from assms(4) types have "is_abstract_named tb"
    by (cases tb) (auto simp: member_of_def)
  have in_map: "(b, tb) \<in> set (type_map schema)" "(c, tc) \<in> set (type_map schema)" "(a, ta) \<in> set (type_map schema)"
    using types by (simp_all flip: get_type_iff [OF assms(1)])
  show ?thesis
  proof (cases tc)
    case (UnionType u)
    with assms(5) types have "b \<in> set (un_types u)" by (simp add: member_of_def)
    with assms(2) in_map(2) UnionType types(2) have "is_object_named tb"
      by (fastforce simp: unions_of_objects_def)
    with \<open>is_abstract_named tb\<close> show ?thesis by (cases tb) simp_all
  next
    case (InterfaceType i)
    with assms(5) types have "c \<in> set (interfaces_of tb)" by (simp add: member_of_def)
    with \<open>is_abstract_named tb\<close> obtain j where "tb = InterfaceType j" by (cases tb) auto
    with assms(4) types have "b \<in> set (interfaces_of ta)" by (simp add: member_of_def)
    with assms(3) in_map(3) types(2) have "set (interfaces_of tb) \<subseteq> set (interfaces_of ta)"
      by (fastforce simp: interfaces_closed_def)
    with \<open>c \<in> set (interfaces_of tb)\<close> have "c \<in> set (interfaces_of ta)" by blast
    with types InterfaceType show ?thesis by (simp add: member_of_def)
  qed (use assms(5) types in \<open>simp_all add: member_of_def\<close>)
qed

text \<open>The order of wrapped types: \<open>sub a b\<close> holds when \<open>b\<close> has the lists of \<open>a\<close> and not more non-null marks.\<close>

fun below_named :: "(pystr \<Rightarrow> pystr \<Rightarrow> bool) \<Rightarrow> gtype \<Rightarrow> gtype \<Rightarrow> bool" where
  "below_named r (GNonNull a) (GNonNull b) = below_named r a b"
| "below_named r (GNonNull a) b = below_named r a b"
| "below_named r (GList a) (GList b) = below_named r a b"
| "below_named r (GNamed a) (GNamed b) = r a b"
| "below_named r _ _ = False"

lemma is_type_sub_type_of_shapes [simp]:
  "is_type_sub_type_of schema (GNonNull a) (GNonNull b) = is_type_sub_type_of schema a b"
  "is_type_sub_type_of schema (GNonNull a) (GList b) = is_type_sub_type_of schema a (GList b)"
  "is_type_sub_type_of schema (GNonNull a) (GNamed m) = is_type_sub_type_of schema a (GNamed m)"
  "is_type_sub_type_of schema (GList a) (GList b) = is_type_sub_type_of schema a b"
  "\<not> is_type_sub_type_of schema (GList a) (GNonNull b)"
  "\<not> is_type_sub_type_of schema (GList a) (GNamed m)"
  "\<not> is_type_sub_type_of schema (GNamed n) (GNonNull b)"
  "\<not> is_type_sub_type_of schema (GNamed n) (GList b)"
  by (subst is_type_sub_type_of.simps, simp)+

lemma sub_type_below:
  assumes "named_consistently schema"
  shows "is_type_sub_type_of schema a b = below_named (\<lambda>a b. a = b \<or> member_of schema a b) a b"
proof (induction a arbitrary: b)
  case (GNamed n)
  show ?case by (cases b) (simp_all add: sub_type_named [OF assms])
next
  case (GList a)
  then show ?case by (cases b) simp_all
next
  case (GNonNull a)
  then show ?case by (cases b) simp_all
qed

lemma below_named_refl: "(\<And>n. r n n) \<Longrightarrow> below_named r a a"
  by (induction a) simp_all

lemma below_named_trans:
  assumes "\<And>a b c. r a b \<Longrightarrow> r b c \<Longrightarrow> r a c"
  shows "below_named r a b \<Longrightarrow> below_named r b c \<Longrightarrow> below_named r a c"
proof (induction a arbitrary: b c)
  case (GNamed n)
  then show ?case using assms by (cases b; cases c) auto
next
  case (GList a)
  then show ?case by (cases b; cases c) auto
next
  case (GNonNull a)
  then show ?case by (cases b; cases c) auto
qed

text \<open>
  C29.  In a schema whose types keep the rules for interfaces and unions, being a subtype is a preorder on all
  types, lists and non-null types included: a covariant field type of an object that implements an
  interface that implements another interface is a subtype of the field types of both.
\<close>

theorem sub_type_preorder:
  assumes "named_consistently schema" and "unions_of_objects schema" and "interfaces_closed schema"
  shows "is_type_sub_type_of schema a a
    \<and> (is_type_sub_type_of schema a b \<and> is_type_sub_type_of schema b c \<longrightarrow> is_type_sub_type_of schema a c)"
proof -
  have "a = c \<or> member_of schema a c"
    if "a = b \<or> member_of schema a b" "b = c \<or> member_of schema b c" for a b c
    using that member_of_trans [OF assms, of a b c] by auto
  from below_named_trans [of "\<lambda>a b. a = b \<or> member_of schema a b", OF this]
  show ?thesis
    unfolding sub_type_below [OF assms(1)] by (auto intro: below_named_refl)
qed

text \<open>A schema: \<open>Node\<close>, \<open>Named implements Node\<close>, \<open>User\<close> and \<open>Bot\<close>, \<open>union Actor = User | Bot\<close>.\<close>

definition an_interface :: "string \<Rightarrow> string list \<Rightarrow> pystr \<times> unit named_type" where
  "an_interface n ifs = (str n, InterfaceType
     \<lparr>if_name = str n, if_fields = [], if_interfaces = map str ifs, if_resolve_type = None\<rparr>)"

definition an_object :: "string \<Rightarrow> string list \<Rightarrow> pystr \<times> unit named_type" where
  "an_object n ifs = (str n, ObjectType
     \<lparr>obj_name = str n, obj_fields = [], obj_interfaces = map str ifs, obj_is_type_of = None\<rparr>)"

definition a_union :: "string \<Rightarrow> string list \<Rightarrow> pystr \<times> unit named_type" where
  "a_union n ts = (str n, UnionType \<lparr>un_name = str n, un_types = map str ts, un_resolve_type = None\<rparr>)"

definition example_schema :: "unit schema" where
  "example_schema = \<lparr>query_type = Some (str ''User''), mutation_type = None, subscription_type = None,
     type_map = [an_interface ''Node'' [], an_interface ''Named'' [''Node''],
       an_object ''User'' [''Named'', ''Node''], an_object ''Bot'' [''Node''], a_union ''Actor'' [''User'', ''Bot'']], schema_directives = []\<rparr>"

lemma example_schema_rules:
  "named_consistently example_schema" "unions_of_objects example_schema" "interfaces_closed example_schema"
  by code_simp+

lemma sub_type_preorder_witness:
  "is_type_sub_type_of example_schema (GNonNull (GList (GNamed (str ''User'')))) (GList (GNamed (str ''Node'')))"
proof -
  have "is_type_sub_type_of example_schema (GNonNull (GList (GNamed (str ''User'')))) (GList (GNamed (str ''Named'')))"
    by code_simp
  moreover have "is_type_sub_type_of example_schema (GList (GNamed (str ''Named''))) (GList (GNamed (str ''Node'')))"
    by code_simp
  ultimately show ?thesis
    using sub_type_preorder [OF example_schema_rules] by blast
qed

section \<open>Overlapping types\<close>

text \<open>The object types that a value of a composite type may have.\<close>

definition objects_of :: "'w schema \<Rightarrow> pystr \<Rightarrow> pystr set" where
  "objects_of schema n =
     (case get_type schema n of
        Some (ObjectType t) \<Rightarrow> {n}
      | _ \<Rightarrow> {m. (\<exists>t. get_type schema m = Some (ObjectType t)) \<and> member_of schema m n})"

lemma objects_of_abstract:
  assumes "named_consistently schema" and "unions_of_objects schema"
    and "get_type schema a = Some ta" and "is_abstract_named ta"
  shows "objects_of schema a = set (get_possible_types schema ta)"
proof (cases ta)
  case (UnionType u)
  have "\<exists>t. get_type schema m = Some (ObjectType t)" if "m \<in> set (un_types u)" for m
  proof -
    from assms(3) get_type_iff [OF assms(1)] UnionType have "(a, UnionType u) \<in> set (type_map schema)" by simp
    with assms(2) that have "case get_type schema m of Some t \<Rightarrow> is_object_named t | None \<Rightarrow> False"
      by (fastforce simp: unions_of_objects_def)
    then show ?thesis by (cases "get_type schema m") (auto elim: is_object_named.elims)
  qed
  then show ?thesis using assms(3) UnionType
    by (fastforce simp: objects_of_def get_possible_types_def member_of_def)
next
  case (InterfaceType i)
  have name: "if_name i = a" using get_type_name [OF assms(1,3)] InterfaceType by simp
  have iface: "is_interface_name schema a" using assms(3) InterfaceType by (simp add: is_interface_name_iff)
  show ?thesis using assms(3) InterfaceType iface
    by (auto simp: objects_of_def get_possible_types_def member_of_def name implementations_objects
        simp flip: get_type_iff [OF assms(1)])
qed (use assms(4) in simp_all)

lemma object_sub_type:
  assumes "named_consistently schema" and "get_type schema b = Some tb" and "is_abstract_named tb"
    and "get_type schema m = Some (ObjectType t)"
  shows "is_sub_type schema tb m \<longleftrightarrow> m \<in> objects_of schema b"
proof -
  from assms(2,3) have "objects_of schema b = {m. (\<exists>t. get_type schema m = Some (ObjectType t)) \<and> member_of schema m b}"
    by (cases tb) (simp_all add: objects_of_def)
  with is_sub_type_member [OF assms(1,2,4,3)] assms(4) show ?thesis by simp
qed



end
