(* ===== verification/Collect_Returns.thy ===== *)
theory Collect_Returns
  imports Collect_Facts Type_Facts
begin

text \<open>
  Collecting the fields always comes to an end, on cyclic fragments too: the depth of the recursion is bounded by the
  nesting of the selections and the fragments that can still be entered, and the coercions of arguments come to an end.
\<close>

section \<open>Answers\<close>

text \<open>
  A computation with fuel for coercions and for the depth of its own recursion: with enough of both the result no longer
  changes; it is a \<open>GraphQLError\<close> or a value with the property.
\<close>

definition answers :: "nat \<Rightarrow> ('a \<Rightarrow> bool) \<Rightarrow> (nat \<Rightarrow> nat \<Rightarrow> py_error + 'a) \<Rightarrow> bool" where
  "answers K P f \<longleftrightarrow> (\<exists>R. (\<forall>\<^sub>F n in sequentially. \<forall>k \<ge> K. f n k = R)
     \<and> (case R of Inl e \<Rightarrow> \<exists>message. e = GraphQLError message | Inr x \<Rightarrow> P x))"

lemma answers_Inr: "P x \<Longrightarrow> answers K P (\<lambda>n k. Inr x)"
  unfolding answers_def by (intro exI [of _ "Inr x"]) simp

lemma answers_mono:
  assumes "answers K P f" and "K \<le> K'" and "\<And>x. P x \<Longrightarrow> Q x"
  shows "answers K' Q f"
proof -
  from assms(1) obtain R where R: "\<forall>\<^sub>F n in sequentially. \<forall>k \<ge> K. f n k = R"
    "case R of Inl e \<Rightarrow> \<exists>message. e = GraphQLError message | Inr x \<Rightarrow> P x" unfolding answers_def by blast
  from R(1) have "\<forall>\<^sub>F n in sequentially. \<forall>k \<ge> K'. f n k = R" by eventually_elim (use assms(2) in auto)
  with R(2) assms(3) show ?thesis unfolding answers_def by (intro exI [of _ R]) (auto split: sum.splits)
qed

lemma answers_bind:
  assumes "answers K P f" and "\<And>x. P x \<Longrightarrow> answers K Q (\<lambda>n k. g n k x)"
  shows "answers K Q (\<lambda>n k. bind_result (f n k) (g n k))"
proof -
  from assms(1) obtain R where R: "\<forall>\<^sub>F n in sequentially. \<forall>k \<ge> K. f n k = R"
    "case R of Inl e \<Rightarrow> \<exists>message. e = GraphQLError message | Inr x \<Rightarrow> P x" unfolding answers_def by blast
  show ?thesis
  proof (cases R)
    case (Inl e)
    from R(1) have "\<forall>\<^sub>F n in sequentially. \<forall>k \<ge> K. bind_result (f n k) (g n k) = Inl e"
      by eventually_elim (simp add: Inl)
    with R(2) show ?thesis unfolding answers_def by (intro exI [of _ "Inl e"]) (simp add: Inl)
  next
    case (Inr x)
    with R(2) have "answers K Q (\<lambda>n k. g n k x)" by (intro assms(2)) simp
    then obtain R' where R': "\<forall>\<^sub>F n in sequentially. \<forall>k \<ge> K. g n k x = R'"
      "case R' of Inl e \<Rightarrow> \<exists>message. e = GraphQLError message | Inr x \<Rightarrow> Q x" unfolding answers_def by blast
    from R(1) R'(1) have "\<forall>\<^sub>F n in sequentially. \<forall>k \<ge> K. bind_result (f n k) (g n k) = R'"
      by eventually_elim (simp add: Inr)
    with R'(2) show ?thesis unfolding answers_def by blast
  qed
qed

lemma answers_bind_any:
  "answers K P f \<Longrightarrow> (\<And>x. answers K Q (\<lambda>n k. g n k x)) \<Longrightarrow> answers K Q (\<lambda>n k. bind_result (f n k) (g n k))"
  by (rule answers_bind)

section \<open>Arguments\<close>

definition all_defined :: "(pystr \<times> py_value) list \<Rightarrow> bool" where
  "all_defined d \<longleftrightarrow> PUndefined \<notin> snd ` set d"

text \<open>No argument of a required type is missing, and no value is \<open>Undefined\<close>.\<close>

definition complete_arguments :: "(pystr \<times> input_value) list \<Rightarrow> (pystr \<times> py_value) list \<Rightarrow> bool" where
  "complete_arguments arg_defs coerced \<longleftrightarrow> all_defined coerced \<and>
     (\<forall>(name, arg_def) \<in> set arg_defs. is_required_input arg_def \<longrightarrow> map_of coerced (out_name name arg_def) \<noteq> None)"

lemma defined_dict_set: "all_defined d \<Longrightarrow> w \<noteq> PUndefined \<Longrightarrow> all_defined (dict_set k w d)"
  by (force simp: all_defined_def dest: set_dict_set)

lemma use_default_defined:
  "use_default n E coerced name arg_def = Inr coerced' \<Longrightarrow> all_defined coerced
    \<Longrightarrow> all_defined coerced'"
  by (auto simp: use_default_def maybe_use_default_value_def bind_result_Inr_iff defined_dict_set
      split: sum.splits py_error.splits option.splits if_splits)

lemma coerce_argument_defined:
  "coerce_argument n E vv fv name arg_def argument coerced = Inr coerced' \<Longrightarrow> all_defined coerced
    \<Longrightarrow> all_defined coerced'"
  by (auto simp: coerce_argument_def bind_result_Inr_iff defined_dict_set
      split: option.splits if_splits dest: use_default_defined)

lemma coerce_arguments_defined:
  "coerce_arguments n E vv fv nodes arg_defs coerced = Inr coerced' \<Longrightarrow> all_defined coerced
    \<Longrightarrow> all_defined coerced'"
  by (induction n E vv fv nodes arg_defs coerced rule: coerce_arguments.induct)
     (auto simp: bind_result_Inr_iff dest: coerce_argument_defined)

lemma required_argument:
  assumes "argument_as_specified E vv fv nodes coerced (name, arg_def)" and "is_required_input arg_def"
  shows "map_of coerced (out_name name arg_def) \<noteq> None"
  using assms
  by (auto simp: argument_as_specified_def argument_outcome_def outcome_of_def split: option.splits if_splits)

lemma coerce_arguments_answers:
  assumes "valid_inputs E" and "defined_values vv fv"
    and "\<forall>node \<in> snd ` set nodes. wf_literal (known_variables vv fv) node"
    and "\<forall>arg_def \<in> snd ` set arg_defs. valid_field E False arg_def" and "distinct (out_names arg_defs)"
  shows "answers K (complete_arguments arg_defs) (\<lambda>n k. coerce_arguments n E vv fv nodes arg_defs [])"
proof -
  from argument_loop [OF assms, of "[]"] obtain R where
    R: "\<forall>\<^sub>F n in sequentially. coerce_arguments n E vv fv nodes arg_defs [] = R"
    and spec: "if \<exists>(name, arg_def) \<in> set arg_defs. argument_outcome E vv fv arg_def (map_of nodes name) Rejected
       then \<exists>message. message \<noteq> str ''Invalid argument'' \<and> R = Inl (GraphQLError message)
       else \<exists>coerced'. R = Inr coerced' \<and> (\<forall>arg \<in> set arg_defs. argument_as_specified E vv fv nodes coerced' arg)
          \<and> (\<forall>k. k \<notin> set (out_names arg_defs) \<longrightarrow> map_of coerced' k = map_of [] k)" by auto
  from R obtain n where "coerce_arguments n E vv fv nodes arg_defs [] = R" by (auto simp: eventually_sequentially)
  then have "R = Inr coerced \<Longrightarrow> all_defined coerced" for coerced
    using coerce_arguments_defined [of n E vv fv nodes arg_defs "[]" coerced] by (simp add: all_defined_def)
  with spec have "case R of Inl e \<Rightarrow> \<exists>message. e = GraphQLError message | Inr coerced \<Rightarrow> complete_arguments arg_defs coerced"
    by (cases R) (auto simp: complete_arguments_def dest!: bspec [of "set arg_defs"] required_argument split: if_splits)
  moreover from R have "\<forall>\<^sub>F n in sequentially. \<forall>k \<ge> K. coerce_arguments n E vv fv nodes arg_defs [] = R"
    by eventually_elim simp
  ultimately show ?thesis unfolding answers_def by blast
qed

section \<open>Directives\<close>

text \<open>The schema has the types of the arguments of the directives.\<close>

definition standard_env :: "'w env \<Rightarrow> bool" where
  "standard_env E \<longleftrightarrow> valid_inputs E \<and> env_types E (str ''Boolean'') = Some (ScalarType (GraphQLBoolean (env_repr E)))
     \<and> (\<exists>to_str. env_types E (str ''String'') = Some (ScalarType (GraphQLString (env_repr E) to_str)))"

definition wf_arguments :: "argument_node list option \<Rightarrow> bool" where
  "wf_arguments arguments \<longleftrightarrow> (\<forall>as. arguments = Some as \<longrightarrow> (\<forall>a \<in> set as. wf_literal True (argument_value a)))"

definition wf_directives :: "directive_node list option \<Rightarrow> bool" where
  "wf_directives directives \<longleftrightarrow> (\<forall>ds. directives = Some ds \<longrightarrow> (\<forall>d \<in> set ds. wf_arguments (directive_arguments d)))"

lemma find_directive_wf:
  "find_directive name directives = Some d \<Longrightarrow> wf_directives directives \<Longrightarrow> wf_arguments (directive_arguments d)"
  by (auto simp: find_directive_def wf_directives_def find_Some_iff split: option.splits)

lemma get_argument_values_answers:
  assumes "valid_inputs E" and "defined_values (Some vars) fv" and "wf_arguments arguments"
    and "\<forall>arg_def \<in> snd ` set arg_defs. valid_field E False arg_def" and "distinct (out_names arg_defs)"
  shows "answers K (complete_arguments arg_defs) (\<lambda>n k. get_argument_values n E arg_defs arguments (Some vars) fv)"
proof -
  have "\<forall>node \<in> snd ` set (argument_nodes arguments). wf_literal (known_variables (Some vars) fv) node"
    using assms(3) by (auto simp: argument_nodes_def wf_arguments_def dest!: dict_of_values split: option.splits)
  from coerce_arguments_answers [OF assms(1,2) this assms(4,5)] show ?thesis by (simp add: get_argument_values_def)
qed

lemma plain_default_settles: "iv_default iv = None \<Longrightarrow> settles (\<lambda>n. coerce_default_value n E iv) (iv_default_value iv)"
  by (rule iffD1 [OF settles_Suc]) (simp add: coerce_default_value_body_def settles_const)

lemma directive_arguments_valid:
  assumes "standard_env E"
  shows "\<forall>arg_def \<in> snd ` set (dir_args GraphQLSkipDirective). valid_field E False arg_def"
    and "\<forall>arg_def \<in> snd ` set (dir_args GraphQLIncludeDirective). valid_field E False arg_def"
    and "\<forall>arg_def \<in> snd ` set (dir_args GraphQLDeferDirective). valid_field E False arg_def"
proof -
  have "valid_field E False (boolean_if d)" for d
    using assms plain_default_settles [of "boolean_if d" E]
    by (auto simp: valid_field_def standard_env_def boolean_if_def)
  moreover have "valid_field E False iv" if "iv_type iv = GNamed (str ''String'')" "iv_default iv = None" for iv
    using assms plain_default_settles [OF that(2)] that(1) by (auto simp: valid_field_def standard_env_def)
  ultimately show "\<forall>arg_def \<in> snd ` set (dir_args GraphQLSkipDirective). valid_field E False arg_def"
    and "\<forall>arg_def \<in> snd ` set (dir_args GraphQLIncludeDirective). valid_field E False arg_def"
    and "\<forall>arg_def \<in> snd ` set (dir_args GraphQLDeferDirective). valid_field E False arg_def"
    by (simp_all add: GraphQLSkipDirective_def GraphQLIncludeDirective_def GraphQLDeferDirective_def)
qed

lemma directive_names_distinct:
  "distinct (out_names (dir_args GraphQLSkipDirective))" "distinct (out_names (dir_args GraphQLIncludeDirective))"
  "distinct (out_names (dir_args GraphQLDeferDirective))"
  by (simp_all add: GraphQLSkipDirective_def GraphQLIncludeDirective_def GraphQLDeferDirective_def out_name_def boolean_if_def)

definition standard_context :: "'w collect_context \<Rightarrow> bool" where
  "standard_context cx \<longleftrightarrow> standard_env (cx_env cx) \<and> PUndefined \<notin> snd ` set (vv_coerced (cx_variables cx))"

abbreviation with_fuel :: "'w collect_context \<Rightarrow> nat \<Rightarrow> 'w collect_context" where
  "with_fuel cx n \<equiv> cx\<lparr>cx_fuel := n\<rparr>"

lemma with_fuel_parts:
  "cx_env (with_fuel cx n) = cx_env cx" "cx_fuel (with_fuel cx n) = n" "cx_variables (with_fuel cx n) = cx_variables cx"
  "cx_fragments (with_fuel cx n) = cx_fragments cx"
  "does_fragment_condition_match (with_fuel cx n) = does_fragment_condition_match cx"
  by (simp_all add: does_fragment_condition_match_def fun_eq_iff Let_def split: option.split)

abbreviation defined_fragment :: "fragment_values option \<Rightarrow> bool" where
  "defined_fragment fv \<equiv> defined_values None fv"

lemma standard_defined: "standard_context cx \<Longrightarrow> defined_fragment fv \<Longrightarrow> defined_values (Some (cx_variables cx)) fv"
  by (simp add: standard_context_def defined_values_def)

lemma directive_condition_answers:
  assumes "standard_context cx" and "defined_fragment fv" and "wf_directives directives"
    and "dd = GraphQLSkipDirective \<or> dd = GraphQLIncludeDirective"
  shows "answers K (\<lambda>_. True) (\<lambda>n k. directive_condition (with_fuel cx n) fv dd directives)"
proof (cases "find_directive (dir_name dd) directives")
  case None
  then show ?thesis by (simp add: directive_condition_def answers_Inr)
next
  case (Some d)
  have E: "standard_env (cx_env cx)" using assms(1) by (simp add: standard_context_def)
  have args: "dir_args dd = [(str ''if'', boolean_if PUndefined)]"
    using assms(4) by (auto simp: GraphQLSkipDirective_def GraphQLIncludeDirective_def)
  have "answers K (complete_arguments (dir_args dd))
      (\<lambda>n k. get_argument_values n (cx_env cx) (dir_args dd) (directive_arguments d) (Some (cx_variables cx)) fv)"
    using E assms(4) directive_arguments_valid [OF E] directive_names_distinct find_directive_wf [OF Some assms(3)]
    by (intro get_argument_values_answers standard_defined [OF assms(1,2)]) (auto simp: standard_env_def)
  then have "answers K (\<lambda>_. True) (\<lambda>n k. bind_result
      (get_argument_values n (cx_env cx) (dir_args dd) (directive_arguments d) (Some (cx_variables cx)) fv)
      (\<lambda>coerced. case map_of coerced (str ''if'') of
         Some w \<Rightarrow> Inr (Condition (py_bool w))
       | None \<Rightarrow> if coerced = [] then Inr NoCondition else Inl (KeyError (str ''if''))))"
    by (rule answers_bind)
       (auto simp: complete_arguments_def args out_name_def boolean_if_def is_required_input_def intro!: answers_Inr)
  then show ?thesis by (cases "cx_forbid cx") (simp_all add: directive_condition_def Some answers_Inr)
qed

lemma should_include_answers:
  assumes "standard_context cx" and "defined_fragment fv" and "wf_directives directives"
  shows "answers K (\<lambda>_. True) (\<lambda>n k. should_include_node (with_fuel cx n) fv directives)"
  unfolding should_include_node_def
proof (rule answers_bind_any [OF directive_condition_answers [OF assms]])
  fix skip
  have "answers K (\<lambda>_. True) (\<lambda>n k. bind_result (directive_condition (with_fuel cx n) fv GraphQLIncludeDirective directives)
      (\<lambda>include. case include of Forbidden d \<Rightarrow> Inr (False, [d]) | Condition b \<Rightarrow> Inr (b, []) | NoCondition \<Rightarrow> Inr (True, [])))"
    by (rule answers_bind_any [OF directive_condition_answers [OF assms]])
       (auto intro!: answers_Inr split: condition.split)
  then have "answers K (\<lambda>_. True) (\<lambda>n k. if skip = Condition True then Inr (False, []) else
    bind_result (directive_condition (with_fuel cx n) fv GraphQLIncludeDirective directives)
      (\<lambda>include. case include of Forbidden d \<Rightarrow> Inr (False, [d]) | Condition b \<Rightarrow> Inr (b, []) | NoCondition \<Rightarrow> Inr (True, [])))"
    by (cases "skip = Condition True") (simp_all add: answers_Inr)
  then show "answers K (\<lambda>_. True) (\<lambda>n k. case skip of
      Forbidden d \<Rightarrow> Inr (False, [d])
    | Condition True \<Rightarrow> Inr (False, [])
    | _ \<Rightarrow> bind_result (directive_condition (with_fuel cx n) fv GraphQLIncludeDirective directives)
      (\<lambda>include. case include of Forbidden d \<Rightarrow> Inr (False, [d]) | Condition b \<Rightarrow> Inr (b, []) | NoCondition \<Rightarrow> Inr (True, [])))"
    by (cases skip; cases "skip = Condition True") (auto intro!: answers_Inr split: bool.splits)
qed auto

lemma defer_usage_answers:
  assumes "standard_context cx" and "defined_fragment fv" and "wf_directives directives"
  shows "answers K (\<lambda>_. True) (\<lambda>n k. get_defer_usage (with_fuel cx n) fv directives parent)"
proof -
  have E: "standard_env (cx_env cx)" using assms(1) by (simp add: standard_context_def)
  have "answers K (\<lambda>_. True) (\<lambda>n k. get_directive_values n (cx_env cx) GraphQLDeferDirective directives
      (Some (cx_variables cx)) fv)"
  proof (cases "find_directive (dir_name GraphQLDeferDirective) directives")
    case (Some d)
    have "answers K (complete_arguments (dir_args GraphQLDeferDirective)) (\<lambda>n k. get_argument_values n (cx_env cx)
        (dir_args GraphQLDeferDirective) (directive_arguments d) (Some (cx_variables cx)) fv)"
      using E directive_arguments_valid [OF E] directive_names_distinct find_directive_wf [OF Some assms(3)]
      by (intro get_argument_values_answers standard_defined [OF assms(1,2)]) (auto simp: standard_env_def)
    then show ?thesis by (simp add: get_directive_values_def Some) (erule answers_bind_any, simp add: answers_Inr)
  qed (simp add: get_directive_values_def answers_Inr)
  then show ?thesis
    unfolding get_defer_usage_def
    by simp (erule answers_bind_any, auto intro!: answers_Inr split: option.split)
qed

section \<open>Documents\<close>

text \<open>The directives on selections and the arguments of spreads are well-formed.\<close>

fun wf_selection :: "selection_node \<Rightarrow> bool" and wf_selection_set :: "selection_set_node \<Rightarrow> bool" where
  "wf_selection (FieldNode name alias_node arguments directives selection_set loc) = wf_directives directives"
| "wf_selection (FragmentSpreadNode name arguments directives loc) =
     (wf_directives directives \<and> (\<forall>as. arguments = Some as \<longrightarrow> (\<forall>a \<in> set as. wf_literal True (fragment_argument_value a))))"
| "wf_selection (InlineFragmentNode selection_set type_condition directives loc) =
     (wf_directives directives \<and> wf_selection_set selection_set)"
| "wf_selection_set (SelectionSetNode nodes loc) = (\<forall>s \<in> set nodes. wf_selection s)"

lemma wf_selection_directives: "wf_selection s \<Longrightarrow> wf_directives (sel_directives s)"
  by (cases s) auto

lemma wf_selection_set_selections: "wf_selection_set ss \<longleftrightarrow> (\<forall>s \<in> set (selections ss). wf_selection s)"
  by (cases ss) simp

definition wf_fragment :: "'w env \<Rightarrow> fragment_details \<Rightarrow> bool" where
  "wf_fragment E fragment \<longleftrightarrow> wf_selection_set (frag_selection_set (fragment_definition fragment))
     \<and> (\<forall>signatures. fragment_signatures fragment = Some signatures \<longrightarrow>
          (\<forall>signature \<in> snd ` set signatures. valid_field E False signature) \<and> distinct (out_names signatures))"

section \<open>The depth of the recursion\<close>

text \<open>How often a fragment can still be entered.\<close>

definition entries :: "collected \<Rightarrow> pystr \<Rightarrow> nat" where
  "entries st name = (case map_of (visited_fragments st) name of None \<Rightarrow> 2 | Some True \<Rightarrow> 1 | Some False \<Rightarrow> 0)"

definition nesting :: "selection_node list \<Rightarrow> nat" where
  "nesting nodes = size_list size nodes"

definition remaining :: "'w collect_context \<Rightarrow> collected \<Rightarrow> nat" where
  "remaining cx st =
     sum_list (map (\<lambda>(name, fragment). entries st name * Suc (nesting (fragment_selections fragment))) (cx_fragments cx))"

lemma remaining_same [simp]:
  "remaining cx (st\<lparr>new_defer_usages := usages\<rparr>) = remaining cx st"
  "remaining cx (st\<lparr>forbidden_directives := ds\<rparr>) = remaining cx st"
  "remaining cx (st\<lparr>grouped_field_set := g\<rparr>) = remaining cx st"
  by (simp_all add: remaining_def entries_def)

lemma remaining_enter:
  assumes "map_of (cx_fragments cx) name = Some fragment"
    and "\<And>n. entries st' n = (if n = name then e else entries st n)" and "e < entries st name"
  shows "remaining cx st' + Suc (nesting (fragment_selections fragment)) \<le> remaining cx st"
proof -
  let ?w = "\<lambda>st (n, f). entries st n * Suc (nesting (fragment_selections f))"
  have smaller: "sum_list (map (?w st') fs) \<le> sum_list (map (?w st) fs)" for fs :: "(pystr \<times> fragment_details) list"
    using assms(2,3) by (intro sum_list_mono) (auto simp del: mult_Suc_right intro!: mult_le_mono1)
  have "map_of fs name = Some fragment \<Longrightarrow>
      sum_list (map (?w st') fs) + Suc (nesting (fragment_selections fragment)) \<le> sum_list (map (?w st) fs)" for fs
  proof (induction fs)
    case (Cons nf fs)
    obtain n f where nf: "nf = (n, f)" by (cases nf)
    show ?case
    proof (cases "n = name")
      case True
      with Cons.prems nf have "f = fragment" by simp
      moreover have "Suc e * Suc (nesting (fragment_selections fragment)) \<le> entries st name * Suc (nesting (fragment_selections fragment))"
        using assms(3) by (intro mult_le_mono1) simp
      ultimately show ?thesis using True nf assms(2) smaller [of fs] by simp
    next
      case False
      with Cons nf assms(2) show ?thesis by simp
    qed
  qed simp
  with assms(1) show ?thesis by (simp add: remaining_def)
qed

lemma nesting_inline: "InlineFragmentNode selection_set type_condition directives loc \<in> set nodes
    \<Longrightarrow> nesting (selections selection_set) < nesting nodes"
proof (induction nodes)
  case (Cons s nodes)
  then show ?case by (cases selection_set) (auto simp: nesting_def)
qed simp

section \<open>Collecting returns\<close>

text \<open>A collector, with fuel, that answers on well-formed selections of a bounded depth.\<close>

definition collects ::
  "'w collect_context \<Rightarrow> nat \<Rightarrow> (nat \<Rightarrow> nat \<Rightarrow> collector) \<Rightarrow> nat \<Rightarrow> bool" where
  "collects cx K rec depth \<longleftrightarrow> (\<forall>nodes usage fv st. nesting nodes + remaining cx st < depth \<longrightarrow>
     (\<forall>s \<in> set nodes. wf_selection s) \<longrightarrow> defined_fragment fv \<longrightarrow>
     answers K (\<lambda>st'. remaining cx st' \<le> remaining cx st) (\<lambda>n k. rec n k nodes usage fv st))"

lemma enter_fragment_answers:
  assumes "standard_context cx" and "wf_fragment (cx_env cx) fragment" and "defined_fragment fv"
    and "\<forall>as. arguments = Some as \<longrightarrow> (\<forall>a \<in> set as. wf_literal True (fragment_argument_value a))"
    and "collects cx K rec depth" and "nesting (fragment_selections fragment) + remaining cx st < depth"
  shows "answers K (\<lambda>st'. remaining cx st' \<le> remaining cx st)
    (\<lambda>n k. enter_fragment (rec n k) (with_fuel cx n) arguments fragment usage fv st)"
proof -
  have wf: "\<forall>s \<in> set (fragment_selections fragment). wf_selection s"
    using assms(2) by (simp add: wf_fragment_def wf_selection_set_selections)
  have enter: "answers K (\<lambda>st'. remaining cx st' \<le> remaining cx st)
      (\<lambda>n k. rec n k (fragment_selections fragment) usage fv' st)" if "defined_fragment fv'" for fv'
    using assms(5,6) wf that unfolding collects_def by blast
  have "answers K defined_fragment (\<lambda>n k. case fragment_signatures fragment of
      Some (s # ss) \<Rightarrow>
        bind_result (get_fragment_variable_values n (cx_env cx) arguments (s # ss) (Some (cx_variables cx)) fv)
          (\<lambda>values. Inr (Some values))
    | _ \<Rightarrow> Inr None)"
  proof (cases "fragment_signatures fragment = None \<or> fragment_signatures fragment = Some []")
    case True
    then show ?thesis by (auto intro!: answers_Inr simp: defined_values_def)
  next
    case False
    then obtain s ss where signatures: "fragment_signatures fragment = Some (s # ss)"
      by (metis list.exhaust option.exhaust)
    let ?nodes = "dict_of (map (\<lambda>a. (name_value (fragment_argument_name a), fragment_argument_value a))
            (case arguments of Some as \<Rightarrow> as | None \<Rightarrow> []))"
    have "\<forall>node \<in> snd ` set ?nodes. wf_literal (known_variables (Some (cx_variables cx)) fv) node"
      using assms(4) by (auto dest!: dict_of_values split: option.splits)
    then have "answers K (complete_arguments (s # ss))
        (\<lambda>n k. coerce_arguments n (cx_env cx) (Some (cx_variables cx)) fv ?nodes (s # ss) [])"
      using assms(1,2) signatures
      by (intro coerce_arguments_answers standard_defined [OF assms(1,3)])
         (auto simp: standard_context_def standard_env_def wf_fragment_def)
    then have "answers K (\<lambda>values. defined_fragment (Some values))
        (\<lambda>n k. get_fragment_variable_values n (cx_env cx) arguments (s # ss) (Some (cx_variables cx)) fv)"
      unfolding get_fragment_variable_values_def Let_def
      by (rule answers_bind)
         (auto intro!: answers_Inr simp: complete_arguments_def defined_values_def all_defined_def)
    then show ?thesis by (simp add: signatures) (erule answers_bind, rule answers_Inr, assumption)
  qed
  then have "answers K (\<lambda>st'. remaining cx st' \<le> remaining cx st) (\<lambda>n k. bind_result
      (case fragment_signatures fragment of
        Some (s # ss) \<Rightarrow>
          bind_result (get_fragment_variable_values n (cx_env cx) arguments (s # ss) (Some (cx_variables cx)) fv)
            (\<lambda>values. Inr (Some values))
      | _ \<Rightarrow> Inr None) (\<lambda>values. rec n k (fragment_selections fragment) usage values st))"
    by (rule answers_bind) (rule enter)
  then show ?thesis unfolding enter_fragment_def with_fuel_parts .
qed

definition wf_fragments :: "'w collect_context \<Rightarrow> bool" where
  "wf_fragments cx \<longleftrightarrow> (\<forall>fragment \<in> snd ` set (cx_fragments cx). wf_fragment (cx_env cx) fragment)"

lemma collect_inline_answers:
  assumes cx: "standard_context cx" and wf: "wf_directives directives" "wf_selection_set selection_set" "defined_fragment fv"
    and rec: "collects cx K rec depth" and depth: "nesting (selections selection_set) + remaining cx st < depth"
  shows "answers K (\<lambda>st'. remaining cx st' \<le> remaining cx st)
    (\<lambda>n k. collect_inline (rec n k) (with_fuel cx n) usage fv selection_set type_condition directives st)"
proof (cases "does_fragment_condition_match cx type_condition")
  case True
  have enter: "answers K (\<lambda>st'. remaining cx st' \<le> remaining cx st)
      (\<lambda>n k. rec n k (selections selection_set) usage' fv st')" if "remaining cx st' = remaining cx st" for usage' st'
  proof -
    have "nesting (selections selection_set) + remaining cx st' < depth" using depth that by simp
    with rec wf(2,3) have "answers K (\<lambda>st''. remaining cx st'' \<le> remaining cx st')
        (\<lambda>n k. rec n k (selections selection_set) usage' fv st')"
      unfolding collects_def wf_selection_set_selections by blast
    then show ?thesis by (simp only: that)
  qed
  have "answers K (\<lambda>st'. remaining cx st' \<le> remaining cx st) (\<lambda>n k.
      bind_result (get_defer_usage (with_fuel cx n) fv directives usage) (\<lambda>new. case new of
          None \<Rightarrow> rec n k (selections selection_set) usage fv st
        | Some d \<Rightarrow> rec n k (selections selection_set) (Some d) fv (st\<lparr>new_defer_usages := new_defer_usages st @ [d]\<rparr>)))"
  proof (rule answers_bind_any [OF defer_usage_answers [OF cx wf(3,1)]])
    fix new
    show "answers K (\<lambda>st'. remaining cx st' \<le> remaining cx st) (\<lambda>n k. case new of
          None \<Rightarrow> rec n k (selections selection_set) usage fv st
        | Some d \<Rightarrow> rec n k (selections selection_set) (Some d) fv (st\<lparr>new_defer_usages := new_defer_usages st @ [d]\<rparr>))"
      by (cases new) (simp_all add: enter)
  qed
  with True show ?thesis by (simp add: collect_inline_def with_fuel_parts)
qed (simp add: collect_inline_def with_fuel_parts answers_Inr)

lemma collect_spread_answers:
  assumes cx: "standard_context cx" "wf_fragments cx" and wf: "wf_directives directives" "defined_fragment fv"
    and args: "\<forall>as. arguments = Some as \<longrightarrow> (\<forall>a \<in> set as. wf_literal True (fragment_argument_value a))"
    and rec: "collects cx K rec depth" and depth: "remaining cx st \<le> depth"
  shows "answers K (\<lambda>st'. remaining cx st' \<le> remaining cx st)
    (\<lambda>n k. collect_spread (rec n k) (with_fuel cx n) usage fv name arguments directives st)"
proof (cases "map_of (cx_fragments cx) name")
  case (Some fragment)
  have wf_fragment: "wf_fragment (cx_env cx) fragment"
    using cx(2) Some by (force simp: wf_fragments_def dest: map_of_SomeD)
  have enter: "answers K (\<lambda>st'. remaining cx st' \<le> remaining cx st)
      (\<lambda>n k. enter_fragment (rec n k) (with_fuel cx n) arguments fragment usage' fv st')"
    if "\<And>n. entries st' n = (if n = name then e else entries st n)" "e < entries st name" for usage' st' e
  proof -
    from remaining_enter [OF Some that]
    have less: "remaining cx st' + Suc (nesting (fragment_selections fragment)) \<le> remaining cx st" .
    with depth have "nesting (fragment_selections fragment) + remaining cx st' < depth" by simp
    from enter_fragment_answers [OF cx(1) wf_fragment wf(2) args rec this] show ?thesis
      by (rule answers_mono) (use less in auto)
  qed
  show ?thesis
  proof (cases "does_fragment_condition_match cx (Some (frag_type_condition (fragment_definition fragment)))")
    case True
    have "answers K (\<lambda>st'. remaining cx st' \<le> remaining cx st) (\<lambda>n k.
        bind_result (get_defer_usage (with_fuel cx n) fv directives usage) (\<lambda>new. case new of
          None \<Rightarrow>
            if map_of (visited_fragments st) name = Some False then Inr st
            else enter_fragment (rec n k) (with_fuel cx n) arguments fragment usage fv
              (st\<lparr>visited_fragments := dict_set name False (visited_fragments st)\<rparr>)
        | Some d \<Rightarrow>
            if map_of (visited_fragments st) name \<noteq> None then Inr st
            else enter_fragment (rec n k) (with_fuel cx n) arguments fragment (Some d) fv
              (st\<lparr>visited_fragments := dict_set name True (visited_fragments st),
                new_defer_usages := new_defer_usages st @ [d]\<rparr>)))"
    proof (rule answers_bind_any [OF defer_usage_answers [OF cx(1) wf(2,1)]])
      fix new
      show "answers K (\<lambda>st'. remaining cx st' \<le> remaining cx st) (\<lambda>n k. case new of
          None \<Rightarrow>
            if map_of (visited_fragments st) name = Some False then Inr st
            else enter_fragment (rec n k) (with_fuel cx n) arguments fragment usage fv
              (st\<lparr>visited_fragments := dict_set name False (visited_fragments st)\<rparr>)
        | Some d \<Rightarrow>
            if map_of (visited_fragments st) name \<noteq> None then Inr st
            else enter_fragment (rec n k) (with_fuel cx n) arguments fragment (Some d) fv
              (st\<lparr>visited_fragments := dict_set name True (visited_fragments st),
                new_defer_usages := new_defer_usages st @ [d]\<rparr>))"
      proof (cases new)
        case None
        show ?thesis
        proof (cases "map_of (visited_fragments st) name = Some False")
          case False
          then have "0 < entries st name" by (auto simp: entries_def split: option.split bool.split)
          with None False enter [of _ 0] show ?thesis by (simp add: entries_def)
        qed (simp add: None answers_Inr)
      next
        case new: (Some d)
        show ?thesis
        proof (cases "map_of (visited_fragments st) name")
          case None
          then have "1 < entries st name" by (simp add: entries_def)
          with new None enter [of _ 1] show ?thesis by (simp add: entries_def)
        qed (simp add: new answers_Inr)
      qed
    qed
    then show ?thesis
      unfolding collect_spread_def with_fuel_parts Some option.case using True by (simp only: if_False not_True_eq_False)
  qed (simp add: collect_spread_def with_fuel_parts Some answers_Inr)
qed (simp add: collect_spread_def with_fuel_parts answers_Inr)

lemma collect_selection_answers:
  assumes cx: "standard_context cx" "wf_fragments cx" and wf: "wf_selection s" "defined_fragment fv"
    and rec: "collects cx K rec depth" and depth: "nesting [s] + remaining cx st \<le> depth"
  shows "answers K (\<lambda>st'. remaining cx st' \<le> remaining cx st)
    (\<lambda>n k. collect_selection (rec n k) (with_fuel cx n) usage fv s st)"
proof -
  have included: "answers K (\<lambda>st'. remaining cx st' \<le> remaining cx st)
      (\<lambda>n k. collect_included (rec n k) (with_fuel cx n) usage fv s st0)" if "remaining cx st0 = remaining cx st" for st0
  proof (cases s)
    case (FieldNode name alias_node arguments directives selection_set loc)
    then show ?thesis using that by (simp add: collect_included_def answers_Inr)
  next
    case (FragmentSpreadNode name arguments directives loc)
    with wf depth that collect_spread_answers [OF cx _ wf(2) _ rec, of directives arguments st0] show ?thesis
      by (simp add: collect_included_def)
  next
    case (InlineFragmentNode selection_set type_condition directives loc)
    then have "nesting (selections selection_set) < nesting [s]" by (intro nesting_inline) simp
    with InlineFragmentNode wf depth that
      collect_inline_answers [OF cx(1) _ _ wf(2) rec, of directives selection_set st0] show ?thesis
      by (simp add: collect_included_def)
  qed
  have "answers K (\<lambda>st'. remaining cx st' \<le> remaining cx st) (\<lambda>n k.
      bind_result (should_include_node (with_fuel cx n) fv (sel_directives s)) (\<lambda>(b, forbidden).
        let st = st\<lparr>forbidden_directives := forbidden_directives st @ forbidden\<rparr> in
        if b then collect_included (rec n k) (with_fuel cx n) usage fv s st else Inr st))"
  proof (rule answers_bind_any [OF should_include_answers [OF cx(1) wf(2) wf_selection_directives [OF wf(1)]]])
    fix r :: "bool \<times> directive_node list"
    obtain b forbidden where r: "r = (b, forbidden)" by (cases r)
    show "answers K (\<lambda>st'. remaining cx st' \<le> remaining cx st) (\<lambda>n k. case r of (b, forbidden) \<Rightarrow>
        let st = st\<lparr>forbidden_directives := forbidden_directives st @ forbidden\<rparr> in
        if b then collect_included (rec n k) (with_fuel cx n) usage fv s st else Inr st)"
      by (cases b) (simp_all add: r Let_def included answers_Inr)
  qed
  then show ?thesis by (simp add: collect_selection_def)
qed

lemma nesting_Cons: "nesting (s # nodes) = Suc (size s + nesting nodes)"
  by (simp add: nesting_def)

lemma fold_answers:
  assumes cx: "standard_context cx" "wf_fragments cx" and fv: "defined_fragment fv" and rec: "collects cx K rec depth"
  shows "\<forall>s \<in> set nodes. wf_selection s \<Longrightarrow> nesting nodes + remaining cx st \<le> depth \<Longrightarrow>
    answers K (\<lambda>st'. remaining cx st' \<le> remaining cx st)
      (\<lambda>n k. fold_result (collect_selection (rec n k) (with_fuel cx n) usage fv) nodes st)"
proof (induction nodes arbitrary: st)
  case (Cons s nodes)
  have "answers K (\<lambda>st'. remaining cx st' \<le> remaining cx st) (\<lambda>n k.
      bind_result (collect_selection (rec n k) (with_fuel cx n) usage fv s st)
        (fold_result (collect_selection (rec n k) (with_fuel cx n) usage fv) nodes))"
  proof (rule answers_bind)
    show "answers K (\<lambda>st'. remaining cx st' \<le> remaining cx st)
        (\<lambda>n k. collect_selection (rec n k) (with_fuel cx n) usage fv s st)"
      using Cons.prems by (intro collect_selection_answers [OF cx _ fv rec]) (simp_all add: nesting_Cons nesting_def)
    fix st'
    assume less: "remaining cx st' \<le> remaining cx st"
    have "answers K (\<lambda>st''. remaining cx st'' \<le> remaining cx st')
        (\<lambda>n k. fold_result (collect_selection (rec n k) (with_fuel cx n) usage fv) nodes st')"
      using Cons.prems less by (intro Cons.IH) (simp_all add: nesting_Cons)
    then show "answers K (\<lambda>st''. remaining cx st'' \<le> remaining cx st)
        (\<lambda>n k. fold_result (collect_selection (rec n k) (with_fuel cx n) usage fv) nodes st')"
      by (rule answers_mono) (use less in auto)
  qed
  then show ?case by simp
qed (simp add: answers_Inr)

lemma answers_Suc:
  assumes "answers K P (\<lambda>n k. f n (Suc k))"
  shows "answers (Suc K) P f"
proof -
  from assms obtain R where R: "\<forall>\<^sub>F n in sequentially. \<forall>k \<ge> K. f n (Suc k) = R"
    "case R of Inl e \<Rightarrow> \<exists>message. e = GraphQLError message | Inr x \<Rightarrow> P x" unfolding answers_def by blast
  from R(1) have "\<forall>\<^sub>F n in sequentially. \<forall>k \<ge> Suc K. f n k = R" by eventually_elim (metis Suc_le_D Suc_le_mono)
  with R(2) show ?thesis unfolding answers_def by blast
qed

lemma impl_collects:
  assumes "standard_context cx" "wf_fragments cx"
  shows "collects cx depth (\<lambda>n k. collect_fields_impl k (with_fuel cx n)) depth"
proof (induction depth)
  case (Suc depth)
  show ?case
    unfolding collects_def
  proof (intro allI impI)
    fix nodes usage fv st
    assume "nesting nodes + remaining cx st < Suc depth" "\<forall>s \<in> set nodes. wf_selection s" "defined_fragment fv"
    then have "answers depth (\<lambda>st'. remaining cx st' \<le> remaining cx st) (\<lambda>n k.
        fold_result (collect_selection (collect_fields_impl k (with_fuel cx n)) (with_fuel cx n) usage fv) nodes st)"
      by (intro fold_answers [OF assms _ Suc]) auto
    then show "answers (Suc depth) (\<lambda>st'. remaining cx st' \<le> remaining cx st)
        (\<lambda>n k. collect_fields_impl k (with_fuel cx n) nodes usage fv st)"
      by (intro answers_Suc) simp
  qed
qed (simp add: collects_def)

text \<open>
  C25.  \<open>collect_fields\<close> always returns, on fragments that spread themselves too: with enough fuel the result no
  longer changes, and the only exceptions are \<open>GraphQLError\<close>s; in particular the argument \<open>if\<close> of a directive is always there.
\<close>

theorem collect_fields_returns:
  assumes "standard_context cx" and "wf_fragments cx" and "wf_selection_set (op_selection_set operation)"
  shows "\<exists>n result. (\<forall>m \<ge> n. collect_fields (cx\<lparr>cx_fuel := m\<rparr>) operation = result)
    \<and> (\<forall>e. result = Inl e \<longrightarrow> (\<exists>message. e = GraphQLError message))"
proof -
  let ?nodes = "selections (op_selection_set operation)"
  define depth where "depth = Suc (nesting ?nodes + remaining cx nothing_collected)"
  have "answers depth (\<lambda>st'. remaining cx st' \<le> remaining cx nothing_collected)
      (\<lambda>n k. collect_fields_impl k (with_fuel cx n) ?nodes None None nothing_collected)"
    using impl_collects [OF assms(1,2), of depth] assms(3)
    unfolding collects_def wf_selection_set_selections by (simp add: depth_def defined_values_def)
  then obtain R where R: "\<forall>\<^sub>F n in sequentially. \<forall>k \<ge> depth.
        collect_fields_impl k (with_fuel cx n) ?nodes None None nothing_collected = R"
    "case R of Inl e \<Rightarrow> \<exists>message. e = GraphQLError message | Inr x \<Rightarrow> remaining cx x \<le> remaining cx nothing_collected"
    unfolding answers_def by blast
  from R(1) obtain n where "\<forall>m \<ge> n. \<forall>k \<ge> depth.
      collect_fields_impl k (with_fuel cx m) ?nodes None None nothing_collected = R" by (auto simp: eventually_sequentially)
  then have "\<forall>m \<ge> max n depth. collect_fields (cx\<lparr>cx_fuel := m\<rparr>) operation = R" by (simp add: collect_fields_def)
  with R(2) show ?thesis by (intro exI [of _ "max n depth"] exI [of _ R]) (auto split: sum.splits)
qed

section \<open>Example\<close>

text \<open>
  \<open>{ a ...F  b: c @skip(if: true)  ...F }\<close> with \<open>fragment F on Query { d ...F ... on Mutation { e } }\<close>, on the
  object type \<open>Query\<close>.
\<close>

definition a_field :: "string \<Rightarrow> directive_node list option \<Rightarrow> selection_node" where
  "a_field x directives = FieldNode (NameNode (str x) None) None None directives None None"

definition a_spread :: "string \<Rightarrow> selection_node" where
  "a_spread x = FragmentSpreadNode (NameNode (str x) None) None None None"

definition skip_true :: "directive_node list option" where
  "skip_true = Some [DirectiveNode (NameNode (str ''skip'') None)
     (Some [ArgumentNode (NameNode (str ''if'') None) (BooleanValueNode True None) None]) None]"

definition example_selections :: "selection_node list" where
  "example_selections = [a_field ''a'' None, a_spread ''F'', a_field ''b'' skip_true, a_spread ''F'']"

definition example_operation :: operation_definition_node where
  "example_operation = OperationDefinitionNode (SelectionSetNode example_selections None) None None None None QUERY None"

definition example_fragment :: fragment_details where
  "example_fragment = \<lparr>fragment_definition = FragmentDefinitionNode (SelectionSetNode [a_field ''d'' None, a_spread ''F''] None)
      None (NameNode (str ''F'') None) None None (NamedTypeNode (NameNode (str ''Query'') None) None) None,
    fragment_signatures = None\<rparr>"

definition query_schema :: "unit schema" where
  "query_schema = \<lparr>query_type = Some (str ''Query''), mutation_type = None, subscription_type = None,
     type_map = [an_object ''Query'' [], (str ''Boolean'', ScalarType (GraphQLBoolean (\<lambda>q. []))),
       (str ''String'', ScalarType (GraphQLString (\<lambda>q. []) (\<lambda>n. [])))], schema_directives = []\<rparr>"

definition example_context :: "unit collect_context" where
  "example_context = \<lparr>cx_schema = query_schema, cx_repr = (\<lambda>q. []), cx_fragments = [(str ''F'', example_fragment)],
     cx_variables = \<lparr>vv_sources = [], vv_coerced = []\<rparr>, cx_runtime_type = str ''Query'', cx_forbid = False, cx_fuel = 9\<rparr>"

definition example_collected :: collected where
  "example_collected = \<lparr>grouped_field_set =
       [(str ''a'', [\<lparr>fd_node = a_field ''a'' None, fd_defer_usage = None, fd_fragment_values = None\<rparr>]),
        (str ''d'', [\<lparr>fd_node = a_field ''d'' None, fd_defer_usage = None, fd_fragment_values = None\<rparr>])],
     new_defer_usages = [], forbidden_directives = [], visited_fragments = [(str ''F'', False)]\<rparr>"

lemma example_collects: "collect_fields example_context example_operation = Inr example_collected"
  by code_simp


lemma collect_fields_returns_witness:
  "\<exists>n result. (\<forall>m \<ge> n. collect_fields (example_context\<lparr>cx_fuel := m\<rparr>) example_operation = result)
    \<and> (\<forall>e. result = Inl e \<longrightarrow> (\<exists>message. e = GraphQLError message))"
proof (rule collect_fields_returns)
  have "get_type query_schema name \<noteq> Some (InputObjectType io)" for name io
    by (simp add: get_type_def query_schema_def an_object_def)
  then have "valid_inputs (cx_env example_context)"
    by (simp add: valid_inputs_def schema_env_def example_context_def)
  then show "standard_context example_context"
    by (auto simp: standard_context_def standard_env_def example_context_def schema_env_def get_type_def query_schema_def
        an_object_def)
  show "wf_fragments example_context"
    by (simp add: wf_fragments_def wf_fragment_def example_context_def example_fragment_def a_field_def a_spread_def
        wf_directives_def)
  show "wf_selection_set (op_selection_set example_operation)"
    by (simp add: example_operation_def example_selections_def a_field_def a_spread_def wf_directives_def skip_true_def
        wf_arguments_def wf_literal.simps)
qed

end
