(* ===== verification/Executor_Returns.thy ===== *)
theory Executor_Returns
  imports Executor_Errors Collect_Returns
begin

text \<open>
  Execution always ends in a response when the fragments of the document do not spread each other in a cycle: the
  selections below a field are smaller, or in fragments further down.
\<close>

section \<open>Documents without cycles\<close>

text \<open>A property of a selection and of all selections below it, fragments aside.\<close>

fun all_selections :: "(selection_node \<Rightarrow> bool) \<Rightarrow> selection_node \<Rightarrow> bool"
and all_in_set :: "(selection_node \<Rightarrow> bool) \<Rightarrow> selection_set_node \<Rightarrow> bool" where
  "all_selections P (FieldNode name alias_node arguments directives selection_set loc) =
     (P (FieldNode name alias_node arguments directives selection_set loc)
      \<and> (case selection_set of Some ss \<Rightarrow> all_in_set P ss | None \<Rightarrow> True))"
| "all_selections P (FragmentSpreadNode name arguments directives loc) = P (FragmentSpreadNode name arguments directives loc)"
| "all_selections P (InlineFragmentNode selection_set type_condition directives loc) =
     (P (InlineFragmentNode selection_set type_condition directives loc) \<and> all_in_set P selection_set)"
| "all_in_set P (SelectionSetNode nodes loc) = (\<forall>s \<in> set nodes. all_selections P s)"

lemma all_selections_self: "all_selections P s \<Longrightarrow> P s"
  by (cases s) auto

lemma all_in_set_selections: "all_in_set P ss \<longleftrightarrow> (\<forall>s \<in> set (selections ss). all_selections P s)"
  by (cases ss) simp

text \<open>The literals in the directives and arguments of a selection are well-formed.\<close>

fun wf_local :: "selection_node \<Rightarrow> bool" where
  "wf_local (FieldNode name alias_node arguments directives selection_set loc) = (wf_directives directives \<and> wf_arguments arguments)"
| "wf_local (FragmentSpreadNode name arguments directives loc) =
     (wf_directives directives \<and> (\<forall>as. arguments = Some as \<longrightarrow> (\<forall>a \<in> set as. wf_literal True (fragment_argument_value a))))"
| "wf_local (InlineFragmentNode selection_set type_condition directives loc) = wf_directives directives"

lemma wf_selection_of: "all_selections wf_local s \<Longrightarrow> wf_selection s"
  and wf_selection_set_of: "all_in_set wf_local ss \<Longrightarrow> wf_selection_set ss"
  by (induction s and ss) auto

text \<open>The spreads of known fragments in a selection have a smaller rank.\<close>

definition spread_below :: "(pystr \<times> fragment_details) list \<Rightarrow> (pystr \<Rightarrow> nat) \<Rightarrow> nat \<Rightarrow> selection_node \<Rightarrow> bool" where
  "spread_below fragments rank r s \<longleftrightarrow> (\<forall>name arguments directives loc. s = FragmentSpreadNode name arguments directives loc \<longrightarrow>
     map_of fragments (name_value name) \<noteq> None \<longrightarrow> rank (name_value name) < r)"

abbreviation spreads_below :: "(pystr \<times> fragment_details) list \<Rightarrow> (pystr \<Rightarrow> nat) \<Rightarrow> nat \<Rightarrow> selection_node \<Rightarrow> bool" where
  "spreads_below fragments rank r \<equiv> all_selections (spread_below fragments rank r)"

definition acyclic_fragments :: "(pystr \<times> fragment_details) list \<Rightarrow> (pystr \<Rightarrow> nat) \<Rightarrow> bool" where
  "acyclic_fragments fragments rank \<longleftrightarrow>
     (\<forall>(name, fragment) \<in> set fragments. \<forall>s \<in> set (fragment_selections fragment). spreads_below fragments rank (rank name) s)"

definition wf_fragment_bodies :: "(pystr \<times> fragment_details) list \<Rightarrow> bool" where
  "wf_fragment_bodies fragments \<longleftrightarrow>
     (\<forall>fragment \<in> snd ` set fragments. \<forall>s \<in> set (fragment_selections fragment). all_selections wf_local s)"

text \<open>A selection on the level of a rank: small and with spreads below the rank, or with spreads below a smaller one.\<close>

definition on_level :: "(pystr \<times> fragment_details) list \<Rightarrow> (pystr \<Rightarrow> nat) \<Rightarrow> nat \<Rightarrow> nat \<Rightarrow> selection_node \<Rightarrow> bool" where
  "on_level fragments rank r z s \<longleftrightarrow> all_selections wf_local s \<and>
     (spreads_below fragments rank r s \<and> size s < z \<or> (\<exists>r' < r. spreads_below fragments rank r' s))"

lemma level_parts:
  assumes "on_level fragments rank r (Suc z) s"
    and "\<And>P. all_selections P s \<Longrightarrow> all_selections P s'" and "size s' < size s"
  shows "on_level fragments rank r z s'"
  using assms by (fastforce simp: on_level_def)

lemma level_mono: "on_level fragments rank r z s \<Longrightarrow> z \<le> z' \<Longrightarrow> on_level fragments rank r z' s"
  by (auto simp: on_level_def)

lemma size_selection_set: "s \<in> set (selections ss) \<Longrightarrow> size s < size ss"
proof (cases ss)
  case (SelectionSetNode nodes loc)
  moreover assume "s \<in> set (selections ss)"
  moreover have "s \<in> set nodes \<Longrightarrow> size s < Suc (size_list size nodes)" by (induction nodes) auto
  ultimately show ?thesis by simp
qed

lemma level_field:
  assumes "on_level fragments rank r (Suc z) f" and "field_selection_set f = Some ss" and "s \<in> set (selections ss)"
    and "\<exists>name alias_node arguments directives loc. f = FieldNode name alias_node arguments directives (Some ss) loc"
  shows "on_level fragments rank r z s"
proof (rule level_parts [OF assms(1)])
  show "all_selections P f \<Longrightarrow> all_selections P s" for P
    using assms by (auto simp: all_in_set_selections)
  show "size s < size f" using assms(4) size_selection_set [OF assms(3)] by auto
qed

lemma level_inline:
  assumes "on_level fragments rank r z (InlineFragmentNode ss tc ds loc)" and "s \<in> set (selections ss)"
  shows "on_level fragments rank r z s"
proof -
  from assms(1) have "on_level fragments rank r (Suc z) (InlineFragmentNode ss tc ds loc)" by (rule level_mono) simp
  then show ?thesis
  proof (rule level_parts)
    show "all_selections P (InlineFragmentNode ss tc ds loc) \<Longrightarrow> all_selections P s" for P
      using assms(2) by (auto simp: all_in_set_selections)
    show "size s < size (InlineFragmentNode ss tc ds loc)" using size_selection_set [OF assms(2)] by simp
  qed
qed

lemma level_spread:
  assumes "on_level fragments rank r z (FragmentSpreadNode name as ds loc)" and "map_of fragments (name_value name) = Some fragment"
    and "acyclic_fragments fragments rank" and "wf_fragment_bodies fragments" and "s \<in> set (fragment_selections fragment)"
  shows "on_level fragments rank r z s"
proof -
  have known: "(name_value name, fragment) \<in> set fragments" using assms(2) by (rule map_of_SomeD)
  have "rank (name_value name) < r" using assms(1,2) by (auto simp: on_level_def spread_below_def)
  moreover have "spreads_below fragments rank (rank (name_value name)) s"
    using assms(3,5) known by (auto simp: acyclic_fragments_def)
  moreover have "all_selections wf_local s" using assms(4,5) known by (force simp: wf_fragment_bodies_def)
  ultimately show ?thesis by (auto simp: on_level_def)
qed

section \<open>Collected fields\<close>

text \<open>The collected details are fields of the document on the level, with defined fragment values.\<close>

definition good_detail :: "(pystr \<times> fragment_details) list \<Rightarrow> (pystr \<Rightarrow> nat) \<Rightarrow> nat \<Rightarrow> nat \<Rightarrow> field_details \<Rightarrow> bool" where
  "good_detail fragments rank r z d \<longleftrightarrow> on_level fragments rank r z (fd_node d) \<and> defined_fragment (fd_fragment_values d)
     \<and> (\<exists>name alias_node arguments directives ss loc. fd_node d = FieldNode name alias_node arguments directives ss loc)"

definition details_of :: "collected \<Rightarrow> field_details set" where
  "details_of st = set (concat (map snd (grouped_field_set st)))"

definition good_collector :: "'w collect_context \<Rightarrow> (pystr \<Rightarrow> nat) \<Rightarrow> nat \<Rightarrow> nat \<Rightarrow> collector \<Rightarrow> bool" where
  "good_collector cx rank r z rec \<longleftrightarrow> (\<forall>nodes usage fv st st'. rec nodes usage fv st = Inr st' \<longrightarrow>
     (\<forall>s \<in> set nodes. on_level (cx_fragments cx) rank r z s) \<longrightarrow> defined_fragment fv \<longrightarrow>
     (\<forall>d \<in> details_of st. good_detail (cx_fragments cx) rank r z d) \<longrightarrow>
     (\<forall>d \<in> details_of st'. good_detail (cx_fragments cx) rank r z d))"

lemma details_of_simps [simp]:
  "details_of (st\<lparr>new_defer_usages := usages\<rparr>) = details_of st"
  "details_of (st\<lparr>forbidden_directives := ds\<rparr>) = details_of st"
  "details_of (st\<lparr>visited_fragments := vs\<rparr>) = details_of st"
  "details_of (st\<lparr>grouped_field_set := add_field key d (grouped_field_set st)\<rparr>) = insert d (details_of st)"
  by (simp_all add: details_of_def add_field_nodes del: set_concat)

lemma fragment_values_defined:
  assumes "get_fragment_variable_values n E arguments signatures vv fv = Inr f"
  shows "defined_fragment (Some f)"
proof -
  from assms obtain nodes coerced where coerced: "coerce_arguments n E vv fv nodes signatures [] = Inr coerced"
    and f: "fv_coerced f = coerced"
    by (auto simp: get_fragment_variable_values_def Let_def bind_result_Inr_iff)
  from coerced have "all_defined coerced" by (rule coerce_arguments_defined [of n E vv fv nodes signatures]) (simp add: all_defined_def)
  then show ?thesis unfolding defined_values_def all_defined_def using f by auto
qed

lemma good_enter:
  assumes "good_collector cx rank r z rec" and "enter_fragment rec cx arguments fragment usage fv st = Inr st'"
    and "\<forall>s \<in> set (fragment_selections fragment). on_level (cx_fragments cx) rank r z s"
    and "\<forall>d \<in> details_of st. good_detail (cx_fragments cx) rank r z d"
  shows "\<forall>d \<in> details_of st'. good_detail (cx_fragments cx) rank r z d"
proof -
  from assms(2) obtain values' where rec: "rec (fragment_selections fragment) usage values' st = Inr st'"
    and origin: "values' = None \<or> (\<exists>f signatures. values' = Some f \<and>
      get_fragment_variable_values (cx_fuel cx) (cx_env cx) arguments signatures (Some (cx_variables cx)) fv = Inr f)"
    by (auto simp: enter_fragment_def bind_result_Inr_iff split: option.splits list.splits)
  have "defined_fragment values'"
    using origin fragment_values_defined by (auto simp: defined_values_def [of None None])
  with assms rec show ?thesis unfolding good_collector_def by blast
qed

lemma good_selection:
  assumes rec: "good_collector cx rank r z rec" and run: "collect_selection rec cx usage fv s st = Inr st'"
    and cx: "acyclic_fragments (cx_fragments cx) rank" "wf_fragment_bodies (cx_fragments cx)"
    and s: "on_level (cx_fragments cx) rank r z s" and fv: "defined_fragment fv"
    and st: "\<forall>d \<in> details_of st. good_detail (cx_fragments cx) rank r z d"
  shows "\<forall>d \<in> details_of st'. good_detail (cx_fragments cx) rank r z d"
proof -
  let ?good = "\<lambda>st. \<forall>d \<in> details_of st. good_detail (cx_fragments cx) rank r z d"
  have recursive: "?good st'"
    if "rec nodes usage' fv st1 = Inr st'" "\<forall>s \<in> set nodes. on_level (cx_fragments cx) rank r z s" "?good st1" for nodes usage' st1
    using rec that fv unfolding good_collector_def by blast
  have included: "?good st'" if run: "collect_included rec cx usage fv s st1 = Inr st'" and st1: "?good st1" for st1
  proof (cases s)
    case (FieldNode name alias_node arguments directives selection_set loc)
    with run st1 s fv show ?thesis by (auto simp: collect_included_def good_detail_def)
  next
    case (FragmentSpreadNode name arguments directives loc)
    have enter: "?good st'" if "map_of (cx_fragments cx) (name_value name) = Some fragment"
      "enter_fragment rec cx arguments fragment usage' fv st2 = Inr st'" "?good st2" for fragment usage' st2
      using level_spread [OF s [unfolded FragmentSpreadNode] that(1) cx] that(3) by (intro good_enter [OF rec that(2)]) auto
    from run st1 show ?thesis
      unfolding FragmentSpreadNode collect_included_def selection_node.case collect_spread_def
      by (cases "map_of (cx_fragments cx) (name_value name)"; cases "get_defer_usage cx fv directives usage")
         (auto simp: bind_result_def dest: enter split: if_splits option.split_asm)
  next
    case (InlineFragmentNode selection_set type_condition directives loc)
    have "\<forall>s \<in> set (selections selection_set). on_level (cx_fragments cx) rank r z s"
      using level_inline s InlineFragmentNode by blast
    with run st1 recursive [of "selections selection_set"] show ?thesis
      unfolding InlineFragmentNode collect_included_def selection_node.case collect_inline_def
      by (cases "get_defer_usage cx fv directives usage") (auto simp: bind_result_def split: if_splits option.split_asm)
  qed
  from run st included show ?thesis
    by (auto simp: collect_selection_def bind_result_Inr_iff Let_def split: if_splits)
qed

lemma good_fold:
  assumes "good_collector cx rank r z rec" and "acyclic_fragments (cx_fragments cx) rank" "wf_fragment_bodies (cx_fragments cx)"
    and "defined_fragment fv"
  shows "fold_result (collect_selection rec cx usage fv) nodes st = Inr st' \<Longrightarrow>
    \<forall>s \<in> set nodes. on_level (cx_fragments cx) rank r z s \<Longrightarrow>
    \<forall>d \<in> details_of st. good_detail (cx_fragments cx) rank r z d \<Longrightarrow>
    \<forall>d \<in> details_of st'. good_detail (cx_fragments cx) rank r z d"
proof (induction nodes arbitrary: st)
  case (Cons s nodes)
  then obtain st1 where st1: "collect_selection rec cx usage fv s st = Inr st1"
    "fold_result (collect_selection rec cx usage fv) nodes st1 = Inr st'" by (auto simp: bind_result_Inr_iff)
  have "\<forall>d \<in> details_of st1. good_detail (cx_fragments cx) rank r z d"
    by (rule good_selection [OF assms(1) st1(1) assms(2,3) _ assms(4) Cons.prems(3)]) (use Cons.prems(2) in simp)
  with Cons.IH [OF st1(2)] Cons.prems(2) show ?case by simp
qed simp

lemma good_impl:
  assumes "acyclic_fragments (cx_fragments cx) rank" "wf_fragment_bodies (cx_fragments cx)"
  shows "good_collector cx rank r z (collect_fields_impl k cx)"
proof (induction k)
  case (Suc k)
  from good_fold [OF Suc assms] show ?case unfolding good_collector_def collect_fields_impl.simps by blast
qed (simp add: good_collector_def)

lemma good_nothing [simp]: "details_of nothing_collected = {}"
  by (simp add: details_of_def nothing_collected_def)

lemma good_subfields:
  assumes cx: "acyclic_fragments (cx_fragments cx) rank" "wf_fragment_bodies (cx_fragments cx)"
    and "collect_subfields cx details = Inr st" and "\<forall>d \<in> set details. good_detail (cx_fragments cx) rank r (Suc z) d"
  shows "\<forall>d \<in> details_of st. good_detail (cx_fragments cx) rank r z d"
proof -
  let ?cx = "cx\<lparr>cx_forbid := False\<rparr>"
  have "fold_result (\<lambda>d st. case field_selection_set (fd_node d) of
         Some selection_set \<Rightarrow>
           collect_fields_impl (cx_fuel cx) ?cx (selections selection_set) (fd_defer_usage d) (fd_fragment_values d) st
       | None \<Rightarrow> Inr st) ds st0 = Inr st \<Longrightarrow> \<forall>d \<in> set ds. good_detail (cx_fragments cx) rank r (Suc z) d \<Longrightarrow>
      \<forall>d \<in> details_of st0. good_detail (cx_fragments cx) rank r z d \<Longrightarrow>
      \<forall>d \<in> details_of st. good_detail (cx_fragments cx) rank r z d" for ds st0
  proof (induction ds arbitrary: st0)
    case (Cons d ds)
    show ?case
    proof (cases "field_selection_set (fd_node d)")
      case (Some ss)
      with Cons.prems(1) obtain st1 where
        st1: "collect_fields_impl (cx_fuel cx) ?cx (selections ss) (fd_defer_usage d) (fd_fragment_values d) st0 = Inr st1"
        by (auto simp: bind_result_Inr_iff)
      have d: "good_detail (cx_fragments cx) rank r (Suc z) d" using Cons.prems(2) by simp
      then have "\<forall>s \<in> set (selections ss). on_level (cx_fragments cx) rank r z s"
        using level_field [of "cx_fragments cx" rank r z "fd_node d" ss] Some by (auto simp: good_detail_def)
      with good_impl [of ?cx rank r z] st1 cx Cons.prems(3) d
      have "\<forall>d \<in> details_of st1. good_detail (cx_fragments cx) rank r z d"
        unfolding good_collector_def by (auto simp: good_detail_def [of _ _ _ "Suc z"])
      with Cons st1 Some show ?thesis by (auto simp: bind_result_Inr_iff)
    qed (use Cons in \<open>auto simp: bind_result_Inr_iff\<close>)
  qed simp
  from this [of details nothing_collected] assms(3,4) show ?thesis by (simp add: collect_subfields_def)
qed

section \<open>Ending\<close>

text \<open>
  A computation with fuel for coercions and for the depth of the recursion: from every state it ends, with the same result
  for all larger amounts of fuel.
\<close>

definition ends :: "(nat \<Rightarrow> nat \<Rightarrow> ('w, 'a) exec) \<Rightarrow> bool" where
  "ends f \<longleftrightarrow> (\<forall>s. \<exists>R N. \<forall>n \<ge> N. \<forall>k \<ge> N. f n k s = Some R)"

lemma ends_const: "(\<And>s. m s \<noteq> None) \<Longrightarrow> ends (\<lambda>n k. m)"
  by (force simp: ends_def)

lemma ends_return: "ends (\<lambda>n k. return_value x)"
  by (rule ends_const) (simp add: return_value_def)

lemma ends_raise: "ends (\<lambda>n k. raise_error e)"
  by (rule ends_const) (simp add: raise_error_def)

lemma ends_if: "ends f \<Longrightarrow> ends g \<Longrightarrow> ends (\<lambda>n k. if b then f n k else g n k)"
  by (cases b) simp_all

lemma ends_user: "ends (\<lambda>n k. call_user f)"
  by (rule ends_const) (simp add: call_user_def split: prod.split sum.split)

lemma ends_bind:
  assumes "ends f" and "\<And>x. ends (\<lambda>n k. g n k x)"
  shows "ends (\<lambda>n k. bind_exec (f n k) (g n k))"
  unfolding ends_def
proof
  fix s
  from assms(1) obtain r s' N where f: "\<forall>n \<ge> N. \<forall>k \<ge> N. f n k s = Some (r, s')" by (fastforce simp: ends_def)
  show "\<exists>R N. \<forall>n \<ge> N. \<forall>k \<ge> N. bind_exec (f n k) (g n k) s = Some R"
  proof (cases r)
    case (Inl e)
    with f show ?thesis by (intro exI [of _ "(Inl e, s')"] exI [of _ N]) (simp add: bind_exec_def)
  next
    case (Inr x)
    from assms(2) [of x] obtain R M where "\<forall>n \<ge> M. \<forall>k \<ge> M. g n k x s' = Some R" unfolding ends_def by blast
    with f Inr show ?thesis by (intro exI [of _ R] exI [of _ "max N M"]) (simp add: bind_exec_def)
  qed
qed

lemma ends_catch:
  assumes "ends f" and "\<And>e. ends (\<lambda>n k. h n k e)"
  shows "ends (\<lambda>n k. catch (f n k) (h n k))"
  unfolding ends_def
proof
  fix s
  from assms(1) obtain r s' N where f: "\<forall>n \<ge> N. \<forall>k \<ge> N. f n k s = Some (r, s')" by (fastforce simp: ends_def)
  show "\<exists>R N. \<forall>n \<ge> N. \<forall>k \<ge> N. catch (f n k) (h n k) s = Some R"
  proof (cases r)
    case (Inr x)
    with f show ?thesis by (intro exI [of _ "(Inr x, s')"] exI [of _ N]) (simp add: catch_def)
  next
    case (Inl e)
    from assms(2) [of e] obtain R M where "\<forall>n \<ge> M. \<forall>k \<ge> M. h n k e s' = Some R" unfolding ends_def by blast
    with f Inl show ?thesis by (intro exI [of _ R] exI [of _ "max N M"]) (simp add: catch_def)
  qed
qed

text \<open>A coercion that answers; what is known of its value may be used behind it.\<close>

lemma ends_coercion:
  assumes "answers K P r" and "\<And>x. P x \<Longrightarrow> (\<And>N. \<exists>n \<ge> N. \<exists>k. r n k = Inr x) \<Longrightarrow> ends (\<lambda>n k. g n k x)"
  shows "ends (\<lambda>n k. bind_exec (coercion (r n k)) (g n k))"
proof -
  from assms(1) obtain R M where R: "\<forall>n \<ge> M. \<forall>k \<ge> K. r n k = R"
    and cases: "case R of Inl e \<Rightarrow> \<exists>message. e = GraphQLError message | Inr x \<Rightarrow> P x"
    by (auto simp: answers_def eventually_sequentially)
  show ?thesis
  proof (cases R)
    case (Inl e)
    with cases obtain message where "e = GraphQLError message" by auto
    with R Inl have "\<forall>n \<ge> max M K. \<forall>k \<ge> max M K. bind_exec (coercion (r n k)) (g n k) s = Some (Inl (raw e), s)" for s
      by (simp add: bind_exec_def coercion_def)
    then show ?thesis unfolding ends_def by blast
  next
    case (Inr x)
    have "\<exists>n \<ge> N. \<exists>k. r n k = Inr x" for N using R Inr by (intro exI [of _ "max N M"] conjI exI [of _ K]) simp_all
    with cases Inr have g: "ends (\<lambda>n k. g n k x)" by (intro assms(2)) auto
    show ?thesis
      unfolding ends_def
    proof
      fix s
      from g obtain R' N where "\<forall>n \<ge> N. \<forall>k \<ge> N. g n k x s = Some R'" unfolding ends_def by blast
      with R Inr show "\<exists>R N. \<forall>n \<ge> N. \<forall>k \<ge> N. bind_exec (coercion (r n k)) (g n k) s = Some R"
        by (intro exI [of _ R'] exI [of _ "max N (max M K)"]) (simp add: bind_exec_def coercion_def)
    qed
  qed
qed

lemma ends_Suc:
  assumes "ends (\<lambda>n k. f n (Suc k))"
  shows "ends f"
  unfolding ends_def
proof
  fix s
  from assms obtain R N where R: "\<forall>n \<ge> N. \<forall>k \<ge> N. f n (Suc k) s = Some R" unfolding ends_def by blast
  have "f n k s = Some R" if "n \<ge> Suc N" "k \<ge> Suc N" for n k
    using R that by (cases k) auto
  then show "\<exists>R N. \<forall>n \<ge> N. \<forall>k \<ge> N. f n k s = Some R" by blast
qed

section \<open>The parts of execution\<close>

abbreviation fueled :: "'w executor \<Rightarrow> nat \<Rightarrow> 'w executor" where
  "fueled ex n \<equiv> ex\<lparr>ex_fuel := n\<rparr>"

lemma fueled_simps [simp]:
  "ex_env (fueled ex n) = ex_env ex" "get_field (fueled ex n) = get_field ex"
  "ex_context (fueled ex n) = (\<lambda>t. (ex_context ex t)\<lparr>cx_fuel := n\<rparr>)"
  "handle_field_error (fueled ex n) = handle_field_error ex"
  "ensure_valid_runtime_type (fueled ex n) = ensure_valid_runtime_type ex"
  by (simp_all add: ex_env_def get_field_def ex_context_def handle_field_error_def fun_eq_iff)
     (simp add: ensure_valid_runtime_type_def split: py_value.split option.split named_type.split)

lemma fueled_parts:
  "ex_schema (fueled ex n) = ex_schema ex" "ex_fuel (fueled ex n) = n" "ex_variables (fueled ex n) = ex_variables ex"
  "ex_operation (fueled ex n) = ex_operation ex" "ex_field_resolver (fueled ex n) = ex_field_resolver ex"
  "ex_type_resolver (fueled ex n) = ex_type_resolver ex" "ex_middlewares (fueled ex n) = ex_middlewares ex"
  "usage_of_stream (fueled ex n) = usage_of_stream ex"
  by (simp_all add: fun_eq_iff) (simp add: usage_of_stream_def split: option.split py_value.split)

definition valid_arguments :: "'w env \<Rightarrow> (pystr \<times> input_value) list \<Rightarrow> bool" where
  "valid_arguments E arg_defs \<longleftrightarrow> (\<forall>arg_def \<in> snd ` set arg_defs. valid_field E False arg_def) \<and> distinct (out_names arg_defs)"

text \<open>
  The schema has the standard scalars, its arguments and the variables of fragments have input types and valid defaults, and
  the values of the variables are defined.
\<close>

definition standard_executor :: "'w executor \<Rightarrow> bool" where
  "standard_executor ex \<longleftrightarrow> standard_env (ex_env ex) \<and> env_types (ex_env ex) (str ''Int'') = Some (ScalarType GraphQLInt)
     \<and> all_defined (vv_coerced (ex_variables ex))
     \<and> (\<forall>parent_type name field. get_field ex parent_type name = Some field \<longrightarrow> valid_arguments (ex_env ex) (fld_args field))
     \<and> (\<forall>fragment \<in> snd ` set (ex_fragments ex). \<forall>signatures. fragment_signatures fragment = Some signatures \<longrightarrow>
          valid_arguments (ex_env ex) signatures)"

lemma ex_context_parts [simp]:
  "cx_env (ex_context ex t) = ex_env ex" "cx_fragments (ex_context ex t) = ex_fragments ex"
  "cx_variables (ex_context ex t) = ex_variables ex"
  by (simp_all add: ex_context_def ex_env_def)

lemma executor_context:
  assumes "standard_executor ex" and "wf_fragment_bodies (ex_fragments ex)"
  shows "standard_context (ex_context ex t)" "wf_fragments (ex_context ex t)"
proof -
  show "standard_context (ex_context ex t)"
    using assms(1) by (simp add: standard_context_def standard_executor_def all_defined_def)
  have "wf_selection_set (frag_selection_set (fragment_definition fragment))" if "fragment \<in> snd ` set (ex_fragments ex)" for fragment
    using assms(2) that wf_selection_of by (auto simp: wf_selection_set_selections wf_fragment_bodies_def)
  with assms(1) show "wf_fragments (ex_context ex t)"
    by (auto simp: wf_fragments_def wf_fragment_def standard_executor_def valid_arguments_def)
qed

lemma executor_defined: "standard_executor ex \<Longrightarrow> defined_fragment fv \<Longrightarrow> defined_values (Some (ex_variables ex)) fv"
  by (simp add: standard_executor_def defined_values_def all_defined_def)

lemma answers_diagonal:
  assumes "answers K P f"
  shows "answers 0 P (\<lambda>n k. f n n)"
proof -
  from assms obtain R where R: "\<forall>\<^sub>F n in sequentially. \<forall>k \<ge> K. f n k = R"
    "case R of Inl e \<Rightarrow> \<exists>message. e = GraphQLError message | Inr x \<Rightarrow> P x" unfolding answers_def by blast
  have "\<forall>\<^sub>F n in sequentially. K \<le> n" by (rule eventually_ge_at_top)
  with R(1) have "\<forall>\<^sub>F n in sequentially. \<forall>k \<ge> 0. f n n = R" by eventually_elim simp
  with R(2) show ?thesis unfolding answers_def by blast
qed

lemma impl_answers:
  assumes "standard_context cx" "wf_fragments cx" "\<forall>s \<in> set nodes. wf_selection s" "defined_fragment fv"
  shows "answers 0 (\<lambda>st'. True) (\<lambda>n k. collect_fields_impl n (with_fuel cx n) nodes usage fv st)"
proof -
  have "answers (Suc (nesting nodes + remaining cx st)) (\<lambda>st'. remaining cx st' \<le> remaining cx st)
      (\<lambda>n k. collect_fields_impl k (with_fuel cx n) nodes usage fv st)"
    using impl_collects [OF assms(1,2), of "Suc (nesting nodes + remaining cx st)"] assms(3,4) unfolding collects_def by blast
  from answers_diagonal [OF this] show ?thesis by (rule answers_mono) auto
qed

lemma collect_fields_answers:
  assumes "standard_context cx" "wf_fragments cx" "wf_selection_set (op_selection_set operation)"
  shows "answers 0 (\<lambda>st'. True) (\<lambda>n k. collect_fields (with_fuel cx n) operation)"
proof -
  have "defined_fragment None" by (simp add: defined_values_def)
  with impl_answers [OF assms(1,2)] assms(3) show ?thesis
    by (simp add: collect_fields_def wf_selection_set_selections)
qed

definition wf_detail :: "field_details \<Rightarrow> bool" where
  "wf_detail d \<longleftrightarrow> (\<forall>ss. field_selection_set (fd_node d) = Some ss \<longrightarrow> wf_selection_set ss) \<and> defined_fragment (fd_fragment_values d)"

lemma collect_subfields_answers:
  assumes "standard_context cx" "wf_fragments cx" "\<forall>d \<in> set details. wf_detail d"
  shows "answers 0 (\<lambda>st'. True) (\<lambda>n k. collect_subfields (with_fuel cx n) details)"
proof -
  let ?cx = "cx\<lparr>cx_forbid := False\<rparr>"
  have cx: "standard_context ?cx" "wf_fragments ?cx"
    using assms(1,2) by (simp_all add: standard_context_def wf_fragments_def)
  have swap: "(with_fuel cx n)\<lparr>cx_forbid := False\<rparr> = with_fuel ?cx n" for n by (cases cx) simp
  have "answers 0 (\<lambda>st'. True) (\<lambda>n k. fold_result (\<lambda>d st. case field_selection_set (fd_node d) of
         Some selection_set \<Rightarrow>
           collect_fields_impl n (with_fuel ?cx n) (selections selection_set) (fd_defer_usage d) (fd_fragment_values d) st
       | None \<Rightarrow> Inr st) ds st)" if "\<forall>d \<in> set ds. wf_detail d" for ds st
    using that
  proof (induction ds arbitrary: st)
    case (Cons d ds)
    have d: "answers 0 (\<lambda>st'. True) (\<lambda>n k. case field_selection_set (fd_node d) of
         Some selection_set \<Rightarrow>
           collect_fields_impl n (with_fuel ?cx n) (selections selection_set) (fd_defer_usage d) (fd_fragment_values d) st
       | None \<Rightarrow> Inr st)"
    proof (cases "field_selection_set (fd_node d)")
      case (Some ss)
      have "\<forall>s \<in> set (selections ss). wf_selection s" "defined_fragment (fd_fragment_values d)"
        using Cons.prems Some by (auto simp: wf_detail_def wf_selection_set_selections)
      from impl_answers [OF cx this] show ?thesis by (simp add: Some)
    qed (simp add: answers_Inr)
    show ?case unfolding fold_result.simps by (rule answers_bind_any [OF d]) (use Cons in simp)
  qed (simp add: answers_Inr)
  from this [OF assms(3)] show ?thesis unfolding collect_subfields_def swap with_fuel_parts .
qed

text \<open>A completer with fuel that ends for a group of details, whatever the type and the value.\<close>

definition completes :: "(nat \<Rightarrow> nat \<Rightarrow> 'w completer) \<Rightarrow> field_details list \<Rightarrow> bool" where
  "completes compl details \<longleftrightarrow> (\<forall>t info path v. ends (\<lambda>n k. compl n k t details info path v))"

lemma ends_handler: "ends (\<lambda>n k. handle_field_error ex e t path)"
  by (rule ends_const) (simp add: handle_field_error_def Let_def raise_error_def)

lemma ends_field:
  assumes "standard_executor ex" and "completes compl details" and "wf_arguments (field_arguments (fd_node (hd details)))"
    and "defined_fragment (fd_fragment_values (hd details))"
  shows "ends (\<lambda>n k. execute_field (compl n k) (fueled ex n) parent_type source details path)"
proof (cases "get_field ex parent_type (name_value (field_name (fd_node (hd details))))")
  case None
  then show ?thesis by (simp add: execute_field_def ends_return)
next
  case (Some field_def)
  let ?first = "fd_node (hd details)"
  let ?resolve = "get_field_resolver (ex_middlewares ex)
    (case fld_resolve field_def of Some f \<Rightarrow> f | None \<Rightarrow> ex_field_resolver ex)"
  let ?info = "build_resolve_info field_def (to_nodes details) parent_type path"
  have "valid_inputs (ex_env ex)" "valid_arguments (ex_env ex) (fld_args field_def)"
    using assms(1) Some by (auto simp: standard_executor_def standard_env_def)
  then have args: "answers 0 (complete_arguments (fld_args field_def)) (\<lambda>n k. get_argument_values n (ex_env ex) (fld_args field_def)
      (field_arguments ?first) (Some (ex_variables ex)) (fd_fragment_values (hd details)))"
    using assms by (intro get_argument_values_answers executor_defined) (auto simp: valid_arguments_def)
  have "ends (\<lambda>n k. catch (bind_exec (coercion (get_argument_values n (ex_env ex) (fld_args field_def)
        (field_arguments ?first) (Some (ex_variables ex)) (fd_fragment_values (hd details)))) (\<lambda>args.
      bind_exec (call_user (?resolve source ?info args)) (\<lambda>result.
        compl n k (fld_type field_def) details ?info path result)))
      (\<lambda>e. handle_field_error ex e (fld_type field_def) path))"
    by (intro ends_catch ends_handler ends_coercion [OF args] ends_bind ends_user)
       (use assms(2) in \<open>simp add: completes_def\<close>)
  then show ?thesis unfolding execute_field_def fueled_simps fueled_parts Some Let_def option.case .
qed

definition executable :: "(nat \<Rightarrow> nat \<Rightarrow> 'w completer) \<Rightarrow> field_details list \<Rightarrow> bool" where
  "executable compl details \<longleftrightarrow> completes compl details \<and> wf_arguments (field_arguments (fd_node (hd details)))
     \<and> defined_fragment (fd_fragment_values (hd details))"

lemma ends_field_list:
  assumes "standard_executor ex"
  shows "\<forall>(name, details) \<in> set groups. executable compl details \<Longrightarrow>
    ends (\<lambda>n k. execute_field_list (compl n k) (fueled ex n) parent_type source path groups results)"
proof (induction groups arbitrary: results)
  case (Cons group groups)
  obtain name details where group: "group = (name, details)" by (cases group)
  have "ends (\<lambda>n k. execute_field (compl n k) (fueled ex n) parent_type source details
      (add_key path (PathName name) (Some parent_type)))"
    using Cons.prems by (intro ends_field [OF assms]) (auto simp: group executable_def)
  then show ?case
    unfolding group execute_field_list.simps by (rule ends_bind) (rule Cons.IH, use Cons.prems in simp)
qed (simp add: ends_return)

lemma ends_fields:
  assumes "standard_executor ex" and "\<forall>(name, details) \<in> set groups. executable compl details"
  shows "ends (\<lambda>n k. execute_fields (compl n k) (fueled ex n) parent_type source path groups)"
  unfolding execute_fields_def by (rule ends_bind [OF ends_field_list [OF assms]]) (rule ends_return)

lemma ends_stream:
  assumes "standard_executor ex" and "wf_directives (sel_directives (fd_node (hd details)))"
  shows "ends (\<lambda>n k. get_stream_usage (fueled ex n) details path)"
proof -
  have env: "valid_inputs (ex_env ex)" using assms(1) by (simp add: standard_executor_def standard_env_def)
  have "valid_field (ex_env ex) False iv" if "iv_default iv = None" "is_input_type (env_types (ex_env ex)) (iv_type iv)" for iv
    using plain_default_settles [OF that(1)] that(2) by (auto simp: valid_field_def)
  then have valid: "\<forall>arg_def \<in> snd ` set (dir_args GraphQLStreamDirective). valid_field (ex_env ex) False arg_def"
    using assms(1) by (auto simp: GraphQLStreamDirective_def boolean_if_def standard_executor_def standard_env_def)
  have names: "distinct (out_names (dir_args GraphQLStreamDirective))"
    by (simp add: GraphQLStreamDirective_def out_name_def boolean_if_def)
  have "answers 0 (\<lambda>_. True) (\<lambda>n k. get_directive_values n (ex_env ex) GraphQLStreamDirective
      (sel_directives (fd_node (hd details))) (Some (ex_variables ex)) None)"
  proof (cases "find_directive (dir_name GraphQLStreamDirective) (sel_directives (fd_node (hd details)))")
    case (Some d)
    have "defined_fragment None" by (simp add: defined_values_def)
    from get_argument_values_answers [OF env executor_defined [OF assms(1) this] find_directive_wf [OF Some assms(2)] valid names, of 0]
    show ?thesis by (simp add: get_directive_values_def Some) (erule answers_bind_any, simp add: answers_Inr)
  qed (simp add: get_directive_values_def answers_Inr)
  then have "ends (\<lambda>n k. bind_exec (coercion (get_directive_values n (ex_env ex) GraphQLStreamDirective
      (sel_directives (fd_node (hd details))) (Some (ex_variables ex)) None)) (usage_of_stream ex))"
    by (rule ends_coercion) (auto intro!: ends_const simp: usage_of_stream_def return_value_def raise_error_def
        split: option.split py_value.split)
  then show ?thesis
    unfolding get_stream_usage_def fueled_simps fueled_parts
  proof (cases path)
    case (Cons a prev)
    obtain key typename where a: "a = (key, typename)" by (cases a)
    assume stream: "ends (\<lambda>n k. bind_exec (coercion (get_directive_values n (ex_env ex) GraphQLStreamDirective
      (sel_directives (fd_node (hd details))) (Some (ex_variables ex)) None)) (usage_of_stream ex))"
    show "ends (\<lambda>n k. case path of
        (PathIndex i, typename) # prev \<Rightarrow> return_value None
      | _ \<Rightarrow> bind_exec (coercion (get_directive_values n (ex_env ex) GraphQLStreamDirective
          (sel_directives (fd_node (hd details))) (Some (ex_variables ex)) None)) (usage_of_stream ex))"
      by (cases key) (simp_all add: Cons a stream ends_return)
  qed simp
qed

definition completes_type :: "(nat \<Rightarrow> nat \<Rightarrow> 'w completer) \<Rightarrow> field_details list \<Rightarrow> gtype \<Rightarrow> bool" where
  "completes_type compl details t \<longleftrightarrow> (\<forall>info path v. ends (\<lambda>n k. compl n k t details info path v))"

lemma ends_items:
  assumes "completes_type compl details t"
  shows "ends (\<lambda>n k. complete_items (compl n k) (fueled ex n) t details info path items results)"
proof (induction items arbitrary: results)
  case (Cons item items)
  have "ends (\<lambda>n k. complete_list_item_value (compl n k) (fueled ex n) item results t details info item_path)" for item_path
    unfolding complete_list_item_value_def fueled_simps
    using assms by (intro ends_bind ends_catch ends_handler ends_return) (simp add: completes_type_def)
  then show ?case unfolding complete_items.simps by (rule ends_bind) (rule Cons.IH)
qed (simp add: ends_return)

lemma ends_list:
  assumes "standard_executor ex" and "completes_type compl details t" and "wf_directives (sel_directives (fd_node (hd details)))"
  shows "ends (\<lambda>n k. complete_list_value (compl n k) (fueled ex n) t details info path result)"
proof -
  have "ends (\<lambda>n k. complete_iterable_value (compl n k) (fueled ex n) t details info path items)" for items
    unfolding complete_iterable_value_def
    by (intro ends_bind ends_stream [OF assms(1,3)] ends_items [OF assms(2)] ends_return)
  then show ?thesis unfolding complete_list_value_def by (cases result) (simp_all add: ends_raise)
qed

text \<open>The details of a group end if the groups below them do.\<close>

definition subgroups_execute :: "'w executor \<Rightarrow> (nat \<Rightarrow> nat \<Rightarrow> 'w completer) \<Rightarrow> field_details list \<Rightarrow> bool" where
  "subgroups_execute ex compl details \<longleftrightarrow> (\<forall>t n collected. collect_subfields (ex_context (fueled ex n) t) details = Inr collected \<longrightarrow>
     (\<forall>(name, sub_details) \<in> set (grouped_field_set collected). executable compl sub_details))"

lemma ends_object:
  assumes ex: "standard_executor ex" "wf_fragment_bodies (ex_fragments ex)" and details: "\<forall>d \<in> set details. wf_detail d"
    and sub: "subgroups_execute ex compl details"
  shows "ends (\<lambda>n k. complete_object_value (compl n k) (fueled ex n) t details info path result)"
proof -
  have "ends (\<lambda>n k. bind_exec (coercion (collect_subfields (with_fuel (ex_context ex (obj_name t)) n) details))
      (\<lambda>collected. execute_fields (compl n k) (fueled ex n) (obj_name t) result path (grouped_field_set collected)))"
  proof (rule ends_coercion [OF collect_subfields_answers [OF executor_context [OF ex] details]])
    fix collected
    assume "\<And>N. \<exists>n \<ge> N. \<exists>k. collect_subfields (with_fuel (ex_context ex (obj_name t)) n) details = Inr collected"
    then obtain n where "collect_subfields (ex_context (fueled ex n) (obj_name t)) details = Inr collected" by auto
    with sub show "ends (\<lambda>n k. execute_fields (compl n k) (fueled ex n) (obj_name t) result path (grouped_field_set collected))"
      by (intro ends_fields [OF ex(1)]) (auto simp: subgroups_execute_def)
  qed
  then have "ends (\<lambda>n k. collect_and_execute_subfields (compl n k) (fueled ex n) t details path result)"
    unfolding collect_and_execute_subfields_def fueled_simps .
  then show ?thesis
    unfolding complete_object_value_def
    by (cases "obj_is_type_of t") (auto intro!: ends_bind ends_user ends_if ends_raise)
qed

lemma ends_named:
  assumes "standard_executor ex" "wf_fragment_bodies (ex_fragments ex)" "\<forall>d \<in> set details. wf_detail d"
    and "subgroups_execute ex compl details"
  shows "ends (\<lambda>n k. complete_named_value (compl n k) (fueled ex n) name details info path result)"
proof -
  have runtime: "ends (\<lambda>n k. ensure_valid_runtime_type ex name t)" for name t
    by (rule ends_const) (simp add: ensure_valid_runtime_type_def return_value_def raise_error_def
        split: py_value.split option.split named_type.split)
  have abstract: "ends (\<lambda>n k. complete_abstract_value (compl n k) (fueled ex n) t f details info path result)" for t f
    unfolding complete_abstract_value_def fueled_simps fueled_parts
    by (intro ends_bind ends_user runtime ends_object [OF assms])
  have leaf: "ends (\<lambda>n k. complete_leaf_value f result)" for f
    by (rule ends_const) (simp add: complete_leaf_value_def return_value_def raise_error_def split: sum.split)
  show ?thesis
    unfolding complete_named_value_def fueled_parts
  proof (cases "get_type (ex_schema ex) name")
    case (Some t)
    then show "ends (\<lambda>n k. case get_type (ex_schema ex) name of
        Some (ScalarType t) \<Rightarrow> complete_leaf_value (sc_coerce_output_value t) result
      | Some (EnumType t) \<Rightarrow> complete_leaf_value (enum_coerce_output_value t) result
      | Some (InterfaceType t) \<Rightarrow>
          complete_abstract_value (compl n k) (fueled ex n) (InterfaceType t) (if_resolve_type t) details info path result
      | Some (UnionType t) \<Rightarrow>
          complete_abstract_value (compl n k) (fueled ex n) (UnionType t) (un_resolve_type t) details info path result
      | Some (ObjectType t) \<Rightarrow> complete_object_value (compl n k) (fueled ex n) t details info path result
      | _ \<Rightarrow> raise_error (raw (TypeError (str ''Cannot complete value of unexpected output type''))))"
      by (cases t) (simp_all add: abstract leaf ends_object [OF assms] ends_raise)
  qed (simp add: ends_raise)
qed

definition value_completer :: "'w executor \<Rightarrow> nat \<Rightarrow> nat \<Rightarrow> 'w completer" where
  "value_completer ex n k = complete_value k (fueled ex n)"

lemma ends_step:
  assumes "ends (\<lambda>n k. complete_value_body (value_completer ex n k) (fueled ex n) t details info path v)"
  shows "ends (\<lambda>n k. value_completer ex n k t details info path v)"
  by (rule ends_Suc) (use assms in \<open>simp add: value_completer_def [abs_def]\<close>)

lemma ends_exception: "ends f \<Longrightarrow> ends (\<lambda>n k. case v of PException e \<Rightarrow> raise_error (raw e) | _ \<Rightarrow> f n k)"
  by (cases v) (simp_all add: ends_raise)

lemma ends_value:
  assumes ex: "standard_executor ex" "wf_fragment_bodies (ex_fragments ex)" and details: "\<forall>d \<in> set details. wf_detail d"
    and directives: "wf_directives (sel_directives (fd_node (hd details)))"
    and sub: "subgroups_execute ex (value_completer ex) details"
  shows "completes (value_completer ex) details"
proof -
  have "ends (\<lambda>n k. value_completer ex n k t details info path v)" for t info path v
  proof (induction t arbitrary: info path v)
    case (GNamed name)
    have "ends (\<lambda>n k. if is_null v then return_value PNone
        else complete_named_value (value_completer ex n k) (fueled ex n) name details info path v)"
      by (intro ends_if ends_return ends_named [OF ex details sub])
    then show ?case by (intro ends_step) (simp only: complete_value_body_def gtype.case ends_exception)
  next
    case (GList t)
    then have "completes_type (value_completer ex) details t" by (simp add: completes_type_def)
    then have "ends (\<lambda>n k. if is_null v then return_value PNone
        else complete_list_value (value_completer ex n k) (fueled ex n) t details info path v)"
      by (intro ends_if ends_return ends_list [OF ex(1) _ directives])
    then show ?case by (intro ends_step) (simp only: complete_value_body_def gtype.case ends_exception)
  next
    case (GNonNull t)
    have "ends (\<lambda>n k. bind_exec (value_completer ex n k t details info path v) (\<lambda>completed.
        if completed = PNone
        then raise_error (raw (TypeError (str ''Cannot return null for non-nullable field'')))
        else return_value completed))"
      by (intro ends_bind GNonNull ends_if ends_raise ends_return)
    then show ?case by (intro ends_step) (simp only: complete_value_body_def gtype.case ends_exception)
  qed
  then show ?thesis by (simp add: completes_def)
qed

section \<open>Going down\<close>

lemma all_selections_mono:
  assumes "\<And>s. P s \<Longrightarrow> Q s"
  shows "all_selections P s \<Longrightarrow> all_selections Q s" and "all_in_set P ss \<Longrightarrow> all_in_set Q ss"
  using assms by (induction s and ss) (auto split: option.splits)

lemma spreads_below_mono: "spreads_below fragments rank r s \<Longrightarrow> r \<le> r' \<Longrightarrow> spreads_below fragments rank r' s"
  by (erule all_selections_mono(1) [rotated]) (auto simp: spread_below_def)

lemma good_detail_parts:
  assumes "good_detail fragments rank r z d"
  shows "wf_detail d" "wf_directives (sel_directives (fd_node d))" "wf_arguments (field_arguments (fd_node d))"
    "defined_fragment (fd_fragment_values d)"
  using assms by (auto simp: good_detail_def on_level_def wf_detail_def dest: wf_selection_set_of)

lemma lower_level:
  assumes "details \<noteq> []" and "\<forall>d \<in> set details. good_detail fragments rank r 0 d"
  shows "\<exists>r' < r. \<exists>z. \<forall>d \<in> set details. good_detail fragments rank r' z d"
proof -
  have smaller: "\<exists>r' < r. spreads_below fragments rank r' (fd_node d)" if "d \<in> set details" for d
    using assms(2) that by (auto simp: good_detail_def on_level_def)
  moreover have "hd details \<in> set details" using assms(1) by simp
  ultimately obtain r0 where r: "r = Suc r0" by (metis less_imp_Suc_add)
  let ?z = "Suc (sum_list (map (\<lambda>d. size (fd_node d)) details))"
  have "good_detail fragments rank r0 ?z d" if d: "d \<in> set details" for d
  proof -
    have "spreads_below fragments rank r0 (fd_node d)" using smaller [OF d] by (auto simp: r intro: spreads_below_mono)
    moreover have "size (fd_node d) < ?z" using d by (simp add: less_Suc_eq_le member_le_sum_list)
    ultimately show ?thesis using assms(2) d by (auto simp: good_detail_def on_level_def)
  qed
  then show ?thesis by (intro exI [of _ r0] conjI exI [of _ ?z]) (auto simp: r)
qed

lemma good_subgroups:
  assumes cx: "acyclic_fragments (ex_fragments ex) rank" "wf_fragment_bodies (ex_fragments ex)"
    and details: "\<forall>d \<in> set details. good_detail (ex_fragments ex) rank r (Suc z) d"
    and completes: "\<And>details. details \<noteq> [] \<Longrightarrow> \<forall>d \<in> set details. good_detail (ex_fragments ex) rank r z d \<Longrightarrow> completes compl details"
  shows "subgroups_execute ex compl details"
  unfolding subgroups_execute_def
proof (intro allI impI ballI, clarify)
  fix t n collected name sub_details
  assume collected: "collect_subfields (ex_context (fueled ex n) t) details = Inr collected"
    and group: "(name, sub_details) \<in> set (grouped_field_set collected)"
  have fragments: "cx_fragments (ex_context (fueled ex n) t) = ex_fragments ex" by (simp add: ex_context_def)
  have "\<forall>d \<in> details_of collected. good_detail (ex_fragments ex) rank r z d"
    using good_subfields [of "ex_context (fueled ex n) t" rank details collected r z] cx details collected
    unfolding fragments by blast
  then have good: "\<forall>d \<in> set sub_details. good_detail (ex_fragments ex) rank r z d"
    using group by (force simp: details_of_def)
  have nonempty: "sub_details \<noteq> []"
    using collect_subfields_well_grouped [OF collected] group by (auto simp: well_grouped_def)
  then have "good_detail (ex_fragments ex) rank r z (hd sub_details)" using good by simp
  from good_detail_parts [OF this] completes [OF nonempty good] show "executable compl sub_details"
    by (simp add: executable_def)
qed

lemma level_completes:
  assumes "standard_executor ex" "acyclic_fragments (ex_fragments ex) rank" "wf_fragment_bodies (ex_fragments ex)"
  shows "details \<noteq> [] \<Longrightarrow> \<forall>d \<in> set details. good_detail (ex_fragments ex) rank r z d \<Longrightarrow> completes (value_completer ex) details"
proof (induction r arbitrary: z details rule: less_induct)
  case (less r)
  from less.prems show ?case
  proof (induction z arbitrary: details)
    case 0
    from lower_level [OF 0] obtain r' z where "r' < r" "\<forall>d \<in> set details. good_detail (ex_fragments ex) rank r' z d" by blast
    from less.IH [OF this(1) 0(1) this(2)] show ?case .
  next
    case (Suc z)
    have sub: "subgroups_execute ex (value_completer ex) details"
      by (rule good_subgroups [OF assms(2,3) Suc.prems(2)]) (rule Suc.IH)
    have "good_detail (ex_fragments ex) rank r (Suc z) (hd details)" using Suc.prems by simp
    then have "wf_directives (sel_directives (fd_node (hd details)))" by (rule good_detail_parts)
    moreover have "\<forall>d \<in> set details. wf_detail d" using Suc.prems(2) good_detail_parts(1) by blast
    ultimately show ?case using ends_value [OF assms(1,3) _ _ sub] by blast
  qed
qed

section \<open>The operation\<close>

text \<open>The exceptions of fields are located.\<close>

definition located :: "field_error \<Rightarrow> bool" where
  "located e \<longleftrightarrow> fe_path e \<noteq> None"

definition raises :: "('w, 'a) exec \<Rightarrow> (field_error \<Rightarrow> bool) \<Rightarrow> bool" where
  "raises m P \<longleftrightarrow> (\<forall>s e s'. m s = Some (Inl e, s') \<longrightarrow> P e)"

lemma raises_bind: "raises m P \<Longrightarrow> (\<And>x. raises (f x) P) \<Longrightarrow> raises (bind_exec m f) P"
  by (fastforce simp: raises_def bind_exec_def split: option.splits sum.splits prod.splits)

lemma raises_return: "raises (return_value x) P"
  by (simp add: raises_def return_value_def)

lemma raises_field: "raises (execute_field compl ex parent_type source details path) located"
proof -
  have handler: "raises (handle_field_error ex e t path) located" for e t
    by (auto simp: raises_def located_def handle_field_error_def Let_def raise_error_def located_error_def split: if_splits)
  have "raises (catch m (\<lambda>e. handle_field_error ex e t path)) located" for m t
    using handler [of _ t]
    by (fastforce simp: raises_def catch_def split: option.splits sum.splits prod.splits)
  then show ?thesis
    by (auto simp: execute_field_def Let_def raises_return split: option.split)
qed

lemma raises_fields: "raises (execute_fields compl ex parent_type source path groups) located"
proof -
  have "raises (execute_field_list compl ex parent_type source path groups results) located" for results
  proof (induction groups arbitrary: results)
    case Nil
    show ?case unfolding execute_field_list.simps by (rule raises_return)
  next
    case (Cons g gs)
    show ?case by (cases g) (simp add: raises_bind [OF raises_field Cons.IH])
  qed
  then show ?thesis unfolding execute_fields_def by (intro raises_bind raises_return)
qed

lemma all_selections_all: "(\<And>s. P s) \<Longrightarrow> all_selections P s" and "(\<And>s. P s) \<Longrightarrow> all_in_set P ss"
  by (induction s and ss) (auto split: option.split)

lemma good_root:
  assumes "acyclic_fragments (cx_fragments cx) rank" "wf_fragment_bodies (cx_fragments cx)"
    and "all_in_set wf_local (op_selection_set operation)"
  shows "\<exists>r z. \<forall>n collected. collect_fields (with_fuel cx n) operation = Inr collected \<longrightarrow>
    (\<forall>d \<in> details_of collected. good_detail (cx_fragments cx) rank r z d)"
proof -
  let ?nodes = "selections (op_selection_set operation)"
  define r where "r = Suc (sum_list (map (\<lambda>(name, fragment). rank name) (cx_fragments cx)))"
  define z where "z = Suc (sum_list (map size ?nodes))"
  have "rank name < r" if "map_of (cx_fragments cx) name = Some fragment" for name fragment
  proof -
    have "rank name \<in> set (map (\<lambda>(name, fragment). rank name) (cx_fragments cx))" using map_of_SomeD [OF that] by force
    then show ?thesis unfolding r_def by (simp only: less_Suc_eq_le member_le_sum_list)
  qed
  then have "spreads_below (cx_fragments cx) rank r s" for s by (intro all_selections_all) (auto simp: spread_below_def)
  moreover have "size s < z" if "s \<in> set ?nodes" for s using that by (simp add: z_def less_Suc_eq_le member_le_sum_list)
  ultimately have "\<forall>s \<in> set ?nodes. on_level (cx_fragments cx) rank r z s"
    using assms(3) by (auto simp: on_level_def all_in_set_selections)
  moreover have "defined_fragment None" by (simp add: defined_values_def)
  ultimately have "\<forall>d \<in> details_of collected. good_detail (cx_fragments cx) rank r z d"
    if "collect_fields (with_fuel cx n) operation = Inr collected" for n collected
    using good_impl [of "with_fuel cx n" rank r z n] assms(1,2) that
    unfolding good_collector_def collect_fields_def with_fuel_parts by (metis empty_iff good_nothing)
  then show ?thesis by blast
qed

lemma ends_root:
  assumes "standard_executor ex" "acyclic_fragments (ex_fragments ex) rank" "wf_fragment_bodies (ex_fragments ex)"
    and "all_in_set wf_local (op_selection_set (ex_operation ex))"
  shows "ends (\<lambda>n k. execute_root k (fueled ex n) serially)"
proof (cases "get_root_type (ex_schema ex) (op_operation (ex_operation ex))")
  case None
  then show ?thesis by (simp add: execute_root_def ends_raise)
next
  case (Some root_type)
  let ?cx = "ex_context ex root_type"
  from good_root [of ?cx rank "ex_operation ex"] assms obtain r z where
    good: "\<forall>n collected. collect_fields (with_fuel ?cx n) (ex_operation ex) = Inr collected \<longrightarrow>
      (\<forall>d \<in> details_of collected. good_detail (ex_fragments ex) rank r z d)" by auto
  have wf: "wf_selection_set (op_selection_set (ex_operation ex))" using assms(4) by (rule wf_selection_set_of)
  have "ends (\<lambda>n k. bind_exec (coercion (collect_fields (with_fuel ?cx n) (ex_operation ex))) (\<lambda>collected.
      execute_fields (value_completer ex n k) (fueled ex n) root_type (ex_root_value ex) [] (grouped_field_set collected)))"
  proof (rule ends_coercion [OF collect_fields_answers [OF executor_context [OF assms(1,3)] wf]])
    fix collected
    assume "\<And>N. \<exists>n \<ge> N. \<exists>k. collect_fields (with_fuel ?cx n) (ex_operation ex) = Inr collected"
    then obtain n where collected: "collect_fields (with_fuel ?cx n) (ex_operation ex) = Inr collected" by auto
    have "executable (value_completer ex) details" if group: "(name, details) \<in> set (grouped_field_set collected)" for name details
    proof -
      have details: "\<forall>d \<in> set details. good_detail (ex_fragments ex) rank r z d"
        using good collected group by (force simp: details_of_def)
      have nonempty: "details \<noteq> []" using collect_fields_well_grouped [OF collected] group by (auto simp: well_grouped_def)
      then have "good_detail (ex_fragments ex) rank r z (hd details)" using details by simp
      from good_detail_parts [OF this] level_completes [OF assms(1-3) nonempty details] show ?thesis
        by (simp add: executable_def)
    qed
    then show "ends (\<lambda>n k. execute_fields (value_completer ex n k) (fueled ex n) root_type (ex_root_value ex) []
        (grouped_field_set collected))"
      by (intro ends_fields [OF assms(1)]) auto
  qed
  moreover have "ex_root_value (fueled ex n) = ex_root_value ex" for n by simp
  ultimately show ?thesis
    unfolding execute_root_def serial_fields if_cancel Let_def fueled_parts fueled_simps Some option.case value_completer_def
    by simp
qed

text \<open>
  C7.  Executing an operation always ends in a response, whatever the resolvers return: when no fragment spreads itself
  through others, there is an amount of fuel from which on the result is the same response.
\<close>

theorem execution_responds:
  assumes "standard_executor ex" and "acyclic_fragments (ex_fragments ex) rank" and "wf_fragment_bodies (ex_fragments ex)"
    and "all_in_set wf_local (op_selection_set (ex_operation ex))"
  shows "\<exists>N response w'. \<forall>n \<ge> N. execute_operation n (ex\<lparr>ex_fuel := n\<rparr>) serially w = Some (Inr response, w')"
proof -
  let ?start = "\<lparr>world = w, error_positions = [], collected_errors = []\<rparr>"
  from ends_root [OF assms] obtain R N where "\<forall>n \<ge> N. \<forall>k \<ge> N. execute_root k (fueled ex n) serially ?start = Some R"
    unfolding ends_def by blast
  moreover obtain r s where "R = (r, s)" by (cases R)
  ultimately have run: "\<forall>n \<ge> N. \<forall>k \<ge> N. execute_root k (fueled ex n) serially ?start = Some (r, s)" by simp
  have graphql: "is_raised_graphql_error e" if "r = Inl e" for e
  proof (cases "get_root_type (ex_schema ex) (op_operation (ex_operation ex))")
    case None
    with run that show ?thesis by (auto simp: execute_root_def raise_error_def is_raised_graphql_error_def raw_def)
  next
    case (Some root_type)
    have wf: "wf_selection_set (op_selection_set (ex_operation ex))" using assms(4) by (rule wf_selection_set_of)
    let ?collect = "\<lambda>n. collect_fields (with_fuel (ex_context ex root_type) n) (ex_operation ex)"
    from collect_fields_answers [OF executor_context [OF assms(1,3)] wf, of root_type] obtain R M where
      R: "\<forall>n \<ge> M. ?collect n = R" "case R of Inl e \<Rightarrow> \<exists>message. e = GraphQLError message | Inr x \<Rightarrow> True"
      by (auto simp: answers_def eventually_sequentially)
    from run have "execute_root (max N M) (fueled ex (max N M)) serially ?start = Some (Inl e, s)" using that by simp
    then have root: "bind_exec (coercion (?collect (max N M))) (\<lambda>collected.
        execute_fields (complete_value (max N M) (fueled ex (max N M))) (fueled ex (max N M)) root_type
          (ex_root_value (fueled ex (max N M))) [] (grouped_field_set collected)) ?start = Some (Inl e, s)"
      unfolding execute_root_def serial_fields if_cancel Let_def fueled_parts fueled_simps Some option.case .
    show ?thesis
    proof (cases R)
      case (Inl e')
      with R root show ?thesis
        by (auto simp: bind_exec_def coercion_def raw_def is_raised_graphql_error_def)
    next
      case (Inr collected)
      with R root have "execute_fields (complete_value (max N M) (fueled ex (max N M))) (fueled ex (max N M)) root_type
          (ex_root_value (fueled ex (max N M))) [] (grouped_field_set collected) ?start = Some (Inl e, s)"
        by (simp add: bind_exec_def coercion_def)
      with raises_fields have "located e" unfolding raises_def by blast
      then show ?thesis by (simp add: located_def is_raised_graphql_error_def)
    qed
  qed
  define response where "response = (case r of Inl e \<Rightarrow> build_response None (add_error e [] s) | Inr data \<Rightarrow> build_response (Some data) s)"
  have "execute_operation n (fueled ex n) serially w = Some (Inr response, world s)" if "n \<ge> N" for n
    using run that graphql by (cases r) (simp_all add: execute_operation_def response_def)
  then show ?thesis by blast
qed

end
