(* ===== verification/Validated_Execution.thy ===== *)
theory Validated_Execution
  imports Fragment_Cycles Executor_Returns
begin

text \<open>
  What validation guarantees to the executor: an operation of a document that passes the rules on fragments and on input
  fields ends in a response.
\<close>

section \<open>Input fields\<close>

text \<open>All trees inside of a tree.\<close>

fun subtrees :: "tree \<Rightarrow> tree set" and kids_subtrees :: "kids \<Rightarrow> tree set" where
  "subtrees (Tree node ks) = insert (Tree node ks) (kids_subtrees ks)"
| "kids_subtrees NoKids = {}"
| "kids_subtrees (Kid in_tuple t ks) = subtrees t \<union> kids_subtrees ks"

lemma kids_subtrees_simps [simp]:
  "kids_subtrees (append_kids ks ks') = kids_subtrees ks \<union> kids_subtrees ks'"
  "kids_subtrees (one t) = subtrees t"
  "kids_subtrees (optional f x) = (case x of Some y \<Rightarrow> subtrees (f y) | None \<Rightarrow> {})"
  "kids_subtrees (tuple_of ts) = \<Union> (subtrees ` set ts)"
  "kids_subtrees (optional_tuple g xs) = \<Union> (subtrees ` g ` set (case xs of Some ys \<Rightarrow> ys | None \<Rightarrow> []))"
  "kids_subtrees (all_kids kss) = \<Union> (kids_subtrees ` set kss)"
proof -
  show append: "kids_subtrees (append_kids ks ks') = kids_subtrees ks \<union> kids_subtrees ks'" for ks ks'
    by (induction ks ks' rule: append_kids.induct) auto
  show tuple: "kids_subtrees (tuple_of ts) = \<Union> (subtrees ` set ts)" for ts by (induction ts) auto
  show "kids_subtrees (one t) = subtrees t" by (simp add: one_def)
  show "kids_subtrees (optional f x) = (case x of Some y \<Rightarrow> subtrees (f y) | None \<Rightarrow> {})"
    by (simp add: optional_def one_def split: option.split)
  show "kids_subtrees (optional_tuple g xs) = \<Union> (subtrees ` g ` set (case xs of Some ys \<Rightarrow> ys | None \<Rightarrow> []))"
    by (simp add: optional_tuple_def tuple)
  show "kids_subtrees (all_kids kss) = \<Union> (kids_subtrees ` set kss)"
    by (induction kss) (simp_all add: all_kids_def append)
qed

text \<open>A rule that never skips passes the trees inside of a tree that it passes.\<close>

lemma passes_subtree:
  assumes enter: "\<And>ti parents node r r'. ok r \<Longrightarrow> enters cx ti parents node r r' \<Longrightarrow> ok r'"
    and leave: "\<And>ti node r r'. ok r \<Longrightarrow> leaves cx ti node False r r' \<Longrightarrow> ok r'"
    and unmarked: "\<And>r. ok r \<Longrightarrow> \<not> snd r"
  shows "passes_tree cx parents t ti r r' \<Longrightarrow> ok r \<Longrightarrow>
      ok r' \<and> (\<forall>t' \<in> subtrees t. \<exists>parents ti r r'. ok r \<and> passes_tree cx parents t' ti r r')"
    and "passes_kids cx parents ks ti r r' \<Longrightarrow> ok r \<Longrightarrow>
      ok r' \<and> (\<forall>t' \<in> kids_subtrees ks. \<exists>parents ti r r'. ok r \<and> passes_tree cx parents t' ti r r')"
proof (induction t and ks arbitrary: parents ti r r' and parents ti r r')
  case (Tree node ks)
  let ?ti1 = "TypeInfo_enter (vc_meta cx) (vc_schema cx) node ti"
  from Tree.prems(1) obtain r1 r2 where r1: "enters cx ?ti1 parents node r r1"
    and r2: "passes_kids cx (Some node # parents) ks ?ti1 r1 r2" and r': "leaves cx (ti_kids cx ks ?ti1) node (snd r) r2 r'"
    unfolding passes_tree.simps Let_def by blast
  from enter [OF Tree.prems(2) r1] Tree.IH [OF r2]
  have IH: "ok r2" "\<forall>t' \<in> kids_subtrees ks. \<exists>parents ti r r'. ok r \<and> passes_tree cx parents t' ti r r'" by blast+
  with r' leave unmarked [OF Tree.prems(2)] have "ok r'" by auto
  moreover have "\<exists>parents ti r r'. ok r \<and> passes_tree cx parents t' ti r r'" if "t' \<in> subtrees (Tree node ks)" for t'
  proof -
    from that consider "t' = Tree node ks" | "t' \<in> kids_subtrees ks" by auto
    then show ?thesis using IH(2) Tree.prems by cases blast+
  qed
  ultimately show ?case by blast
next
  case (Kid in_tuple t ks)
  from Kid.prems(1) obtain r1 where r1: "passes_tree cx (if in_tuple then None # parents else parents) t ti r r1"
    and r': "passes_kids cx parents ks (ti_tree cx t ti) r1 r'" unfolding passes_kids.simps by blast
  from Kid.IH(1) [OF r1 Kid.prems(2)] Kid.IH(2) [OF r'] show ?case by auto
qed auto

lemma input_fields_ignores:
  assumes "\<And>fs loc. node \<noteq> ValueN (ObjectValueNode fs loc)" and "\<And>f. node \<noteq> ObjectFieldN f"
  shows "ignores cx (UniqueInputFieldNamesRule stack known) node"
  using assms by (auto simp: ignores_def rule_enter_def rule_leave_def split: ast_node.splits value_node.splits)

text \<open>An ignored node does not change the rule that passes its children.\<close>

lemma passes_ignored_node:
  assumes "passes_tree cx parents (Tree node ks) ti (rule, False) r'" and "\<And>stack known. ignores cx (UniqueInputFieldNamesRule stack known) node"
    and "rule = UniqueInputFieldNamesRule stack known"
    and "\<And>ti parents r'. passes_kids cx parents ks ti (rule, False) r' \<Longrightarrow> P \<and> r' = (rule, False)"
  shows "P \<and> r' = (rule, False)"
proof -
  let ?ti1 = "TypeInfo_enter (vc_meta cx) (vc_schema cx) node ti"
  from assms(1) obtain r1 r2 where r1: "enters cx ?ti1 parents node (rule, False) r1"
    and r2: "passes_kids cx (Some node # parents) ks ?ti1 r1 r2" and r': "leaves cx (ti_kids cx ks ?ti1) node False r2 r'"
    unfolding passes_tree.simps Let_def by auto
  from r1 assms(2) [of stack known] have "r1 = (rule, False)"
    by (cases r1) (auto simp: enters_def ignores_def Validation_Rules.quiet_def assms(3))
  with assms(4) r2 have "P" "r2 = (rule, False)" by blast+
  with r' assms(2) [of stack known] show ?thesis by (cases r') (auto simp: leaves_def ignores_def assms(3))
qed

lemma input_fields_leaf:
  assumes "passes_tree cx parents t ti (UniqueInputFieldNamesRule stack known, False) r'"
    and "\<forall>node \<in> tree_nodes t. (\<forall>fs loc. node \<noteq> ValueN (ObjectValueNode fs loc)) \<and> (\<forall>f. node \<noteq> ObjectFieldN f)"
  shows "r' = (UniqueInputFieldNamesRule stack known, False)"
proof -
  have "\<forall>node \<in> tree_nodes t. ignores cx (UniqueInputFieldNamesRule stack known) node"
    using assms(2) by (simp add: input_fields_ignores)
  from passes_ignored(1) [OF this] assms(1) show ?thesis by blast
qed

lemma wf_leaf_literals:
  "wf_literal True (VariableValue v)" "wf_literal True (IntValueNode x loc)" "wf_literal True (FloatValueNode x loc)"
  "wf_literal True (StringValue sv)" "wf_literal True (BooleanValueNode b loc)" "wf_literal True (NullValueNode loc)"
  "wf_literal True (EnumValueNode x loc)"
  by (subst wf_literal.simps, simp)+

lemma input_fields_passed:
  "passes_tree cx parents (value_tree v) ti (UniqueInputFieldNamesRule stack known, False) r' \<Longrightarrow>
     wf_literal True v \<and> r' = (UniqueInputFieldNamesRule stack known, False)"
  "passes_tree cx parents (object_field_tree f) ti (UniqueInputFieldNamesRule stack known, False) r' \<Longrightarrow>
     name_value (object_field_name f) \<notin> fst ` set known \<and> wf_literal True (object_field_value f) \<and>
     (\<exists>known'. r' = (UniqueInputFieldNamesRule stack known', False)
        \<and> fst ` set known' = insert (name_value (object_field_name f)) (fst ` set known))"
proof (induction v and f arbitrary: parents ti stack known r' and parents ti stack known r')
  case (ListValueNode vs loc)
  have kids: "passes_kids cx parents (tuple_of (map value_tree ws)) ti (UniqueInputFieldNamesRule stack known, False) r' \<Longrightarrow>
      (\<forall>w \<in> set ws. wf_literal True w) \<and> r' = (UniqueInputFieldNamesRule stack known, False)"
    if "set ws \<subseteq> set vs" for ws parents ti r'
    using that
  proof (induction ws arbitrary: ti)
    case (Cons w ws)
    from Cons.prems(1) obtain r1 where r1: "passes_tree cx (None # parents) (value_tree w) ti (UniqueInputFieldNamesRule stack known, False) r1"
      and r': "passes_kids cx parents (tuple_of (map value_tree ws)) (ti_tree cx (value_tree w) ti) r1 r'"
      unfolding list.map tuple_of.simps passes_kids.simps if_True by blast
    from ListValueNode.IH [OF _ r1] Cons.prems(2) have "wf_literal True w" "r1 = (UniqueInputFieldNamesRule stack known, False)"
      by auto
    with Cons.IH r' Cons.prems(2) show ?case by auto
  qed simp
  have "(\<forall>w \<in> set vs. wf_literal True w) \<and> r' = (UniqueInputFieldNamesRule stack known, False)"
  proof (rule passes_ignored_node [OF ListValueNode.prems [unfolded value_tree.simps] _ refl])
    show "ignores cx (UniqueInputFieldNamesRule stack known) (ValueN (ListValueNode vs loc))" for stack known
      by (simp add: input_fields_ignores)
  qed (use kids [OF subset_refl] in blast)
  then show ?case by (subst wf_literal.simps) simp
next
  case (ObjectValueNode fs loc)
  let ?node = "ValueN (ObjectValueNode fs loc)"
  have kids: "passes_kids cx parents (tuple_of (map object_field_tree gs)) ti (UniqueInputFieldNamesRule stack' known', False) r' \<Longrightarrow>
      (\<forall>g \<in> set gs. wf_literal True (object_field_value g)) \<and> distinct (map (\<lambda>f. name_value (object_field_name f)) gs)
      \<and> (\<forall>g \<in> set gs. name_value (object_field_name g) \<notin> fst ` set known')
      \<and> (\<exists>known''. r' = (UniqueInputFieldNamesRule stack' known'', False))"
    if "set gs \<subseteq> set fs" for gs parents ti stack' known' r'
    using that
  proof (induction gs arbitrary: ti known')
    case (Cons g gs)
    from Cons.prems(1) obtain r1 where
      r1: "passes_tree cx (None # parents) (object_field_tree g) ti (UniqueInputFieldNamesRule stack' known', False) r1"
      and r': "passes_kids cx parents (tuple_of (map object_field_tree gs)) (ti_tree cx (object_field_tree g) ti) r1 r'"
      unfolding list.map tuple_of.simps passes_kids.simps if_True by blast
    from ObjectValueNode.IH [OF _ r1] Cons.prems(2) obtain known1 where here: "name_value (object_field_name g) \<notin> fst ` set known'"
      "wf_literal True (object_field_value g)" "r1 = (UniqueInputFieldNamesRule stack' known1, False)"
      "fst ` set known1 = insert (name_value (object_field_name g)) (fst ` set known')" by auto
    from Cons.IH [OF r' [unfolded here(3)]] Cons.prems(2) here show ?case by auto
  qed simp
  from ObjectValueNode.prems obtain ti1 r1 r2 where r1: "enters cx ti1 parents ?node (UniqueInputFieldNamesRule stack known, False) r1"
    and r2: "passes_kids cx (Some ?node # parents) (tuple_of (map object_field_tree fs)) ti1 r1 r2"
    and r': "leaves cx (ti_kids cx (tuple_of (map object_field_tree fs)) ti1) ?node False r2 r'"
    unfolding value_tree.simps passes_tree.simps Let_def by auto
  have "r1 = (UniqueInputFieldNamesRule (known # stack) [], False)"
    using r1 by (cases r1) (auto simp: enters_def rule_enter_def Validation_Rules.quiet_def)
  with kids [of fs] r2 obtain known'' where
    here: "\<forall>g \<in> set fs. wf_literal True (object_field_value g)" "distinct (map (\<lambda>f. name_value (object_field_name f)) fs)"
    "r2 = (UniqueInputFieldNamesRule (known # stack) known'', False)" by blast
  then have "r' = (UniqueInputFieldNamesRule stack known, False)"
    using r' by (cases r') (auto simp: leaves_def rule_leave_def)
  with here(1,2) show ?case by (subst wf_literal.simps) simp
next
  case (ObjectFieldNode name v loc)
  let ?node = "ObjectFieldN (ObjectFieldNode name v loc)"
  from ObjectFieldNode.prems obtain ti1 r1 r2 where r1: "enters cx ti1 parents ?node (UniqueInputFieldNamesRule stack known, False) r1"
    and r2: "passes_kids cx (Some ?node # parents) (append_kids (one (name_tree name)) (one (value_tree v))) ti1 r1 r2"
    and r': "leaves cx (ti_kids cx (append_kids (one (name_tree name)) (one (value_tree v))) ti1) ?node False r2 r'"
    unfolding object_field_tree.simps passes_tree.simps Let_def by auto
  from r1 obtain known' where known': "name_value name \<notin> fst ` set known" "r1 = (UniqueInputFieldNamesRule stack known', False)"
    "fst ` set known' = insert (name_value name) (fst ` set known)"
    by (cases r1) (auto simp: enters_def rule_enter_def reporting_def see_name_def split: option.splits dest!: map_of_SomeD
        simp: map_of_eq_None_iff)
  have "passes_tree cx (Some ?node # parents) (name_tree name) ti1 r1 r3 \<Longrightarrow> r3 = r1" for r3
    using passes_ignored(1) [of "name_tree name" cx "UniqueInputFieldNamesRule stack known'" "Some ?node # parents" ti1 r3]
    by (simp add: known'(2) name_tree_def input_fields_ignores)
  with r2 obtain ti2 where "passes_tree cx (Some ?node # parents) (value_tree v) ti2 r1 r2"
    by (auto simp: one_def)
  from ObjectFieldNode.IH [OF this [unfolded known'(2)]] have "wf_literal True v" "r2 = (UniqueInputFieldNamesRule stack known', False)" by auto
  moreover from this(2) have "r' = (UniqueInputFieldNamesRule stack known', False)"
    using r' by (cases r') (auto simp: leaves_def rule_leave_def)
  ultimately show ?case using known' by auto
qed (frule input_fields_leaf; simp add: wf_leaf_literals variable_tree_def name_tree_def)+

lemma subtrees_self [simp]: "t \<in> subtrees t"
  by (cases t) simp

lemma subtrees_values:
  "value_tree (argument_value a) \<in> subtrees (argument_tree a)"
  "value_tree (fragment_argument_value fa) \<in> subtrees (fragment_argument_tree fa)"
  "directive_arguments d = Some args \<Longrightarrow> a \<in> set args \<Longrightarrow> value_tree (argument_value a) \<in> subtrees (directive_tree d)"
proof -
  show a: "value_tree (argument_value a) \<in> subtrees (argument_tree a)" for a by (simp add: argument_tree_def)
  show "value_tree (fragment_argument_value fa) \<in> subtrees (fragment_argument_tree fa)" by (simp add: fragment_argument_tree_def)
  show "directive_arguments d = Some args \<Longrightarrow> a \<in> set args \<Longrightarrow> value_tree (argument_value a) \<in> subtrees (directive_tree d)"
    using a by (auto simp: directive_tree_def)
qed

lemma wf_local_subtrees:
  assumes literals: "\<And>v. value_tree v \<in> S \<Longrightarrow> wf_literal True v"
  shows "subtrees (selection_tree s) \<subseteq> S \<Longrightarrow> all_selections wf_local s"
    and "subtrees (selection_set_tree ss) \<subseteq> S \<Longrightarrow> all_in_set wf_local ss"
proof (induction s and ss)
  have arguments: "wf_arguments args" if "\<Union> (subtrees ` argument_tree ` set (case args of Some ys \<Rightarrow> ys | None \<Rightarrow> [])) \<subseteq> S" for args
    using that literals subtrees_values(1) by (fastforce simp: wf_arguments_def)
  have directives: "wf_directives ds" if "\<Union> (subtrees ` directive_tree ` set (case ds of Some ys \<Rightarrow> ys | None \<Rightarrow> [])) \<subseteq> S" for ds
    unfolding wf_directives_def wf_arguments_def using that literals subtrees_values(3) by fastforce
  {
    case (FieldNode name alias_node args ds selection_set loc)
    have "wf_arguments args" by (rule arguments) (use FieldNode.prems in simp)
    moreover have "wf_directives ds" by (rule directives) (use FieldNode.prems in simp)
    moreover have "\<forall>set1. selection_set = Some set1 \<longrightarrow> all_in_set wf_local set1" using FieldNode by auto
    ultimately show ?case by (cases selection_set) auto
  next
    case (FragmentSpreadNode name args ds loc)
    have "wf_directives ds" by (rule directives) (use FragmentSpreadNode.prems in simp)
    moreover have "wf_literal True (fragment_argument_value a)" if "args = Some ys" "a \<in> set ys" for ys a
      using FragmentSpreadNode that subtrees_values(2) [of a] literals by auto
    ultimately show ?case by simp
  next
    case (InlineFragmentNode selection_set type_condition ds loc)
    have "wf_directives ds" by (rule directives) (use InlineFragmentNode.prems in simp)
    with InlineFragmentNode show ?case by auto
  next
    case (SelectionSetNode nodes loc)
    then show ?case by auto
  }
qed

lemma document_subtrees:
  assumes "d \<in> set (document_definitions document)"
  shows "subtrees (definition_tree d) \<subseteq> subtrees (document_tree document)"
  using assms by (auto simp: document_tree_def)

text \<open>In a document that \<open>UniqueInputFieldNamesRule\<close> accepts, the arguments everywhere have different input fields.\<close>

lemma input_fields_validated:
  assumes "validate cx [UniqueInputFieldNamesRule [] []] = Inr []"
  shows "OperationDefinition op \<in> set (document_definitions (vc_document cx)) \<Longrightarrow> all_in_set wf_local (op_selection_set op)"
    and "FragmentDefinition f \<in> set (document_definitions (vc_document cx)) \<Longrightarrow> all_in_set wf_local (frag_selection_set f)"
proof -
  let ?ok = "\<lambda>r. \<exists>stack known. r = (UniqueInputFieldNamesRule stack known, False)"
  have enter: "?ok r \<Longrightarrow> enters cx ti parents node r r' \<Longrightarrow> ?ok r'" for ti parents node r r'
    by (cases r') (auto simp: enters_def rule_enter_def Validation_Rules.quiet_def reporting_def split: ast_node.splits value_node.splits prod.splits)
  have leave: "?ok r \<Longrightarrow> leaves cx ti node False r r' \<Longrightarrow> ?ok r'" for ti node r r'
    by (cases r') (auto simp: leaves_def rule_leave_def split: ast_node.splits value_node.splits)
  from assms obtain r' where passed: "passes_tree cx [] (document_tree (vc_document cx)) TypeInfo_init (UniqueInputFieldNamesRule [] [], False) r'"
    unfolding validate_alone [of "UniqueInputFieldNamesRule [] []", simplified] by blast
  have "?ok r' \<and> (\<forall>t \<in> subtrees (document_tree (vc_document cx)). \<exists>parents ti r r'. ?ok r \<and> passes_tree cx parents t ti r r')"
    by (rule passes_subtree(1) [where ok = ?ok, OF _ _ _ passed]) (blast intro: enter, blast intro: leave, auto)
  then have "wf_literal True v" if "value_tree v \<in> subtrees (document_tree (vc_document cx))" for v
    using that input_fields_passed(1) by blast
  note wf = wf_local_subtrees(2) [OF this]
  show "all_in_set wf_local (op_selection_set op)" if "OperationDefinition op \<in> set (document_definitions (vc_document cx))"
    by (rule wf) (use document_subtrees [OF that] in \<open>auto simp: definition_tree_def operation_tree_def\<close>)
  show "all_in_set wf_local (frag_selection_set f)" if "FragmentDefinition f \<in> set (document_definitions (vc_document cx))"
    by (rule wf) (use document_subtrees [OF that] in \<open>auto simp: definition_tree_def fragment_tree_def\<close>)
qed

section \<open>The executor of a document\<close>

definition executes_document :: "'w executor \<Rightarrow> document_node \<Rightarrow> bool" where
  "executes_document ex document \<longleftrightarrow>
     map (\<lambda>(name, fragment). (name, fragment_definition fragment)) (ex_fragments ex) = document_fragments document
     \<and> OperationDefinition (ex_operation ex) \<in> set (document_definitions document)"

lemma map_dict_set: "map (\<lambda>(k, v). (k, f v)) (dict_set k v d) = dict_set k (f v) (map (\<lambda>(k, v). (k, f v)) d)"
  by (induction d) auto

lemma bind_init:
  assumes "bind_result g (\<lambda>r. case r of Inl es \<Rightarrow> Inr (Inl es) | Inr v \<Rightarrow> Inr (Inr (F v))) = Inr (Inr ex)"
  shows "\<exists>v. ex = F v"
proof (cases g)
  case (Inr x)
  with assms show ?thesis by (cases x) (auto simp: bind_result_Inr_iff)
qed (use assms in \<open>auto simp: bind_result_Inr_iff\<close>)

lemma build_executes:
  assumes "build n rq (document_definitions document) = Inr (Inr ex)"
  shows "executes_document ex document"
proof -
  let ?E = "schema_env (rq_schema rq) (rq_repr rq)" and ?name = "rq_operation_name rq"
  let ?add = "\<lambda>d fragments. case d of
      FragmentDefinition fragment \<Rightarrow> dict_set (name_value (frag_name fragment)) fragment fragments | _ \<Rightarrow> fragments"
  let ?definitions = "\<lambda>s. map (\<lambda>(name, fragment). (name, fragment_definition fragment)) (bs_fragments s)"
  have one: "?definitions s' = ?add d (?definitions s) \<and>
      (bs_operation s' = bs_operation s \<or> (\<exists>op. d = OperationDefinition op \<and> bs_operation s' = Some op))"
    if "build_definition ?E ?name d s = Inr s'" for d s s'
    using that by (cases d) (auto simp: build_definition_def map_dict_set Let_def split: option.splits if_splits prod.splits)
  have all: "fold_result (build_definition ?E ?name) ds s = Inr s' \<Longrightarrow> ?definitions s' = fold ?add ds (?definitions s) \<and>
      (bs_operation s' = bs_operation s \<or> (\<exists>op. OperationDefinition op \<in> set ds \<and> bs_operation s' = Some op))" for ds s s'
  proof (induction ds arbitrary: s)
    case (Cons d ds)
    then obtain s1 where "build_definition ?E ?name d s = Inr s1" "fold_result (build_definition ?E ?name) ds s1 = Inr s'"
      by (auto simp: bind_result_Inr_iff)
    with one [OF this(1)] Cons.IH [OF this(2)] show ?case by auto
  qed simp
  let ?start = "\<lparr>bs_operation = None, bs_fragments = [], bs_errors = []\<rparr>"
  obtain s where s: "fold_result (build_definition ?E ?name) (document_definitions document) ?start = Inr s"
    using assms by (cases "fold_result (build_definition ?E ?name) (document_definitions document) ?start") (auto simp: build_def)
  moreover obtain operation where "bs_operation s = Some operation"
    using assms s by (cases "bs_operation s") (auto simp: build_def)
  moreover from calculation assms obtain variables where "ex = Executor_init rq (bs_fragments s) operation variables n"
    by (auto simp: build_def Let_def dest!: bind_init split: if_splits)
  then have "ex_fragments ex = bs_fragments s" "ex_operation ex = operation" by (simp_all add: Executor_init_def)
  ultimately show ?thesis using all [OF s] by (auto simp: executes_document_def document_fragments_def)
qed

lemma document_fragments_distinct: "distinct (map fst (document_fragments document))"
proof -
  have "distinct (map fst fragments) \<Longrightarrow> distinct (map fst (fold (\<lambda>d fragments. case d of
       FragmentDefinition fragment \<Rightarrow> dict_set (name_value (frag_name fragment)) fragment fragments
     | _ \<Rightarrow> fragments) ds fragments))" for ds fragments
  proof (induction ds arbitrary: fragments)
    case (Cons d ds)
    then show ?case by (cases d) auto
  qed simp
  then show ?thesis by (simp add: document_fragments_def)
qed

lemma executed_fragment:
  assumes "executes_document ex document" and "(name, fragment) \<in> set (ex_fragments ex)"
  shows "get_fragment document name = Some (fragment_definition fragment)"
proof -
  from assms(1) have "set (document_fragments document) = (\<lambda>(name, fragment). (name, fragment_definition fragment)) ` set (ex_fragments ex)"
    unfolding executes_document_def by (metis list.set_map)
  with assms(2) have "(name, fragment_definition fragment) \<in> set (document_fragments document)" by force
  with document_fragments_distinct show ?thesis by (simp add: get_fragment_def)
qed

text \<open>A document that passes the rules on fragments gives the executor fragments without cycles.\<close>

lemma spreads_below_rank:
  assumes "\<And>name. name \<in> N \<Longrightarrow> map_of fragments name \<noteq> None \<Longrightarrow> rank name < r"
  shows "spread_names s \<subseteq> N \<Longrightarrow> spreads_below fragments rank r s"
    and "spread_names_in ss \<subseteq> N \<Longrightarrow> all_in_set (spread_below fragments rank r) ss"
proof (induction s and ss)
  case (FieldNode name alias_node arguments directives selection_set loc)
  then show ?case by (cases selection_set) (auto simp: spread_below_def)
qed (use assms in \<open>auto simp: spread_below_def\<close>)

lemma validated_fragments:
  assumes "executes_document ex document" and "distinct (map fragment_name (fragment_defs document))" and "acyclic (spread_graph document)"
  shows "acyclic_fragments (ex_fragments ex) (fragment_search.rank_of document)"
  unfolding acyclic_fragments_def
proof clarify
  fix name fragment s
  assume known: "(name, fragment) \<in> set (ex_fragments ex)" and s: "s \<in> set (fragment_selections fragment)"
  let ?f = "fragment_definition fragment"
  have f: "get_fragment document name = Some ?f" using assms(1) known by (rule executed_fragment)
  then have name: "name = fragment_name ?f" using get_fragment_named by (simp add: fragment_name_def)
  show "spreads_below (ex_fragments ex) (fragment_search.rank_of document) (fragment_search.rank_of document name) s"
  proof (rule spreads_below_rank(1))
    fix target assume target: "target \<in> spread_names_in (frag_selection_set ?f)" and "map_of (ex_fragments ex) target \<noteq> None"
    then obtain g' where "(target, g') \<in> set (ex_fragments ex)" using map_of_SomeD by fastforce
    from executed_fragment [OF assms(1) this] have g: "get_fragment document target = Some (fragment_definition g')" .
    then have "target = fragment_name (fragment_definition g')" using get_fragment_named by (simp add: fragment_name_def)
    with target name get_fragment_defined [OF f] get_fragment_defined [OF g] have "(name, target) \<in> spread_graph document"
      by (auto simp: spread_graph_def)
    then show "fragment_search.rank_of document target < fragment_search.rank_of document name"
      using fragment_search.rank_decreases assms(3) by (simp add: successor_spread_graph [OF assms(2)])
  next
    show "spread_names s \<subseteq> spread_names_in (frag_selection_set ?f)"
      using s by (cases "frag_selection_set ?f") auto
  qed
qed

text \<open>C35. A validated operation ends in a response: when \<open>validate\<close> accepts a document with rules that contain those on
  the names of fragments, on fragment cycles and on input fields, and \<open>Executor.build\<close> makes an executor from it, then with
  enough fuel the execution ends in a response, whatever the resolvers return.\<close>

theorem validated_responds:
  assumes "validate cx rules = Inr []"
    and "{UniqueFragmentNamesRule [], NoFragmentCyclesRule no_search, UniqueInputFieldNamesRule [] []} \<subseteq> set rules"
    and "build n rq (document_definitions (vc_document cx)) = Inr (Inr ex)" and "standard_executor ex"
  shows "\<exists>N response w'. \<forall>n \<ge> N. execute_operation n (ex\<lparr>ex_fuel := n\<rparr>) serially w = Some (Inr response, w')"
proof -
  let ?document = "vc_document cx"
  from assms(1,2) have alone: "validate cx [UniqueFragmentNamesRule []] = Inr []" "validate cx [NoFragmentCyclesRule no_search] = Inr []"
    "validate cx [UniqueInputFieldNamesRule [] []] = Inr []"
    using validate_composed by blast+
  have built: "executes_document ex ?document" using assms(3) by (rule build_executes)
  have "acyclic_fragments (ex_fragments ex) (fragment_search.rank_of ?document)"
    using built alone(1,2) fragment_cycles_found unique_fragment_names_exact validated_fragments by blast
  moreover have "wf_fragment_bodies (ex_fragments ex)"
    unfolding wf_fragment_bodies_def
  proof (intro ballI)
    fix fragment s
    assume "fragment \<in> snd ` set (ex_fragments ex)" and s: "s \<in> set (fragment_selections fragment)"
    then obtain name where known: "(name, fragment) \<in> set (ex_fragments ex)" by auto
    from get_fragment_defined [OF executed_fragment [OF built known]]
    have "FragmentDefinition (fragment_definition fragment) \<in> set (document_definitions ?document)"
      by (simp add: fragment_defs_def fragments_in_set)
    from input_fields_validated(2) [OF alone(3) this] s show "all_selections wf_local s"
      by (simp add: all_in_set_selections )
  qed
  moreover have "all_in_set wf_local (op_selection_set (ex_operation ex))"
    by (rule input_fields_validated(1) [OF alone(3)]) (use built in \<open>simp add: executes_document_def\<close>)
  ultimately show ?thesis by (rule execution_responds [OF assms(4)])
qed

end
