(* ===== verification/Referenced_Fragments.thy ===== *)
theory Referenced_Fragments
  imports Validated_Execution
begin

text \<open>
  \<open>get_recursively_referenced_fragments\<close>, which the rules on variables and on unused fragments rely on, gives each fragment
  that an operation reaches once, and its loop never runs out of the rounds that the model gives it.
\<close>

text \<open>The names that a selection set refers to, directly or through fragments.\<close>

inductive referenced :: "document_node \<Rightarrow> selection_set_node \<Rightarrow> pystr \<Rightarrow> bool" for document ss where
  referenced_here: "name \<in> spread_names_in ss \<Longrightarrow> referenced document ss name"
| referenced_there: "referenced document ss name \<Longrightarrow> get_fragment document name = Some f \<Longrightarrow>
    name' \<in> spread_names_in (frag_selection_set f) \<Longrightarrow> referenced document ss name'"

definition fragments_named :: "document_node \<Rightarrow> pystr set \<Rightarrow> fragment_definition_node set" where
  "fragments_named document names = {f. \<exists>name \<in> names. get_fragment document name = Some f}"

lemma fragments_named_simps [simp]:
  "fragments_named document {} = {}"
  "fragments_named document (A \<union> B) = fragments_named document A \<union> fragments_named document B"
  "fragments_named document (insert name A) =
     (case get_fragment document name of Some f \<Rightarrow> insert f (fragments_named document A) | None \<Rightarrow> fragments_named document A)"
  by (auto simp: fragments_named_def split: option.split)

section \<open>One selection set\<close>

lemma reference_spreads_Cons:
  "reference_spreads document (spread # spreads) (names, fragments, nodes) =
     (if spread_target spread \<in> set names then reference_spreads document spreads (names, fragments, nodes)
      else case get_fragment document (spread_target spread) of
        None \<Rightarrow> reference_spreads document spreads (spread_target spread # names, fragments, nodes)
      | Some f \<Rightarrow> reference_spreads document spreads
          (spread_target spread # names, fragments @ [f], frag_selection_set f # nodes))"
  unfolding reference_spreads.simps spread_target_def Let_def ..

lemma reference_spreads_adds:
  assumes "reference_spreads document spreads (names, fragments, nodes) = (names', fragments', nodes')"
  shows "\<exists>new. fragments' = fragments @ new \<and> nodes' = rev (map frag_selection_set new) @ nodes
    \<and> set names' = set names \<union> spread_target ` set spreads
    \<and> set new = fragments_named document (spread_target ` set spreads - set names) \<and> distinct (map fragment_name new)"
  using assms
proof (induction spreads arbitrary: names fragments nodes)
  case (Cons spread spreads)
  note prem = Cons.prems [unfolded reference_spreads_Cons]
  let ?name = "spread_target spread"
  consider "?name \<in> set names" | "?name \<notin> set names" "get_fragment document ?name = None"
    | f where "?name \<notin> set names" "get_fragment document ?name = Some f" by blast
  then show ?case
  proof cases
    case 1
    with Cons.IH [of names fragments nodes] prem show ?thesis by (auto simp: insert_absorb insert_Diff_if)
  next
    case 2
    from 2 prem have "reference_spreads document spreads (?name # names, fragments, nodes) = (names', fragments', nodes')" by simp
    from Cons.IH [OF this] 2 have "\<exists>new. fragments' = fragments @ new \<and> nodes' = rev (map frag_selection_set new) @ nodes
        \<and> set names' = insert ?name (set names \<union> spread_target ` set spreads)
        \<and> set new = fragments_named document (spread_target ` set spreads - insert ?name (set names)) \<and> distinct (map fragment_name new)"
      by auto
    moreover have "fragments_named document (insert ?name (spread_target ` set spreads) - set names)
        = fragments_named document (spread_target ` set spreads - insert ?name (set names))"
      using 2 by (auto simp: fragments_named_def)
    ultimately show ?thesis by auto
  next
    case 3
    from 3 prem have "reference_spreads document spreads (?name # names, fragments @ [f], frag_selection_set f # nodes)
        = (names', fragments', nodes')" by simp
    from Cons.IH [OF this] obtain new where
      new: "fragments' = fragments @ f # new" "nodes' = rev (map frag_selection_set (f # new)) @ nodes"
      "set names' = insert ?name (set names \<union> spread_target ` set spreads)" "distinct (map fragment_name new)"
      and set_new: "set new = fragments_named document (spread_target ` set spreads - insert ?name (set names))" by auto
    have "fragment_name f \<notin> fragment_name ` set new"
      using 3 get_fragment_named unfolding set_new fragments_named_def by (fastforce simp: fragment_name_def)
    moreover have "insert f (set new) = fragments_named document (insert ?name (spread_target ` set spreads) - set names)"
      using 3 unfolding set_new by (auto simp: fragments_named_def)
    ultimately show ?thesis using new by (intro exI [of _ "f # new"]) auto
  qed
qed simp

section \<open>The loop\<close>

text \<open>What the loop keeps: everything collected is referenced, and what is not collected yet is below a set still to visit.\<close>

definition collecting ::
  "document_node \<Rightarrow> selection_set_node \<Rightarrow> pystr list \<times> fragment_definition_node list \<times> selection_set_node list \<Rightarrow> bool" where
  "collecting document ss = (\<lambda>(names, fragments, nodes).
     set fragments = fragments_named document (set names) \<and> distinct (map fragment_name fragments)
     \<and> (\<forall>name \<in> set names. referenced document ss name) \<and> set nodes \<subseteq> insert ss (frag_selection_set ` set fragments)
     \<and> (\<forall>node \<in> insert ss (frag_selection_set ` set fragments). node \<in> set nodes \<or> spread_names_in node \<subseteq> set names))"

lemma collecting_step:
  assumes "collecting document ss (names, fragments, node # nodes)"
    and "reference_spreads document (get_fragment_spreads node) (names, fragments, nodes) = (names', fragments', nodes')"
  shows "collecting document ss (names', fragments', nodes')"
    and "length nodes' + length fragments = length nodes + length fragments'"
proof -
  from reference_spreads_adds [OF assms(2)] obtain new where
    new: "fragments' = fragments @ new" "nodes' = rev (map frag_selection_set new) @ nodes"
      "set names' = set names \<union> spread_names_in node" "distinct (map fragment_name new)"
    and set_new: "set new = fragments_named document (spread_names_in node - set names)"
    by (auto simp: get_fragment_spreads_names)
  note old = assms(1) [unfolded collecting_def prod.case]
  from new show "length nodes' + length fragments = length nodes + length fragments'" by simp
  have below: "referenced document ss name" if "name \<in> spread_names_in node" for name
  proof -
    from old consider "node = ss" | f where "f \<in> set fragments" "node = frag_selection_set f" by auto
    then show ?thesis
    proof cases
      case 2
      with old obtain name' where "name' \<in> set names" "get_fragment document name' = Some f"
        by (auto simp: fragments_named_def)
      with old 2 that show ?thesis by (blast intro: referenced_there)
    qed (use that referenced_here in simp)
  qed
  have members: "set fragments' = fragments_named document (set names')"
  proof -
    have "fragments_named document (set names') = fragments_named document (set names) \<union> set new"
      unfolding set_new new(3) by (auto simp: fragments_named_def)
    with old new(1) show ?thesis by simp
  qed
  have known: "f \<in> set fragments \<Longrightarrow> fragment_name f \<in> set names" for f
    using old get_fragment_named by (auto simp: fragments_named_def fragment_name_def)
  have fresh: "f \<in> set new \<Longrightarrow> fragment_name f \<notin> set names" for f
    using get_fragment_named unfolding set_new by (auto simp: fragments_named_def fragment_name_def)
  have distinct: "distinct (map fragment_name fragments')"
  proof -
    have "distinct (map fragment_name fragments)" using old by simp
    moreover have "fragment_name ` set fragments \<inter> fragment_name ` set new = {}"
    proof (rule equals0I)
      fix name assume "name \<in> fragment_name ` set fragments \<inter> fragment_name ` set new"
      then obtain f g where "f \<in> set fragments" "name = fragment_name f" "g \<in> set new" "name = fragment_name g" by blast
      with known [of f] fresh [of g] show False by simp
    qed
    ultimately show ?thesis using new(1,4) by simp
  qed
  have closed: "node' \<in> set nodes' \<or> spread_names_in node' \<subseteq> set names'"
    if "node' \<in> insert ss (frag_selection_set ` set fragments')" for node'
  proof (cases "node' \<in> frag_selection_set ` set new")
    case False
    with that new(1) have "node' \<in> insert ss (frag_selection_set ` set fragments)" by auto
    with old have "node' \<in> set (node # nodes) \<or> spread_names_in node' \<subseteq> set names" by blast
    with new(2,3) show ?thesis by auto
  qed (use new(2) in simp)
  have "set nodes' \<subseteq> insert ss (frag_selection_set ` set fragments')" using old new(1,2) by auto
  moreover have "\<forall>name \<in> set names'. referenced document ss name"
  proof
    fix name assume "name \<in> set names'"
    then consider "name \<in> set names" | "name \<in> spread_names_in node" using new(3) by auto
    then show "referenced document ss name" using old below by cases simp_all
  qed
  ultimately show "collecting document ss (names', fragments', nodes')"
    unfolding collecting_def prod.case using members distinct closed by simp
qed

lemma collecting_bound:
  assumes "collecting document ss (names, fragments, nodes)"
  shows "length fragments \<le> length (document_fragments document)"
proof -
  have "fragment_name ` set fragments \<subseteq> fst ` set (document_fragments document)"
  proof clarify
    fix f assume "f \<in> set fragments"
    with assms obtain name where name: "get_fragment document name = Some f" by (auto simp: collecting_def fragments_named_def)
    then have "(name, f) \<in> set (document_fragments document)" unfolding get_fragment_def by (rule map_of_SomeD)
    with get_fragment_named [OF name] show "fragment_name f \<in> fst ` set (document_fragments document)"
      by (auto simp: fragment_name_def intro: rev_image_eqI)
  qed
  then have "card (set (map fragment_name fragments)) \<le> card (fst ` set (document_fragments document))"
    by (simp add: card_mono)
  also have "\<dots> \<le> length (document_fragments document)" by (metis card_length length_map list.set_map)
  finally have "card (set (map fragment_name fragments)) \<le> length (document_fragments document)" .
  moreover have "distinct (map fragment_name fragments)" using assms by (simp add: collecting_def)
  ultimately show ?thesis by (metis distinct_card length_map)
qed

lemma references_loop_returns:
  assumes "collecting document ss (names, fragments, nodes)"
    and "length nodes + length (document_fragments document) \<le> n + length fragments"
  shows "\<exists>names' fragments'. references_loop n document (names, fragments, nodes) = Some fragments'
    \<and> collecting document ss (names', fragments', [])"
  using assms
proof (induction n arbitrary: names fragments nodes)
  case 0
  with collecting_bound [OF 0(1)] show ?case by (cases nodes) auto
next
  case (Suc n)
  show ?case
  proof (cases nodes)
    case (Cons node rest)
    obtain names' fragments' nodes' where
      step: "reference_spreads document (get_fragment_spreads node) (names, fragments, rest) = (names', fragments', nodes')"
      by (metis prod_cases3)
    note kept = collecting_step [OF Suc.prems(1) [unfolded Cons] step]
    have "length nodes' + length (document_fragments document) \<le> n + length fragments'"
      using kept(2) Suc.prems(2) by (simp add: Cons)
    with Suc.IH [OF kept(1)] step show ?thesis by (simp add: Cons)
  qed (use Suc.prems in auto)
qed

text \<open>C40. \<open>get_recursively_referenced_fragments\<close> gives the definitions of exactly those names that the operation refers to,
  directly or through fragments, each once; on the way it visits no more selection sets than there are fragments and one.\<close>

theorem referenced_fragments_exact:
  "\<exists>fragments. references_loop (Suc (length (document_fragments document))) document ([], [], [op_selection_set operation]) = Some fragments
     \<and> get_recursively_referenced_fragments document operation = fragments
     \<and> set fragments = fragments_named document (Collect (referenced document (op_selection_set operation)))
     \<and> distinct (map (\<lambda>f. name_value (frag_name f)) fragments)"
proof -
  let ?ss = "op_selection_set operation"
  have "collecting document ?ss ([], [], [?ss])" by (simp add: collecting_def)
  from references_loop_returns [OF this, of "Suc (length (document_fragments document))"] obtain names fragments where
    loop: "references_loop (Suc (length (document_fragments document))) document ([], [], [?ss]) = Some fragments"
    and collected: "collecting document ?ss (names, fragments, [])" by (auto simp del: references_loop.simps)
  have "name \<in> set names" if "referenced document ?ss name" for name
    using that
  proof induction
    case (referenced_here name)
    with collected show ?case by (auto simp: collecting_def)
  next
    case (referenced_there name f name')
    then have "f \<in> set fragments" using collected by (auto simp: collecting_def fragments_named_def)
    with collected referenced_there(3) show ?case by (auto simp: collecting_def)
  qed
  with collected have "set names = Collect (referenced document ?ss)" by (auto simp: collecting_def)
  with loop collected show ?thesis
    by (simp add: get_recursively_referenced_fragments_def collecting_def fragment_name_def [abs_def] del: references_loop.simps)
qed

end
