(* ===== verification/Fields_Defined.thy ===== *)
theory Fields_Defined
  imports Fragment_Cycles
begin

text \<open>
  \<open>FieldsOnCorrectTypeRule\<close>: the stacks of \<open>TypeInfo\<close> give every selection the type that it is in, so the rule is a check of
  the fields of a selection set against its type.
\<close>

section \<open>The scope of a selection set\<close>

text \<open>The composite type with a name, and the type that a selection set is in, by the top of the stack of types.\<close>

definition scope_for :: "'w types \<Rightarrow> pystr \<Rightarrow> pystr option" where
  "scope_for types name = (if is_composite_name types name then Some name else None)"

definition ti_scope :: "'w validation_context \<Rightarrow> 'w type_info \<Rightarrow> pystr option" where
  "ti_scope cx ti = (case get_type_of ti of Some t \<Rightarrow> scope_for (vc_types cx) (get_named_type t) | None \<Rightarrow> None)"

definition field_scope :: "'w validation_context \<Rightarrow> pystr option \<Rightarrow> pystr \<Rightarrow> pystr option" where
  "field_scope cx scope name =
     (case Option.bind scope (\<lambda>parent. GraphQLSchema_get_field (vc_meta cx) (vc_schema cx) parent name) of
        Some fd \<Rightarrow> scope_for (vc_types cx) (get_named_type (fld_type fd))
      | None \<Rightarrow> None)"

definition condition_scope :: "'w validation_context \<Rightarrow> named_type_node \<Rightarrow> pystr option" where
  "condition_scope cx t = scope_for (vc_types cx) (name_value (named_type_name t))"

definition operation_scope :: "'w validation_context \<Rightarrow> operation_type \<Rightarrow> pystr option" where
  "operation_scope cx operation =
     (case get_root_type (vc_schema cx) operation of
        Some name \<Rightarrow> (case vc_types cx name of Some (ObjectType t) \<Rightarrow> Some name | _ \<Rightarrow> None)
      | None \<Rightarrow> None)"

text \<open>Every field below a known type is defined on it.\<close>

fun fields_defined :: "'w validation_context \<Rightarrow> pystr option \<Rightarrow> selection_node \<Rightarrow> bool"
and fields_defined_in :: "'w validation_context \<Rightarrow> pystr option \<Rightarrow> selection_set_node \<Rightarrow> bool" where
  "fields_defined cx scope (FieldNode name alias_node arguments directives selection_set loc) \<longleftrightarrow>
     (\<forall>parent. scope = Some parent \<longrightarrow> GraphQLSchema_get_field (vc_meta cx) (vc_schema cx) parent (name_value name) \<noteq> None) \<and>
     (case selection_set of Some ss \<Rightarrow> fields_defined_in cx (field_scope cx scope (name_value name)) ss | None \<Rightarrow> True)"
| "fields_defined cx scope (FragmentSpreadNode name arguments directives loc) \<longleftrightarrow> True"
| "fields_defined cx scope (InlineFragmentNode selection_set type_condition directives loc) \<longleftrightarrow>
     fields_defined_in cx (case type_condition of Some t \<Rightarrow> condition_scope cx t | None \<Rightarrow> scope) selection_set"
| "fields_defined_in cx scope (SelectionSetNode nodes loc) \<longleftrightarrow> (\<forall>s \<in> set nodes. fields_defined cx scope s)"

section \<open>The rule\<close>

lemma composite_output: "is_composite_name types (get_named_type t) \<Longrightarrow> is_output_type types t"
  by (induction t)
    (auto simp: is_composite_name_def is_composite_named_case split: option.splits named_type.splits)

lemma scope_if_output:
  "(case if_output types t of Some u \<Rightarrow> scope_for types (get_named_type u) | None \<Rightarrow> None) =
   (case t of Some u \<Rightarrow> scope_for types (get_named_type u) | None \<Rightarrow> None)"
  using composite_output by (auto simp: if_output_def scope_for_def split: option.split)

lemma stacks_parts:
  "stacks_of ti = stacks_of ti' \<Longrightarrow> get_type_of ti = get_type_of ti'"
  "stacks_of ti = stacks_of ti' \<Longrightarrow> get_parent_type ti = get_parent_type ti'"
  "stacks_of ti = stacks_of ti' \<Longrightarrow> ti_scope cx ti = ti_scope cx ti'"
  by (simp_all add: stacks_of_def get_type_of_def get_parent_type_def ti_scope_def)

lemma type_from_name: "type_from_ast types (NamedType t) =
    (if types (name_value (named_type_name t)) = None then None else Some (GNamed (name_value (named_type_name t))))"
  by (simp split: option.split)

lemma entered_scopes:
  "get_parent_type (enter_selection_set (vc_schema cx) ti) = ti_scope cx ti"
  "ti_scope cx (enter_field (vc_meta cx) (vc_schema cx) name ti) = field_scope cx (get_parent_type ti) name"
  "ti_scope cx (enter_inline_fragment (vc_schema cx) (Some t) ti) = condition_scope cx t"
  "ti_scope cx (enter_inline_fragment (vc_schema cx) None ti) = ti_scope cx ti"
  "ti_scope cx (enter_operation_definition (vc_schema cx) operation ti) = operation_scope cx operation"
  "ti_scope cx (enter_selection_set (vc_schema cx) ti) = ti_scope cx ti"
  by (simp_all add: enter_selection_set_def enter_field_def enter_inline_fragment_def enter_operation_definition_def
      ti_scope_def get_type_of_def get_parent_type_def scope_if_output Let_def)
   (auto simp: scope_for_def field_scope_def condition_scope_def operation_scope_def is_composite_name_def is_composite_named_case
      split: option.splits named_type.splits)

lemma fields_rule_ignores:
  assumes "\<And>name alias_node arguments directives ss loc. node \<noteq> SelectionN (FieldNode name alias_node arguments directives ss loc)"
  shows "ignores cx FieldsOnCorrectTypeRule node"
  using assms by (auto simp: ignores_def rule_enter_def rule_leave_def split: ast_node.splits selection_node.splits)

text \<open>Kids in front of a tree in which the rule has nothing to do.\<close>

lemma passes_append:
  "passes_kids cx parents (append_kids ks ks') ti r r' \<longleftrightarrow>
     (\<exists>r1. passes_kids cx parents ks ti r r1 \<and> passes_kids cx parents ks' (ti_kids cx ks ti) r1 r')"
  by (induction ks ks' arbitrary: ti r rule: append_kids.induct) (auto simp del: split_paired_Ex)

lemma passes_append_ignored:
  assumes "\<forall>node \<in> kids_nodes ks. ignores cx rule node"
  shows "passes_kids cx parents (append_kids ks ks') ti (rule, False) r' \<longleftrightarrow>
    passes_kids cx parents ks' (ti_kids cx ks ti) (rule, False) r'"
  unfolding passes_append passes_ignored(2) [OF assms] by (simp del: split_paired_Ex)

lemma no_selection_nodes:
  "SelectionN s \<notin> tree_nodes (type_tree t)"
  "SelectionN s \<notin> tree_nodes (value_tree v)"
  "SelectionN s \<notin> tree_nodes (object_field_tree f)"
proof -
  show "SelectionN s \<notin> tree_nodes (type_tree t)" by (induction t) (auto simp: named_type_tree_def name_tree_def)
  show "SelectionN s \<notin> tree_nodes (value_tree v)" "SelectionN s \<notin> tree_nodes (object_field_tree f)"
    by (induction v and f) (auto simp: variable_tree_def name_tree_def)
qed

lemma no_selection_parts:
  "SelectionN s \<notin> tree_nodes (name_tree n)"
  "SelectionN s \<notin> tree_nodes (named_type_tree nt)"
  "SelectionN s \<notin> tree_nodes (argument_tree a)"
  "SelectionN s \<notin> tree_nodes (fragment_argument_tree fa)"
  "SelectionN s \<notin> tree_nodes (directive_tree d)"
  "SelectionN s \<notin> tree_nodes (variable_definition_tree vd)"
  "SelectionN s \<notin> tree_nodes (operation_type_tree ot)"
  "SelectionN s \<notin> tree_nodes (input_value_tree iv)"
  "SelectionN s \<notin> tree_nodes (field_definition_tree fd)"
  "SelectionN s \<notin> tree_nodes (enum_value_tree ev)"
  using no_selection_nodes
  by (auto simp: name_tree_def named_type_tree_def argument_tree_def fragment_argument_tree_def directive_tree_def
      variable_definition_tree_def variable_tree_def operation_type_tree_def input_value_tree_def field_definition_tree_def
      enum_value_tree_def split: option.splits)

lemma no_selection_definition: "\<not> is_executable d \<Longrightarrow> SelectionN s \<notin> tree_nodes (definition_tree d)"
  using no_selection_parts by (cases d) (auto simp: definition_tree_def split: option.splits)

lemma without_selections:
  assumes "\<And>s. SelectionN s \<notin> nodes" and "node \<in> nodes"
  shows "ignores cx FieldsOnCorrectTypeRule node"
  by (rule fields_rule_ignores) (use assms in blast)

lemmas ignored_parts = without_selections [OF no_selection_parts(1)] without_selections [OF no_selection_parts(2)]
  without_selections [OF no_selection_parts(3)] without_selections [OF no_selection_parts(4)]
  without_selections [OF no_selection_parts(5)] without_selections [OF no_selection_parts(6)]

lemma kids_without_selections:
  "\<forall>node \<in> kids_nodes (optional name_tree alias_node). ignores cx FieldsOnCorrectTypeRule node"
  "\<forall>node \<in> kids_nodes (one (name_tree n)). ignores cx FieldsOnCorrectTypeRule node"
  "\<forall>node \<in> kids_nodes (optional_tuple argument_tree arguments). ignores cx FieldsOnCorrectTypeRule node"
  "\<forall>node \<in> kids_nodes (optional_tuple fragment_argument_tree fragment_arguments). ignores cx FieldsOnCorrectTypeRule node"
  "\<forall>node \<in> kids_nodes (optional_tuple directive_tree directives). ignores cx FieldsOnCorrectTypeRule node"
  "\<forall>node \<in> kids_nodes (optional named_type_tree type_condition). ignores cx FieldsOnCorrectTypeRule node"
  "\<forall>node \<in> kids_nodes (optional_tuple variable_definition_tree variable_definitions). ignores cx FieldsOnCorrectTypeRule node"
  "\<forall>node \<in> kids_nodes (one (named_type_tree nt)). ignores cx FieldsOnCorrectTypeRule node"
  by (auto simp: ignored_parts split: option.splits)

text \<open>The parts of a node that the rule leaves unreported.\<close>

lemma fields_rule_enters:
  assumes "\<And>name alias_node arguments directives ss loc. node \<noteq> SelectionN (FieldNode name alias_node arguments directives ss loc)"
  shows "enters cx ti parents node (FieldsOnCorrectTypeRule, False) r \<longleftrightarrow> r = (FieldsOnCorrectTypeRule, False)"
  using fields_rule_ignores [OF assms, of cx] by (cases r) (auto simp: enters_def ignores_def quiet_def)

lemma fields_rule_enters_field:
  "enters cx ti parents (SelectionN (FieldNode name alias_node arguments directives ss loc)) (FieldsOnCorrectTypeRule, False) r \<longleftrightarrow>
     r = (FieldsOnCorrectTypeRule, False) \<and> (get_parent_type ti = None \<or> get_field_def_of ti \<noteq> None)"
  by (cases r) (auto simp: enters_def rule_enter_def reporting_def field_reports_def error_if_def)

lemma fields_rule_leaves:
  "leaves cx ti node False (FieldsOnCorrectTypeRule, False) r \<longleftrightarrow> r = (FieldsOnCorrectTypeRule, False)"
  by (cases r) (auto simp: leaves_def rule_leave_def)

lemma enter_field_parts:
  "get_parent_type (enter_field meta schema name ti) = get_parent_type ti"
  "get_field_def_of (enter_field meta schema name ti) =
     (case get_parent_type ti of Some parent \<Rightarrow> GraphQLSchema_get_field meta schema parent name | None \<Rightarrow> None)"
  by (simp_all add: enter_field_def Let_def get_parent_type_def get_field_def_of_def)

lemma ti_kids_scope: "ti_scope cx (ti_kids cx ks ti) = ti_scope cx ti" "ti_scope cx (ti_tree cx t ti) = ti_scope cx ti"
  "get_parent_type (ti_kids cx ks ti) = get_parent_type ti" "get_parent_type (ti_tree cx t ti) = get_parent_type ti"
  using ti_balanced stacks_parts by metis+

lemma all_kids_simps [simp]: "all_kids [] = NoKids" "all_kids (ks # kss) = append_kids ks (all_kids kss)"
  by (simp_all add: all_kids_def)

lemma append_NoKids [simp]: "append_kids ks NoKids = ks"
  by (induction ks NoKids rule: append_kids.induct) auto

abbreviation fields_rule :: "rule \<times> bool" where
  "fields_rule \<equiv> (FieldsOnCorrectTypeRule, False)"

lemma passes_one: "passes_kids cx parents (one t) ti r r' \<longleftrightarrow> passes_tree cx parents t ti r r'"
  by (simp add: one_def del: split_paired_Ex)

lemma fields_rule_selections:
  "get_parent_type ti = ti_scope cx ti \<Longrightarrow>
     passes_tree cx parents (selection_tree s) ti fields_rule r' \<longleftrightarrow> r' = fields_rule \<and> fields_defined cx (ti_scope cx ti) s"
  "passes_tree cx parents (selection_set_tree ss) ti fields_rule r' \<longleftrightarrow> r' = fields_rule \<and> fields_defined_in cx (ti_scope cx ti) ss"
proof (induction s and ss arbitrary: ti parents r' and ti parents r')
  case (FieldNode name alias_node arguments directives selection_set loc)
  let ?ti1 = "enter_field (vc_meta cx) (vc_schema cx) (name_value name) ti"
  have scope: "ti_scope cx ?ti1 = field_scope cx (ti_scope cx ti) (name_value name)"
    using FieldNode.prems by (simp add: entered_scopes)
  have kids: "passes_kids cx ps (case selection_set of Some ss \<Rightarrow> one (selection_set_tree ss) | None \<Rightarrow> NoKids) ti2 fields_rule r2 \<longleftrightarrow>
      r2 = fields_rule \<and> (case selection_set of Some ss \<Rightarrow> fields_defined_in cx (ti_scope cx ti2) ss | None \<Rightarrow> True)" for ps ti2 r2
    using FieldNode.IH by (cases selection_set) (auto simp: passes_one)
  show ?case
    using FieldNode.prems
    by (auto simp: Let_def fields_rule_enters_field fields_rule_leaves passes_append_ignored kids_without_selections kids
        TypeInfo_enter_def enter_field_parts ti_kids_scope scope simp del: split_paired_Ex split: option.splits)
next
  case (FragmentSpreadNode name arguments directives loc)
  have "passes_kids cx ps (all_kids [one (name_tree name), optional_tuple fragment_argument_tree arguments,
      optional_tuple directive_tree directives]) ti2 fields_rule r2 \<longleftrightarrow> r2 = fields_rule" for ps ti2 r2
    by (simp add: passes_append_ignored kids_without_selections passes_ignored(2) del: split_paired_Ex)
  then show ?case
    by (auto simp: Let_def fields_rule_enters fields_rule_leaves simp del: split_paired_Ex all_kids_simps)
next
  case (InlineFragmentNode selection_set type_condition directives loc)
  let ?ti1 = "enter_inline_fragment (vc_schema cx) type_condition ti"
  have scope: "ti_scope cx ?ti1 = (case type_condition of Some t \<Rightarrow> condition_scope cx t | None \<Rightarrow> ti_scope cx ti)"
    by (simp add: entered_scopes split: option.split)
  have kids: "passes_kids cx ps (all_kids [optional named_type_tree type_condition, optional_tuple directive_tree directives,
      one (selection_set_tree selection_set)]) ti2 fields_rule r2 \<longleftrightarrow>
      r2 = fields_rule \<and> fields_defined_in cx (ti_scope cx ti2) selection_set" for ps ti2 r2
    by (simp add: passes_append_ignored kids_without_selections passes_one InlineFragmentNode.IH ti_kids_scope)
  show ?case
    by (auto simp: Let_def fields_rule_enters fields_rule_leaves kids TypeInfo_enter_def scope simp del: split_paired_Ex all_kids_simps)
next
  case (SelectionSetNode nodes loc)
  let ?ti1 = "enter_selection_set (vc_schema cx) ti"
  have kids: "passes_kids cx ps (tuple_of (map selection_tree ns)) ti2 fields_rule r2 \<longleftrightarrow>
      r2 = fields_rule \<and> (\<forall>s \<in> set ns. fields_defined cx (ti_scope cx ti2) s)"
    if "set ns \<subseteq> set nodes" "get_parent_type ti2 = ti_scope cx ti2" for ns ps ti2 r2
    using that
  proof (induction ns arbitrary: ti2)
    case (Cons s ns)
    then show ?case using SelectionSetNode.IH [of s ti2] Cons.IH [of "ti_tree cx (selection_tree s) ti2"]
      by (auto simp: ti_kids_scope simp del: split_paired_Ex)
  qed simp
  have "get_parent_type ?ti1 = ti_scope cx ?ti1" by (simp add: entered_scopes)
  from kids [OF subset_refl this] show ?case
    by (auto simp: Let_def fields_rule_enters fields_rule_leaves TypeInfo_enter_def entered_scopes simp del: split_paired_Ex)
qed

text \<open>Definitions.\<close>

definition fields_step :: "'w validation_context \<Rightarrow> definition_node \<Rightarrow> rule \<Rightarrow> rule option" where
  "fields_step cx d rule =
     (if (case d of
            OperationDefinition op \<Rightarrow> fields_defined_in cx (operation_scope cx (op_operation op)) (op_selection_set op)
          | FragmentDefinition f \<Rightarrow> fields_defined_in cx (condition_scope cx (frag_type_condition f)) (frag_selection_set f)
          | _ \<Rightarrow> True)
      then Some rule else None)"

lemma fields_rule_definitions:
  "passes_tree cx parents (definition_tree d) ti fields_rule r' \<longleftrightarrow>
     (\<exists>rule'. fields_step cx d FieldsOnCorrectTypeRule = Some rule' \<and> r' = (rule', False))"
proof (cases "is_executable d")
  case True
  then consider f where "d = FragmentDefinition f" | op where "d = OperationDefinition op" by (cases d) auto
  then show ?thesis
  proof cases
    case 1
    let ?ti1 = "enter_inline_fragment (vc_schema cx) (Some (frag_type_condition f)) ti"
    have "passes_kids cx ps (all_kids [one (name_tree (frag_name f)), optional_tuple variable_definition_tree (frag_variable_definitions f),
        one (named_type_tree (frag_type_condition f)), optional_tuple directive_tree (frag_directives f),
        one (selection_set_tree (frag_selection_set f))]) ti2 fields_rule r2 \<longleftrightarrow>
        r2 = fields_rule \<and> fields_defined_in cx (ti_scope cx ti2) (frag_selection_set f)" for ps ti2 r2
      by (simp add: passes_append_ignored kids_without_selections passes_one fields_rule_selections ti_kids_scope)
    then show ?thesis
      by (auto simp: 1 definition_tree_def fragment_tree_def Let_def fields_rule_enters fields_rule_leaves fields_step_def
          TypeInfo_enter_def entered_scopes simp del: split_paired_Ex all_kids_simps)
  next
    case 2
    have "passes_kids cx ps (all_kids [optional name_tree (op_name op), optional_tuple variable_definition_tree (op_variable_definitions op),
        optional_tuple directive_tree (op_directives op), one (selection_set_tree (op_selection_set op))]) ti2 fields_rule r2 \<longleftrightarrow>
        r2 = fields_rule \<and> fields_defined_in cx (ti_scope cx ti2) (op_selection_set op)" for ps ti2 r2
      by (simp add: passes_append_ignored kids_without_selections passes_one fields_rule_selections ti_kids_scope)
    then show ?thesis
      by (auto simp: 2 definition_tree_def operation_tree_def Let_def fields_rule_enters fields_rule_leaves fields_step_def
          TypeInfo_enter_def entered_scopes simp del: split_paired_Ex all_kids_simps)
  qed
next
  case False
  have "\<forall>node \<in> tree_nodes (definition_tree d). ignores cx FieldsOnCorrectTypeRule node"
    using without_selections [OF no_selection_definition [OF False]] by blast
  from passes_ignored(1) [OF this, of parents ti r'] False show ?thesis by (cases d) (auto simp: fields_step_def)
qed

lemma fields_found:
  "validate cx [FieldsOnCorrectTypeRule] = Inr [] \<longleftrightarrow>
     (\<forall>op. OperationDefinition op \<in> set (document_definitions (vc_document cx)) \<longrightarrow>
        fields_defined_in cx (operation_scope cx (op_operation op)) (op_selection_set op)) \<and>
     (\<forall>f. FragmentDefinition f \<in> set (document_definitions (vc_document cx)) \<longrightarrow>
        fields_defined_in cx (condition_scope cx (frag_type_condition f)) (frag_selection_set f))"
proof -
  let ?ok = "\<lambda>rule. rule = FieldsOnCorrectTypeRule"
  have all: "passes_definitions (fields_step cx) ds FieldsOnCorrectTypeRule \<noteq> None \<longleftrightarrow>
      (\<forall>d \<in> set ds. fields_step cx d FieldsOnCorrectTypeRule \<noteq> None)" for ds
    by (induction ds) (auto simp: fields_step_def)
  have "(\<exists>r'. passes_tree cx [] (document_tree (vc_document cx)) TypeInfo_init (FieldsOnCorrectTypeRule, False) r') \<longleftrightarrow>
      passes_definitions (fields_step cx) (document_definitions (vc_document cx)) FieldsOnCorrectTypeRule \<noteq> None"
  proof (rule passes_document [of ?ok])
    show "?ok rule \<Longrightarrow> fields_step cx d rule = Some rule' \<Longrightarrow> ?ok rule'" for d rule rule'
      by (auto simp: fields_step_def split: if_splits)
    show "?ok rule \<Longrightarrow> ignores cx rule (DocumentN (vc_document cx))" for rule
      by (auto simp: ignores_def rule_enter_def rule_leave_def)
  qed (simp_all add: fields_rule_definitions del: split_paired_Ex)
  then show ?thesis
    unfolding all by (auto simp: validate_alone fields_step_def simp del: split_paired_Ex split: definition_node.splits)
qed

text \<open>C36. \<open>FieldsOnCorrectTypeRule\<close> with \<open>TypeInfo\<close> accepts a document exactly when every field of its operations and
  fragments is defined on the type that its selection set is in, wherever that type is known and composite.\<close>

theorem fields_on_correct_type_exact:
  "validate cx [FieldsOnCorrectTypeRule] = Inr [] \<longleftrightarrow>
     (\<forall>op. OperationDefinition op \<in> set (document_definitions (vc_document cx)) \<longrightarrow>
        fields_defined_in cx (operation_scope cx (op_operation op)) (op_selection_set op)) \<and>
     (\<forall>f. FragmentDefinition f \<in> set (document_definitions (vc_document cx)) \<longrightarrow>
        fields_defined_in cx (condition_scope cx (frag_type_condition f)) (frag_selection_set f))"
  by (rule fields_found)

end
