(* ===== verification/Schema_Validation.thy ===== *)
theory Schema_Validation
  imports Input_Validation Type_Facts Cycle_Search Collect_Fields
begin

text \<open>
  The validation of schemas (\<open>type/validate.py\<close>).  A report is the fixed part of the message and the names that stand in it;
  the nodes of definitions are left out.  A schema of the model has types, fields and directives of the right classes, so
  the checks for other Python objects are not needed.
\<close>

type_synonym schema_report = "pystr \<times> pystr list"

type_synonym schema_reports = "py_error + schema_report list"

definition report_error :: "string \<Rightarrow> pystr list \<Rightarrow> schema_report" where
  "report_error message names = (str message, names)"

definition report_if :: "bool \<Rightarrow> string \<Rightarrow> pystr list \<Rightarrow> schema_report list" where
  "report_if b message names = (if b then [report_error message names] else [])"

text \<open>Reports one after the other; an exception ends the validation.\<close>

fun all_reports :: "schema_reports list \<Rightarrow> schema_reports" where
  "all_reports [] = Inr []"
| "all_reports (r # rs) = bind_result r (\<lambda>es. bind_result (all_reports rs) (\<lambda>es'. Inr (es @ es')))"

section \<open>Names and default values\<close>

definition validate_name :: "pystr \<Rightarrow> schema_report list" where
  "validate_name name = report_if (startswith name (str ''__'')) ''Name must not begin with __'' [name]"

text \<open>An exception of \<open>uncoerce_default_value\<close> is ignored.\<close>

function uncoerce_default_value :: "'w types \<Rightarrow> py_value \<Rightarrow> gtype \<Rightarrow> py_error + py_value" where
  "uncoerce_default_value types v t =
     (case t of
        GNonNull t' \<Rightarrow> uncoerce_default_value types v t'
      | GList t' \<Rightarrow>
          (case v of
             PNone \<Rightarrow> Inr PNone
           | PList vs \<Rightarrow> bind_result (collect_results (map (\<lambda>x. uncoerce_default_value types x t') vs)) (\<lambda>ws. Inr (PList ws))
           | _ \<Rightarrow> bind_result (uncoerce_default_value types v t') (\<lambda>w. Inr (PList [w])))
      | GNamed name \<Rightarrow>
          if v = PNone then Inr PNone
          else (case types name of
              Some (InputObjectType io) \<Rightarrow>
                (case v of
                   PDict d \<Rightarrow>
                     bind_result (collect_results (map (\<lambda>(k, x). case map_of (io_fields io) k of
                         None \<Rightarrow> Inl (KeyError k)
                       | Some field \<Rightarrow> bind_result (uncoerce_default_value types x (iv_type field)) (\<lambda>w. Inr (k, w))) d))
                       (\<lambda>d. Inr (PDict d))
                 | _ \<Rightarrow> Inl (TypeError (str ''Expected value to be an object'')))
            | Some (ScalarType s) \<Rightarrow> sc_coerce_output_value s v
            | Some (EnumType e) \<Rightarrow> enum_coerce_output_value e v
            | _ \<Rightarrow> Inl (TypeError (str ''Expected type to be a leaf type''))))"
  by pat_completeness auto
termination
  by (relation "measures [\<lambda>(types, v, t). size v, \<lambda>(types, v, t). size t]")
     (auto intro: size_list_item size_dict_item)

declare uncoerce_default_value.simps [simp del]

definition validate_default_value :: "'w env \<Rightarrow> input_value \<Rightarrow> pystr list \<Rightarrow> schema_reports" where
  "validate_default_value E iv names =
     (case iv_default iv of
        None \<Rightarrow> Inr []
      | Some default_input \<Rightarrow>
          bind_result (validate_default_input E default_input (iv_type iv)) (\<lambda>errors.
            let original = map (\<lambda>(error, path). report_error ''The default value is invalid'' names) errors in
            if errors = [] then Inr []
            else case default_input of
                DefaultLiteral node \<Rightarrow> Inr original
              | DefaultValue v \<Rightarrow>
                  (case bind_result (uncoerce_default_value (env_types E) v (iv_type iv)) (\<lambda>w.
                      validate_input_value E w (iv_type iv) []) of
                     Inr [] \<Rightarrow> Inr [report_error ''The default value is invalid. Did you mean the uncoerced value?'' names]
                   | _ \<Rightarrow> Inr original)))"

text \<open>The checks that the arguments of directives and fields share.\<close>

definition validate_argument :: "'w env \<Rightarrow> pystr list \<Rightarrow> pystr \<times> input_value \<Rightarrow> schema_reports" where
  "validate_argument E owner = (\<lambda>(arg_name, arg).
     let names = owner @ [arg_name] in
     bind_result (validate_default_value E arg names) (\<lambda>default_errors. Inr
       (validate_name arg_name
        @ report_if (\<not> is_input_type (env_types E) (iv_type arg)) ''The type of the argument must be Input Type'' names
        @ report_if (is_required_input arg \<and> iv_deprecation_reason arg \<noteq> None) ''Required argument cannot be deprecated'' names
        @ default_errors)))"

section \<open>Root types and directives\<close>

definition operation_types_in_order :: "operation_type list" where
  "operation_types_in_order = [QUERY, MUTATION, SUBSCRIPTION]"

definition is_object_name :: "'w schema \<Rightarrow> pystr \<Rightarrow> bool" where
  "is_object_name schema name = (case get_type schema name of Some t \<Rightarrow> is_object_named t | None \<Rightarrow> False)"

definition validate_root_types :: "'w schema \<Rightarrow> schema_report list" where
  "validate_root_types schema =
     (let roots = concat (map (\<lambda>op. case get_root_type schema op of Some name \<Rightarrow> [name] | None \<Rightarrow> []) operation_types_in_order)
      in report_if (query_type schema = None) ''Query root type must be provided.'' []
         @ concat (map (\<lambda>name. report_if (\<not> is_object_name schema name) ''The root type must be Object type'' [name]) roots)
         @ concat (map (\<lambda>name. report_if (length (filter (\<lambda>n. n = name) roots) > 1) ''All root types must be different'' [name])
             (rev (remdups (rev (filter (is_object_name schema) roots))))))"

definition validate_directive :: "'w env \<Rightarrow> directive_def \<Rightarrow> schema_reports" where
  "validate_directive E d =
     bind_result (all_reports (map (validate_argument E [dir_name d]) (dir_args d))) (\<lambda>errors. Inr
       (validate_name (dir_name d)
        @ report_if (dir_locations d = []) ''The directive must include 1 or more locations.'' [dir_name d] @ errors))"

definition validate_directives :: "'w env \<Rightarrow> 'w schema \<Rightarrow> schema_reports" where
  "validate_directives E schema = all_reports (map (validate_directive E) (schema_directives schema))"

section \<open>Types\<close>

text \<open>The names of \<open>introspection_types\<close> (\<open>type/introspection.py\<close>).\<close>

definition introspection_types :: "pystr list" where
  "introspection_types = map str
     [''__Schema'', ''__Directive'', ''__DirectiveLocation'', ''__Type'', ''__Field'', ''__InputValue'', ''__EnumValue'', ''__TypeKind'']"

fun fields_of :: "'w named_type \<Rightarrow> (pystr \<times> 'w field) list" where
  "fields_of (ObjectType t) = obj_fields t"
| "fields_of (InterfaceType t) = if_fields t"
| "fields_of _ = []"

definition validate_field :: "'w env \<Rightarrow> pystr \<Rightarrow> pystr \<times> 'w field \<Rightarrow> schema_reports" where
  "validate_field E type_name = (\<lambda>(field_name, field).
     bind_result (all_reports (map (validate_argument E [type_name, field_name]) (fld_args field))) (\<lambda>errors. Inr
       (validate_name field_name
        @ report_if (\<not> is_output_type (env_types E) (fld_type field)) ''The type of the field must be Output Type'' [type_name, field_name]
        @ errors)))"

definition validate_fields :: "'w env \<Rightarrow> pystr \<Rightarrow> (pystr \<times> 'w field) list \<Rightarrow> schema_reports" where
  "validate_fields E type_name fds =
     bind_result (all_reports (map (validate_field E type_name) fds)) (\<lambda>errors.
       Inr (report_if (fds = []) ''Type must define one or more fields.'' [type_name] @ errors))"

text \<open>\<open>validate_type_implements_interface\<close>: for one field of the interface.\<close>

definition implements_argument ::
  "pystr list \<Rightarrow> (pystr \<times> input_value) list \<Rightarrow> pystr \<times> input_value \<Rightarrow> schema_report list" where
  "implements_argument names type_args = (\<lambda>(arg_name, iface_arg).
     case map_of type_args arg_name of
       None \<Rightarrow> [report_error ''Interface field argument expected but not provided'' (names @ [arg_name])]
     | Some type_arg \<Rightarrow>
         report_if (\<not> is_equal_type (iv_type iface_arg) (iv_type type_arg)) ''Interface field argument expects another type'' (names @ [arg_name]))"

definition implements_field ::
  "'w schema \<Rightarrow> pystr \<Rightarrow> pystr \<Rightarrow> (pystr \<times> 'w field) list \<Rightarrow> pystr \<times> 'w field \<Rightarrow> schema_report list" where
  "implements_field schema type_name iface_name type_fields = (\<lambda>(field_name, iface_field).
     let names = [type_name, iface_name, field_name] in
     case map_of type_fields field_name of
       None \<Rightarrow> [report_error ''Interface field expected but not provided'' names]
     | Some own_field \<Rightarrow>
         report_if (\<not> is_type_sub_type_of schema (fld_type own_field) (fld_type iface_field)) ''Interface field expects another type'' names
         @ concat (map (implements_argument names (fld_args own_field)) (fld_args iface_field))
         @ concat (map (\<lambda>(arg_name, type_arg). report_if (map_of (fld_args iface_field) arg_name = None \<and> is_required_input type_arg)
             ''Argument must not be required if not provided by the Interface field'' (names @ [arg_name])) (fld_args own_field))
         @ report_if (fld_deprecation_reason own_field \<noteq> None \<and> fld_deprecation_reason iface_field = None)
             ''Interface field is not deprecated, so the implementation field must not be deprecated.'' names)"

definition validate_type_implements_interface ::
  "'w schema \<Rightarrow> pystr \<Rightarrow> 'w named_type \<Rightarrow> pystr \<Rightarrow> 'w interface_type \<Rightarrow> schema_report list" where
  "validate_type_implements_interface schema type_name t iface_name iface =
     concat (map (implements_field schema type_name iface_name (fields_of t)) (if_fields iface))"

definition validate_type_implements_ancestors ::
  "pystr \<Rightarrow> 'w named_type \<Rightarrow> pystr \<Rightarrow> 'w interface_type \<Rightarrow> schema_report list" where
  "validate_type_implements_ancestors type_name t iface_name iface =
     concat (map (\<lambda>transitive. report_if (transitive \<notin> set (interfaces_of t))
         (if transitive = type_name then ''Type cannot implement the interface because it would create a circular reference.''
          else ''Type must implement the interface because it is implemented by an interface.'')
         [type_name, transitive, iface_name]) (if_interfaces iface))"

fun validate_interfaces_loop ::
  "'w schema \<Rightarrow> pystr \<Rightarrow> 'w named_type \<Rightarrow> pystr list \<Rightarrow> pystr set \<Rightarrow> schema_report list" where
  "validate_interfaces_loop schema type_name t [] iface_type_names = []"
| "validate_interfaces_loop schema type_name t (iface_name # rest) iface_type_names =
     (case get_type schema iface_name of
        Some (InterfaceType iface) \<Rightarrow>
          report_if (iface_name = type_name) ''Type cannot implement itself because it would create a circular reference.'' [type_name]
          @ (if iface_name \<in> iface_type_names
             then report_error ''Type can only implement the interface once.'' [type_name, iface_name]
               # validate_interfaces_loop schema type_name t rest iface_type_names
             else validate_type_implements_ancestors type_name t iface_name iface
               @ validate_type_implements_interface schema type_name t iface_name iface
               @ validate_interfaces_loop schema type_name t rest (insert iface_name iface_type_names))
      | _ \<Rightarrow> report_error ''Type must only implement Interface types'' [type_name, iface_name]
          # validate_interfaces_loop schema type_name t rest iface_type_names)"

definition validate_interfaces :: "'w schema \<Rightarrow> pystr \<Rightarrow> 'w named_type \<Rightarrow> schema_report list" where
  "validate_interfaces schema type_name t = validate_interfaces_loop schema type_name t (interfaces_of t) {}"

fun validate_members_loop :: "'w schema \<Rightarrow> pystr \<Rightarrow> pystr list \<Rightarrow> pystr set \<Rightarrow> schema_report list" where
  "validate_members_loop schema union_name [] included_type_names = []"
| "validate_members_loop schema union_name (member # rest) included_type_names =
     (if is_object_name schema member then
        if member \<in> included_type_names
        then report_error ''Union type can only include the type once.'' [union_name, member]
          # validate_members_loop schema union_name rest included_type_names
        else validate_members_loop schema union_name rest (insert member included_type_names)
      else report_error ''Union type can only include Object types'' [union_name, member]
        # validate_members_loop schema union_name rest included_type_names)"

definition validate_union_members :: "'w schema \<Rightarrow> pystr \<Rightarrow> 'w union_type \<Rightarrow> schema_report list" where
  "validate_union_members schema union_name t =
     report_if (un_types t = []) ''Union type must define one or more member types.'' [union_name]
     @ validate_members_loop schema union_name (un_types t) {}"

definition validate_enum_values :: "pystr \<Rightarrow> enum_type \<Rightarrow> schema_report list" where
  "validate_enum_values name t =
     report_if (en_values t = []) ''Enum type must define one or more values.'' [name]
     @ concat (map (\<lambda>(value_name, v). validate_name value_name) (en_values t))"

definition validate_one_of_input_object_field :: "pystr list \<Rightarrow> input_value \<Rightarrow> schema_report list" where
  "validate_one_of_input_object_field names field =
     report_if (is_non_null_type (iv_type field)) ''OneOf input field must be nullable.'' names
     @ report_if (iv_default field \<noteq> None \<or> iv_default_value field \<noteq> PUndefined) ''OneOf input field cannot have a default value.'' names"

definition validate_input_field :: "'w env \<Rightarrow> pystr \<Rightarrow> bool \<Rightarrow> pystr \<times> input_value \<Rightarrow> schema_reports" where
  "validate_input_field E type_name one_of = (\<lambda>(field_name, field).
     let names = [type_name, field_name] in
     bind_result (validate_default_value E field names) (\<lambda>default_errors. Inr
       (validate_name field_name
        @ report_if (\<not> is_input_type (env_types E) (iv_type field)) ''The type of the input field must be Input Type'' names
        @ report_if (is_required_input field \<and> iv_deprecation_reason field \<noteq> None) ''Required input field cannot be deprecated'' names
        @ default_errors
        @ (if one_of then validate_one_of_input_object_field names field else []))))"

definition validate_input_fields :: "'w env \<Rightarrow> pystr \<Rightarrow> input_object_type \<Rightarrow> schema_reports" where
  "validate_input_fields E type_name io =
     bind_result (all_reports (map (validate_input_field E type_name (io_is_one_of io)) (io_fields io))) (\<lambda>errors.
       Inr (report_if (io_fields io = []) ''Input Object type must define one or more fields.'' [type_name] @ errors))"

section \<open>Circular references\<close>

text \<open>
  \<open>InputObjectNonNullCircularRefsValidator\<close>: the edges of an input object are its fields of non-null input object types,
  as the names of the field and of the type; the fuel bounds the depth of the recursion.
\<close>

definition non_null_references :: "'w types \<Rightarrow> input_object_type \<Rightarrow> (pystr \<times> pystr) list" where
  "non_null_references types io =
     concat (map (\<lambda>(field_name, field). case iv_type field of
         GNonNull (GNamed target) \<Rightarrow> (case types target of Some (InputObjectType t) \<Rightarrow> [(field_name, target)] | _ \<Rightarrow> [])
       | _ \<Rightarrow> []) (io_fields io))"

fun detect_non_null_cycles ::
  "nat \<Rightarrow> 'w types \<Rightarrow> pystr \<Rightarrow> input_object_type \<Rightarrow> (pystr \<times> pystr) search \<Rightarrow> (pystr \<times> pystr) search option" where
  "detect_non_null_cycles 0 types name io s = None"
| "detect_non_null_cycles (Suc n) types name io s =
     (if name \<in> visited s then Some s
      else map_option (leave_node_of name)
        (search_edges snd
          (\<lambda>target s. case types target of
               Some (InputObjectType t) \<Rightarrow> detect_non_null_cycles n types target t s
             | _ \<Rightarrow> Some s)
          (non_null_references types io) (enter_node name s)))"

text \<open>
  \<open>InputObjectDefaultValueCircularRefsValidator\<close>: a field is known by its type and its name.  The three methods that call
  each other are one recursion over what they are called with.
\<close>

type_synonym field_key = "pystr \<times> pystr"

record default_search =
  visited_fields :: "field_key set"
  field_path :: "field_key list"
  field_path_index :: "field_key \<rightharpoonup> nat"
  default_cycles :: "(field_key \<times> field_key list) list"

definition no_default_search :: default_search where
  "no_default_search = \<lparr>visited_fields = {}, field_path = [], field_path_index = Map.empty, default_cycles = []\<rparr>"

datatype default_task = ValueCycle pystr input_object_type py_value | LiteralCycle pystr input_object_type value_node

fun fold_option :: "('x \<Rightarrow> 's \<Rightarrow> 's option) \<Rightarrow> 'x list \<Rightarrow> 's \<Rightarrow> 's option" where
  "fold_option f [] s = Some s"
| "fold_option f (x # xs) s = Option.bind (f x s) (fold_option f xs)"

definition detect_field_default_value_cycle ::
  "(default_task \<Rightarrow> default_search \<Rightarrow> default_search option) \<Rightarrow> input_value \<Rightarrow> pystr \<Rightarrow> input_object_type \<Rightarrow> field_key
    \<Rightarrow> default_search \<Rightarrow> default_search option" where
  "detect_field_default_value_cycle rec field type_name field_type key s =
     (case iv_default field of
        None \<Rightarrow> Some s
      | Some default_input \<Rightarrow>
          (case field_path_index s key of
             Some i \<Rightarrow> Some (s\<lparr>default_cycles := default_cycles s @ [(key, drop i (field_path s))]\<rparr>)
           | None \<Rightarrow>
               if key \<in> visited_fields s then Some s
               else map_option (\<lambda>s. s\<lparr>field_path := butlast (field_path s), field_path_index := (field_path_index s)(key := None)\<rparr>)
                 (rec (case default_input of
                      DefaultLiteral node \<Rightarrow> LiteralCycle type_name field_type node
                    | DefaultValue v \<Rightarrow> ValueCycle type_name field_type v)
                   (s\<lparr>visited_fields := insert key (visited_fields s), field_path := field_path s @ [key],
                      field_path_index := (field_path_index s)(key \<mapsto> Suc (length (field_path s)))\<rparr>))))"

text \<open>The loop over the fields of an input object; \<open>given\<close> is the task for a field that the value has.\<close>

definition detect_fields ::
  "(default_task \<Rightarrow> default_search \<Rightarrow> default_search option) \<Rightarrow> 'w types \<Rightarrow> pystr \<Rightarrow> input_object_type
    \<Rightarrow> (pystr \<Rightarrow> pystr \<Rightarrow> input_object_type \<Rightarrow> default_task option) \<Rightarrow> default_search \<Rightarrow> default_search option" where
  "detect_fields rec types name io given =
     fold_option (\<lambda>(field_name, field) s.
       let target = get_named_type (iv_type field) in
       case types target of
         Some (InputObjectType t) \<Rightarrow>
           (case given field_name target t of
              Some task \<Rightarrow> rec task s
            | None \<Rightarrow> detect_field_default_value_cycle rec field target t (name, field_name) s)
       | _ \<Rightarrow> Some s) (io_fields io)"

definition detect_default_body ::
  "(default_task \<Rightarrow> default_search \<Rightarrow> default_search option) \<Rightarrow> 'w types \<Rightarrow> default_task \<Rightarrow> default_search \<Rightarrow> default_search option" where
  "detect_default_body rec types task s =
     (case task of
        ValueCycle name io v \<Rightarrow>
          (case v of
             PList vs \<Rightarrow> fold_option (\<lambda>x. rec (ValueCycle name io x)) vs s
           | PDict d \<Rightarrow> detect_fields rec types name io (\<lambda>k target t. map_option (ValueCycle target t) (map_of d k)) s
           | _ \<Rightarrow> Some s)
      | LiteralCycle name io node \<Rightarrow>
          (case node of
             ListValueNode nodes loc \<Rightarrow> fold_option (\<lambda>x. rec (LiteralCycle name io x)) nodes s
           | ObjectValueNode fds loc \<Rightarrow>
               (let field_nodes = fold (\<lambda>f. dict_set (name_value (object_field_name f)) (object_field_value f)) fds []
                in detect_fields rec types name io (\<lambda>k target t. map_option (LiteralCycle target t) (map_of field_nodes k)) s)
           | _ \<Rightarrow> Some s))"

primrec detect_default_cycles :: "nat \<Rightarrow> 'w types \<Rightarrow> default_task \<Rightarrow> default_search \<Rightarrow> default_search option" where
  "detect_default_cycles 0 types task s = None"
| "detect_default_cycles (Suc n) types task s = detect_default_body (detect_default_cycles n types) types task s"

section \<open>The schema\<close>

record circular_search =
  cs_non_null :: "(pystr \<times> pystr) search"
  cs_defaults :: default_search

definition cycle_report :: "string \<Rightarrow> pystr \<times> (pystr \<times> pystr) list \<Rightarrow> schema_report" where
  "cycle_report message = (\<lambda>(name, path). report_error message (name # map fst path))"

definition default_cycle_report :: "field_key \<times> field_key list \<Rightarrow> schema_report" where
  "default_cycle_report = (\<lambda>(key, path). report_error ''Invalid circular reference in the default value of an Input Object field''
     (fst key # snd key # map snd path))"

definition validate_circular_references ::
  "nat \<Rightarrow> 'w schema \<Rightarrow> pystr \<Rightarrow> input_object_type \<Rightarrow> circular_search \<Rightarrow> py_error + schema_report list \<times> circular_search" where
  "validate_circular_references n schema name io cs =
     (case (detect_non_null_cycles (length (type_map schema) + 1) (get_type schema) name io (cs_non_null cs),
            detect_default_cycles n (get_type schema) (ValueCycle name io (PDict [])) (cs_defaults cs)) of
        (Some s, Some ds) \<Rightarrow> Inr
          (map (cycle_report ''Invalid circular reference. The Input Object references itself'') (drop (length (cycles (cs_non_null cs))) (cycles s))
           @ map default_cycle_report (drop (length (default_cycles (cs_defaults cs))) (default_cycles ds)),
           \<lparr>cs_non_null = s, cs_defaults = ds\<rparr>)
      | _ \<Rightarrow> Inl OutOfFuel)"

definition validate_type ::
  "nat \<Rightarrow> 'w env \<Rightarrow> 'w schema \<Rightarrow> pystr \<times> 'w named_type \<Rightarrow> circular_search \<Rightarrow> py_error + schema_report list \<times> circular_search" where
  "validate_type n E schema = (\<lambda>(name, t) cs.
     let name_errors = (if name \<in> set introspection_types then [] else validate_name name) in
     case t of
       InputObjectType io \<Rightarrow>
         bind_result (validate_input_fields E name io) (\<lambda>errors.
         bind_result (validate_circular_references n schema name io cs) (\<lambda>(cycle_errors, cs).
           Inr (name_errors @ errors @ cycle_errors, cs)))
     | UnionType u \<Rightarrow> Inr (name_errors @ validate_union_members schema name u, cs)
     | EnumType e \<Rightarrow> Inr (name_errors @ validate_enum_values name e, cs)
     | ScalarType s \<Rightarrow> Inr (name_errors, cs)
     | _ \<Rightarrow> bind_result (validate_fields E name (fields_of t)) (\<lambda>errors.
         Inr (name_errors @ errors @ validate_interfaces schema name t, cs)))"

fun validate_type_list ::
  "nat \<Rightarrow> 'w env \<Rightarrow> 'w schema \<Rightarrow> (pystr \<times> 'w named_type) list \<Rightarrow> circular_search \<Rightarrow> schema_reports" where
  "validate_type_list n E schema [] cs = Inr []"
| "validate_type_list n E schema (t # ts) cs =
     bind_result (validate_type n E schema t cs) (\<lambda>(errors, cs).
     bind_result (validate_type_list n E schema ts cs) (\<lambda>more. Inr (errors @ more)))"

definition validate_types :: "nat \<Rightarrow> 'w env \<Rightarrow> 'w schema \<Rightarrow> schema_reports" where
  "validate_types n E schema =
     validate_type_list n E schema (type_map schema) \<lparr>cs_non_null = no_search, cs_defaults = no_default_search\<rparr>"

text \<open>\<open>validate_schema\<close>; the fuel is for the search through default values.\<close>

definition validate_schema :: "nat \<Rightarrow> (rat \<Rightarrow> pystr) \<Rightarrow> 'w schema \<Rightarrow> schema_reports" where
  "validate_schema n repr schema =
     (let E = schema_env schema repr in
      all_reports [Inr (validate_root_types schema), validate_directives E schema, validate_types n E schema])"

fun join_messages :: "schema_report list \<Rightarrow> pystr" where
  "join_messages [] = []"
| "join_messages [(message, names)] = message"
| "join_messages ((message, names) # es) = message @ str [CHR 0x0A, CHR 0x0A] @ join_messages es"

definition assert_valid_schema :: "nat \<Rightarrow> (rat \<Rightarrow> pystr) \<Rightarrow> 'w schema \<Rightarrow> py_error + unit" where
  "assert_valid_schema n repr schema =
     bind_result (validate_schema n repr schema) (\<lambda>errors.
       if errors \<noteq> [] then Inl (TypeError (join_messages errors)) else Inr ())"

end
