(* ===== verification/Schema_Facts.thy ===== *)
theory Schema_Facts
  imports Schema_Validation
begin

text \<open>
  What the validation of a schema establishes: its interfaces and unions are as the comparison of types needs them, and no
  input object has to contain itself.
\<close>

section \<open>Conformance\<close>

text \<open>Every field of an interface is a field of the types that implement it, with a subtype of its type.\<close>

definition interface_fields_implemented :: "'w schema \<Rightarrow> bool" where
  "interface_fields_implemented schema \<longleftrightarrow>
     (\<forall>(n, t) \<in> set (type_map schema). \<forall>i \<in> set (interfaces_of t). \<forall>iface field_name iface_field.
        get_type schema i = Some (InterfaceType iface) \<longrightarrow> map_of (if_fields iface) field_name = Some iface_field \<longrightarrow>
          (\<exists>own_field. map_of (fields_of t) field_name = Some own_field
             \<and> is_type_sub_type_of schema (fld_type own_field) (fld_type iface_field)))"

definition fields_have_output_types :: "'w schema \<Rightarrow> bool" where
  "fields_have_output_types schema \<longleftrightarrow>
     (\<forall>(n, t) \<in> set (type_map schema). \<forall>(field_name, field) \<in> set (fields_of t). is_output_type (get_type schema) (fld_type field))"

definition roots_are_objects :: "'w schema \<Rightarrow> bool" where
  "roots_are_objects schema \<longleftrightarrow>
     (\<forall>operation name. get_root_type schema operation = Some name \<longrightarrow> is_object_name schema name)"

lemma all_reports_clean: "all_reports rs = Inr [] \<longleftrightarrow> (\<forall>r \<in> set rs. r = Inr [])"
proof (induction rs)
  case (Cons r rs)
  have "all_reports (r # rs) = Inr [] \<longleftrightarrow> r = Inr [] \<and> all_reports rs = Inr []"
    by (auto simp: bind_result_Inr_iff)
  with Cons show ?case by auto
qed simp

lemma report_if_clean [simp]: "report_if b message names = [] \<longleftrightarrow> \<not> b"
  by (simp add: report_if_def)

lemma type_list_clean:
  "validate_type_list n E schema ts cs = Inr [] \<Longrightarrow> (name, t) \<in> set ts \<Longrightarrow> \<exists>cs cs'. validate_type n E schema (name, t) cs = Inr ([], cs')"
proof (induction ts arbitrary: cs)
  case (Cons t' ts)
  then show ?case by (auto simp: bind_result_Inr_iff)
qed simp

lemma clean_interfaces_loop:
  assumes "validate_interfaces_loop schema type_name t names seen = []" and "i \<in> set names" and "i \<notin> seen"
  shows "\<exists>iface. get_type schema i = Some (InterfaceType iface)
    \<and> validate_type_implements_ancestors type_name t i iface = [] \<and> validate_type_implements_interface schema type_name t i iface = []"
  using assms
proof (induction schema type_name t names seen rule: validate_interfaces_loop.induct)
  case (2 schema type_name t iface_name rest seen)
  then show ?case by (auto split: option.splits named_type.splits if_splits)
qed simp

lemma clean_members_loop:
  assumes "validate_members_loop schema union_name members seen = []" and "m \<in> set members"
  shows "is_object_name schema m"
  using assms
  by (induction schema union_name members seen rule: validate_members_loop.induct) (auto split: if_splits)

lemma clean_types:
  assumes "validate_schema n repr schema = Inr []" and "(name, t) \<in> set (type_map schema)"
  shows "i \<in> set (interfaces_of t) \<Longrightarrow> \<exists>iface. get_type schema i = Some (InterfaceType iface)
      \<and> validate_type_implements_ancestors name t i iface = [] \<and> validate_type_implements_interface schema name t i iface = []"
    and "t = UnionType u \<Longrightarrow> m \<in> set (un_types u) \<Longrightarrow> is_object_name schema m"
    and "fd \<in> set (fields_of t) \<Longrightarrow> validate_field (schema_env schema repr) name fd = Inr []"
proof -
  from assms(1) have "validate_types n (schema_env schema repr) schema = Inr []"
    unfolding validate_schema_def Let_def all_reports_clean by simp
  then obtain cs cs' where clean: "validate_type n (schema_env schema repr) schema (name, t) cs = Inr ([], cs')"
    unfolding validate_types_def using type_list_clean assms(2) by blast
  have fields: "validate_fields (schema_env schema repr) name (fields_of t) = Inr []" and
    ifaces: "validate_interfaces schema name t = []" if "is_object_named t \<or> is_interface_named t"
    using clean that by (cases t; auto simp: validate_type_def bind_result_Inr_iff Let_def)+
  show "\<exists>iface. get_type schema i = Some (InterfaceType iface) \<and> validate_type_implements_ancestors name t i iface = []
      \<and> validate_type_implements_interface schema name t i iface = []" if "i \<in> set (interfaces_of t)"
  proof -
    have "is_object_named t \<or> is_interface_named t" using that by (cases t) auto
    from ifaces [OF this] clean_interfaces_loop [of schema name t "interfaces_of t" "{}" i] that show ?thesis
      by (simp add: validate_interfaces_def)
  qed
  show "is_object_name schema m" if "t = UnionType u" "m \<in> set (un_types u)"
    using clean that clean_members_loop [of schema name "un_types u" "{}" m]
    by (auto simp: validate_type_def Let_def validate_union_members_def)
  show "validate_field (schema_env schema repr) name fd = Inr []" if "fd \<in> set (fields_of t)"
  proof -
    have "is_object_named t \<or> is_interface_named t" using that by (cases t) auto
    from fields [OF this] that show ?thesis by (auto simp: validate_fields_def bind_result_Inr_iff all_reports_clean)
  qed
qed

text \<open>A schema that \<open>validate_schema\<close> accepts has what the comparison of types and the executor rely on.\<close>

lemma valid_schema:
  assumes "validate_schema n repr schema = Inr []"
  shows "unions_of_objects schema" "interfaces_closed schema" "interface_fields_implemented schema"
    "fields_have_output_types schema" "roots_are_objects schema"
proof -
  note clean = clean_types [OF assms]
  show "unions_of_objects schema"
    using clean(2) by (fastforce simp: unions_of_objects_def is_object_name_def split: named_type.split)
  show "interfaces_closed schema"
    unfolding interfaces_closed_def
  proof (clarify)
    fix name t i
    assume "(name, t) \<in> set (type_map schema)" "i \<in> set (interfaces_of t)"
    from clean(1) [OF this] obtain iface where "get_type schema i = Some (InterfaceType iface)"
      "validate_type_implements_ancestors name t i iface = []" by blast
    then show "case get_type schema i of Some it \<Rightarrow> set (interfaces_of it) \<subseteq> set (interfaces_of t) | None \<Rightarrow> False"
      by (auto simp: validate_type_implements_ancestors_def)
  qed
  show "interface_fields_implemented schema"
    unfolding interface_fields_implemented_def
  proof (clarify)
    fix name t i iface field_name iface_field
    assume t: "(name, t) \<in> set (type_map schema)" "i \<in> set (interfaces_of t)"
      and iface: "get_type schema i = Some (InterfaceType iface)" "map_of (if_fields iface) field_name = Some iface_field"
    from clean(1) [OF t] iface(1) have "validate_type_implements_interface schema name t i iface = []" by auto
    with map_of_SomeD [OF iface(2)] have "implements_field schema name i (fields_of t) (field_name, iface_field) = []"
      by (auto simp: validate_type_implements_interface_def)
    then show "\<exists>own_field. map_of (fields_of t) field_name = Some own_field
        \<and> is_type_sub_type_of schema (fld_type own_field) (fld_type iface_field)"
      by (auto simp: implements_field_def Let_def split: option.splits)
  qed
  show "fields_have_output_types schema"
    unfolding fields_have_output_types_def
  proof (clarify)
    fix name t field_name field
    assume "(name, t) \<in> set (type_map schema)" "(field_name, field) \<in> set (fields_of t)"
    from clean(3) [OF this] show "is_output_type (get_type schema) (fld_type field)"
      by (auto simp: validate_field_def bind_result_Inr_iff schema_env_def)
  qed
  have "validate_root_types schema = []" using assms unfolding validate_schema_def Let_def all_reports_clean by simp
  then have "get_root_type schema operation = Some name \<Longrightarrow> is_object_name schema name" for operation name
    by (cases operation) (auto simp: validate_root_types_def Let_def operation_types_in_order_def)
  then show "roots_are_objects schema" by (simp add: roots_are_objects_def)
qed

section \<open>Input objects\<close>

text \<open>The search for circular references is a \<open>cycle_search\<close> over the input objects of the schema.\<close>

definition input_object_names :: "'w schema \<Rightarrow> pystr set" where
  "input_object_names schema = {name. \<exists>io. get_type schema name = Some (InputObjectType io)}"

definition reference_edges :: "'w schema \<Rightarrow> pystr \<Rightarrow> (pystr \<times> pystr) list" where
  "reference_edges schema name =
     (case get_type schema name of Some (InputObjectType io) \<Rightarrow> non_null_references (get_type schema) io | _ \<Rightarrow> [])"

definition explore_input_object ::
  "'w schema \<Rightarrow> nat \<Rightarrow> pystr \<Rightarrow> (pystr \<times> pystr) search \<Rightarrow> (pystr \<times> pystr) search option" where
  "explore_input_object schema n name s =
     (case get_type schema name of
        Some (InputObjectType io) \<Rightarrow> detect_non_null_cycles n (get_type schema) name io s
      | _ \<Rightarrow> Some s)"

lemma not_input_object:
  assumes "name \<notin> input_object_names schema"
  shows "reference_edges schema name = []" and "explore_input_object schema n name s = Some s"
  using assms
  by (auto simp: input_object_names_def reference_edges_def explore_input_object_def split: option.split named_type.split)

interpretation non_null_search: cycle_search
  "reference_edges schema" snd "input_object_names schema" "explore_input_object schema"
  for schema :: "'w schema"
proof unfold_locales
  fix name n and s :: "(pystr \<times> pystr) search"
  have "input_object_names schema \<subseteq> fst ` set (type_map schema)"
    by (auto simp: input_object_names_def get_type_def dest!: map_of_SomeD) force
  then show "finite (input_object_names schema)" by (rule finite_subset) simp
  {
    assume "name \<in> input_object_names schema"
    then obtain io where io: "get_type schema name = Some (InputObjectType io)" by (auto simp: input_object_names_def)
    show "explore_input_object schema 0 name s = None" by (simp add: explore_input_object_def io)
    show "name \<in> visited s \<Longrightarrow> explore_input_object schema (Suc n) name s = Some s"
      by (simp add: explore_input_object_def io)
    show "name \<notin> visited s \<Longrightarrow> explore_input_object schema (Suc n) name s = map_option (leave_node_of name)
        (search_edges snd (explore_input_object schema n) (reference_edges schema name) (enter_node name s))"
      by (simp add: explore_input_object_def [of _ "Suc n"] reference_edges_def io explore_input_object_def [abs_def])
  }
qed (use not_input_object in auto)

abbreviation reference_successor :: "'w schema \<Rightarrow> (pystr \<times> pystr) set" where
  "reference_successor schema \<equiv> cycle_search.successor (reference_edges schema) snd (input_object_names schema)"

text \<open>The graph of the input objects that have a non-null field of another one.\<close>

definition non_null_graph :: "'w schema \<Rightarrow> (pystr \<times> pystr) set" where
  "non_null_graph schema = {(a, b) | a b io. get_type schema a = Some (InputObjectType io) \<and> b \<in> input_object_names schema
     \<and> (\<exists>(field_name, field) \<in> set (io_fields io). iv_type field = GNonNull (GNamed b))}"

lemma non_null_references_targets:
  "snd ` set (non_null_references (get_type schema) io) =
     {b \<in> input_object_names schema. \<exists>(field_name, field) \<in> set (io_fields io). iv_type field = GNonNull (GNamed b)}"
proof -
  define f where "f = (\<lambda>(field_name :: pystr, field :: input_value). case iv_type field of
      GNonNull (GNamed target) \<Rightarrow> (case get_type schema target of Some (InputObjectType t) \<Rightarrow> [(field_name, target)] | _ \<Rightarrow> [])
    | _ \<Rightarrow> [])"
  have one: "b \<in> snd ` set (f (field_name, field)) \<longleftrightarrow> b \<in> input_object_names schema \<and> iv_type field = GNonNull (GNamed b)"
    for b field_name field
    by (auto simp: f_def input_object_names_def split: gtype.splits option.splits named_type.splits) metis
  have "non_null_references (get_type schema) io = concat (map f (io_fields io))" by (simp add: non_null_references_def f_def)
  moreover have "b \<in> snd ` set (concat (map f fds)) \<longleftrightarrow> (\<exists>(field_name, field) \<in> set fds. b \<in> snd ` set (f (field_name, field)))" for b fds
    by (induction fds) auto
  ultimately show ?thesis by (intro set_eqI) (simp only: one mem_Collect_eq, blast)
qed

lemma successor_non_null_graph: "reference_successor schema = non_null_graph schema"
proof -
  have "(a, b) \<in> reference_successor schema \<longleftrightarrow> b \<in> snd ` set (reference_edges schema a) \<and> b \<in> input_object_names schema" for a b
    unfolding non_null_search.successor_def by force
  also have "\<dots> a b \<longleftrightarrow> (a, b) \<in> non_null_graph schema" for a b
  proof (cases "a \<in> input_object_names schema")
    case True
    then obtain io where io: "get_type schema a = Some (InputObjectType io)" by (auto simp: input_object_names_def)
    then show ?thesis using non_null_references_targets [of schema io] by (auto simp: reference_edges_def non_null_graph_def)
  next
    case False
    then show ?thesis by (auto simp: not_input_object non_null_graph_def input_object_names_def)
  qed
  finally show ?thesis by auto
qed

text \<open>The validation goes on exactly like the search.\<close>

definition circular_message :: pystr where
  "circular_message = str ''Invalid circular reference. The Input Object references itself''"

definition about_circles :: "schema_report list \<Rightarrow> bool" where
  "about_circles errors \<longleftrightarrow> circular_message \<in> fst ` set errors"

lemma about_circles_simps [simp]:
  "\<not> about_circles []"
  "about_circles (e # es) \<longleftrightarrow> fst e = circular_message \<or> about_circles es"
  "about_circles (es @ es') \<longleftrightarrow> about_circles es \<or> about_circles es'"
  "about_circles (concat ess) \<longleftrightarrow> (\<exists>es \<in> set ess. about_circles es)"
  "about_circles (report_if b message names) \<longleftrightarrow> b \<and> str message = circular_message"
  by (auto simp: about_circles_def report_if_def report_error_def)

text \<open>Everything else that the validation reports is about something else.\<close>

definition silent :: "schema_reports \<Rightarrow> bool" where
  "silent r \<longleftrightarrow> (\<forall>es. r = Inr es \<longrightarrow> \<not> about_circles es)"

lemma silent_Inr [simp]: "silent (Inr es) \<longleftrightarrow> \<not> about_circles es"
  by (simp add: silent_def)

lemma silent_Inl [simp]: "silent (Inl e)"
  by (simp add: silent_def)

lemma silent_bind: "(\<And>x. r = Inr x \<Longrightarrow> silent (f x)) \<Longrightarrow> silent (bind_result r f)"
  by (auto simp: silent_def bind_result_Inr_iff)

lemma silent_all: "\<forall>r \<in> set rs. silent r \<Longrightarrow> silent (all_reports rs)"
  by (induction rs) (auto simp: silent_def bind_result_Inr_iff)

lemma silentD: "silent r \<Longrightarrow> r = Inr es \<Longrightarrow> \<not> about_circles es"
  by (simp add: silent_def)

lemma silent_default: "silent (validate_default_value E iv names)"
  unfolding validate_default_value_def
  by (auto intro!: silent_bind simp: Let_def about_circles_def report_error_def circular_message_def
      split: option.split default_input.split sum.split list.split)

lemma silent_names [simp]: "\<not> about_circles (validate_name name)"
  by (simp add: validate_name_def circular_message_def)

lemma silent_argument: "silent (validate_argument E owner arg)"
  unfolding validate_argument_def
  by (auto intro!: silent_bind dest: silentD [OF silent_default] simp: circular_message_def Let_def split: prod.split)

lemma silent_input_field: "silent (validate_input_field E name one_of field)"
  unfolding validate_input_field_def
  by (auto intro!: silent_bind dest: silentD [OF silent_default] split: prod.split
      simp: Let_def validate_one_of_input_object_field_def circular_message_def)

lemma silent_input_fields: "silent (validate_input_fields E name io)"
  unfolding validate_input_fields_def
  by (rule silent_bind, drule silentD [rotated], rule silent_all) (auto simp: silent_input_field circular_message_def)

lemma silent_fields: "silent (validate_fields E name fds)"
proof -
  have "silent (validate_field E name fd)" for fd
    unfolding validate_field_def
    by (cases fd, simp, rule silent_bind, drule silentD [rotated], rule silent_all) (auto simp: silent_argument circular_message_def)
  then show ?thesis
    unfolding validate_fields_def
    by (intro silent_bind, drule_tac silentD [rotated], intro silent_all) (auto simp: circular_message_def)
qed

lemma silent_directives: "silent (validate_directives E schema)"
proof -
  have "silent (validate_directive E d)" for d
    unfolding validate_directive_def
    by (rule silent_bind, drule silentD [rotated], rule silent_all) (auto simp: silent_argument circular_message_def)
  then show ?thesis unfolding validate_directives_def by (intro silent_all) auto
qed

lemma silent_roots: "\<not> about_circles (validate_root_types schema)"
  by (auto simp: validate_root_types_def Let_def circular_message_def)

lemma silent_interfaces: "\<not> about_circles (validate_interfaces schema name t)"
proof -
  have "\<not> about_circles (implements_field schema name i fds fd)" for i fds fd
    by (auto simp: implements_field_def implements_argument_def Let_def circular_message_def report_error_def
        split: prod.splits option.splits)
  then have "\<not> about_circles (validate_type_implements_interface schema name t i iface)" for i iface
    by (auto simp: validate_type_implements_interface_def)
  moreover have "\<not> about_circles (validate_type_implements_ancestors name t i iface)" for i and iface :: "'a interface_type"
    by (auto simp: validate_type_implements_ancestors_def circular_message_def)
  ultimately have "\<not> about_circles (validate_interfaces_loop schema name t ifaces seen)" for ifaces seen
    by (induction ifaces arbitrary: seen) (auto simp: report_error_def circular_message_def split: option.splits named_type.splits)
  then show ?thesis by (simp add: validate_interfaces_def)
qed

lemma silent_members: "\<not> about_circles (validate_union_members schema name u)"
proof -
  have "\<not> about_circles (validate_members_loop schema name members seen)" for members seen
    by (induction members arbitrary: seen) (auto simp: report_error_def circular_message_def)
  then show ?thesis by (simp add: validate_union_members_def circular_message_def)
qed

lemma silent_enum_values: "\<not> about_circles (validate_enum_values name e)"
  by (auto simp: validate_enum_values_def circular_message_def)

text \<open>The searches of the validation, type by type.\<close>

lemma type_circles:
  assumes "validate_type n E schema (name, t) cs = Inr (errors, cs')" and "get_type schema name = Some t"
  shows "explore_input_object schema (length (type_map schema) + 1) name (cs_non_null cs) = Some (cs_non_null cs')"
    and "about_circles errors \<longleftrightarrow> drop (length (cycles (cs_non_null cs))) (cycles (cs_non_null cs')) \<noteq> []"
proof -
  have "explore_input_object schema (length (type_map schema) + 1) name (cs_non_null cs) = Some (cs_non_null cs') \<and>
      (about_circles errors \<longleftrightarrow> drop (length (cycles (cs_non_null cs))) (cycles (cs_non_null cs')) \<noteq> [])"
  proof (cases t)
    case (InputObjectType io)
    from assms(1) obtain es circles s and ds :: default_search where es: "validate_input_fields E name io = Inr es"
      and s: "detect_non_null_cycles (length (type_map schema) + 1) (get_type schema) name io (cs_non_null cs) = Some s"
      and circles: "circles = map (cycle_report ''Invalid circular reference. The Input Object references itself'')
          (drop (length (cycles (cs_non_null cs))) (cycles s))
        @ map default_cycle_report (drop (length (default_cycles (cs_defaults cs))) (default_cycles ds))"
      and errors: "errors = (if name \<in> set introspection_types then [] else validate_name name) @ es @ circles"
      and cs': "cs_non_null cs' = s"
      by (auto simp: InputObjectType validate_type_def bind_result_Inr_iff validate_circular_references_def Let_def
          split: option.splits)
    have "\<not> about_circles es" using silentD [OF silent_input_fields es] .
    moreover have "\<not> about_circles (map default_cycle_report xs)" for xs
      by (induction xs) (auto simp: default_cycle_report_def report_error_def circular_message_def)
    moreover have "about_circles (map (cycle_report ''Invalid circular reference. The Input Object references itself'') xs) \<longleftrightarrow> xs \<noteq> []" for xs
      by (cases xs) (auto simp: cycle_report_def report_error_def circular_message_def)
    ultimately show ?thesis using s by (simp add: errors circles cs' explore_input_object_def assms(2) InputObjectType)
  qed (use assms in \<open>auto simp: validate_type_def Let_def bind_result_Inr_iff explore_input_object_def silent_interfaces
      silent_members silent_enum_values dest: silentD [OF silent_fields] split: if_splits\<close>)
  then show "explore_input_object schema (length (type_map schema) + 1) name (cs_non_null cs) = Some (cs_non_null cs')"
    and "about_circles errors \<longleftrightarrow> drop (length (cycles (cs_non_null cs))) (cycles (cs_non_null cs')) \<noteq> []" by blast+
qed

abbreviation search_types :: "'w schema \<Rightarrow> pystr list \<Rightarrow> (pystr \<times> pystr) search \<Rightarrow> (pystr \<times> pystr) search option" where
  "search_types schema \<equiv> cycle_search.search_all (explore_input_object schema) (length (type_map schema) + 1)"

abbreviation settled_types :: "'w schema \<Rightarrow> (pystr \<times> pystr) search \<Rightarrow> bool" where
  "settled_types schema \<equiv> cycle_search.settled (reference_edges schema) snd (input_object_names schema)"

abbreviation true_type_cycles :: "'w schema \<Rightarrow> (pystr \<times> pystr) search \<Rightarrow> bool" where
  "true_type_cycles schema \<equiv> cycle_search.true_cycles (reference_edges schema) snd (input_object_names schema)"

lemma search_grows:
  assumes "search_types schema names s = Some s'" and "trail_index s = Map.empty" "true_type_cycles schema s" "settled_types schema s"
  shows "trail_index s' = Map.empty" "true_type_cycles schema s'" "settled_types schema s'" "cycles s \<noteq> [] \<Longrightarrow> cycles s' \<noteq> []"
  using non_null_search.search_all_explores [OF assms] by blast+

lemma type_list_circles:
  assumes "validate_type_list n E schema ts cs = Inr errors" and "\<forall>(name, t) \<in> set ts. get_type schema name = Some t"
    and "trail_index (cs_non_null cs) = Map.empty" "true_type_cycles schema (cs_non_null cs)" "settled_types schema (cs_non_null cs)"
  shows "\<exists>s. search_types schema (map fst ts) (cs_non_null cs) = Some s \<and> (about_circles errors \<longrightarrow> cycles s \<noteq> [])
    \<and> (cycles (cs_non_null cs) = [] \<longrightarrow> cycles s \<noteq> [] \<longrightarrow> about_circles errors)"
  using assms
proof (induction ts arbitrary: cs errors)
  case (Cons nt ts)
  obtain name t where nt: "nt = (name, t)" by (cases nt)
  from Cons.prems(1) obtain es cs1 more where here: "validate_type n E schema (name, t) cs = Inr (es, cs1)"
    and rest: "validate_type_list n E schema ts cs1 = Inr more" and errors: "errors = es @ more"
    by (auto simp: nt bind_result_Inr_iff)
  have "get_type schema name = Some t" using Cons.prems(2) by (simp add: nt)
  note step = type_circles [OF here this]
  have one: "search_types schema [name] (cs_non_null cs) = Some (cs_non_null cs1)"
    using step(1) by (simp add: non_null_search.search_all_simps)
  note s1 = search_grows [OF one Cons.prems(3-5)]
  from Cons.IH [OF rest _ s1(1-3)] Cons.prems(2) obtain s where
    s: "search_types schema (map fst ts) (cs_non_null cs1) = Some s" "about_circles more \<longrightarrow> cycles s \<noteq> []"
    "cycles (cs_non_null cs1) = [] \<longrightarrow> cycles s \<noteq> [] \<longrightarrow> about_circles more" by auto
  have "search_types schema (map fst (nt # ts)) (cs_non_null cs) = Some s"
    using s(1) step(1) by (simp add: nt non_null_search.search_all_simps)
  moreover have "cycles s \<noteq> []" if "about_circles es"
  proof (rule search_grows(4) [OF s(1) s1(1-3)])
    show "cycles (cs_non_null cs1) \<noteq> []" using that step(2) by auto
  qed
  moreover have "about_circles es" if "cycles (cs_non_null cs) = []" "cycles (cs_non_null cs1) \<noteq> []"
    using that step(2) by simp
  ultimately show ?case using s by (auto simp: errors)
qed (simp add: non_null_search.search_all_simps)

text \<open>C39. \<open>validate_schema\<close> reports a circular reference of input objects exactly when some input object has to contain
  itself, through fields of non-null input object types.\<close>

theorem non_null_cycles_exact:
  assumes "validate_schema n repr schema = Inr errors" and "distinct (map fst (type_map schema))"
  shows "(\<exists>names. (circular_message, names) \<in> set errors) \<longleftrightarrow> \<not> acyclic (non_null_graph schema)"
proof -
  let ?E = "schema_env schema repr" and ?start = "\<lparr>cs_non_null = no_search, cs_defaults = no_default_search\<rparr>"
  from assms(1) obtain ds ts where ds: "validate_directives ?E schema = Inr ds"
    and ts: "validate_type_list n ?E schema (type_map schema) ?start = Inr ts"
    and errors: "errors = validate_root_types schema @ ds @ ts"
    by (auto simp: validate_schema_def Let_def bind_result_Inr_iff validate_types_def)
  have known: "\<forall>(name, t) \<in> set (type_map schema). get_type schema name = Some t"
    using assms(2) by (auto simp: get_type_def)
  have start: "trail_index no_search = Map.empty" "true_type_cycles schema no_search" "settled_types schema no_search" "cycles no_search = []"
    by (simp_all add: no_search_def non_null_search.true_cycles_def non_null_search.settled_def)
  from type_list_circles [OF ts known] start obtain s where
    s: "search_types schema (map fst (type_map schema)) no_search = Some s" and found: "about_circles ts \<longleftrightarrow> cycles s \<noteq> []" by auto
  have "input_object_names schema \<subseteq> set (map fst (type_map schema))"
    by (auto simp: input_object_names_def get_type_def dest!: map_of_SomeD) force
  from non_null_search.search_exact(1) [OF s this] have "about_circles ts \<longleftrightarrow> \<not> acyclic (non_null_graph schema)"
    by (simp add: found successor_non_null_graph)
  moreover have "about_circles errors \<longleftrightarrow> about_circles ts"
    using silent_roots [of schema] silentD [OF silent_directives ds] by (simp add: errors)
  ultimately show ?thesis by (force simp: about_circles_def)
qed

text \<open>The search needs no more fuel than \<open>validate_circular_references\<close> gives it.\<close>

lemma non_null_search_returns: "\<exists>s. search_types schema names no_search = Some s"
proof (rule non_null_search.search_all_returns)
  have "input_object_names schema \<subseteq> fst ` set (type_map schema)"
    by (auto simp: input_object_names_def get_type_def dest!: map_of_SomeD) force
  then have "card (input_object_names schema) \<le> card (fst ` set (type_map schema))" by (intro card_mono) auto
  also have "\<dots> \<le> length (type_map schema)" by (metis card_length length_map list.set_map)
  finally show "card (input_object_names schema) < length (type_map schema) + 1" by simp
qed (simp add: no_search_def)

end
