(* ===== verification/Validated_Fields.thy ===== *)
theory Validated_Fields
  imports Fields_Defined Validated_Execution Schema_Facts
begin

text \<open>
  A schema and a document that are both valid: every field that the executor meets is defined on the type of the object at
  hand, so none is left out of the response.
\<close>

section \<open>What is collected\<close>

text \<open>
  A property of selections that goes over to the selections below which are entered, and a property of the collected fields
  that follows from it.
\<close>

locale collected_details =
  fixes cx :: "'w collect_context" and level :: "selection_node \<Rightarrow> bool" and detail :: "selection_node \<Rightarrow> bool"
  assumes level_field: "level (FieldNode name alias_node arguments directives ss loc) \<Longrightarrow>
      detail (FieldNode name alias_node arguments directives ss loc)"
    and level_inline: "level (InlineFragmentNode selection_set type_condition directives loc) \<Longrightarrow>
      does_fragment_condition_match cx type_condition \<Longrightarrow> s \<in> set (selections selection_set) \<Longrightarrow> level s"
    and level_spread: "level (FragmentSpreadNode name fragment_arguments directives loc) \<Longrightarrow>
      map_of (cx_fragments cx) (name_value name) = Some fragment \<Longrightarrow>
      does_fragment_condition_match cx (Some (frag_type_condition (fragment_definition fragment))) \<Longrightarrow>
      s \<in> set (fragment_selections fragment) \<Longrightarrow> level s"
begin

definition all_details :: "collected \<Rightarrow> bool" where
  "all_details st \<longleftrightarrow> (\<forall>d \<in> details_of st. detail (fd_node d))"

definition detail_collector :: "collector \<Rightarrow> bool" where
  "detail_collector rec \<longleftrightarrow> (\<forall>nodes usage fv st st'. rec nodes usage fv st = Inr st' \<longrightarrow>
     (\<forall>s \<in> set nodes. level s) \<longrightarrow> all_details st \<longrightarrow> all_details st')"

lemma all_details_simps [simp]:
  "all_details (st\<lparr>new_defer_usages := usages\<rparr>) = all_details st"
  "all_details (st\<lparr>forbidden_directives := ds\<rparr>) = all_details st"
  "all_details (st\<lparr>visited_fragments := vs\<rparr>) = all_details st"
  "all_details (st\<lparr>grouped_field_set := add_field key d (grouped_field_set st)\<rparr>) \<longleftrightarrow> detail (fd_node d) \<and> all_details st"
  by (auto simp: all_details_def)

lemma detail_selection:
  assumes rec: "detail_collector rec" and run: "collect_selection rec cx usage fv s st = Inr st'" and s: "level s" and st: "all_details st"
  shows "all_details st'"
proof -
  have recursive: "all_details st'"
    if "rec nodes usage' fv' st1 = Inr st'" "\<forall>s \<in> set nodes. level s" "all_details st1" for nodes usage' fv' st1
    using rec that unfolding detail_collector_def by blast
  have included: "all_details st'" if run: "collect_included rec cx usage fv s st1 = Inr st'" and st1: "all_details st1" for st1
  proof (cases s)
    case (FieldNode name alias_node arguments directives selection_set loc)
    with run st1 s level_field show ?thesis by (auto simp: collect_included_def)
  next
    case (FragmentSpreadNode name arguments directives loc)
    have enter: "all_details st'" if "map_of (cx_fragments cx) (name_value name) = Some fragment"
      "does_fragment_condition_match cx (Some (frag_type_condition (fragment_definition fragment)))"
      "enter_fragment rec cx arguments fragment usage' fv st2 = Inr st'" "all_details st2" for fragment usage' st2
    proof -
      from that(3) obtain values' where "rec (fragment_selections fragment) usage' values' st2 = Inr st'"
        by (auto simp: enter_fragment_def bind_result_Inr_iff)
      then show ?thesis by (rule recursive) (use level_spread [OF s [unfolded FragmentSpreadNode] that(1,2)] that(4) in auto)
    qed
    from run st1 show ?thesis
      unfolding FragmentSpreadNode collect_included_def selection_node.case collect_spread_def
      by (cases "map_of (cx_fragments cx) (name_value name)"; cases "get_defer_usage cx fv directives usage")
         (auto simp: bind_result_def dest: enter split: if_splits option.split_asm)
  next
    case (InlineFragmentNode selection_set type_condition directives loc)
    have "does_fragment_condition_match cx type_condition \<Longrightarrow> \<forall>s \<in> set (selections selection_set). level s"
      using level_inline s InlineFragmentNode by blast
    with run st1 recursive [of "selections selection_set"] show ?thesis
      unfolding InlineFragmentNode collect_included_def selection_node.case collect_inline_def
      by (cases "get_defer_usage cx fv directives usage") (auto simp: bind_result_def split: if_splits option.split_asm)
  qed
  from run st included show ?thesis
    by (auto simp: collect_selection_def bind_result_Inr_iff Let_def split: if_splits)
qed

lemma detail_fold:
  assumes "detail_collector rec"
  shows "fold_result (collect_selection rec cx usage fv) nodes st = Inr st' \<Longrightarrow> \<forall>s \<in> set nodes. level s \<Longrightarrow> all_details st
    \<Longrightarrow> all_details st'"
proof (induction nodes arbitrary: st)
  case (Cons s nodes)
  then obtain st1 where "collect_selection rec cx usage fv s st = Inr st1"
    "fold_result (collect_selection rec cx usage fv) nodes st1 = Inr st'" by (auto simp: bind_result_Inr_iff)
  with Cons detail_selection [OF assms] show ?case by auto
qed simp

lemma detail_impl: "detail_collector (collect_fields_impl k cx)"
proof (induction k)
  case (Suc k)
  from detail_fold [OF Suc] show ?case unfolding detail_collector_def collect_fields_impl.simps by blast
qed (simp add: detail_collector_def)

lemma nothing_details: "all_details nothing_collected"
  by (simp add: all_details_def)

lemma collected_fields:
  "collect_fields cx operation = Inr st \<Longrightarrow> \<forall>s \<in> set (selections (op_selection_set operation)). level s \<Longrightarrow> all_details st"
  using detail_impl [of "cx_fuel cx"] nothing_details unfolding detail_collector_def collect_fields_def by blast

lemma collected_subfields:
  assumes "collect_subfields cx details = Inr st" and "\<not> cx_forbid cx"
    and "\<forall>d \<in> set details. \<forall>ss. field_selection_set (fd_node d) = Some ss \<longrightarrow> (\<forall>s \<in> set (selections ss). level s)"
  shows "all_details st"
proof -
  have "cx\<lparr>cx_forbid := False\<rparr> = cx" using assms(2) by (cases cx) simp
  then have same: "collect_fields_impl k (cx\<lparr>cx_forbid := False\<rparr>) = collect_fields_impl k cx" for k by simp
  have "fold_result (\<lambda>d st. case field_selection_set (fd_node d) of
         Some selection_set \<Rightarrow> collect_fields_impl (cx_fuel cx) cx (selections selection_set) (fd_defer_usage d) (fd_fragment_values d) st
       | None \<Rightarrow> Inr st) ds st0 = Inr st \<Longrightarrow> set ds \<subseteq> set details \<Longrightarrow> all_details st0 \<Longrightarrow> all_details st" for ds st0
  proof (induction ds arbitrary: st0)
    case (Cons d ds)
    show ?case
    proof (cases "field_selection_set (fd_node d)")
      case (Some ss)
      with Cons.prems(1) obtain st1 where
        st1: "collect_fields_impl (cx_fuel cx) cx (selections ss) (fd_defer_usage d) (fd_fragment_values d) st0 = Inr st1"
        "fold_result (\<lambda>d st. case field_selection_set (fd_node d) of
           Some selection_set \<Rightarrow> collect_fields_impl (cx_fuel cx) cx (selections selection_set) (fd_defer_usage d) (fd_fragment_values d) st
         | None \<Rightarrow> Inr st) ds st1 = Inr st" by (auto simp: bind_result_Inr_iff)
      have "all_details st1"
        using detail_impl [of "cx_fuel cx"] st1(1) Cons.prems(2,3) assms(3) Some unfolding detail_collector_def by (meson list.set_intros(1) subsetD)
      with Cons.IH [OF st1(2)] Cons.prems(2) show ?thesis by simp
    next
      case None
      with Cons show ?thesis by simp
    qed
  qed simp
  with assms(1) nothing_details show ?thesis unfolding collect_subfields_def same by blast
qed

end

section \<open>Types at run time\<close>

text \<open>\<open>validate\<close> as a whole: it asserts first that the schema is valid.\<close>

definition validate_request :: "'w validation_context \<Rightarrow> rule list \<Rightarrow> py_error + node_report list" where
  "validate_request cx rules =
     bind_result (assert_valid_schema (vc_fuel cx) (vc_repr cx) (vc_schema cx)) (\<lambda>_. validate cx rules)"

text \<open>
  The schema and the document are valid and the executor belongs to them; a schema keeps its types under their names by
  construction.
\<close>

definition validated :: "'w validation_context \<Rightarrow> 'w executor \<Rightarrow> bool" where
  "validated cx ex \<longleftrightarrow>
     named_consistently (ex_schema ex) \<and> vc_schema cx = ex_schema ex \<and>
     vc_meta cx = \<lparr>schema_field = ex_schema_field ex, type_field = ex_type_field ex\<rparr> \<and>
     (\<exists>rules. FieldsOnCorrectTypeRule \<in> set rules \<and> validate_request cx rules = Inr []) \<and> executes_document ex (vc_document cx)"

lemma validated_request:
  assumes "validated cx ex"
  shows "\<exists>n repr. validate_schema n repr (ex_schema ex) = Inr []" "validate cx [FieldsOnCorrectTypeRule] = Inr []"
proof -
  from assms obtain rules where rules: "FieldsOnCorrectTypeRule \<in> set rules" "validate cx rules = Inr []"
    "assert_valid_schema (vc_fuel cx) (vc_repr cx) (ex_schema ex) = Inr ()"
    by (auto simp: validated_def validate_request_def bind_result_Inr_iff)
  from rules(3) show "\<exists>n repr. validate_schema n repr (ex_schema ex) = Inr []"
    by (auto simp: assert_valid_schema_def bind_result_Inr_iff split: if_splits)
  from rules(2,1) show "validate cx [FieldsOnCorrectTypeRule] = Inr []" by (rule validate_composed)
qed

lemma validated_schema:
  assumes "validated cx ex"
  shows "named_consistently (ex_schema ex)" "unions_of_objects (ex_schema ex)" "interfaces_closed (ex_schema ex)"
    "interface_fields_implemented (ex_schema ex)" "roots_are_objects (ex_schema ex)"
    "GraphQLSchema_get_field (vc_meta cx) (vc_schema cx) = get_field ex"
  using assms validated_request(1) [OF assms] valid_schema by (auto simp: validated_def get_field_def)

text \<open>An object type that is a type or belongs to it.\<close>

definition runtime_type :: "'w schema \<Rightarrow> pystr \<Rightarrow> pystr \<Rightarrow> bool" where
  "runtime_type schema object_name name \<longleftrightarrow>
     is_object_name schema object_name \<and> (object_name = name \<or> member_of schema object_name name)"

lemma runtime_composite: "runtime_type schema object_name name \<Longrightarrow> is_composite_name (get_type schema) name"
  by (auto simp: runtime_type_def is_object_name_def member_of_def is_composite_name_def is_composite_named_case
      split: option.splits named_type.splits)

lemma runtime_sub_type:
  assumes "named_consistently schema" and "unions_of_objects schema" and "interfaces_closed schema"
    and "is_type_sub_type_of schema sub super" and "runtime_type schema object_name (get_named_type sub)"
  shows "runtime_type schema object_name (get_named_type super)"
proof -
  have "below_named r a b \<Longrightarrow> r (get_named_type a) (get_named_type b)" for r a b
    by (induction r a b rule: below_named.induct) auto
  with assms(4) have "get_named_type sub = get_named_type super \<or> member_of schema (get_named_type sub) (get_named_type super)"
    unfolding sub_type_below [OF assms(1)] by blast
  with assms(5) member_of_trans [OF assms(1-3)] show ?thesis by (auto simp: runtime_type_def)
qed

text \<open>A field of a type is a field of every object that belongs to it, and its objects are objects of the type's field.\<close>

lemma runtime_field:
  assumes "validated cx ex" and "runtime_type (ex_schema ex) object_name name" and "get_field ex name fname = Some field"
  obtains own_field where "get_field ex object_name fname = Some own_field"
    and "\<And>r. runtime_type (ex_schema ex) r (get_named_type (fld_type own_field)) \<Longrightarrow>
      runtime_type (ex_schema ex) r (get_named_type (fld_type field))"
proof (cases "object_name = name \<or> fname = str ''__typename''")
  case True
  with assms(3) that show ?thesis by (auto simp: get_field_def GraphQLSchema_get_field_def)
next
  case False
  let ?schema = "ex_schema ex"
  note schema = validated_schema [OF assms(1)]
  obtain object where object: "get_type ?schema object_name = Some (ObjectType object)"
    using assms(2) by (auto simp: runtime_type_def is_object_name_def split: option.splits elim: is_object_named.elims)
  have member: "member_of ?schema object_name name" using assms(2) False by (simp add: runtime_type_def)
  then obtain t where t: "get_type ?schema name = Some t" "is_abstract_named t"
    by (auto simp: member_of_def split: option.splits named_type.splits)
  have "query_type ?schema \<noteq> Some name"
  proof
    assume "query_type ?schema = Some name"
    then have "get_root_type ?schema QUERY = Some name" by simp
    with schema(5) have "is_object_name ?schema name" unfolding roots_are_objects_def by blast
    with t show False by (cases t) (simp_all add: is_object_name_def)
  qed
  with assms(3) False t obtain iface where iface: "t = InterfaceType iface" "map_of (if_fields iface) fname = Some field"
      and plain: "fname \<noteq> str ''__schema''" "fname \<noteq> str ''__type''"
    by (auto simp: get_field_def GraphQLSchema_get_field_def split: if_splits named_type.splits)
  have "(object_name, ObjectType object) \<in> set (type_map ?schema)" using object get_type_iff [OF schema(1)] by blast
  moreover have "name \<in> set (interfaces_of (ObjectType object))"
    using member t(1) object iface(1) by (simp add: member_of_def)
  ultimately obtain own_field where own: "map_of (obj_fields object) fname = Some own_field"
    "is_type_sub_type_of ?schema (fld_type own_field) (fld_type field)"
    using schema(4) t(1) iface by (fastforce simp: interface_fields_implemented_def)
  show ?thesis
  proof (rule that)
    show "get_field ex object_name fname = Some own_field"
      using False own(1) object plain by (simp add: get_field_def GraphQLSchema_get_field_def)
  qed (use runtime_sub_type [OF schema(1-3) own(2)] in blast)
qed

section \<open>Selections at run time\<close>

text \<open>A selection of the validated document under a type that the object belongs to.\<close>

definition in_scope :: "'w validation_context \<Rightarrow> 'w executor \<Rightarrow> pystr \<Rightarrow> selection_node \<Rightarrow> bool" where
  "in_scope cx ex object_name s \<longleftrightarrow> validated cx ex \<and>
     (\<exists>name. runtime_type (ex_schema ex) object_name name \<and> fields_defined cx (Some name) s)"

definition field_in_scope :: "'w validation_context \<Rightarrow> 'w executor \<Rightarrow> pystr \<Rightarrow> selection_node \<Rightarrow> bool" where
  "field_in_scope cx ex object_name s \<longleftrightarrow> in_scope cx ex object_name s \<and>
     (\<exists>name alias_node arguments directives ss loc. s = FieldNode name alias_node arguments directives ss loc)"

lemma matching_condition:
  assumes "validated cx ex" and "is_object_name (ex_schema ex) object_name"
    and "does_fragment_condition_match (ex_context ex object_name) (Some t)"
  shows "runtime_type (ex_schema ex) object_name (name_value (named_type_name t))"
    and "condition_scope cx t = Some (name_value (named_type_name t))"
proof -
  let ?name = "name_value (named_type_name t)" and ?schema = "ex_schema ex"
  note schema = validated_schema [OF assms(1)]
  obtain object where object: "get_type ?schema object_name = Some (ObjectType object)"
    using assms(2) by (auto simp: is_object_name_def split: option.splits elim: is_object_named.elims)
  from assms(3) obtain nt where nt: "get_type ?schema ?name = Some nt"
    and "?name = object_name \<or> is_abstract_named nt \<and> is_sub_type ?schema nt object_name"
    by (auto simp: does_fragment_condition_match_def Let_def ex_context_def split: option.splits if_splits)
  with is_sub_type_member [OF schema(1) nt object] show *: "runtime_type ?schema object_name ?name"
    by (auto simp: runtime_type_def assms(2))
  show "condition_scope cx t = Some ?name"
    using runtime_composite [OF *] assms(1) by (simp add: condition_scope_def scope_for_def validated_def)
qed

interpretation scoped: collected_details "ex_context ex object_name" "in_scope cx ex object_name" "field_in_scope cx ex object_name"
  for cx :: "'w validation_context" and ex :: "'w executor" and object_name :: pystr
proof unfold_locales
  fix name alias_node arguments directives ss loc
  show "in_scope cx ex object_name (FieldNode name alias_node arguments directives ss loc) \<Longrightarrow>
      field_in_scope cx ex object_name (FieldNode name alias_node arguments directives ss loc)"
    by (simp add: field_in_scope_def)
next
  fix selection_set type_condition directives loc s
  assume level: "in_scope cx ex object_name (InlineFragmentNode selection_set type_condition directives loc)"
    and match: "does_fragment_condition_match (ex_context ex object_name) type_condition" and s: "s \<in> set (selections selection_set)"
  from level obtain name where valid: "validated cx ex" and name: "runtime_type (ex_schema ex) object_name name"
    and fds: "fields_defined_in cx (case type_condition of Some t \<Rightarrow> condition_scope cx t | None \<Rightarrow> Some name) selection_set"
    by (auto simp: in_scope_def)
  obtain name' where "runtime_type (ex_schema ex) object_name name'" "fields_defined_in cx (Some name') selection_set"
  proof (cases type_condition)
    case (Some t)
    have "is_object_name (ex_schema ex) object_name" using name by (simp add: runtime_type_def)
    from matching_condition [OF valid this match [unfolded Some]] fds that show ?thesis by (simp add: Some)
  qed (use name fds that in simp)
  with s valid show "in_scope cx ex object_name s" by (cases selection_set) (auto simp: in_scope_def)
next
  fix name fragment_arguments directives loc fragment s
  assume level: "in_scope cx ex object_name (FragmentSpreadNode name fragment_arguments directives loc)"
    and known: "map_of (cx_fragments (ex_context ex object_name)) (name_value name) = Some fragment"
    and match: "does_fragment_condition_match (ex_context ex object_name) (Some (frag_type_condition (fragment_definition fragment)))"
    and s: "s \<in> set (fragment_selections fragment)"
  let ?f = "fragment_definition fragment"
  from level have valid: "validated cx ex" and object: "is_object_name (ex_schema ex) object_name"
    by (auto simp: in_scope_def runtime_type_def)
  from known have "(name_value name, fragment) \<in> set (ex_fragments ex)" by (simp add: map_of_SomeD)
  with valid have "get_fragment (vc_document cx) (name_value name) = Some ?f" by (auto simp: validated_def intro: executed_fragment)
  from get_fragment_defined [OF this] have "FragmentDefinition ?f \<in> set (document_definitions (vc_document cx))"
    by (simp add: fragment_defs_def fragments_in_set)
  with validated_request(2) [OF valid] have "fields_defined_in cx (condition_scope cx (frag_type_condition ?f)) (frag_selection_set ?f)"
    unfolding fields_found by blast
  with matching_condition [OF valid object match] s valid show "in_scope cx ex object_name s"
    by (cases "frag_selection_set ?f") (auto simp: in_scope_def)
qed

section \<open>The fields that are executed\<close>

text \<open>
  The grouped field sets that an execution can come to with the object types that they are for: that of the operation, and
  below the fields of a group that are all of one name, that of any object that belongs to the type of the field.
\<close>

definition of_one_field :: "pystr \<Rightarrow> field_details list \<Rightarrow> bool" where
  "of_one_field fname details \<longleftrightarrow> (\<forall>d \<in> set details. name_value (field_name (fd_node d)) = fname)"

inductive executed_groups :: "'w executor \<Rightarrow> pystr \<Rightarrow> (pystr \<times> field_details list) list \<Rightarrow> bool" for ex where
  executed_root: "get_root_type (ex_schema ex) (op_operation (ex_operation ex)) = Some root_type \<Longrightarrow>
    collect_fields (ex_context ex root_type) (ex_operation ex) = Inr collected \<Longrightarrow>
    executed_groups ex root_type (grouped_field_set collected)"
| executed_below: "executed_groups ex parent groups \<Longrightarrow> (name, details) \<in> set groups \<Longrightarrow> of_one_field fname details \<Longrightarrow>
    get_field ex parent fname = Some field \<Longrightarrow>
    runtime_type (ex_schema ex) object_name (get_named_type (fld_type field)) \<Longrightarrow>
    collect_subfields (ex_context ex object_name) details = Inr collected \<Longrightarrow>
    executed_groups ex object_name (grouped_field_set collected)"

lemma field_scope_below:
  assumes "field_in_scope cx ex parent s" and "get_field ex parent (name_value (field_name s)) = Some own_field"
    and "runtime_type (ex_schema ex) object_name (get_named_type (fld_type own_field))"
    and "field_selection_set s = Some ss" and "s' \<in> set (selections ss)"
  shows "in_scope cx ex object_name s'"
proof -
  from assms(1,4) obtain name alias_node arguments directives loc scope where
    s: "s = FieldNode name alias_node arguments directives (Some ss) loc" and valid: "validated cx ex"
    and scope: "runtime_type (ex_schema ex) parent scope" and fds: "fields_defined cx (Some scope) s"
    by (auto simp: field_in_scope_def in_scope_def)
  note get_field_same = validated_schema(6) [OF valid]
  have types: "vc_types cx = get_type (ex_schema ex)" using valid by (simp add: validated_def)
  from fds s obtain field where field: "get_field ex scope (name_value name) = Some field"
    by (auto simp: get_field_same)
  have "runtime_type (ex_schema ex) object_name (get_named_type (fld_type field))"
    using runtime_field [OF valid scope field] assms(2,3) s by auto
  moreover from this have "field_scope cx (Some scope) (name_value name) = Some (get_named_type (fld_type field))"
    using field types runtime_composite by (simp add: field_scope_def scope_for_def get_field_same)
  ultimately show ?thesis using fds s assms(5) valid by (cases ss) (auto simp: in_scope_def)
qed

lemma executed_in_scope:
  assumes "validated cx ex"
  shows "executed_groups ex object_name groups \<Longrightarrow> (\<forall>(name, details) \<in> set groups. details \<noteq> []) \<and>
    (\<forall>(name, details) \<in> set groups. \<forall>d \<in> set details. field_in_scope cx ex object_name (fd_node d))"
proof (induction rule: executed_groups.induct)
  case (executed_root root_type collected)
  have object: "is_object_name (ex_schema ex) root_type"
    using executed_root(1) validated_schema(5) [OF assms] unfolding roots_are_objects_def by blast
  have "OperationDefinition (ex_operation ex) \<in> set (document_definitions (vc_document cx))"
    using assms by (simp add: validated_def executes_document_def)
  then have "fields_defined_in cx (operation_scope cx (op_operation (ex_operation ex))) (op_selection_set (ex_operation ex))"
    using validated_request(2) [OF assms] unfolding fields_found by blast
  moreover have "operation_scope cx (op_operation (ex_operation ex)) = Some root_type"
    using executed_root(1) object assms
    by (auto simp: operation_scope_def validated_def is_object_name_def split: option.splits elim: is_object_named.elims)
  ultimately have "\<forall>s \<in> set (selections (op_selection_set (ex_operation ex))). in_scope cx ex root_type s"
    using object assms by (cases "op_selection_set (ex_operation ex)") (auto simp: in_scope_def runtime_type_def)
  with scoped.collected_fields [OF executed_root(2)] have "\<forall>d \<in> details_of collected. field_in_scope cx ex root_type (fd_node d)"
    by (simp add: scoped.all_details_def)
  with collect_fields_well_grouped [OF executed_root(2)] show ?case by (auto simp: well_grouped_def details_of_def)
next
  case (executed_below parent groups name details fname field object_name collected)
  have "\<forall>d \<in> set details. \<forall>ss. field_selection_set (fd_node d) = Some ss \<longrightarrow> (\<forall>s \<in> set (selections ss). in_scope cx ex object_name s)"
    using executed_below.IH executed_below.hyps field_scope_below by (fastforce simp: of_one_field_def)
  with scoped.collected_subfields [OF executed_below.hyps(6)]
  have "\<forall>d \<in> details_of collected. field_in_scope cx ex object_name (fd_node d)"
    by (simp add: scoped.all_details_def ex_context_def)
  with collect_subfields_well_grouped [OF executed_below.hyps(6)] show ?case by (auto simp: well_grouped_def details_of_def)
qed

lemma field_in_scope_defined:
  assumes "field_in_scope cx ex object_name s"
  shows "get_field ex object_name (name_value (field_name s)) \<noteq> None"
proof -
  from assms obtain name alias_node arguments directives ss loc scope where
    s: "s = FieldNode name alias_node arguments directives ss loc" and valid: "validated cx ex"
    and scope: "runtime_type (ex_schema ex) object_name scope" and fds: "fields_defined cx (Some scope) s"
    by (auto simp: field_in_scope_def in_scope_def)
  then obtain field where "get_field ex scope (name_value name) = Some field"
    using validated_schema(6) [OF valid] by auto
  from runtime_field [OF valid scope this] show ?thesis by (auto simp: s)
qed

text \<open>
  C37. When \<open>validate\<close> accepts the schema and the document with rules that contain \<open>FieldsOnCorrectTypeRule\<close>, the executor finds the
  field definition of every field that it collects, at the root and at every object below it: no response name is left out,
  so with \<open>response_conforms\<close> the object in the response has exactly the names of its grouped field set.
\<close>

theorem validated_fields_defined:
  assumes "validated cx ex" and "executed_groups ex object_name groups"
  shows "response_names ex object_name groups = map fst groups"
proof -
  have "get_field ex object_name (name_value (field_name (fd_node (hd details)))) \<noteq> None"
    if "(name, details) \<in> set groups" for name details
    using executed_in_scope [OF assms] that field_in_scope_defined by fastforce
  then have "filter (\<lambda>(name, details). get_field ex object_name (name_value (field_name (fd_node (hd details)))) \<noteq> None) groups = groups"
    by (auto simp: filter_id_conv)
  then show ?thesis by (simp only: response_names_def)
qed

end
