(* ===== verification/Root_Field_Rule.thy ===== *)
theory Root_Field_Rule
  imports Validation
begin

text \<open>
  \<open>DeferStreamDirectiveOnRootField.forbid_defer_stream\<close> adds a fragment to the visited ones only behind the recursion into
  it: on which documents the recursion returns.
\<close>

section \<open>Spreads at the root\<close>

text \<open>The fragments that a selection spreads outside of all fields, and the spreads between the fragments of a document.\<close>

fun top_spreads :: "selection_node \<Rightarrow> pystr set" and top_spreads_in :: "selection_set_node \<Rightarrow> pystr set" where
  "top_spreads (FieldNode name alias_node arguments directives ss loc) = {}"
| "top_spreads (FragmentSpreadNode name arguments directives loc) = {name_value name}"
| "top_spreads (InlineFragmentNode ss type_condition directives loc) = top_spreads_in ss"
| "top_spreads_in (SelectionSetNode nodes loc) = \<Union> (top_spreads ` set nodes)"

definition top_graph :: "(pystr \<times> fragment_definition_node) list \<Rightarrow> (pystr \<times> pystr) set" where
  "top_graph fragments = {(a, b). \<exists>f. map_of fragments a = Some f \<and> b \<in> top_spreads_in (frag_selection_set f) \<and> map_of fragments b \<noteq> None}"

text \<open>A defined fragment from which the spreads lead into a cycle.\<close>

definition leads_to_cycle :: "(pystr \<times> fragment_definition_node) list \<Rightarrow> pystr \<Rightarrow> bool" where
  "leads_to_cycle fragments name \<longleftrightarrow>
     map_of fragments name \<noteq> None \<and> (\<exists>c. (name, c) \<in> (top_graph fragments)\<^sup>* \<and> (c, c) \<in> (top_graph fragments)\<^sup>+)"

lemma leads_further:
  assumes "leads_to_cycle fragments name" and "map_of fragments name = Some f"
  obtains b where "b \<in> top_spreads_in (frag_selection_set f)" "leads_to_cycle fragments b"
proof -
  let ?G = "top_graph fragments"
  from assms(1) obtain c where c: "(name, c) \<in> ?G\<^sup>*" "(c, c) \<in> ?G\<^sup>+" unfolding leads_to_cycle_def by blast
  then have "(name, c) \<in> ?G\<^sup>+" by (rule rtrancl_trancl_trancl)
  then obtain b where b: "(name, b) \<in> ?G" "(b, c) \<in> ?G\<^sup>*" by (blast dest: tranclD)
  then have "b \<in> top_spreads_in (frag_selection_set f)" "map_of fragments b \<noteq> None"
    using assms(2) by (auto simp: top_graph_def)
  with b(2) c(2) that show ?thesis unfolding leads_to_cycle_def by blast
qed

lemma selections_top_spreads: "top_spreads_in ss = \<Union> (top_spreads ` set (selections ss))"
  by (cases ss) simp

section \<open>The recursion\<close>

lemma then_forbid_None:
  "then_forbid es r k = None \<longleftrightarrow> r = None \<or> (\<exists>es' seen. r = Some (es', seen) \<and> k seen = None)"
  by (auto simp: then_forbid_def split: option.split)

lemma forbid_returned:
  "forbid_defer_stream n fragments nodes seen = Some (es, seen') \<Longrightarrow> \<forall>name \<in> seen. \<not> leads_to_cycle fragments name \<Longrightarrow>
     (\<forall>s \<in> set nodes. \<forall>name \<in> top_spreads s. \<not> leads_to_cycle fragments name) \<and> (\<forall>name \<in> seen'. \<not> leads_to_cycle fragments name)"
proof (induction n arbitrary: nodes seen es seen')
  case (Suc n)
  have "forbid_selections (forbid_defer_stream n fragments) fragments nodes seen = Some (es, seen') \<Longrightarrow>
      \<forall>name \<in> seen. \<not> leads_to_cycle fragments name \<Longrightarrow>
      (\<forall>s \<in> set nodes. \<forall>name \<in> top_spreads s. \<not> leads_to_cycle fragments name) \<and> (\<forall>name \<in> seen'. \<not> leads_to_cycle fragments name)"
    for nodes seen es seen'
  proof (induction nodes arbitrary: seen es seen')
    case (Cons s nodes)
    show ?case
    proof (cases s)
      case (FieldNode name alias_node arguments directives ss loc)
      with Cons.prems(1) obtain es1 where "forbid_selections (forbid_defer_stream n fragments) fragments nodes seen = Some (es1, seen')"
        by (auto simp: then_forbid_def)
      from Cons.IH [OF this Cons.prems(2)] show ?thesis by (simp add: FieldNode)
    next
      case (InlineFragmentNode ss type_condition directives loc)
      with Cons.prems(1) obtain es1 seen1 es2 where
        rec: "forbid_defer_stream n fragments (selections ss) seen = Some (es1, seen1)"
        and rest: "forbid_selections (forbid_defer_stream n fragments) fragments nodes seen1 = Some (es2, seen')"
        by (auto simp: then_forbid_def split: option.splits)
      from Suc.IH [OF rec Cons.prems(2)] Cons.IH [OF rest] show ?thesis by (simp add: InlineFragmentNode selections_top_spreads)
    next
      case (FragmentSpreadNode name arguments directives loc)
      let ?name = "name_value name"
      obtain seen1 es2 where harmless: "\<not> leads_to_cycle fragments ?name" "\<forall>name \<in> seen1. \<not> leads_to_cycle fragments name"
        and rest: "forbid_selections (forbid_defer_stream n fragments) fragments nodes seen1 = Some (es2, seen')"
      proof (cases "?name \<in> seen")
        case True
        with Cons.prems that show ?thesis by (simp add: FragmentSpreadNode)
      next
        case False
        show ?thesis
        proof (cases "map_of fragments ?name")
          case None
          then have "\<not> leads_to_cycle fragments ?name" by (simp add: leads_to_cycle_def)
          with False None Cons.prems that [of "insert ?name seen"] show ?thesis by (simp add: FragmentSpreadNode)
        next
          case (Some f)
          with False Cons.prems(1) obtain es1 seen1 es2 where
            rec: "forbid_defer_stream n fragments (selections (frag_selection_set f)) seen = Some (es1, seen1)"
            and rest: "forbid_selections (forbid_defer_stream n fragments) fragments nodes (insert ?name seen1) = Some (es2, seen')"
            by (auto simp: FragmentSpreadNode then_forbid_def split: option.splits)
          note below = Suc.IH [OF rec Cons.prems(2)]
          have harmless: "\<not> leads_to_cycle fragments ?name"
          proof
            assume "leads_to_cycle fragments ?name"
            from leads_further [OF this Some] obtain b where
              "b \<in> top_spreads_in (frag_selection_set f)" "leads_to_cycle fragments b" .
            with below show False by (auto simp: selections_top_spreads)
          qed
          show ?thesis by (rule that [OF harmless _ rest]) (use below harmless in simp)
        qed
      qed
      from Cons.IH [OF rest harmless(2)] harmless(1) show ?thesis by (simp add: FragmentSpreadNode)
    qed
  qed simp
  with Suc.prems show ?case by simp
qed simp

text \<open>With enough fuel the recursion returns, whatever was visited before.\<close>

definition returns_on :: "(pystr \<times> fragment_definition_node) list \<Rightarrow> selection_node list \<Rightarrow> bool" where
  "returns_on fragments nodes \<longleftrightarrow> (\<exists>N. \<forall>n \<ge> N. \<forall>seen. forbid_defer_stream n fragments nodes seen \<noteq> None)"

lemma returns_on_Cons:
  assumes "returns_on fragments [s]" and "returns_on fragments nodes"
  shows "returns_on fragments (s # nodes)"
proof -
  from assms obtain N M where
    N: "\<And>n seen. n \<ge> N \<Longrightarrow> forbid_defer_stream n fragments [s] seen \<noteq> None" and
    M: "\<And>n seen. n \<ge> M \<Longrightarrow> forbid_defer_stream n fragments nodes seen \<noteq> None" unfolding returns_on_def by blast
  have "forbid_defer_stream n fragments (s # nodes) seen \<noteq> None" if "n \<ge> N + M + 1" for n seen
  proof (cases n)
    case (Suc k)
    have one: "forbid_selections (forbid_defer_stream k fragments) fragments [s] seen \<noteq> None"
      using N [of n seen] that by (simp add: Suc)
    have more: "forbid_selections (forbid_defer_stream k fragments) fragments nodes seen' \<noteq> None" for seen'
      using M [of n seen'] that by (simp add: Suc)
    have "forbid_selections (forbid_defer_stream k fragments) fragments (s # nodes) seen \<noteq> None"
    proof
      assume "forbid_selections (forbid_defer_stream k fragments) fragments (s # nodes) seen = None"
      with one more show False by (cases s) (auto simp: then_forbid_None simp del: not_None_eq split: if_splits option.splits)
    qed
    then show ?thesis by (simp add: Suc)
  qed (use that in simp)
  then show ?thesis unfolding returns_on_def by blast
qed

lemma returns_on_nodes: "(\<And>s. s \<in> set nodes \<Longrightarrow> returns_on fragments [s]) \<Longrightarrow> returns_on fragments nodes"
proof (induction nodes)
  case Nil
  have "forbid_defer_stream n fragments [] seen \<noteq> None" if "n \<ge> 1" for n seen using that by (cases n) simp_all
  then show ?case unfolding returns_on_def by blast
qed (auto intro: returns_on_Cons)

lemma returns_on_step:
  assumes "\<And>k seen. forbid_defer_stream k fragments nodes seen \<noteq> None \<Longrightarrow>
      forbid_selections (forbid_defer_stream k fragments) fragments [s] seen \<noteq> None"
    and "returns_on fragments nodes"
  shows "returns_on fragments [s]"
proof -
  from assms(2) obtain N where N: "\<And>n seen. n \<ge> N \<Longrightarrow> forbid_defer_stream n fragments nodes seen \<noteq> None"
    unfolding returns_on_def by blast
  have "forbid_defer_stream n fragments [s] seen \<noteq> None" if "n \<ge> Suc N" for n seen
    using that N assms(1) by (cases n) auto
  then show ?thesis unfolding returns_on_def by blast
qed

lemma returns_on_selection:
  assumes "\<And>name f. name \<in> names \<Longrightarrow> map_of fragments name = Some f \<Longrightarrow> returns_on fragments (selections (frag_selection_set f))"
  shows "top_spreads s \<subseteq> names \<Longrightarrow> returns_on fragments [s]"
    and "top_spreads_in ss \<subseteq> names \<Longrightarrow> returns_on fragments (selections ss)"
proof (induction s and ss)
  case (FieldNode name alias_node arguments directives ss loc)
  have "returns_on fragments []" by (rule returns_on_nodes) simp
  then show ?case by (rule returns_on_step [rotated]) (simp add: then_forbid_def)
next
  case (InlineFragmentNode ss type_condition directives loc)
  then have "returns_on fragments (selections ss)" by simp
  then show ?case by (rule returns_on_step [rotated]) (auto simp: then_forbid_def)
next
  case (FragmentSpreadNode name arguments directives loc)
  show ?case
  proof (cases "map_of fragments (name_value name)")
    case None
    have "returns_on fragments []" by (rule returns_on_nodes) simp
    then show ?thesis by (rule returns_on_step [rotated]) (simp add: None)
  next
    case (Some f)
    with assms FragmentSpreadNode have "returns_on fragments (selections (frag_selection_set f))" by simp
    then show ?thesis by (rule returns_on_step [rotated]) (auto simp: Some then_forbid_def)
  qed
next
  case (SelectionSetNode nodes loc)
  have "returns_on fragments [s]" if "s \<in> set nodes" for s
    using SelectionSetNode.IH [OF that] SelectionSetNode.prems that by (simp add: UN_subset_iff)
  then show ?case by (simp add: returns_on_nodes)
qed

lemma finite_top_graph: "finite (top_graph fragments)"
proof (rule finite_subset)
  show "top_graph fragments \<subseteq> fst ` set fragments \<times> fst ` set fragments"
    by (auto simp: top_graph_def dest: map_of_SomeD intro: rev_image_eqI)
qed simp

lemma harmless_returns:
  assumes "\<not> leads_to_cycle fragments name" and "map_of fragments name = Some f"
  shows "returns_on fragments (selections (frag_selection_set f))"
proof -
  let ?R = "{(b, a). (a, b) \<in> top_graph fragments \<and> \<not> leads_to_cycle fragments a}"
  have "acyclic ?R"
  proof (rule acyclicI, rule allI, rule notI)
    fix a assume cycle: "(a, a) \<in> ?R\<^sup>+"
    have "?R \<subseteq> (top_graph fragments)\<inverse>" by auto
    with cycle have "(a, a) \<in> ((top_graph fragments)\<inverse>)\<^sup>+" by (blast intro: trancl_mono)
    then have "(a, a) \<in> (top_graph fragments)\<^sup>+" by (simp add: trancl_converse)
    moreover from this obtain b where "(a, b) \<in> top_graph fragments" by (blast dest: tranclD)
    then have "map_of fragments a \<noteq> None" by (auto simp: top_graph_def)
    ultimately have "leads_to_cycle fragments a" by (auto simp: leads_to_cycle_def)
    with cycle show False by (auto dest: tranclD2)
  qed
  moreover have "finite ?R" by (rule finite_subset [of _ "(top_graph fragments)\<inverse>"]) (auto simp: finite_top_graph)
  ultimately have "wf ?R" by (simp add: finite_acyclic_wf)
  then show ?thesis using assms
  proof (induction name arbitrary: f rule: wf_induct_rule)
    case (less name)
    have "returns_on fragments (selections (frag_selection_set g))" if "b \<in> top_spreads_in (frag_selection_set f)" "map_of fragments b = Some g" for b g
    proof (rule less.IH)
      have edge: "(name, b) \<in> top_graph fragments" using that less.prems(2) by (auto simp: top_graph_def)
      then show "(b, name) \<in> ?R" using less.prems(1) by simp
      show "\<not> leads_to_cycle fragments b"
        using edge less.prems by (auto simp: leads_to_cycle_def intro: converse_rtrancl_into_rtrancl)
    qed (rule that)
    from returns_on_selection(2) [OF this subset_refl] show ?case .
  qed
qed

text \<open>
  C38. \<open>forbid_defer_stream\<close> returns on an operation of a mutation or subscription exactly when no fragment that is spread
  outside of all fields, directly or through other fragments, leads back to itself: it recurs into a fragment before the
  fragment counts as visited, so on a cycle no fuel is enough and \<open>validate\<close> ends in a \<open>RecursionError\<close> instead of the
  report of \<open>NoFragmentCyclesRule\<close>.
\<close>

theorem root_field_rule_returns:
  "(\<exists>n result. forbid_defer_stream n fragments nodes {} = Some result) \<longleftrightarrow>
     \<not> (\<exists>s \<in> set nodes. \<exists>name \<in> top_spreads s. leads_to_cycle fragments name)"
proof
  assume "\<exists>n result. forbid_defer_stream n fragments nodes {} = Some result"
  then obtain n es seen where "forbid_defer_stream n fragments nodes {} = Some (es, seen)" by auto
  from forbid_returned [OF this] show "\<not> (\<exists>s \<in> set nodes. \<exists>name \<in> top_spreads s. leads_to_cycle fragments name)" by simp
next
  assume harmless: "\<not> (\<exists>s \<in> set nodes. \<exists>name \<in> top_spreads s. leads_to_cycle fragments name)"
  have "returns_on fragments nodes"
  proof (rule returns_on_nodes)
    fix s assume "s \<in> set nodes"
    with harmless have "\<And>name. name \<in> top_spreads s \<Longrightarrow> \<not> leads_to_cycle fragments name" by blast
    from returns_on_selection(1) [OF harmless_returns [OF this] subset_refl] show "returns_on fragments [s]" .
  qed
  then obtain N where "forbid_defer_stream N fragments nodes {} \<noteq> None" unfolding returns_on_def by blast
  then show "\<exists>n result. forbid_defer_stream n fragments nodes {} = Some result" by blast
qed

end
