(* ===== verification/Executor_Examples.thy ===== *)
theory Executor_Examples
  imports Executor_Errors Executor_Returns
begin

text \<open>
  A query against a small schema, in which one resolver raises an error and another gives a list with a null that must not
  be there.  The properties of the executor are applied to it.
\<close>

definition resolver_field :: "gtype \<Rightarrow> unit field" where
  "resolver_field t = \<lparr>fld_type = t, fld_args = [], fld_resolve = None, fld_deprecation_reason = None\<rparr>"

definition Query_object :: "unit object_type" where
  "Query_object = \<lparr>obj_name = str ''Query'', obj_fields =
       [(str ''a'', resolver_field (GNamed (str ''String''))),
        (str ''items'', resolver_field (GList (GNonNull (GNamed (str ''Int''))))),
        (str ''d'', resolver_field (GNamed (str ''Boolean'')))],
     obj_interfaces = [], obj_is_type_of = None\<rparr>"

definition resolver_schema :: "unit schema" where
  "resolver_schema = \<lparr>query_type = Some (str ''Query''), mutation_type = None, subscription_type = None,
     type_map = [(str ''Query'', ObjectType Query_object), (str ''Boolean'', ScalarType (GraphQLBoolean (\<lambda>q. []))),
       (str ''String'', ScalarType (GraphQLString (\<lambda>q. []) (\<lambda>n. []))), (str ''Int'', ScalarType GraphQLInt)], schema_directives = []\<rparr>"

definition resolve_example :: "unit resolver" where
  "resolve_example source info args w =
     (if ri_field_name info = str ''a'' then (Inr (PStr (str ''x'')), w)
      else if ri_field_name info = str ''items'' then (Inr (PList [PInt 1, PNone]), w)
      else (Inl (ValueError (str ''no value'')), w))"

definition resolver_operation :: operation_definition_node where
  "resolver_operation = OperationDefinitionNode
     (SelectionSetNode [a_field ''a'' None, a_field ''items'' None, a_spread ''F'', a_field ''b'' skip_true] None)
     None None None None QUERY None"

definition resolver_fragment :: fragment_details where
  "resolver_fragment = \<lparr>fragment_definition = FragmentDefinitionNode (SelectionSetNode [a_field ''d'' None] None)
      None (NameNode (str ''F'') None) None None (NamedTypeNode (NameNode (str ''Query'') None) None) None,
    fragment_signatures = None\<rparr>"

definition example_executor :: "unit executor" where
  "example_executor =
     \<lparr>ex_schema = resolver_schema, ex_repr = (\<lambda>q. []), ex_fragments = [(str ''F'', resolver_fragment)], ex_root_value = PNone,
      ex_operation = resolver_operation, ex_variables = \<lparr>vv_sources = [], vv_coerced = []\<rparr>,
      ex_field_resolver = resolve_example, ex_type_resolver = (\<lambda>v info t w. (Inr PNone, w)), ex_middlewares = [],
      ex_error_propagation = True, ex_schema_field = TypeNameMetaFieldDef, ex_type_field = TypeNameMetaFieldDef, ex_fuel = 9\<rparr>"

definition example_data :: py_value where
  "example_data = PDict [(str ''a'', PStr (str ''x'')), (str ''items'', PNone), (str ''d'', PNone)]"

definition item_error :: field_error where
  "item_error = \<lparr>fe_error = TypeError (str ''Cannot return null for non-nullable field''),
     fe_path = Some [PathName (str ''items''), PathIndex 1]\<rparr>"

definition d_error :: field_error where
  "d_error = \<lparr>fe_error = ValueError (str ''no value''), fe_path = Some [PathName (str ''d'')]\<rparr>"

definition example_response :: response where
  "example_response = \<lparr>response_data = Some example_data,
     response_errors = [ResponseFieldError item_error, ResponseFieldError d_error]\<rparr>"

lemma example_executes: "execute_operation 9 example_executor None () = Some (Inr example_response, ())"
  by code_simp

lemma response_conforms_witness:
  "\<exists>collected. collect_fields (ex_context example_executor (str ''Query'')) resolver_operation = Inr collected
     \<and> object_conforms example_executor (str ''Query'') (grouped_field_set collected) example_data"
  using response_conforms [OF example_executes]
  by (auto simp: example_response_def example_executor_def resolver_operation_def resolver_schema_def)


definition example_additions :: "(field_error \<times> path) list" where
  "example_additions = [(item_error, [(PathName (str ''items''), None)]),
     (d_error, [(PathIndex 1, None), (PathName (str ''items''), None)])]"

lemma collected_errors_cover_witness:
  "error_positions (add_all example_additions \<lparr>world = (), error_positions = [], collected_errors = []\<rparr>)
     = [[(PathName (str ''items''), None)]]
   \<and> below [(PathName (str ''items''), None)] [(PathIndex 1, None), (PathName (str ''items''), None)]"
proof -
  have positions: "error_positions (add_all example_additions \<lparr>world = (), error_positions = [], collected_errors = []\<rparr>)
      = [[(PathName (str ''items''), None)]]"
    by (simp add: example_additions_def add_error_def add_all_def)
  have "(d_error, [(PathIndex 1, None), (PathName (str ''items''), None)]) \<in> set example_additions"
    by (simp add: example_additions_def)
  with collected_errors_cover [of example_additions "()"] positions show ?thesis by (fastforce simp: Let_def)
qed

lemma execution_responds_witness:
  "\<exists>N response. \<forall>n \<ge> N. execute_operation n (example_executor\<lparr>ex_fuel := n\<rparr>) None () = Some (Inr response, ())"
proof -
  have no_inputs: "get_type resolver_schema name \<noteq> Some (InputObjectType io)" for name io
    by (simp add: get_type_def resolver_schema_def)
  have env: "env_types (ex_env example_executor) = get_type resolver_schema" "env_repr (ex_env example_executor) = (\<lambda>q. [])"
    by (simp_all add: ex_env_def schema_env_def example_executor_def)
  have types: "get_type resolver_schema (str ''Boolean'') = Some (ScalarType (GraphQLBoolean (\<lambda>q. [])))"
    "get_type resolver_schema (str ''String'') = Some (ScalarType (GraphQLString (\<lambda>q. []) (\<lambda>n. [])))"
    "get_type resolver_schema (str ''Int'') = Some (ScalarType GraphQLInt)"
    by (simp_all add: get_type_def resolver_schema_def)
  have "fld_args field = []" if "get_field example_executor parent_type name = Some field" for parent_type name field
    using that by (auto simp: get_field_def GraphQLSchema_get_field_def get_type_def resolver_schema_def example_executor_def TypeNameMetaFieldDef_def
        Query_object_def resolver_field_def split: if_splits)
  then have arguments: "get_field example_executor parent_type name = Some field \<Longrightarrow>
      valid_arguments (ex_env example_executor) (fld_args field)" for parent_type name field
    by (simp add: valid_arguments_def)
  have "standard_executor example_executor"
    unfolding standard_executor_def standard_env_def valid_inputs_def env types
    using no_inputs arguments by (auto simp: example_executor_def resolver_fragment_def all_defined_def)
  moreover have "acyclic_fragments (ex_fragments example_executor) (\<lambda>name. 0)"
    and "wf_fragment_bodies (ex_fragments example_executor)"
    by (simp_all add: acyclic_fragments_def wf_fragment_bodies_def example_executor_def resolver_fragment_def spread_below_def
        a_field_def wf_directives_def wf_arguments_def)
  moreover have "all_in_set wf_local (op_selection_set (ex_operation example_executor))"
    by (simp add: example_executor_def resolver_operation_def a_field_def a_spread_def wf_directives_def
        skip_true_def wf_arguments_def wf_literal.simps)
  ultimately show ?thesis
    using execution_responds [of example_executor "\<lambda>name. 0" None "()"] by simp
qed

end
