(* ===== verification/Validation_Examples.thy ===== *)
theory Validation_Examples
  imports Validated_Fields Root_Field_Rule Executor_Examples
begin

text \<open>
  A schema with an interface and a query with a fragment on an object type, which are both valid: the properties of
  validation are applied to them.  A schema with two input objects that contain each other is not valid, and a mutation with
  a fragment that spreads itself has no end.
\<close>

section \<open>A valid schema and a valid document\<close>

definition Character_interface :: "unit interface_type" where
  "Character_interface = \<lparr>if_name = str ''Character'', if_fields = [(str ''name'', resolver_field (GNamed (str ''String'')))],
     if_interfaces = [], if_resolve_type = None\<rparr>"

definition Human_object :: "unit object_type" where
  "Human_object = \<lparr>obj_name = str ''Human'', obj_fields =
       [(str ''name'', resolver_field (GNonNull (GNamed (str ''String'')))), (str ''age'', resolver_field (GNamed (str ''Int'')))],
     obj_interfaces = [str ''Character''], obj_is_type_of = None\<rparr>"

definition Hero_query :: "unit object_type" where
  "Hero_query = \<lparr>obj_name = str ''Query'', obj_fields = [(str ''hero'', resolver_field (GNamed (str ''Character'')))],
     obj_interfaces = [], obj_is_type_of = None\<rparr>"

definition hero_schema :: "unit schema" where
  "hero_schema = \<lparr>query_type = Some (str ''Query''), mutation_type = None, subscription_type = None,
     type_map = [(str ''Query'', ObjectType Hero_query), (str ''Character'', InterfaceType Character_interface),
       (str ''Human'', ObjectType Human_object), (str ''Boolean'', ScalarType (GraphQLBoolean (\<lambda>q. []))),
       (str ''String'', ScalarType (GraphQLString (\<lambda>q. []) (\<lambda>n. []))), (str ''Int'', ScalarType GraphQLInt)],
     schema_directives = []\<rparr>"

definition hero_operation :: operation_definition_node where
  "hero_operation = OperationDefinitionNode
     (SelectionSetNode [FieldNode (NameNode (str ''hero'') None) None None None
         (Some (SelectionSetNode [a_field ''name'' None, a_spread ''F''] None)) None] None)
     None None None None QUERY None"

definition hero_fragment :: fragment_definition_node where
  "hero_fragment = FragmentDefinitionNode (SelectionSetNode [a_field ''age'' None] None)
      None (NameNode (str ''F'') None) None None (NamedTypeNode (NameNode (str ''Human'') None) None) None"

definition hero_meta :: "unit meta_fields" where
  "hero_meta = \<lparr>schema_field = TypeNameMetaFieldDef, type_field = TypeNameMetaFieldDef\<rparr>"

definition hero_context :: "unit validation_context" where
  "hero_context = \<lparr>vc_meta = hero_meta, vc_schema = hero_schema, vc_repr = (\<lambda>q. []),
     vc_document = DocumentNode [OperationDefinition hero_operation, FragmentDefinition hero_fragment] None 0,
     vc_max_errors = 100, vc_fuel = 9\<rparr>"

definition hero_rules :: "rule list" where
  "hero_rules = [FieldsOnCorrectTypeRule, UniqueFragmentNamesRule [], NoFragmentCyclesRule no_search, UniqueInputFieldNamesRule [] []]"

lemma hero_schema_valid: "assert_valid_schema 9 (\<lambda>q. []) hero_schema = Inr ()"
  by code_simp

lemma hero_valid: "validate hero_context hero_rules = Inr []"
  by code_simp

lemma hero_alone: "r \<in> set hero_rules \<Longrightarrow> validate hero_context [r] = Inr []"
  using hero_valid by (rule validate_composed)

lemma validate_composes_witness: "validate hero_context [NoFragmentCyclesRule no_search] = Inr []"
proof -
  have "NoFragmentCyclesRule no_search \<in> set hero_rules" by (simp add: hero_rules_def)
  with validate_composes [of hero_context hero_rules] hero_valid show ?thesis by blast
qed

lemma fragment_cycles_exact_witness: "acyclic (spread_graph (vc_document hero_context))"
proof -
  have "distinct (map fragment_name (fragment_defs (vc_document hero_context)))"
    by (simp add: hero_context_def fragment_defs_def)
  with fragment_cycles_exact [of hero_context] hero_alone show ?thesis by (simp add: hero_rules_def)
qed

lemma fields_on_correct_type_exact_witness:
  "fields_defined_in hero_context (Some (str ''Human'')) (frag_selection_set hero_fragment)"
proof -
  have "FragmentDefinition hero_fragment \<in> set (document_definitions (vc_document hero_context))"
    by (simp add: hero_context_def)
  moreover have "condition_scope hero_context (frag_type_condition hero_fragment) = Some (str ''Human'')"
    by code_simp
  moreover have "validate hero_context [FieldsOnCorrectTypeRule] = Inr []" by (rule hero_alone) (simp add: hero_rules_def)
  ultimately show ?thesis using fields_on_correct_type_exact [of hero_context] by metis
qed

section \<open>Its execution\<close>

text \<open>Every field gives the text of its own name, and every character is human.\<close>

definition hero_request :: "unit request" where
  "hero_request = \<lparr>rq_schema = hero_schema, rq_repr = (\<lambda>q. []), rq_root_value = PNone, rq_variables = [], rq_operation_name = None,
     rq_field_resolver = Some resolve_example, rq_type_resolver = Some (\<lambda>v info t w. (Inr (PStr (str ''Human'')), w)),
     rq_max_coercion_errors = 50, rq_middlewares = [], rq_schema_field = TypeNameMetaFieldDef, rq_type_field = TypeNameMetaFieldDef,
     rq_objects = \<lparr>ob_attribute = (\<lambda>v name w. (Inr PUndefined, w)), ob_callable = (\<lambda>v. None), ob_typename = (\<lambda>v. PUndefined)\<rparr>\<rparr>"

definition hero_executor :: "unit executor" where
  "hero_executor = Executor_init hero_request
     [(str ''F'', \<lparr>fragment_definition = hero_fragment, fragment_signatures = None\<rparr>)] hero_operation
     \<lparr>vv_sources = [], vv_coerced = []\<rparr> 9"

lemma hero_executor_parts:
  "ex_schema hero_executor = hero_schema" "ex_schema_field hero_executor = TypeNameMetaFieldDef"
  "ex_type_field hero_executor = TypeNameMetaFieldDef" "ex_operation hero_executor = hero_operation"
  "ex_fragments hero_executor = [(str ''F'', \<lparr>fragment_definition = hero_fragment, fragment_signatures = None\<rparr>)]"
  "ex_variables hero_executor = \<lparr>vv_sources = [], vv_coerced = []\<rparr>" "ex_repr hero_executor = (\<lambda>q. [])"
  by (simp_all add: hero_executor_def Executor_init_def hero_request_def)

lemma hero_built: "build 9 hero_request (document_definitions (vc_document hero_context)) = Inr (Inr hero_executor)"
  by (simp add: build_def hero_context_def build_definition_def hero_request_def hero_executor_def hero_operation_def hero_fragment_def
      get_variable_values_def)

lemma hero_field:
  assumes "get_field hero_executor parent_type name = Some field"
  shows "fld_args field = []"
  using assms by (auto simp: get_field_def GraphQLSchema_get_field_def get_type_def hero_schema_def hero_executor_parts
      TypeNameMetaFieldDef_def Hero_query_def Human_object_def Character_interface_def resolver_field_def split: if_splits)

lemma hero_standard: "standard_executor hero_executor"
proof -
  have no_inputs: "get_type hero_schema name \<noteq> Some (InputObjectType io)" for name io
    by (simp add: get_type_def hero_schema_def)
  have env: "env_types (ex_env hero_executor) = get_type hero_schema" "env_repr (ex_env hero_executor) = (\<lambda>q. [])"
    by (simp_all add: ex_env_def schema_env_def hero_executor_parts)
  have types: "get_type hero_schema (str ''Boolean'') = Some (ScalarType (GraphQLBoolean (\<lambda>q. [])))"
    "get_type hero_schema (str ''String'') = Some (ScalarType (GraphQLString (\<lambda>q. []) (\<lambda>n. [])))"
    "get_type hero_schema (str ''Int'') = Some (ScalarType GraphQLInt)"
    by (simp_all add: get_type_def hero_schema_def)
  show ?thesis
    unfolding standard_executor_def standard_env_def valid_inputs_def env types
    using no_inputs hero_field by (auto simp: hero_executor_parts all_defined_def valid_arguments_def)
qed

lemma validated_responds_witness:
  "\<exists>N response w'. \<forall>n \<ge> N. execute_operation n (hero_executor\<lparr>ex_fuel := n\<rparr>) None () = Some (Inr response, w')"
  using validated_responds [OF hero_valid _ hero_built hero_standard] by (simp add: hero_rules_def)

lemma hero_validated: "validated hero_context hero_executor"
proof -
  have "named_consistently hero_schema"
    by (simp add: named_consistently_def hero_schema_def Hero_query_def Character_interface_def Human_object_def GraphQLBoolean_def
        GraphQLString_def GraphQLInt_def scalar_def)
  moreover have "executes_document hero_executor (vc_document hero_context)" using hero_built by (rule build_executes)
  moreover have "validate_request hero_context hero_rules = Inr []"
    using hero_schema_valid hero_valid by (simp add: validate_request_def hero_context_def)
  moreover have "FieldsOnCorrectTypeRule \<in> set hero_rules" by (simp add: hero_rules_def)
  ultimately show ?thesis
    unfolding validated_def by (auto simp: hero_executor_parts hero_context_def hero_meta_def)
qed

definition hero_details :: field_details where
  "hero_details = \<lparr>fd_node = FieldNode (NameNode (str ''hero'') None) None None None
       (Some (SelectionSetNode [a_field ''name'' None, a_spread ''F''] None)) None,
     fd_defer_usage = None, fd_fragment_values = None\<rparr>"

definition human_groups :: "(pystr \<times> field_details list) list" where
  "human_groups =
     [(str ''name'', [\<lparr>fd_node = a_field ''name'' None, fd_defer_usage = None, fd_fragment_values = None\<rparr>]),
      (str ''age'', [\<lparr>fd_node = a_field ''age'' None, fd_defer_usage = None, fd_fragment_values = None\<rparr>])]"

lemma hero_groups: "executed_groups hero_executor (str ''Query'') [(str ''hero'', [hero_details])]"
proof -
  have "map_sum id grouped_field_set (collect_fields (ex_context hero_executor (str ''Query'')) hero_operation)
      = Inr [(str ''hero'', [hero_details])]"
    by code_simp
  then obtain collected where "collect_fields (ex_context hero_executor (str ''Query'')) (ex_operation hero_executor) = Inr collected"
    "grouped_field_set collected = [(str ''hero'', [hero_details])]"
    by (cases "collect_fields (ex_context hero_executor (str ''Query'')) hero_operation") (auto simp: hero_executor_parts)
  with executed_root [of hero_executor "str ''Query''" collected] show ?thesis
    by (simp add: hero_executor_parts hero_schema_def hero_operation_def)
qed

lemma human_groups: "executed_groups hero_executor (str ''Human'') human_groups"
proof -
  have "map_sum id grouped_field_set (collect_subfields (ex_context hero_executor (str ''Human'')) [hero_details]) = Inr human_groups"
    by code_simp
  then obtain collected where collected: "collect_subfields (ex_context hero_executor (str ''Human'')) [hero_details] = Inr collected"
    "grouped_field_set collected = human_groups"
    by (cases "collect_subfields (ex_context hero_executor (str ''Human'')) [hero_details]") auto
  have "get_field hero_executor (str ''Query'') (str ''hero'') = Some (resolver_field (GNamed (str ''Character'')))"
    by (simp add: get_field_def GraphQLSchema_get_field_def hero_executor_parts get_type_def hero_schema_def Hero_query_def)
  moreover have "runtime_type hero_schema (str ''Human'') (str ''Character'')"
    by (simp add: runtime_type_def is_object_name_def member_of_def get_type_def hero_schema_def Human_object_def)
  moreover have "of_one_field (str ''hero'') [hero_details]" by (simp add: of_one_field_def hero_details_def)
  ultimately show ?thesis
    using executed_below [OF hero_groups _ _ _ _ collected(1)] collected(2) by (auto simp: hero_executor_parts resolver_field_def)
qed

lemma validated_fields_defined_witness:
  "response_names hero_executor (str ''Human'') human_groups = [str ''name'', str ''age'']"
  using validated_fields_defined [OF hero_validated human_groups] by (simp add: human_groups_def)

section \<open>Cycles\<close>

definition input_field :: "string \<Rightarrow> input_value" where
  "input_field type_name = \<lparr>iv_type = GNonNull (GNamed (str type_name)), iv_default_value = PUndefined, iv_default = None,
     iv_out_name = None, iv_deprecation_reason = None\<rparr>"

definition input_object :: "string \<Rightarrow> string \<Rightarrow> input_object_type" where
  "input_object type_name other = \<lparr>io_name = str type_name, io_fields = [(str ''other'', input_field other)],
     io_out_type = (\<lambda>d. Inr (PDict d)), io_is_one_of = False\<rparr>"

definition circular_schema :: "unit schema" where
  "circular_schema = hero_schema\<lparr>type_map := type_map hero_schema @
     [(str ''A'', InputObjectType (input_object ''A'' ''B'')), (str ''B'', InputObjectType (input_object ''B'' ''A''))]\<rparr>"

lemma non_null_cycles_exact_witness: "\<not> acyclic (non_null_graph circular_schema)"
proof -
  have "validate_schema 3 (\<lambda>q. []) circular_schema = Inr [(circular_message, [str ''A'', str ''other'', str ''other''])]"
    by code_simp
  moreover have "distinct (map fst (type_map circular_schema))" by (simp add: circular_schema_def hero_schema_def)
  ultimately show ?thesis using non_null_cycles_exact [of 3 "\<lambda>q. []" circular_schema] by simp
qed

text \<open>A mutation that spreads a fragment that spreads itself: no fuel is enough for the rule.\<close>

definition endless_fragment :: fragment_definition_node where
  "endless_fragment = FragmentDefinitionNode (SelectionSetNode [a_spread ''F''] None)
      None (NameNode (str ''F'') None) None None (NamedTypeNode (NameNode (str ''Query'') None) None) None"

lemma root_field_rule_returns_witness: "\<not> (\<exists>n result. forbid_defer_stream n [(str ''F'', endless_fragment)] [a_spread ''F''] {} = Some result)"
proof -
  let ?fragments = "[(str ''F'', endless_fragment)]"
  have "(str ''F'', str ''F'') \<in> top_graph ?fragments" by (simp add: top_graph_def endless_fragment_def a_spread_def)
  then have "leads_to_cycle ?fragments (str ''F'')" by (auto simp: leads_to_cycle_def)
  then have "\<exists>s \<in> set [a_spread ''F'']. \<exists>name \<in> top_spreads s. leads_to_cycle ?fragments name" by (simp add: a_spread_def)
  with root_field_rule_returns [of ?fragments "[a_spread ''F'']"] show ?thesis by blast
qed

end
