(* ===== verification/Spec2Isabelle.thy ===== *)
theory Spec2Isabelle
  imports Parser_Limit Round_Trip Visitor_Corners Referenced_Fragments Validation_Examples
begin

text \<open>
  A model of GraphQL-core, the Python implementation of GraphQL (\<open>src/src/graphql\<close>), with the
  theorems that make its parts correct.

  \<^bold>\<open>The program.\<close>  A request is a text.  The lexer (\<open>language/lexer.py\<close>) turns it into a linked list
  of tokens, the recursive descent parser (\<open>language/parser.py\<close>) turns the tokens into a tree of
  nodes (\<open>language/ast.py\<close>), the printer (\<open>language/printer.py\<close>) turns a tree into text again, and
  \<open>visit\<close> (\<open>language/visitor.py\<close>) walks over trees with the visitors of the library's users.  A request is executed
  against a schema (\<open>type\<close>) once \<open>validate_schema\<close> (\<open>type/validate.py\<close>) has checked the schema and \<open>validate\<close>
  (\<open>validation\<close>) the document with many rules in one visit: the values of its variables and arguments are coerced to the input types
  (\<open>utilities/coerce_input_value.py\<close>, \<open>execution/values.py\<close>), the fields of an operation are
  collected from its selections and fragments (\<open>execution/collect_fields.py\<close>), and the executor
  (\<open>execution/executor.py\<close>) calls the resolvers and completes their results, errors included.

  \<^bold>\<open>Theories of the language.\<close>
  \<^item> \<open>Prelude\<close>: Python's \<open>str\<close> as lists of code points with the methods the code uses, exceptions as
    values, scanning loops.
  \<^item> \<open>Source_Location\<close>: \<open>Source\<close>, \<open>get_location\<close>, \<open>print_source_location\<close>.
  \<^item> \<open>Ast\<close>: token kinds, tokens, and every node class as a constructor.  \<open>Ast_Wf\<close>: the lexical grammar
    and the trees of the grammar, stated without the code that reads them.
  \<^item> \<open>Block_String\<close>: \<open>block_string.py\<close> and \<open>print_string.py\<close>.
  \<^item> \<open>Lexer\<close>: the reading functions of the lexer.  \<open>Token_Stream\<close>: the lexer object with \<open>advance\<close> and
    \<open>lookahead\<close>, the lexer of schema coordinates, and the locale \<open>token_reader\<close>, the contract between
    a lexer class and the parser; it is interpreted on both lexers.
  \<^item> \<open>Parser_Core\<close>, \<open>Parser\<close>, \<open>Parser_Schema\<close>: the parser object as a state and exception monad, one
    definition per method, and the entry points.
  \<^item> \<open>Parser_Progress\<close>: every method eats a token or fails, so the fuel of the recursive methods (the
    number of characters left, plus constants) never runs out: the entry points always return.
  \<^item> \<open>Parser_Limit\<close>: the option \<open>max_tokens\<close>.
  \<^item> \<open>Lexer_Sound\<close>, \<open>Parser_Sound\<close>: names and numbers are in the lexical grammar, documents are trees of
    the grammar.
  \<^item> \<open>Printer\<close>: the methods of the printing visitor as functions of the printed children.
  \<^item> \<open>Block_Lexing\<close>, \<open>Text_Lexing\<close>: the lexer reads every text of the lexical grammar, at every depth of
    indentation; \<open>layout\<close> relates token lists and texts.
  \<^item> \<open>Ast_Tokens\<close>: the tokens of a tree.  \<open>Parser_Complete\<close>, \<open>Document_Complete\<close>: the parser accepts
    the tokens of every tree of the grammar and gives the tree.
  \<^item> \<open>Printer_Layout\<close>, \<open>Round_Trip\<close>: printed trees are laid-out texts of their tokens, so that printing
    and parsing give the tree back.
  \<^item> \<open>Visitor\<close>: the loop of \<open>visit\<close> with its stack of frames, keys, edits and paths, over nodes with named
    children; visitors are functions with a state.  \<open>Visitor_Walk\<close>: the traversal as a recursive function,
    the abstract specification.  \<open>Visitor_Facts\<close>: the loop computes the traversal; what visitors see.
    \<open>Visitor_Rewrite\<close>: visitors that replace nodes.  \<open>Visitor_Parallel\<close>: \<open>ParallelVisitor\<close>.
    \<open>Visitor_Corners\<close>: where the code does not do what it documents.

  \<^bold>\<open>Theories of types and values.\<close>
  \<^item> \<open>Py_Value\<close>: the values of Python that reach the library, with \<open>None\<close>, \<open>Undefined\<close>, numbers and objects.
  \<^item> \<open>Type_System\<close>: types as records that refer to each other by name, the schema and its lookups, enum
    values, comparison of types.  \<open>Type_Facts\<close>: the order of types, types that overlap.
  \<^item> \<open>Scalars\<close>: the functions of the built-in scalars.  \<open>Scalar_Facts\<close>: their ranges, and the locale
    \<open>leaf_codec\<close>, the contract of a leaf type, interpreted on each of them.
  \<^item> \<open>Input_Coercion\<close>: coercion of values and literals to input types.  \<open>Input_Validation\<close>: the validation with
    located reports.  \<open>Input_Agreement\<close>, \<open>Literal_Agreement\<close>: both decide the same inputs.
  \<^item> \<open>Variable_Values\<close>: the values of variables, arguments and directives.  \<open>Variable_Facts\<close>: they are what the
    definitions ask for.

  \<^bold>\<open>Theories of execution.\<close>
  \<^item> \<open>Collect_Fields\<close>: the functions of \<open>collect_fields.py\<close>.  \<open>Collect_Facts\<close>: which fields are collected, in
    groups without duplicates.  \<open>Collect_Returns\<close>: collecting ends, on cyclic fragments too.
  \<^item> \<open>Executor\<close>: the executor on resolvers that return no awaitables, as a state and exception monad over the state of
    the world and the collected errors.  \<open>Executor_Types\<close>: the data has the types of the schema.
    \<open>Executor_Errors\<close>: every error stands for a null.  \<open>Executor_Returns\<close>: execution ends in a response.
    \<open>Executor_Examples\<close>: a query on which the properties are evaluated.

  \<^bold>\<open>Theories of validation.\<close>
  \<^item> \<open>Ast_Nodes\<close>: a document as a tree of nodes, with the children in the order of \<open>visit\<close>.  \<open>Type_Info\<close>: the stacks of
    \<open>TypeInfo\<close> (\<open>utilities/type_info.py\<close>) and what every kind of node does to them.
  \<^item> \<open>Validation_Context\<close>: \<open>ValidationContext\<close>, its fragments, spreads and usages of variables.  \<open>Validation_Rules\<close> and
    \<open>Validation\<close>: a rule is a value with the state of its object, \<open>rule_enter\<close> and \<open>rule_leave\<close> are the methods that the visitor
    picks for a node, each with a definition of its own, and \<open>visit_tree\<close> is the visit with type information and all rules
    in parallel; an outcome has the reports, the state behind and whether the node is skipped.
  \<^item> \<open>Cycle_Search\<close>: the locale \<open>cycle_search\<close>, the depth-first search that the library writes down for fragments and for
    input objects: with enough fuel it returns, and it finds a cycle exactly when there is one.  It is interpreted in
    \<open>Fragment_Cycles\<close> on the spreads of a document and in \<open>Schema_Facts\<close> on the non-null fields of input objects.
  \<^item> \<open>Validation_Walk\<close>: the rules of a visit do not disturb each other, so each of them can be looked at alone.
    \<open>Fragment_Cycles\<close>: which documents the rules on fragment names and fragment cycles accept.  \<open>Fields_Defined\<close>: which
    documents \<open>FieldsOnCorrectTypeRule\<close> accepts.  \<open>Referenced_Fragments\<close>: the fragments that an operation reaches.
    \<open>Root_Field_Rule\<close>: on which documents \<open>forbid_defer_stream\<close> returns, and that it has no end on cyclic fragments.
  \<^item> \<open>Schema_Validation\<close>: \<open>validate_schema\<close> with all its checks.  \<open>Schema_Facts\<close>: what a schema without errors is like, and
    which input objects are reported as circular.
  \<^item> \<open>Validated_Execution\<close>: an operation of a validated document ends in a response.  \<open>Validated_Fields\<close>: the locale
    \<open>collected_details\<close> takes a property of selections over to the fields that are collected from them; interpreted on the
    selections that are valid for the type of the object, it shows that the executor leaves no field out.
    \<open>Validation_Examples\<close>: a schema and a query on which the properties are evaluated.

  \<^bold>\<open>Fuel.\<close>  The mutually recursive methods of the parser take fuel, which is set to the number of
  tokens that can still come (the length of the text plus the tokens already linked, plus two); the
  theorem \<open>parse_entry_points_return\<close> shows that it is enough on every input.  \<open>visit\<close> takes as many steps as its fuel
  says; \<open>visit_returns\<close> shows that enough of them exist.  Coercion runs through default values of input objects and is
  given fuel for the nesting of values and defaults; out of fuel it gives the exception \<open>OutOfFuel\<close>, and
  the two theorems on validation show that for some fuel and all above it the result is an answer.
  Collecting has fuel for the nesting of selections and the fragments that can still be entered
  (\<open>collect_fields_returns\<close>), and the executor has fuel for the depth of the response and passes the fuel of coercions on;
  its result is \<open>None\<close> when either runs out, and \<open>execution_responds\<close> shows that this does not last.  The search for
  fragment cycles has two more rounds than there are definitions and the search for circular input objects one more than
  there are types, which is enough by the lemma \<open>search_all_returns\<close> of the locale and \<open>non_null_search_returns\<close>; the
  loop over referenced fragments has one more than there are fragments (\<open>referenced_fragments_exact\<close>).  The rules that recur
  through fragments without such a bound take the fuel \<open>vc_fuel\<close> of the context, and the search through default values the
  fuel of \<open>validate_schema\<close>; without fuel their answer is the exception \<open>OutOfFuel\<close>.

  \<^bold>\<open>Not modelled.\<close>  Python's object identity and the dynamic features of \<open>Node\<close>; the texts of types
  and values in the messages of errors, and the nodes of errors; of the type system the constructors' checks, thunks and the
  collection of types; awaitables, abort signals, hooks, memo tables, subscriptions and incremental delivery in the executor;
  the resolvers of introspection.  Of the validation rules \<open>OverlappingFieldsCanBeMergedRule\<close> and those that only
  \<open>validate_sdl\<close> uses are left out; therefore \<open>validated_fields_defined\<close> asks that the fields of one response name have
  one field name.  The utilities that build, extend, print and compare schemas work on the Python objects of the type
  system and are not modelled.
\<close>

end
